(* ===== verification/Onyx_Prelude.thy ===== *)
theory Onyx_Prelude
  imports Main "HOL-Library.Word" "HOL-Library.Signed_Division"
begin

text \<open>
  Shared vocabulary of the OnyxCC development: machine words under the C names of their
  widths, the error monad on sums, little-endian byte strings, and the generic lemmas on
  bit fields, byte lists and results that the component theories use.
\<close>

unbundle bit_operations_syntax

type_synonym u8 = "8 word"
type_synonym u16 = "16 word"
type_synonym u32 = "32 word"
type_synonym u64 = "64 word"

text \<open>The bytes of a C string literal, without the terminating NUL.\<close>

definition bytes_of :: "string \<Rightarrow> u8 list" where
  "bytes_of s = map of_char s"

subsection \<open>Results: an error on the left, a value on the right\<close>

definition bindE :: "'e + 'a \<Rightarrow> ('a \<Rightarrow> 'e + 'b) \<Rightarrow> 'e + 'b" where
  "bindE m f = (case m of Inl e \<Rightarrow> Inl e | Inr a \<Rightarrow> f a)"

lemma bindE_simps [simp]:
  "bindE (Inl e) f = Inl e"
  "bindE (Inr a) f = f a"
  by (simp_all add: bindE_def)

lemma bindE_eq_Inr:
  "bindE m f = Inr b \<longleftrightarrow> (\<exists>a. m = Inr a \<and> f a = Inr b)"
  by (cases m) auto

lemma bindE_assoc: "bindE (bindE m f) g = bindE m (\<lambda>x. bindE (f x) g)"
  by (cases m) auto

subsection \<open>Words bit by bit\<close>

text \<open>
  The encoders and decoders of the sources move bit fields with shifts and masks. Two words
  are equal when they agree on each of their bits; with the bit positions as numerals the
  simplifier decides every position on its own, which is how the field lemmas of the
  component theories are proved.
\<close>

lemma word_eqI_list:
  "list_all (\<lambda>n. bit a n = bit b n) [0..<LENGTH('a)] \<Longrightarrow> a = (b :: 'a::len word)"
  by (rule bit_word_eqI) (simp add: list_all_iff)

lemma word8_eqI:
  fixes a b :: "8 word"
  shows "\<lbrakk>bit a 0 = bit b 0; bit a 1 = bit b 1; bit a 2 = bit b 2; bit a 3 = bit b 3;
    bit a 4 = bit b 4; bit a 5 = bit b 5; bit a 6 = bit b 6; bit a 7 = bit b 7\<rbrakk>
    \<Longrightarrow> a = b"
  by (rule word_eqI_list) (simp add: upt_rec eval_nat_numeral)

lemma word32_eqI:
  fixes a b :: "32 word"
  shows "\<lbrakk>bit a 0 = bit b 0; bit a 1 = bit b 1; bit a 2 = bit b 2; bit a 3 = bit b 3;
    bit a 4 = bit b 4; bit a 5 = bit b 5; bit a 6 = bit b 6; bit a 7 = bit b 7;
    bit a 8 = bit b 8; bit a 9 = bit b 9; bit a 10 = bit b 10; bit a 11 = bit b 11;
    bit a 12 = bit b 12; bit a 13 = bit b 13; bit a 14 = bit b 14; bit a 15 = bit b 15;
    bit a 16 = bit b 16; bit a 17 = bit b 17; bit a 18 = bit b 18; bit a 19 = bit b 19;
    bit a 20 = bit b 20; bit a 21 = bit b 21; bit a 22 = bit b 22; bit a 23 = bit b 23;
    bit a 24 = bit b 24; bit a 25 = bit b 25; bit a 26 = bit b 26; bit a 27 = bit b 27;
    bit a 28 = bit b 28; bit a 29 = bit b 29; bit a 30 = bit b 30; bit a 31 = bit b 31\<rbrakk>
    \<Longrightarrow> a = b"
  by (rule word_eqI_list) (simp add: upt_rec eval_nat_numeral)

lemma word64_eqI:
  fixes a b :: "64 word"
  shows "\<lbrakk>bit a 0 = bit b 0; bit a 1 = bit b 1; bit a 2 = bit b 2; bit a 3 = bit b 3;
    bit a 4 = bit b 4; bit a 5 = bit b 5; bit a 6 = bit b 6; bit a 7 = bit b 7;
    bit a 8 = bit b 8; bit a 9 = bit b 9; bit a 10 = bit b 10; bit a 11 = bit b 11;
    bit a 12 = bit b 12; bit a 13 = bit b 13; bit a 14 = bit b 14; bit a 15 = bit b 15;
    bit a 16 = bit b 16; bit a 17 = bit b 17; bit a 18 = bit b 18; bit a 19 = bit b 19;
    bit a 20 = bit b 20; bit a 21 = bit b 21; bit a 22 = bit b 22; bit a 23 = bit b 23;
    bit a 24 = bit b 24; bit a 25 = bit b 25; bit a 26 = bit b 26; bit a 27 = bit b 27;
    bit a 28 = bit b 28; bit a 29 = bit b 29; bit a 30 = bit b 30; bit a 31 = bit b 31;
    bit a 32 = bit b 32; bit a 33 = bit b 33; bit a 34 = bit b 34; bit a 35 = bit b 35;
    bit a 36 = bit b 36; bit a 37 = bit b 37; bit a 38 = bit b 38; bit a 39 = bit b 39;
    bit a 40 = bit b 40; bit a 41 = bit b 41; bit a 42 = bit b 42; bit a 43 = bit b 43;
    bit a 44 = bit b 44; bit a 45 = bit b 45; bit a 46 = bit b 46; bit a 47 = bit b 47;
    bit a 48 = bit b 48; bit a 49 = bit b 49; bit a 50 = bit b 50; bit a 51 = bit b 51;
    bit a 52 = bit b 52; bit a 53 = bit b 53; bit a 54 = bit b 54; bit a 55 = bit b 55;
    bit a 56 = bit b 56; bit a 57 = bit b 57; bit a 58 = bit b 58; bit a 59 = bit b 59;
    bit a 60 = bit b 60; bit a 61 = bit b 61; bit a 62 = bit b 62; bit a 63 = bit b 63\<rbrakk>
    \<Longrightarrow> a = b"
  by (rule word_eqI_list) (simp add: upt_rec eval_nat_numeral)

lemma bit_times_2:
  "bit (w * 2 :: 'a::len word) n \<longleftrightarrow> 0 < n \<and> n < LENGTH('a) \<and> bit w (n - 1)"
  using bit_double_iff [of w n] by (auto simp: mult.commute [of w 2])

lemma bit_Suc_nums:
  "bit a (Suc (Suc 0)) = bit a 2"
  "bit a (Suc (Suc (Suc 0))) = bit a 3"
  by (simp_all add: numeral_2_eq_2 numeral_3_eq_3)

lemma bit_beyond:
  "8 \<le> n \<Longrightarrow> bit (a :: 8 word) n = False"
  "16 \<le> n \<Longrightarrow> bit (c :: 16 word) n = False"
  "32 \<le> n \<Longrightarrow> bit (b :: 32 word) n = False"
  "64 \<le> n \<Longrightarrow> bit (d :: 64 word) n = False"
  by (auto dest: bit_imp_le_length)

lemmas field_bits = bit_simps bit_times_2 bit_Suc_nums bit_beyond

lemma word_sign_flip:
  fixes v :: "'a::len word"
  assumes "n < LENGTH('a)"
  shows "(v XOR push_bit n 1) - push_bit n 1 = (if bit v n then v - 2 * push_bit n 1 else v)"
proof (cases "bit v n")
  case True
  have "v = (v XOR push_bit n 1) + push_bit n 1"
    by (subst disjunctive_add) (use True assms in \<open>auto simp: bit_simps intro!: bit_word_eqI\<close>)
  then have "v XOR push_bit n 1 = v - push_bit n 1"
    by (metis add_diff_cancel_right')
  then show ?thesis using True by (simp add: algebra_simps)
next
  case False
  have "v XOR push_bit n 1 = v + push_bit n 1"
    by (subst disjunctive_add) (use False assms in \<open>auto simp: bit_simps intro!: bit_word_eqI\<close>)
  then show ?thesis using False by simp
qed

lemma word_sign_extend:
  fixes v :: "'a::len word"
  assumes "n < LENGTH('a)" and "take_bit (Suc n) v = v"
  shows "(v XOR push_bit n 1) - push_bit n 1 = signed_take_bit n v"
  unfolding word_sign_flip [OF assms(1)] signed_take_bit_eq_take_bit_minus
  using assms(2) by (simp add: push_bit_eq_mult mult.commute)

lemma signed_take_bit_word_self:
  fixes w :: "'a::len word"
  assumes "- (2 ^ n) \<le> sint w" and "sint w < 2 ^ n"
  shows "signed_take_bit n w = w"
proof -
  have "signed_take_bit n (sint w) = sint w"
    using assms by (simp add: signed_take_bit_int_eq_self)
  then have "signed_take_bit n (word_of_int (sint w) :: 'a word) = word_of_int (sint w)"
    by (metis signed_take_bit_of_int)
  then show ?thesis by simp
qed

lemma scast_signed_take_bit:
  fixes w :: "'a::len word"
  assumes "n < LENGTH('a)" "LENGTH('a) \<le> LENGTH('b::len)"
  shows "(scast (signed_take_bit n w) :: 'b word) = signed_take_bit n (ucast (take_bit (Suc n) w))"
  by (rule bit_word_eqI) (use assms in \<open>auto simp: bit_simps min_def\<close>)

subsection \<open>Little-endian byte strings\<close>

text \<open>
  The reference byte layout of 32- and 64-bit words. Every writer of the sources
  (\<^verbatim>\<open>cc_buf_push32\<close>, \<^verbatim>\<open>put_u32le\<close>, \<^verbatim>\<open>wr_u32\<close>, \<^verbatim>\<open>mem_write\<close>, ...) is shown to produce it, and every
  reader to invert it.
\<close>

primrec le_bytes :: "nat \<Rightarrow> 'a::len word \<Rightarrow> u8 list" where
  "le_bytes 0 v = []"
| "le_bytes (Suc n) v = ucast v # le_bytes n (drop_bit 8 v)"

primrec un_le :: "u8 list \<Rightarrow> 'a::len word" where
  "un_le [] = 0"
| "un_le (b # bs) = ucast b OR push_bit 8 (un_le bs)"

abbreviation le32 :: "u32 \<Rightarrow> u8 list" where
  "le32 v \<equiv> le_bytes 4 v"

abbreviation le64 :: "u64 \<Rightarrow> u8 list" where
  "le64 v \<equiv> le_bytes 8 v"

lemma length_le_bytes [simp]: "length (le_bytes n v) = n"
  by (induction n arbitrary: v) auto

lemma nth_le_bytes:
  "i < n \<Longrightarrow> le_bytes n v ! i = ucast (drop_bit (8 * i) v)"
proof (induction n arbitrary: v i)
  case 0
  then show ?case by simp
next
  case (Suc n)
  then show ?case by (cases i) (simp_all add: drop_bit_drop_bit add.commute)
qed

lemma le_bytes_eq_map: "le_bytes n v = map (\<lambda>i. ucast (drop_bit (8 * i) v)) [0..<n]"
  by (rule nth_equalityI) (simp_all add: nth_le_bytes)

lemma un_le_le_bytes:
  "un_le (le_bytes n v) = take_bit (8 * n) (v :: 'a::len word)"
proof (induction n arbitrary: v)
  case 0
  then show ?case by simp
next
  case (Suc n)
  have "ucast (ucast v :: u8) OR push_bit 8 (take_bit (8 * n) (drop_bit 8 v)) = take_bit (8 * Suc n) v"
    by (rule bit_word_eqI) (auto simp: bit_simps)
  with Suc.IH show ?case by simp
qed

lemma un_le_le32 [simp]: "un_le (le32 v) = v"
  by (simp add: un_le_le_bytes take_bit_word_eq_self)

lemma un_le_le64 [simp]: "un_le (le64 v) = v"
  by (simp add: un_le_le_bytes take_bit_word_eq_self)

lemma le_bytes_4:
  "le_bytes 4 v = [ucast v, ucast (drop_bit 8 v), ucast (drop_bit 16 v), ucast (drop_bit 24 v)]"
  by (simp add: le_bytes_eq_map upt_rec eval_nat_numeral)

lemma le_bytes_8:
  "le_bytes 8 v = [ucast v, ucast (drop_bit 8 v), ucast (drop_bit 16 v), ucast (drop_bit 24 v),
    ucast (drop_bit 32 v), ucast (drop_bit 40 v), ucast (drop_bit 48 v), ucast (drop_bit 56 v)]"
  by (simp add: le_bytes_eq_map upt_rec eval_nat_numeral)

lemma un_le_4:
  "un_le [a, b, c, d] =
    ucast a OR push_bit 8 (ucast b) OR push_bit 16 (ucast c) OR push_bit 24 (ucast d)"
  by (simp add: push_bit_or or.assoc)

lemma un_le_append:
  "un_le (xs @ ys) = un_le xs OR push_bit (8 * length xs) (un_le ys :: 'a::len word)"
  by (induction xs) (simp_all add: push_bit_or or.assoc add.commute)

lemma bit_un_le_bound: "bit (un_le bs :: 'a::len word) m \<Longrightarrow> m < 8 * length bs"
  by (induction bs arbitrary: m) (force simp: bit_simps dest: bit_imp_le_length)+

lemma ucast_un_le:
  "length bs * 8 \<le> LENGTH('a) \<Longrightarrow> ucast (drop_bit (8 * i) (un_le bs :: 'a::len word)) =
    (if i < length bs then bs ! i else 0)"
proof (induction bs arbitrary: i)
  case Nil
  then show ?case by simp
next
  case (Cons b bs)
  show ?case
  proof (cases i)
    case 0
    have "ucast (ucast b OR push_bit 8 (un_le bs) :: 'a word) = b"
      using Cons.prems by (intro bit_word_eqI) (auto simp: bit_simps)
    with 0 show ?thesis by simp
  next
    case (Suc j)
    have "drop_bit (8 * i) (ucast b OR push_bit 8 (un_le bs) :: 'a word) = drop_bit (8 * j) (un_le bs)"
      using Suc Cons.prems by (intro bit_word_eqI) (auto simp: bit_simps bit_beyond dest: bit_un_le_bound)
    with Suc Cons show ?thesis by simp
  qed
qed

lemma le_bytes_un_le:
  assumes "length bs * 8 \<le> LENGTH('a)"
  shows "le_bytes (length bs) (un_le bs :: 'a::len word) = bs"
  by (rule nth_equalityI) (simp_all add: nth_le_bytes ucast_un_le assms)

lemma le32_inj: "le32 v = le32 w \<Longrightarrow> v = w"
  by (metis un_le_le32)

lemma le64_inj: "le64 v = le64 w \<Longrightarrow> v = w"
  by (metis un_le_le64)

lemma unat_u64: "n < 2 ^ 64 \<Longrightarrow> unat (word_of_nat n :: u64) = n"
  by (simp add: unat_of_nat)

lemma unat_u32: "n < 2 ^ 32 \<Longrightarrow> unat (word_of_nat n :: u32) = n"
  by (simp add: unat_of_nat)

subsection \<open>Rounding up to a power of two\<close>

text \<open>
  \<^verbatim>\<open>(x + a - 1) & ~(a - 1)\<close> on \<^verbatim>\<open>uint64_t\<close>, as the buffers, both emitters, the linker and the
  loader write it.
\<close>

definition align_up :: "u64 \<Rightarrow> u64 \<Rightarrow> u64" where
  "align_up x a = (x + a - 1) AND NOT (a - 1)"

lemma and_not_mask_eq:
  fixes w :: "'a::len word"
  shows "w AND NOT (mask k) = w - take_bit k w"
proof -
  have "w = (w AND NOT (mask k)) OR take_bit k w"
    by (rule bit_word_eqI) (auto simp: bit_simps)
  also have "\<dots> = (w AND NOT (mask k)) + take_bit k w"
    by (rule disjunctive_add [symmetric]) (auto simp: bit_simps)
  finally show ?thesis by (metis add_diff_cancel_right')
qed

lemma unat_and_not_mask:
  fixes w :: "'a::len word"
  shows "unat (w AND NOT (mask k)) = unat w div 2 ^ k * 2 ^ k"
proof -
  have "take_bit k w \<le> w"
    by (metis take_bit_nat_less_eq_self unsigned_take_bit_eq word_le_nat_alt)
  then have "unat (w - take_bit k w) = unat w - unat (take_bit k w)"
    by (rule unat_sub)
  also have "unat (take_bit k w) = unat w mod 2 ^ k"
    by (metis take_bit_eq_mod unsigned_take_bit_eq)
  finally have "unat (w - take_bit k w) = unat w - unat w mod 2 ^ k" .
  then show ?thesis
    by (simp add: and_not_mask_eq minus_mod_eq_div_mult)
qed

lemma unat_align_up:
  assumes "k < 64" and "unat x + 2 ^ k \<le> 2 ^ 64"
  shows "unat (align_up x (2 ^ k)) = (unat x + 2 ^ k - 1) div 2 ^ k * 2 ^ k"
proof -
  have "unat (x + 2 ^ k - 1) = unat x + 2 ^ k - 1"
  proof -
    have "x + 2 ^ k - 1 = word_of_nat (unat x + 2 ^ k - 1)"
      by (subst of_nat_diff) (simp_all add: Suc_le_eq)
    then show ?thesis
      using assms(2) by (simp add: unat_u64)
  qed
  moreover have "(2 ^ k :: u64) - 1 = mask k"
    by (simp add: mask_eq_exp_minus_1)
  ultimately show ?thesis
    by (simp add: align_up_def unat_and_not_mask)
qed

lemma align_up_bounds:
  assumes "k < 64" and "unat x + 2 ^ k \<le> 2 ^ 64"
  shows "2 ^ k dvd unat (align_up x (2 ^ k))"
    and "unat x \<le> unat (align_up x (2 ^ k))"
    and "unat (align_up x (2 ^ k)) < unat x + 2 ^ k"
proof -
  let ?n = "unat x + 2 ^ k - 1"
  have eq: "unat (align_up x (2 ^ k)) = ?n - ?n mod 2 ^ k"
    using assms by (simp add: unat_align_up minus_mod_eq_div_mult)
  have lt: "?n mod 2 ^ k < 2 ^ k" by simp
  show "2 ^ k dvd unat (align_up x (2 ^ k))"
    using assms by (simp add: unat_align_up)
  show "unat x \<le> unat (align_up x (2 ^ k))"
    unfolding eq using lt by linarith
  show "unat (align_up x (2 ^ k)) < unat x + 2 ^ k"
    unfolding eq using zero_less_power [of "2::nat" k] by linarith
qed

lemma sdiv_nonneg: "0 \<le> a \<Longrightarrow> 0 \<le> b \<Longrightarrow> a sdiv b = a div b" "0 \<le> a \<Longrightarrow> 0 \<le> b \<Longrightarrow> a smod b = a mod b" for a b :: int
  by (simp_all add: signed_divide_int_def signed_modulo_int_def sgn_if minus_div_mult_eq_mod)

subsection \<open>Signed values\<close>

lemma sint_cases: "sint x = (if uint x < 2 ^ 63 then uint x else uint x - 2 ^ 64)" for x :: u64
proof -
  have r: "0 \<le> uint x" "uint x < 2 ^ 64" using uint_lt2p [of x] by simp_all
  show ?thesis
  proof (cases "uint x < 2 ^ 63")
    case True
    then have "signed_take_bit 63 (uint x) = uint x" by (intro signed_take_bit_int_eq_self order.trans [OF _ r(1)]) simp_all
    then show ?thesis using True by (simp add: sint_uint)
  next
    case False
    have "sint x = signed_take_bit 63 (uint x - 2 ^ 64)"
      by (simp add: sint_uint signed_take_bit_eq_iff_take_bit_eq take_bit_diff [symmetric] take_bit_eq_mod mod_diff_right_eq [symmetric])
    also have "\<dots> = uint x - 2 ^ 64" using r False by (intro signed_take_bit_int_eq_self) simp_all
    finally show ?thesis using False by simp
  qed
qed

lemma magnitude: "uint (if sint a < 0 then 0 - a else a) = \<bar>sint a\<bar>" for a :: u64
proof -
  have r: "0 \<le> uint a" "uint a < 2 ^ 64" using uint_lt2p [of a] by simp_all
  show ?thesis
  proof (cases "uint a < 2 ^ 63")
    case False
    then have "uint (0 - a) = 2 ^ 64 - uint a" using r by (simp add: uint_word_ariths zmod_zminus1_eq_if)
    then show ?thesis using False r by (simp add: sint_cases)
  qed (use r in \<open>simp add: sint_cases\<close>)
qed

end
