(* ===== verification/Buffers.thy ===== *)
theory Buffers
  imports Onyx_Prelude
begin

text \<open>
  The utilities of \<^verbatim>\<open>src/core/util.c\<close>: diagnostics counters, the growable byte buffer that
  holds every output segment, and the deduplicated string pool in \<^verbatim>\<open>.rodata\<close>.

  A buffer keeps its initialised bytes \<open>buf_data\<close> (the first \<open>buf_size\<close> bytes behind the C
  pointer), its size and its capacity. Sizes are \<^typ>\<open>nat\<close>: an object is never larger than
  \<^verbatim>\<open>PTRDIFF_MAX\<close>, so the \<^verbatim>\<open>size_t\<close> sums of the code do not wrap. Allocation succeeds in the
  model; the out-of-memory exits of the code end the process.
\<close>

subsection \<open>Diagnostics\<close>

datatype cc_diag_level = CC_LVL_NOTE | CC_LVL_WARN | CC_LVL_ERROR | CC_LVL_FATAL

record diag =
  n_errors :: nat
  n_warnings :: nat

text \<open>The result is the counters and whether the process exits (\<^verbatim>\<open>exit(1)\<close> after a fatal one).\<close>

definition cc_diag :: "cc_diag_level \<Rightarrow> diag \<Rightarrow> diag \<times> bool" where
  "cc_diag lvl d =
     (case lvl of
        CC_LVL_NOTE \<Rightarrow> (d, False)
      | CC_LVL_WARN \<Rightarrow> (d\<lparr>n_warnings := Suc (n_warnings d)\<rparr>, False)
      | CC_LVL_ERROR \<Rightarrow> (d\<lparr>n_errors := Suc (n_errors d)\<rparr>, False)
      | CC_LVL_FATAL \<Rightarrow> (d\<lparr>n_errors := Suc (n_errors d)\<rparr>, True))"

definition cc_error_at :: "diag \<Rightarrow> diag" where
  "cc_error_at d = d\<lparr>n_errors := Suc (n_errors d)\<rparr>"

subsection \<open>The growable buffer\<close>

record cc_buf =
  buf_data :: "u8 list"
  buf_size :: nat
  buf_cap :: nat

definition cc_buf_init :: cc_buf where
  "cc_buf_init = \<lparr>buf_data = [], buf_size = 0, buf_cap = 0\<rparr>"

text \<open>The doubling loop of \<^verbatim>\<open>buf_grow\<close>; it is only entered with a positive capacity.\<close>

function grow_cap :: "nat \<Rightarrow> nat \<Rightarrow> nat" where
  "grow_cap newcap need =
     (if 0 < newcap \<and> newcap < need then grow_cap (newcap * 2) need else newcap)"
  by pat_completeness auto
termination
  by (relation "measure (\<lambda>(newcap, need). need - newcap)") auto

declare grow_cap.simps [simp del]

definition buf_grow :: "cc_buf \<Rightarrow> nat \<Rightarrow> cc_buf" where
  "buf_grow b need =
     (if need \<le> buf_cap b then b
      else b\<lparr>buf_cap := grow_cap (if buf_cap b \<noteq> 0 then buf_cap b else 256) need\<rparr>)"

definition cc_buf_push :: "cc_buf \<Rightarrow> u8 list \<Rightarrow> cc_buf" where
  "cc_buf_push b p =
     (if p = [] then b
      else let b' = buf_grow b (buf_size b + length p)
           in b'\<lparr>buf_data := buf_data b' @ p, buf_size := buf_size b' + length p\<rparr>)"

definition cc_buf_push8 :: "cc_buf \<Rightarrow> u8 \<Rightarrow> cc_buf" where
  "cc_buf_push8 b v =
     (let b' = buf_grow b (buf_size b + 1)
      in b'\<lparr>buf_data := buf_data b' @ [v], buf_size := buf_size b' + 1\<rparr>)"

definition cc_buf_push16 :: "cc_buf \<Rightarrow> u16 \<Rightarrow> cc_buf" where
  "cc_buf_push16 b v =
     cc_buf_push8 (cc_buf_push8 b (ucast (v AND 0xff))) (ucast (drop_bit 8 v AND 0xff))"

definition cc_buf_push32 :: "cc_buf \<Rightarrow> u32 \<Rightarrow> cc_buf" where
  "cc_buf_push32 b v =
     (let b = cc_buf_push8 b (ucast (v AND 0xff));
          b = cc_buf_push8 b (ucast (drop_bit 8 v AND 0xff));
          b = cc_buf_push8 b (ucast (drop_bit 16 v AND 0xff))
      in cc_buf_push8 b (ucast (drop_bit 24 v AND 0xff)))"

definition cc_buf_push64 :: "cc_buf \<Rightarrow> u64 \<Rightarrow> cc_buf" where
  "cc_buf_push64 b v =
     foldl (\<lambda>b i. cc_buf_push8 b (ucast (drop_bit (8 * i) v AND 0xff))) b [0..<8]"

fun pad_to :: "nat \<Rightarrow> cc_buf \<Rightarrow> cc_buf" where
  "pad_to 0 b = b"
| "pad_to (Suc n) b = pad_to n (cc_buf_push8 b 0)"

text \<open>
  The padding loop runs \<open>aligned - size\<close> times; \<open>aligned\<close> is computed on \<^verbatim>\<open>size_t\<close>.
\<close>

definition cc_buf_align :: "cc_buf \<Rightarrow> u64 \<Rightarrow> cc_buf" where
  "cc_buf_align b align =
     (if align = 0 then b
      else let mask = align - 1;
               aligned = (word_of_nat (buf_size b) + mask) AND NOT mask
           in pad_to (unat aligned - buf_size b) b)"

definition cc_buf_free :: "cc_buf \<Rightarrow> cc_buf" where
  "cc_buf_free b = b\<lparr>buf_data := [], buf_size := 0, buf_cap := 0\<rparr>"

subsection \<open>The string pool\<close>

text \<open>
  \<^verbatim>\<open>cc_strpool_add\<close> scans \<^verbatim>\<open>g_rodata\<close> for an occurrence of the string followed by a NUL and
  appends it when there is none. The offset is returned as \<^verbatim>\<open>uint32_t\<close>.
\<close>

definition strpool_match :: "u8 list \<Rightarrow> u8 list \<Rightarrow> nat \<Rightarrow> bool" where
  "strpool_match data s off \<longleftrightarrow>
     data ! (off + length s) = 0 \<and> take (length s) (drop off data) = s"

definition strpool_search :: "cc_buf \<Rightarrow> u8 list \<Rightarrow> nat option" where
  "strpool_search g s =
     (if buf_size g \<ge> length s + 1
      then List.find (strpool_match (buf_data g) s) [0..<buf_size g - length s]
      else None)"

definition cc_strpool_add :: "cc_buf \<Rightarrow> u8 list \<Rightarrow> cc_buf \<times> u32" where
  "cc_strpool_add g s =
     (case strpool_search g s of
        Some off \<Rightarrow> (g, word_of_nat off)
      | None \<Rightarrow>
          let g = cc_buf_align g 1;
              off = word_of_nat (buf_size g)
          in (cc_buf_push8 (cc_buf_push g s) 0, off))"

text \<open>\<^verbatim>\<open>strlen\<close>: the bytes before the first NUL.\<close>

definition cc_strpool_add_cstr :: "cc_buf \<Rightarrow> u8 list \<Rightarrow> cc_buf \<times> u32" where
  "cc_strpool_add_cstr g s = cc_strpool_add g (takeWhile (\<lambda>c. c \<noteq> 0) s)"

subsection \<open>Well-formed buffers and the effect of each push\<close>

definition buf_wf :: "cc_buf \<Rightarrow> bool" where
  "buf_wf b \<longleftrightarrow> length (buf_data b) = buf_size b \<and> buf_size b \<le> buf_cap b"

lemma grow_cap_ge: "0 < c \<Longrightarrow> need \<le> grow_cap c need \<and> c \<le> grow_cap c need"
proof (induction c need rule: grow_cap.induct)
  case (1 c need)
  then show ?case
    by (cases "c < need") (auto simp: grow_cap.simps [of c need])
qed

lemma buf_grow_simps [simp]:
  "buf_data (buf_grow b n) = buf_data b"
  "buf_size (buf_grow b n) = buf_size b"
  by (simp_all add: buf_grow_def)

lemma buf_grow_cap: "n \<le> buf_cap (buf_grow b n)" "buf_cap b \<le> buf_cap (buf_grow b n)"
proof -
  have "n \<le> grow_cap (if buf_cap b \<noteq> 0 then buf_cap b else 256) n"
    by (rule grow_cap_ge [THEN conjunct1]) simp
  moreover have "buf_cap b \<le> grow_cap (if buf_cap b \<noteq> 0 then buf_cap b else 256) n"
    using grow_cap_ge [of "buf_cap b" n] by (cases "buf_cap b = 0") simp_all
  ultimately show "n \<le> buf_cap (buf_grow b n)" "buf_cap b \<le> buf_cap (buf_grow b n)"
    unfolding buf_grow_def by simp_all
qed

text \<open>
  What a buffer writer does, in one relation: it keeps well-formedness, appends exactly the
  given bytes and leaves what was there. Writers compose by concatenation.
\<close>

definition appends :: "(cc_buf \<Rightarrow> cc_buf) \<Rightarrow> u8 list \<Rightarrow> bool" where
  "appends f bs \<longleftrightarrow>
     (\<forall>b. buf_wf b \<longrightarrow> buf_wf (f b) \<and> buf_data (f b) = buf_data b @ bs)"

lemma appends_id [simp, intro]: "appends (\<lambda>b. b) []"
  by (simp add: appends_def)

lemma appends_comp: "appends f xs \<Longrightarrow> appends g ys \<Longrightarrow> appends (\<lambda>b. g (f b)) (xs @ ys)"
  unfolding appends_def by (metis append_assoc)

lemma appendsD:
  assumes "appends f bs" "buf_wf b"
  shows "buf_wf (f b)" "buf_data (f b) = buf_data b @ bs" "buf_size (f b) = buf_size b + length bs"
proof -
  show wf: "buf_wf (f b)" and data: "buf_data (f b) = buf_data b @ bs"
    using assms unfolding appends_def by blast+
  show "buf_size (f b) = buf_size b + length bs"
    using wf data assms(2) unfolding buf_wf_def by simp
qed

lemma appends_push8: "appends (\<lambda>b. cc_buf_push8 b v) [v]"
  using buf_grow_cap(1) by (auto simp: appends_def cc_buf_push8_def buf_wf_def Let_def)

lemma appends_push: "appends (\<lambda>b. cc_buf_push b p) p"
  using buf_grow_cap(1) by (auto simp: appends_def cc_buf_push_def buf_wf_def Let_def)

lemma ucast_and_ff: "ucast (v AND 0xff :: 'a::len word) = (ucast v :: u8)"
proof -
  have m: "(0xff :: 'a word) = mask 8"
    by (simp add: mask_eq_exp_minus_1)
  show ?thesis
    unfolding m by (rule bit_word_eqI) (auto simp: bit_simps dest: bit_imp_le_length)
qed


lemma appends_push16: "appends (\<lambda>b. cc_buf_push16 b v) (le_bytes 2 v)"
  using appends_comp [OF appends_push8 appends_push8, of "ucast v" "ucast (drop_bit 8 v)"]
  by (simp add: cc_buf_push16_def ucast_and_ff numeral_2_eq_2)

lemma appends_push32: "appends (\<lambda>b. cc_buf_push32 b v) (le32 v)"
proof -
  have "appends (\<lambda>b. cc_buf_push32 b v)
      ((([ucast v] @ [ucast (drop_bit 8 v)]) @ [ucast (drop_bit 16 v)]) @ [ucast (drop_bit 24 v)])"
    unfolding cc_buf_push32_def Let_def ucast_and_ff
    by (intro appends_comp appends_push8)
  then show ?thesis by (simp add: le_bytes_4)
qed

lemma appends_foldl:
  "(\<And>x. x \<in> set xs \<Longrightarrow> appends (\<lambda>b. f b x) (g x)) \<Longrightarrow> appends (\<lambda>b. foldl f b xs) (concat (map g xs))"
proof (induction xs)
  case Nil
  then show ?case by simp
next
  case (Cons x xs)
  have "appends (\<lambda>b. foldl f (f b x) xs) (g x @ concat (map g xs))"
    by (rule appends_comp [of "\<lambda>b. f b x"]) (use Cons in auto)
  then show ?case by simp
qed

lemma appends_push64: "appends (\<lambda>b. cc_buf_push64 b v) (le64 v)"
proof -
  have "appends (\<lambda>b. cc_buf_push64 b v) (concat (map (\<lambda>i. [ucast (drop_bit (8 * i) v)]) [0..<8]))"
    unfolding cc_buf_push64_def ucast_and_ff by (rule appends_foldl) (rule appends_push8)
  then show ?thesis by (simp add: le_bytes_eq_map)
qed

lemma appends_pad_to: "appends (pad_to n) (replicate n 0)"
proof (induction n)
  case 0
  then show ?case by (simp add: appends_def)
next
  case (Suc n)
  have "appends (\<lambda>b. pad_to n (cc_buf_push8 b 0)) ([0] @ replicate n 0)"
    by (rule appends_comp [OF appends_push8 Suc])
  then show ?case by (simp add: appends_def)
qed

lemmas appends_intros = appends_id appends_push8 appends_push appends_push16 appends_push32
  appends_push64 appends_pad_to

lemma buf_wf_init [simp]: "buf_wf cc_buf_init"
  by (simp add: buf_wf_def cc_buf_init_def)

text \<open>Alignment pads with zeros up to the next multiple of a power of two.\<close>

lemma cc_buf_align_data:
  assumes "buf_wf b" and "k < 64" and "buf_size b + 2 ^ k \<le> 2 ^ 64"
  shows "\<exists>n < 2 ^ k. buf_data (cc_buf_align b (2 ^ k)) = buf_data b @ replicate n 0
    \<and> 2 ^ k dvd buf_size (cc_buf_align b (2 ^ k)) \<and> buf_wf (cc_buf_align b (2 ^ k))"
proof -
  let ?s = "word_of_nat (buf_size b) :: u64"
  have "buf_size b < 2 ^ 64"
    using assms(3) zero_less_power [of "2::nat" k] by linarith
  then have s: "unat ?s = buf_size b" by (rule unat_u64)
  note up = align_up_bounds [OF assms(2), of ?s, unfolded s, OF assms(3)]
  let ?n = "unat (align_up ?s (2 ^ k)) - buf_size b"
  have nz: "(2 ^ k :: u64) \<noteq> 0"
    using assms(2) by (simp add: exp_eq_zero_iff)
  have "cc_buf_align b (2 ^ k) = pad_to ?n b"
    unfolding cc_buf_align_def align_up_def Let_def add_diff_eq using nz by (simp only: if_False)
  with up appendsD [OF appends_pad_to assms(1), of ?n] show ?thesis
    by (intro exI [of _ ?n]) auto
qed

subsection \<open>The string pool holds every string it returns\<close>

definition holds_cstr :: "u8 list \<Rightarrow> nat \<Rightarrow> u8 list \<Rightarrow> bool" where
  "holds_cstr data off s \<longleftrightarrow>
     off + length s < length data \<and> take (length s + 1) (drop off data) = s @ [0]"

lemma strpool_match_iff:
  assumes "off + length s < length data"
  shows "strpool_match data s off \<longleftrightarrow> holds_cstr data off s"
proof -
  have "take (length s + 1) (drop off data) = take (length s) (drop off data) @ [data ! (off + length s)]"
    using assms by (simp add: take_Suc_conv_app_nth)
  moreover have "length (take (length s) (drop off data)) = length s"
    using assms by simp
  ultimately show ?thesis
    using assms unfolding strpool_match_def holds_cstr_def by auto
qed

lemma strpool_search_SomeD:
  assumes "buf_wf g" and "strpool_search g s = Some off"
  shows "holds_cstr (buf_data g) off s"
proof -
  have "strpool_match (buf_data g) s off" and "off < buf_size g - length s"
    using assms(2) by (auto simp: strpool_search_def find_Some_iff split: if_splits)
  with assms(1) show ?thesis
    using strpool_match_iff [of off s "buf_data g"] by (simp add: buf_wf_def)
qed

lemma strpool_search_complete:
  assumes "buf_wf g" and "holds_cstr (buf_data g) off s"
  shows "strpool_search g s \<noteq> None"
proof -
  have b: "off + length s < buf_size g"
    using assms by (simp add: buf_wf_def holds_cstr_def)
  moreover have "strpool_match (buf_data g) s off"
    using assms b by (simp add: strpool_match_iff buf_wf_def)
  moreover have "off \<in> set [0..<buf_size g - length s]"
    using b by simp
  ultimately show ?thesis
    unfolding strpool_search_def by (auto simp: find_None_iff)
qed

lemma cc_buf_align_1: "buf_size g < 2 ^ 64 \<Longrightarrow> cc_buf_align g 1 = g"
  by (simp add: cc_buf_align_def unat_u64)

lemma holds_cstr_append: "holds_cstr data off s \<Longrightarrow> holds_cstr (data @ ext) off s"
  by (simp add: holds_cstr_def)

lemma holds_cstr_new: "holds_cstr (data @ s @ [0]) (length data) s"
  by (simp add: holds_cstr_def)

lemma strpool_append_case:
  assumes "buf_wf g" "buf_size g < 2 ^ 64" "strpool_search g s = None"
  shows "cc_strpool_add g s = (cc_buf_push8 (cc_buf_push g s) 0, word_of_nat (buf_size g))"
    and "buf_wf (cc_buf_push8 (cc_buf_push g s) 0)"
    and "buf_data (cc_buf_push8 (cc_buf_push g s) 0) = buf_data g @ s @ [0]"
  using appendsD [OF appends_comp [OF appends_push appends_push8] assms(1), of s 0] assms(2,3)
  by (simp_all add: cc_strpool_add_def cc_buf_align_1)

text \<open>
  Whatever the pool holds, the offset that \<^verbatim>\<open>cc_strpool_add\<close> returns points at the string
  followed by a NUL, the bytes already in \<^verbatim>\<open>.rodata\<close> are untouched (so earlier offsets stay
  valid), and adding the same string again does not grow the pool.
\<close>

theorem strpool_add_correct:
  assumes "buf_wf g" and "buf_size g + length s < 2 ^ 32" and "cc_strpool_add g s = (g', off)"
  shows "buf_wf g' \<and> holds_cstr (buf_data g') (unat off) s
    \<and> (\<exists>ext. buf_data g' = buf_data g @ ext) \<and> fst (cc_strpool_add g' s) = g'"
proof (cases "strpool_search g s")
  case (Some k)
  then have h: "holds_cstr (buf_data g) k s"
    using assms(1) by (blast intro: strpool_search_SomeD)
  with assms(1,2) have "k < 2 ^ 32"
    by (simp add: holds_cstr_def buf_wf_def)
  then have "unat off = k" "g' = g"
    using assms(3) Some by (auto simp: cc_strpool_add_def unat_u32)
  with h assms(1) Some show ?thesis by (simp add: cc_strpool_add_def)
next
  case None
  have "buf_size g < 2 ^ 64" using assms(2) by simp
  note app = strpool_append_case [OF assms(1) this None]
  have g': "g' = cc_buf_push8 (cc_buf_push g s) 0" and "off = word_of_nat (buf_size g)"
    using assms(3) app(1) by auto
  then have "unat off = length (buf_data g)"
    using assms(1,2) by (simp add: unat_u32 buf_wf_def)
  then have h: "holds_cstr (buf_data g') (unat off) s"
    using holds_cstr_new [of "buf_data g" s] app(3) g' by simp
  with strpool_search_complete [of g' "unat off" s] app(2) g'
  have "fst (cc_strpool_add g' s) = g'"
    by (auto simp: cc_strpool_add_def)
  with h app(2,3) g' show ?thesis by auto
qed

theorem strpool_add_correct_witness:
  "holds_cstr (buf_data (fst (cc_strpool_add cc_buf_init [104, 105])))
     (unat (snd (cc_strpool_add cc_buf_init [104, 105]))) [104, 105]"
  using strpool_add_correct [of cc_buf_init "[104, 105]"]
  by (cases "cc_strpool_add cc_buf_init [104, 105]") (simp add: cc_buf_init_def buf_wf_def)

end
