(* ===== verification/Encoder.thy ===== *)
theory Encoder
  imports Buffers
begin

text \<open>
  The RV64 instruction encoders of \<^verbatim>\<open>src/arch/riscv64.c\<close>. Every encoder appends to the text
  buffer \<^verbatim>\<open>g_text\<close>, so it is a function on \<^typ>\<open>cc_buf\<close>. C \<^verbatim>\<open>int\<close> arguments are 32-bit words in
  two's complement, \<^verbatim>\<open>int64_t\<close> ones 64-bit words; \<^const>\<open>sint\<close> reads their signed value.
\<close>

type_synonym emitter = "cc_buf \<Rightarrow> cc_buf"

abbreviation (input) RV_ZERO :: u32 where "RV_ZERO \<equiv> 0"
abbreviation (input) RV_RA :: u32 where "RV_RA \<equiv> 1"
abbreviation (input) RV_SP :: u32 where "RV_SP \<equiv> 2"
abbreviation (input) RV_T0 :: u32 where "RV_T0 \<equiv> 5"
abbreviation (input) RV_S0 :: u32 where "RV_S0 \<equiv> 8"
abbreviation (input) RV_A0 :: u32 where "RV_A0 \<equiv> 10"
abbreviation (input) RV_S2 :: u32 where "RV_S2 \<equiv> 18"
abbreviation (input) RV_T4 :: u32 where "RV_T4 \<equiv> 29"
abbreviation (input) RV_T5 :: u32 where "RV_T5 \<equiv> 30"
abbreviation (input) RV_T6 :: u32 where "RV_T6 \<equiv> 31"

definition emit32 :: "u32 \<Rightarrow> emitter" where
  "emit32 insn g = cc_buf_push32 g insn"

definition rv_nop :: emitter where
  "rv_nop = emit32 0x00000013"

text \<open>The I-type word as each I-type encoder writes it out.\<close>

definition i_word :: "u32 \<Rightarrow> u32 \<Rightarrow> u32 \<Rightarrow> u32 \<Rightarrow> u32 \<Rightarrow> u32" where
  "i_word imm rs1 funct3 rd opcode =
     push_bit 20 (imm AND 0xFFF) OR push_bit 15 (rs1 AND 0x1F) OR push_bit 12 funct3
       OR push_bit 7 (rd AND 0x1F) OR opcode"

definition rv_addi :: "u32 \<Rightarrow> u32 \<Rightarrow> u32 \<Rightarrow> emitter" where
  "rv_addi rd rs1 imm = emit32 (i_word imm rs1 0 rd 0x13)"

text \<open>The shift-immediate word: a six-bit shift amount, the top field above it.\<close>

definition shift_word :: "u32 \<Rightarrow> u32 \<Rightarrow> u32 \<Rightarrow> u32 \<Rightarrow> u32 \<Rightarrow> u32" where
  "shift_word hi7 shamt rs1 funct3 rd =
     push_bit 25 hi7 OR push_bit 20 (shamt AND 0x3F) OR push_bit 15 (rs1 AND 0x1F)
       OR push_bit 12 funct3 OR push_bit 7 (rd AND 0x1F) OR 0x13"

definition rv_slli :: "u32 \<Rightarrow> u32 \<Rightarrow> u32 \<Rightarrow> emitter" where
  "rv_slli rd rs1 shamt = emit32 (shift_word 0 shamt rs1 1 rd)"

definition rv_srli :: "u32 \<Rightarrow> u32 \<Rightarrow> u32 \<Rightarrow> emitter" where
  "rv_srli rd rs1 shamt = emit32 (shift_word 0 shamt rs1 5 rd)"

definition rv_srai :: "u32 \<Rightarrow> u32 \<Rightarrow> u32 \<Rightarrow> emitter" where
  "rv_srai rd rs1 shamt = emit32 (shift_word 0x20 shamt rs1 5 rd)"

subsection \<open>Materialising constants\<close>

definition li_low :: "u64 \<Rightarrow> u64" where
  "li_low value = ((value AND 4095) XOR 2048) - 2048"

definition li_high :: "u64 \<Rightarrow> u64" where
  "li_high value =
     (let high = signed_drop_bit 12 value in if sint (li_low value) < 0 then high + 1 else high)"

text \<open>The range test \<^verbatim>\<open>value >= -2048 && value <= 2047\<close>.\<close>

definition fits12 :: "int \<Rightarrow> bool" where
  "fits12 i \<longleftrightarrow> - 2048 \<le> i \<and> i \<le> 2047"

lemma li_low_signed: "li_low v = signed_take_bit 11 v"
proof -
  have m: "(4095 :: u64) = mask 12" "(2048 :: u64) = push_bit 11 1"
    by (simp_all add: mask_eq_exp_minus_1)
  have "li_low v = signed_take_bit 11 (take_bit 12 v)"
    unfolding li_low_def m
    by (subst word_sign_extend) (simp_all add: take_bit_eq_mask [symmetric])
  then show ?thesis by (simp add: signed_take_bit_take_bit)
qed

lemma sint_li_high_raw: "sint (signed_drop_bit 12 (v :: u64)) = sint v div 4096"
  by (simp add: sint_signed_drop_bit_eq drop_bit_eq_div)

lemma sint_u64_bounds: "- (2 ^ 63) \<le> sint (v :: u64)" "sint v < 2 ^ 63"
  using sint_range_size [of v] by (simp_all add: word_size)

lemma sint_li_high:
  "sint (li_high v) = sint v div 4096 \<or> sint (li_high v) = sint v div 4096 + 1"
proof -
  let ?h = "signed_drop_bit 12 v"
  have "- (2 ^ 51) \<le> sint ?h" "sint ?h < 2 ^ 51"
    using sint_u64_bounds [of v] unfolding sint_li_high_raw by auto
  then have "sint (?h + 1) = sint ?h + 1"
    by (simp add: signed_take_bit_int_eq_self sint_word_ariths)
  then show ?thesis
    by (simp add: li_high_def Let_def sint_li_high_raw)
qed

text \<open>
  \<^verbatim>\<open>load_immediate\<close> recurses on the high part, which is about 4096 times smaller; the recursion
  ends with a constant of twelve bits.
\<close>

function load_immediate :: "u32 \<Rightarrow> u64 \<Rightarrow> emitter" where
  "load_immediate rd value g =
     (if fits12 (sint value) then rv_addi rd RV_ZERO (ucast value) g
      else let g = load_immediate rd (li_high value) g;
               g = rv_slli rd rd 12 g
           in if li_low value \<noteq> 0 then rv_addi rd rd (ucast (li_low value)) g else g)"
  by pat_completeness auto
termination
proof (relation "measure (\<lambda>(rd, value, g). nat \<bar>sint value\<bar>)", goal_cases)
  case 1
  show ?case by simp
next
  case (2 rd v g)
  have "\<bar>sint (li_high v)\<bar> < \<bar>sint v\<bar>"
    using sint_li_high [of v] 2 by (auto simp: fits12_def)
  then show ?case by simp
qed

declare load_immediate.simps [simp del]

subsection \<open>Register-register operations\<close>

definition r_word :: "u32 \<Rightarrow> u32 \<Rightarrow> u32 \<Rightarrow> u32 \<Rightarrow> u32 \<Rightarrow> u32 \<Rightarrow> u32" where
  "r_word funct3 funct7 rd rs1 rs2 opcode =
     push_bit 25 (funct7 AND 0x7F) OR push_bit 20 (rs2 AND 0x1F) OR push_bit 15 (rs1 AND 0x1F)
       OR push_bit 12 (funct3 AND 0x7) OR push_bit 7 (rd AND 0x1F) OR (opcode AND 0x7F)"

definition emit_r_type :: "u32 \<Rightarrow> u32 \<Rightarrow> u32 \<Rightarrow> u32 \<Rightarrow> u32 \<Rightarrow> u32 \<Rightarrow> emitter" where
  "emit_r_type funct3 funct7 rd rs1 rs2 opcode = emit32 (r_word funct3 funct7 rd rs1 rs2 opcode)"

definition rv_add :: "u32 \<Rightarrow> u32 \<Rightarrow> u32 \<Rightarrow> emitter" where
  "rv_add rd rs1 rs2 = emit_r_type 0 0x00 rd rs1 rs2 0x33"

definition rv_sub :: "u32 \<Rightarrow> u32 \<Rightarrow> u32 \<Rightarrow> emitter" where
  "rv_sub rd rs1 rs2 = emit_r_type 0 0x20 rd rs1 rs2 0x33"

definition rv_sll :: "u32 \<Rightarrow> u32 \<Rightarrow> u32 \<Rightarrow> emitter" where
  "rv_sll rd rs1 rs2 = emit_r_type 1 0x00 rd rs1 rs2 0x33"

definition rv_slt :: "u32 \<Rightarrow> u32 \<Rightarrow> u32 \<Rightarrow> emitter" where
  "rv_slt rd rs1 rs2 = emit_r_type 2 0x00 rd rs1 rs2 0x33"

definition rv_sltu :: "u32 \<Rightarrow> u32 \<Rightarrow> u32 \<Rightarrow> emitter" where
  "rv_sltu rd rs1 rs2 = emit_r_type 3 0x00 rd rs1 rs2 0x33"

definition rv_xor :: "u32 \<Rightarrow> u32 \<Rightarrow> u32 \<Rightarrow> emitter" where
  "rv_xor rd rs1 rs2 = emit_r_type 4 0x00 rd rs1 rs2 0x33"

definition rv_srl :: "u32 \<Rightarrow> u32 \<Rightarrow> u32 \<Rightarrow> emitter" where
  "rv_srl rd rs1 rs2 = emit_r_type 5 0x00 rd rs1 rs2 0x33"

definition rv_sra :: "u32 \<Rightarrow> u32 \<Rightarrow> u32 \<Rightarrow> emitter" where
  "rv_sra rd rs1 rs2 = emit_r_type 5 0x20 rd rs1 rs2 0x33"

definition rv_or :: "u32 \<Rightarrow> u32 \<Rightarrow> u32 \<Rightarrow> emitter" where
  "rv_or rd rs1 rs2 = emit_r_type 6 0x00 rd rs1 rs2 0x33"

definition rv_and :: "u32 \<Rightarrow> u32 \<Rightarrow> u32 \<Rightarrow> emitter" where
  "rv_and rd rs1 rs2 = emit_r_type 7 0x00 rd rs1 rs2 0x33"

definition rv_mul :: "u32 \<Rightarrow> u32 \<Rightarrow> u32 \<Rightarrow> emitter" where
  "rv_mul rd rs1 rs2 = emit_r_type 0 0x01 rd rs1 rs2 0x33"

definition rv_mulh :: "u32 \<Rightarrow> u32 \<Rightarrow> u32 \<Rightarrow> emitter" where
  "rv_mulh rd rs1 rs2 = emit_r_type 1 0x01 rd rs1 rs2 0x33"

definition rv_mulhsu :: "u32 \<Rightarrow> u32 \<Rightarrow> u32 \<Rightarrow> emitter" where
  "rv_mulhsu rd rs1 rs2 = emit_r_type 2 0x01 rd rs1 rs2 0x33"

definition rv_mulhu :: "u32 \<Rightarrow> u32 \<Rightarrow> u32 \<Rightarrow> emitter" where
  "rv_mulhu rd rs1 rs2 = emit_r_type 3 0x01 rd rs1 rs2 0x33"

definition rv_div :: "u32 \<Rightarrow> u32 \<Rightarrow> u32 \<Rightarrow> emitter" where
  "rv_div rd rs1 rs2 = emit_r_type 4 0x01 rd rs1 rs2 0x33"

definition rv_divu :: "u32 \<Rightarrow> u32 \<Rightarrow> u32 \<Rightarrow> emitter" where
  "rv_divu rd rs1 rs2 = emit_r_type 5 0x01 rd rs1 rs2 0x33"

definition rv_rem :: "u32 \<Rightarrow> u32 \<Rightarrow> u32 \<Rightarrow> emitter" where
  "rv_rem rd rs1 rs2 = emit_r_type 6 0x01 rd rs1 rs2 0x33"

definition rv_remu :: "u32 \<Rightarrow> u32 \<Rightarrow> u32 \<Rightarrow> emitter" where
  "rv_remu rd rs1 rs2 = emit_r_type 7 0x01 rd rs1 rs2 0x33"

definition rv_addi_imm :: "u32 \<Rightarrow> u32 \<Rightarrow> u64 \<Rightarrow> emitter" where
  "rv_addi_imm rd rs1 imm g =
     (if fits12 (sint imm) then rv_addi rd rs1 (ucast imm) g
      else if rs1 = RV_ZERO then load_immediate rd imm g
      else let temporary = (if rs1 = RV_T6 then RV_T5 else RV_T6);
               g = load_immediate temporary imm g
           in rv_add rd rs1 temporary g)"

definition u_word :: "u32 \<Rightarrow> u32 \<Rightarrow> u32 \<Rightarrow> u32" where
  "u_word imm20 rd opcode = push_bit 12 (imm20 AND 0xFFFFF) OR push_bit 7 (rd AND 0x1F) OR opcode"

definition rv_lui :: "u32 \<Rightarrow> u32 \<Rightarrow> emitter" where
  "rv_lui rd imm20 = emit32 (u_word imm20 rd 0x37)"

definition rv_auipc :: "u32 \<Rightarrow> u32 \<Rightarrow> emitter" where
  "rv_auipc rd imm20 = emit32 (u_word imm20 rd 0x17)"

definition rv_slti :: "u32 \<Rightarrow> u32 \<Rightarrow> u32 \<Rightarrow> emitter" where
  "rv_slti rd rs1 imm = emit32 (i_word imm rs1 2 rd 0x13)"

definition rv_sltiu :: "u32 \<Rightarrow> u32 \<Rightarrow> u32 \<Rightarrow> emitter" where
  "rv_sltiu rd rs1 imm = emit32 (i_word imm rs1 3 rd 0x13)"

subsection \<open>Loads and stores\<close>

definition materialize_addr :: "u32 \<Rightarrow> u64 \<Rightarrow> cc_buf \<Rightarrow> u32 \<times> cc_buf" where
  "materialize_addr rs1 imm g =
     (let temporary = (if rs1 = RV_T6 then RV_T5 else RV_T6)
      in (temporary, rv_addi_imm temporary rs1 imm g))"

text \<open>
  The common prologue of the loads and stores: an offset outside twelve bits is added to the
  base in a scratch register first.
\<close>

definition with_addr :: "u32 \<Rightarrow> u32 \<Rightarrow> (u32 \<Rightarrow> u32 \<Rightarrow> emitter) \<Rightarrow> emitter" where
  "with_addr rs1 imm k g =
     (if fits12 (sint imm) then k rs1 imm g
      else (case materialize_addr rs1 (scast imm) g of (rs1, g) \<Rightarrow> k rs1 0 g))"

definition emit_i_load :: "u32 \<Rightarrow> u32 \<Rightarrow> u32 \<Rightarrow> u32 \<Rightarrow> emitter" where
  "emit_i_load funct3 rd rs1 imm =
     with_addr rs1 imm (\<lambda>rs1 imm. emit32 (i_word imm rs1 (funct3 AND 0x7) rd 0x03))"

definition rv_lb :: "u32 \<Rightarrow> u32 \<Rightarrow> u32 \<Rightarrow> emitter" where
  "rv_lb rd rs1 imm = emit_i_load 0 rd rs1 imm"

definition rv_lh :: "u32 \<Rightarrow> u32 \<Rightarrow> u32 \<Rightarrow> emitter" where
  "rv_lh rd rs1 imm = emit_i_load 1 rd rs1 imm"

definition rv_lw :: "u32 \<Rightarrow> u32 \<Rightarrow> u32 \<Rightarrow> emitter" where
  "rv_lw rd rs1 imm = emit_i_load 2 rd rs1 imm"

definition rv_ld :: "u32 \<Rightarrow> u32 \<Rightarrow> u32 \<Rightarrow> emitter" where
  "rv_ld rd rs1 imm = emit_i_load 3 rd rs1 imm"

definition rv_lbu :: "u32 \<Rightarrow> u32 \<Rightarrow> u32 \<Rightarrow> emitter" where
  "rv_lbu rd rs1 imm = emit_i_load 4 rd rs1 imm"

definition rv_lhu :: "u32 \<Rightarrow> u32 \<Rightarrow> u32 \<Rightarrow> emitter" where
  "rv_lhu rd rs1 imm = emit_i_load 5 rd rs1 imm"

definition rv_lwu :: "u32 \<Rightarrow> u32 \<Rightarrow> u32 \<Rightarrow> emitter" where
  "rv_lwu rd rs1 imm = emit_i_load 6 rd rs1 imm"

definition s_word :: "u32 \<Rightarrow> u32 \<Rightarrow> u32 \<Rightarrow> u32 \<Rightarrow> u32 \<Rightarrow> u32" where
  "s_word imm rs2 rs1 funct3 opcode =
     (let imm_lo = imm AND 0x1F; imm_hi = signed_drop_bit 5 imm AND 0x7F
      in push_bit 25 imm_hi OR push_bit 20 (rs2 AND 0x1F) OR push_bit 15 (rs1 AND 0x1F)
           OR push_bit 12 funct3 OR push_bit 7 imm_lo OR opcode)"

definition emit_s_store :: "u32 \<Rightarrow> u32 \<Rightarrow> u32 \<Rightarrow> u32 \<Rightarrow> emitter" where
  "emit_s_store funct3 rs2 rs1 imm =
     with_addr rs1 imm (\<lambda>rs1 imm. emit32 (s_word imm rs2 rs1 (funct3 AND 0x7) 0x23))"

definition rv_sb :: "u32 \<Rightarrow> u32 \<Rightarrow> u32 \<Rightarrow> emitter" where
  "rv_sb rs2 rs1 imm = emit_s_store 0 rs2 rs1 imm"

definition rv_sh :: "u32 \<Rightarrow> u32 \<Rightarrow> u32 \<Rightarrow> emitter" where
  "rv_sh rs2 rs1 imm = emit_s_store 1 rs2 rs1 imm"

definition rv_sw :: "u32 \<Rightarrow> u32 \<Rightarrow> u32 \<Rightarrow> emitter" where
  "rv_sw rs2 rs1 imm = emit_s_store 2 rs2 rs1 imm"

definition rv_sd :: "u32 \<Rightarrow> u32 \<Rightarrow> u32 \<Rightarrow> emitter" where
  "rv_sd rs2 rs1 imm = emit_s_store 3 rs2 rs1 imm"

subsection \<open>Branches and jumps\<close>

definition b_word :: "u32 \<Rightarrow> u32 \<Rightarrow> u32 \<Rightarrow> u32 \<Rightarrow> u32" where
  "b_word funct3 rs1 rs2 imm =
     (let b12 = drop_bit 12 (imm AND 0x1000); b11 = drop_bit 11 (imm AND 0x800);
          b10_5 = drop_bit 5 (imm AND 0x7E0); b4_1 = drop_bit 1 (imm AND 0x1E)
      in push_bit 31 b12 OR push_bit 25 b10_5 OR push_bit 20 (rs2 AND 0x1F)
           OR push_bit 15 (rs1 AND 0x1F) OR push_bit 12 (funct3 AND 0x7)
           OR push_bit 8 b4_1 OR push_bit 7 b11 OR 0x63)"

definition emit_b :: "u32 \<Rightarrow> u32 \<Rightarrow> u32 \<Rightarrow> u32 \<Rightarrow> emitter" where
  "emit_b funct3 rs1 rs2 off13 = emit32 (b_word funct3 rs1 rs2 off13)"

definition rv_beq :: "u32 \<Rightarrow> u32 \<Rightarrow> u32 \<Rightarrow> emitter" where
  "rv_beq rs1 rs2 off13 = emit_b 0 rs1 rs2 off13"

definition rv_bne :: "u32 \<Rightarrow> u32 \<Rightarrow> u32 \<Rightarrow> emitter" where
  "rv_bne rs1 rs2 off13 = emit_b 1 rs1 rs2 off13"

definition rv_blt :: "u32 \<Rightarrow> u32 \<Rightarrow> u32 \<Rightarrow> emitter" where
  "rv_blt rs1 rs2 off13 = emit_b 4 rs1 rs2 off13"

definition rv_bge :: "u32 \<Rightarrow> u32 \<Rightarrow> u32 \<Rightarrow> emitter" where
  "rv_bge rs1 rs2 off13 = emit_b 5 rs1 rs2 off13"

definition rv_bltu :: "u32 \<Rightarrow> u32 \<Rightarrow> u32 \<Rightarrow> emitter" where
  "rv_bltu rs1 rs2 off13 = emit_b 6 rs1 rs2 off13"

definition rv_bgeu :: "u32 \<Rightarrow> u32 \<Rightarrow> u32 \<Rightarrow> emitter" where
  "rv_bgeu rs1 rs2 off13 = emit_b 7 rs1 rs2 off13"

definition j_word :: "u32 \<Rightarrow> u32 \<Rightarrow> u32" where
  "j_word rd imm =
     (let b20 = drop_bit 20 (imm AND 0x100000); b10_1 = drop_bit 1 (imm AND 0x7FE);
          b11 = drop_bit 11 (imm AND 0x800); b19_12 = drop_bit 12 (imm AND 0xFF000)
      in push_bit 31 b20 OR push_bit 21 b10_1 OR push_bit 20 b11 OR push_bit 12 b19_12
           OR push_bit 7 (rd AND 0x1F) OR 0x6F)"

definition rv_jal :: "u32 \<Rightarrow> u32 \<Rightarrow> emitter" where
  "rv_jal rd off21 = emit32 (j_word rd off21)"

definition rv_jalr :: "u32 \<Rightarrow> u32 \<Rightarrow> u32 \<Rightarrow> emitter" where
  "rv_jalr rd rs1 imm = emit32 (i_word imm rs1 0 rd 0x67)"

definition rv_ecall :: emitter where "rv_ecall = emit32 0x00000073"
definition rv_ebreak :: emitter where "rv_ebreak = emit32 0x00100073"
definition rv_fence :: emitter where "rv_fence = emit32 0x0FF0000F"
definition rv_ret :: emitter where "rv_ret = rv_jalr RV_ZERO RV_RA 0"

definition rv_mv :: "u32 \<Rightarrow> u32 \<Rightarrow> emitter" where "rv_mv rd rs = rv_addi rd rs 0"
definition rv_neg :: "u32 \<Rightarrow> u32 \<Rightarrow> emitter" where "rv_neg rd rs = rv_sub rd RV_ZERO rs"

definition rv_xori :: "u32 \<Rightarrow> u32 \<Rightarrow> u32 \<Rightarrow> emitter" where
  "rv_xori rd rs imm = emit32 (i_word imm rs 4 rd 0x13)"

definition rv_not :: "u32 \<Rightarrow> u32 \<Rightarrow> emitter" where "rv_not rd rs = rv_xori rd rs (- 1)"
definition rv_seqz :: "u32 \<Rightarrow> u32 \<Rightarrow> emitter" where "rv_seqz rd rs = rv_sltiu rd rs 1"
definition rv_snez :: "u32 \<Rightarrow> u32 \<Rightarrow> emitter" where "rv_snez rd rs = rv_sltu rd RV_ZERO rs"

subsection \<open>Floating point\<close>

definition rv_emit_fpu_r :: "u32 \<Rightarrow> u32 \<Rightarrow> u32 \<Rightarrow> u32 \<Rightarrow> u32 \<Rightarrow> emitter" where
  "rv_emit_fpu_r funct7 funct3 rd rs1 rs2 = emit32 (r_word funct3 funct7 rd rs1 rs2 0x53)"

definition rv_flw :: "u32 \<Rightarrow> u32 \<Rightarrow> u32 \<Rightarrow> emitter" where
  "rv_flw rd rs1 imm = with_addr rs1 imm (\<lambda>rs1 imm. emit32 (i_word imm rs1 2 rd 0x07))"

definition rv_fld :: "u32 \<Rightarrow> u32 \<Rightarrow> u32 \<Rightarrow> emitter" where
  "rv_fld rd rs1 imm = with_addr rs1 imm (\<lambda>rs1 imm. emit32 (i_word imm rs1 3 rd 0x07))"

definition rv_fsw :: "u32 \<Rightarrow> u32 \<Rightarrow> u32 \<Rightarrow> emitter" where
  "rv_fsw rs2 rs1 imm = with_addr rs1 imm (\<lambda>rs1 imm. emit32 (s_word imm rs2 rs1 2 0x27))"

definition rv_fsd :: "u32 \<Rightarrow> u32 \<Rightarrow> u32 \<Rightarrow> emitter" where
  "rv_fsd rs2 rs1 imm = with_addr rs1 imm (\<lambda>rs1 imm. emit32 (s_word imm rs2 rs1 3 0x27))"

definition rv_fadd_s :: "u32 \<Rightarrow> u32 \<Rightarrow> u32 \<Rightarrow> emitter" where
  "rv_fadd_s rd rs1 rs2 = rv_emit_fpu_r 0x00 0 rd rs1 rs2"

definition rv_fsub_s :: "u32 \<Rightarrow> u32 \<Rightarrow> u32 \<Rightarrow> emitter" where
  "rv_fsub_s rd rs1 rs2 = rv_emit_fpu_r 0x04 0 rd rs1 rs2"

definition rv_fmul_s :: "u32 \<Rightarrow> u32 \<Rightarrow> u32 \<Rightarrow> emitter" where
  "rv_fmul_s rd rs1 rs2 = rv_emit_fpu_r 0x08 0 rd rs1 rs2"

definition rv_fdiv_s :: "u32 \<Rightarrow> u32 \<Rightarrow> u32 \<Rightarrow> emitter" where
  "rv_fdiv_s rd rs1 rs2 = rv_emit_fpu_r 0x0C 0 rd rs1 rs2"

definition rv_fadd_d :: "u32 \<Rightarrow> u32 \<Rightarrow> u32 \<Rightarrow> emitter" where
  "rv_fadd_d rd rs1 rs2 = rv_emit_fpu_r 0x01 0 rd rs1 rs2"

definition rv_fsub_d :: "u32 \<Rightarrow> u32 \<Rightarrow> u32 \<Rightarrow> emitter" where
  "rv_fsub_d rd rs1 rs2 = rv_emit_fpu_r 0x05 0 rd rs1 rs2"

definition rv_fmul_d :: "u32 \<Rightarrow> u32 \<Rightarrow> u32 \<Rightarrow> emitter" where
  "rv_fmul_d rd rs1 rs2 = rv_emit_fpu_r 0x09 0 rd rs1 rs2"

definition rv_fdiv_d :: "u32 \<Rightarrow> u32 \<Rightarrow> u32 \<Rightarrow> emitter" where
  "rv_fdiv_d rd rs1 rs2 = rv_emit_fpu_r 0x0D 0 rd rs1 rs2"

definition rv_feq_s :: "u32 \<Rightarrow> u32 \<Rightarrow> u32 \<Rightarrow> emitter" where
  "rv_feq_s rd rs1 rs2 = rv_emit_fpu_r 0x50 2 rd rs1 rs2"

definition rv_flt_s :: "u32 \<Rightarrow> u32 \<Rightarrow> u32 \<Rightarrow> emitter" where
  "rv_flt_s rd rs1 rs2 = rv_emit_fpu_r 0x50 1 rd rs1 rs2"

definition rv_fle_s :: "u32 \<Rightarrow> u32 \<Rightarrow> u32 \<Rightarrow> emitter" where
  "rv_fle_s rd rs1 rs2 = rv_emit_fpu_r 0x50 0 rd rs1 rs2"

definition rv_feq_d :: "u32 \<Rightarrow> u32 \<Rightarrow> u32 \<Rightarrow> emitter" where
  "rv_feq_d rd rs1 rs2 = rv_emit_fpu_r 0x51 2 rd rs1 rs2"

definition rv_flt_d :: "u32 \<Rightarrow> u32 \<Rightarrow> u32 \<Rightarrow> emitter" where
  "rv_flt_d rd rs1 rs2 = rv_emit_fpu_r 0x51 1 rd rs1 rs2"

definition rv_fle_d :: "u32 \<Rightarrow> u32 \<Rightarrow> u32 \<Rightarrow> emitter" where
  "rv_fle_d rd rs1 rs2 = rv_emit_fpu_r 0x51 0 rd rs1 rs2"

definition rv_fmv_w_x :: "u32 \<Rightarrow> u32 \<Rightarrow> emitter" where
  "rv_fmv_w_x rd rs1 = rv_emit_fpu_r 0x78 0 rd rs1 0"

definition rv_fmv_x_w :: "u32 \<Rightarrow> u32 \<Rightarrow> emitter" where
  "rv_fmv_x_w rd rs1 = rv_emit_fpu_r 0x70 0 rd rs1 0"

definition rv_fmv_d_x :: "u32 \<Rightarrow> u32 \<Rightarrow> emitter" where
  "rv_fmv_d_x rd rs1 = rv_emit_fpu_r 0x79 0 rd rs1 0"

definition rv_fmv_x_d :: "u32 \<Rightarrow> u32 \<Rightarrow> emitter" where
  "rv_fmv_x_d rd rs1 = rv_emit_fpu_r 0x71 0 rd rs1 0"

definition rv_fcvt_s_l :: "u32 \<Rightarrow> u32 \<Rightarrow> emitter" where
  "rv_fcvt_s_l rd rs1 = rv_emit_fpu_r 0x68 0 rd rs1 2"

definition rv_fcvt_l_s :: "u32 \<Rightarrow> u32 \<Rightarrow> emitter" where
  "rv_fcvt_l_s rd rs1 = rv_emit_fpu_r 0x60 1 rd rs1 2"

definition rv_fcvt_d_l :: "u32 \<Rightarrow> u32 \<Rightarrow> emitter" where
  "rv_fcvt_d_l rd rs1 = rv_emit_fpu_r 0x69 0 rd rs1 2"

definition rv_fcvt_l_d :: "u32 \<Rightarrow> u32 \<Rightarrow> emitter" where
  "rv_fcvt_l_d rd rs1 = rv_emit_fpu_r 0x61 1 rd rs1 2"

definition rv_fcvt_s_d :: "u32 \<Rightarrow> u32 \<Rightarrow> emitter" where
  "rv_fcvt_s_d rd rs1 = rv_emit_fpu_r 0x20 0 rd rs1 1"

definition rv_fcvt_d_s :: "u32 \<Rightarrow> u32 \<Rightarrow> emitter" where
  "rv_fcvt_d_s rd rs1 = rv_emit_fpu_r 0x21 0 rd rs1 0"

definition rv_fcvt_s_w :: "u32 \<Rightarrow> u32 \<Rightarrow> emitter" where
  "rv_fcvt_s_w rd rs1 = rv_emit_fpu_r 0x68 0 rd rs1 0"

definition rv_fcvt_w_s :: "u32 \<Rightarrow> u32 \<Rightarrow> emitter" where
  "rv_fcvt_w_s rd rs1 = rv_emit_fpu_r 0x60 1 rd rs1 0"

definition rv_fneg_s :: "u32 \<Rightarrow> u32 \<Rightarrow> emitter" where
  "rv_fneg_s rd rs1 = rv_emit_fpu_r 0x10 1 rd rs1 rs1"

definition rv_fneg_d :: "u32 \<Rightarrow> u32 \<Rightarrow> emitter" where
  "rv_fneg_d rd rs1 = rv_emit_fpu_r 0x11 1 rd rs1 rs1"

end
