(* ===== verification/Memory.thy ===== *)
theory Memory
  imports Onyx_Prelude
begin

text \<open>
  The paged memory of the emulator \<^verbatim>\<open>tools/onx-run.c\<close>: a table of 4 KiB pages over a 1 GiB
  address space, filled on demand by writes. A read of an unmapped page and any access beyond
  the address space end the process; these exits are values of type \<open>stop\<close>.

  The locale \<open>byte_memory\<close> states what the emulator relies on, the interpretation
  \<open>onx_mem\<close> discharges it for the page table.
\<close>

subsection \<open>How an emulated process ends\<close>

datatype image_error = TooSmall | BadMagic u32 | BadSegmentCount u32 | NoEntry

datatype stop =
    OutOfRange u64
  | UnmappedRead u64
  | IllegalInsn u32
  | EbreakAt u64
  | Exited u64
  | BadImage image_error
  | StepLimit
  | HostUndefined

text \<open>The exit status of the emulator; \<open>HostUndefined\<close> marks C behaviour that is undefined.\<close>

fun exit_status :: "stop \<Rightarrow> int option" where
  "exit_status (OutOfRange a) = Some 139"
| "exit_status (UnmappedRead a) = Some 139"
| "exit_status (IllegalInsn w) = Some 132"
| "exit_status (EbreakAt pc) = Some 133"
| "exit_status (Exited code) = Some (sint (ucast code :: u32))"
| "exit_status (BadImage n) = Some 1"
| "exit_status StepLimit = Some 124"
| "exit_status HostUndefined = None"

subsection \<open>Pages\<close>

type_synonym page = "nat \<Rightarrow> u8"
type_synonym pages = "nat \<rightharpoonup> page"

definition PAGE_BITS :: nat where "PAGE_BITS = 12"
definition PAGE_MASK :: u64 where "PAGE_MASK = 0xFFF"
definition ADDR_SPACE_SIZE :: u64 where "ADDR_SPACE_SIZE = 0x40000000"

definition page_get :: "pages \<Rightarrow> u64 \<Rightarrow> bool \<Rightarrow> stop + pages \<times> page" where
  "page_get g_pages addr fault_on_nomap =
     (if ADDR_SPACE_SIZE \<le> addr then Inl (OutOfRange addr)
      else let pn = unat (drop_bit PAGE_BITS addr)
           in case g_pages pn of
                Some p \<Rightarrow> Inr (g_pages, p)
              | None \<Rightarrow>
                  if fault_on_nomap then Inl (UnmappedRead addr)
                  else Inr (g_pages(pn \<mapsto> (\<lambda>_. 0)), \<lambda>_. 0))"

definition mem_read8 :: "pages \<Rightarrow> u64 \<Rightarrow> stop + u8" where
  "mem_read8 m addr =
     bindE (page_get m addr True) (\<lambda>(m, p). Inr (p (unat (addr AND PAGE_MASK))))"

definition mem_write8 :: "pages \<Rightarrow> u64 \<Rightarrow> u8 \<Rightarrow> stop + pages" where
  "mem_write8 m addr v =
     bindE (page_get m addr False)
       (\<lambda>(m, p). Inr (m(unat (drop_bit PAGE_BITS addr) \<mapsto> p(unat (addr AND PAGE_MASK) := v))))"

text \<open>The loops of \<^verbatim>\<open>mem_read\<close> and \<^verbatim>\<open>mem_write\<close>: \<open>k\<close> bytes are left, \<open>i\<close> is the loop index.\<close>

primrec mem_read_from :: "pages \<Rightarrow> u64 \<Rightarrow> nat \<Rightarrow> nat \<Rightarrow> u64 \<Rightarrow> stop + u64" where
  "mem_read_from m addr 0 i v = Inr v"
| "mem_read_from m addr (Suc k) i v =
     bindE (mem_read8 m (addr + word_of_nat i))
       (\<lambda>b. mem_read_from m addr k (Suc i) (v OR push_bit (8 * i) (ucast b)))"

definition mem_read :: "pages \<Rightarrow> u64 \<Rightarrow> nat \<Rightarrow> stop + u64" where
  "mem_read m addr n = mem_read_from m addr n 0 0"

primrec mem_write_from :: "pages \<Rightarrow> u64 \<Rightarrow> u64 \<Rightarrow> nat \<Rightarrow> nat \<Rightarrow> stop + pages" where
  "mem_write_from m addr v 0 i = Inr m"
| "mem_write_from m addr v (Suc k) i =
     bindE (mem_write8 m (addr + word_of_nat i) (ucast (drop_bit (8 * i) v)))
       (\<lambda>m. mem_write_from m addr v k (Suc i))"

definition mem_write :: "pages \<Rightarrow> u64 \<Rightarrow> u64 \<Rightarrow> nat \<Rightarrow> stop + pages" where
  "mem_write m addr v n = mem_write_from m addr v n 0"

primrec mem_read_buf :: "pages \<Rightarrow> u64 \<Rightarrow> nat \<Rightarrow> stop + u8 list" where
  "mem_read_buf m addr 0 = Inr []"
| "mem_read_buf m addr (Suc n) =
     bindE (mem_read8 m addr) (\<lambda>b. bindE (mem_read_buf m (addr + 1) n) (\<lambda>bs. Inr (b # bs)))"

primrec mem_write_buf :: "pages \<Rightarrow> u64 \<Rightarrow> u8 list \<Rightarrow> stop + pages" where
  "mem_write_buf m addr [] = Inr m"
| "mem_write_buf m addr (b # bs) = bindE (mem_write8 m addr b) (\<lambda>m. mem_write_buf m (addr + 1) bs)"

lemma mem_read8_in_range: "mem_read8 m addr = Inr b \<Longrightarrow> unat addr < 0x40000000"
  by (auto simp: mem_read8_def page_get_def ADDR_SPACE_SIZE_def bindE_eq_Inr word_le_nat_alt
      split: if_splits)

text \<open>
  \<^verbatim>\<open>mem_strlen\<close> stops at a NUL or at the first unreadable address, which exists because the
  address space is bounded.
\<close>

function mem_strlen :: "pages \<Rightarrow> u64 \<Rightarrow> stop + nat" where
  "mem_strlen m addr =
     (case mem_read8 m addr of
        Inl e \<Rightarrow> Inl e
      | Inr b \<Rightarrow> if b = 0 then Inr 0 else bindE (mem_strlen m (addr + 1)) (\<lambda>n. Inr (Suc n)))"
  by pat_completeness auto
termination
proof (relation "measure (\<lambda>(m, addr). 0x40000001 - unat addr)", goal_cases)
  case 1
  show ?case by simp
next
  case (2 m addr b)
  from 2(1) have r: "unat addr < 0x40000000" by (rule mem_read8_in_range)
  then have "unat (addr + 1) = unat addr + 1"
    by (simp add: unat_word_ariths)
  with r show ?case by simp
qed

declare mem_strlen.simps [simp del]

text \<open>\<^verbatim>\<open>mem_read_str\<close>: at most \<open>cap - 1\<close> characters, up to the NUL; \<open>cap\<close> counts the terminator.\<close>

primrec mem_read_str_from :: "pages \<Rightarrow> u64 \<Rightarrow> nat \<Rightarrow> stop + u8 list" where
  "mem_read_str_from m addr 0 = Inr []"
| "mem_read_str_from m addr (Suc k) =
     bindE (mem_read8 m addr)
       (\<lambda>c. if c = 0 then Inr []
            else bindE (mem_read_str_from m (addr + 1) k) (\<lambda>cs. Inr (c # cs)))"

definition mem_read_str :: "pages \<Rightarrow> u64 \<Rightarrow> nat \<Rightarrow> stop + u8 list" where
  "mem_read_str m addr cap = mem_read_str_from m addr (cap - 1)"

subsection \<open>The interface the emulator relies on\<close>

locale byte_memory =
  fixes rd :: "'m \<Rightarrow> u64 \<Rightarrow> 'e + u8"
    and wr :: "'m \<Rightarrow> u64 \<Rightarrow> u8 \<Rightarrow> 'e + 'm"
    and valid :: "u64 \<Rightarrow> bool"
  assumes wr_ok: "valid a \<Longrightarrow> \<exists>m'. wr m a v = Inr m'"
    and wr_invalid: "\<not> valid a \<Longrightarrow> \<exists>e. wr m a v = Inl e"
    and rd_wr_same: "wr m a v = Inr m' \<Longrightarrow> rd m' a = Inr v"
    and rd_wr_other: "wr m a v = Inr m' \<Longrightarrow> a \<noteq> b \<Longrightarrow> rd m b = Inr x \<Longrightarrow> rd m' b = Inr x"
begin

primrec wr_list :: "'m \<Rightarrow> u64 \<Rightarrow> u8 list \<Rightarrow> 'e + 'm" where
  "wr_list m a [] = Inr m"
| "wr_list m a (v # vs) = bindE (wr m a v) (\<lambda>m. wr_list m (a + 1) vs)"

primrec rd_list :: "'m \<Rightarrow> u64 \<Rightarrow> nat \<Rightarrow> 'e + u8 list" where
  "rd_list m a 0 = Inr []"
| "rd_list m a (Suc n) = bindE (rd m a) (\<lambda>v. bindE (rd_list m (a + 1) n) (\<lambda>vs. Inr (v # vs)))"

definition outside :: "u64 \<Rightarrow> u64 \<Rightarrow> nat \<Rightarrow> bool" where
  "outside b a n \<longleftrightarrow> (\<forall>i < n. b \<noteq> a + word_of_nat i)"

lemma outside_Suc: "outside b a (Suc n) \<longleftrightarrow> b \<noteq> a \<and> outside b (a + 1) n"
proof -
  have "(\<forall>i < Suc n. b \<noteq> a + word_of_nat i) \<longleftrightarrow> b \<noteq> a \<and> (\<forall>i < n. b \<noteq> a + word_of_nat (Suc i))"
    by (auto simp: less_Suc_eq_0_disj)
  then show ?thesis
    by (simp add: outside_def add.assoc)
qed

lemma wr_list_frame:
  "wr_list m a vs = Inr m' \<Longrightarrow> outside b a (length vs) \<Longrightarrow> rd m b = Inr x \<Longrightarrow> rd m' b = Inr x"
proof (induction vs arbitrary: m a)
  case Nil
  then show ?case by simp
next
  case (Cons v vs)
  from Cons.prems(1) obtain m1 where m1: "wr m a v = Inr m1" "wr_list m1 (a + 1) vs = Inr m'"
    by (auto simp: bindE_eq_Inr)
  from Cons.prems(2) have "b \<noteq> a" "outside b (a + 1) (length vs)"
    by (simp_all add: outside_Suc)
  with m1 Cons.prems(3) show ?case
    by (blast intro: Cons.IH rd_wr_other)
qed

lemma outside_self: "n < 2 ^ 64 \<Longrightarrow> outside a (a + 1) n"
proof -
  assume n: "n < 2 ^ 64"
  show ?thesis
    unfolding outside_def
  proof (intro allI impI notI)
    fix i
    assume "i < n" and "a = a + 1 + word_of_nat i"
    then have "word_of_nat (Suc i) = (0 :: u64)"
      by (simp add: add.assoc)
    moreover have "Suc i < 2 ^ 64"
      using \<open>i < n\<close> n by linarith
    ultimately show False
      using unat_u64 [of "Suc i"] by simp
  qed
qed

lemma rd_list_wr_list:
  "wr_list m a vs = Inr m' \<Longrightarrow> length vs < 2 ^ 64 \<Longrightarrow> rd_list m' a (length vs) = Inr vs"
proof (induction vs arbitrary: m a)
  case Nil
  then show ?case by simp
next
  case (Cons v vs)
  from Cons.prems(1) obtain m1 where m1: "wr m a v = Inr m1" "wr_list m1 (a + 1) vs = Inr m'"
    by (auto simp: bindE_eq_Inr)
  have "rd m' a = Inr v"
    using m1 Cons.prems(2) by (intro wr_list_frame [OF m1(2)] outside_self rd_wr_same [OF m1(1)]) simp
  moreover have "rd_list m' (a + 1) (length vs) = Inr vs"
    using m1(2) Cons.prems(2) by (intro Cons.IH) simp_all
  ultimately show ?case by simp
qed

lemma wr_list_total: "(\<And>i. i < length vs \<Longrightarrow> valid (a + word_of_nat i)) \<Longrightarrow> \<exists>m'. wr_list m a vs = Inr m'"
proof (induction vs arbitrary: m a)
  case Nil
  then show ?case by simp
next
  case (Cons v vs)
  from Cons.prems [of 0] obtain m1 where "wr m a v = Inr m1"
    using wr_ok by fastforce
  moreover have "\<exists>m'. wr_list m1 (a + 1) vs = Inr m'"
    using Cons.prems [of "Suc _"] by (intro Cons.IH) (simp add: add.assoc)
  ultimately show ?case by auto
qed

end

subsection \<open>The page table implements the interface\<close>

definition mem_valid :: "u64 \<Rightarrow> bool" where
  "mem_valid a \<longleftrightarrow> unat a < 0x40000000"

lemma mem_valid_iff: "mem_valid a \<longleftrightarrow> \<not> ADDR_SPACE_SIZE \<le> a"
  by (auto simp: mem_valid_def ADDR_SPACE_SIZE_def word_le_nat_alt)

lemma addr_split:
  assumes "drop_bit PAGE_BITS a = drop_bit PAGE_BITS b" and "a AND PAGE_MASK = b AND PAGE_MASK"
  shows "a = (b :: u64)"
proof -
  have m: "PAGE_MASK = mask 12"
    by (simp add: PAGE_MASK_def mask_eq_exp_minus_1)
  have "push_bit 12 (drop_bit 12 x) OR (x AND mask 12) = x" for x :: u64
    by (rule bit_word_eqI) (auto simp: bit_simps)
  with assms show ?thesis
    unfolding m PAGE_BITS_def by metis
qed

lemma mem_read8_Inr_iff:
  "mem_read8 m a = Inr v \<longleftrightarrow> mem_valid a \<and>
     (\<exists>p. m (unat (drop_bit PAGE_BITS a)) = Some p \<and> v = p (unat (a AND PAGE_MASK)))"
  by (auto simp: mem_read8_def page_get_def mem_valid_iff Let_def split: option.splits)

lemma mem_write8_eq:
  "mem_write8 m a v =
     (if mem_valid a
      then Inr (m(unat (drop_bit PAGE_BITS a) \<mapsto>
             (case m (unat (drop_bit PAGE_BITS a)) of None \<Rightarrow> (\<lambda>_. 0) | Some p \<Rightarrow> p)
               (unat (a AND PAGE_MASK) := v)))
      else Inl (OutOfRange a))"
  by (simp add: mem_write8_def page_get_def mem_valid_iff Let_def split: option.splits)

lemma mem_read8_write8_other:
  assumes "mem_write8 m a v = Inr m'" and "a \<noteq> b" and "mem_read8 m b = Inr x"
  shows "mem_read8 m' b = Inr x"
proof -
  have "\<not> (unat (drop_bit PAGE_BITS b) = unat (drop_bit PAGE_BITS a)
      \<and> unat (b AND PAGE_MASK) = unat (a AND PAGE_MASK))"
    using addr_split assms(2) unfolding word_unat_eq_iff [symmetric] by blast
  with assms(1,3) show ?thesis
    by (auto simp: mem_read8_Inr_iff mem_write8_eq split: if_splits)
qed

interpretation onx_mem: byte_memory mem_read8 mem_write8 mem_valid
proof unfold_locales
  show "\<exists>m'. mem_write8 m a v = Inr m'" if "mem_valid a" for m a v
    using that by (simp add: mem_write8_eq)
  show "\<exists>e. mem_write8 m a v = Inl e" if "\<not> mem_valid a" for m a v
    using that by (simp add: mem_write8_eq)
  show "mem_read8 m' a = Inr v" if "mem_write8 m a v = Inr m'" for m a v m'
    using that by (auto simp: mem_read8_Inr_iff mem_write8_eq split: if_splits)
  show "mem_read8 m' b = Inr x" if "mem_write8 m a v = Inr m'" "a \<noteq> b" "mem_read8 m b = Inr x"
    for m a v m' b x
    using that by (rule mem_read8_write8_other)
qed

lemma mem_write_buf_eq: "mem_write_buf m a bs = onx_mem.wr_list m a bs"
  by (induction bs arbitrary: m a) (auto simp: bindE_def split: sum.splits)

lemma mem_read_buf_eq: "mem_read_buf m a n = onx_mem.rd_list m a n"
  by (induction n arbitrary: a) (auto simp: bindE_def split: sum.splits)

lemma mem_write_from_eq:
  "mem_write_from m a v k i = onx_mem.wr_list m (a + word_of_nat i) (le_bytes k (drop_bit (8 * i) v))"
proof (induction k arbitrary: m i)
  case 0
  then show ?case by simp
next
  case (Suc k)
  show ?case
    unfolding mem_write_from.simps le_bytes.simps onx_mem.wr_list.simps Suc.IH
    by (simp add: drop_bit_drop_bit algebra_simps)
qed

lemma mem_write_eq: "mem_write m a v n = onx_mem.wr_list m a (le_bytes n v)"
  by (simp add: mem_write_def mem_write_from_eq)

lemma mem_read_from_eq:
  "onx_mem.rd_list m (a + word_of_nat i) k = Inr bs \<Longrightarrow>
     mem_read_from m a k i v = Inr (v OR push_bit (8 * i) (un_le bs))"
proof (induction k arbitrary: i v bs)
  case 0
  then show ?case by simp
next
  case (Suc k)
  from Suc.prems obtain b bs' where b: "mem_read8 m (a + word_of_nat i) = Inr b"
    and r: "onx_mem.rd_list m (a + word_of_nat (Suc i)) k = Inr bs'" and bs: "bs = b # bs'"
    by (auto simp: bindE_eq_Inr add.assoc add.commute [of 1])
  show ?case
    using b Suc.IH [OF r] bs by (simp add: push_bit_or or.assoc add.commute)
qed

lemma mem_read_eq: "onx_mem.rd_list m a n = Inr bs \<Longrightarrow> mem_read m a n = Inr (un_le bs)"
  using mem_read_from_eq [of m a 0 n bs 0] by (simp add: mem_read_def)

lemma mem_write_total:
  assumes "unat a + n \<le> 0x40000000"
  shows "\<exists>m'. mem_write m a v n = Inr m'"
  unfolding mem_write_eq
proof (rule onx_mem.wr_list_total)
  fix i
  assume "i < length (le_bytes n v)"
  then have "unat (a + word_of_nat i) = unat a + i"
    using assms by (simp add: unat_word_ariths unat_of_nat)
  with \<open>i < _\<close> assms show "mem_valid (a + word_of_nat i)"
    by (simp add: mem_valid_def)
qed

text \<open>
  What the emulator stores it reads back: for every access width up to eight bytes,
  \<^verbatim>\<open>mem_read\<close> after a successful \<^verbatim>\<open>mem_write\<close> at the same address returns the low bytes of the
  stored value, and every readable byte outside the written range is unchanged.
\<close>

theorem mem_read_write:
  assumes "n \<le> 8" and "mem_write m a v n = Inr m'"
  shows "mem_read m' a n = Inr (take_bit (8 * n) v)
    \<and> (\<forall>b x. (\<forall>i < n. b \<noteq> a + word_of_nat i) \<longrightarrow> mem_read8 m b = Inr x \<longrightarrow> mem_read8 m' b = Inr x)"
proof -
  have w: "onx_mem.wr_list m a (le_bytes n v) = Inr m'"
    using assms(2) by (simp add: mem_write_eq)
  have "onx_mem.rd_list m' a n = Inr (le_bytes n v)"
    using onx_mem.rd_list_wr_list [OF w] assms(1) by simp
  then have "mem_read m' a n = Inr (take_bit (8 * n) v)"
    by (auto dest!: mem_read_eq simp: un_le_le_bytes)
  then show ?thesis
    using onx_mem.wr_list_frame [OF w] by (simp add: onx_mem.outside_def)
qed

theorem mem_read_write_witness:
  "\<exists>m'. mem_write Map.empty 0x1FFE 0x11223344 4 = Inr m' \<and> mem_read m' 0x1FFE 4 = Inr 0x11223344"
proof -
  obtain m' where w: "mem_write Map.empty 0x1FFE 0x11223344 4 = Inr m'"
    using mem_write_total [of "0x1FFE" 4] by auto
  with mem_read_write [of 4 Map.empty "0x1FFE" "0x11223344" m'] show ?thesis
    by (auto simp: take_bit_word_eq_self)
qed

end
