(* ===== verification/Syscalls.thy ===== *)
theory Syscalls
  imports Memory
begin

text \<open>
  The processor state of \<^verbatim>\<open>tools/onx-run.c\<close> and its system-call layer \<^verbatim>\<open>do_syscall\<close>. The host
  operating system is not part of the repository: its calls are the fields of \<open>host_ops\<close>, a
  parameter of every operation, over a host state of any type. Tracing output is left out.
\<close>

subsection \<open>State\<close>

record 'h cpu =
  g_pages :: pages
  g_reg :: "nat \<Rightarrow> u64"
  g_freg :: "nat \<Rightarrow> u64"
  g_pc :: u64
  g_fcsr :: u32
  g_brk :: u64
  g_fds :: "nat \<Rightarrow> int"
  g_host :: 'h

record stat_buf =
  st_dev :: u64
  st_ino :: u64
  st_mode :: u64
  st_nlink :: u64
  st_uid :: u64
  st_gid :: u64
  st_rdev :: u64
  st_size :: u64
  st_blksize :: u64
  st_blocks :: u64
  st_atime :: u64
  st_mtime :: u64
  st_ctime :: u64

datatype access_mode = O_RDONLY | O_WRONLY | O_RDWR

record open_flags =
  o_acc :: access_mode
  o_creat :: bool
  o_excl :: bool
  o_trunc :: bool
  o_append :: bool

record 'h host_ops =
  h_stdout :: "u8 list \<Rightarrow> 'h \<Rightarrow> u64 \<times> 'h"
  h_stderr :: "u8 list \<Rightarrow> 'h \<Rightarrow> u64 \<times> 'h"
  h_write :: "int \<Rightarrow> u8 list \<Rightarrow> 'h \<Rightarrow> u64 \<times> 'h"
  h_getc :: "'h \<Rightarrow> u8 option \<times> 'h"
  h_read :: "int \<Rightarrow> u64 \<Rightarrow> 'h \<Rightarrow> (u64 + u8 list) \<times> 'h"
  h_getpid :: "'h \<Rightarrow> u64"
  h_open :: "u8 list \<Rightarrow> open_flags \<Rightarrow> 'h \<Rightarrow> (u64 + nat) \<times> 'h"
  h_close :: "int \<Rightarrow> 'h \<Rightarrow> 'h"
  h_lseek :: "int \<Rightarrow> u64 \<Rightarrow> u32 \<Rightarrow> 'h \<Rightarrow> u64 \<times> 'h"
  h_stat :: "u8 list \<Rightarrow> 'h \<Rightarrow> stat_buf option"
  h_fstat :: "int \<Rightarrow> 'h \<Rightarrow> stat_buf option"
  h_dup :: "int \<Rightarrow> 'h \<Rightarrow> int \<times> 'h"
  h_gettimeofday :: "'h \<Rightarrow> u64 \<times> u64"
  h_clock_gettime :: "bool \<Rightarrow> 'h \<Rightarrow> u64 \<times> u64"
  h_nanosleep :: "u64 \<Rightarrow> u64 \<Rightarrow> 'h \<Rightarrow> 'h"
  h_ftruncate :: "int \<Rightarrow> u64 \<Rightarrow> 'h \<Rightarrow> bool \<times> 'h"
  h_truncate :: "u8 list \<Rightarrow> u64 \<Rightarrow> 'h \<Rightarrow> bool \<times> 'h"
  h_getcwd :: "'h \<Rightarrow> u8 list option"
  h_chdir :: "u8 list \<Rightarrow> 'h \<Rightarrow> bool \<times> 'h"
  h_unlink :: "u8 list \<Rightarrow> 'h \<Rightarrow> bool \<times> 'h"
  h_rename :: "u8 list \<Rightarrow> u8 list \<Rightarrow> 'h \<Rightarrow> bool \<times> 'h"
  h_access :: "u8 list \<Rightarrow> int \<Rightarrow> 'h \<Rightarrow> bool"
  h_rand :: "'h \<Rightarrow> u32 \<times> 'h"

subsection \<open>Helpers\<close>

text \<open>
  The mapping loops \<^verbatim>\<open>for (a = lo; a < hi; a += PAGE_SIZE) page_get(a, false)\<close> of the loader,
  the break and the start-up code. A page that can be mapped lies in the address space, so the
  counter does not wrap and the loop ends.
\<close>

lemma page_get_in_range: "page_get m a f = Inr r \<Longrightarrow> unat a < 0x40000000"
  by (auto simp: page_get_def ADDR_SPACE_SIZE_def word_le_nat_alt split: if_splits)

function map_range :: "pages \<Rightarrow> u64 \<Rightarrow> u64 \<Rightarrow> stop + pages" where
  "map_range m a hi =
     (if a < hi
      then (case page_get m a False of
              Inl e \<Rightarrow> Inl e
            | Inr (m', p) \<Rightarrow> map_range m' (a + 0x1000) hi)
      else Inr m)"
  by pat_completeness auto
termination
proof (relation "measure (\<lambda>(m, a, hi). 0x40001000 - unat a)", goal_cases)
  case 1
  show ?case by simp
next
  case (2 m a hi r m' p)
  then have r: "unat a < 0x40000000" by (auto dest: page_get_in_range)
  then have "unat (a + 0x1000) = unat a + 0x1000"
    by (simp add: unat_word_ariths)
  with r show ?case by simp
qed

declare map_range.simps [simp del]

fun mem_writes :: "pages \<Rightarrow> u64 \<Rightarrow> (u64 \<times> u64 \<times> nat) list \<Rightarrow> stop + pages" where
  "mem_writes m base [] = Inr m"
| "mem_writes m base ((off, v, n) # ws) =
     bindE (mem_write m (base + off) v n) (\<lambda>m. mem_writes m base ws)"

definition fd_arg :: "u64 \<Rightarrow> int" where
  "fd_arg a = sint (ucast a :: u32)"

definition fd_open :: "'h cpu \<Rightarrow> int \<Rightarrow> bool" where
  "fd_open s fd \<longleftrightarrow> 0 \<le> fd \<and> fd < 32 \<and> 0 \<le> g_fds s (nat fd)"

definition fd_alloc :: "'h cpu \<Rightarrow> int \<Rightarrow> ('h cpu \<times> nat) option" where
  "fd_alloc s host_fd =
     (case List.find (\<lambda>i. g_fds s i = -1) [3..<32] of
        None \<Rightarrow> None
      | Some i \<Rightarrow> Some (s\<lparr>g_fds := (g_fds s)(i := host_fd)\<rparr>, i))"

definition host_oflags :: "u32 \<Rightarrow> open_flags" where
  "host_oflags f =
     (let acc = f AND 3
      in \<lparr>o_acc = (if acc = 1 then O_WRONLY else if acc = 2 then O_RDWR else O_RDONLY),
          o_creat = (f AND 0x40 \<noteq> 0), o_excl = (f AND 0x80 \<noteq> 0),
          o_trunc = (f AND 0x200 \<noteq> 0), o_append = (f AND 0x400 \<noteq> 0)\<rparr>)"

definition do_stat_fill :: "pages \<Rightarrow> u64 \<Rightarrow> stat_buf \<Rightarrow> stop + pages" where
  "do_stat_fill m b st =
     mem_writes m b
       [(0, st_dev st, 8), (8, st_ino st, 8), (16, st_mode st, 4), (20, st_nlink st, 4),
        (24, st_uid st, 4), (28, st_gid st, 4), (32, 0, 4), (40, st_rdev st, 8),
        (48, st_size st, 8), (56, st_blksize st, 8), (64, st_blocks st, 8),
        (72, st_atime st, 8), (80, 0, 8), (88, st_mtime st, 8), (96, 0, 8),
        (104, st_ctime st, 8), (112, 0, 8)]"

type_synonym 'h sysresult = "stop + u64 \<times> 'h cpu"

text \<open>Return with an error code, with the host state changed, with memory changed.\<close>

abbreviation ret :: "u64 \<Rightarrow> 'h cpu \<Rightarrow> 'h sysresult" where
  "ret v s \<equiv> Inr (v, s)"

abbreviation ret_host :: "u64 \<times> 'h \<Rightarrow> 'h cpu \<Rightarrow> 'h sysresult" where
  "ret_host r s \<equiv> Inr (fst r, s\<lparr>g_host := snd r\<rparr>)"

abbreviation ret_mem :: "stop + pages \<Rightarrow> u64 \<Rightarrow> 'h cpu \<Rightarrow> 'h sysresult" where
  "ret_mem r v s \<equiv> bindE r (\<lambda>m. Inr (v, s\<lparr>g_pages := m\<rparr>))"

definition path_arg :: "'h cpu \<Rightarrow> u64 \<Rightarrow> stop + u8 list" where
  "path_arg s a = mem_read_str (g_pages s) a 1024"

definition bool_ret :: "u64 \<Rightarrow> bool \<times> 'h \<Rightarrow> 'h cpu \<Rightarrow> 'h sysresult" where
  "bool_ret err r s = Inr (if fst r then 0 else err, s\<lparr>g_host := snd r\<rparr>)"

subsection \<open>The system calls\<close>

definition sys_write :: "'h host_ops \<Rightarrow> 'h cpu \<Rightarrow> u64 \<Rightarrow> u64 \<Rightarrow> u64 \<Rightarrow> 'h sysresult" where
  "sys_write h s a0 a1 a2 =
     bindE (mem_read_buf (g_pages s) a1 (unat a2))
       (\<lambda>tmp. if fd_arg a0 = 1 then ret_host (h_stdout h tmp (g_host s)) s
              else if fd_arg a0 = 2 then ret_host (h_stderr h tmp (g_host s)) s
              else if fd_open s (fd_arg a0)
              then ret_host (h_write h (g_fds s (nat (fd_arg a0))) tmp (g_host s)) s
              else ret (-9) s)"

definition sys_read :: "'h host_ops \<Rightarrow> 'h cpu \<Rightarrow> u64 \<Rightarrow> u64 \<Rightarrow> u64 \<Rightarrow> 'h sysresult" where
  "sys_read h s a0 a1 a2 =
     (if fd_arg a0 = 0
      then (case h_getc h (g_host s) of
              (None, hs) \<Rightarrow> ret 0 (s\<lparr>g_host := hs\<rparr>)
            | (Some c, hs) \<Rightarrow> ret_mem (mem_write8 (g_pages s) a1 c) 1 (s\<lparr>g_host := hs\<rparr>))
      else if fd_open s (fd_arg a0)
      then (case h_read h (g_fds s (nat (fd_arg a0))) a2 (g_host s) of
              (Inl err, hs) \<Rightarrow> ret err (s\<lparr>g_host := hs\<rparr>)
            | (Inr bs, hs) \<Rightarrow>
                ret_mem (mem_write_buf (g_pages s) a1 bs) (word_of_nat (length bs)) (s\<lparr>g_host := hs\<rparr>))
      else ret (-9) s)"

definition sys_brk :: "'h cpu \<Rightarrow> u64 \<Rightarrow> 'h sysresult" where
  "sys_brk s a0 =
     (if a0 = 0 then ret (g_brk s) s
      else if g_brk s < a0 \<and> a0 < 0x10000000
      then ret_mem (map_range (g_pages s) (g_brk s) a0) a0 (s\<lparr>g_brk := a0\<rparr>)
      else ret (g_brk s) s)"

text \<open>Negating the least \<^verbatim>\<open>int64_t\<close> is undefined in C.\<close>

definition sys_sbrk :: "'h cpu \<Rightarrow> u64 \<Rightarrow> 'h sysresult" where
  "sys_sbrk s a0 =
     (if a0 = 0x8000000000000000 then Inl HostUndefined
      else let old = g_brk s;
               nb = (if 0 \<le> sint a0 then g_brk s + a0
                     else if - a0 < g_brk s then g_brk s - (- a0) else 0x1000000)
           in if 0x10000000 < nb then ret (-12) s
              else ret_mem (map_range (g_pages s) old nb) old (s\<lparr>g_brk := nb\<rparr>))"

definition sys_mmap :: "'h cpu \<Rightarrow> u64 \<Rightarrow> u64 \<Rightarrow> 'h sysresult" where
  "sys_mmap s a0 a1 =
     (if 0x10000000 < a1 then ret (-12) s
      else ret_mem (map_range (g_pages s) a0 (a0 + a1)) a0 s)"

definition sys_open :: "'h host_ops \<Rightarrow> 'h cpu \<Rightarrow> u64 \<Rightarrow> u64 \<Rightarrow> 'h sysresult" where
  "sys_open h s a0 a1 =
     bindE (path_arg s a0)
       (\<lambda>path. case h_open h path (host_oflags (ucast a1)) (g_host s) of
          (Inl neg_errno, hs) \<Rightarrow> ret neg_errno (s\<lparr>g_host := hs\<rparr>)
        | (Inr host_fd, hs) \<Rightarrow>
            (case fd_alloc (s\<lparr>g_host := hs\<rparr>) (int host_fd) of
               None \<Rightarrow> ret (-24) (s\<lparr>g_host := h_close h (int host_fd) hs\<rparr>)
             | Some (s', fd) \<Rightarrow> ret (word_of_nat fd) s'))"

definition sys_close :: "'h host_ops \<Rightarrow> 'h cpu \<Rightarrow> u64 \<Rightarrow> 'h sysresult" where
  "sys_close h s a0 =
     (let fd = fd_arg a0
      in if 3 \<le> fd \<and> fd_open s fd
         then ret 0 (s\<lparr>g_host := h_close h (g_fds s (nat fd)) (g_host s),
                       g_fds := (g_fds s)(nat fd := -1)\<rparr>)
         else ret (-9) s)"

definition sys_lseek :: "'h host_ops \<Rightarrow> 'h cpu \<Rightarrow> u64 \<Rightarrow> u64 \<Rightarrow> u64 \<Rightarrow> 'h sysresult" where
  "sys_lseek h s a0 a1 a2 =
     (if fd_open s (fd_arg a0)
      then ret_host (h_lseek h (g_fds s (nat (fd_arg a0))) a1 (ucast a2) (g_host s)) s
      else ret (-9) s)"

definition sys_stat :: "'h host_ops \<Rightarrow> 'h cpu \<Rightarrow> u64 \<Rightarrow> u64 \<Rightarrow> 'h sysresult" where
  "sys_stat h s a0 a1 =
     bindE (path_arg s a0)
       (\<lambda>path. case h_stat h path (g_host s) of
          None \<Rightarrow> ret (-2) s
        | Some st \<Rightarrow> ret_mem (do_stat_fill (g_pages s) a1 st) 0 s)"

definition sys_fstat :: "'h host_ops \<Rightarrow> 'h cpu \<Rightarrow> u64 \<Rightarrow> u64 \<Rightarrow> 'h sysresult" where
  "sys_fstat h s a0 a1 =
     (if fd_open s (fd_arg a0)
      then (case h_fstat h (g_fds s (nat (fd_arg a0))) (g_host s) of
              None \<Rightarrow> ret (-2) s
            | Some st \<Rightarrow> ret_mem (do_stat_fill (g_pages s) a1 st) 0 s)
      else if fd_arg a0 = 1 \<or> fd_arg a0 = 2
      then ret_mem (mem_writes (g_pages s) a1 [(16, 8592, 4), (48, 0, 8)]) 0 s
      else ret (-9) s)"

definition sys_dup :: "'h host_ops \<Rightarrow> 'h cpu \<Rightarrow> u64 \<Rightarrow> 'h sysresult" where
  "sys_dup h s a0 =
     (if fd_open s (fd_arg a0)
      then (let r = h_dup h (g_fds s (nat (fd_arg a0))) (g_host s);
                s = s\<lparr>g_host := snd r\<rparr>
            in case fd_alloc s (fst r) of
                 None \<Rightarrow> ret (-1) s
               | Some (s', fd) \<Rightarrow> ret (word_of_nat fd) s')
      else ret (-9) s)"

definition sys_gettimeofday :: "'h host_ops \<Rightarrow> 'h cpu \<Rightarrow> u64 \<Rightarrow> 'h sysresult" where
  "sys_gettimeofday h s a0 =
     (let tv = h_gettimeofday h (g_host s)
      in if a0 \<noteq> 0 then ret_mem (mem_writes (g_pages s) a0 [(0, fst tv, 8), (8, snd tv, 8)]) 0 s
         else ret 0 s)"

definition sys_clock_gettime :: "'h host_ops \<Rightarrow> 'h cpu \<Rightarrow> u64 \<Rightarrow> u64 \<Rightarrow> 'h sysresult" where
  "sys_clock_gettime h s a0 a1 =
     (let ts = h_clock_gettime h (a0 = 1) (g_host s)
      in ret_mem (mem_writes (g_pages s) a1 [(0, fst ts, 8), (8, snd ts, 8)]) 0 s)"

definition sys_clock_getres :: "'h cpu \<Rightarrow> u64 \<Rightarrow> 'h sysresult" where
  "sys_clock_getres s a1 = ret_mem (mem_writes (g_pages s) a1 [(0, 0, 8), (8, 1000, 8)]) 0 s"

definition sys_nanosleep :: "'h host_ops \<Rightarrow> 'h cpu \<Rightarrow> u64 \<Rightarrow> 'h sysresult" where
  "sys_nanosleep h s a0 =
     bindE (mem_read (g_pages s) a0 8)
       (\<lambda>sec. bindE (mem_read (g_pages s) (a0 + 8) 8)
          (\<lambda>nsec. ret 0 (s\<lparr>g_host := h_nanosleep h sec nsec (g_host s)\<rparr>)))"

definition sys_ioctl :: "'h cpu \<Rightarrow> u64 \<Rightarrow> u64 \<Rightarrow> 'h sysresult" where
  "sys_ioctl s a1 a2 =
     (if a1 = 0x5401
      then ret_mem (bindE (mem_write_buf (g_pages s) a2 (replicate 60 0))
                      (\<lambda>m. mem_write m (a2 + 12) 10 4)) 0 s
      else if a1 = 0x5402 then ret 0 s
      else if a1 = 0x5413 then ret_mem (mem_writes (g_pages s) a2 [(0, 24, 2), (2, 80, 2)]) 0 s
      else ret 0 s)"

definition sys_ftruncate :: "'h host_ops \<Rightarrow> 'h cpu \<Rightarrow> u64 \<Rightarrow> u64 \<Rightarrow> 'h sysresult" where
  "sys_ftruncate h s a0 a1 =
     (if fd_open s (fd_arg a0)
      then bool_ret (-1) (h_ftruncate h (g_fds s (nat (fd_arg a0))) a1 (g_host s)) s
      else ret (-9) s)"

definition sys_getcwd :: "'h host_ops \<Rightarrow> 'h cpu \<Rightarrow> u64 \<Rightarrow> u64 \<Rightarrow> 'h sysresult" where
  "sys_getcwd h s a0 a1 =
     (case h_getcwd h (g_host s) of
        None \<Rightarrow> ret (-1) s
      | Some tmp \<Rightarrow>
          if unat a1 < length tmp + 1 then ret (-34) s
          else ret_mem (mem_write_buf (g_pages s) a0 (tmp @ [0])) (word_of_nat (length tmp)) s)"

definition sys_rename :: "'h host_ops \<Rightarrow> 'h cpu \<Rightarrow> u64 \<Rightarrow> u64 \<Rightarrow> 'h sysresult" where
  "sys_rename h s a0 a1 =
     bindE (path_arg s a0)
       (\<lambda>oldp. bindE (path_arg s a1)
          (\<lambda>newp. bool_ret (-2) (h_rename h oldp newp (g_host s)) s))"

definition sys_path_op :: "'h cpu \<Rightarrow> u64 \<Rightarrow> u64 \<Rightarrow> (u8 list \<Rightarrow> bool \<times> 'h) \<Rightarrow> 'h sysresult" where
  "sys_path_op s a0 err f = bindE (path_arg s a0) (\<lambda>path. bool_ret err (f path) s)"

primrec sys_getentropy_from :: "'h host_ops \<Rightarrow> 'h cpu \<Rightarrow> u64 \<Rightarrow> nat \<Rightarrow> stop + 'h cpu" where
  "sys_getentropy_from h s a 0 = Inr s"
| "sys_getentropy_from h s a (Suc n) =
     (let r = h_rand h (g_host s)
      in bindE (mem_write8 (g_pages s) a (ucast (drop_bit 8 (fst r))))
           (\<lambda>m. sys_getentropy_from h (s\<lparr>g_pages := m, g_host := snd r\<rparr>) (a + 1) n))"

text \<open>The dispatch on \<^verbatim>\<open>a7\<close>, in the order of the source's cases.\<close>

definition do_syscall :: "'h host_ops \<Rightarrow> 'h cpu \<Rightarrow> 'h sysresult" where
  "do_syscall h s =
     (let nr = g_reg s 17; a0 = g_reg s 10; a1 = g_reg s 11; a2 = g_reg s 12
      in if nr = 1 then sys_write h s a0 a1 a2
         else if nr = 2 then sys_read h s a0 a1 a2
         else if nr = 3 then Inl (Exited a0)
         else if nr = 4 then ret 0 s
         else if nr = 5 then ret (h_getpid h (g_host s)) s
         else if nr = 6 then sys_brk s a0
         else if nr = 13 then sys_sbrk s a0
         else if nr = 7 then sys_mmap s a0 a1
         else if nr = 34 then ret 0 s
         else if nr = 8 then sys_open h s a0 a1
         else if nr = 9 then sys_close h s a0
         else if nr = 10 then sys_lseek h s a0 a1 a2
         else if nr = 11 then sys_stat h s a0 a1
         else if nr = 50 then sys_fstat h s a0 a1
         else if nr = 44 then ret 0 s
         else if nr = 35 then sys_dup h s a0
         else if nr = 43 then sys_gettimeofday h s a0
         else if nr = 64 then sys_clock_gettime h s a0 a1
         else if nr = 65 then sys_clock_getres s a1
         else if nr = 49 then sys_nanosleep h s a0
         else if nr = 53 then sys_ioctl s a1 a2
         else if nr = 66 then ret 1 s
         else if nr = 72 then sys_ftruncate h s a0 a1
         else if nr = 71 then sys_path_op s a0 (-1) (\<lambda>p. h_truncate h p a1 (g_host s))
         else if nr = 40 then sys_getcwd h s a0 a1
         else if nr = 39 then sys_path_op s a0 (-2) (\<lambda>p. h_chdir h p (g_host s))
         else if nr = 37 then sys_path_op s a0 (-2) (\<lambda>p. h_unlink h p (g_host s))
         else if nr = 38 then sys_rename h s a0 a1
         else if nr = 42
         then sys_path_op s a0 (-2) (\<lambda>p. (h_access h p (fd_arg a1) (g_host s), g_host s))
         else if nr = 67 then bindE (sys_getentropy_from h s a0 (unat a1)) (\<lambda>s. ret 0 s)
         else ret (-38) s)"

end
