(* ===== verification/Emulator.thy ===== *)
theory Emulator
  imports Syscalls
begin

text \<open>
  The RV64IMAFD interpreter of \<^verbatim>\<open>tools/onx-run.c\<close>: fetch, decode and execute one instruction,
  with one definition per opcode of the \<^verbatim>\<open>switch\<close> in \<^verbatim>\<open>step\<close>, and the main loop with its step
  limit. The host's floating-point arithmetic is a parameter, the record \<open>fpu\<close> of operations
  on bit patterns.
\<close>

subsection \<open>Host floating point\<close>

record fpu =
  fadd_s :: "u32 \<Rightarrow> u32 \<Rightarrow> u32"
  fsub_s :: "u32 \<Rightarrow> u32 \<Rightarrow> u32"
  fmul_s :: "u32 \<Rightarrow> u32 \<Rightarrow> u32"
  fdiv_s :: "u32 \<Rightarrow> u32 \<Rightarrow> u32"
  fsqrt_s :: "u32 \<Rightarrow> u32"
  feq_s :: "u32 \<Rightarrow> u32 \<Rightarrow> bool"
  flt_s :: "u32 \<Rightarrow> u32 \<Rightarrow> bool"
  fle_s :: "u32 \<Rightarrow> u32 \<Rightarrow> bool"
  fneg_nan_s :: u32
  fadd_d :: "u64 \<Rightarrow> u64 \<Rightarrow> u64"
  fsub_d :: "u64 \<Rightarrow> u64 \<Rightarrow> u64"
  fmul_d :: "u64 \<Rightarrow> u64 \<Rightarrow> u64"
  fdiv_d :: "u64 \<Rightarrow> u64 \<Rightarrow> u64"
  fsqrt_d :: "u64 \<Rightarrow> u64"
  feq_d :: "u64 \<Rightarrow> u64 \<Rightarrow> bool"
  flt_d :: "u64 \<Rightarrow> u64 \<Rightarrow> bool"
  fle_d :: "u64 \<Rightarrow> u64 \<Rightarrow> bool"
  fneg_nan_d :: u64
  f_of_int_s :: "int \<Rightarrow> u32"
  f_of_int_d :: "int \<Rightarrow> u64"
  f_to_int_s :: "u32 \<Rightarrow> int"
  f_to_int_d :: "u64 \<Rightarrow> int"
  f_narrow :: "u64 \<Rightarrow> u32"
  f_widen :: "u32 \<Rightarrow> u64"

subsection \<open>Decoding\<close>

definition fetch32 :: "pages \<Rightarrow> u64 \<Rightarrow> stop + u32" where
  "fetch32 m pc =
     bindE (mem_read8 m pc) (\<lambda>b0. bindE (mem_read8 m (pc + 1)) (\<lambda>b1.
     bindE (mem_read8 m (pc + 2)) (\<lambda>b2. bindE (mem_read8 m (pc + 3)) (\<lambda>b3.
       Inr (ucast b0 OR push_bit 8 (ucast b1) OR push_bit 16 (ucast b2) OR push_bit 24 (ucast b3))))))"

definition sx :: "u64 \<Rightarrow> nat \<Rightarrow> u64" where
  "sx v bits = (let m = push_bit (bits - 1) 1 in (v XOR m) - m)"

definition f_opcode :: "u32 \<Rightarrow> u32" where "f_opcode insn = insn AND 0x7F"
definition f_rd :: "u32 \<Rightarrow> nat" where "f_rd insn = unat (drop_bit 7 insn AND 0x1F)"
definition f_funct3 :: "u32 \<Rightarrow> u32" where "f_funct3 insn = drop_bit 12 insn AND 0x7"
definition f_rs1 :: "u32 \<Rightarrow> nat" where "f_rs1 insn = unat (drop_bit 15 insn AND 0x1F)"
definition f_rs2 :: "u32 \<Rightarrow> nat" where "f_rs2 insn = unat (drop_bit 20 insn AND 0x1F)"
definition f_funct7 :: "u32 \<Rightarrow> u32" where "f_funct7 insn = drop_bit 25 insn AND 0x7F"

definition imm_i :: "u32 \<Rightarrow> u64" where
  "imm_i insn = sx (ucast (drop_bit 20 insn AND 0xFFF)) 12"

definition imm_s :: "u32 \<Rightarrow> u64" where
  "imm_s insn = sx (ucast (push_bit 5 (drop_bit 25 insn AND 0x7F) OR (drop_bit 7 insn AND 0x1F))) 12"

definition imm_b :: "u32 \<Rightarrow> u64" where
  "imm_b insn =
     sx (ucast (push_bit 12 (drop_bit 31 insn AND 1) OR push_bit 11 (drop_bit 7 insn AND 1) OR
                push_bit 5 (drop_bit 25 insn AND 0x3F) OR push_bit 1 (drop_bit 8 insn AND 0xF))) 13"

definition imm_j :: "u32 \<Rightarrow> u64" where
  "imm_j insn =
     sx (ucast (push_bit 20 (drop_bit 31 insn AND 1) OR push_bit 12 (drop_bit 12 insn AND 0xFF) OR
                push_bit 11 (drop_bit 20 insn AND 1) OR push_bit 1 (drop_bit 21 insn AND 0x3FF))) 21"

definition imm_u :: "u32 \<Rightarrow> u64" where
  "imm_u insn = scast (insn AND 0xFFFFF000)"

subsection \<open>Executing one instruction\<close>

text \<open>
  Each definition returns the state after the opcode's case together with the next program
  counter, before the common \<^verbatim>\<open>g_reg[0] = 0; g_pc = npc\<close>.
\<close>

type_synonym 'h exec_result = "stop + 'h cpu \<times> u64"

definition set_reg :: "nat \<Rightarrow> u64 \<Rightarrow> 'h cpu \<Rightarrow> 'h cpu" where
  "set_reg rd v s = s\<lparr>g_reg := (g_reg s)(rd := v)\<rparr>"

definition set_freg :: "nat \<Rightarrow> u64 \<Rightarrow> 'h cpu \<Rightarrow> 'h cpu" where
  "set_freg rd v s = s\<lparr>g_freg := (g_freg s)(rd := v)\<rparr>"

abbreviation sext32 :: "u32 \<Rightarrow> u64" where "sext32 w \<equiv> scast w"

abbreviation flag64 :: "bool \<Rightarrow> u64" where "flag64 b \<equiv> (if b then 1 else 0)"

definition exec_lui :: "u32 \<Rightarrow> 'h cpu \<Rightarrow> 'h exec_result" where
  "exec_lui insn s = Inr (set_reg (f_rd insn) (imm_u insn) s, g_pc s + 4)"

definition exec_auipc :: "u32 \<Rightarrow> 'h cpu \<Rightarrow> 'h exec_result" where
  "exec_auipc insn s = Inr (set_reg (f_rd insn) (g_pc s + imm_u insn) s, g_pc s + 4)"

definition exec_jal :: "u32 \<Rightarrow> 'h cpu \<Rightarrow> 'h exec_result" where
  "exec_jal insn s =
     Inr (if f_rd insn \<noteq> 0 then set_reg (f_rd insn) (g_pc s + 4) s else s, g_pc s + imm_j insn)"

definition exec_jalr :: "u32 \<Rightarrow> 'h cpu \<Rightarrow> 'h exec_result" where
  "exec_jalr insn s =
     (let t = (g_reg s (f_rs1 insn) + imm_i insn) AND NOT 1
      in Inr (if f_rd insn \<noteq> 0 then set_reg (f_rd insn) (g_pc s + 4) s else s, t))"

definition exec_branch :: "u32 \<Rightarrow> 'h cpu \<Rightarrow> 'h exec_result" where
  "exec_branch insn s =
     (let a = g_reg s (f_rs1 insn); b = g_reg s (f_rs2 insn); f3 = f_funct3 insn;
          go = (\<lambda>take. Inr (s, if take then g_pc s + imm_b insn else g_pc s + 4))
      in if f3 = 0 then go (a = b)
         else if f3 = 1 then go (a \<noteq> b)
         else if f3 = 4 then go (sint a < sint b)
         else if f3 = 5 then go (sint a \<ge> sint b)
         else if f3 = 6 then go (a < b)
         else if f3 = 7 then go (a \<ge> b)
         else Inl (IllegalInsn insn))"

definition exec_load :: "u32 \<Rightarrow> 'h cpu \<Rightarrow> 'h exec_result" where
  "exec_load insn s =
     (let addr = g_reg s (f_rs1 insn) + imm_i insn; m = g_pages s; f3 = f_funct3 insn;
          put = (\<lambda>v. Inr (set_reg (f_rd insn) v s, g_pc s + 4))
      in if f3 = 0 then bindE (mem_read8 m addr) (\<lambda>b. put (scast b))
         else if f3 = 1 then bindE (mem_read m addr 2) (\<lambda>v. put (scast (ucast v :: u16)))
         else if f3 = 2 then bindE (mem_read m addr 4) (\<lambda>v. put (scast (ucast v :: u32)))
         else if f3 = 3 then bindE (mem_read m addr 8) put
         else if f3 = 4 then bindE (mem_read8 m addr) (\<lambda>b. put (ucast b))
         else if f3 = 5 then bindE (mem_read m addr 2) put
         else if f3 = 6 then bindE (mem_read m addr 4) put
         else Inl (IllegalInsn insn))"

definition exec_store :: "u32 \<Rightarrow> 'h cpu \<Rightarrow> 'h exec_result" where
  "exec_store insn s =
     (let addr = g_reg s (f_rs1 insn) + imm_s insn; v = g_reg s (f_rs2 insn); m = g_pages s;
          f3 = f_funct3 insn; done = (\<lambda>m. Inr (s\<lparr>g_pages := m\<rparr>, g_pc s + 4))
      in if f3 = 0 then bindE (mem_write8 m addr (ucast v)) done
         else if f3 = 1 then bindE (mem_write m addr v 2) done
         else if f3 = 2 then bindE (mem_write m addr v 4) done
         else if f3 = 3 then bindE (mem_write m addr v 8) done
         else Inl (IllegalInsn insn))"

definition exec_op_imm :: "u32 \<Rightarrow> 'h cpu \<Rightarrow> 'h exec_result" where
  "exec_op_imm insn s =
     (let imm = imm_i insn; shamt = unat (drop_bit 20 insn AND 0x3F); a = g_reg s (f_rs1 insn);
          f3 = f_funct3 insn; put = (\<lambda>v. Inr (set_reg (f_rd insn) v s, g_pc s + 4))
      in if f3 = 0 then put (a + imm)
         else if f3 = 2 then put (flag64 (sint a < sint imm))
         else if f3 = 3 then put (flag64 (a < imm))
         else if f3 = 4 then put (a XOR imm)
         else if f3 = 6 then put (a OR imm)
         else if f3 = 7 then put (a AND imm)
         else if f3 = 1 then put (push_bit shamt a)
         else if f3 = 5
         then (if drop_bit 26 insn = 0x10 then put (signed_drop_bit shamt a)
               else put (drop_bit shamt a))
         else Inl (IllegalInsn insn))"

text \<open>The RV64M group; the high products are taken on unbounded integers (\<^verbatim>\<open>__int128\<close>).\<close>

definition op_m :: "u32 \<Rightarrow> u64 \<Rightarrow> u64 \<Rightarrow> u64 option" where
  "op_m f3 a b =
     (if f3 = 0 then Some (a * b)
      else if f3 = 1 then Some (word_of_int (sint a * sint b div 2 ^ 64))
      else if f3 = 2 then Some (word_of_int (sint a * uint b div 2 ^ 64))
      else if f3 = 3 then Some (word_of_int (uint a * uint b div 2 ^ 64))
      else if f3 = 4
      then Some (if b = 0 then - 1
                 else if a = 0x8000000000000000 \<and> b = - 1 then 0x8000000000000000
                 else word_of_int (sint a sdiv sint b))
      else if f3 = 5 then Some (if b = 0 then - 1 else a div b)
      else if f3 = 6
      then Some (if b = 0 then a
                 else if a = 0x8000000000000000 \<and> b = - 1 then 0
                 else word_of_int (sint a smod sint b))
      else if f3 = 7 then Some (if b = 0 then a else a mod b)
      else None)"

definition op_base :: "u32 \<Rightarrow> u64 \<Rightarrow> u64 \<Rightarrow> u64 option" where
  "op_base f3 a b =
     (if f3 = 0 then Some (a + b)
      else if f3 = 1 then Some (push_bit (unat (b AND 63)) a)
      else if f3 = 2 then Some (flag64 (sint a < sint b))
      else if f3 = 3 then Some (flag64 (a < b))
      else if f3 = 4 then Some (a XOR b)
      else if f3 = 5 then Some (drop_bit (unat (b AND 63)) a)
      else if f3 = 6 then Some (a OR b)
      else if f3 = 7 then Some (a AND b)
      else None)"

definition put_or_skip :: "u32 \<Rightarrow> 'h cpu \<Rightarrow> u64 option \<Rightarrow> 'h exec_result" where
  "put_or_skip insn s r =
     Inr (case r of None \<Rightarrow> s | Some v \<Rightarrow> set_reg (f_rd insn) v s, g_pc s + 4)"

definition put_or_illegal :: "u32 \<Rightarrow> 'h cpu \<Rightarrow> u64 option \<Rightarrow> 'h exec_result" where
  "put_or_illegal insn s r =
     (case r of None \<Rightarrow> Inl (IllegalInsn insn)
      | Some v \<Rightarrow> Inr (set_reg (f_rd insn) v s, g_pc s + 4))"

definition op_alt :: "u32 \<Rightarrow> u64 \<Rightarrow> u64 \<Rightarrow> u64 option" where
  "op_alt f3 a b =
     (if f3 = 0 then Some (a - b)
      else if f3 = 5 then Some (signed_drop_bit (unat (b AND 63)) a)
      else None)"

definition exec_op :: "u32 \<Rightarrow> 'h cpu \<Rightarrow> 'h exec_result" where
  "exec_op insn s =
     (let a = g_reg s (f_rs1 insn); b = g_reg s (f_rs2 insn); f3 = f_funct3 insn
      in if f_funct7 insn = 0x01 then put_or_skip insn s (op_m f3 a b)
         else if f_funct7 insn = 0x20 then put_or_illegal insn s (op_alt f3 a b)
         else put_or_skip insn s (op_base f3 a b))"

text \<open>
  The 32-bit operations. A C shift by 32 or more is undefined, and so is a signed 32-bit
  product that does not fit.
\<close>

definition exec_op_imm_32 :: "u32 \<Rightarrow> 'h cpu \<Rightarrow> 'h exec_result" where
  "exec_op_imm_32 insn s =
     (let imm = imm_i insn; shamt = unat (drop_bit 20 insn AND 0x3F);
          a = ucast (g_reg s (f_rs1 insn)) :: u32; f3 = f_funct3 insn;
          put = (\<lambda>v. Inr (set_reg (f_rd insn) (sext32 v) s, g_pc s + 4))
      in if f3 = 0 then put (a + ucast imm)
         else if f3 = 1 then (if 32 \<le> shamt then Inl HostUndefined else put (push_bit shamt a))
         else if f3 = 5
         then (if drop_bit 26 insn = 0x10 then put (ucast (signed_drop_bit shamt (sext32 a)))
               else if 32 \<le> shamt then Inl HostUndefined else put (drop_bit shamt a))
         else Inl (IllegalInsn insn))"

definition exec_op_32 :: "u32 \<Rightarrow> 'h cpu \<Rightarrow> 'h exec_result" where
  "exec_op_32 insn s =
     (let a = ucast (g_reg s (f_rs1 insn)) :: u32; b = ucast (g_reg s (f_rs2 insn)) :: u32;
          f3 = f_funct3 insn; put64 = (\<lambda>v. Inr (set_reg (f_rd insn) v s, g_pc s + 4));
          put = (\<lambda>v. put64 (sext32 v))
      in if f_funct7 insn = 0x01
         then (if f3 = 0
               then (if - (2 ^ 31) \<le> sint a * sint b \<and> sint a * sint b < 2 ^ 31
                     then put (a * b) else Inl HostUndefined)
               else if f3 = 4
               then (if b = 0 then put64 (- 1)
                     else if a = 0x80000000 \<and> b = - 1 then put 0x80000000
                     else put (word_of_int (sint a sdiv sint b)))
               else if f3 = 5 then (if b = 0 then put64 (- 1) else put (a div b))
               else if f3 = 6
               then (if b = 0 then put a
                     else if a = 0x80000000 \<and> b = - 1 then put64 0
                     else put (word_of_int (sint a smod sint b)))
               else if f3 = 7
               then (if b = 0 then put64 (g_reg s (f_rs1 insn)) else put (a mod b))
               else Inl (IllegalInsn insn))
         else if f_funct7 insn = 0x20
         then (if f3 = 0 then put (a - b)
               else if f3 = 5 then put (signed_drop_bit (unat (b AND 31)) a)
               else Inl (IllegalInsn insn))
         else (if f3 = 0 then put (a + b)
               else if f3 = 1 then put (push_bit (unat (b AND 31)) a)
               else if f3 = 5 then put (drop_bit (unat (b AND 31)) a)
               else Inl (IllegalInsn insn)))"

definition exec_csr :: "u32 \<Rightarrow> 'h cpu \<Rightarrow> 'h exec_result" where
  "exec_csr insn s =
     (let csr = drop_bit 20 insn; f3 = f_funct3 insn;
          shift = (if csr = 2 then 5 else 0 :: nat);
          mask = (if csr = 1 then 31 else if csr = 2 then 7 else 255 :: u32);
          old = drop_bit shift (g_fcsr s) AND mask;
          source = (if 5 \<le> f3 then word_of_nat (f_rs1 insn) else ucast (g_reg s (f_rs1 insn)));
          operation = f3 AND 3
      in if operation = 0 then Inl (IllegalInsn insn)
         else let s = (if operation = 1 \<or> f_rs1 insn \<noteq> 0
                       then (let next = (if operation = 1 then source
                                         else if operation = 2 then old OR source
                                         else old AND NOT source)
                             in s\<lparr>g_fcsr := (g_fcsr s AND NOT (push_bit shift mask))
                                   OR push_bit shift (next AND mask)\<rparr>)
                       else s)
              in Inr (set_reg (f_rd insn) (ucast old) s, g_pc s + 4))"

definition exec_system :: "'h host_ops \<Rightarrow> u32 \<Rightarrow> 'h cpu \<Rightarrow> 'h exec_result" where
  "exec_system h insn s =
     (if insn = 0x00000073
      then bindE (do_syscall h s) (\<lambda>(r, s). Inr (set_reg 10 r s, g_pc s + 4))
      else if insn = 0x00100073 then Inl (EbreakAt (g_pc s))
      else if f_funct3 insn \<noteq> 0 \<and> 1 \<le> drop_bit 20 insn \<and> drop_bit 20 insn \<le> 3
      then exec_csr insn s
      else Inl (IllegalInsn insn))"

definition exec_fp_load :: "u32 \<Rightarrow> 'h cpu \<Rightarrow> 'h exec_result" where
  "exec_fp_load insn s =
     (let addr = g_reg s (f_rs1 insn) + imm_i insn;
          put = (\<lambda>v. Inr (set_freg (f_rd insn) v s, g_pc s + 4))
      in if f_funct3 insn = 2 then bindE (mem_read (g_pages s) addr 4) put
         else if f_funct3 insn = 3 then bindE (mem_read (g_pages s) addr 8) put
         else Inl (IllegalInsn insn))"

definition exec_fp_store :: "u32 \<Rightarrow> 'h cpu \<Rightarrow> 'h exec_result" where
  "exec_fp_store insn s =
     (let addr = g_reg s (f_rs1 insn) + imm_s insn; v = g_freg s (f_rs2 insn);
          done = (\<lambda>m. Inr (s\<lparr>g_pages := m\<rparr>, g_pc s + 4))
      in if f_funct3 insn = 2 then bindE (mem_write (g_pages s) addr v 4) done
         else if f_funct3 insn = 3 then bindE (mem_write (g_pages s) addr v 8) done
         else Inl (IllegalInsn insn))"

subsection \<open>Floating-point operations\<close>

definition freg_f :: "'h cpu \<Rightarrow> nat \<Rightarrow> u32" where "freg_f s i = ucast (g_freg s i)"
definition freg_d :: "'h cpu \<Rightarrow> nat \<Rightarrow> u64" where "freg_d s i = g_freg s i"

definition set_freg_f :: "nat \<Rightarrow> u32 \<Rightarrow> 'h cpu \<Rightarrow> 'h cpu" where
  "set_freg_f i v s = set_freg i (ucast v) s"

definition set_freg_d :: "nat \<Rightarrow> u64 \<Rightarrow> 'h cpu \<Rightarrow> 'h cpu" where
  "set_freg_d i v s = set_freg i v s"

definition f2i32 :: "fpu \<Rightarrow> u32 \<Rightarrow> u32" where
  "f2i32 u f =
     (if \<not> feq_s u f f then 0x7fffffff
      else if fle_s u (f_of_int_s u 2147483647) f then 0x7fffffff
      else if fle_s u f (f_of_int_s u (- 2147483648)) then 0x80000000
      else word_of_int (f_to_int_s u f))"

definition f2i64 :: "fpu \<Rightarrow> u64 \<Rightarrow> u64" where
  "f2i64 u d =
     (if \<not> feq_d u d d then 0x7fffffffffffffff
      else if fle_d u (f_of_int_d u 9223372036854775295) d then 0x7fffffffffffffff
      else if fle_d u d (f_of_int_d u (- 9223372036854775808)) then 0x8000000000000000
      else word_of_int (f_to_int_d u d))"

definition sgnj :: "u32 \<Rightarrow> 'a::len word \<Rightarrow> 'a word \<Rightarrow> 'a word \<Rightarrow> 'a word" where
  "sgnj f3 sign a b =
     (if f3 = 0 then (a AND NOT sign) OR (b AND sign)
      else if f3 = 1 then (a AND NOT sign) OR (NOT b AND sign)
      else a XOR (b AND sign))"

definition exec_fsgnj :: "u32 \<Rightarrow> 'h cpu \<Rightarrow> 'h exec_result" where
  "exec_fsgnj insn s =
     (let rd = f_rd insn; f3 = f_funct3 insn
      in if f_funct7 insn = 0x11
         then Inr (set_freg rd (sgnj f3 0x8000000000000000 (g_freg s (f_rs1 insn))
                     (g_freg s (f_rs2 insn))) s, g_pc s + 4)
         else Inr (set_freg rd (ucast (sgnj f3 0x80000000 (freg_f s (f_rs1 insn))
                     (freg_f s (f_rs2 insn)))) s, g_pc s + 4))"

definition exec_fminmax :: "fpu \<Rightarrow> u32 \<Rightarrow> 'h cpu \<Rightarrow> 'h exec_result" where
  "exec_fminmax u insn s =
     (let rd = f_rd insn
      in if f_funct7 insn = 0x28
         then (let a = freg_f s (f_rs1 insn); b = freg_f s (f_rs2 insn)
               in Inr (set_freg_f rd (if f_funct3 insn = 0 then (if flt_s u a b then a else b)
                         else (if flt_s u b a then a else b)) s, g_pc s + 4))
         else (let a = freg_d s (f_rs1 insn); b = freg_d s (f_rs2 insn)
               in Inr (set_freg_d rd (if f_funct3 insn = 0 then (if flt_d u a b then a else b)
                         else (if flt_d u b a then a else b)) s, g_pc s + 4)))"

definition exec_fcmp :: "fpu \<Rightarrow> u32 \<Rightarrow> 'h cpu \<Rightarrow> 'h exec_result" where
  "exec_fcmp u insn s =
     (let f3 = f_funct3 insn;
          r = (if f_funct7 insn = 0x50
               then (let a = freg_f s (f_rs1 insn); b = freg_f s (f_rs2 insn)
                     in if f3 = 2 then feq_s u a b else if f3 = 1 then flt_s u a b else fle_s u a b)
               else (let a = freg_d s (f_rs1 insn); b = freg_d s (f_rs2 insn)
                     in if f3 = 2 then feq_d u a b else if f3 = 1 then flt_d u a b else fle_d u a b))
      in Inr (set_reg (f_rd insn) (flag64 r) s, g_pc s + 4))"

text \<open>Conversions and moves between the register files.\<close>

definition exec_fcvt :: "fpu \<Rightarrow> u32 \<Rightarrow> 'h cpu \<Rightarrow> 'h exec_result" where
  "exec_fcvt u insn s =
     (let f7 = f_funct7 insn; rd = f_rd insn; rs1 = f_rs1 insn; rs2f = f_rs2 insn;
          x = g_reg s rs1; toint = (\<lambda>v. Inr (set_reg rd v s, g_pc s + 4));
          tof = (\<lambda>v. Inr (set_freg_f rd v s, g_pc s + 4));
          tod = (\<lambda>v. Inr (set_freg_d rd v s, g_pc s + 4));
          src = (if rs2f = 0 then sint (ucast x :: u32) else if rs2f = 1 then uint (ucast x :: u32)
                 else if rs2f = 2 then sint x else uint x)
      in if f7 = 0x60
         then (if rs2f = 0 then toint (sext32 (f2i32 u (freg_f s rs1)))
               else toint (ucast (f2i32 u (freg_f s rs1))))
         else if f7 = 0x61
         then (if rs2f = 0 then toint (sext32 (ucast (f2i64 u (freg_d s rs1))))
               else toint (ucast (ucast (f2i64 u (freg_d s rs1)) :: u32)))
         else if f7 = 0x68 then tof (f_of_int_s u src)
         else if f7 = 0x69 then tod (f_of_int_d u src)
         else if f7 = 0x20 then tof (f_narrow u (freg_d s rs1))
         else if f7 = 0x21 then tod (f_widen u (freg_f s rs1))
         else if f7 = 0x70 then toint (ucast (ucast (g_freg s rs1) :: u32))
         else if f7 = 0x78 then Inr (set_freg rd (ucast (ucast x :: u32)) s, g_pc s + 4)
         else if f7 = 0x71 then toint (g_freg s rs1)
         else if f7 = 0x79 then Inr (set_freg rd x s, g_pc s + 4)
         else Inl (IllegalInsn insn))"

definition exec_farith :: "fpu \<Rightarrow> u32 \<Rightarrow> 'h cpu \<Rightarrow> 'h exec_result" where
  "exec_farith u insn s =
     (let f7 = f_funct7 insn; rd = f_rd insn;
          a = freg_f s (f_rs1 insn); b = freg_f s (f_rs2 insn);
          c = freg_d s (f_rs1 insn); d = freg_d s (f_rs2 insn);
          tof = (\<lambda>v. Inr (set_freg_f rd v s, g_pc s + 4));
          tod = (\<lambda>v. Inr (set_freg_d rd v s, g_pc s + 4))
      in if f7 = 0x00 then tof (fadd_s u a b)
         else if f7 = 0x01 then tod (fadd_d u c d)
         else if f7 = 0x04 then tof (fsub_s u a b)
         else if f7 = 0x05 then tod (fsub_d u c d)
         else if f7 = 0x08 then tof (fmul_s u a b)
         else if f7 = 0x09 then tod (fmul_d u c d)
         else if f7 = 0x0C then tof (fdiv_s u a b)
         else if f7 = 0x0D then tod (fdiv_d u c d)
         else if f7 = 0x58
         then tof (if flt_s u a (f_of_int_s u 0) then fneg_nan_s u else fsqrt_s u a)
         else if f7 = 0x59
         then tod (if flt_d u c (f_of_int_d u 0) then fneg_nan_d u else fsqrt_d u c)
         else exec_fcvt u insn s)"

definition exec_fp_op :: "fpu \<Rightarrow> u32 \<Rightarrow> 'h cpu \<Rightarrow> 'h exec_result" where
  "exec_fp_op u insn s =
     (let f7 = f_funct7 insn
      in if f7 = 0x10 \<or> f7 = 0x11 then exec_fsgnj insn s
         else if f7 = 0x28 \<or> f7 = 0x29 then exec_fminmax u insn s
         else if f7 = 0x50 \<or> f7 = 0x51 then exec_fcmp u insn s
         else exec_farith u insn s)"

subsection \<open>The step and the main loop\<close>

definition exec_insn :: "fpu \<Rightarrow> 'h host_ops \<Rightarrow> u32 \<Rightarrow> 'h cpu \<Rightarrow> 'h exec_result" where
  "exec_insn u h insn s =
     (let opcode = f_opcode insn
      in if opcode = 0x37 then exec_lui insn s
         else if opcode = 0x17 then exec_auipc insn s
         else if opcode = 0x6F then exec_jal insn s
         else if opcode = 0x67 then exec_jalr insn s
         else if opcode = 0x63 then exec_branch insn s
         else if opcode = 0x03 then exec_load insn s
         else if opcode = 0x23 then exec_store insn s
         else if opcode = 0x13 then exec_op_imm insn s
         else if opcode = 0x33 then exec_op insn s
         else if opcode = 0x1B then exec_op_imm_32 insn s
         else if opcode = 0x3B then exec_op_32 insn s
         else if opcode = 0x0F then Inr (s, g_pc s + 4)
         else if opcode = 0x73 then exec_system h insn s
         else if opcode = 0x07 then exec_fp_load insn s
         else if opcode = 0x27 then exec_fp_store insn s
         else if opcode = 0x53 then exec_fp_op u insn s
         else Inl (IllegalInsn insn))"

definition retire :: "'h cpu \<times> u64 \<Rightarrow> 'h cpu" where
  "retire r = (fst r)\<lparr>g_reg := (g_reg (fst r))(0 := 0), g_pc := snd r\<rparr>"

definition step :: "fpu \<Rightarrow> 'h host_ops \<Rightarrow> 'h cpu \<Rightarrow> stop + 'h cpu" where
  "step u h s =
     bindE (fetch32 (g_pages s) (g_pc s))
       (\<lambda>insn. bindE (exec_insn u h insn s) (\<lambda>r. Inr (retire r)))"

primrec run :: "fpu \<Rightarrow> 'h host_ops \<Rightarrow> nat \<Rightarrow> 'h cpu \<Rightarrow> stop + 'h cpu" where
  "run u h 0 s = Inr s"
| "run u h (Suc n) s = bindE (step u h s) (run u h n)"

text \<open>
  \<^verbatim>\<open>main\<close> steps until the program stops and gives up after two thousand million steps; the
  limit makes the loop total.
\<close>

definition main_loop :: "fpu \<Rightarrow> 'h host_ops \<Rightarrow> 'h cpu \<Rightarrow> stop" where
  "main_loop u h s =
     (case run u h 2000000001 s of Inl e \<Rightarrow> e | Inr s' \<Rightarrow> StepLimit)"

lemma run_append: "run u h (m + n) s = bindE (run u h m s) (run u h n)"
proof (induction m arbitrary: s)
  case 0
  then show ?case by simp
next
  case (Suc m)
  then show ?case by (cases "step u h s") simp_all
qed

lemma run_1 [simp]: "run u h (Suc 0) s = step u h s"
  by (cases "step u h s") auto

text \<open>A machine with given memory and program counter, everything else at its start-up value.\<close>

definition boot_cpu :: "pages \<Rightarrow> u64 \<Rightarrow> unit cpu" where
  "boot_cpu m pc = \<lparr>g_pages = m, g_reg = (\<lambda>_. 0), g_freg = (\<lambda>_. 0), g_pc = pc, g_fcsr = 0,
     g_brk = 0x1000000, g_fds = (\<lambda>i. if i < 3 then int i else - 1), g_host = ()\<rparr>"

lemma boot_cpu_simps [simp]:
  "g_pages (boot_cpu m pc) = m" "g_reg (boot_cpu m pc) r = 0" "g_pc (boot_cpu m pc) = pc"
  by (simp_all add: boot_cpu_def)

end
