(* ===== verification/Encoder_Fields.thy ===== *)
theory Encoder_Fields
  imports Encoder Emulator
begin

text \<open>
  The instruction words of \<^verbatim>\<open>src/arch/riscv64.c\<close> against the decoder of \<^verbatim>\<open>tools/onx-run.c\<close>:
  every word decodes to the fields and the immediate it was built from.
\<close>

subsection \<open>The fields of an encoded word\<close>

lemma f_rd_lt: "f_rd w < 32"
proof -
  have "unat (drop_bit 7 w AND 0x1F) \<le> unat (0x1F :: u32)"
    by (rule word_and_le1 [THEN word_le_nat_alt [THEN iffD1]])
  then show ?thesis by (simp add: f_rd_def)
qed

definition reg_no :: "u32 \<Rightarrow> nat" where
  "reg_no r = unat (r AND 0x1F)"

lemmas field_defs = f_opcode_def f_rd_def f_funct3_def f_rs1_def f_rs2_def f_funct7_def reg_no_def

text \<open>A constant funct3 of at most three bits and a seven-bit opcode do not overlap the fields.\<close>

lemma i_word_fields:
  assumes "f3 AND 7 = f3" and "opc AND 0x7F = opc"
  shows "f_opcode (i_word imm rs1 f3 rd opc) = opc"
    and "f_rd (i_word imm rs1 f3 rd opc) = reg_no rd"
    and "f_funct3 (i_word imm rs1 f3 rd opc) = f3"
    and "f_rs1 (i_word imm rs1 f3 rd opc) = reg_no rs1"
    and "drop_bit 20 (i_word imm rs1 f3 rd opc) = imm AND 0xFFF"
proof -
  let ?w = "i_word imm rs1 (f3 AND 7) rd (opc AND 0x7F)"
  have "?w AND 0x7F = opc AND 0x7F"
    by (rule word32_eqI) (simp_all add: i_word_def field_bits)
  moreover have "drop_bit 7 ?w AND 0x1F = rd AND 0x1F"
    by (rule word32_eqI) (simp_all add: i_word_def field_bits)
  moreover have "drop_bit 12 ?w AND 0x7 = f3 AND 7"
    by (rule word32_eqI) (simp_all add: i_word_def field_bits)
  moreover have "drop_bit 15 ?w AND 0x1F = rs1 AND 0x1F"
    by (rule word32_eqI) (simp_all add: i_word_def field_bits)
  moreover have "drop_bit 20 ?w = imm AND 0xFFF"
    by (rule word32_eqI) (simp_all add: i_word_def field_bits)
  ultimately show "f_opcode (i_word imm rs1 f3 rd opc) = opc"
    and "f_rd (i_word imm rs1 f3 rd opc) = reg_no rd"
    and "f_funct3 (i_word imm rs1 f3 rd opc) = f3"
    and "f_rs1 (i_word imm rs1 f3 rd opc) = reg_no rs1"
    and "drop_bit 20 (i_word imm rs1 f3 rd opc) = imm AND 0xFFF"
    using assms by (simp_all add: field_defs)
qed

lemma r_word_fields:
  shows "f_opcode (r_word f3 f7 rd rs1 rs2 opc) = opc AND 0x7F"
    and "f_rd (r_word f3 f7 rd rs1 rs2 opc) = reg_no rd"
    and "f_funct3 (r_word f3 f7 rd rs1 rs2 opc) = f3 AND 7"
    and "f_rs1 (r_word f3 f7 rd rs1 rs2 opc) = reg_no rs1"
    and "f_rs2 (r_word f3 f7 rd rs1 rs2 opc) = reg_no rs2"
    and "f_funct7 (r_word f3 f7 rd rs1 rs2 opc) = f7 AND 0x7F"
proof -
  let ?w = "r_word f3 f7 rd rs1 rs2 opc"
  have "?w AND 0x7F = opc AND 0x7F"
    by (rule word32_eqI) (simp_all add: r_word_def field_bits)
  moreover have "drop_bit 7 ?w AND 0x1F = rd AND 0x1F"
    by (rule word32_eqI) (simp_all add: r_word_def field_bits)
  moreover have "drop_bit 12 ?w AND 0x7 = f3 AND 7"
    by (rule word32_eqI) (simp_all add: r_word_def field_bits)
  moreover have "drop_bit 15 ?w AND 0x1F = rs1 AND 0x1F"
    by (rule word32_eqI) (simp_all add: r_word_def field_bits)
  moreover have "drop_bit 20 ?w AND 0x1F = rs2 AND 0x1F"
    by (rule word32_eqI) (simp_all add: r_word_def field_bits)
  moreover have "drop_bit 25 ?w AND 0x7F = f7 AND 0x7F"
    by (rule word32_eqI) (simp_all add: r_word_def field_bits)
  ultimately show "f_opcode ?w = opc AND 0x7F" and "f_rd ?w = reg_no rd"
    and "f_funct3 ?w = f3 AND 7" and "f_rs1 ?w = reg_no rs1"
    and "f_rs2 ?w = reg_no rs2" and "f_funct7 ?w = f7 AND 0x7F"
    by (simp_all add: field_defs)
qed

lemma shift_word_fields:
  assumes "f3 AND 7 = f3" and "hi7 AND 0x7E = hi7"
  shows "f_opcode (shift_word hi7 sh rs1 f3 rd) = 0x13"
    and "f_rd (shift_word hi7 sh rs1 f3 rd) = reg_no rd"
    and "f_funct3 (shift_word hi7 sh rs1 f3 rd) = f3"
    and "f_rs1 (shift_word hi7 sh rs1 f3 rd) = reg_no rs1"
    and "drop_bit 20 (shift_word hi7 sh rs1 f3 rd) AND 0x3F = sh AND 0x3F"
    and "drop_bit 26 (shift_word hi7 sh rs1 f3 rd) = drop_bit 1 hi7"
proof -
  let ?w = "shift_word (hi7 AND 0x7E) sh rs1 (f3 AND 7) rd"
  have "?w AND 0x7F = 0x13"
    by (rule word32_eqI) (simp_all add: shift_word_def field_bits)
  moreover have "drop_bit 7 ?w AND 0x1F = rd AND 0x1F"
    by (rule word32_eqI) (simp_all add: shift_word_def field_bits)
  moreover have "drop_bit 12 ?w AND 0x7 = f3 AND 7"
    by (rule word32_eqI) (simp_all add: shift_word_def field_bits)
  moreover have "drop_bit 15 ?w AND 0x1F = rs1 AND 0x1F"
    by (rule word32_eqI) (simp_all add: shift_word_def field_bits)
  moreover have "drop_bit 20 ?w AND 0x3F = sh AND 0x3F"
    by (rule word32_eqI) (simp_all add: shift_word_def field_bits)
  moreover have "drop_bit 26 ?w = drop_bit 1 (hi7 AND 0x7E)"
    by (rule word32_eqI) (simp_all add: shift_word_def field_bits)
  ultimately show "f_opcode (shift_word hi7 sh rs1 f3 rd) = 0x13"
    and "f_rd (shift_word hi7 sh rs1 f3 rd) = reg_no rd"
    and "f_funct3 (shift_word hi7 sh rs1 f3 rd) = f3"
    and "f_rs1 (shift_word hi7 sh rs1 f3 rd) = reg_no rs1"
    and "drop_bit 20 (shift_word hi7 sh rs1 f3 rd) AND 0x3F = sh AND 0x3F"
    and "drop_bit 26 (shift_word hi7 sh rs1 f3 rd) = drop_bit 1 hi7"
    using assms by (simp_all add: field_defs)
qed

lemma s_word_fields:
  assumes "f3 AND 7 = f3" and "opc AND 0x7F = opc"
  shows "f_opcode (s_word imm rs2 rs1 f3 opc) = opc"
    and "f_funct3 (s_word imm rs2 rs1 f3 opc) = f3"
    and "f_rs1 (s_word imm rs2 rs1 f3 opc) = reg_no rs1"
    and "f_rs2 (s_word imm rs2 rs1 f3 opc) = reg_no rs2"
    and "push_bit 5 (drop_bit 25 (s_word imm rs2 rs1 f3 opc) AND 0x7F)
      OR (drop_bit 7 (s_word imm rs2 rs1 f3 opc) AND 0x1F) = imm AND 0xFFF"
proof -
  let ?w = "s_word imm rs2 rs1 (f3 AND 7) (opc AND 0x7F)"
  have "?w AND 0x7F = opc AND 0x7F"
    by (rule word32_eqI) (simp_all add: s_word_def Let_def field_bits)
  moreover have "drop_bit 12 ?w AND 0x7 = f3 AND 7"
    by (rule word32_eqI) (simp_all add: s_word_def Let_def field_bits)
  moreover have "drop_bit 15 ?w AND 0x1F = rs1 AND 0x1F"
    by (rule word32_eqI) (simp_all add: s_word_def Let_def field_bits)
  moreover have "drop_bit 20 ?w AND 0x1F = rs2 AND 0x1F"
    by (rule word32_eqI) (simp_all add: s_word_def Let_def field_bits)
  moreover have "push_bit 5 (drop_bit 25 ?w AND 0x7F) OR (drop_bit 7 ?w AND 0x1F) = imm AND 0xFFF"
    by (rule word32_eqI) (simp_all add: s_word_def Let_def field_bits)
  ultimately show "f_opcode (s_word imm rs2 rs1 f3 opc) = opc"
    and "f_funct3 (s_word imm rs2 rs1 f3 opc) = f3"
    and "f_rs1 (s_word imm rs2 rs1 f3 opc) = reg_no rs1"
    and "f_rs2 (s_word imm rs2 rs1 f3 opc) = reg_no rs2"
    and "push_bit 5 (drop_bit 25 (s_word imm rs2 rs1 f3 opc) AND 0x7F)
      OR (drop_bit 7 (s_word imm rs2 rs1 f3 opc) AND 0x1F) = imm AND 0xFFF"
    using assms by (simp_all add: field_defs)
qed

lemma b_word_fields:
  shows "f_opcode (b_word f3 rs1 rs2 imm) = 0x63"
    and "f_funct3 (b_word f3 rs1 rs2 imm) = f3 AND 7"
    and "f_rs1 (b_word f3 rs1 rs2 imm) = reg_no rs1"
    and "f_rs2 (b_word f3 rs1 rs2 imm) = reg_no rs2"
    and "push_bit 12 (drop_bit 31 (b_word f3 rs1 rs2 imm) AND 1)
      OR push_bit 11 (drop_bit 7 (b_word f3 rs1 rs2 imm) AND 1)
      OR push_bit 5 (drop_bit 25 (b_word f3 rs1 rs2 imm) AND 0x3F)
      OR push_bit 1 (drop_bit 8 (b_word f3 rs1 rs2 imm) AND 0xF) = imm AND 0x1FFE"
proof -
  let ?w = "b_word f3 rs1 rs2 imm"
  have "?w AND 0x7F = 0x63"
    by (rule word32_eqI) (simp_all add: b_word_def Let_def field_bits)
  moreover have "drop_bit 12 ?w AND 0x7 = f3 AND 7"
    by (rule word32_eqI) (simp_all add: b_word_def Let_def field_bits)
  moreover have "drop_bit 15 ?w AND 0x1F = rs1 AND 0x1F"
    by (rule word32_eqI) (simp_all add: b_word_def Let_def field_bits)
  moreover have "drop_bit 20 ?w AND 0x1F = rs2 AND 0x1F"
    by (rule word32_eqI) (simp_all add: b_word_def Let_def field_bits)
  ultimately show "f_opcode ?w = 0x63" and "f_funct3 ?w = f3 AND 7"
    and "f_rs1 ?w = reg_no rs1" and "f_rs2 ?w = reg_no rs2"
    by (simp_all add: field_defs)
  show "push_bit 12 (drop_bit 31 ?w AND 1) OR push_bit 11 (drop_bit 7 ?w AND 1)
      OR push_bit 5 (drop_bit 25 ?w AND 0x3F) OR push_bit 1 (drop_bit 8 ?w AND 0xF)
      = imm AND 0x1FFE"
    by (rule word32_eqI) (simp_all add: b_word_def Let_def field_bits)
qed

lemma j_word_fields:
  shows "f_opcode (j_word rd imm) = 0x6F"
    and "f_rd (j_word rd imm) = reg_no rd"
    and "push_bit 20 (drop_bit 31 (j_word rd imm) AND 1)
      OR push_bit 12 (drop_bit 12 (j_word rd imm) AND 0xFF)
      OR push_bit 11 (drop_bit 20 (j_word rd imm) AND 1)
      OR push_bit 1 (drop_bit 21 (j_word rd imm) AND 0x3FF) = imm AND 0x1FFFFE"
proof -
  let ?w = "j_word rd imm"
  have "?w AND 0x7F = 0x6F"
    by (rule word32_eqI) (simp_all add: j_word_def Let_def field_bits)
  moreover have "drop_bit 7 ?w AND 0x1F = rd AND 0x1F"
    by (rule word32_eqI) (simp_all add: j_word_def Let_def field_bits)
  ultimately show "f_opcode ?w = 0x6F" and "f_rd ?w = reg_no rd"
    by (simp_all add: field_defs)
  show "push_bit 20 (drop_bit 31 ?w AND 1) OR push_bit 12 (drop_bit 12 ?w AND 0xFF)
      OR push_bit 11 (drop_bit 20 ?w AND 1) OR push_bit 1 (drop_bit 21 ?w AND 0x3FF)
      = imm AND 0x1FFFFE"
    by (rule word32_eqI) (simp_all add: j_word_def Let_def field_bits)
qed

lemma u_word_fields:
  assumes "opc AND 0x7F = opc"
  shows "f_opcode (u_word imm rd opc) = opc"
    and "f_rd (u_word imm rd opc) = reg_no rd"
    and "u_word imm rd opc AND 0xFFFFF000 = push_bit 12 imm"
proof -
  let ?w = "u_word imm rd (opc AND 0x7F)"
  have "?w AND 0x7F = opc AND 0x7F"
    by (rule word32_eqI) (simp_all add: u_word_def field_bits)
  moreover have "drop_bit 7 ?w AND 0x1F = rd AND 0x1F"
    by (rule word32_eqI) (simp_all add: u_word_def field_bits)
  moreover have "?w AND 0xFFFFF000 = push_bit 12 imm"
    by (rule word32_eqI) (simp_all add: u_word_def field_bits)
  ultimately show "f_opcode (u_word imm rd opc) = opc"
    and "f_rd (u_word imm rd opc) = reg_no rd"
    and "u_word imm rd opc AND 0xFFFFF000 = push_bit 12 imm"
    using assms by (simp_all add: field_defs)
qed

subsection \<open>Immediates survive encoding and decoding\<close>

lemma sx_signed:
  assumes "n < 64"
  shows "sx (ucast (take_bit (Suc n) (w :: u32))) (Suc n) = signed_take_bit n (ucast (take_bit (Suc n) w))"
  unfolding sx_def Let_def diff_Suc_1
  using assms by (intro word_sign_extend) (simp_all add: bit_eq_iff bit_simps)

lemma sx_fits:
  assumes "n < 32" and "- (2 ^ n) \<le> sint w" and "sint w < 2 ^ n"
  shows "sx (ucast (take_bit (Suc n) w)) (Suc n) = scast (w :: u32)"
proof -
  have "scast w = (scast (signed_take_bit n w) :: u64)"
    using assms by (simp add: signed_take_bit_word_self)
  also have "\<dots> = signed_take_bit n (ucast (take_bit (Suc n) w))"
    using assms(1) by (simp add: scast_signed_take_bit)
  finally show ?thesis
    using assms(1) by (simp add: sx_signed)
qed

lemma and_fff: "(w :: u32) AND 0xFFF = take_bit (Suc 11) w"
  by (simp add: take_bit_eq_mask mask_eq_exp_minus_1)

lemma even_mask:
  assumes "even (w :: u32)"
  shows "w AND 0x1FFE = take_bit (Suc 12) w" and "w AND 0x1FFFFE = take_bit (Suc 20) w"
proof -
  have b0: "\<not> bit w 0" using assms by (simp add: bit_0)
  show "w AND 0x1FFE = take_bit (Suc 12) w"
    by (rule word32_eqI) (simp_all add: field_bits b0)
  show "w AND 0x1FFFFE = take_bit (Suc 20) w"
    by (rule word32_eqI) (simp_all add: field_bits b0)
qed

lemma imm_i_i_word:
  assumes "f3 AND 7 = f3" "opc AND 0x7F = opc" "fits12 (sint imm)"
  shows "imm_i (i_word imm rs1 f3 rd opc) = scast imm"
proof -
  have "drop_bit 20 (i_word imm rs1 f3 rd opc) AND 0xFFF = imm AND 0xFFF"
    using i_word_fields(5) [OF assms(1,2)] by (simp add: and.assoc)
  then show ?thesis
    unfolding imm_i_def and_fff using sx_fits [of 11 imm] assms(3) by (simp add: fits12_def)
qed

lemma imm_s_s_word:
  assumes "f3 AND 7 = f3" "opc AND 0x7F = opc" "fits12 (sint imm)"
  shows "imm_s (s_word imm rs2 rs1 f3 opc) = scast imm"
  unfolding imm_s_def s_word_fields(5) [OF assms(1,2)] and_fff
  using sx_fits [of 11 imm] assms(3) by (simp add: fits12_def)

lemma imm_b_b_word:
  assumes "even off" "- 4096 \<le> sint off" "sint off < 4096"
  shows "imm_b (b_word f3 rs1 rs2 off) = scast off"
  unfolding imm_b_def b_word_fields(5) even_mask(1) [OF assms(1)]
  using sx_fits [of 12 off] assms(2,3) by simp

lemma imm_j_j_word:
  assumes "even off" "- (2 ^ 20) \<le> sint off" "sint off < 2 ^ 20"
  shows "imm_j (j_word rd off) = scast off"
  unfolding imm_j_def j_word_fields(3) even_mask(2) [OF assms(1)]
  using sx_fits [of 20 off] assms(2,3) by simp

lemma imm_u_u_word:
  "opc AND 0x7F = opc \<Longrightarrow> imm_u (u_word imm rd opc) = scast (push_bit 12 imm :: u32)"
  by (simp add: imm_u_def u_word_fields(3))

end
