(* ===== verification/Encoder_Exec.thy ===== *)
theory Encoder_Exec
  imports Encoder_Fields
begin

text \<open>
  Running encoded code: instruction words in memory, straight-line execution, and the proof
  that the code which the constant, address and memory helpers of \<^verbatim>\<open>src/arch/riscv64.c\<close> emit
  computes what its callers expect when the interpreter of \<^verbatim>\<open>tools/onx-run.c\<close> runs it.
\<close>

subsection \<open>Running straight-line code\<close>

text \<open>Instruction words laid out in memory from an address on.\<close>

primrec code_at :: "pages \<Rightarrow> u64 \<Rightarrow> u32 list \<Rightarrow> bool" where
  "code_at m pc [] = True"
| "code_at m pc (w # ws) = (fetch32 m pc = Inr w \<and> code_at m (pc + 4) ws)"

definition code_len :: "u32 list \<Rightarrow> u64" where
  "code_len ws = word_of_nat (4 * length ws)"

lemma code_len_simps [simp]:
  "code_len [] = 0" "code_len (w # ws) = 4 + code_len ws"
  by (simp_all add: code_len_def)

lemma code_at_append [simp]:
  "code_at m pc (ws @ vs) \<longleftrightarrow> code_at m pc ws \<and> code_at m (pc + code_len ws) vs"
  by (induction ws arbitrary: pc) (auto simp: add.assoc)

lemma code_len_append [simp]: "code_len (ws @ vs) = code_len ws + code_len vs"
  by (simp add: code_len_def)

text \<open>The bytes that an encoder appends are read back as its words.\<close>

lemma fetch32_bytes:
  assumes "mem_read_buf m pc 4 = Inr (le32 w)"
  shows "fetch32 m pc = Inr w"
proof -
  from assms have "mem_read8 m pc = Inr (ucast w)" "mem_read8 m (pc + 1) = Inr (ucast (drop_bit 8 w))"
    "mem_read8 m (pc + 2) = Inr (ucast (drop_bit 16 w))" "mem_read8 m (pc + 3) = Inr (ucast (drop_bit 24 w))"
    by (auto simp: le_bytes_4 bindE_eq_Inr numeral_eq_Suc add.assoc)
  moreover have "un_le (le32 w) = w" by simp
  ultimately show ?thesis
    by (simp add: fetch32_def le_bytes_4 un_le_4 [symmetric] del: un_le.simps un_le_le32)
qed

lemma mem_read_buf_append:
  "mem_read_buf m a (i + j) =
     bindE (mem_read_buf m a i) (\<lambda>xs. bindE (mem_read_buf m (a + word_of_nat i) j) (\<lambda>ys. Inr (xs @ ys)))"
proof (induction i arbitrary: a)
  case 0
  then show ?case by (cases "mem_read_buf m a j") simp_all
next
  case (Suc i)
  show ?case
    by (cases "mem_read8 m a"; cases "mem_read_buf m (a + 1) i";
        cases "mem_read_buf m (a + word_of_nat (Suc i)) j")
      (simp_all add: Suc add.assoc)
qed

lemma mem_read_buf_length: "mem_read_buf m a n = Inr bs \<Longrightarrow> length bs = n"
  by (induction n arbitrary: a bs) (auto simp: bindE_eq_Inr)

lemma code_at_bytes:
  "mem_read_buf m pc (4 * length ws) = Inr (concat (map le32 ws)) \<Longrightarrow> code_at m pc ws"
proof (induction ws arbitrary: pc)
  case Nil
  then show ?case by simp
next
  case (Cons w ws)
  from Cons.prems have "mem_read_buf m pc (4 + 4 * length ws) = Inr (le32 w @ concat (map le32 ws))"
    by simp
  then obtain xs ys where x: "mem_read_buf m pc 4 = Inr xs"
    and y: "mem_read_buf m (pc + 4) (4 * length ws) = Inr ys"
    and eq: "xs @ ys = le32 w @ concat (map le32 ws)"
    unfolding mem_read_buf_append by (auto simp: bindE_eq_Inr)
  have "length xs = 4" using mem_read_buf_length [OF x] .
  then have "xs = le32 w \<and> ys = concat (map le32 ws)"
    using eq by (metis append_eq_append_conv length_le_bytes)
  with x y Cons.IH show ?case by (auto intro: fetch32_bytes)
qed

text \<open>
  An emitter that appends the words \<open>ws\<close> to the text buffer.
\<close>

definition emits :: "emitter \<Rightarrow> u32 list \<Rightarrow> bool" where
  "emits f ws \<longleftrightarrow> appends f (concat (map le32 ws))"

lemma emits_emit32: "emits (emit32 w) [w]"
  using appends_push32 [of w] by (simp add: emits_def emit32_def appends_def)

lemma emits_comp: "emits f ws \<Longrightarrow> emits g vs \<Longrightarrow> emits (\<lambda>b. g (f b)) (ws @ vs)"
  unfolding emits_def map_append concat_append by (rule appends_comp)

text \<open>
  Straight-line execution: the words of a list one after the other, without fetching.
  For code that does not write memory it is what the machine does.
\<close>

primrec exec_seq :: "fpu \<Rightarrow> 'h host_ops \<Rightarrow> u32 list \<Rightarrow> 'h cpu \<Rightarrow> stop + 'h cpu" where
  "exec_seq u h [] s = Inr s"
| "exec_seq u h (w # ws) s = bindE (exec_insn u h w s) (\<lambda>r. exec_seq u h ws (retire r))"

lemma exec_seq_append:
  "exec_seq u h (ws @ vs) s = bindE (exec_seq u h ws s) (exec_seq u h vs)"
  by (induction ws arbitrary: s) (simp_all add: bindE_def split: sum.splits)

definition alu_word :: "u32 \<Rightarrow> bool" where
  "alu_word w \<longleftrightarrow> f_opcode w \<in> {0x13, 0x33, 0x37, 0x17}"

lemma set_reg_simps [simp]:
  "g_pages (set_reg rd v s) = g_pages s" "g_pc (set_reg rd v s) = g_pc s"
  "g_freg (set_reg rd v s) = g_freg s" "g_reg (set_reg rd v s) = (g_reg s)(rd := v)"
  "g_fcsr (set_reg rd v s) = g_fcsr s" "g_brk (set_reg rd v s) = g_brk s"
  "g_fds (set_reg rd v s) = g_fds s" "g_host (set_reg rd v s) = g_host s"
  by (simp_all add: set_reg_def)

lemma alu_word_exec:
  assumes "alu_word w" and "exec_insn u h w s = Inr (s', pc')"
  shows "g_pages s' = g_pages s" and "pc' = g_pc s + 4"
proof -
  have "exec_insn u h w s \<in> {exec_op_imm w s, exec_op w s, exec_lui w s, exec_auipc w s}"
    using assms(1) by (auto simp: alu_word_def exec_insn_def)
  then show "g_pages s' = g_pages s" and "pc' = g_pc s + 4"
    using assms(2)
    by (auto simp: exec_op_imm_def exec_op_def exec_lui_def exec_auipc_def Let_def
        put_or_skip_def put_or_illegal_def split: if_splits option.splits)
qed

lemma retire_simps [simp]:
  "g_pages (retire r) = g_pages (fst r)" "g_pc (retire r) = snd r"
  "g_reg (retire r) = (g_reg (fst r))(0 := 0)" "g_freg (retire r) = g_freg (fst r)"
  "g_fcsr (retire r) = g_fcsr (fst r)" "g_brk (retire r) = g_brk (fst r)"
  "g_fds (retire r) = g_fds (fst r)" "g_host (retire r) = g_host (fst r)"
  by (simp_all add: retire_def)

lemma run_alu_seq:
  "list_all alu_word ws \<Longrightarrow> code_at (g_pages s) (g_pc s) ws \<Longrightarrow>
     run u h (length ws) s = exec_seq u h ws s"
proof (induction ws arbitrary: s)
  case Nil
  then show ?case by simp
next
  case (Cons w ws)
  show ?case
  proof (cases "exec_insn u h w s")
    case (Inl e)
    with Cons.prems show ?thesis by (simp add: step_def)
  next
    case (Inr r)
    obtain s' pc' where r: "r = (s', pc')" by (cases r)
    with Inr Cons.prems have "g_pages s' = g_pages s" "pc' = g_pc s + 4"
      by (auto dest: alu_word_exec)
    with Cons Inr r show ?thesis by (simp add: step_def)
  qed
qed

subsection \<open>What single encoded instructions do\<close>

lemma exec_insn_addi:
  "fits12 (sint imm) \<Longrightarrow> exec_insn u h (i_word imm rs1 0 rd 0x13) s =
     Inr (set_reg (reg_no rd) (g_reg s (reg_no rs1) + scast imm) s, g_pc s + 4)"
  by (simp add: exec_insn_def exec_op_imm_def i_word_fields imm_i_i_word Let_def)

lemma exec_insn_sltiu:
  "fits12 (sint imm) \<Longrightarrow> exec_insn u h (i_word imm rs1 3 rd 0x13) s =
     Inr (set_reg (reg_no rd) (flag64 (g_reg s (reg_no rs1) < scast imm)) s, g_pc s + 4)"
  by (simp add: exec_insn_def exec_op_imm_def i_word_fields imm_i_i_word Let_def)

lemma exec_insn_xori:
  "fits12 (sint imm) \<Longrightarrow> exec_insn u h (i_word imm rs1 4 rd 0x13) s =
     Inr (set_reg (reg_no rd) (g_reg s (reg_no rs1) XOR scast imm) s, g_pc s + 4)"
  by (simp add: exec_insn_def exec_op_imm_def i_word_fields imm_i_i_word Let_def)

lemma exec_insn_slli:
  "exec_insn u h (shift_word 0 sh rs1 1 rd) s =
     Inr (set_reg (reg_no rd) (push_bit (unat (sh AND 0x3F)) (g_reg s (reg_no rs1))) s, g_pc s + 4)"
  by (simp add: exec_insn_def exec_op_imm_def shift_word_fields Let_def)

lemma exec_insn_op:
  "exec_insn u h (r_word f3 f7 rd rs1 rs2 0x33) s =
     (let a = g_reg s (reg_no rs1); b = g_reg s (reg_no rs2); w = r_word f3 f7 rd rs1 rs2 0x33
      in if f7 AND 0x7F = 0x01 then put_or_skip w s (op_m (f3 AND 7) a b)
         else if f7 AND 0x7F = 0x20 then put_or_illegal w s (op_alt (f3 AND 7) a b)
         else put_or_skip w s (op_base (f3 AND 7) a b))"
  by (simp add: exec_insn_def exec_op_def r_word_fields Let_def)

lemma exec_insn_add:
  "exec_insn u h (r_word 0 0 rd rs1 rs2 0x33) s =
     Inr (set_reg (reg_no rd) (g_reg s (reg_no rs1) + g_reg s (reg_no rs2)) s, g_pc s + 4)"
  by (simp add: exec_insn_op Let_def put_or_skip_def op_base_def r_word_fields)

lemma alu_words:
  "opc \<in> {0x13} \<Longrightarrow> f3 AND 7 = f3 \<Longrightarrow> alu_word (i_word imm rs1 f3 rd opc)"
  "f3 AND 7 = f3 \<Longrightarrow> alu_word (shift_word 0 sh rs1 f3 rd)"
  "alu_word (r_word f3 f7 rd rs1 rs2 0x33)"
  by (auto simp: alu_word_def i_word_fields shift_word_fields r_word_fields)

subsection \<open>Constants\<close>

lemma li_recompose: "push_bit 12 (li_high v) + li_low v = v"
proof -
  have split: "v = push_bit 12 (signed_drop_bit 12 v) + take_bit 12 v"
    by (subst disjunctive_add) (auto simp: bit_simps intro!: bit_word_eqI split: if_splits)
  have low: "li_low v = take_bit 12 v - (if bit v 11 then 4096 else 0)"
    by (simp add: li_low_signed signed_take_bit_eq_take_bit_minus)
  have "sint (li_low v) < 0 \<longleftrightarrow> bit v 11"
    by (simp add: li_low_signed bit_last_iff [symmetric] bit_simps)
  then have "push_bit 12 (li_high v) = push_bit 12 (signed_drop_bit 12 v) + (if bit v 11 then 4096 else 0)"
    by (simp add: li_high_def Let_def push_bit_eq_mult algebra_simps)
  with low have "push_bit 12 (li_high v) + li_low v = push_bit 12 (signed_drop_bit 12 v) + take_bit 12 v"
    by simp
  with split show ?thesis by simp
qed

lemma li_low_fits: "fits12 (sint (ucast (li_low v) :: u32))" "scast (ucast (li_low v) :: u32) = li_low v"
proof -
  have "ucast (li_low v) = (signed_take_bit 11 (ucast v) :: u32)"
    unfolding li_low_signed by (rule bit_word_eqI) (auto simp: bit_simps)
  moreover have "sint (signed_take_bit 11 (ucast v) :: u32) = signed_take_bit 11 (sint (ucast v :: u32))"
    by (rule bit_eqI) (auto simp: bit_simps min_def)
  ultimately show "fits12 (sint (ucast (li_low v) :: u32))"
    using signed_take_bit_int_greater_eq_minus_exp [of 11 "sint (ucast v :: u32)"]
      signed_take_bit_int_less_exp [of 11 "sint (ucast v :: u32)"] by (simp add: fits12_def)
  show "scast (ucast (li_low v) :: u32) = li_low v"
    unfolding li_low_signed by (rule bit_word_eqI) (auto simp: bit_simps min_def)
qed

lemma fits12_narrow:
  assumes "fits12 (sint (v :: u64))"
  shows "fits12 (sint (ucast v :: u32))" "scast (ucast v :: u32) = v"
proof -
  have "signed_take_bit 11 v = v"
    using assms by (intro signed_take_bit_word_self) (simp_all add: fits12_def)
  then have "li_low v = v" by (simp add: li_low_signed)
  with li_low_fits [of v] show "fits12 (sint (ucast v :: u32))" "scast (ucast v :: u32) = v"
    by simp_all
qed

function li_words :: "u32 \<Rightarrow> u64 \<Rightarrow> u32 list" where
  "li_words rd v =
     (if fits12 (sint v) then [i_word (ucast v) 0 0 rd 0x13]
      else li_words rd (li_high v) @ [shift_word 0 12 rd 1 rd]
        @ (if li_low v \<noteq> 0 then [i_word (ucast (li_low v)) rd 0 rd 0x13] else []))"
  by pat_completeness auto
termination
proof (relation "measure (\<lambda>(rd, v). nat \<bar>sint v\<bar>)", goal_cases)
  case (2 rd v)
  have "\<bar>sint (li_high v)\<bar> < \<bar>sint v\<bar>"
    using sint_li_high [of v] 2 by (auto simp: fits12_def)
  then show ?case by simp
qed simp

declare li_words.simps [simp del]

lemma emits_load_immediate: "emits (load_immediate rd v) (li_words rd v)"
proof (induction rd v rule: li_words.induct)
  case (1 rd v)
  show ?case
  proof (cases "fits12 (sint v)")
    case True
    then have "load_immediate rd v = emit32 (i_word (ucast v) 0 0 rd 0x13)"
      by (intro ext) (simp add: load_immediate.simps [of rd v] rv_addi_def)
    with True show ?thesis by (simp add: li_words.simps [of rd v] emits_emit32)
  next
    case False
    note e = emits_comp [OF 1 [OF False] emits_emit32, of "shift_word 0 12 rd 1 rd"]
    show ?thesis
    proof (cases "li_low v = 0")
      case True
      then have "load_immediate rd v = (\<lambda>g. emit32 (shift_word 0 12 rd 1 rd) (load_immediate rd (li_high v) g))"
        using False by (intro ext) (simp add: load_immediate.simps [of rd v] rv_slli_def Let_def)
      with e True False show ?thesis by (simp add: li_words.simps [of rd v])
    next
      case nz: False
      then have "load_immediate rd v = (\<lambda>g. emit32 (i_word (ucast (li_low v)) rd 0 rd 0x13)
          (emit32 (shift_word 0 12 rd 1 rd) (load_immediate rd (li_high v) g)))"
        using False by (intro ext) (simp add: load_immediate.simps [of rd v] rv_slli_def rv_addi_def Let_def)
      with emits_comp [OF e emits_emit32, of "i_word (ucast (li_low v)) rd 0 rd 0x13"] nz False
      show ?thesis by (simp add: li_words.simps [of rd v])
    qed
  qed
qed

lemma li_words_alu: "list_all alu_word (li_words rd v)"
proof (induction rd v rule: li_words.induct)
  case (1 rd v)
  then show ?case
    by (cases "fits12 (sint v)") (simp_all add: li_words.simps [of rd v] alu_words)
qed

text \<open>A register write followed by the advance of the program counter over the code run.\<close>

definition done_reg :: "nat \<Rightarrow> u64 \<Rightarrow> u64 \<Rightarrow> 'h cpu \<Rightarrow> 'h cpu" where
  "done_reg rd v n s = s\<lparr>g_reg := (g_reg s)(rd := v), g_pc := g_pc s + n\<rparr>"

lemma retire_set_reg:
  "rd \<noteq> 0 \<Longrightarrow> g_reg s 0 = 0 \<Longrightarrow> retire (set_reg rd v s, g_pc s + 4) = done_reg rd v 4 s"
  by (simp add: retire_def set_reg_def done_reg_def fun_upd_idem_iff fun_upd_twist fun_eq_iff)

lemma exec_seq_put:
  "exec_insn u h w s = Inr (set_reg rd v s, g_pc s + 4) \<Longrightarrow> rd \<noteq> 0 \<Longrightarrow> g_reg s 0 = 0 \<Longrightarrow>
     exec_seq u h (w # ws) s = exec_seq u h ws (done_reg rd v 4 s)"
  by (simp add: retire_set_reg)

lemmas exec_seq_addi = exec_seq_put [OF exec_insn_addi]
lemmas exec_seq_slli = exec_seq_put [OF exec_insn_slli]
lemmas exec_seq_add = exec_seq_put [OF exec_insn_add]

lemma done_reg_simps [simp]:
  "g_reg (done_reg rd v n s) = (g_reg s)(rd := v)" "g_pc (done_reg rd v n s) = g_pc s + n"
  "g_pages (done_reg rd v n s) = g_pages s"
  "done_reg rd v n (done_reg rd w k s) = done_reg rd v (k + n) s"
  by (simp_all add: done_reg_def add.assoc)

lemma exec_li_words:
  "reg_no rd \<noteq> 0 \<Longrightarrow> g_reg s 0 = 0 \<Longrightarrow>
     exec_seq u h (li_words rd v) s = Inr (done_reg (reg_no rd) v (code_len (li_words rd v)) s)"
proof (induction rd v arbitrary: s rule: li_words.induct)
  case (1 rd v)
  show ?case
  proof (cases "fits12 (sint v)")
    case True
    with 1(2,3) show ?thesis
      by (simp add: li_words.simps [of rd v] exec_seq_addi fits12_narrow reg_no_def del: exec_seq.simps(2))
  next
    case False
    note IH = 1(1) [OF False 1(2,3)]
    let ?s = "done_reg (reg_no rd) (li_high v) (code_len (li_words rd (li_high v))) s"
    have "push_bit 12 (li_high v) + li_low v = v" by (rule li_recompose)
    then show ?thesis
      using False IH 1(2,3)
      by (auto simp: li_words.simps [of rd v] exec_seq_append exec_seq_slli exec_seq_addi
          li_low_fits add.assoc simp del: exec_seq.simps(2))
  qed
qed

text \<open>
  The bytes an emitter adds to a buffer, and the condition that they are in memory at the
  program counter.
\<close>

definition emitted :: "emitter \<Rightarrow> cc_buf \<Rightarrow> u8 list" where
  "emitted f g = drop (buf_size g) (buf_data (f g))"

definition in_memory :: "u8 list \<Rightarrow> 'h cpu \<Rightarrow> bool" where
  "in_memory code s \<longleftrightarrow> mem_read_buf (g_pages s) (g_pc s) (length code) = Inr code"

lemma emitted_emits:
  assumes "emits f ws" "buf_wf g"
  shows "emitted f g = concat (map le32 ws)" "length (emitted f g) = 4 * length ws"
proof -
  show eq: "emitted f g = concat (map le32 ws)"
    using appendsD(2) [OF assms(1) [unfolded emits_def] assms(2)] assms(2)
    by (simp add: emitted_def buf_wf_def)
  show "length (emitted f g) = 4 * length ws"
    by (simp add: eq length_concat o_def sum_list_triv)
qed

lemma in_memory_code_at:
  assumes "emits f ws" "buf_wf g" "in_memory (emitted f g) s"
  shows "code_at (g_pages s) (g_pc s) ws"
  using assms emitted_emits [OF assms(1,2)] unfolding in_memory_def
  by (intro code_at_bytes) simp

lemma run_emitted_alu:
  assumes "emits f ws" "buf_wf g" "in_memory (emitted f g) s" "list_all alu_word ws"
  shows "run u h (length (emitted f g) div 4) s = exec_seq u h ws s"
  using run_alu_seq [OF assms(4) in_memory_code_at [OF assms(1-3)]] emitted_emits(2) [OF assms(1,2)]
  by simp

text \<open>
  C2. Constant materialisation is correct for all 64-bit constants: when the bytes that
  \<^verbatim>\<open>load_immediate\<close> appends to the text buffer are in memory at the program counter, the
  interpreter runs them to completion, the destination register then holds exactly the
  constant, execution continues behind the code, and no other register and no memory changed.
\<close>

theorem load_immediate_correct:
  assumes "buf_wf g" and "reg_no rd \<noteq> 0" and "g_reg s 0 = 0"
    and "in_memory (emitted (load_immediate rd v) g) s"
  shows "run u h (length (emitted (load_immediate rd v) g) div 4) s =
    Inr (s\<lparr>g_reg := (g_reg s)(reg_no rd := v),
           g_pc := g_pc s + word_of_nat (length (emitted (load_immediate rd v) g))\<rparr>)"
  using run_emitted_alu [OF emits_load_immediate assms(1,4) li_words_alu]
    emitted_emits(2) [OF emits_load_immediate assms(1)] exec_li_words [OF assms(2,3)]
  by (simp add: done_reg_def code_len_def)

text \<open>Any code that fits the address space can be placed in memory.\<close>

lemma code_loadable:
  assumes "unat a + length code \<le> 0x40000000"
  shows "\<exists>m. in_memory code (boot_cpu m a)"
proof -
  have "\<exists>m'. onx_mem.wr_list Map.empty a code = Inr m'"
  proof (rule onx_mem.wr_list_total)
    fix i
    assume i: "i < length code"
    then have "unat (a + word_of_nat i) = unat a + i"
      using assms by (simp add: unat_word_ariths unat_of_nat)
    with i assms show "mem_valid (a + word_of_nat i)"
      by (simp add: mem_valid_def)
  qed
  then show ?thesis
    using onx_mem.rd_list_wr_list [of Map.empty a code] assms
    by (auto simp: mem_read_buf_eq in_memory_def)
qed

theorem load_immediate_correct_witness:
  "\<forall>u h. \<exists>m. run u h 3 (boot_cpu m 0x10000) =
     Inr ((boot_cpu m 0x10000)\<lparr>g_reg := (g_reg (boot_cpu m 0x10000))(10 := 0x12345), g_pc := 0x1000C\<rparr>)"
proof (intro allI)
  fix u h
  let ?code = "emitted (load_immediate 10 0x12345) cc_buf_init"
  have len: "length ?code = 12" by code_simp
  then obtain m where "in_memory ?code (boot_cpu m 0x10000)"
    using code_loadable [of "0x10000" ?code] by auto
  then show "\<exists>m. run u h 3 (boot_cpu m 0x10000) =
     Inr ((boot_cpu m 0x10000)\<lparr>g_reg := (g_reg (boot_cpu m 0x10000))(10 := 0x12345), g_pc := 0x1000C\<rparr>)"
    using load_immediate_correct [of cc_buf_init 10 "boot_cpu m 0x10000" "0x12345" u h] len
    by (intro exI [of _ m]) (simp add: reg_no_def)
qed

subsection \<open>Adding a constant of any size\<close>

definition scratch_reg :: "u32 \<Rightarrow> u32" where
  "scratch_reg rs1 = (if rs1 = 31 then 30 else 31)"

definition addi_imm_words :: "u32 \<Rightarrow> u32 \<Rightarrow> u64 \<Rightarrow> u32 list" where
  "addi_imm_words rd rs1 imm =
     (if fits12 (sint imm) then [i_word (ucast imm) rs1 0 rd 0x13]
      else if rs1 = 0 then li_words rd imm
      else li_words (scratch_reg rs1) imm @ [r_word 0 0 rd rs1 (scratch_reg rs1) 0x33])"

lemma emits_addi_imm: "emits (rv_addi_imm rd rs1 imm) (addi_imm_words rd rs1 imm)"
proof -
  consider "fits12 (sint imm)" | "\<not> fits12 (sint imm)" "rs1 = 0" | "\<not> fits12 (sint imm)" "rs1 \<noteq> 0"
    by blast
  then show ?thesis
  proof cases
    case 1
    then have "rv_addi_imm rd rs1 imm = emit32 (i_word (ucast imm) rs1 0 rd 0x13)"
      by (intro ext) (simp add: rv_addi_imm_def rv_addi_def)
    with 1 show ?thesis by (simp add: addi_imm_words_def emits_emit32)
  next
    case 2
    then have "rv_addi_imm rd rs1 imm = load_immediate rd imm"
      by (intro ext) (simp add: rv_addi_imm_def)
    with 2 show ?thesis by (simp add: addi_imm_words_def emits_load_immediate)
  next
    case 3
    then have "rv_addi_imm rd rs1 imm =
        (\<lambda>g. emit32 (r_word 0 0 rd rs1 (scratch_reg rs1) 0x33) (load_immediate (scratch_reg rs1) imm g))"
      by (intro ext) (simp add: rv_addi_imm_def rv_add_def emit_r_type_def scratch_reg_def Let_def)
    with 3 show ?thesis
      by (simp add: addi_imm_words_def emits_comp [OF emits_load_immediate emits_emit32])
  qed
qed

lemma addi_imm_alu: "list_all alu_word (addi_imm_words rd rs1 imm)"
  by (simp add: addi_imm_words_def li_words_alu alu_words)

lemma reg_no_mod: "reg_no r = unat r mod 32"
proof -
  have "r AND 0x1F = take_bit 5 r"
    by (simp add: take_bit_eq_mask mask_eq_exp_minus_1)
  then have "reg_no r = take_bit 5 (unat r)"
    unfolding reg_no_def by (metis unsigned_take_bit_eq)
  then show ?thesis by (simp add: take_bit_eq_mod)
qed

lemma reg_no_small: "r < 32 \<Longrightarrow> reg_no r = unat r"
  by (simp add: reg_no_mod word_less_nat_alt)

lemma scratch_reg_props:
  assumes "rs1 < 32"
  shows "reg_no (scratch_reg rs1) \<in> {30, 31}" "reg_no (scratch_reg rs1) \<noteq> reg_no rs1"
proof -
  show "reg_no (scratch_reg rs1) \<in> {30, 31}"
    by (simp add: scratch_reg_def reg_no_def)
  have "reg_no rs1 = 31 \<longleftrightarrow> rs1 = 31"
    using assms by (auto simp: reg_no_small word_unat_eq_iff)
  then show "reg_no (scratch_reg rs1) \<noteq> reg_no rs1"
    by (auto simp: scratch_reg_def reg_no_def)
qed

text \<open>
  The registers after the code: the sum in the destination, and the constant in the scratch
  register when one was needed.
\<close>

definition addi_imm_regs :: "u32 \<Rightarrow> u32 \<Rightarrow> u64 \<Rightarrow> (nat \<Rightarrow> u64) \<Rightarrow> nat \<Rightarrow> u64" where
  "addi_imm_regs rd rs1 imm r =
     (if fits12 (sint imm) \<or> rs1 = 0 then r(reg_no rd := r (reg_no rs1) + imm)
      else r(reg_no (scratch_reg rs1) := imm, reg_no rd := r (reg_no rs1) + imm))"

lemma exec_addi_imm:
  assumes "rs1 < 32" "reg_no rd \<noteq> 0" "g_reg s 0 = 0"
  shows "exec_seq u h (addi_imm_words rd rs1 imm) s =
    Inr (s\<lparr>g_reg := addi_imm_regs rd rs1 imm (g_reg s),
           g_pc := g_pc s + code_len (addi_imm_words rd rs1 imm)\<rparr>)"
proof -
  consider "fits12 (sint imm)" | "\<not> fits12 (sint imm)" "rs1 = 0" | "\<not> fits12 (sint imm)" "rs1 \<noteq> 0"
    by blast
  then show ?thesis
  proof cases
    case 1
    with assms show ?thesis
      by (simp add: addi_imm_words_def addi_imm_regs_def exec_seq_addi fits12_narrow done_reg_def
          del: exec_seq.simps(2))
  next
    case 2
    with assms show ?thesis
      by (simp add: addi_imm_words_def addi_imm_regs_def exec_li_words done_reg_def reg_no_def)
  next
    case 3
    have "reg_no (scratch_reg rs1) \<noteq> 0" "reg_no (scratch_reg rs1) \<noteq> reg_no rs1"
      using scratch_reg_props [OF assms(1)] by auto
    with 3 assms show ?thesis
      by (simp add: addi_imm_words_def addi_imm_regs_def exec_seq_append exec_li_words exec_seq_add
          done_reg_def add.assoc del: exec_seq.simps(2))
  qed
qed

lemma addi_imm_regs_props:
  assumes "rs1 < 32"
  shows "addi_imm_regs rd rs1 imm r (reg_no rd) = r (reg_no rs1) + imm"
    and "k \<notin> {reg_no rd, 30, 31} \<Longrightarrow> addi_imm_regs rd rs1 imm r k = r k"
  using scratch_reg_props [OF assms] by (auto simp: addi_imm_regs_def)

text \<open>
  \<^verbatim>\<open>rv_addi_imm\<close> adds any 64-bit constant: its code leaves \<^verbatim>\<open>rs1 + imm\<close> (wrapping) in the
  destination and changes no register other than the destination and the scratch registers
  t5 and t6, and no memory.
\<close>

theorem rv_addi_imm_correct:
  assumes "buf_wf g" and "rs1 < 32" and "reg_no rd \<noteq> 0" and "g_reg s 0 = 0"
    and "in_memory (emitted (rv_addi_imm rd rs1 imm) g) s"
  shows "\<exists>s'. run u h (length (emitted (rv_addi_imm rd rs1 imm) g) div 4) s = Inr s'
    \<and> g_reg s' (reg_no rd) = g_reg s (reg_no rs1) + imm
    \<and> (\<forall>k. k \<notin> {reg_no rd, 30, 31} \<longrightarrow> g_reg s' k = g_reg s k)
    \<and> g_pages s' = g_pages s
    \<and> g_pc s' = g_pc s + word_of_nat (length (emitted (rv_addi_imm rd rs1 imm) g))"
  using run_emitted_alu [OF emits_addi_imm assms(1,5) addi_imm_alu]
    emitted_emits(2) [OF emits_addi_imm assms(1)] exec_addi_imm [OF assms(2-4)]
    addi_imm_regs_props [OF assms(2)]
  by (auto simp: code_len_def)

theorem rv_addi_imm_correct_witness:
  "\<forall>u h. \<exists>m s'. run u h 4 (boot_cpu m 0x10000) = Inr s' \<and> g_reg s' 10 = - 1048579"
proof (intro allI)
  fix u h
  let ?code = "emitted (rv_addi_imm 10 8 (- 1048579)) cc_buf_init"
  have len: "length ?code = 16" by code_simp
  then obtain m where "in_memory ?code (boot_cpu m 0x10000)"
    using code_loadable [of "0x10000" ?code] by auto
  then show "\<exists>m s'. run u h 4 (boot_cpu m 0x10000) = Inr s' \<and> g_reg s' 10 = - 1048579"
    using rv_addi_imm_correct [of cc_buf_init 8 10 "boot_cpu m 0x10000" "- 1048579" u h] len
    by (intro exI [of _ m]) (auto simp: reg_no_def)
qed

end
