(* ===== verification/Encoder_Mem.thy ===== *)
theory Encoder_Mem
  imports Encoder_Exec
begin

text \<open>
  Loads, stores, branches and jumps: what the code of \<^verbatim>\<open>emit_i_load\<close>, \<^verbatim>\<open>emit_s_store\<close>, \<^verbatim>\<open>emit_b\<close> and
  \<^verbatim>\<open>rv_jal\<close> of \<^verbatim>\<open>src/arch/riscv64.c\<close> does in the interpreter, for offsets of every size.
\<close>

subsection \<open>Code that ends in an instruction of any kind\<close>

lemma run_seq_butlast:
  "list_all alu_word (butlast ws) \<Longrightarrow> code_at (g_pages s) (g_pc s) ws \<Longrightarrow>
     run u h (length ws) s = exec_seq u h ws s"
proof (induction ws arbitrary: s)
  case Nil
  then show ?case by simp
next
  case (Cons w ws)
  show ?case
  proof (cases "exec_insn u h w s")
    case (Inl e)
    with Cons.prems show ?thesis by (simp add: step_def)
  next
    case (Inr r)
    show ?thesis
    proof (cases "ws = []")
      case True
      with Inr Cons.prems show ?thesis by (simp add: step_def)
    next
      case False
      obtain s' pc' where r: "r = (s', pc')" by (cases r)
      with False Inr Cons.prems have "g_pages s' = g_pages s" "pc' = g_pc s + 4"
        by (auto dest: alu_word_exec)
      with Cons False Inr r show ?thesis by (simp add: step_def)
    qed
  qed
qed

lemma run_emitted:
  assumes "emits f ws" "buf_wf g" "in_memory (emitted f g) s" "list_all alu_word (butlast ws)"
  shows "run u h (length (emitted f g) div 4) s = exec_seq u h ws s"
  using run_seq_butlast [OF assms(4) in_memory_code_at [OF assms(1-3)]] emitted_emits(2) [OF assms(1,2)]
  by simp

subsection \<open>The address prologue\<close>

definition addr_words :: "u32 \<Rightarrow> u32 \<Rightarrow> (u32 \<Rightarrow> u32 \<Rightarrow> u32) \<Rightarrow> u32 list" where
  "addr_words rs1 imm k =
     (if fits12 (sint imm) then [k rs1 imm]
      else addi_imm_words (scratch_reg rs1) rs1 (scast imm) @ [k (scratch_reg rs1) 0])"

lemma emits_with_addr:
  "emits (with_addr rs1 imm (\<lambda>r i. emit32 (k r i))) (addr_words rs1 imm k)"
proof (cases "fits12 (sint imm)")
  case True
  then have "with_addr rs1 imm (\<lambda>r i. emit32 (k r i)) = emit32 (k rs1 imm)"
    by (intro ext) (simp add: with_addr_def)
  with True show ?thesis by (simp add: addr_words_def emits_emit32)
next
  case False
  then have "with_addr rs1 imm (\<lambda>r i. emit32 (k r i)) =
      (\<lambda>g. emit32 (k (scratch_reg rs1) 0) (rv_addi_imm (scratch_reg rs1) rs1 (scast imm) g))"
    by (intro ext) (simp add: with_addr_def materialize_addr_def scratch_reg_def Let_def)
  with False show ?thesis
    by (simp add: addr_words_def emits_comp [OF emits_addi_imm emits_emit32])
qed

lemma addr_words_alu: "list_all alu_word (butlast (addr_words rs1 imm k))"
  by (simp add: addr_words_def addi_imm_alu butlast_append)

lemma addr_words_len: "code_len (butlast (addr_words rs1 imm k)) + 4 = code_len (addr_words rs1 imm k)"
  by (simp add: addr_words_def butlast_append)

lemma and_7_small: "f3 < 8 \<Longrightarrow> f3 AND 7 = f3" for f3 :: u32
  using less_mask_eq [of f3 3] by (simp add: mask_eq_exp_minus_1)

text \<open>
  The state in which the access itself runs: base register and offset add up to the
  requested address, only the scratch registers differ.
\<close>

definition addr_ready :: "'h cpu \<Rightarrow> u32 \<Rightarrow> u32 \<Rightarrow> u32 \<Rightarrow> u32 \<Rightarrow> 'h cpu \<Rightarrow> u64 \<Rightarrow> bool" where
  "addr_ready s rs1 imm base off s1 n \<longleftrightarrow>
     g_reg s1 (reg_no base) + scast off = g_reg s (reg_no rs1) + scast imm \<and> fits12 (sint off)
     \<and> (\<exists>r. s1 = s\<lparr>g_reg := r, g_pc := g_pc s + n\<rparr>)
     \<and> (\<forall>k. k \<notin> {30, 31} \<longrightarrow> g_reg s1 k = g_reg s k)"

lemma addr_readyD:
  assumes "addr_ready s rs1 imm base off s1 n"
  shows "g_reg s1 (reg_no base) + scast off = g_reg s (reg_no rs1) + scast imm" "fits12 (sint off)"
    "g_pages s1 = g_pages s" "g_freg s1 = g_freg s" "g_pc s1 = g_pc s + n"
    "k \<notin> {30, 31} \<Longrightarrow> g_reg s1 k = g_reg s k"
  using assms by (auto simp: addr_ready_def)

lemma exec_addr_words:
  assumes "rs1 < 32" "g_reg s 0 = 0"
  shows "\<exists>base off s1. addr_ready s rs1 imm base off s1 (code_len (butlast (addr_words rs1 imm k)))
    \<and> exec_seq u h (addr_words rs1 imm k) s
        = bindE (exec_insn u h (k base off) s1) (\<lambda>r. Inr (retire r))"
proof (cases "fits12 (sint imm)")
  case True
  then have "addr_ready s rs1 imm rs1 imm s 0"
    by (auto simp: addr_ready_def intro: exI [of _ "g_reg s"])
  with True show ?thesis
    by (intro exI [of _ rs1] exI [of _ imm] exI [of _ s]) (simp add: addr_words_def)
next
  case False
  let ?t = "scratch_reg rs1" and ?ws = "addi_imm_words (scratch_reg rs1) rs1 (scast imm)"
  let ?s1 = "s\<lparr>g_reg := addi_imm_regs ?t rs1 (scast imm) (g_reg s), g_pc := g_pc s + code_len ?ws\<rparr>"
  have t: "reg_no ?t \<noteq> 0" "reg_no ?t \<in> {30, 31}"
    using scratch_reg_props [OF assms(1)] by auto
  have "addr_ready s rs1 imm ?t 0 ?s1 (code_len ?ws)"
    using addi_imm_regs_props(1) [OF assms(1)] addi_imm_regs_props(2) [OF assms(1)] t(2)
    unfolding addr_ready_def by (auto simp: fits12_def)
  with exec_addi_imm [OF assms(1) t(1) assms(2)] False show ?thesis
    by (intro exI [of _ ?t] exI [of _ 0] exI [of _ ?s1])
      (simp add: addr_words_def exec_seq_append butlast_append)
qed

subsection \<open>Loads\<close>

text \<open>
  The value of a load by its funct3: the low two bits give the width, the third bit selects
  zero extension.
\<close>

definition loaded :: "pages \<Rightarrow> u32 \<Rightarrow> u64 \<Rightarrow> stop + u64" where
  "loaded m f3 a =
     (let n = 2 ^ unat (f3 AND 3)
      in bindE (mem_read m a n) (\<lambda>v. Inr (if f3 < 4 then signed_take_bit (8 * n - 1) v else v)))"

lemma mem_read_1: "mem_read m a 1 = bindE (mem_read8 m a) (\<lambda>b. Inr (ucast b))"
  by (simp add: mem_read_def bindE_def split: sum.splits)

lemma scast_signed:
  "scast (ucast (v :: u64) :: u8) = signed_take_bit 7 v"
  "scast (ucast (v :: u64) :: u16) = signed_take_bit 15 v"
  "scast (ucast (v :: u64) :: u32) = signed_take_bit 31 v"
  by (rule bit_word_eqI, auto simp: bit_simps min_def)+

lemma scast_byte: "scast b = (signed_take_bit 7 (ucast b) :: u64)" for b :: u8
  by (rule bit_word_eqI) (auto simp: bit_simps min_def)

lemma signed_take_bit_63: "signed_take_bit 63 v = (v :: u64)"
  by (rule signed_take_bit_word_self) (use sint_greater_eq [of v] sint_less [of v] in simp_all)

lemma exec_loaded:
  assumes "f3 < 7" and "fits12 (sint imm)"
  shows "exec_insn u h (i_word imm rs1 f3 rd 0x03) s =
    bindE (loaded (g_pages s) f3 (g_reg s (reg_no rs1) + scast imm))
      (\<lambda>v. Inr (set_reg (reg_no rd) v s, g_pc s + 4))"
proof -
  have "unat f3 < 7" using assms(1) by (simp add: word_less_nat_alt)
  then have "unat f3 \<in> {0, 1, 2, 3, 4, 5, 6}" by auto
  then have "f3 = 0 \<or> f3 = 1 \<or> f3 = 2 \<or> f3 = 3 \<or> f3 = 4 \<or> f3 = 5 \<or> f3 = 6"
    by (simp add: word_unat_eq_iff)
  then show ?thesis
    by (elim disjE)
      (simp_all add: exec_insn_def i_word_fields exec_load_def imm_i_i_word [OF _ _ assms(2)] loaded_def
        Let_def mem_read_1 [unfolded One_nat_def] scast_signed bindE_assoc scast_byte signed_take_bit_63)
qed

text \<open>
  C11. Loads are correct for offsets of every size: the code of \<^verbatim>\<open>emit_i_load\<close> (all seven
  widths and extensions, any 32-bit offset) reads the value at \<^verbatim>\<open>rs1 + imm\<close> into the
  destination, faults exactly when that read faults, and changes no other register but the
  scratch registers t5 and t6, and no memory.
\<close>

theorem emit_i_load_correct:
  assumes "buf_wf g" and "f3 < 7" and "rs1 < 32" and "reg_no rd \<noteq> 0" and "g_reg s 0 = 0"
    and "in_memory (emitted (emit_i_load f3 rd rs1 imm) g) s"
  shows "case loaded (g_pages s) f3 (g_reg s (reg_no rs1) + scast imm) of
      Inl e \<Rightarrow> run u h (length (emitted (emit_i_load f3 rd rs1 imm) g) div 4) s = Inl e
    | Inr v \<Rightarrow> (\<exists>s'. run u h (length (emitted (emit_i_load f3 rd rs1 imm) g) div 4) s = Inr s'
        \<and> g_reg s' (reg_no rd) = v
        \<and> (\<forall>k. k \<notin> {reg_no rd, 30, 31} \<longrightarrow> g_reg s' k = g_reg s k)
        \<and> g_freg s' = g_freg s \<and> g_pages s' = g_pages s
        \<and> g_pc s' = g_pc s + word_of_nat (length (emitted (emit_i_load f3 rd rs1 imm) g)))"
proof -
  let ?k = "\<lambda>r i. i_word i r (f3 AND 7) rd 0x03"
  let ?ws = "addr_words rs1 imm ?k"
  have f3: "f3 AND 7 = f3"
    using assms(2) by (rule and_7_small [OF order.strict_trans]) simp
  have em: "emits (emit_i_load f3 rd rs1 imm) ?ws"
    unfolding emit_i_load_def by (rule emits_with_addr)
  obtain base off s1 where rdy: "addr_ready s rs1 imm base off s1 (code_len (butlast ?ws))"
    and ex: "exec_seq u h ?ws s = bindE (exec_insn u h (?k base off) s1) (\<lambda>r. Inr (retire r))"
    using exec_addr_words [OF assms(3,5)] by blast
  have run: "run u h (length (emitted (emit_i_load f3 rd rs1 imm) g) div 4) s =
      bindE (loaded (g_pages s) f3 (g_reg s (reg_no rs1) + scast imm))
        (\<lambda>v. Inr (retire (set_reg (reg_no rd) v s1, g_pc s1 + 4)))"
    using run_emitted [OF em assms(1,6) addr_words_alu] ex addr_readyD [OF rdy]
      exec_loaded [OF assms(2) addr_readyD(2) [OF rdy], of u h base rd s1] f3
    by (simp add: bindE_assoc)
  have "length (emitted (emit_i_load f3 rd rs1 imm) g) = 4 * length ?ws"
    by (rule emitted_emits(2) [OF em assms(1)])
  then have "g_pc s1 + 4 = g_pc s + word_of_nat (length (emitted (emit_i_load f3 rd rs1 imm) g))"
    using rdy addr_words_len [of rs1 imm ?k] by (auto simp: addr_ready_def code_len_def)
  with run rdy assms(4,5) show ?thesis
    by (auto simp: addr_ready_def split: sum.splits)
qed

text \<open>Code in memory can be read as data: the witnesses access the code itself.\<close>

lemma in_memory_first: "in_memory (b # bs) s \<Longrightarrow> mem_read8 (g_pages s) (g_pc s) = Inr b"
  by (auto simp: in_memory_def bindE_eq_Inr)

lemma code_loadable_read:
  assumes "code = b # bs" "unat a + length code \<le> 0x40000000"
  shows "\<exists>m. in_memory code (boot_cpu m a) \<and> mem_read8 m a = Inr b"
  using code_loadable [OF assms(2)] in_memory_first assms(1) by fastforce

theorem emit_i_load_correct_witness:
  "\<forall>u h. \<exists>m s'. run u h 3 (boot_cpu m 0x10000) = Inr s' \<and> g_reg s' 10 = 147"
proof (intro allI)
  fix u h
  let ?code = "emitted (emit_i_load 4 10 0 0x10000) cc_buf_init"
  have code: "?code = [147, 15, 0, 1, 147, 159, 207, 0, 3, 197, 15, 0]" by code_simp
  then obtain m where m: "in_memory ?code (boot_cpu m 0x10000)" "mem_read8 m 0x10000 = Inr 147"
    using code_loadable_read [OF code, of "0x10000"] by auto
  then have "loaded m 4 0x10000 = Inr 147"
    by (simp add: loaded_def mem_read_1 [unfolded One_nat_def])
  with m(1) show "\<exists>m s'. run u h 3 (boot_cpu m 0x10000) = Inr s' \<and> g_reg s' 10 = 147"
    using emit_i_load_correct [of cc_buf_init 4 0 10 "boot_cpu m 0x10000" "0x10000" u h] code
    by (intro exI [of _ m]) (auto simp: reg_no_def)
qed

subsection \<open>Stores\<close>

text \<open>The effect of a store by its funct3, which gives the width.\<close>

definition store_value :: "pages \<Rightarrow> u32 \<Rightarrow> u64 \<Rightarrow> u64 \<Rightarrow> stop + pages" where
  "store_value m f3 a v = mem_write m a v (2 ^ unat f3)"

lemma mem_write_1: "mem_write m a v 1 = mem_write8 m a (ucast v)"
  by (simp add: mem_write_def bindE_def split: sum.splits)

lemma exec_store_value:
  assumes "f3 < 4" and "fits12 (sint imm)"
  shows "exec_insn u h (s_word imm rs2 rs1 f3 0x23) s =
    bindE (store_value (g_pages s) f3 (g_reg s (reg_no rs1) + scast imm) (g_reg s (reg_no rs2)))
      (\<lambda>m. Inr (s\<lparr>g_pages := m\<rparr>, g_pc s + 4))"
proof -
  have "unat f3 < 4" using assms(1) by (simp add: word_less_nat_alt)
  then have "unat f3 \<in> {0, 1, 2, 3}" by auto
  then have "f3 = 0 \<or> f3 = 1 \<or> f3 = 2 \<or> f3 = 3"
    by (simp add: word_unat_eq_iff)
  then show ?thesis
    by (elim disjE)
      (simp_all add: exec_insn_def s_word_fields exec_store_def imm_s_s_word [OF _ _ assms(2)]
        store_value_def Let_def mem_write_1 [unfolded One_nat_def])
qed

text \<open>
  Stores are correct for offsets of every size: the code of \<^verbatim>\<open>emit_s_store\<close> (four widths,
  any 32-bit offset) writes the low bytes of \<^verbatim>\<open>rs2\<close> at \<^verbatim>\<open>rs1 + imm\<close>, faults exactly when that
  write faults, and changes no register but the scratch registers t5 and t6. The stored
  register must not be one of the two, as the comment in the code says.
\<close>

theorem emit_s_store_correct:
  assumes "buf_wf g" and "f3 < 4" and "rs1 < 32" and "reg_no rs2 \<notin> {30, 31}" and "g_reg s 0 = 0"
    and "in_memory (emitted (emit_s_store f3 rs2 rs1 imm) g) s"
  shows "case store_value (g_pages s) f3 (g_reg s (reg_no rs1) + scast imm) (g_reg s (reg_no rs2)) of
      Inl e \<Rightarrow> run u h (length (emitted (emit_s_store f3 rs2 rs1 imm) g) div 4) s = Inl e
    | Inr m \<Rightarrow> (\<exists>s'. run u h (length (emitted (emit_s_store f3 rs2 rs1 imm) g) div 4) s = Inr s'
        \<and> g_pages s' = m
        \<and> (\<forall>k. k \<notin> {30, 31} \<longrightarrow> g_reg s' k = g_reg s k) \<and> g_freg s' = g_freg s
        \<and> g_pc s' = g_pc s + word_of_nat (length (emitted (emit_s_store f3 rs2 rs1 imm) g)))"
proof -
  let ?k = "\<lambda>r i. s_word i rs2 r (f3 AND 7) 0x23"
  let ?ws = "addr_words rs1 imm ?k"
  have f3: "f3 AND 7 = f3"
    using assms(2) by (rule and_7_small [OF order.strict_trans]) simp
  have em: "emits (emit_s_store f3 rs2 rs1 imm) ?ws"
    unfolding emit_s_store_def by (rule emits_with_addr)
  obtain base off s1 where rdy: "addr_ready s rs1 imm base off s1 (code_len (butlast ?ws))"
    and ex: "exec_seq u h ?ws s = bindE (exec_insn u h (?k base off) s1) (\<lambda>r. Inr (retire r))"
    using exec_addr_words [OF assms(3,5)] by blast
  have run: "run u h (length (emitted (emit_s_store f3 rs2 rs1 imm) g) div 4) s =
      bindE (store_value (g_pages s) f3 (g_reg s (reg_no rs1) + scast imm) (g_reg s (reg_no rs2)))
        (\<lambda>m. Inr (retire (s1\<lparr>g_pages := m\<rparr>, g_pc s1 + 4)))"
    using run_emitted [OF em assms(1,6) addr_words_alu] ex addr_readyD [OF rdy]
      addr_readyD(6) [OF rdy assms(4)]
      exec_store_value [OF assms(2) addr_readyD(2) [OF rdy], of u h rs2 base s1] f3
    by (simp add: bindE_assoc)
  have "length (emitted (emit_s_store f3 rs2 rs1 imm) g) = 4 * length ?ws"
    by (rule emitted_emits(2) [OF em assms(1)])
  then have "g_pc s1 + 4 = g_pc s + word_of_nat (length (emitted (emit_s_store f3 rs2 rs1 imm) g))"
    using rdy addr_words_len [of rs1 imm ?k] by (auto simp: addr_ready_def code_len_def)
  with run rdy assms(4,5) show ?thesis
    by (auto simp: addr_ready_def split: sum.splits)
qed

theorem emit_s_store_correct_witness:
  "\<forall>u h. \<exists>m s'. run u h 3 (boot_cpu m 0x10000) = Inr s' \<and> g_pc s' = 0x1000C"
proof (intro allI)
  fix u h
  let ?code = "emitted (emit_s_store 3 0 0 0x10000) cc_buf_init"
  have code: "?code = [147, 15, 0, 1, 147, 159, 207, 0, 35, 176, 15, 0]" by code_simp
  obtain m where m: "in_memory ?code (boot_cpu m 0x10000)"
    using code_loadable [of "0x10000" ?code] code by auto
  have "\<exists>m'. store_value m 3 0x10000 0 = Inr m'"
    unfolding store_value_def by (rule mem_write_total) (simp_all add: mem_valid_def)
  with m show "\<exists>m s'. run u h 3 (boot_cpu m 0x10000) = Inr s' \<and> g_pc s' = 0x1000C"
    using emit_s_store_correct [of cc_buf_init 3 0 0 "boot_cpu m 0x10000" "0x10000" u h] code
    by (intro exI [of _ m]) (auto simp: reg_no_def)
qed

subsection \<open>Branches and jumps\<close>

text \<open>The condition of a conditional branch by its funct3.\<close>

definition branch_taken :: "u32 \<Rightarrow> u64 \<Rightarrow> u64 \<Rightarrow> bool" where
  "branch_taken f3 a b =
     (let less = (if f3 < 2 then a = b else if f3 < 6 then sint a < sint b else a < b)
      in if even f3 then less else \<not> less)"

text \<open>
  Branches reach their target: for an even offset within the thirteen-bit range the word
  of \<^verbatim>\<open>emit_b\<close> goes to the instruction's address plus the offset if the comparison selected by
  funct3 (equal, signed less, unsigned less and their negations) holds, and to the next
  instruction otherwise, and changes nothing else.
\<close>

theorem emit_b_correct:
  assumes "buf_wf g" and "f3 \<in> {0, 1, 4, 5, 6, 7}" and "even off" and "- 4096 \<le> sint off" and "sint off < 4096"
    and "g_reg s 0 = 0" and "in_memory (emitted (emit_b f3 rs1 rs2 off) g) s"
  shows "step u h s = Inr (s\<lparr>g_pc := g_pc s +
    (if branch_taken f3 (g_reg s (reg_no rs1)) (g_reg s (reg_no rs2)) then scast off else 4)\<rparr>)"
proof -
  have em: "emits (emit_b f3 rs1 rs2 off) [b_word f3 rs1 rs2 off]"
    unfolding emit_b_def by (rule emits_emit32)
  have "fetch32 (g_pages s) (g_pc s) = Inr (b_word f3 rs1 rs2 off)"
    using in_memory_code_at [OF em assms(1,7)] by simp
  then have "step u h s = bindE (exec_branch (b_word f3 rs1 rs2 off) s) (\<lambda>r. Inr (retire r))"
    by (simp add: step_def exec_insn_def b_word_fields)
  moreover have "retire (s, p) = s\<lparr>g_pc := p\<rparr>" for p
    using assms(6) by (simp add: retire_def fun_upd_idem)
  ultimately show ?thesis
    using assms(2)
    by (elim insertE emptyE)
      (simp_all add: exec_branch_def b_word_fields imm_b_b_word [OF assms(3-5)] branch_taken_def Let_def
        not_less)
qed

theorem emit_b_correct_witness:
  "\<forall>u h. \<exists>m. step u h (boot_cpu m 0x10000) = Inr ((boot_cpu m 0x10000)\<lparr>g_pc := 0x10008\<rparr>)"
proof (intro allI)
  fix u h
  let ?code = "emitted (emit_b 0 5 6 8) cc_buf_init"
  have "length ?code = 4" by code_simp
  then obtain m where "in_memory ?code (boot_cpu m 0x10000)"
    using code_loadable [of "0x10000" ?code] by auto
  then show "\<exists>m. step u h (boot_cpu m 0x10000) = Inr ((boot_cpu m 0x10000)\<lparr>g_pc := 0x10008\<rparr>)"
    using emit_b_correct [of cc_buf_init 0 8 "boot_cpu m 0x10000" 5 6 u h]
    by (intro exI [of _ m]) (simp add: branch_taken_def)
qed

text \<open>
  Calls and jumps reach their target: for an even offset within the twenty-one-bit range
  the word of \<^verbatim>\<open>rv_jal\<close> continues at the instruction's address plus the offset and leaves the
  return address in the link register, unless that is x0, which stays zero.
\<close>

theorem rv_jal_correct:
  assumes "buf_wf g" and "even off" and "- (2 ^ 20) \<le> sint off" and "sint off < 2 ^ 20"
    and "g_reg s 0 = 0" and "in_memory (emitted (rv_jal rd off) g) s"
  shows "step u h s = Inr (s\<lparr>g_reg := (if reg_no rd = 0 then g_reg s
    else (g_reg s)(reg_no rd := g_pc s + 4)), g_pc := g_pc s + scast off\<rparr>)"
proof -
  have em: "emits (rv_jal rd off) [j_word rd off]"
    unfolding rv_jal_def by (rule emits_emit32)
  have "fetch32 (g_pages s) (g_pc s) = Inr (j_word rd off)"
    using in_memory_code_at [OF em assms(1,6)] by simp
  then have "step u h s = bindE (exec_jal (j_word rd off) s) (\<lambda>r. Inr (retire r))"
    by (simp add: step_def exec_insn_def j_word_fields)
  then show ?thesis
    using assms(5)
    by (auto simp: exec_jal_def j_word_fields imm_j_j_word [OF assms(2-4)] retire_def set_reg_def
        fun_upd_idem fun_upd_twist)
qed

theorem rv_jal_correct_witness:
  "\<forall>u h. \<exists>m. step u h (boot_cpu m 0x10000) =
     Inr ((boot_cpu m 0x10000)\<lparr>g_reg := (g_reg (boot_cpu m 0x10000))(1 := 0x10004), g_pc := 0xFF00\<rparr>)"
proof (intro allI)
  fix u h
  let ?code = "emitted (rv_jal 1 (- 0x100)) cc_buf_init"
  have "length ?code = 4" by code_simp
  then obtain m where "in_memory ?code (boot_cpu m 0x10000)"
    using code_loadable [of "0x10000" ?code] by auto
  moreover have "sint (- 0x100 :: u32) = - 256" "scast (- 0x100 :: u32) = (- 0x100 :: u64)"
    by code_simp+
  ultimately show "\<exists>m. step u h (boot_cpu m 0x10000) =
     Inr ((boot_cpu m 0x10000)\<lparr>g_reg := (g_reg (boot_cpu m 0x10000))(1 := 0x10004), g_pc := 0xFF00\<rparr>)"
    using rv_jal_correct [of cc_buf_init "- 0x100" "boot_cpu m 0x10000" 1 u h]
    by (intro exI [of _ m]) (simp add: reg_no_def)
qed

end
