(* ===== verification/Encoder_Alu.thy ===== *)
theory Encoder_Alu
  imports Encoder_Exec
begin

text \<open>
  The register-register instructions: the encoders \<^verbatim>\<open>rv_add\<close> to \<^verbatim>\<open>rv_remu\<close> of \<^verbatim>\<open>src/arch/riscv64.c\<close>
  run by the interpreter compute the operations of the RISC-V manual, stated on integers.
\<close>

datatype r_op =
  ADD | SUB | SLL | SLT | SLTU | XOR_OP | SRL | SRA | OR_OP | AND_OP
  | MUL | MULH | MULHSU | MULHU | DIV | DIVU | REM | REMU

text \<open>The encoder of each operation.\<close>

fun rv_r_op :: "r_op \<Rightarrow> u32 \<Rightarrow> u32 \<Rightarrow> u32 \<Rightarrow> emitter" where
  "rv_r_op ADD = rv_add" | "rv_r_op SUB = rv_sub" | "rv_r_op SLL = rv_sll"
| "rv_r_op SLT = rv_slt" | "rv_r_op SLTU = rv_sltu" | "rv_r_op XOR_OP = rv_xor"
| "rv_r_op SRL = rv_srl" | "rv_r_op SRA = rv_sra" | "rv_r_op OR_OP = rv_or"
| "rv_r_op AND_OP = rv_and" | "rv_r_op MUL = rv_mul" | "rv_r_op MULH = rv_mulh"
| "rv_r_op MULHSU = rv_mulhsu" | "rv_r_op MULHU = rv_mulhu" | "rv_r_op DIV = rv_div"
| "rv_r_op DIVU = rv_divu" | "rv_r_op REM = rv_rem" | "rv_r_op REMU = rv_remu"

text \<open>
  The operations of the manual: signed operands are read as integers, division by zero gives
  all ones, the remainder by zero the dividend, and the one overflowing quotient wraps.
\<close>

fun isa_op :: "r_op \<Rightarrow> u64 \<Rightarrow> u64 \<Rightarrow> u64" where
  "isa_op ADD a b = word_of_int (sint a + sint b)"
| "isa_op SUB a b = word_of_int (sint a - sint b)"
| "isa_op SLL a b = a * 2 ^ (unat b mod 64)"
| "isa_op SLT a b = (if sint a < sint b then 1 else 0)"
| "isa_op SLTU a b = (if uint a < uint b then 1 else 0)"
| "isa_op XOR_OP a b = (a OR b) AND NOT (a AND b)"
| "isa_op SRL a b = word_of_int (uint a div 2 ^ (unat b mod 64))"
| "isa_op SRA a b = word_of_int (sint a div 2 ^ (unat b mod 64))"
| "isa_op OR_OP a b = a OR b"
| "isa_op AND_OP a b = a AND b"
| "isa_op MUL a b = word_of_int (sint a * sint b)"
| "isa_op MULH a b = word_of_int (sint a * sint b div 2 ^ 64)"
| "isa_op MULHSU a b = word_of_int (sint a * uint b div 2 ^ 64)"
| "isa_op MULHU a b = word_of_int (uint a * uint b div 2 ^ 64)"
| "isa_op DIV a b = (if b = 0 then - 1 else word_of_int (sint a sdiv sint b))"
| "isa_op DIVU a b = (if b = 0 then - 1 else word_of_int (uint a div uint b))"
| "isa_op REM a b = (if b = 0 then a else word_of_int (sint a smod sint b))"
| "isa_op REMU a b = (if b = 0 then a else word_of_int (uint a mod uint b))"

lemma and_63: "unat (b AND 63) = unat b mod 64" for b :: u64
proof -
  have "b AND 63 = take_bit 6 b"
    by (simp add: take_bit_eq_mask mask_eq_exp_minus_1)
  then have "unat (b AND 63) = take_bit 6 (unat b)"
    by (metis unsigned_take_bit_eq)
  then show ?thesis by (simp add: take_bit_eq_mod)
qed

lemma word_of_int_sint2: "word_of_int (sint a + sint b) = a + b" "word_of_int (sint a - sint b) = a - b"
  "word_of_int (sint a * sint b) = a * b" for a b :: u64
  by simp_all

lemma smod_1: "k smod 1 = 0" for k :: int
  by (simp add: signed_modulo_int_def signed_divide_int_def)

lemma uint_div_mod:
  "word_of_int (uint a div uint b) = a div b" "word_of_int (uint a mod uint b) = a mod b"
  "word_of_int (uint a div 2 ^ n) = drop_bit n a" for a b :: u64
proof -
  have "uint (drop_bit n a) = drop_bit n (uint a)"
    by (rule bit_eqI) (auto simp: bit_simps)
  then show "word_of_int (uint a div 2 ^ n) = drop_bit n a"
    by (metis drop_bit_eq_div word_of_int_uint)
qed (simp_all add: word_div_def word_mod_def)

lemma sra_div: "word_of_int (sint a div 2 ^ n) = signed_drop_bit n a" for a :: u64
  by (simp add: sint_signed_drop_bit_eq flip: drop_bit_eq_div sint_signed_drop_bit_eq)

lemma exec_r_op:
  "exec_insn u h (r_word f3 f7 rd rs1 rs2 0x33) s =
     Inr (set_reg (reg_no rd) v s, g_pc s + 4) \<Longrightarrow> reg_no rd \<noteq> 0 \<Longrightarrow> g_reg s 0 = 0 \<Longrightarrow>
   exec_seq u h [r_word f3 f7 rd rs1 rs2 0x33] s = Inr (done_reg (reg_no rd) v 4 s)"
  by (simp add: retire_set_reg)

definition r_op_code :: "r_op \<Rightarrow> u32 \<times> u32" where
  "r_op_code p = (case p of ADD \<Rightarrow> (0, 0) | SUB \<Rightarrow> (0, 0x20) | SLL \<Rightarrow> (1, 0) | SLT \<Rightarrow> (2, 0) | SLTU \<Rightarrow> (3, 0)
     | XOR_OP \<Rightarrow> (4, 0) | SRL \<Rightarrow> (5, 0) | SRA \<Rightarrow> (5, 0x20) | OR_OP \<Rightarrow> (6, 0) | AND_OP \<Rightarrow> (7, 0)
     | MUL \<Rightarrow> (0, 1) | MULH \<Rightarrow> (1, 1) | MULHSU \<Rightarrow> (2, 1) | MULHU \<Rightarrow> (3, 1) | DIV \<Rightarrow> (4, 1)
     | DIVU \<Rightarrow> (5, 1) | REM \<Rightarrow> (6, 1) | REMU \<Rightarrow> (7, 1))"

definition r_op_word :: "r_op \<Rightarrow> u32 \<Rightarrow> u32 \<Rightarrow> u32 \<Rightarrow> u32" where
  "r_op_word p rd rs1 rs2 = r_word (fst (r_op_code p)) (snd (r_op_code p)) rd rs1 rs2 0x33"

lemma emits_r_op: "emits (rv_r_op p rd rs1 rs2) [r_op_word p rd rs1 rs2]"
  by (cases p)
    (simp_all add: r_op_word_def r_op_code_def rv_add_def rv_sub_def rv_sll_def rv_slt_def rv_sltu_def
      rv_xor_def rv_srl_def rv_sra_def rv_or_def rv_and_def rv_mul_def rv_mulh_def rv_mulhsu_def
      rv_mulhu_def rv_div_def rv_divu_def rv_rem_def rv_remu_def emit_r_type_def emits_emit32)

lemma xor_or_and: "a XOR b = (a OR b) AND NOT (a AND b)" for a b :: u64
  by (rule bit_word_eqI) (auto simp: bit_simps)

lemma exec_r_op_word:
  "exec_insn u h (r_op_word p rd rs1 rs2) s =
     Inr (set_reg (reg_no rd) (isa_op p (g_reg s (reg_no rs1)) (g_reg s (reg_no rs2))) s, g_pc s + 4)"
  by (cases p)
    (simp_all add: r_op_word_def r_op_code_def exec_insn_op Let_def put_or_skip_def put_or_illegal_def
      op_base_def op_alt_def op_m_def r_word_fields and_63 word_of_int_sint2 uint_div_mod sra_div
      push_bit_eq_mult xor_or_and word_less_def smod_1)

text \<open>
  All eighteen register-register operations are correct: the instruction each encoder emits,
  executed by the interpreter, puts the result of the RISC-V manual's operation, stated on
  integers with its division-by-zero and overflow cases, in the destination register and
  changes nothing else.
\<close>

theorem r_ops_correct:
  assumes "buf_wf g" and "reg_no rd \<noteq> 0" and "g_reg s 0 = 0"
    and "in_memory (emitted (rv_r_op p rd rs1 rs2) g) s"
  shows "step u h s = Inr (s\<lparr>
    g_reg := (g_reg s)(reg_no rd := isa_op p (g_reg s (reg_no rs1)) (g_reg s (reg_no rs2))),
    g_pc := g_pc s + 4\<rparr>)"
  using in_memory_code_at [OF emits_r_op assms(1,4)] retire_set_reg [OF assms(2,3)]
  by (simp add: step_def exec_r_op_word done_reg_def)

theorem r_ops_correct_witness:
  "\<forall>u h. \<exists>m. step u h (boot_cpu m 0x10000) =
     Inr ((boot_cpu m 0x10000)\<lparr>g_reg := (g_reg (boot_cpu m 0x10000))(10 := - 1), g_pc := 0x10004\<rparr>)"
proof (intro allI)
  fix u h
  let ?code = "emitted (rv_r_op DIV 10 11 12) cc_buf_init"
  have "length ?code = 4" by code_simp
  then obtain m where "in_memory ?code (boot_cpu m 0x10000)"
    using code_loadable [of "0x10000" ?code] by auto
  then show "\<exists>m. step u h (boot_cpu m 0x10000) =
     Inr ((boot_cpu m 0x10000)\<lparr>g_reg := (g_reg (boot_cpu m 0x10000))(10 := - 1), g_pc := 0x10004\<rparr>)"
    using r_ops_correct [of cc_buf_init 10 "boot_cpu m 0x10000" DIV 11 12 u h]
    by (intro exI [of _ m]) (simp add: reg_no_def)
qed

subsection \<open>Conversion from floating point to 64-bit integers\<close>

text \<open>
  \<^verbatim>\<open>fcvt.l.d\<close>, which the code generator uses for every conversion of a double to a 64-bit
  integer, keeps only the low half in the emulator: the interpreter truncates the converted
  value to 32 bits although the encoder selects the 64-bit destination.
\<close>

theorem fcvt_l_d_truncates:
  "emits (rv_fcvt_l_d rd rs1) [r_word 1 0x61 rd rs1 2 0x53]
   \<and> exec_insn u h (r_word 1 0x61 rd rs1 2 0x53) s =
      Inr (set_reg (reg_no rd) (take_bit 32 (f2i64 u (g_freg s (reg_no rs1)))) s, g_pc s + 4)"
proof -
  have take: "ucast (ucast v :: u32) = take_bit 32 v" for v :: u64
    by (rule bit_word_eqI) (auto simp: bit_simps)
  show ?thesis
    by (simp add: emits_emit32 rv_fcvt_l_d_def rv_emit_fpu_r_def exec_insn_def r_word_fields exec_fp_op_def
        exec_farith_def exec_fcvt_def Let_def freg_d_def take, simp add: reg_no_def)
qed

end
