(* ===== verification/Emulator_Inv.thy ===== *)
theory Emulator_Inv
  imports Emulator
begin

text \<open>
  Invariants of the emulated machine of \<^verbatim>\<open>tools/onx-run.c\<close>: what a system call and an instruction
  leave alone, and what holds in every state the interpreter reaches.
\<close>

subsection \<open>Memory only grows, within the address space\<close>

definition mem_grows :: "pages \<Rightarrow> pages \<Rightarrow> bool" where
  "mem_grows m m' \<longleftrightarrow> dom m \<subseteq> dom m' \<and> (dom m \<subseteq> {..<0x40000} \<longrightarrow> dom m' \<subseteq> {..<0x40000})"

lemma mem_grows_refl [simp]: "mem_grows m m"
  by (simp add: mem_grows_def)

lemma mem_grows_trans: "mem_grows m m1 \<Longrightarrow> mem_grows m1 m2 \<Longrightarrow> mem_grows m m2"
  by (auto simp: mem_grows_def)

lemma page_number_bound: "\<not> ADDR_SPACE_SIZE \<le> a \<Longrightarrow> unat (drop_bit PAGE_BITS a) < 0x40000"
proof -
  have "unat (drop_bit PAGE_BITS a) = unat a div 4096"
    using unat_drop_bit_eq [of 12 a] by (simp add: PAGE_BITS_def drop_bit_eq_div)
  then show "\<not> ADDR_SPACE_SIZE \<le> a \<Longrightarrow> unat (drop_bit PAGE_BITS a) < 0x40000"
    by (simp add: ADDR_SPACE_SIZE_def word_le_nat_alt)
qed

lemma mem_grows_upd: "mem_grows m m1 \<Longrightarrow> n < 0x40000 \<Longrightarrow> mem_grows m (m1(n \<mapsto> p))"
  unfolding mem_grows_def dom_fun_upd by auto

lemma page_get_grows: "page_get m a f = Inr (m', p) \<Longrightarrow> mem_grows m m' \<and> unat (drop_bit PAGE_BITS a) < 0x40000"
  using page_number_bound [of a]
  by (auto simp: page_get_def Let_def split: if_splits option.splits intro: mem_grows_upd)

lemma mem_write8_grows: "mem_write8 m a v = Inr m' \<Longrightarrow> mem_grows m m'"
  by (auto simp: mem_write8_def bindE_eq_Inr dest!: page_get_grows intro: mem_grows_upd)

lemma mem_write_from_grows: "mem_write_from m a v k i = Inr m' \<Longrightarrow> mem_grows m m'"
  by (induction k arbitrary: m i) (auto simp: bindE_eq_Inr dest: mem_write8_grows intro: mem_grows_trans)

lemma mem_write_grows: "mem_write m a v n = Inr m' \<Longrightarrow> mem_grows m m'"
  unfolding mem_write_def by (rule mem_write_from_grows)

lemma mem_write_buf_grows: "mem_write_buf m a bs = Inr m' \<Longrightarrow> mem_grows m m'"
  by (induction bs arbitrary: m a) (auto simp: bindE_eq_Inr dest: mem_write8_grows intro: mem_grows_trans)

lemma mem_writes_grows: "mem_writes m a ws = Inr m' \<Longrightarrow> mem_grows m m'"
  by (induction m a ws rule: mem_writes.induct)
    (auto simp: bindE_eq_Inr dest: mem_write_grows intro: mem_grows_trans)

lemma map_range_grows: "map_range m a hi = Inr m' \<Longrightarrow> mem_grows m m'"
proof (induction m a hi rule: map_range.induct)
  case (1 m a hi)
  from 1(2) show ?case
    using 1(1) by (subst (asm) map_range.simps)
      (auto split: if_splits sum.splits dest: page_get_grows intro: mem_grows_trans)
qed

lemmas mem_growth = mem_write8_grows mem_write_grows mem_write_buf_grows mem_writes_grows map_range_grows

subsection \<open>What a system call leaves alone\<close>

text \<open>
  The registers, the program counter and the floating-point state are not touched, the
  descriptors 0 to 2 are never reassigned, nothing is written outside the 32 entries of the descriptor
  table, and the program break stays below its limit.
\<close>

definition sys_frame :: "'h cpu \<Rightarrow> 'h cpu \<Rightarrow> bool" where
  "sys_frame s s' \<longleftrightarrow>
     g_reg s' = g_reg s \<and> g_freg s' = g_freg s \<and> g_pc s' = g_pc s \<and> g_fcsr s' = g_fcsr s
     \<and> (\<forall>i. i < 3 \<or> 32 \<le> i \<longrightarrow> g_fds s' i = g_fds s i)
     \<and> (g_brk s \<le> 0x10000000 \<longrightarrow> g_brk s' \<le> 0x10000000)
     \<and> mem_grows (g_pages s) (g_pages s')"

lemma fd_alloc_frame:
  assumes "fd_alloc s f = Some (s', i)"
  shows "3 \<le> i" "i < 32" "g_fds s i = - 1" "s' = s\<lparr>g_fds := (g_fds s)(i := f)\<rparr>"
proof -
  have find: "List.find P xs = Some x \<Longrightarrow> P x \<and> x \<in> set xs" for P :: "nat \<Rightarrow> bool" and xs x
    by (induction xs) (auto split: if_splits)
  from assms have *: "List.find (\<lambda>i. g_fds s i = -1) [3..<32] = Some i"
    and "s' = s\<lparr>g_fds := (g_fds s)(i := f)\<rparr>"
    unfolding fd_alloc_def by (simp_all split: option.splits del: upt_rec_numeral)
  then show "s' = s\<lparr>g_fds := (g_fds s)(i := f)\<rparr>" by simp
  from find [OF *] show "3 \<le> i" "i < 32" "g_fds s i = - 1"
    unfolding set_upt by auto
qed

lemma fd_allocD: "fd_alloc s f = Some (s', i) \<Longrightarrow> 3 \<le> i \<and> i < 32 \<and> s' = s\<lparr>g_fds := (g_fds s)(i := f)\<rparr>"
  by (simp add: fd_alloc_frame)

lemma getentropy_frame: "sys_getentropy_from h s a n = Inr s' \<Longrightarrow> sys_frame s s'"
proof (induction n arbitrary: s a)
  case 0
  then show ?case by (simp add: sys_frame_def)
next
  case (Suc n)
  then show ?case
    by (fastforce simp: bindE_eq_Inr sys_frame_def Let_def dest: mem_write8_grows intro: mem_grows_trans)
qed

lemmas frame_simps = sys_frame_def bindE_eq_Inr Let_def bool_ret_def

lemma sys_memory_frames:
  "sys_brk s a0 = Inr (v, s') \<Longrightarrow> sys_frame s s'"
  "sys_sbrk s a0 = Inr (v, s') \<Longrightarrow> sys_frame s s'"
  "sys_mmap s a0 a1 = Inr (v, s') \<Longrightarrow> sys_frame s s'"
  by (auto simp: frame_simps sys_brk_def sys_sbrk_def sys_mmap_def not_less split: if_splits dest: mem_growth)

lemma sys_file_frames:
  "sys_write h s a0 a1 a2 = Inr (v, s') \<Longrightarrow> sys_frame s s'"
  "sys_lseek h s a0 a1 a2 = Inr (v, s') \<Longrightarrow> sys_frame s s'"
  "sys_close h s a0 = Inr (v, s') \<Longrightarrow> sys_frame s s'"
  "sys_ftruncate h s a0 a1 = Inr (v, s') \<Longrightarrow> sys_frame s s'"
  "sys_rename h s a0 a1 = Inr (v, s') \<Longrightarrow> sys_frame s s'"
  "sys_path_op s a0 err f = Inr (v, s') \<Longrightarrow> sys_frame s s'"
  "sys_nanosleep h s a0 = Inr (v, s') \<Longrightarrow> sys_frame s s'"
  by (auto simp: frame_simps sys_write_def sys_lseek_def sys_close_def sys_ftruncate_def sys_rename_def
      sys_path_op_def sys_nanosleep_def fd_open_def split: if_splits)

lemma sys_read_frame: "sys_read h s a0 a1 a2 = Inr (v, s') \<Longrightarrow> sys_frame s s'"
  by (auto simp: frame_simps sys_read_def split: if_splits prod.splits option.splits sum.splits dest: mem_growth)

lemma sys_open_frame:
  assumes "sys_open h s a0 a1 = Inr (v, s')"
  shows "sys_frame s s'"
proof -
  from assms obtain path where path: "path_arg s a0 = Inr path"
    by (auto simp: sys_open_def bindE_eq_Inr)
  obtain r hs where "h_open h path (host_oflags (ucast a1)) (g_host s) = (r, hs)"
    by fastforce
  with assms path show ?thesis
    by (cases r) (auto simp: sys_open_def sys_frame_def split: option.splits dest!: fd_allocD)
qed

lemma sys_dup_frame: "sys_dup h s a0 = Inr (v, s') \<Longrightarrow> sys_frame s s'"
  by (auto simp: frame_simps sys_dup_def split: if_splits option.splits dest!: fd_allocD)

lemma do_stat_fill_grows: "do_stat_fill m b st = Inr m' \<Longrightarrow> mem_grows m m'"
  unfolding do_stat_fill_def by (rule mem_writes_grows)

lemma sys_ioctl_frame: "sys_ioctl s a1 a2 = Inr (v, s') \<Longrightarrow> sys_frame s s'"
  by (auto simp: frame_simps sys_ioctl_def split: if_splits dest: mem_growth
      dest!: mem_write_buf_grows mem_write_grows intro: mem_grows_trans simp del: mem_writes.simps replicate.simps)

lemma sys_fill_frames:
  "sys_stat h s a0 a1 = Inr (v, s') \<Longrightarrow> sys_frame s s'"
  "sys_fstat h s a0 a1 = Inr (v, s') \<Longrightarrow> sys_frame s s'"
  "sys_gettimeofday h s a0 = Inr (v, s') \<Longrightarrow> sys_frame s s'"
  "sys_clock_gettime h s a0 a1 = Inr (v, s') \<Longrightarrow> sys_frame s s'"
  "sys_clock_getres s a1 = Inr (v, s') \<Longrightarrow> sys_frame s s'"
  "sys_getcwd h s a0 a1 = Inr (v, s') \<Longrightarrow> sys_frame s s'"
  by (auto simp: frame_simps sys_stat_def sys_fstat_def sys_gettimeofday_def
      sys_clock_gettime_def sys_clock_getres_def sys_getcwd_def
      split: if_splits option.splits dest!: mem_growth do_stat_fill_grows
      simp del: mem_writes.simps)

lemmas sys_frames = sys_memory_frames sys_file_frames sys_read_frame sys_open_frame
  sys_dup_frame sys_ioctl_frame sys_fill_frames getentropy_frame

lemma do_syscall_frame:
  assumes "do_syscall h s = Inr (v, s')"
  shows "sys_frame s s'"
proof -
  have refl: "sys_frame t t" for t :: "'a cpu" by (simp add: sys_frame_def)
  have if_Inr: "(if c then A else B) = Inr r \<Longrightarrow> (A = Inr r \<Longrightarrow> Q) \<Longrightarrow> (B = Inr r \<Longrightarrow> Q) \<Longrightarrow> Q"
    for c :: bool and A B :: "'a sysresult" and r Q
    by (cases c) simp_all
  from assms show ?thesis
    unfolding do_syscall_def Let_def
    by (elim if_Inr) (erule sys_frames | force simp: bindE_eq_Inr refl dest: getentropy_frame)+
qed

subsection \<open>Reachable states\<close>

inductive reach :: "fpu \<Rightarrow> 'h host_ops \<Rightarrow> 'h cpu \<Rightarrow> 'h cpu \<Rightarrow> bool" for u h where
  here: "reach u h s s"
| there: "step u h s = Inr t \<Longrightarrow> reach u h t s' \<Longrightarrow> reach u h s s'"

lemma reach_run: "reach u h s s' \<longleftrightarrow> (\<exists>n. run u h n s = Inr s')"
proof
  show "reach u h s s' \<Longrightarrow> \<exists>n. run u h n s = Inr s'"
  proof (induction rule: reach.induct)
    case (here s)
    then show ?case by (intro exI [of _ 0]) simp
  next
    case (there s t s')
    then obtain n where "run u h n t = Inr s'" by blast
    with there(1) show ?case by (intro exI [of _ "Suc n"]) simp
  qed
next
  have "run u h n s = Inr s' \<Longrightarrow> reach u h s s'" for n
    by (induction n arbitrary: s) (auto simp: bindE_eq_Inr intro: reach.intros)
  then show "\<exists>n. run u h n s = Inr s' \<Longrightarrow> reach u h s s'" by blast
qed

text \<open>The machine invariant.\<close>

definition cpu_ok :: "'h cpu \<Rightarrow> bool" where
  "cpu_ok s \<longleftrightarrow>
     g_reg s 0 = 0 \<and> drop_bit 8 (g_fcsr s) = 0 \<and> g_brk s \<le> 0x10000000
     \<and> dom (g_pages s) \<subseteq> {..<0x40000} \<and> (\<forall>i < 3. g_fds s i = int i)"

text \<open>What an instruction keeps, up to the zero register, which is cleared on retirement.\<close>

definition insn_frame :: "'h cpu \<Rightarrow> 'h cpu \<Rightarrow> bool" where
  "insn_frame s s' \<longleftrightarrow>
     (drop_bit 8 (g_fcsr s) = 0 \<longrightarrow> drop_bit 8 (g_fcsr s') = 0) \<and> (g_brk s \<le> 0x10000000 \<longrightarrow> g_brk s' \<le> 0x10000000)
     \<and> mem_grows (g_pages s) (g_pages s') \<and> (\<forall>i. i < 3 \<or> 32 \<le> i \<longrightarrow> g_fds s' i = g_fds s i)"

lemma insn_frame_simps [simp]:
  "insn_frame s s" "insn_frame s (set_reg rd v s)" "insn_frame s (set_freg rd v s)"
  "insn_frame s (set_freg_f rd v2 s)" "insn_frame s (set_freg_d rd v s)"
  by (simp_all add: insn_frame_def set_reg_def set_freg_def set_freg_f_def set_freg_d_def)

lemma insn_frame_pages: "mem_grows (g_pages s) m \<Longrightarrow> insn_frame s (s\<lparr>g_pages := m\<rparr>)"
  by (simp add: insn_frame_def)

lemma put_frames:
  "put_or_skip insn s r = Inr (s', pc) \<Longrightarrow> insn_frame s s'"
  "put_or_illegal insn s r = Inr (s', pc) \<Longrightarrow> insn_frame s s'"
  by (auto simp: put_or_skip_def put_or_illegal_def split: option.splits)

lemma exec_int_frames:
  "exec_lui insn s = Inr (s', pc) \<Longrightarrow> insn_frame s s'"
  "exec_auipc insn s = Inr (s', pc) \<Longrightarrow> insn_frame s s'"
  "exec_jal insn s = Inr (s', pc) \<Longrightarrow> insn_frame s s'"
  "exec_jalr insn s = Inr (s', pc) \<Longrightarrow> insn_frame s s'"
  "exec_branch insn s = Inr (s', pc) \<Longrightarrow> insn_frame s s'"
  "exec_op_imm insn s = Inr (s', pc) \<Longrightarrow> insn_frame s s'"
  "exec_op insn s = Inr (s', pc) \<Longrightarrow> insn_frame s s'"
  "exec_op_imm_32 insn s = Inr (s', pc) \<Longrightarrow> insn_frame s s'"
  "exec_op_32 insn s = Inr (s', pc) \<Longrightarrow> insn_frame s s'"
  by (auto simp: exec_lui_def exec_auipc_def exec_jal_def exec_jalr_def exec_branch_def exec_op_imm_def
      exec_op_def exec_op_imm_32_def exec_op_32_def Let_def split: if_splits dest: put_frames)

lemma exec_mem_frames:
  "exec_load insn s = Inr (s', pc) \<Longrightarrow> insn_frame s s'"
  "exec_store insn s = Inr (s', pc) \<Longrightarrow> insn_frame s s'"
  "exec_fp_load insn s = Inr (s', pc) \<Longrightarrow> insn_frame s s'"
  "exec_fp_store insn s = Inr (s', pc) \<Longrightarrow> insn_frame s s'"
  by (auto simp: exec_load_def exec_store_def exec_fp_load_def exec_fp_store_def Let_def bindE_eq_Inr
      split: if_splits dest!: mem_growth intro: insn_frame_pages)

lemma exec_fcvt_frame: "exec_fcvt u insn s = Inr (s', pc) \<Longrightarrow> insn_frame s s'"
  by (auto simp: exec_fcvt_def Let_def split: if_splits)

lemma exec_farith_frame: "exec_farith u insn s = Inr (s', pc) \<Longrightarrow> insn_frame s s'"
  by (auto simp: exec_farith_def Let_def split: if_splits dest: exec_fcvt_frame)

lemma exec_fp_frame: "exec_fp_op u insn s = Inr (s', pc) \<Longrightarrow> insn_frame s s'"
  by (auto simp: exec_fp_op_def exec_fsgnj_def exec_fminmax_def exec_fcmp_def Let_def
      split: if_splits dest: exec_farith_frame)

lemma exec_csr_frame: "exec_csr insn s = Inr (s', pc) \<Longrightarrow> insn_frame s s'"
  by (auto simp: exec_csr_def Let_def set_reg_def insn_frame_def split: if_splits)

lemma exec_system_frame: "exec_system h insn s = Inr (s', pc) \<Longrightarrow> insn_frame s s'"
  by (auto simp: exec_system_def bindE_eq_Inr sys_frame_def insn_frame_def set_reg_def
      split: if_splits dest!: do_syscall_frame exec_csr_frame)

lemmas exec_frames = exec_int_frames exec_mem_frames exec_fp_frame exec_system_frame

lemma exec_insn_frame:
  assumes "exec_insn u h insn s = Inr (s', pc)"
  shows "insn_frame s s'"
proof -
  have if_Inr: "(if c then A else B) = Inr r \<Longrightarrow> (A = Inr r \<Longrightarrow> Q) \<Longrightarrow> (B = Inr r \<Longrightarrow> Q) \<Longrightarrow> Q"
    for c :: bool and A B :: "'a exec_result" and r Q
    by (cases c) simp_all
  from assms show ?thesis
    unfolding exec_insn_def Let_def by (elim if_Inr) (erule exec_frames | force)+
qed

text \<open>What every step keeps, whether or not the state was sound.\<close>

definition step_frame :: "'h cpu \<Rightarrow> 'h cpu \<Rightarrow> bool" where
  "step_frame s s' \<longleftrightarrow> dom (g_pages s) \<subseteq> dom (g_pages s') \<and> (\<forall>i. i < 3 \<or> 32 \<le> i \<longrightarrow> g_fds s' i = g_fds s i)"

lemma step_frame_trans: "step_frame s t \<Longrightarrow> step_frame t s' \<Longrightarrow> step_frame s s'"
  unfolding step_frame_def by (simp add: subset_trans [of "dom (g_pages s)" "dom (g_pages t)"])

lemma step_frame_step: "step u h s = Inr s' \<Longrightarrow> step_frame s s'"
proof -
  assume "step u h s = Inr s'"
  then obtain insn t pc where "exec_insn u h insn s = Inr (t, pc)" "s' = retire (t, pc)" by (auto simp: step_def bindE_eq_Inr)
  then show ?thesis using exec_insn_frame [of u h insn s t pc] by (simp add: step_frame_def retire_def insn_frame_def mem_grows_def)
qed

lemma step_cpu_ok: "cpu_ok s \<Longrightarrow> step u h s = Inr s' \<Longrightarrow> cpu_ok s'"
  by (fastforce simp: step_def bindE_eq_Inr cpu_ok_def retire_def insn_frame_def mem_grows_def
      dest!: exec_insn_frame)

text \<open>
  C13. Machine invariant: in every state the interpreter reaches from a sound one, x0 reads as
  zero, the floating-point status has no bits beyond its eight, the program break stays at or
  below its 256 MiB limit, every mapped page lies in the 1 GiB address space, and the
  descriptors 0, 1 and 2 still name the host's standard streams, whatever the program and the
  host do. Every page that was mapped is still mapped, and of the descriptor table only the entries
  3 to 31 have been written.
\<close>

theorem reach_cpu_ok:
  assumes "cpu_ok s" and "reach u h s s'"
  shows "cpu_ok s' \<and> dom (g_pages s) \<subseteq> dom (g_pages s') \<and> (\<forall>i. i < 3 \<or> 32 \<le> i \<longrightarrow> g_fds s' i = g_fds s i)"
proof -
  have "cpu_ok s' \<and> step_frame s s'"
    using assms(2,1)
  proof induction
    case (there s t s')
    then show ?case using step_cpu_ok step_frame_trans [OF step_frame_step] by blast
  qed (simp add: step_frame_def)
  then show ?thesis by (simp add: step_frame_def)
qed

text \<open>
  A system call returns to its caller intact: it changes no register and no program counter
  by itself (the result in a0 is written by the \<^verbatim>\<open>ecall\<close> case), no floating-point state, and
  none of the standard descriptors; mapped memory stays mapped, and the break stays bounded.
\<close>

theorem do_syscall_preserves:
  assumes "do_syscall h s = Inr (v, s')"
  shows "g_reg s' = g_reg s \<and> g_freg s' = g_freg s \<and> g_pc s' = g_pc s \<and> g_fcsr s' = g_fcsr s
    \<and> (\<forall>i < 3. g_fds s' i = g_fds s i) \<and> dom (g_pages s) \<subseteq> dom (g_pages s')
    \<and> (g_brk s \<le> 0x10000000 \<longrightarrow> g_brk s' \<le> 0x10000000)"
  using do_syscall_frame [OF assms] by (simp add: sys_frame_def mem_grows_def)

text \<open>A page with one instruction, \<^verbatim>\<open>nop\<close>, and a machine that asks for its break to be raised.\<close>

definition nop_cpu :: "unit cpu" where
  "nop_cpu = boot_cpu [16 \<mapsto> (\<lambda>_. 0)(0 := 0x13)] 0x10000"

definition brk_cpu :: "unit cpu" where
  "brk_cpu = (boot_cpu Map.empty 0)\<lparr>g_reg := (\<lambda>_. 0)(17 := 6, 10 := 0x1000800)\<rparr>"

theorem do_syscall_preserves_witness:
  "\<forall>h. \<exists>s'. do_syscall h brk_cpu = Inr (0x1000800, s') \<and> g_reg s' = g_reg brk_cpu \<and> g_pc s' = 0"
proof
  fix h
  have "do_syscall h brk_cpu = Inr (0x1000800,
      brk_cpu\<lparr>g_pages := [0x1000 \<mapsto> (\<lambda>_. 0)], g_brk := 0x1000800\<rparr>)"
    by (simp add: do_syscall_def brk_cpu_def boot_cpu_def sys_brk_def map_range.simps [of _ "0x1000000"]
        map_range.simps [of _ "0x1001000"] page_get_def ADDR_SPACE_SIZE_def PAGE_BITS_def Let_def)
  with do_syscall_preserves [OF this]
  show "\<exists>s'. do_syscall h brk_cpu = Inr (0x1000800, s') \<and> g_reg s' = g_reg brk_cpu \<and> g_pc s' = 0"
    by (simp add: brk_cpu_def boot_cpu_def)
qed

theorem reach_cpu_ok_witness:
  "\<forall>u h. \<exists>s'. reach u h nop_cpu s' \<and> g_pc s' = 0x10004 \<and> cpu_ok s' \<and> 16 \<in> dom (g_pages s')"
proof (intro allI)
  fix u h
  have "fetch32 (g_pages nop_cpu) (g_pc nop_cpu) = Inr 0x13"
    by (simp add: nop_cpu_def fetch32_def mem_read8_def page_get_def ADDR_SPACE_SIZE_def PAGE_BITS_def
        PAGE_MASK_def Let_def)
  then obtain s' where s': "step u h nop_cpu = Inr s'" "g_pc s' = 0x10004"
    by (simp add: step_def exec_insn_def f_opcode_def exec_op_imm_def f_funct3_def Let_def retire_def
        set_reg_def nop_cpu_def)
  moreover from s'(1) have "reach u h nop_cpu s'" by (auto intro: reach.intros)
  moreover have "cpu_ok nop_cpu"
    by (auto simp: nop_cpu_def cpu_ok_def boot_cpu_def split: if_splits)
  moreover have "16 \<in> dom (g_pages nop_cpu)" by (simp add: nop_cpu_def boot_cpu_def)
  ultimately show "\<exists>s'. reach u h nop_cpu s' \<and> g_pc s' = 0x10004 \<and> cpu_ok s' \<and> 16 \<in> dom (g_pages s')"
    using reach_cpu_ok [of nop_cpu u h s'] by blast
qed

subsection \<open>Growing the heap\<close>

lemma map_range_maps:
  "map_range m a hi = Inr m' \<Longrightarrow> unat a mod 4096 = 0 \<Longrightarrow> unat a \<le> k * 4096 \<Longrightarrow> k * 4096 < unat hi
     \<Longrightarrow> k \<in> dom m'"
proof (induction m a hi rule: map_range.induct)
  case (1 m a hi)
  from 1(4,5) have less: "a < hi" by (simp add: word_less_nat_alt)
  have "map_range m a hi = bindE (page_get m a False) (\<lambda>(m', p). map_range m' (a + 0x1000) hi)"
    using less by (subst map_range.simps) (simp add: bindE_def split: sum.splits)
  with 1(2) obtain m1 p where g: "page_get m a False = Inr (m1, p)" and r: "map_range m1 (a + 0x1000) hi = Inr m'"
    by (auto simp: bindE_eq_Inr)
  have in_range: "unat a < 0x40000000" using page_get_in_range [OF g] .
  have next_a: "unat (a + 0x1000) = unat a + 4096"
    using in_range by (simp add: unat_word_ariths)
  show ?case
  proof (cases "unat a = k * 4096")
    case True
    have "unat (drop_bit PAGE_BITS a) = k"
      using unat_drop_bit_eq [of 12 a] True by (simp add: PAGE_BITS_def drop_bit_eq_div)
    then have "k \<in> dom m1" using g by (auto simp: page_get_def Let_def split: if_splits option.splits)
    with map_range_grows [OF r] show ?thesis by (auto simp: mem_grows_def)
  next
    case False
    obtain q where q: "unat a = q * 4096" using 1(3) by (metis mod_0_imp_dvd dvd_def mult.commute)
    with False 1(4) have "q < k" by simp
    then have "unat (a + 0x1000) \<le> k * 4096" unfolding next_a q by simp
    moreover have "unat (a + 0x1000) mod 4096 = 0" unfolding next_a q by simp
    ultimately show ?thesis using 1(1) [OF less g refl r] 1(5) by simp
  qed
qed

text \<open>
  Heap growth from a page boundary: after a successful \<^verbatim>\<open>sbrk\<close> with a non-negative increment
  from a page-aligned break, the old break is returned and every byte between the old and the
  new break is readable.
\<close>

theorem sbrk_maps_heap:
  assumes "sys_sbrk s inc = Inr (v, s')" and "0 \<le> sint inc" and "v \<noteq> - 12"
    and "unat (g_brk s) mod 4096 = 0" and "g_brk s \<le> x" and "x < g_brk s'"
  shows "v = g_brk s \<and> (\<exists>b. mem_read8 (g_pages s') x = Inr b)"
proof -
  from assms have v: "v = g_brk s" and r: "map_range (g_pages s) (g_brk s) (g_brk s') = Inr (g_pages s')"
    and le: "g_brk s' \<le> 0x10000000"
    by (auto simp: sys_sbrk_def Let_def bindE_eq_Inr not_less split: if_splits)
  have "unat (g_brk s) div 4096 * 4096 \<le> unat x div 4096 * 4096"
    using assms(5) by (simp add: div_le_mono word_le_nat_alt)
  then have lo: "unat (g_brk s) \<le> unat x div 4096 * 4096"
    using assms(4) by (simp add: mult.commute minus_mod_eq_mult_div [symmetric])
  have hi: "unat x div 4096 * 4096 < unat (g_brk s')"
    using assms(6) by (simp add: word_less_nat_alt)
  have "unat x div 4096 \<in> dom (g_pages s')"
    by (rule map_range_maps [OF r assms(4) lo hi])
  moreover have "unat (drop_bit PAGE_BITS x) = unat x div 4096"
    using unat_drop_bit_eq [of 12 x] by (simp add: PAGE_BITS_def drop_bit_eq_div)
  moreover have "\<not> ADDR_SPACE_SIZE \<le> x"
    using le assms(6) by (simp add: ADDR_SPACE_SIZE_def word_le_nat_alt word_less_nat_alt)
  ultimately show ?thesis
    using v by (auto simp: mem_read8_def page_get_def Let_def dom_def)
qed

theorem sbrk_maps_heap_witness:
  "\<exists>s' b. sys_sbrk (boot_cpu Map.empty 0) 0x800 = Inr (0x1000000, s') \<and> mem_read8 (g_pages s') 0x10007FF = Inr b"
proof -
  have "sys_sbrk (boot_cpu Map.empty 0) 0x800 = Inr (0x1000000,
      (boot_cpu Map.empty 0)\<lparr>g_pages := [0x1000 \<mapsto> (\<lambda>_. 0)], g_brk := 0x1000800\<rparr>)"
    by (simp add: sys_sbrk_def boot_cpu_def map_range.simps [of _ "0x1000000"]
        map_range.simps [of _ "0x1001000"] page_get_def ADDR_SPACE_SIZE_def PAGE_BITS_def Let_def)
  with sbrk_maps_heap [OF this, of "0x10007FF"] show ?thesis
    by (simp add: boot_cpu_def)
qed

text \<open>
  Heap growth from an unaligned break leaves a hole: the mapping loop steps by whole pages
  from the old break itself, so the last page of the new heap stays unmapped and reading the
  memory that \<^verbatim>\<open>sbrk\<close> just granted stops the emulator.
\<close>

theorem sbrk_unaligned_hole:
  "\<exists>s'. sys_sbrk ((boot_cpu Map.empty 0)\<lparr>g_brk := 0x1000F00\<rparr>) 0x200 = Inr (0x1000F00, s')
     \<and> g_brk s' = 0x1001100 \<and> mem_read8 (g_pages s') 0x1001000 = Inl (UnmappedRead 0x1001000)"
  by (simp add: sys_sbrk_def boot_cpu_def map_range.simps [of _ "0x1000F00"] map_range.simps [of _ "0x1001F00"]
      page_get_def mem_read8_def ADDR_SPACE_SIZE_def PAGE_BITS_def Let_def)

end
