(* ===== verification/Tokens.thy ===== *)
theory Tokens
  imports Buffers
begin

text \<open>
  The token kinds of \<^verbatim>\<open>include/front/lexer.h\<close>, shared by the lexer, the constant evaluator, the
  preprocessor's expressions and the branch helper of the back end. The keywords are a type of
  their own, embedded by the constructor \<open>T_KW\<close>, which keeps both enumerations small.
\<close>

datatype (plugins only: code) keyword =
  T_KW_AUTO | T_KW_BREAK | T_KW_CASE | T_KW_CHAR | T_KW_CONST | T_KW_CONTINUE | T_KW_DEFAULT
  | T_KW_DO | T_KW_DOUBLE | T_KW_ELSE | T_KW_ENUM | T_KW_EXTERN | T_KW_FLOAT | T_KW_FOR | T_KW_GOTO
  | T_KW_IF | T_KW_INLINE | T_KW_INT | T_KW_LONG | T_KW_REGISTER | T_KW_RESTRICT | T_KW_RETURN
  | T_KW_SHORT | T_KW_SIGNED | T_KW_SIZEOF | T_KW_STATIC | T_KW_STRUCT | T_KW_SWITCH | T_KW_TYPEDEF
  | T_KW_UNION | T_KW_UNSIGNED | T_KW_VOID | T_KW_VOLATILE | T_KW_WHILE | T_KW_BOOL | T_KW_COMPLEX
  | T_KW_IMAGINARY | T_KW_CLASS | T_KW_NAMESPACE | T_KW_PUBLIC | T_KW_PRIVATE | T_KW_PROTECTED
  | T_KW_TEMPLATE | T_KW_TYPENAME | T_KW_NEW | T_KW_DELETE | T_KW_THIS | T_KW_OPERATOR
  | T_KW_FRIEND | T_KW_VIRTUAL | T_KW_OVERRIDE | T_KW_USING | T_KW_STATIC_CAST
  | T_KW_REINTERPRET_CAST | T_KW_CONST_CAST | T_KW_TRY | T_KW_CATCH | T_KW_THROW | T_KW_ASM

datatype (plugins only: code) token_kind =
  T_EOF | T_LPAREN | T_RPAREN | T_LBRACE | T_RBRACE | T_LBRACKET | T_RBRACKET | T_SEMI | T_COMMA
  | T_DOT | T_ARROW | T_COLON | T_QUESTION | T_ELLIPSIS | T_ASSIGN | T_PLUS_ASSIGN | T_MINUS_ASSIGN
  | T_STAR_ASSIGN | T_SLASH_ASSIGN | T_PERCENT_ASSIGN | T_AND_ASSIGN | T_OR_ASSIGN | T_XOR_ASSIGN
  | T_SHL_ASSIGN | T_SHR_ASSIGN | T_PLUS | T_MINUS | T_STAR | T_SLASH | T_PERCENT | T_INC | T_DEC
  | T_SHL | T_SHR | T_EQ | T_NE | T_LT | T_GT | T_LE | T_GE | T_AND | T_OR | T_NOT | T_AMP | T_PIPE
  | T_CARET | T_TILDE | T_INT | T_LONG | T_UINT | T_ULONG | T_FLOAT | T_DOUBLE | T_CHAR_LIT
  | T_STRING | T_IDENT | T_HASH | T_HASHHASH | T_BUILTIN | T_KW keyword

end
