(* ===== verification/Lexer.thy ===== *)
theory Lexer
  imports Tokens
begin

text \<open>
  The lexer of \<^verbatim>\<open>src/front/lexer.c\<close>: characters, white space and comments, identifiers and
  keywords, numbers, strings and characters with their escapes, punctuation, and the one-token
  lookahead of \<^verbatim>\<open>lex_next\<close> and \<^verbatim>\<open>lex_peek\<close>.

  Source text is a list of bytes and its length is \<^verbatim>\<open>src_len\<close>. Characters are the \<^verbatim>\<open>int\<close> values
  of the code, with -1 past the end. The value of a floating literal is represented by the
  text that the code hands to \<^verbatim>\<open>strtod\<close>. Line and column numbers are \<^typ>\<open>nat\<close>: a source file
  has fewer than two thousand million lines.
\<close>

abbreviation (input) ch :: "char \<Rightarrow> int" where "ch c \<equiv> of_char c"

subsection \<open>State\<close>

record token =
  t_kind :: token_kind
  t_line :: nat
  t_col :: nat
  src_off :: nat
  t_text :: "u8 list"
  t_ival :: u64
  t_fval :: "u8 list"
  t_str :: "u8 list"

record lexer =
  lx_src :: "u8 list"
  lx_pos :: nat
  lx_line :: nat
  lx_col :: nat
  lx_diag :: diag
  lx_cur :: token
  lx_next :: token
  has_next :: bool

subsection \<open>Characters\<close>

definition peek_ch :: "lexer \<Rightarrow> nat \<Rightarrow> int" where
  "peek_ch lx ahead =
     (let p = lx_pos lx + ahead in if length (lx_src lx) \<le> p then - 1 else uint (lx_src lx ! p))"

definition cur_ch :: "lexer \<Rightarrow> int" where
  "cur_ch lx = (if length (lx_src lx) \<le> lx_pos lx then - 1 else uint (lx_src lx ! lx_pos lx))"

definition advance :: "lexer \<Rightarrow> lexer" where
  "advance lx =
     (let c = cur_ch lx
      in if c < 0 then lx
         else if c = 10 then lx\<lparr>lx_pos := lx_pos lx + 1, lx_line := lx_line lx + 1, lx_col := 1\<rparr>
         else lx\<lparr>lx_pos := lx_pos lx + 1, lx_col := lx_col lx + 1\<rparr>)"

text \<open>The character classes of \<^verbatim>\<open>ctype.h\<close> in the C locale; all are false for -1.\<close>

definition is_digit :: "int \<Rightarrow> bool" where "is_digit c \<longleftrightarrow> 48 \<le> c \<and> c \<le> 57"
definition is_xdigit :: "int \<Rightarrow> bool" where
  "is_xdigit c \<longleftrightarrow> is_digit c \<or> 97 \<le> c \<and> c \<le> 102 \<or> 65 \<le> c \<and> c \<le> 70"
definition is_alpha :: "int \<Rightarrow> bool" where
  "is_alpha c \<longleftrightarrow> 97 \<le> c \<and> c \<le> 122 \<or> 65 \<le> c \<and> c \<le> 90"
definition is_alnum :: "int \<Rightarrow> bool" where "is_alnum c \<longleftrightarrow> is_alpha c \<or> is_digit c"

text \<open>The unread text, and how much of it is left.\<close>

definition rest :: "lexer \<Rightarrow> u8 list" where
  "rest lx = drop (lx_pos lx) (lx_src lx)"

lemma cur_ch_rest: "cur_ch lx = (case rest lx of [] \<Rightarrow> - 1 | b # bs \<Rightarrow> uint b)"
  by (auto simp: cur_ch_def rest_def Cons_nth_drop_Suc [symmetric] split: list.splits)

lemma cur_ch_nonneg: "0 \<le> cur_ch lx \<longleftrightarrow> rest lx \<noteq> []"
  by (simp add: cur_ch_rest split: list.splits)

lemma rest_advance [simp]: "rest (advance lx) = tl (rest lx)"
  by (auto simp: advance_def rest_def cur_ch_def Let_def drop_Suc [symmetric] tl_drop)

lemma advance_simps [simp]:
  "lx_src (advance lx) = lx_src lx" "lx_diag (advance lx) = lx_diag lx" "lx_cur (advance lx) = lx_cur lx"
  "lx_next (advance lx) = lx_next lx" "has_next (advance lx) = has_next lx"
  by (simp_all add: advance_def Let_def)

lemma advance_shorter: "0 \<le> cur_ch lx \<Longrightarrow> length (rest (advance lx)) < length (rest lx)"
  by (simp add: cur_ch_nonneg)

text \<open>The loops \<^verbatim>\<open>while (p(cur_ch(lx))) advance(lx)\<close>.\<close>

function advance_while :: "(int \<Rightarrow> bool) \<Rightarrow> lexer \<Rightarrow> lexer" where
  "advance_while p lx =
     (if 0 \<le> cur_ch lx \<and> p (cur_ch lx) then advance_while p (advance lx) else lx)"
  by pat_completeness auto
termination
  by (relation "measure (\<lambda>(p, lx). length (rest lx))") (auto dest: advance_shorter)

declare advance_while.simps [simp del]

subsection \<open>White space and comments\<close>

function skip_block :: "lexer \<Rightarrow> lexer" where
  "skip_block lx =
     (if 0 \<le> cur_ch lx
      then (if cur_ch lx = ch CHR ''*'' \<and> peek_ch lx 1 = ch CHR ''/'' then advance (advance lx)
            else skip_block (advance lx))
      else lx)"
  by pat_completeness auto
termination
  by (relation "measure (\<lambda>lx. length (rest lx))") (auto dest: advance_shorter)

declare skip_block.simps [simp del]

lemma advance_while_rest: "rest (advance_while p lx) = dropWhile (\<lambda>b. p (uint b)) (rest lx)"
proof (induction p lx rule: advance_while.induct)
  case (1 p lx)
  then show ?case
    by (cases "rest lx") (auto simp: advance_while.simps [of p lx] cur_ch_rest)
qed

lemma skip_block_rest: "length (rest (skip_block lx)) \<le> length (rest lx)"
proof (induction lx rule: skip_block.induct)
  case (1 lx)
  then show ?case
    by (subst skip_block.simps) (fastforce intro: le_trans)
qed

definition is_space :: "int \<Rightarrow> bool" where
  "is_space c \<longleftrightarrow> c = 32 \<or> c = 9 \<or> c = 13 \<or> c = 10 \<or> c = 12 \<or> c = 11"

function skip_ws :: "lexer \<Rightarrow> lexer" where
  "skip_ws lx =
     (let c = cur_ch lx
      in if c < 0 then lx
         else if is_space c then skip_ws (advance lx)
         else if c = ch CHR ''/'' \<and> peek_ch lx 1 = ch CHR ''/''
         then skip_ws (advance_while (\<lambda>c. c \<noteq> 10) lx)
         else if c = ch CHR ''/'' \<and> peek_ch lx 1 = ch CHR ''*''
         then skip_ws (skip_block (advance (advance lx)))
         else lx)"
  by pat_completeness auto
termination
proof (relation "measure (\<lambda>lx. length (rest lx))", goal_cases)
  case (3 lx c)
  then obtain b bs where "rest lx = b # bs" "uint b = 47"
    by (auto simp: cur_ch_rest split: list.splits)
  then show ?case by (simp add: advance_while_rest length_dropWhile_le le_imp_less_Suc)
next
  case (4 lx c)
  then have "rest lx \<noteq> []" by (auto simp: cur_ch_rest split: list.splits)
  then have "length (tl (tl (rest lx))) < length (rest lx)" by (cases "rest lx") auto
  with skip_block_rest [of "advance (advance lx)"] show ?case by simp
qed (auto simp: not_less cur_ch_nonneg)

declare skip_ws.simps [simp del]

subsection \<open>Keywords and identifiers\<close>

definition kws :: "(string \<times> token_kind) list" where
  "kws =
    [(''auto'', T_KW T_KW_AUTO), (''break'', T_KW T_KW_BREAK), (''case'', T_KW T_KW_CASE),
     (''char'', T_KW T_KW_CHAR), (''class'', T_KW T_KW_CLASS), (''const'', T_KW T_KW_CONST),
     (''const_cast'', T_KW T_KW_CONST_CAST), (''continue'', T_KW T_KW_CONTINUE),
     (''default'', T_KW T_KW_DEFAULT), (''delete'', T_KW T_KW_DELETE), (''do'', T_KW T_KW_DO),
     (''double'', T_KW T_KW_DOUBLE), (''else'', T_KW T_KW_ELSE), (''enum'', T_KW T_KW_ENUM),
     (''extern'', T_KW T_KW_EXTERN), (''float'', T_KW T_KW_FLOAT), (''for'', T_KW T_KW_FOR),
     (''friend'', T_KW T_KW_FRIEND), (''goto'', T_KW T_KW_GOTO), (''if'', T_KW T_KW_IF),
     (''inline'', T_KW T_KW_INLINE), (''int'', T_KW T_KW_INT), (''long'', T_KW T_KW_LONG),
     (''namespace'', T_KW T_KW_NAMESPACE), (''new'', T_KW T_KW_NEW),
     (''operator'', T_KW T_KW_OPERATOR), (''override'', T_KW T_KW_OVERRIDE),
     (''private'', T_KW T_KW_PRIVATE), (''protected'', T_KW T_KW_PROTECTED),
     (''public'', T_KW T_KW_PUBLIC), (''register'', T_KW T_KW_REGISTER),
     (''reinterpret_cast'', T_KW T_KW_REINTERPRET_CAST), (''restrict'', T_KW T_KW_RESTRICT),
     (''return'', T_KW T_KW_RETURN), (''short'', T_KW T_KW_SHORT), (''signed'', T_KW T_KW_SIGNED),
     (''sizeof'', T_KW T_KW_SIZEOF), (''static'', T_KW T_KW_STATIC),
     (''static_cast'', T_KW T_KW_STATIC_CAST), (''struct'', T_KW T_KW_STRUCT),
     (''switch'', T_KW T_KW_SWITCH), (''template'', T_KW T_KW_TEMPLATE),
     (''this'', T_KW T_KW_THIS), (''throw'', T_KW T_KW_THROW), (''try'', T_KW T_KW_TRY),
     (''catch'', T_KW T_KW_CATCH), (''typedef'', T_KW T_KW_TYPEDEF),
     (''typename'', T_KW T_KW_TYPENAME), (''union'', T_KW T_KW_UNION),
     (''unsigned'', T_KW T_KW_UNSIGNED), (''using'', T_KW T_KW_USING),
     (''virtual'', T_KW T_KW_VIRTUAL), (''void'', T_KW T_KW_VOID),
     (''volatile'', T_KW T_KW_VOLATILE), (''while'', T_KW T_KW_WHILE), (''_Bool'', T_KW T_KW_BOOL),
     (''__attribute__'', T_IDENT), (''__attribute'', T_IDENT), (''__extension__'', T_IDENT),
     (''__inline'', T_KW T_KW_INLINE), (''__inline__'', T_KW T_KW_INLINE),
     (''__restrict'', T_KW T_KW_RESTRICT), (''__restrict__'', T_KW T_KW_RESTRICT),
     (''__volatile'', T_KW T_KW_VOLATILE), (''__volatile__'', T_KW T_KW_VOLATILE),
     (''__const'', T_KW T_KW_CONST), (''__const__'', T_KW T_KW_CONST),
     (''__signed'', T_KW T_KW_SIGNED), (''__signed__'', T_KW T_KW_SIGNED),
     (''asm'', T_KW T_KW_ASM), (''__asm__'', T_KW T_KW_ASM)]"

definition lookup_kw :: "u8 list \<Rightarrow> token_kind" where
  "lookup_kw s =
     (case List.find (\<lambda>(k, _). length k = length s \<and> bytes_of k = s) kws of
        Some (_, kind) \<Rightarrow> kind
      | None \<Rightarrow> T_IDENT)"

definition CC_MAX_TOKEN_LEN :: nat where "CC_MAX_TOKEN_LEN = 256"

definition set_text :: "u8 list \<Rightarrow> token \<Rightarrow> token" where
  "set_text s t = t\<lparr>t_text := take (CC_MAX_TOKEN_LEN - 1) s\<rparr>"

text \<open>The text between an earlier position and the current one.\<close>

definition text_from :: "nat \<Rightarrow> lexer \<Rightarrow> u8 list" where
  "text_from off lx = take (lx_pos lx - off) (drop off (lx_src lx))"

definition lex_ident :: "lexer \<Rightarrow> token \<Rightarrow> token \<times> lexer" where
  "lex_ident lx t =
     (let start_off = lx_pos lx;
          lx = advance_while (\<lambda>c. is_alnum c \<or> c = ch CHR ''_'') (advance lx);
          s = text_from start_off lx
      in ((set_text s t)\<lparr>t_kind := lookup_kw s\<rparr>, lx))"

subsection \<open>Escapes, strings and character literals\<close>

definition hexval :: "int \<Rightarrow> int" where
  "hexval c =
     (if 48 \<le> c \<and> c \<le> 57 then c - 48
      else if 97 \<le> c \<and> c \<le> 102 then c - 97 + 10
      else if 65 \<le> c \<and> c \<le> 70 then c - 65 + 10
      else - 1)"

lemma hexval_nonneg: "0 \<le> hexval c \<Longrightarrow> 0 \<le> c"
  by (auto simp: hexval_def split: if_splits)

text \<open>The digits of \<^verbatim>\<open>\x\<close>; only the low byte of the accumulated value is used.\<close>

function hex_escape :: "lexer \<Rightarrow> u32 \<Rightarrow> u32 \<times> lexer" where
  "hex_escape lx v =
     (let h = hexval (cur_ch lx)
      in if 0 \<le> h then hex_escape (advance lx) (push_bit 4 v OR word_of_int h) else (v, lx))"
  by pat_completeness auto
termination
  by (relation "measure (\<lambda>(lx, v). length (rest lx))")
    (auto dest!: hexval_nonneg simp: cur_ch_nonneg)

declare hex_escape.simps [simp del]

primrec oct_escape :: "nat \<Rightarrow> lexer \<Rightarrow> u32 \<Rightarrow> u32 \<times> lexer" where
  "oct_escape 0 lx v = (v, lx)"
| "oct_escape (Suc n) lx v =
     (let d = cur_ch lx
      in if 48 \<le> d \<and> d \<le> 55 then oct_escape n (advance lx) (push_bit 3 v OR word_of_int (d - 48))
         else (v, lx))"

definition cc_warn :: "lexer \<Rightarrow> lexer" where
  "cc_warn lx = lx\<lparr>lx_diag := fst (cc_diag CC_LVL_WARN (lx_diag lx))\<rparr>"

definition lex_error :: "lexer \<Rightarrow> lexer" where
  "lex_error lx = lx\<lparr>lx_diag := cc_error_at (lx_diag lx)\<rparr>"

definition read_escape :: "lexer \<Rightarrow> int \<times> lexer" where
  "read_escape lx =
     (let c = cur_ch lx
      in if c < 0 then (- 1, lx)
         else let lx = advance lx
              in if c = ch CHR ''n'' then (10, lx)
                 else if c = ch CHR ''t'' then (9, lx)
                 else if c = ch CHR ''r'' then (13, lx)
                 else if c = ch CHR ''0'' then (0, lx)
                 else if c = 92 then (92, lx)
                 else if c = 39 then (39, lx)
                 else if c = 34 then (34, lx)
                 else if c = ch CHR ''a'' then (7, lx)
                 else if c = ch CHR ''b'' then (8, lx)
                 else if c = ch CHR ''f'' then (12, lx)
                 else if c = ch CHR ''v'' then (11, lx)
                 else if c = ch CHR ''?'' then (63, lx)
                 else if c = ch CHR ''x''
                 then (case hex_escape lx 0 of (v, lx) \<Rightarrow> (uint (v AND 0xFF), lx))
                 else if 48 \<le> c \<and> c \<le> 55
                 then (case oct_escape 2 lx (word_of_int (c - 48)) of (v, lx) \<Rightarrow> (uint (v AND 0xFF), lx))
                 else (c, cc_warn lx))"

lemma rest_diag [simp]: "rest (cc_warn lx) = rest lx" "rest (lex_error lx) = rest lx"
  by (simp_all add: rest_def cc_warn_def lex_error_def)

lemma le_advance: "n \<le> length (rest (advance lx)) \<Longrightarrow> n \<le> length (rest lx)"
  by simp

lemma hex_escape_rest: "length (rest (snd (hex_escape lx v))) \<le> length (rest lx)"
proof (induction lx v rule: hex_escape.induct)
  case (1 lx v)
  then show ?case
    by (subst hex_escape.simps) (auto simp: Let_def intro: le_trans)
qed

lemma oct_escape_rest: "length (rest (snd (oct_escape n lx v))) \<le> length (rest lx)"
proof (induction n arbitrary: lx v)
  case (Suc n)
  then show ?case
    by (auto simp: Let_def simp del: rest_advance intro: le_advance)
qed simp

lemma read_escape_rest: "length (rest (snd (read_escape lx))) \<le> length (rest lx)"
  using hex_escape_rest [of "advance lx" 0]
    oct_escape_rest [of 2 "advance lx" "word_of_int (cur_ch lx - 48)"]
  by (auto simp: read_escape_def Let_def split: prod.splits)

text \<open>The loop of \<^verbatim>\<open>lex_string\<close>, with the bytes collected so far; the buffer has 64 KiB.\<close>

definition buf_add :: "u8 list \<Rightarrow> int \<Rightarrow> u8 list" where
  "buf_add buf e = (if length buf < 65535 then buf @ [word_of_int e] else buf)"

function lex_string_loop :: "lexer \<Rightarrow> u8 list \<Rightarrow> u8 list \<times> lexer" where
  "lex_string_loop lx buf =
     (let c = cur_ch lx
      in if c < 0 then (buf, lex_error lx)
         else if c = 34 then (buf, advance lx)
         else if c = 92
         then (let r = read_escape (advance lx)
               in lex_string_loop (snd r) (if 0 \<le> fst r then buf_add buf (fst r) else buf))
         else if c = 10 then (buf, lex_error lx)
         else lex_string_loop (advance lx) (buf_add buf c))"
  by pat_completeness auto
termination
proof (relation "measure (\<lambda>(lx, buf). length (rest lx))", goal_cases)
  case (2 lx buf c r)
  then have "rest lx \<noteq> []"
    by (metis cur_ch_nonneg not_less)
  then have "length (tl (rest lx)) < length (rest lx)" by simp
  with 2 read_escape_rest [of "advance lx"] show ?case by simp
next
  case (3 lx buf c)
  then have "rest lx \<noteq> []"
    by (metis cur_ch_nonneg not_less)
  then show ?case by simp
qed simp

declare lex_string_loop.simps [simp del]

definition lex_string :: "lexer \<Rightarrow> token \<Rightarrow> token \<times> lexer" where
  "lex_string lx t =
     (case lex_string_loop (advance lx) [] of
        (buf, lx) \<Rightarrow> (t\<lparr>t_str := buf, t_kind := T_STRING\<rparr>, lx))"

definition lex_char_lit :: "lexer \<Rightarrow> token \<Rightarrow> token \<times> lexer" where
  "lex_char_lit lx t =
     (let lx = advance lx; c = cur_ch lx;
          (v, lx) = (if c = 92 then read_escape (advance lx) else (c, advance lx));
          lx = (if cur_ch lx = 39 then advance lx else lex_error lx)
      in (t\<lparr>t_kind := T_CHAR_LIT, t_ival := word_of_int v AND 0xFF\<rparr>, lx))"

subsection \<open>Numbers\<close>

primrec parse_hex :: "u64 \<Rightarrow> u8 list \<Rightarrow> u64" where
  "parse_hex v [] = v"
| "parse_hex v (b # bs) =
     (if b = 95 then parse_hex v bs
      else let d = hexval (uint b)
           in if d < 0 then v else parse_hex (push_bit 4 v OR word_of_int d) bs)"

primrec parse_oct :: "u64 \<Rightarrow> u8 list \<Rightarrow> u64" where
  "parse_oct v [] = v"
| "parse_oct v (b # bs) =
     (if b = 95 then parse_oct v bs
      else if b < 48 \<or> 55 < b then v
      else parse_oct (v * 8 + word_of_int (uint b - 48)) bs)"

primrec parse_dec :: "u64 \<Rightarrow> u8 list \<Rightarrow> u64" where
  "parse_dec v [] = v"
| "parse_dec v (b # bs) =
     (if b = 95 then parse_dec v bs
      else if \<not> is_digit (uint b) then v
      else parse_dec (v * 10 + word_of_int (uint b - 48)) bs)"

datatype radix = Hex | Octal | Decimal

text \<open>The first part of \<^verbatim>\<open>lex_number\<close>: the digits, and whether there is a fraction or an exponent.\<close>

definition scan_fraction :: "lexer \<Rightarrow> bool \<times> lexer" where
  "scan_fraction lx =
     (if cur_ch lx = ch CHR ''.''
      then (True, advance_while (\<lambda>c. is_digit c \<or> c = ch CHR ''_'') (advance lx))
      else (False, lx))"

definition scan_exponent :: "lexer \<Rightarrow> bool \<times> lexer" where
  "scan_exponent lx =
     (if cur_ch lx = ch CHR ''e'' \<or> cur_ch lx = ch CHR ''E''
      then (let lx = advance lx;
                lx = (if cur_ch lx = ch CHR ''+'' \<or> cur_ch lx = ch CHR ''-'' then advance lx else lx)
            in (True, advance_while is_digit lx))
      else (False, lx))"

definition scan_digits :: "lexer \<Rightarrow> radix \<times> bool \<times> lexer" where
  "scan_digits lx =
     (let c = cur_ch lx
      in if c = 48 \<and> (peek_ch lx 1 = ch CHR ''x'' \<or> peek_ch lx 1 = ch CHR ''X'')
         then (Hex, False,
               advance_while (\<lambda>c. is_xdigit c \<or> c = ch CHR ''_'') (advance (advance lx)))
         else if c = 48 \<and> 48 \<le> peek_ch lx 1 \<and> peek_ch lx 1 \<le> 55
         then (Octal, False,
               advance_while (\<lambda>c. 48 \<le> c \<and> c \<le> 55 \<or> c = ch CHR ''_'') (advance lx))
         else let lx = advance_while (\<lambda>c. is_digit c \<or> c = ch CHR ''_'') lx;
                  (frac, lx) = scan_fraction lx;
                  (expo, lx) = scan_exponent lx
              in (Decimal, frac \<or> expo, lx))"

record suffix =
  is_unsigned :: bool
  is_long :: bool
  is_longlong :: bool
  is_float :: bool

function scan_suffix :: "lexer \<Rightarrow> suffix \<Rightarrow> suffix \<times> lexer" where
  "scan_suffix lx x =
     (let c = cur_ch lx
      in if c = ch CHR ''u'' \<or> c = ch CHR ''U'' then scan_suffix (advance lx) (x\<lparr>is_unsigned := True\<rparr>)
         else if c = ch CHR ''l'' \<or> c = ch CHR ''L''
         then scan_suffix (advance lx)
                (x\<lparr>is_longlong := is_longlong x \<or> is_long x, is_long := True\<rparr>)
         else if c = ch CHR ''f'' \<or> c = ch CHR ''F''
         then scan_suffix (advance lx) (x\<lparr>is_float := True\<rparr>)
         else (x, lx))"
  by pat_completeness auto
termination
proof (relation "measure (\<lambda>(lx, x). length (rest lx))", goal_cases)
  case (2 lx x c)
  then have "rest lx \<noteq> []" by (auto simp: cur_ch_rest split: list.splits)
  then show ?case by simp
next
  case (3 lx x c)
  then have "rest lx \<noteq> []" by (auto simp: cur_ch_rest split: list.splits)
  then show ?case by simp
next
  case (4 lx x c)
  then have "rest lx \<noteq> []" by (auto simp: cur_ch_rest split: list.splits)
  then show ?case by simp
qed simp

declare scan_suffix.simps [simp del]

text \<open>The kind of an integer literal from its value, its radix and its suffixes.\<close>

definition int_kind :: "u64 \<Rightarrow> radix \<Rightarrow> suffix \<Rightarrow> token_kind" where
  "int_kind v r x =
     (if is_unsigned x
      then (if is_long x \<or> is_longlong x \<or> 4294967295 < v then T_ULONG else T_UINT)
      else if is_long x \<or> is_longlong x \<or> 2147483647 < v
      then (if r \<noteq> Decimal \<and> \<not> is_long x \<and> \<not> is_longlong x \<and> v \<le> 4294967295 then T_UINT
            else if 9223372036854775807 < v then T_ULONG else T_LONG)
      else T_INT)"

definition int_value :: "radix \<Rightarrow> u8 list \<Rightarrow> u64" where
  "int_value r s =
     (case r of Hex \<Rightarrow> parse_hex 0 (drop 2 s) | Octal \<Rightarrow> parse_oct 0 (drop 1 s)
      | Decimal \<Rightarrow> parse_dec 0 s)"

text \<open>A floating literal: the text without underscores, cut to the 63 characters of the buffer.\<close>

definition lex_number :: "lexer \<Rightarrow> token \<Rightarrow> token \<times> lexer" where
  "lex_number lx t =
     (let start_off = lx_pos lx;
          (r, flt, lx) = scan_digits lx;
          (x, lx) = scan_suffix lx \<lparr>is_unsigned = False, is_long = False, is_longlong = False, is_float = flt\<rparr>;
          s = text_from start_off lx;
          t = set_text s t
      in if is_float x
         then (t\<lparr>t_kind := T_DOUBLE, t_fval := take 63 (filter (\<lambda>b. b \<noteq> 95) s)\<rparr>, lx)
         else let v = int_value r s in (t\<lparr>t_ival := v, t_kind := int_kind v r x\<rparr>, lx))"

subsection \<open>Punctuation\<close>

text \<open>
  The second character of an operator; the first has been consumed. The result is the kind and
  the state behind the token.
\<close>

definition op_or :: "lexer \<Rightarrow> (int \<times> token_kind) list \<Rightarrow> token_kind \<Rightarrow> token_kind \<times> lexer" where
  "op_or lx alts k =
     (case map_of alts (cur_ch lx) of Some k' \<Rightarrow> (k', advance lx) | None \<Rightarrow> (k, lx))"

definition op_shift :: "lexer \<Rightarrow> char \<Rightarrow> token_kind \<Rightarrow> token_kind \<Rightarrow> token_kind \<Rightarrow> token_kind \<Rightarrow> token_kind \<times> lexer" where
  "op_shift lx c shift_assign shift rel_eq rel =
     (if cur_ch lx = ch c
      then (let lx = advance lx
            in if cur_ch lx = ch CHR ''='' then (shift_assign, advance lx) else (shift, lx))
      else if cur_ch lx = ch CHR ''='' then (rel_eq, advance lx)
      else (rel, lx))"

definition lex_punct :: "int \<Rightarrow> lexer \<Rightarrow> token_kind \<times> lexer" where
  "lex_punct c lx =
     (let eq = ch CHR ''=''
      in if c = ch CHR ''('' then (T_LPAREN, lx)
         else if c = ch CHR '')'' then (T_RPAREN, lx)
         else if c = ch CHR ''{'' then (T_LBRACE, lx)
         else if c = ch CHR ''}'' then (T_RBRACE, lx)
         else if c = ch CHR ''['' then (T_LBRACKET, lx)
         else if c = ch CHR '']'' then (T_RBRACKET, lx)
         else if c = ch CHR '';'' then (T_SEMI, lx)
         else if c = ch CHR '','' then (T_COMMA, lx)
         else if c = ch CHR ''~'' then (T_TILDE, lx)
         else if c = ch CHR ''?'' then (T_QUESTION, lx)
         else if c = ch CHR '':'' then (T_COLON, lx)
         else if c = ch CHR ''.''
         then (if cur_ch lx = ch CHR ''.'' \<and> peek_ch lx 1 = ch CHR ''.''
               then (T_ELLIPSIS, advance (advance lx)) else (T_DOT, lx))
         else if c = ch CHR ''+'' then op_or lx [(ch CHR ''+'', T_INC), (eq, T_PLUS_ASSIGN)] T_PLUS
         else if c = ch CHR ''-''
         then op_or lx [(ch CHR ''-'', T_DEC), (ch CHR ''>'', T_ARROW), (eq, T_MINUS_ASSIGN)] T_MINUS
         else if c = ch CHR ''*'' then op_or lx [(eq, T_STAR_ASSIGN)] T_STAR
         else if c = ch CHR ''/'' then op_or lx [(eq, T_SLASH_ASSIGN)] T_SLASH
         else if c = ch CHR ''%'' then op_or lx [(eq, T_PERCENT_ASSIGN)] T_PERCENT
         else if c = ch CHR ''='' then op_or lx [(eq, T_EQ)] T_ASSIGN
         else if c = ch CHR ''!'' then op_or lx [(eq, T_NE)] T_NOT
         else if c = ch CHR ''<'' then op_shift lx CHR ''<'' T_SHL_ASSIGN T_SHL T_LE T_LT
         else if c = ch CHR ''>'' then op_shift lx CHR ''>'' T_SHR_ASSIGN T_SHR T_GE T_GT
         else if c = ch CHR ''&'' then op_or lx [(ch CHR ''&'', T_AND), (eq, T_AND_ASSIGN)] T_AMP
         else if c = ch CHR ''|'' then op_or lx [(ch CHR ''|'', T_OR), (eq, T_OR_ASSIGN)] T_PIPE
         else if c = ch CHR ''^'' then op_or lx [(eq, T_XOR_ASSIGN)] T_CARET
         else if c = ch CHR ''#'' then op_or lx [(ch CHR ''#'', T_HASHHASH)] T_HASH
         else (T_EOF, lex_error lx))"

subsection \<open>Tokens\<close>

definition blank_token :: token where
  "blank_token =
     \<lparr>t_kind = T_EOF, t_line = 0, t_col = 0, src_off = 0, t_text = [], t_ival = 0, t_fval = [], t_str = []\<rparr>"

definition lex_one :: "lexer \<Rightarrow> token \<times> lexer" where
  "lex_one lx =
     (let lx = skip_ws lx;
          t = blank_token\<lparr>src_off := lx_pos lx, t_line := lx_line lx, t_col := lx_col lx\<rparr>;
          c = cur_ch lx
      in if c < 0 then (t\<lparr>t_kind := T_EOF\<rparr>, lx)
         else if is_alpha c \<or> c = ch CHR ''_'' then lex_ident lx t
         else if is_digit c then lex_number lx t
         else if c = 34 then lex_string lx t
         else if c = 39 then lex_char_lit lx t
         else (case lex_punct c (advance lx) of (k, lx) \<Rightarrow> (t\<lparr>t_kind := k\<rparr>, lx)))"

definition lex_peek :: "lexer \<Rightarrow> lexer" where
  "lex_peek lx =
     (if has_next lx then lx
      else (case lex_one lx of (t, lx) \<Rightarrow> lx\<lparr>lx_next := t, has_next := True\<rparr>))"

definition lex_next :: "lexer \<Rightarrow> lexer" where
  "lex_next lx =
     (if has_next lx then lex_peek (lx\<lparr>lx_cur := lx_next lx, has_next := False\<rparr>)
      else (case lex_one lx of (t, lx) \<Rightarrow> lx\<lparr>lx_cur := t\<rparr>))"

definition lex_init :: "u8 list \<Rightarrow> diag \<Rightarrow> lexer" where
  "lex_init src d =
     lex_next \<lparr>lx_src = src, lx_pos = 0, lx_line = 1, lx_col = 1, lx_diag = d, lx_cur = blank_token,
               lx_next = blank_token, has_next = False\<rparr>"

fun tok_kind_str :: "token_kind \<Rightarrow> string" where
  "tok_kind_str T_EOF = ''EOF''"
| "tok_kind_str T_LPAREN = ''(''"
| "tok_kind_str T_RPAREN = '')''"
| "tok_kind_str T_LBRACE = ''{''"
| "tok_kind_str T_RBRACE = ''}''"
| "tok_kind_str T_LBRACKET = ''[''"
| "tok_kind_str T_RBRACKET = '']''"
| "tok_kind_str T_SEMI = '';''"
| "tok_kind_str T_COMMA = '',''"
| "tok_kind_str T_DOT = ''.''"
| "tok_kind_str T_ARROW = ''->''"
| "tok_kind_str T_COLON = '':''"
| "tok_kind_str T_QUESTION = ''?''"
| "tok_kind_str T_ELLIPSIS = ''...''"
| "tok_kind_str T_ASSIGN = ''=''"
| "tok_kind_str T_PLUS = ''+''"
| "tok_kind_str T_MINUS = ''-''"
| "tok_kind_str T_STAR = ''*''"
| "tok_kind_str T_SLASH = ''/''"
| "tok_kind_str T_PERCENT = ''%''"
| "tok_kind_str T_INC = ''++''"
| "tok_kind_str T_DEC = ''--''"
| "tok_kind_str T_IDENT = ''IDENT''"
| "tok_kind_str T_INT = ''INT''"
| "tok_kind_str T_STRING = ''STRING''"
| "tok_kind_str _ = ''?''"

end
