(* ===== verification/Lexer_Props.thy ===== *)
theory Lexer_Props
  imports Lexer
begin

text \<open>
  Properties of the lexer of \<^verbatim>\<open>src/front/lexer.c\<close>: positions, progress, the transparency of the
  lookahead, and the round trips of literals.
\<close>

subsection \<open>Scanning\<close>

text \<open>
  Everything the scanning functions do to the lexer is to consume characters and to count
  diagnostics.
\<close>

inductive scans :: "lexer \<Rightarrow> lexer \<Rightarrow> bool" where
  nothing: "scans lx lx"
| consume: "scans lx lx' \<Longrightarrow> scans lx (advance lx')"
| report: "scans lx lx' \<Longrightarrow> scans lx (lx'\<lparr>lx_diag := d\<rparr>)"

declare scans.nothing [simp, intro]

lemma scans_trans: "scans lx1 lx2 \<Longrightarrow> scans lx lx1 \<Longrightarrow> scans lx lx2"
  by (induction rule: scans.induct) (auto intro: scans.intros)

lemma scans_advance [simp]: "scans lx (advance lx)"
  by (auto intro: scans.intros)

lemma scans_warn [simp]: "scans lx (cc_warn lx)" and scans_error [simp]: "scans lx (lex_error lx)"
  unfolding cc_warn_def lex_error_def by (auto intro: scans.intros)

text \<open>What scanning keeps.\<close>

lemma scans_fields:
  "scans lx lx' \<Longrightarrow> lx_src lx' = lx_src lx \<and> lx_cur lx' = lx_cur lx \<and> lx_next lx' = lx_next lx
     \<and> has_next lx' = has_next lx"
  by (induction rule: scans.induct) auto

lemma scans_pos: "scans lx lx' \<Longrightarrow> lx_pos lx \<le> lx_pos lx'"
  by (induction rule: scans.induct) (auto simp: advance_def Let_def)

text \<open>Line and column of a byte offset, counted from one.\<close>

definition line_at :: "u8 list \<Rightarrow> nat \<Rightarrow> nat" where
  "line_at src p = Suc (count_list (take p src) 10)"

definition col_at :: "u8 list \<Rightarrow> nat \<Rightarrow> nat" where
  "col_at src p = Suc (length (takeWhile (\<lambda>b. b \<noteq> 10) (rev (take p src))))"

definition pos_ok :: "lexer \<Rightarrow> bool" where
  "pos_ok lx \<longleftrightarrow> lx_pos lx \<le> length (lx_src lx) \<and> lx_line lx = line_at (lx_src lx) (lx_pos lx)
     \<and> lx_col lx = col_at (lx_src lx) (lx_pos lx)"

lemma pos_ok_advance: "pos_ok lx \<Longrightarrow> pos_ok (advance lx)"
proof -
  assume ok: "pos_ok lx"
  show ?thesis
  proof (cases "lx_pos lx < length (lx_src lx)")
    case True
    have nl: "uint b = 10 \<longleftrightarrow> b = 10" for b :: u8
      by (simp add: word_uint_eq_iff)
    from True ok show ?thesis
      by (simp add: pos_ok_def advance_def cur_ch_def Let_def line_at_def col_at_def
          take_Suc_conv_app_nth nl)
  next
    case False
    with ok show ?thesis by (simp add: advance_def cur_ch_def)
  qed
qed

lemma scans_pos_ok: "scans lx lx' \<Longrightarrow> pos_ok lx \<Longrightarrow> pos_ok lx'"
proof (induction rule: scans.induct)
  case (consume lx lx')
  then show ?case by (blast intro: pos_ok_advance)
qed (simp_all add: pos_ok_def)

lemma scans_adv: "scans (advance lx) lx' \<Longrightarrow> scans lx lx'"
  by (erule scans_trans) simp

lemma scans_adv2: "scans (advance (advance lx)) lx' \<Longrightarrow> scans lx lx'"
  by (rule scans_adv) (rule scans_adv)

text \<open>Every scanning function scans.\<close>

lemma scans_while [simp]: "scans lx (advance_while p lx)"
proof (induction p lx rule: advance_while.induct)
  case (1 p lx)
  then show ?case
    by (subst advance_while.simps) (auto intro: scans_trans)
qed

lemma scans_block [simp]: "scans lx (skip_block lx)"
proof (induction lx rule: skip_block.induct)
  case (1 lx)
  then show ?case
    by (subst skip_block.simps) (auto intro: scans_trans scans.intros)
qed

lemma scans_ws [simp]: "scans lx (skip_ws lx)"
proof (induction lx rule: skip_ws.induct)
  case (1 lx)
  have b: "scans (skip_block (advance (advance lx))) lx' \<Longrightarrow> scans lx lx'" for lx'
    by (rule scans_adv2) (blast intro: scans_trans scans_block)
  have w: "scans (advance_while p lx) lx' \<Longrightarrow> scans lx lx'" for p lx'
    by (blast intro: scans_trans scans_while)
  show ?case
    using 1(1) [OF refl, THEN scans_adv] 1(2) [OF refl, THEN w] 1(3) [OF refl, THEN b]
    by (subst skip_ws.simps) (simp add: Let_def)
qed

lemma scans_hex [simp]: "scans lx (snd (hex_escape lx v))"
proof (induction lx v rule: hex_escape.induct)
  case (1 lx v)
  then show ?case
    by (subst hex_escape.simps) (auto simp: Let_def intro: scans_trans)
qed

lemma scans_oct [simp]: "scans lx (snd (oct_escape n lx v))"
  by (induction n arbitrary: lx v) (auto simp: Let_def intro: scans_adv)

lemma scans_escape [simp]: "scans lx (snd (read_escape lx))"
  by (auto simp: read_escape_def Let_def case_prod_unfold intro: scans_adv)

lemma scans_string_loop [simp]: "scans lx (snd (lex_string_loop lx buf))"
proof (induction lx buf rule: lex_string_loop.induct)
  case (1 lx buf)
  let ?r = "read_escape (advance lx)"
  have esc: "scans (snd ?r) lx' \<Longrightarrow> scans lx lx'" for lx'
    by (rule scans_adv) (blast intro: scans_trans scans_escape)
  show ?case
    using 1(1) [OF refl _ _ _ refl, THEN esc] 1(2) [OF refl, THEN scans_adv]
    by (subst lex_string_loop.simps) (simp add: Let_def)
qed

lemma scans_suffix [simp]: "scans lx (snd (scan_suffix lx x))"
proof (induction lx x rule: scan_suffix.induct)
  case (1 lx x)
  then show ?case
    by (subst scan_suffix.simps) (auto simp: Let_def intro: scans_trans)
qed

lemma scans_digits:
  assumes "is_digit (cur_ch lx)"
  shows "scans (advance lx) (snd (snd (scan_digits lx)))"
proof -
  have f: "scans lx (snd (scan_fraction lx))" and e: "scans lx (snd (scan_exponent lx))" for lx
    by (auto simp: scan_fraction_def scan_exponent_def Let_def intro: scans_adv scans_adv2)
  have "advance_while (\<lambda>c. is_digit c \<or> c = 95) lx = advance_while (\<lambda>c. is_digit c \<or> c = 95) (advance lx)"
    using assms by (subst advance_while.simps) (auto simp: is_digit_def)
  then show ?thesis
    by (auto simp: scan_digits_def Let_def case_prod_unfold intro: scans_adv scans_trans [OF e]
        scans_trans [OF f] scans_while)
qed

text \<open>The fillers consume the first character and leave the token's position alone.\<close>

definition fills :: "lexer \<Rightarrow> token \<Rightarrow> token \<times> lexer \<Rightarrow> bool" where
  "fills lx t r \<longleftrightarrow> scans (advance lx) (snd r)
     \<and> src_off (fst r) = src_off t \<and> t_line (fst r) = t_line t \<and> t_col (fst r) = t_col t"

lemma fills_ident: "fills lx t (lex_ident lx t)"
  by (simp add: fills_def lex_ident_def Let_def set_text_def)

lemma fills_number: "is_digit (cur_ch lx) \<Longrightarrow> fills lx t (lex_number lx t)"
  using scans_trans [OF scans_suffix scans_digits]
  by (simp add: fills_def lex_number_def Let_def case_prod_unfold set_text_def)

lemma fills_string: "fills lx t (lex_string lx t)"
  by (simp add: fills_def lex_string_def case_prod_unfold)

lemma fills_char_lit: "fills lx t (lex_char_lit lx t)"
proof -
  have "scans (advance lx) (snd (if cur_ch (advance lx) = 92 then read_escape (advance (advance lx))
      else (cur_ch (advance lx), advance (advance lx))))"
    by (auto intro: scans_adv)
  then show ?thesis
    by (auto simp: fills_def lex_char_lit_def Let_def case_prod_unfold
        intro: scans_trans [OF scans_advance] scans_trans [OF scans_error])
qed

lemma scans_punct: "scans lx (snd (lex_punct c lx))"
  unfolding lex_punct_def op_or_def op_shift_def Let_def
  by (auto intro: scans_adv split: option.splits)

text \<open>
  One token: white space is skipped, the token is stamped with the position reached, and
  unless the input is exhausted at least one character is consumed.
\<close>

lemma lex_one_shape:
  obtains t where "src_off t = lx_pos (skip_ws lx)" "t_line t = lx_line (skip_ws lx)"
    "t_col t = lx_col (skip_ws lx)"
    "cur_ch (skip_ws lx) < 0 \<and> lex_one lx = (t, skip_ws lx) \<and> t_kind t = T_EOF
     \<or> 0 \<le> cur_ch (skip_ws lx) \<and> fills (skip_ws lx) t (lex_one lx)"
proof -
  let ?lx = "skip_ws lx"
  let ?t = "blank_token\<lparr>src_off := lx_pos ?lx, t_line := lx_line ?lx, t_col := lx_col ?lx\<rparr>"
  show ?thesis
  proof (rule that [of ?t])
    have punct: "fills ?lx ?t (case lex_punct c (advance ?lx) of (k, lx) \<Rightarrow> (?t\<lparr>t_kind := k\<rparr>, lx))" for c
      using scans_punct [of "advance ?lx" c] by (simp add: fills_def case_prod_unfold)
    show "cur_ch ?lx < 0 \<and> lex_one lx = (?t, ?lx) \<and> t_kind ?t = T_EOF
        \<or> 0 \<le> cur_ch ?lx \<and> fills ?lx ?t (lex_one lx)"
      using punct by (auto simp: lex_one_def Let_def fills_ident fills_number fills_string fills_char_lit
          blank_token_def)
  qed simp_all
qed

lemma fillsD:
  assumes "fills lx t (t', lx')"
  shows "src_off t' = src_off t" "t_line t' = t_line t" "t_col t' = t_col t" "scans (advance lx) lx'"
  using assms by (simp_all add: fills_def)

lemma lex_one_scans: "lex_one lx = (t, lx') \<Longrightarrow> scans lx lx'"
  by (rule lex_one_shape [of lx]) (auto dest!: fillsD(4) scans_adv intro: scans_trans [OF _ scans_ws])

lemma advance_pos: "0 \<le> cur_ch lx \<Longrightarrow> lx_pos (advance lx) = Suc (lx_pos lx)"
  by (simp add: advance_def Let_def)

text \<open>
  Source positions: the lexer's line and column are at every moment those of its byte
  offset, and every token carries the offset, line and column of its first character, which
  lies between the offset before and the offset after the token.
\<close>

theorem lex_one_positions:
  assumes "pos_ok lx" and "lex_one lx = (t, lx')"
  shows "pos_ok lx' \<and> lx_src lx' = lx_src lx \<and> lx_pos lx \<le> src_off t \<and> src_off t \<le> lx_pos lx'
    \<and> lx_pos lx' \<le> length (lx_src lx)
    \<and> t_line t = line_at (lx_src lx) (src_off t) \<and> t_col t = col_at (lx_src lx) (src_off t)"
proof -
  have ok: "pos_ok (skip_ws lx)" using assms(1) by (rule scans_pos_ok [OF scans_ws])
  have src: "lx_src (skip_ws lx) = lx_src lx" using scans_fields [OF scans_ws] by blast
  have pos: "lx_pos lx \<le> lx_pos (skip_ws lx)" by (rule scans_pos [OF scans_ws])
  have ok': "pos_ok lx'" using scans_pos_ok [OF lex_one_scans [OF assms(2)] assms(1)] .
  have src': "lx_src lx' = lx_src lx" using scans_fields [OF lex_one_scans [OF assms(2)]] by blast
  obtain t0 where t0: "src_off t0 = lx_pos (skip_ws lx)" "t_line t0 = lx_line (skip_ws lx)"
    "t_col t0 = lx_col (skip_ws lx)"
    and "cur_ch (skip_ws lx) < 0 \<and> lex_one lx = (t0, skip_ws lx) \<and> t_kind t0 = T_EOF
     \<or> 0 \<le> cur_ch (skip_ws lx) \<and> fills (skip_ws lx) t0 (lex_one lx)"
    by (rule lex_one_shape)
  then have "src_off t = src_off t0" "t_line t = t_line t0" "t_col t = t_col t0" "lx_pos (skip_ws lx) \<le> lx_pos lx'"
    using assms(2) by (auto dest: fillsD scans_pos [OF scans_adv])
  with t0 ok ok' src src' pos show ?thesis by (simp add: pos_ok_def)
qed

text \<open>
  Progress: every token but the end of input consumes at least one character, so no token
  is ever produced twice from the same place.
\<close>

theorem lex_one_progress:
  assumes "lex_one lx = (t, lx')" and "t_kind t \<noteq> T_EOF"
  shows "lx_pos lx < lx_pos lx'"
proof -
  obtain t0 where "cur_ch (skip_ws lx) < 0 \<and> lex_one lx = (t0, skip_ws lx) \<and> t_kind t0 = T_EOF
     \<or> 0 \<le> cur_ch (skip_ws lx) \<and> fills (skip_ws lx) t0 (lex_one lx)"
    using lex_one_shape [of lx] by metis
  with assms have "0 \<le> cur_ch (skip_ws lx)" "scans (advance (skip_ws lx)) lx'"
    by (auto dest: fillsD(4))
  then have "Suc (lx_pos (skip_ws lx)) \<le> lx_pos lx'"
    using scans_pos [of "advance (skip_ws lx)" lx'] advance_pos by simp
  with scans_pos [OF scans_ws, of lx] show ?thesis by simp
qed

subsection \<open>Scanning does not look at the token slots\<close>

text \<open>
  An update of the lexer that touches none of the fields that scanning reads or writes: every
  scanning function commutes with it.
\<close>

locale lexer_update =
  fixes upd :: "lexer \<Rightarrow> lexer"
  assumes upd_reads: "lx_src (upd lx) = lx_src lx" "lx_pos (upd lx) = lx_pos lx"
      "lx_line (upd lx) = lx_line lx" "lx_col (upd lx) = lx_col lx" "lx_diag (upd lx) = lx_diag lx"
    and upd_pos: "upd (lx\<lparr>lx_pos := p\<rparr>) = (upd lx)\<lparr>lx_pos := p\<rparr>"
    and upd_line: "upd (lx\<lparr>lx_line := n\<rparr>) = (upd lx)\<lparr>lx_line := n\<rparr>"
    and upd_col: "upd (lx\<lparr>lx_col := n\<rparr>) = (upd lx)\<lparr>lx_col := n\<rparr>"
    and upd_diag: "upd (lx\<lparr>lx_diag := d\<rparr>) = (upd lx)\<lparr>lx_diag := d\<rparr>"
begin

lemma upd_chars [simp]: "peek_ch (upd lx) n = peek_ch lx n" "cur_ch (upd lx) = cur_ch lx"
  by (simp_all add: peek_ch_def cur_ch_def upd_reads Let_def)

lemma upd_advance [simp]: "advance (upd lx) = upd (advance lx)"
  by (simp add: advance_def Let_def upd_reads upd_pos upd_line upd_col)

lemma upd_reports [simp]: "cc_warn (upd lx) = upd (cc_warn lx)" "lex_error (upd lx) = upd (lex_error lx)"
  by (simp_all add: cc_warn_def lex_error_def upd_reads upd_diag)

lemma upd_while [simp]: "advance_while p (upd lx) = upd (advance_while p lx)"
proof (induction p lx rule: advance_while.induct)
  case (1 p lx)
  then show ?case
    by (subst (1 2) advance_while.simps) simp
qed

lemma upd_block [simp]: "skip_block (upd lx) = upd (skip_block lx)"
proof (induction lx rule: skip_block.induct)
  case (1 lx)
  then show ?case
    by (subst (1 2) skip_block.simps) simp
qed

lemma upd_ws [simp]: "skip_ws (upd lx) = upd (skip_ws lx)"
proof (induction lx rule: skip_ws.induct)
  case (1 lx)
  then show ?case
    by (subst (1 2) skip_ws.simps) (simp add: Let_def)
qed

lemma upd_text [simp]: "text_from off (upd lx) = text_from off lx"
  by (simp add: text_from_def upd_reads)

lemma upd_hex [simp]: "hex_escape (upd lx) v = apsnd upd (hex_escape lx v)"
proof (induction lx v rule: hex_escape.induct)
  case (1 lx v)
  then show ?case
    by (subst (1 2) hex_escape.simps) (simp add: Let_def)
qed

lemma upd_oct [simp]: "oct_escape n (upd lx) v = apsnd upd (oct_escape n lx v)"
  by (induction n arbitrary: lx v) (simp_all add: Let_def)

lemma upd_escape [simp]: "read_escape (upd lx) = apsnd upd (read_escape lx)"
  by (simp add: read_escape_def Let_def case_prod_unfold)

lemma upd_string_loop [simp]: "lex_string_loop (upd lx) buf = apsnd upd (lex_string_loop lx buf)"
proof (induction lx buf rule: lex_string_loop.induct)
  case (1 lx buf)
  show ?case
    using 1(1) [OF refl _ _ _ refl] 1(2) [OF refl]
    by (subst (1 2) lex_string_loop.simps) (auto simp: Let_def)
qed

lemma upd_suffix [simp]: "scan_suffix (upd lx) x = apsnd upd (scan_suffix lx x)"
proof (induction lx x rule: scan_suffix.induct)
  case (1 lx x)
  then show ?case
    by (subst (1 2) scan_suffix.simps) (simp add: Let_def)
qed

lemma upd_digits [simp]: "scan_digits (upd lx) = apsnd (apsnd upd) (scan_digits lx)"
  by (simp add: scan_digits_def scan_fraction_def scan_exponent_def Let_def case_prod_unfold)

lemma upd_punct [simp]: "lex_punct c (upd lx) = apsnd upd (lex_punct c lx)"
  by (simp add: lex_punct_def op_or_def op_shift_def Let_def split: option.splits)

lemma upd_lex_one: "lex_one (upd lx) = apsnd upd (lex_one lx)"
  by (simp add: lex_one_def lex_ident_def lex_number_def lex_string_def lex_char_lit_def
      Let_def case_prod_unfold upd_reads)

end

interpretation slot_cur: lexer_update "lx_cur_update f"
  by unfold_locales simp_all

interpretation slot_next: lexer_update "lx_next_update f"
  by unfold_locales simp_all

interpretation slot_has: lexer_update "has_next_update f"
  by unfold_locales simp_all

text \<open>
  Looking ahead commutes with advancing, exactly, when nothing has been looked at yet; after
  that it does nothing.
\<close>

lemma lex_next_peek: "\<not> has_next lx \<Longrightarrow> lex_next (lex_peek lx) = lex_peek (lex_next lx)"
  using scans_fields [OF lex_one_scans [of lx "fst (lex_one lx)" "snd (lex_one lx)"]]
  by (simp add: lex_next_def lex_peek_def case_prod_unfold slot_cur.upd_lex_one slot_next.upd_lex_one
      slot_has.upd_lex_one)

lemma lex_next_no_lookahead: "\<not> has_next lx \<Longrightarrow> \<not> has_next (lex_next lx)"
  using scans_fields [OF lex_one_scans [of lx "fst (lex_one lx)" "snd (lex_one lx)"]]
  by (simp add: lex_next_def case_prod_unfold)

lemma lex_peek_cur: "lx_cur (lex_peek lx) = lx_cur lx"
  using scans_fields [OF lex_one_scans [of lx "fst (lex_one lx)" "snd (lex_one lx)"]]
  by (simp add: lex_peek_def case_prod_unfold)

text \<open>
  The lookahead is transparent: whether or not the parser peeks at the next token, at any
  moment, the sequence of current tokens it sees from there on is the same.
\<close>

theorem lookahead_transparent:
  "lx_cur ((lex_next ^^ n) (lex_peek lx)) = lx_cur ((lex_next ^^ n) lx)"
proof (cases "has_next lx")
  case True
  then show ?thesis by (simp add: lex_peek_def)
next
  case False
  have "(lex_next ^^ n) (lex_peek lx) = lex_peek ((lex_next ^^ n) lx) \<and> \<not> has_next ((lex_next ^^ n) lx)"
    using False by (induction n) (auto simp: lex_next_peek lex_next_no_lookahead)
  then show ?thesis by (simp add: lex_peek_cur)
qed

subsection \<open>The end of the input is reached\<close>

lemma lex_next_scans: "\<not> has_next lx \<Longrightarrow> lx_src (lex_next lx) = lx_src lx \<and> lx_pos lx \<le> lx_pos (lex_next lx)
    \<and> (lx_pos lx \<le> length (lx_src lx) \<longrightarrow> lx_pos (lex_next lx) \<le> length (lx_src lx))
    \<and> (t_kind (lx_cur (lex_next lx)) \<noteq> T_EOF \<longrightarrow> lx_pos lx < lx_pos (lex_next lx))"
proof -
  assume h: "\<not> has_next lx"
  obtain t lx' where one: "lex_one lx = (t, lx')" by fastforce
  have le: "scans lx lx' \<Longrightarrow> lx_pos lx \<le> length (lx_src lx) \<Longrightarrow> lx_pos lx' \<le> length (lx_src lx')" for lx lx'
    by (induction rule: scans.induct) (auto simp: advance_def cur_ch_def Let_def)
  from h one lex_one_scans [OF one] show ?thesis
    using scans_fields [of lx lx'] scans_pos [of lx lx'] le [of lx lx'] lex_one_progress [OF one]
    by (auto simp: lex_next_def)
qed

lemma lex_next_iter:
  assumes "\<not> has_next lx" "lx_pos lx \<le> length (lx_src lx)"
    and "\<And>i. i < n \<Longrightarrow> t_kind (lx_cur ((lex_next ^^ Suc i) lx)) \<noteq> T_EOF"
  shows "\<not> has_next ((lex_next ^^ n) lx) \<and> lx_src ((lex_next ^^ n) lx) = lx_src lx
    \<and> lx_pos lx + n \<le> lx_pos ((lex_next ^^ n) lx) \<and> lx_pos ((lex_next ^^ n) lx) \<le> length (lx_src lx)"
  using assms(3)
proof (induction n)
  case 0
  with assms show ?case by simp
next
  case (Suc n)
  let ?lx = "(lex_next ^^ n) lx"
  from Suc have IH: "\<not> has_next ?lx" "lx_src ?lx = lx_src lx" "lx_pos lx + n \<le> lx_pos ?lx" "lx_pos ?lx \<le> length (lx_src lx)"
    by simp_all
  moreover have "t_kind (lx_cur (lex_next ?lx)) \<noteq> T_EOF"
    using Suc.prems [of n] by simp
  ultimately show ?case
    using lex_next_scans [OF IH(1)] lex_next_no_lookahead [OF IH(1)] by auto
qed

text \<open>
  C25. Lexing ends: from any source text of \<open>n\<close> bytes, the parser sees the end-of-input token
  after at most \<open>n\<close> further tokens, so no loop over the tokens of a file runs forever.
\<close>

theorem lexing_ends:
  "\<exists>n \<le> length src. t_kind (lx_cur ((lex_next ^^ n) (lex_init src d))) = T_EOF"
proof (rule ccontr)
  let ?lx = "\<lparr>lx_src = src, lx_pos = 0, lx_line = 1, lx_col = 1, lx_diag = d, lx_cur = blank_token,
    lx_next = blank_token, has_next = False\<rparr>"
  have init: "(lex_next ^^ Suc i) ?lx = (lex_next ^^ i) (lex_init src d)" for i
    by (simp add: lex_init_def funpow_swap1)
  assume "\<not> ?thesis"
  then have "\<And>i. i < Suc (length src) \<Longrightarrow> t_kind (lx_cur ((lex_next ^^ Suc i) ?lx)) \<noteq> T_EOF"
    unfolding init by auto
  then show False
    using lex_next_iter [of ?lx "Suc (length src)"] by auto
qed

subsection \<open>Literals\<close>

lemma text_from_rest:
  assumes "scans lx lx'" "lx_pos lx' \<le> length (lx_src lx)"
  shows "text_from (lx_pos lx) lx' @ rest lx' = rest lx"
proof -
  have "lx_src lx' = lx_src lx" "lx_pos lx \<le> lx_pos lx'"
    using scans_fields [OF assms(1)] scans_pos [OF assms(1)] by auto
  then show ?thesis
    by (simp add: text_from_def rest_def) (metis append_take_drop_id drop_drop le_add_diff_inverse2)
qed

lemma scans_pos_le: "scans lx lx' \<Longrightarrow> lx_pos lx \<le> length (lx_src lx) \<Longrightarrow> lx_pos lx' \<le> length (lx_src lx)"
proof -
  have "scans lx lx' \<Longrightarrow> lx_pos lx \<le> length (lx_src lx) \<Longrightarrow>
      lx_pos lx' \<le> length (lx_src lx') \<and> lx_src lx' = lx_src lx"
    by (induction rule: scans.induct) (auto simp: advance_def cur_ch_def Let_def)
  then show "scans lx lx' \<Longrightarrow> lx_pos lx \<le> length (lx_src lx) \<Longrightarrow> lx_pos lx' \<le> length (lx_src lx)"
    by auto
qed

lemma peek_1_rest: "peek_ch lx (Suc 0) = (case tl (rest lx) of [] \<Rightarrow> - 1 | b # bs \<Rightarrow> uint b)"
proof -
  have "tl (rest lx) = drop (Suc (lx_pos lx)) (lx_src lx)"
    by (simp add: rest_def drop_Suc tl_drop)
  then show ?thesis
    by (auto simp: peek_ch_def Let_def Cons_nth_drop_Suc [symmetric] split: list.splits)
qed

lemma skip_ws_id:
  assumes "rest lx = b # bs" "\<not> is_space (uint b)" "b \<noteq> 47"
  shows "skip_ws lx = lx"
proof -
  have "uint b \<noteq> 47" using assms(3) by (simp add: word_uint_eq_iff)
  with assms show ?thesis
    by (subst skip_ws.simps) (simp add: cur_ch_rest Let_def)
qed

text \<open>The decimal text of a number.\<close>

fun dec_text :: "nat \<Rightarrow> u8 list" where
  "dec_text n = (if n < 10 then [48 + word_of_nat n] else dec_text (n div 10) @ [48 + word_of_nat (n mod 10)])"

declare dec_text.simps [simp del]

definition digit_byte :: "u8 \<Rightarrow> bool" where
  "digit_byte b \<longleftrightarrow> is_digit (uint b)"

lemma digit_byte_nat: "k < 10 \<Longrightarrow> digit_byte (48 + word_of_nat k) \<and> uint (48 + word_of_nat k :: u8) = 48 + int k"
  by (simp add: digit_byte_def is_digit_def uint_word_ariths unsigned_of_nat take_bit_eq_mod)

lemma dec_text_digits: "list_all digit_byte (dec_text n)"
proof (induction n rule: dec_text.induct)
  case (1 n)
  then show ?case
    by (subst dec_text.simps) (simp add: digit_byte_nat)
qed

lemma dec_text_head: "\<exists>b bs. dec_text n = b # bs \<and> digit_byte b \<and> (b = 48 \<longrightarrow> n = 0 \<and> bs = [])"
proof (induction n rule: dec_text.induct)
  case (1 n)
  show ?case
  proof (cases "n < 10")
    case True
    then have "uint (48 + word_of_nat n :: u8) = 48 + int n" "digit_byte (48 + word_of_nat n)"
      by (simp_all add: digit_byte_nat)
    moreover from this(1) have "48 + word_of_nat n = (48 :: u8) \<Longrightarrow> n = 0"
      by simp
    ultimately show ?thesis
      using True by (subst dec_text.simps) auto
  next
    case False
    with 1 obtain b bs where "dec_text (n div 10) = b # bs" "digit_byte b" "b = 48 \<longrightarrow> n div 10 = 0"
      by auto
    with False show ?thesis
      by (subst dec_text.simps) auto
  qed
qed

lemma parse_dec_append:
  "list_all digit_byte xs \<Longrightarrow> parse_dec v (xs @ ys) = parse_dec (parse_dec v xs) ys"
  by (induction xs arbitrary: v) (auto simp: digit_byte_def)

lemma parse_dec_text: "parse_dec 0 (dec_text n) = word_of_nat n"
proof (induction n rule: dec_text.induct)
  case (1 n)
  have digit: "parse_dec v [48 + word_of_nat k] = v * 10 + word_of_nat k" if "k < 10" for v k
  proof -
    have u: "uint (48 + word_of_nat k :: u8) = 48 + int k"
      using digit_byte_nat [OF that] by simp
    have d: "is_digit (48 + int k)" using that by (simp add: is_digit_def)
    have "(48 + word_of_nat k :: u8) \<noteq> 95" using u that by (auto simp: word_uint_eq_iff)
    then show ?thesis unfolding parse_dec.simps u using d by simp
  qed
  show ?case
  proof (cases "n < 10")
    case True
    then show ?thesis
      using digit [of n 0] by (subst dec_text.simps) simp
  next
    case False
    have "parse_dec 0 (dec_text n) = word_of_nat (n div 10) * 10 + word_of_nat (n mod 10)"
      using False 1 dec_text_digits digit [of "n mod 10"]
      by (subst dec_text.simps) (simp add: parse_dec_append del: parse_dec.simps)
    also have "\<dots> = word_of_nat (n div 10 * 10 + n mod 10)"
      by (simp only: of_nat_add of_nat_mult of_nat_numeral)
    finally show ?thesis by simp
  qed
qed

text \<open>Text after which a decimal literal ends.\<close>

definition ends_number :: "u8 list \<Rightarrow> bool" where
  "ends_number bs \<longleftrightarrow> bs = [] \<or> \<not> is_alnum (uint (hd bs)) \<and> hd bs \<noteq> 95 \<and> hd bs \<noteq> 46"

lemma ends_number_cur:
  assumes "ends_number (rest lx)"
  shows "\<not> is_alnum (cur_ch lx)" "cur_ch lx \<noteq> 95" "cur_ch lx \<noteq> 46" "advance_while (\<lambda>c. is_digit c \<or> c = 95) lx = lx"
proof -
  show 1: "\<not> is_alnum (cur_ch lx)" and 2: "cur_ch lx \<noteq> 95" and "cur_ch lx \<noteq> 46"
    using assms by (auto simp: cur_ch_rest ends_number_def is_alnum_def is_alpha_def is_digit_def
        word_uint_eq_iff split: list.splits)
  from 1 2 show "advance_while (\<lambda>c. is_digit c \<or> c = 95) lx = lx"
    by (subst advance_while.simps) (auto simp: is_alnum_def)
qed

lemma scan_plain_number:
  assumes "rest lx = dec_text n @ tail" "ends_number tail"
  shows "\<exists>lx'. scan_digits lx = (Decimal, False, lx') \<and> rest lx' = tail"
proof -
  let ?lx = "advance_while (\<lambda>c. is_digit c \<or> c = 95) lx"
  obtain b bs where b: "dec_text n = b # bs" "digit_byte b" "b = 48 \<longrightarrow> n = 0 \<and> bs = []"
    using dec_text_head [of n] by blast
  have "dropWhile (\<lambda>b. is_digit (uint b) \<or> uint b = 95) (dec_text n @ tail) = tail"
    using dec_text_digits [of n] assms(2)
    by (cases tail) (auto simp: list_all_iff digit_byte_def ends_number_def is_alnum_def word_uint_eq_iff
        dropWhile_append2)
  then have rest: "rest ?lx = tail" by (simp add: advance_while_rest assms(1))
  then have end': "\<not> is_alnum (cur_ch ?lx)" "cur_ch ?lx \<noteq> 46"
    using assms(2) ends_number_cur by auto
  have not_prefix: "\<not> (cur_ch lx = 48 \<and> (peek_ch lx 1 = 120 \<or> peek_ch lx 1 = 88))"
    "\<not> (cur_ch lx = 48 \<and> 48 \<le> peek_ch lx 1 \<and> peek_ch lx 1 \<le> 55)"
    using assms b by (auto simp: cur_ch_rest peek_1_rest ends_number_def is_alnum_def is_alpha_def
        is_digit_def word_uint_eq_iff split: list.splits)
  have "scan_digits lx = (Decimal, False, ?lx)"
    using not_prefix end'
    by (auto simp: scan_digits_def scan_fraction_def scan_exponent_def is_alnum_def is_alpha_def Let_def)
  with rest show ?thesis by blast
qed

lemma lex_one_decimal:
  assumes "rest lx = dec_text n @ tail" and "ends_number tail" and "n < 2 ^ 64"
  shows "\<exists>t lx'. lex_one lx = (t, lx') \<and> t_ival t = word_of_nat n \<and> unat (t_ival t) = n
    \<and> t_kind t = (if n < 2 ^ 31 then T_INT else if n < 2 ^ 63 then T_LONG else T_ULONG)
    \<and> rest lx' = tail"
proof -
  obtain b bs where b: "dec_text n = b # bs" "digit_byte b"
    using dec_text_head [of n] by blast
  have cur: "cur_ch lx = uint b" using assms(1) b by (simp add: cur_ch_rest)
  have dig: "is_digit (uint b)" using b by (simp add: digit_byte_def)
  have ws: "skip_ws lx = lx"
    using assms(1) b dig by (intro skip_ws_id) (auto simp: is_space_def is_digit_def word_uint_eq_iff)
  obtain lx1 where lx1: "scan_digits lx = (Decimal, False, lx1)" "rest lx1 = tail"
    using scan_plain_number [OF assms(1,2)] by blast
  have suf: "scan_suffix lx1 x = (x, lx1)" for x
    using ends_number_cur(1) [of lx1] lx1(2) assms(2)
    by (subst scan_suffix.simps) (auto simp: is_alnum_def is_alpha_def)
  have sc: "scans lx lx1"
    using scans_digits [of lx] lx1(1) dig cur by (auto intro: scans_adv)
  have "lx_pos lx \<le> length (lx_src lx)"
    using assms(1) b(1) by (cases "lx_pos lx \<le> length (lx_src lx)") (auto simp: rest_def)
  then have "text_from (lx_pos lx) lx1 @ tail = dec_text n @ tail"
    using text_from_rest [OF sc scans_pos_le [OF sc]] lx1(2) assms(1) by simp
  then have body: "text_from (lx_pos lx) lx1 = dec_text n" by simp
  have un: "unat (word_of_nat n :: u64) = n" using assms(3) by (simp add: unat_of_nat)
  have cmp: "word_of_nat n > (2147483647 :: u64) \<longleftrightarrow> \<not> n < 2 ^ 31"
    "word_of_nat n > (9223372036854775807 :: u64) \<longleftrightarrow> \<not> n < 2 ^ 63"
    using un by (auto simp: word_less_nat_alt)
  from dig have "\<not> is_alpha (uint b)" "uint b \<noteq> 95" "\<not> uint b < 0" by (auto simp: is_digit_def is_alpha_def)
  with ws cur dig lx1 suf body un show ?thesis
    by (simp add: lex_one_def lex_number_def Let_def int_value_def parse_dec_text int_kind_def cmp set_text_def
        del: unsigned_of_nat)
qed

text \<open>
  Decimal literals round-trip: lexing the decimal text of any 64-bit number, followed by
  text that cannot continue a number, yields one token whose value is the number and whose
  kind is the first of int, long and unsigned long that holds it, and leaves the text behind it.
\<close>

theorem decimal_roundtrip:
  assumes "rest lx = dec_text n @ tail" and "ends_number tail" and "n < 2 ^ 64"
  shows "\<exists>t lx'. lex_one lx = (t, lx') \<and> t_ival t = word_of_nat n \<and> unat (t_ival t) = n
    \<and> t_kind t = (if n < 2 ^ 31 then T_INT else if n < 2 ^ 63 then T_LONG else T_ULONG)
    \<and> rest lx' = tail"
  by (rule lex_one_decimal [OF assms])

definition start_lexer :: "u8 list \<Rightarrow> lexer" where
  "start_lexer src =
     \<lparr>lx_src = src, lx_pos = 0, lx_line = 1, lx_col = 1, lx_diag = \<lparr>n_errors = 0, n_warnings = 0\<rparr>,
      lx_cur = blank_token, lx_next = blank_token, has_next = False\<rparr>"

theorem decimal_roundtrip_witness:
  "\<exists>t lx'. lex_one (start_lexer (bytes_of ''2147483648;'')) = (t, lx') \<and> unat (t_ival t) = 2147483648
     \<and> t_kind t = T_LONG \<and> rest lx' = bytes_of '';''"
proof -
  have "rest (start_lexer (bytes_of ''2147483648;'')) = dec_text 2147483648 @ bytes_of '';''"
    by (simp add: start_lexer_def rest_def bytes_of_def dec_text.simps)
  from decimal_roundtrip [OF this] show ?thesis
    by (auto simp: ends_number_def bytes_of_def is_alnum_def is_alpha_def is_digit_def)
qed

subsection \<open>String literals\<close>

text \<open>
  A string literal as the grammar of C99 has it (6.4.4.4, 6.4.5): characters, simple escapes and octal and
  hexadecimal escapes, each with its text and the byte it stands for. Digits are given by their characters.
\<close>

datatype lit_item = Plain u8 | Simple u8 | OctEsc "u8 list" | HexEsc "u8 list"

definition simple_escapes :: "(u8 \<times> u8) list" where
  "simple_escapes = [(110, 10), (116, 9), (114, 13), (92, 92), (39, 39), (34, 34), (97, 7), (98, 8), (102, 12), (118, 11), (63, 63)]"

definition octal_digit :: "u8 \<Rightarrow> bool" where
  "octal_digit d \<longleftrightarrow> 48 \<le> uint d \<and> uint d \<le> 55"

definition hexadecimal_digit :: "u8 \<Rightarrow> bool" where
  "hexadecimal_digit d \<longleftrightarrow> uint d \<in> {48..57} \<union> {65..70} \<union> {97..102}"

definition lit_digit :: "u8 \<Rightarrow> int" where
  "lit_digit d = (if uint d \<le> 57 then uint d - 48 else if uint d \<le> 70 then uint d - 55 else uint d - 87)"

definition lit_number :: "int \<Rightarrow> u8 list \<Rightarrow> int" where
  "lit_number base ds = foldl (\<lambda>v d. base * v + lit_digit d) 0 ds"

fun item_text :: "lit_item \<Rightarrow> u8 list" where
  "item_text (Plain b) = [b]"
| "item_text (Simple c) = [92, c]"
| "item_text (OctEsc ds) = 92 # ds"
| "item_text (HexEsc ds) = 92 # 120 # ds"

fun item_byte :: "lit_item \<Rightarrow> u8" where
  "item_byte (Plain b) = b"
| "item_byte (Simple c) = the (map_of simple_escapes c)"
| "item_byte (OctEsc ds) = word_of_int (lit_number 8 ds)"
| "item_byte (HexEsc ds) = word_of_int (lit_number 16 ds)"

definition literal_text :: "lit_item list \<Rightarrow> u8 list" where
  "literal_text is = 34 # concat (map item_text is) @ [34]"

text \<open>
  What may stand in a literal before the text \<open>aft\<close>: the value of a numeric escape is a byte, and its
  digits are all that could belong to it, three at most in an octal escape. An octal escape
  of several digits does not start with zero: this case is left out because the lexer cuts it short, see below.
\<close>

fun item_ok :: "lit_item \<Rightarrow> u8 list \<Rightarrow> bool" where
  "item_ok (Plain b) aft \<longleftrightarrow> b \<notin> {34, 92, 10}"
| "item_ok (Simple c) aft \<longleftrightarrow> c \<in> fst ` set simple_escapes"
| "item_ok (OctEsc ds) aft \<longleftrightarrow> 0 < length ds \<and> length ds \<le> 3 \<and> list_all octal_digit ds \<and> lit_number 8 ds < 256
     \<and> (length ds = 3 \<or> \<not> octal_digit (hd aft)) \<and> (length ds = 1 \<or> hd ds \<noteq> 48)"
| "item_ok (HexEsc ds) aft \<longleftrightarrow> 0 < length ds \<and> list_all hexadecimal_digit ds \<and> lit_number 16 ds < 256 \<and> \<not> hexadecimal_digit (hd aft)"

fun items_ok :: "lit_item list \<Rightarrow> bool" where
  "items_ok [] \<longleftrightarrow> True"
| "items_ok (i # is) \<longleftrightarrow> item_ok i (concat (map item_text is) @ [34]) \<and> items_ok is"

lemma shift_digit: "0 \<le> h \<Longrightarrow> h < 2 ^ n \<Longrightarrow> push_bit n v OR word_of_int h = word_of_int (2 ^ n) * v + word_of_int h" for v :: u32
proof -
  assume "0 \<le> h" "h < 2 ^ n"
  then have t: "take_bit n h = h" by (simp add: take_bit_int_eq_self)
  have "\<not> bit h k" if "n \<le> k" for k using that t by (metis bit_take_bit_iff not_le)
  then have "push_bit n v OR word_of_int h = push_bit n v + word_of_int h"
    by (intro disjunctive_add [symmetric]) (auto simp: bit_simps)
  then show ?thesis by (simp add: push_bit_eq_mult mult.commute)
qed

lemma hexval_digit: "hexadecimal_digit d \<Longrightarrow> hexval (uint d) = lit_digit d \<and> 0 \<le> lit_digit d \<and> lit_digit d < 16"
  by (auto simp: hexadecimal_digit_def hexval_def lit_digit_def)

lemma hexval_other: "\<not> hexadecimal_digit d \<Longrightarrow> hexval (uint d) = - 1"
  by (auto simp: hexadecimal_digit_def hexval_def)

lemma octal_value: "octal_digit d \<Longrightarrow> lit_digit d = uint d - 48 \<and> 0 \<le> lit_digit d \<and> lit_digit d < 8"
  by (simp add: octal_digit_def lit_digit_def)

text \<open>The two loops over digits accumulate the value of the digits, and stop behind them.\<close>

lemma hex_escape_digits:
  "rest lx = ds @ aft \<Longrightarrow> list_all hexadecimal_digit ds \<Longrightarrow> aft \<noteq> [] \<Longrightarrow> \<not> hexadecimal_digit (hd aft) \<Longrightarrow>
   \<exists>lx'. hex_escape lx (word_of_int v) = (word_of_int (foldl (\<lambda>v d. 16 * v + lit_digit d) v ds), lx')
     \<and> rest lx' = aft \<and> lx_diag lx' = lx_diag lx"
proof (induction ds arbitrary: lx v)
  case Nil
  then have "hexval (cur_ch lx) = - 1" by (cases aft) (simp_all add: cur_ch_rest hexval_other)
  with Nil show ?case by (simp add: hex_escape.simps)
next
  case (Cons d ds)
  have d: "hexval (cur_ch lx) = lit_digit d" "0 \<le> lit_digit d" "lit_digit d < 16"
    using Cons.prems hexval_digit [of d] by (simp_all add: cur_ch_rest)
  have "hex_escape lx (word_of_int v) = hex_escape (advance lx) (word_of_int (16 * v + lit_digit d))"
    using d shift_digit [of "lit_digit d" 4 "word_of_int v"] by (subst hex_escape.simps) (simp add: Let_def)
  then show ?case using Cons.IH [of "advance lx" "16 * v + lit_digit d"] Cons.prems by simp
qed

lemma oct_escape_digits:
  "rest lx = ds @ aft \<Longrightarrow> list_all octal_digit ds \<Longrightarrow> length ds \<le> n \<Longrightarrow> length ds = n \<or> aft \<noteq> [] \<and> \<not> octal_digit (hd aft) \<Longrightarrow>
   \<exists>lx'. oct_escape n lx (word_of_int v) = (word_of_int (foldl (\<lambda>v d. 8 * v + lit_digit d) v ds), lx')
     \<and> rest lx' = aft \<and> lx_diag lx' = lx_diag lx"
proof (induction ds arbitrary: lx v n)
  case Nil
  then show ?case by (cases n; cases aft) (auto simp: cur_ch_rest octal_digit_def Let_def)
next
  case (Cons d ds)
  then obtain m where m: "n = Suc m" by (cases n) auto
  have d: "cur_ch lx = uint d" "octal_digit d" "lit_digit d = uint d - 48" "0 \<le> lit_digit d" "lit_digit d < 8"
    using Cons.prems octal_value [of d] by (simp_all add: cur_ch_rest)
  have "oct_escape n lx (word_of_int v) = oct_escape m (advance lx) (word_of_int (8 * v + lit_digit d))"
    using d shift_digit [of "lit_digit d" 3 "word_of_int v"] by (simp add: m octal_digit_def Let_def)
  then show ?case using Cons.IH [of "advance lx" m "8 * v + lit_digit d"] Cons.prems by (simp add: m)
qed

lemma low_byte: "0 \<le> v \<Longrightarrow> v < 256 \<Longrightarrow> uint ((word_of_int v :: u32) AND 0xFF) = v"
proof -
  assume "0 \<le> v" "v < 256"
  then have v: "take_bit 8 v = v" "uint (word_of_int v :: u32) = v" by (simp_all add: take_bit_int_eq_self uint_word_of_int_eq)
  have "(0xFF :: u32) = mask 8" by (simp add: mask_eq_exp_minus_1)
  then have "(word_of_int v :: u32) AND 0xFF = take_bit 8 (word_of_int v)" by (simp only: take_bit_eq_mask)
  then show ?thesis using v by (simp only: unsigned_take_bit_eq)
qed

lemma digits_nonneg: "(\<And>d. d \<in> set ds \<Longrightarrow> 0 \<le> lit_digit d) \<Longrightarrow> 0 \<le> b \<Longrightarrow> 0 \<le> v \<Longrightarrow> 0 \<le> foldl (\<lambda>v d. b * v + lit_digit d) v ds"
  by (induction ds arbitrary: v) simp_all

text \<open>Every escape is read as the byte it stands for.\<close>

lemma read_escape_simple:
  assumes "rest lx = c # aft" "c \<in> fst ` set simple_escapes"
  shows "read_escape lx = (uint (item_byte (Simple c)), advance lx)"
proof -
  have "cur_ch lx = uint c" using assms(1) by (simp add: cur_ch_rest)
  with assms(2) show ?thesis
    unfolding simple_escapes_def by (simp, elim disjE; simp add: read_escape_def simple_escapes_def Let_def)
qed

lemma read_escape_octal:
  assumes "rest lx = ds @ aft" "item_ok (OctEsc ds) aft" "aft \<noteq> []"
  shows "\<exists>lx'. read_escape lx = (uint (item_byte (OctEsc ds)), lx') \<and> rest lx' = aft \<and> lx_diag lx' = lx_diag lx"
proof -
  obtain d es where ds: "ds = d # es" using assms(2) by (cases ds) auto
  have d: "octal_digit d" "cur_ch lx = uint d" using assms(1,2) ds by (simp_all add: cur_ch_rest)
  have v: "0 \<le> lit_number 8 ds" "lit_number 8 ds < 256"
    using assms(2) octal_value by (auto simp: lit_number_def list_all_iff intro!: digits_nonneg)
  show ?thesis
  proof (cases "d = 48")
    case True
    then have "es = []" using assms(2) ds by auto
    with True d assms(1) ds show ?thesis
      by (intro exI [of _ "advance lx"]) (simp add: read_escape_def Let_def lit_number_def lit_digit_def)
  next
    case False
    have n: "uint d \<noteq> 48" "48 \<le> uint d" "uint d \<le> 55" using False d(1) by (auto simp: octal_digit_def word_uint_eq_iff)
    have "\<exists>lx'. oct_escape 2 (advance lx) (word_of_int (lit_digit d)) = (word_of_int (foldl (\<lambda>v d. 8 * v + lit_digit d) (lit_digit d) es), lx')
        \<and> rest lx' = aft \<and> lx_diag lx' = lx_diag (advance lx)"
      using assms ds by (intro oct_escape_digits) auto
    then obtain lx' where lx': "oct_escape 2 (advance lx) (word_of_int (uint d - 48)) = (word_of_int (lit_number 8 ds), lx')"
      "rest lx' = aft" "lx_diag lx' = lx_diag lx"
      using octal_value [OF d(1)] by (auto simp: lit_number_def ds)
    have "read_escape lx = (uint ((word_of_int (lit_number 8 ds) :: u32) AND 0xFF), lx')"
      using d(2) n lx'(1) by (simp add: read_escape_def Let_def)
    with low_byte [OF v] lx'(2,3) v show ?thesis by (simp add: uint_word_of_int_eq take_bit_int_eq_self)
  qed
qed

lemma read_escape_hexadecimal:
  assumes "rest lx = 120 # ds @ aft" "item_ok (HexEsc ds) aft" "aft \<noteq> []"
  shows "\<exists>lx'. read_escape lx = (uint (item_byte (HexEsc ds)), lx') \<and> rest lx' = aft \<and> lx_diag lx' = lx_diag lx"
proof -
  have v: "0 \<le> lit_number 16 ds" "lit_number 16 ds < 256"
    using assms(2) hexval_digit by (auto simp: lit_number_def list_all_iff intro!: digits_nonneg)
  obtain lx' where lx': "hex_escape (advance lx) 0 = (word_of_int (lit_number 16 ds), lx')" "rest lx' = aft" "lx_diag lx' = lx_diag lx"
    using hex_escape_digits [of "advance lx" ds aft 0] assms by (auto simp: lit_number_def)
  have "cur_ch lx = 120" using assms(1) by (simp add: cur_ch_rest)
  then have "read_escape lx = (uint ((word_of_int (lit_number 16 ds) :: u32) AND 0xFF), lx')"
    using lx'(1) by (simp add: read_escape_def Let_def)
  with low_byte [OF v] lx'(2,3) v show ?thesis by (simp add: uint_word_of_int_eq take_bit_int_eq_self)
qed

lemma string_loop_item:
  assumes "rest lx = item_text i @ aft" "item_ok i aft" "aft \<noteq> []" "length buf < 65535"
  shows "\<exists>lx'. lex_string_loop lx buf = lex_string_loop lx' (buf @ [item_byte i]) \<and> rest lx' = aft \<and> lx_diag lx' = lx_diag lx"
proof (cases "\<exists>b. i = Plain b")
  case True
  then obtain b where b: "i = Plain b" "rest lx = b # aft" using assms(1) by auto
  moreover have "uint b \<noteq> 34" "uint b \<noteq> 92" "uint b \<noteq> 10"
    using assms(2) b(1) by (auto simp: word_uint_eq_iff)
  ultimately have "lex_string_loop lx buf = lex_string_loop (advance lx) (buf @ [b])"
    using assms(4) by (subst lex_string_loop.simps) (simp add: cur_ch_rest buf_add_def Let_def)
  with b show ?thesis by (intro exI [of _ "advance lx"]) simp
next
  case False
  then have esc: "rest lx = 92 # tl (item_text i) @ aft" using assms(1) by (cases i) simp_all
  have r: "\<exists>lx'. read_escape (advance lx) = (uint (item_byte i), lx') \<and> rest lx' = aft \<and> lx_diag lx' = lx_diag (advance lx)"
  proof (cases i)
    case (Simple c)
    then show ?thesis using read_escape_simple [of "advance lx" c aft] esc assms(2) by (auto simp del: item_byte.simps)
  next
    case (OctEsc ds)
    then show ?thesis using read_escape_octal [of "advance lx" ds aft] esc assms(2,3) by (auto simp del: item_byte.simps)
  next
    case (HexEsc ds)
    then show ?thesis using read_escape_hexadecimal [of "advance lx" ds aft] esc assms(2,3) by (auto simp del: item_byte.simps)
  qed (use False in simp)
  then obtain lx' where lx': "read_escape (advance lx) = (uint (item_byte i), lx')" "rest lx' = aft" "lx_diag lx' = lx_diag lx" by auto
  have "lex_string_loop lx buf = lex_string_loop lx' (buf @ [item_byte i])"
    using esc assms(4) lx'(1) by (subst lex_string_loop.simps) (simp add: cur_ch_rest buf_add_def Let_def)
  with lx' show ?thesis by blast
qed

lemma string_loop_items:
  "rest lx = concat (map item_text is) @ 34 # tail \<Longrightarrow> items_ok is \<Longrightarrow> length buf + length is \<le> 65535 \<Longrightarrow>
   \<exists>lx'. lex_string_loop lx buf = (buf @ map item_byte is, lx') \<and> rest lx' = tail \<and> lx_diag lx' = lx_diag lx"
proof (induction "is" arbitrary: lx buf)
  case Nil
  then show ?case
    by (intro exI [of _ "advance lx"]) (simp add: lex_string_loop.simps [of lx] cur_ch_rest)
next
  case (Cons i "is")
  let ?aft = "concat (map item_text is) @ 34 # tail"
  have "hd (concat (map item_text is) @ [34]) = hd ?aft" by (cases "concat (map item_text is)") (simp_all only: append.simps list.sel)
  then have "item_ok i ?aft" using Cons.prems(2) by (cases i) simp_all
  then obtain lx1 where "lex_string_loop lx buf = lex_string_loop lx1 (buf @ [item_byte i])" "rest lx1 = ?aft" "lx_diag lx1 = lx_diag lx"
    using string_loop_item [of lx i ?aft buf] Cons.prems by auto
  with Cons.IH [of lx1 "buf @ [item_byte i]"] Cons.prems(2,3) show ?case by auto
qed

lemma lex_one_literal:
  assumes "rest lx = literal_text is @ tail" "items_ok is" "length is \<le> 65535"
  shows "\<exists>t lx'. lex_one lx = (t, lx') \<and> t_kind t = T_STRING \<and> t_str t = map item_byte is \<and> rest lx' = tail
    \<and> lx_diag lx' = lx_diag lx"
proof -
  have r: "rest lx = 34 # concat (map item_text is) @ 34 # tail"
    using assms(1) by (simp add: literal_text_def)
  then have "skip_ws lx = lx" by (intro skip_ws_id) (auto simp: is_space_def)
  moreover obtain lx' where "lex_string_loop (advance lx) [] = (map item_byte is, lx')" "rest lx' = tail"
    "lx_diag lx' = lx_diag lx"
    using string_loop_items [of "advance lx" "is" tail "[]"] r assms(2,3) by auto
  moreover have "cur_ch lx = 34" using r by (simp add: cur_ch_rest)
  ultimately show ?thesis
    by (simp add: lex_one_def lex_string_def is_alpha_def is_digit_def Let_def)
qed

text \<open>
  C27. String literals are read as C99 defines them: for the text of any literal of at most 65535 characters, simple
  escapes, octal escapes and hexadecimal escapes whose values are bytes, lexing yields one string token with exactly the
  bytes they stand for, without a diagnostic, and leaves the text behind the literal. Left out are
  octal escapes of several digits that start with zero, which the lexer does not read as C99 has them.
  (Trigraphs are replaced before this phase in C99; the lexer has none.)
\<close>

theorem string_literal_correct:
  assumes "rest lx = literal_text is @ tail" and "items_ok is" and "length is \<le> 65535"
  shows "\<exists>t lx'. lex_one lx = (t, lx') \<and> t_kind t = T_STRING \<and> t_str t = map item_byte is \<and> rest lx' = tail
    \<and> lx_diag lx' = lx_diag lx"
  using assms by (rule lex_one_literal)

text \<open>The literal \<^verbatim>\<open>"H\n\0\x1b[\101"\<close> followed by a semicolon.\<close>

definition demo_literal :: "lit_item list" where
  "demo_literal = [Plain 72, Simple 110, OctEsc [48], HexEsc [49, 98], Plain 91, OctEsc [49, 48, 49]]"

theorem string_literal_correct_witness:
  "\<exists>t lx'. lex_one (start_lexer (literal_text demo_literal @ [59])) = (t, lx') \<and> t_str t = [72, 10, 0, 27, 91, 65] \<and> rest lx' = [59]"
proof -
  have "items_ok demo_literal" "map item_byte demo_literal = [72, 10, 0, 27, 91, 65]" by code_simp+
  moreover have "length demo_literal \<le> 65535" by (simp add: demo_literal_def)
  moreover have "rest (start_lexer (literal_text demo_literal @ [59])) = literal_text demo_literal @ [59]" by (simp add: start_lexer_def rest_def)
  ultimately show ?thesis using string_literal_correct [of "start_lexer (literal_text demo_literal @ [59])" demo_literal "[59]"] by metis
qed

text \<open>
  Octal escapes that start with zero are cut short: the \<^verbatim>\<open>'0'\<close> case returns NUL at once, so in a literal
  \<^verbatim>\<open>\0\<close> followed by more octal digits is a NUL and these digits as characters: \<^verbatim>\<open>"\033"\<close>
  (the escape character, byte 27) becomes the three bytes 0, '3', '3'.
\<close>

theorem octal_escape_zero_cut:
  "rest lx = 92 # 48 # aft \<Longrightarrow> length buf < 65535 \<Longrightarrow>
   lex_string_loop lx buf = lex_string_loop (advance (advance lx)) (buf @ [0])"
  by (subst lex_string_loop.simps) (simp add: cur_ch_rest read_escape_def buf_add_def Let_def)

theorem octal_escape_zero_cut_witness:
  "lex_string_loop (start_lexer [92, 48, 51, 51, 34]) [] = lex_string_loop (advance (advance (start_lexer [92, 48, 51, 51, 34]))) [0]"
  using octal_escape_zero_cut [of "start_lexer [92, 48, 51, 51, 34]" "[51, 51, 34]" "[]"] by (simp add: start_lexer_def rest_def)

theorem lex_one_positions_witness:
  "\<exists>t lx'. lex_one (start_lexer (bytes_of ''int x;'')) = (t, lx')
     \<and> t_line t = line_at (bytes_of ''int x;'') (src_off t) \<and> pos_ok lx'"
proof -
  obtain t lx' where one: "lex_one (start_lexer (bytes_of ''int x;'')) = (t, lx')" by fastforce
  have "pos_ok (start_lexer (bytes_of ''int x;''))"
    by (simp add: pos_ok_def start_lexer_def line_at_def col_at_def)
  from lex_one_positions [OF this one] one show ?thesis by (simp add: start_lexer_def)
qed

theorem lex_one_progress_witness:
  "\<exists>t lx'. lex_one (start_lexer (literal_text [Plain 72])) = (t, lx') \<and> t_kind t = T_STRING \<and> 0 < lx_pos lx'"
proof -
  obtain t lx' where one: "lex_one (start_lexer (literal_text [Plain 72])) = (t, lx')" "t_kind t = T_STRING"
    using lex_one_literal [of "start_lexer (literal_text [Plain 72])" "[Plain 72]" "[]"]
    by (auto simp: start_lexer_def rest_def)
  with lex_one_progress [OF one(1)] show ?thesis by (simp add: start_lexer_def)
qed

end
