(* ===== verification/Fixups.thy ===== *)
theory Fixups
  imports Encoder_Fields Tokens
begin

text \<open>
  Labels and fixups of \<^verbatim>\<open>src/arch/riscv64.c\<close>: the list of pending patches, their resolution at
  the end of a function, and the label-based branch and jump helpers.

  A patch offset is always the size of the text buffer at the time of the emission, so the
  four bytes patched exist. The list is the linked list of the code, in order.
\<close>

datatype fixup_kind = FX_BRANCH | FX_JUMP

record fixup =
  fx_kind :: fixup_kind
  patch_off :: u32
  target_off :: u32

record rv_state =
  rv_text :: cc_buf
  rv_fixups :: "fixup list"

definition new_fixup :: "fixup_kind \<Rightarrow> u32 \<Rightarrow> u32 \<Rightarrow> fixup list \<Rightarrow> fixup list" where
  "new_fixup k p t fs = fs @ [\<lparr>fx_kind = k, patch_off = p, target_off = t\<rparr>]"

definition patch_branch :: "u32 \<Rightarrow> u32 \<Rightarrow> u32" where
  "patch_branch insn imm =
     (insn AND NOT 0xFE000F80)
       OR (push_bit 19 (imm AND 0x1000) OR push_bit 20 (imm AND 0x7E0)
           OR push_bit 7 (imm AND 0x1E) OR drop_bit 4 (imm AND 0x800))"

definition patch_jump :: "u32 \<Rightarrow> u32 \<Rightarrow> u32" where
  "patch_jump insn imm =
     (insn AND NOT 0xFFFFF000)
       OR (push_bit 11 (imm AND 0x100000) OR push_bit 20 (imm AND 0x7FE)
           OR push_bit 9 (imm AND 0x800) OR (imm AND 0xFF000))"

text \<open>Reading and writing a little-endian word in the text bytes.\<close>

definition word_at :: "u8 list \<Rightarrow> nat \<Rightarrow> u32" where
  "word_at data off = un_le (take 4 (drop off data))"

definition put_word :: "u8 list \<Rightarrow> nat \<Rightarrow> u32 \<Rightarrow> u8 list" where
  "put_word data off w = take off data @ le32 w @ drop (off + 4) data"

definition resolve_fixup :: "fixup \<Rightarrow> cc_buf \<Rightarrow> cc_buf" where
  "resolve_fixup f text =
     (let delta = target_off f - patch_off f; off = unat (patch_off f);
          insn = word_at (buf_data text) off
      in text\<lparr>buf_data := put_word (buf_data text) off
           (case fx_kind f of FX_BRANCH \<Rightarrow> patch_branch insn delta | FX_JUMP \<Rightarrow> patch_jump insn delta)\<rparr>)"

definition rv_resolve_fixups :: "rv_state \<Rightarrow> rv_state" where
  "rv_resolve_fixups s = \<lparr>rv_text = fold resolve_fixup (rv_fixups s) (rv_text s), rv_fixups = []\<rparr>"

definition rv_label_set :: "rv_state \<Rightarrow> u32" where
  "rv_label_set s = word_of_nat (buf_size (rv_text s))"



definition rv_jal_label :: "u32 \<Rightarrow> u32 \<Rightarrow> rv_state \<Rightarrow> u32 \<times> rv_state" where
  "rv_jal_label rd label s =
     (let patch = word_of_nat (buf_size (rv_text s)); target = label; delta = target - patch;
          s = s\<lparr>rv_text := rv_jal rd delta (rv_text s)\<rparr>
      in if target = 0 then (patch, s\<lparr>rv_fixups := new_fixup FX_JUMP patch 0 (rv_fixups s)\<rparr>)
         else (label, s))"

subsection \<open>Patched words\<close>

text \<open>
  A patch depends on the instruction only through the bits that are not part of the immediate,
  and gives the same word as encoding the displacement directly.
\<close>

lemma patch_branch_word: "patch_branch (b_word f3 rs1 rs2 old) imm = b_word f3 rs1 rs2 imm"
  by (rule word32_eqI) (simp_all add: patch_branch_def b_word_def field_bits)

lemma patch_jump_word: "patch_jump (j_word rd old) imm = j_word rd imm"
  by (rule word32_eqI) (simp_all add: patch_jump_def j_word_def field_bits)

subsection \<open>Patching the text\<close>

lemma word_at_put_word:
  assumes "off + 4 \<le> length data"
  shows "word_at (put_word data off w) off = w" "length (put_word data off w) = length data"
  using assms by (simp_all add: word_at_def put_word_def min_def)

lemma put_word_frame:
  assumes "off + 4 \<le> length data" "i < length data" "i < off \<or> off + 4 \<le> i"
  shows "put_word data off w ! i = data ! i"
  using assms by (auto simp: put_word_def nth_append min_def)

definition fixup_ok :: "nat \<Rightarrow> fixup \<Rightarrow> bool" where
  "fixup_ok n f \<longleftrightarrow> unat (patch_off f) + 4 \<le> n"

definition in_patch :: "fixup list \<Rightarrow> nat \<Rightarrow> bool" where
  "in_patch fs i \<longleftrightarrow> (\<exists>f \<in> set fs. unat (patch_off f) \<le> i \<and> i < unat (patch_off f) + 4)"

lemma resolve_frame:
  "list_all (fixup_ok (length (buf_data tb))) fs \<Longrightarrow>
   length (buf_data (fold resolve_fixup fs tb)) = length (buf_data tb)
   \<and> (\<forall>i < length (buf_data tb). \<not> in_patch fs i \<longrightarrow>
        buf_data (fold resolve_fixup fs tb) ! i = buf_data tb ! i)"
proof (induction fs arbitrary: tb)
  case Nil
  then show ?case by simp
next
  case (Cons f fs)
  let ?t = "resolve_fixup f tb"
  from Cons.prems have ok: "unat (patch_off f) + 4 \<le> length (buf_data tb)" by (simp add: fixup_ok_def)
  have len: "length (buf_data ?t) = length (buf_data tb)"
    using ok by (simp add: resolve_fixup_def Let_def word_at_put_word)
  have "buf_data ?t ! i = buf_data tb ! i"
    if "i < length (buf_data tb)" "i < unat (patch_off f) \<or> unat (patch_off f) + 4 \<le> i" for i
    using that ok by (simp add: resolve_fixup_def Let_def put_word_frame)
  with Cons.IH [of ?t] Cons.prems len show ?case
    by (auto simp: in_patch_def not_less)
qed

text \<open>Pending patches of different instructions do not overlap.\<close>

definition apart :: "fixup list \<Rightarrow> bool" where
  "apart fs \<longleftrightarrow> sorted_wrt (\<lambda>f g. unat (patch_off f) + 4 \<le> unat (patch_off g)) fs"

lemma word_at_cong:
  assumes "off + 4 \<le> length xs" "length ys = length xs" "\<And>i. off \<le> i \<Longrightarrow> i < off + 4 \<Longrightarrow> ys ! i = xs ! i"
  shows "word_at ys off = word_at xs off"
proof -
  have "take 4 (drop off ys) = take 4 (drop off xs)"
    using assms by (intro nth_equalityI) auto
  then show ?thesis by (simp add: word_at_def)
qed

lemma resolve_at:
  assumes "list_all (fixup_ok (length (buf_data tb))) fs" "apart fs" "f \<in> set fs"
  shows "word_at (buf_data (fold resolve_fixup fs tb)) (unat (patch_off f)) =
    (let insn = word_at (buf_data tb) (unat (patch_off f)); delta = target_off f - patch_off f
     in case fx_kind f of FX_BRANCH \<Rightarrow> patch_branch insn delta | FX_JUMP \<Rightarrow> patch_jump insn delta)"
  using assms
proof (induction fs arbitrary: tb)
  case (Cons g fs)
  let ?t = "resolve_fixup g tb"
  from Cons.prems have ok: "unat (patch_off g) + 4 \<le> length (buf_data tb)" by (simp add: fixup_ok_def)
  have len: "length (buf_data ?t) = length (buf_data tb)"
    using ok by (simp add: resolve_fixup_def Let_def word_at_put_word)
  have rest: "list_all (fixup_ok (length (buf_data ?t))) fs" "apart fs"
    using Cons.prems len by (simp_all add: apart_def)
  show ?case
  proof (cases "f = g")
    case True
    have "\<not> in_patch fs i" if "i < unat (patch_off g) + 4" for i
      using that Cons.prems(2) by (fastforce simp: in_patch_def apart_def)
    then have "word_at (buf_data (fold resolve_fixup fs ?t)) (unat (patch_off g)) =
        word_at (buf_data ?t) (unat (patch_off g))"
      using resolve_frame [OF rest(1)] ok len by (intro word_at_cong) auto
    moreover have "word_at (buf_data ?t) (unat (patch_off g)) =
        (let insn = word_at (buf_data tb) (unat (patch_off g)); delta = target_off g - patch_off g
         in case fx_kind g of FX_BRANCH \<Rightarrow> patch_branch insn delta | FX_JUMP \<Rightarrow> patch_jump insn delta)"
      using ok by (simp add: resolve_fixup_def Let_def word_at_put_word)
    ultimately show ?thesis using True by simp
  next
    case False
    with Cons.prems(3) have f: "f \<in> set fs" by simp
    then have "unat (patch_off f) + 4 \<le> length (buf_data tb)" "unat (patch_off g) + 4 \<le> unat (patch_off f)"
      using Cons.prems by (auto simp: list_all_iff fixup_ok_def apart_def)
    then have "word_at (buf_data ?t) (unat (patch_off f)) = word_at (buf_data tb) (unat (patch_off f))"
      using ok len by (intro word_at_cong) (auto simp: resolve_fixup_def Let_def put_word_frame)
    with Cons.IH [OF rest f] show ?thesis by simp
  qed
qed simp

text \<open>The instruction at the place of a fixup, with the displacement it encodes, how far it reaches, and what the interpreter decodes.\<close>

definition pending_insn :: "fixup_kind \<Rightarrow> u32 \<Rightarrow> u32 \<Rightarrow> u32 \<Rightarrow> u32 \<Rightarrow> u32 \<Rightarrow> u32" where
  "pending_insn k f3 rs1 rs2 rd d = (case k of FX_BRANCH \<Rightarrow> b_word f3 rs1 rs2 d | FX_JUMP \<Rightarrow> j_word rd d)"

definition fixup_reach :: "fixup_kind \<Rightarrow> int" where
  "fixup_reach k = (case k of FX_BRANCH \<Rightarrow> 4096 | FX_JUMP \<Rightarrow> 1048576)"

definition decoded_disp :: "fixup_kind \<Rightarrow> u32 \<Rightarrow> u64" where
  "decoded_disp k w = (case k of FX_BRANCH \<Rightarrow> imm_b w | FX_JUMP \<Rightarrow> imm_j w)"

lemma decoded_pending:
  assumes "even d" "- fixup_reach k \<le> sint d" "sint d < fixup_reach k"
  shows "decoded_disp k (pending_insn k f3 rs1 rs2 rd d) = scast d"
  using assms imm_b_b_word [of d] imm_j_j_word [of d]
  by (cases k) (simp_all add: decoded_disp_def pending_insn_def fixup_reach_def)

text \<open>
  C31. Resolving fixups: every pending branch and every pending jump whose displacement is even and within the
  reach of its instruction (4 KiB for a branch, 1 MiB for a jump) decodes,
  after \<^verbatim>\<open>rv_resolve_fixups\<close>, to the displacement from its place to its recorded target, with
  its comparison and registers unchanged; all bytes outside the patched instructions and the
  length of the text stay as they were, and no fixup remains pending.
\<close>

theorem resolve_fixups_correct:
  assumes "list_all (fixup_ok (length (buf_data (rv_text s)))) (rv_fixups s)" and "apart (rv_fixups s)"
    and "f \<in> set (rv_fixups s)"
    and "word_at (buf_data (rv_text s)) (unat (patch_off f)) = pending_insn (fx_kind f) f3 rs1 rs2 rd old"
    and "even (target_off f - patch_off f)"
    and "- fixup_reach (fx_kind f) \<le> sint (target_off f - patch_off f)" and "sint (target_off f - patch_off f) < fixup_reach (fx_kind f)"
  shows "let s' = rv_resolve_fixups s; w = word_at (buf_data (rv_text s')) (unat (patch_off f))
    in decoded_disp (fx_kind f) w = scast (target_off f - patch_off f)
      \<and> w = pending_insn (fx_kind f) f3 rs1 rs2 rd (target_off f - patch_off f)
      \<and> rv_fixups s' = [] \<and> length (buf_data (rv_text s')) = length (buf_data (rv_text s))
      \<and> (\<forall>i < length (buf_data (rv_text s)). \<not> in_patch (rv_fixups s) i \<longrightarrow>
           buf_data (rv_text s') ! i = buf_data (rv_text s) ! i)"
proof -
  have "word_at (buf_data (rv_text (rv_resolve_fixups s))) (unat (patch_off f))
      = pending_insn (fx_kind f) f3 rs1 rs2 rd (target_off f - patch_off f)"
    using resolve_at [OF assms(1-3)] assms(4)
    by (cases "fx_kind f") (simp_all add: rv_resolve_fixups_def pending_insn_def patch_branch_word patch_jump_word Let_def)
  then show ?thesis
    using resolve_frame [OF assms(1)] decoded_pending [OF assms(5-7)] by (simp add: rv_resolve_fixups_def Let_def)
qed

text \<open>A branch forward and a jump backward, both pending.\<close>

definition two_pending :: rv_state where
  "two_pending = \<lparr>rv_text = rv_nop (rv_jal 1 0 (rv_beq 5 6 0 (rv_nop cc_buf_init))),
     rv_fixups = [\<lparr>fx_kind = FX_BRANCH, patch_off = 4, target_off = 12\<rparr>, \<lparr>fx_kind = FX_JUMP, patch_off = 8, target_off = 0\<rparr>]\<rparr>"

theorem resolve_fixups_correct_witness:
  "imm_b (word_at (buf_data (rv_text (rv_resolve_fixups two_pending))) 4) = 8
   \<and> imm_j (word_at (buf_data (rv_text (rv_resolve_fixups two_pending))) 8) = - 8"
proof -
  have w: "word_at (buf_data (rv_text two_pending)) 4 = pending_insn FX_BRANCH 0 5 6 0 0"
    "word_at (buf_data (rv_text two_pending)) 8 = pending_insn FX_JUMP 0 0 0 1 0" "length (buf_data (rv_text two_pending)) = 16"
    by code_simp+
  have l: "list_all (fixup_ok (length (buf_data (rv_text two_pending)))) (rv_fixups two_pending)" "apart (rv_fixups two_pending)"
    using w(3) by (simp_all add: two_pending_def fixup_ok_def apart_def)
  have f: "\<lparr>fx_kind = FX_BRANCH, patch_off = 4, target_off = 12\<rparr> \<in> set (rv_fixups two_pending)"
    "\<lparr>fx_kind = FX_JUMP, patch_off = 8, target_off = 0\<rparr> \<in> set (rv_fixups two_pending)"
    by (simp_all add: two_pending_def)
  show ?thesis
    using resolve_fixups_correct [OF l f(1), of 0 5 6 0 0] resolve_fixups_correct [OF l f(2), of 0 0 0 1 0] w
    by (simp add: Let_def decoded_disp_def fixup_reach_def pending_insn_def imm_b_b_word imm_j_j_word)
qed






end
