(* ===== verification/Onx_Format.thy ===== *)
theory Onx_Format
  imports Buffers
begin

text \<open>
  The executable format of \<^verbatim>\<open>include/core/onx.h\<close> and its writer \<^verbatim>\<open>src/back/emit.c\<close>: little-endian
  fields, segment descriptors, the segment layout and the bytes of the file. File output
  itself is not modelled: the result of \<^verbatim>\<open>onx_emit\<close> is the contents of the file.
\<close>

subsection \<open>Little-endian fields\<close>

text \<open>Storing bytes at an offset of an array that is long enough.\<close>

definition put_bytes :: "u8 list \<Rightarrow> nat \<Rightarrow> u8 list \<Rightarrow> u8 list" where
  "put_bytes p off bs = take off p @ bs @ drop (off + length bs) p"

definition put_u32le :: "u8 list \<Rightarrow> nat \<Rightarrow> u32 \<Rightarrow> u8 list" where
  "put_u32le p off v =
     put_bytes p off [ucast (v AND 0xff), ucast (drop_bit 8 v AND 0xff),
                      ucast (drop_bit 16 v AND 0xff), ucast (drop_bit 24 v AND 0xff)]"

primrec u64le_from :: "nat \<Rightarrow> u64 \<Rightarrow> u8 list" where
  "u64le_from 0 v = []"
| "u64le_from (Suc n) v = ucast (v AND 0xff) # u64le_from n (drop_bit 8 v)"

definition put_u64le :: "u8 list \<Rightarrow> nat \<Rightarrow> u64 \<Rightarrow> u8 list" where
  "put_u64le p off v = put_bytes p off (u64le_from 8 v)"

subsection \<open>Segments\<close>

record OnxSegment =
  seg_vaddr :: u64
  seg_filesz :: u64
  seg_memsz :: u64
  seg_offset :: u32
  seg_flags :: u32
  seg_align :: u32
  seg_reserved :: u32

definition ONX_MAGIC :: u32 where "ONX_MAGIC = 0x31584E4F"
definition ONX_VERSION_1 :: u32 where "ONX_VERSION_1 = 1"
definition ONX_FLAGS_RING1 :: u32 where "ONX_FLAGS_RING1 = 2"
definition ONX_VMM_R :: u32 where "ONX_VMM_R = push_bit 1 1"
definition ONX_VMM_W :: u32 where "ONX_VMM_W = push_bit 2 1"
definition ONX_VMM_X :: u32 where "ONX_VMM_X = push_bit 3 1"
definition ONX_V1_FIXED_HDR :: nat where "ONX_V1_FIXED_HDR = 24"
definition ONX_V1_SEG_SIZE :: nat where "ONX_V1_SEG_SIZE = 40"
definition ONX_V1_MAX_SEGS :: nat where "ONX_V1_MAX_SEGS = 8"
definition ONX_V1_HEADER_SIZE :: nat where
  "ONX_V1_HEADER_SIZE = ONX_V1_FIXED_HDR + ONX_V1_MAX_SEGS * ONX_V1_SEG_SIZE"

definition write_segment_v1 :: "u8 list \<Rightarrow> nat \<Rightarrow> OnxSegment \<Rightarrow> u8 list" where
  "write_segment_v1 p off s =
     (let p = put_u64le p off (seg_vaddr s);
          p = put_u64le p (off + 8) (seg_filesz s);
          p = put_u64le p (off + 16) (seg_memsz s);
          p = put_u32le p (off + 24) (seg_offset s);
          p = put_u32le p (off + 28) (seg_flags s);
          p = put_u32le p (off + 32) (seg_align s)
      in put_u32le p (off + 36) (seg_reserved s))"

subsection \<open>The writer\<close>

definition CC_TEXT_VADDR :: u64 where "CC_TEXT_VADDR = 0x10000"
definition CC_RODATA_ALIGN :: u64 where "CC_RODATA_ALIGN = 8"
definition CC_DATA_ALIGN :: u64 where "CC_DATA_ALIGN = 8"
definition CC_BSS_ALIGN :: u64 where "CC_BSS_ALIGN = 8"

definition size_of :: "cc_buf option \<Rightarrow> u64" where
  "size_of b = (case b of None \<Rightarrow> 0 | Some b \<Rightarrow> word_of_nat (buf_size b))"

definition bytes_of_buf :: "cc_buf option \<Rightarrow> u8 list" where
  "bytes_of_buf b = (case b of None \<Rightarrow> [] | Some b \<Rightarrow> take (buf_size b) (buf_data b))"

definition rodata_vaddr :: "cc_buf \<Rightarrow> u64" where
  "rodata_vaddr tb =
     (CC_TEXT_VADDR + word_of_nat (buf_size tb) + CC_RODATA_ALIGN - 1) AND NOT (CC_RODATA_ALIGN - 1)"

definition data_vaddr :: "cc_buf \<Rightarrow> cc_buf option \<Rightarrow> u64" where
  "data_vaddr tb rodata =
     (rodata_vaddr tb + size_of rodata + CC_DATA_ALIGN - 1) AND NOT (CC_DATA_ALIGN - 1)"

definition bss_vaddr :: "cc_buf \<Rightarrow> cc_buf option \<Rightarrow> cc_buf option \<Rightarrow> u64" where
  "bss_vaddr tb rodata data =
     (data_vaddr tb rodata + size_of data + CC_BSS_ALIGN - 1) AND NOT (CC_BSS_ALIGN - 1)"

definition onx_segments :: "cc_buf \<Rightarrow> cc_buf option \<Rightarrow> cc_buf option \<Rightarrow> u64 \<Rightarrow> OnxSegment list" where
  "onx_segments tb rodata data bss_size =
     [\<lparr>seg_vaddr = CC_TEXT_VADDR, seg_filesz = word_of_nat (buf_size tb),
       seg_memsz = word_of_nat (buf_size tb), seg_offset = word_of_nat ONX_V1_HEADER_SIZE,
       seg_flags = ONX_VMM_R OR ONX_VMM_X, seg_align = 4, seg_reserved = 0\<rparr>,
      \<lparr>seg_vaddr = rodata_vaddr tb, seg_filesz = size_of rodata, seg_memsz = size_of rodata,
       seg_offset = ucast (word_of_nat (ONX_V1_HEADER_SIZE + buf_size tb) :: u64),
       seg_flags = ONX_VMM_R, seg_align = ucast CC_RODATA_ALIGN, seg_reserved = 0\<rparr>,
      \<lparr>seg_vaddr = data_vaddr tb rodata, seg_filesz = size_of data, seg_memsz = size_of data,
       seg_offset = ucast (word_of_nat (ONX_V1_HEADER_SIZE + buf_size tb) + size_of rodata),
       seg_flags = ONX_VMM_R OR ONX_VMM_W, seg_align = ucast CC_DATA_ALIGN, seg_reserved = 0\<rparr>]
     @ (if 0 < bss_size
        then [\<lparr>seg_vaddr = bss_vaddr tb rodata data, seg_filesz = 0, seg_memsz = bss_size,
               seg_offset = 0, seg_flags = ONX_VMM_R OR ONX_VMM_W, seg_align = ucast CC_BSS_ALIGN,
               seg_reserved = 0\<rparr>]
        else [])"

primrec write_segments :: "u8 list \<Rightarrow> nat \<Rightarrow> OnxSegment list \<Rightarrow> u8 list" where
  "write_segments hdr i [] = hdr"
| "write_segments hdr i (s # segs) =
     write_segments (write_segment_v1 hdr (ONX_V1_FIXED_HDR + i * ONX_V1_SEG_SIZE) s) (Suc i) segs"

definition onx_emit :: "cc_buf \<Rightarrow> cc_buf option \<Rightarrow> cc_buf option \<Rightarrow> u64 \<Rightarrow> u64 \<Rightarrow> bool \<Rightarrow> u8 list" where
  "onx_emit tb rodata data bss_size entry ring1 =
     (let segs = onx_segments tb rodata data bss_size;
          hdr = replicate ONX_V1_HEADER_SIZE 0;
          hdr = put_u32le hdr 0 ONX_MAGIC;
          hdr = put_u32le hdr 4 ONX_VERSION_1;
          hdr = put_u64le hdr 8 entry;
          hdr = put_u32le hdr 16 (word_of_nat (length segs));
          hdr = put_u32le hdr 20 (if ring1 then ONX_FLAGS_RING1 else 0);
          hdr = write_segments hdr 0 segs
      in hdr @ bytes_of_buf (Some tb) @ bytes_of_buf rodata @ bytes_of_buf data)"

subsection \<open>Reading fields back\<close>

text \<open>An integer field of a given width at an offset.\<close>

definition field_at :: "u8 list \<Rightarrow> nat \<Rightarrow> nat \<Rightarrow> u8 list" where
  "field_at p off n = take n (drop off p)"

lemma put_bytes_field:
  assumes "off + length bs \<le> length p"
  shows "field_at (put_bytes p off bs) off (length bs) = bs" "length (put_bytes p off bs) = length p"
  using assms by (simp_all add: field_at_def put_bytes_def)

lemma put_bytes_other:
  assumes "off + length bs \<le> length p" "off' + n \<le> off \<or> off + length bs \<le> off'"
  shows "field_at (put_bytes p off bs) off' n = field_at p off' n"
  using assms
  by (elim disjE) (simp_all add: field_at_def put_bytes_def drop_take min_def le_diff_conv2 add.commute)

lemma put_u32le_eq: "put_u32le p off v = put_bytes p off (le32 v)"
  by (simp add: put_u32le_def ucast_and_ff le_bytes_4)

lemma u64le_from_eq: "u64le_from n v = le_bytes n v"
  by (induction n arbitrary: v) (simp_all add: ucast_and_ff)

lemma put_u64le_eq: "put_u64le p off v = put_bytes p off (le64 v)"
  by (simp add: put_u64le_def u64le_from_eq)

lemmas put_le = put_u32le_eq put_u64le_eq

subsection \<open>The file as a concatenation\<close>

lemma put_bytes_join:
  assumes "off + length xs + length ys \<le> length p" "off' = off + length xs"
  shows "put_bytes (put_bytes p off xs) off' ys = put_bytes p off (xs @ ys)"
  using assms by (simp add: put_bytes_def ac_simps)

definition seg_bytes :: "OnxSegment \<Rightarrow> u8 list" where
  "seg_bytes s = le64 (seg_vaddr s) @ le64 (seg_filesz s) @ le64 (seg_memsz s) @ le32 (seg_offset s)
     @ le32 (seg_flags s) @ le32 (seg_align s) @ le32 (seg_reserved s)"

lemma length_seg_bytes [simp]: "length (seg_bytes s) = 40"
  by (simp add: seg_bytes_def)

lemma write_segment_v1_eq:
  "off + 40 \<le> length p \<Longrightarrow> write_segment_v1 p off s = put_bytes p off (seg_bytes s)"
  by (simp add: write_segment_v1_def put_le put_bytes_join seg_bytes_def Let_def)

lemma length_put_bytes [simp]: "off + length bs \<le> length p \<Longrightarrow> length (put_bytes p off bs) = length p"
  by (simp add: put_bytes_def)

lemma put_bytes_nil [simp]: "put_bytes p off [] = p"
  by (simp add: put_bytes_def)

lemma write_segments_eq:
  "24 + (i + length segs) * 40 \<le> length hdr \<Longrightarrow>
     write_segments hdr i segs = put_bytes hdr (24 + i * 40) (concat (map seg_bytes segs))"
proof (induction segs arbitrary: hdr i)
  case Nil
  then show ?case by simp
next
  case (Cons s segs)
  have len: "length (concat (map seg_bytes segs)) = 40 * length segs"
    by (simp add: length_concat o_def sum_list_triv)
  have "write_segments hdr i (s # segs) =
      put_bytes (put_bytes hdr (24 + i * 40) (seg_bytes s)) (24 + Suc i * 40) (concat (map seg_bytes segs))"
    using Cons by (simp add: write_segment_v1_eq ONX_V1_FIXED_HDR_def ONX_V1_SEG_SIZE_def)
  also have "\<dots> = put_bytes hdr (24 + i * 40) (concat (map seg_bytes (s # segs)))"
    using Cons.prems by (subst put_bytes_join) (simp_all add: len)
  finally show ?case .
qed

definition header_bytes :: "u64 \<Rightarrow> bool \<Rightarrow> OnxSegment list \<Rightarrow> u8 list" where
  "header_bytes entry ring1 segs =
     le32 ONX_MAGIC @ le32 ONX_VERSION_1 @ le64 entry @ le32 (word_of_nat (length segs))
       @ le32 (if ring1 then ONX_FLAGS_RING1 else 0) @ concat (map seg_bytes segs)
       @ replicate (320 - 40 * length segs) 0"

lemma length_onx_segments: "length (onx_segments tb rodata data bss) \<le> 4"
  by (simp add: onx_segments_def)

text \<open>The file is the header, the descriptors, padding up to 344 bytes, and the three segments.\<close>

lemma onx_emit_eq:
  "onx_emit tb rodata data bss entry ring1 =
     header_bytes entry ring1 (onx_segments tb rodata data bss)
       @ bytes_of_buf (Some tb) @ bytes_of_buf rodata @ bytes_of_buf data"
proof -
  let ?segs = "onx_segments tb rodata data bss"
  let ?fixed = "le32 ONX_MAGIC @ le32 ONX_VERSION_1 @ le64 entry @ le32 (word_of_nat (length ?segs))
       @ le32 (if ring1 then ONX_FLAGS_RING1 else 0)"
  let ?z = "replicate 344 0 :: u8 list"
  have len: "length (concat (map seg_bytes ?segs)) = 40 * length ?segs"
    by (simp add: length_concat o_def sum_list_triv)
  have hdr: "put_u32le (put_u32le (put_u64le (put_u32le (put_u32le ?z 0 ONX_MAGIC) 4 ONX_VERSION_1) 8 entry)
      16 (word_of_nat (length ?segs))) 20 (if ring1 then ONX_FLAGS_RING1 else 0) = put_bytes ?z 0 ?fixed"
    by (simp add: put_le put_bytes_join)
  have "write_segments (put_bytes ?z 0 ?fixed) 0 ?segs = put_bytes ?z 0 (?fixed @ concat (map seg_bytes ?segs))"
    using length_onx_segments [of tb rodata data bss] len
    by (subst write_segments_eq) (simp_all add: put_bytes_join)
  also have "\<dots> = header_bytes entry ring1 ?segs"
    using length_onx_segments [of tb rodata data bss] len
    by (simp add: put_bytes_def header_bytes_def)
  finally show ?thesis
    unfolding onx_emit_def Let_def ONX_V1_HEADER_SIZE_def ONX_V1_FIXED_HDR_def ONX_V1_MAX_SEGS_def
      ONX_V1_SEG_SIZE_def
    using hdr by simp
qed

lemma length_header_bytes: "length segs \<le> 8 \<Longrightarrow> length (header_bytes entry ring1 segs) = 344"
  by (simp add: header_bytes_def length_concat o_def sum_list_triv)

lemma field_at_left: "off + n \<le> length xs \<Longrightarrow> field_at (xs @ ys) off n = field_at xs off n"
  by (simp add: field_at_def)

lemma field_at_right: "length xs \<le> off \<Longrightarrow> field_at (xs @ ys) off n = field_at ys (off - length xs) n"
  by (simp add: field_at_def)

lemma field_at_all [simp]: "n = length xs \<Longrightarrow> field_at xs 0 n = xs"
  by (simp add: field_at_def)

end
