(* ===== verification/Loader.thy ===== *)
theory Loader
  imports Onx_Format Emulator_Inv
begin

text \<open>
  Starting a program in \<^verbatim>\<open>tools/onx-run.c\<close>: \<^verbatim>\<open>load_onx\<close> reads an executable into memory,
  \<^verbatim>\<open>setup_stack\<close> builds the argument frame, and \<^verbatim>\<open>main\<close> puts both together and runs the
  interpreter. The file is the list of its bytes; reading a descriptor or segment data behind
  its end is undefined in the code and is the value \<open>HostUndefined\<close> here.
\<close>

subsection \<open>The loader\<close>

definition u32_at :: "u8 list \<Rightarrow> nat \<Rightarrow> u32" where
  "u32_at buf off = un_le (field_at buf off 4)"

definition u64_at :: "u8 list \<Rightarrow> nat \<Rightarrow> u64" where
  "u64_at buf off = un_le (field_at buf off 8)"

definition map_segment :: "u64 \<Rightarrow> u64 \<Rightarrow> pages \<Rightarrow> stop + pages" where
  "map_segment vaddr memsz m =
     (if memsz \<noteq> 0 then map_range m (vaddr AND NOT 0xFFF) (vaddr + memsz) else Inr m)"

definition load_segment :: "u8 list \<Rightarrow> nat \<Rightarrow> pages \<Rightarrow> stop + pages" where
  "load_segment buf s m =
     (let sh = 24 + s * 40
      in if length buf < sh + 28 then Inl HostUndefined
         else let vaddr = u64_at buf sh; filesz = u64_at buf (sh + 8); memsz = u64_at buf (sh + 16);
                  offset = u32_at buf (sh + 24)
              in bindE (map_segment vaddr memsz m)
                   (\<lambda>m. if filesz \<noteq> 0
                        then (if length buf < unat offset + unat filesz then Inl HostUndefined
                              else mem_write_buf m vaddr (field_at buf (unat offset) (unat filesz)))
                        else Inr m))"

primrec load_segments :: "u8 list \<Rightarrow> nat \<Rightarrow> nat \<Rightarrow> pages \<Rightarrow> stop + pages" where
  "load_segments buf s 0 m = Inr m"
| "load_segments buf s (Suc n) m = bindE (load_segment buf s m) (load_segments buf (Suc s) n)"

definition load_onx :: "u8 list \<Rightarrow> stop + u64 \<times> pages" where
  "load_onx buf =
     (if length buf < 24 then Inl (BadImage TooSmall)
      else let magic = u32_at buf 0; nsegs = u32_at buf 16; entry = u64_at buf 8
           in if magic \<noteq> ONX_MAGIC then Inl (BadImage (BadMagic magic))
              else if nsegs = 0 \<or> 8 < nsegs then Inl (BadImage (BadSegmentCount nsegs))
              else if entry = 0 then Inl (BadImage NoEntry)
              else bindE (load_segments buf 0 (unat nsegs) Map.empty) (\<lambda>m. Inr (entry, m)))"

subsection \<open>The argument frame\<close>

text \<open>Pushing the strings; the result has the stack pointer and the address of each string.\<close>

primrec push_args :: "u8 list list \<Rightarrow> u64 \<Rightarrow> u64 list \<Rightarrow> pages \<Rightarrow> stop + u64 \<times> u64 list \<times> pages" where
  "push_args [] sp ptrs m = Inr (sp, ptrs, m)"
| "push_args (arg # args) sp ptrs m =
     (let sp = sp - word_of_nat (length arg + 1)
      in bindE (mem_write_buf m sp (arg @ [0])) (push_args args sp (ptrs @ [sp])))"

primrec write_words :: "u64 list \<Rightarrow> u64 \<Rightarrow> pages \<Rightarrow> stop + pages" where
  "write_words [] p m = Inr m"
| "write_words (v # vs) p m = bindE (mem_write m p v 8) (write_words vs (p + 8))"

primrec write_entropy :: "'h host_ops \<Rightarrow> nat \<Rightarrow> u64 \<Rightarrow> 'h \<times> pages \<Rightarrow> stop + 'h \<times> pages" where
  "write_entropy h 0 a r = Inr r"
| "write_entropy h (Suc n) a r =
     (let x = h_rand h (fst r)
      in bindE (mem_write8 (snd r) a (ucast (fst x AND 0xff)))
           (\<lambda>m. write_entropy h n (a + 1) (snd x, m)))"

definition setup_stack :: "'h host_ops \<Rightarrow> u8 list list \<Rightarrow> 'h cpu \<Rightarrow> stop + 'h cpu" where
  "setup_stack h argv s =
     (let n = min (length argv) 63
      in bindE (push_args (take n argv) (0x20000000 - 4096) [] (g_pages s))
           (\<lambda>(sp, argv_str, m).
              let sp = sp AND NOT 0xF;
                  sp = sp - word_of_nat (16 + 32 + 8 + 8 + (n + 1) * 8);
                  frame = sp AND NOT 0xF;
                  rnd = frame - 16
              in bindE (write_words (word_of_nat n # argv_str @ [0, 0]) frame m)
                   (\<lambda>m. bindE (write_entropy h 16 rnd (g_host s, m))
                   (\<lambda>(hs, m). bindE (write_words [25, rnd, 0, 0] (frame + word_of_nat (8 * (n + 3))) m)
                   (\<lambda>m. Inr (s\<lparr>g_pages := m, g_host := hs,
                          g_reg := (g_reg s)(2 := frame, 10 := word_of_nat n, 11 := frame + 8)\<rparr>))))))"

subsection \<open>The program\<close>

definition onx_run_main :: "fpu \<Rightarrow> 'h host_ops \<Rightarrow> 'h \<Rightarrow> u8 list \<Rightarrow> u8 list list \<Rightarrow> stop" where
  "onx_run_main u h hs file argv =
     (case bindE (load_onx file)
        (\<lambda>(entry, m).
           bindE (setup_stack h argv
                    \<lparr>g_pages = m, g_reg = (\<lambda>_. 0), g_freg = (\<lambda>_. 0), g_pc = 0, g_fcsr = 0, g_brk = 0,
                     g_fds = (\<lambda>i. if i < 3 then int i else - 1), g_host = hs\<rparr>)
             (\<lambda>s. bindE (map_range (g_pages s) (0x20000000 - 0x100000) 0x20000000)
                (\<lambda>m. Inr (s\<lparr>g_pages := m, g_brk := 0x01000000, g_pc := entry\<rparr>)))) of
        Inl e \<Rightarrow> e
      | Inr s \<Rightarrow> main_loop u h s)"

subsection \<open>Memory contents\<close>

text \<open>The byte at an address, zero where nothing is mapped, and the mapped addresses.\<close>

definition byte_of :: "pages \<Rightarrow> u64 \<Rightarrow> u8" where
  "byte_of m a =
     (case m (unat (drop_bit PAGE_BITS a)) of None \<Rightarrow> 0 | Some p \<Rightarrow> p (unat (a AND PAGE_MASK)))"

definition mapped :: "pages \<Rightarrow> u64 \<Rightarrow> bool" where
  "mapped m a \<longleftrightarrow> mem_valid a \<and> m (unat (drop_bit PAGE_BITS a)) \<noteq> None"

lemma mem_read8_byte_of: "mem_read8 m a = Inr v \<longleftrightarrow> mapped m a \<and> v = byte_of m a"
  by (auto simp: mem_read8_Inr_iff mapped_def byte_of_def)

lemma mem_write8_byte_of:
  assumes "mem_write8 m a v = Inr m'"
  shows "byte_of m' = (byte_of m)(a := v)" "mapped m' a" "mapped m b \<Longrightarrow> mapped m' b"
proof -
  have ne: "\<not> (unat (drop_bit PAGE_BITS b) = unat (drop_bit PAGE_BITS a)
      \<and> unat (b AND PAGE_MASK) = unat (a AND PAGE_MASK))" if "b \<noteq> a" for b
    using addr_split that unfolding word_unat_eq_iff [symmetric] by blast
  show "byte_of m' = (byte_of m)(a := v)"
  proof (rule ext)
    fix b
    show "byte_of m' b = ((byte_of m)(a := v)) b"
      using assms ne [of b]
      by (cases "b = a") (auto simp: byte_of_def mem_write8_eq split: if_splits option.splits)
  qed
  show "mapped m' a" "mapped m b \<Longrightarrow> mapped m' b"
    using assms by (auto simp: mapped_def mem_write8_eq split: if_splits)
qed

lemma page_get_byte_of:
  assumes "page_get m a False = Inr (m', p)"
  shows "byte_of m' = byte_of m" "mapped m' a" "mapped m b \<Longrightarrow> mapped m' b"
proof -
  show "byte_of m' = byte_of m"
  proof (rule ext)
    fix b
    show "byte_of m' b = byte_of m b"
      using assms by (auto simp: byte_of_def page_get_def Let_def split: if_splits option.splits)
  qed
  show "mapped m' a" "mapped m b \<Longrightarrow> mapped m' b"
    using assms by (auto simp: mapped_def page_get_def mem_valid_iff Let_def split: if_splits option.splits)
qed

lemma map_range_byte_of:
  "map_range m a hi = Inr m' \<Longrightarrow> byte_of m' = byte_of m \<and> (\<forall>b. mapped m b \<longrightarrow> mapped m' b)"
proof (induction m a hi rule: map_range.induct)
  case (1 m a hi)
  from 1(2) show ?case
    using 1(1) by (subst (asm) map_range.simps)
      (auto split: if_splits sum.splits dest: page_get_byte_of)
qed

lemma map_range_total:
  "unat hi \<le> 0x40000000 \<Longrightarrow> \<exists>m'. map_range m a hi = Inr m'"
proof (induction m a hi rule: map_range.induct)
  case (1 m a hi)
  show ?case
  proof (cases "a < hi")
    case True
    then have "\<not> ADDR_SPACE_SIZE \<le> a"
      using 1(2) by (simp add: ADDR_SPACE_SIZE_def word_less_nat_alt word_le_nat_alt)
    then obtain m1 p where g: "page_get m a False = Inr (m1, p)"
      by (cases "m (unat (drop_bit PAGE_BITS a))") (simp_all add: page_get_def Let_def)
    with True 1(1) [OF True g refl 1(2)] show ?thesis
      by (subst map_range.simps) simp
  next
    case False
    then show ?thesis by (subst map_range.simps) simp
  qed
qed

lemma unat_page: "unat (drop_bit PAGE_BITS x) = unat x div 4096"
  using unat_drop_bit_eq [of 12 x] by (simp add: PAGE_BITS_def drop_bit_eq_div)

text \<open>Mapping a segment makes all of its addresses readable and changes no byte.\<close>

lemma map_segment_ok:
  assumes "unat vaddr + unat memsz \<le> 0x40000000"
  shows "\<exists>m'. map_segment vaddr memsz m = Inr m' \<and> byte_of m' = byte_of m
    \<and> (\<forall>b. mapped m b \<longrightarrow> mapped m' b)
    \<and> (\<forall>b. unat vaddr \<le> unat b \<and> unat b < unat vaddr + unat memsz \<longrightarrow> mapped m' b)"
proof (cases "memsz = 0")
  case True
  then show ?thesis by (auto simp: map_segment_def)
next
  case False
  let ?a = "vaddr AND NOT 0xFFF"
  have hi: "unat (vaddr + memsz) = unat vaddr + unat memsz"
    using assms by (simp add: unat_word_ariths)
  obtain m' where r: "map_range m ?a (vaddr + memsz) = Inr m'"
    using map_range_total [of "vaddr + memsz" m ?a] hi assms by auto
  have a: "unat ?a = unat vaddr div 4096 * 4096"
    using unat_and_not_mask [of vaddr 12] by (simp add: mask_eq_exp_minus_1)
  have "mapped m' b" if "unat vaddr \<le> unat b" "unat b < unat vaddr + unat memsz" for b
  proof -
    have "unat b div 4096 \<in> dom m'"
    proof (rule map_range_maps [OF r])
      show "unat ?a mod 4096 = 0" unfolding a by simp
      show "unat ?a \<le> unat b div 4096 * 4096" unfolding a using that(1) by (simp add: div_le_mono)
      show "unat b div 4096 * 4096 < unat (vaddr + memsz)"
        unfolding hi using that(2) div_times_less_eq_dividend le_less_trans by blast
    qed
    moreover have "mem_valid b" using that assms by (simp add: mem_valid_def)
    ultimately show ?thesis by (auto simp: mapped_def unat_page)
  qed
  with r map_range_byte_of [OF r] False show ?thesis
    by (auto simp: map_segment_def)
qed

lemma mem_write_buf_byte_of:
  assumes "unat a + length bs \<le> 0x40000000"
  shows "\<exists>m'. mem_write_buf m a bs = Inr m' \<and> (\<forall>b. mapped m b \<longrightarrow> mapped m' b)
    \<and> (\<forall>b. unat a \<le> unat b \<and> unat b < unat a + length bs \<longrightarrow> mapped m' b)
    \<and> (\<forall>b. byte_of m' b = (if unat a \<le> unat b \<and> unat b < unat a + length bs
                            then bs ! (unat b - unat a) else byte_of m b))"
  using assms
proof (induction bs arbitrary: a m)
  case Nil
  then show ?case by auto
next
  case (Cons v bs)
  have valid: "mem_valid a" using Cons.prems by (simp add: mem_valid_def)
  then obtain m1 where m1: "mem_write8 m a v = Inr m1" by (simp add: mem_write8_eq)
  have a1: "unat (a + 1) = unat a + 1" using Cons.prems by (simp add: unat_word_ariths)
  obtain m' where m': "mem_write_buf m1 (a + 1) bs = Inr m'" "\<forall>b. mapped m1 b \<longrightarrow> mapped m' b"
    and range: "\<forall>b. unat a + 1 \<le> unat b \<and> unat b < unat a + 1 + length bs \<longrightarrow> mapped m' b"
    and bytes: "\<forall>b. byte_of m' b = (if unat a + 1 \<le> unat b \<and> unat b < unat a + 1 + length bs
                            then bs ! (unat b - (unat a + 1)) else byte_of m1 b)"
    using Cons.IH [of "a + 1" m1] Cons.prems a1 by auto
  have "byte_of m' b = (if unat a \<le> unat b \<and> unat b < unat a + length (v # bs)
      then (v # bs) ! (unat b - unat a) else byte_of m b)" for b
  proof (cases "unat b = unat a")
    case True
    then have "b = a" by (simp add: word_unat_eq_iff)
    then show ?thesis using bytes mem_write8_byte_of(1) [OF m1] by simp
  next
    case False
    then have "b \<noteq> a" "unat a \<le> unat b \<Longrightarrow> unat b - unat a = Suc (unat b - (unat a + 1))" by auto
    then show ?thesis using False bytes mem_write8_byte_of(1) [OF m1] by auto
  qed
  moreover have "mapped m' b" if "unat a \<le> unat b \<and> unat b < unat a + length (v # bs)" for b
  proof (cases "unat b = unat a")
    case True
    then have "b = a" by (simp add: word_unat_eq_iff)
    with mem_write8_byte_of(2) [OF m1] m'(2) show ?thesis by simp
  qed (use that range in auto)
  ultimately show ?case
    using m1 m' mem_write8_byte_of(3) [OF m1] by (intro exI [of _ m']) auto
qed

text \<open>
  A segment with its data: afterwards its addresses are mapped, its bytes are the data, and
  every other byte is as before.
\<close>

definition loads :: "pages \<Rightarrow> u64 \<Rightarrow> nat \<Rightarrow> u8 list \<Rightarrow> pages \<Rightarrow> bool" where
  "loads m vaddr memsz bs m' \<longleftrightarrow>
     (\<forall>b. mapped m b \<longrightarrow> mapped m' b)
     \<and> (\<forall>b. unat vaddr \<le> unat b \<and> unat b < unat vaddr + memsz \<longrightarrow> mapped m' b)
     \<and> (\<forall>b. byte_of m' b = (if unat vaddr \<le> unat b \<and> unat b < unat vaddr + length bs
                            then bs ! (unat b - unat vaddr) else byte_of m b))"

text \<open>What a descriptor and the file say about a segment.\<close>

definition describes :: "u8 list \<Rightarrow> nat \<Rightarrow> u64 \<Rightarrow> u8 list \<Rightarrow> u64 \<Rightarrow> bool" where
  "describes buf s vaddr bs memsz \<longleftrightarrow>
     (let sh = 24 + s * 40
      in sh + 28 \<le> length buf \<and> u64_at buf sh = vaddr \<and> u64_at buf (sh + 8) = word_of_nat (length bs)
         \<and> u64_at buf (sh + 16) = memsz \<and> length bs < 2 ^ 64
         \<and> unat (u32_at buf (sh + 24)) + length bs \<le> length buf
         \<and> field_at buf (unat (u32_at buf (sh + 24))) (length bs) = bs)"

lemma mem_write_buf_loads:
  "unat a + length bs \<le> 0x40000000 \<Longrightarrow> \<exists>m'. mem_write_buf m a bs = Inr m' \<and> loads m a (length bs) bs m'"
  using mem_write_buf_byte_of [of a bs m] by (auto simp: loads_def)

lemma load_segment_ok:
  assumes "describes buf s vaddr bs memsz" "unat vaddr + unat memsz \<le> 0x40000000" "length bs \<le> unat memsz"
  shows "\<exists>m'. load_segment buf s m = Inr m' \<and> loads m vaddr (unat memsz) bs m'"
proof -
  obtain m1 where m1: "map_segment vaddr memsz m = Inr m1" "byte_of m1 = byte_of m"
    "\<forall>b. mapped m b \<longrightarrow> mapped m1 b"
    "\<forall>b. unat vaddr \<le> unat b \<and> unat b < unat vaddr + unat memsz \<longrightarrow> mapped m1 b"
    using map_segment_ok [OF assms(2), of m] by blast
  obtain m' where m': "mem_write_buf m1 vaddr bs = Inr m'" "\<forall>b. mapped m1 b \<longrightarrow> mapped m' b"
    "\<forall>b. byte_of m' b = (if unat vaddr \<le> unat b \<and> unat b < unat vaddr + length bs
                            then bs ! (unat b - unat vaddr) else byte_of m1 b)"
    using mem_write_buf_byte_of [of vaddr bs m1] assms(2,3) by auto
  from assms(1) have len: "unat (word_of_nat (length bs) :: u64) = length bs"
    by (simp add: describes_def Let_def unat_u64)
  have zero: "word_of_nat (length bs) = (0 :: u64) \<longleftrightarrow> bs = []"
    using len by (metis length_0_conv unat_eq_zero of_nat_0)
  have "load_segment buf s m = Inr m'"
    using assms(1) m1(1) m'(1) len zero
    by (auto simp: load_segment_def describes_def Let_def)
  with m1 m' show ?thesis by (auto simp: loads_def)
qed

subsection \<open>Loading what the compiler wrote\<close>

lemma field_in_concat:
  "i < length segs \<Longrightarrow> k + n \<le> 40 \<Longrightarrow>
     field_at (concat (map seg_bytes segs) @ ys) (40 * i + k) n = field_at (seg_bytes (segs ! i)) k n"
proof (induction segs arbitrary: i)
  case (Cons s segs)
  show ?case
  proof (cases i)
    case 0
    with Cons.prems show ?thesis by (simp add: field_at_left)
  next
    case (Suc j)
    with Cons show ?thesis by (simp add: field_at_right)
  qed
qed simp

lemma header_fields:
  assumes "length segs \<le> 8" "buf = header_bytes entry ring1 segs @ body"
  shows "u32_at buf 0 = ONX_MAGIC" "u32_at buf 16 = word_of_nat (length segs)" "u64_at buf 8 = entry"
    "344 \<le> length buf"
    and "i < length segs \<Longrightarrow> k + n \<le> 40 \<Longrightarrow> field_at buf (24 + i * 40 + k) n = field_at (seg_bytes (segs ! i)) k n"
proof -
  show "u32_at buf 0 = ONX_MAGIC" "u32_at buf 16 = word_of_nat (length segs)" "u64_at buf 8 = entry"
    unfolding assms(2) header_bytes_def u32_at_def u64_at_def
    by (simp_all add: field_at_left field_at_right)
  show "344 \<le> length buf" by (simp add: assms length_header_bytes)
  show "field_at buf (24 + i * 40 + k) n = field_at (seg_bytes (segs ! i)) k n"
    if "i < length segs" "k + n \<le> 40"
    using field_in_concat [OF that, of "replicate (320 - 40 * length segs) 0 @ body"]
    unfolding assms(2) header_bytes_def by (simp add: field_at_right mult.commute)
qed

lemma seg_fields:
  assumes "length segs \<le> 8" "buf = header_bytes entry ring1 segs @ body" "i < length segs"
  shows "u64_at buf (24 + i * 40) = seg_vaddr (segs ! i)" "u64_at buf (24 + i * 40 + 8) = seg_filesz (segs ! i)"
    "u64_at buf (24 + i * 40 + 16) = seg_memsz (segs ! i)" "u32_at buf (24 + i * 40 + 24) = seg_offset (segs ! i)"
  using header_fields(5) [OF assms(1,2,3), of 0 8] header_fields(5) [OF assms(1,2,3), of 8 8]
    header_fields(5) [OF assms(1,2,3), of 16 8] header_fields(5) [OF assms(1,2,3), of 24 4]
  by (simp_all add: u64_at_def u32_at_def seg_bytes_def field_at_left field_at_right)

lemma describes_seg:
  assumes "length segs \<le> 8" "buf = header_bytes entry ring1 segs @ pre @ bs @ post" "i < length segs"
    and "seg_filesz (segs ! i) = word_of_nat (length bs)"
    and "bs \<noteq> [] \<Longrightarrow> unat (seg_offset (segs ! i)) = 344 + length pre"
    and "bs = [] \<Longrightarrow> unat (seg_offset (segs ! i)) \<le> length buf" and "length bs < 2 ^ 64"
  shows "describes buf i (seg_vaddr (segs ! i)) bs (seg_memsz (segs ! i))"
proof -
  note f = seg_fields [OF assms(1,2,3)]
  have len: "length buf = 344 + length pre + length bs + length post"
    using assms(1,2) by (simp add: length_header_bytes)
  have "i \<le> 7" using assms(1,3) by simp
  then have "24 + i * 40 + 28 \<le> length buf" using len by simp
  moreover have "field_at buf (344 + length pre) (length bs) = bs"
    unfolding assms(2) using assms(1) by (simp add: field_at_right field_at_left length_header_bytes)
  ultimately show ?thesis
    using f assms(4-7) len by (cases "bs = []") (auto simp: describes_def Let_def field_at_def)
qed

definition opt_wf :: "cc_buf option \<Rightarrow> bool" where
  "opt_wf b \<longleftrightarrow> (case b of None \<Rightarrow> True | Some b \<Rightarrow> buf_wf b)"

lemma size_of_bytes: "opt_wf b \<Longrightarrow> size_of b = word_of_nat (length (bytes_of_buf b))"
  by (simp add: opt_wf_def size_of_def bytes_of_buf_def buf_wf_def split: option.splits)

text \<open>The room that an executable needs in the address space, padding included.\<close>

definition image_room :: "cc_buf \<Rightarrow> cc_buf option \<Rightarrow> cc_buf option \<Rightarrow> u64 \<Rightarrow> nat" where
  "image_room tb rodata data bss =
     0x10000 + buf_size tb + length (bytes_of_buf rodata) + length (bytes_of_buf data) + unat bss + 24"

lemma align_up_8:
  fixes x :: u64
  assumes "unat x + n \<le> 0x40000000"
  shows "unat x + n \<le> unat ((x + word_of_nat n + 8 - 1) AND NOT (8 - 1))"
    "unat ((x + word_of_nat n + 8 - 1) AND NOT (8 - 1)) < unat x + n + 8"
proof -
  have "unat (x + word_of_nat n) = unat x + n"
    using assms by (simp add: unat_word_ariths unat_u64)
  then show "unat x + n \<le> unat ((x + word_of_nat n + 8 - 1) AND NOT (8 - 1))"
    "unat ((x + word_of_nat n + 8 - 1) AND NOT (8 - 1)) < unat x + n + 8"
    using align_up_bounds(2,3) [of 3 "x + word_of_nat n"] assms by (simp_all add: align_up_def)
qed

lemma onx_layout:
  assumes "opt_wf rodata" "opt_wf data" "image_room tb rodata data bss \<le> 0x40000000"
  shows "0x10000 + buf_size tb \<le> unat (rodata_vaddr tb)" "unat (rodata_vaddr tb) < 0x10000 + buf_size tb + 8"
    "unat (rodata_vaddr tb) + length (bytes_of_buf rodata) \<le> unat (data_vaddr tb rodata)"
    "unat (data_vaddr tb rodata) < unat (rodata_vaddr tb) + length (bytes_of_buf rodata) + 8"
    "unat (data_vaddr tb rodata) + length (bytes_of_buf data) \<le> unat (bss_vaddr tb rodata data)"
    "unat (bss_vaddr tb rodata data) < unat (data_vaddr tb rodata) + length (bytes_of_buf data) + 8"
proof -
  note room = assms(3) [unfolded image_room_def]
  show r1: "0x10000 + buf_size tb \<le> unat (rodata_vaddr tb)" and r2: "unat (rodata_vaddr tb) < 0x10000 + buf_size tb + 8"
    using align_up_8 [of "0x10000" "buf_size tb"] room
    by (simp_all add: rodata_vaddr_def CC_TEXT_VADDR_def CC_RODATA_ALIGN_def)
  show d1: "unat (rodata_vaddr tb) + length (bytes_of_buf rodata) \<le> unat (data_vaddr tb rodata)"
    and d2: "unat (data_vaddr tb rodata) < unat (rodata_vaddr tb) + length (bytes_of_buf rodata) + 8"
    using align_up_8 [of "rodata_vaddr tb" "length (bytes_of_buf rodata)"] room r2
    by (simp_all add: data_vaddr_def CC_DATA_ALIGN_def size_of_bytes [OF assms(1)])
  show "unat (data_vaddr tb rodata) + length (bytes_of_buf data) \<le> unat (bss_vaddr tb rodata data)"
    "unat (bss_vaddr tb rodata data) < unat (data_vaddr tb rodata) + length (bytes_of_buf data) + 8"
    using align_up_8 [of "data_vaddr tb rodata" "length (bytes_of_buf data)"] room r2 d2
    by (simp_all add: bss_vaddr_def CC_BSS_ALIGN_def size_of_bytes [OF assms(2)])
qed

lemma read_buf_bytes:
  assumes "\<And>i. i < length bs \<Longrightarrow> mapped m (a + word_of_nat i) \<and> byte_of m (a + word_of_nat i) = bs ! i"
  shows "mem_read_buf m a (length bs) = Inr bs"
  using assms
proof (induction bs arbitrary: a)
  case (Cons b bs)
  have "mem_read8 m a = Inr b"
    using Cons.prems [of 0] by (simp add: mem_read8_byte_of)
  moreover have "mem_read_buf m (a + 1) (length bs) = Inr bs"
    using Cons.prems [of "Suc _"] by (intro Cons.IH) (simp add: add.assoc)
  ultimately show ?case by simp
qed simp

text \<open>A stretch of memory that holds given bytes, in terms of offsets.\<close>

definition holds :: "pages \<Rightarrow> u64 \<Rightarrow> u8 list \<Rightarrow> bool" where
  "holds m a bs \<longleftrightarrow> (\<forall>b. unat a \<le> unat b \<and> unat b < unat a + length bs \<longrightarrow>
     mapped m b \<and> byte_of m b = bs ! (unat b - unat a))"

lemma holds_read:
  assumes "holds m a bs" "unat a + length bs \<le> 2 ^ 64"
  shows "mem_read_buf m a (length bs) = Inr bs"
proof (rule read_buf_bytes)
  fix i
  assume i: "i < length bs"
  then have "unat (a + word_of_nat i) = unat a + i"
    using assms(2) by (simp add: unat_word_ariths unat_u64)
  with i assms(1) show "mapped m (a + word_of_nat i) \<and> byte_of m (a + word_of_nat i) = bs ! i"
    by (simp add: holds_def)
qed

lemma loads_holds: "loads m a n bs m' \<Longrightarrow> length bs \<le> n \<Longrightarrow> holds m' a bs"
  by (auto simp: loads_def holds_def)

lemma loads_keeps:
  "loads m a n bs m' \<Longrightarrow> holds m b xs \<Longrightarrow> unat b + length xs \<le> unat a \<or> unat a + length bs \<le> unat b
     \<Longrightarrow> holds m' b xs"
  by (auto simp: loads_def holds_def)

lemma load_segments_Suc:
  "load_segment buf s m = Inr m1 \<Longrightarrow> load_segments buf s (Suc n) m = load_segments buf (Suc s) n m1"
  by simp

lemma emit_describes:
  assumes "buf_wf tb" "opt_wf rodata" "opt_wf data" "image_room tb rodata data bss \<le> 0x40000000"
    and buf_def: "buf = onx_emit tb rodata data bss entry ring1"
  shows "describes buf 0 0x10000 (buf_data tb) (word_of_nat (buf_size tb))"
    "describes buf 1 (rodata_vaddr tb) (bytes_of_buf rodata) (size_of rodata)"
    "describes buf 2 (data_vaddr tb rodata) (bytes_of_buf data) (size_of data)"
    "0 < bss \<Longrightarrow> describes buf 3 (bss_vaddr tb rodata data) [] bss"
proof -
  let ?segs = "onx_segments tb rodata data bss" and ?r = "bytes_of_buf rodata" and ?d = "bytes_of_buf data"
  have tb: "bytes_of_buf (Some tb) = buf_data tb" "length (buf_data tb) = buf_size tb"
    using assms(1) by (simp_all add: bytes_of_buf_def buf_wf_def)
  have buf: "buf = header_bytes entry ring1 ?segs @ [] @ buf_data tb @ (?r @ ?d)"
    "buf = header_bytes entry ring1 ?segs @ buf_data tb @ ?r @ ?d"
    "buf = header_bytes entry ring1 ?segs @ (buf_data tb @ ?r) @ ?d @ []"
    "buf = header_bytes entry ring1 ?segs @ [] @ [] @ (buf_data tb @ ?r @ ?d)"
    by (simp_all add: buf_def onx_emit_eq tb)
  have segs: "length ?segs \<le> 8" using length_onx_segments [of tb rodata data bss] by simp
  note room = assms(4) [unfolded image_room_def]
  have off: "unat (word_of_nat 344 :: u32) = 344"
    "unat (ucast (word_of_nat (344 + buf_size tb) :: u64) :: u32) = 344 + buf_size tb"
    "unat (ucast (word_of_nat (344 + buf_size tb) + word_of_nat (length ?r) :: u64) :: u32) = 344 + buf_size tb + length ?r"
    using room by (simp_all add: unsigned_ucast_eq take_bit_eq_mod unat_u64 flip: of_nat_add)
  note size = size_of_bytes [OF assms(2)] size_of_bytes [OF assms(3)]
  have hs: "ONX_V1_HEADER_SIZE = 344"
    by (simp add: ONX_V1_HEADER_SIZE_def ONX_V1_FIXED_HDR_def ONX_V1_MAX_SEGS_def ONX_V1_SEG_SIZE_def)
  have n: "0 < length ?segs" "1 < length ?segs" "2 < length ?segs" "0 < bss \<Longrightarrow> 3 < length ?segs"
    by (simp_all add: onx_segments_def)
  have len: "length buf = 344 + buf_size tb + length ?r + length ?d"
    using segs tb(2) by (simp add: buf(2) length_header_bytes)
  show "describes buf 0 0x10000 (buf_data tb) (word_of_nat (buf_size tb))"
    using describes_seg [OF segs buf(1) n(1)] off(1) tb(2) room len
    by (simp add: onx_segments_def hs CC_TEXT_VADDR_def)
  show "describes buf 1 (rodata_vaddr tb) ?r (size_of rodata)"
    using describes_seg [OF segs buf(2) n(2)] off(2) tb(2) room len size
    by (simp add: onx_segments_def hs)
  show "describes buf 2 (data_vaddr tb rodata) ?d (size_of data)"
    using describes_seg [OF segs buf(3) n(3)] off(3) tb(2) room len size
    by (simp add: onx_segments_def hs)
  show "describes buf 3 (bss_vaddr tb rodata data) [] bss" if "0 < bss"
    using describes_seg [OF segs buf(4) n(4) [OF that]] that
    by (simp add: onx_segments_def)
qed

text \<open>
  The four segments one after the other: each is loaded behind the previous ones, so what was
  loaded before stays, and the memory of the last one is still zero.
\<close>

lemma load_chain:
  assumes "buf_wf tb" "opt_wf rodata" "opt_wf data" "image_room tb rodata data bss \<le> 0x40000000"
    and buf: "buf = onx_emit tb rodata data bss entry ring1"
  shows "\<exists>m. load_segments buf 0 (if 0 < bss then 4 else 3) Map.empty = Inr m
    \<and> holds m 0x10000 (buf_data tb) \<and> holds m (rodata_vaddr tb) (bytes_of_buf rodata)
    \<and> holds m (data_vaddr tb rodata) (bytes_of_buf data)
    \<and> (0 < bss \<longrightarrow> holds m (bss_vaddr tb rodata data) (replicate (unat bss) 0))"
proof -
  let ?t = "buf_data tb" and ?r = "bytes_of_buf rodata" and ?d = "bytes_of_buf data"
  let ?va = "rodata_vaddr tb" and ?vd = "data_vaddr tb rodata" and ?vb = "bss_vaddr tb rodata data"
  have tb: "length ?t = buf_size tb" using assms(1) by (simp add: buf_wf_def)
  note room = assms(4) [unfolded image_room_def] and lay = onx_layout [OF assms(2,3,4)]
  note desc = emit_describes [OF assms(1-4) buf]
  have sz: "unat (word_of_nat (buf_size tb) :: u64) = buf_size tb" "unat (size_of rodata) = length ?r"
    "unat (size_of data) = length ?d"
    using room by (simp_all add: size_of_bytes assms(2,3) unat_u64)
  obtain m1 where m1: "load_segment buf 0 Map.empty = Inr m1" "loads Map.empty 0x10000 (buf_size tb) ?t m1"
    using load_segment_ok [OF desc(1), of Map.empty] sz(1) tb room by auto
  obtain m2 where m2: "load_segment buf 1 m1 = Inr m2" "loads m1 ?va (length ?r) ?r m2"
    using load_segment_ok [OF desc(2), of m1] sz(2) lay room by auto
  obtain m3 where m3: "load_segment buf 2 m2 = Inr m3" "loads m2 ?vd (length ?d) ?d m3"
    using load_segment_ok [OF desc(3), of m2] sz(3) lay room by auto
  have h1: "holds m3 0x10000 ?t" "holds m3 ?va ?r" "holds m3 ?vd ?d"
    using loads_holds [OF m1(2)] loads_keeps [OF m2(2)] loads_keeps [OF m3(2)] loads_holds [OF m2(2)]
      loads_holds [OF m3(2)] lay tb by auto
  have zero: "byte_of m3 b = 0" if "unat ?vd + length ?d \<le> unat b" for b
    using m1(2) m2(2) m3(2) that lay tb by (simp add: loads_def byte_of_def [of Map.empty])
  show ?thesis
  proof (cases "0 < bss")
    case False
    with h1 m1(1) m2(1) m3(1) show ?thesis by (simp add: numeral_eq_Suc)
  next
    case True
    obtain m4 where m4: "load_segment buf 3 m3 = Inr m4" "loads m3 ?vb (unat bss) [] m4"
      using load_segment_ok [OF desc(4) [OF True], of m3] lay room by auto
    have "holds m4 0x10000 ?t" "holds m4 ?va ?r" "holds m4 ?vd ?d"
      using h1 loads_keeps [OF m4(2)] lay tb by auto
    moreover have "holds m4 ?vb (replicate (unat bss) 0)"
      using m4(2) zero lay by (auto simp: loads_def holds_def)
    ultimately show ?thesis
      using True m1(1) m2(1) m3(1) m4(1) by (simp add: numeral_eq_Suc)
  qed
qed

text \<open>
  C1. The loader reads what the compiler wrote: for any text, read-only data, data and bss that
  fit the 1 GiB address space and an entry point other than 0, which the loader refuses, loading the emitted executable succeeds with this entry
  point, and memory then holds exactly the text at 0x10000, the read-only data and the data at
  their computed addresses, and zeros in the whole bss.
\<close>

theorem emit_load_roundtrip:
  assumes "buf_wf tb" and "opt_wf rodata" and "opt_wf data"
    and "image_room tb rodata data bss \<le> 0x40000000" and "entry \<noteq> 0"
  shows "\<exists>m. load_onx (onx_emit tb rodata data bss entry ring1) = Inr (entry, m)
    \<and> mem_read_buf m CC_TEXT_VADDR (buf_size tb) = Inr (buf_data tb)
    \<and> mem_read_buf m (rodata_vaddr tb) (length (bytes_of_buf rodata)) = Inr (bytes_of_buf rodata)
    \<and> mem_read_buf m (data_vaddr tb rodata) (length (bytes_of_buf data)) = Inr (bytes_of_buf data)
    \<and> mem_read_buf m (bss_vaddr tb rodata data) (unat bss) = Inr (replicate (unat bss) 0)"
proof -
  let ?segs = "onx_segments tb rodata data bss"
  let ?buf = "onx_emit tb rodata data bss entry ring1"
  have tb: "length (buf_data tb) = buf_size tb" using assms(1) by (simp add: buf_wf_def)
  obtain m where m: "load_segments ?buf 0 (if 0 < bss then 4 else 3) Map.empty = Inr m"
    and h: "holds m 0x10000 (buf_data tb)" "holds m (rodata_vaddr tb) (bytes_of_buf rodata)"
      "holds m (data_vaddr tb rodata) (bytes_of_buf data)"
      "0 < bss \<longrightarrow> holds m (bss_vaddr tb rodata data) (replicate (unat bss) 0)"
    using load_chain [OF assms(1-4) refl] by blast
  have segs: "length ?segs \<le> 8" using length_onx_segments [of tb rodata data bss] by simp
  note hdr = header_fields [OF segs onx_emit_eq [of tb rodata data bss entry ring1]]
  have n: "length ?segs = (if 0 < bss then 4 else 3)" by (simp add: onx_segments_def)
  have "load_onx ?buf = Inr (entry, m)"
    using hdr(1-4) n m assms(5) by (simp add: load_onx_def Let_def ONX_MAGIC_def split: if_splits)
  moreover note lay = onx_layout [OF assms(2-4)] and room = assms(4) [unfolded image_room_def]
  have "mem_read_buf m (bss_vaddr tb rodata data) (unat bss) = Inr (replicate (unat bss) 0)"
  proof (cases "0 < bss")
    case True
    with h(4) have "holds m (bss_vaddr tb rodata data) (replicate (unat bss) 0)" by simp
    from holds_read [OF this] lay room show ?thesis by simp
  next
    case False
    then show ?thesis by (simp add: word_neq_0_conv [symmetric])
  qed
  moreover have "mem_read_buf m 0x10000 (buf_size tb) = Inr (buf_data tb)"
    using holds_read [OF h(1)] tb room by simp
  moreover have "mem_read_buf m (rodata_vaddr tb) (length (bytes_of_buf rodata)) = Inr (bytes_of_buf rodata)"
    using holds_read [OF h(2)] lay room by simp
  moreover have "mem_read_buf m (data_vaddr tb rodata) (length (bytes_of_buf data)) = Inr (bytes_of_buf data)"
    using holds_read [OF h(3)] lay room by simp
  ultimately show ?thesis by (simp add: CC_TEXT_VADDR_def)
qed

theorem emit_load_roundtrip_witness:
  "\<exists>m. load_onx (onx_emit (cc_buf_push32 cc_buf_init 0x13) (Some (cc_buf_push8 cc_buf_init 65)) None 16 0x10000 False)
         = Inr (0x10000, m)
     \<and> mem_read_buf m 0x10000 4 = Inr [0x13, 0, 0, 0] \<and> mem_read_buf m 0x10008 1 = Inr [65]
     \<and> mem_read_buf m 0x10010 16 = Inr (replicate 16 0)"
proof -
  let ?t = "cc_buf_push32 cc_buf_init 0x13" and ?r = "cc_buf_push8 cc_buf_init 65"
  have t: "buf_size ?t = 4" "buf_data ?t = [0x13, 0, 0, 0]" and r: "buf_size ?r = 1" "buf_data ?r = [65]"
    by code_simp+
  have wf: "buf_wf ?t" "buf_wf ?r"
    using appendsD(1) [OF appends_push32, of cc_buf_init] appendsD(1) [OF appends_push8, of cc_buf_init]
    by (simp_all add: buf_wf_def cc_buf_init_def)
  have "rodata_vaddr ?t = 0x10008" "data_vaddr ?t (Some ?r) = 0x10010" "bss_vaddr ?t (Some ?r) None = 0x10010"
    by (simp_all add: rodata_vaddr_def data_vaddr_def bss_vaddr_def size_of_def t r CC_TEXT_VADDR_def
        CC_RODATA_ALIGN_def CC_DATA_ALIGN_def CC_BSS_ALIGN_def)
  then show ?thesis
    using emit_load_roundtrip [of ?t "Some ?r" None 16 "0x10000" False] wf
    by (simp add: opt_wf_def image_room_def bytes_of_buf_def t r CC_TEXT_VADDR_def)
qed

subsection \<open>The argument frame is intact\<close>

text \<open>Memory changed only inside a range of addresses.\<close>

definition touches :: "pages \<Rightarrow> nat \<Rightarrow> nat \<Rightarrow> pages \<Rightarrow> bool" where
  "touches m lo hi m' \<longleftrightarrow>
     (\<forall>b. mapped m b \<longrightarrow> mapped m' b)
     \<and> (\<forall>b. unat b < lo \<or> hi \<le> unat b \<longrightarrow> byte_of m' b = byte_of m b)"

lemma touches_refl [simp]: "touches m lo hi m"
  by (simp add: touches_def)

lemma touches_trans:
  "touches m lo hi m1 \<Longrightarrow> touches m1 lo' hi' m2 \<Longrightarrow> l \<le> lo \<Longrightarrow> l \<le> lo' \<Longrightarrow> hi \<le> h \<Longrightarrow> hi' \<le> h
     \<Longrightarrow> touches m l h m2"
  by (auto simp: touches_def)

lemma loads_touches: "loads m a n bs m' \<Longrightarrow> touches m (unat a) (unat a + length bs) m'"
  by (auto simp: loads_def touches_def)

lemma holds_touches:
  "holds m a bs \<Longrightarrow> touches m lo hi m' \<Longrightarrow> unat a + length bs \<le> lo \<or> hi \<le> unat a \<Longrightarrow> holds m' a bs"
  by (auto simp: holds_def touches_def)

definition args_size :: "u8 list list \<Rightarrow> nat" where
  "args_size args = sum_list (map (\<lambda>arg. length arg + 1) args)"

lemma push_args_ok:
  assumes "args_size args \<le> unat sp" "unat sp \<le> 0x40000000"
  shows "\<exists>sp' ps m'. push_args args sp ptrs m = Inr (sp', ptrs @ ps, m')
    \<and> unat sp' = unat sp - args_size args \<and> length ps = length args
    \<and> touches m (unat sp') (unat sp) m'
    \<and> (\<forall>i < length args. unat sp' \<le> unat (ps ! i) \<and> unat (ps ! i) + length (args ! i) + 1 \<le> unat sp
         \<and> holds m' (ps ! i) (args ! i @ [0]))"
  using assms
proof (induction args arbitrary: sp ptrs m)
  case Nil
  then show ?case by (simp add: args_size_def)
next
  case (Cons arg args)
  let ?n = "length arg + 1"
  let ?sp = "sp - word_of_nat ?n"
  have n: "?n \<le> unat sp" using Cons.prems by (simp add: args_size_def)
  then have un: "unat (word_of_nat ?n :: u64) = ?n"
    using Cons.prems(2) by (intro unat_u64) simp
  then have sp: "unat ?sp = unat sp - ?n"
    using n by (subst unat_sub) (simp_all add: word_le_nat_alt)
  have "unat ?sp + length (arg @ [0]) \<le> 0x40000000"
    using sp n Cons.prems(2) by simp
  from mem_write_buf_loads [OF this, of m]
  obtain m1 where m1: "mem_write_buf m ?sp (arg @ [0]) = Inr m1" "loads m ?sp ?n (arg @ [0]) m1"
    by auto
  have h: "holds m1 ?sp (arg @ [0])" by (rule loads_holds [OF m1(2)]) simp
  have t: "touches m (unat ?sp) (unat sp) m1"
    using loads_touches [OF m1(2)] sp n by simp
  have IH: "args_size args \<le> unat ?sp" "unat ?sp \<le> 0x40000000"
    using Cons.prems sp by (simp_all add: args_size_def)
  obtain sp' ps m' where r: "push_args args ?sp (ptrs @ [?sp]) m1 = Inr (sp', (ptrs @ [?sp]) @ ps, m')"
    and sp': "unat sp' = unat ?sp - args_size args" and len: "length ps = length args"
    and t': "touches m1 (unat sp') (unat ?sp) m'"
    and ps: "\<forall>i < length args. unat sp' \<le> unat (ps ! i) \<and> unat (ps ! i) + length (args ! i) + 1 \<le> unat ?sp
         \<and> holds m' (ps ! i) (args ! i @ [0])"
    using Cons.IH [OF IH, of "ptrs @ [?sp]" m1] by blast
  have "push_args (arg # args) sp ptrs m = Inr (sp', ptrs @ (?sp # ps), m')"
    using m1(1) r by (simp add: Let_def)
  moreover have "holds m' ?sp (arg @ [0])"
    by (rule holds_touches [OF h t']) simp
  moreover have "touches m (unat sp') (unat sp) m'"
    by (rule touches_trans [OF t t']) (use sp sp' in auto)
  ultimately show ?case
    using sp sp' len ps n
    by (intro exI [of _ sp'] exI [of _ "?sp # ps"] exI [of _ m'])
      (auto simp: args_size_def nth_Cons' less_Suc_eq_0_disj)
qed

lemma loads_append:
  assumes "loads m a n xs m1" "n = length xs" "loads m1 (a + word_of_nat n) k ys m2"
    and "unat a + n + k \<le> 0x40000000"
  shows "loads m a (n + k) (xs @ ys) m2"
proof -
  have "unat (a + word_of_nat n) = unat a + n"
    using assms(4) by (simp add: unat_word_ariths unat_u64)
  with assms show ?thesis
    by (auto simp: loads_def nth_append) (metis add.assoc not_less)
qed

lemma holds_append:
  assumes "holds m a xs" "holds m (a + word_of_nat (length xs)) ys" "unat a + length xs + length ys \<le> 0x40000000"
  shows "holds m a (xs @ ys)"
proof -
  have "unat (a + word_of_nat (length xs)) = unat a + length xs"
    using assms(3) by (simp add: unat_word_ariths unat_u64)
  with assms show ?thesis
    by (auto simp: holds_def nth_append)
qed

lemma write_words_ok:
  "unat p + 8 * length vs \<le> 0x40000000 \<Longrightarrow>
     \<exists>m'. write_words vs p m = Inr m' \<and> loads m p (8 * length vs) (concat (map le64 vs)) m'"
proof (induction vs arbitrary: p m)
  case Nil
  then show ?case by (auto simp: loads_def)
next
  case (Cons v vs)
  from Cons.prems obtain m1 where m1: "mem_write m p v 8 = Inr m1" "loads m p 8 (le64 v) m1"
    using mem_write_buf_loads [of p "le64 v" m] by (auto simp: mem_write_eq mem_write_buf_eq)
  have p8: "unat (p + 8) = unat p + 8" using Cons.prems by (simp add: unat_word_ariths)
  then obtain m' where m': "write_words vs (p + 8) m1 = Inr m'"
    "loads m1 (p + 8) (8 * length vs) (concat (map le64 vs)) m'"
    using Cons.IH [of "p + 8" m1] Cons.prems by auto
  have "loads m p (8 + 8 * length vs) (le64 v @ concat (map le64 vs)) m'"
    by (rule loads_append [OF m1(2)]) (use m'(2) Cons.prems in simp_all)
  with m1 m' show ?case by simp
qed

lemma write_entropy_ok:
  "unat a + n \<le> 0x40000000 \<Longrightarrow>
     \<exists>hs m'. write_entropy h n a (hs0, m) = Inr (hs, m') \<and> touches m (unat a) (unat a + n) m'"
proof (induction n arbitrary: a hs0 m)
  case 0
  then show ?case by auto
next
  case (Suc n)
  let ?b = "ucast (fst (h_rand h hs0) AND 0xff) :: u8"
  from Suc.prems obtain m1 where m1: "mem_write8 m a ?b = Inr m1"
    by (auto simp: mem_write8_eq mem_valid_def)
  have a1: "unat (a + 1) = unat a + 1" using Suc.prems by (simp add: unat_word_ariths)
  then obtain hs m' where r: "write_entropy h n (a + 1) (snd (h_rand h hs0), m1) = Inr (hs, m')"
    and t: "touches m1 (unat a + 1) (unat a + 1 + n) m'"
    using Suc.IH [of "a + 1" "snd (h_rand h hs0)" m1] Suc.prems by auto
  have t1: "touches m (unat a) (unat a + 1) m1"
    using mem_write8_byte_of [OF m1] by (auto simp: touches_def)
  have "touches m (unat a) (unat a + Suc n) m'"
    by (rule touches_trans [OF t1 t]) auto
  with m1 r show ?case by (auto simp: Let_def)
qed

text \<open>The frame: argument count, argument pointers, two terminators and the auxiliary vector.\<close>

definition frame_words :: "u64 \<Rightarrow> u64 list \<Rightarrow> u64 list" where
  "frame_words frame ptrs =
     word_of_nat (length ptrs) # ptrs @ [0, 0, 25, frame - 16, 0, 0]"

lemma and_not_f: "unat (x AND NOT 0xF) = unat x div 16 * 16" for x :: u64
  using unat_and_not_mask [of x 4] by (simp add: mask_eq_exp_minus_1)

lemma length_concat_le64 [simp]: "length (concat (map le64 vs)) = 8 * length vs"
  by (simp add: length_concat o_def sum_list_triv)

text \<open>
  The three writes of the frame into memory whose strings end above it.
\<close>

lemma write_frame_ok:
  assumes "16 \<le> unat f" "unat f + 8 * length ptrs + 56 \<le> hi" "hi \<le> 0x20000000"
  shows "\<exists>m2 hs m3 m4. write_words (word_of_nat (length ptrs) # ptrs @ [0, 0]) f m1 = Inr m2
    \<and> write_entropy h 16 (f - 16) (hs0, m2) = Inr (hs, m3)
    \<and> write_words [25, f - 16, 0, 0] (f + word_of_nat (8 * (length ptrs + 3))) m3 = Inr m4
    \<and> holds m4 f (concat (map le64 (frame_words f ptrs))) \<and> touches m1 (unat f - 16) hi m4"
proof -
  let ?n = "length ptrs"
  let ?v1 = "word_of_nat ?n # ptrs @ [0, 0]" and ?v2 = "[25, f - 16, 0, 0]"
  let ?g = "f + word_of_nat (8 * (?n + 3))"
  obtain m2 where m2: "write_words ?v1 f m1 = Inr m2" "loads m1 f (8 * length ?v1) (concat (map le64 ?v1)) m2"
    using write_words_ok [of f ?v1 m1] assms(2,3) by auto
  have r: "unat (f - 16) = unat f - 16" using assms(1) by (subst unat_sub) (simp_all add: word_le_nat_alt)
  then obtain hs m3 where m3: "write_entropy h 16 (f - 16) (hs0, m2) = Inr (hs, m3)"
    "touches m2 (unat f - 16) (unat f) m3"
    using write_entropy_ok [of "f - 16" 16 h hs0 m2] assms by auto
  have g: "unat ?g = unat f + 8 * (?n + 3)"
    using assms(2,3) by (simp add: unat_word_ariths unat_u64)
  then obtain m4 where m4: "write_words ?v2 ?g m3 = Inr m4" "loads m3 ?g (8 * length ?v2) (concat (map le64 ?v2)) m4"
    using write_words_ok [of ?g ?v2 m3] assms(2,3) by auto
  have t4: "touches m3 (unat ?g) (unat ?g + 32) m4" using loads_touches [OF m4(2)] by simp
  have t2: "touches m1 (unat f) (unat f + 8 * (?n + 3)) m2"
    using loads_touches [OF m2(2)] by (simp add: ac_simps)
  have h2: "holds m2 f (concat (map le64 ?v1))"
    by (rule loads_holds [OF m2(2)]) simp
  have h3: "holds m3 f (concat (map le64 ?v1))"
    by (rule holds_touches [OF h2 m3(2)]) simp
  have h4: "holds m4 f (concat (map le64 ?v1))"
    by (rule holds_touches [OF h3 t4]) (unfold g, simp)
  have h4': "holds m4 (f + word_of_nat (length (concat (map le64 ?v1)))) (concat (map le64 ?v2))"
    using loads_holds [OF m4(2)] by (simp add: ac_simps)
  have "holds m4 f (concat (map le64 ?v1) @ concat (map le64 ?v2))"
    by (rule holds_append [OF h4 h4']) (use assms(2,3) in simp)
  then have "holds m4 f (concat (map le64 (frame_words f ptrs)))"
    by (simp add: frame_words_def)
  moreover have "touches m1 (unat f - 16) (unat f + 8 * (?n + 3)) m3"
    by (rule touches_trans [OF t2 m3(2)]) auto
  then have "touches m1 (unat f - 16) hi m4"
    by (rule touches_trans [OF _ t4]) (use g assms(2) in auto)
  ultimately show ?thesis using m2(1) m3(1) m4(1) by blast
qed

lemma setup_stack_ok:
  assumes "length argv \<le> 63" "args_size argv \<le> 0x10000000"
  shows "\<exists>ptrs m' hs f. setup_stack h argv s = Inr (s\<lparr>g_pages := m', g_host := hs,
             g_reg := (g_reg s)(2 := f, 10 := word_of_nat (length argv), 11 := f + 8)\<rparr>)
    \<and> unat f mod 16 = 0 \<and> 0xFFFE000 \<le> unat f
    \<and> length ptrs = length argv \<and> holds m' f (concat (map le64 (frame_words f ptrs)))
    \<and> unat f + 8 * length argv + 56 \<le> 0x20000000
    \<and> (\<forall>i < length argv. holds m' (ptrs ! i) (argv ! i @ [0])
         \<and> unat (ptrs ! i) + length (argv ! i) + 1 \<le> 0x20000000)
    \<and> touches (g_pages s) (unat f - 16) 0x1FFFF000 m'"
proof -
  let ?n = "length argv" and ?sp0 = "0x1FFFF000 :: u64"
  obtain sp ptrs m1 where pa: "push_args argv ?sp0 [] (g_pages s) = Inr (sp, ptrs, m1)"
    and sp: "unat sp = 0x1FFFF000 - args_size argv" and len: "length ptrs = ?n"
    and t1: "touches (g_pages s) (unat sp) 0x1FFFF000 m1"
    and ps: "\<forall>i < ?n. unat sp \<le> unat (ptrs ! i) \<and> unat (ptrs ! i) + length (argv ! i) + 1 \<le> 0x1FFFF000
         \<and> holds m1 (ptrs ! i) (argv ! i @ [0])"
    using push_args_ok [of argv ?sp0 "[]" "g_pages s"] assms(2) by auto
  define k where "k = 16 + 32 + 8 + 8 + (?n + 1) * 8"
  define a where "a = sp AND NOT 0xF"
  define b where "b = a - word_of_nat k"
  define f where "f = b AND NOT 0xF"
  have a: "unat a \<le> unat sp" "unat sp < unat a + 16" unfolding a_def and_not_f by presburger+
  have k: "k = 8 * ?n + 72" "k \<le> 576"
    using assms(1) by (simp_all add: k_def)
  then have k': "unat (word_of_nat k :: u64) = k" by (intro unat_u64) simp
  have sp': "unat sp + args_size argv = 0x1FFFF000" using sp assms by simp
  then have "k \<le> unat a" using a k(2) assms(2) by linarith
  then have b: "unat b + k = unat a"
    unfolding b_def using k' by (subst unat_sub) (simp_all add: word_le_nat_alt)
  have f: "unat f mod 16 = 0" "unat f \<le> unat b" "unat b < unat f + 16"
    unfolding f_def and_not_f [of b] by presburger+
  have lo: "0xFFFE000 \<le> unat f" using f a b k(2) sp' assms by linarith
  have room: "unat f + 8 * ?n + 56 \<le> unat sp" using f a b k(1) by linarith
  have pre: "16 \<le> unat f" "unat f + 8 * length ptrs + 56 \<le> unat sp" "unat sp \<le> 0x20000000"
    using lo room sp' len by linarith+
  obtain m2 hs m3 m4 where fr: "write_words (word_of_nat ?n # ptrs @ [0, 0]) f m1 = Inr m2"
    "write_entropy h 16 (f - 16) (g_host s, m2) = Inr (hs, m3)"
    "write_words [25, f - 16, 0, 0] (f + word_of_nat (8 * (?n + 3))) m3 = Inr m4"
    and hf: "holds m4 f (concat (map le64 (frame_words f ptrs)))"
    and t4: "touches m1 (unat f - 16) (unat sp) m4"
    using write_frame_ok [OF pre, of m1 h "g_host s"] unfolding len by blast
  have hp: "holds m4 (ptrs ! i) (argv ! i @ [0])" "unat (ptrs ! i) + length (argv ! i) + 1 \<le> 0x20000000"
    if "i < ?n" for i
    using ps that by (auto intro: holds_touches [OF _ t4])
  have fr_end: "unat f + 8 * ?n + 56 \<le> 0x20000000" using pre len by simp
  have "touches (g_pages s) (unat f - 16) 0x1FFFF000 m4"
    by (rule touches_trans [OF t1 t4]) (use f a b sp in auto)
  moreover have n: "min (length argv) 63 = ?n" using assms(1) by simp
  have "setup_stack h argv s = Inr (s\<lparr>g_pages := m4, g_host := hs,
      g_reg := (g_reg s)(2 := f, 10 := word_of_nat ?n, 11 := f + 8)\<rparr>)"
    using pa fr unfolding setup_stack_def n Let_def f_def b_def a_def k_def by simp
  ultimately show ?thesis
    using f(1) lo len hf hp fr_end
    by (intro exI [of _ ptrs] exI [of _ m4] exI [of _ hs] exI [of _ f]) simp
qed

text \<open>
  C12. The argument frame is what the C runtime expects: after \<^verbatim>\<open>setup_stack\<close> the stack pointer is
  16-byte aligned and points at the argument count, followed by the argument pointers, the two
  terminators and the auxiliary vector with the address of the entropy block; every argument
  string is readable, NUL-terminated and unchanged at its pointer; a0 and a1 hold the count and
  the address of the pointers. No part of the frame overwrites another.
\<close>

theorem setup_stack_frame:
  assumes "length argv \<le> 63" and "args_size argv \<le> 0x10000000"
  shows "\<exists>s' f ptrs. setup_stack h argv s = Inr s' \<and> g_reg s' 2 = f \<and> unat f mod 16 = 0
    \<and> g_reg s' 10 = word_of_nat (length argv) \<and> g_reg s' 11 = f + 8 \<and> length ptrs = length argv
    \<and> mem_read_buf (g_pages s') f (8 * (length argv + 7)) = Inr (concat (map le64 (frame_words f ptrs)))
    \<and> (\<forall>i < length argv. mem_read_buf (g_pages s') (ptrs ! i) (length (argv ! i) + 1) = Inr (argv ! i @ [0]))"
proof -
  obtain ptrs m' hs f where r: "setup_stack h argv s = Inr (s\<lparr>g_pages := m', g_host := hs,
      g_reg := (g_reg s)(2 := f, 10 := word_of_nat (length argv), 11 := f + 8)\<rparr>)"
    and f: "unat f mod 16 = 0" and len: "length ptrs = length argv"
    and hf: "holds m' f (concat (map le64 (frame_words f ptrs)))" "unat f + 8 * length argv + 56 \<le> 0x20000000"
    and hp: "\<forall>i < length argv. holds m' (ptrs ! i) (argv ! i @ [0])
         \<and> unat (ptrs ! i) + length (argv ! i) + 1 \<le> 0x20000000"
    using setup_stack_ok [OF assms, of h s] by (elim exE conjE) (rule that)
  have n: "length (concat (map le64 (frame_words f ptrs))) = 8 * (length argv + 7)"
    unfolding length_concat_le64 by (simp add: frame_words_def len)
  have "mem_read_buf m' f (8 * (length argv + 7)) = Inr (concat (map le64 (frame_words f ptrs)))"
    using holds_read [OF hf(1)] hf(2) unfolding n by simp
  moreover have "mem_read_buf m' (ptrs ! i) (length (argv ! i) + 1) = Inr (argv ! i @ [0])"
    if "i < length argv" for i
  proof -
    have h: "holds m' (ptrs ! i) (argv ! i @ [0])" "unat (ptrs ! i) + length (argv ! i @ [0]) \<le> 2 ^ 64"
      using hp that by auto
    show ?thesis using holds_read [OF h] by simp
  qed
  ultimately show ?thesis
    using r f len
    by (intro exI [of _ ptrs] exI [of _ f] exI [of _ "s\<lparr>g_pages := m', g_host := hs,
      g_reg := (g_reg s)(2 := f, 10 := word_of_nat (length argv), 11 := f + 8)\<rparr>"]) simp
qed

theorem setup_stack_frame_witness:
  "\<forall>h. \<exists>s' f ptrs. setup_stack h [[112, 114, 111, 103], [45, 118]] (boot_cpu Map.empty 0) = Inr s'
     \<and> g_reg s' 2 = f \<and> g_reg s' 10 = 2 \<and> mem_read_buf (g_pages s') (ptrs ! 1) 3 = Inr [45, 118, 0]"
proof
  fix h
  let ?argv = "[[112, 114, 111, 103], [45, 118]] :: u8 list list"
  have "length ?argv \<le> 63" "args_size ?argv \<le> 0x10000000" by (simp_all add: args_size_def)
  from setup_stack_frame [OF this, of h "boot_cpu Map.empty 0"]
  obtain s' f ptrs where "setup_stack h ?argv (boot_cpu Map.empty 0) = Inr s'" "g_reg s' 2 = f"
    "g_reg s' 10 = word_of_nat (length ?argv)"
    and strs: "\<forall>i < length ?argv. mem_read_buf (g_pages s') (ptrs ! i) (length (?argv ! i) + 1) = Inr (?argv ! i @ [0])"
    by (elim exE conjE) (rule that)
  moreover have "mem_read_buf (g_pages s') (ptrs ! 1) 3 = Inr [45, 118, 0]"
    using strs [rule_format, of 1] by (simp add: numeral_eq_Suc del: mem_read_buf.simps)
  ultimately show "\<exists>s' f ptrs. setup_stack h ?argv (boot_cpu Map.empty 0) = Inr s'
     \<and> g_reg s' 2 = f \<and> g_reg s' 10 = 2 \<and> mem_read_buf (g_pages s') (ptrs ! 1) 3 = Inr [45, 118, 0]"
    by (intro exI [of _ ptrs] exI [of _ f] exI [of _ s']) (simp del: mem_read_buf.simps)
qed

end
