(* ===== verification/Linker_Input.thy ===== *)
theory Linker_Input
  imports Onx_Format
begin

text \<open>
  The input side of the linker \<^verbatim>\<open>src/tools/onyx-ld.c\<close>: the object format of
  \<^verbatim>\<open>include/sys/onyxo.h\<close>, \<^verbatim>\<open>parse_object\<close>, \<^verbatim>\<open>parse_archive\<close> and \<^verbatim>\<open>load_input\<close>. A file is the list of
  its bytes. Every refusal of the code is an error value; \<open>Undefined\<close> is an access outside a
  file or buffer, which C leaves undefined. Allocations are assumed to succeed.
\<close>

datatype (plugins only: code) link_error =
    TooManyObjects | FileTooSmall | BadObjectMagic u32 | BadObjectVersion u32
  | TooManySections u32 | SectionOutOfBounds nat | NotAnArchive | NoMember | CannotRead | NotAnInput
  | DuplicateSymbol "u8 list" | TooManySymbols | UndefinedSymbol "u8 list"
  | BadRelocSection | RelocInBss | BadRelocSymbol | UnresolvedSymbol "u8 list"
  | JalOutOfRange | BranchOutOfRange | UnknownReloc u32 | NoEntrySymbol | CannotWrite
  | Undefined

definition MAX_OBJECTS :: nat where "MAX_OBJECTS = 64"
definition MAX_SECS_PER_OBJ :: u32 where "MAX_SECS_PER_OBJ = 4"
definition ONYO_MAGIC :: u32 where "ONYO_MAGIC = 0x4F594E4F"
definition ONYO_VERSION_1 :: u32 where "ONYO_VERSION_1 = 1"
definition ONYO_HDR_SIZE :: nat where "ONYO_HDR_SIZE = 64"
definition ONYO_SECTION_HDR_SIZE :: nat where "ONYO_SECTION_HDR_SIZE = 40"
definition ONYO_SYMBOL_SIZE :: nat where "ONYO_SYMBOL_SIZE = 32"
definition ONYO_RELOC_SIZE :: nat where "ONYO_RELOC_SIZE = 24"
definition ONYO_SEC_TEXT :: u32 where "ONYO_SEC_TEXT = 0"
definition ONYO_SEC_RODATA :: u32 where "ONYO_SEC_RODATA = 1"
definition ONYO_SEC_DATA :: u32 where "ONYO_SEC_DATA = 2"
definition ONYO_SEC_BSS :: u32 where "ONYO_SEC_BSS = 3"
definition ONYO_SYM_DEFINED :: u32 where "ONYO_SYM_DEFINED = 0x01"
definition ONYO_SYM_GLOBAL :: u32 where "ONYO_SYM_GLOBAL = 0x04"
definition ONYO_SYM_LOCAL :: u32 where "ONYO_SYM_LOCAL = 0x08"

lemmas onyo_sizes = ONYO_HDR_SIZE_def ONYO_SECTION_HDR_SIZE_def ONYO_SYMBOL_SIZE_def ONYO_RELOC_SIZE_def
lemmas onyo_sections = ONYO_SEC_TEXT_def ONYO_SEC_RODATA_def ONYO_SEC_DATA_def ONYO_SEC_BSS_def
lemmas onyo_flags = ONYO_SYM_DEFINED_def ONYO_SYM_GLOBAL_def ONYO_SYM_LOCAL_def

subsection \<open>Objects\<close>

text \<open>
  \<open>sec_data\<close> is the pointer into the file, as an offset; it keeps the place of the bytes when
  the layout overwrites \<open>sec_data_off\<close>. Signed 32-bit fields are kept as words and read with
  \<^const>\<open>sint\<close> where the code compares them.
\<close>

record sec_t =
  sec_name_off :: u32
  sec_type :: u32
  sec_flags :: u32
  sec_align :: u32
  sec_size :: u64
  sec_data_off :: u64
  sec_data :: "nat option"

record lsym_t =
  lsym_name :: "u8 list"
  lsym_flags :: u32
  lsym_section_idx :: u32
  lsym_value :: u64
  lsym_size :: u64
  lsym_obj_idx :: nat

record reloc_t =
  rel_section_idx :: u32
  rel_type :: u32
  rel_offset :: u64
  rel_sym_idx :: u32
  rel_addend :: u32
  rel_obj_idx :: nat

record obj_t =
  obj_name :: "u8 list"
  obj_secs :: "sec_t list"
  obj_syms :: "lsym_t list"
  obj_relocs :: "reloc_t list"
  obj_file_data :: "u8 list"
  obj_is_archive_member :: bool

subsection \<open>Little-endian readers\<close>

definition rd_u32 :: "u8 list \<Rightarrow> nat \<Rightarrow> link_error + u32" where
  "rd_u32 p off =
     (if off + 4 \<le> length p
      then Inr (ucast (p ! off) OR push_bit 8 (ucast (p ! (off + 1)))
                OR push_bit 16 (ucast (p ! (off + 2))) OR push_bit 24 (ucast (p ! (off + 3))))
      else Inl Undefined)"

definition rd_u64 :: "u8 list \<Rightarrow> nat \<Rightarrow> link_error + u64" where
  "rd_u64 p off =
     (if off + 8 \<le> length p
      then Inr (fold (\<lambda>i v. v OR push_bit (i * 8) (ucast (p ! (off + i)))) [0..<8] 0)
      else Inl Undefined)"

subsection \<open>Object files\<close>

text \<open>The copying loop of \<^verbatim>\<open>read_string\<close>, with the room left in the destination.\<close>

primrec read_chars :: "u8 list \<Rightarrow> u64 \<Rightarrow> nat \<Rightarrow> u8 list" where
  "read_chars file off 0 = []"
| "read_chars file off (Suc n) =
     (if unat off < length file \<and> file ! unat off \<noteq> 0
      then file ! unat off # read_chars file (off + 1) n else [])"

definition read_string :: "u8 list \<Rightarrow> u32 \<Rightarrow> u32 \<Rightarrow> u32 \<Rightarrow> u32 \<Rightarrow> nat \<Rightarrow> u8 list" where
  "read_string file n_secs n_syms n_relocs name_off out_sz =
     (let strtab_off = scast (word_of_nat ONYO_HDR_SIZE + n_secs * word_of_nat ONYO_SECTION_HDR_SIZE
            + n_syms * word_of_nat ONYO_SYMBOL_SIZE + n_relocs * word_of_nat ONYO_RELOC_SIZE) :: u64
      in if word_of_nat (length file) - strtab_off \<le> ucast name_off then []
         else read_chars file (strtab_off + ucast name_off) (out_sz - 1))"

definition parse_section :: "u8 list \<Rightarrow> nat \<Rightarrow> link_error + sec_t" where
  "parse_section file off =
     bindE (rd_u32 file off) (\<lambda>name_off. bindE (rd_u32 file (off + 4)) (\<lambda>ty.
     bindE (rd_u32 file (off + 8)) (\<lambda>flags. bindE (rd_u32 file (off + 12)) (\<lambda>align.
     bindE (rd_u64 file (off + 16)) (\<lambda>size. bindE (rd_u64 file (off + 24)) (\<lambda>data_off.
       Inr \<lparr>sec_name_off = name_off, sec_type = ty, sec_flags = flags, sec_align = align,
            sec_size = size, sec_data_off = data_off, sec_data = None\<rparr>))))))"

definition parse_symbol :: "u8 list \<Rightarrow> (u32 \<Rightarrow> u8 list) \<Rightarrow> nat \<Rightarrow> nat \<Rightarrow> link_error + lsym_t" where
  "parse_symbol file str idx off =
     bindE (rd_u32 file off) (\<lambda>name_off. bindE (rd_u32 file (off + 4)) (\<lambda>flags.
     bindE (rd_u32 file (off + 8)) (\<lambda>section_idx. bindE (rd_u64 file (off + 16)) (\<lambda>v.
     bindE (rd_u64 file (off + 24)) (\<lambda>size.
       Inr \<lparr>lsym_name = str name_off, lsym_flags = flags, lsym_section_idx = section_idx,
            lsym_value = v, lsym_size = size, lsym_obj_idx = idx\<rparr>)))))"

definition parse_reloc :: "u8 list \<Rightarrow> nat \<Rightarrow> nat \<Rightarrow> link_error + reloc_t" where
  "parse_reloc file idx off =
     bindE (rd_u32 file off) (\<lambda>section_idx. bindE (rd_u32 file (off + 4)) (\<lambda>ty.
     bindE (rd_u64 file (off + 8)) (\<lambda>offset. bindE (rd_u32 file (off + 16)) (\<lambda>sym_idx.
     bindE (rd_u32 file (off + 20)) (\<lambda>addend.
       Inr \<lparr>rel_section_idx = section_idx, rel_type = ty, rel_offset = offset,
            rel_sym_idx = sym_idx, rel_addend = addend, rel_obj_idx = idx\<rparr>)))))"

text \<open>The three table loops: \<open>n\<close> entries of a fixed size.\<close>

primrec parse_table :: "(nat \<Rightarrow> link_error + 'a) \<Rightarrow> nat \<Rightarrow> nat \<Rightarrow> nat \<Rightarrow> link_error + 'a list" where
  "parse_table rd esize off 0 = Inr []"
| "parse_table rd esize off (Suc n) =
     bindE (rd off) (\<lambda>x. bindE (parse_table rd esize (off + esize) n) (\<lambda>xs. Inr (x # xs)))"

primrec attach_data :: "u8 list \<Rightarrow> nat \<Rightarrow> sec_t list \<Rightarrow> link_error + sec_t list" where
  "attach_data file i [] = Inr []"
| "attach_data file i (s # ss) =
     (if sec_type s = ONYO_SEC_BSS
      then bindE (attach_data file (Suc i) ss) (\<lambda>ss. Inr (s\<lparr>sec_data := None\<rparr> # ss))
      else if word_of_nat (length file) < sec_data_off s + sec_size s then Inl (SectionOutOfBounds i)
      else bindE (attach_data file (Suc i) ss)
             (\<lambda>ss. Inr (s\<lparr>sec_data := Some (unat (sec_data_off s))\<rparr> # ss)))"

text \<open>Cutting a buffer at its first NUL, as the string functions of C read it.\<close>

definition c_str :: "u8 list \<Rightarrow> u8 list" where
  "c_str bs = takeWhile (\<lambda>b. b \<noteq> 0) bs"

definition parse_object :: "obj_t list \<Rightarrow> u8 list \<Rightarrow> u8 list \<Rightarrow> bool \<Rightarrow> link_error + obj_t list" where
  "parse_object objs file name is_archive_member =
     (if MAX_OBJECTS \<le> length objs then Inl TooManyObjects
      else if length file < ONYO_HDR_SIZE then Inl FileTooSmall
      else bindE (rd_u32 file 0) (\<lambda>magic.
        if magic \<noteq> ONYO_MAGIC then Inl (BadObjectMagic magic)
        else bindE (rd_u32 file 4) (\<lambda>version.
        if version \<noteq> ONYO_VERSION_1 then Inl (BadObjectVersion version)
        else bindE (rd_u32 file 0x0C) (\<lambda>n_secs. bindE (rd_u32 file 0x10) (\<lambda>n_syms.
        bindE (rd_u32 file 0x14) (\<lambda>n_relocs.
        if MAX_SECS_PER_OBJ < n_secs then Inl (TooManySections n_secs)
        else let off_syms = ONYO_HDR_SIZE + unat n_secs * ONYO_SECTION_HDR_SIZE;
                 off_relocs = off_syms + unat n_syms * ONYO_SYMBOL_SIZE;
                 str = (\<lambda>name_off. read_string file n_secs n_syms n_relocs name_off 256)
             in bindE (parse_table (parse_section file) ONYO_SECTION_HDR_SIZE ONYO_HDR_SIZE (unat n_secs)) (\<lambda>secs.
                bindE (parse_table (parse_symbol file str (length objs)) ONYO_SYMBOL_SIZE off_syms (unat n_syms)) (\<lambda>syms.
                bindE (parse_table (parse_reloc file (length objs)) ONYO_RELOC_SIZE off_relocs (unat n_relocs)) (\<lambda>relocs.
                bindE (attach_data file 0 secs) (\<lambda>secs.
                  Inr (objs @ [\<lparr>obj_name = take 255 (c_str name), obj_secs = secs, obj_syms = syms,
                                obj_relocs = relocs, obj_file_data = file,
                                obj_is_archive_member = is_archive_member\<rparr>])))))))))))"

subsection \<open>Archives\<close>

text \<open>
  \<^verbatim>\<open>strtol\<close> in base ten, for the at most sixteen characters the code gives it, which cannot
  overflow a \<^verbatim>\<open>long\<close>.
\<close>

definition dec_digit :: "u8 \<Rightarrow> bool" where
  "dec_digit b \<longleftrightarrow> 48 \<le> b \<and> b \<le> 57"

definition strtol :: "u8 list \<Rightarrow> int" where
  "strtol bs =
     (let bs = dropWhile (\<lambda>b. b = 32 \<or> 9 \<le> b \<and> b \<le> 13) bs;
          neg = (bs \<noteq> [] \<and> hd bs = 45);
          bs = (if bs \<noteq> [] \<and> (hd bs = 45 \<or> hd bs = 43) then tl bs else bs);
          v = fold (\<lambda>b v. 10 * v + (uint b - 48)) (takeWhile dec_digit bs) 0
      in if neg then - v else v)"

text \<open>The name field of a member header: sixteen bytes with the trailing spaces cut off.\<close>

definition member_field :: "u8 list \<Rightarrow> u8 list" where
  "member_field bs = c_str (rev (dropWhile (\<lambda>b. b = 32) (rev bs)))"

definition ar_magic :: "u8 list" where
  "ar_magic = bytes_of ''!<arch>'' @ [10]"

function extract_members :: "u8 list \<Rightarrow> u8 list \<Rightarrow> nat \<Rightarrow> obj_t list \<Rightarrow> nat \<Rightarrow> link_error + obj_t list \<times> nat" where
  "extract_members path file off objs n =
     (if length file < off + 60 then Inr (objs, n)
      else let name = member_field (field_at file off 16); msize = strtol (field_at file (off + 48) 10)
      in if msize < 0 \<or> length file < off + 60 + nat msize then Inr (objs, n)
         else let off' = off + 60 + nat msize + (if odd msize then 1 else 0);
                  long_name = (take 3 name = bytes_of ''#1/'');
                  skip = (if long_name then strtol (drop 3 name) else 0);
                  member = field_at file (off + 60 + nat skip) (nat (msize - skip))
         in if name = bytes_of ''/'' \<or> name = bytes_of ''//'' \<or> name = bytes_of ''__.SYMDEF'' \<or> name = []
            then extract_members path file off' objs n
            else if long_name \<and> (skip < 0 \<or> msize < skip) then extract_members path file off' objs n
            else if 4 \<le> length member \<and> rd_u32 member 0 = Inr ONYO_MAGIC
            then (case parse_object objs member
                     (if 0 < skip then take 299 (field_at file (off + 60) (nat skip))
                      else take 299 (path @ bytes_of '':'' @ name)) True of
                    Inr objs' \<Rightarrow> extract_members path file off' objs' (n + 1)
                  | Inl e \<Rightarrow> if e = Undefined then Inl Undefined else extract_members path file off' objs n)
            else extract_members path file off' objs n)"
  by pat_completeness auto

termination
  by (relation "measure (\<lambda>(path, file, off, objs, n). length file - off)") auto

declare extract_members.simps [simp del]

definition parse_archive :: "u8 list \<Rightarrow> u8 list \<Rightarrow> obj_t list \<Rightarrow> link_error + obj_t list" where
  "parse_archive path file objs =
     (if length file < 8 \<or> take 8 file \<noteq> ar_magic then Inl NotAnArchive
      else bindE (extract_members path file 8 objs 0)
             (\<lambda>(objs, n_extracted). if 0 < n_extracted then Inr objs else Inl NoMember))"

text \<open>Reading a file is an operation of the host: \<open>files\<close> gives the contents of each readable path.\<close>

definition load_input :: "(u8 list \<Rightarrow> u8 list option) \<Rightarrow> u8 list \<Rightarrow> obj_t list \<Rightarrow> link_error + obj_t list" where
  "load_input files path objs =
     (case files path of
        None \<Rightarrow> Inl CannotRead
      | Some file \<Rightarrow>
          if 8 \<le> length file \<and> take 8 file = ar_magic then parse_archive path file objs
          else if length file < 4 \<or> rd_u32 file 0 \<noteq> Inr ONYO_MAGIC then Inl NotAnInput
          else parse_object objs file path False)"

end
