(* ===== verification/Linker.thy ===== *)
theory Linker
  imports Linker_Input
begin

text \<open>
  The linker proper, \<^verbatim>\<open>src/tools/onyx-ld.c\<close>: laying the sections out, the global symbol table,
  applying relocations, writing the executable, and \<^verbatim>\<open>main\<close>. The merged sections are byte
  lists; an empty list is the null pointer the code keeps for a section of size zero.
\<close>

definition ONYX_LD_TEXT_VADDR :: u64 where "ONYX_LD_TEXT_VADDR = 0x10000"
definition MAX_SYMS_TOTAL :: nat where "MAX_SYMS_TOTAL = 64 * 1024"

record ld =
  ld_objs :: "obj_t list"
  out_text :: "u8 list"
  out_rodata :: "u8 list"
  out_data :: "u8 list"
  out_bss_size :: u64
  global_syms :: "lsym_t list"

subsection \<open>Layout\<close>

record layout =
  text_sz :: u64
  rodata_sz :: u64
  data_sz :: u64
  bss_sz :: u64

text \<open>The body of the layout loop: a section is put at the end of its merged section, aligned.\<close>

definition place_section :: "sec_t \<Rightarrow> layout \<Rightarrow> sec_t \<times> layout" where
  "place_section s l =
     (let align = (if sec_align s \<noteq> 0 then ucast (sec_align s) else 1)
      in if sec_type s = ONYO_SEC_TEXT
         then let off = align_up (text_sz l) align
              in (s\<lparr>sec_data_off := off\<rparr>, l\<lparr>text_sz := off + sec_size s\<rparr>)
         else if sec_type s = ONYO_SEC_RODATA
         then let off = align_up (rodata_sz l) align
              in (s\<lparr>sec_data_off := off\<rparr>, l\<lparr>rodata_sz := off + sec_size s\<rparr>)
         else if sec_type s = ONYO_SEC_DATA
         then let off = align_up (data_sz l) align
              in (s\<lparr>sec_data_off := off\<rparr>, l\<lparr>data_sz := off + sec_size s\<rparr>)
         else if sec_type s = ONYO_SEC_BSS
         then let off = align_up (bss_sz l) align
              in (s\<lparr>sec_data_off := off\<rparr>, l\<lparr>bss_sz := off + sec_size s\<rparr>)
         else (s, l))"

primrec place_sections :: "sec_t list \<Rightarrow> layout \<Rightarrow> sec_t list \<times> layout" where
  "place_sections [] l = ([], l)"
| "place_sections (s # ss) l =
     (let (s, l) = place_section s l; (ss, l) = place_sections ss l in (s # ss, l))"

primrec place_objects :: "obj_t list \<Rightarrow> layout \<Rightarrow> obj_t list \<times> layout" where
  "place_objects [] l = ([], l)"
| "place_objects (obj # objs) l =
     (let (ss, l) = place_sections (obj_secs obj) l; (objs, l) = place_objects objs l
      in (obj\<lparr>obj_secs := ss\<rparr> # objs, l))"

text \<open>\<^verbatim>\<open>memcpy\<close> of a section into its merged section; a null destination is skipped.\<close>

definition copy_bytes :: "u8 list \<Rightarrow> u64 \<Rightarrow> u8 list \<Rightarrow> nat \<Rightarrow> u64 \<Rightarrow> link_error + u8 list" where
  "copy_bytes out off file p n =
     (if out = [] \<and> off = 0 then Inr out
      else if length file < p + unat n \<or> length out < unat off + unat n then Inl Undefined
      else Inr (put_bytes out (unat off) (field_at file p (unat n))))"

definition copy_section :: "u8 list \<Rightarrow> sec_t \<Rightarrow> ld \<Rightarrow> link_error + ld" where
  "copy_section file s ld =
     (if sec_size s = 0 \<or> sec_type s = ONYO_SEC_BSS then Inr ld
      else case sec_data s of
        None \<Rightarrow> Inr ld
      | Some p \<Rightarrow>
          if sec_type s = ONYO_SEC_TEXT
          then bindE (copy_bytes (out_text ld) (sec_data_off s) file p (sec_size s)) (\<lambda>b. Inr (ld\<lparr>out_text := b\<rparr>))
          else if sec_type s = ONYO_SEC_RODATA
          then bindE (copy_bytes (out_rodata ld) (sec_data_off s) file p (sec_size s)) (\<lambda>b. Inr (ld\<lparr>out_rodata := b\<rparr>))
          else if sec_type s = ONYO_SEC_DATA
          then bindE (copy_bytes (out_data ld) (sec_data_off s) file p (sec_size s)) (\<lambda>b. Inr (ld\<lparr>out_data := b\<rparr>))
          else Inr ld)"

primrec copy_sections :: "u8 list \<Rightarrow> sec_t list \<Rightarrow> ld \<Rightarrow> link_error + ld" where
  "copy_sections file [] ld = Inr ld"
| "copy_sections file (s # ss) ld = bindE (copy_section file s ld) (copy_sections file ss)"

primrec copy_objects :: "obj_t list \<Rightarrow> ld \<Rightarrow> link_error + ld" where
  "copy_objects [] ld = Inr ld"
| "copy_objects (obj # objs) ld =
     bindE (copy_sections (obj_file_data obj) (obj_secs obj) ld) (copy_objects objs)"

definition merge_sections :: "ld \<Rightarrow> link_error + ld" where
  "merge_sections ld =
     (let (objs, l) = place_objects (ld_objs ld) \<lparr>text_sz = 0, rodata_sz = 0, data_sz = 0, bss_sz = 0\<rparr>
      in copy_objects objs (ld\<lparr>ld_objs := objs, out_text := replicate (unat (text_sz l)) 0,
           out_rodata := replicate (unat (rodata_sz l)) 0, out_data := replicate (unat (data_sz l)) 0,
           out_bss_size := bss_sz l\<rparr>))"

subsection \<open>Addresses\<close>

definition ld_rodata_vaddr :: "ld \<Rightarrow> u64" where
  "ld_rodata_vaddr ld = (ONYX_LD_TEXT_VADDR + word_of_nat (length (out_text ld)) + 15) AND NOT 15"

definition ld_data_vaddr :: "ld \<Rightarrow> u64" where
  "ld_data_vaddr ld = (ld_rodata_vaddr ld + word_of_nat (length (out_rodata ld)) + 15) AND NOT 15"

definition ld_bss_vaddr :: "ld \<Rightarrow> u64" where
  "ld_bss_vaddr ld = (ld_data_vaddr ld + word_of_nat (length (out_data ld)) + 15) AND NOT 15"

definition section_base :: "ld \<Rightarrow> u32 \<Rightarrow> u64" where
  "section_base ld ty =
     (if ty = ONYO_SEC_TEXT then ONYX_LD_TEXT_VADDR
      else if ty = ONYO_SEC_RODATA then ld_rodata_vaddr ld
      else if ty = ONYO_SEC_DATA then ld_data_vaddr ld
      else if ty = ONYO_SEC_BSS then ld_bss_vaddr ld
      else 0)"

definition compute_sym_vaddr :: "ld \<Rightarrow> lsym_t \<Rightarrow> u64" where
  "compute_sym_vaddr ld s =
     (if sint (lsym_section_idx s) < 0 then 0
      else let obj = ld_objs ld ! lsym_obj_idx s
           in if length (obj_secs obj) \<le> unat (lsym_section_idx s) then 0
              else let sec = obj_secs obj ! unat (lsym_section_idx s)
                   in section_base ld (sec_type sec) + sec_data_off sec + lsym_value s)"

subsection \<open>The global symbol table\<close>

definition find_global_sym :: "lsym_t list \<Rightarrow> u8 list \<Rightarrow> nat option" where
  "find_global_sym syms name = List.find (\<lambda>i. lsym_name (syms ! i) = name) [0..<length syms]"

definition exported :: "lsym_t \<Rightarrow> bool" where
  "exported s \<longleftrightarrow> lsym_flags s AND ONYO_SYM_DEFINED \<noteq> 0
     \<and> \<not> (lsym_flags s AND ONYO_SYM_LOCAL \<noteq> 0 \<and> lsym_flags s AND ONYO_SYM_GLOBAL = 0)
     \<and> lsym_name s \<noteq> []"

primrec add_symbols :: "lsym_t list \<Rightarrow> lsym_t list \<Rightarrow> link_error + lsym_t list" where
  "add_symbols [] tab = Inr tab"
| "add_symbols (s # ss) tab =
     (if \<not> exported s then add_symbols ss tab
      else if find_global_sym tab (lsym_name s) \<noteq> None then Inl (DuplicateSymbol (lsym_name s))
      else if MAX_SYMS_TOTAL \<le> length tab then Inl TooManySymbols
      else add_symbols ss (tab @ [s]))"

primrec add_object_symbols :: "obj_t list \<Rightarrow> lsym_t list \<Rightarrow> link_error + lsym_t list" where
  "add_object_symbols [] tab = Inr tab"
| "add_object_symbols (obj # objs) tab = bindE (add_symbols (obj_syms obj) tab) (add_object_symbols objs)"

primrec check_symbols :: "lsym_t list \<Rightarrow> lsym_t list \<Rightarrow> link_error + unit" where
  "check_symbols tab [] = Inr ()"
| "check_symbols tab (s # ss) =
     (if lsym_flags s AND ONYO_SYM_DEFINED \<noteq> 0 \<or> lsym_name s = [] then check_symbols tab ss
      else if find_global_sym tab (lsym_name s) = None then Inl (UndefinedSymbol (lsym_name s))
      else check_symbols tab ss)"

primrec check_object_symbols :: "lsym_t list \<Rightarrow> obj_t list \<Rightarrow> link_error + unit" where
  "check_object_symbols tab [] = Inr ()"
| "check_object_symbols tab (obj # objs) =
     bindE (check_symbols tab (obj_syms obj)) (\<lambda>_. check_object_symbols tab objs)"

definition build_global_symbol_table :: "ld \<Rightarrow> link_error + ld" where
  "build_global_symbol_table ld =
     bindE (add_object_symbols (ld_objs ld) (global_syms ld))
       (\<lambda>tab. bindE (check_object_symbols tab (ld_objs ld)) (\<lambda>_. Inr (ld\<lparr>global_syms := tab\<rparr>)))"

subsection \<open>Relocations\<close>

definition wr_u32 :: "u32 \<Rightarrow> u8 list" where
  "wr_u32 v = [ucast (v AND 0xff), ucast (drop_bit 8 v AND 0xff),
               ucast (drop_bit 16 v AND 0xff), ucast (drop_bit 24 v AND 0xff)]"

definition wr_u64 :: "u64 \<Rightarrow> u8 list" where
  "wr_u64 v = map (\<lambda>i. ucast (drop_bit (i * 8) v AND 0xff)) [0..<8]"

definition patch_imm_i :: "u32 \<Rightarrow> u32 \<Rightarrow> u32" where
  "patch_imm_i imm inst = (inst AND 0x000FFFFF) OR (push_bit 20 imm AND 0xFFF00000)"

definition patch_imm_s :: "u32 \<Rightarrow> u32 \<Rightarrow> u32" where
  "patch_imm_s imm inst =
     (inst AND 0x01FFF07F) OR push_bit 7 (imm AND 0x1F) OR push_bit 25 (drop_bit 5 imm AND 0x7F)"

definition patch_imm_u :: "u32 \<Rightarrow> u32 \<Rightarrow> u32" where
  "patch_imm_u imm20 inst = (inst AND 0x00000FFF) OR push_bit 12 imm20"

definition patch_imm_j :: "u32 \<Rightarrow> u32 \<Rightarrow> u32" where
  "patch_imm_j b inst =
     (inst AND 0x0000007F)
       OR (push_bit 10 (b AND 0x100000) OR push_bit 20 (b AND 0x7FE) OR push_bit 9 (b AND 0x800)
           OR (b AND 0xFF000))"

definition patch_imm_b :: "u32 \<Rightarrow> u32 \<Rightarrow> u32" where
  "patch_imm_b b inst =
     (inst AND 0x1FFF07F)
       OR (push_bit 19 (b AND 0x1000) OR push_bit 7 (b AND 0x1E) OR push_bit 20 (b AND 0x7E0)
           OR drop_bit 4 (b AND 0x800))"

text \<open>Patching an instruction in place, and storing bytes: both need the bytes to exist.\<close>

definition store_at :: "u8 list \<Rightarrow> nat \<Rightarrow> u8 list \<Rightarrow> link_error + u8 list" where
  "store_at out off bs = (if length out < off + length bs then Inl Undefined else Inr (put_bytes out off bs))"

definition patch_at :: "u8 list \<Rightarrow> nat \<Rightarrow> (u32 \<Rightarrow> u32) \<Rightarrow> link_error + u8 list" where
  "patch_at out off f = bindE (rd_u32 out off) (\<lambda>inst. store_at out off (wr_u32 (f inst)))"

text \<open>
  The \<^verbatim>\<open>switch\<close> on the relocation type, on the merged section and the offset to patch; \<open>sa\<close> is
  \<^verbatim>\<open>S + A\<close> and \<open>p\<close> the address of the place.
\<close>

definition relocate :: "u32 \<Rightarrow> u64 \<Rightarrow> u64 \<Rightarrow> u8 list \<Rightarrow> nat \<Rightarrow> link_error + u8 list" where
  "relocate ty sa p out off =
     (let delta = sa - p
      in if ty = 1 then store_at out off (wr_u64 sa)
         else if ty = 2 then store_at out off (wr_u32 (ucast sa))
         else if ty = 3
         then let val = ucast ((sa + 0x800) AND 0xFFFFF000) in patch_at out off (patch_imm_u (drop_bit 12 val))
         else if ty = 4 then patch_at out off (patch_imm_i (ucast (sa AND 0xFFF)))
         else if ty = 5 then patch_at out off (patch_imm_s (ucast (sa AND 0xFFF)))
         else if ty = 6
         then let val = ucast ((delta + 0x800) AND 0xFFFFF000) in patch_at out off (patch_imm_u (drop_bit 12 val))
         else if ty = 7 then patch_at out off (patch_imm_i (ucast (delta AND 0xFFF)))
         else if ty = 8 then patch_at out off (patch_imm_s (ucast (delta AND 0xFFF)))
         else if ty = 9
         then (if sint delta > 2 ^ 20 - 1 \<or> sint delta < - (2 ^ 20) then Inl JalOutOfRange
               else patch_at out off (patch_imm_j (ucast delta)))
         else if ty = 10
         then (if sint delta > 4095 \<or> sint delta < - 4096 then Inl BranchOutOfRange
               else patch_at out off (patch_imm_b (ucast delta)))
         else Inl (UnknownReloc ty))"

definition merged_section :: "ld \<Rightarrow> u32 \<Rightarrow> u8 list" where
  "merged_section ld ty =
     (if ty = ONYO_SEC_TEXT then out_text ld
      else if ty = ONYO_SEC_RODATA then out_rodata ld
      else if ty = ONYO_SEC_DATA then out_data ld
      else [])"

definition set_merged :: "u32 \<Rightarrow> u8 list \<Rightarrow> ld \<Rightarrow> ld" where
  "set_merged ty b ld =
     (if ty = ONYO_SEC_TEXT then ld\<lparr>out_text := b\<rparr>
      else if ty = ONYO_SEC_RODATA then ld\<lparr>out_rodata := b\<rparr>
      else if ty = ONYO_SEC_DATA then ld\<lparr>out_data := b\<rparr>
      else ld)"

definition apply_relocation :: "obj_t \<Rightarrow> reloc_t \<Rightarrow> ld \<Rightarrow> link_error + ld" where
  "apply_relocation obj r ld =
     (if length (obj_secs obj) \<le> unat (rel_section_idx r) then Inl BadRelocSection
      else let sec = obj_secs obj ! unat (rel_section_idx r); merged = merged_section ld (sec_type sec)
      in if sec_type sec = ONYO_SEC_BSS then Inl RelocInBss
         else if merged = [] then Inr ld
         else if length (obj_syms obj) \<le> unat (rel_sym_idx r) then Inl BadRelocSymbol
         else let target = obj_syms obj ! unat (rel_sym_idx r)
         in case find_global_sym (global_syms ld) (lsym_name target) of
              None \<Rightarrow> Inl (UnresolvedSymbol (lsym_name target))
            | Some gi \<Rightarrow>
                let S = compute_sym_vaddr ld (global_syms ld ! gi);
                    A = scast (rel_addend r);
                    P = section_base ld (sec_type sec) + sec_data_off sec + rel_offset r
                in bindE (relocate (rel_type r) (S + A) P merged (unat (sec_data_off sec + rel_offset r)))
                     (\<lambda>b. Inr (set_merged (sec_type sec) b ld)))"

primrec apply_object_relocations :: "obj_t \<Rightarrow> reloc_t list \<Rightarrow> ld \<Rightarrow> link_error + ld" where
  "apply_object_relocations obj [] ld = Inr ld"
| "apply_object_relocations obj (r # rs) ld = bindE (apply_relocation obj r ld) (apply_object_relocations obj rs)"

primrec apply_all_relocations :: "obj_t list \<Rightarrow> ld \<Rightarrow> link_error + ld" where
  "apply_all_relocations [] ld = Inr ld"
| "apply_all_relocations (obj # objs) ld =
     bindE (apply_object_relocations obj (obj_relocs obj) ld) (apply_all_relocations objs)"

definition apply_relocations :: "ld \<Rightarrow> link_error + ld" where
  "apply_relocations ld = apply_all_relocations (ld_objs ld) ld"

subsection \<open>The executable\<close>

definition LD_ONX_V1_MAGIC :: u32 where "LD_ONX_V1_MAGIC = 0x4F4E5831"
definition LD_ONX_VMM_R :: u32 where "LD_ONX_VMM_R = 1"
definition LD_ONX_VMM_W :: u32 where "LD_ONX_VMM_W = 2"
definition LD_ONX_VMM_X :: u32 where "LD_ONX_VMM_X = 4"
definition LD_ONX_FLAGS_RING1 :: u32 where "LD_ONX_FLAGS_RING1 = 1"

definition onx_put_u32 :: "u8 list \<Rightarrow> nat \<Rightarrow> u32 \<Rightarrow> u8 list" where
  "onx_put_u32 p off v = put_bytes p off (wr_u32 v)"

definition onx_put_u64 :: "u8 list \<Rightarrow> nat \<Rightarrow> u64 \<Rightarrow> u8 list" where
  "onx_put_u64 p off v = put_bytes p off (wr_u64 v)"

definition ld_segments :: "ld \<Rightarrow> OnxSegment list" where
  "ld_segments ld =
     (let text_size = length (out_text ld); rodata_size = length (out_rodata ld);
          data_size = length (out_data ld)
      in [\<lparr>seg_vaddr = ONYX_LD_TEXT_VADDR, seg_filesz = word_of_nat text_size, seg_memsz = word_of_nat text_size,
           seg_offset = word_of_nat ONX_V1_HEADER_SIZE, seg_flags = LD_ONX_VMM_R OR LD_ONX_VMM_X,
           seg_align = 4, seg_reserved = 0\<rparr>,
          \<lparr>seg_vaddr = ld_rodata_vaddr ld, seg_filesz = word_of_nat rodata_size, seg_memsz = word_of_nat rodata_size,
           seg_offset = word_of_nat (ONX_V1_HEADER_SIZE + text_size), seg_flags = LD_ONX_VMM_R,
           seg_align = 16, seg_reserved = 0\<rparr>]
         @ (if 0 < data_size
            then [\<lparr>seg_vaddr = ld_data_vaddr ld, seg_filesz = word_of_nat data_size, seg_memsz = word_of_nat data_size,
                   seg_offset = word_of_nat (ONX_V1_HEADER_SIZE + text_size + rodata_size),
                   seg_flags = LD_ONX_VMM_R OR LD_ONX_VMM_W, seg_align = 16, seg_reserved = 0\<rparr>]
            else [])
         @ (if 0 < out_bss_size ld
            then [\<lparr>seg_vaddr = ld_bss_vaddr ld, seg_filesz = 0, seg_memsz = out_bss_size ld, seg_offset = 0,
                   seg_flags = LD_ONX_VMM_R OR LD_ONX_VMM_W, seg_align = 16, seg_reserved = 0\<rparr>]
            else []))"

definition ld_write_segment :: "u8 list \<Rightarrow> nat \<Rightarrow> OnxSegment \<Rightarrow> u8 list" where
  "ld_write_segment p off s =
     (let p = onx_put_u64 p off (seg_vaddr s);
          p = onx_put_u64 p (off + 8) (seg_filesz s);
          p = onx_put_u64 p (off + 16) (seg_memsz s);
          p = onx_put_u32 p (off + 24) (seg_offset s);
          p = onx_put_u32 p (off + 28) (seg_flags s);
          p = onx_put_u32 p (off + 32) (seg_align s)
      in onx_put_u32 p (off + 36) (seg_reserved s))"

primrec ld_write_segments :: "u8 list \<Rightarrow> nat \<Rightarrow> OnxSegment list \<Rightarrow> u8 list" where
  "ld_write_segments hdr i [] = hdr"
| "ld_write_segments hdr i (s # segs) =
     ld_write_segments (ld_write_segment hdr (ONX_V1_FIXED_HDR + i * ONX_V1_SEG_SIZE) s) (Suc i) segs"

definition emit_onx :: "u8 list \<Rightarrow> bool \<Rightarrow> ld \<Rightarrow> link_error + u8 list" where
  "emit_onx entry_sym ring1 ld =
     (case find_global_sym (global_syms ld) entry_sym of
        None \<Rightarrow> Inl NoEntrySymbol
      | Some i \<Rightarrow>
          let entry = compute_sym_vaddr ld (global_syms ld ! i);
              segs = ld_segments ld;
              hdr = replicate ONX_V1_HEADER_SIZE 0;
              hdr = onx_put_u32 hdr 0 LD_ONX_V1_MAGIC;
              hdr = onx_put_u32 hdr 4 ONX_VERSION_1;
              hdr = onx_put_u64 hdr 8 entry;
              hdr = onx_put_u32 hdr 16 (word_of_nat (length segs));
              hdr = onx_put_u32 hdr 20 (if ring1 then LD_ONX_FLAGS_RING1 else 0);
              hdr = ld_write_segments hdr 0 segs
          in Inr (hdr @ out_text ld @ out_rodata ld @ out_data ld))"

subsection \<open>The program\<close>

record ld_options =
  opt_output :: "u8 list"
  opt_entry :: "u8 list"
  opt_ring1 :: bool
  opt_verbose :: bool

text \<open>The outcome of a run: usage was printed, linking failed, or a file was written.\<close>

datatype ld_outcome = Usage int | Failed link_error | Written "u8 list" "u8 list"

text \<open>The argument loop; a return from it ends the program.\<close>

fun parse_args :: "(u8 list \<Rightarrow> u8 list option) \<Rightarrow> u8 list list \<Rightarrow> ld_options \<Rightarrow> obj_t list
    \<Rightarrow> ld_outcome + ld_options \<times> obj_t list" where
  "parse_args files [] opts objs = Inr (opts, objs)"
| "parse_args files (arg # args) opts objs =
     (if arg = bytes_of ''-o'' \<or> arg = bytes_of ''--output''
      then (case args of [] \<Rightarrow> Inl (Usage 1)
            | v # rest \<Rightarrow> parse_args files rest (opts\<lparr>opt_output := v\<rparr>) objs)
      else if arg = bytes_of ''-e'' \<or> arg = bytes_of ''--entry''
      then (case args of [] \<Rightarrow> Inl (Usage 1)
            | v # rest \<Rightarrow> parse_args files rest (opts\<lparr>opt_entry := v\<rparr>) objs)
      else if arg = bytes_of ''--ring1'' then parse_args files args (opts\<lparr>opt_ring1 := True\<rparr>) objs
      else if arg = bytes_of ''-v'' \<or> arg = bytes_of ''--verbose''
      then parse_args files args (opts\<lparr>opt_verbose := True\<rparr>) objs
      else if arg = bytes_of ''-h'' \<or> arg = bytes_of ''--help'' then Inl (Usage 0)
      else if arg \<noteq> [] \<and> hd arg = 45 then Inl (Usage 1)
      else case load_input files arg objs of
             Inl e \<Rightarrow> Inl (Failed e)
           | Inr objs \<Rightarrow> parse_args files args opts objs)"

definition link_objects :: "u8 list \<Rightarrow> bool \<Rightarrow> obj_t list \<Rightarrow> link_error + u8 list" where
  "link_objects entry_sym ring1 objs =
     bindE (merge_sections \<lparr>ld_objs = objs, out_text = [], out_rodata = [], out_data = [],
              out_bss_size = 0, global_syms = []\<rparr>)
       (\<lambda>ld. bindE (build_global_symbol_table ld)
       (\<lambda>ld. bindE (apply_relocations ld)
       (\<lambda>ld. emit_onx entry_sym ring1 ld)))"

definition ld_main :: "(u8 list \<Rightarrow> u8 list option) \<Rightarrow> (u8 list \<Rightarrow> bool) \<Rightarrow> u8 list list \<Rightarrow> ld_outcome" where
  "ld_main files can_write args =
     (case parse_args files args \<lparr>opt_output = bytes_of ''a.onx'', opt_entry = bytes_of ''_start'',
               opt_ring1 = False, opt_verbose = False\<rparr> [] of
        Inl r \<Rightarrow> r
      | Inr (opts, objs) \<Rightarrow>
          if objs = [] then Usage 1
          else case link_objects (opt_entry opts) (opt_ring1 opts) objs of
                 Inl e \<Rightarrow> Failed e
               | Inr file \<Rightarrow> if can_write (opt_output opts) then Written (opt_output opts) file
                            else Failed CannotWrite)"

text \<open>The exit status; an undefined access has none.\<close>

definition ld_status :: "ld_outcome \<Rightarrow> int option" where
  "ld_status r =
     (case r of Usage n \<Rightarrow> Some n
      | Failed e \<Rightarrow> if e = Undefined then None else Some 1
      | Written _ _ \<Rightarrow> Some 0)"

end
