(* ===== verification/Linker_Layout.thy ===== *)
theory Linker_Layout
  imports Linker
begin

text \<open>
  The layout phase of the linker, \<^verbatim>\<open>merge_sections\<close>: sections of one kind are put behind each
  other, aligned and without overlap, and each keeps its bytes.
\<close>

subsection \<open>Sections and their places\<close>

definition sec_start :: "sec_t \<Rightarrow> nat" where "sec_start s = unat (sec_data_off s)"
definition sec_len :: "sec_t \<Rightarrow> nat" where "sec_len s = unat (sec_size s)"

definition sec_alignment :: "sec_t \<Rightarrow> nat" where
  "sec_alignment s = (if sec_align s = 0 then 1 else unat (sec_align s))"

text \<open>A section as a compiler produces it: a known kind, a power-of-two alignment, bytes in the file.\<close>

definition sec_ok :: "u8 list \<Rightarrow> sec_t \<Rightarrow> bool" where
  "sec_ok file s \<longleftrightarrow> sec_type s \<le> 3 \<and> (\<exists>k < 32. sec_alignment s = 2 ^ k)
     \<and> (sec_type s \<noteq> ONYO_SEC_BSS \<longrightarrow> (\<exists>p. sec_data s = Some p \<and> p + sec_len s \<le> length file))"

definition sec_bytes :: "u8 list \<Rightarrow> sec_t \<Rightarrow> u8 list" where
  "sec_bytes file s = field_at file (the (sec_data s)) (sec_len s)"

definition room :: "sec_t list \<Rightarrow> nat" where
  "room ss = sum_list (map (\<lambda>s. sec_len s + sec_alignment s) ss)"

definition before :: "sec_t \<Rightarrow> sec_t \<Rightarrow> bool" where
  "before a b \<longleftrightarrow> (sec_type a = sec_type b \<longrightarrow> sec_start a + sec_len a \<le> sec_start b)"

definition size_in :: "layout \<Rightarrow> u32 \<Rightarrow> u64" where
  "size_in l t = (if t = ONYO_SEC_TEXT then text_sz l else if t = ONYO_SEC_RODATA then rodata_sz l
     else if t = ONYO_SEC_DATA then data_sz l else bss_sz l)"

definition placed :: "layout \<Rightarrow> sec_t list \<Rightarrow> layout \<Rightarrow> bool" where
  "placed l ss l' \<longleftrightarrow> sorted_wrt before ss
     \<and> (\<forall>s \<in> set ss. sec_alignment s dvd sec_start s \<and> unat (size_in l (sec_type s)) \<le> sec_start s
          \<and> sec_start s + sec_len s \<le> unat (size_in l' (sec_type s)))
     \<and> (\<forall>t \<le> 3. unat (size_in l t) \<le> unat (size_in l' t))"

definition moved :: "sec_t \<Rightarrow> sec_t \<Rightarrow> bool" where
  "moved s s' \<longleftrightarrow> (\<exists>a. s' = s\<lparr>sec_data_off := a\<rparr>)"

lemma moved_set: "list_all2 moved ss ss' \<Longrightarrow> s' \<in> set ss' \<Longrightarrow> \<exists>s \<in> set ss. moved s s'"
  by (induction rule: list_all2_induct) auto

lemma moved_simps:
  "moved s s' \<Longrightarrow> sec_type s' = sec_type s" "moved s s' \<Longrightarrow> sec_len s' = sec_len s"
  "moved s s' \<Longrightarrow> sec_data s' = sec_data s" "moved s s' \<Longrightarrow> sec_ok file s' = sec_ok file s"
  by (auto simp: moved_def sec_len_def sec_ok_def sec_alignment_def)

lemma u32_le_3: "(t :: u32) \<le> 3 \<Longrightarrow> t = 0 \<or> t = 1 \<or> t = 2 \<or> t = 3"
proof -
  assume "t \<le> 3"
  then have "unat t \<le> 3" by (simp add: word_le_nat_alt)
  then have "unat t = 0 \<or> unat t = 1 \<or> unat t = 2 \<or> unat t = 3" by linarith
  then show ?thesis by (simp add: word_unat_eq_iff)
qed

lemma place_section_eq:
  assumes "sec_type s \<le> 3" "place_section s l = (s', l')"
  shows "s' = s\<lparr>sec_data_off := align_up (size_in l (sec_type s)) (word_of_nat (sec_alignment s))\<rparr>"
    and "size_in l' (sec_type s) = sec_data_off s' + sec_size s"
    and "t \<le> 3 \<Longrightarrow> t \<noteq> sec_type s \<Longrightarrow> size_in l' t = size_in l t"
proof -
  have a: "(if sec_align s \<noteq> 0 then ucast (sec_align s) else 1) = (word_of_nat (sec_alignment s) :: u64)"
    by (simp add: sec_alignment_def)
  show "s' = s\<lparr>sec_data_off := align_up (size_in l (sec_type s)) (word_of_nat (sec_alignment s))\<rparr>"
    and "size_in l' (sec_type s) = sec_data_off s' + sec_size s"
    using assms(2) u32_le_3 [OF assms(1)] unfolding place_section_def a
    by (auto simp: size_in_def onyo_sections Let_def)
  show "t \<le> 3 \<Longrightarrow> t \<noteq> sec_type s \<Longrightarrow> size_in l' t = size_in l t"
    using assms(2) u32_le_3 [OF assms(1)] u32_le_3 [of t] unfolding place_section_def a
    by (auto simp: size_in_def onyo_sections Let_def)
qed

lemma place_section_placed:
  assumes "sec_type s \<le> 3" "k < 32" "sec_alignment s = 2 ^ k" "place_section s l = (s', l')"
    and "unat (size_in l (sec_type s)) + sec_len s + sec_alignment s \<le> 2 ^ 64 - 1"
  shows "placed l [s'] l'" and "moved s s'"
    and "\<forall>t \<le> 3. unat (size_in l' t) \<le> unat (size_in l t) + sec_len s + sec_alignment s"
proof -
  note eq = place_section_eq [OF assms(1,4)]
  let ?x = "size_in l (sec_type s)"
  have off: "sec_data_off s' = align_up ?x (2 ^ k)"
    using eq(1) assms(3) by simp
  have "k < 64" "unat ?x + 2 ^ k \<le> 2 ^ 64" using assms(2,3,5) by simp_all
  note b = align_up_bounds [OF this, folded off sec_start_def]
  have same: "sec_len s' = sec_len s" "sec_type s' = sec_type s" "sec_alignment s' = sec_alignment s"
    using eq(1) by (simp_all add: sec_len_def sec_alignment_def)
  have e: "unat (size_in l' (sec_type s)) = sec_start s' + sec_len s"
    using b(3) assms(3,5) unfolding eq(2) sec_start_def sec_len_def by (simp add: unat_word_ariths)
  have other: "unat (size_in l t) \<le> unat (size_in l' t) \<and>
      unat (size_in l' t) \<le> unat (size_in l t) + sec_len s + sec_alignment s" if "t \<le> 3" for t
    using eq(3) [OF that] e b(2,3) assms(3) by (cases "t = sec_type s") auto
  then show "\<forall>t \<le> 3. unat (size_in l' t) \<le> unat (size_in l t) + sec_len s + sec_alignment s" by blast
  show "placed l [s'] l'"
    using other b e same assms(3) by (auto simp: placed_def)
  show "moved s s'" using eq(1) by (auto simp: moved_def)
qed

lemma placed_append:
  assumes "placed l ss l'" "placed l' ss' l''" "\<forall>s \<in> set (ss @ ss'). sec_type s \<le> 3"
  shows "placed l (ss @ ss') l''"
  using assms unfolding placed_def sorted_wrt_append before_def
  by (auto 0 3 intro: order_trans)

lemma place_sections_placed:
  assumes "\<forall>s \<in> set ss. sec_type s \<le> 3 \<and> (\<exists>k < 32. sec_alignment s = 2 ^ k)"
    and "\<forall>t \<le> 3. unat (size_in l t) + room ss < 2 ^ 64" and "place_sections ss l = (ss', l')"
  shows "placed l ss' l' \<and> list_all2 moved ss ss'"
  using assms
proof (induction ss arbitrary: l ss')
  case Nil
  then show ?case by (simp add: placed_def)
next
  case (Cons s ss)
  obtain s1 l1 where one: "place_section s l = (s1, l1)" by fastforce
  obtain ss1 where rest: "place_sections ss l1 = (ss1, l')" and ss': "ss' = s1 # ss1"
    using Cons.prems(3) one by (auto split: prod.splits)
  obtain k where k: "k < 32" "sec_alignment s = 2 ^ k" and ty: "sec_type s \<le> 3" using Cons.prems(1) by auto
  have "unat (size_in l (sec_type s)) + sec_len s + sec_alignment s \<le> 2 ^ 64 - 1"
    using Cons.prems(2) ty by (auto simp: room_def dest: spec [of _ "sec_type s"])
  note p = place_section_placed [OF ty k one this]
  have "\<forall>t \<le> 3. unat (size_in l1 t) + room ss < 2 ^ 64"
  proof (intro allI impI)
    fix t :: u32
    assume "t \<le> 3"
    then have "unat (size_in l1 t) \<le> unat (size_in l t) + sec_len s + sec_alignment s"
      "unat (size_in l t) + room (s # ss) < 2 ^ 64" using p(3) Cons.prems(2) by auto
    then show "unat (size_in l1 t) + room ss < 2 ^ 64" by (simp add: room_def)
  qed
  with Cons.IH rest Cons.prems(1) have ih: "placed l1 ss1 l'" "list_all2 moved ss ss1" by auto
  have "\<forall>s \<in> set ss1. sec_type s \<le> 3"
    using moved_set [OF ih(2)] Cons.prems(1) by (fastforce simp: moved_simps)
  moreover have "sec_type s1 \<le> 3" using p(2) ty by (auto simp: moved_def)
  ultimately show ?case
    using placed_append [OF p(1) ih(1)] p(2) ih(2) by (simp add: ss')
qed

subsection \<open>All sections in link order\<close>

definition all_secs :: "obj_t list \<Rightarrow> sec_t list" where
  "all_secs objs = concat (map obj_secs objs)"

lemma place_sections_append:
  "place_sections (xs @ ys) l =
     (let (xs', l1) = place_sections xs l; (ys', l2) = place_sections ys l1 in (xs' @ ys', l2))"
  by (induction xs arbitrary: l) (simp_all split: prod.splits)

definition same_object :: "obj_t \<Rightarrow> obj_t \<Rightarrow> bool" where
  "same_object o1 o2 \<longleftrightarrow> (\<exists>ss. o2 = o1\<lparr>obj_secs := ss\<rparr> \<and> list_all2 moved (obj_secs o1) ss)"

lemma place_sections_length: "length (fst (place_sections ss l)) = length ss"
  by (induction ss arbitrary: l) (simp_all add: case_prod_beta Let_def)

lemma place_objects_flat:
  "place_objects objs l = (objs', l') \<Longrightarrow> place_sections (all_secs objs) l = (all_secs objs', l')"
  by (induction objs arbitrary: l objs') (auto simp: all_secs_def place_sections_append split: prod.splits)

lemma place_objects_same:
  assumes "place_objects objs l = (objs', l')" "list_all2 moved (all_secs objs) (all_secs objs')"
  shows "list_all2 same_object objs objs'"
  using assms
proof (induction objs arbitrary: l objs')
  case Nil
  then show ?case by simp
next
  case (Cons obj objs)
  obtain ss l1 where ss: "place_sections (obj_secs obj) l = (ss, l1)" by fastforce
  obtain objs1 where rest: "place_objects objs l1 = (objs1, l')" and o': "objs' = obj\<lparr>obj_secs := ss\<rparr> # objs1"
    using Cons.prems(1) ss by (auto split: prod.splits)
  have "length ss = length (obj_secs obj)" using place_sections_length [of "obj_secs obj" l] ss by simp
  then have "list_all2 moved (obj_secs obj) ss" "list_all2 moved (all_secs objs) (all_secs objs1)"
    using Cons.prems(2) o' by (auto simp: all_secs_def list_all2_append)
  then show ?case
    using Cons.IH [OF rest] o' by (auto simp: same_object_def)
qed

subsection \<open>Copying\<close>

text \<open>The copying loops, as one loop over the sections with the file each comes from.\<close>

definition sources :: "obj_t list \<Rightarrow> (u8 list \<times> sec_t) list" where
  "sources objs = concat (map (\<lambda>obj. map (Pair (obj_file_data obj)) (obj_secs obj)) objs)"

primrec copy_all :: "(u8 list \<times> sec_t) list \<Rightarrow> ld \<Rightarrow> link_error + ld" where
  "copy_all [] ld = Inr ld"
| "copy_all (fs # rest) ld = bindE (copy_section (fst fs) (snd fs) ld) (copy_all rest)"

lemma copy_all_append: "copy_all (xs @ ys) = (\<lambda>ld. bindE (copy_all xs ld) (copy_all ys))"
  by (induction xs; rule ext) (simp_all add: bindE_assoc)

lemma copy_sections_all: "copy_sections file ss = copy_all (map (Pair file) ss)"
  by (induction ss; rule ext) simp_all

lemma copy_objects_all: "copy_objects objs = copy_all (sources objs)"
  by (induction objs; rule ext) (simp_all add: sources_def copy_all_append copy_sections_all)

lemma merged_set [simp]:
  "t \<le> 3 \<Longrightarrow> t \<noteq> ONYO_SEC_BSS \<Longrightarrow> merged_section (set_merged t b ld) t' = (if t' = t then b else merged_section ld t')"
  "ld_objs (set_merged t b ld) = ld_objs ld" "out_bss_size (set_merged t b ld) = out_bss_size ld"
  "global_syms (set_merged t b ld) = global_syms ld"
  using u32_le_3 [of t] by (auto simp: merged_section_def set_merged_def onyo_sections)

lemma set_merged_same: "set_merged t (merged_section ld t) ld = ld"
  by (simp add: set_merged_def merged_section_def)

definition in_range :: "ld \<Rightarrow> sec_t \<Rightarrow> bool" where
  "in_range ld s \<longleftrightarrow> sec_type s \<noteq> ONYO_SEC_BSS \<longrightarrow> sec_start s + sec_len s \<le> length (merged_section ld (sec_type s))"

lemma length_sec_bytes: "sec_ok file s \<Longrightarrow> sec_type s \<noteq> ONYO_SEC_BSS \<Longrightarrow> length (sec_bytes file s) = sec_len s"
  by (auto simp: sec_ok_def sec_bytes_def field_at_def)

lemma copy_section_ok:
  assumes "sec_ok file s" "in_range ld s"
  shows "copy_section file s ld = Inr (if sec_type s = ONYO_SEC_BSS then ld
    else set_merged (sec_type s) (put_bytes (merged_section ld (sec_type s)) (sec_start s) (sec_bytes file s)) ld)"
proof (cases "sec_type s = ONYO_SEC_BSS")
  case True
  then show ?thesis by (simp add: copy_section_def)
next
  case False
  then obtain p where p: "sec_data s = Some p" "p + sec_len s \<le> length file"
    using assms(1) by (auto simp: sec_ok_def)
  have r: "sec_start s + sec_len s \<le> length (merged_section ld (sec_type s))"
    using assms(2) False by (simp add: in_range_def)
  show ?thesis
  proof (cases "sec_size s = 0")
    case True
    then have "sec_bytes file s = []" by (simp add: sec_bytes_def field_at_def sec_len_def)
    with True False show ?thesis by (simp add: copy_section_def set_merged_same)
  next
    case nz: False
    then have "0 < sec_len s" by (simp add: sec_len_def unat_gt_0)
    with r p have c: "copy_bytes (merged_section ld (sec_type s)) (sec_data_off s) file p (sec_size s) =
        Inr (put_bytes (merged_section ld (sec_type s)) (sec_start s) (sec_bytes file s))"
      by (auto simp: copy_bytes_def sec_start_def sec_len_def sec_bytes_def not_less)
    have "sec_type s \<le> 3" using assms(1) by (simp add: sec_ok_def)
    from u32_le_3 [OF this] False nz p(1) c show ?thesis
      by (elim disjE) (simp_all add: copy_section_def set_merged_def merged_section_def onyo_sections)
  qed
qed

definition apart_from :: "sec_t \<Rightarrow> u32 \<Rightarrow> nat \<Rightarrow> nat \<Rightarrow> bool" where
  "apart_from s t a n \<longleftrightarrow> (sec_type s = t \<longrightarrow> a + n \<le> sec_start s \<or> sec_start s + sec_len s \<le> a)"

text \<open>What one copy leaves alone.\<close>

definition keeps :: "ld \<Rightarrow> ld \<Rightarrow> bool" where
  "keeps ld ld' \<longleftrightarrow> ld_objs ld' = ld_objs ld \<and> out_bss_size ld' = out_bss_size ld \<and> global_syms ld' = global_syms ld
     \<and> (\<forall>t. length (merged_section ld' t) = length (merged_section ld t))"

lemma keeps_trans: "keeps a b \<Longrightarrow> keeps b c \<Longrightarrow> keeps a c"
  by (simp add: keeps_def)

lemma copy_section_effect:
  assumes "sec_ok file s" "in_range ld s"
  obtains ld' where "copy_section file s ld = Inr ld'" "keeps ld ld'"
    "sec_type s \<noteq> ONYO_SEC_BSS \<Longrightarrow> field_at (merged_section ld' (sec_type s)) (sec_start s) (sec_len s) = sec_bytes file s"
    "\<And>t a n. apart_from s t a n \<Longrightarrow> field_at (merged_section ld' t) a n = field_at (merged_section ld t) a n"
proof (cases "sec_type s = ONYO_SEC_BSS")
  case True
  then show ?thesis using copy_section_ok [OF assms] by (intro that [of ld]) (simp_all add: keeps_def)
next
  case False
  have t: "sec_type s \<le> 3" using assms(1) by (simp add: sec_ok_def)
  let ?m = "merged_section ld (sec_type s)"
  let ?ld = "set_merged (sec_type s) (put_bytes ?m (sec_start s) (sec_bytes file s)) ld"
  have r: "sec_start s + length (sec_bytes file s) \<le> length ?m"
    using assms(2) False length_sec_bytes [OF assms(1) False] by (simp add: in_range_def)
  show ?thesis
  proof (rule that [of ?ld])
    show "copy_section file s ld = Inr ?ld" using copy_section_ok [OF assms] False by simp
    show "keeps ld ?ld" using t False r by (simp add: keeps_def)
    show "field_at (merged_section ?ld (sec_type s)) (sec_start s) (sec_len s) = sec_bytes file s"
      using t False put_bytes_field(1) [OF r] length_sec_bytes [OF assms(1) False] by simp
    show "field_at (merged_section ?ld t) a n = field_at (merged_section ld t) a n" if "apart_from s t a n" for t a n
      using that t False r put_bytes_other [OF r] length_sec_bytes [OF assms(1) False]
      by (auto simp: apart_from_def)
  qed
qed

lemma copy_all_effect:
  assumes "\<forall>(file, s) \<in> set srcs. sec_ok file s \<and> in_range ld s" and "sorted_wrt before (map snd srcs)"
  shows "\<exists>ld'. copy_all srcs ld = Inr ld' \<and> keeps ld ld'
    \<and> (\<forall>(file, s) \<in> set srcs. sec_type s \<noteq> ONYO_SEC_BSS \<longrightarrow>
          field_at (merged_section ld' (sec_type s)) (sec_start s) (sec_len s) = sec_bytes file s)
    \<and> (\<forall>t a n. (\<forall>(file, s) \<in> set srcs. apart_from s t a n) \<longrightarrow>
          field_at (merged_section ld' t) a n = field_at (merged_section ld t) a n)"
  using assms
proof (induction srcs arbitrary: ld)
  case Nil
  then show ?case by (simp add: keeps_def)
next
  case (Cons fs srcs)
  obtain f s where fs: "fs = (f, s)" by fastforce
  obtain ld1 where one: "copy_section f s ld = Inr ld1" and k1: "keeps ld ld1"
    and c1: "sec_type s \<noteq> ONYO_SEC_BSS \<Longrightarrow> field_at (merged_section ld1 (sec_type s)) (sec_start s) (sec_len s) = sec_bytes f s"
    and f1: "\<And>t a n. apart_from s t a n \<Longrightarrow> field_at (merged_section ld1 t) a n = field_at (merged_section ld t) a n"
    using copy_section_effect [of f s ld] Cons.prems(1) fs by auto
  have r: "\<forall>(file, s) \<in> set srcs. sec_ok file s \<and> in_range ld1 s"
    using Cons.prems(1) k1 by (auto simp: in_range_def keeps_def)
  have "sorted_wrt before (map snd srcs)" using Cons.prems(2) by simp
  from Cons.IH [OF r this] obtain ld2 where two: "copy_all srcs ld1 = Inr ld2" and k2: "keeps ld1 ld2"
    and c2: "\<forall>(file, s) \<in> set srcs. sec_type s \<noteq> ONYO_SEC_BSS \<longrightarrow>
          field_at (merged_section ld2 (sec_type s)) (sec_start s) (sec_len s) = sec_bytes file s"
    and f2: "\<forall>t a n. (\<forall>(file, s) \<in> set srcs. apart_from s t a n) \<longrightarrow>
          field_at (merged_section ld2 t) a n = field_at (merged_section ld1 t) a n"
    by (elim exE conjE) (rule that)
  have "\<forall>(file', s') \<in> set srcs. apart_from s' (sec_type s) (sec_start s) (sec_len s)"
    using Cons.prems(2) fs by (auto simp: apart_from_def before_def)
  with f2 c1 have "sec_type s \<noteq> ONYO_SEC_BSS \<longrightarrow>
      field_at (merged_section ld2 (sec_type s)) (sec_start s) (sec_len s) = sec_bytes f s" by simp
  moreover have "\<forall>t a n. (\<forall>(file, s) \<in> set (fs # srcs). apart_from s t a n) \<longrightarrow>
      field_at (merged_section ld2 t) a n = field_at (merged_section ld t) a n"
    using f1 f2 by (simp add: fs)
  ultimately show ?case
    using one two c2 keeps_trans [OF k1 k2] by (intro exI [of _ ld2]) (simp add: fs)
qed

subsection \<open>The layout phase\<close>

lemma same_objects_sources:
  assumes "list_all2 same_object objs objs'" "\<forall>obj \<in> set objs. \<forall>s \<in> set (obj_secs obj). sec_ok (obj_file_data obj) s"
    and "(f, s) \<in> set (sources objs')"
  shows "sec_ok f s"
  using assms
proof (induction rule: list_all2_induct)
  case (Cons obj objs obj' objs')
  then obtain ss where obj': "obj' = obj\<lparr>obj_secs := ss\<rparr>" "list_all2 moved (obj_secs obj) ss"
    by (auto simp: same_object_def)
  from Cons.prems(2) obj' have "f = obj_file_data obj \<and> s \<in> set ss \<or> (f, s) \<in> set (sources objs')"
    by (auto simp: sources_def)
  then show ?case
    using Cons.IH Cons.prems(1) moved_set [OF obj'(2)] by (fastforce simp: moved_simps)
qed (simp add: sources_def)

lemma sources_secs: "map snd (sources objs) = all_secs objs"
  by (simp add: sources_def all_secs_def map_concat o_def)

lemma sources_mem:
  "obj \<in> set objs \<Longrightarrow> s \<in> set (obj_secs obj) \<Longrightarrow> (obj_file_data obj, s) \<in> set (sources objs)"
  by (auto simp: sources_def)

text \<open>
  C28. The layout phase: if the sections fit into the address space, \<^verbatim>\<open>merge_sections\<close> succeeds and
  only moves them; sections of one kind follow each other in link order without overlap, each
  at a multiple of its alignment and inside the merged section, whose bytes there are exactly
  the bytes of the section in its object file.
\<close>

theorem merge_sections_correct:
  assumes "\<forall>obj \<in> set (ld_objs ld). \<forall>s \<in> set (obj_secs obj). sec_ok (obj_file_data obj) s"
    and "room (all_secs (ld_objs ld)) < 2 ^ 64"
  shows "\<exists>ld'. merge_sections ld = Inr ld' \<and> list_all2 same_object (ld_objs ld) (ld_objs ld')
    \<and> sorted_wrt before (all_secs (ld_objs ld'))
    \<and> (\<forall>obj \<in> set (ld_objs ld'). \<forall>s \<in> set (obj_secs obj). sec_alignment s dvd sec_start s
        \<and> (if sec_type s = ONYO_SEC_BSS then sec_start s + sec_len s \<le> unat (out_bss_size ld')
           else sec_start s + sec_len s \<le> length (merged_section ld' (sec_type s))
             \<and> field_at (merged_section ld' (sec_type s)) (sec_start s) (sec_len s) = sec_bytes (obj_file_data obj) s))"
proof -
  let ?l0 = "\<lparr>text_sz = 0, rodata_sz = 0, data_sz = 0, bss_sz = 0\<rparr>"
  obtain objs l where po: "place_objects (ld_objs ld) ?l0 = (objs, l)" by fastforce
  have "\<forall>s \<in> set (all_secs (ld_objs ld)). sec_type s \<le> 3 \<and> (\<exists>k < 32. sec_alignment s = 2 ^ k)"
    using assms(1) by (auto simp: all_secs_def sec_ok_def)
  moreover have "\<forall>t \<le> 3. unat (size_in ?l0 t) + room (all_secs (ld_objs ld)) < 2 ^ 64"
    using assms(2) by (simp add: size_in_def)
  ultimately have pl: "placed ?l0 (all_secs objs) l" and mv: "list_all2 moved (all_secs (ld_objs ld)) (all_secs objs)"
    using place_sections_placed [OF _ _ place_objects_flat [OF po]] by blast+
  have same: "list_all2 same_object (ld_objs ld) objs" using place_objects_same [OF po mv] .
  let ?ld = "ld\<lparr>ld_objs := objs, out_text := replicate (unat (text_sz l)) 0,
     out_rodata := replicate (unat (rodata_sz l)) 0, out_data := replicate (unat (data_sz l)) 0, out_bss_size := bss_sz l\<rparr>"
  have size: "length (merged_section ?ld t) = unat (size_in l t)" if "t \<le> 3" "t \<noteq> ONYO_SEC_BSS" for t
    using that u32_le_3 [OF that(1)] by (auto simp: merged_section_def size_in_def onyo_sections)
  have ok: "sec_ok f s" if "(f, s) \<in> set (sources objs)" for f s
    using same_objects_sources [OF same assms(1) that] .
  have mem: "s \<in> set (all_secs objs)" if "(f, s) \<in> set (sources objs)" for f s
    using that by (force simp flip: sources_secs)
  have rng: "sec_start s + sec_len s \<le> unat (size_in l (sec_type s)) \<and> sec_alignment s dvd sec_start s"
    if "(f, s) \<in> set (sources objs)" for f s
    using pl mem [OF that] by (auto simp: placed_def)
  have "\<forall>(f, s) \<in> set (sources objs). sec_ok f s \<and> in_range ?ld s"
    using ok rng size by (fastforce simp: in_range_def sec_ok_def)
  moreover have "sorted_wrt before (map snd (sources objs))"
    using pl by (simp add: sources_secs placed_def)
  ultimately obtain ld' where c: "copy_all (sources objs) ?ld = Inr ld'" and k: "keeps ?ld ld'"
    and e: "\<forall>(f, s) \<in> set (sources objs). sec_type s \<noteq> ONYO_SEC_BSS \<longrightarrow>
          field_at (merged_section ld' (sec_type s)) (sec_start s) (sec_len s) = sec_bytes f s"
    using copy_all_effect by blast
  have m: "merge_sections ld = Inr ld'"
    unfolding merge_sections_def using po c by (simp add: copy_objects_all)
  have o: "ld_objs ld' = objs" "out_bss_size ld' = bss_sz l" using k by (simp_all add: keeps_def)
  have "sec_alignment s dvd sec_start s
        \<and> (if sec_type s = ONYO_SEC_BSS then sec_start s + sec_len s \<le> unat (out_bss_size ld')
           else sec_start s + sec_len s \<le> length (merged_section ld' (sec_type s))
             \<and> field_at (merged_section ld' (sec_type s)) (sec_start s) (sec_len s) = sec_bytes (obj_file_data obj) s)"
    if "obj \<in> set objs" "s \<in> set (obj_secs obj)" for obj s
  proof -
    note src = sources_mem [OF that]
    have "size_in l ONYO_SEC_BSS = bss_sz l" by (simp add: size_in_def onyo_sections)
    then show ?thesis
      using rng [OF src] ok [OF src] e src size [of "sec_type s"] k o
      by (auto simp: keeps_def sec_ok_def)
  qed
  then show ?thesis
    using m same pl o(1) by (intro exI [of _ ld']) (auto simp: placed_def)
qed

text \<open>Two objects with a text section each, of three and one bytes, aligned to four.\<close>

definition two_texts :: ld where
  "two_texts =
     (let sec = (\<lambda>n. \<lparr>sec_name_off = 0, sec_type = 0, sec_flags = 5, sec_align = 4, sec_size = n,
                      sec_data_off = 0, sec_data = Some 0\<rparr>);
          obj = (\<lambda>bs. \<lparr>obj_name = [], obj_secs = [sec (word_of_nat (length bs))], obj_syms = [], obj_relocs = [],
                       obj_file_data = bs, obj_is_archive_member = False\<rparr>)
      in \<lparr>ld_objs = [obj [1, 2, 3], obj [7]], out_text = [], out_rodata = [], out_data = [], out_bss_size = 0,
          global_syms = []\<rparr>)"

theorem merge_sections_correct_witness:
  "\<exists>ld'. merge_sections two_texts = Inr ld' \<and> sorted_wrt before (all_secs (ld_objs ld'))"
proof -
  have "\<exists>k < 32. (4 :: nat) = 2 ^ k" by (intro exI [of _ 2]) simp
  then have "\<forall>obj \<in> set (ld_objs two_texts). \<forall>s \<in> set (obj_secs obj). sec_ok (obj_file_data obj) s"
    by (simp add: two_texts_def Let_def sec_ok_def sec_alignment_def sec_len_def)
  moreover have "room (all_secs (ld_objs two_texts)) < 2 ^ 64"
    by (simp add: two_texts_def Let_def room_def all_secs_def sec_alignment_def sec_len_def)
  ultimately show ?thesis using merge_sections_correct [of two_texts] by blast
qed

end
