(* ===== verification/Linker_Reloc.thy ===== *)
theory Linker_Reloc
  imports Linker Loader Fixups
begin

text \<open>
  What the relocations of \<^verbatim>\<open>src/tools/onyx-ld.c\<close> do to the instruction they patch, as the
  interpreter of \<^verbatim>\<open>tools/onx-run.c\<close> decodes it.
\<close>

subsection \<open>Patching bytes\<close>

lemma length_field_at [simp]: "off + n \<le> length p \<Longrightarrow> length (field_at p off n) = n"
  by (simp add: field_at_def)

lemma nth_field_at: "i < n \<Longrightarrow> off + n \<le> length p \<Longrightarrow> field_at p off n ! i = p ! (off + i)"
  by (simp add: field_at_def)

lemma rd_u32_eq: "off + 4 \<le> length p \<Longrightarrow> rd_u32 p off = Inr (u32_at p off)"
proof -
  assume a: "off + 4 \<le> length p"
  have "field_at p off 4 = [p ! off, p ! (off + 1), p ! (off + 2), p ! (off + 3)]"
    using a by (intro nth_equalityI) (auto simp: nth_field_at less_Suc_eq numeral_eq_Suc)
  then show ?thesis
    using a by (simp only: rd_u32_def u32_at_def un_le_4) simp
qed

lemma wr_u32_eq [simp]: "wr_u32 v = le32 v"
  by (simp add: wr_u32_def ucast_and_ff le_bytes_4)

lemma wr_u64_eq [simp]: "wr_u64 v = le64 v"
  by (simp add: wr_u64_def ucast_and_ff le_bytes_eq_map mult.commute)

lemma patch_at_eq:
  "off + 4 \<le> length p \<Longrightarrow> patch_at p off f = Inr (put_bytes p off (le32 (f (u32_at p off))))"
  by (simp add: patch_at_def rd_u32_eq store_at_def)

lemma u32_at_put:
  "off + 4 \<le> length p \<Longrightarrow> u32_at (put_bytes p off (le32 w)) off = w"
  using put_bytes_field(1) [of off "le32 w" p] by (simp add: u32_at_def)

lemma u32_at_put_other:
  "off + length bs \<le> length p \<Longrightarrow> off' + 4 \<le> off \<or> off + length bs \<le> off' \<Longrightarrow>
     u32_at (put_bytes p off bs) off' = u32_at p off'"
  by (simp add: u32_at_def put_bytes_other)

lemma nth_put_bytes_other:
  "off + length bs \<le> length p \<Longrightarrow> i < length p \<Longrightarrow> i < off \<or> off + length bs \<le> i \<Longrightarrow>
     put_bytes p off bs ! i = p ! i"
  by (auto simp: put_bytes_def nth_append min_def)

subsection \<open>Decoding patched instructions\<close>

lemma imm_u_patch: "imm_u (patch_imm_u (drop_bit 12 v) inst) = scast (v AND 0xFFFFF000)"
proof -
  have "patch_imm_u (drop_bit 12 v) inst AND 0xFFFFF000 = v AND 0xFFFFF000"
    by (rule word32_eqI) (simp_all add: patch_imm_u_def field_bits)
  then show ?thesis by (simp add: imm_u_def)
qed

lemma imm_i_patch: "imm_i (patch_imm_i imm inst) = sx (ucast (take_bit (Suc 11) imm)) (Suc 11)"
proof -
  have "drop_bit 20 (patch_imm_i imm inst) AND 0xFFF = imm AND 0xFFF"
    by (rule word32_eqI) (simp_all add: patch_imm_i_def field_bits)
  then show ?thesis by (simp add: imm_i_def and_fff)
qed

lemma imm_s_patch: "imm_s (patch_imm_s imm inst) = sx (ucast (take_bit (Suc 11) imm)) (Suc 11)"
proof -
  let ?w = "patch_imm_s imm inst"
  have "push_bit 5 (drop_bit 25 ?w AND 0x7F) OR (drop_bit 7 ?w AND 0x1F) = imm AND 0xFFF"
    by (rule word32_eqI) (simp_all add: patch_imm_s_def field_bits)
  then show ?thesis by (simp add: imm_s_def and_fff)
qed

lemma patch_kept:
  "patch_imm_u imm inst AND 0xFFF = inst AND 0xFFF"
  "patch_imm_i imm inst AND 0xFFFFF = inst AND 0xFFFFF"
  "patch_imm_s imm inst AND 0x01FFF07F = inst AND 0x01FFF07F"
  "patch_imm_b imm inst AND 0x01FFF07F = inst AND 0x01FFF07F"
  by (rule word32_eqI; simp add: patch_imm_u_def patch_imm_i_def patch_imm_s_def patch_imm_b_def field_bits)+

lemma patch_imm_b_eq: "patch_imm_b b inst = patch_branch inst b"
  by (rule word32_eqI) (simp_all add: patch_imm_b_def patch_branch_def field_bits)

subsection \<open>Upper and lower parts\<close>

lemma ucast_s32:
  fixes w :: u64
  assumes "- (2 ^ 31) \<le> sint w" "sint w < 2 ^ 31"
  shows "scast (ucast w :: u32) = w" "sint (ucast w :: u32) = sint w"
proof -
  have "scast (ucast w :: u32) = signed_take_bit 31 w"
    by (rule bit_word_eqI) (auto simp: bit_simps min_def)
  also have "\<dots> = w" using assms by (rule signed_take_bit_word_self)
  finally show s: "scast (ucast w :: u32) = w" .
  have "sint (scast (ucast w :: u32) :: u64) = sint (ucast w :: u32)"
    using sint_greater_eq [of "ucast w :: u32"] sint_less [of "ucast w :: u32"]
    by (simp add: signed_scast_eq signed_take_bit_int_eq_self)
  with s show "sint (ucast w :: u32) = sint w" by simp
qed

lemma even_ucast: "even (ucast (w :: u64) :: u32) \<longleftrightarrow> even w"
proof -
  have "bit (ucast w :: u32) 0 = bit w 0" by (simp only: bit_unsigned_iff) simp
  then show ?thesis by (simp only: bit_0) blast
qed

lemma signed_take_bit_shift: "signed_take_bit 11 (w :: u64) = take_bit 12 (w + 0x800) - 0x800"
proof -
  obtain k where w: "w = of_int k" by (metis word_of_int_uint)
  have "signed_take_bit 11 w = of_int (signed_take_bit 11 k)"
    unfolding w by (simp only: signed_take_bit_of_int)
  also have "\<dots> = of_int (take_bit 12 (k + 2048)) - of_int 2048"
    unfolding signed_take_bit_eq_take_bit_shift by simp
  also have "of_int (take_bit 12 (k + 2048)) = take_bit 12 (of_int (k + 2048) :: u64)"
    by (rule take_bit_of_int [symmetric])
  finally show ?thesis unfolding w by simp
qed

lemma hi_plus_lo: "((sa + 0x800) AND NOT (mask 12)) + signed_take_bit 11 sa = (sa :: u64)"
  by (simp add: and_not_mask_eq signed_take_bit_shift)

lemma lo_decoded: "sx (ucast (take_bit (Suc 11) (ucast (sa AND 0xFFF) :: u32))) (Suc 11) = signed_take_bit 11 (sa :: u64)"
proof -
  have m: "sa AND 0xFFF = take_bit (Suc 11) sa"
    by (simp add: take_bit_eq_mask mask_eq_exp_minus_1)
  have "(ucast (take_bit (Suc 11) (ucast (sa AND 0xFFF) :: u32)) :: u64) = take_bit (Suc 11) sa"
    unfolding m by (rule bit_word_eqI) (auto simp: bit_simps)
  moreover have "signed_take_bit 11 (take_bit (Suc 11) sa) = signed_take_bit 11 sa"
    by (rule bit_word_eqI) (auto simp: bit_simps min_def)
  ultimately show ?thesis
    using sx_signed [of 11 "ucast (sa AND 0xFFF)"] by simp
qed

lemma hi_decoded:
  fixes sa :: u64
  assumes "unat sa < 2 ^ 31 - 0x800"
  shows "scast ((ucast ((sa + 0x800) AND 0xFFFFF000) :: u32) AND 0xFFFFF000) = (sa + 0x800) AND NOT (mask 12)"
proof -
  have "unat (sa + 0x800) = unat sa + 0x800"
    using assms by (simp add: unat_word_ariths)
  then have small: "sa + 0x800 < 2 ^ 31" using assms by (simp add: word_less_nat_alt)
  then have "take_bit 31 (sa + 0x800) = sa + 0x800"
    by (metis less_mask_eq take_bit_eq_mask mask_eq_decr_exp)
  then have b: "bit (sa + 0x800) n \<Longrightarrow> n < 31" for n
    by (metis bit_take_bit_iff)
  have m: "(0xFFFFF000 :: u64) = mask 32 AND NOT (mask 12)" "(0xFFFFF000 :: u32) = NOT (mask 12)"
    by code_simp+
  show ?thesis
    unfolding m by (rule bit_word_eqI) (auto simp: bit_simps min_def dest: b)
qed

text \<open>
  Absolute addresses: a HI20 relocation on the first instruction and a LO12 relocation (I- or
  S-type) on the second make the two decoded immediates add up to \<^verbatim>\<open>S + A\<close> exactly, for every
  address below 2 GiB less 2 KiB; the opcode and register fields of both instructions and
  every other byte of the section stay as they were.
\<close>

theorem hi_lo_relocation_correct:
  assumes "off1 + 4 \<le> length out" and "off2 + 4 \<le> length out" and "off1 + 4 \<le> off2 \<or> off2 + 4 \<le> off1"
    and "unat sa < 2 ^ 31 - 0x800" and "ty \<in> {4, 5}"
  shows "\<exists>out1 out2. relocate 3 sa p1 out off1 = Inr out1 \<and> relocate ty sa p2 out1 off2 = Inr out2
    \<and> imm_u (u32_at out2 off1) + (if ty = 4 then imm_i else imm_s) (u32_at out2 off2) = sa
    \<and> u32_at out2 off1 AND 0xFFF = u32_at out off1 AND 0xFFF
    \<and> u32_at out2 off2 AND (if ty = 4 then 0xFFFFF else 0x1FFF07F)
        = u32_at out off2 AND (if ty = 4 then 0xFFFFF else 0x1FFF07F)
    \<and> length out2 = length out
    \<and> (\<forall>i < length out. \<not> (off1 \<le> i \<and> i < off1 + 4) \<and> \<not> (off2 \<le> i \<and> i < off2 + 4) \<longrightarrow> out2 ! i = out ! i)"
proof -
  let ?w1 = "patch_imm_u (drop_bit 12 (ucast ((sa + 0x800) AND 0xFFFFF000))) (u32_at out off1)"
  let ?out1 = "put_bytes out off1 (le32 ?w1)"
  let ?w2 = "(if ty = 4 then patch_imm_i else patch_imm_s) (ucast (sa AND 0xFFF)) (u32_at out off2)"
  let ?out2 = "put_bytes ?out1 off2 (le32 ?w2)"
  have len: "length ?out1 = length out" "length ?out2 = length out" using assms(1,2) by simp_all
  have same: "u32_at ?out1 off2 = u32_at out off2"
    using assms(1,3) by (intro u32_at_put_other) auto
  have r1: "relocate 3 sa p1 out off1 = Inr ?out1"
    using assms(1) by (simp add: relocate_def patch_at_eq)
  have r2: "relocate ty sa p2 ?out1 off2 = Inr ?out2"
    using assms(2,5) same len by (auto simp: relocate_def patch_at_eq)
  have at1: "u32_at ?out2 off1 = ?w1"
    using assms(1-3) len by (subst u32_at_put_other) (auto simp: u32_at_put)
  have at2: "u32_at ?out2 off2 = ?w2"
    using assms(2) len by (intro u32_at_put) simp
  have "imm_u ?w1 + (if ty = 4 then imm_i else imm_s) ?w2 = sa"
    using hi_plus_lo [of sa] assms(5)
    by (auto simp: imm_u_patch hi_decoded [OF assms(4)] imm_i_patch imm_s_patch lo_decoded [simplified])
  moreover have "\<forall>i < length out. \<not> (off1 \<le> i \<and> i < off1 + 4) \<and> \<not> (off2 \<le> i \<and> i < off2 + 4) \<longrightarrow> ?out2 ! i = out ! i"
    using assms(1,2) len by (auto simp: nth_put_bytes_other)
  ultimately show ?thesis
    using r1 r2 at1 at2 len assms(5) by (intro exI [of _ ?out1] exI [of _ ?out2]) (auto simp: patch_kept)
qed

theorem hi_lo_relocation_correct_witness:
  "\<exists>out1 out2. relocate 3 0x10FFC 0 (replicate 8 0) 0 = Inr out1 \<and> relocate 4 0x10FFC 0 out1 4 = Inr out2
     \<and> imm_u (u32_at out2 0) + imm_i (u32_at out2 4) = 0x10FFC"
  using hi_lo_relocation_correct [of 0 "replicate 8 0" 4 "0x10FFC" 4 0 0] by auto

text \<open>
  Branches: a BRANCH relocation is refused exactly when the distance to \<^verbatim>\<open>S + A\<close> leaves the
  thirteen-bit range; within it, an even distance is what the patched instruction decodes to,
  with its opcode, comparison and registers unchanged.
\<close>

theorem branch_relocation_correct:
  assumes "off + 4 \<le> length out" and "even (sa - p)"
  shows "if sint (sa - p) < - 4096 \<or> 4095 < sint (sa - p)
     then relocate 10 sa p out off = Inl BranchOutOfRange
     else \<exists>out'. relocate 10 sa p out off = Inr out' \<and> imm_b (u32_at out' off) = sa - p
       \<and> u32_at out' off AND 0x1FFF07F = u32_at out off AND 0x1FFF07F
       \<and> length out' = length out \<and> (\<forall>i < length out. i < off \<or> off + 4 \<le> i \<longrightarrow> out' ! i = out ! i)"
proof (cases "sint (sa - p) < - 4096 \<or> 4095 < sint (sa - p)")
  case True
  then show ?thesis by (simp add: relocate_def) auto
next
  case False
  let ?d = "ucast (sa - p) :: u32"
  let ?w = "patch_imm_b ?d (u32_at out off)"
  let ?out = "put_bytes out off (le32 ?w)"
  have d: "scast ?d = sa - p" "sint ?d = sint (sa - p)" using False by (intro ucast_s32; simp)+
  have "push_bit 12 (drop_bit 31 ?w AND 1) OR push_bit 11 (drop_bit 7 ?w AND 1)
      OR push_bit 5 (drop_bit 25 ?w AND 0x3F) OR push_bit 1 (drop_bit 8 ?w AND 0xF) = ?d AND 0x1FFE"
    by (rule word32_eqI) (simp_all add: patch_imm_b_def field_bits)
  moreover have "even ?d" using assms(2) by (simp only: even_ucast)
  ultimately have "imm_b ?w = sa - p"
    using sx_fits [of 12 ?d] False d by (simp add: imm_b_def even_mask)
  moreover have "relocate 10 sa p out off = Inr ?out"
    using False assms(1) by (simp add: relocate_def patch_at_eq)
  ultimately show ?thesis
    using False assms(1) by (auto simp: u32_at_put patch_kept nth_put_bytes_other intro!: exI [of _ ?out])
qed

theorem branch_relocation_correct_witness:
  "(\<exists>out'. relocate 10 0x10000 0x10010 (replicate 4 0) 0 = Inr out' \<and> imm_b (u32_at out' 0) = - 0x10)
   \<and> relocate 10 0x20000 0x10000 (replicate 4 0) 0 = Inl BranchOutOfRange"
proof -
  have s: "sint (0x10000 - 0x10010 :: u64) = - 16" "sint (0x20000 - 0x10000 :: u64) = 65536" by code_simp+
  have e: "even (0x10000 - 0x10010 :: u64)" "even (0x20000 - 0x10000 :: u64)" by simp_all
  show ?thesis
    using branch_relocation_correct [of 0 "replicate 4 0" "0x10000" "0x10010", OF _ e(1)]
      branch_relocation_correct [of 0 "replicate 4 0" "0x20000" "0x10000", OF _ e(2)]
    unfolding s by auto
qed

text \<open>
  C39. Calls through the linker: a JAL relocation that is in range always clears the destination
  register of the instruction, so that a linked call does not set the return address; and for
  a negative distance the patched instruction does not decode to the distance either.
\<close>

theorem jal_relocation_broken:
  assumes "off + 4 \<le> length out" and "- (2 ^ 20) \<le> sint (sa - p)" and "sint (sa - p) < 2 ^ 20"
  shows "\<exists>out'. relocate 9 sa p out off = Inr out' \<and> f_rd (u32_at out' off) = 0
    \<and> (sint (sa - p) < 0 \<longrightarrow> imm_j (u32_at out' off) \<noteq> sa - p)"
proof -
  let ?w = "patch_imm_j (ucast (sa - p)) (u32_at out off)"
  let ?out = "put_bytes out off (le32 ?w)"
  have "drop_bit 7 ?w AND 0x1F = 0"
    by (rule word32_eqI) (simp_all add: patch_imm_j_def field_bits)
  then have rd: "f_rd ?w = 0" by (simp add: f_rd_def)
  let ?x = "push_bit 20 (drop_bit 31 ?w AND 1) OR push_bit 12 (drop_bit 12 ?w AND 0xFF) OR
    push_bit 11 (drop_bit 20 ?w AND 1) OR push_bit 1 (drop_bit 21 ?w AND 0x3FF)"
  have "take_bit (Suc 20) ?x = ?x"
    by (rule word32_eqI) (simp_all add: field_bits)
  then have "imm_j ?w = signed_take_bit 20 (ucast ?x)"
    using sx_signed [of 20 ?x] by (simp only: imm_j_def) simp
  moreover have "\<not> bit ?x 20" by (simp add: patch_imm_j_def field_bits)
  ultimately have "\<not> bit (imm_j ?w) 63" by (simp only: bit_signed_take_bit_iff bit_unsigned_iff) simp
  then have "imm_j ?w \<noteq> sa - p" if "sint (sa - p) < 0"
    using that bit_last_iff [of "sa - p"] by auto
  with rd show ?thesis
    using assms by (auto simp: relocate_def patch_at_eq u32_at_put intro!: exI [of _ ?out])
qed

theorem jal_relocation_broken_witness:
  "\<exists>out'. relocate 9 0x10000 0x10010 (le32 0xEF) 0 = Inr out' \<and> f_rd (u32_at out' 0) = 0
    \<and> imm_j (u32_at out' 0) \<noteq> - 0x10"
proof -
  have s: "sint (0x10000 - 0x10010 :: u64) = - 16" by code_simp
  show ?thesis
    using jal_relocation_broken [of 0 "le32 0xEF" "0x10000" "0x10010"] unfolding s by auto
qed

end
