(* ===== verification/Name_Tables.thy ===== *)
theory Name_Tables
  imports Onyx_Prelude
begin

text \<open>
  The interface of the tables of the sources that are searched by name: the global symbols of
  the linker, the globals and locals of the compiler, and the struct tags. Each keeps an array
  of entries and a search that returns the index of a match. What a client may rely on is
  stated once, as a locale over the search and the names in the table.
\<close>

locale name_table =
  fixes find :: "'t \<Rightarrow> u8 list \<Rightarrow> nat option"
    and names :: "'t \<Rightarrow> u8 list list"
  assumes find_hit: "find t n = Some i \<Longrightarrow> i < length (names t) \<and> names t ! i = n"
    and find_miss: "find t n = None \<longleftrightarrow> n \<notin> set (names t)"
begin

lemma find_total: "n \<in> set (names t) \<Longrightarrow> \<exists>i. find t n = Some i \<and> i < length (names t) \<and> names t ! i = n"
  using find_miss [of t n] find_hit [of t n] by (cases "find t n") auto

text \<open>In a table without duplicates the index is the only one with that name.\<close>

lemma find_unique:
  assumes "distinct (names t)" "i < length (names t)"
  shows "find t (names t ! i) = Some i"
proof -
  obtain j where j: "find t (names t ! i) = Some j" "j < length (names t)" "names t ! j = names t ! i"
    using find_total [of "names t ! i" t] assms(2) by auto
  with assms have "j = i" by (simp add: nth_eq_iff_index_eq)
  with j(1) show ?thesis by simp
qed

text \<open>Entering a name that was not found keeps the table free of duplicates.\<close>

lemma install_distinct:
  assumes "distinct (names t)" "find t n = None" "names t' = names t @ [n]"
  shows "distinct (names t')" and "find t' n = Some (length (names t))"
    and "i < length (names t) \<Longrightarrow> find t' (names t ! i) = Some i"
proof -
  show d: "distinct (names t')" using assms find_miss by simp
  show "find t' n = Some (length (names t))"
    using find_unique [OF d, of "length (names t)"] assms(3) by simp
  show "find t' (names t ! i) = Some i" if "i < length (names t)"
    using find_unique [OF d, of i] assms(3) that by (simp add: nth_append)
qed

end

subsection \<open>Two ways of searching\<close>

text \<open>The first match from the front, and from the back as scoped tables search.\<close>

definition find_first :: "'a list \<Rightarrow> ('a \<Rightarrow> bool) \<Rightarrow> nat option" where
  "find_first xs P = List.find (\<lambda>i. P (xs ! i)) [0..<length xs]"

definition find_last :: "'a list \<Rightarrow> ('a \<Rightarrow> bool) \<Rightarrow> nat option" where
  "find_last xs P = List.find (\<lambda>i. P (xs ! i)) (rev [0..<length xs])"

lemma find_first_Some: "find_first xs P = Some i \<Longrightarrow> i < length xs \<and> P (xs ! i) \<and> (\<forall>j < i. \<not> P (xs ! j))"
  by (auto simp: find_first_def find_Some_iff)

lemma find_first_None: "find_first xs P = None \<longleftrightarrow> (\<forall>x \<in> set xs. \<not> P x)"
  by (auto simp: find_first_def find_None_iff all_set_conv_all_nth)

lemma find_last_Some:
  "find_last xs P = Some i \<Longrightarrow> i < length xs \<and> P (xs ! i) \<and> (\<forall>j. i < j \<and> j < length xs \<longrightarrow> \<not> P (xs ! j))"
proof -
  assume "find_last xs P = Some i"
  then obtain k where k: "k < length xs" "P (xs ! (rev [0..<length xs] ! k))" "i = rev [0..<length xs] ! k"
    "\<forall>j < k. \<not> P (xs ! (rev [0..<length xs] ! j))"
    by (auto simp: find_last_def find_Some_iff)
  have i: "i = length xs - Suc k" using k(1,3) by (simp add: rev_nth)
  have "\<not> P (xs ! j)" if "i < j" "j < length xs" for j
    using k(4) [rule_format, of "length xs - Suc j"] k(1) i that by (simp add: rev_nth)
  then show ?thesis using k(1,2,3) i by auto
qed

lemma find_last_None: "find_last xs P = None \<longleftrightarrow> (\<forall>x \<in> set xs. \<not> P x)"
  by (auto simp: find_last_def find_None_iff all_set_conv_all_nth)

lemma find_last_snoc: "find_last (xs @ [x]) P = (if P x then Some (length xs) else find_last xs P)"
proof -
  have "List.find (\<lambda>i. P ((xs @ [x]) ! i)) (rev [0..<length xs]) = List.find (\<lambda>i. P (xs ! i)) (rev [0..<length xs])"
    by (rule find_cong) (auto simp: nth_append)
  then show ?thesis by (simp add: find_last_def)
qed

end
