(* ===== verification/Linker_Symbols.thy ===== *)
theory Linker_Symbols
  imports Linker_Reloc Name_Tables
begin

text \<open>
  The global symbol table of the linker and the executable it writes: which programs link, what
  the table then holds, and what \<^verbatim>\<open>tools/onx-run.c\<close> makes of the file.
\<close>

subsection \<open>The table\<close>

interpretation ld_table: name_table find_global_sym "map lsym_name"
proof
  fix t :: "lsym_t list" and n i
  have f: "find_global_sym t n = find_first t (\<lambda>s. lsym_name s = n)"
    by (simp add: find_global_sym_def find_first_def)
  show "find_global_sym t n = Some i \<Longrightarrow> i < length (map lsym_name t) \<and> map lsym_name t ! i = n"
    unfolding f by (drule find_first_Some) simp
  show "find_global_sym t n = None \<longleftrightarrow> n \<notin> set (map lsym_name t)"
    unfolding f find_first_None by auto
qed

definition all_syms :: "obj_t list \<Rightarrow> lsym_t list" where
  "all_syms objs = concat (map obj_syms objs)"

text \<open>A named symbol that its object does not define.\<close>

definition wanted :: "lsym_t \<Rightarrow> bool" where
  "wanted s \<longleftrightarrow> lsym_flags s AND ONYO_SYM_DEFINED = 0 \<and> lsym_name s \<noteq> []"

lemma add_symbols_append: "add_symbols (xs @ ys) = (\<lambda>tab. bindE (add_symbols xs tab) (add_symbols ys))"
  by (induction xs; rule ext) simp_all

lemma add_object_symbols_flat: "add_object_symbols objs = add_symbols (all_syms objs)"
  by (induction objs; rule ext) (simp_all add: all_syms_def add_symbols_append)

lemma check_symbols_append: "check_symbols tab (xs @ ys) = bindE (check_symbols tab xs) (\<lambda>_. check_symbols tab ys)"
  by (induction xs) simp_all

lemma check_object_symbols_flat: "check_object_symbols tab objs = check_symbols tab (all_syms objs)"
  by (induction objs) (simp_all add: all_syms_def check_symbols_append)

lemma add_symbols_result:
  assumes "distinct (map lsym_name tab)" "length tab \<le> MAX_SYMS_TOTAL"
  shows "if distinct (map lsym_name (tab @ filter exported ss)) \<and> length (tab @ filter exported ss) \<le> MAX_SYMS_TOTAL
     then add_symbols ss tab = Inr (tab @ filter exported ss)
     else \<exists>e. add_symbols ss tab = Inl e"
  using assms
proof (induction ss arbitrary: tab)
  case Nil
  then show ?case by simp
next
  case (Cons s ss)
  consider (skip) "\<not> exported s" | (dup) "exported s" "lsym_name s \<in> set (map lsym_name tab)"
    | (full) "exported s" "lsym_name s \<notin> set (map lsym_name tab)" "length tab = MAX_SYMS_TOTAL"
    | (new) "exported s" "lsym_name s \<notin> set (map lsym_name tab)" "length tab < MAX_SYMS_TOTAL"
    using Cons.prems(2) by linarith
  then show ?case
  proof cases
    case skip
    then show ?thesis using Cons.IH [OF Cons.prems] by simp
  next
    case dup
    then have "find_global_sym tab (lsym_name s) \<noteq> None" using ld_table.find_miss by blast
    with dup show ?thesis by auto
  next
    case full
    then have "find_global_sym tab (lsym_name s) = None" using ld_table.find_miss by blast
    with full show ?thesis by simp
  next
    case new
    then have n: "find_global_sym tab (lsym_name s) = None" using ld_table.find_miss by blast
    have "distinct (map lsym_name (tab @ [s]))" "length (tab @ [s]) \<le> MAX_SYMS_TOTAL"
      using new Cons.prems by simp_all
    from Cons.IH [OF this] new n show ?thesis by simp
  qed
qed

lemma check_symbols_result:
  "if lsym_name ` set (filter wanted ss) \<subseteq> lsym_name ` set tab then check_symbols tab ss = Inr ()
   else \<exists>e. check_symbols tab ss = Inl e"
proof (induction ss)
  case (Cons s ss)
  have "find_global_sym tab (lsym_name s) = None \<longleftrightarrow> lsym_name s \<notin> lsym_name ` set tab"
    using ld_table.find_miss [of tab "lsym_name s"] by simp
  with Cons.IH show ?case by (auto simp: wanted_def split: if_splits)
qed simp

text \<open>
  C29. Symbol resolution: building the table succeeds exactly when no two exported symbols have the
  same name, there are at most 65536 of them, and every named undefined symbol is exported
  by some object; the table then is the list of the exported symbols in link order, and
  looking up the name of any of them finds that symbol and no other. In every other case the
  linker reports an error.
\<close>

theorem symbol_table_correct:
  "let ex = filter exported (all_syms (ld_objs ld)); ld0 = ld\<lparr>global_syms := []\<rparr>
   in if distinct (map lsym_name ex) \<and> length ex \<le> MAX_SYMS_TOTAL
         \<and> lsym_name ` set (filter wanted (all_syms (ld_objs ld))) \<subseteq> lsym_name ` set ex
      then build_global_symbol_table ld0 = Inr (ld\<lparr>global_syms := ex\<rparr>)
        \<and> {i. i < length ex \<and> find_global_sym ex (lsym_name (ex ! i)) \<noteq> Some i} = {}
      else \<exists>e. build_global_symbol_table ld0 = Inl e"
proof -
  let ?ex = "filter exported (all_syms (ld_objs ld))"
  have a: "if distinct (map lsym_name ?ex) \<and> length ?ex \<le> MAX_SYMS_TOTAL
      then add_symbols (all_syms (ld_objs ld)) [] = Inr ?ex else \<exists>e. add_symbols (all_syms (ld_objs ld)) [] = Inl e"
    using add_symbols_result [of "[]" "all_syms (ld_objs ld)"] by simp
  have f: "find_global_sym ?ex (lsym_name (?ex ! i)) = Some i" if "distinct (map lsym_name ?ex)" "i < length ?ex" for i
    using ld_table.find_unique [of ?ex i] that by simp
  show ?thesis
    using a check_symbols_result [of "all_syms (ld_objs ld)" ?ex] f
    unfolding Let_def build_global_symbol_table_def add_object_symbols_flat check_object_symbols_flat
    by (auto split: if_splits)
qed

subsection \<open>The executable\<close>

lemma onx_put_eq: "onx_put_u32 = put_u32le" "onx_put_u64 = put_u64le"
  by (simp_all add: fun_eq_iff onx_put_u32_def onx_put_u64_def put_le)

lemma ld_write_segments_eq: "ld_write_segments = write_segments"
proof -
  have "ld_write_segments hdr i segs = write_segments hdr i segs" for hdr i segs
    by (induction segs arbitrary: hdr i)
      (simp_all add: ld_write_segment_def write_segment_v1_def onx_put_eq)
  then show ?thesis by (simp add: fun_eq_iff)
qed

lemma length_ld_segments: "length (ld_segments ld) \<le> 4"
  by (simp add: ld_segments_def Let_def)

lemma emit_onx_bytes:
  assumes "emit_onx entry_sym ring1 ld = Inr img"
  obtains entry rest where "img = le32 LD_ONX_V1_MAGIC @ le32 ONX_VERSION_1 @ le64 entry @ rest"
    "324 \<le> length rest"
proof -
  let ?z = "replicate 344 0 :: u8 list" and ?segs = "ld_segments ld"
  obtain i where i: "find_global_sym (global_syms ld) entry_sym = Some i"
    using assms by (auto simp: emit_onx_def split: option.splits)
  let ?fixed = "le32 LD_ONX_V1_MAGIC @ le32 ONX_VERSION_1 @ le64 (compute_sym_vaddr ld (global_syms ld ! i))
    @ le32 (word_of_nat (length ?segs)) @ le32 (if ring1 then LD_ONX_FLAGS_RING1 else 0)"
  have len: "length (concat (map seg_bytes ?segs)) = 40 * length ?segs"
    by (simp add: length_concat o_def sum_list_triv)
  have "img = write_segments (put_bytes ?z 0 ?fixed) 0 ?segs @ out_text ld @ out_rodata ld @ out_data ld"
    using assms i
    by (simp add: emit_onx_def Let_def onx_put_eq ld_write_segments_eq put_le put_bytes_join ONX_V1_HEADER_SIZE_def
        ONX_V1_FIXED_HDR_def ONX_V1_MAX_SEGS_def ONX_V1_SEG_SIZE_def)
  also have "write_segments (put_bytes ?z 0 ?fixed) 0 ?segs = put_bytes ?z 0 (?fixed @ concat (map seg_bytes ?segs))"
    using length_ld_segments [of ld] len by (subst write_segments_eq) (simp_all add: put_bytes_join)
  finally have img: "img = ?fixed @ concat (map seg_bytes ?segs) @ replicate (320 - 40 * length ?segs) 0
      @ out_text ld @ out_rodata ld @ out_data ld"
    by (simp add: put_bytes_def len)
  have rest: "324 \<le> length (le32 (word_of_nat (length ?segs)) @ le32 (if ring1 then LD_ONX_FLAGS_RING1 else 0)
      @ concat (map seg_bytes ?segs) @ replicate (320 - 40 * length ?segs) 0 @ out_text ld @ out_rodata ld @ out_data ld)"
    using length_ld_segments [of ld] by (simp add: len)
  show ?thesis by (rule that [OF _ rest]) (simp add: img)
qed

text \<open>
  C40. What the linker writes does not load: every executable that \<^verbatim>\<open>onyx-ld\<close> writes carries the
  magic number 0x4F4E5831, the bytes of ONX1 in the wrong order, and \<^verbatim>\<open>load_onx\<close> refuses it.
\<close>

theorem linked_image_rejected:
  assumes "emit_onx entry_sym ring1 ld = Inr img"
  shows "load_onx img = Inl (BadImage (BadMagic 0x4F4E5831))"
proof -
  obtain entry rest where img: "img = le32 LD_ONX_V1_MAGIC @ le32 ONX_VERSION_1 @ le64 entry @ rest"
    "324 \<le> length rest" using emit_onx_bytes [OF assms] .
  then have "u32_at img 0 = LD_ONX_V1_MAGIC" by (simp add: u32_at_def field_at_left)
  moreover have "24 \<le> length img" using img by simp
  ultimately show ?thesis by (simp add: load_onx_def LD_ONX_V1_MAGIC_def ONX_MAGIC_def)
qed

text \<open>An object with one exported symbol \<^verbatim>\<open>_start\<close> and the instruction \<^verbatim>\<open>ecall\<close>.\<close>

definition start_object :: obj_t where
  "start_object =
     \<lparr>obj_name = [], obj_secs = [\<lparr>sec_name_off = 0, sec_type = 0, sec_flags = 5, sec_align = 4, sec_size = 4,
        sec_data_off = 0, sec_data = Some 0\<rparr>],
      obj_syms = [\<lparr>lsym_name = bytes_of ''_start'', lsym_flags = 5, lsym_section_idx = 0, lsym_value = 0,
        lsym_size = 4, lsym_obj_idx = 0\<rparr>],
      obj_relocs = [], obj_file_data = [0x73, 0, 0, 0], obj_is_archive_member = False\<rparr>"

theorem linked_image_rejected_witness:
  "\<exists>img. emit_onx (bytes_of ''_start'') False \<lparr>ld_objs = [start_object], out_text = [0x73, 0, 0, 0], out_rodata = [],
       out_data = [], out_bss_size = 0, global_syms = obj_syms start_object\<rparr> = Inr img
     \<and> load_onx img = Inl (BadImage (BadMagic 0x4F4E5831))"
proof -
  let ?ld = "\<lparr>ld_objs = [start_object], out_text = [0x73, 0, 0, 0], out_rodata = [],
       out_data = [], out_bss_size = 0, global_syms = obj_syms start_object\<rparr>"
  have "find_global_sym (obj_syms start_object) (bytes_of ''_start'') = Some 0"
    by (simp add: find_global_sym_def start_object_def)
  then obtain img where "emit_onx (bytes_of ''_start'') False ?ld = Inr img"
    by (simp add: emit_onx_def Let_def)
  with linked_image_rejected [OF this] show ?thesis by blast
qed

end
