(* ===== verification/Symtab.thy ===== *)
theory Symtab
  imports Buffers Name_Tables
begin

text \<open>
  The symbol table of the compiler, \<^verbatim>\<open>src/front/ast.c\<close> with the types of \<^verbatim>\<open>include/front/ast.h\<close>: a table
  of globals, a table of locals cut into scopes, and their operations. The two arrays with
  their counts are lists; an entry behind the count is cleared before it is used again, so
  that truncating the count is taking a prefix. \<^verbatim>\<open>cc_fatal\<close> ends the compiler and is the result
  \<^const>\<open>None\<close>. A type is a reference, as in the code.
\<close>

datatype sym_kind = SYM_NONE | SYM_TYPEDEF | SYM_ENUM_CONST | SYM_LOCAL_VAR | SYM_GLOBAL_VAR | SYM_FUNCTION | SYM_BUILTIN

record sym_t =
  sym_kind :: sym_kind
  sym_name :: "u8 list"
  sym_type :: "nat option"
  sym_offset :: u64
  sym_vaddr :: u64
  sym_text_off :: u32
  sym_enum_val :: u64
  sym_scope :: int
  sym_is_used :: bool
  sym_is_defined :: bool
  sym_alias_global :: int
  sym_builtin_id :: int

definition CC_MAX_IDENT :: nat where "CC_MAX_IDENT = 64"
definition SYMTAB_GLOBAL_CAP :: nat where "SYMTAB_GLOBAL_CAP = 4096"
definition SYMTAB_LOCAL_CAP :: nat where "SYMTAB_LOCAL_CAP = 256"

text \<open>\<open>scope_stack\<close> is \<^verbatim>\<open>g_scope_stack[1..g_scope_depth]\<close>; entry 0 is never read.\<close>

record symtab =
  g_globals :: "sym_t list"
  g_locals :: "sym_t list"
  g_cur_scope :: int
  scope_stack :: "nat list"
  sym_diag :: diag

definition symtab_init :: "symtab \<Rightarrow> symtab" where
  "symtab_init st = st\<lparr>g_globals := [], g_locals := [], g_cur_scope := 0, scope_stack := []\<rparr>"

text \<open>The search loops go backwards and mark what they find as used.\<close>

definition symtab_lookup_global :: "u8 list \<Rightarrow> symtab \<Rightarrow> nat option \<times> symtab" where
  "symtab_lookup_global name st =
     (case find_last (g_globals st) (\<lambda>s. sym_name s = name) of
        None \<Rightarrow> (None, st)
      | Some i \<Rightarrow> (Some i, st\<lparr>g_globals := (g_globals st)[i := (g_globals st ! i)\<lparr>sym_is_used := True\<rparr>]\<rparr>))"

definition symtab_lookup_local :: "u8 list \<Rightarrow> symtab \<Rightarrow> nat option \<times> symtab" where
  "symtab_lookup_local name st =
     (case find_last (g_locals st) (\<lambda>s. sym_name s = name) of
        None \<Rightarrow> (None, st)
      | Some i \<Rightarrow> (Some i, st\<lparr>g_locals := (g_locals st)[i := (g_locals st ! i)\<lparr>sym_is_used := True\<rparr>]\<rparr>))"

text \<open>A cleared entry with the fields both installers set; the name is cut to its buffer.\<close>

definition new_sym :: "u8 list \<Rightarrow> sym_kind \<Rightarrow> nat option \<Rightarrow> int \<Rightarrow> int \<Rightarrow> sym_t" where
  "new_sym name kind type scope alias =
     \<lparr>sym_kind = kind, sym_name = take (CC_MAX_IDENT - 1) name, sym_type = type, sym_offset = 0, sym_vaddr = 0,
      sym_text_off = 0, sym_enum_val = 0, sym_scope = scope, sym_is_used = False, sym_is_defined = False,
      sym_alias_global = alias, sym_builtin_id = 0\<rparr>"

definition symtab_install_global :: "u8 list \<Rightarrow> sym_kind \<Rightarrow> nat option \<Rightarrow> symtab \<Rightarrow> (nat \<times> symtab) option" where
  "symtab_install_global name kind type st =
     (if SYMTAB_GLOBAL_CAP \<le> length (g_globals st) then None
      else case find_first (g_globals st) (\<lambda>s. sym_name s = name) of
        Some i \<Rightarrow> Some (i, st)
      | None \<Rightarrow> Some (length (g_globals st), st\<lparr>g_globals := g_globals st @ [new_sym name kind type 0 0]\<rparr>))"

text \<open>The redeclaration search: backwards, up to the first entry of an outer scope.\<close>

fun find_in_scope :: "sym_t list \<Rightarrow> nat \<Rightarrow> u8 list \<Rightarrow> int \<Rightarrow> nat option" where
  "find_in_scope locals 0 name scope = None"
| "find_in_scope locals (Suc i) name scope =
     (if sym_scope (locals ! i) < scope then None
      else if sym_name (locals ! i) = name then Some i
      else find_in_scope locals i name scope)"

definition symtab_install_local :: "u8 list \<Rightarrow> sym_kind \<Rightarrow> nat option \<Rightarrow> int \<Rightarrow> symtab \<Rightarrow> (nat \<times> symtab) option" where
  "symtab_install_local name kind type scope st =
     (if SYMTAB_LOCAL_CAP \<le> length (g_locals st) then None
      else case find_in_scope (g_locals st) (length (g_locals st)) name scope of
        Some i \<Rightarrow> Some (i, st\<lparr>sym_diag := cc_error_at (sym_diag st)\<rparr>)
      | None \<Rightarrow> Some (length (g_locals st), st\<lparr>g_locals := g_locals st @ [new_sym name kind type scope (- 1)]\<rparr>))"

definition symtab_push_scope :: "symtab \<Rightarrow> symtab option" where
  "symtab_push_scope st =
     (if 63 \<le> length (scope_stack st) then None
      else Some (st\<lparr>g_cur_scope := g_cur_scope st + 1, scope_stack := scope_stack st @ [length (g_locals st)]\<rparr>))"

definition symtab_pop_scope :: "symtab \<Rightarrow> symtab" where
  "symtab_pop_scope st =
     (if scope_stack st = [] then st
      else st\<lparr>g_locals := take (last (scope_stack st)) (g_locals st), scope_stack := butlast (scope_stack st),
              g_cur_scope := g_cur_scope st - 1\<rparr>)"

definition symtab_reset_locals :: "symtab \<Rightarrow> symtab" where
  "symtab_reset_locals st = st\<lparr>g_locals := [], g_cur_scope := 0, scope_stack := []\<rparr>"

definition symtab_enter_function :: "symtab \<Rightarrow> symtab" where
  "symtab_enter_function st = st\<lparr>g_locals := [], g_cur_scope := 0, scope_stack := []\<rparr>"

definition symtab_leave_function :: "symtab \<Rightarrow> symtab" where
  "symtab_leave_function st = st"

subsection \<open>The tables answer by name\<close>

definition lookup_global_idx :: "symtab \<Rightarrow> u8 list \<Rightarrow> nat option" where
  "lookup_global_idx st name = fst (symtab_lookup_global name st)"

definition lookup_local_idx :: "symtab \<Rightarrow> u8 list \<Rightarrow> nat option" where
  "lookup_local_idx st name = fst (symtab_lookup_local name st)"

lemma lookup_idx_eq:
  "lookup_global_idx st name = find_last (g_globals st) (\<lambda>s. sym_name s = name)"
  "lookup_local_idx st name = find_last (g_locals st) (\<lambda>s. sym_name s = name)"
  by (simp_all add: lookup_global_idx_def symtab_lookup_global_def lookup_local_idx_def symtab_lookup_local_def
      split: option.splits)

interpretation globals: name_table lookup_global_idx "\<lambda>st. map sym_name (g_globals st)"
  by standard (auto simp: lookup_idx_eq find_last_None dest: find_last_Some)

interpretation locals: name_table lookup_local_idx "\<lambda>st. map sym_name (g_locals st)"
  by standard (auto simp: lookup_idx_eq find_last_None dest: find_last_Some)

subsection \<open>Scopes\<close>

text \<open>
  The abstract view: a stack of scopes, innermost first, each a map from names to symbols. The
  \<open>is_used\<close> mark is not part of it.
\<close>

type_synonym scope = "u8 list \<rightharpoonup> sym_t"

definition entry :: "sym_t \<Rightarrow> u8 list \<times> sym_t" where
  "entry s = (sym_name s, s\<lparr>sym_is_used := False\<rparr>)"

definition scope_of :: "sym_t list \<Rightarrow> scope" where
  "scope_of ss = map_of (rev (map entry ss))"

fun cut_scopes :: "sym_t list \<Rightarrow> nat list \<Rightarrow> sym_t list list" where
  "cut_scopes ss [] = [ss]"
| "cut_scopes ss (b # bs) = drop b ss # cut_scopes (take b ss) bs"

definition scopes :: "symtab \<Rightarrow> scope list" where
  "scopes st = map scope_of (cut_scopes (g_locals st) (rev (scope_stack st)))"

primrec resolve :: "scope list \<Rightarrow> u8 list \<Rightarrow> sym_t option" where
  "resolve [] n = None"
| "resolve (f # fs) n = (case f n of Some s \<Rightarrow> Some s | None \<Rightarrow> resolve fs n)"

text \<open>
  The invariant: the current scope is the depth, the starts of the scopes increase, and every
  local carries the number of the scope it lies in.
\<close>

fun in_scopes :: "sym_t list \<Rightarrow> nat list \<Rightarrow> bool" where
  "in_scopes ss [] \<longleftrightarrow> (\<forall>s \<in> set ss. sym_scope s = 0)"
| "in_scopes ss (b # bs) \<longleftrightarrow> b \<le> length ss \<and> (\<forall>s \<in> set (drop b ss). sym_scope s = int (length (b # bs)))
     \<and> in_scopes (take b ss) bs"

definition symtab_ok :: "symtab \<Rightarrow> bool" where
  "symtab_ok st \<longleftrightarrow> g_cur_scope st = int (length (scope_stack st)) \<and> in_scopes (g_locals st) (rev (scope_stack st))"

lemma scope_of_snoc: "scope_of (ss @ [s]) = (scope_of ss)(sym_name s \<mapsto> s\<lparr>sym_is_used := False\<rparr>)"
  by (simp add: scope_of_def entry_def)

lemma scope_of_find:
  "scope_of ss n = (case find_last ss (\<lambda>s. sym_name s = n) of None \<Rightarrow> None | Some i \<Rightarrow> Some ((ss ! i)\<lparr>sym_is_used := False\<rparr>))"
proof (induction ss rule: rev_induct)
  case Nil
  then show ?case by (simp add: scope_of_def find_last_def)
next
  case (snoc s ss)
  have "find_last ss (\<lambda>s. sym_name s = n) = Some i \<Longrightarrow> i < length ss" for i
    by (drule find_last_Some) simp
  with snoc show ?case
    by (auto simp: scope_of_snoc find_last_snoc nth_append split: option.splits)
qed

lemma find_last_append:
  "find_last (xs @ ys) P = (case find_last ys P of Some i \<Rightarrow> Some (length xs + i) | None \<Rightarrow> find_last xs P)"
proof (induction ys rule: rev_induct)
  case Nil
  then show ?case by (simp add: find_last_def)
next
  case (snoc y ys)
  then show ?case using find_last_snoc [of "xs @ ys" y P] by (simp add: find_last_snoc)
qed

lemma scope_of_append: "scope_of (xs @ ys) = scope_of xs ++ scope_of ys"
  by (simp add: scope_of_def)

lemma resolve_cut: "resolve (map scope_of (cut_scopes ss bs)) n = scope_of ss n"
proof (induction ss bs rule: cut_scopes.induct)
  case (1 ss)
  then show ?case by (simp split: option.splits)
next
  case (2 ss b bs)
  have "scope_of ss n = (scope_of (take b ss) ++ scope_of (drop b ss)) n"
    by (metis append_take_drop_id scope_of_append)
  with 2 show ?case by (auto simp: map_add_def split: option.splits)
qed

lemma resolve_scopes: "resolve (scopes st) n = scope_of (g_locals st) n"
  by (simp add: scopes_def resolve_cut)

text \<open>Marking a symbol as used changes neither the scopes nor the invariant.\<close>

definition alike :: "sym_t list \<Rightarrow> sym_t list \<Rightarrow> bool" where
  "alike ss ss' \<longleftrightarrow> map (\<lambda>s. s\<lparr>sym_is_used := False\<rparr>) ss = map (\<lambda>s. s\<lparr>sym_is_used := False\<rparr>) ss'"

lemma alike_take_drop: "alike ss ss' \<Longrightarrow> alike (take n ss) (take n ss')" "alike ss ss' \<Longrightarrow> alike (drop n ss) (drop n ss')"
  by (simp_all add: alike_def flip: take_map drop_map)

lemma alike_length: "alike ss ss' \<Longrightarrow> length ss = length ss'"
  unfolding alike_def by (metis length_map)

lemma alike_map:
  assumes "alike ss ss'" "\<And>s b. f (s\<lparr>sym_is_used := b\<rparr>) = f s"
  shows "map f ss = map f ss'"
proof -
  have e: "map f (map (\<lambda>s. s\<lparr>sym_is_used := False\<rparr>) xs) = map f xs" for xs by (simp add: assms(2))
  have "map f (map (\<lambda>s. s\<lparr>sym_is_used := False\<rparr>) ss) = map f (map (\<lambda>s. s\<lparr>sym_is_used := False\<rparr>) ss')"
    using assms(1) by (simp only: alike_def)
  then show ?thesis by (simp only: e)
qed

lemma alike_scope_of: "alike ss ss' \<Longrightarrow> scope_of ss = scope_of ss'"
  using alike_map [of ss ss' entry] by (simp add: scope_of_def entry_def)

lemma alike_cut: "alike ss ss' \<Longrightarrow> map scope_of (cut_scopes ss bs) = map scope_of (cut_scopes ss' bs)"
  by (induction ss bs arbitrary: ss' rule: cut_scopes.induct) (simp_all add: alike_scope_of alike_take_drop)

lemma alike_all_scope:
  assumes "alike ss ss'"
  shows "(\<forall>s \<in> set ss. sym_scope s = k) \<longleftrightarrow> (\<forall>s \<in> set ss'. sym_scope s = k)"
proof -
  have "map sym_scope ss = map sym_scope ss'" using assms by (rule alike_map) simp
  then have "sym_scope ` set ss = sym_scope ` set ss'" by (simp only: flip: list.set_map)
  moreover have "(\<forall>s \<in> set xs. sym_scope s = k) \<longleftrightarrow> sym_scope ` set xs \<subseteq> {k}" for xs :: "sym_t list" by auto
  ultimately show ?thesis by (simp only:)
qed

lemma alike_in_scopes: "alike ss ss' \<Longrightarrow> in_scopes ss bs \<longleftrightarrow> in_scopes ss' bs"
proof (induction ss bs arbitrary: ss' rule: in_scopes.induct)
  case (1 ss)
  then show ?case using alike_all_scope [of ss ss' 0] by simp
next
  case (2 ss b bs)
  show ?case
    using 2(1) [OF alike_take_drop(1) [OF 2(2)]] alike_length [OF 2(2)]
      alike_all_scope [OF alike_take_drop(2) [OF 2(2)], of b "int (length (b # bs))"] by simp
qed

lemma alike_mark: "alike ss (ss[i := (ss ! i)\<lparr>sym_is_used := True\<rparr>])"
  unfolding alike_def by (cases "i < length ss"; rule nth_equalityI) (auto simp: nth_list_update)

lemma lookup_local_refines:
  assumes "symtab_ok st"
  shows "symtab_ok (snd (symtab_lookup_local n st))" "scopes (snd (symtab_lookup_local n st)) = scopes st"
    "resolve (scopes st) n = map_option (\<lambda>i. (g_locals st ! i)\<lparr>sym_is_used := False\<rparr>) (fst (symtab_lookup_local n st))"
proof -
  note m = alike_mark [of "g_locals st"]
  show "symtab_ok (snd (symtab_lookup_local n st))"
    using assms alike_in_scopes [OF m] by (auto simp: symtab_lookup_local_def symtab_ok_def split: option.splits)
  show "scopes (snd (symtab_lookup_local n st)) = scopes st"
    using alike_cut [OF m] by (auto simp: symtab_lookup_local_def scopes_def split: option.splits)
  show "resolve (scopes st) n = map_option (\<lambda>i. (g_locals st ! i)\<lparr>sym_is_used := False\<rparr>) (fst (symtab_lookup_local n st))"
    unfolding resolve_scopes scope_of_find by (simp add: symtab_lookup_local_def split: option.splits)
qed

lemma push_refines:
  assumes "symtab_ok st" "symtab_push_scope st = Some st'"
  shows "symtab_ok st'" "scopes st' = Map.empty # scopes st"
  using assms by (auto simp: symtab_push_scope_def symtab_ok_def scopes_def scope_of_def split: if_splits)

lemma pop_refines:
  assumes "symtab_ok st" "scope_stack st \<noteq> []"
  shows "symtab_ok (symtab_pop_scope st)" "scopes (symtab_pop_scope st) = tl (scopes st)"
proof -
  obtain bs b where b: "scope_stack st = bs @ [b]" using assms(2) by (meson rev_exhaust)
  show "symtab_ok (symtab_pop_scope st)" "scopes (symtab_pop_scope st) = tl (scopes st)"
    using assms(1) by (simp_all add: symtab_pop_scope_def symtab_ok_def scopes_def b)
qed

text \<open>The innermost scope as a part of the table.\<close>

definition innermost :: "symtab \<Rightarrow> nat" where
  "innermost st = (if scope_stack st = [] then 0 else last (scope_stack st))"

lemma scopes_innermost: "hd (scopes st) = scope_of (drop (innermost st) (g_locals st))"
  by (cases "scope_stack st" rule: rev_cases) (simp_all add: scopes_def innermost_def)

lemma innermost_scope:
  assumes "symtab_ok st"
  shows "innermost st \<le> length (g_locals st)"
    and "\<forall>s \<in> set (drop (innermost st) (g_locals st)). sym_scope s = g_cur_scope st"
    and "\<forall>s \<in> set (take (innermost st) (g_locals st)). sym_scope s < g_cur_scope st"
proof -
  have below: "in_scopes ss bs \<Longrightarrow> s \<in> set ss \<Longrightarrow> sym_scope s \<le> int (length bs)" for ss bs s
  proof (induction ss bs rule: in_scopes.induct)
    case (2 ss b bs)
    have "s \<in> set (take b ss) \<or> s \<in> set (drop b ss)" using 2(3) by (metis append_take_drop_id set_append Un_iff)
    with 2 show ?case by auto
  qed simp
  show "innermost st \<le> length (g_locals st)"
    "\<forall>s \<in> set (drop (innermost st) (g_locals st)). sym_scope s = g_cur_scope st"
    "\<forall>s \<in> set (take (innermost st) (g_locals st)). sym_scope s < g_cur_scope st"
    using assms
    by (cases "scope_stack st" rule: rev_cases; auto simp: symtab_ok_def innermost_def dest: below)+
qed

lemma find_in_scope_eq:
  assumes "b \<le> n" "n \<le> length ss" "\<forall>i. b \<le> i \<and> i < n \<longrightarrow> \<not> sym_scope (ss ! i) < k" "0 < b \<Longrightarrow> sym_scope (ss ! (b - 1)) < k"
  shows "find_in_scope ss n name k = map_option ((+) b) (find_last (take (n - b) (drop b ss)) (\<lambda>s. sym_name s = name))"
  using assms
proof (induction n)
  case 0
  then show ?case by (simp add: find_last_def)
next
  case (Suc n)
  show ?case
  proof (cases "b = Suc n")
    case True
    then show ?thesis using Suc.prems(4) by (simp add: find_last_def)
  next
    case False
    then have b: "b \<le> n" using Suc.prems(1) by simp
    have "take (Suc n - b) (drop b ss) = take (n - b) (drop b ss) @ [ss ! n]"
      using b Suc.prems(2) by (simp add: Suc_diff_le take_Suc_conv_app_nth)
    moreover have "length (take (n - b) (drop b ss)) = n - b" using Suc.prems(2) b by simp
    ultimately show ?thesis
      using b Suc by (simp add: find_last_snoc)
  qed
qed

lemma install_search:
  assumes "symtab_ok st"
  shows "find_in_scope (g_locals st) (length (g_locals st)) name (g_cur_scope st) =
    map_option ((+) (innermost st)) (find_last (drop (innermost st) (g_locals st)) (\<lambda>s. sym_name s = name))"
proof -
  note i = innermost_scope [OF assms]
  have "\<not> sym_scope (g_locals st ! j) < g_cur_scope st" if "innermost st \<le> j" "j < length (g_locals st)" for j
  proof -
    have "drop (innermost st) (g_locals st) ! (j - innermost st) \<in> set (drop (innermost st) (g_locals st))"
      by (rule nth_mem) (use that in simp)
    with i(2) that show ?thesis by auto
  qed
  moreover have "sym_scope (g_locals st ! (innermost st - 1)) < g_cur_scope st" if "0 < innermost st"
    using i(1,3) that by (metis diff_less in_set_conv_nth length_take less_one min.absorb2 nth_take)
  ultimately show ?thesis
    using find_in_scope_eq [of "innermost st" "length (g_locals st)" "g_locals st"] i(1) by simp
qed

lemma install_local_refines:
  assumes ok: "symtab_ok st" and ins: "symtab_install_local name kind ty (g_cur_scope st) st = Some (i, st')"
    and "length name < CC_MAX_IDENT"
  shows "symtab_ok st'" and "i < length (g_locals st') \<and> sym_name (g_locals st' ! i) = name"
    and "scopes st' = (if name \<in> dom (hd (scopes st)) then scopes st
      else (hd (scopes st))(name \<mapsto> new_sym name kind ty (g_cur_scope st) (- 1)) # tl (scopes st))"
    and "n_errors (sym_diag st') = n_errors (sym_diag st) + (if name \<in> dom (hd (scopes st)) then 1 else 0)"
proof -
  let ?s = "new_sym name kind ty (g_cur_scope st) (- 1)" and ?b = "innermost st"
  have s: "sym_name ?s = name" "?s\<lparr>sym_is_used := False\<rparr> = ?s" "sym_scope ?s = g_cur_scope st"
    using assms(3) by (simp_all add: new_sym_def)
  have b: "?b \<le> length (g_locals st)" using innermost_scope [OF ok] by simp
  consider (dup) j where "find_last (drop ?b (g_locals st)) (\<lambda>s. sym_name s = name) = Some j"
      "i = ?b + j" "st' = st\<lparr>sym_diag := cc_error_at (sym_diag st)\<rparr>" "name \<in> dom (hd (scopes st))"
    | (new) "name \<notin> dom (hd (scopes st))" "i = length (g_locals st)" "st' = st\<lparr>g_locals := g_locals st @ [?s]\<rparr>"
    using ins unfolding symtab_install_local_def install_search [OF ok] scopes_innermost scope_of_find dom_def
    by (auto split: if_splits option.splits)
  then have "symtab_ok st' \<and> (i < length (g_locals st') \<and> sym_name (g_locals st' ! i) = name)
    \<and> scopes st' = (if name \<in> dom (hd (scopes st)) then scopes st
      else (hd (scopes st))(name \<mapsto> ?s) # tl (scopes st))
    \<and> n_errors (sym_diag st') = n_errors (sym_diag st) + (if name \<in> dom (hd (scopes st)) then 1 else 0)"
  proof cases
    case dup
    from find_last_Some [OF dup(1)] b ok dup show ?thesis
      by (auto simp: symtab_ok_def scopes_def cc_error_at_def)
  next
    case new
    have "in_scopes (g_locals st @ [?s]) (rev (scope_stack st))"
      using ok s(3) by (cases "scope_stack st" rule: rev_cases) (auto simp: symtab_ok_def)
    moreover have "scopes st' = (hd (scopes st))(name \<mapsto> ?s) # tl (scopes st)"
      using ok s(1,2) new(3)
      by (cases "scope_stack st" rule: rev_cases) (simp_all add: symtab_ok_def scopes_def scope_of_snoc)
    ultimately show ?thesis using ok new s(1) by (simp add: symtab_ok_def)
  qed
  then show "symtab_ok st'" "i < length (g_locals st') \<and> sym_name (g_locals st' ! i) = name"
    "scopes st' = (if name \<in> dom (hd (scopes st)) then scopes st
      else (hd (scopes st))(name \<mapsto> ?s) # tl (scopes st))"
    "n_errors (sym_diag st') = n_errors (sym_diag st) + (if name \<in> dom (hd (scopes st)) then 1 else 0)"
    by blast+
qed

text \<open>The operations the parser performs on the locals of a function.\<close>

datatype scope_op = Push | Pop | Install "u8 list" sym_kind "nat option" | Lookup "u8 list"

fun run_op :: "scope_op \<Rightarrow> symtab \<Rightarrow> symtab option" where
  "run_op Push st = symtab_push_scope st"
| "run_op Pop st = Some (symtab_pop_scope st)"
| "run_op (Install n k t) st = map_option snd (symtab_install_local n k t (g_cur_scope st) st)"
| "run_op (Lookup n) st = Some (snd (symtab_lookup_local n st))"

fun abs_op :: "scope_op \<Rightarrow> scope list \<Rightarrow> scope list" where
  "abs_op Push fs = Map.empty # fs"
| "abs_op Pop fs = (if length fs \<le> 1 then fs else tl fs)"
| "abs_op (Install n k t) fs =
     (if n \<in> dom (hd fs) then fs else (hd fs)(n \<mapsto> new_sym n k t (int (length fs) - 1) (- 1)) # tl fs)"
| "abs_op (Lookup n) fs = fs"

fun op_ok :: "scope_op \<Rightarrow> bool" where
  "op_ok (Install n k t) \<longleftrightarrow> length n < CC_MAX_IDENT"
| "op_ok _ \<longleftrightarrow> True"

primrec run_ops :: "scope_op list \<Rightarrow> symtab \<Rightarrow> symtab option" where
  "run_ops [] st = Some st"
| "run_ops (x # xs) st = Option.bind (run_op x st) (run_ops xs)"

lemma length_scopes: "length (scopes st) = Suc (length (scope_stack st))"
proof -
  have "length (cut_scopes ss bs) = Suc (length bs)" for ss bs
    by (induction ss bs rule: cut_scopes.induct) simp_all
  then show ?thesis by (simp add: scopes_def)
qed

lemma run_op_refines:
  assumes "symtab_ok st" "op_ok x" "run_op x st = Some st'"
  shows "symtab_ok st' \<and> scopes st' = abs_op x (scopes st)"
proof (cases x)
  case Push
  then show ?thesis using push_refines [of st st'] assms by simp
next
  case Pop
  show ?thesis
  proof (cases "scope_stack st = []")
    case True
    then show ?thesis using Pop assms by (simp add: symtab_pop_scope_def length_scopes)
  next
    case False
    then show ?thesis using Pop assms pop_refines [OF assms(1)] by (simp add: length_scopes)
  qed
next
  case (Install n k t)
  then obtain i where i: "symtab_install_local n k t (g_cur_scope st) st = Some (i, st')" "length n < CC_MAX_IDENT"
    using assms by auto
  have "g_cur_scope st = int (length (scopes st)) - 1" using assms(1) by (simp add: symtab_ok_def length_scopes)
  with install_local_refines [OF assms(1) i] show ?thesis by (simp add: Install)
next
  case (Lookup n)
  then show ?thesis using lookup_local_refines [OF assms(1)] assms(3) by auto
qed

lemma run_ops_refines:
  "symtab_ok st \<Longrightarrow> list_all op_ok xs \<Longrightarrow> run_ops xs st = Some st' \<Longrightarrow>
     symtab_ok st' \<and> scopes st' = fold abs_op xs (scopes st)"
proof (induction xs arbitrary: st)
  case (Cons x xs)
  then obtain st1 where st1: "run_op x st = Some st1" "run_ops xs st1 = Some st'" by (auto simp: bind_eq_Some_conv)
  with run_op_refines [OF Cons.prems(1) _ st1(1)] Cons.prems(2) Cons.IH [of st1] show ?case by simp
qed simp

text \<open>
  C32. The array of locals implements nested scopes: after entering a function and any sequence of
  pushing and popping scopes, declaring and looking up names of up to 63 characters, the
  table is the stack of scopes that the same sequence makes of the empty function scope, and
  looking a name up finds exactly the binding of the innermost scope that declares it.
\<close>

theorem symtab_refines_scopes:
  assumes "list_all op_ok xs" and "run_ops xs (symtab_enter_function st) = Some st'"
  shows "scopes st' = fold abs_op xs [Map.empty]
    \<and> map_option (\<lambda>i. (g_locals st' ! i)\<lparr>sym_is_used := False\<rparr>) (fst (symtab_lookup_local n st')) =
        resolve (fold abs_op xs [Map.empty]) n"
proof -
  have "symtab_ok (symtab_enter_function st)" "scopes (symtab_enter_function st) = [Map.empty]"
    by (simp_all add: symtab_enter_function_def symtab_ok_def scopes_def scope_of_def)
  with run_ops_refines [OF _ assms] have "symtab_ok st'" "scopes st' = fold abs_op xs [Map.empty]" by simp_all
  with lookup_local_refines(3) [of st' n] show ?thesis by simp
qed

text \<open>A name declared again in an inner scope, and looked up there.\<close>

definition shadow_ops :: "scope_op list" where
  "shadow_ops = [Install [120] SYM_LOCAL_VAR (Some 1), Push, Install [120] SYM_LOCAL_VAR (Some 2)]"

theorem symtab_refines_scopes_witness:
  "\<exists>st'. run_ops shadow_ops (symtab_enter_function \<lparr>g_globals = [], g_locals = [], g_cur_scope = 0, scope_stack = [],
       sym_diag = \<lparr>n_errors = 0, n_warnings = 0\<rparr>\<rparr>) = Some st'
     \<and> map_option (\<lambda>i. (g_locals st' ! i)\<lparr>sym_is_used := False\<rparr>) (fst (symtab_lookup_local [120] st')) =
        Some (new_sym [120] SYM_LOCAL_VAR (Some 2) 1 (- 1))"
proof -
  let ?st = "\<lparr>g_globals = [], g_locals = [], g_cur_scope = 0, scope_stack = [],
       sym_diag = \<lparr>n_errors = 0, n_warnings = 0\<rparr>\<rparr>"
  have "run_ops shadow_ops (symtab_enter_function ?st) \<noteq> None" by code_simp
  then obtain st' where st': "run_ops shadow_ops (symtab_enter_function ?st) = Some st'" by auto
  have "list_all op_ok shadow_ops" by (simp add: shadow_ops_def CC_MAX_IDENT_def)
  from symtab_refines_scopes [OF this st', of "[120]"] st' show ?thesis
    by (auto simp: shadow_ops_def)
qed

text \<open>
  Identifiers of 64 and more characters are lost: the table keeps their first 63 characters,
  but every search compares the whole name, so that a global that was just declared is not found.
\<close>

theorem long_names_lost:
  assumes "CC_MAX_IDENT \<le> length name" and "lookup_global_idx st name = None"
    and "symtab_install_global name kind ty st = Some (i, st')"
  shows "lookup_global_idx st' name = None"
proof -
  have none: "\<forall>s \<in> set (g_globals st). sym_name s \<noteq> name"
    using assms(2) by (simp add: lookup_idx_eq find_last_None)
  then have "st' = st\<lparr>g_globals := g_globals st @ [new_sym name kind ty 0 0]\<rparr>"
    using assms(3) by (auto simp: symtab_install_global_def find_first_None [THEN iffD2] split: if_splits)
  moreover have "sym_name (new_sym name kind ty 0 0) \<noteq> name"
    using assms(1) by (auto simp: new_sym_def CC_MAX_IDENT_def dest: arg_cong [where f = length])
  ultimately show ?thesis using none by (auto simp: lookup_idx_eq find_last_None)
qed

theorem long_names_lost_witness:
  "\<exists>st'. lookup_global_idx st' (replicate 64 97) = None \<and> g_globals st' \<noteq> []"
proof -
  let ?st = "\<lparr>g_globals = [], g_locals = [], g_cur_scope = 0, scope_stack = [],
       sym_diag = \<lparr>n_errors = 0, n_warnings = 0\<rparr>\<rparr>"
  obtain st' where "symtab_install_global (replicate 64 97) SYM_GLOBAL_VAR None ?st = Some (0, st')" "g_globals st' \<noteq> []"
    by (simp add: symtab_install_global_def find_first_def SYMTAB_GLOBAL_CAP_def)
  moreover have "CC_MAX_IDENT \<le> length (replicate 64 97 :: u8 list)" by (simp add: CC_MAX_IDENT_def)
  moreover have "lookup_global_idx ?st (replicate 64 97) = None" by (simp add: lookup_idx_eq find_last_None)
  ultimately show ?thesis using long_names_lost by blast
qed

end
