(* ===== verification/Libc_Time.thy ===== *)
theory Libc_Time
  imports Onyx_Prelude
begin

text \<open>
  Calendar arithmetic of the C library, \<^verbatim>\<open>libonyxc/src/io/time.c\<close>. \<^verbatim>\<open>int\<close> and \<^verbatim>\<open>time_t\<close> values are
  integers, \<^verbatim>\<open>/\<close> and \<^verbatim>\<open>%\<close> are the truncating operations \<^const>\<open>signed_divide\<close> and \<^const>\<open>signed_modulo\<close>; the
  only narrowing the code does, from the number of days to \<^verbatim>\<open>int\<close>, is written out. Reading the
  table of month lengths outside its twelve entries is the result \<^const>\<open>None\<close>.
\<close>

definition mdays :: "bool \<Rightarrow> int list" where
  "mdays leap = (if leap then [31, 29, 31, 30, 31, 30, 31, 31, 30, 31, 30, 31]
                 else [31, 28, 31, 30, 31, 30, 31, 31, 30, 31, 30, 31])"

definition is_leap :: "int \<Rightarrow> bool" where
  "is_leap year =
     (if year smod 4 \<noteq> 0 then False
      else if year smod 100 \<noteq> 0 then True
      else if year smod 400 \<noteq> 0 then False
      else True)"

definition day_of_week :: "int \<Rightarrow> int \<Rightarrow> int \<Rightarrow> int" where
  "day_of_week year month day =
     (let (month, year) = (if month < 3 then (month + 12, year - 1) else (month, year));
          c = year sdiv 100; y = year smod 100;
          h = (day + (13 * (month + 1)) sdiv 5 + y + y sdiv 4 + c sdiv 4 + 5 * c) smod 7
      in (h + 6) smod 7)"

definition day_of_year :: "int \<Rightarrow> int \<Rightarrow> int \<Rightarrow> int" where
  "day_of_year year month day = sum_list (take (nat (month - 1)) (mdays (is_leap year))) + day"

record tm =
  tm_sec :: int
  tm_min :: int
  tm_hour :: int
  tm_mday :: int
  tm_mon :: int
  tm_year :: int
  tm_wday :: int
  tm_yday :: int
  tm_isdst :: int

definition year_len :: "int \<Rightarrow> int" where
  "year_len year = (if is_leap year then 366 else 365)"

lemma year_len_pos: "365 \<le> year_len y" "year_len y \<le> 366"
  by (simp_all add: year_len_def)

text \<open>The year loop of \<^verbatim>\<open>gmtime\<close>: days left and year.\<close>

function gm_year :: "int \<Rightarrow> int \<Rightarrow> int \<times> int" where
  "gm_year days year = (if days < year_len year then (days, year) else gm_year (days - year_len year) (year + 1))"
  by pat_completeness auto

termination
proof (relation "measure (\<lambda>(days, year). nat days)")
  fix days year
  assume "\<not> days < year_len year"
  then show "((days - year_len year, year + 1), days, year) \<in> measure (\<lambda>(days, year). nat days)"
    using year_len_pos [of year] by simp
qed simp

declare gm_year.simps [simp del]

text \<open>The month loop, on the months not yet passed.\<close>

fun gm_month :: "int list \<Rightarrow> int \<Rightarrow> int \<Rightarrow> int \<times> int" where
  "gm_month [] days month = (days, month)"
| "gm_month (n # ns) days month = (if n \<le> days then gm_month ns (days - n) (month + 1) else (days, month))"

definition to_int :: "int \<Rightarrow> int" where
  "to_int v = sint (word_of_int v :: u32)"

definition gmtime :: "int \<Rightarrow> tm" where
  "gmtime t =
     (let sec = to_int (t smod 60); v = t sdiv 60;
          min = to_int (v smod 60); v = v sdiv 60;
          hour = to_int (v smod 24); v = v sdiv 24;
          (days, year) = gm_year (to_int v) 1970;
          (days, month) = gm_month (mdays (is_leap year)) days 0
      in \<lparr>tm_sec = sec, tm_min = min, tm_hour = hour, tm_mday = days + 1, tm_mon = month, tm_year = year - 1900,
          tm_wday = day_of_week year (month + 1) (days + 1), tm_yday = day_of_year year (month + 1) (days + 1),
          tm_isdst = 0\<rparr>)"

definition localtime :: "int \<Rightarrow> tm" where
  "localtime t = gmtime t"

text \<open>The two loops of \<^verbatim>\<open>mktime\<close>.\<close>

function mk_years :: "int \<Rightarrow> int \<Rightarrow> int \<Rightarrow> int" where
  "mk_years t y year = (if y < year then mk_years (t + year_len y) (y + 1) year else t)"
  by pat_completeness auto

termination by (relation "measure (\<lambda>(t, y, year). nat (year - y))") auto

declare mk_years.simps [simp del]

definition mktime :: "tm \<Rightarrow> int option" where
  "mktime tm =
     (let year = tm_year tm + 1900; t = mk_years 0 1970 year
      in if 12 < tm_mon tm then None
         else let t = t + sum_list (take (nat (tm_mon tm)) (mdays (is_leap year)));
                  t = t + (tm_mday tm - 1);
                  t = t * 24 + tm_hour tm;
                  t = t * 60 + tm_min tm;
                  t = t * 60 + tm_sec tm
              in Some t)"

subsection \<open>Positive numbers\<close>

lemma sdiv_pos: "0 \<le> a \<Longrightarrow> 0 < b \<Longrightarrow> a sdiv b = a div b" "0 \<le> a \<Longrightarrow> 0 < b \<Longrightarrow> a smod b = a mod b" for a b :: int
  by (simp_all add: signed_divide_int_def signed_modulo_int_def minus_div_mult_eq_mod sgn_if)

lemma to_int_id: "0 \<le> v \<Longrightarrow> v < 2 ^ 31 \<Longrightarrow> to_int v = v"
  unfolding to_int_def by (simp add: sint_sbintrunc' signed_take_bit_int_eq_self)

subsection \<open>Seconds and dates\<close>

lemma mk_years_same: "mk_years t y y = t"
  by (simp add: mk_years.simps)

lemma gm_year_spec:
  assumes "0 \<le> days" "gm_year days y = (d, y')"
  shows "y \<le> y' \<and> 0 \<le> d \<and> d < year_len y' \<and> mk_years t y y' + d = t + days"
  using assms
proof (induction days y arbitrary: t rule: gm_year.induct)
  case (1 days y)
  show ?case
  proof (cases "days < year_len y")
    case True
    then show ?thesis using 1(2,3) by (auto simp: gm_year.simps mk_years_same)
  next
    case False
    have step: "gm_year (days - year_len y) (y + 1) = (d, y')" "0 \<le> days - year_len y"
      using 1(3) False by (simp_all add: gm_year.simps [of days y])
    from 1(1) [OF False step(2,1), of "t + year_len y"] show ?thesis
      by (simp add: mk_years.simps [of t y y'])
  qed
qed

lemma gm_month_spec:
  assumes "0 \<le> days" "gm_month ns days m = (d, m')" "days < sum_list ns"
  shows "m \<le> m' \<and> m' < m + int (length ns) \<and> 0 \<le> d \<and> d < ns ! nat (m' - m) \<and> sum_list (take (nat (m' - m)) ns) + d = days"
  using assms
proof (induction ns days m rule: gm_month.induct)
  case (2 n ns days m)
  show ?case
  proof (cases "n \<le> days")
    case True
    with 2 have ih: "m + 1 \<le> m' \<and> m' < m + 1 + int (length ns) \<and> 0 \<le> d \<and> d < ns ! nat (m' - (m + 1))
        \<and> sum_list (take (nat (m' - (m + 1))) ns) + d = days - n" by auto
    then have "nat (m' - m) = Suc (nat (m' - (m + 1)))" by arith
    with ih show ?thesis by simp
  next
    case False
    with 2 show ?thesis by simp
  qed
qed simp

lemma sum_mdays: "sum_list (mdays (is_leap y)) = year_len y" "length (mdays b) = 12"
  by (simp_all add: mdays_def year_len_def)

text \<open>The fields of a broken-down time are in range and name the day the seconds lie in.\<close>

definition tm_date :: "tm \<Rightarrow> int \<Rightarrow> bool" where
  "tm_date r days \<longleftrightarrow> 0 \<le> tm_mon r \<and> tm_mon r < 12 \<and> 1 \<le> tm_mday r
     \<and> tm_mday r \<le> mdays (is_leap (tm_year r + 1900)) ! nat (tm_mon r) \<and> 70 \<le> tm_year r
     \<and> mk_years 0 1970 (tm_year r + 1900) + sum_list (take (nat (tm_mon r)) (mdays (is_leap (tm_year r + 1900))))
         + (tm_mday r - 1) = days"

lemma gmtime_fields:
  assumes "0 \<le> t" "t < 2 ^ 31 * 86400"
  shows "tm_sec (gmtime t) = t mod 60" "tm_min (gmtime t) = t div 60 mod 60" "tm_hour (gmtime t) = t div 3600 mod 24"
    "tm_date (gmtime t) (t div 86400)"
    "tm_wday (gmtime t) = day_of_week (tm_year (gmtime t) + 1900) (tm_mon (gmtime t) + 1) (tm_mday (gmtime t))"
    "tm_yday (gmtime t) = day_of_year (tm_year (gmtime t) + 1900) (tm_mon (gmtime t) + 1) (tm_mday (gmtime t))"
proof -
  have q: "t sdiv 60 = t div 60" "t div 60 sdiv 60 = t div 3600" "t div 3600 sdiv 24 = t div 86400"
    using assms by (simp_all add: sdiv_pos zdiv_zmult2_eq [symmetric])
  have r: "to_int (t smod 60) = t mod 60" "to_int (t div 60 smod 60) = t div 60 mod 60"
    "to_int (t div 3600 smod 24) = t div 3600 mod 24" "to_int (t div 86400) = t div 86400"
    using assms by (simp_all add: sdiv_pos to_int_id)
  obtain days year where y: "gm_year (t div 86400) 1970 = (days, year)" by fastforce
  obtain d m where m: "gm_month (mdays (is_leap year)) days 0 = (d, m)" by fastforce
  have g: "gmtime t = \<lparr>tm_sec = t mod 60, tm_min = t div 60 mod 60, tm_hour = t div 3600 mod 24, tm_mday = d + 1,
      tm_mon = m, tm_year = year - 1900, tm_wday = day_of_week year (m + 1) (d + 1),
      tm_yday = day_of_year year (m + 1) (d + 1), tm_isdst = 0\<rparr>"
    unfolding gmtime_def Let_def q r by (simp add: y m)
  have ys: "1970 \<le> year \<and> 0 \<le> days \<and> days < year_len year \<and> mk_years 0 1970 year + days = t div 86400"
    using gm_year_spec [OF _ y, of 0] assms(1) by simp
  have "0 \<le> m \<and> m < 12 \<and> 0 \<le> d \<and> d < mdays (is_leap year) ! nat m \<and> sum_list (take (nat m) (mdays (is_leap year))) + d = days"
    using gm_month_spec [OF _ m] ys by (simp add: sum_mdays)
  with ys show "tm_date (gmtime t) (t div 86400)" unfolding g by (simp add: tm_date_def)
  show "tm_sec (gmtime t) = t mod 60" "tm_min (gmtime t) = t div 60 mod 60" "tm_hour (gmtime t) = t div 3600 mod 24"
    "tm_wday (gmtime t) = day_of_week (tm_year (gmtime t) + 1900) (tm_mon (gmtime t) + 1) (tm_mday (gmtime t))"
    "tm_yday (gmtime t) = day_of_year (tm_year (gmtime t) + 1900) (tm_mon (gmtime t) + 1) (tm_mday (gmtime t))"
    unfolding g by simp_all
qed

lemma mktime_gmtime_id:
  assumes "0 \<le> t" "t < 2 ^ 31 * 86400"
  shows "mktime (gmtime t) = Some t"
proof -
  note f = gmtime_fields [OF assms]
  have d: "mk_years 0 1970 (tm_year (gmtime t) + 1900)
      + sum_list (take (nat (tm_mon (gmtime t))) (mdays (is_leap (tm_year (gmtime t) + 1900))))
      + (tm_mday (gmtime t) - 1) = t div 86400"
    using f(4) by (simp add: tm_date_def)
  have "((t div 86400 * 24 + t div 3600 mod 24) * 60 + t div 60 mod 60) * 60 + t mod 60 = t"
  proof -
    have "t div 86400 = t div 3600 div 24" "t div 3600 = t div 60 div 60" by (simp_all add: zdiv_zmult2_eq [symmetric])
    then show ?thesis by simp
  qed
  then show ?thesis unfolding mktime_def Let_def d f(1-3) using f(4) by (simp add: tm_date_def)
qed

subsection \<open>Days of the week\<close>

lemma is_leap_pos: "0 \<le> y \<Longrightarrow> is_leap y \<longleftrightarrow> y mod 4 = 0 \<and> (y mod 100 \<noteq> 0 \<or> y mod 400 = 0)"
  by (auto simp: is_leap_def sdiv_pos)

text \<open>The part of the congruence that depends on the year.\<close>

definition year_term :: "int \<Rightarrow> int" where
  "year_term y = y mod 100 + y mod 100 div 4 + y div 100 div 4 + 5 * (y div 100)"

lemma day_of_week_pos:
  assumes "1 \<le> y" "1 \<le> m" "m \<le> 12" "1 \<le> d"
  shows "day_of_week y m d = (d + 6 + (if m < 3 then 13 * (m + 13) div 5 + year_term (y - 1)
     else 13 * (m + 1) div 5 + year_term y)) mod 7"
proof -
  have e: "(h smod 7 + 6) smod 7 = (h + 6) mod 7" if "0 \<le> h" for h :: int
    using that by (simp add: sdiv_pos mod_add_left_eq)
  have n: "0 \<le> y' \<Longrightarrow> 0 \<le> year_term y'" for y' by (simp add: year_term_def)
  have sq: "0 \<le> x \<Longrightarrow> x sdiv 5 = x div 5" "0 \<le> x \<Longrightarrow> x sdiv 4 = x div 4" "0 \<le> x \<Longrightarrow> x sdiv 100 = x div 100"
    "0 \<le> x \<Longrightarrow> x smod 100 = x mod 100" for x :: int by (simp_all add: sdiv_pos)
  show ?thesis
  proof (cases "m < 3")
    case True
    have "day_of_week y m d = ((d + 13 * (m + 12 + 1) div 5 + (y - 1) mod 100 + (y - 1) mod 100 div 4
        + (y - 1) div 100 div 4 + 5 * ((y - 1) div 100)) smod 7 + 6) smod 7"
      using True assms by (simp add: day_of_week_def Let_def sq)
    also have "\<dots> = (d + 13 * (m + 12 + 1) div 5 + (y - 1) mod 100 + (y - 1) mod 100 div 4
        + (y - 1) div 100 div 4 + 5 * ((y - 1) div 100) + 6) mod 7"
      using assms by (intro e) simp
    also have "\<dots> = (d + 6 + (13 * (m + 13) div 5 + year_term (y - 1))) mod 7"
      by (rule arg_cong [where f = "\<lambda>x. x mod 7"]) (simp add: year_term_def add.assoc)
    finally show ?thesis using True by simp
  next
    case False
    have "day_of_week y m d = ((d + 13 * (m + 1) div 5 + y mod 100 + y mod 100 div 4
        + y div 100 div 4 + 5 * (y div 100)) smod 7 + 6) smod 7"
      using False assms by (simp add: day_of_week_def Let_def sq)
    also have "\<dots> = (d + 13 * (m + 1) div 5 + y mod 100 + y mod 100 div 4
        + y div 100 div 4 + 5 * (y div 100) + 6) mod 7"
      using assms by (intro e) simp
    also have "\<dots> = (d + 6 + (13 * (m + 1) div 5 + year_term y)) mod 7"
      by (rule arg_cong [where f = "\<lambda>x. x mod 7"]) (simp add: year_term_def add.assoc)
    finally show ?thesis using False by simp
  qed
qed

lemma year_term_step: "1 \<le> y \<Longrightarrow> (year_term y - year_term (y - 1) - 1 - (if is_leap y then 1 else 0)) mod 7 = 0"
proof -
  assume y: "1 \<le> y"
  define c k where "c = y div 100" and "k = y mod 100"
  have yk: "y = 100 * c + k" "0 \<le> k" "k < 100" "0 \<le> c" using y by (simp_all add: c_def k_def)
  have leap: "is_leap y \<longleftrightarrow> k mod 4 = 0 \<and> (k \<noteq> 0 \<or> c mod 4 = 0)"
  proof -
    have "y mod 4 = k mod 4" by (simp add: k_def mod_mod_cancel)
    moreover have "y mod 400 = 100 * (c mod 4) + k"
      using zmod_zmult2_eq [of 4 y 100] by (simp add: c_def k_def)
    ultimately show ?thesis using y yk by (auto simp: is_leap_pos k_def [symmetric])
  qed
  show ?thesis
  proof (cases "k = 0")
    case True
    then have "(y - 1) div 100 = c - 1" "(y - 1) mod 100 = 99"
      using yk by (intro int_div_pos_eq [of _ _ _ 99] int_mod_pos_eq [of _ _ "c - 1"]; simp)+
    then have "year_term y - year_term (y - 1) = c div 4 - (c - 1) div 4 + 5 - 99 - 24"
      using yk True by (simp add: year_term_def c_def [symmetric] k_def [symmetric])
    moreover have "c div 4 - (c - 1) div 4 = (if c mod 4 = 0 then 1 else 0)" by presburger
    ultimately show ?thesis using leap True by simp
  next
    case False
    then have "(y - 1) div 100 = c" "(y - 1) mod 100 = k - 1"
      using yk by (intro int_div_pos_eq [of _ _ _ "k - 1"] int_mod_pos_eq [of _ _ c]; simp)+
    then have "year_term y - year_term (y - 1) = 1 + k div 4 - (k - 1) div 4"
      using yk by (simp add: year_term_def c_def [symmetric] k_def [symmetric])
    moreover have "k div 4 - (k - 1) div 4 = (if k mod 4 = 0 then 1 else 0)" by presburger
    ultimately show ?thesis using leap False by simp
  qed
qed

text \<open>Within a year the day of the week advances with the day of the year.\<close>

lemma year_term_prev:
  assumes "1 \<le> y"
  obtains q where "year_term y = year_term (y - 1) + (if is_leap y then 2 else 1) + 7 * q"
proof -
  have "7 dvd year_term y - year_term (y - 1) - 1 - (if is_leap y then 1 else 0)"
    using year_term_step [OF assms] by (simp add: dvd_eq_mod_eq_0)
  then obtain q where "year_term y - year_term (y - 1) - 1 - (if is_leap y then 1 else 0) = 7 * q" by blast
  then show ?thesis by (intro that [of q]) (simp split: if_splits)
qed

lemma mod_7I: "7 dvd a - b \<Longrightarrow> a mod 7 = b mod 7" for a b :: int
  by (simp add: mod_eq_dvd_iff)

lemma month_sum:
  fixes Y :: int
  assumes "m \<in> {0, 1, 2, 3, 4, 5, 6, 7, 8, 9, 10, 11}"
  shows "(d + 6 + (if m + 1 < 3 then 13 * (m + 14) div 5 + Y else 13 * (m + 2) div 5 + (Y + (if leap then 2 else 1) + 7 * q))) mod 7
     = (43 + Y + sum_list (take (nat m) (mdays leap)) + d - 1) mod 7"
  using assms
  by (elim insertE emptyE; cases leap; intro mod_7I; simp add: mdays_def; (presburger)?)

lemma month_term:
  assumes "1 \<le> y" "0 \<le> m" "m < 12" "1 \<le> d"
  shows "day_of_week y (m + 1) d = (day_of_week y 1 1 + sum_list (take (nat m) (mdays (is_leap y))) + d - 1) mod 7"
proof -
  have "m = 0 \<or> m = 1 \<or> m = 2 \<or> m = 3 \<or> m = 4 \<or> m = 5 \<or> m = 6 \<or> m = 7 \<or> m = 8 \<or> m = 9 \<or> m = 10 \<or> m = 11"
    using assms(2,3) by presburger
  then have m: "m \<in> {0, 1, 2, 3, 4, 5, 6, 7, 8, 9, 10, 11}" by simp
  obtain q where q: "year_term y = year_term (y - 1) + (if is_leap y then 2 else 1) + 7 * q"
    using year_term_prev [OF assms(1)] .
  have first: "day_of_week y 1 1 = (43 + year_term (y - 1)) mod 7"
    using day_of_week_pos [of y 1 1] assms(1) by simp
  have "day_of_week y (m + 1) d = (43 + year_term (y - 1) + sum_list (take (nat m) (mdays (is_leap y))) + d - 1) mod 7"
    unfolding month_sum [OF m, of d "year_term (y - 1)" "is_leap y" q, symmetric]
    using day_of_week_pos [of y "m + 1" d] assms q by (simp add: ac_simps)
  also have "\<dots> = (day_of_week y 1 1 + sum_list (take (nat m) (mdays (is_leap y))) + d - 1) mod 7"
    unfolding first
    using mod_add_left_eq [of "43 + year_term (y - 1)" 7 "sum_list (take (nat m) (mdays (is_leap y))) + d - 1"]
    by (simp add: algebra_simps)
  finally show ?thesis .
qed

lemma mk_years_snoc: "a \<le> b \<Longrightarrow> mk_years t a (b + 1) = mk_years t a b + year_len b"
proof (induction t a b rule: mk_years.induct)
  case (1 t a b)
  show ?case
  proof (cases "a < b")
    case True
    with 1 show ?thesis by (simp add: mk_years.simps [of t a "b + 1"] mk_years.simps [of t a b])
  next
    case False
    with 1(2) have "a = b" by simp
    then show ?thesis by (simp add: mk_years.simps [of t b "b + 1"] mk_years_same)
  qed
qed

lemma new_year: "1970 \<le> y \<Longrightarrow> day_of_week y 1 1 = (mk_years 0 1970 y + 4) mod 7"
proof (induction y rule: int_ge_induct)
  case base
  show ?case by (simp add: mk_years_same day_of_week_pos year_term_def)
next
  case (step y)
  have "day_of_week (y + 1) 1 1 = (43 + year_term y) mod 7"
    using day_of_week_pos [of "y + 1" 1 1] step(1) by simp
  also have "\<dots> = (43 + year_term (y - 1) + year_len y) mod 7"
  proof -
    obtain q where "year_term y = year_term (y - 1) + (if is_leap y then 2 else 1) + 7 * q"
      using year_term_prev [of y] step(1) by auto
    then show ?thesis by (intro mod_7I) (cases "is_leap y"; simp add: year_len_def; presburger)
  qed
  also have "\<dots> = (day_of_week y 1 1 + year_len y) mod 7"
    using day_of_week_pos [of y 1 1] step(1) by (simp add: mod_add_left_eq)
  also have "\<dots> = ((mk_years 0 1970 y + 4) + year_len y) mod 7"
    unfolding step(2) by (simp add: mod_add_left_eq)
  also have "\<dots> = (mk_years 0 1970 (y + 1) + 4) mod 7"
    unfolding mk_years_snoc [OF step(1)] by (simp add: ac_simps)
  finally show ?case .
qed

text \<open>
  The day of the week: \<^verbatim>\<open>tm_wday\<close> counts the days since 1970-01-01, a Thursday, modulo
  seven, for every time from 1970 on.
\<close>

lemma gmtime_weekday:
  assumes "0 \<le> t" and "t < 2 ^ 31 * 86400"
  shows "tm_wday (gmtime t) = (t div 86400 + 4) mod 7"
proof -
  note f = gmtime_fields [OF assms]
  let ?y = "tm_year (gmtime t) + 1900"
  have r: "1970 \<le> ?y" "0 \<le> tm_mon (gmtime t)" "tm_mon (gmtime t) < 12" "1 \<le> tm_mday (gmtime t)"
    using f(4) by (simp_all add: tm_date_def)
  let ?s = "sum_list (take (nat (tm_mon (gmtime t))) (mdays (is_leap ?y)))"
  have "tm_wday (gmtime t) = (day_of_week ?y 1 1 + (?s + tm_mday (gmtime t) - 1)) mod 7"
    unfolding f(5) using month_term [OF _ r(2-4), of ?y] r(1) by (simp add: algebra_simps)
  also have "\<dots> = ((mk_years 0 1970 ?y + 4) + (?s + tm_mday (gmtime t) - 1)) mod 7"
    unfolding new_year [OF r(1)] by (rule mod_add_left_eq)
  also have "\<dots> = (t div 86400 + 4) mod 7"
    using f(4) by (intro arg_cong [where f = "\<lambda>x. x mod 7"]) (simp add: tm_date_def)
  finally show ?thesis .
qed

text \<open>
  The day of the year: \<^verbatim>\<open>tm_yday\<close> counts from one, while its users, \<^verbatim>\<open>strftime\<close>
  of the same file among them, take it to count from zero as the C standard has it.
\<close>

lemma gmtime_yday:
  assumes "0 \<le> t" "t < 2 ^ 31 * 86400"
  shows "tm_yday (gmtime t) = t div 86400 - mk_years 0 1970 (tm_year (gmtime t) + 1900) + 1"
    and "tm_yday (gmtime t) \<in> {1..year_len (tm_year (gmtime t) + 1900)}"
proof -
  note f = gmtime_fields(4,6) [OF assms]
  let ?ms = "mdays (is_leap (tm_year (gmtime t) + 1900))" and ?m = "nat (tm_mon (gmtime t))"
  show "tm_yday (gmtime t) = t div 86400 - mk_years 0 1970 (tm_year (gmtime t) + 1900) + 1"
    using f by (simp add: tm_date_def day_of_year_def)
  have m: "?m < length ?ms" using f(1) by (auto simp: tm_date_def sum_mdays)
  have nn: "0 \<le> x" if "x \<in> set ?ms" for x using that by (auto simp: mdays_def split: if_splits)
  have "sum_list ?ms = sum_list (take ?m ?ms) + ?ms ! ?m + sum_list (drop (Suc ?m) ?ms)"
    using arg_cong [OF id_take_nth_drop [OF m], of sum_list] by simp
  moreover have "0 \<le> sum_list (drop (Suc ?m) ?ms)" "0 \<le> sum_list (take ?m ?ms)"
    using nn by (auto intro!: sum_list_nonneg dest: in_set_dropD in_set_takeD)
  ultimately show "tm_yday (gmtime t) \<in> {1..year_len (tm_year (gmtime t) + 1900)}"
    using f by (simp add: tm_date_def day_of_year_def sum_mdays)
qed

text \<open>
  C33. Calendar round trip: for every time from 1970 on whose number of days fits an \<^verbatim>\<open>int\<close> (\<open>0 \<le> t < 2 ^ 31 * 86400\<close>), \<^verbatim>\<open>mktime\<close> turns the
  fields \<^verbatim>\<open>gmtime\<close> gives back into the same time. Seconds, minutes, hours, month and day of the month are in their ranges, the
  day of the week counts on from 1970-01-01, a Thursday, and the day of the year is the number of
  days since the first of January plus one, so that it lies between 1 and the length of the year and not, as \<^verbatim>\<open>time.h\<close> says, between 0 and 365.
\<close>

theorem mktime_gmtime:
  assumes "0 \<le> t" and "t < 2 ^ 31 * 86400"
  shows "mktime (gmtime t) = Some t \<and> tm_sec (gmtime t) \<in> {0..<60} \<and> tm_min (gmtime t) \<in> {0..<60}
    \<and> tm_hour (gmtime t) \<in> {0..<24} \<and> tm_mon (gmtime t) \<in> {0..<12}
    \<and> tm_mday (gmtime t) \<in> {1..mdays (is_leap (tm_year (gmtime t) + 1900)) ! nat (tm_mon (gmtime t))}
    \<and> tm_wday (gmtime t) = (t div 86400 + 4) mod 7
    \<and> tm_yday (gmtime t) = t div 86400 - mk_years 0 1970 (tm_year (gmtime t) + 1900) + 1
    \<and> tm_yday (gmtime t) \<in> {1..year_len (tm_year (gmtime t) + 1900)}"
proof (intro conjI)
  show "tm_sec (gmtime t) \<in> {0..<60}" "tm_min (gmtime t) \<in> {0..<60}" "tm_hour (gmtime t) \<in> {0..<24}"
    by (simp_all add: gmtime_fields(1-3) [OF assms])
  show "tm_mon (gmtime t) \<in> {0..<12}"
    "tm_mday (gmtime t) \<in> {1..mdays (is_leap (tm_year (gmtime t) + 1900)) ! nat (tm_mon (gmtime t))}"
    using gmtime_fields(4) [OF assms] by (simp_all add: tm_date_def)
qed (fact mktime_gmtime_id [OF assms] gmtime_weekday [OF assms] gmtime_yday [OF assms])+

theorem mktime_gmtime_witness: "mktime (gmtime 951782400) = Some 951782400 \<and> tm_mon (gmtime 951782400) \<in> {0..<12} \<and> tm_wday (gmtime 951782400) = 2"
proof -
  have t: "(0 :: int) \<le> 951782400" "(951782400 :: int) < 2 ^ 31 * 86400" and w: "(951782400 div 86400 + 4) mod 7 = (2 :: int)" by simp_all
  show ?thesis using mktime_gmtime [OF t] unfolding w by (elim conjE) (intro conjI, assumption+)
qed

end
