(* ===== verification/Libc_Sort.thy ===== *)
theory Libc_Sort
  imports Onyx_Prelude "HOL-Library.Multiset"
begin

text \<open>
  Sorting and searching in the C library, \<^verbatim>\<open>qsort\<close> and \<^verbatim>\<open>bsearch\<close> of \<^verbatim>\<open>libonyxc/src/io/stdlib.c\<close>. The array
  is the list of its elements and a pointer into it is the index of an element, so that
  \<^verbatim>\<open>p + sz\<close> is \<open>p + 1\<close>; \<^verbatim>\<open>swap_bytes\<close>, which exchanges two elements byte by byte, is modelled on
  bytes and shown to exchange them. The comparison is an arbitrary function. The range stack
  of the code has 64 slots; since the larger part is pushed and the smaller one continued
  with, it never holds more ranges than the length has binary digits.
\<close>

subsection \<open>Exchanging elements\<close>

text \<open>\<^verbatim>\<open>memcpy\<close> between disjoint parts of memory, and the chunk loop.\<close>

definition blit :: "u8 list \<Rightarrow> nat \<Rightarrow> u8 list \<Rightarrow> u8 list" where
  "blit mem a bs = take a mem @ bs @ drop (a + length bs) mem"

function swap_bytes :: "u8 list \<Rightarrow> nat \<Rightarrow> nat \<Rightarrow> nat \<Rightarrow> u8 list" where
  "swap_bytes mem a b sz =
     (if sz = 0 then mem
      else let chunk = min sz 64;
               tmp = take chunk (drop a mem);
               mem = blit mem a (take chunk (drop b mem));
               mem = blit mem b tmp
           in swap_bytes mem (a + chunk) (b + chunk) (sz - chunk))"
  by pat_completeness auto

termination by (relation "measure (\<lambda>(mem, a, b, sz). sz)") auto

declare swap_bytes.simps [simp del]

definition swap :: "'a list \<Rightarrow> int \<Rightarrow> int \<Rightarrow> 'a list" where
  "swap xs i j = xs[nat i := xs ! nat j, nat j := xs ! nat i]"

lemma blit_length [simp]: "a + length bs \<le> length mem \<Longrightarrow> length (blit mem a bs) = length mem"
  by (simp add: blit_def)

lemma blit_nth:
  "a + length bs \<le> length mem \<Longrightarrow> k < length mem \<Longrightarrow>
   blit mem a bs ! k = (if a \<le> k \<and> k < a + length bs then bs ! (k - a) else mem ! k)"
  by (auto simp: blit_def nth_append)

definition exchanged :: "u8 list \<Rightarrow> nat \<Rightarrow> nat \<Rightarrow> nat \<Rightarrow> nat \<Rightarrow> u8" where
  "exchanged mem a b sz k =
     mem ! (if a \<le> k \<and> k < a + sz then k - a + b else if b \<le> k \<and> k < b + sz then k - b + a else k)"

lemma swap_chunk:
  assumes "a + c \<le> b" "b + c \<le> length mem"
  shows "length (blit (blit mem a (take c (drop b mem))) b (take c (drop a mem))) = length mem"
    and "k < length mem \<Longrightarrow> blit (blit mem a (take c (drop b mem))) b (take c (drop a mem)) ! k = exchanged mem a b c k"
proof -
  have l: "length (take c (drop b mem)) = c" "length (take c (drop a mem)) = c"
    using assms by auto
  have m: "length (blit mem a (take c (drop b mem))) = length mem" using assms l by simp
  then show "length (blit (blit mem a (take c (drop b mem))) b (take c (drop a mem))) = length mem"
    using assms l by simp
  assume "k < length mem"
  then show "blit (blit mem a (take c (drop b mem))) b (take c (drop a mem)) ! k = exchanged mem a b c k"
    using assms l m by (auto simp: blit_nth exchanged_def add.commute)
qed

lemma swap_bytes_nth:
  assumes "a + sz \<le> b" "b + sz \<le> length mem"
  shows "length (swap_bytes mem a b sz) = length mem \<and>
    (\<forall>k < length mem. swap_bytes mem a b sz ! k = exchanged mem a b sz k)"
  using assms
proof (induction mem a b sz rule: swap_bytes.induct)
  case (1 mem a b sz)
  define c where "c = min sz 64"
  define mem' where "mem' = blit (blit mem a (take c (drop b mem))) b (take c (drop a mem))"
  have c: "c \<le> sz" "sz \<noteq> 0 \<Longrightarrow> 0 < c" by (auto simp: c_def)
  have m: "length mem' = length mem" "\<And>k. k < length mem \<Longrightarrow> mem' ! k = exchanged mem a b c k"
    using swap_chunk [of a c b mem] 1(2,3) c(1) by (simp_all add: mem'_def)
  show ?case
  proof (cases "sz = 0")
    case True
    then show ?thesis by (auto simp: swap_bytes.simps exchanged_def)
  next
    case False
    have e: "swap_bytes mem a b sz = swap_bytes mem' (a + c) (b + c) (sz - c)"
      using False by (simp add: swap_bytes.simps [of mem] c_def [symmetric] mem'_def Let_def)
    have ih: "length (swap_bytes mem' (a + c) (b + c) (sz - c)) = length mem' \<and>
        (\<forall>k < length mem'. swap_bytes mem' (a + c) (b + c) (sz - c) ! k = exchanged mem' (a + c) (b + c) (sz - c) k)"
      using 1(1) [OF False c_def refl refl refl] 1(2,3) c m(1) by (simp add: mem'_def [symmetric])
    have "exchanged mem' (a + c) (b + c) (sz - c) k = exchanged mem a b sz k" if "k < length mem" for k
      using that 1(2,3) c by (auto simp: exchanged_def m)
    then show ?thesis using ih m(1) e by simp
  qed
qed

lemma concat_nth_block:
  assumes "\<forall>x \<in> set xs. length x = sz" "i < length xs" "r < sz"
  shows "concat xs ! (i * sz + r) = xs ! i ! r"
  using assms by (induction xs arbitrary: i) (auto simp: nth_append less_Suc_eq_0_disj nth_Cons' algebra_simps)

lemma concat_length_blocks: "\<forall>x \<in> set xs. length x = sz \<Longrightarrow> length (concat xs) = length xs * sz"
  by (induction xs) simp_all

lemma block_index: "i < n \<Longrightarrow> r < sz \<Longrightarrow> i * sz + r < n * sz" for i n r sz :: nat
  by (metis add.commute add_less_le_mono less_le_trans mult_Suc mult_le_mono1 Suc_leI nat_add_left_cancel_less)

text \<open>On an array of elements of \<open>sz\<close> bytes, \<open>swap_bytes\<close> exchanges the elements.\<close>

lemma swap_bytes_swap:
  assumes sz: "\<forall>x \<in> set xs. length x = sz" and i: "i < j" and j: "j < length xs"
  shows "swap_bytes (concat xs) (i * sz) (j * sz) sz = concat (swap xs (int i) (int j))"
proof (rule nth_equalityI)
  have le: "i * sz + sz \<le> j * sz" using mult_le_mono1 [of "Suc i" j sz] i by simp
  have le': "j * sz + sz \<le> length (concat xs)"
    using mult_le_mono1 [of "Suc j" "length xs" sz] j concat_length_blocks [OF sz] by simp
  note sb = swap_bytes_nth [OF le le']
  have sz': "\<forall>x \<in> set (swap xs (int i) (int j)). length x = sz"
    using sz i j by (auto simp: swap_def in_set_conv_nth nth_list_update)
  have len: "length (concat (swap xs (int i) (int j))) = length (concat xs)"
    using concat_length_blocks [OF sz] concat_length_blocks [OF sz'] by (simp add: swap_def)
  then show "length (swap_bytes (concat xs) (i * sz) (j * sz) sz) = length (concat (swap xs (int i) (int j)))"
    using sb by simp
  fix k assume "k < length (swap_bytes (concat xs) (i * sz) (j * sz) sz)"
  then have k: "k < length xs * sz" using sb concat_length_blocks [OF sz] by simp
  define q r where "q = k div sz" and "r = k mod sz"
  have "sz \<noteq> 0" using k by (metis mult_0_right not_less_zero)
  then have qr: "k = q * sz + r" "r < sz" "q < length xs"
    using less_mult_imp_div_less [OF k] by (simp_all add: q_def r_def)
  have in_block: "(p * sz \<le> q * sz + r \<and> q * sz + r < p * sz + sz) = (q = p)" for p
    using qr(2) block_index [of q p r sz] block_index [of p q 0 sz] mult_le_mono1 [of "Suc p" q sz]
    by (cases q p rule: linorder_cases) auto
  have "swap_bytes (concat xs) (i * sz) (j * sz) sz ! k = exchanged (concat xs) (i * sz) (j * sz) sz k"
    using sb k concat_length_blocks [OF sz] by simp
  also have "\<dots> = xs ! (if q = i then j else if q = j then i else q) ! r"
    using concat_nth_block [OF sz j qr(2)] concat_nth_block [OF sz _ qr(2), of i] concat_nth_block [OF sz qr(3,2)] i j
    unfolding exchanged_def qr(1) in_block by (auto simp: add.commute)
  also have "\<dots> = swap xs (int i) (int j) ! q ! r" using qr(3) i j by (auto simp: swap_def nth_list_update)
  also have "\<dots> = concat (swap xs (int i) (int j)) ! k"
    using concat_nth_block [OF sz' _ qr(2), of q] qr(1,3) by (simp add: swap_def)
  finally show "swap_bytes (concat xs) (i * sz) (j * sz) sz ! k = concat (swap xs (int i) (int j)) ! k" .
qed

subsection \<open>Sorting\<close>

text \<open>The insertion sort of small ranges: moving element \<open>q\<close> down, and the loop over \<open>p\<close>.\<close>

function sift_down :: "('a \<Rightarrow> 'a \<Rightarrow> int) \<Rightarrow> int \<Rightarrow> int \<Rightarrow> 'a list \<Rightarrow> 'a list" where
  "sift_down cmp lo q xs =
     (if lo < q \<and> 0 < cmp (xs ! nat (q - 1)) (xs ! nat q) then sift_down cmp lo (q - 1) (swap xs (q - 1) q) else xs)"
  by pat_completeness auto

termination by (relation "measure (\<lambda>(cmp, lo, q, xs). nat (q - lo))") auto

function insertion :: "('a \<Rightarrow> 'a \<Rightarrow> int) \<Rightarrow> int \<Rightarrow> int \<Rightarrow> int \<Rightarrow> 'a list \<Rightarrow> 'a list" where
  "insertion cmp lo hi p xs = (if p \<le> hi then insertion cmp lo hi (p + 1) (sift_down cmp lo p xs) else xs)"
  by pat_completeness auto

termination by (relation "measure (\<lambda>(cmp, lo, hi, p, xs). nat (hi + 1 - p))") auto

declare sift_down.simps [simp del] insertion.simps [simp del]

text \<open>The two scans of a partition step.\<close>

function scan_up :: "('a \<Rightarrow> 'a \<Rightarrow> int) \<Rightarrow> 'a list \<Rightarrow> int \<Rightarrow> int \<Rightarrow> int \<Rightarrow> int" where
  "scan_up cmp xs pivot i j =
     (if i < j \<and> cmp (xs ! nat i) (xs ! nat pivot) < 0 then scan_up cmp xs pivot (i + 1) j else i)"
  by pat_completeness auto

termination by (relation "measure (\<lambda>(cmp, xs, pivot, i, j). nat (j - i))") auto

function scan_down :: "('a \<Rightarrow> 'a \<Rightarrow> int) \<Rightarrow> 'a list \<Rightarrow> int \<Rightarrow> int \<Rightarrow> int \<Rightarrow> int" where
  "scan_down cmp xs pivot i j =
     (if i < j \<and> 0 < cmp (xs ! nat j) (xs ! nat pivot) then scan_down cmp xs pivot i (j - 1) else j)"
  by pat_completeness auto

termination by (relation "measure (\<lambda>(cmp, xs, pivot, i, j). nat (j - i))") auto

declare scan_up.simps [simp del] scan_down.simps [simp del]

lemma scan_up_bounds: "i \<le> j \<Longrightarrow> i \<le> scan_up cmp xs pivot i j \<and> scan_up cmp xs pivot i j \<le> j"
proof (induction cmp xs pivot i j rule: scan_up.induct)
  case (1 cmp xs pivot i j)
  then show ?case
    by (cases "i < j \<and> cmp (xs ! nat i) (xs ! nat pivot) < 0") (auto simp: scan_up.simps [of cmp xs pivot i j])
qed

lemma scan_up_ge: "i \<le> scan_up cmp xs pivot i j"
proof (cases "i \<le> j")
  case False
  then show ?thesis by (simp add: scan_up.simps)
qed (simp add: scan_up_bounds)

lemma scan_down_bounds: "scan_down cmp xs pivot i j \<le> j \<and> (i \<le> j \<longrightarrow> i \<le> scan_down cmp xs pivot i j)"
proof (induction cmp xs pivot i j rule: scan_down.induct)
  case (1 cmp xs pivot i j)
  then show ?case
    by (cases "i < j \<and> 0 < cmp (xs ! nat j) (xs ! nat pivot)") (auto simp: scan_down.simps [of cmp xs pivot i j])
qed

text \<open>The partition loop; its result is \<open>j\<close> and the array.\<close>

function part :: "('a \<Rightarrow> 'a \<Rightarrow> int) \<Rightarrow> int \<Rightarrow> int \<Rightarrow> int \<Rightarrow> 'a list \<Rightarrow> int \<times> 'a list" where
  "part cmp pivot i j xs =
     (let i = scan_up cmp xs pivot i j; j = scan_down cmp xs pivot i j
      in if j \<le> i then (j, xs)
         else part cmp (if i = pivot then j else if j = pivot then i else pivot) (i + 1) (j - 1) (swap xs i j))"
  by pat_completeness auto

termination
proof (relation "measure (\<lambda>(cmp, pivot, i, j, xs). nat (j - i))")
  fix cmp pivot i j x xa and xs :: "'a list"
  assume "x = scan_up cmp xs pivot i j" "xa = scan_down cmp xs pivot x j" "\<not> xa \<le> x"
  then show "((cmp, if x = pivot then xa else if xa = pivot then x else pivot, x + 1, xa - 1, swap xs x xa), cmp, pivot, i, j, xs)
      \<in> measure (\<lambda>(cmp, pivot, i, j, xs). nat (j - i))"
    using scan_up_ge [of i cmp xs pivot j] scan_down_bounds [of cmp xs pivot x j] by simp
qed simp

declare part.simps [simp del]

definition order3 :: "('a \<Rightarrow> 'a \<Rightarrow> int) \<Rightarrow> int \<Rightarrow> int \<Rightarrow> int \<Rightarrow> 'a list \<Rightarrow> 'a list" where
  "order3 cmp lo mid hi xs =
     (let xs = (if 0 < cmp (xs ! nat lo) (xs ! nat mid) then swap xs lo mid else xs);
          xs = (if 0 < cmp (xs ! nat lo) (xs ! nat hi) then swap xs lo hi else xs)
      in if 0 < cmp (xs ! nat mid) (xs ! nat hi) then swap xs mid hi else xs)"

lemma part_bounds:
  "i \<le> j + 1 \<Longrightarrow> fst (part cmp pivot i j xs) \<le> j \<and> i - 1 \<le> fst (part cmp pivot i j xs)
     \<and> (i \<le> j \<longrightarrow> i \<le> fst (part cmp pivot i j xs))"
proof (induction cmp pivot i j xs rule: part.induct)
  case (1 cmp pivot i j xs)
  let ?i = "scan_up cmp xs pivot i j"
  let ?j = "scan_down cmp xs pivot ?i j"
  have b: "i \<le> ?i" "?j \<le> j" by (simp_all add: scan_up_ge scan_down_bounds)
  show ?case
  proof (cases "?j \<le> ?i")
    case True
    have "i - 1 \<le> ?j \<and> (i \<le> j \<longrightarrow> i \<le> ?j)"
    proof (cases "i \<le> j")
      case True
      then have "?i \<le> j" by (simp add: scan_up_bounds)
      then show ?thesis using scan_down_bounds [of cmp xs pivot ?i j] b(1) by auto
    next
      case False
      then have "?i = i" by (simp add: scan_up.simps)
      then show ?thesis using False 1(2) by (simp add: scan_down.simps)
    qed
    with True b show ?thesis by (simp add: part.simps [of cmp pivot i j xs] Let_def)
  next
    case False
    with 1(1) [OF refl refl False] b show ?thesis
      by (auto simp: part.simps [of cmp pivot i j xs] Let_def)
  qed
qed

text \<open>The range loop with its stack; the current range is the head of the list.\<close>

definition weight :: "(int \<times> int) list \<Rightarrow> nat" where
  "weight rs = sum_list (map (\<lambda>(lo, hi). nat (2 * (hi - lo) + 1)) rs)"

function qsort_loop :: "('a \<Rightarrow> 'a \<Rightarrow> int) \<Rightarrow> (int \<times> int) list \<Rightarrow> 'a list \<Rightarrow> 'a list" where
  "qsort_loop cmp [] xs = xs"
| "qsort_loop cmp ((lo, hi) # rs) xs =
     (if \<not> lo < hi then qsort_loop cmp rs xs
      else if hi - lo < 8 then qsort_loop cmp rs (insertion cmp lo hi (lo + 1) xs)
      else let mid = lo + (hi - lo) div 2;
               (j, xs) = part cmp mid lo hi (order3 cmp lo mid hi xs)
           in if j - lo < hi - j
              then qsort_loop cmp ((lo, j) # (if j + 1 < hi then (j + 1, hi) # rs else rs)) xs
              else qsort_loop cmp ((j + 1, hi) # (if lo < j - 1 then (lo, j - 1) # rs else rs)) xs)"
  by pat_completeness auto

termination
proof (relation "measures [\<lambda>(cmp, rs, xs). weight rs, \<lambda>(cmp, rs, xs). length rs]", goal_cases)
  case (4 cmp lo hi rs xs mid x j xs')
  then have "j \<le> hi" "lo \<le> j"
    using part_bounds [of lo hi cmp mid "order3 cmp lo mid hi xs"] by (auto dest: arg_cong [where f = fst])
  with 4 show ?case by (auto simp: weight_def)
next
  case (5 cmp lo hi rs xs mid x j xs')
  then have "j \<le> hi" "lo \<le> j"
    using part_bounds [of lo hi cmp mid "order3 cmp lo mid hi xs"] by (auto dest: arg_cong [where f = fst])
  with 5 show ?case by (auto simp: weight_def)
qed (auto simp: weight_def)

definition qsort :: "('a \<Rightarrow> 'a \<Rightarrow> int) \<Rightarrow> 'a list \<Rightarrow> 'a list" where
  "qsort cmp xs = (if length xs < 2 then xs else qsort_loop cmp [(0, int (length xs) - 1)] xs)"

subsection \<open>Searching\<close>

function bsearch_loop :: "('k \<Rightarrow> 'a \<Rightarrow> int) \<Rightarrow> 'k \<Rightarrow> 'a list \<Rightarrow> nat \<Rightarrow> nat \<Rightarrow> nat option" where
  "bsearch_loop cmp key xs lo hi =
     (if lo < hi
      then let mid = lo + (hi - lo) div 2; c = cmp key (xs ! mid)
           in if c = 0 then Some mid
              else if c < 0 then bsearch_loop cmp key xs lo mid
              else bsearch_loop cmp key xs (mid + 1) hi
      else None)"
  by pat_completeness auto

termination by (relation "measure (\<lambda>(cmp, key, xs, lo, hi). hi - lo)") auto

declare bsearch_loop.simps [simp del]

definition bsearch :: "('k \<Rightarrow> 'a \<Rightarrow> int) \<Rightarrow> 'k \<Rightarrow> 'a list \<Rightarrow> nat option" where
  "bsearch cmp key xs = (if xs = [] then None else bsearch_loop cmp key xs 0 (length xs))"

subsection \<open>Sorting permutes\<close>

lemma length_swap [simp]: "length (swap xs i j) = length xs"
  by (simp add: swap_def)

lemma mset_swap_idx: "0 \<le> i \<Longrightarrow> 0 \<le> j \<Longrightarrow> i < int (length xs) \<Longrightarrow> j < int (length xs) \<Longrightarrow> mset (swap xs i j) = mset xs"
  by (simp add: swap_def mset_swap nat_less_iff)

text \<open>What every phase promises for a range of the array.\<close>

definition permutes :: "'a list \<Rightarrow> 'a list \<Rightarrow> bool" where
  "permutes xs ys \<longleftrightarrow> length ys = length xs \<and> mset ys = mset xs"

lemma permutes_trans: "permutes xs ys \<Longrightarrow> permutes ys zs \<Longrightarrow> permutes xs zs"
  by (simp add: permutes_def)

lemma permutes_refl [simp]: "permutes xs xs"
  by (simp add: permutes_def)

lemma permutes_swap: "0 \<le> i \<Longrightarrow> 0 \<le> j \<Longrightarrow> i < int (length xs) \<Longrightarrow> j < int (length xs) \<Longrightarrow> permutes xs (swap xs i j)"
  by (simp add: permutes_def mset_swap_idx)

lemma sift_down_permutes: "0 \<le> lo \<Longrightarrow> q < int (length xs) \<Longrightarrow> permutes xs (sift_down cmp lo q xs)"
proof (induction cmp lo q xs rule: sift_down.induct)
  case (1 cmp lo q xs)
  show ?case
  proof (cases "lo < q \<and> 0 < cmp (xs ! nat (q - 1)) (xs ! nat q)")
    case True
    with 1 have "permutes (swap xs (q - 1) q) (sift_down cmp lo (q - 1) (swap xs (q - 1) q))" by simp
    moreover have "permutes xs (swap xs (q - 1) q)" using True 1(2,3) by (intro permutes_swap) auto
    ultimately show ?thesis using True by (simp add: sift_down.simps [of cmp lo q xs] permutes_trans)
  qed (auto simp: sift_down.simps [of cmp lo q xs])
qed

lemma insertion_permutes: "0 \<le> lo \<Longrightarrow> hi < int (length xs) \<Longrightarrow> permutes xs (insertion cmp lo hi p xs)"
proof (induction cmp lo hi p xs rule: insertion.induct)
  case (1 cmp lo hi p xs)
  show ?case
  proof (cases "p \<le> hi")
    case True
    have s: "permutes xs (sift_down cmp lo p xs)" using 1(2,3) True by (intro sift_down_permutes) auto
    with 1 True have "permutes (sift_down cmp lo p xs) (insertion cmp lo hi (p + 1) (sift_down cmp lo p xs))"
      by (simp add: permutes_def)
    with s True show ?thesis by (simp add: insertion.simps [of cmp lo hi p xs] permutes_trans)
  qed (simp add: insertion.simps)
qed

lemma order3_permutes:
  assumes "0 \<le> lo" "lo \<le> mid" "mid \<le> hi" "hi < int (length xs)"
  shows "permutes xs (order3 cmp lo mid hi xs)"
proof -
  have s: "permutes ys (if b then swap ys i j else ys)" if "i \<in> {lo, mid, hi}" "j \<in> {lo, mid, hi}" "length ys = length xs"
    for b i j and ys :: "'a list"
    using that assms by (auto intro!: permutes_swap)
  show ?thesis
    unfolding order3_def Let_def
    by (intro permutes_trans [OF s permutes_trans [OF s s]]) auto
qed

lemma part_permutes: "0 \<le> i \<Longrightarrow> j < int (length xs) \<Longrightarrow> permutes xs (snd (part cmp pivot i j xs))"
proof (induction cmp pivot i j xs rule: part.induct)
  case (1 cmp pivot i j xs)
  let ?i = "scan_up cmp xs pivot i j"
  let ?j = "scan_down cmp xs pivot ?i j"
  have b: "i \<le> ?i" "?j \<le> j" by (simp_all add: scan_up_ge scan_down_bounds)
  show ?case
  proof (cases "?j \<le> ?i")
    case True
    then show ?thesis by (simp add: part.simps [of cmp pivot i j xs] Let_def)
  next
    case False
    have "permutes xs (swap xs ?i ?j)" using False b 1(2,3) by (intro permutes_swap) auto
    with 1(1) [OF refl refl False] b False 1(2,3) show ?thesis
      by (auto simp: part.simps [of cmp pivot i j xs] Let_def intro: permutes_trans)
  qed
qed

lemma qsort_loop_permutes:
  "\<forall>(lo, hi) \<in> set rs. 0 \<le> lo \<and> hi < int (length xs) \<Longrightarrow> permutes xs (qsort_loop cmp rs xs)"
proof (induction cmp rs xs rule: qsort_loop.induct)
  case (2 cmp lo hi rs xs)
  have r: "0 \<le> lo" "hi < int (length xs)" using 2(5) by auto
  let ?mid = "lo + (hi - lo) div 2"
  obtain j ys where p: "part cmp ?mid lo hi (order3 cmp lo ?mid hi xs) = (j, ys)" by fastforce
  consider "\<not> lo < hi" | "lo < hi" "hi - lo < 8" | "lo < hi" "\<not> hi - lo < 8" by blast
  then show ?case
  proof cases
    case 1
    with 2 show ?thesis by simp
  next
    case b: 2
    have "permutes xs (insertion cmp lo hi (lo + 1) xs)" using insertion_permutes [OF r] .
    with 2 b show ?thesis by (auto simp: permutes_def)
  next
    case c: 3
    have nn: "\<not> \<not> lo < hi" using c(1) by simp
    have o: "permutes xs (order3 cmp lo ?mid hi xs)" using r c by (intro order3_permutes) auto
    then have y: "permutes xs ys"
      using part_permutes [of lo hi "order3 cmp lo ?mid hi xs" cmp ?mid] p r
      by (auto simp: permutes_def)
    have j: "lo \<le> j" "j \<le> hi"
      using part_bounds [of lo hi cmp ?mid "order3 cmp lo ?mid hi xs"] p c by auto
    have "permutes ys (qsort_loop cmp ((lo, j) # (if j + 1 < hi then (j + 1, hi) # rs else rs)) ys)" if "j - lo < hi - j"
      using 2(3) [OF nn c(2) refl refl p [symmetric] that] 2(5) j y by (auto simp: permutes_def)
    moreover have "permutes ys (qsort_loop cmp ((j + 1, hi) # (if lo < j - 1 then (lo, j - 1) # rs else rs)) ys)" if "\<not> j - lo < hi - j"
      using 2(4) [OF nn c(2) refl refl p [symmetric] that] 2(5) j y by (auto simp: permutes_def)
    ultimately show ?thesis using c p y by (auto simp: Let_def intro: permutes_trans)
  qed
qed simp

text \<open>
  Sorting loses nothing: for every array and every comparison function, consistent or not,
  \<^verbatim>\<open>qsort\<close> ends and leaves a permutation of the array.
\<close>

theorem qsort_permutes: "length (qsort cmp xs) = length xs \<and> mset (qsort cmp xs) = mset xs"
  using qsort_loop_permutes [of "[(0, int (length xs) - 1)]" xs cmp] by (simp add: qsort_def permutes_def del: qsort_loop.simps)

lemma qsort_permutes_length: "length (qsort cmp xs) = length xs"
  using qsort_loop_permutes [of "[(0, int (length xs) - 1)]" xs cmp] by (simp add: qsort_def permutes_def del: qsort_loop.simps)

subsection \<open>Small arrays are sorted\<close>

definition consistent :: "('a \<Rightarrow> 'a \<Rightarrow> int) \<Rightarrow> bool" where
  "consistent cmp \<longleftrightarrow> (\<forall>x y. 0 < cmp x y \<longrightarrow> cmp y x \<le> 0)
     \<and> (\<forall>x y z. cmp x y \<le> 0 \<longrightarrow> cmp y z \<le> 0 \<longrightarrow> cmp x z \<le> 0)"

definition sorted_upto :: "('a \<Rightarrow> 'a \<Rightarrow> int) \<Rightarrow> 'a list \<Rightarrow> nat \<Rightarrow> bool" where
  "sorted_upto cmp xs n \<longleftrightarrow> (\<forall>i j. i < j \<and> j < n \<longrightarrow> cmp (xs ! i) (xs ! j) \<le> 0)"

text \<open>While element \<open>q\<close> moves down, the others are sorted and those above it are not below it.\<close>

definition sifting :: "('a \<Rightarrow> 'a \<Rightarrow> int) \<Rightarrow> 'a list \<Rightarrow> nat \<Rightarrow> nat \<Rightarrow> bool" where
  "sifting cmp xs q n \<longleftrightarrow> q < n \<and> n \<le> length xs
     \<and> (\<forall>i j. i < j \<and> j < n \<and> i \<noteq> q \<and> j \<noteq> q \<longrightarrow> cmp (xs ! i) (xs ! j) \<le> 0)
     \<and> (\<forall>j. q < j \<and> j < n \<longrightarrow> cmp (xs ! q) (xs ! j) \<le> 0)"

lemma sifting_step:
  assumes "consistent cmp" "sifting cmp xs (Suc q) n" "0 < cmp (xs ! q) (xs ! Suc q)"
  shows "sifting cmp (xs[q := xs ! Suc q, Suc q := xs ! q]) q n"
proof -
  have le: "cmp (xs ! Suc q) (xs ! q) \<le> 0" using assms(1,3) by (auto simp: consistent_def)
  show ?thesis
    using assms(2) le unfolding sifting_def
    by (auto simp: nth_list_update)
qed

lemma sifting_stop:
  assumes "consistent cmp" "sifting cmp xs q n" "q = 0 \<or> cmp (xs ! (q - 1)) (xs ! q) \<le> 0"
  shows "sorted_upto cmp xs n"
proof -
  have below: "cmp (xs ! i) (xs ! q) \<le> 0" if "i < q" for i
  proof (cases "i = q - 1")
    case False
    with that have "i < q - 1" "q - 1 \<noteq> q" by simp_all
    moreover have "i < q - 1 \<and> q - 1 < n \<and> i \<noteq> q \<and> q - 1 \<noteq> q \<longrightarrow> cmp (xs ! i) (xs ! (q - 1)) \<le> 0" "q < n"
      using assms(2) unfolding sifting_def by blast+
    ultimately have "cmp (xs ! i) (xs ! (q - 1)) \<le> 0" using that by simp
    moreover have "cmp (xs ! (q - 1)) (xs ! q) \<le> 0" using that assms(3) by auto
    ultimately show ?thesis using assms(1) unfolding consistent_def by blast
  qed (use that assms(3) in auto)
  show ?thesis
    unfolding sorted_upto_def
  proof (intro allI impI)
    fix i j
    assume "i < j \<and> j < n"
    then show "cmp (xs ! i) (xs ! j) \<le> 0"
      using assms(2) below by (cases "i = q"; cases "j = q") (auto simp: sifting_def)
  qed
qed

lemma sift_down_sorts:
  assumes "consistent cmp" "sifting cmp xs q n"
  shows "sorted_upto cmp (sift_down cmp 0 (int q) xs) n"
  using assms(2)
proof (induction q arbitrary: xs)
  case 0
  then show ?case using sifting_stop [OF assms(1)] by (simp add: sift_down.simps [of cmp 0 0])
next
  case (Suc q)
  show ?case
  proof (cases "0 < cmp (xs ! q) (xs ! Suc q)")
    case True
    have "sift_down cmp 0 (int (Suc q)) xs = sift_down cmp 0 (int q) (swap xs (int q) (int (Suc q)))"
      using True by (subst sift_down.simps) (simp add: nat_add_distrib)
    moreover have "swap xs (int q) (int (Suc q)) = xs[q := xs ! Suc q, Suc q := xs ! q]"
      by (simp add: swap_def nat_add_distrib)
    ultimately show ?thesis using Suc.IH [OF sifting_step [OF assms(1) Suc.prems True]] by simp
  next
    case False
    then have "sift_down cmp 0 (int (Suc q)) xs = xs"
      by (subst sift_down.simps) (simp add: nat_add_distrib)
    then show ?thesis using sifting_stop [OF assms(1) Suc.prems] False by simp
  qed
qed

lemma insertion_sorts:
  assumes "consistent cmp"
  shows "sorted_upto cmp xs p \<Longrightarrow> n = length xs \<Longrightarrow> p \<le> n \<Longrightarrow>
    sorted_upto cmp (insertion cmp 0 (int n - 1) (int p) xs) n"
proof (induction "n - p" arbitrary: p xs)
  case 0
  then have "p = n" by simp
  then have "insertion cmp 0 (int n - 1) (int p) xs = xs" by (subst insertion.simps) simp
  with 0 \<open>p = n\<close> show ?case by simp
next
  case (Suc k)
  then have p: "p < n" "p < length xs" by simp_all
  have "sifting cmp xs p (Suc p)"
    unfolding sifting_def using Suc.prems(1) p(2) unfolding sorted_upto_def by (auto simp: less_Suc_eq)
  from sift_down_sorts [OF assms this] have s: "sorted_upto cmp (sift_down cmp 0 (int p) xs) (Suc p)" .
  have l: "length (sift_down cmp 0 (int p) xs) = n"
    using sift_down_permutes [of 0 "int p" xs cmp] Suc.prems(2) p by (simp add: permutes_def)
  have "insertion cmp 0 (int n - 1) (int p) xs = insertion cmp 0 (int n - 1) (int (Suc p)) (sift_down cmp 0 (int p) xs)"
    using p(1) by (subst insertion.simps) (simp add: add.commute)
  moreover have "sorted_upto cmp (insertion cmp 0 (int n - 1) (int (Suc p)) (sift_down cmp 0 (int p) xs)) n"
    using Suc.hyps(2) p(1) by (intro Suc.hyps(1) s) (simp_all add: l)
  ultimately show ?case by (simp only:)
qed

text \<open>
  Arrays of up to eight elements are sorted: with a comparison that is total and transitive,
  the result of \<^verbatim>\<open>qsort\<close> is ordered.
\<close>

theorem qsort_sorts_small:
  assumes "consistent cmp" and "length xs \<le> 8"
  shows "sorted_wrt (\<lambda>x y. cmp x y \<le> 0) (qsort cmp xs)"
proof (cases "length xs < 2")
  case True
  then have "length xs = 0 \<or> length xs = 1" by linarith
  then show ?thesis using True by (auto simp: qsort_def length_Suc_conv)
next
  case False
  have "qsort cmp xs = insertion cmp 0 (int (length xs) - 1) (int 1) xs"
    using False assms(2) by (simp add: qsort_def)
  moreover have "sorted_upto cmp xs 1" by (simp add: sorted_upto_def)
  ultimately have "sorted_upto cmp (qsort cmp xs) (length xs)"
    using insertion_sorts [OF assms(1), of xs 1 "length xs"] False by simp
  then show ?thesis
    by (simp add: sorted_upto_def sorted_wrt_iff_nth_less qsort_permutes_length)
qed

text \<open>The comparison of integers that callers pass.\<close>

definition int_cmp :: "int \<Rightarrow> int \<Rightarrow> int" where
  "int_cmp a b = (if a < b then - 1 else if b < a then 1 else 0)"

lemma int_cmp_consistent: "consistent int_cmp"
  by (auto simp: consistent_def int_cmp_def split: if_splits)

theorem qsort_sorts_small_witness: "sorted_wrt (\<lambda>x y. int_cmp x y \<le> 0) (qsort int_cmp [3, 1, 2, 5, 4])"
  using qsort_sorts_small [OF int_cmp_consistent, of "[3, 1, 2, 5, 4]"] by simp

text \<open>
  Longer arrays are not sorted: nine integers that \<^verbatim>\<open>qsort\<close> leaves out of order. When the two
  scans meet, the element between them has not been compared with the pivot, and the range
  that is split off is never looked at again.
\<close>

theorem qsort_misorders:
  "qsort int_cmp [0, 0, 0, 0, 1, 4, 5, 0, 3] = [0, 0, 0, 0, 0, 4, 1, 3, 5]
   \<and> \<not> sorted_wrt (\<lambda>x y. int_cmp x y \<le> 0) (qsort int_cmp [0, 0, 0, 0, 1, 4, 5, 0, 3])"
  by code_simp

subsection \<open>Searching finds\<close>

text \<open>The array is ordered as the search assumes it: the sign of the comparison never rises.\<close>

definition searchable :: "('k \<Rightarrow> 'a \<Rightarrow> int) \<Rightarrow> 'k \<Rightarrow> 'a list \<Rightarrow> bool" where
  "searchable cmp key xs \<longleftrightarrow> (\<forall>i j. i < j \<and> j < length xs \<longrightarrow> sgn (cmp key (xs ! j)) \<le> sgn (cmp key (xs ! i)))"

lemma searchableD:
  "searchable cmp key xs \<Longrightarrow> i < j \<Longrightarrow> j < length xs \<Longrightarrow> sgn (cmp key (xs ! j)) \<le> sgn (cmp key (xs ! i))"
  by (simp add: searchable_def)

lemma bsearch_loop_spec:
  "searchable cmp key xs \<Longrightarrow> hi \<le> length xs \<Longrightarrow>
     \<forall>i < length xs. cmp key (xs ! i) = 0 \<longrightarrow> lo \<le> i \<and> i < hi \<Longrightarrow>
     (case bsearch_loop cmp key xs lo hi of
        Some i \<Rightarrow> i < length xs \<and> cmp key (xs ! i) = 0
      | None \<Rightarrow> \<forall>i < length xs. cmp key (xs ! i) \<noteq> 0)"
proof (induction cmp key xs lo hi rule: bsearch_loop.induct)
  case (1 cmp key xs lo hi)
  show ?case
  proof (cases "lo < hi")
    case False
    then show ?thesis using 1(5) by (auto simp: bsearch_loop.simps [of cmp key xs lo hi])
  next
    case True
    let ?mid = "lo + (hi - lo) div 2"
    have mid: "lo \<le> ?mid" "?mid < hi" using True by simp_all
    let ?c = "cmp key (xs ! ?mid)"
    have left: "\<forall>i < length xs. cmp key (xs ! i) = 0 \<longrightarrow> i < ?mid" if "?c < 0"
    proof (intro allI impI, rule ccontr)
      fix i
      assume i: "i < length xs" "cmp key (xs ! i) = 0" "\<not> i < ?mid"
      then have "?mid < i \<or> ?mid = i" by linarith
      with searchableD [OF 1(3), of ?mid i] i that show False by (auto simp: sgn_if)
    qed
    have right: "\<forall>i < length xs. cmp key (xs ! i) = 0 \<longrightarrow> ?mid < i" if "0 < ?c"
    proof (intro allI impI, rule ccontr)
      fix i
      assume i: "i < length xs" "cmp key (xs ! i) = 0" "\<not> ?mid < i"
      then have "i < ?mid \<or> ?mid = i" by linarith
      with searchableD [OF 1(3), of i ?mid] 1(4) mid i that show False by (auto simp: sgn_if)
    qed
    consider "?c = 0" | "?c < 0" | "0 < ?c" by linarith
    then show ?thesis
    proof cases
      case a: 1
      then show ?thesis using True mid 1(4) by (simp add: bsearch_loop.simps [of cmp key xs lo hi] Let_def)
    next
      case b: 2
      have "?c \<noteq> 0" using b by simp
      from 1(1) [OF True refl refl this b 1(3)] 1(4,5) left [OF b] mid show ?thesis
        using True b by (simp add: bsearch_loop.simps [of cmp key xs lo hi] Let_def)
    next
      case c: 3
      have n: "?c \<noteq> 0" "\<not> ?c < 0" using c by simp_all
      from 1(2) [OF True refl refl n 1(3)] 1(4,5) right [OF c] mid show ?thesis
        using True c by (simp add: bsearch_loop.simps [of cmp key xs lo hi] Let_def Suc_le_eq)
    qed
  qed
qed

text \<open>
  Searching: in an array that is ordered with respect to the key, \<^verbatim>\<open>bsearch\<close> returns an element
  that compares equal if there is one, and reports none exactly if there is none.
\<close>

theorem bsearch_correct:
  assumes "searchable cmp key xs"
  shows "case bsearch cmp key xs of
       Some i \<Rightarrow> i < length xs \<and> cmp key (xs ! i) = 0
     | None \<Rightarrow> (\<forall>i < length xs. cmp key (xs ! i) \<noteq> 0)"
  using bsearch_loop_spec [OF assms, of "length xs" 0] by (auto simp: bsearch_def)

theorem bsearch_correct_witness: "\<exists>i. bsearch int_cmp 7 [1, 3, 7, 9] = Some i \<and> [1, 3, 7, 9 :: int] ! i = 7"
proof -
  have s: "searchable int_cmp 7 [1, 3, 7, 9]"
    by (auto simp: searchable_def int_cmp_def less_Suc_eq numeral_eq_Suc)
  show ?thesis
    using bsearch_correct [OF s] by (auto simp: int_cmp_def split: option.splits if_splits dest: spec [of _ 2])
qed

end
