(* ===== verification/Types.thy ===== *)
theory Types
  imports Symtab
begin

text \<open>
  The types of the compiler, \<^verbatim>\<open>src/core/types.c\<close> and \<^verbatim>\<open>include/core/types.h\<close>. A type object lives in an
  arena and is never freed, so the arena is the list of the type objects in the order of their
  allocation and a \<^verbatim>\<open>type_t *\<close> is an index into it; the sixteen singletons \<^verbatim>\<open>ty_void\<close> to \<^verbatim>\<open>ty_ldouble\<close> are
  its first entries. The parameter and field arrays belong to one type object each (\<^verbatim>\<open>type_dup\<close>
  copies them), so that they are part of it; \<^const>\<open>None\<close> is the null pointer.
\<close>

datatype type_kind =
  TY_VOID | TY_BOOL | TY_CHAR | TY_SCHAR | TY_UCHAR | TY_SHORT | TY_USHORT | TY_INT | TY_UINT
  | TY_LONG | TY_ULONG | TY_LLONG | TY_ULLONG | TY_FLOAT | TY_DOUBLE | TY_LDOUBLE
  | TY_PTR | TY_ARRAY | TY_FUNC | TY_STRUCT | TY_UNION | TY_ENUM

record struct_field =
  field_name :: "u8 list"
  field_type :: "nat option"
  field_offset :: u64
  field_bit_width :: u32
  field_is_anon :: bool

record func_param =
  param_name :: "u8 list"
  param_type :: "nat option"
  param_is_used :: bool

record type_t =
  ty_kind :: type_kind
  is_const :: bool
  is_volatile :: bool
  is_restrict :: bool
  is_static :: bool
  is_extern :: bool
  is_inline :: bool
  is_typedef :: bool
  is_register :: bool
  is_auto :: bool
  ty_base :: "nat option"
  ty_length :: u64
  is_incomplete :: bool
  ty_params :: "func_param list option"
  nparams :: u32
  is_varargs :: bool
  ty_ret :: "nat option"
  ty_tag :: "u8 list"
  ty_fields :: "struct_field list option"
  nfields :: u32
  ty_size :: u64
  ty_align :: u64
  is_complete :: bool

text \<open>What the arena hands out and what a static object holds before \<^verbatim>\<open>types_init\<close>: all zero.\<close>

definition zero_type :: type_t where
  "zero_type =
     \<lparr>ty_kind = TY_VOID, is_const = False, is_volatile = False, is_restrict = False, is_static = False,
      is_extern = False, is_inline = False, is_typedef = False, is_register = False, is_auto = False,
      ty_base = None, ty_length = 0, is_incomplete = False, ty_params = None, nparams = 0, is_varargs = False,
      ty_ret = None, ty_tag = [], ty_fields = None, nfields = 0, ty_size = 0, ty_align = 0, is_complete = False\<rparr>"

definition zero_param :: func_param where
  "zero_param = \<lparr>param_name = [], param_type = None, param_is_used = False\<rparr>"

definition zero_field :: struct_field where
  "zero_field = \<lparr>field_name = [], field_type = None, field_offset = 0, field_bit_width = 0, field_is_anon = False\<rparr>"

definition CC_MAX_FUNC_PARAMS :: nat where "CC_MAX_FUNC_PARAMS = 32"
definition CC_MAX_STRUCT_FIELDS :: nat where "CC_MAX_STRUCT_FIELDS = 64"
definition CC_MAX_TAGS :: nat where "CC_MAX_TAGS = 512"

type_synonym types = "type_t list"

abbreviation (input) ty_void :: nat where "ty_void \<equiv> 0"
abbreviation (input) ty_bool :: nat where "ty_bool \<equiv> 1"
abbreviation (input) ty_char :: nat where "ty_char \<equiv> 2"
abbreviation (input) ty_schar :: nat where "ty_schar \<equiv> 3"
abbreviation (input) ty_uchar :: nat where "ty_uchar \<equiv> 4"
abbreviation (input) ty_short :: nat where "ty_short \<equiv> 5"
abbreviation (input) ty_ushort :: nat where "ty_ushort \<equiv> 6"
abbreviation (input) ty_int :: nat where "ty_int \<equiv> 7"
abbreviation (input) ty_uint :: nat where "ty_uint \<equiv> 8"
abbreviation (input) ty_long :: nat where "ty_long \<equiv> 9"
abbreviation (input) ty_ulong :: nat where "ty_ulong \<equiv> 10"
abbreviation (input) ty_llong :: nat where "ty_llong \<equiv> 11"
abbreviation (input) ty_ullong :: nat where "ty_ullong \<equiv> 12"
abbreviation (input) ty_float :: nat where "ty_float \<equiv> 13"
abbreviation (input) ty_double :: nat where "ty_double \<equiv> 14"
abbreviation (input) ty_ldouble :: nat where "ty_ldouble \<equiv> 15"

text \<open>The kinds, sizes and alignments of the singletons.\<close>

definition prim_table :: "(type_kind \<times> u64 \<times> u64) list" where
  "prim_table =
     [(TY_VOID, 0, 1), (TY_BOOL, 1, 1), (TY_CHAR, 1, 1), (TY_SCHAR, 1, 1), (TY_UCHAR, 1, 1), (TY_SHORT, 2, 2),
      (TY_USHORT, 2, 2), (TY_INT, 4, 4), (TY_UINT, 4, 4), (TY_LONG, 8, 8), (TY_ULONG, 8, 8), (TY_LLONG, 8, 8),
      (TY_ULLONG, 8, 8), (TY_FLOAT, 4, 4), (TY_DOUBLE, 8, 8), (TY_LDOUBLE, 16, 16)]"

definition set_prim :: "type_t \<Rightarrow> type_kind \<times> u64 \<times> u64 \<Rightarrow> type_t" where
  "set_prim t = (\<lambda>(k, sz, al). t\<lparr>ty_kind := k, ty_size := sz, ty_align := al, is_complete := True\<rparr>)"

text \<open>\<^verbatim>\<open>types_init\<close> clears \<^verbatim>\<open>ty_void\<close> and sets the fields above of the others; the arena starts empty.\<close>

definition types_init :: "types \<Rightarrow> types" where
  "types_init st = map2 set_prim (zero_type # take 15 (tl st)) prim_table"

definition type_alloc :: "type_t \<Rightarrow> types \<Rightarrow> nat \<times> types" where
  "type_alloc t st = (length st, st @ [t])"

definition type_make_function :: "nat \<Rightarrow> types \<Rightarrow> nat \<times> types" where
  "type_make_function ret =
     type_alloc (zero_type\<lparr>ty_kind := TY_FUNC, ty_ret := Some ret, ty_size := 8, ty_align := 8, is_complete := True\<rparr>)"

definition type_ensure_params :: "nat \<Rightarrow> types \<Rightarrow> types" where
  "type_ensure_params t st =
     (if ty_params (st ! t) = None then st[t := (st ! t)\<lparr>ty_params := Some (replicate CC_MAX_FUNC_PARAMS zero_param)\<rparr>]
      else st)"

definition type_ensure_fields :: "nat \<Rightarrow> types \<Rightarrow> types" where
  "type_ensure_fields t st =
     (if ty_fields (st ! t) = None then st[t := (st ! t)\<lparr>ty_fields := Some (replicate CC_MAX_STRUCT_FIELDS zero_field)\<rparr>]
      else st)"

definition type_make_ptr :: "nat \<Rightarrow> types \<Rightarrow> nat \<times> types" where
  "type_make_ptr base =
     type_alloc (zero_type\<lparr>ty_kind := TY_PTR, ty_base := Some base, ty_size := 8, ty_align := 8, is_complete := True\<rparr>)"

definition type_make_array :: "nat \<Rightarrow> u64 \<Rightarrow> types \<Rightarrow> nat \<times> types" where
  "type_make_array base len st =
     type_alloc (zero_type\<lparr>ty_kind := TY_ARRAY, ty_base := Some base, ty_length := len, is_incomplete := len = 0,
       ty_size := if len = 0 then 0 else ty_size (st ! base) * len, ty_align := ty_align (st ! base),
       is_complete := 0 < len\<rparr>) st"

definition type_dup :: "nat \<Rightarrow> types \<Rightarrow> nat \<times> types" where
  "type_dup src st = type_alloc (st ! src) st"

definition type_make_const :: "nat \<Rightarrow> types \<Rightarrow> nat \<times> types" where
  "type_make_const base st =
     (case type_dup base st of (t, st) \<Rightarrow> (t, st[t := (st ! t)\<lparr>is_const := True\<rparr>]))"

definition type_is_integer :: "type_t \<Rightarrow> bool" where
  "type_is_integer t \<longleftrightarrow>
     ty_kind t \<in> {TY_BOOL, TY_CHAR, TY_SCHAR, TY_UCHAR, TY_SHORT, TY_USHORT, TY_INT, TY_UINT, TY_LONG, TY_ULONG,
       TY_LLONG, TY_ULLONG, TY_ENUM}"

definition type_is_signed :: "type_t \<Rightarrow> bool" where
  "type_is_signed t \<longleftrightarrow> ty_kind t \<in> {TY_CHAR, TY_SCHAR, TY_SHORT, TY_INT, TY_LONG, TY_LLONG, TY_ENUM}"

definition type_is_unsigned :: "type_t \<Rightarrow> bool" where
  "type_is_unsigned t \<longleftrightarrow> ty_kind t \<in> {TY_BOOL, TY_UCHAR, TY_USHORT, TY_UINT, TY_ULONG, TY_ULLONG}"

definition type_is_pointer :: "type_t \<Rightarrow> bool" where
  "type_is_pointer t \<longleftrightarrow> ty_kind t = TY_PTR"

definition type_is_arith :: "type_t \<Rightarrow> bool" where
  "type_is_arith t \<longleftrightarrow> type_is_integer t \<or> ty_kind t \<in> {TY_FLOAT, TY_DOUBLE, TY_LDOUBLE}"

definition type_is_scalar :: "type_t \<Rightarrow> bool" where
  "type_is_scalar t \<longleftrightarrow> type_is_arith t \<or> type_is_pointer t"

definition type_sizeof :: "type_t \<Rightarrow> diag \<Rightarrow> u64 \<times> diag" where
  "type_sizeof t d = (if \<not> is_complete t then (0, cc_error_at d) else (ty_size t, d))"

definition type_alignof :: "type_t \<Rightarrow> u64" where
  "type_alignof t = ty_align t"

text \<open>The loop of \<^verbatim>\<open>type_unqual\<close> ends after one round: the copy has its flags cleared.\<close>

function type_unqual :: "nat \<Rightarrow> types \<Rightarrow> nat \<times> types" where
  "type_unqual t st =
     (if is_const (st ! t) \<or> is_volatile (st ! t)
      then let (u, st) = type_dup t st in type_unqual u (st[u := (st ! u)\<lparr>is_const := False, is_volatile := False\<rparr>])
      else (t, st))"
  by pat_completeness auto
termination
  by (relation "measure (\<lambda>(t, st). if is_const (st ! t) \<or> is_volatile (st ! t) then 1 else 0)")
    (auto simp: type_dup_def type_alloc_def)

declare type_unqual.simps [simp del]

definition type_decay :: "nat \<Rightarrow> types \<Rightarrow> nat \<times> types" where
  "type_decay t st =
     (if ty_kind (st ! t) = TY_ARRAY then type_make_ptr (the (ty_base (st ! t))) st
      else if ty_kind (st ! t) = TY_FUNC then type_make_ptr t st
      else (t, st))"

definition type_promote :: "nat \<Rightarrow> types \<Rightarrow> nat" where
  "type_promote t st =
     (if ty_kind (st ! t) \<in> {TY_BOOL, TY_CHAR, TY_SCHAR, TY_UCHAR, TY_SHORT, TY_USHORT} then ty_int else t)"

definition type_common :: "nat \<Rightarrow> nat \<Rightarrow> types \<Rightarrow> nat" where
  "type_common a b st =
     (let a = type_promote a st; b = type_promote b st; ka = ty_kind (st ! a); kb = ty_kind (st ! b);
          sa = ty_size (st ! a); sb = ty_size (st ! b)
      in if ka = TY_LDOUBLE \<or> kb = TY_LDOUBLE then ty_ldouble
         else if ka = TY_DOUBLE \<or> kb = TY_DOUBLE then ty_double
         else if ka = TY_FLOAT \<or> kb = TY_FLOAT then ty_float
         else if sb < sa then a
         else if sa < sb then b
         else if type_is_signed (st ! a) = type_is_signed (st ! b) then a
         else if type_is_unsigned (st ! a) then a else b)"

subsection \<open>Tags\<close>

record tag_entry =
  tag_name :: "u8 list"
  tag_type :: nat

type_synonym tags = "tag_entry list"

definition tags_init :: "tags \<Rightarrow> tags" where
  "tags_init g = []"

definition tags_lookup :: "u8 list \<Rightarrow> tags \<Rightarrow> nat option" where
  "tags_lookup name g = map_option (\<lambda>i. tag_type (g ! i)) (find_last g (\<lambda>e. tag_name e = name))"

definition tags_install :: "u8 list \<Rightarrow> nat \<Rightarrow> tags \<Rightarrow> tags option" where
  "tags_install name t g =
     (if CC_MAX_TAGS \<le> length g then None
      else Some (g @ [\<lparr>tag_name = take (CC_MAX_IDENT - 1) name, tag_type = t\<rparr>]))"

definition tag_idx :: "tags \<Rightarrow> u8 list \<Rightarrow> nat option" where
  "tag_idx g name = find_last g (\<lambda>e. tag_name e = name)"

interpretation tag_table: name_table tag_idx "map tag_name"
  by standard (auto simp: tag_idx_def find_last_None dest: find_last_Some)

text \<open>A tag of up to 63 characters is found after it was entered, and hides older ones of its name.\<close>

lemma tags_lookup_install:
  assumes "tags_install name t g = Some g'" "length name < CC_MAX_IDENT"
  shows "tags_lookup n g' = (if n = name then Some t else tags_lookup n g)"
proof -
  have g': "g' = g @ [\<lparr>tag_name = name, tag_type = t\<rparr>]"
    using assms by (simp add: tags_install_def split: if_splits)
  have "i < length g" if "find_last g P = Some i" for P i
    using find_last_Some [OF that] by simp
  then show ?thesis
    by (auto simp: tags_lookup_def g' find_last_snoc nth_append intro!: option.map_cong)
qed

subsection \<open>Well-formed type objects\<close>

definition kind_ok :: "type_t \<Rightarrow> bool" where
  "kind_ok t \<longleftrightarrow>
     (ty_kind t \<in> {TY_PTR, TY_FUNC} \<longrightarrow> ty_size t = 8 \<and> ty_align t = 8 \<and> is_complete t)
     \<and> (ty_kind t \<in> {TY_PTR, TY_ARRAY} \<longrightarrow> ty_base t \<noteq> None) \<and> (ty_kind t = TY_FUNC \<longrightarrow> ty_ret t \<noteq> None)
     \<and> (ty_kind t = TY_ENUM \<longrightarrow> ty_size t = 4 \<and> ty_align t = 4 \<and> is_complete t)
     \<and> (ty_kind t \<in> fst ` set prim_table \<longrightarrow> (ty_kind t, ty_size t, ty_align t) \<in> set prim_table \<and> is_complete t)"

definition refs_ok :: "nat \<Rightarrow> type_t \<Rightarrow> bool" where
  "refs_ok n t \<longleftrightarrow>
     (\<forall>b \<in> set_option (ty_base t). b < n) \<and> (\<forall>r \<in> set_option (ty_ret t). r < n)
     \<and> (\<forall>ps \<in> set_option (ty_params t). length ps = CC_MAX_FUNC_PARAMS
          \<and> (\<forall>p \<in> set ps. \<forall>b \<in> set_option (param_type p). b < n))
     \<and> (\<forall>fs \<in> set_option (ty_fields t). length fs = CC_MAX_STRUCT_FIELDS
          \<and> (\<forall>f \<in> set fs. \<forall>b \<in> set_option (field_type f). b < n))"

definition types_ok :: "types \<Rightarrow> bool" where
  "types_ok st \<longleftrightarrow> 16 \<le> length st \<and> (\<forall>i < 16. ty_kind (st ! i) = fst (prim_table ! i))
     \<and> (\<forall>t \<in> set st. kind_ok t \<and> refs_ok (length st) t)"

lemma types_okD:
  assumes "types_ok st"
  shows "16 \<le> length st" "i < 16 \<Longrightarrow> ty_kind (st ! i) = fst (prim_table ! i)"
    "t < length st \<Longrightarrow> kind_ok (st ! t)" "t < length st \<Longrightarrow> refs_ok (length st) (st ! t)"
  using assms by (simp_all add: types_ok_def)

lemma refs_ok_mono: "refs_ok n t \<Longrightarrow> n \<le> m \<Longrightarrow> refs_ok m t"
  unfolding refs_ok_def by (meson less_le_trans)

lemma types_ok_append:
  "types_ok st \<Longrightarrow> kind_ok t \<Longrightarrow> refs_ok (Suc (length st)) t \<Longrightarrow> types_ok (st @ [t])"
  by (auto simp: types_ok_def nth_append intro: refs_ok_mono)

lemma types_ok_update:
  assumes "types_ok st" "t < length st" "kind_ok x" "refs_ok (length st) x" "ty_kind x = ty_kind (st ! t)"
  shows "types_ok (st[t := x])"
  using assms by (auto simp: types_ok_def nth_list_update dest!: set_update_subset_insert [THEN subsetD])

text \<open>Changing the qualifiers and the arrays of a type object keeps its kind and sizes.\<close>

lemma kind_ok_flags [simp]:
  "kind_ok (t\<lparr>is_const := c\<rparr>) = kind_ok t" "kind_ok (t\<lparr>is_const := c, is_volatile := v\<rparr>) = kind_ok t"
  "kind_ok (t\<lparr>ty_params := ps\<rparr>) = kind_ok t" "kind_ok (t\<lparr>ty_fields := fs\<rparr>) = kind_ok t"
  by (simp_all add: kind_ok_def)

lemma refs_ok_flags [simp]:
  "refs_ok n (t\<lparr>is_const := c\<rparr>) = refs_ok n t" "refs_ok n (t\<lparr>is_const := c, is_volatile := v\<rparr>) = refs_ok n t"
  by (simp_all add: refs_ok_def)

text \<open>What every operation that makes a type keeps: the old objects, and well-formedness.\<close>

definition extends :: "types \<Rightarrow> nat \<times> types \<Rightarrow> bool" where
  "extends st r \<longleftrightarrow> types_ok (snd r) \<and> fst r < length (snd r) \<and> take (length st) (snd r) = st"

lemma extends_alloc:
  "types_ok st \<Longrightarrow> kind_ok t \<Longrightarrow> refs_ok (Suc (length st)) t \<Longrightarrow> extends st (type_alloc t st)"
  by (simp add: extends_def type_alloc_def types_ok_append)

lemma extends_self: "types_ok st \<Longrightarrow> t < length st \<Longrightarrow> extends st (t, st)"
  by (simp add: extends_def)

lemma extends_make_ptr: "types_ok st \<Longrightarrow> t < Suc (length st) \<Longrightarrow> extends st (type_make_ptr t st)"
  unfolding type_make_ptr_def
  by (rule extends_alloc) (simp_all add: kind_ok_def refs_ok_def zero_type_def prim_table_def)

lemma extends_make_function: "types_ok st \<Longrightarrow> t < length st \<Longrightarrow> extends st (type_make_function t st)"
  unfolding type_make_function_def
  by (rule extends_alloc) (simp_all add: kind_ok_def refs_ok_def zero_type_def prim_table_def)

lemma extends_make_array: "types_ok st \<Longrightarrow> t < length st \<Longrightarrow> extends st (type_make_array t n st)"
  unfolding type_make_array_def
  by (rule extends_alloc) (simp_all add: kind_ok_def refs_ok_def zero_type_def prim_table_def)

lemma extends_dup: "types_ok st \<Longrightarrow> t < length st \<Longrightarrow> extends st (type_dup t st)"
  unfolding type_dup_def
  by (rule extends_alloc) (simp_all add: types_okD refs_ok_mono [OF types_okD(4)])

lemma dup_flags:
  "type_dup t st = (u, st1) \<Longrightarrow> st1[u := f (st1 ! u)] = st @ [f (st ! t)] \<and> u = length st"
  by (auto simp: type_dup_def type_alloc_def)

lemma extends_make_const: "types_ok st \<Longrightarrow> t < length st \<Longrightarrow> extends st (type_make_const t st)"
  using types_ok_append [of st "(st ! t)\<lparr>is_const := True\<rparr>"] refs_ok_mono [of "length st" "st ! t" "Suc (length st)"]
  by (simp add: type_make_const_def type_dup_def type_alloc_def extends_def types_okD)

lemma extends_unqual: "types_ok st \<Longrightarrow> t < length st \<Longrightarrow> extends st (type_unqual t st)"
proof (cases "is_const (st ! t) \<or> is_volatile (st ! t)")
  case True
  assume ok: "types_ok st" "t < length st"
  let ?u = "(st ! t)\<lparr>is_const := False, is_volatile := False\<rparr>"
  have "type_unqual t st = (length st, st @ [?u])"
    using True by (simp add: type_unqual.simps [of t] type_unqual.simps [of "length st"] type_dup_def type_alloc_def)
  then show ?thesis
    using types_ok_append [OF ok(1), of ?u] ok refs_ok_mono [of "length st" "st ! t" "Suc (length st)"]
    by (simp add: extends_def types_okD)
qed (simp add: type_unqual.simps extends_self)

lemma extends_decay: "types_ok st \<Longrightarrow> t < length st \<Longrightarrow> extends st (type_decay t st)"
proof -
  assume ok: "types_ok st" "t < length st"
  have "the (ty_base (st ! t)) < length st" if "ty_kind (st ! t) = TY_ARRAY"
    using types_okD(3,4) [OF ok(1,2)] that by (auto simp: kind_ok_def refs_ok_def)
  then show ?thesis
    using ok extends_make_ptr [of st "the (ty_base (st ! t))"]
    by (auto simp: type_decay_def extends_self intro: extends_make_ptr)
qed

lemma promote_less: "types_ok st \<Longrightarrow> t < length st \<Longrightarrow> type_promote t st < length st"
  using types_okD(1) by (fastforce simp: type_promote_def)

lemma common_less: "types_ok st \<Longrightarrow> a < length st \<Longrightarrow> b < length st \<Longrightarrow> type_common a b st < length st"
  using promote_less [of st a] promote_less [of st b] types_okD(1) [of st]
  by (simp add: type_common_def Let_def)

lemma types_ok_init: "length st = 16 \<Longrightarrow> (\<forall>t \<in> set st. ty_base t = None \<and> ty_ret t = None \<and> ty_params t = None
    \<and> ty_fields t = None) \<Longrightarrow> types_ok (types_init st)"
proof -
  assume l: "length st = 16" and z: "\<forall>t \<in> set st. ty_base t = None \<and> ty_ret t = None \<and> ty_params t = None \<and> ty_fields t = None"
  have [simp]: "length prim_table = 16" by (simp add: prim_table_def)
  let ?old = "zero_type # take 15 (tl st)"
  have old: "ty_base t = None \<and> ty_ret t = None \<and> ty_params t = None \<and> ty_fields t = None" if "t \<in> set ?old" for t
    using that z l by (auto simp: zero_type_def dest!: in_set_takeD list.set_sel(2) [rotated])
  have prim: "kind_ok (set_prim t p)" if "p \<in> set prim_table" for t p
    using that by (auto simp: prim_table_def kind_ok_def set_prim_def)
  have refs: "refs_ok n (set_prim t p)" if "t \<in> set ?old" for t p n
    using old [OF that] by (cases p) (simp add: refs_ok_def set_prim_def)
  have len: "length ?old = 16" using l by simp
  have "kind_ok x \<and> refs_ok 16 x" if "x \<in> set (types_init st)" for x
    using that prim refs unfolding types_init_def by (fastforce dest: set_zip_leftD set_zip_rightD simp del: list.set)
  moreover have "ty_kind (types_init st ! i) = fst (prim_table ! i)" if "i < 16" for i
    using that len by (simp add: types_init_def set_prim_def case_prod_unfold)
  ultimately show ?thesis using len by (simp add: types_ok_def types_init_def)
qed

text \<open>
  What the two operations that provide the array of parameters or fields of the object \<open>t\<close> keep: every other object, and
  of this one everything but the array, which is left alone when it is there.
\<close>

definition completes :: "(type_t \<Rightarrow> 'a option) \<Rightarrow> nat \<Rightarrow> types \<Rightarrow> types \<Rightarrow> bool" where
  "completes arr t st st' \<longleftrightarrow>
     types_ok st' \<and> length st' = length st \<and> (\<forall>i < length st. i \<noteq> t \<longrightarrow> st' ! i = st ! i) \<and> arr (st' ! t) \<noteq> None
     \<and> (st' ! t)\<lparr>ty_params := ty_params (st ! t), ty_fields := ty_fields (st ! t)\<rparr> = st ! t \<and> (arr (st ! t) \<noteq> None \<longrightarrow> st' = st)"

lemma completes_params:
  assumes "types_ok st" "t < length st"
  shows "completes ty_params t st (type_ensure_params t st)" "ty_fields (type_ensure_params t st ! t) = ty_fields (st ! t)"
proof -
  have "types_ok (type_ensure_params t st)"
    using types_okD(3,4) [OF assms(1,2)] assms
    by (auto simp: type_ensure_params_def zero_param_def refs_ok_def intro!: types_ok_update)
  then show "completes ty_params t st (type_ensure_params t st)"
    using assms(2) by (cases "ty_params (st ! t)") (simp_all add: completes_def type_ensure_params_def)
  show "ty_fields (type_ensure_params t st ! t) = ty_fields (st ! t)"
    using assms(2) by (simp add: type_ensure_params_def)
qed

lemma completes_fields:
  assumes "types_ok st" "t < length st"
  shows "completes ty_fields t st (type_ensure_fields t st)" "ty_params (type_ensure_fields t st ! t) = ty_params (st ! t)"
proof -
  have "types_ok (type_ensure_fields t st)"
    using types_okD(3,4) [OF assms(1,2)] assms
    by (auto simp: type_ensure_fields_def zero_field_def refs_ok_def intro!: types_ok_update)
  then show "completes ty_fields t st (type_ensure_fields t st)"
    using assms(2) by (cases "ty_fields (st ! t)") (simp_all add: completes_def type_ensure_fields_def)
  show "ty_params (type_ensure_fields t st ! t) = ty_params (st ! t)"
    using assms(2) by (simp add: type_ensure_fields_def)
qed

lemma types_ok_start: "types_ok (types_init (replicate 16 zero_type))"
  by (rule types_ok_init) (simp_all add: zero_type_def)

text \<open>
  C18. The operations of \<^verbatim>\<open>types.c\<close> keep the type objects well-formed: they are so after \<^verbatim>\<open>types_init\<close> on zeroed
  static objects, and after every operation references stay inside the
  arena, the singletons keep their kinds, pointers, functions and the primitive types keep the
  sizes of the target. The operations that return a type return one that exists and change no object that was
  already there; the two that provide the array of parameters or fields of an object change nothing but this array, and that only when
  it is missing.
\<close>

theorem types_ops_ok:
  assumes "types_ok st" and "t < length st" and "b < length st"
  shows "types_ok (types_init (replicate 16 zero_type))
    \<and> extends st (type_make_ptr t st) \<and> extends st (type_make_array t n st) \<and> extends st (type_make_function t st)
    \<and> extends st (type_dup t st) \<and> extends st (type_make_const t st) \<and> extends st (type_unqual t st)
    \<and> extends st (type_decay t st) \<and> extends st (type_promote t st, st) \<and> extends st (type_common t b st, st)
    \<and> completes ty_params t st (type_ensure_params t st) \<and> ty_fields (type_ensure_params t st ! t) = ty_fields (st ! t)
    \<and> completes ty_fields t st (type_ensure_fields t st) \<and> ty_params (type_ensure_fields t st ! t) = ty_params (st ! t)"
  using assms by (simp add: types_ok_start extends_make_ptr extends_make_array extends_make_function extends_dup extends_make_const
      extends_unqual extends_decay extends_self promote_less common_less completes_params completes_fields)

definition types0 :: types where
  "types0 = types_init (replicate 16 zero_type)"

lemma types_ok_types0: "types_ok types0"
  unfolding types0_def by (rule types_ok_start)

theorem types_ops_ok_witness: "types_ok (snd (type_make_ptr ty_int types0)) \<and> types_ok (snd (type_make_array ty_char 10 types0))"
proof -
  have "length types0 = 16" by (simp add: types0_def types_init_def prim_table_def)
  then show ?thesis
    using types_ops_ok [OF types_ok_types0, of 7 7] types_ops_ok [OF types_ok_types0, of 2 2 10]
    by (simp add: extends_def)
qed

subsection \<open>The usual arithmetic conversions\<close>

text \<open>
  The conversions as the C standard has them (C11 6.3.1.8), on kinds: by rank, signedness and
  whether the signed type represents all values of the unsigned one.
\<close>

fun c_rank :: "type_kind \<Rightarrow> nat" where
  "c_rank TY_BOOL = 0" | "c_rank TY_CHAR = 1" | "c_rank TY_SCHAR = 1" | "c_rank TY_UCHAR = 1"
| "c_rank TY_SHORT = 2" | "c_rank TY_USHORT = 2" | "c_rank TY_LONG = 4" | "c_rank TY_ULONG = 4"
| "c_rank TY_LLONG = 5" | "c_rank TY_ULLONG = 5" | "c_rank k = 3"

definition c_unsigned :: "type_kind \<Rightarrow> bool" where
  "c_unsigned k \<longleftrightarrow> k \<in> {TY_BOOL, TY_UCHAR, TY_USHORT, TY_UINT, TY_ULONG, TY_ULLONG}"

definition c_size :: "type_kind \<Rightarrow> u64" where
  "c_size k = (if k = TY_ENUM then 4 else fst (the (map_of prim_table k)))"

fun c_to_unsigned :: "type_kind \<Rightarrow> type_kind" where
  "c_to_unsigned TY_INT = TY_UINT" | "c_to_unsigned TY_LONG = TY_ULONG" | "c_to_unsigned TY_LLONG = TY_ULLONG"
| "c_to_unsigned k = k"

definition c_promote :: "type_kind \<Rightarrow> type_kind" where
  "c_promote k = (if k = TY_ENUM \<or> c_rank k < c_rank TY_INT then TY_INT else k)"

definition c_common :: "type_kind \<Rightarrow> type_kind \<Rightarrow> type_kind" where
  "c_common a b =
     (if TY_LDOUBLE \<in> {a, b} then TY_LDOUBLE else if TY_DOUBLE \<in> {a, b} then TY_DOUBLE
      else if TY_FLOAT \<in> {a, b} then TY_FLOAT
      else let a = c_promote a; b = c_promote b; u = (if c_unsigned a then a else b); s = (if c_unsigned a then b else a)
           in if c_unsigned a = c_unsigned b then (if c_rank a < c_rank b then b else a)
              else if c_rank s \<le> c_rank u then u
              else if c_size u < c_size s then s
              else c_to_unsigned s)"

lemma arith_kinds:
  assumes "type_is_arith t" "kind_ok t"
  shows "ty_size t = c_size (ty_kind t)" "ty_kind t \<in> set (map fst prim_table) - {TY_VOID} \<union> {TY_ENUM}"
  using assms
  by (auto simp: type_is_arith_def type_is_integer_def kind_ok_def c_size_def prim_table_def)

lemma promote_kind:
  assumes "types_ok st" "t < length st" "type_is_arith (st ! t)"
  shows "type_is_arith (st ! type_promote t st)"
    "ty_kind (st ! type_promote t st) = (if ty_kind (st ! t) = TY_ENUM then TY_ENUM else c_promote (ty_kind (st ! t)))"
proof -
  have "ty_kind (st ! 7) = TY_INT" using types_okD(2) [OF assms(1), of 7] by (simp add: prim_table_def)
  moreover have "ty_kind (st ! t) \<in> set (map fst prim_table) - {TY_VOID} \<union> {TY_ENUM}"
    using arith_kinds(2) [OF assms(3)] types_okD(3) [OF assms(1,2)] by blast
  ultimately show "type_is_arith (st ! type_promote t st)"
    "ty_kind (st ! type_promote t st) = (if ty_kind (st ! t) = TY_ENUM then TY_ENUM else c_promote (ty_kind (st ! t)))"
    using assms(3) by (auto simp: type_promote_def type_is_arith_def type_is_integer_def prim_table_def c_promote_def)
qed

text \<open>The conversions on kinds with the sizes of the target, as the code computes them.\<close>

definition common_kind :: "type_kind \<Rightarrow> type_kind \<Rightarrow> type_kind" where
  "common_kind a b =
     (if TY_LDOUBLE \<in> {a, b} then TY_LDOUBLE else if TY_DOUBLE \<in> {a, b} then TY_DOUBLE
      else if TY_FLOAT \<in> {a, b} then TY_FLOAT
      else if c_size b < c_size a then a else if c_size a < c_size b then b
      else if c_unsigned a = c_unsigned b \<or> c_unsigned a then a else b)"

lemma signed_iff: "type_is_integer t \<Longrightarrow> type_is_signed t \<longleftrightarrow> \<not> type_is_unsigned t"
  by (auto simp: type_is_integer_def type_is_signed_def type_is_unsigned_def)

lemma unsigned_iff: "type_is_unsigned t \<longleftrightarrow> c_unsigned (ty_kind t)"
  by (simp add: type_is_unsigned_def c_unsigned_def)

lemma common_kind_eq:
  assumes "types_ok st" "a < length st" "b < length st" "type_is_arith (st ! a)" "type_is_arith (st ! b)"
  shows "ty_kind (st ! type_common a b st) = common_kind (ty_kind (st ! type_promote a st)) (ty_kind (st ! type_promote b st))"
proof -
  let ?a = "st ! type_promote a st" and ?b = "st ! type_promote b st"
  have sizes: "ty_size ?a = c_size (ty_kind ?a)" "ty_size ?b = c_size (ty_kind ?b)"
    using arith_kinds(1) promote_kind(1) promote_less types_okD(3) assms by blast+
  have floats: "ty_kind (st ! 13) = TY_FLOAT" "ty_kind (st ! 14) = TY_DOUBLE" "ty_kind (st ! 15) = TY_LDOUBLE"
    using types_okD(2) [OF assms(1)] by (simp_all add: prim_table_def)
  have int: "type_is_integer ?a \<or> ty_kind ?a \<in> {TY_FLOAT, TY_DOUBLE, TY_LDOUBLE}"
    "type_is_integer ?b \<or> ty_kind ?b \<in> {TY_FLOAT, TY_DOUBLE, TY_LDOUBLE}"
    using promote_kind(1) assms by (simp_all add: type_is_arith_def)
  then show ?thesis
    by (auto simp: type_common_def Let_def common_kind_def sizes floats signed_iff unsigned_iff)
qed

definition arith_kind_list :: "type_kind list" where
  "arith_kind_list = TY_ENUM # tl (map fst prim_table)"

definition same_conversion :: "type_kind \<Rightarrow> type_kind \<Rightarrow> bool" where
  "same_conversion ka kb \<longleftrightarrow>
     (let r = common_kind (if ka = TY_ENUM then TY_ENUM else c_promote ka) (if kb = TY_ENUM then TY_ENUM else c_promote kb);
          c = c_common ka kb
      in c_size r = c_size c \<and> c_unsigned r = c_unsigned c \<and> (c \<in> {TY_FLOAT, TY_DOUBLE, TY_LDOUBLE} \<longrightarrow> r = c))"

lemma same_conversion_all: "list_all (\<lambda>ka. list_all (same_conversion ka) arith_kind_list) arith_kind_list"
  by code_simp

lemma common_kind_c11:
  assumes "ka \<in> set (map fst prim_table) - {TY_VOID} \<union> {TY_ENUM}" "kb \<in> set (map fst prim_table) - {TY_VOID} \<union> {TY_ENUM}"
  shows "same_conversion ka kb"
proof -
  have "set (map fst prim_table) - {TY_VOID} \<union> {TY_ENUM} \<subseteq> set arith_kind_list"
    by (simp add: arith_kind_list_def prim_table_def)
  then show ?thesis using same_conversion_all assms unfolding list_all_iff by blast
qed

text \<open>
  C19. The usual arithmetic conversions: for arithmetic operands the type \<^verbatim>\<open>type_common\<close> returns is
  the one of the C standard up to the difference between \<^verbatim>\<open>long\<close> and \<^verbatim>\<open>long long\<close>: it has the same
  size and the same signedness, and is the same type when it is a floating type.
\<close>

theorem type_common_c11:
  assumes "types_ok st" and "a < length st" and "b < length st"
    and "type_is_arith (st ! a)" and "type_is_arith (st ! b)"
  defines "r \<equiv> st ! type_common a b st" and "c \<equiv> c_common (ty_kind (st ! a)) (ty_kind (st ! b))"
  shows "ty_size r = c_size c \<and> type_is_unsigned r = c_unsigned c
    \<and> (c \<in> {TY_FLOAT, TY_DOUBLE, TY_LDOUBLE} \<longrightarrow> ty_kind r = c)"
proof -
  have ok: "kind_ok (st ! a)" "kind_ok (st ! b)" "kind_ok r"
    using assms(1-3) common_less types_okD(3) unfolding r_def by blast+
  note k = arith_kinds(2) [OF assms(4) ok(1)] arith_kinds(2) [OF assms(5) ok(2)]
  have r: "ty_kind r = common_kind (if ty_kind (st ! a) = TY_ENUM then TY_ENUM else c_promote (ty_kind (st ! a)))
      (if ty_kind (st ! b) = TY_ENUM then TY_ENUM else c_promote (ty_kind (st ! b)))"
    using common_kind_eq [OF assms(1-5)] promote_kind(2) assms(1-5) by (simp add: r_def)
  have "type_is_arith r"
    using promote_kind(1) [OF assms(1,2,4)] promote_kind(1) [OF assms(1,3,5)] types_okD(2) [OF assms(1)]
    by (auto simp: r_def type_common_def Let_def type_is_arith_def prim_table_def)
  then have "ty_size r = c_size (ty_kind r)" using arith_kinds(1) ok(3) by blast
  then show ?thesis
    using common_kind_c11 [OF k] by (simp add: same_conversion_def Let_def unsigned_iff r c_def)
qed

theorem type_common_c11_witness: "ty_kind (types0 ! type_common ty_int ty_ulong types0) = TY_ULONG \<and>
    ty_size (types0 ! type_common ty_int ty_ulong types0) = 8"
proof -
  have l: "length types0 = 16" "type_is_arith (types0 ! 7)" "type_is_arith (types0 ! 10)" by code_simp+
  have "ty_kind (types0 ! type_common ty_int ty_ulong types0) = TY_ULONG"
    "c_common (ty_kind (types0 ! 7)) (ty_kind (types0 ! 10)) = TY_ULONG" by code_simp+
  then show ?thesis
    using type_common_c11 [OF types_ok_types0, of 7 10] l by (simp add: c_size_def prim_table_def)
qed

end
