(* ===== verification/Gen_Values.thy ===== *)
theory Gen_Values
  imports Types Tokens Encoder Emulator
begin

text \<open>
  The value layer of the code generator, \<^verbatim>\<open>src/back/gen.c\<close>: the descriptors that say where the value
  of an expression is, and the functions that bring a value into a register, convert it, move
  it to a stack slot, store it, and combine two of them. The generator's globals are one
  record. A result \<^const>\<open>None\<close> is an end of the compiler: \<^verbatim>\<open>cc_fatal\<close>, or a null type dereferenced.
  The conversion of a constant from \<^verbatim>\<open>double\<close> to \<^verbatim>\<open>float\<close> is the \<open>f_narrow\<close> of the record of
  floating-point operations.
\<close>

abbreviation (input) RV_FP :: u32 where "RV_FP \<equiv> 8"
abbreviation (input) RV_T1 :: u32 where "RV_T1 \<equiv> 6"
abbreviation (input) RV_T2 :: u32 where "RV_T2 \<equiv> 7"
abbreviation (input) RV_T3 :: u32 where "RV_T3 \<equiv> 28"
abbreviation (input) RV_FT0 :: u32 where "RV_FT0 \<equiv> 0"
abbreviation (input) RV_FT1 :: u32 where "RV_FT1 \<equiv> 1"

subsection \<open>State\<close>

record rodata_fixup =
  rf_rodata_off :: u32
  rf_patch_lui :: u32
  rf_patch_addi :: u32

record global_addr_fixup =
  gf_sym_idx :: int
  gf_patch_lui :: u32
  gf_patch_addi :: u32
  gf_extra_off :: u64

datatype val_kind = VAL_REG | VAL_IMM | VAL_SYM | VAL_LVAL | VAL_SPILL | VAL_SPILL_F | VAL_SPILL_I

text \<open>\<open>v_fval\<close> is the bit pattern of the \<^verbatim>\<open>double\<close>.\<close>

record val_t =
  v_kind :: val_kind
  v_type :: "nat option"
  v_reg :: u32
  v_imm :: u64
  v_fval :: u64
  v_sym_idx :: int
  v_offset :: u64

definition CC_MAX_REFS :: nat where "CC_MAX_REFS = 65536"

text \<open>The text and read-only data, the types, the symbols, the frame of the function, the fixups.\<close>

record gen =
  g_text :: cc_buf
  g_rodata :: cc_buf
  g_types :: types
  g_syms :: symtab
  g_diag :: diag
  cur_offset :: u32
  frame_size :: u32
  g_fixups :: "global_addr_fixup list"
  g_rodata_fixups :: "rodata_fixup list"

definition emit :: "emitter \<Rightarrow> gen \<Rightarrow> gen" where
  "emit f g = g\<lparr>g_text := f (g_text g)\<rparr>"

definition text_off :: "gen \<Rightarrow> u32" where
  "text_off g = word_of_nat (buf_size (g_text g))"

definition cc_error :: "gen \<Rightarrow> gen" where
  "cc_error g = g\<lparr>g_diag := cc_error_at (g_diag g)\<rparr>"

text \<open>The type behind a pointer that must not be null.\<close>

definition ty_of :: "val_t \<Rightarrow> gen \<Rightarrow> type_t option" where
  "ty_of v g = map_option (\<lambda>t. g_types g ! t) (v_type v)"

definition sizeof :: "type_t \<Rightarrow> gen \<Rightarrow> u64 \<times> gen" where
  "sizeof t g = (case type_sizeof t (g_diag g) of (sz, d) \<Rightarrow> (sz, g\<lparr>g_diag := d\<rparr>))"

definition is_float_kind :: "type_kind \<Rightarrow> bool" where
  "is_float_kind k \<longleftrightarrow> k \<in> {TY_FLOAT, TY_DOUBLE, TY_LDOUBLE}"

definition is_double_kind :: "type_kind \<Rightarrow> bool" where
  "is_double_kind k \<longleftrightarrow> k \<in> {TY_DOUBLE, TY_LDOUBLE}"

definition is_float_type :: "type_t option \<Rightarrow> bool" where
  "is_float_type t \<longleftrightarrow> (case t of None \<Rightarrow> False | Some t \<Rightarrow> is_float_kind (ty_kind t))"

definition is_double_type :: "type_t option \<Rightarrow> bool" where
  "is_double_type t \<longleftrightarrow> (case t of None \<Rightarrow> False | Some t \<Rightarrow> is_double_kind (ty_kind t))"

subsection \<open>Bringing values into registers\<close>

definition emit_load_global_addr :: "u32 \<Rightarrow> int \<Rightarrow> u64 \<Rightarrow> gen \<Rightarrow> gen option" where
  "emit_load_global_addr reg sym_idx add_off g =
     (let lui_off = text_off g; g = emit (rv_lui reg 0) g;
          addi_off = text_off g; g = emit (rv_addi reg reg 0) g
      in if CC_MAX_REFS \<le> length (g_fixups g) then None
         else Some (g\<lparr>g_fixups := g_fixups g @ [\<lparr>gf_sym_idx = sym_idx, gf_patch_lui = lui_off,
                gf_patch_addi = addi_off, gf_extra_off = add_off\<rparr>]\<rparr>))"

definition n_globals :: "gen \<Rightarrow> int" where
  "n_globals g = int (length (g_globals (g_syms g)))"

definition materialize :: "val_t \<Rightarrow> u32 \<Rightarrow> gen \<Rightarrow> (val_t \<times> gen) option" where
  "materialize v reg g =
     (case v_kind v of
        VAL_IMM \<Rightarrow> Some (v\<lparr>v_kind := VAL_REG, v_reg := reg\<rparr>, emit (rv_addi_imm reg RV_ZERO (v_imm v)) g)
      | VAL_SYM \<Rightarrow>
          map_option (\<lambda>g. (v\<lparr>v_kind := VAL_LVAL, v_reg := reg, v_offset := 0\<rparr>, g))
            (if n_globals g \<le> v_sym_idx v
             then let s = g_locals (g_syms g) ! nat (v_sym_idx v - n_globals g)
                  in Some (emit (rv_addi_imm reg RV_FP (scast (ucast (sym_offset s) + ucast (v_offset v) :: u32))) g)
             else emit_load_global_addr reg (v_sym_idx v) (v_offset v) g)
      | VAL_SPILL_F \<Rightarrow> Some (v, g)
      | VAL_SPILL_I \<Rightarrow> Some (v, g)
      | VAL_LVAL \<Rightarrow>
          Some (if v_reg v \<noteq> reg
                then (v\<lparr>v_reg := reg, v_offset := 0\<rparr>, emit (rv_addi_imm reg (v_reg v) (v_offset v)) g)
                else if v_offset v \<noteq> 0 then (v\<lparr>v_offset := 0\<rparr>, emit (rv_addi_imm reg reg (v_offset v)) g)
                else (v, g))
      | VAL_SPILL \<Rightarrow>
          Some (v\<lparr>v_kind := VAL_LVAL, v_reg := reg, v_offset := 0\<rparr>, emit (rv_ld reg RV_FP (ucast (v_offset v))) g)
      | VAL_REG \<Rightarrow> Some (if v_reg v \<noteq> reg then (v\<lparr>v_reg := reg\<rparr>, emit (rv_mv reg (v_reg v)) g) else (v, g)))"

text \<open>The load of a given size and signedness, the \<^verbatim>\<open>switch (sz)\<close> of the loads.\<close>

definition load_sized :: "bool \<Rightarrow> u64 \<Rightarrow> u32 \<Rightarrow> u32 \<Rightarrow> u32 \<Rightarrow> emitter" where
  "load_sized uns sz rd rs off =
     (if sz = 1 then (if uns then rv_lbu rd rs off else rv_lb rd rs off)
      else if sz = 2 then (if uns then rv_lhu rd rs off else rv_lh rd rs off)
      else if sz = 4 then (if uns then rv_lwu rd rs off else rv_lw rd rs off)
      else rv_ld rd rs off)"

definition decays :: "type_t \<Rightarrow> bool" where
  "decays t \<longleftrightarrow> ty_kind t \<in> {TY_ARRAY, TY_FUNC}"

definition load_value :: "val_t \<Rightarrow> u32 \<Rightarrow> gen \<Rightarrow> (val_t \<times> gen) option" where
  "load_value v reg g =
     (if v_kind v = VAL_SPILL_I
      then (case ty_of v g of
              None \<Rightarrow> None
            | Some t \<Rightarrow>
                let (sz, g) = (if decays t then (8, g) else sizeof t g)
                in Some (v\<lparr>v_kind := VAL_REG, v_reg := reg, v_offset := 0\<rparr>,
                     emit (if decays t then rv_ld reg RV_FP (ucast (v_offset v))
                           else load_sized (type_is_unsigned t) sz reg RV_FP (ucast (v_offset v))) g))
      else case materialize v reg g of
        None \<Rightarrow> None
      | Some (v, g) \<Rightarrow>
          if v_kind v \<noteq> VAL_LVAL then Some (v, g)
          else case ty_of v g of
            None \<Rightarrow> None
          | Some t \<Rightarrow>
              let (sz, g) = sizeof t g
              in if decays t then Some (v\<lparr>v_kind := VAL_REG, v_offset := 0\<rparr>, g)
                 else Some (v\<lparr>v_kind := VAL_REG, v_offset := 0\<rparr>,
                        emit (load_sized (type_is_unsigned t) sz reg reg (ucast (v_offset v))) g))"

subsection \<open>Floating-point values\<close>

text \<open>The bytes of a constant, pushed one by one.\<close>

definition push_le :: "nat \<Rightarrow> u64 \<Rightarrow> gen \<Rightarrow> gen" where
  "push_le n bits g =
     g\<lparr>g_rodata := foldl (\<lambda>b i. cc_buf_push8 b (ucast (drop_bit (8 * i) bits AND 0xFF))) (g_rodata g) [0..<n]\<rparr>"

definition materialize_float_const :: "fpu \<Rightarrow> val_t \<Rightarrow> u32 \<Rightarrow> gen \<Rightarrow> (val_t \<times> gen) option" where
  "materialize_float_const u v freg g =
     (case ty_of v g of
        None \<Rightarrow> None
      | Some t \<Rightarrow>
          let is_double = is_double_kind (ty_kind t);
              rodata_off = word_of_nat (buf_size (g_rodata g));
              g = (if is_double then push_le 8 (v_fval v) g else push_le 4 (ucast (f_narrow u (v_fval v))) g);
              lui_off = text_off g; g = emit (rv_lui RV_T0 0) g;
              addi_off = text_off g; g = emit (rv_addi RV_T0 RV_T0 0) g
          in if CC_MAX_REFS \<le> length (g_rodata_fixups g) then None
             else let g = g\<lparr>g_rodata_fixups := g_rodata_fixups g @
                        [\<lparr>rf_rodata_off = rodata_off, rf_patch_lui = lui_off, rf_patch_addi = addi_off\<rparr>]\<rparr>
                  in Some (v\<lparr>v_kind := VAL_REG, v_reg := freg, v_offset := 0\<rparr>,
                       emit (if is_double then rv_fld freg RV_T0 0 else rv_flw freg RV_T0 0) g))"

definition load_float_value :: "fpu \<Rightarrow> val_t \<Rightarrow> u32 \<Rightarrow> gen \<Rightarrow> (val_t \<times> gen) option" where
  "load_float_value u v freg g =
     (let t = ty_of v g; in_reg = v\<lparr>v_kind := VAL_REG, v_reg := freg, v_offset := 0\<rparr>; off = ucast (v_offset v)
      in case v_kind v of
        VAL_IMM \<Rightarrow>
          if is_float_type t then materialize_float_const u v freg g
          else map_option (\<lambda>(v, g). (v\<lparr>v_kind := VAL_REG, v_reg := freg, v_offset := 0, v_type := Some ty_double\<rparr>,
                 emit (rv_fcvt_d_l freg RV_T0) g)) (materialize v RV_T0 g)
      | VAL_SPILL_F \<Rightarrow> Some (in_reg, emit (if is_double_type t then rv_fld freg RV_FP off else rv_flw freg RV_FP off) g)
      | VAL_REG \<Rightarrow>
          if v_reg v = freg then Some (v, g)
          else Some (v\<lparr>v_reg := freg\<rparr>,
            emit (if is_float_type t
                  then rv_emit_fpu_r (if is_double_type t then 0x11 else 0x10) 0 freg (v_reg v) (v_reg v)
                  else if is_double_type t then rv_fcvt_d_l freg (v_reg v) else rv_fcvt_s_l freg (v_reg v)) g)
      | _ \<Rightarrow>
          (case materialize v RV_T0 g of
             None \<Rightarrow> None
           | Some (v, g) \<Rightarrow>
               let off = ucast (v_offset v)
               in if v_kind v \<noteq> VAL_LVAL then Some (v, g)
                  else if is_float_type t
                  then Some (v\<lparr>v_kind := VAL_REG, v_reg := freg, v_offset := 0\<rparr>,
                         emit (if is_double_type t then rv_fld freg RV_T0 off else rv_flw freg RV_T0 off) g)
                  else case t of
                    None \<Rightarrow> None
                  | Some ty \<Rightarrow>
                      let (sz, g) = sizeof ty g; g = emit (load_sized (type_is_unsigned ty) sz RV_T1 RV_T0 off) g
                      in Some (v\<lparr>v_kind := VAL_REG, v_reg := freg, v_offset := 0, v_type := Some ty_double\<rparr>,
                           emit (rv_fcvt_d_l freg RV_T1) g)))"

subsection \<open>Conversions\<close>

text \<open>The shift pair that cuts the result in \<^verbatim>\<open>t0\<close> to the width of an integer type.\<close>

definition narrow :: "type_t \<Rightarrow> gen \<Rightarrow> gen" where
  "narrow t g =
     (if type_is_integer t
      then let (sz, g) = sizeof t g
           in if sz < 8
              then let (sz, g) = sizeof t g; shift = 64 - ucast sz * 8; g = emit (rv_slli RV_T0 RV_T0 shift) g
                   in emit (if type_is_signed t then rv_srai RV_T0 RV_T0 shift else rv_srli RV_T0 RV_T0 shift) g
              else g
      else g)"

definition float_to_bool :: "bool \<Rightarrow> gen \<Rightarrow> gen" where
  "float_to_bool source_double g =
     (let g = emit (rv_addi RV_T0 RV_ZERO 0) g;
          g = emit (rv_emit_fpu_r (if source_double then 0x79 else 0x78) 0 RV_FT1 RV_T0 0) g;
          g = emit (if source_double then rv_feq_d RV_T0 RV_FT0 RV_FT1 else rv_feq_s RV_T0 RV_FT0 RV_FT1) g
      in emit (rv_seqz RV_T0 RV_T0) g)"

definition to_float :: "fpu \<Rightarrow> val_t \<Rightarrow> type_t \<Rightarrow> bool \<Rightarrow> gen \<Rightarrow> (val_t \<times> gen) option" where
  "to_float u value src target_double g =
     (let source_double = is_double_kind (ty_kind src)
      in map_option (\<lambda>(v, g). (v\<lparr>v_reg := RV_FT0\<rparr>, g))
        (if is_float_kind (ty_kind src)
         then map_option (\<lambda>(v, g). (v,
                if source_double \<and> \<not> target_double then emit (rv_fcvt_s_d RV_FT0 RV_FT0) g
                else if \<not> source_double \<and> target_double then emit (rv_fcvt_d_s RV_FT0 RV_FT0) g
                else g)) (load_float_value u value RV_FT0 g)
         else map_option (\<lambda>(v, g). (v, emit (rv_emit_fpu_r (if target_double then 0x69 else 0x68) 0 RV_FT0 RV_T0
                (if type_is_unsigned src then 3 else 2)) g)) (load_value value RV_T0 g)))"

definition to_integer :: "fpu \<Rightarrow> val_t \<Rightarrow> type_t \<Rightarrow> type_t \<Rightarrow> gen \<Rightarrow> (val_t \<times> gen) option" where
  "to_integer u value src target g =
     (let source_double = is_double_kind (ty_kind src)
      in map_option (\<lambda>(v, g). (v\<lparr>v_reg := RV_T0\<rparr>,
             if ty_kind target = TY_BOOL then emit (rv_snez RV_T0 RV_T0) g else narrow target g))
        (if is_float_kind (ty_kind src)
         then map_option (\<lambda>(v, g). (v,
                if ty_kind target = TY_BOOL then float_to_bool source_double g
                else emit (rv_emit_fpu_r (if source_double then 0x61 else 0x60) 1 RV_T0 RV_FT0
                       (if type_is_unsigned target then 3 else 2)) g)) (load_float_value u value RV_FT0 g)
         else load_value value RV_T0 g))"

definition convert_scalar :: "fpu \<Rightarrow> val_t \<Rightarrow> nat \<Rightarrow> gen \<Rightarrow> (val_t \<times> gen) option" where
  "convert_scalar u value target g =
     (let tt = g_types g ! target
      in if ty_kind tt = TY_VOID then Some (value\<lparr>v_type := Some target\<rparr>, g)
         else if ty_kind tt \<in> {TY_STRUCT, TY_UNION} then Some (value, g)
         else case ty_of value g of
           None \<Rightarrow> None
         | Some src \<Rightarrow>
             map_option (\<lambda>(v, g). (v\<lparr>v_kind := VAL_REG, v_type := Some target, v_offset := 0\<rparr>, g))
               (if is_float_kind (ty_kind tt) then to_float u value src (is_double_kind (ty_kind tt)) g
                else to_integer u value src tt g))"

subsection \<open>Stack slots\<close>

text \<open>A new slot of eight bytes in the frame; the result is its offset from the frame pointer.\<close>

definition alloc_slot :: "gen \<Rightarrow> u64 \<times> gen" where
  "alloc_slot g =
     (let c = (cur_offset g + 8 + 15) AND NOT 15
      in (- scast c, g\<lparr>cur_offset := c, frame_size := if sint (frame_size g) < sint c then c else frame_size g\<rparr>))"

text \<open>The store of a given size.\<close>

definition store_sized :: "u64 \<Rightarrow> u32 \<Rightarrow> u32 \<Rightarrow> u32 \<Rightarrow> emitter" where
  "store_sized sz rs2 rs1 off =
     (if sz = 1 then rv_sb rs2 rs1 off else if sz = 2 then rv_sh rs2 rs1 off
      else if sz = 4 then rv_sw rs2 rs1 off else rv_sd rs2 rs1 off)"

definition spill_ireg :: "val_t \<Rightarrow> gen \<Rightarrow> val_t \<times> gen" where
  "spill_ireg v g =
     (if v_kind v \<noteq> VAL_REG \<or> is_float_type (ty_of v g) then (v, g)
      else let (slot, g) = alloc_slot g;
               t = (case ty_of v g of None \<Rightarrow> g_types g ! ty_long | Some t \<Rightarrow> t);
               (sz, g) = (if ty_of v g \<noteq> None \<and> decays t then (8, g) else sizeof t g)
           in (v\<lparr>v_kind := VAL_SPILL_I, v_reg := RV_FP, v_offset := slot\<rparr>,
               emit (store_sized sz (v_reg v) RV_FP (ucast slot)) g))"

definition spill_freg :: "val_t \<Rightarrow> gen \<Rightarrow> val_t \<times> gen" where
  "spill_freg v g =
     (if v_kind v \<noteq> VAL_REG \<or> \<not> is_float_type (ty_of v g) then (v, g)
      else let (slot, g) = alloc_slot g
           in (v\<lparr>v_kind := VAL_SPILL_F, v_reg := RV_FP, v_offset := slot\<rparr>,
               emit (if is_double_type (ty_of v g) then rv_fsd (v_reg v) RV_FP (ucast slot)
                     else rv_fsw (v_reg v) RV_FP (ucast slot)) g))"

definition spill_lval :: "val_t \<Rightarrow> gen \<Rightarrow> val_t \<times> gen" where
  "spill_lval v g =
     (if v_kind v \<noteq> VAL_LVAL \<or> v_reg v = RV_FP then (v, g)
      else let (slot, g) = alloc_slot g;
               g = (if v_offset v = 0 then emit (rv_sd (v_reg v) RV_FP (ucast slot)) g
                    else emit (rv_sd RV_T3 RV_FP (ucast slot)) (emit (rv_addi_imm RV_T3 (v_reg v) (v_offset v)) g))
           in (v\<lparr>v_kind := VAL_SPILL, v_reg := RV_FP, v_offset := slot\<rparr>, g))"

subsection \<open>Stores\<close>

text \<open>The address of the left-hand side into a register.\<close>

definition lhs_addr :: "val_t \<Rightarrow> u32 \<Rightarrow> gen \<Rightarrow> (val_t \<times> gen) option" where
  "lhs_addr lhs addr_reg g =
     (if v_kind lhs \<in> {VAL_SYM, VAL_SPILL} then materialize lhs addr_reg g
      else Some (lhs, emit (rv_addi_imm addr_reg (v_reg lhs) (v_offset lhs)) g))"

text \<open>The copy of a struct: eight bytes at a time when it is aligned, the rest byte by byte.\<close>

definition copy_at :: "nat \<Rightarrow> nat \<Rightarrow> gen \<Rightarrow> gen" where
  "copy_at n off g =
     (if n = 8 then emit (rv_sd RV_T1 RV_T2 (word_of_nat off)) (emit (rv_ld RV_T1 RV_T0 (word_of_nat off)) g)
      else emit (rv_sb RV_T1 RV_T2 (word_of_nat off)) (emit (rv_lbu RV_T1 RV_T0 (word_of_nat off)) g))"

definition copy_struct :: "nat \<Rightarrow> bool \<Rightarrow> gen \<Rightarrow> gen" where
  "copy_struct sz aligned g =
     (let n = (if aligned then sz div 8 else 0);
          g = fold (\<lambda>i. copy_at 8 (8 * i)) [0..<n] g
      in fold (copy_at 1) [8 * n..<sz] g)"

definition fp_compound :: "token_kind \<Rightarrow> bool \<Rightarrow> gen \<Rightarrow> gen" where
  "fp_compound op is_d g =
     (if op = T_PLUS_ASSIGN then emit ((if is_d then rv_fadd_d else rv_fadd_s) RV_FT0 RV_FT1 RV_FT0) g
      else if op = T_MINUS_ASSIGN then emit ((if is_d then rv_fsub_d else rv_fsub_s) RV_FT0 RV_FT1 RV_FT0) g
      else if op = T_STAR_ASSIGN then emit ((if is_d then rv_fmul_d else rv_fmul_s) RV_FT0 RV_FT1 RV_FT0) g
      else if op = T_SLASH_ASSIGN then emit ((if is_d then rv_fdiv_d else rv_fdiv_s) RV_FT0 RV_FT1 RV_FT0) g
      else cc_error g)"

definition int_compound :: "token_kind \<Rightarrow> bool \<Rightarrow> gen \<Rightarrow> gen" where
  "int_compound op uns g =
     (let old = RV_T1; op3 = (\<lambda>f. emit (f RV_T0 old RV_T0) g)
      in if op = T_PLUS_ASSIGN then op3 rv_add
         else if op = T_MINUS_ASSIGN then op3 rv_sub
         else if op = T_STAR_ASSIGN then op3 rv_mul
         else if op = T_SLASH_ASSIGN then op3 (if uns then rv_divu else rv_div)
         else if op = T_PERCENT_ASSIGN then op3 (if uns then rv_remu else rv_rem)
         else if op = T_AND_ASSIGN then op3 rv_and
         else if op = T_OR_ASSIGN then op3 rv_or
         else if op = T_XOR_ASSIGN then op3 rv_xor
         else if op = T_SHL_ASSIGN then op3 rv_sll
         else if op = T_SHR_ASSIGN then op3 (if uns then rv_srl else rv_sra)
         else g)"

definition store_struct :: "val_t \<Rightarrow> val_t \<Rightarrow> type_t \<Rightarrow> gen \<Rightarrow> (val_t \<times> gen) option" where
  "store_struct lhs rhs t g =
     (case materialize rhs RV_T0 g of
        None \<Rightarrow> None
      | Some (_, g) \<Rightarrow>
          (case lhs_addr lhs RV_T2 g of
             None \<Rightarrow> None
           | Some (lhs, g) \<Rightarrow>
               let (sz, g) = sizeof t g in Some (lhs, copy_struct (unat sz) (8 \<le> type_alignof t) g)))"

definition store_float :: "fpu \<Rightarrow> val_t \<Rightarrow> val_t \<Rightarrow> token_kind \<Rightarrow> nat \<Rightarrow> gen \<Rightarrow> (val_t \<times> gen) option" where
  "store_float u lhs rhs op tid g =
     (let is_d = is_double_kind (ty_kind (g_types g ! tid));
          value = (if op \<noteq> T_ASSIGN
                   then (case convert_scalar u rhs tid g of
                           None \<Rightarrow> None
                         | Some (rhs, g) \<Rightarrow>
                             (case load_float_value u lhs RV_FT1 g of
                                None \<Rightarrow> None
                              | Some (_, g) \<Rightarrow>
                                  map_option (\<lambda>(_, g). fp_compound op is_d g) (load_float_value u rhs RV_FT0 g)))
                   else map_option snd (load_float_value u rhs RV_FT0 g))
      in case value of
           None \<Rightarrow> None
         | Some g \<Rightarrow>
             map_option (\<lambda>(lhs, g). (lhs, emit (if is_d then rv_fsd RV_FT0 RV_T0 0 else rv_fsw RV_FT0 RV_T0 0) g))
               (lhs_addr lhs RV_T0 g))"

definition store_int :: "val_t \<Rightarrow> val_t \<Rightarrow> token_kind \<Rightarrow> type_t \<Rightarrow> gen \<Rightarrow> (val_t \<times> gen) option" where
  "store_int lhs rhs op t g =
     (case load_value rhs RV_T0 g of
        None \<Rightarrow> None
      | Some (_, g) \<Rightarrow>
          let cur = (if op \<noteq> T_ASSIGN then map_option snd (load_value lhs RV_T1 g) else Some g);
              scaled = (case cur of
                  None \<Rightarrow> None
                | Some g \<Rightarrow>
                    if type_is_pointer t \<and> op \<in> {T_PLUS_ASSIGN, T_MINUS_ASSIGN}
                    then (case ty_base t of
                            None \<Rightarrow> None
                          | Some b \<Rightarrow>
                              let (sz, g) = sizeof (g_types g ! b) g; g = emit (rv_addi_imm RV_T2 RV_ZERO sz) g
                              in Some (emit (rv_mul RV_T0 RV_T0 RV_T2) g))
                    else Some g)
          in case scaled of
               None \<Rightarrow> None
             | Some g \<Rightarrow>
                 map_option (\<lambda>(lhs, g). let (sz, g) = sizeof t g in (lhs, emit (store_sized sz RV_T0 RV_T2 0) g))
                   (lhs_addr lhs RV_T2 (int_compound op (type_is_unsigned t) g)))"

text \<open>The result is the left-hand side as the call leaves it.\<close>

definition gen_store :: "fpu \<Rightarrow> val_t \<Rightarrow> val_t \<Rightarrow> token_kind \<Rightarrow> gen \<Rightarrow> (val_t \<times> gen) option" where
  "gen_store u lhs rhs op g =
     (if v_kind lhs \<notin> {VAL_SYM, VAL_LVAL, VAL_SPILL} then Some (lhs, cc_error g)
      else case v_type lhs of
        None \<Rightarrow> None
      | Some tid \<Rightarrow>
          let t = g_types g ! tid
          in if op = T_ASSIGN \<and> ty_kind t \<in> {TY_STRUCT, TY_UNION} then store_struct lhs rhs t g
             else case (if op = T_ASSIGN then convert_scalar u rhs tid g else Some (rhs, g)) of
               None \<Rightarrow> None
             | Some (rhs, g) \<Rightarrow>
                 if is_float_kind (ty_kind t) then store_float u lhs rhs op tid g
                 else store_int lhs rhs op t g)"

subsection \<open>Binary operators\<close>

definition op_prec :: "token_kind \<Rightarrow> nat" where
  "op_prec k =
     (case k of
        T_STAR \<Rightarrow> 10 | T_SLASH \<Rightarrow> 10 | T_PERCENT \<Rightarrow> 10
      | T_PLUS \<Rightarrow> 9 | T_MINUS \<Rightarrow> 9
      | T_SHL \<Rightarrow> 8 | T_SHR \<Rightarrow> 8
      | T_LT \<Rightarrow> 7 | T_GT \<Rightarrow> 7 | T_LE \<Rightarrow> 7 | T_GE \<Rightarrow> 7
      | T_EQ \<Rightarrow> 6 | T_NE \<Rightarrow> 6
      | T_AMP \<Rightarrow> 5 | T_CARET \<Rightarrow> 4 | T_PIPE \<Rightarrow> 3 | T_AND \<Rightarrow> 2 | T_OR \<Rightarrow> 1
      | _ \<Rightarrow> 0)"

definition is_comparison :: "token_kind \<Rightarrow> bool" where
  "is_comparison op \<longleftrightarrow> op \<in> {T_EQ, T_NE, T_LT, T_LE, T_GT, T_GE}"

text \<open>An array or function operand is loaded and gets its pointer type.\<close>

definition decay_operand :: "val_t \<Rightarrow> gen \<Rightarrow> (val_t \<times> gen) option" where
  "decay_operand v g =
     (case v_type v of
        None \<Rightarrow> None
      | Some t \<Rightarrow>
          if decays (g_types g ! t)
          then let (d, ts) = type_decay t (g_types g)
               in map_option (\<lambda>(v, g). (v\<lparr>v_type := Some d\<rparr>, g)) (load_value v RV_T0 (g\<lparr>g_types := ts\<rparr>))
          else Some (v, g))"

text \<open>What happens to the left operand before the right one is parsed.\<close>

definition binop_lhs :: "val_t \<Rightarrow> gen \<Rightarrow> val_t \<times> gen" where
  "binop_lhs lhs g = (let (lhs, g) = spill_lval lhs g; (lhs, g) = spill_freg lhs g in spill_ireg lhs g)"

text \<open>The floating-point operators; the result is the value or, for a comparison, an \<^verbatim>\<open>int\<close>.\<close>

definition fp_op :: "token_kind \<Rightarrow> bool \<Rightarrow> gen \<Rightarrow> gen" where
  "fp_op op is_d g =
     (if op = T_PLUS then emit ((if is_d then rv_fadd_d else rv_fadd_s) RV_FT0 RV_FT0 RV_FT1) g
      else if op = T_MINUS then emit ((if is_d then rv_fsub_d else rv_fsub_s) RV_FT0 RV_FT0 RV_FT1) g
      else if op = T_STAR then emit ((if is_d then rv_fmul_d else rv_fmul_s) RV_FT0 RV_FT0 RV_FT1) g
      else if op = T_SLASH then emit ((if is_d then rv_fdiv_d else rv_fdiv_s) RV_FT0 RV_FT0 RV_FT1) g
      else if op = T_EQ then emit ((if is_d then rv_feq_d else rv_feq_s) RV_T0 RV_FT0 RV_FT1) g
      else if op = T_NE
      then emit (rv_sltiu RV_T0 RV_T0 1) (emit ((if is_d then rv_feq_d else rv_feq_s) RV_T0 RV_FT0 RV_FT1) g)
      else if op = T_LT then emit ((if is_d then rv_flt_d else rv_flt_s) RV_T0 RV_FT0 RV_FT1) g
      else if op = T_GT then emit ((if is_d then rv_flt_d else rv_flt_s) RV_T0 RV_FT1 RV_FT0) g
      else if op = T_LE then emit ((if is_d then rv_fle_d else rv_fle_s) RV_T0 RV_FT0 RV_FT1) g
      else if op = T_GE then emit ((if is_d then rv_fle_d else rv_fle_s) RV_T0 RV_FT1 RV_FT0) g
      else cc_error g)"

definition fp_binop :: "fpu \<Rightarrow> token_kind \<Rightarrow> val_t \<Rightarrow> val_t \<Rightarrow> nat \<Rightarrow> gen \<Rightarrow> (val_t \<times> gen) option" where
  "fp_binop u op lhs rhs common g =
     (let is_d = is_double_kind (ty_kind (g_types g ! common))
      in case convert_scalar u rhs common g of
           None \<Rightarrow> None
         | Some (_, g) \<Rightarrow>
             map_option (\<lambda>(lhs, g).
                 (if is_comparison op then lhs\<lparr>v_kind := VAL_REG, v_reg := RV_T0, v_type := Some ty_int\<rparr>
                  else lhs\<lparr>v_kind := VAL_REG, v_reg := RV_FT0, v_type := Some common\<rparr>,
                  fp_op op is_d g))
               (convert_scalar u lhs common
                 (emit (rv_emit_fpu_r (if is_d then 0x11 else 0x10) 0 RV_FT1 RV_FT0 RV_FT0) g)))"

text \<open>The integer operators on \<^verbatim>\<open>t0\<close> and \<^verbatim>\<open>t1\<close>; \<open>lhs_uns\<close> decides the right shift.\<close>

definition int_op :: "token_kind \<Rightarrow> bool \<Rightarrow> bool \<Rightarrow> gen \<Rightarrow> gen" where
  "int_op op uns lhs_uns g =
     (let op3 = (\<lambda>f. emit (f RV_T0 RV_T0 RV_T1) g); swapped = (\<lambda>f. emit (f RV_T0 RV_T1 RV_T0) g);
          slt = (if uns then rv_sltu else rv_slt)
      in if op = T_PLUS then op3 rv_add
         else if op = T_MINUS then op3 rv_sub
         else if op = T_STAR then op3 rv_mul
         else if op = T_SLASH then op3 (if uns then rv_divu else rv_div)
         else if op = T_PERCENT then op3 (if uns then rv_remu else rv_rem)
         else if op = T_AMP then op3 rv_and
         else if op = T_PIPE then op3 rv_or
         else if op = T_CARET then op3 rv_xor
         else if op = T_SHL then op3 rv_sll
         else if op = T_SHR then op3 (if lhs_uns then rv_srl else rv_sra)
         else if op = T_EQ then emit (rv_seqz RV_T0 RV_T0) (op3 rv_sub)
         else if op = T_NE then emit (rv_sltu RV_T0 RV_ZERO RV_T0) (op3 rv_sub)
         else if op = T_LT then op3 slt
         else if op = T_GT then swapped slt
         else if op = T_LE then emit (rv_seqz RV_T0 RV_T0) (swapped slt)
         else if op = T_GE then emit (rv_seqz RV_T0 RV_T0) (op3 slt)
         else g)"

text \<open>Multiplying a register by the size of the type pointed to.\<close>

definition scale_by :: "u64 \<Rightarrow> u32 \<Rightarrow> gen \<Rightarrow> gen" where
  "scale_by sz r g = emit (rv_mul r r RV_T2) (emit (rv_addi_imm RV_T2 RV_ZERO sz) g)"

text \<open>The pointer cases before the operator; the result is the common type.\<close>

definition scale_pointers :: "token_kind \<Rightarrow> nat \<Rightarrow> nat \<Rightarrow> nat \<Rightarrow> gen \<Rightarrow> (nat \<times> gen) option" where
  "scale_pointers op lt rt common g =
     (let l = g_types g ! lt; r = g_types g ! rt
      in if type_is_pointer l \<and> type_is_integer r \<and> op \<in> {T_PLUS, T_MINUS}
         then (case ty_base l of
                 None \<Rightarrow> None
               | Some b \<Rightarrow> let (sz, g) = sizeof (g_types g ! b) g
                           in Some (lt, if sz \<noteq> 1 then scale_by sz RV_T1 g else g))
         else if type_is_integer l \<and> type_is_pointer r \<and> op = T_PLUS
         then (case ty_base r of
                 None \<Rightarrow> None
               | Some b \<Rightarrow> let (sz, g) = sizeof (g_types g ! b) g in Some (rt, scale_by sz RV_T0 g))
         else Some (common, g))"

text \<open>The operator itself with the difference of two pointers.\<close>

definition apply_int_op :: "token_kind \<Rightarrow> nat \<Rightarrow> nat \<Rightarrow> nat \<Rightarrow> gen \<Rightarrow> (nat \<times> gen) option" where
  "apply_int_op op lt rt common g =
     (let l = g_types g ! lt; r = g_types g ! rt
      in if op = T_MINUS \<and> type_is_pointer l \<and> type_is_pointer r
         then let g = emit (rv_sub RV_T0 RV_T0 RV_T1) g
              in (case ty_base l of
                    None \<Rightarrow> None
                  | Some b \<Rightarrow>
                      let (sz, g) = sizeof (g_types g ! b) g
                      in Some (ty_long,
                           if sz \<noteq> 1 then emit (rv_div RV_T0 RV_T0 RV_T1) (emit (rv_addi_imm RV_T1 RV_ZERO sz) g)
                           else g))
         else Some (common, int_op op (type_is_unsigned (g_types g ! common)) (type_is_unsigned l) g))"

definition result_type :: "token_kind \<Rightarrow> nat \<Rightarrow> nat \<Rightarrow> gen \<Rightarrow> nat" where
  "result_type op lt common g =
     (if is_comparison op then ty_int
      else if op \<in> {T_SHL, T_SHR} then type_promote lt (g_types g)
      else common)"

definition int_binop :: "token_kind \<Rightarrow> val_t \<Rightarrow> val_t \<Rightarrow> nat \<Rightarrow> gen \<Rightarrow> (val_t \<times> gen) option" where
  "int_binop op lhs rhs common g =
     (case load_value rhs RV_T1 g of
        None \<Rightarrow> None
      | Some (rhs, g) \<Rightarrow>
          (case load_value lhs RV_T0 g of
             None \<Rightarrow> None
           | Some (lhs, g) \<Rightarrow>
               let lt = the (v_type lhs); rt = the (v_type rhs)
               in (case scale_pointers op lt rt common g of
                     None \<Rightarrow> None
                   | Some (common, g) \<Rightarrow>
                       map_option (\<lambda>(common, g).
                           let common = result_type op lt common g
                           in (lhs\<lparr>v_kind := VAL_REG, v_reg := RV_T0, v_type := Some common\<rparr>,
                               narrow (g_types g ! common) g))
                         (apply_int_op op lt rt common g))))"

text \<open>
  The rest of a round of \<^verbatim>\<open>parse_binop_rhs\<close> once the right operand is parsed, for every operator
  but the two short-circuiting ones.
\<close>

definition binop_rhs :: "fpu \<Rightarrow> token_kind \<Rightarrow> val_t \<Rightarrow> val_t \<Rightarrow> gen \<Rightarrow> (val_t \<times> gen) option" where
  "binop_rhs u op lhs rhs g =
     (let (rhs, g) = spill_lval rhs g
      in case decay_operand rhs g of
           None \<Rightarrow> None
         | Some (rhs, g) \<Rightarrow>
             (case (v_type lhs, v_type rhs) of
                (Some lt, Some rt) \<Rightarrow>
                  let common = type_common lt rt (g_types g)
                  in if is_float_kind (ty_kind (g_types g ! common)) then fp_binop u op lhs rhs common g
                     else int_binop op lhs rhs common g
              | _ \<Rightarrow> None))"

end
