(* ===== verification/Gen_Exec.thy ===== *)
theory Gen_Exec
  imports Gen_Values Encoder_Mem Encoder_Alu
begin

text \<open>
  What the code of the value layer of \<^verbatim>\<open>src/back/gen.c\<close> computes when the interpreter of
  \<^verbatim>\<open>tools/onx-run.c\<close> runs it. A value descriptor denotes a value in a machine state; the functions
  of the layer are shown to emit code after which the register holds that value.
\<close>

subsection \<open>Code that does not write memory\<close>

definition plain_word :: "u32 \<Rightarrow> bool" where
  "plain_word w \<longleftrightarrow> f_opcode w \<in> {0x13, 0x33, 0x37, 0x17, 0x03}"

lemma alu_plain: "alu_word w \<Longrightarrow> plain_word w"
  by (auto simp: alu_word_def plain_word_def)

lemma exec_load_frame:
  assumes "exec_load w s = Inr (s', pc')"
  shows "g_pages s' = g_pages s \<and> pc' = g_pc s + 4 \<and> g_freg s' = g_freg s"
proof -
  have "\<exists>v. (s', pc') = (set_reg (f_rd w) v s, g_pc s + 4)"
    using assms unfolding exec_load_def Let_def by (auto simp: bindE_eq_Inr split: if_split_asm)
  then show ?thesis by auto
qed

lemma alu_word_freg:
  assumes "alu_word w" "exec_insn u h w s = Inr (s', pc')"
  shows "g_freg s' = g_freg s"
proof -
  have "exec_insn u h w s \<in> {exec_op_imm w s, exec_op w s, exec_lui w s, exec_auipc w s}"
    using assms(1) by (auto simp: alu_word_def exec_insn_def)
  then show ?thesis
    using assms(2)
    by (auto simp: exec_op_imm_def exec_op_def exec_lui_def exec_auipc_def Let_def
        put_or_skip_def put_or_illegal_def split: if_splits option.splits)
qed

lemma plain_word_exec:
  assumes "plain_word w" and "exec_insn u h w s = Inr (s', pc')"
  shows "g_pages s' = g_pages s" and "pc' = g_pc s + 4" and "g_freg s' = g_freg s"
proof -
  have "alu_word w \<or> exec_insn u h w s = exec_load w s"
    using assms(1) by (auto simp: plain_word_def alu_word_def exec_insn_def)
  then show "g_pages s' = g_pages s" and "pc' = g_pc s + 4" and "g_freg s' = g_freg s"
    using assms(2) alu_word_exec alu_word_freg exec_load_frame by (metis, metis, metis)
qed

lemma run_plain:
  "list_all plain_word (butlast ws) \<Longrightarrow> code_at (g_pages s) (g_pc s) ws \<Longrightarrow>
     run u h (length ws) s = exec_seq u h ws s"
proof (induction ws arbitrary: s)
  case Nil
  then show ?case by simp
next
  case (Cons w ws)
  show ?case
  proof (cases "exec_insn u h w s")
    case (Inl e)
    with Cons.prems show ?thesis by (simp add: step_def)
  next
    case (Inr r)
    obtain s' pc' where r: "r = (s', pc')" by (cases r)
    show ?thesis
    proof (cases "ws = []")
      case True
      with Inr Cons.prems show ?thesis by (simp add: step_def)
    next
      case False
      then have "g_pages s' = g_pages s" "pc' = g_pc s + 4"
        using plain_word_exec [of w u h s s' pc'] Cons.prems Inr r by auto
      with Cons False Inr r show ?thesis by (simp add: step_def)
    qed
  qed
qed

subsection \<open>What a step of the generator adds\<close>

text \<open>The words a step of the generator appends to the text.\<close>

definition adds :: "gen \<Rightarrow> gen \<Rightarrow> u32 list \<Rightarrow> bool" where
  "adds g g' ws \<longleftrightarrow> (buf_wf (g_text g) \<longrightarrow> buf_wf (g_text g') \<and>
     buf_data (g_text g') = buf_data (g_text g) @ concat (map le32 ws))"

definition new_code :: "gen \<Rightarrow> gen \<Rightarrow> u8 list" where
  "new_code g g' = drop (buf_size (g_text g)) (buf_data (g_text g'))"

lemma adds_nil: "g_text g' = g_text g \<Longrightarrow> adds g g' []"
  by (simp add: adds_def)

lemma adds_emit: "emits f ws \<Longrightarrow> adds g (emit f g) ws"
  by (simp add: adds_def emit_def emits_def appends_def)

lemma adds_trans: "adds g g1 ws \<Longrightarrow> adds g1 g2 vs \<Longrightarrow> adds g g2 (ws @ vs)"
  by (auto simp: adds_def)

lemma adds_code_at:
  assumes "adds g g' ws" "buf_wf (g_text g)" "in_memory (new_code g g') s"
  shows "code_at (g_pages s) (g_pc s) ws" "length (new_code g g') = 4 * length ws"
proof -
  have eq: "new_code g g' = concat (map le32 ws)"
    using assms(1,2) by (simp add: new_code_def adds_def buf_wf_def)
  then show len: "length (new_code g g') = 4 * length ws"
    by (simp add: length_concat o_def sum_list_triv)
  show "code_at (g_pages s) (g_pc s) ws"
    using assms(3) len eq by (intro code_at_bytes) (simp add: in_memory_def)
qed

text \<open>
  A step of the generator whose code runs from \<open>s\<close> to \<open>s'\<close>, writes no memory and changes no
  register outside \<open>R\<close>.
\<close>

definition gives :: "fpu \<Rightarrow> 'h host_ops \<Rightarrow> gen \<Rightarrow> gen \<Rightarrow> nat set \<Rightarrow> 'h cpu \<Rightarrow> 'h cpu \<Rightarrow> bool" where
  "gives u h g g' R s s' \<longleftrightarrow>
     (\<exists>ws. adds g g' ws \<and> list_all plain_word ws \<and> exec_seq u h ws s = Inr s'
        \<and> g_pc s' = g_pc s + code_len ws)
     \<and> (\<forall>k. k \<notin> R \<longrightarrow> g_reg s' k = g_reg s k) \<and> g_freg s' = g_freg s \<and> g_pages s' = g_pages s"

lemma gives_frame:
  "gives u h g g' R s s' \<Longrightarrow> k \<notin> R \<Longrightarrow> g_reg s' k = g_reg s k"
  "gives u h g g' R s s' \<Longrightarrow> g_pages s' = g_pages s"
  by (simp_all add: gives_def)

lemma gives_refl: "g_text g' = g_text g \<Longrightarrow> gives u h g g' R s s"
  unfolding gives_def by (auto intro!: exI [of _ "[]"] simp: adds_nil)

lemma gives_trans:
  assumes "gives u h g g1 R s s1" "gives u h g1 g2 R s1 s2"
  shows "gives u h g g2 R s s2"
proof -
  obtain ws vs where "adds g g1 ws" "list_all plain_word ws" "exec_seq u h ws s = Inr s1" "g_pc s1 = g_pc s + code_len ws"
    and "adds g1 g2 vs" "list_all plain_word vs" "exec_seq u h vs s1 = Inr s2" "g_pc s2 = g_pc s1 + code_len vs"
    using assms by (auto simp: gives_def)
  then have "adds g g2 (ws @ vs)" "list_all plain_word (ws @ vs)" "exec_seq u h (ws @ vs) s = Inr s2"
    "g_pc s2 = g_pc s + code_len (ws @ vs)"
    by (simp_all add: adds_trans exec_seq_append add.assoc)
  then show ?thesis
    using assms unfolding gives_def by (intro conjI exI [of _ "ws @ vs"]) auto
qed

lemma gives_mono: "gives u h g g' R s s' \<Longrightarrow> R \<subseteq> R' \<Longrightarrow> gives u h g g' R' s s'"
  unfolding gives_def by blast

lemma gives_same_text:
  "gives u h g1 g2 R s s' \<Longrightarrow> g_text g = g_text g1 \<Longrightarrow> g_text g' = g_text g2 \<Longrightarrow> gives u h g g' R s s'"
  by (simp add: gives_def adds_def)

lemma gives_run:
  assumes "gives u h g g' R s s'" "buf_wf (g_text g)" "in_memory (new_code g g') s"
  shows "run u h (length (new_code g g') div 4) s = Inr s'"
    and "g_pc s' = g_pc s + word_of_nat (length (new_code g g'))"
proof -
  obtain ws where ws: "adds g g' ws" "list_all plain_word ws" "exec_seq u h ws s = Inr s'" "g_pc s' = g_pc s + code_len ws"
    using assms(1) by (auto simp: gives_def)
  have "list_all plain_word (butlast ws)" using ws(2) by (auto simp: list_all_iff dest: in_set_butlastD)
  with ws adds_code_at [OF ws(1) assms(2,3)]
  show "run u h (length (new_code g g') div 4) s = Inr s'" "g_pc s' = g_pc s + word_of_nat (length (new_code g g'))"
    using run_plain [of ws s u h] by (simp_all add: code_len_def)
qed

subsection \<open>Single steps\<close>

text \<open>The registers every step may change besides its destination: the scratch registers of the encoder.\<close>

definition clob :: "u32 \<Rightarrow> nat set" where
  "clob r = {reg_no r, 30, 31}"

lemma gives_emitI:
  assumes "emits f ws" "list_all plain_word ws" "exec_seq u h ws s = Inr s'"
    "g_pc s' = g_pc s + code_len ws" "\<forall>k. k \<notin> R \<longrightarrow> g_reg s' k = g_reg s k"
    "g_freg s' = g_freg s" "g_pages s' = g_pages s"
  shows "gives u h g (emit f g) R s s'"
  using assms adds_emit [OF assms(1)] unfolding gives_def by blast

lemma gives_addi_imm:
  assumes "rs1 < 32" "reg_no rd \<noteq> 0" "g_reg s 0 = 0"
  shows "\<exists>s'. gives u h g (emit (rv_addi_imm rd rs1 imm) g) (clob rd) s s'
    \<and> g_reg s' (reg_no rd) = g_reg s (reg_no rs1) + imm"
proof -
  let ?s' = "s\<lparr>g_reg := addi_imm_regs rd rs1 imm (g_reg s), g_pc := g_pc s + code_len (addi_imm_words rd rs1 imm)\<rparr>"
  have "list_all plain_word (addi_imm_words rd rs1 imm)"
    using addi_imm_alu [of rd rs1 imm] by (auto simp: list_all_iff alu_plain)
  then have "gives u h g (emit (rv_addi_imm rd rs1 imm) g) (clob rd) s ?s'"
    using addi_imm_regs_props [OF assms(1)] exec_addi_imm [OF assms]
    by (intro gives_emitI [OF emits_addi_imm]) (auto simp: clob_def)
  then show ?thesis using addi_imm_regs_props(1) [OF assms(1)] by auto
qed

text \<open>Any single instruction that puts a value into a register.\<close>

lemma gives_put:
  assumes "emits f [w]" "plain_word w" "exec_insn u h w s = Inr (set_reg (reg_no rd) x s, g_pc s + 4)"
    "reg_no rd \<noteq> 0" "g_reg s 0 = 0" "R = {reg_no rd}"
  shows "gives u h g (emit f g) R s (done_reg (reg_no rd) x 4 s)"
  using assms by (intro gives_emitI [OF assms(1)]) (auto simp: retire_set_reg done_reg_def)

lemma gives_load:
  assumes "f3 < 7" "rs1 < 32" "reg_no rd \<noteq> 0" "g_reg s 0 = 0"
    "loaded (g_pages s) f3 (g_reg s (reg_no rs1) + scast imm) = Inr v"
  shows "\<exists>s'. gives u h g (emit (emit_i_load f3 rd rs1 imm) g) (clob rd) s s' \<and> g_reg s' (reg_no rd) = v"
proof -
  let ?k = "\<lambda>r i. i_word i r (f3 AND 7) rd 0x03"
  let ?ws = "addr_words rs1 imm ?k"
  have f3: "f3 AND 7 = f3" using assms(1) by (rule and_7_small [OF order.strict_trans]) simp
  have em: "emits (emit_i_load f3 rd rs1 imm) ?ws" unfolding emit_i_load_def by (rule emits_with_addr)
  obtain base off s1 where rdy: "addr_ready s rs1 imm base off s1 (code_len (butlast ?ws))"
    and ex: "exec_seq u h ?ws s = bindE (exec_insn u h (?k base off) s1) (\<lambda>r. Inr (retire r))"
    using exec_addr_words [OF assms(2,4)] by blast
  let ?s' = "retire (set_reg (reg_no rd) v s1, g_pc s1 + 4)"
  have "exec_seq u h ?ws s = Inr ?s'"
    using ex exec_loaded [OF assms(1) addr_readyD(2) [OF rdy], of u h base rd s1] addr_readyD [OF rdy] f3 assms(5) by simp
  moreover have "list_all plain_word ?ws"
  proof -
    have "list_all plain_word (butlast ?ws)"
      using addr_words_alu [of rs1 imm ?k] by (auto simp: list_all_iff alu_plain)
    moreover have "plain_word (last ?ws)"
      using f3 by (simp add: addr_words_def plain_word_def i_word_fields)
    ultimately have "list_all plain_word (butlast ?ws @ [last ?ws])" by simp
    then show ?thesis by (simp add: addr_words_def butlast_append split: if_splits)
  qed
  moreover have "g_pc ?s' = g_pc s + code_len ?ws"
    using addr_readyD(5) [OF rdy] addr_words_len [of rs1 imm ?k] by (simp add: add.assoc)
  moreover have "\<forall>k. k \<notin> clob rd \<longrightarrow> g_reg ?s' k = g_reg s k"
    using addr_readyD(6) [OF rdy] assms(4) by (auto simp: clob_def)
  ultimately have "gives u h g (emit (emit_i_load f3 rd rs1 imm) g) (clob rd) s ?s'"
    using addr_readyD(3,4) [OF rdy] by (intro gives_emitI [OF em]) simp_all
  then show ?thesis using assms(3) by (intro exI [of _ ?s']) simp
qed

subsection \<open>What a descriptor denotes\<close>

definition f3_of :: "bool \<Rightarrow> u64 \<Rightarrow> u32" where
  "f3_of uns sz = (if sz = 1 then (if uns then 4 else 0) else if sz = 2 then (if uns then 5 else 1)
     else if sz = 4 then (if uns then 6 else 2) else 3)"

text \<open>The value of an object of a type at an address.\<close>

definition typed_load :: "pages \<Rightarrow> type_t \<Rightarrow> u64 \<Rightarrow> u64 option" where
  "typed_load m t a =
     (case loaded m (f3_of (type_is_unsigned t) (if is_complete t then ty_size t else 0)) a of
        Inl _ \<Rightarrow> None | Inr v \<Rightarrow> Some v)"

definition slot_addr :: "u64 \<Rightarrow> 'h cpu \<Rightarrow> u64" where
  "slot_addr off s = g_reg s 8 + scast (ucast off :: u32)"

text \<open>The address of an object: in a register, in a stack slot, or of a local variable.\<close>

definition lval_addr :: "gen \<Rightarrow> val_t \<Rightarrow> 'h cpu \<Rightarrow> u64 option" where
  "lval_addr g v s =
     (case v_kind v of
        VAL_LVAL \<Rightarrow> Some (g_reg s (reg_no (v_reg v)) + v_offset v)
      | VAL_SPILL \<Rightarrow> (case loaded (g_pages s) 3 (slot_addr (v_offset v) s) of Inl _ \<Rightarrow> None | Inr a \<Rightarrow> Some a)
      | VAL_SYM \<Rightarrow>
          if n_globals g \<le> v_sym_idx v
          then Some (g_reg s 8 + scast (ucast (sym_offset (g_locals (g_syms g) ! nat (v_sym_idx v - n_globals g)))
                 + ucast (v_offset v) :: u32))
          else None
      | _ \<Rightarrow> None)"

definition val_value :: "gen \<Rightarrow> val_t \<Rightarrow> 'h cpu \<Rightarrow> u64 option" where
  "val_value g v s =
     (case v_kind v of
        VAL_IMM \<Rightarrow> Some (v_imm v)
      | VAL_REG \<Rightarrow> Some (g_reg s (reg_no (v_reg v)))
      | VAL_SPILL_F \<Rightarrow> None
      | VAL_SPILL_I \<Rightarrow>
          (case ty_of v g of
             None \<Rightarrow> None
           | Some t \<Rightarrow>
               if decays t then (case loaded (g_pages s) 3 (slot_addr (v_offset v) s) of Inl _ \<Rightarrow> None | Inr x \<Rightarrow> Some x)
               else typed_load (g_pages s) t (slot_addr (v_offset v) s))
      | _ \<Rightarrow>
          (case (lval_addr g v s, ty_of v g) of
             (Some a, Some t) \<Rightarrow> if decays t then Some a else typed_load (g_pages s) t a
           | _ \<Rightarrow> None))"

definition in_reg :: "val_t \<Rightarrow> u32 \<Rightarrow> val_t \<Rightarrow> bool" where
  "in_reg v r v' \<longleftrightarrow> v_kind v' = VAL_REG \<and> v_reg v' = r \<and> v_type v' = v_type v"

text \<open>What the steps of the value layer leave alone.\<close>

definition same_env :: "gen \<Rightarrow> gen \<Rightarrow> bool" where
  "same_env g g' \<longleftrightarrow> g_types g' = g_types g \<and> g_syms g' = g_syms g \<and> cur_offset g' = cur_offset g
     \<and> frame_size g' = frame_size g"

lemma same_env_emit [simp]: "same_env g (emit f g)"
  by (simp add: same_env_def emit_def)

lemma same_env_refl [simp]: "same_env g g"
  by (simp add: same_env_def)

lemma same_env_trans: "same_env g g1 \<Longrightarrow> same_env g1 g2 \<Longrightarrow> same_env g g2"
  by (simp add: same_env_def)

lemma load_sized_eq: "load_sized uns sz = emit_i_load (f3_of uns sz)"
  by (intro ext) (simp add: load_sized_def f3_of_def rv_lb_def rv_lbu_def rv_lh_def rv_lhu_def rv_lw_def rv_lwu_def rv_ld_def)

lemma f3_of_less: "f3_of uns sz < 7"
  by (simp add: f3_of_def)

lemma sizeof_eq:
  assumes "sizeof t g = (sz, g')"
  shows "sz = (if is_complete t then ty_size t else 0)" "g_text g' = g_text g" "same_env g g'"
  using assms by (auto simp: sizeof_def type_sizeof_def same_env_def split: if_splits)

subsection \<open>Addresses\<close>

lemma materialize_lval:
  assumes "materialize v reg g = Some (v', g')" "lval_addr g v s = Some a"
    and "v_reg v < 32" "reg_no reg \<noteq> 0" "g_reg s 0 = 0"
  shows "\<exists>s'. gives u h g g' (clob reg) s s' \<and> g_reg s' (reg_no reg) = a"
    and "v' = v\<lparr>v_kind := VAL_LVAL, v_reg := reg, v_offset := 0\<rparr>" and "same_env g g'"
proof -
  have k: "v_kind v = VAL_LVAL \<or> v_kind v = VAL_SPILL \<or> v_kind v = VAL_SYM \<and> n_globals g \<le> v_sym_idx v"
    using assms(2) by (auto simp: lval_addr_def split: val_kind.splits if_splits)
  then show "v' = v\<lparr>v_kind := VAL_LVAL, v_reg := reg, v_offset := 0\<rparr>" and "same_env g g'"
    using assms(1) by (auto simp: materialize_def Let_def split: if_splits)
  show "\<exists>s'. gives u h g g' (clob reg) s s' \<and> g_reg s' (reg_no reg) = a"
    using k
  proof (elim disjE conjE)
    assume l: "v_kind v = VAL_LVAL"
    show ?thesis
    proof (cases "v_reg v = reg \<and> v_offset v = 0")
      case True
      with l assms(1,2) show ?thesis by (auto simp: materialize_def lval_addr_def intro: gives_refl)
    next
      case False
      then have "g' = emit (rv_addi_imm reg (v_reg v) (v_offset v)) g"
        using assms(1) l by (auto simp: materialize_def split: if_splits)
      then show ?thesis using gives_addi_imm [OF assms(3-5)] assms(2) l by (auto simp: lval_addr_def)
    qed
  next
    assume "v_kind v = VAL_SPILL"
    then show ?thesis
      using assms(1,2) gives_load [of 3 8 reg s "ucast (v_offset v)" a u h g] assms(4,5)
      by (auto simp: materialize_def lval_addr_def slot_addr_def rv_ld_def reg_no_def split: sum.splits)
  next
    assume "v_kind v = VAL_SYM" "n_globals g \<le> v_sym_idx v"
    then show ?thesis
      using assms(1,2) gives_addi_imm [of 8 reg s u h g, OF _ assms(4,5)]
      by (auto simp: materialize_def lval_addr_def reg_no_def Let_def)
  qed
qed

subsection \<open>Values\<close>

lemma gives_mv:
  assumes "reg_no rd \<noteq> 0" "g_reg s 0 = 0"
  shows "\<exists>s'. gives u h g (emit (rv_mv rd rs) g) (clob rd) s s' \<and> g_reg s' (reg_no rd) = g_reg s (reg_no rs)"
proof -
  have "gives u h g (emit (rv_mv rd rs) g) {reg_no rd} s (done_reg (reg_no rd) (g_reg s (reg_no rs) + scast (0 :: u32)) 4 s)"
    using assms unfolding rv_mv_def rv_addi_def
    by (intro gives_put [OF emits_emit32 alu_plain exec_insn_addi]) (simp_all add: alu_words fits12_def)
  then have "gives u h g (emit (rv_mv rd rs) g) (clob rd) s (done_reg (reg_no rd) (g_reg s (reg_no rs) + scast (0 :: u32)) 4 s)"
    by (rule gives_mono) (simp add: clob_def)
  then show ?thesis by (intro exI [of _ "done_reg (reg_no rd) (g_reg s (reg_no rs) + scast (0 :: u32)) 4 s"]) simp
qed

text \<open>The property of \<^verbatim>\<open>load_value\<close> and its four cases.\<close>

definition loads :: "fpu \<Rightarrow> 'h host_ops \<Rightarrow> val_t \<Rightarrow> u32 \<Rightarrow> u64 \<Rightarrow> 'h cpu \<Rightarrow> gen \<Rightarrow> val_t \<Rightarrow> gen \<Rightarrow> bool" where
  "loads u h v reg x s g v' g' \<longleftrightarrow>
     (\<exists>s'. gives u h g g' (clob reg) s s' \<and> g_reg s' (reg_no reg) = x) \<and> in_reg v reg v' \<and> same_env g g'"

lemma load_value_direct:
  assumes "load_value v reg g = Some (v', g')" "val_value g v s = Some x" "v_kind v \<in> {VAL_IMM, VAL_REG}"
    and "reg_no reg \<noteq> 0" "g_reg s 0 = 0"
  shows "loads u h v reg x s g v' g'"
proof (cases "v_kind v = VAL_IMM")
  case True
  then have "v' = v\<lparr>v_kind := VAL_REG, v_reg := reg\<rparr>" "g' = emit (rv_addi_imm reg 0 (v_imm v)) g" "x = v_imm v"
    using assms(1,2) by (simp_all add: load_value_def materialize_def val_value_def)
  then show ?thesis
    using gives_addi_imm [of 0 reg s u h g "v_imm v", OF _ assms(4,5)] assms(5)
    by (simp add: loads_def in_reg_def reg_no_def)
next
  case False
  then have k: "v_kind v = VAL_REG" and x: "x = g_reg s (reg_no (v_reg v))"
    using assms(2,3) by (simp_all add: val_value_def)
  show ?thesis
  proof (cases "v_reg v = reg")
    case True
    then have "v' = v" "g' = g" using assms(1) k by (simp_all add: load_value_def materialize_def)
    then show ?thesis using k True x by (auto simp: loads_def in_reg_def intro: gives_refl)
  next
    case False
    then have "v' = v\<lparr>v_reg := reg\<rparr>" "g' = emit (rv_mv reg (v_reg v)) g"
      using assms(1) k by (simp_all add: load_value_def materialize_def)
    then show ?thesis using gives_mv [OF assms(4,5)] k x by (simp add: loads_def in_reg_def)
  qed
qed

lemma load_value_spill:
  assumes "load_value v reg g = Some (v', g')" "val_value g v s = Some x" "v_kind v = VAL_SPILL_I"
    and "reg_no reg \<noteq> 0" "g_reg s 0 = 0"
  shows "loads u h v reg x s g v' g'"
proof -
  obtain t where t: "ty_of v g = Some t" using assms(2,3) by (cases "ty_of v g") (simp_all add: val_value_def)
  obtain sz g1 where g1: "(if decays t then (8, g) else sizeof t g) = (sz, g1)" by (rule prod.exhaust)
  have env: "g_text g1 = g_text g" "same_env g g1"
    using g1 sizeof_eq(2,3) [of t g] by (auto split: if_split_asm)
  let ?f3 = "if decays t then 3 else f3_of (type_is_unsigned t) sz"
  have g': "g' = emit (emit_i_load ?f3 reg 8 (ucast (v_offset v))) g1" and v': "in_reg v reg v'"
    using assms(1,3) t g1 by (auto simp: load_value_def load_sized_eq rv_ld_def in_reg_def split: if_split_asm)
  have "loaded (g_pages s) ?f3 (g_reg s (reg_no 8) + scast (ucast (v_offset v) :: u32)) = Inr x"
    using assms(2,3) t g1 sizeof_eq(1) [of t g sz g1]
    by (simp add: val_value_def typed_load_def slot_addr_def reg_no_def split: if_split_asm sum.split_asm)
  moreover have "?f3 < 7" using f3_of_less by simp
  ultimately obtain s' where "gives u h g1 g' (clob reg) s s'" "g_reg s' (reg_no reg) = x"
    using gives_load [of ?f3 8 reg s "ucast (v_offset v)" x u h g1] assms(4,5) g' by auto
  then have "gives u h g g' (clob reg) s s' \<and> g_reg s' (reg_no reg) = x"
    using gives_same_text [of u h g1 g' "clob reg" s s' g g'] env(1) by simp
  moreover have "same_env g g'" using env(2) g' by (simp add: same_env_def emit_def)
  ultimately show ?thesis using v' by (auto simp: loads_def)
qed

lemma load_value_lval:
  assumes "load_value v reg g = Some (v', g')" "val_value g v s = Some x" "v_kind v \<in> {VAL_LVAL, VAL_SPILL, VAL_SYM}"
    and "v_reg v < 32" "reg_no reg \<noteq> 0" "g_reg s 0 = 0" "reg < 32"
  shows "loads u h v reg x s g v' g'"
proof -
  obtain a t where a: "lval_addr g v s = Some a" and t: "ty_of v g = Some t"
    and x: "(if decays t then Some a else typed_load (g_pages s) t a) = Some x"
    using assms(2,3) by (auto simp: val_value_def split: option.split_asm)
  obtain v1 g1 where m: "materialize v reg g = Some (v1, g1)"
    using assms(1,3) by (auto simp: load_value_def split: option.split_asm)
  note ml = materialize_lval [OF m a assms(4-6)]
  obtain s1 where s1: "gives u h g g1 (clob reg) s s1" "g_reg s1 (reg_no reg) = a" using ml(1) by blast
  have t1: "ty_of v1 g1 = Some t" using t ml(2,3) by (simp add: ty_of_def same_env_def)
  obtain sz g2 where g2: "sizeof t g1 = (sz, g2)" by (rule prod.exhaust)
  note se = sizeof_eq [OF g2]
  let ?f3 = "f3_of (type_is_unsigned t) sz"
  have s12: "gives u h g g2 (clob reg) s s1" by (rule gives_same_text [OF s1(1)]) (simp_all add: se)
  have v': "v' = v1\<lparr>v_kind := VAL_REG, v_offset := 0\<rparr>"
    and g': "g' = (if decays t then g2 else emit (emit_i_load ?f3 reg reg 0) g2)"
    using assms(1,3) m ml(2) t1 g2 by (auto simp: load_value_def load_sized_eq split: if_split_asm)
  have env: "same_env g g'" "in_reg v reg v'"
    using v' g' ml(2,3) se(3) by (simp_all add: same_env_def in_reg_def emit_def)
  have "\<exists>s'. gives u h g g' (clob reg) s s' \<and> g_reg s' (reg_no reg) = x"
  proof (cases "decays t")
    case True
    then show ?thesis using g' s12 s1(2) x by auto
  next
    case False
    then have ld: "loaded (g_pages s1) ?f3 (g_reg s1 (reg_no reg) + scast (0 :: u32)) = Inr x"
      using x se(1) s1(2) gives_frame(2) [OF s1(1)] by (auto simp: typed_load_def split: sum.split_asm)
    have "g_reg s1 0 = 0" using gives_frame(1) [OF s1(1), of 0] assms(5,6) by (simp add: clob_def)
    then obtain s2 where "gives u h g2 g' (clob reg) s1 s2" "g_reg s2 (reg_no reg) = x"
      using gives_load [OF f3_of_less assms(7,5) _ ld, of u h g2] False g' by auto
    then show ?thesis using gives_trans [OF s12] by blast
  qed
  then show ?thesis using env by (simp add: loads_def)
qed

lemma load_value_gives:
  assumes "load_value v reg g = Some (v', g')" "val_value g v s = Some x"
    and "v_reg v < 32" "reg_no reg \<noteq> 0" "g_reg s 0 = 0" "reg < 32"
  shows "loads u h v reg x s g v' g'"
proof -
  have "v_kind v \<in> {VAL_IMM, VAL_REG} \<or> v_kind v = VAL_SPILL_I \<or> v_kind v \<in> {VAL_LVAL, VAL_SPILL, VAL_SYM}"
    using assms(2) by (cases "v_kind v") (simp_all add: val_value_def)
  then show ?thesis
    using load_value_direct [OF assms(1,2) _ assms(4,5)] load_value_spill [OF assms(1,2) _ assms(4,5)]
      load_value_lval [OF assms(1,2) _ assms(3-6)] by blast
qed

text \<open>
  Values reach their register: if a descriptor (a constant, a register, a stack slot, an object
  at an address in a register or a slot, or a local variable) denotes the value \<open>x\<close>, then the code
  \<^verbatim>\<open>load_value\<close> emits leaves exactly \<open>x\<close>, extended by the size and signedness of its type, in the
  register asked for, and changes no other register but the scratch registers t5 and t6, and no
  memory; the new descriptor is that register.
\<close>

theorem load_value_correct:
  assumes "load_value v reg g = Some (v', g')" and "val_value g v s = Some x"
    and "v_reg v < 32" and "reg_no reg \<noteq> 0" and "reg < 32" and "g_reg s 0 = 0"
    and "buf_wf (g_text g)" and "in_memory (new_code g g') s"
  shows "\<exists>s'. run u h (length (new_code g g') div 4) s = Inr s' \<and> g_reg s' (reg_no reg) = x
    \<and> (\<forall>k. k \<notin> {reg_no reg, 30, 31} \<longrightarrow> g_reg s' k = g_reg s k) \<and> g_freg s' = g_freg s \<and> g_pages s' = g_pages s
    \<and> g_pc s' = g_pc s + word_of_nat (length (new_code g g'))
    \<and> v_kind v' = VAL_REG \<and> v_reg v' = reg \<and> v_type v' = v_type v"
proof -
  have "loads u h v reg x s g v' g'" using load_value_gives assms(1-6) by blast
  then obtain s' where s': "gives u h g g' (clob reg) s s'" "g_reg s' (reg_no reg) = x" and v': "in_reg v reg v'"
    by (auto simp: loads_def)
  show ?thesis
    using gives_run [OF s'(1) assms(7,8)] s' v'
    by (intro exI [of _ s']) (auto simp: gives_def clob_def in_reg_def)
qed

text \<open>A generator at the start of a function, for the witnesses.\<close>

definition gen0 :: gen where
  "gen0 = \<lparr>g_text = cc_buf_init, g_rodata = cc_buf_init, g_types = types0,
     g_syms = \<lparr>g_globals = [], g_locals = [], g_cur_scope = 0, scope_stack = [], sym_diag = \<lparr>n_errors = 0, n_warnings = 0\<rparr>\<rparr>,
     g_diag = \<lparr>n_errors = 0, n_warnings = 0\<rparr>, cur_offset = 0, frame_size = 0, g_fixups = [], g_rodata_fixups = []\<rparr>"

definition imm_val :: "nat \<Rightarrow> u64 \<Rightarrow> val_t" where
  "imm_val t i = \<lparr>v_kind = VAL_IMM, v_type = Some t, v_reg = 0, v_imm = i, v_fval = 0, v_sym_idx = 0, v_offset = 0\<rparr>"

lemma gen0_wf: "buf_wf (g_text gen0)"
  by (simp add: gen0_def buf_wf_def cc_buf_init_def)

theorem load_value_correct_witness:
  "\<forall>u h. \<exists>m s'. run u h 3 (boot_cpu m 0x10000) = Inr s' \<and> g_reg s' 5 = 0x12345"
proof (intro allI)
  fix u h
  let ?v = "imm_val ty_int 0x12345" and ?v' = "(imm_val ty_int 0x12345)\<lparr>v_kind := VAL_REG, v_reg := 5\<rparr>"
  let ?g' = "emit (rv_addi_imm 5 0 0x12345) gen0"
  have l: "load_value ?v 5 gen0 = Some (?v', ?g')" by (simp add: load_value_def materialize_def imm_val_def)
  have len: "length (new_code gen0 ?g') = 12" by code_simp
  then obtain m where "in_memory (new_code gen0 ?g') (boot_cpu m 0x10000)"
    using code_loadable [of "0x10000" "new_code gen0 ?g'"] by auto
  then show "\<exists>m s'. run u h 3 (boot_cpu m 0x10000) = Inr s' \<and> g_reg s' 5 = 0x12345"
    using load_value_correct [OF l, of "boot_cpu m 0x10000" "0x12345" u h] len gen0_wf
    by (intro exI [of _ m]) (auto simp: val_value_def imm_val_def reg_no_def)
qed

end
