(* ===== verification/Gen_Convert.thy ===== *)
theory Gen_Convert
  imports Gen_Exec
begin

text \<open>
  Conversions and binary operators of \<^verbatim>\<open>src/back/gen.c\<close> on integers, compared with the C standard:
  the machine value in a register stands for an integer by the signedness of its type, and the
  emitted code computes the conversions and operations of C on these integers.
\<close>

subsection \<open>More single instructions\<close>

lemma gives_r_op:
  assumes "reg_no rd \<noteq> 0" "g_reg s 0 = 0"
  shows "\<exists>s'. gives u h g (emit (rv_r_op p rd rs1 rs2) g) {reg_no rd} s s'
    \<and> g_reg s' (reg_no rd) = isa_op p (g_reg s (reg_no rs1)) (g_reg s (reg_no rs2))"
proof -
  let ?x = "isa_op p (g_reg s (reg_no rs1)) (g_reg s (reg_no rs2))"
  have "plain_word (r_op_word p rd rs1 rs2)"
    by (simp add: r_op_word_def alu_plain alu_words)
  then have "gives u h g (emit (rv_r_op p rd rs1 rs2) g) {reg_no rd} s (done_reg (reg_no rd) ?x 4 s)"
    using assms by (intro gives_put [OF emits_r_op _ exec_r_op_word]) simp_all
  then show ?thesis by (intro exI [of _ "done_reg (reg_no rd) ?x 4 s"]) simp
qed

lemma exec_insn_srli:
  "exec_insn u h (shift_word 0 sh rs1 5 rd) s =
     Inr (set_reg (reg_no rd) (drop_bit (unat (sh AND 0x3F)) (g_reg s (reg_no rs1))) s, g_pc s + 4)"
  by (simp add: exec_insn_def exec_op_imm_def shift_word_fields Let_def)

lemma exec_insn_srai:
  "exec_insn u h (shift_word 0x20 sh rs1 5 rd) s =
     Inr (set_reg (reg_no rd) (signed_drop_bit (unat (sh AND 0x3F)) (g_reg s (reg_no rs1))) s, g_pc s + 4)"
proof -
  have "drop_bit 1 0x20 = (0x10 :: u32)" by code_simp
  then show ?thesis
    by (simp add: exec_insn_def exec_op_imm_def shift_word_fields Let_def)
qed

lemma gives_shift:
  assumes "reg_no rd \<noteq> 0" "g_reg s 0 = 0"
  shows "\<exists>s'. gives u h g (emit (rv_slli rd rs1 sh) g) {reg_no rd} s s'
      \<and> g_reg s' (reg_no rd) = push_bit (unat (sh AND 0x3F)) (g_reg s (reg_no rs1))"
    and "\<exists>s'. gives u h g (emit (rv_srli rd rs1 sh) g) {reg_no rd} s s'
      \<and> g_reg s' (reg_no rd) = drop_bit (unat (sh AND 0x3F)) (g_reg s (reg_no rs1))"
    and "\<exists>s'. gives u h g (emit (rv_srai rd rs1 sh) g) {reg_no rd} s s'
      \<and> g_reg s' (reg_no rd) = signed_drop_bit (unat (sh AND 0x3F)) (g_reg s (reg_no rs1))"
proof -
  have p: "plain_word (shift_word 0 sh rs1 1 rd)" "plain_word (shift_word 0 sh rs1 5 rd)"
    "plain_word (shift_word 0x20 sh rs1 5 rd)"
    by (simp_all add: plain_word_def shift_word_fields)
  note g = gives_put [OF emits_emit32 p(1) exec_insn_slli assms refl]
    gives_put [OF emits_emit32 p(2) exec_insn_srli assms refl]
    gives_put [OF emits_emit32 p(3) exec_insn_srai assms refl]
  show "\<exists>s'. gives u h g (emit (rv_slli rd rs1 sh) g) {reg_no rd} s s'
      \<and> g_reg s' (reg_no rd) = push_bit (unat (sh AND 0x3F)) (g_reg s (reg_no rs1))"
    unfolding rv_slli_def by (rule exI, rule conjI [OF g(1)]) simp
  show "\<exists>s'. gives u h g (emit (rv_srli rd rs1 sh) g) {reg_no rd} s s'
      \<and> g_reg s' (reg_no rd) = drop_bit (unat (sh AND 0x3F)) (g_reg s (reg_no rs1))"
    unfolding rv_srli_def by (rule exI, rule conjI [OF g(2)]) simp
  show "\<exists>s'. gives u h g (emit (rv_srai rd rs1 sh) g) {reg_no rd} s s'
      \<and> g_reg s' (reg_no rd) = signed_drop_bit (unat (sh AND 0x3F)) (g_reg s (reg_no rs1))"
    unfolding rv_srai_def by (rule exI, rule conjI [OF g(3)]) simp
qed

lemma gives_sltiu1:
  assumes "reg_no rd \<noteq> 0" "g_reg s 0 = 0"
  shows "\<exists>s'. gives u h g (emit (rv_sltiu rd rs 1) g) {reg_no rd} s s'
    \<and> g_reg s' (reg_no rd) = flag64 (g_reg s (reg_no rs) = 0)"
proof -
  have p: "plain_word (i_word 1 rs 3 rd 0x13)" and f: "fits12 (sint (1 :: u32))"
    by (simp_all add: plain_word_def i_word_fields fits12_def)
  have "(scast (1 :: u32) :: u64) = 1" by simp
  then have "g_reg s (reg_no rs) < scast (1 :: u32) \<longleftrightarrow> g_reg s (reg_no rs) = 0"
    by (simp add: word_less_1)
  then show ?thesis
    using gives_put [OF emits_emit32 p exec_insn_sltiu [OF f] assms refl, of u h g]
    unfolding rv_sltiu_def by (intro exI conjI) (assumption, simp)
qed

subsection \<open>Integers of C types\<close>

text \<open>The integer a register stands for, and the conversion to an integer type (C11 6.3.1.2, 6.3.1.3).\<close>

definition int_of :: "type_t \<Rightarrow> u64 \<Rightarrow> int" where
  "int_of t x = (if type_is_signed t then sint x else uint x)"

definition bits_of :: "type_t \<Rightarrow> nat" where
  "bits_of t = 8 * unat (ty_size t)"

definition c_convert :: "type_t \<Rightarrow> int \<Rightarrow> int" where
  "c_convert t i =
     (if ty_kind t = TY_BOOL then (if i = 0 then 0 else 1)
      else if type_is_signed t then signed_take_bit (bits_of t - 1) i
      else take_bit (bits_of t) i)"

text \<open>The register contents that the conversion leaves.\<close>

definition conv :: "type_t \<Rightarrow> u64 \<Rightarrow> u64" where
  "conv t x =
     (if ty_kind t = TY_BOOL then flag64 (x \<noteq> 0)
      else if type_is_signed t then signed_take_bit (bits_of t - 1) x
      else take_bit (bits_of t) x)"

definition int_like :: "type_t \<Rightarrow> bool" where
  "int_like t \<longleftrightarrow> kind_ok t \<and> (type_is_integer t \<or> type_is_pointer t)"

lemma integer_size:
  assumes "type_is_integer t" "kind_ok t"
  shows "ty_size t = c_size (ty_kind t)" "is_complete t"
proof -
  show "ty_size t = c_size (ty_kind t)"
    using arith_kinds(1) [OF _ assms(2)] assms(1) by (simp add: type_is_arith_def)
  have "ty_kind t \<in> fst ` set prim_table \<or> ty_kind t = TY_ENUM"
    using assms(1) by (auto simp: type_is_integer_def prim_table_def)
  then show "is_complete t" using assms(2) by (auto simp: kind_ok_def)
qed

lemma int_like_size:
  assumes "int_like t"
  shows "ty_size t \<in> {1, 2, 4, 8}" "is_complete t" "\<not> decays t"
    "ty_kind t \<notin> {TY_VOID, TY_STRUCT, TY_UNION}" "\<not> is_float_kind (ty_kind t)"
    "\<not> type_is_integer t \<Longrightarrow> ty_size t = 8 \<and> \<not> type_is_signed t"
    "ty_kind t = TY_BOOL \<Longrightarrow> ty_size t = 1"
proof -
  have k: "ty_kind t \<in> {TY_BOOL, TY_CHAR, TY_SCHAR, TY_UCHAR, TY_SHORT, TY_USHORT, TY_INT, TY_UINT, TY_LONG, TY_ULONG,
      TY_LLONG, TY_ULLONG, TY_ENUM, TY_PTR}"
    using assms by (auto simp: int_like_def type_is_integer_def type_is_pointer_def)
  then show "\<not> decays t" "ty_kind t \<notin> {TY_VOID, TY_STRUCT, TY_UNION}" "\<not> is_float_kind (ty_kind t)"
    by (auto simp: decays_def is_float_kind_def)
  have ptr: "ty_size t = 8 \<and> is_complete t" if "ty_kind t = TY_PTR"
    using assms that by (simp add: int_like_def kind_ok_def)
  have int: "ty_size t = c_size (ty_kind t)" "is_complete t" if "ty_kind t \<noteq> TY_PTR"
    using assms that integer_size [of t] by (simp_all add: int_like_def type_is_pointer_def)
  show "is_complete t" using ptr int by blast
  show "ty_size t \<in> {1, 2, 4, 8}"
    using k ptr int(1) by (elim insertE emptyE) (simp_all add: c_size_def prim_table_def)
  show "ty_size t = 1" if "ty_kind t = TY_BOOL" using int(1) that by (simp add: c_size_def prim_table_def)
  show "ty_size t = 8 \<and> \<not> type_is_signed t" if "\<not> type_is_integer t"
    using assms that ptr by (simp add: int_like_def type_is_pointer_def type_is_signed_def)
qed

lemma bits_of_cases:
  assumes "int_like t"
  shows "bits_of t \<in> {8, 16, 32, 64}"
  using int_like_size(1) [OF assms] by (auto simp: bits_of_def)

lemma int_of_mod: "take_bit 64 (int_of t x) = uint x"
  using uint_sint [of x] by (simp add: int_of_def bintr_uint)

lemma take_bit_int_of: "n \<le> 64 \<Longrightarrow> take_bit n (int_of t x) = take_bit n (uint x)"
proof -
  assume "n \<le> 64"
  then have "take_bit n (int_of t x) = take_bit n (take_bit 64 (int_of t x))" by (simp add: min_def)
  also have "\<dots> = take_bit n (uint x)" by (simp only: int_of_mod)
  finally show ?thesis .
qed

lemma int_of_conv:
  assumes "int_like t"
  shows "int_of t (conv t x) = c_convert t (int_of t' x)"
proof (cases "ty_kind t = TY_BOOL")
  case True
  then have "\<not> type_is_signed t" by (simp add: type_is_signed_def)
  moreover have "int_of t' x = 0 \<longleftrightarrow> x = 0" by (simp add: int_of_def signed_eq_0_iff unsigned_eq_0_iff)
  ultimately show ?thesis using True by (simp add: int_of_def conv_def c_convert_def)
next
  case False
  note b = bits_of_cases [OF assms]
  show ?thesis
  proof (cases "type_is_signed t")
    case True
    let ?n = "bits_of t - 1"
    have n: "?n < 64" "Suc ?n \<le> 64" using b by auto
    have "sint (signed_take_bit ?n x) = signed_take_bit ?n (sint x)"
      using b by (elim insertE emptyE) (auto intro!: bit_eqI simp: bit_simps min_def split: if_splits)
    also have "\<dots> = signed_take_bit ?n (int_of t' x)"
      unfolding signed_take_bit_eq_iff_take_bit_eq
      using take_bit_int_of [OF n(2), of t' x] take_bit_int_of [OF n(2), of t x] True by (simp add: int_of_def)
    finally show ?thesis using True False by (simp add: int_of_def conv_def c_convert_def)
  next
    case unsigned: False
    have "uint (take_bit (bits_of t) x) = take_bit (bits_of t) (uint x)"
      by (simp add: unsigned_take_bit_eq)
    then show ?thesis
      using unsigned False take_bit_int_of [of "bits_of t" t' x] b by (auto simp: int_of_def conv_def c_convert_def)
  qed
qed

subsection \<open>Conversions\<close>

lemma shift_pair:
  assumes "sz \<in> {1, 2, 4 :: u64}"
  shows "signed_drop_bit (unat (64 - ucast sz * 8 AND 0x3F :: u32)) (push_bit (unat (64 - ucast sz * 8 AND 0x3F :: u32)) x)
      = signed_take_bit (8 * unat sz - 1) (x :: u64)"
    and "drop_bit (unat (64 - ucast sz * 8 AND 0x3F :: u32)) (push_bit (unat (64 - ucast sz * 8 AND 0x3F :: u32)) x)
      = take_bit (8 * unat sz) (x :: u64)"
proof -
  have sh: "unat (64 - ucast (1 :: u64) * 8 AND 0x3F :: u32) = 56" "unat (64 - ucast (2 :: u64) * 8 AND 0x3F :: u32) = 48"
    "unat (64 - ucast (4 :: u64) * 8 AND 0x3F :: u32) = 32" by code_simp+
  have edge: "\<not> 8 \<le> k \<Longrightarrow> 7 \<le> k \<Longrightarrow> k = 7" "\<not> 16 \<le> k \<Longrightarrow> 15 \<le> k \<Longrightarrow> k = 15" "\<not> 32 \<le> k \<Longrightarrow> 31 \<le> k \<Longrightarrow> k = 31"
    for k :: nat by simp_all
  have s: "signed_drop_bit (64 - n) (push_bit (64 - n) x) = signed_take_bit (n - 1) x" if "n \<in> {8, 16, 32}" for n
    using that by (elim insertE emptyE; intro bit_word_eqI) (auto simp: bit_simps min_def split: if_splits dest!: edge)
  have u: "drop_bit (64 - n) (push_bit (64 - n) x) = take_bit n x" if "n \<in> {8, 16, 32}" for n
    using that by (elim insertE emptyE; intro bit_word_eqI) (auto simp: bit_simps)
  show "signed_drop_bit (unat (64 - ucast sz * 8 AND 0x3F :: u32)) (push_bit (unat (64 - ucast sz * 8 AND 0x3F :: u32)) x)
      = signed_take_bit (8 * unat sz - 1) x"
    using assms s [of 8] s [of 16] s [of 32] by (elim insertE emptyE) (simp_all add: sh)
  show "drop_bit (unat (64 - ucast sz * 8 AND 0x3F :: u32)) (push_bit (unat (64 - ucast sz * 8 AND 0x3F :: u32)) x)
      = take_bit (8 * unat sz) x"
    using assms u [of 8] u [of 16] u [of 32] by (elim insertE emptyE) (simp_all add: sh)
qed

lemma conv_wide: "int_like t \<Longrightarrow> ty_size t = 8 \<Longrightarrow> conv t x = x"
  using int_like_size(7) [of t] by (auto simp: conv_def bits_of_def signed_take_bit_63 take_bit_word_eq_self)

text \<open>The code of \<open>narrow\<close> leaves the converted value.\<close>

lemma narrow_gives:
  assumes "int_like t" "ty_kind t \<noteq> TY_BOOL" "g_reg s 0 = 0"
  shows "\<exists>s'. gives u h g (narrow t g) (clob 5) s s' \<and> g_reg s' 5 = conv t (g_reg s 5)"
    and "same_env g (narrow t g)"
proof -
  have sz: "sizeof t g = (ty_size t, g)" for g
    using int_like_size(2) [OF assms(1)] by (simp add: sizeof_def type_sizeof_def)
  show "same_env g (narrow t g)"
    by (simp add: narrow_def sz Let_def same_env_def emit_def)
  show "\<exists>s'. gives u h g (narrow t g) (clob 5) s s' \<and> g_reg s' 5 = conv t (g_reg s 5)"
  proof (cases "ty_size t = 8")
    case True
    then show ?thesis
      using conv_wide [OF assms(1) True] by (auto simp: narrow_def sz intro: gives_refl)
  next
    case False
    then have s: "ty_size t \<in> {1, 2, 4}" and int: "type_is_integer t"
      using int_like_size(1,6) [OF assms(1)] by auto
    have r5: "reg_no 5 = 5" by (simp add: reg_no_def)
    let ?sh = "64 - ucast (ty_size t) * 8 :: u32" and ?g1 = "emit (rv_slli 5 5 (64 - ucast (ty_size t) * 8)) g"
    have n: "narrow t g = emit (if type_is_signed t then rv_srai 5 5 ?sh else rv_srli 5 5 ?sh) ?g1"
      using s int by (auto simp: narrow_def sz)
    obtain s1 where s1: "gives u h g ?g1 {5} s s1" "g_reg s1 5 = push_bit (unat (?sh AND 0x3F)) (g_reg s 5)"
      using gives_shift(1) [of 5 s u h g 5 ?sh] assms(3) r5 by auto
    have "g_reg s1 0 = 0" using gives_frame(1) [OF s1(1), of 0] assms(3) by simp
    then obtain s2 where s2: "gives u h ?g1 (narrow t g) {5} s1 s2" "g_reg s2 5 = conv t (g_reg s 5)"
      using gives_shift(2,3) [of 5 s1 u h ?g1 5 ?sh] s1(2) r5 n shift_pair [OF s] assms(2)
      by (cases "type_is_signed t") (auto simp: conv_def bits_of_def)
    then show ?thesis
      using gives_mono [OF gives_trans [OF s1(1) s2(1)], of "clob 5"] by (auto simp: clob_def r5)
  qed
qed

lemma gives_snez:
  assumes "g_reg s 0 = 0"
  shows "\<exists>s'. gives u h g (emit (rv_snez 5 5) g) {5} s s' \<and> g_reg s' 5 = flag64 (g_reg s 5 \<noteq> 0)"
proof -
  have "reg_no 5 = 5" "reg_no 0 = 0" by (simp_all add: reg_no_def)
  moreover have "0 < uint x \<longleftrightarrow> x \<noteq> 0" for x :: u64
    by (metis uint_0_iff uint_ge_0 order.not_eq_order_implies_strict less_irrefl)
  ultimately show ?thesis
    using gives_r_op [of 5 s u h g SLTU 0 5] assms by (simp add: rv_snez_def)
qed

text \<open>The property of \<^verbatim>\<open>convert_scalar\<close> between integer and pointer types.\<close>

lemma convert_scalar_gives:
  assumes "convert_scalar u v target g = Some (v', g')" "val_value g v s = Some x"
    and "ty_of v g = Some src" "int_like src" "int_like (g_types g ! target)"
    and "v_reg v < 32" "g_reg s 0 = 0"
  shows "\<exists>s'. gives u' h g g' (clob 5) s s' \<and> g_reg s' 5 = conv (g_types g ! target) x"
    and "v_kind v' = VAL_REG" "v_reg v' = 5" "v_type v' = Some target" "same_env g g'"
proof -
  let ?tt = "g_types g ! target"
  obtain v1 g1 where l: "load_value v 5 g = Some (v1, g1)"
    and v': "v' = v1\<lparr>v_reg := 5, v_kind := VAL_REG, v_type := Some target, v_offset := 0\<rparr>"
    and g': "g' = (if ty_kind ?tt = TY_BOOL then emit (rv_snez 5 5) g1 else narrow ?tt g1)"
    using assms(1,3) int_like_size(4,5) [OF assms(5)] int_like_size(5) [OF assms(4)]
    by (auto simp: convert_scalar_def to_integer_def Let_def)
  have r5: "reg_no 5 = 5" by (simp add: reg_no_def)
  have "loads u' h v 5 x s g v1 g1"
    using load_value_gives [OF l assms(2,6) _ assms(7)] r5 by simp
  then obtain s1 where s1: "gives u' h g g1 (clob 5) s s1" "g_reg s1 5 = x" and e: "same_env g g1"
    by (auto simp: loads_def r5)
  have z: "g_reg s1 0 = 0" using gives_frame(1) [OF s1(1), of 0] assms(7) by (simp add: clob_def r5)
  have tt: "g_types g1 ! target = ?tt" using e by (simp add: same_env_def)
  obtain s2 where s2: "gives u' h g1 g' (clob 5) s1 s2" "g_reg s2 5 = conv ?tt x"
  proof (cases "ty_kind ?tt = TY_BOOL")
    case True
    then obtain s2 where "gives u' h g1 g' {5} s1 s2" "g_reg s2 5 = conv ?tt x"
      using gives_snez [OF z, of u' h g1] g' s1(2) by (auto simp: conv_def)
    then show ?thesis using that gives_mono [of u' h g1 g' "{5}" s1 s2 "clob 5"] by (auto simp: clob_def r5)
  next
    case False
    then show ?thesis using that narrow_gives(1) [OF assms(5) False z, of u' h g1] g' s1(2) by auto
  qed
  show "\<exists>s'. gives u' h g g' (clob 5) s s' \<and> g_reg s' 5 = conv ?tt x"
    using gives_trans [OF s1(1) s2(1)] s2(2) by blast
  show "v_kind v' = VAL_REG" "v_reg v' = 5" "v_type v' = Some target" by (simp_all add: v')
  show "same_env g g'"
    using g' e narrow_gives(2) [OF assms(5), of s1 g1] z same_env_trans by auto
qed

text \<open>
  C5. Integer conversions are those of C: between any two integer or pointer types, the code
  \<^verbatim>\<open>convert_scalar\<close> emits leaves in t0 the value converted to the target type (reduced modulo its
  width, sign- or zero-extended, and 0 or 1 for \<^verbatim>\<open>_Bool\<close>), and changes nothing else but the scratch
  registers.
\<close>

theorem convert_scalar_correct:
  assumes "convert_scalar u v target g = Some (v', g')" and "val_value g v s = Some x"
    and "ty_of v g = Some src" and "int_like src" and "int_like (g_types g ! target)"
    and "v_reg v < 32" and "g_reg s 0 = 0" and "buf_wf (g_text g)" and "in_memory (new_code g g') s"
  shows "\<exists>s'. run u' h (length (new_code g g') div 4) s = Inr s'
    \<and> int_of (g_types g ! target) (g_reg s' 5) = c_convert (g_types g ! target) (int_of src x)
    \<and> (\<forall>k. k \<notin> {5, 30, 31} \<longrightarrow> g_reg s' k = g_reg s k) \<and> g_freg s' = g_freg s \<and> g_pages s' = g_pages s
    \<and> v_kind v' = VAL_REG \<and> v_reg v' = 5 \<and> v_type v' = Some target"
proof -
  note c = convert_scalar_gives [OF assms(1-7)]
  obtain s' where s': "gives u' h g g' (clob 5) s s'" "g_reg s' 5 = conv (g_types g ! target) x" using c(1) by blast
  show ?thesis
    using gives_run(1) [OF s'(1) assms(8,9)] s' c(2-4) int_of_conv [OF assms(5)]
    by (intro exI [of _ s']) (auto simp: gives_def clob_def reg_no_def)
qed

lemma types0_int: "t \<in> {1..12} \<Longrightarrow> int_like (types0 ! t)"
proof -
  assume t: "t \<in> {1..12}"
  have "list_all (\<lambda>t. type_is_integer (types0 ! t)) [1..<13]" by code_simp
  moreover have "t \<in> set [1..<13]" using t by auto
  ultimately have "type_is_integer (types0 ! t)" by (simp only: list_all_iff)
  moreover have "length types0 = 16" by code_simp
  ultimately show ?thesis using types_okD(3) [OF types_ok_types0, of t] t by (simp add: int_like_def)
qed

theorem convert_scalar_correct_witness:
  "\<forall>u h. \<exists>m s'. run u h 3 (boot_cpu m 0x10000) = Inr s' \<and> sint (g_reg s' 5) = - 56"
proof (intro allI)
  fix u :: fpu and h :: "unit host_ops"
  let ?v = "imm_val ty_int 200" and ?r = "convert_scalar u (imm_val ty_int 200) ty_char gen0"
  let ?g1 = "emit (rv_addi_imm 5 0 200) gen0"
  have t: "int_like (types0 ! 7)" "int_like (types0 ! 2)" by (simp_all add: types0_int)
  have ty: "g_types gen0 = types0" by (simp add: gen0_def)
  have l: "load_value ?v 5 gen0 = Some (?v\<lparr>v_kind := VAL_REG, v_reg := 5\<rparr>, ?g1)"
    by (simp add: load_value_def materialize_def imm_val_def)
  have kind: "ty_kind (types0 ! 2) = TY_CHAR" "type_is_signed (types0 ! 2)" "bits_of (types0 ! 2) = 8"
    "type_is_signed (types0 ! 7)" "type_is_integer (types0 ! 2)" "is_complete (types0 ! 2)" "ty_size (types0 ! 2) = 1"
    by code_simp+
  obtain v' where r: "?r = Some (v', narrow (types0 ! 2) ?g1)"
    using l int_like_size(5) [OF t(1)] kind
    by (auto simp: convert_scalar_def to_integer_def Let_def ty ty_of_def imm_val_def is_float_kind_def)
  have "narrow (types0 ! 2) ?g1 = emit (rv_srai 5 5 56) (emit (rv_slli 5 5 56) ?g1)"
    using kind by (simp add: narrow_def sizeof_def type_sizeof_def)
  moreover have "length (new_code gen0 (emit (rv_srai 5 5 56) (emit (rv_slli 5 5 56) ?g1))) = 12" by code_simp
  ultimately have len: "length (new_code gen0 (narrow (types0 ! 2) ?g1)) = 12" by simp
  then obtain m where "in_memory (new_code gen0 (narrow (types0 ! 2) ?g1)) (boot_cpu m 0x10000)"
    using code_loadable [of "0x10000" "new_code gen0 (narrow (types0 ! 2) ?g1)"] by auto
  moreover have "c_convert (types0 ! 2) (int_of (types0 ! 7) 200) = - 56"
    using kind by (simp add: c_convert_def int_of_def)
  moreover have "val_value gen0 ?v (boot_cpu m 0x10000) = Some 200" "ty_of ?v gen0 = Some (types0 ! 7)" "v_reg ?v < 32"
    by (simp_all add: val_value_def imm_val_def ty ty_of_def)
  ultimately show "\<exists>m s'. run u h 3 (boot_cpu m 0x10000) = Inr s' \<and> sint (g_reg s' 5) = - 56"
    using convert_scalar_correct [OF r, of "boot_cpu m 0x10000" 200 "types0 ! 7" u h] len gen0_wf t kind(2)
    unfolding ty by (intro exI [of _ m]) (auto simp: int_of_def)
qed

end
