(* ===== verification/Gen_Binop.thy ===== *)
theory Gen_Binop
  imports Gen_Convert
begin

text \<open>
  The integer operators of \<^verbatim>\<open>parse_binop_rhs\<close> in \<^verbatim>\<open>src/back/gen.c\<close> compute the operators of C.
\<close>

subsection \<open>The operator on registers\<close>

definition m_op :: "token_kind \<Rightarrow> bool \<Rightarrow> bool \<Rightarrow> u64 \<Rightarrow> u64 \<Rightarrow> u64" where
  "m_op op uns luns x y =
     (if op = T_PLUS then isa_op ADD x y else if op = T_MINUS then isa_op SUB x y
      else if op = T_STAR then isa_op MUL x y
      else if op = T_SLASH then isa_op (if uns then DIVU else DIV) x y
      else if op = T_PERCENT then isa_op (if uns then REMU else REM) x y
      else if op = T_AMP then isa_op AND_OP x y else if op = T_PIPE then isa_op OR_OP x y
      else if op = T_CARET then isa_op XOR_OP x y
      else if op = T_SHL then isa_op SLL x y
      else if op = T_SHR then isa_op (if luns then SRL else SRA) x y
      else if op = T_EQ then flag64 (isa_op SUB x y = 0)
      else if op = T_NE then isa_op SLTU 0 (isa_op SUB x y)
      else if op = T_LT then isa_op (if uns then SLTU else SLT) x y
      else if op = T_GT then isa_op (if uns then SLTU else SLT) y x
      else if op = T_LE then flag64 (isa_op (if uns then SLTU else SLT) y x = 0)
      else if op = T_GE then flag64 (isa_op (if uns then SLTU else SLT) x y = 0)
      else x)"

lemma gives_seqz:
  assumes "g_reg s 0 = 0"
  shows "\<exists>s'. gives u h g (emit (rv_seqz 5 5) g) {5} s s' \<and> g_reg s' 5 = flag64 (g_reg s 5 = 0)"
  using gives_sltiu1 [of 5 s u h g 5] assms by (simp add: rv_seqz_def reg_no_def)

text \<open>One register instruction on \<^verbatim>\<open>t0\<close> and \<^verbatim>\<open>t1\<close>, alone or followed by a test for zero.\<close>

lemma gives_op3:
  assumes "g_reg s 0 = 0" "f = rv_r_op p" "a \<in> {5, 6, 0}" "b \<in> {5, 6, 0}"
  shows "\<exists>s'. gives u h g (emit (f 5 a b) g) {5} s s' \<and> g_reg s' 5 = isa_op p (g_reg s (unat a)) (g_reg s (unat b))
    \<and> g_reg s' 0 = 0"
proof -
  have r: "reg_no 5 = 5" "reg_no a = unat a" "reg_no b = unat b" using assms(3,4) by (auto simp: reg_no_def)
  obtain s' where s': "gives u h g (emit (f 5 a b) g) {5} s s'" "g_reg s' 5 = isa_op p (g_reg s (unat a)) (g_reg s (unat b))"
    using gives_r_op [of 5 s u h g p a b] assms(1,2) r by auto
  then show ?thesis using gives_frame(1) [OF s'(1), of 0] assms(1) by auto
qed

lemma gives_op3_seqz:
  assumes "g_reg s 0 = 0" "f = rv_r_op p" "a \<in> {5, 6, 0}" "b \<in> {5, 6, 0}"
  shows "\<exists>s'. gives u h g (emit (rv_seqz 5 5) (emit (f 5 a b) g)) {5} s s'
    \<and> g_reg s' 5 = flag64 (isa_op p (g_reg s (unat a)) (g_reg s (unat b)) = 0)"
proof -
  obtain s1 where s1: "gives u h g (emit (f 5 a b) g) {5} s s1" "g_reg s1 5 = isa_op p (g_reg s (unat a)) (g_reg s (unat b))"
    "g_reg s1 0 = 0"
    using gives_op3 [OF assms] by blast
  obtain s2 where "gives u h (emit (f 5 a b) g) (emit (rv_seqz 5 5) (emit (f 5 a b) g)) {5} s1 s2"
    "g_reg s2 5 = flag64 (g_reg s1 5 = 0)"
    using gives_seqz [OF s1(3)] by blast
  then show ?thesis using gives_trans [OF s1(1)] s1(2) by metis
qed

lemma gives_sub_nez:
  assumes "g_reg s 0 = 0"
  shows "\<exists>s'. gives u h g (emit (rv_sltu 5 0 5) (emit (rv_sub 5 5 6) g)) {5} s s'
    \<and> g_reg s' 5 = isa_op SLTU 0 (isa_op SUB (g_reg s 5) (g_reg s 6))"
proof -
  obtain s1 where s1: "gives u h g (emit (rv_sub 5 5 6) g) {5} s s1" "g_reg s1 5 = isa_op SUB (g_reg s 5) (g_reg s 6)"
    "g_reg s1 0 = 0"
    using gives_op3 [OF assms, of rv_sub SUB 5 6 u h g] by auto
  obtain s2 where "gives u h (emit (rv_sub 5 5 6) g) (emit (rv_sltu 5 0 5) (emit (rv_sub 5 5 6) g)) {5} s1 s2"
    "g_reg s2 5 = isa_op SLTU (g_reg s1 0) (g_reg s1 5)"
    using gives_op3 [OF s1(3), of rv_sltu SLTU 0 5 u h "emit (rv_sub 5 5 6) g"] by auto
  then show ?thesis using gives_trans [OF s1(1)] s1(2,3) by metis
qed

text \<open>The operators that are a single instruction.\<close>

definition simple_op :: "token_kind \<Rightarrow> bool \<Rightarrow> bool \<Rightarrow> r_op option" where
  "simple_op op uns luns =
     (case op of
        T_PLUS \<Rightarrow> Some ADD | T_MINUS \<Rightarrow> Some SUB | T_STAR \<Rightarrow> Some MUL
      | T_SLASH \<Rightarrow> Some (if uns then DIVU else DIV) | T_PERCENT \<Rightarrow> Some (if uns then REMU else REM)
      | T_AMP \<Rightarrow> Some AND_OP | T_PIPE \<Rightarrow> Some OR_OP | T_CARET \<Rightarrow> Some XOR_OP
      | T_SHL \<Rightarrow> Some SLL | T_SHR \<Rightarrow> Some (if luns then SRL else SRA)
      | T_LT \<Rightarrow> Some (if uns then SLTU else SLT)
      | _ \<Rightarrow> None)"

lemma int_op_simple:
  assumes "simple_op op uns luns = Some p"
  shows "int_op op uns luns g = emit (rv_r_op p 5 5 6) g" "m_op op uns luns x y = isa_op p x y"
  using assms by (cases op; force simp: simple_op_def int_op_def m_op_def)+

lemma int_op_gives:
  assumes "g_reg s 0 = 0"
  shows "\<exists>s'. gives u h g (int_op op uns luns g) {5} s s' \<and> g_reg s' 5 = m_op op uns luns (g_reg s 5) (g_reg s 6)"
proof -
  let ?slt = "if uns then SLTU else SLT"
  have slt: "(if uns then rv_sltu else rv_slt) = rv_r_op ?slt" by simp
  consider (simple) p where "simple_op op uns luns = Some p" | (gt) "op = T_GT" | (eq) "op = T_EQ" | (ne) "op = T_NE"
    | (le) "op = T_LE" | (ge) "op = T_GE"
    | (other) "op \<notin> {T_PLUS, T_MINUS, T_STAR, T_SLASH, T_PERCENT, T_AMP, T_PIPE, T_CARET, T_SHL, T_SHR, T_LT,
        T_GT, T_EQ, T_NE, T_LE, T_GE}"
    by (cases op) (simp_all add: simple_op_def)
  then show ?thesis
  proof cases
    case simple
    then show ?thesis
      using gives_op3 [OF assms refl, of 5 6 u h g p] int_op_simple [OF simple] by auto
  next
    case gt
    then show ?thesis
      using gives_op3 [OF assms refl, of 6 5 u h g ?slt] by (auto simp: int_op_def m_op_def slt)
  next
    case eq
    then show ?thesis
      using gives_op3_seqz [OF assms, of rv_sub SUB 5 6 u h g] by (simp add: int_op_def m_op_def)
  next
    case ne
    then show ?thesis using gives_sub_nez [OF assms] by (simp add: int_op_def m_op_def)
  next
    case le
    then show ?thesis
      using gives_op3_seqz [OF assms refl, of 6 5 u h g ?slt] by (simp add: int_op_def m_op_def slt)
  next
    case ge
    then show ?thesis
      using gives_op3_seqz [OF assms refl, of 5 6 u h g ?slt] by (simp add: int_op_def m_op_def slt)
  next
    case other
    then have "int_op op uns luns g = g" "m_op op uns luns (g_reg s 5) (g_reg s 6) = g_reg s 5"
      by (simp_all add: int_op_def m_op_def)
    then show ?thesis by (auto intro: gives_refl)
  qed
qed

subsection \<open>The operators of C\<close>

text \<open>
  The value of a binary operator for integer operands (C11 6.5): the operands are converted to
  the common type \<open>c\<close>, those of a shift to the promoted type \<open>p\<close> of the left operand; a result that
  does not fit wraps.
\<close>

definition c_binop :: "token_kind \<Rightarrow> type_t \<Rightarrow> type_t \<Rightarrow> int \<Rightarrow> int \<Rightarrow> int" where
  "c_binop op c p i j =
     (let a = c_convert c i; b = c_convert c j; l = c_convert p i
      in if op = T_PLUS then c_convert c (a + b) else if op = T_MINUS then c_convert c (a - b)
         else if op = T_STAR then c_convert c (a * b)
         else if op = T_SLASH then c_convert c (a sdiv b) else if op = T_PERCENT then c_convert c (a smod b)
         else if op = T_AMP then c_convert c (a AND b) else if op = T_PIPE then c_convert c (a OR b)
         else if op = T_CARET then c_convert c (a XOR b)
         else if op = T_SHL then c_convert p (l * 2 ^ nat j) else if op = T_SHR then c_convert p (l div 2 ^ nat j)
         else of_bool (if op = T_EQ then a = b else if op = T_NE then a \<noteq> b else if op = T_LT then a < b
           else if op = T_GT then b < a else if op = T_LE then a \<le> b else b \<le> a))"

definition binary_ops :: "token_kind set" where
  "binary_ops = {T_PLUS, T_MINUS, T_STAR, T_SLASH, T_PERCENT, T_AMP, T_PIPE, T_CARET, T_SHL, T_SHR, T_EQ, T_NE, T_LT,
     T_GT, T_LE, T_GE}"

text \<open>The operations the standard leaves undefined are excluded.\<close>

definition c_defined :: "token_kind \<Rightarrow> type_t \<Rightarrow> int \<Rightarrow> bool" where
  "c_defined op p j \<longleftrightarrow> (op \<in> {T_SLASH, T_PERCENT} \<longrightarrow> j \<noteq> 0) \<and> (op \<in> {T_SHL, T_SHR} \<longrightarrow> 0 \<le> j \<and> j < int (bits_of p))"

text \<open>A register holds a value of a type in the form the conversion to that type leaves.\<close>

definition canon :: "type_t \<Rightarrow> u64 \<Rightarrow> bool" where
  "canon t x \<longleftrightarrow> conv t x = x"

lemma canon_int_of: "int_like c \<Longrightarrow> canon c x \<Longrightarrow> c_convert c (int_of t x) = int_of c x"
  using int_of_conv [of c x t] by (simp add: canon_def)

lemma word_of_int_of [simp]: "word_of_int (int_of t x) = x"
  by (simp add: int_of_def)

lemma int_of_inj: "int_of t x = int_of t y \<longleftrightarrow> x = y"
  by (metis word_of_int_of)

lemma c_convert_cong:
  assumes "int_like t" "ty_kind t \<noteq> TY_BOOL" "take_bit 64 i = take_bit 64 j"
  shows "c_convert t i = c_convert t j"
proof -
  have n: "bits_of t \<le> 64" "Suc (bits_of t - 1) \<le> 64" using bits_of_cases [OF assms(1)] by auto
  have tb: "take_bit n i = take_bit n j" if "n \<le> 64" for n
    using arg_cong [OF assms(3), of "take_bit n"] that by (simp add: min_def)
  show ?thesis
    using assms(2) tb [OF n(1)] tb [OF n(2)] by (simp add: c_convert_def signed_take_bit_eq_iff_take_bit_eq)
qed

lemma int_of_conv_word:
  assumes "int_like t" "ty_kind t \<noteq> TY_BOOL"
  shows "int_of t (conv t (word_of_int i)) = c_convert t i"
proof -
  have "take_bit 64 (int_of t (word_of_int i)) = uint (word_of_int i :: u64)" by (rule int_of_mod)
  also have "\<dots> = take_bit 64 i" by (simp add: uint_word_of_int_eq)
  finally have "c_convert t (int_of t (word_of_int i)) = c_convert t i" by (rule c_convert_cong [OF assms])
  then show ?thesis using int_of_conv [OF assms(1), of "word_of_int i" t] by (rule trans [rotated])
qed

lemma conv_conv: "int_like t \<Longrightarrow> conv t (conv t x) = conv t x"
proof -
  assume t: "int_like t"
  have "int_of t (conv t (conv t x)) = c_convert t (int_of t (conv t x))" by (rule int_of_conv [OF t])
  also have "\<dots> = c_convert t (c_convert t (int_of t x))" by (simp add: int_of_conv [OF t, where t' = t])
  also have "\<dots> = c_convert t (int_of t x)" using bits_of_cases [OF t] by (auto simp: c_convert_def)
  also have "\<dots> = int_of t (conv t x)" by (rule int_of_conv [OF t, symmetric])
  finally show ?thesis by (simp add: int_of_inj)
qed

text \<open>The machine operation is the operation on the integers its operands stand for.\<close>

lemma m_op_arith:
  assumes "op \<in> {T_PLUS, T_MINUS, T_STAR, T_AMP, T_PIPE, T_CARET}"
  shows "m_op op uns luns x y = word_of_int
    (if op = T_PLUS then int_of t x + int_of t y else if op = T_MINUS then int_of t x - int_of t y
     else if op = T_STAR then int_of t x * int_of t y else if op = T_AMP then int_of t x AND int_of t y
     else if op = T_PIPE then int_of t x OR int_of t y else int_of t x XOR int_of t y)"
  using assms
  by (elim insertE emptyE)
    (simp_all add: m_op_def word_of_int_sint2 xor_or_and of_int_and_eq of_int_or_eq of_int_xor_eq)

lemma m_op_div:
  assumes "y \<noteq> 0" "uns = (\<not> type_is_signed t)"
  shows "m_op T_SLASH uns luns x y = word_of_int (int_of t x sdiv int_of t y)"
    and "m_op T_PERCENT uns luns x y = word_of_int (int_of t x smod int_of t y)"
  using assms by (simp_all add: m_op_def int_of_def sdiv_nonneg)

lemma m_op_compare:
  assumes "uns = (\<not> type_is_signed t)" "op \<in> {T_EQ, T_NE, T_LT, T_GT, T_LE, T_GE}"
  shows "m_op op uns luns x y = of_bool
    (if op = T_EQ then int_of t x = int_of t y else if op = T_NE then int_of t x \<noteq> int_of t y
     else if op = T_LT then int_of t x < int_of t y else if op = T_GT then int_of t y < int_of t x
     else if op = T_LE then int_of t x \<le> int_of t y else int_of t y \<le> int_of t x)"
proof -
  have "0 < uint (x - y) \<longleftrightarrow> x \<noteq> y"
    by (metis uint_0_iff uint_ge_0 order.not_eq_order_implies_strict less_irrefl right_minus_eq)
  then show ?thesis
    using assms
    by (elim insertE emptyE) (simp_all add: m_op_def int_of_inj word_of_int_sint2, simp_all add: int_of_def not_less)
qed

lemma m_op_shift:
  assumes "0 \<le> int_of rt y" "int_of rt y < 64"
  shows "m_op T_SHL uns luns x y = word_of_int (int_of t x * 2 ^ nat (int_of rt y))"
    and "m_op T_SHR uns luns x y = word_of_int ((if luns then uint x else sint x) div 2 ^ nat (int_of rt y))"
proof -
  have "uint y = int_of rt y"
    using assms int_of_mod [of rt y] by (simp add: take_bit_int_eq_self)
  then have n: "nat (int_of rt y) = unat y mod 64"
    using assms by (simp add: nat_mod_distrib flip: nat_uint_eq)
  show "m_op T_SHL uns luns x y = word_of_int (int_of t x * 2 ^ nat (int_of rt y))"
    by (simp add: m_op_def n)
  show "m_op T_SHR uns luns x y = word_of_int ((if luns then uint x else sint x) div 2 ^ nat (int_of rt y))"
    by (simp add: m_op_def n)
qed

subsection \<open>Promotion keeps the value\<close>

lemma small_canon:
  assumes "canon t x" "ty_kind t \<in> {TY_BOOL, TY_CHAR, TY_SCHAR, TY_UCHAR, TY_SHORT, TY_USHORT}" "int_like t"
  shows "signed_take_bit 31 x = x" "\<not> type_is_signed t \<Longrightarrow> uint x = sint x"
proof -
  have size: "ty_size t = c_size (ty_kind t)"
    using integer_size(1) [of t] assms(2,3) by (auto simp: int_like_def type_is_pointer_def)
  have b: "bits_of t \<in> {8, 16}"
    using assms(2) size by (auto simp: bits_of_def c_size_def prim_table_def)
  have s: "signed_take_bit 31 (signed_take_bit n x) = signed_take_bit n x" if "n \<le> 31" for n
    using that by (simp add: signed_take_bit_signed_take_bit min_def)
  have u: "signed_take_bit 31 (take_bit n x) = take_bit n x" "uint (take_bit n x) = sint (take_bit n x)" if "n \<le> 31" for n
  proof -
    have "uint (take_bit n x) < 2 ^ n" by (simp add: unsigned_take_bit_eq)
    also have "(2 ^ n :: int) \<le> 2 ^ 63" using power_increasing [of n 63 "2 :: int"] that by simp
    finally have "signed_take_bit 63 (uint (take_bit n x)) = uint (take_bit n x)"
      by (intro signed_take_bit_int_eq_self order.trans [OF _ uint_ge_0]) simp_all
    then show "uint (take_bit n x) = sint (take_bit n x)" using sint_uint [of "take_bit n x"] by simp
    show "signed_take_bit 31 (take_bit n x) = take_bit n x"
      using that by (intro bit_word_eqI) (auto simp: bit_simps min_def split: if_splits)
  qed
  consider "ty_kind t = TY_BOOL" "x = flag64 (x \<noteq> 0)" | "type_is_signed t" "x = signed_take_bit (bits_of t - 1) x"
    | "\<not> type_is_signed t" "x = take_bit (bits_of t) x"
    using assms(1) by (auto simp: canon_def conv_def split: if_splits)
  then have "signed_take_bit 31 x = x \<and> (\<not> type_is_signed t \<longrightarrow> uint x = sint x)"
  proof cases
    case 1
    then show ?thesis by (cases "x = 0") simp_all
  next
    case 2
    moreover have "bits_of t - 1 \<le> 31" using b by auto
    ultimately show ?thesis using s by metis
  next
    case 3
    moreover have "bits_of t \<le> 31" using b by auto
    ultimately show ?thesis using u by metis
  qed
  then show "signed_take_bit 31 x = x" "\<not> type_is_signed t \<Longrightarrow> uint x = sint x" by blast+
qed

lemma promote_canon:
  assumes "types_ok st" "t < length st" "type_is_integer (st ! t)" "canon (st ! t) x"
  defines "p \<equiv> st ! type_promote t st"
  shows "canon p x" "int_of p x = int_of (st ! t) x" "int_like p" "ty_kind p \<noteq> TY_BOOL"
    "(if type_is_unsigned (st ! t) then uint x else sint x) = int_of p x"
proof -
  have lt: "int_like (st ! t)" using types_okD(3) [OF assms(1,2)] assms(3) by (simp add: int_like_def)
  have p: "int_like p \<and> ty_kind p \<noteq> TY_BOOL"
    using promote_less [OF assms(1,2)] types_okD(2,3) [OF assms(1)] assms(3)
    by (auto simp: p_def int_like_def type_promote_def type_is_integer_def prim_table_def)
  then show "int_like p" "ty_kind p \<noteq> TY_BOOL" by blast+
  have "canon p x \<and> int_of p x = int_of (st ! t) x \<and> (if type_is_unsigned (st ! t) then uint x else sint x) = int_of p x"
  proof (cases "ty_kind (st ! t) \<in> {TY_BOOL, TY_CHAR, TY_SCHAR, TY_UCHAR, TY_SHORT, TY_USHORT}")
    case True
    have "ty_kind p = TY_INT" using True types_okD(2) [OF assms(1), of 7] by (simp add: p_def type_promote_def prim_table_def)
    moreover from this have "bits_of p = 32" "type_is_signed p"
      using integer_size(1) [of p] p by (simp_all add: bits_of_def int_like_def type_is_integer_def type_is_pointer_def
          c_size_def prim_table_def type_is_signed_def)
    ultimately show ?thesis
      using small_canon [OF assms(4) True lt] signed_iff [OF assms(3)] by (auto simp: canon_def conv_def int_of_def)
  next
    case False
    then have "p = st ! t" by (simp add: p_def type_promote_def)
    then show ?thesis using assms(4) signed_iff [OF assms(3)] by (simp add: int_of_def)
  qed
  then show "canon p x" "int_of p x = int_of (st ! t) x"
    "(if type_is_unsigned (st ! t) then uint x else sint x) = int_of p x" by blast+
qed

subsection \<open>A whole operator\<close>

text \<open>The result type of an operator.\<close>

definition result_of :: "token_kind \<Rightarrow> type_t \<Rightarrow> type_t \<Rightarrow> type_t \<Rightarrow> type_t" where
  "result_of op c p it = (if is_comparison op then it else if op \<in> {T_SHL, T_SHR} then p else c)"

lemma flag_conv:
  assumes "int_like t" "ty_kind t = TY_INT"
  shows "int_of t (conv t (of_bool b)) = of_bool b"
proof -
  have "bits_of t = 32" "type_is_signed t"
    using integer_size(1) [of t] assms by (simp_all add: bits_of_def int_like_def type_is_integer_def type_is_pointer_def
        c_size_def prim_table_def type_is_signed_def)
  then show ?thesis using assms(2) by (cases b) (simp_all add: int_of_def conv_def)
qed

lemma binop_value:
  assumes op: "op \<in> binary_ops" and c: "int_like c" "ty_kind c \<noteq> TY_BOOL" and p: "int_like p" "ty_kind p \<noteq> TY_BOOL"
    and int: "int_like it" "ty_kind it = TY_INT"
    and xy: "op \<notin> {T_SHL, T_SHR} \<Longrightarrow> canon c x \<and> canon c y" "canon p x"
    and l: "(if luns then uint x else sint x) = int_of p x" and uns: "uns = (\<not> type_is_signed c)"
    and def: "c_defined op p (int_of rt y)"
  shows "int_of (result_of op c p it) (conv (result_of op c p it) (m_op op uns luns x y))
    = c_binop op c p (int_of lt x) (int_of rt y)"
proof -
  have ab: "c_convert c (int_of lt x) = int_of c x" "c_convert c (int_of rt y) = int_of c y" if "op \<notin> {T_SHL, T_SHR}"
    using xy(1) [OF that] canon_int_of [OF c(1)] by simp_all
  have li: "c_convert p (int_of lt x) = int_of p x" using canon_int_of [OF p(1) xy(2)] .
  consider (arith) "op \<in> {T_PLUS, T_MINUS, T_STAR, T_AMP, T_PIPE, T_CARET}" | (div) "op \<in> {T_SLASH, T_PERCENT}"
    | (shift) "op \<in> {T_SHL, T_SHR}" | (cmp) "op \<in> {T_EQ, T_NE, T_LT, T_GT, T_LE, T_GE}"
    using op by (auto simp: binary_ops_def)
  then show ?thesis
  proof cases
    case arith
    then have "result_of op c p it = c" "op \<notin> {T_SHL, T_SHR}" by (auto simp: result_of_def is_comparison_def)
    then show ?thesis
      using arith ab by (elim insertE emptyE)
        (simp_all add: m_op_arith [where t = c] int_of_conv_word [OF c] c_binop_def Let_def del: of_int_add of_int_diff of_int_mult)
  next
    case div
    moreover have "int_of rt 0 = 0" by (simp add: int_of_def)
    ultimately have "y \<noteq> 0" using def by (auto simp: c_defined_def)
    then show ?thesis
      using div ab uns by (elim insertE emptyE)
        (simp_all add: m_op_div int_of_conv_word [OF c] c_binop_def Let_def result_of_def is_comparison_def)
  next
    case shift
    have "bits_of p \<le> 64" using bits_of_cases [OF p(1)] by auto
    then have "0 \<le> int_of rt y" "int_of rt y < 64" using def shift by (auto simp: c_defined_def)
    then show ?thesis
      using shift li l by (elim insertE emptyE)
        (simp_all add: m_op_shift(1) [where t = p] m_op_shift(2) int_of_conv_word [OF p] c_binop_def Let_def result_of_def is_comparison_def
          del: of_int_mult)
  next
    case cmp
    then show ?thesis
      using ab by (elim insertE emptyE)
        (simp_all add: m_op_compare [OF uns] flag_conv [OF int] c_binop_def Let_def result_of_def is_comparison_def)
  qed
qed

lemma val_value_frame:
  assumes "same_env g g'" "g_pages s' = g_pages s" "g_reg s' (reg_no (v_reg v)) = g_reg s (reg_no (v_reg v))"
    "g_reg s' 8 = g_reg s 8"
  shows "val_value g' v s' = val_value g v s" and "lval_addr g' v s' = lval_addr g v s"
proof -
  have e: "ty_of v g' = ty_of v g" "n_globals g' = n_globals g" "g_syms g' = g_syms g"
    using assms(1) by (simp_all add: ty_of_def n_globals_def same_env_def)
  then show l: "lval_addr g' v s' = lval_addr g v s"
    using assms(2-4) by (cases "v_kind v") (simp_all add: lval_addr_def slot_addr_def)
  show "val_value g' v s' = val_value g v s"
    unfolding val_value_def slot_addr_def e l assms(2-4) by (rule refl)
qed

text \<open>Loading both operands: the right one into t1, then the left one into t0.\<close>

lemma load_both:
  assumes "load_value rhs 6 g = Some (r', g1)" "load_value lhs 5 g1 = Some (l', g2)"
    and "val_value g lhs s = Some x" "val_value g rhs s = Some y"
    and "v_reg lhs < 32" "v_reg rhs < 32" "reg_no (v_reg lhs) \<notin> {6, 30, 31}" "g_reg s 0 = 0"
  shows "\<exists>s'. gives u h g g2 {5, 6, 30, 31} s s' \<and> g_reg s' 5 = x \<and> g_reg s' 6 = y \<and> g_reg s' 0 = 0"
    and "in_reg rhs 6 r'" "in_reg lhs 5 l'" "same_env g g2"
proof -
  have r: "reg_no 5 = 5" "reg_no 6 = 6" by (simp_all add: reg_no_def)
  have L1: "loads u h rhs 6 y s g r' g1"
    using load_value_gives [OF assms(1,4,6)] assms(8) r by simp
  then obtain s1 where s1: "gives u h g g1 {6, 30, 31} s s1" "g_reg s1 6 = y" and e1: "same_env g g1" "in_reg rhs 6 r'"
    by (auto simp: loads_def clob_def r)
  have fr: "g_reg s1 k = g_reg s k" if "k \<notin> {6, 30, 31}" for k using gives_frame(1) [OF s1(1) that] .
  have "val_value g1 lhs s1 = Some x"
    using val_value_frame(1) [OF e1(1) gives_frame(2) [OF s1(1)]] fr assms(3,7) by simp
  moreover have "g_reg s1 0 = 0" using fr [of 0] assms(8) by simp
  ultimately have "loads u h lhs 5 x s1 g1 l' g2"
    using load_value_gives [OF assms(2) _ assms(5)] r by simp
  then obtain s2 where s2: "gives u h g1 g2 {5, 30, 31} s1 s2" "g_reg s2 5 = x" and e2: "same_env g1 g2" "in_reg lhs 5 l'"
    by (auto simp: loads_def clob_def r)
  have "gives u h g g2 {5, 6, 30, 31} s s2"
    using gives_trans [OF gives_mono [OF s1(1)] gives_mono [OF s2(1)], of "{5, 6, 30, 31}"] by auto
  moreover have "g_reg s2 6 = y" "g_reg s2 0 = 0"
    using gives_frame(1) [OF s2(1), of 6] gives_frame(1) [OF s2(1), of 0] s1(2) fr [of 0] assms(8) by simp_all
  ultimately show "\<exists>s'. gives u h g g2 {5, 6, 30, 31} s s' \<and> g_reg s' 5 = x \<and> g_reg s' 6 = y \<and> g_reg s' 0 = 0"
    using s2(2) by blast
  show "in_reg rhs 6 r'" "in_reg lhs 5 l'" "same_env g g2" using e1 e2 same_env_trans by blast+
qed

lemma int_op_same_env: "same_env g (int_op op uns luns g)"
  by (simp add: int_op_def Let_def same_env_def emit_def)

lemma integer_not_pointer: "type_is_integer t \<Longrightarrow> \<not> type_is_pointer t"
  by (auto simp: type_is_integer_def type_is_pointer_def)

text \<open>For integer operands \<^verbatim>\<open>int_binop\<close> is the two loads, the operator and the narrowing.\<close>

lemma int_binop_steps:
  assumes "int_binop op lhs rhs common g = Some (v', g')" "v_type lhs = Some lt" "v_type rhs = Some rt"
    and "type_is_integer (g_types g ! lt)" "type_is_integer (g_types g ! rt)"
    and "val_value g lhs s = Some x" "val_value g rhs s = Some y"
    and "v_reg lhs < 32" "v_reg rhs < 32" "reg_no (v_reg lhs) \<notin> {6, 30, 31}" "g_reg s 0 = 0"
  defines "res \<equiv> result_type op lt common g"
  shows "\<exists>s' g2. gives u h g g2 {5, 6, 30, 31} s s' \<and> g_types g2 = g_types g \<and> g_reg s' 0 = 0
      \<and> g_reg s' 5 = m_op op (type_is_unsigned (g_types g ! common)) (type_is_unsigned (g_types g ! lt)) x y
      \<and> g' = narrow (g_types g ! res) g2"
    and "v_kind v' = VAL_REG" "v_reg v' = 5" "v_type v' = Some res"
proof -
  obtain r' g1 l' g2 where ld: "load_value rhs 6 g = Some (r', g1)" "load_value lhs 5 g1 = Some (l', g2)"
    using assms(1) by (auto simp: int_binop_def split: option.splits)
  note both = load_both [OF ld assms(6-11)]
  obtain s2 where s2: "gives u h g g2 {5, 6, 30, 31} s s2" "g_reg s2 5 = x" "g_reg s2 6 = y" "g_reg s2 0 = 0"
    using both(1) by blast
  have ty: "g_types g2 = g_types g" "v_type l' = Some lt" "v_type r' = Some rt"
    using both(2-4) assms(2,3) by (simp_all add: in_reg_def same_env_def)
  let ?uns = "type_is_unsigned (g_types g ! common)" and ?luns = "type_is_unsigned (g_types g ! lt)"
  let ?g3 = "int_op op ?uns ?luns g2"
  have ty3: "g_types ?g3 = g_types g" using int_op_same_env [of g2 op ?uns ?luns] ty(1) by (simp add: same_env_def)
  have r: "(v', g') = (l'\<lparr>v_kind := VAL_REG, v_reg := 5, v_type := Some res\<rparr>, narrow (g_types g ! res) ?g3)"
    using assms(1,4,5) ld ty ty3
    by (auto simp: int_binop_def scale_pointers_def apply_int_op_def Let_def integer_not_pointer res_def result_type_def)
  obtain s3 where s3: "gives u h g2 ?g3 {5} s2 s3" "g_reg s3 5 = m_op op ?uns ?luns x y"
    using int_op_gives [OF s2(4)] s2(2,3) by blast
  have "gives u h g ?g3 {5, 6, 30, 31} s s3"
    using gives_trans [OF s2(1) gives_mono [OF s3(1)]] by simp
  moreover have "g_reg s3 0 = 0" using gives_frame(1) [OF s3(1), of 0] s2(4) by simp
  ultimately show "\<exists>s' g2. gives u h g g2 {5, 6, 30, 31} s s' \<and> g_types g2 = g_types g \<and> g_reg s' 0 = 0
      \<and> g_reg s' 5 = m_op op ?uns ?luns x y \<and> g' = narrow (g_types g ! res) g2"
    using s3(2) ty3 r by blast
  show "v_kind v' = VAL_REG" "v_reg v' = 5" "v_type v' = Some res" using r by simp_all
qed

lemma common_int:
  assumes "types_ok st" "a < length st" "b < length st" "type_is_integer (st ! a)" "type_is_integer (st ! b)"
  shows "int_like (st ! type_common a b st)" "ty_kind (st ! type_common a b st) \<noteq> TY_BOOL"
    "type_is_integer (st ! type_common a b st)"
proof -
  have k: "type_is_integer (st ! type_promote t st) \<and> ty_kind (st ! type_promote t st) \<noteq> TY_BOOL" if "type_is_integer (st ! t)" for t
    using that types_okD(2) [OF assms(1), of 7]
    by (auto simp: type_promote_def type_is_integer_def prim_table_def)
  have nf: "ty_kind (st ! type_promote t st) \<notin> {TY_FLOAT, TY_DOUBLE, TY_LDOUBLE}" if "type_is_integer (st ! t)" for t
    using k [OF that] by (auto simp: type_is_integer_def)
  have "type_common a b st \<in> {type_promote a st, type_promote b st}"
    using nf [OF assms(4)] nf [OF assms(5)] by (simp add: type_common_def Let_def)
  then have "type_is_integer (st ! type_common a b st) \<and> ty_kind (st ! type_common a b st) \<noteq> TY_BOOL"
    using k [OF assms(4)] k [OF assms(5)] by auto
  then show "int_like (st ! type_common a b st)" "ty_kind (st ! type_common a b st) \<noteq> TY_BOOL"
    "type_is_integer (st ! type_common a b st)"
    using types_okD(3) [OF assms(1) common_less [OF assms(1-3)]] by (simp_all add: int_like_def)
qed

lemma int_binop_gives:
  assumes "int_binop op lhs rhs (type_common lt rt (g_types g)) g = Some (v', g')" and "op \<in> binary_ops"
    and "types_ok (g_types g)" and "v_type lhs = Some lt" and "v_type rhs = Some rt"
    and "lt < length (g_types g)" and "rt < length (g_types g)"
    and "type_is_integer (g_types g ! lt)" and "type_is_integer (g_types g ! rt)"
    and "val_value g lhs s = Some x" and "val_value g rhs s = Some y" and "canon (g_types g ! lt) x"
  defines "c \<equiv> g_types g ! type_common lt rt (g_types g)" and "p \<equiv> g_types g ! type_promote lt (g_types g)"
    and "res \<equiv> result_type op lt (type_common lt rt (g_types g)) g"
  assumes "op \<notin> {T_SHL, T_SHR} \<Longrightarrow> canon c x \<and> canon c y" and "c_defined op p (int_of (g_types g ! rt) y)"
    and "v_reg lhs < 32" and "v_reg rhs < 32" and "reg_no (v_reg lhs) \<notin> {6, 30, 31}" and "g_reg s 0 = 0"
  shows "\<exists>s'. gives u h g g' {5, 6, 30, 31} s s'
    \<and> int_of (g_types g ! res) (g_reg s' 5) = c_binop op c p (int_of (g_types g ! lt) x) (int_of (g_types g ! rt) y)
    \<and> canon (g_types g ! res) (g_reg s' 5)"
    and "v_kind v' = VAL_REG" "v_reg v' = 5" "v_type v' = Some res"
proof -
  let ?lt = "g_types g ! lt"
  note st = int_binop_steps [OF assms(1,4,5,8-11,18-21), folded res_def]
  note pr = promote_canon [OF assms(3,6,8,12), folded p_def]
  note ci = common_int [OF assms(3,6,7,8,9), folded c_def]
  have int: "int_like (g_types g ! ty_int)" "ty_kind (g_types g ! ty_int) = TY_INT"
    using types_okD(1-3) [OF assms(3)] by (auto simp: int_like_def type_is_integer_def prim_table_def)
  have res: "g_types g ! res = result_of op c p (g_types g ! ty_int)"
    by (simp add: result_type_def result_of_def c_def p_def res_def)
  then have rl: "int_like (g_types g ! res)" "ty_kind (g_types g ! res) \<noteq> TY_BOOL"
    using ci pr(3,4) int by (auto simp: result_of_def)
  obtain s2 g2 where s2: "gives u h g g2 {5, 6, 30, 31} s s2" "g_reg s2 0 = 0"
    "g_reg s2 5 = m_op op (type_is_unsigned c) (type_is_unsigned ?lt) x y" "g' = narrow (g_types g ! res) g2"
    using st(1) [of u h] unfolding c_def by blast
  obtain s3 where s3: "gives u h g2 g' (clob 5) s2 s3" "g_reg s3 5 = conv (g_types g ! res) (g_reg s2 5)"
    using narrow_gives(1) [OF rl s2(2)] s2(4) by blast
  have all: "gives u h g g' {5, 6, 30, 31} s s3"
    using gives_trans [OF s2(1) gives_mono [OF s3(1)]] by (simp add: clob_def reg_no_def)
  have "int_of (g_types g ! res) (g_reg s3 5) = c_binop op c p (int_of ?lt x) (int_of (g_types g ! rt) y)"
    using binop_value [OF assms(2) ci(1,2) pr(3,4) int assms(16) pr(1,5) _ assms(17), of "type_is_unsigned c" ?lt]
      signed_iff [OF ci(3)] s3(2) s2(3) res by simp
  moreover have "canon (g_types g ! res) (g_reg s3 5)" unfolding s3(2) canon_def by (rule conv_conv [OF rl(1)])
  ultimately show "\<exists>s'. gives u h g g' {5, 6, 30, 31} s s'
    \<and> int_of (g_types g ! res) (g_reg s' 5) = c_binop op c p (int_of (g_types g ! lt) x) (int_of (g_types g ! rt) y)
    \<and> canon (g_types g ! res) (g_reg s' 5)"
    using all by blast
  show "v_kind v' = VAL_REG" "v_reg v' = 5" "v_type v' = Some res" by (rule st)+
qed

text \<open>
  C3. The integer operators compute the operators of C: for operands of any two integer types the
  code of the sixteen operators leaves in t0 the value the C standard gives (usual arithmetic
  conversions, wrapping at the width of the common type, truncating division, shifts at the
  promoted type of the left operand, comparisons with 0 or 1), provided the operation is
  defined and the operands, as they are held in registers, are already values of the common
  type; only t0, t1 and the scratch registers change.
\<close>

theorem int_binop_correct:
  assumes "int_binop op lhs rhs (type_common lt rt (g_types g)) g = Some (v', g')" and "op \<in> binary_ops"
    and "types_ok (g_types g)" and "v_type lhs = Some lt" and "v_type rhs = Some rt"
    and "lt < length (g_types g)" and "rt < length (g_types g)"
    and "type_is_integer (g_types g ! lt)" and "type_is_integer (g_types g ! rt)"
    and "val_value g lhs s = Some x" and "val_value g rhs s = Some y" and "canon (g_types g ! lt) x"
  defines "c \<equiv> g_types g ! type_common lt rt (g_types g)" and "p \<equiv> g_types g ! type_promote lt (g_types g)"
  assumes "op \<notin> {T_SHL, T_SHR} \<Longrightarrow> canon c x \<and> canon c y" and "c_defined op p (int_of (g_types g ! rt) y)"
    and "v_reg lhs < 32" and "v_reg rhs < 32" and "reg_no (v_reg lhs) \<notin> {6, 30, 31}" and "g_reg s 0 = 0"
    and "buf_wf (g_text g)" and "in_memory (new_code g g') s"
  shows "\<exists>s' r. run u h (length (new_code g g') div 4) s = Inr s'
    \<and> v_kind v' = VAL_REG \<and> v_reg v' = 5 \<and> v_type v' = Some r
    \<and> int_of (g_types g ! r) (g_reg s' 5) = c_binop op c p (int_of (g_types g ! lt) x) (int_of (g_types g ! rt) y)
    \<and> (\<forall>k. k \<notin> {5, 6, 30, 31} \<longrightarrow> g_reg s' k = g_reg s k) \<and> g_pages s' = g_pages s"
proof -
  note ig = int_binop_gives [OF assms(1-12) assms(15) [unfolded c_def] assms(16) [unfolded p_def] assms(17-20), folded c_def p_def]
  obtain s' where s': "gives u h g g' {5, 6, 30, 31} s s'"
    "int_of (g_types g ! result_type op lt (type_common lt rt (g_types g)) g) (g_reg s' 5)
      = c_binop op c p (int_of (g_types g ! lt) x) (int_of (g_types g ! rt) y)"
    using ig(1) [of u h] by blast
  show ?thesis
    using gives_run(1) [OF s'(1) assms(21,22)] s' ig(2-4) by (auto simp: gives_def)
qed

lemma types0_int_facts:
  "g_types gen0 = types0" "length types0 = 16" "type_is_integer (types0 ! 7)" "type_common 7 7 types0 = 7"
  "type_promote 7 types0 = 7" "is_complete (types0 ! 7)" "ty_size (types0 ! 7) = 4" "type_is_signed (types0 ! 7)"
  "\<not> type_is_unsigned (types0 ! 7)" "ty_kind (types0 ! 7) = TY_INT" "bits_of (types0 ! 7) = 32"
  by (simp add: gen0_def) code_simp+

lemma narrow_types0_int: "narrow (types0 ! 7) g = emit (rv_srai 5 5 32) (emit (rv_slli 5 5 32) g)"
  by (simp add: narrow_def sizeof_def type_sizeof_def types0_int_facts)

text \<open>The code of a division of two constants, for the witness.\<close>

definition div_code :: gen where
  "div_code = emit (rv_srai 5 5 32) (emit (rv_slli 5 5 32) (emit (rv_div 5 5 6)
     (emit (rv_addi_imm 5 0 7) (emit (rv_addi_imm 6 0 (- 2)) gen0))))"

lemma div_code_gen:
  "\<exists>v'. int_binop T_SLASH (imm_val ty_int 7) (imm_val ty_int (- 2)) (type_common 7 7 (g_types gen0)) gen0 = Some (v', div_code)"
  by (simp add: int_binop_def load_value_def materialize_def imm_val_def scale_pointers_def apply_int_op_def int_op_def
      Let_def result_type_def is_comparison_def types0_int_facts integer_not_pointer narrow_types0_int div_code_def emit_def)

theorem int_binop_correct_witness:
  "\<forall>u h. \<exists>m s'. run u h 5 (boot_cpu m 0x10000) = Inr s' \<and> sint (g_reg s' 5) = - 3"
proof (intro allI)
  fix u h
  obtain v' where r: "int_binop T_SLASH (imm_val ty_int 7) (imm_val ty_int (- 2)) (type_common 7 7 (g_types gen0)) gen0
      = Some (v', div_code)"
    using div_code_gen by blast
  have len: "length (new_code gen0 div_code) = 20" by code_simp
  then obtain m where m: "in_memory (new_code gen0 div_code) (boot_cpu m 0x10000)"
    using code_loadable [of "0x10000" "new_code gen0 div_code"] by auto
  have can: "canon (types0 ! 7) 7" "canon (types0 ! 7) (- 2)"
    by (simp_all add: canon_def conv_def types0_int_facts signed_take_bit_word_self)
  have ints: "int_of (types0 ! 7) 7 = 7" "int_of (types0 ! 7) (- 2) = - 2"
    by (simp_all add: int_of_def types0_int_facts)
  have res: "c_binop T_SLASH (types0 ! 7) (types0 ! 7) 7 (- 2) = - 3"
    by (simp add: c_binop_def c_convert_def types0_int_facts)
  obtain s' k where "run u h 5 (boot_cpu m 0x10000) = Inr s'" "v_type v' = Some k" "int_of (types0 ! k) (g_reg s' 5) = - 3"
    using int_binop_correct [OF r, of "boot_cpu m 0x10000" 7 "- 2" u h] m len can ints res types_ok_types0 gen0_wf
    by (auto simp: binary_ops_def types0_int_facts val_value_def imm_val_def c_defined_def reg_no_def)
  moreover from this r have "k = 7"
    by (auto simp: int_binop_def load_value_def materialize_def imm_val_def scale_pointers_def apply_int_op_def
        Let_def result_type_def is_comparison_def types0_int_facts integer_not_pointer)
  ultimately show "\<exists>m s'. run u h 5 (boot_cpu m 0x10000) = Inr s' \<and> sint (g_reg s' 5) = - 3"
    by (auto simp: int_of_def types0_int_facts)
qed

text \<open>
  C37. Operands of different signedness are not converted: for an \<^verbatim>\<open>int\<close> that is -1 and an
  \<^verbatim>\<open>unsigned int\<close> that is 4294967295 the code of \<^verbatim>\<open>==\<close> leaves 0, although the two are equal after the
  usual arithmetic conversions: the registers hold the sign-extended and the zero-extended
  value and are compared as they are.
\<close>

theorem mixed_sign_comparison_wrong:
  assumes "int_binop T_EQ lhs rhs (type_common ty_int ty_uint (g_types g)) g = Some (v', g')" and "types_ok (g_types g)"
    and "v_type lhs = Some ty_int" and "v_type rhs = Some ty_uint"
    and "val_value g lhs s = Some (- 1)" and "val_value g rhs s = Some 0xFFFFFFFF"
    and "v_reg lhs < 32" and "v_reg rhs < 32" and "reg_no (v_reg lhs) \<notin> {6, 30, 31}" and "g_reg s 0 = 0"
    and "buf_wf (g_text g)" and "in_memory (new_code g g') s"
  shows "(\<exists>s'. run u h (length (new_code g g') div 4) s = Inr s' \<and> g_reg s' 5 = 0)
    \<and> c_binop T_EQ (g_types g ! type_common ty_int ty_uint (g_types g)) p
        (int_of (g_types g ! ty_int) (- 1)) (int_of (g_types g ! ty_uint) 0xFFFFFFFF) = 1"
proof -
  note ok = types_okD [OF assms(2)]
  have k: "ty_kind (g_types g ! 7) = TY_INT" "ty_kind (g_types g ! 8) = TY_UINT"
    using ok(2) [of 7] ok(2) [of 8] by (simp_all add: prim_table_def)
  then have int: "type_is_integer (g_types g ! 7)" "type_is_integer (g_types g ! 8)" "type_is_signed (g_types g ! 7)"
    "\<not> type_is_signed (g_types g ! 8)" "type_is_unsigned (g_types g ! 8)"
    by (simp_all add: type_is_integer_def type_is_signed_def type_is_unsigned_def)
  have size: "ty_size (g_types g ! 7) = 4" "ty_size (g_types g ! 8) = 4"
    using integer_size(1) [OF int(1) ok(3)] integer_size(1) [OF int(2) ok(3)] ok(1) k
    by (simp_all add: c_size_def prim_table_def)
  then have c: "type_common 7 8 (g_types g) = 8"
    using k int signed_iff [OF int(1)] by (simp add: type_common_def type_promote_def Let_def)
  have il: "int_like (g_types g ! 7)" using int(1) ok(1,3) by (simp add: int_like_def)
  have res: "result_type T_EQ 7 8 g = 7" by (simp add: result_type_def is_comparison_def)
  obtain s2 g2 where s2: "gives u h g g2 {5, 6, 30, 31} s s2" "g_reg s2 0 = 0" "g' = narrow (g_types g ! 7) g2"
    "g_reg s2 5 = m_op T_EQ (type_is_unsigned (g_types g ! 8)) (type_is_unsigned (g_types g ! 7)) (- 1) 0xFFFFFFFF"
    using int_binop_steps(1) [OF assms(1,3,4) int(1,2) assms(5-10), of u h] unfolding c res by blast
  have z: "g_reg s2 5 = 0" using s2(4) by (simp add: m_op_def)
  obtain s3 where s3: "gives u h g2 g' (clob 5) s2 s3" "g_reg s3 5 = conv (g_types g ! 7) 0"
    using narrow_gives(1) [OF il _ s2(2), of u h g2] k(1) s2(3) z by auto
  have "gives u h g g' {5, 6, 30, 31} s s3"
    using gives_trans [OF s2(1) gives_mono [OF s3(1)]] by (simp add: clob_def reg_no_def)
  moreover have "conv (g_types g ! 7) 0 = 0" using k int by (simp add: conv_def)
  ultimately have "\<exists>s'. run u h (length (new_code g g') div 4) s = Inr s' \<and> g_reg s' 5 = 0"
    using gives_run(1) assms(11,12) s3(2) by metis
  moreover have "c_binop T_EQ (g_types g ! type_common ty_int ty_uint (g_types g)) p
      (int_of (g_types g ! ty_int) (- 1)) (int_of (g_types g ! ty_uint) 0xFFFFFFFF) = 1"
    unfolding c using int k size by (simp add: c_binop_def c_convert_def int_of_def bits_of_def mask_eq_exp_minus_1)
  ultimately show ?thesis by blast
qed

definition eq_code :: gen where
  "eq_code = emit (rv_srai 5 5 32) (emit (rv_slli 5 5 32) (emit (rv_seqz 5 5) (emit (rv_sub 5 5 6)
     (emit (rv_addi_imm 5 0 (- 1)) (emit (rv_addi_imm 6 0 0xFFFFFFFF) gen0)))))"

lemma eq_code_gen:
  "\<exists>v'. int_binop T_EQ (imm_val ty_int (- 1)) (imm_val ty_uint 0xFFFFFFFF) (type_common 7 8 (g_types gen0)) gen0
     = Some (v', eq_code)"
proof -
  have "type_is_integer (types0 ! 8)" by code_simp
  then show ?thesis
    by (simp add: int_binop_def load_value_def materialize_def imm_val_def scale_pointers_def apply_int_op_def int_op_def
        Let_def result_type_def is_comparison_def types0_int_facts integer_not_pointer narrow_types0_int eq_code_def emit_def)
qed

theorem mixed_sign_comparison_wrong_witness:
  "\<forall>u h. \<exists>m s'. run u h 9 (boot_cpu m 0x10000) = Inr s' \<and> g_reg s' 5 = 0"
proof (intro allI)
  fix u h
  obtain v' where r: "int_binop T_EQ (imm_val ty_int (- 1)) (imm_val ty_uint 0xFFFFFFFF) (type_common 7 8 (g_types gen0)) gen0
      = Some (v', eq_code)"
    using eq_code_gen by blast
  have len: "length (new_code gen0 eq_code) = 36" by code_simp
  then obtain m where "in_memory (new_code gen0 eq_code) (boot_cpu m 0x10000)"
    using code_loadable [of "0x10000" "new_code gen0 eq_code"] by auto
  then show "\<exists>m s'. run u h 9 (boot_cpu m 0x10000) = Inr s' \<and> g_reg s' 5 = 0"
    using mixed_sign_comparison_wrong [OF r, of "boot_cpu m 0x10000" u h] len types_ok_types0 gen0_wf
    by (intro exI [of _ m]) (auto simp: types0_int_facts val_value_def imm_val_def reg_no_def)
qed

end
