(* ===== verification/Gen_Store.thy ===== *)
theory Gen_Store
  imports Gen_Binop
begin

text \<open>
  Assignments and spills of \<^verbatim>\<open>src/back/gen.c\<close>: the code of \<^verbatim>\<open>gen_store\<close> writes the converted value to the
  object its left-hand side denotes, and moving a value to a stack slot keeps what it denotes.
\<close>

subsection \<open>Code that ends with a store\<close>

text \<open>The steps run from \<open>s\<close> to \<open>s'\<close>, the last one storing \<open>v\<close> at \<open>a\<close>; registers outside \<open>R\<close> are kept.\<close>

definition stores :: "fpu \<Rightarrow> 'h host_ops \<Rightarrow> gen \<Rightarrow> gen \<Rightarrow> nat set \<Rightarrow> u32 \<Rightarrow> u64 \<Rightarrow> u64 \<Rightarrow> 'h cpu \<Rightarrow> 'h cpu \<Rightarrow> bool" where
  "stores u h g g' R f3 a v s s' \<longleftrightarrow>
     (\<exists>ws. adds g g' ws \<and> list_all plain_word (butlast ws) \<and> exec_seq u h ws s = Inr s'
        \<and> g_pc s' = g_pc s + code_len ws)
     \<and> (\<forall>k. k \<notin> R \<longrightarrow> g_reg s' k = g_reg s k) \<and> store_value (g_pages s) f3 a v = Inr (g_pages s')"

lemma stores_run:
  assumes "stores u h g g' R f3 a v s s'" "buf_wf (g_text g)" "in_memory (new_code g g') s"
  shows "run u h (length (new_code g g') div 4) s = Inr s'"
proof -
  obtain ws where ws: "adds g g' ws" "list_all plain_word (butlast ws)" "exec_seq u h ws s = Inr s'"
    using assms(1) by (auto simp: stores_def)
  with adds_code_at [OF ws(1) assms(2,3)] show ?thesis using run_plain [of ws s u h] by simp
qed

lemma gives_stores:
  assumes "gives u h g g1 R s s1" "stores u h g1 g2 R f3 a v s1 s2"
  shows "stores u h g g2 R f3 a v s s2"
proof -
  obtain ws where ws: "adds g g1 ws" "list_all plain_word ws" "exec_seq u h ws s = Inr s1" "g_pc s1 = g_pc s + code_len ws"
    using assms(1) by (auto simp: gives_def)
  obtain vs where vs: "adds g1 g2 vs" "list_all plain_word (butlast vs)" "exec_seq u h vs s1 = Inr s2"
    "g_pc s2 = g_pc s1 + code_len vs"
    using assms(2) by (auto simp: stores_def)
  have "list_all plain_word (butlast (ws @ vs))"
    using ws(2) vs(2) by (auto simp: butlast_append list_all_iff dest: in_set_butlastD)
  then have "adds g g2 (ws @ vs) \<and> list_all plain_word (butlast (ws @ vs)) \<and> exec_seq u h (ws @ vs) s = Inr s2
      \<and> g_pc s2 = g_pc s + code_len (ws @ vs)"
    using ws vs by (simp add: adds_trans exec_seq_append add.assoc)
  then show ?thesis
    using assms unfolding stores_def gives_def by auto
qed

lemma stores_emit:
  assumes "f3 < 4" "rs1 < 32" "reg_no rs2 \<notin> {30, 31}" "g_reg s 0 = 0"
    "store_value (g_pages s) f3 (g_reg s (reg_no rs1) + scast imm) (g_reg s (reg_no rs2)) = Inr m"
  shows "\<exists>s'. stores u h g (emit (emit_s_store f3 rs2 rs1 imm) g) {30, 31} f3
    (g_reg s (reg_no rs1) + scast imm) (g_reg s (reg_no rs2)) s s'"
proof -
  let ?k = "\<lambda>r i. s_word i rs2 r (f3 AND 7) 0x23"
  let ?ws = "addr_words rs1 imm ?k"
  have f3: "f3 AND 7 = f3" using assms(1) by (rule and_7_small [OF order.strict_trans]) simp
  have em: "emits (emit_s_store f3 rs2 rs1 imm) ?ws" unfolding emit_s_store_def by (rule emits_with_addr)
  obtain base off s1 where rdy: "addr_ready s rs1 imm base off s1 (code_len (butlast ?ws))"
    and ex: "exec_seq u h ?ws s = bindE (exec_insn u h (?k base off) s1) (\<lambda>r. Inr (retire r))"
    using exec_addr_words [OF assms(2,4)] by blast
  let ?s' = "retire (s1\<lparr>g_pages := m\<rparr>, g_pc s1 + 4)"
  have "exec_seq u h ?ws s = Inr ?s'"
    using ex exec_store_value [OF assms(1) addr_readyD(2) [OF rdy], of u h rs2 base s1] addr_readyD [OF rdy]
      addr_readyD(6) [OF rdy assms(3)] f3 assms(5) by simp
  moreover have "list_all plain_word (butlast ?ws)"
    using addr_words_alu [of rs1 imm ?k] by (auto simp: list_all_iff alu_plain)
  moreover have "g_pc ?s' = g_pc s + code_len ?ws"
    using addr_readyD(5) [OF rdy] addr_words_len [of rs1 imm ?k] by (simp add: add.assoc)
  moreover have "\<forall>k. k \<notin> {30, 31} \<longrightarrow> g_reg ?s' k = g_reg s k"
    using addr_readyD(6) [OF rdy] assms(4) by auto
  ultimately show ?thesis
    using adds_emit [OF em, of g] assms(5) unfolding stores_def by (intro exI [of _ ?s'] conjI exI [of _ ?ws]) simp_all
qed

lemma stores_mono: "stores u h g g' R f3 a v s s' \<Longrightarrow> R \<subseteq> R' \<Longrightarrow> stores u h g g' R' f3 a v s s'"
  unfolding stores_def by blast

subsection \<open>Objects in memory\<close>

definition st_f3 :: "u64 \<Rightarrow> u32" where
  "st_f3 sz = (if sz = 1 then 0 else if sz = 2 then 1 else if sz = 4 then 2 else 3)"

lemma store_sized_eq: "store_sized sz = emit_s_store (st_f3 sz)"
  by (intro ext) (simp add: store_sized_def st_f3_def rv_sb_def rv_sh_def rv_sw_def rv_sd_def)

lemma st_f3_less: "st_f3 sz < 4"
  by (simp add: st_f3_def)

lemma st_f3_size: "sz \<in> {1, 2, 4, 8} \<Longrightarrow> 2 ^ unat (st_f3 sz) = unat sz"
  by (auto simp: st_f3_def)

text \<open>An object that was stored is read back as its value converted to its type.\<close>

lemma typed_load_store:
  assumes "int_like t" "store_value m (st_f3 (ty_size t)) a v = Inr m'"
  shows "typed_load m' t a = Some (if type_is_signed t then signed_take_bit (bits_of t - 1) v else take_bit (bits_of t) v)"
    and "b \<notin> (\<lambda>i. a + word_of_nat i) ` {..<unat (ty_size t)} \<Longrightarrow> mem_read8 m b = Inr x \<Longrightarrow> mem_read8 m' b = Inr x"
proof -
  note sz = int_like_size(1) [OF assms(1)]
  let ?n = "unat (ty_size t)"
  have w: "onx_mem.wr_list m a (le_bytes ?n v) = Inr m'"
    using assms(2) sz by (simp add: store_value_def st_f3_size mem_write_eq)
  have n: "?n < 2 ^ 64" "?n \<le> 8" using sz by auto
  have "mem_read m' a ?n = Inr (un_le (le_bytes ?n v))"
    using mem_read_eq onx_mem.rd_list_wr_list [OF w] n(1) by simp
  also have "un_le (le_bytes ?n v) = take_bit (8 * ?n) v" using un_le_le_bytes [of ?n v] n(2) by simp
  finally have rd: "mem_read m' a ?n = Inr (take_bit (bits_of t) v)" by (simp add: bits_of_def)
  have u: "type_is_unsigned t = (\<not> type_is_signed t) \<or> ty_size t = 8"
    using signed_iff [of t] int_like_size(6) [OF assms(1)] by (cases "type_is_integer t") simp_all
  show "typed_load m' t a = Some (if type_is_signed t then signed_take_bit (bits_of t - 1) v else take_bit (bits_of t) v)"
    using sz rd u int_like_size(2) [OF assms(1)]
    by (elim insertE emptyE) (auto simp: typed_load_def f3_of_def loaded_def bits_of_def signed_take_bit_take_bit
        signed_take_bit_63 take_bit_word_eq_self)
  show "mem_read8 m' b = Inr x"
    if "b \<notin> (\<lambda>i. a + word_of_nat i) ` {..<?n}" "mem_read8 m b = Inr x"
    using onx_mem.wr_list_frame [OF w _ that(2)] that(1) by (auto simp: onx_mem.outside_def)
qed

lemma store_value_total:
  assumes "int_like t" "unat a + unat (ty_size t) \<le> 0x40000000"
  shows "\<exists>m'. store_value m (st_f3 (ty_size t)) a v = Inr m'"
  using mem_write_total [OF assms(2)] st_f3_size [OF int_like_size(1) [OF assms(1)]] by (simp add: store_value_def)

subsection \<open>Assignment\<close>

lemma lhs_addr_gives:
  assumes "lhs_addr lhs reg g = Some (lhs', g')" "lval_addr g lhs s = Some a"
    and "v_reg lhs < 32" "reg_no reg \<noteq> 0" "g_reg s 0 = 0"
  shows "\<exists>s'. gives u h g g' (clob reg) s s' \<and> g_reg s' (reg_no reg) = a" and "same_env g g'"
proof -
  have "(\<exists>s'. gives u h g g' (clob reg) s s' \<and> g_reg s' (reg_no reg) = a) \<and> same_env g g'"
  proof (cases "v_kind lhs \<in> {VAL_SYM, VAL_SPILL}")
    case True
    then have m: "materialize lhs reg g = Some (lhs', g')" using assms(1) by (simp add: lhs_addr_def)
    show ?thesis using materialize_lval(1,3) [OF m assms(2-5)] by blast
  next
    case False
    then have "v_kind lhs = VAL_LVAL" using assms(2) by (auto simp: lval_addr_def split: val_kind.splits)
    then have "g' = emit (rv_addi_imm reg (v_reg lhs) (v_offset lhs)) g" "a = g_reg s (reg_no (v_reg lhs)) + v_offset lhs"
      using False assms(1,2) by (auto simp: lhs_addr_def lval_addr_def)
    then show ?thesis using gives_addi_imm [OF assms(3-5)] by auto
  qed
  then show "\<exists>s'. gives u h g g' (clob reg) s s' \<and> g_reg s' (reg_no reg) = a" and "same_env g g'" by blast+
qed

lemma gen_store_stores:
  assumes "gen_store u lhs rhs T_ASSIGN g = Some (lhs', g')" "lval_addr g lhs s = Some a" "val_value g rhs s = Some x"
    and "v_type lhs = Some t" "int_like (g_types g ! t)" "ty_of rhs g = Some src" "int_like src"
    and "v_reg lhs < 32" "reg_no (v_reg lhs) \<notin> {5, 30, 31}" "v_reg rhs < 32" "g_reg s 0 = 0"
    and "unat a + unat (ty_size (g_types g ! t)) \<le> 0x40000000"
  shows "\<exists>s'. stores u' h g g' {5, 7, 30, 31} (st_f3 (ty_size (g_types g ! t))) a (conv (g_types g ! t) x) s s'
    \<and> g_reg s' 5 = conv (g_types g ! t) x"
proof -
  let ?t = "g_types g ! t"
  have r: "reg_no 5 = 5" "reg_no 7 = 7" by (simp_all add: reg_no_def)
  have kl: "v_kind lhs \<in> {VAL_SYM, VAL_LVAL, VAL_SPILL}"
    using assms(2) by (auto simp: lval_addr_def split: val_kind.splits)
  obtain r1 g1 where c: "convert_scalar u rhs t g = Some (r1, g1)" and st: "store_int lhs r1 T_ASSIGN ?t g1 = Some (lhs', g')"
    using assms(1,4) kl int_like_size(4,5) [OF assms(5)] by (auto simp: gen_store_def Let_def split: option.splits)
  note cv = convert_scalar_gives [OF c assms(3,6,7,5,10,11)]
  obtain s1 where s1: "gives u' h g g1 {5, 30, 31} s s1" "g_reg s1 5 = conv ?t x"
    using cv(1) by (auto simp: clob_def r)
  have fr1: "g_reg s1 k = g_reg s k" if "k \<notin> {5, 30, 31}" for k using gives_frame(1) [OF s1(1) that] .
  have "load_value r1 5 g1 = Some (r1, g1)" using cv(2,3) by (simp add: load_value_def materialize_def)
  moreover have size: "sizeof ?t g = (ty_size ?t, g)" for g
    using int_like_size(2) [OF assms(5)] by (simp add: sizeof_def type_sizeof_def)
  ultimately obtain g2 where la: "lhs_addr lhs 7 g1 = Some (lhs', g2)" and g': "g' = emit (store_sized (ty_size ?t) 5 7 0) g2"
    using st by (auto simp: store_int_def Let_def int_compound_def)
  have a1: "lval_addr g1 lhs s1 = Some a"
    using val_value_frame(2) [OF cv(5) gives_frame(2) [OF s1(1)], of lhs] fr1 assms(2,9) by simp
  obtain s2 where s2: "gives u' h g1 g2 {7, 30, 31} s1 s2" "g_reg s2 7 = a"
    using lhs_addr_gives(1) [OF la a1 assms(8), of u' h] fr1 [of 0] assms(11) r by (auto simp: clob_def)
  have fr2: "g_reg s2 5 = conv ?t x" "g_reg s2 0 = 0"
    using gives_frame(1) [OF s2(1)] s1(2) fr1 [of 0] assms(11) by simp_all
  have pg: "g_pages s2 = g_pages s" using gives_frame(2) [OF s1(1)] gives_frame(2) [OF s2(1)] by simp
  obtain m where m: "store_value (g_pages s2) (st_f3 (ty_size ?t)) a (conv ?t x) = Inr m"
    using store_value_total [OF assms(5,12)] by blast
  obtain s3 where s3: "stores u' h g2 g' {30, 31} (st_f3 (ty_size ?t)) a (conv ?t x) s2 s3"
    using stores_emit [OF st_f3_less, of 7 5 s2 "ty_size ?t" 0 m u' h g2] m s2(2) fr2 r g'
    by (auto simp: store_sized_eq)
  have "stores u' h g g' {5, 7, 30, 31} (st_f3 (ty_size ?t)) a (conv ?t x) s s3"
    using gives_stores [OF gives_trans [OF gives_mono [OF s1(1)] gives_mono [OF s2(1)]] stores_mono [OF s3]] by auto
  moreover have "g_reg s3 5 = conv ?t x" using s3 fr2(1) by (simp add: stores_def)
  ultimately show ?thesis by blast
qed

lemma conv_stored: "int_like t \<Longrightarrow>
    (if type_is_signed t then signed_take_bit (bits_of t - 1) (conv t x) else take_bit (bits_of t) (conv t x)) = conv t x"
  using bits_of_cases [of t] int_like_size(7) [of t]
  by (auto simp: conv_def type_is_signed_def signed_take_bit_signed_take_bit bits_of_def)

text \<open>
  C4. Simple assignment to integers and pointers stores what C says: for the operator \<^verbatim>\<open>=\<close>, a left-hand side that denotes the address \<open>a\<close> of an
  object of an integer or pointer type (a local object, a spilled address or an address in a register other than t0, t5 and t6; not a
  global symbol, whose address is patched at link time), and a right-hand side of integer or pointer type and value \<open>x\<close>,
  the code of \<^verbatim>\<open>gen_store\<close> leaves at
  \<open>a\<close> the value converted to the type of the object, changes no byte outside the object and no
  register but t0, t2 and the scratch registers, and t0 holds the value of the expression. Compound assignment and assignment of
  floating-point and struct values are modelled but not covered.
\<close>

theorem gen_store_correct:
  assumes "gen_store u lhs rhs T_ASSIGN g = Some (lhs', g')" and "lval_addr g lhs s = Some a" and "val_value g rhs s = Some x"
    and "v_type lhs = Some t" and "int_like (g_types g ! t)" and "ty_of rhs g = Some src" and "int_like src"
    and "v_reg lhs < 32" and "reg_no (v_reg lhs) \<notin> {5, 30, 31}" and "v_reg rhs < 32" and "g_reg s 0 = 0"
    and "unat a + unat (ty_size (g_types g ! t)) \<le> 0x40000000"
    and "buf_wf (g_text g)" and "in_memory (new_code g g') s"
  shows "\<exists>s' y. run u' h (length (new_code g g') div 4) s = Inr s'
    \<and> typed_load (g_pages s') (g_types g ! t) a = Some y \<and> int_of (g_types g ! t) y = c_convert (g_types g ! t) (int_of src x)
    \<and> g_reg s' 5 = y \<and> (\<forall>k. k \<notin> {5, 7, 30, 31} \<longrightarrow> g_reg s' k = g_reg s k)
    \<and> (\<forall>b z. b \<notin> (\<lambda>i. a + word_of_nat i) ` {..<unat (ty_size (g_types g ! t))} \<longrightarrow>
          mem_read8 (g_pages s) b = Inr z \<longrightarrow> mem_read8 (g_pages s') b = Inr z)"
proof -
  let ?t = "g_types g ! t"
  obtain s' where s': "stores u' h g g' {5, 7, 30, 31} (st_f3 (ty_size ?t)) a (conv ?t x) s s'" "g_reg s' 5 = conv ?t x"
    using gen_store_stores [OF assms(1-12)] by blast
  have sv: "store_value (g_pages s) (st_f3 (ty_size ?t)) a (conv ?t x) = Inr (g_pages s')"
    using s'(1) by (simp add: stores_def)
  note tl = typed_load_store [OF assms(5) sv]
  have "typed_load (g_pages s') ?t a = Some (conv ?t x)" using tl(1) conv_stored [OF assms(5)] by simp
  then show ?thesis
    using stores_run [OF s'(1) assms(13,14)] int_of_conv [OF assms(5)] tl(2) s'
    by (intro exI [of _ s'] exI [of _ "conv ?t x"]) (auto simp: stores_def)
qed

text \<open>An object of type \<^verbatim>\<open>char\<close> at an absolute address, for the witness.\<close>

definition char_at :: "u64 \<Rightarrow> val_t" where
  "char_at a = \<lparr>v_kind = VAL_LVAL, v_type = Some ty_char, v_reg = 0, v_imm = 0, v_fval = 0, v_sym_idx = 0, v_offset = a\<rparr>"

definition store_code :: gen where
  "store_code = emit (rv_sb 5 7 0) (emit (rv_addi_imm 7 0 0x20000)
     (emit (rv_srai 5 5 56) (emit (rv_slli 5 5 56) (emit (rv_addi_imm 5 0 200) gen0))))"

lemma types0_char_facts:
  "ty_kind (types0 ! 2) = TY_CHAR" "type_is_signed (types0 ! 2)" "bits_of (types0 ! 2) = 8"
  "type_is_integer (types0 ! 2)" "is_complete (types0 ! 2)" "ty_size (types0 ! 2) = 1"
  by code_simp+

lemma store_code_gen: "\<exists>l. gen_store u (char_at 0x20000) (imm_val ty_int 200) T_ASSIGN gen0 = Some (l, store_code)"
proof -
  have "narrow (types0 ! 2) g = emit (rv_srai 5 5 56) (emit (rv_slli 5 5 56) g)" for g
    by (simp add: narrow_def sizeof_def type_sizeof_def types0_char_facts)
  then show ?thesis
    by (simp add: gen_store_def char_at_def imm_val_def types0_int_facts types0_char_facts convert_scalar_def to_integer_def
        ty_of_def is_float_kind_def load_value_def materialize_def store_int_def int_compound_def lhs_addr_def Let_def
        sizeof_def type_sizeof_def store_sized_def store_code_def emit_def)
qed

theorem gen_store_correct_witness:
  "\<forall>u h. \<exists>m s' y. run u h 6 (boot_cpu m 0x10000) = Inr s'
     \<and> typed_load (g_pages s') (types0 ! ty_char) 0x20000 = Some y \<and> sint y = - 56"
proof (intro allI)
  fix u h
  obtain l where r: "gen_store u (char_at 0x20000) (imm_val ty_int 200) T_ASSIGN gen0 = Some (l, store_code)"
    using store_code_gen by blast
  have len: "length (new_code gen0 store_code) = 24" by code_simp
  then obtain m where m: "in_memory (new_code gen0 store_code) (boot_cpu m 0x10000)"
    using code_loadable [of "0x10000" "new_code gen0 store_code"] by auto
  have hyps: "lval_addr gen0 (char_at 0x20000) (boot_cpu m 0x10000) = Some 0x20000"
    "val_value gen0 (imm_val ty_int 200) (boot_cpu m 0x10000) = Some 200" "ty_of (imm_val ty_int 200) gen0 = Some (types0 ! 7)"
    "v_type (char_at 0x20000) = Some 2" "v_reg (char_at 0x20000) = 0" "v_reg (imm_val ty_int 200) = 0"
    by (simp_all add: lval_addr_def char_at_def val_value_def imm_val_def ty_of_def types0_int_facts)
  have ch: "c_convert (types0 ! 2) (int_of (types0 ! 7) 200) = - 56"
    by (simp add: c_convert_def int_of_def types0_int_facts types0_char_facts)
  obtain s' y where s': "run u h 6 (boot_cpu m 0x10000) = Inr s'" "typed_load (g_pages s') (types0 ! 2) 0x20000 = Some y"
    "int_of (types0 ! 2) y = - 56"
    using gen_store_correct [OF r hyps(1,2,4) _ hyps(3), of u h] hyps(5,6) m len gen0_wf ch types0_int [of 2] types0_int [of 7]
    by (auto simp: types0_int_facts types0_char_facts reg_no_def)
  then show "\<exists>m s' y. run u h 6 (boot_cpu m 0x10000) = Inr s'
      \<and> typed_load (g_pages s') (types0 ! ty_char) 0x20000 = Some y \<and> sint y = - 56"
    by (auto simp: int_of_def types0_char_facts)
qed

subsection \<open>Stack slots\<close>

lemma sint_unat_small: "unat (c :: u32) < 2 ^ 31 \<Longrightarrow> sint c = int (unat c)"
  using order_trans [OF _ uint_ge_0 [of c], of "- (2 ^ 31)"]
  by (simp add: sint_uint signed_take_bit_int_eq_self_iff flip: of_nat_less_iff [where 'a = int])

lemma slot_round:
  assumes "0 \<le> sint (cur_offset g)" "sint (cur_offset g) < 0x7FFFFFE0" "alloc_slot g = (slot, g')"
  shows "sint (cur_offset g) + 8 \<le> sint (cur_offset g')" "sint (cur_offset g') \<le> sint (cur_offset g) + 23"
    "slot = - scast (cur_offset g')" "sint (cur_offset g') \<le> sint (frame_size g')" "sint (frame_size g) \<le> sint (frame_size g')"
    "g_text g' = g_text g" "g_types g' = g_types g" "g_syms g' = g_syms g"
proof -
  let ?c = "(cur_offset g + 8 + 15) AND NOT 15"
  have u: "uint (cur_offset g) = sint (cur_offset g)"
    using assms(1,2) uint_sint [of "cur_offset g"] by (simp add: take_bit_int_eq_self)
  have sum: "unat (cur_offset g + 8 + 15) = nat (sint (cur_offset g)) + 23"
  proof -
    have "uint (cur_offset g + 23) = (uint (cur_offset g) + 23) mod 2 ^ 32" by (simp add: uint_word_ariths)
    then have "uint (cur_offset g + 23) = sint (cur_offset g) + 23" using u assms(1,2) by simp
    then show ?thesis using assms(1) by (simp add: add.assoc nat_add_distrib flip: nat_uint_eq)
  qed
  have "?c = (cur_offset g + 8 + 15) AND NOT (mask 4)" by (simp add: mask_eq_exp_minus_1)
  then have "unat ?c = (nat (sint (cur_offset g)) + 23) div 16 * 16"
    using sum by (simp only: unat_and_not_mask) simp
  then have c: "unat ?c \<ge> nat (sint (cur_offset g)) + 8" "unat ?c \<le> nat (sint (cur_offset g)) + 23" by simp_all
  have "nat (sint (cur_offset g)) < 0x7FFFFFE0" using assms(1,2) by simp
  with c(2) have "unat ?c < 2 ^ 31" by simp
  then have "sint ?c = int (unat ?c)" by (rule sint_unat_small)
  then have s: "sint (cur_offset g) + 8 \<le> sint ?c" "sint ?c \<le> sint (cur_offset g) + 23" using c assms(1) by linarith+
  show "sint (cur_offset g) + 8 \<le> sint (cur_offset g')" "sint (cur_offset g') \<le> sint (cur_offset g) + 23"
    "slot = - scast (cur_offset g')" "sint (cur_offset g') \<le> sint (frame_size g')" "sint (frame_size g) \<le> sint (frame_size g')"
    "g_text g' = g_text g" "g_types g' = g_types g" "g_syms g' = g_syms g"
    using assms(3) s by (auto simp: alloc_slot_def Let_def)
qed

lemma spill_ireg_stores:
  assumes "spill_ireg v g = (v', g')" "v_kind v = VAL_REG" "ty_of v g = Some t" "int_like t"
    and "reg_no (v_reg v) \<notin> {30, 31}" "g_reg s 0 = 0"
    and "unat (slot_addr (v_offset v') s) + unat (ty_size t) \<le> 0x40000000"
  shows "\<exists>s'. stores u h g g' {30, 31} (st_f3 (ty_size t)) (slot_addr (v_offset v') s) (g_reg s (reg_no (v_reg v))) s s'"
    and "v' = v\<lparr>v_kind := VAL_SPILL_I, v_reg := 8, v_offset := fst (alloc_slot g)\<rparr>"
    and "g_types g' = g_types g" "cur_offset g' = cur_offset (snd (alloc_slot g))" "frame_size g' = frame_size (snd (alloc_slot g))"
proof -
  obtain slot g1 where g1: "alloc_slot g = (slot, g1)" by (rule prod.exhaust)
  have e1: "g_text g1 = g_text g" "g_types g1 = g_types g" using g1 by (auto simp: alloc_slot_def Let_def)
  have t1: "ty_of v g1 = Some t" using assms(3) e1(2) by (simp add: ty_of_def)
  have sz: "sizeof t g1 = (ty_size t, g1)"
    using int_like_size(2) [OF assms(4)] by (simp add: sizeof_def type_sizeof_def)
  have nf: "\<not> is_float_type (ty_of v g)" using assms(3) int_like_size(5) [OF assms(4)] by (simp add: is_float_type_def)
  have r: "v' = v\<lparr>v_kind := VAL_SPILL_I, v_reg := 8, v_offset := slot\<rparr>"
    "g' = emit (emit_s_store (st_f3 (ty_size t)) (v_reg v) 8 (ucast slot)) g1"
    using assms(1,2) nf g1 t1 sz int_like_size(3) [OF assms(4)] by (auto simp: spill_ireg_def store_sized_eq)
  then show "v' = v\<lparr>v_kind := VAL_SPILL_I, v_reg := 8, v_offset := fst (alloc_slot g)\<rparr>"
    "g_types g' = g_types g" "cur_offset g' = cur_offset (snd (alloc_slot g))" "frame_size g' = frame_size (snd (alloc_slot g))"
    using g1 e1 by (simp_all add: emit_def)
  have a: "slot_addr (v_offset v') s = g_reg s (reg_no 8) + scast (ucast slot :: u32)"
    using r(1) by (simp add: slot_addr_def reg_no_def)
  obtain m where "store_value (g_pages s) (st_f3 (ty_size t)) (slot_addr (v_offset v') s) (g_reg s (reg_no (v_reg v))) = Inr m"
    using store_value_total [OF assms(4,7)] by blast
  then have "\<exists>s'. stores u h g1 g' {30, 31} (st_f3 (ty_size t)) (slot_addr (v_offset v') s) (g_reg s (reg_no (v_reg v))) s s'"
    using stores_emit [OF st_f3_less _ assms(5,6), of 8 "ty_size t" "ucast slot" m u h g1] r(2) a by simp
  then show "\<exists>s'. stores u h g g' {30, 31} (st_f3 (ty_size t)) (slot_addr (v_offset v') s) (g_reg s (reg_no (v_reg v))) s s'"
    using e1(1) by (simp add: stores_def adds_def)
qed

lemma ucast_word_of_int: "(ucast (word_of_int j :: u64) :: u32) = word_of_int j"
  by (rule bit_word_eqI) (simp add: bit_simps)

lemma slot_addr_fp:
  assumes "0 \<le> sint c" "slot = - scast (c :: u32)"
  shows "slot_addr slot s = g_reg s 8 - scast c"
proof -
  obtain i where i: "sint c = i" "0 \<le> i" "i < 2 ^ 31" using assms(1) sint_lt [of c] by simp
  have c: "(scast c :: u64) = word_of_int i" by (simp only: scast_eq i(1))
  have "slot = word_of_int (- i)" by (simp only: assms(2) c wi_hom_neg)
  then have u: "(ucast slot :: u32) = word_of_int (- i)" by (simp only: ucast_word_of_int)
  have "signed_take_bit 31 (- i) = - i" using i by (intro signed_take_bit_int_eq_self) simp_all
  then have "sint (word_of_int (- i) :: u32) = - i" by (simp only: sint_sbintrunc' len_of_numeral_defs) simp
  then have "(scast (ucast slot :: u32) :: u64) = word_of_int (- i)" by (simp only: scast_eq u)
  also have "\<dots> = - scast c" by (simp only: c wi_hom_neg)
  finally have "scast (ucast slot :: u32) = - (scast c :: u64)" .
  then show ?thesis by (simp add: slot_addr_def)
qed

lemma len64: "LENGTH(64) = 64"
  by simp

lemma slot_below:
  assumes "0 \<le> sint c" "sint c \<le> int (unat fp)"
  shows "unat (fp - scast (c :: u32) :: u64) = unat fp - nat (sint c)"
proof -
  have "take_bit 64 (sint c) = sint c"
    using assms(1) sint_lt [of c] by (intro take_bit_int_eq_self) simp_all
  then have "uint (word_of_int (sint c) :: u64) = sint c" by (simp only: uint_word_of_int_eq len64)
  then have u: "unat (scast c :: u64) = nat (sint c)" unfolding scast_eq by (simp only: unat_eq_nat_uint)
  then have "(scast c :: u64) \<le> fp" unfolding word_le_nat_alt u using assms(2) by linarith
  then show ?thesis unfolding unat_sub_if' u by (simp add: word_le_nat_alt u)
qed

lemma spill_ireg_kept:
  assumes "spill_ireg v g = (v', g')" and "v_kind v = VAL_REG" and "ty_of v g = Some t" and "int_like t"
    and "reg_no (v_reg v) \<notin> {30, 31}" and "g_reg s (reg_no (v_reg v)) = x" and "canon t x" and "g_reg s 0 = 0"
    and "0 \<le> sint (cur_offset g)" and "sint (cur_offset g) < 0x7FFFFFE0"
    and "sint (cur_offset g') \<le> int (unat (g_reg s 8))" and "unat (g_reg s 8) \<le> 0x40000000"
  shows "\<exists>s'. stores u h g g' {30, 31} (st_f3 (ty_size t)) (slot_addr (v_offset v') s) x s s' \<and> val_value g' v' s' = Some x
    \<and> (\<forall>b z. unat b < unat (g_reg s 8) - nat (sint (cur_offset g')) \<or> unat (g_reg s 8) - nat (sint (cur_offset g)) \<le> unat b \<longrightarrow>
          mem_read8 (g_pages s) b = Inr z \<longrightarrow> mem_read8 (g_pages s') b = Inr z)"
proof -
  obtain slot g1 where g1: "alloc_slot g = (slot, g1)" by (rule prod.exhaust)
  note sr = slot_round [OF assms(9,10) g1]
  let ?a = "slot_addr (v_offset v') s" and ?n = "unat (ty_size t)"
  have n8: "?n \<le> 8" using int_like_size(1) [OF assms(4)] by auto
  have off: "v_offset v' = slot" and co: "cur_offset g' = cur_offset g1"
    using assms(1-4) g1 int_like_size(2,5) [OF assms(4)]
    by (auto simp: spill_ireg_def is_float_type_def Let_def sizeof_def type_sizeof_def emit_def split: prod.splits if_splits)
  have a: "?a = g_reg s 8 - scast (cur_offset g1)"
    unfolding off by (rule slot_addr_fp) (use sr(1,3) assms(9) in simp_all)
  have ua: "unat ?a = unat (g_reg s 8) - nat (sint (cur_offset g1))"
    unfolding a by (rule slot_below) (use sr(1,2) assms(9,11) co in simp_all)
  have le: "unat ?a + ?n \<le> unat (g_reg s 8) - nat (sint (cur_offset g))" "unat (g_reg s 8) \<le> 0x40000000"
    using ua n8 sr(1,2) assms(9,12) assms(11) [unfolded co] by linarith+
  then have bnd: "unat ?a + ?n \<le> 0x40000000" by linarith
  note ss = spill_ireg_stores [OF assms(1-5,8) bnd]
  obtain s' where s': "stores u h g g' {30, 31} (st_f3 (ty_size t)) ?a x s s'" using ss(1) [of u h] assms(6) by blast
  have sv: "store_value (g_pages s) (st_f3 (ty_size t)) ?a x = Inr (g_pages s')" using s' by (simp add: stores_def)
  note tl = typed_load_store [OF assms(4) sv]
  have "slot_addr (v_offset v') s' = ?a" using s' by (simp add: stores_def slot_addr_def)
  moreover have "ty_of v' g' = Some t" using ss(2,3) assms(3) by (simp add: ty_of_def)
  moreover have "typed_load (g_pages s') t ?a = Some x"
    using tl(1) conv_stored [OF assms(4), of x, unfolded assms(7) [unfolded canon_def]] by (simp only:)
  ultimately have "val_value g' v' s' = Some x"
    using ss(2) int_like_size(3) [OF assms(4)] by (simp add: val_value_def)
  moreover have "b \<notin> (\<lambda>i. ?a + word_of_nat i) ` {..<?n}"
    if "unat b < unat (g_reg s 8) - nat (sint (cur_offset g')) \<or> unat (g_reg s 8) - nat (sint (cur_offset g)) \<le> unat b" for b
  proof (rule ccontr)
    assume "\<not> ?thesis"
    then obtain i where i: "i < ?n" "b = ?a + word_of_nat i" by auto
    then have "unat b = unat ?a + i"
      using n8 bnd unat_word_ariths(1) [of ?a "word_of_nat i"] by (simp add: unat_of_nat)
    then show False using i(1) le(1) that ua co by auto
  qed
  ultimately show ?thesis
    using s' tl(2) by (intro exI [of _ s']) auto
qed

lemma spill_ireg_offsets:
  assumes "spill_ireg v g = (v', g')" and "v_kind v = VAL_REG" and "ty_of v g = Some t" and "int_like t"
    and "0 \<le> sint (cur_offset g)" and "sint (cur_offset g) < 0x7FFFFFE0"
  shows "sint (cur_offset g) + 8 \<le> sint (cur_offset g')" "sint (cur_offset g') \<le> sint (cur_offset g) + 23"
    "sint (cur_offset g') \<le> sint (frame_size g')"
    "v' = v\<lparr>v_kind := VAL_SPILL_I, v_reg := 8, v_offset := - scast (cur_offset g')\<rparr>"
proof -
  obtain slot g1 where g1: "alloc_slot g = (slot, g1)" by (rule prod.exhaust)
  have e: "ty_of v g1 = Some t" using assms(3) slot_round(7) [OF assms(5,6) g1] by (simp add: ty_of_def)
  have sz: "sizeof t g1 = (ty_size t, g1)" using int_like_size(2) [OF assms(4)] by (simp add: sizeof_def type_sizeof_def)
  have v': "v' = v\<lparr>v_kind := VAL_SPILL_I, v_reg := 8, v_offset := slot\<rparr>" "cur_offset g' = cur_offset g1" "frame_size g' = frame_size g1"
    using assms(1-4) g1 e sz int_like_size(3,5) [OF assms(4)] by (auto simp: spill_ireg_def is_float_type_def emit_def)
  then show "sint (cur_offset g) + 8 \<le> sint (cur_offset g')" "sint (cur_offset g') \<le> sint (cur_offset g) + 23"
    "sint (cur_offset g') \<le> sint (frame_size g')" "v' = v\<lparr>v_kind := VAL_SPILL_I, v_reg := 8, v_offset := - scast (cur_offset g')\<rparr>"
    using slot_round(1-4) [OF assms(5,6) g1] by simp_all
qed

text \<open>
  C14. Spilling keeps a value and overwrites nothing: after the code of \<^verbatim>\<open>spill_ireg\<close> ran, the new
  descriptor denotes the value the register held, although the register may now be reused. The slot
  lies below every slot handed out before, inside the frame the function will reserve, and no byte
  at or above the earlier slots has changed.
\<close>

theorem spill_ireg_correct:
  assumes "spill_ireg v g = (v', g')" and "v_kind v = VAL_REG" and "ty_of v g = Some t" and "int_like t"
    and "reg_no (v_reg v) \<notin> {30, 31}" and "g_reg s (reg_no (v_reg v)) = x" and "canon t x" and "g_reg s 0 = 0"
    and "0 \<le> sint (cur_offset g)" and "sint (cur_offset g) < 0x7FFFFFE0"
    and "sint (cur_offset g) + 23 \<le> int (unat (g_reg s 8))" and "unat (g_reg s 8) \<le> 0x40000000"
    and "buf_wf (g_text g)" and "in_memory (new_code g g') s"
  shows "\<exists>s'. run u h (length (new_code g g') div 4) s = Inr s' \<and> val_value g' v' s' = Some x
    \<and> (\<forall>k. k \<notin> {30, 31} \<longrightarrow> g_reg s' k = g_reg s k)
    \<and> (\<forall>b z. unat (g_reg s 8) - nat (sint (cur_offset g)) \<le> unat b \<longrightarrow>
          mem_read8 (g_pages s) b = Inr z \<longrightarrow> mem_read8 (g_pages s') b = Inr z)
    \<and> sint (cur_offset g) + 8 \<le> sint (cur_offset g') \<and> sint (cur_offset g') \<le> sint (frame_size g')"
proof -
  note so = spill_ireg_offsets [OF assms(1-4,9,10)]
  have fits: "sint (cur_offset g') \<le> int (unat (g_reg s 8))" using so(2) assms(11) by simp
  obtain s' where s': "stores u h g g' {30, 31} (st_f3 (ty_size t)) (slot_addr (v_offset v') s) x s s'" "val_value g' v' s' = Some x"
    "\<forall>b z. unat (g_reg s 8) - nat (sint (cur_offset g)) \<le> unat b \<longrightarrow> mem_read8 (g_pages s) b = Inr z \<longrightarrow> mem_read8 (g_pages s') b = Inr z"
    using spill_ireg_kept [OF assms(1-10) fits assms(12), of u h] by blast
  then show ?thesis
    using stores_run [OF s'(1) assms(13,14)] so(1,3) by (intro exI [of _ s']) (auto simp: stores_def)
qed

lemma types0_int_like: "int_like (types0 ! 7)"
  using types0_int [of 7] types0_int_facts by simp

theorem spill_ireg_correct_witness:
  "\<forall>u (h :: unit host_ops). \<exists>s s'. run u h 1 s = Inr s' \<and> g_reg s 5 = 77 \<and> typed_load (g_pages s') (types0 ! ty_int) 0x1FFF0 = Some 77"
proof (intro allI)
  fix u and h :: "unit host_ops"
  let ?v = "\<lparr>v_kind = VAL_REG, v_type = Some 7, v_reg = 5, v_imm = 0, v_fval = 0, v_sym_idx = 0, v_offset = 0\<rparr> :: val_t"
  let ?g1 = "gen0\<lparr>cur_offset := 16, frame_size := 16\<rparr>"
  let ?g' = "emit (rv_sw 5 8 (ucast (- 16 :: u64))) ?g1" and ?v' = "?v\<lparr>v_kind := VAL_SPILL_I, v_reg := 8, v_offset := - 16\<rparr>"
  have t: "ty_of ?v gen0 = Some (types0 ! 7)" by (simp add: ty_of_def gen0_def)
  have c: "cur_offset gen0 = 0" by (simp add: gen0_def)
  have "alloc_slot gen0 = (- 16, ?g1)" by (simp add: alloc_slot_def gen0_def)
  then have sp: "spill_ireg ?v gen0 = (?v', ?g')"
    using types0_int_facts by (simp add: spill_ireg_def ty_of_def is_float_type_def is_float_kind_def decays_def gen0_def
        sizeof_def type_sizeof_def store_sized_def)
  have len: "length (new_code gen0 ?g') = 4" by code_simp
  then obtain m where m: "in_memory (new_code gen0 ?g') (boot_cpu m 0x10000)"
    using code_loadable [of "0x10000" "new_code gen0 ?g'"] by auto
  let ?s = "(boot_cpu m 0x10000)\<lparr>g_reg := (\<lambda>_. 0)(5 := 77, 8 := 0x20000)\<rparr>"
  have ca: "canon (types0 ! 7) 77" by code_simp
  obtain s' where s': "run u h 1 ?s = Inr s'" "val_value ?g' ?v' s' = Some 77" "g_reg s' 8 = 0x20000"
    using spill_ireg_correct [OF sp _ t types0_int_like, of ?s 77 u h] m len gen0_wf ca c
    by (auto simp: reg_no_def in_memory_def)
  moreover have "typed_load (g_pages s') (types0 ! 7) 0x1FFF0 = Some 77"
    using s'(2,3) types0_int_facts by (simp add: val_value_def ty_of_def decays_def gen0_def emit_def slot_addr_def)
  ultimately show "\<exists>s s'. run u h 1 s = Inr s' \<and> g_reg s 5 = 77 \<and> typed_load (g_pages s') (types0 ! ty_int) 0x1FFF0 = Some 77"
    by (intro exI [of _ ?s] exI [of _ s']) simp
qed

end
