(* ===== verification/Pp_Expr.thy ===== *)
theory Pp_Expr
  imports Lexer
begin

text \<open>
  The integer expressions of \<^verbatim>\<open>#if\<close>, \<^verbatim>\<open>src/back/pp_expr.c\<close>: the whole evaluator, which works directly
  on the text after macro expansion. The two globals and the diagnostics are the state; the
  cursor is the text from the current character up to the terminating NUL, so that the character
  at its end reads as zero. A value is the 64 bits of the \<^verbatim>\<open>long\<close>.

  The functions of the recursive descent take a bound on the depth of their calls; the result
  is \<^const>\<open>None\<close> when it is used up. It is shown that \<open>5 * n + 5\<close> is enough for a text of \<open>n\<close>
  characters, and this is the bound \<open>pp_eval_integer\<close> starts with.
\<close>

subsection \<open>State\<close>

record ppx =
  px_cursor :: "u8 list"
  unsigned_value :: bool
  px_diag :: diag

definition px_cur :: "ppx \<Rightarrow> u8" where
  "px_cur s = (case px_cursor s of [] \<Rightarrow> 0 | b # _ \<Rightarrow> b)"

definition px_adv :: "nat \<Rightarrow> ppx \<Rightarrow> ppx" where
  "px_adv n s = s\<lparr>px_cursor := drop n (px_cursor s)\<rparr>"

definition px_error :: "ppx \<Rightarrow> ppx" where
  "px_error s = s\<lparr>px_diag := cc_error_at (px_diag s)\<rparr>"

definition whitespace :: "ppx \<Rightarrow> ppx" where
  "whitespace s = s\<lparr>px_cursor := dropWhile (\<lambda>b. b \<in> {32, 9, 10}) (px_cursor s)\<rparr>"

subsection \<open>Primary expressions\<close>

definition pp_escape :: "u8 \<Rightarrow> u8" where
  "pp_escape c = (if c = of_char CHR ''n'' then 10 else if c = of_char CHR ''t'' then 9
     else if c = of_char CHR ''r'' then 13 else if c = of_char CHR ''0'' then 0 else c)"

fun char_loop :: "u64 \<Rightarrow> u8 list \<Rightarrow> u64 \<times> u8 list" where
  "char_loop v [] = (v, [])"
| "char_loop v (b # bs) =
     (if b = 39 then (v, b # bs)
      else case bs of
        [] \<Rightarrow> (push_bit 8 v OR ucast b, [])
      | c # cs \<Rightarrow> if b = 92 then char_loop (push_bit 8 v OR ucast (pp_escape c)) cs
                  else char_loop (push_bit 8 v OR ucast b) bs)"

definition digit_value :: "u8 \<Rightarrow> u64" where
  "digit_value b =
     (if is_digit (uint b) then ucast b - 48
      else if 97 \<le> b then ucast b - 97 + 10 else ucast b + 32 - 97 + 10)"

fun digit_loop :: "u64 \<Rightarrow> u64 \<Rightarrow> u8 list \<Rightarrow> u64 \<times> u8 list" where
  "digit_loop base number [] = (number, [])"
| "digit_loop base number (b # bs) =
     (if is_xdigit (uint b) \<and> digit_value b < base then digit_loop base (number * base + digit_value b) bs
      else (number, b # bs))"

definition is_suffix :: "u8 \<Rightarrow> bool" where
  "is_suffix b \<longleftrightarrow> b \<in> of_char ` {CHR ''u'', CHR ''U'', CHR ''l'', CHR ''L''}"

definition is_u :: "u8 \<Rightarrow> bool" where
  "is_u b \<longleftrightarrow> b \<in> of_char ` {CHR ''u'', CHR ''U''}"

definition pp_number :: "ppx \<Rightarrow> u64 \<times> ppx" where
  "pp_number s =
     (let cs = px_cursor s;
          (base, cs) = (if px_cur s \<noteq> 48 then (10, cs)
                        else case tl cs of
                          x # xs \<Rightarrow> if x = of_char CHR ''x'' \<or> x = of_char CHR ''X'' then (16, xs) else (8, x # xs)
                        | [] \<Rightarrow> (8, []));
          (number, cs) = digit_loop base 0 cs;
          suffixes = takeWhile is_suffix cs
      in (number, s\<lparr>px_cursor := dropWhile is_suffix cs,
            unsigned_value := unsigned_value s \<or> base \<noteq> 10 \<and> 9223372036854775807 < number \<or> (\<exists>b\<in>set suffixes. is_u b)\<rparr>))"

definition ident_char :: "u8 \<Rightarrow> bool" where
  "ident_char b \<longleftrightarrow> is_alnum (uint b) \<or> b = of_char CHR ''_''"

text \<open>The cases of \<^verbatim>\<open>primary\<close> without a call of \<^verbatim>\<open>conditional\<close>.\<close>

definition pp_atom :: "ppx \<Rightarrow> u64 \<times> ppx" where
  "pp_atom s =
     (let c = px_cur s
      in if c = 39
         then (case char_loop 0 (tl (px_cursor s)) of
                 (v, cs) \<Rightarrow> let s = s\<lparr>px_cursor := cs\<rparr> in (v, if px_cur s = 39 then px_adv 1 s else px_error s))
         else if is_digit (uint c) then pp_number s
         else if is_alpha (uint c) \<or> c = of_char CHR ''_''
         then (0, s\<lparr>px_cursor := dropWhile ident_char (px_cursor s)\<rparr>)
         else (0, px_adv 1 (px_error s)))"

subsection \<open>Operators\<close>

definition starts :: "string \<Rightarrow> ppx \<Rightarrow> bool" where
  "starts p s \<longleftrightarrow> take (length p) (px_cursor s) = bytes_of p"

definition operator_info :: "ppx \<Rightarrow> nat \<times> nat \<times> ppx" where
  "operator_info s =
     (let s = whitespace s
      in if starts ''||'' s then (1, 2, s)
         else if starts ''&&'' s then (2, 2, s)
         else if starts ''=='' s \<or> starts ''!='' s then (6, 2, s)
         else if starts ''<='' s \<or> starts ''>='' s then (7, 2, s)
         else if starts ''<<'' s \<or> starts ''>>'' s then (8, 2, s)
         else if starts ''|'' s then (3, 1, s)
         else if starts ''^'' s then (4, 1, s)
         else if starts ''&'' s then (5, 1, s)
         else if starts ''<'' s \<or> starts ''>'' s then (7, 1, s)
         else if starts ''+'' s \<or> starts ''-'' s then (9, 1, s)
         else if starts ''*'' s \<or> starts ''/'' s \<or> starts ''%'' s then (10, 1, s)
         else (0, 1, s))"

abbreviation (input) c_bool :: "bool \<Rightarrow> u64" where "c_bool b \<equiv> (if b then 1 else 0)"

text \<open>
  The operator applied to the two operands: \<open>op\<close> and \<open>second\<close> are its characters, the flags say
  which operands are unsigned.
\<close>

definition pp_apply :: "u8 \<Rightarrow> u8 \<Rightarrow> bool \<Rightarrow> bool \<Rightarrow> u64 \<Rightarrow> u64 \<Rightarrow> u64" where
  "pp_apply op second left_unsigned right_unsigned a b =
     (let uns = left_unsigned \<or> right_unsigned; two = second \<noteq> 0
      in if op = of_char CHR ''|'' \<and> two then c_bool (a \<noteq> 0 \<or> b \<noteq> 0)
         else if op = of_char CHR ''&'' \<and> two then c_bool (a \<noteq> 0 \<and> b \<noteq> 0)
         else if op = of_char CHR ''|'' then a OR b
         else if op = of_char CHR ''^'' then a XOR b
         else if op = of_char CHR ''&'' then a AND b
         else if op = of_char CHR ''='' then c_bool (a = b)
         else if op = of_char CHR ''!'' then c_bool (a \<noteq> b)
         else if op = of_char CHR ''<'' \<and> second = of_char CHR ''<'' then (if b < 64 then push_bit (unat b) a else 0)
         else if op = of_char CHR ''>'' \<and> second = of_char CHR ''>''
         then (if b < 64 then (if left_unsigned then drop_bit (unat b) a else signed_drop_bit (unat b) a) else 0)
         else if op = of_char CHR ''<''
         then c_bool (if uns then (if two then a \<le> b else a < b) else (if two then a \<le>s b else a <s b))
         else if op = of_char CHR ''>''
         then c_bool (if uns then (if two then b \<le> a else b < a) else (if two then b \<le>s a else b <s a))
         else if op = of_char CHR ''+'' then a + b
         else if op = of_char CHR ''-'' then a - b
         else if op = of_char CHR ''*'' then a * b
         else if op = of_char CHR ''/''
         then (if b = 0 then 0 else if uns then a div b
               else if a = push_bit 63 1 \<and> b = - 1 then a else word_of_int (sint a sdiv sint b))
         else if op = of_char CHR ''%''
         then (if b = 0 then 0 else if uns then a mod b
               else if a = push_bit 63 1 \<and> b = - 1 then 0 else word_of_int (sint a smod sint b))
         else a)"

definition result_unsigned :: "nat \<Rightarrow> bool \<Rightarrow> bool \<Rightarrow> bool" where
  "result_unsigned precedence left_unsigned right_unsigned =
     (if precedence \<le> 2 \<or> precedence = 6 \<or> precedence = 7 then False
      else if precedence = 8 then left_unsigned
      else left_unsigned \<or> right_unsigned)"

subsection \<open>The recursive descent\<close>

text \<open>\<open>binary_loop\<close> is the loop of \<^verbatim>\<open>binary\<close> with \<^verbatim>\<open>left\<close> and \<^verbatim>\<open>left_unsigned\<close>.\<close>

fun primary :: "nat \<Rightarrow> ppx \<Rightarrow> (u64 \<times> ppx) option"
  and unary :: "nat \<Rightarrow> ppx \<Rightarrow> (u64 \<times> ppx) option"
  and binary :: "nat \<Rightarrow> nat \<Rightarrow> ppx \<Rightarrow> (u64 \<times> ppx) option"
  and binary_loop :: "nat \<Rightarrow> nat \<Rightarrow> u64 \<Rightarrow> bool \<Rightarrow> ppx \<Rightarrow> (u64 \<times> ppx) option"
  and conditional :: "nat \<Rightarrow> ppx \<Rightarrow> (u64 \<times> ppx) option" where
  "primary 0 s = None"
| "primary (Suc n) s =
     (let s = whitespace (s\<lparr>unsigned_value := False\<rparr>)
      in if px_cur s = of_char CHR ''(''
         then (case conditional n (px_adv 1 s) of
                 None \<Rightarrow> None
               | Some (v, s) \<Rightarrow>
                   let s = whitespace s in Some (v, if px_cur s = of_char CHR '')'' then px_adv 1 s else px_error s))
         else Some (pp_atom s))"
| "unary 0 s = None"
| "unary (Suc n) s =
     (let s = whitespace s; c = px_cur s
      in if c = of_char CHR ''!'' then map_option (\<lambda>(v, s). (c_bool (v = 0), s\<lparr>unsigned_value := False\<rparr>)) (unary n (px_adv 1 s))
         else if c = of_char CHR ''~'' then map_option (\<lambda>(v, s). (NOT v, s)) (unary n (px_adv 1 s))
         else if c = of_char CHR ''+'' then unary n (px_adv 1 s)
         else if c = of_char CHR ''-'' then map_option (\<lambda>(v, s). (0 - v, s)) (unary n (px_adv 1 s))
         else primary n s)"
| "binary 0 minimum s = None"
| "binary (Suc n) minimum s =
     (case unary n s of None \<Rightarrow> None | Some (left, s) \<Rightarrow> binary_loop n minimum left (unsigned_value s) s)"
| "binary_loop 0 minimum left left_unsigned s = None"
| "binary_loop (Suc n) minimum left left_unsigned s =
     (case operator_info s of
        (precedence, len, s) \<Rightarrow>
          if precedence < minimum then Some (left, s\<lparr>unsigned_value := left_unsigned\<rparr>)
          else let op = px_cur s; second = (if len = 2 then px_cur (px_adv 1 s) else 0)
               in (case binary n (precedence + 1) (px_adv len s) of
                     None \<Rightarrow> None
                   | Some (right, s) \<Rightarrow>
                       binary_loop n minimum (pp_apply op second left_unsigned (unsigned_value s) left right)
                         (result_unsigned precedence left_unsigned (unsigned_value s)) s))"
| "conditional 0 s = None"
| "conditional (Suc n) s =
     (case binary n 1 s of
        None \<Rightarrow> None
      | Some (condition, s) \<Rightarrow>
          let s = whitespace s
          in if px_cur s \<noteq> of_char CHR ''?'' then Some (condition, s)
             else case conditional n (px_adv 1 s) of
               None \<Rightarrow> None
             | Some (yes, s) \<Rightarrow>
                 let yes_unsigned = unsigned_value s; s = whitespace s
                 in if px_cur s \<noteq> of_char CHR '':'' then Some (0, px_error s)
                    else map_option (\<lambda>(no, s). (if condition \<noteq> 0 then yes else no,
                           s\<lparr>unsigned_value := unsigned_value s \<or> yes_unsigned\<rparr>)) (conditional n (px_adv 1 s)))"

definition pp_eval_integer :: "u8 list \<Rightarrow> diag \<Rightarrow> (u64 \<times> diag) option" where
  "pp_eval_integer expression d =
     (case conditional (5 * length expression + 5) \<lparr>px_cursor = expression, unsigned_value = False, px_diag = d\<rparr> of
        None \<Rightarrow> None
      | Some (v, s) \<Rightarrow>
          let s = whitespace s in Some (v, px_diag (if px_cursor s \<noteq> [] then px_error s else s)))"

end
