(* ===== verification/Pp_Expr_Props.thy ===== *)
theory Pp_Expr_Props
  imports Pp_Expr Lexer_Props
begin

text \<open>
  Properties of the evaluator of \<^verbatim>\<open>#if\<close> expressions: it ends on every text, and on the text of an
  expression it computes the value the C standard gives the expression.
\<close>

subsection \<open>The bound on the depth\<close>

lemma more_fuel:
  "n \<le> k \<Longrightarrow> primary n s = Some r \<Longrightarrow> primary k s = Some r"
  "n \<le> k \<Longrightarrow> unary n s = Some r \<Longrightarrow> unary k s = Some r"
  "n \<le> k \<Longrightarrow> binary n m s = Some r \<Longrightarrow> binary k m s = Some r"
  "n \<le> k \<Longrightarrow> binary_loop n m left lu s = Some r \<Longrightarrow> binary_loop k m left lu s = Some r"
  "n \<le> k \<Longrightarrow> conditional n s = Some r \<Longrightarrow> conditional k s = Some r"
proof (induction n arbitrary: k s m left lu r)
  case 0
  { case 1 then show ?case by simp }
  { case 2 then show ?case by simp }
  { case 3 then show ?case by simp }
  { case 4 then show ?case by simp }
  { case 5 then show ?case by simp }
next
  case (Suc n)
  { case 1
    then obtain j where j: "k = Suc j" "n \<le> j" by (cases k) auto
    show ?case using 1(2) Suc.IH(5) [OF j(2)]
      by (auto simp: j(1) Let_def split: if_splits option.splits) }
  { case 2
    then obtain j where j: "k = Suc j" "n \<le> j" by (cases k) auto
    show ?case using 2(2) Suc.IH(1,2) [OF j(2)]
      by (auto simp: j(1) Let_def split: if_splits) }
  { case 3
    then obtain j where j: "k = Suc j" "n \<le> j" by (cases k) auto
    show ?case using 3(2) Suc.IH(2,4) [OF j(2)]
      by (cases r) (auto simp: j(1) split: option.splits) }
  { case 4
    then obtain j where j: "k = Suc j" "n \<le> j" by (cases k) auto
    show ?case using 4(2) Suc.IH(3,4) [OF j(2)]
      by (cases r) (auto simp: j(1) Let_def split: option.splits prod.splits if_split_asm) }
  { case 5
    then obtain j where j: "k = Suc j" "n \<le> j" by (cases k) auto
    show ?case using 5(2) Suc.IH(3,5) [OF j(2)]
      by (cases r) (auto simp: j(1) Let_def split: option.splits prod.splits if_split_asm) }
qed

text \<open>The length of the text left.\<close>

abbreviation (input) left_len :: "ppx \<Rightarrow> nat" where "left_len s \<equiv> length (px_cursor s)"

lemma left_len_simps [simp]:
  "left_len (px_adv n s) = left_len s - n" "left_len (px_error s) = left_len s"
  by (simp_all add: px_adv_def px_error_def)

lemma left_len_whitespace: "left_len (whitespace s) \<le> left_len s"
  by (simp add: whitespace_def length_dropWhile_le)

lemma px_cur_nonempty: "px_cur s \<noteq> 0 \<Longrightarrow> 0 < left_len s"
  by (cases "px_cursor s") (simp_all add: px_cur_def)

lemma digit_loop_len: "length (snd (digit_loop b v cs)) \<le> length cs"
  by (induction b v cs rule: digit_loop.induct) (auto intro: le_SucI)

lemma char_loop_len: "length (snd (char_loop v cs)) \<le> length cs"
proof (induction v cs rule: char_loop.induct)
  case (2 v b bs)
  show ?case
  proof (cases bs)
    case (Cons c cs)
    then show ?thesis
      using 2 [of c cs] by (subst char_loop.simps(2)) (auto simp del: char_loop.simps(2) intro: le_SucI)
  qed simp
qed simp

lemma pp_number_len: "left_len (snd (pp_number s)) \<le> left_len s"
proof -
  have "length (dropWhile is_suffix (snd (digit_loop b 0 cs))) \<le> length (px_cursor s)" if "length cs \<le> length (px_cursor s)" for b cs
    using length_dropWhile_le [of is_suffix "snd (digit_loop b 0 cs)"] digit_loop_len [of b 0 cs] that by linarith
  then show ?thesis
    by (cases "px_cursor s") (auto simp: pp_number_def Let_def case_prod_unfold split: list.split)
qed

lemma pp_atom_len: "left_len (snd (pp_atom s)) \<le> left_len s"
proof -
  have "length (snd (char_loop 0 (tl (px_cursor s)))) \<le> left_len s"
    using char_loop_len [of 0 "tl (px_cursor s)"] by simp
  then show ?thesis
    using pp_number_len [of s] length_dropWhile_le [of ident_char "px_cursor s"]
    by (auto simp: pp_atom_def Let_def case_prod_unfold)
qed

lemma operator_info_len:
  assumes "operator_info s = (p, len, s')"
  shows "left_len s' \<le> left_len s" "0 < p \<Longrightarrow> 0 < left_len s'" "0 < len"
proof -
  have ne: "0 < left_len (whitespace s)" if "starts q (whitespace s)" "q \<noteq> []" for q
    using that by (cases "px_cursor (whitespace s)") (auto simp: starts_def bytes_of_def)
  have s': "s' = whitespace s" using assms by (auto simp: operator_info_def Let_def split: if_splits)
  then show "left_len s' \<le> left_len s" using left_len_whitespace by simp
  show "0 < len" using assms by (auto simp: operator_info_def Let_def split: if_splits)
  show "0 < left_len s'" if "0 < p"
    using assms that ne unfolding s' by (auto simp: operator_info_def Let_def split: if_splits)
qed

definition reads :: "(u64 \<times> ppx) option \<Rightarrow> ppx \<Rightarrow> bool" where
  "reads r s \<longleftrightarrow> (\<exists>v s'. r = Some (v, s') \<and> left_len s' \<le> left_len s)"

lemma reads_mono: "reads r s \<Longrightarrow> left_len s \<le> left_len s' \<Longrightarrow> reads r s'"
  by (auto simp: reads_def)

lemma reads_map:
  assumes "reads r s" "\<And>v s. left_len (snd (f (v, s))) = left_len s"
  shows "reads (map_option f r) s"
proof -
  obtain v s' where r: "r = Some (v, s')" "left_len s' \<le> left_len s" using assms(1) by (auto simp: reads_def)
  then show ?thesis using assms(2) [of v s'] by (cases "f (v, s')") (simp add: reads_def)
qed

lemma enough_fuel:
  "5 * left_len s + 1 \<le> n \<Longrightarrow> reads (primary n s) s"
  "5 * left_len s + 2 \<le> n \<Longrightarrow> reads (unary n s) s"
  "5 * left_len s + 3 \<le> n \<Longrightarrow> 0 < m \<Longrightarrow> reads (binary n m s) s"
  "5 * left_len s + 1 \<le> n \<Longrightarrow> 0 < m \<Longrightarrow> reads (binary_loop n m left lu s) s"
  "5 * left_len s + 4 \<le> n \<Longrightarrow> reads (conditional n s) s"
proof (induction n arbitrary: s m left lu)
  case 0
  { case 1 then show ?case by simp }
  { case 2 then show ?case by simp }
  { case 3 then show ?case by simp }
  { case 4 then show ?case by simp }
  { case 5 then show ?case by simp }
next
  case (Suc n)
  note ws = left_len_whitespace
  have adv: "left_len (px_adv 1 s) + 1 \<le> k" if "px_cur s \<noteq> 0" "left_len s \<le> k" for s k
    using px_cur_nonempty [OF that(1)] that(2) by simp
  { case 1
    let ?s = "whitespace (s\<lparr>unsigned_value := False\<rparr>)"
    have l: "left_len ?s \<le> left_len s" using ws [of "s\<lparr>unsigned_value := False\<rparr>"] by simp
    show ?case
    proof (cases "px_cur ?s = of_char CHR ''(''")
      case True
      then have a: "left_len (px_adv 1 ?s) + 1 \<le> left_len s" using adv l by simp
      then obtain v s1 where s1: "conditional n (px_adv 1 ?s) = Some (v, s1)" "left_len s1 \<le> left_len s"
        using Suc.IH(5) [of "px_adv 1 ?s"] 1 by (fastforce simp: reads_def)
      then show ?thesis
        using True ws [of s1] by (auto simp: reads_def Let_def)
    next
      case False
      then show ?thesis
        using pp_atom_len [of ?s] l by (cases "pp_atom ?s") (auto simp: reads_def Let_def)
    qed }
  { case 2
    let ?s = "whitespace s"
    have u: "reads (unary n (px_adv 1 ?s)) s" if "px_cur ?s \<noteq> 0"
    proof -
      have a: "left_len (px_adv 1 ?s) + 1 \<le> left_len s" using adv [OF that ws] .
      then have "reads (unary n (px_adv 1 ?s)) (px_adv 1 ?s)" using Suc.IH(2) [of "px_adv 1 ?s"] 2 by linarith
      then show ?thesis by (rule reads_mono) (use a in linarith)
    qed
    have "reads (primary n ?s) ?s" using Suc.IH(1) [of ?s] 2 ws [of s] by linarith
    then have p: "reads (primary n ?s) s" using ws by (rule reads_mono)
    show ?case
      using u p by (auto simp: Let_def intro!: reads_map) }
  { case 3
    obtain v s1 where s1: "unary n s = Some (v, s1)" "left_len s1 \<le> left_len s"
      using Suc.IH(2) [of s] 3 by (auto simp: reads_def)
    then show ?case
      using Suc.IH(4) [of s1 m v "unsigned_value s1"] 3 by (auto simp: reads_def) }
  { case 4
    obtain p len s1 where o: "operator_info s = (p, len, s1)" by (metis prod.exhaust)
    note ol = operator_info_len [OF o]
    show ?case
    proof (cases "p < m")
      case True
      then show ?thesis using o ol(1) by (simp add: reads_def)
    next
      case False
      let ?s = "px_adv len s1"
      have "0 < left_len s1" using ol(2) False 4(2) by linarith
      then have ls: "left_len ?s + 1 \<le> left_len s" using ol(1,3) unfolding left_len_simps by linarith
      obtain v s2 where s2: "binary n (p + 1) ?s = Some (v, s2)" "left_len s2 \<le> left_len ?s"
        using Suc.IH(3) [of ?s "p + 1"] 4(1) ls by (auto simp: reads_def)
      then have "reads (binary_loop n m left' lu' s2) s" for left' lu'
        using Suc.IH(4) [of s2 m left' lu'] 4 ls by (intro reads_mono [of _ s2 s]) linarith+
      then show ?thesis using s2(1) False o by (simp add: Let_def)
    qed }
  { case 5
    obtain c s1 where s1: "binary n 1 s = Some (c, s1)" "left_len s1 \<le> left_len s"
      using Suc.IH(3) [of s 1] 5 by (auto simp: reads_def)
    let ?s = "whitespace s1"
    have l: "left_len ?s \<le> left_len s" using ws [of s1] s1(2) by linarith
    show ?case
    proof (cases "px_cur ?s = of_char CHR ''?''")
      case True
      then have a: "left_len (px_adv 1 ?s) + 1 \<le> left_len s" using adv l by simp
      then obtain y s2 where s2: "conditional n (px_adv 1 ?s) = Some (y, s2)" "left_len s2 + 1 \<le> left_len s"
        using Suc.IH(5) [of "px_adv 1 ?s"] 5 by (fastforce simp: reads_def)
      have l2: "left_len (px_adv 1 (whitespace s2)) \<le> left_len s2" using ws [of s2] by simp
      have "reads (conditional n (px_adv 1 (whitespace s2))) (px_adv 1 (whitespace s2))"
        using Suc.IH(5) [of "px_adv 1 (whitespace s2)"] 5 s2(2) l2 by linarith
      then have "reads (conditional n (px_adv 1 (whitespace s2))) s"
        by (rule reads_mono) (use l2 s2(2) in linarith)
      moreover have "reads (Some (0, px_error (whitespace s2))) s" using ws [of s2] s2(2) by (simp add: reads_def)
      ultimately show ?thesis
        using s1(1) True s2(1) by (auto simp: Let_def intro!: reads_map)
    next
      case False
      then show ?thesis using s1(1) l by (auto simp: reads_def Let_def)
    qed }
qed

text \<open>
  The evaluation of a \<^verbatim>\<open>#if\<close> expression ends on every text, correct or not: with a depth of
  five calls per character a value is always returned.
\<close>

theorem pp_eval_ends: "\<exists>v d'. pp_eval_integer text_of_if d = Some (v, d')"
proof -
  let ?s = "\<lparr>px_cursor = text_of_if, unsigned_value = False, px_diag = d\<rparr>"
  have "reads (conditional (5 * length text_of_if + 5) ?s) ?s" by (rule enough_fuel(5)) simp
  then show ?thesis by (auto simp: reads_def pp_eval_integer_def Let_def)
qed

subsection \<open>The calls as rules\<close>

text \<open>A call returns \<open>r\<close> when its depth is large enough.\<close>

definition ev :: "(nat \<Rightarrow> ppx \<Rightarrow> (u64 \<times> ppx) option) \<Rightarrow> ppx \<Rightarrow> u64 \<times> ppx \<Rightarrow> bool" where
  "ev f s r \<longleftrightarrow> (\<exists>n. f n s = Some r)"

lemma ev_primary_atom:
  assumes "whitespace (s\<lparr>unsigned_value := False\<rparr>) = s'" "px_cur s' \<noteq> of_char CHR ''(''"
  shows "ev primary s (pp_atom s')"
  unfolding ev_def by (rule exI [of _ 1]) (use assms in \<open>simp add: Let_def\<close>)

lemma ev_primary_paren:
  assumes "whitespace (s\<lparr>unsigned_value := False\<rparr>) = s'" "px_cur s' = of_char CHR ''(''"
    "ev conditional (px_adv 1 s') (v, s1)" "px_cur (whitespace s1) = of_char CHR '')''"
  shows "ev primary s (v, px_adv 1 (whitespace s1))"
proof -
  obtain n where "conditional n (px_adv 1 s') = Some (v, s1)" using assms(3) by (auto simp: ev_def)
  then have "primary (Suc n) s = Some (v, px_adv 1 (whitespace s1))" using assms(1,2,4) by (simp add: Let_def)
  then show ?thesis unfolding ev_def by blast
qed

lemma ev_unary_primary:
  assumes "whitespace s = s'" "px_cur s' \<notin> of_char ` {CHR ''!'', CHR ''~'', CHR ''+'', CHR ''-''}" "ev primary s' r"
  shows "ev unary s r"
proof -
  obtain n where "primary n s' = Some r" using assms(3) by (auto simp: ev_def)
  then have "unary (Suc n) s = Some r" using assms(1,2) by (simp add: Let_def)
  then show ?thesis unfolding ev_def by blast
qed

lemma ev_binary:
  assumes "ev unary s (v, s1)" "ev (\<lambda>n. binary_loop n m v (unsigned_value s1)) s1 r"
  shows "ev (\<lambda>n. binary n m) s r"
proof -
  obtain n k where "unary n s = Some (v, s1)" "binary_loop k m v (unsigned_value s1) s1 = Some r"
    using assms by (auto simp: ev_def)
  then have "unary (max n k) s = Some (v, s1)" "binary_loop (max n k) m v (unsigned_value s1) s1 = Some r"
    using more_fuel(2) [OF max.cobounded1] more_fuel(4) [OF max.cobounded2] by blast+
  then have "binary (Suc (max n k)) m s = Some r" by simp
  then show ?thesis unfolding ev_def by blast
qed

lemma ev_loop_stop:
  assumes "operator_info s = (p, len, s')" "p < m"
  shows "ev (\<lambda>n. binary_loop n m left lu) s (left, s'\<lparr>unsigned_value := lu\<rparr>)"
  unfolding ev_def by (rule exI [of _ 1]) (use assms in simp)

lemma ev_loop_step:
  assumes "operator_info s = (p, len, s')" "m \<le> p" "ev (\<lambda>n. binary n (p + 1)) (px_adv len s') (right, s1)"
    "ev (\<lambda>n. binary_loop n m
       (pp_apply (px_cur s') (if len = 2 then px_cur (px_adv 1 s') else 0) lu (unsigned_value s1) left right)
       (result_unsigned p lu (unsigned_value s1))) s1 r"
  shows "ev (\<lambda>n. binary_loop n m left lu) s r"
proof -
  let ?loop = "\<lambda>n. binary_loop n m
       (pp_apply (px_cur s') (if len = 2 then px_cur (px_adv 1 s') else 0) lu (unsigned_value s1) left right)
       (result_unsigned p lu (unsigned_value s1)) s1"
  obtain n k where "binary n (p + 1) (px_adv len s') = Some (right, s1)" "?loop k = Some r"
    using assms(3,4) by (auto simp: ev_def)
  then have "binary (max n k) (p + 1) (px_adv len s') = Some (right, s1)" "?loop (max n k) = Some r"
    using more_fuel(3) [OF max.cobounded1] more_fuel(4) [OF max.cobounded2] by blast+
  then have "binary_loop (Suc (max n k)) m left lu s = Some r" using assms(1,2) by (simp add: Let_def)
  then show ?thesis unfolding ev_def by blast
qed

lemma ev_conditional_plain:
  assumes "ev (\<lambda>n. binary n 1) s (v, s1)" "px_cur (whitespace s1) \<noteq> of_char CHR ''?''"
  shows "ev conditional s (v, whitespace s1)"
proof -
  obtain n where "binary n 1 s = Some (v, s1)" using assms(1) by (auto simp: ev_def)
  then have "conditional (Suc n) s = Some (v, whitespace s1)" using assms(2) by (simp add: Let_def)
  then show ?thesis unfolding ev_def by blast
qed

lemma ev_conditional_full:
  assumes "ev (\<lambda>n. binary n 1) s (v, s1)" "px_cur (whitespace s1) = of_char CHR ''?''"
    "ev conditional (px_adv 1 (whitespace s1)) (yes, s2)" "px_cur (whitespace s2) = of_char CHR '':''"
    "ev conditional (px_adv 1 (whitespace s2)) (no, s3)"
  shows "ev conditional s (if v \<noteq> 0 then yes else no, s3\<lparr>unsigned_value := unsigned_value s3 \<or> unsigned_value s2\<rparr>)"
proof -
  obtain i j k where "binary i 1 s = Some (v, s1)" "conditional j (px_adv 1 (whitespace s1)) = Some (yes, s2)"
    "conditional k (px_adv 1 (whitespace s2)) = Some (no, s3)"
    using assms(1,3,5) by (auto simp: ev_def)
  then have "binary (i + j + k) 1 s = Some (v, s1)" "conditional (i + j + k) (px_adv 1 (whitespace s1)) = Some (yes, s2)"
    "conditional (i + j + k) (px_adv 1 (whitespace s2)) = Some (no, s3)"
    using more_fuel(3) [of i "i + j + k"] more_fuel(5) [of j "i + j + k"] more_fuel(5) [of k "i + j + k"] by simp_all
  then have "conditional (Suc (i + j + k)) s
      = Some (if v \<noteq> 0 then yes else no, s3\<lparr>unsigned_value := unsigned_value s3 \<or> unsigned_value s2\<rparr>)"
    using assms(2,4) by (simp add: Let_def)
  then show ?thesis unfolding ev_def by blast
qed

subsection \<open>Expressions and their text\<close>

datatype uop = UNot | UCompl | UPlus | UNeg

datatype bop = LogOr | LogAnd | BitOr | BitXor | BitAnd | Eq | Ne | Lt | Gt | Le | Ge | Shl | Shr
  | Add | Sub | Mul | Div | Mod

datatype pexpr = PNum nat bool | PName "u8 list" | PUn uop pexpr | PBin bop pexpr pexpr | PCond pexpr pexpr pexpr

fun uop_char :: "uop \<Rightarrow> char" where
  "uop_char UNot = CHR ''!''" | "uop_char UCompl = CHR ''~''" | "uop_char UPlus = CHR ''+''" | "uop_char UNeg = CHR ''-''"

fun bop_text :: "bop \<Rightarrow> string" where
  "bop_text LogOr = ''||''" | "bop_text LogAnd = ''&&''" | "bop_text BitOr = ''|''" | "bop_text BitXor = ''^''"
| "bop_text BitAnd = ''&''" | "bop_text Eq = ''==''" | "bop_text Ne = ''!=''" | "bop_text Lt = ''<''"
| "bop_text Gt = ''>''" | "bop_text Le = ''<=''" | "bop_text Ge = ''>=''" | "bop_text Shl = ''<<''"
| "bop_text Shr = ''>>''" | "bop_text Add = ''+''" | "bop_text Sub = ''-''" | "bop_text Mul = ''*''"
| "bop_text Div = ''/''" | "bop_text Mod = ''%''"

fun bop_prec :: "bop \<Rightarrow> nat" where
  "bop_prec LogOr = 1" | "bop_prec LogAnd = 2" | "bop_prec BitOr = 3" | "bop_prec BitXor = 4" | "bop_prec BitAnd = 5"
| "bop_prec Eq = 6" | "bop_prec Ne = 6" | "bop_prec Lt = 7" | "bop_prec Gt = 7" | "bop_prec Le = 7" | "bop_prec Ge = 7"
| "bop_prec Shl = 8" | "bop_prec Shr = 8" | "bop_prec Add = 9" | "bop_prec Sub = 9"
| "bop_prec Mul = 10" | "bop_prec Div = 10" | "bop_prec Mod = 10"

fun lvl :: "pexpr \<Rightarrow> nat" where
  "lvl (PNum n u) = 12" | "lvl (PName x) = 12" | "lvl (PUn op e) = 11" | "lvl (PBin op l r) = bop_prec op" | "lvl (PCond c a b) = 0"

text \<open>
  The text of an expression with the parentheses the precedences of C require and no others:
  binary operators group to the left, the conditional operator to the right.
\<close>

fun src_of :: "pexpr \<Rightarrow> u8 list" where
  "src_of (PNum n u) = dec_text n @ (if u then [of_char CHR ''u''] else [])"
| "src_of (PName x) = x"
| "src_of (PUn op e) = of_char (uop_char op) # (if lvl e < 11 then [40] @ src_of e @ [41] else src_of e)"
| "src_of (PBin op l r) = (if lvl l < bop_prec op then [40] @ src_of l @ [41] else src_of l) @ bytes_of (bop_text op)
     @ (if lvl r < bop_prec op + 1 then [40] @ src_of r @ [41] else src_of r)"
| "src_of (PCond c a b) = (if lvl c < 1 then [40] @ src_of c @ [41] else src_of c) @ [of_char CHR ''?''] @ src_of a
     @ [of_char CHR '':''] @ src_of b"

definition show_at :: "nat \<Rightarrow> pexpr \<Rightarrow> u8 list" where
  "show_at p e = (if lvl e < p then [40] @ src_of e @ [41] else src_of e)"

fun wf_expr :: "pexpr \<Rightarrow> bool" where
  "wf_expr (PNum n u) \<longleftrightarrow> n < 2 ^ 64 \<and> (u \<or> n < 2 ^ 63)"
| "wf_expr (PName x) \<longleftrightarrow> x \<noteq> [] \<and> list_all ident_char x \<and> \<not> is_digit (uint (hd x))"
| "wf_expr (PUn op e) \<longleftrightarrow> wf_expr e"
| "wf_expr (PBin op l r) \<longleftrightarrow> wf_expr l \<and> wf_expr r"
| "wf_expr (PCond c a b) \<longleftrightarrow> wf_expr c \<and> wf_expr a \<and> wf_expr b"

subsection \<open>What the evaluator computes\<close>

text \<open>
  Whether an expression has the unsigned type: comparisons and the logical operators give an \<^verbatim>\<open>int\<close>, a shift has the type of its left
  operand, the others have the common type of their operands.
\<close>

fun bop_unsigned :: "bop \<Rightarrow> bool \<Rightarrow> bool \<Rightarrow> bool" where
  "bop_unsigned LogOr l r = False" | "bop_unsigned LogAnd l r = False" | "bop_unsigned Eq l r = False" | "bop_unsigned Ne l r = False"
| "bop_unsigned Lt l r = False" | "bop_unsigned Gt l r = False" | "bop_unsigned Le l r = False" | "bop_unsigned Ge l r = False"
| "bop_unsigned Shl l r = l" | "bop_unsigned Shr l r = l"
| "bop_unsigned BitOr l r = (l \<or> r)" | "bop_unsigned BitXor l r = (l \<or> r)" | "bop_unsigned BitAnd l r = (l \<or> r)"
| "bop_unsigned Add l r = (l \<or> r)" | "bop_unsigned Sub l r = (l \<or> r)"
| "bop_unsigned Mul l r = (l \<or> r)" | "bop_unsigned Div l r = (l \<or> r)" | "bop_unsigned Mod l r = (l \<or> r)"

lemma result_unsigned_bop: "result_unsigned (bop_prec op) l r = bop_unsigned op l r"
  by (cases op) (simp_all add: result_unsigned_def)

fun ptype :: "pexpr \<Rightarrow> bool" where
  "ptype (PNum n u) = u"
| "ptype (PName x) = False"
| "ptype (PUn op e) = (op \<noteq> UNot \<and> ptype e)"
| "ptype (PBin op l r) = bop_unsigned op (ptype l) (ptype r)"
| "ptype (PCond c a b) = (ptype b \<or> ptype a)"

definition bop_apply :: "bop \<Rightarrow> bool \<Rightarrow> bool \<Rightarrow> u64 \<Rightarrow> u64 \<Rightarrow> u64" where
  "bop_apply op = pp_apply (of_char (hd (bop_text op))) (case tl (bop_text op) of [] \<Rightarrow> 0 | c # _ \<Rightarrow> of_char c)"

fun ceval :: "pexpr \<Rightarrow> u64" where
  "ceval (PNum n u) = word_of_nat n"
| "ceval (PName x) = 0"
| "ceval (PUn op e) =
     (case op of UNot \<Rightarrow> if ceval e = 0 then 1 else 0 | UCompl \<Rightarrow> NOT (ceval e) | UPlus \<Rightarrow> ceval e | UNeg \<Rightarrow> 0 - ceval e)"
| "ceval (PBin op l r) = bop_apply op (ptype l) (ptype r) (ceval l) (ceval r)"
| "ceval (PCond c a b) = (if ceval c \<noteq> 0 then ceval a else ceval b)"

text \<open>The cursor at a text, with the flag as it was left.\<close>

definition at :: "ppx \<Rightarrow> u8 list \<Rightarrow> bool \<Rightarrow> ppx" where
  "at s t u = s\<lparr>px_cursor := t, unsigned_value := u\<rparr>"

lemma at_simps [simp]:
  "px_cursor (at s t u) = t" "unsigned_value (at s t u) = u" "px_diag (at s t u) = px_diag s"
  "at (at s t u) t' u' = at s t' u'" "(at s t u)\<lparr>unsigned_value := u'\<rparr> = at s t u'"
  "px_adv n (at s t u) = at s (drop n t) u" "px_cur (at s (b # bs) u) = b"
  by (simp_all add: at_def px_adv_def px_cur_def)

lemma whitespace_at: "t = [] \<or> hd t \<notin> {32, 9, 10} \<Longrightarrow> whitespace (at s t u) = at s t u"
  by (cases t) (auto simp: whitespace_def at_def)

text \<open>The text behind an expression: its end, a closing parenthesis, an operator, a \<^verbatim>\<open>?\<close> or a \<^verbatim>\<open>:\<close>.\<close>

definition stops :: "u8 list \<Rightarrow> bool" where
  "stops t \<longleftrightarrow> t = [] \<or> \<not> ident_char (hd t) \<and> hd t \<notin> {32, 9, 10}"

definition prec_at :: "u8 list \<Rightarrow> nat" where
  "prec_at t = fst (operator_info \<lparr>px_cursor = t, unsigned_value = False, px_diag = \<lparr>n_errors = 0, n_warnings = 0\<rparr>\<rparr>)"

lemma operator_info_at:
  assumes "t = [] \<or> hd t \<notin> {32, 9, 10}"
  shows "operator_info (at s t u) = (prec_at t, snd (operator_info (at s t u)))" "snd (snd (operator_info (at s t u))) = at s t u"
proof -
  let ?z = "\<lparr>px_cursor = t, unsigned_value = False, px_diag = \<lparr>n_errors = 0, n_warnings = 0\<rparr>\<rparr>"
  have "whitespace ?z = ?z" using assms by (cases t) (auto simp: whitespace_def)
  then show "operator_info (at s t u) = (prec_at t, snd (operator_info (at s t u)))"
    using whitespace_at [OF assms, of s u]
    by (simp add: operator_info_def prec_at_def Let_def starts_def)
  show "snd (snd (operator_info (at s t u))) = at s t u"
    using whitespace_at [OF assms, of s u] by (simp add: operator_info_def Let_def)
qed

subsection \<open>Reading atoms and operators\<close>

lemma operator_info_op:
  assumes "t \<noteq> []" "hd t \<notin> of_char ` {CHR ''|'', CHR ''&'', CHR ''='', CHR ''<'', CHR ''>''}"
  shows "operator_info (at s (bytes_of (bop_text op) @ t) u)
    = (bop_prec op, length (bop_text op), at s (bytes_of (bop_text op) @ t) u)"
proof -
  have "whitespace (at s (bytes_of (bop_text op) @ t) u) = at s (bytes_of (bop_text op) @ t) u"
    by (rule whitespace_at) (cases op; simp add: bytes_of_def)
  moreover obtain b bs where "t = b # bs" using assms(1) by (cases t) auto
  ultimately show ?thesis
    using assms(2) by (cases op) (simp_all add: operator_info_def starts_def bytes_of_def Let_def)
qed

lemma prec_at_op:
  "t \<noteq> [] \<Longrightarrow> hd t \<notin> of_char ` {CHR ''|'', CHR ''&'', CHR ''='', CHR ''<'', CHR ''>''} \<Longrightarrow>
     prec_at (bytes_of (bop_text op) @ t) = bop_prec op"
  using operator_info_op [of t s op u] operator_info_at(1) [of "bytes_of (bop_text op) @ t" s u]
  by (cases op) (simp_all add: bytes_of_def)

lemma digit_loop_digits:
  assumes "list_all digit_byte xs" "r = [] \<or> \<not> is_xdigit (uint (hd r))"
  shows "digit_loop 10 v (xs @ r) = (parse_dec v xs, r)"
  using assms
proof (induction xs arbitrary: v)
  case Nil
  then show ?case by (cases r) auto
next
  case (Cons b bs)
  have d: "is_digit (uint b)" using Cons.prems(1) by (simp add: digit_byte_def)
  then have "b \<noteq> 95" by (auto simp: is_digit_def)
  moreover have "digit_value b < 10"
  proof -
    have "uint (ucast b :: u64) = uint b" by (rule uint_up_ucast) (simp add: is_up)
    then have "uint (ucast b - 48 :: u64) = uint b - 48" using d by (simp add: is_digit_def uint_word_ariths)
    then show ?thesis using d by (simp add: digit_value_def word_less_def is_digit_def)
  qed
  ultimately show ?case
    using Cons d by (simp add: is_xdigit_def digit_value_def)
qed

lemma digit_loop_stop: "r = [] \<or> \<not> is_xdigit (uint (hd r)) \<Longrightarrow> digit_loop b v r = (v, r)"
  by (cases r) auto

lemma stops_char:
  assumes "stops t"
  shows "t = [] \<or> \<not> is_alnum (uint (hd t)) \<and> \<not> is_xdigit (uint (hd t)) \<and> \<not> is_suffix (hd t) \<and> hd t \<noteq> 120 \<and> hd t \<noteq> 88"
  using assms by (auto simp: stops_def ident_char_def is_alnum_def is_xdigit_def is_alpha_def is_suffix_def)

lemma pp_atom_number:
  assumes "n < 2 ^ 64" "u \<or> n < 2 ^ 63" "stops r"
  shows "pp_atom (at s (dec_text n @ (if u then [of_char CHR ''u''] else []) @ r) False) = (word_of_nat n, at s r u)"
proof -
  define suf :: "u8 list" where "suf = (if u then [of_char CHR ''u''] else [])"
  define w where "w = suf @ r"
  have stop: "w = [] \<or> \<not> is_xdigit (uint (hd w)) \<and> hd w \<noteq> 120 \<and> hd w \<noteq> 88"
    using stops_char [OF assms(3)] by (auto simp: is_xdigit_def is_digit_def w_def suf_def)
  have suf: "takeWhile is_suffix w = suf" "dropWhile is_suffix w = r"
    using stops_char [OF assms(3)] by (cases r; simp add: is_suffix_def w_def suf_def)+
  have us: "(\<exists>b\<in>set suf. is_u b) = u" by (simp add: is_u_def suf_def)
  obtain b bs where b: "dec_text n = b # bs" "digit_byte b" "b = 48 \<longrightarrow> n = 0 \<and> bs = []"
    using dec_text_head [of n] by blast
  have dg: "is_digit (uint b)" "b \<noteq> 39" using b(2) by (auto simp: digit_byte_def is_digit_def)
  have "pp_number (at s (dec_text n @ w) False) = (word_of_nat n, at s r u)"
  proof (cases "b = 48")
    case True
    then have "digit_loop 8 0 w = (0, w)" using stop digit_loop_stop by blast
    moreover have "(case w of [] \<Rightarrow> (8, []) | x # xs \<Rightarrow>
        if x = of_char CHR ''x'' \<or> x = of_char CHR ''X'' then (16, xs) else (8, x # xs)) = (8 :: u64, w)"
      using stop by (cases w) auto
    ultimately show ?thesis
      using True b suf us by (simp add: pp_number_def Let_def at_def px_cur_def)
  next
    case False
    have "digit_loop 10 0 (dec_text n @ w) = (word_of_nat n, w)"
      using digit_loop_digits [OF dec_text_digits, of w 0 n] stop parse_dec_text by auto
    then show ?thesis
      using False b(1) suf us by (simp add: pp_number_def Let_def at_def px_cur_def)
  qed
  then have "pp_atom (at s (dec_text n @ w) False) = (word_of_nat n, at s r u)"
    using b(1) dg by (simp add: pp_atom_def Let_def)
  then show ?thesis by (simp add: w_def suf_def)
qed

lemma pp_atom_name:
  assumes "wf_expr (PName x)" "stops r"
  shows "pp_atom (at s (x @ r) False) = (0, at s r False)"
proof -
  obtain b bs where x: "x = b # bs" using assms(1) by (cases x) auto
  have "dropWhile ident_char (x @ r) = r"
    using assms by (cases r) (auto simp: list_all_iff stops_def dropWhile_append2)
  moreover have "is_alpha (uint b) \<or> b = of_char CHR ''_''" "\<not> is_digit (uint b)" "b \<noteq> 39"
    using assms(1) x by (auto simp: ident_char_def is_alnum_def is_alpha_def is_digit_def)
  ultimately show ?thesis
    using x by (auto simp: pp_atom_def Let_def at_def px_cur_def)
qed

text \<open>How the text of an expression starts.\<close>

definition starter :: "u8 \<Rightarrow> bool" where
  "starter b \<longleftrightarrow> ident_char b \<or> b \<in> of_char ` {CHR ''('', CHR ''!'', CHR ''~'', CHR ''+'', CHR ''-''}"

lemma starter_facts:
  assumes "starter b"
  shows "b \<notin> {32, 9, 10}" "b \<notin> of_char ` {CHR ''|'', CHR ''&'', CHR ''='', CHR ''<'', CHR ''>''}"
  using assms by (auto simp: starter_def ident_char_def is_alnum_def is_alpha_def is_digit_def)

lemma src_of_head: "wf_expr e \<Longrightarrow> \<exists>b bs. src_of e = b # bs \<and> starter b"
proof (induction e)
  case (PNum n u)
  obtain b bs where "dec_text n = b # bs" "digit_byte b" using dec_text_head [of n] by blast
  then show ?case by (auto simp: starter_def ident_char_def is_alnum_def digit_byte_def)
next
  case (PName x)
  then show ?case by (cases x) (auto simp: starter_def)
next
  case (PUn op e)
  then show ?case by (cases op) (auto simp: starter_def)
next
  case (PBin op l r)
  then show ?case by (cases "lvl l < bop_prec op") (auto simp: starter_def)
next
  case (PCond c a b)
  then show ?case by (cases "lvl c < 1") (auto simp: starter_def)
qed

lemma show_at_head: "wf_expr e \<Longrightarrow> \<exists>b bs. show_at p e = b # bs \<and> starter b"
  using src_of_head [of e] by (auto simp: show_at_def starter_def)

subsection \<open>Reading expressions\<close>

definition reads_unary :: "pexpr \<Rightarrow> u8 list \<Rightarrow> bool" where
  "reads_unary e t \<longleftrightarrow> (\<forall>s u r. stops r \<longrightarrow> ev unary (at s (t @ r) u) (ceval e, at s r (ptype e)))"

definition reads_binary :: "pexpr \<Rightarrow> nat \<Rightarrow> u8 list \<Rightarrow> bool" where
  "reads_binary e p t \<longleftrightarrow> (\<forall>s u r m res. stops r \<and> prec_at r \<le> p \<and> 1 \<le> m \<and> m \<le> p \<and>
     (\<forall>w. ev (\<lambda>n. binary_loop n m (ceval e) (ptype e)) (at s r w) res) \<longrightarrow> ev (\<lambda>n. binary n m) (at s (t @ r) u) res)"

lemma reads_binaryD:
  "reads_binary e p t \<Longrightarrow> stops r \<Longrightarrow> prec_at r \<le> p \<Longrightarrow> 1 \<le> m \<Longrightarrow> m \<le> p \<Longrightarrow>
     (\<And>w. ev (\<lambda>n. binary_loop n m (ceval e) (ptype e)) (at s r w) res) \<Longrightarrow> ev (\<lambda>n. binary n m) (at s (t @ r) u) res"
  unfolding reads_binary_def by blast

definition reads_conditional :: "pexpr \<Rightarrow> u8 list \<Rightarrow> bool" where
  "reads_conditional e t \<longleftrightarrow> (\<forall>s u r. stops r \<and> prec_at r = 0 \<and> (r = [] \<or> hd r \<noteq> of_char CHR ''?'') \<longrightarrow>
     ev conditional (at s (t @ r) u) (ceval e, at s r (ptype e)))"

text \<open>Reading the text of \<open>e\<close> itself, and in every context.\<close>

definition reads_plain :: "pexpr \<Rightarrow> bool" where
  "reads_plain e \<longleftrightarrow>
     (if 11 \<le> lvl e then reads_unary e (src_of e)
      else if 1 \<le> lvl e then \<forall>p\<le>lvl e. reads_binary e p (src_of e)
      else reads_conditional e (src_of e))"

definition reads_expr :: "pexpr \<Rightarrow> bool" where
  "reads_expr e \<longleftrightarrow> reads_conditional e (src_of e) \<and> reads_unary e (show_at 11 e) \<and> (\<forall>p\<le>11. reads_binary e p (show_at p e))"

lemma stops_ws: "stops r \<Longrightarrow> whitespace (at s r u) = at s r u"
  by (intro whitespace_at) (auto simp: stops_def)

lemma loop_stops:
  assumes "stops r" "prec_at r < m"
  shows "ev (\<lambda>n. binary_loop n m v lu) (at s r u) (v, at s r lu)"
proof -
  have ws: "r = [] \<or> hd r \<notin> {32, 9, 10}" using assms(1) by (auto simp: stops_def)
  obtain len s' where o: "operator_info (at s r u) = (prec_at r, len, s')"
    using operator_info_at(1) [OF ws] by (metis prod.exhaust)
  then have "s' = at s r u" using operator_info_at(2) [OF ws, of s u] by simp
  then show ?thesis using ev_loop_stop [OF o assms(2)] by simp
qed

lemma unary_binary:
  assumes "reads_unary e t"
  shows "reads_binary e p t"
  unfolding reads_binary_def
proof (intro allI impI, elim conjE)
  fix s u r m res
  assume "stops r" and l: "\<forall>w. ev (\<lambda>n. binary_loop n m (ceval e) (ptype e)) (at s r w) res"
  then have "ev unary (at s (t @ r) u) (ceval e, at s r (ptype e))" using assms by (simp add: reads_unary_def)
  then show "ev (\<lambda>n. binary n m) (at s (t @ r) u) res" by (rule ev_binary) (simp add: l)
qed

lemma binary_conditional:
  assumes "reads_binary e 1 t"
  shows "reads_conditional e t"
  unfolding reads_conditional_def
proof (intro allI impI, elim conjE)
  fix s u r
  assume r: "stops r" "prec_at r = 0" "r = [] \<or> hd r \<noteq> of_char CHR ''?''"
  have "ev (\<lambda>n. binary_loop n 1 (ceval e) (ptype e)) (at s r w) (ceval e, at s r (ptype e))" for w
    by (rule loop_stops) (simp_all add: r)
  then have b: "ev (\<lambda>n. binary n 1) (at s (t @ r) u) (ceval e, at s r (ptype e))"
    using assms r(1,2) unfolding reads_binary_def by simp
  have "px_cur (at s r (ptype e)) \<noteq> of_char CHR ''?''" using r(3) by (cases r) (simp_all add: px_cur_def at_def)
  then show "ev conditional (at s (t @ r) u) (ceval e, at s r (ptype e))"
    using ev_conditional_plain [OF b] by (simp add: stops_ws [OF r(1)])
qed

lemma prec_at_closers: "prec_at (41 # r) = 0" "prec_at (58 # r) = 0" "prec_at (63 # r) = 0"
  by (simp_all add: prec_at_def operator_info_def Let_def whitespace_def starts_def bytes_of_def)

lemma stops_closers: "stops (41 # r)" "stops (58 # r)" "stops (63 # r)" "stops []"
  by (simp_all add: stops_def ident_char_def is_alnum_def is_alpha_def is_digit_def)

lemma paren_unary:
  assumes "reads_conditional e (src_of e)"
  shows "reads_unary e ([40] @ src_of e @ [41])"
  unfolding reads_unary_def
proof (intro allI impI)
  fix s u r
  assume r: "stops r"
  let ?s = "at s ([40] @ src_of e @ [41] @ r)"
  have c: "ev conditional (at s (src_of e @ (41 # r)) False) (ceval e, at s (41 # r) (ptype e))"
    using assms prec_at_closers(1) stops_closers(1) unfolding reads_conditional_def by simp
  have ws: "whitespace (?s u) = ?s u" for u by (rule whitespace_at) simp
  have wc: "whitespace (at s (41 # r) (ptype e)) = at s (41 # r) (ptype e)" by (rule stops_ws [OF stops_closers(1)])
  have "ev primary (?s u) (ceval e, px_adv 1 (whitespace (at s (41 # r) (ptype e))))"
    by (rule ev_primary_paren [where s' = "?s False"]) (use c ws wc in simp_all)
  then have "ev primary (?s u) (ceval e, at s r (ptype e))" by (simp add: wc)
  then have "ev unary (?s u) (ceval e, at s r (ptype e))"
    by (intro ev_unary_primary [where s' = "?s u"]) (use ws in simp_all)
  then show "ev unary (at s (([40] @ src_of e @ [41]) @ r) u) (ceval e, at s r (ptype e))" by simp
qed

lemma reads_plain_expr:
  assumes "reads_plain e"
  shows "reads_expr e"
proof -
  have c: "reads_conditional e (src_of e)"
    using assms unary_binary binary_conditional unfolding reads_plain_def by (auto split: if_splits)
  have u: "reads_unary e (show_at 11 e)"
    using assms paren_unary [OF c] unfolding reads_plain_def show_at_def by (auto split: if_splits)
  have "reads_binary e p (show_at p e)" if "p \<le> 11" for p
  proof (cases "lvl e < p \<or> 11 \<le> lvl e")
    case True
    then have "show_at p e = show_at 11 e" using that by (auto simp: show_at_def)
    then show ?thesis using unary_binary [OF u] by simp
  next
    case False
    show ?thesis
    proof (cases "p = 0")
      case True
      then show ?thesis unfolding reads_binary_def by simp
    next
      case False
      then show ?thesis using \<open>\<not> (lvl e < p \<or> 11 \<le> lvl e)\<close> assms by (auto simp: reads_plain_def show_at_def)
    qed
  qed
  then show ?thesis using c u by (simp add: reads_expr_def)
qed

lemma ev_unary_op:
  assumes "whitespace s = s'" "px_cur s' = of_char (uop_char op)" "ev unary (px_adv 1 s') (ceval e, s1)" "unsigned_value s1 = ptype e"
  shows "ev unary s (ceval (PUn op e), s1\<lparr>unsigned_value := ptype (PUn op e)\<rparr>)"
proof -
  obtain n where "unary n (px_adv 1 s') = Some (ceval e, s1)" using assms(3) by (auto simp: ev_def)
  moreover have "s1\<lparr>unsigned_value := ptype e\<rparr> = s1" using assms(4) by simp
  ultimately have "unary (Suc n) s = Some (ceval (PUn op e), s1\<lparr>unsigned_value := ptype (PUn op e)\<rparr>)"
    using assms(1,2) by (cases op) (simp_all add: Let_def)
  then show ?thesis unfolding ev_def by blast
qed

lemma reads_atom:
  assumes "wf_expr e" "(\<exists>n u. e = PNum n u) \<or> (\<exists>x. e = PName x)"
  shows "reads_unary e (src_of e)"
  unfolding reads_unary_def
proof (intro allI impI)
  fix s u r
  assume r: "stops r"
  obtain b bs where b: "src_of e = b # bs" "starter b" using src_of_head [OF assms(1)] by blast
  have ic: "ident_char b"
    using assms(2)
  proof (elim disjE exE)
    fix n u
    assume "e = PNum n u"
    then show ?thesis using b(1) dec_text_head [of n] by (auto simp: ident_char_def is_alnum_def digit_byte_def)
  next
    fix x
    assume "e = PName x"
    then show ?thesis using b(1) assms(1) by simp
  qed
  have ws: "whitespace (at s (src_of e @ r) w) = at s (src_of e @ r) w" for w
    using b starter_facts(1) by (intro whitespace_at) auto
  have "pp_atom (at s (src_of e @ r) False) = (ceval e, at s r (ptype e))"
    using assms r pp_atom_number [of _ _ r s] pp_atom_name [of _ r s] by auto
  moreover have "ev primary (at s (src_of e @ r) u) (pp_atom (at s (src_of e @ r) False))"
    by (rule ev_primary_atom) (use ws b ic in \<open>auto simp: ident_char_def is_alnum_def is_alpha_def is_digit_def\<close>)
  ultimately show "ev unary (at s (src_of e @ r) u) (ceval e, at s r (ptype e))"
    by (intro ev_unary_primary [OF ws]) (use b ic in \<open>auto simp: ident_char_def is_alnum_def is_alpha_def is_digit_def\<close>)
qed

lemma reads_un:
  assumes "reads_expr e" "wf_expr e"
  shows "reads_unary (PUn op e) (src_of (PUn op e))"
  unfolding reads_unary_def
proof (intro allI impI)
  fix s u r
  assume r: "stops r"
  let ?s = "at s (of_char (uop_char op) # show_at 11 e @ r) u"
  have u: "ev unary (px_adv 1 ?s) (ceval e, at s r (ptype e))"
    using assms(1) r by (simp add: reads_expr_def reads_unary_def)
  have ws: "whitespace ?s = ?s" by (rule whitespace_at) (cases op; simp)
  show "ev unary (at s (src_of (PUn op e) @ r) u) (ceval (PUn op e), at s r (ptype (PUn op e)))"
    using ev_unary_op [OF ws _ u] by (simp add: show_at_def)
qed

lemma reads_bin:
  assumes "reads_expr l" "reads_expr r" "wf_expr l" "wf_expr r" "p \<le> bop_prec op"
  shows "reads_binary (PBin op l r) p (src_of (PBin op l r))"
  unfolding reads_binary_def
proof (intro allI impI, elim conjE)
  fix s u rest' m res
  assume a: "stops rest'" "prec_at rest' \<le> p" "1 \<le> m" "m \<le> p"
    and loop: "\<forall>w. ev (\<lambda>n. binary_loop n m (ceval (PBin op l r)) (ptype (PBin op l r))) (at s rest' w) res"
  let ?q = "bop_prec op" and ?ot = "bytes_of (bop_text op)"
  let ?t = "show_at (?q + 1) r @ rest'"
  have q: "1 \<le> ?q" "?q \<le> 10" by (cases op; simp)+
  obtain b bs where b: "?t = b # bs" "starter b" using show_at_head [OF assms(4), of "?q + 1"] by auto
  have hd: "?t \<noteq> []" "hd ?t \<notin> of_char ` {CHR ''|'', CHR ''&'', CHR ''='', CHR ''<'', CHR ''>''}"
    using b starter_facts(2) by simp_all
  note oi = operator_info_op [OF hd, of s op]
  have "ev (\<lambda>n. binary_loop n (?q + 1) (ceval r) (ptype r)) (at s rest' w) (ceval r, at s rest' (ptype r))" for w
    by (rule loop_stops) (use a assms(5) in simp_all)
  then have rb: "ev (\<lambda>n. binary n (?q + 1)) (at s ?t w) (ceval r, at s rest' (ptype r))" for w
    using assms(2,5) a(1,2) q unfolding reads_expr_def reads_binary_def by simp
  have ops: "px_cur (at s (?ot @ ?t) w) = of_char (hd (bop_text op))"
    "(if length (bop_text op) = 2 then px_cur (px_adv 1 (at s (?ot @ ?t) w)) else 0)
       = (case tl (bop_text op) of [] \<Rightarrow> 0 | c # _ \<Rightarrow> of_char c)"
    "px_adv (length (bop_text op)) (at s (?ot @ ?t) w) = at s ?t w" for w
    by (cases op; simp add: bytes_of_def)+
  have "ev (\<lambda>n. binary_loop n m (ceval l) (ptype l)) (at s (?ot @ ?t) w) res" for w
  proof (rule ev_loop_step [OF oi order_trans [OF a(4) assms(5)]])
    show "ev (\<lambda>n. binary n (?q + 1)) (px_adv (length (bop_text op)) (at s (?ot @ ?t) w)) (ceval r, at s rest' (ptype r))"
      unfolding ops(3) by (rule rb)
  qed (use loop in \<open>simp only: ops(1,2) at_simps(2) ceval.simps ptype.simps bop_apply_def result_unsigned_bop\<close>)
  then have "ev (\<lambda>n. binary n m) (at s (show_at ?q l @ ?ot @ ?t) u) res"
  proof (rule reads_binaryD [rotated 5])
    show "reads_binary l ?q (show_at ?q l)" using assms(1) q by (simp add: reads_expr_def)
    show "stops (?ot @ ?t)" by (cases op; simp add: bytes_of_def stops_def ident_char_def is_alnum_def is_alpha_def is_digit_def)
    show "prec_at (?ot @ ?t) \<le> ?q" using prec_at_op [OF hd] by simp
  qed (use a assms(5) in simp_all)
  then show "ev (\<lambda>n. binary n m) (at s (src_of (PBin op l r) @ rest') u) res" by (simp add: show_at_def)
qed

lemma reads_cond:
  assumes "reads_expr c" "reads_expr a" "reads_expr b" "wf_expr a" "wf_expr b"
  shows "reads_conditional (PCond c a b) (src_of (PCond c a b))"
  unfolding reads_conditional_def
proof (intro allI impI, elim conjE)
  fix s u r
  assume r: "stops r" "prec_at r = 0" "r = [] \<or> hd r \<noteq> of_char CHR ''?''"
  let ?b = "src_of b @ r" and ?colon = "58 :: u8" and ?q = "63 :: u8"
  let ?a = "src_of a @ ?colon # ?b"
  have "ev (\<lambda>n. binary_loop n 1 (ceval c) (ptype c)) (at s (?q # ?a) w) (ceval c, at s (?q # ?a) (ptype c))" for w
    by (rule loop_stops) (simp_all only: stops_closers prec_at_closers)
  then have cb: "ev (\<lambda>n. binary n 1) (at s (show_at 1 c @ ?q # ?a) u) (ceval c, at s (?q # ?a) (ptype c))"
    using assms(1) stops_closers(3) [of ?a] prec_at_closers(3) [of ?a] unfolding reads_expr_def reads_binary_def by simp
  have ca: "ev conditional (at s ?a (ptype c)) (ceval a, at s (?colon # ?b) (ptype a))"
    using assms(2) stops_closers(2) [of ?b] prec_at_closers(2) [of ?b] unfolding reads_expr_def reads_conditional_def by simp
  have cn: "ev conditional (at s ?b (ptype a)) (ceval b, at s r (ptype b))"
    using assms(3) r unfolding reads_expr_def reads_conditional_def by simp
  have ws: "whitespace (at s (?q # ?a) w) = at s (?q # ?a) w" "whitespace (at s (?colon # ?b) w) = at s (?colon # ?b) w" for w
    using stops_ws [OF stops_closers(3)] stops_ws [OF stops_closers(2)] by blast+
  have "ev conditional (at s (show_at 1 c @ ?q # ?a) u) (if ceval c \<noteq> 0 then ceval a else ceval b, at s r (ptype b \<or> ptype a))"
    using ev_conditional_full [OF cb, of "ceval a" "at s (?colon # ?b) (ptype a)" "ceval b" "at s r (ptype b)"] ca cn
    by (simp add: ws)
  then show "ev conditional (at s (src_of (PCond c a b) @ r) u) (ceval (PCond c a b), at s r (ptype (PCond c a b)))"
    by (simp add: show_at_def)
qed

lemma reads_all: "wf_expr e \<Longrightarrow> reads_expr e"
proof (induction e)
  case (PNum n u)
  then show ?case using reads_atom [of "PNum n u"] by (intro reads_plain_expr) (simp add: reads_plain_def)
next
  case (PName x)
  then show ?case using reads_atom [of "PName x"] by (intro reads_plain_expr) (simp add: reads_plain_def)
next
  case (PUn op e)
  then show ?case using reads_un [of e op] by (intro reads_plain_expr) (simp add: reads_plain_def)
next
  case (PBin op l r)
  have "1 \<le> bop_prec op" "bop_prec op \<le> 10" by (cases op; simp)+
  then show ?case using PBin reads_bin [of l r _ op] by (intro reads_plain_expr) (simp add: reads_plain_def del: src_of.simps)
next
  case (PCond c a b)
  then show ?case using reads_cond [of c a b] by (intro reads_plain_expr) (simp add: reads_plain_def del: src_of.simps)
qed

end
