(* ===== verification/Pp_Expr_Sem.thy ===== *)
theory Pp_Expr_Sem
  imports Pp_Expr_Props
begin

text \<open>
  The arithmetic of \<^verbatim>\<open>#if\<close> in \<^verbatim>\<open>src/back/pp_expr.c\<close> against the C standard: a reference semantics of
  expressions over the integers, and that the evaluator computes it on the text of the expression.
\<close>

subsection \<open>The values of the C standard\<close>

text \<open>
  Preprocessor arithmetic of the C standard (6.10.1 and 6.5): every operand is an \<^verbatim>\<open>intmax_t\<close> or
  \<^verbatim>\<open>uintmax_t\<close> of 64 bits. The value is \<^const>\<open>None\<close> where the standard leaves it undefined: signed
  overflow, division by zero, shifts by a negative or too large count and of a negative number to the
  left. Operands that are not evaluated need no value.
\<close>

definition in_type :: "bool \<Rightarrow> int \<Rightarrow> int" where
  "in_type uns i = (if uns then take_bit 64 i else signed_take_bit 63 i)"

definition fits :: "bool \<Rightarrow> int \<Rightarrow> int option" where
  "fits uns z = (if uns then Some (take_bit 64 z) else if - (2 ^ 63) \<le> z \<and> z < 2 ^ 63 then Some z else None)"

definition c_bop :: "bop \<Rightarrow> bool \<Rightarrow> bool \<Rightarrow> int \<Rightarrow> int \<Rightarrow> int option" where
  "c_bop op lu ru a b =
     (let u = lu \<or> ru; x = in_type u a; y = in_type u b; truth = (\<lambda>p. Some (if p then 1 else 0))
      in case op of
           LogOr \<Rightarrow> truth (a \<noteq> 0 \<or> b \<noteq> 0) | LogAnd \<Rightarrow> truth (a \<noteq> 0 \<and> b \<noteq> 0)
         | BitOr \<Rightarrow> Some (x OR y) | BitXor \<Rightarrow> Some (x XOR y) | BitAnd \<Rightarrow> Some (x AND y)
         | Eq \<Rightarrow> truth (x = y) | Ne \<Rightarrow> truth (x \<noteq> y)
         | Lt \<Rightarrow> truth (x < y) | Gt \<Rightarrow> truth (x > y) | Le \<Rightarrow> truth (x \<le> y) | Ge \<Rightarrow> truth (x \<ge> y)
         | Shl \<Rightarrow> if b < 0 \<or> 64 \<le> b \<or> a < 0 then None else fits lu (a * 2 ^ nat b)
         | Shr \<Rightarrow> if b < 0 \<or> 64 \<le> b then None else Some (a div 2 ^ nat b)
         | Add \<Rightarrow> fits u (x + y) | Sub \<Rightarrow> fits u (x - y) | Mul \<Rightarrow> fits u (x * y)
         | Div \<Rightarrow> if y = 0 then None else fits u (x sdiv y)
         | Mod \<Rightarrow> if y = 0 \<or> fits u (x sdiv y) = None then None else Some (x smod y))"

definition c_uop :: "uop \<Rightarrow> bool \<Rightarrow> int \<Rightarrow> int option" where
  "c_uop op u a =
     (case op of UNot \<Rightarrow> Some (if a = 0 then 1 else 0) | UCompl \<Rightarrow> Some (in_type u (NOT a))
      | UPlus \<Rightarrow> Some a | UNeg \<Rightarrow> fits u (- a))"

fun pval :: "pexpr \<Rightarrow> int option" where
  "pval (PNum n u) = Some (int n)"
| "pval (PName x) = Some 0"
| "pval (PUn op e) = Option.bind (pval e) (c_uop op (ptype e))"
| "pval (PBin op l r) = Option.bind (pval l) (\<lambda>a.
     if op = LogAnd \<and> a = 0 then Some 0 else if op = LogOr \<and> a \<noteq> 0 then Some 1
     else Option.bind (pval r) (c_bop op (ptype l) (ptype r) a))"
| "pval (PCond c a b) = Option.bind (pval c) (\<lambda>i.
     map_option (in_type (ptype a \<or> ptype b)) (if i \<noteq> 0 then pval a else pval b))"

definition val :: "bool \<Rightarrow> u64 \<Rightarrow> int" where
  "val u w = (if u then uint w else sint w)"

lemma val_of_int: "val u (word_of_int z) = in_type u z"
  by (simp add: val_def in_type_def uint_word_of_int_eq sint_sbintrunc')

lemma of_int_val [simp]: "word_of_int (val u w) = w"
  by (simp add: val_def)

lemma in_type_val: "in_type u (val lu w) = val u w"
  using val_of_int [of u "val lu w"] by simp

lemma fits_val: "fits u z = Some i \<Longrightarrow> val u (word_of_int z) = i"
  by (auto simp: fits_def val_of_int in_type_def signed_take_bit_int_eq_self split: if_splits)

lemma val_inj: "val u a = val u b \<longleftrightarrow> a = b"
  by (metis of_int_val)

lemma val_truth [simp]: "val u 1 = 1" "val u 0 = 0"
  by (simp_all add: val_def)

lemma val_0_iff [simp]: "val u w = 0 \<longleftrightarrow> w = 0"
  using val_inj [of u w 0] by simp

lemma bop_apply_simps:
  "bop_apply LogOr lu ru a b = (if a \<noteq> 0 \<or> b \<noteq> 0 then 1 else 0)"
  "bop_apply LogAnd lu ru a b = (if a \<noteq> 0 \<and> b \<noteq> 0 then 1 else 0)"
  "bop_apply BitOr lu ru a b = a OR b" "bop_apply BitXor lu ru a b = a XOR b" "bop_apply BitAnd lu ru a b = a AND b"
  "bop_apply Eq lu ru a b = (if a = b then 1 else 0)" "bop_apply Ne lu ru a b = (if a \<noteq> b then 1 else 0)"
  "bop_apply Lt lu ru a b = (if (if lu \<or> ru then a < b else a <s b) then 1 else 0)"
  "bop_apply Gt lu ru a b = (if (if lu \<or> ru then b < a else b <s a) then 1 else 0)"
  "bop_apply Le lu ru a b = (if (if lu \<or> ru then a \<le> b else a \<le>s b) then 1 else 0)"
  "bop_apply Ge lu ru a b = (if (if lu \<or> ru then b \<le> a else b \<le>s a) then 1 else 0)"
  "bop_apply Shl lu ru a b = (if b < 64 then push_bit (unat b) a else 0)"
  "bop_apply Shr lu ru a b = (if b < 64 then (if lu then drop_bit (unat b) a else signed_drop_bit (unat b) a) else 0)"
  "bop_apply Add lu ru a b = a + b" "bop_apply Sub lu ru a b = a - b" "bop_apply Mul lu ru a b = a * b"
  "bop_apply Div lu ru a b = (if b = 0 then 0 else if lu \<or> ru then a div b
     else if a = push_bit 63 1 \<and> b = - 1 then a else word_of_int (sint a sdiv sint b))"
  "bop_apply Mod lu ru a b = (if b = 0 then 0 else if lu \<or> ru then a mod b
     else if a = push_bit 63 1 \<and> b = - 1 then 0 else word_of_int (sint a smod sint b))"
  by (simp_all add: bop_apply_def pp_apply_def Let_def del: push_bit_numeral push_bit_of_1)

lemma arith_sem:
  assumes "c_bop op lu ru (val lu a) (val ru b) = Some i" "op \<in> {Add, Sub, Mul, BitAnd, BitOr, BitXor}"
  shows "val (lu \<or> ru) (bop_apply op lu ru a b) = i"
proof -
  let ?u = "lu \<or> ru"
  have w: "word_of_int (val ?u a + val ?u b) = a + b" "word_of_int (val ?u a - val ?u b) = a - b"
    "word_of_int (val ?u a * val ?u b) = a * b"
    by (simp_all only: wi_hom_add [symmetric] wi_hom_sub [symmetric] wi_hom_mult [symmetric] of_int_val)
  have l: "val ?u (a AND b) = val ?u a AND val ?u b" "val ?u (a OR b) = val ?u a OR val ?u b"
    "val ?u (a XOR b) = val ?u a XOR val ?u b"
    by (simp_all add: val_def unsigned_and_eq signed_and_eq unsigned_or_eq signed_or_eq unsigned_xor_eq signed_xor_eq)
  show ?thesis
    using assms fits_val [of ?u "val ?u a + val ?u b" i] fits_val [of ?u "val ?u a - val ?u b" i]
      fits_val [of ?u "val ?u a * val ?u b" i] unfolding w c_bop_def in_type_val Let_def
    by (auto simp: l bop_apply_simps)
qed

lemma truth_sem:
  assumes "c_bop op lu ru (val lu a) (val ru b) = Some i" "op \<in> {LogOr, LogAnd, Eq, Ne, Lt, Gt, Le, Ge}"
  shows "val u (bop_apply op lu ru a b) = i"
proof -
  have c: "val (lu \<or> ru) a < val (lu \<or> ru) b \<longleftrightarrow> (if lu \<or> ru then a < b else a <s b)"
    "val (lu \<or> ru) a \<le> val (lu \<or> ru) b \<longleftrightarrow> (if lu \<or> ru then a \<le> b else a \<le>s b)" for a b
    by (simp_all add: val_def word_less_def word_le_def word_sless_alt word_sle_eq)
  show ?thesis
    using assms unfolding c_bop_def in_type_val Let_def
    by (auto simp: val_inj c bop_apply_simps simp del: of_int_val)
qed

lemma uint_val: "0 \<le> val ru b \<Longrightarrow> val ru b < 64 \<Longrightarrow> uint b = val ru b"
  using uint_word_of_int_eq [of "val ru b", where 'a = 64] by (simp add: take_bit_int_eq_self)

lemma shl_val: "word_of_int (val lu a * 2 ^ n) = push_bit n a"
  unfolding wi_hom_mult [symmetric] of_int_val word_of_int_2p push_bit_eq_mult ..

lemma shr_val: "val lu (if lu then drop_bit n a else signed_drop_bit n a) = val lu a div 2 ^ n"
proof -
  have "uint (drop_bit n a) = drop_bit n (uint a)" unfolding unsigned_drop_bit_eq by (simp add: bintr_uint)
  then have "uint (drop_bit n a) = uint a div 2 ^ n" by (simp only: drop_bit_eq_div)
  moreover have "sint (signed_drop_bit n a) = sint a div 2 ^ n" by (simp only: sint_signed_drop_bit_eq drop_bit_eq_div)
  ultimately show ?thesis by (cases lu) (simp_all only: val_def if_True if_False)
qed

lemma c_bop_shift:
  "c_bop Shl lu ru a b = (if b < 0 \<or> 64 \<le> b \<or> a < 0 then None else fits lu (a * 2 ^ nat b))"
  "c_bop Shr lu ru a b = (if b < 0 \<or> 64 \<le> b then None else Some (a div 2 ^ nat b))"
  by (simp_all add: c_bop_def Let_def)

lemma shift_sem:
  assumes "c_bop op lu ru (val lu a) (val ru b) = Some i" "op \<in> {Shl, Shr}"
  shows "val lu (bop_apply op lu ru a b) = i"
proof -
  have b: "0 \<le> val ru b" "val ru b < 64"
    using assms(2,1) unfolding insert_iff empty_iff by (auto simp only: c_bop_shift not_less not_le split: if_split_asm)
  have n: "unat b = nat (val ru b)" using uint_val [OF b] by (simp only: unat_eq_nat_uint)
  have b64: "b < 64" using uint_val [OF b] b(2) by (simp add: word_less_def)
  show ?thesis
    using assms(2)
  proof (elim insertE emptyE)
    assume op: "op = Shl"
    then have "fits lu (val lu a * 2 ^ nat (val ru b)) = Some i"
      using assms(1) unfolding op c_bop_shift by (simp only: option.distinct split: if_split_asm)
    then have "val lu (push_bit (nat (val ru b)) a) = i" unfolding shl_val [of lu a, symmetric] by (rule fits_val)
    then show ?thesis using op b64 n by (simp add: bop_apply_simps)
  next
    assume op: "op = Shr"
    then have "val lu a div 2 ^ nat (val ru b) = i"
      using assms(1) unfolding op c_bop_shift by (simp only: option.distinct option.inject split: if_split_asm)
    then show ?thesis using shr_val [of lu "nat (val ru b)" a] op b64 n by (simp only: bop_apply_simps if_True)
  qed
qed

lemma sint_smod_fits:
  fixes a b :: u64
  assumes "sint b \<noteq> 0"
  shows "sint (word_of_int (sint a smod sint b) :: u64) = sint a smod sint b"
proof -
  have "- (2 ^ 63) \<le> sint b" "sint b < 2 ^ 63" using sint_ge [of b] sint_lt [of b] by simp_all
  then have "- (2 ^ 63) \<le> sint a smod sint b" "sint a smod sint b < 2 ^ 63"
    using smod_int_range [OF assms, of "sint a"] by auto
  then have "signed_take_bit 63 (sint a smod sint b) = sint a smod sint b" by (rule signed_take_bit_int_eq_self)
  then show ?thesis by (simp add: sint_sbintrunc')
qed

lemma div_sem:
  assumes "c_bop op lu ru (val lu a) (val ru b) = Some i" "op \<in> {Div, Mod}"
  shows "val (lu \<or> ru) (bop_apply op lu ru a b) = i"
proof (cases "lu \<or> ru")
  case True
  have u: "uint (a div b) = uint a sdiv uint b" "uint (a mod b) = uint a smod uint b"
    by (simp_all add: uint_div uint_mod sdiv_nonneg)
  have v: "val (lu \<or> ru) w = uint w" for w using True by (simp add: val_def)
  have c: "c_bop op lu ru (val lu a) (val ru b) =
      (if uint b = 0 then None else if op = Div then Some (take_bit 64 (uint a sdiv uint b)) else Some (uint a smod uint b))"
    using assms(2) True unfolding c_bop_def in_type_val Let_def v by (auto simp: fits_def)
  have "take_bit 64 (uint a sdiv uint b) = uint (a div b)" unfolding u(1) [symmetric] by (simp add: bintr_uint)
  then show ?thesis
    using assms True u c unfolding v by (auto simp: bop_apply_simps split: if_split_asm)
next
  case False
  have b0: "sint b \<noteq> 0" and q: "fits False (sint a sdiv sint b) \<noteq> None"
    using assms False unfolding c_bop_def in_type_val Let_def by (auto simp: val_def split: if_splits)
  have nm: "\<not> (a = push_bit 63 1 \<and> b = - 1)"
    using q by (auto simp: fits_def signed_divide_int_def split: if_splits)
  have "sint (word_of_int (sint a smod sint b) :: u64) = sint a smod sint b"
    using b0 by (rule sint_smod_fits)
  then show ?thesis
    using assms False nm b0 fits_val [of False "sint a sdiv sint b" i] unfolding c_bop_def in_type_val Let_def
    by (auto simp: val_def bop_apply_simps split: if_splits)
qed

lemma bop_sem:
  assumes "c_bop op lu ru (val lu a) (val ru b) = Some i"
  shows "val (bop_unsigned op lu ru) (bop_apply op lu ru a b) = i"
  using assms arith_sem [of op lu ru a b i] truth_sem [of op lu ru a b i] shift_sem [of op lu ru a b i] div_sem [of op lu ru a b i]
  by (cases op) simp_all

lemma uop_sem:
  assumes "c_uop op (ptype e) (val (ptype e) (ceval e)) = Some i"
  shows "val (ptype (PUn op e)) (ceval (PUn op e)) = i"
proof (cases op)
  case UCompl
  have "word_of_int (NOT (val (ptype e) (ceval e))) = NOT (ceval e)"
    using of_int_val [of "ptype e" "ceval e"] by (metis of_int_not_eq)
  then show ?thesis using UCompl assms val_of_int [of "ptype e" "NOT (val (ptype e) (ceval e))"] by (simp add: c_uop_def)
next
  case UNeg
  have "word_of_int (- val (ptype e) (ceval e)) = - ceval e"
    unfolding wi_hom_neg [symmetric] of_int_val ..
  then show ?thesis using UNeg assms fits_val [of "ptype e" "- val (ptype e) (ceval e)" i] by (simp add: c_uop_def)
qed (use assms in \<open>auto simp: c_uop_def\<close>)

lemma pval_ceval: "wf_expr e \<Longrightarrow> pval e = Some i \<Longrightarrow> val (ptype e) (ceval e) = i"
proof (induction e arbitrary: i)
  case (PNum n u)
  then have "u \<or> signed_take_bit 63 (int n) = int n" by (auto intro: signed_take_bit_int_eq_self)
  then show ?case
    using PNum val_of_int [of u "int n"] by (auto simp: in_type_def take_bit_int_eq_self)
next
  case (PUn op e)
  then obtain a where "pval e = Some a" "c_uop op (ptype e) a = Some i" by (auto simp: bind_eq_Some_conv)
  then show ?case using PUn uop_sem [of op e i] by simp
next
  case (PBin op l r)
  then obtain a where a: "pval l = Some a" "val (ptype l) (ceval l) = a" by (auto simp: bind_eq_Some_conv)
  consider (short) "op = LogAnd \<and> a = 0 \<and> i = 0 \<or> op = LogOr \<and> a \<noteq> 0 \<and> i = 1"
    | (both) b where "pval r = Some b" "c_bop op (ptype l) (ptype r) a b = Some i"
    using PBin.prems(2) a(1) by (auto simp: bind_eq_Some_conv split: if_split_asm)
  then show ?case
  proof cases
    case short
    then show ?thesis using a(2) by (auto simp: bop_apply_simps)
  next
    case both
    then show ?thesis using PBin bop_sem [of op "ptype l" "ptype r" "ceval l" "ceval r" i] a(2) by simp
  qed
next
  case (PCond c a b)
  then obtain j k where j: "pval c = Some j" "(if j \<noteq> 0 then pval a else pval b) = Some k" "i = in_type (ptype a \<or> ptype b) k"
    by (auto simp: bind_eq_Some_conv)
  have "val (ptype c) (ceval c) = j" using PCond j(1) by simp
  then have c0: "ceval c = 0 \<longleftrightarrow> j = 0" using val_0_iff by blast
  have "\<exists>w. k = val (if j \<noteq> 0 then ptype a else ptype b) w \<and> ceval (PCond c a b) = w"
    using PCond j(2) c0 by (auto split: if_split_asm)
  then show ?case using j(3) in_type_val by (auto simp: disj_commute)
qed (simp add: val_def)

text \<open>
  C6. \<^verbatim>\<open>#if\<close> arithmetic is C arithmetic: evaluating the text of any expression of decimal numbers (with or
  without the suffix \<^verbatim>\<open>u\<close>), identifiers, unary, binary and conditional operators, written without blanks and with the parentheses that C's
  precedence and associativity require, returns the value the C standard defines for it (with
  64-bit signed and unsigned operands and the usual conversions between them), and reports no
  error.
\<close>

theorem pp_eval_correct:
  assumes "wf_expr e" and "pval e = Some i"
  shows "\<exists>v. pp_eval_integer (src_of e) d = Some (v, d) \<and> (if ptype e then uint v else sint v) = i"
proof -
  let ?s = "\<lparr>px_cursor = src_of e, unsigned_value = False, px_diag = d\<rparr>"
  have s: "at ?s (src_of e @ []) False = ?s" by (simp add: at_def)
  have p0: "prec_at [] = 0" by (simp add: prec_at_def operator_info_def Let_def whitespace_def starts_def bytes_of_def)
  have "ev conditional ?s (ceval e, at ?s [] (ptype e))"
    using reads_all [OF assms(1)] p0 stops_closers(4) s unfolding reads_expr_def reads_conditional_def by metis
  then obtain n where n: "conditional n ?s = Some (ceval e, at ?s [] (ptype e))" by (auto simp: ev_def)
  have "reads (conditional (5 * length (src_of e) + 5) ?s) ?s" by (rule enough_fuel(5)) simp
  then obtain r where r: "conditional (5 * length (src_of e) + 5) ?s = Some r" by (auto simp: reads_def)
  have "r = (ceval e, at ?s [] (ptype e))"
    using more_fuel(5) [OF max.cobounded1 n] more_fuel(5) [OF max.cobounded2 r] by (metis option.inject)
  then have "pp_eval_integer (src_of e) d = Some (ceval e, d)"
    using r stops_ws [OF stops_closers(4), of ?s "ptype e"] by (simp add: pp_eval_integer_def Let_def)
  then show ?thesis using pval_ceval [OF assms] by (simp add: val_def)
qed

theorem pp_eval_correct_witness:
  "\<exists>v. pp_eval_integer (bytes_of ''1+2*3>6?-7/2:0'') \<lparr>n_errors = 0, n_warnings = 0\<rparr> = Some (v, \<lparr>n_errors = 0, n_warnings = 0\<rparr>)
     \<and> sint v = - 3"
proof -
  let ?n = "\<lambda>k. PNum k False"
  let ?e = "PCond (PBin Gt (PBin Add (?n 1) (PBin Mul (?n 2) (?n 3))) (?n 6)) (PBin Div (PUn UNeg (?n 7)) (?n 2)) (?n 0)"
  have "src_of ?e = bytes_of ''1+2*3>6?-7/2:0''" by (simp add: bytes_of_def dec_text.simps)
  moreover have "pval ?e = Some (- 3)" "ptype ?e = False" by code_simp+
  moreover have "wf_expr ?e" by simp
  ultimately show ?thesis using pp_eval_correct [of ?e "- 3" "\<lparr>n_errors = 0, n_warnings = 0\<rparr>"] by simp
qed

end
