(* ===== verification/Libc_Alloc.thy ===== *)
theory Libc_Alloc
  imports Emulator_Inv
begin

text \<open>
  The heap of the C library, \<^verbatim>\<open>libonyxc/src/memory/alloc.c\<close>: \<^verbatim>\<open>malloc\<close>, \<^verbatim>\<open>free\<close>, \<^verbatim>\<open>calloc\<close> and
  \<^verbatim>\<open>realloc\<close> over a doubly linked list of blocks in address order. The headers are a map from
  addresses to records (a header that was merged away keeps its old contents), the bytes behind
  them another; null is the address 0. The operating system enters through \<^verbatim>\<open>_onyx_sbrk\<close>, a
  parameter with its state that is instantiated with the system call of \<^verbatim>\<open>tools/onx-run.c\<close> below.
  A result \<^const>\<open>None\<close> is a search that does not end or a stop of the emulator.
\<close>

subsection \<open>State\<close>

record block =
  blk_size :: u64
  blk_next :: u64
  blk_prev :: u64
  available :: bool

record 'k heap =
  hdr :: "u64 \<Rightarrow> block"
  first_block :: u64
  last_block :: u64
  heap_bytes :: "u64 \<Rightarrow> u8"
  h_errno :: int
  h_os :: 'k

type_synonym 'k brk = "u64 \<Rightarrow> 'k \<Rightarrow> (u64 \<times> 'k) option"

definition set_hdr :: "u64 \<Rightarrow> block \<Rightarrow> 'k heap \<Rightarrow> 'k heap" where
  "set_hdr b x s = s\<lparr>hdr := (hdr s)(b := x)\<rparr>"

text \<open>The block behind \<open>b\<close> in the list is \<open>n\<close>: its back pointer, or the end of the list, is \<open>b\<close>.\<close>

definition set_back :: "u64 \<Rightarrow> u64 \<Rightarrow> 'k heap \<Rightarrow> 'k heap" where
  "set_back n b s = (if n \<noteq> 0 then set_hdr n (hdr s n\<lparr>blk_prev := b\<rparr>) s else s\<lparr>last_block := b\<rparr>)"

subsection \<open>Operations\<close>

definition merge_next :: "u64 \<Rightarrow> 'k heap \<Rightarrow> 'k heap" where
  "merge_next b s =
     (let nx = blk_next (hdr s b)
      in if nx = 0 \<or> \<not> available (hdr s nx) then s
         else if b + 32 + blk_size (hdr s b) \<noteq> nx then s
         else let s = set_hdr b (hdr s b\<lparr>blk_size := blk_size (hdr s b) + (32 + blk_size (hdr s nx))\<rparr>) s;
                  s = set_hdr b (hdr s b\<lparr>blk_next := blk_next (hdr s nx)\<rparr>) s
              in set_back (blk_next (hdr s b)) b s)"

definition split_block :: "u64 \<Rightarrow> u64 \<Rightarrow> 'k heap \<Rightarrow> 'k heap" where
  "split_block b n s =
     (if blk_size (hdr s b) - n < 32 + 16 then s
      else let r = b + 32 + n;
               s = set_hdr r \<lparr>blk_size = blk_size (hdr s b) - n - 32, blk_next = blk_next (hdr s b), blk_prev = b, available = True\<rparr> s;
               s = set_back (blk_next (hdr s r)) r s;
               s = set_hdr b (hdr s b\<lparr>blk_next := r\<rparr>) s;
               s = set_hdr b (hdr s b\<lparr>blk_size := n\<rparr>) s
           in merge_next r s)"

text \<open>The first block of the list that is free and large enough.\<close>

partial_function (option) find_block :: "(u64 \<Rightarrow> block) \<Rightarrow> u64 \<Rightarrow> u64 \<Rightarrow> u64 option" where
  "find_block h n b =
     (if b = 0 then Some 0
      else if available (h b) \<and> n \<le> blk_size (h b) then Some b
      else find_block h n (blk_next (h b)))"

definition too_large :: "u64 \<Rightarrow> bool" where
  "too_large n \<longleftrightarrow> 0x7FFFFFFFFFFFFFFF - 32 - 65551 < n"

definition out_of_memory :: "'k heap \<Rightarrow> (u64 \<times> 'k heap) option" where
  "out_of_memory s = Some (0, s\<lparr>h_errno := 12\<rparr>)"

text \<open>A new free block behind the last one.\<close>

definition link_block :: "u64 \<Rightarrow> u64 \<Rightarrow> 'k heap \<Rightarrow> 'k heap" where
  "link_block b sz s =
     (let s = set_hdr b \<lparr>blk_size = sz, blk_next = 0, blk_prev = last_block s, available = True\<rparr> s;
          s = (if last_block s \<noteq> 0 then set_hdr (last_block s) (hdr s (last_block s)\<lparr>blk_next := b\<rparr>) s
               else s\<lparr>first_block := b\<rparr>)
      in s\<lparr>last_block := b\<rparr>)"

text \<open>The new block has at least 64 KiB; null when the system has no memory.\<close>

definition extend_heap :: "'k brk \<Rightarrow> u64 \<Rightarrow> 'k heap \<Rightarrow> (u64 \<times> 'k heap) option" where
  "extend_heap sbrk n s =
     (let extent = (n + 32 + 65535) AND NOT 65535
      in case sbrk (extent + 15) (h_os s) of
           None \<Rightarrow> None
         | Some (memory, os) \<Rightarrow>
             let s = s\<lparr>h_os := os\<rparr>
             in if memory = - 1 \<or> memory = 0 then out_of_memory s
                else let b = (memory + 15) AND NOT 15 in Some (b, link_block b (extent - 32) s))"

definition take_block :: "u64 \<Rightarrow> u64 \<Rightarrow> 'k heap \<Rightarrow> u64 \<times> 'k heap" where
  "take_block b n s =
     (let s = split_block b n s; s = set_hdr b (hdr s b\<lparr>available := False\<rparr>) s in (b + 32, s))"

definition malloc :: "'k brk \<Rightarrow> u64 \<Rightarrow> 'k heap \<Rightarrow> (u64 \<times> 'k heap) option" where
  "malloc sbrk n s =
     (if too_large n then out_of_memory s
      else let n = (if n = 0 then 1 else n); n = (n + 15) AND NOT 15
           in case find_block (hdr s) n (first_block s) of
                None \<Rightarrow> None
              | Some b \<Rightarrow>
                  if b \<noteq> 0 then Some (take_block b n s)
                  else (case extend_heap sbrk n s of
                          None \<Rightarrow> None
                        | Some (b, s) \<Rightarrow> if b = 0 then Some (0, s) else Some (take_block b n s)))"

definition free :: "u64 \<Rightarrow> 'k heap \<Rightarrow> 'k heap" where
  "free p s =
     (if p = 0 then s
      else let b = p - 32; s = set_hdr b (hdr s b\<lparr>available := True\<rparr>) s; s = merge_next b s
           in if blk_prev (hdr s b) \<noteq> 0 \<and> available (hdr s (blk_prev (hdr s b))) then merge_next (blk_prev (hdr s b)) s
              else s)"

text \<open>The byte loops of \<^verbatim>\<open>memset\<close> and \<^verbatim>\<open>memcpy\<close>.\<close>

primrec memset :: "u64 \<Rightarrow> u8 \<Rightarrow> nat \<Rightarrow> (u64 \<Rightarrow> u8) \<Rightarrow> u64 \<Rightarrow> u8" where
  "memset d c 0 m = m"
| "memset d c (Suc n) m = (memset d c n m)(d + word_of_nat n := c)"

primrec memcpy :: "u64 \<Rightarrow> u64 \<Rightarrow> nat \<Rightarrow> (u64 \<Rightarrow> u8) \<Rightarrow> u64 \<Rightarrow> u8" where
  "memcpy d a 0 m = m"
| "memcpy d a (Suc n) m = (let m = memcpy d a n m in m(d + word_of_nat n := m (a + word_of_nat n)))"

definition calloc :: "'k brk \<Rightarrow> u64 \<Rightarrow> u64 \<Rightarrow> 'k heap \<Rightarrow> (u64 \<times> 'k heap) option" where
  "calloc sbrk count n s =
     (if n \<noteq> 0 \<and> (- 1) div n < count then out_of_memory s
      else let total = count * n
           in map_option (\<lambda>(p, s). (p, if p \<noteq> 0 then s\<lparr>heap_bytes := memset p 0 (unat total) (heap_bytes s)\<rparr> else s))
                (malloc sbrk total s))"

definition realloc :: "'k brk \<Rightarrow> u64 \<Rightarrow> u64 \<Rightarrow> 'k heap \<Rightarrow> (u64 \<times> 'k heap) option" where
  "realloc sbrk p n s =
     (if p = 0 then malloc sbrk n s
      else if n = 0 then Some (0, free p s)
      else if too_large n then out_of_memory s
      else let b = p - 32; old_size = blk_size (hdr s b); rounded = (n + 15) AND NOT 15; s = merge_next b s
           in if rounded \<le> blk_size (hdr s b) then Some (p, split_block b rounded s)
              else (case malloc sbrk n s of
                      None \<Rightarrow> None
                    | Some (q, s) \<Rightarrow>
                        if q = 0 then Some (0, s)
                        else Some (q, free p (s\<lparr>heap_bytes := memcpy q p (unat old_size) (heap_bytes s)\<rparr>))))"

subsection \<open>The system call under the emulator\<close>

definition onyx_syscall1 :: "'h host_ops \<Rightarrow> u64 \<Rightarrow> u64 \<Rightarrow> 'h cpu \<Rightarrow> 'h sysresult" where
  "onyx_syscall1 h nr a0 s =
     bindE (do_syscall h (set_reg 17 nr (set_reg 10 a0 s))) (\<lambda>(r, s). Inr (r, set_reg 10 r s))"

definition onyx_sbrk :: "'h host_ops \<Rightarrow> 'h cpu brk" where
  "onyx_sbrk h inc s =
     (case onyx_syscall1 h 13 inc s of
        Inl e \<Rightarrow> None
      | Inr (r, s) \<Rightarrow> Some (if sint r < 0 then - 1 else r, s))"

end
