(* ===== verification/Libc_Alloc_List.thy ===== *)
theory Libc_Alloc_List
  imports Libc_Alloc
begin

text \<open>
  The heap of the C library as a list of blocks: the headers in memory are a doubly linked
  representation of the list, in address order, aligned and without overlap. Merging, splitting,
  taking, linking and freeing a block are operations on the list; the areas in use are disjoint, so
  the byte loops of \<^verbatim>\<open>memcpy\<close> and \<^verbatim>\<open>memset\<close> on one of them leave the others alone.
\<close>

subsection \<open>The list of blocks\<close>

text \<open>A block of the abstract heap: the address of its header, its size, whether it is free.\<close>

type_synonym blk = "u64 \<times> u64 \<times> bool"

definition hd0 :: "blk list \<Rightarrow> u64 \<Rightarrow> u64" where
  "hd0 V n = (case V of [] \<Rightarrow> n | (b, _) # _ \<Rightarrow> b)"

definition last0 :: "blk list \<Rightarrow> u64 \<Rightarrow> u64" where
  "last0 V p = (if V = [] then p else fst (last V))"

fun chain :: "(u64 \<Rightarrow> block) \<Rightarrow> u64 \<Rightarrow> blk list \<Rightarrow> u64 \<Rightarrow> bool" where
  "chain h p [] n \<longleftrightarrow> True"
| "chain h p ((b, sz, av) # V) n \<longleftrightarrow>
     h b = \<lparr>blk_size = sz, blk_next = hd0 V n, blk_prev = p, available = av\<rparr> \<and> chain h b V n"

text \<open>The blocks lie between two addresses in order, aligned and without overlap.\<close>

fun spaced :: "nat \<Rightarrow> blk list \<Rightarrow> nat \<Rightarrow> bool" where
  "spaced lo [] hi \<longleftrightarrow> lo \<le> hi"
| "spaced lo ((b, sz, av) # V) hi \<longleftrightarrow>
     lo \<le> unat b \<and> 16 dvd unat b \<and> 16 dvd unat sz \<and> spaced (unat b + 32 + unat sz) V hi"

definition heap_rep :: "'k heap \<Rightarrow> blk list \<Rightarrow> nat \<Rightarrow> bool" where
  "heap_rep s V hi \<longleftrightarrow> chain (hdr s) 0 V 0 \<and> first_block s = hd0 V 0 \<and> last_block s = last0 V 0 \<and> spaced 1 V hi \<and> hi < 2 ^ 63"

definition allocated :: "blk list \<Rightarrow> (u64 \<times> u64) set" where
  "allocated V = {(b + 32, sz) | b sz. (b, sz, False) \<in> set V}"

lemma hd0_simps [simp]: "hd0 [] n = n" "hd0 ((b, x) # V) n = b"
  by (simp_all add: hd0_def)

lemma hd0_append [simp]: "hd0 (V @ W) n = hd0 V (hd0 W n)"
  by (cases V) (auto simp: hd0_def split: prod.splits)

lemma last0_simps [simp]: "last0 [] p = p" "last0 (V @ [(b, x)]) p = b" "last0 ((b, x) # V) p = last0 V b"
  by (simp_all add: last0_def)

lemma last0_append [simp]: "last0 (V @ W) p = last0 W (last0 V p)"
  by (simp add: last0_def)

lemma chain_append: "chain h p (V @ W) n \<longleftrightarrow> chain h p V (hd0 W n) \<and> chain h (last0 V p) W n"
  by (induction h p V n rule: chain.induct) auto

lemma chain_upd: "b \<notin> fst ` set V \<Longrightarrow> chain (h(b := x)) p V n \<longleftrightarrow> chain h p V n"
  by (induction h p V n rule: chain.induct) auto

lemma chain_cong: "chain h p V n \<Longrightarrow> (\<And>b. b \<in> fst ` set V \<Longrightarrow> h' b = h b) \<Longrightarrow> chain h' p V n"
  by (induction h p V n rule: chain.induct) auto

lemma spaced_mono: "spaced lo V hi \<Longrightarrow> lo' \<le> lo \<Longrightarrow> hi \<le> hi' \<Longrightarrow> spaced lo' V hi'"
  by (induction lo V hi arbitrary: lo' rule: spaced.induct) auto

lemma spaced_Cons_append:
  "spaced lo (V @ (b, sz, av) # W) hi \<longleftrightarrow> spaced lo V (unat b) \<and> 16 dvd unat b \<and> 16 dvd unat sz
     \<and> spaced (unat b + 32 + unat sz) W hi"
  by (induction lo V hi rule: spaced.induct) auto

lemma spaced_le: "spaced lo V hi \<Longrightarrow> lo \<le> hi"
  by (induction lo V hi rule: spaced.induct) auto

lemma spaced_mem: "spaced lo V hi \<Longrightarrow> (b, sz, av) \<in> set V \<Longrightarrow> lo \<le> unat b \<and> unat b + 32 + unat sz \<le> hi"
  by (induction lo V hi rule: spaced.induct) (auto dest: spaced_le)

lemma spaced_not_mem: "spaced lo V hi \<Longrightarrow> unat b < lo \<or> hi \<le> unat b \<Longrightarrow> b \<notin> fst ` set V"
  using spaced_mem by fastforce

lemma spaced_split:
  assumes "spaced lo (V @ (b, sz, av) # W) hi"
  shows "b \<notin> fst ` set V" "b \<notin> fst ` set W" "(c, x) \<in> set V \<Longrightarrow> c \<notin> fst ` set W"
proof -
  have s: "spaced lo V (unat b)" "spaced (unat b + 32 + unat sz) W hi" using assms by (auto simp: spaced_Cons_append)
  show "b \<notin> fst ` set V" "b \<notin> fst ` set W" using spaced_not_mem [OF s(1)] spaced_not_mem [OF s(2)] by auto
  show "c \<notin> fst ` set W" if "(c, x) \<in> set V"
  proof -
    obtain z a where "x = (z, a)" by (cases x)
    then have "unat c < unat b" using spaced_mem [OF s(1), of c z a] that by auto
    then show ?thesis using spaced_not_mem [OF s(2), of c] by auto
  qed
qed

subsection \<open>Merging and splitting\<close>

text \<open>What no operation on the list changes.\<close>

definition same_rest :: "'k heap \<Rightarrow> 'k heap \<Rightarrow> bool" where
  "same_rest s s' \<longleftrightarrow> heap_bytes s' = heap_bytes s \<and> h_os s' = h_os s \<and> h_errno s' = h_errno s"

lemma same_rest_refl [simp]: "same_rest s s"
  by (simp add: same_rest_def)

lemma same_rest_trans: "same_rest s s1 \<Longrightarrow> same_rest s1 s2 \<Longrightarrow> same_rest s s2"
  by (simp add: same_rest_def)

lemma set_hdr_simps [simp]:
  "hdr (set_hdr b x s) = (hdr s)(b := x)" "first_block (set_hdr b x s) = first_block s" "last_block (set_hdr b x s) = last_block s"
  "same_rest s' (set_hdr b x s) = same_rest s' s"
  by (simp_all add: set_hdr_def same_rest_def)

lemma set_back_props:
  fixes b :: u64
  assumes "chain (hdr s) q Z 0" "spaced lo Z hi" "1 \<le> lo"
  defines "s' \<equiv> set_back (hd0 Z 0) b s"
  shows "chain (hdr s') b Z 0" "last_block s' = (if Z = [] then b else last_block s)"
    "c \<notin> fst ` set Z \<Longrightarrow> hdr s' c = hdr s c" "first_block s' = first_block s" "same_rest s s'"
proof -
  have "chain (hdr s') b Z 0 \<and> last_block s' = (if Z = [] then b else last_block s)
      \<and> (c \<notin> fst ` set Z \<longrightarrow> hdr s' c = hdr s c) \<and> first_block s' = first_block s \<and> same_rest s s'"
  proof (cases Z)
    case Nil
    then show ?thesis by (simp add: s'_def set_back_def same_rest_def)
  next
    case (Cons e Z')
    obtain d sd ad where e: "e = (d, sd, ad)" by (cases e) auto
    have d: "d \<noteq> 0" "d \<notin> fst ` set Z'"
      using assms(2,3) spaced_not_mem [of "unat d + 32 + unat sd" Z' hi d] by (auto simp: Cons e)
    then show ?thesis
      using assms(1) by (simp add: s'_def set_back_def Cons e chain_upd)
  qed
  then show "chain (hdr s') b Z 0" "last_block s' = (if Z = [] then b else last_block s)"
    "c \<notin> fst ` set Z \<Longrightarrow> hdr s' c = hdr s c" "first_block s' = first_block s" "same_rest s s'" by blast+
qed

lemma rep_split:
  assumes "heap_rep s (X @ (b, sz, av) # Y) hi"
  shows "chain (hdr s) 0 X b" "hdr s b = \<lparr>blk_size = sz, blk_next = hd0 Y 0, blk_prev = last0 X 0, available = av\<rparr>"
    "chain (hdr s) b Y 0" "spaced 1 X (unat b)" "16 dvd unat b" "16 dvd unat sz" "spaced (unat b + 32 + unat sz) Y hi"
    "b \<noteq> 0" "b \<notin> fst ` set X" "b \<notin> fst ` set Y" "unat b + 32 + unat sz \<le> hi" "hi < 2 ^ 63"
    "last_block s = last0 Y b" "first_block s = hd0 X b"
proof -
  have sp: "spaced 1 (X @ (b, sz, av) # Y) hi" using assms by (simp add: heap_rep_def)
  show "b \<notin> fst ` set X" "b \<notin> fst ` set Y" using spaced_split [OF sp] by auto
  show s: "spaced 1 X (unat b)" "16 dvd unat b" "16 dvd unat sz" "spaced (unat b + 32 + unat sz) Y hi"
    using sp by (auto simp: spaced_Cons_append)
  show "unat b + 32 + unat sz \<le> hi" using spaced_le [OF s(4)] .
  show "b \<noteq> 0" using spaced_le [OF s(1)] by auto
qed (use assms in \<open>auto simp: heap_rep_def chain_append\<close>)

text \<open>Rebuilding the representation around a changed block.\<close>

lemma rep_join:
  assumes "chain (hdr s) 0 X b" "hdr s b = \<lparr>blk_size = sz, blk_next = hd0 Y 0, blk_prev = last0 X 0, available = av\<rparr>"
    "chain (hdr s) b Y 0" "spaced 1 X (unat b)" "16 dvd unat b" "16 dvd unat sz" "spaced (unat b + 32 + unat sz) Y hi" "hi < 2 ^ 63"
    "last_block s = last0 Y b" "first_block s = hd0 X b"
  shows "heap_rep s (X @ (b, sz, av) # Y) hi"
  using assms by (simp add: heap_rep_def chain_append spaced_Cons_append)

definition merged :: "u64 \<Rightarrow> u64 \<Rightarrow> bool \<Rightarrow> blk list \<Rightarrow> blk list" where
  "merged b sz av Y =
     (case Y of (c, sc, True) # Z \<Rightarrow> if unat b + 32 + unat sz = unat c then (b, sz + (32 + sc), av) # Z else (b, sz, av) # Y
      | _ \<Rightarrow> (b, sz, av) # Y)"

lemma unat_sum:
  fixes b sz :: u64
  assumes "unat b + 32 + unat sz \<le> hi" "hi < 2 ^ 63"
  shows "unat (b + 32 + sz) = unat b + 32 + unat sz" "unat (b + 32) = unat b + 32"
  using assms by (simp_all add: unat_word_ariths)

lemma merge_next_rep:
  assumes "heap_rep s (X @ (b, sz, av) # Y) hi"
  shows "heap_rep (merge_next b s) (X @ merged b sz av Y) hi" and "same_rest s (merge_next b s)"
proof -
  note r = rep_split [OF assms]
  have "heap_rep (merge_next b s) (X @ merged b sz av Y) hi \<and> same_rest s (merge_next b s)"
  proof (cases "\<exists>c sc Z. Y = (c, sc, True) # Z \<and> unat b + 32 + unat sz = unat c")
    case False
    then have "merged b sz av Y = (b, sz, av) # Y"
      by (auto simp: merged_def split: list.splits prod.splits bool.splits)
    moreover have "merge_next b s = s"
    proof (cases Y)
      case (Cons e Z)
      obtain c sc ac where e: "e = (c, sc, ac)" by (cases e) auto
      have "available (hdr s c) = ac" using r(3) Cons e by simp
      moreover have "b + 32 + sz = c \<longleftrightarrow> unat b + 32 + unat sz = unat c"
        using unat_sum(1) [OF r(11,12)] by (metis word_unat_eq_iff)
      ultimately show ?thesis using False r(2) Cons e by (auto simp: merge_next_def Let_def)
    qed (simp add: merge_next_def r(2))
    ultimately show ?thesis using assms by simp
  next
    case True
    then obtain c sc Z where Y: "Y = (c, sc, True) # Z" and c: "unat b + 32 + unat sz = unat c" by blast
    have hc: "hdr s c = \<lparr>blk_size = sc, blk_next = hd0 Z 0, blk_prev = b, available = True\<rparr>" "chain (hdr s) c Z 0"
      using r(3) Y by auto
    have sc: "16 dvd unat sc" "spaced (unat c + 32 + unat sc) Z hi" using r(7) Y by auto
    have bc: "b + 32 + sz = c" "c \<noteq> 0" "b \<noteq> c" using unat_sum(1) [OF r(11,12)] c r(10) Y by (auto simp: word_unat_eq_iff)
    define s1 where "s1 = set_hdr b \<lparr>blk_size = sz + (32 + sc), blk_next = hd0 Z 0, blk_prev = last0 X 0, available = av\<rparr> s"
    have bZ: "b \<notin> fst ` set Z" using r(10) Y by simp
    have m: "merge_next b s = set_back (hd0 Z 0) b s1"
      using r(2) Y hc(1) bc by (simp add: merge_next_def Let_def s1_def set_hdr_def)
    have le: "unat c + 32 + unat sc \<le> hi" using spaced_le [OF sc(2)] .
    have usz: "unat (sz + (32 + sc)) = unat sz + (32 + unat sc)" using le c r(12) by (simp add: unat_word_ariths)
    have "chain (hdr s1) c Z 0" using hc(2) bZ by (simp add: s1_def chain_upd)
    note sb = set_back_props [OF this sc(2), where b = b]
    have "heap_rep (merge_next b s) (X @ (b, sz + (32 + sc), av) # Z) hi"
      unfolding m
    proof (rule rep_join)
      have XZ: "fst e \<notin> fst ` set Z" if "e \<in> set X" for e
        using spaced_split(3) [of 1 X b sz av Y hi "fst e" "snd e"] assms that Y by (auto simp: heap_rep_def)
      have "chain (hdr s1) 0 X b" using r(1,9) by (simp add: s1_def chain_upd)
      then show "chain (hdr (set_back (hd0 Z 0) b s1)) 0 X b"
        by (rule chain_cong) (use sb(3) XZ in auto)
      show "hdr (set_back (hd0 Z 0) b s1) b = \<lparr>blk_size = sz + (32 + sc), blk_next = hd0 Z 0, blk_prev = last0 X 0, available = av\<rparr>"
        using sb(3) [where c = b] bZ by (simp add: s1_def)
      have "unat b + 32 + unat (sz + (32 + sc)) = unat c + 32 + unat sc" using usz c by simp
      then show "spaced (unat b + 32 + unat (sz + (32 + sc))) Z hi" using sc(2) by (simp only:)
      show "16 dvd unat (sz + (32 + sc))" using usz r(6) sc(1) by simp
      show "last_block (set_back (hd0 Z 0) b s1) = last0 Z b"
        using sb(2) r(13) Y by (auto simp: s1_def last0_def)
      show "first_block (set_back (hd0 Z 0) b s1) = hd0 X b" using sb(4) r(14) by (simp add: s1_def)
    qed (use r sb in simp_all)
    moreover have "merged b sz av Y = (b, sz + (32 + sc), av) # Z" using Y c by (simp add: merged_def)
    ultimately show ?thesis using sb(5) m by (simp add: s1_def same_rest_def set_hdr_def)
  qed
  then show "heap_rep (merge_next b s) (X @ merged b sz av Y) hi" and "same_rest s (merge_next b s)" by blast+
qed

lemma merged_facts:
  "\<exists>sz' Y'. merged b sz av Y = (b, sz', av) # Y' \<and> allocated Y' = allocated Y
     \<and> (spaced (unat b + 32 + unat sz) Y hi \<and> hi < 2 ^ 63 \<longrightarrow> sz \<le> sz')"
proof (cases "\<exists>c sc Z. Y = (c, sc, True) # Z \<and> unat b + 32 + unat sz = unat c")
  case True
  then obtain c sc Z where Y: "Y = (c, sc, True) # Z" and c: "unat b + 32 + unat sz = unat c" by blast
  have "sz \<le> sz + (32 + sc)" if "spaced (unat b + 32 + unat sz) Y hi" "hi < 2 ^ 63"
  proof -
    have "unat c + 32 + unat sc \<le> hi" using that(1) Y spaced_le by auto
    then have "unat (sz + (32 + sc)) = unat sz + (32 + unat sc)" using c that(2) by (simp add: unat_word_ariths)
    then show ?thesis by (simp add: word_le_nat_alt)
  qed
  then show ?thesis using Y c by (auto simp: merged_def allocated_def)
next
  case False
  then have "merged b sz av Y = (b, sz, av) # Y"
    by (auto simp: merged_def split: list.splits prod.splits bool.splits)
  then show ?thesis by simp
qed

lemma allocated_simps [simp]:
  "allocated [] = {}" "allocated ((b, sz, True) # V) = allocated V"
  "allocated ((b, sz, False) # V) = insert (b + 32, sz) (allocated V)" "allocated (V @ W) = allocated V \<union> allocated W"
  by (auto simp: allocated_def)

lemma split_sizes:
  fixes b sz n :: u64
  assumes "unat b + 32 + unat sz \<le> hi" "hi < 2 ^ 63" "n \<le> sz" "\<not> sz - n < 32 + 16"
  shows "unat (b + 32 + n) = unat b + 32 + unat n" "unat (sz - n - 32) = unat sz - unat n - 32" "unat n + 48 \<le> unat sz"
    "unat (b + 32 + n) + 32 + unat (sz - n - 32) = unat b + 32 + unat sz"
proof -
  have u: "unat (sz - n) = unat sz - unat n" "unat n \<le> unat sz" using assms(3) by (simp_all add: unat_sub word_le_nat_alt)
  have "48 \<le> unat (sz - n)" using assms(4) by (simp add: word_less_nat_alt)
  then show big: "unat n + 48 \<le> unat sz" and ur: "unat (sz - n - 32) = unat sz - unat n - 32"
    using u by (simp_all add: unat_sub word_le_nat_alt)
  show uq: "unat (b + 32 + n) = unat b + 32 + unat n"
    by (rule unat_sum(1) [where hi = hi]) (use u assms(1,2) in linarith)+
  show "unat (b + 32 + n) + 32 + unat (sz - n - 32) = unat b + 32 + unat sz" using uq ur big by linarith
qed

text \<open>The block cut in two, before the rest is merged with the block behind it.\<close>

lemma cut_rep:
  assumes "heap_rep s (X @ (b, sz, av) # Y) hi" "n \<le> sz" "16 dvd unat n" "\<not> sz - n < 32 + 16"
  defines "q \<equiv> b + 32 + n"
  defines "s2 \<equiv> set_back (hd0 Y 0) q (set_hdr q \<lparr>blk_size = sz - n - 32, blk_next = hd0 Y 0, blk_prev = b, available = True\<rparr> s)"
  defines "s3 \<equiv> set_hdr b \<lparr>blk_size = n, blk_next = q, blk_prev = last0 X 0, available = av\<rparr> s2"
  shows "heap_rep s3 ((X @ [(b, n, av)]) @ (q, sz - n - 32, True) # Y) hi" "split_block b n s = merge_next q s3" "same_rest s s3"
proof -
  note r = rep_split [OF assms(1)]
  note u = split_sizes [OF r(11,12) assms(2,4), folded q_def]
  have bq: "q \<noteq> b" using u(1) by (auto simp: word_unat_eq_iff)
  have qY: "q \<notin> fst ` set Y" by (rule spaced_not_mem [OF r(7)]) (use u in linarith)
  have qX: "q \<notin> fst ` set X" by (rule spaced_not_mem [OF r(4)]) (use u in linarith)
  define s1 where "s1 = set_hdr q \<lparr>blk_size = sz - n - 32, blk_next = hd0 Y 0, blk_prev = b, available = True\<rparr> s"
  have "chain (hdr s1) b Y 0" using r(3) qY by (simp add: s1_def chain_upd)
  note sb = set_back_props [OF this r(7), where b = q, folded s2_def s1_def, unfolded s1_def, folded s2_def]
  have h2: "hdr s2 b = hdr s b" "hdr s2 q = hdr s1 q"
    using sb(3) [where c = b] sb(3) [where c = q] r(10) qY bq by (simp_all add: s1_def)
  show "split_block b n s = merge_next q s3"
    using assms(4) r(2) h2 bq by (simp add: split_block_def Let_def s1_def s2_def s3_def q_def set_hdr_def)
  show "same_rest s s3" using sb(5) by (simp add: s3_def same_rest_def set_hdr_def)
  show "heap_rep s3 ((X @ [(b, n, av)]) @ (q, sz - n - 32, True) # Y) hi"
  proof (rule rep_join)
    have "hdr s2 c = hdr s c" if c: "c \<in> fst ` set X" for c
    proof -
      obtain x where x: "(c, x) \<in> set X" using c by force
      have "c \<notin> fst ` set Y" using spaced_split(3) [OF _ x, of 1 b sz av Y hi] assms(1) by (auto simp: heap_rep_def)
      then show ?thesis using sb(3) [where c = c] qX c by auto
    qed
    then have "chain (hdr s2) 0 X b" using r(1) by (rule chain_cong [rotated])
    then show "chain (hdr s3) 0 (X @ [(b, n, av)]) q" using r(9) by (simp add: s3_def chain_append chain_upd)
    show "hdr s3 q = \<lparr>blk_size = sz - n - 32, blk_next = hd0 Y 0, blk_prev = last0 (X @ [(b, n, av)]) 0, available = True\<rparr>"
      using h2(2) bq by (simp add: s3_def s1_def)
    show "chain (hdr s3) q Y 0" using sb(1) r(10) by (simp add: s3_def chain_upd)
    show "spaced 1 (X @ [(b, n, av)]) (unat q)" using r(4,5) assms(3) u(1) by (simp add: spaced_Cons_append)
    show "16 dvd unat q" "16 dvd unat (sz - n - 32)" using u r(5,6) assms(3) by (simp_all add: dvd_diff_nat)
    show "spaced (unat q + 32 + unat (sz - n - 32)) Y hi" unfolding u(4) by (rule r(7))
    show "last_block s3 = last0 Y q" using sb(2) r(13) by (simp add: s3_def last0_def)
    show "first_block s3 = hd0 (X @ [(b, n, av)]) q" using sb(4) r(14) by (simp add: s3_def)
  qed (rule r(12))
qed

lemma split_block_rep:
  assumes "heap_rep s (X @ (b, sz, av) # Y) hi" "n \<le> sz" "16 dvd unat n"
  shows "\<exists>sz' Y'. heap_rep (split_block b n s) (X @ (b, sz', av) # Y') hi \<and> n \<le> sz' \<and> allocated Y' = allocated Y
    \<and> same_rest s (split_block b n s)"
proof (cases "sz - n < 32 + 16")
  case True
  then have "split_block b n s = s" using rep_split(2) [OF assms(1)] by (simp add: split_block_def)
  then show ?thesis using assms by auto
next
  case False
  note c = cut_rep [OF assms False]
  obtain sz' Y' where m: "merged (b + 32 + n) (sz - n - 32) True Y = (b + 32 + n, sz', True) # Y'" "allocated Y' = allocated Y"
    using merged_facts by blast
  have "heap_rep (split_block b n s) (X @ (b, n, av) # (b + 32 + n, sz', True) # Y') hi \<and> same_rest s (split_block b n s)"
    using merge_next_rep [OF c(1)] m(1) c(2) same_rest_trans [OF c(3)] by simp
  then show ?thesis using m(2) by (intro exI [of _ n] exI [of _ "(b + 32 + n, sz', True) # Y'"]) simp
qed

subsection \<open>Searching, taking and freeing\<close>

lemma find_block_spec:
  assumes "chain h p V 0" "0 \<notin> fst ` set V"
  shows "find_block h n (hd0 V 0) = Some 0 \<or> (\<exists>X b sz Y. find_block h n (hd0 V 0) = Some b \<and> V = X @ (b, sz, True) # Y \<and> n \<le> sz)"
  using assms
proof (induction h p V "0::u64" rule: chain.induct)
  case (1 h p)
  then show ?case by (simp add: find_block.simps)
next
  case (2 h p b sz av V)
  have f: "find_block h n b = (if av \<and> n \<le> sz then Some b else find_block h n (hd0 V 0))"
    using 2 by (subst find_block.simps) auto
  show ?case
  proof (cases "av \<and> n \<le> sz")
    case True
    then show ?thesis using f by (intro disjI2 exI [of _ "[]"]) auto
  next
    case False
    then have "find_block h n (hd0 ((b, sz, av) # V) 0) = find_block h n (hd0 V 0)" using f by auto
    moreover have "find_block h n (hd0 V 0) = Some 0
        \<or> (\<exists>X c z Y. find_block h n (hd0 V 0) = Some c \<and> V = X @ (c, z, True) # Y \<and> n \<le> z)"
      using 2 by simp
    ultimately show ?thesis by (metis append_Cons)
  qed
qed

lemma rep_nonzero: "heap_rep s V hi \<Longrightarrow> 0 \<notin> fst ` set V"
  using spaced_not_mem [of 1 V hi 0] by (simp add: heap_rep_def)

lemma set_flag_rep:
  fixes a :: bool
  assumes "heap_rep s (X @ (b, sz, av) # Y) hi"
  defines "s' \<equiv> set_hdr b (hdr s b\<lparr>available := a\<rparr>) s"
  shows "heap_rep s' (X @ (b, sz, a) # Y) hi" "same_rest s s'"
proof -
  note r = rep_split [OF assms(1)]
  show "heap_rep s' (X @ (b, sz, a) # Y) hi"
    by (rule rep_join) (use r in \<open>simp_all add: s'_def chain_upd\<close>)
qed (simp add: s'_def)

text \<open>A free block is not among the allocated ones.\<close>

lemma rep_fresh:
  assumes "heap_rep s (X @ (b, sz, av) # Y) hi"
  shows "b + 32 \<notin> fst ` (allocated X \<union> allocated Y)"
  using rep_split(9,10) [OF assms] by (auto simp: allocated_def image_iff)

lemma take_block_rep:
  assumes "heap_rep s (X @ (b, sz, True) # Y) hi" "n \<le> sz" "16 dvd unat n"
  obtains s' V' sz' where "take_block b n s = (b + 32, s')" "heap_rep s' V' hi" "n \<le> sz'" "same_rest s s'"
    "allocated V' = insert (b + 32, sz') (allocated (X @ (b, sz, True) # Y))"
proof -
  obtain z Y' where r: "heap_rep (split_block b n s) (X @ (b, z, True) # Y') hi" "n \<le> z" "allocated Y' = allocated Y"
    "same_rest s (split_block b n s)" using split_block_rep [OF assms] by blast
  note f = set_flag_rep [OF r(1), of False]
  show thesis
    by (rule that [OF _ f(1) r(2) same_rest_trans [OF r(4) f(2)]]) (use r(3) in \<open>auto simp: take_block_def Let_def\<close>)
qed

lemma allocated_split:
  assumes "(p, sz) \<in> allocated V"
  obtains X Y where "V = X @ (p - 32, sz, False) # Y"
  using assms by (auto simp: allocated_def dest!: split_list)

lemma free_rep:
  assumes "heap_rep s V hi" "(p, sz) \<in> allocated V"
  shows "\<exists>V'. heap_rep (free p s) V' hi \<and> allocated V' = allocated V - {(p, sz)} \<and> same_rest s (free p s)"
proof -
  obtain X Y where V: "V = X @ (p - 32, sz, False) # Y" using allocated_split assms(2) by blast
  define b where "b = p - 32"
  define s1 where "s1 = set_hdr b (hdr s b\<lparr>available := True\<rparr>) s"
  define s2 where "s2 = merge_next b s1"
  have rV: "heap_rep s (X @ (b, sz, False) # Y) hi" using assms(1) V b_def by simp
  have A: "allocated V - {(p, sz)} = allocated X \<union> allocated Y" using V rep_fresh [OF rV] by (force simp: b_def)
  note f = set_flag_rep [OF rV, of True, folded s1_def]
  note m = merge_next_rep [OF f(1), folded s2_def]
  obtain z Y' where g: "merged b sz True Y = (b, z, True) # Y'" "allocated Y' = allocated Y" using merged_facts by blast
  note r2 = rep_split [OF m(1) [unfolded g(1)]]
  have p: "p \<noteq> 0"
  proof
    assume "p = 0"
    then have "unat b + 32 = 2 ^ 64" by (simp add: b_def)
    then show False using rep_split(11,12) [OF rV] by simp
  qed
  have fr: "free p s = (if last0 X 0 \<noteq> 0 \<and> available (hdr s2 (last0 X 0)) then merge_next (last0 X 0) s2 else s2)"
    using p r2(2) by (simp add: free_def Let_def flip: s2_def s1_def b_def)
  show ?thesis
  proof (cases "last0 X 0 \<noteq> 0 \<and> available (hdr s2 (last0 X 0))")
    case False
    then show ?thesis using fr m g same_rest_trans [OF f(2)] A by (intro exI [of _ "X @ (b, z, True) # Y'"]) auto
  next
    case True
    then obtain W c sc ac where X: "X = W @ [(c, sc, ac)]" by (cases X rule: rev_cases) auto
    have r3: "heap_rep s2 (W @ (c, sc, ac) # (b, z, True) # Y') hi" using m(1) g(1) X by simp
    then have ac: "ac" using True rep_split(2) [OF r3] X by simp
    obtain z' Y'' where g': "merged c sc True ((b, z, True) # Y') = (c, z', True) # Y''" "allocated Y'' = allocated Y'"
      using merged_facts [of c sc True "(b, z, True) # Y'"] allocated_simps(2) by metis
    note m' = merge_next_rep [OF r3]
    show ?thesis
      using fr True X m' g' ac g(2) A same_rest_trans [OF same_rest_trans [OF f(2) m(2)] m'(2)]
      by (intro exI [of _ "W @ (c, z', True) # Y''"]) auto
  qed
qed

subsection \<open>Rounding\<close>

lemma unat_round:
  fixes w :: u64
  shows "unat (w AND NOT 15) = unat w div 16 * 16" "unat (w AND NOT 65535) = unat w div 65536 * 65536"
  using unat_and_not_mask [of w 4] unat_and_not_mask [of w 16] by (simp_all add: mask_eq_exp_minus_1)

lemma round_size:
  assumes "\<not> too_large n"
  defines "r \<equiv> ((if n = 0 then 1 else n) + 15) AND NOT 15"
  shows "16 dvd unat r" "n \<le> r" "unat r \<le> unat n + 16" "unat r \<le> 2 ^ 63 - 65584" "n \<noteq> 0 \<Longrightarrow> r = (n + 15) AND NOT 15"
proof -
  have n: "unat n \<le> 2 ^ 63 - 65584" using assms(1) by (simp add: too_large_def not_less word_le_nat_alt)
  define k where "k = (if n = 0 then 1 else unat n)"
  have k: "unat n \<le> k" "k \<le> unat n + 1" "k \<le> 2 ^ 63 - 65584" using n by (auto simp: k_def)
  have "unat (if n = 0 then 1 else n) = k" by (simp add: k_def)
  then have "unat ((if n = 0 then 1 else n) + 15) = k + 15" using k by (simp add: unat_word_ariths)
  then have r: "unat r = (k + 15) div 16 * 16" unfolding r_def unat_round by (simp only:)
  show "16 dvd unat r" using r by simp
  show "n \<le> r" unfolding word_le_nat_alt r using k(1) by linarith
  show "unat r \<le> unat n + 16" unfolding r using k(2) by linarith
  show "unat r \<le> 2 ^ 63 - 65584" unfolding r using k(3) by simp
  show "r = (n + 15) AND NOT 15" if "n \<noteq> 0" using that by (simp add: r_def)
qed

lemma round_extent:
  fixes r :: u64
  assumes "16 dvd unat r" "unat r \<le> 2 ^ 63 - 65584"
  defines "e \<equiv> (r + 32 + 65535) AND NOT 65535"
  shows "unat r + 32 \<le> unat e" "unat (e + 15) = unat e + 15" "unat e + 15 < 2 ^ 63" "unat (e - 32) = unat e - 32"
    "16 dvd unat (e - 32)" "r \<le> e - 32" "unat e \<le> unat r + 65567"
proof -
  have e: "unat e = (unat r + 65567) div 65536 * 65536"
    unfolding e_def unat_round using assms(2) by (simp add: unat_word_ariths)
  show le: "unat r + 32 \<le> unat e" unfolding e by linarith
  show lt: "unat e + 15 < 2 ^ 63" unfolding e using assms(2) by simp
  show "unat (e + 15) = unat e + 15" using lt by (simp add: unat_word_ariths)
  show u: "unat (e - 32) = unat e - 32" using le by (simp add: unat_sub word_le_nat_alt)
  have "16 dvd unat e" unfolding e by (rule dvd_mult) simp
  then show "16 dvd unat (e - 32)" unfolding u by (simp add: dvd_diff_nat)
  show "r \<le> e - 32" using le u by (simp add: word_le_nat_alt)
  show "unat e \<le> unat r + 65567" unfolding e by linarith
qed

lemma link_block_rep:
  assumes "heap_rep s V hi" "hi \<le> unat b" "16 dvd unat b" "16 dvd unat sz" "unat b + 32 + unat sz \<le> hi'" "hi' < 2 ^ 63"
  shows "heap_rep (link_block b sz s) (V @ [(b, sz, True)]) hi'" "same_rest s (link_block b sz s)"
proof -
  have V: "chain (hdr s) 0 V 0" "first_block s = hd0 V 0" "last_block s = last0 V 0" "spaced 1 V hi"
    using assms(1) by (auto simp: heap_rep_def)
  have bV: "b \<notin> fst ` set V" using spaced_not_mem [OF V(4)] assms(2) by auto
  have sp: "spaced 1 V (unat b)" using spaced_mono [OF V(4)] assms(2) by simp
  show "same_rest s (link_block b sz s)" by (simp add: link_block_def Let_def same_rest_def set_hdr_def)
  show "heap_rep (link_block b sz s) (V @ [(b, sz, True)]) hi'"
  proof (cases V rule: rev_cases)
    case Nil
    then show ?thesis using V assms sp by (simp add: heap_rep_def link_block_def Let_def)
  next
    case (snoc W e)
    obtain c sc ac where e: "e = (c, sc, ac)" by (cases e) auto
    have spc: "spaced 1 (W @ (c, sc, ac) # []) hi" using V(4) snoc e by simp
    have c: "c \<noteq> 0" "c \<noteq> b" "c \<notin> fst ` set W" "b \<notin> fst ` set W"
      using rep_nonzero [OF assms(1)] bV snoc e spaced_split(1) [OF spc] by auto
    have "chain (hdr s) 0 W c" "hdr s c = \<lparr>blk_size = sc, blk_next = 0, blk_prev = last0 W 0, available = ac\<rparr>"
      using V(1) snoc e by (auto simp: chain_append)
    then show ?thesis
      using V snoc e c assms(3-6) sp
      by (auto simp: heap_rep_def link_block_def Let_def chain_append chain_upd spaced_Cons_append)
  qed
qed

lemma rep_widen: "heap_rep s V hi \<Longrightarrow> hi \<le> hi' \<Longrightarrow> hi' < 2 ^ 63 \<Longrightarrow> heap_rep s V hi'"
  unfolding heap_rep_def using spaced_mono by blast

lemma rep_cong:
  "heap_rep s V hi \<Longrightarrow> hdr s' = hdr s \<Longrightarrow> first_block s' = first_block s \<Longrightarrow> last_block s' = last_block s \<Longrightarrow> heap_rep s' V hi"
  by (simp add: heap_rep_def)

subsection \<open>Allocated areas\<close>

lemma allocated_area:
  assumes "heap_rep s V hi" "(p, sz) \<in> allocated V"
  shows "p \<noteq> 0" "16 dvd unat p" "16 dvd unat sz" "unat p + unat sz \<le> hi" "hi < 2 ^ 63" "unat p = unat (p - 32) + 32"
proof -
  obtain X Y where V: "V = X @ (p - 32, sz, False) # Y" using allocated_split assms(2) by blast
  note r = rep_split [OF assms(1) [unfolded V]]
  show u: "unat p = unat (p - 32) + 32" using unat_sum(2) [OF r(11,12)] by simp
  show "p \<noteq> 0" using u by auto
  show "16 dvd unat p" using u r(5) by simp
  show "unat p + unat sz \<le> hi" using u r(11) by simp
  show "16 dvd unat sz" "hi < 2 ^ 63" using r(6,12) by auto
qed

lemma allocated_disjoint:
  assumes "heap_rep s V hi" "(p, sz) \<in> allocated V" "(q, z) \<in> allocated V" "p \<noteq> q"
  shows "unat p + unat sz \<le> unat q \<or> unat q + unat z \<le> unat p"
proof -
  obtain X Y where V: "V = X @ (p - 32, sz, False) # Y" using allocated_split assms(2) by blast
  note r = rep_split [OF assms(1) [unfolded V]]
  note u = allocated_area(6) [OF assms(1,2)] allocated_area(6) [OF assms(1,3)]
  have "(q - 32, z, False) \<in> set V" using assms(3) by (auto simp: allocated_def)
  then consider "(q - 32, z, False) \<in> set X" | "(q - 32, z, False) \<in> set Y" using V assms(4) by auto
  then show ?thesis
  proof cases
    case 1
    then show ?thesis using spaced_mem [OF r(4) 1] u by linarith
  next
    case 2
    then show ?thesis using spaced_mem [OF r(7) 2] u by linarith
  qed
qed

lemma disjoint_bytes:
  fixes p q :: u64
  assumes "unat p + a \<le> unat q \<or> unat q + c \<le> unat p" "unat p + a < 2 ^ 64" "unat q + c < 2 ^ 64" "i < a" "j < c"
  shows "p + word_of_nat i \<noteq> q + word_of_nat j"
proof
  assume "p + word_of_nat i = q + word_of_nat j"
  then have "unat (p + word_of_nat i) = unat (q + word_of_nat j)" by simp
  moreover have "unat (p + word_of_nat i) = unat p + i" "unat (q + word_of_nat j) = unat q + j"
    using assms(2-5) by (simp_all add: unat_word_ariths unat_of_nat)
  ultimately show False using assms by linarith
qed

lemma memcpy_out: "(\<And>i. i < n \<Longrightarrow> x \<noteq> d + word_of_nat i) \<Longrightarrow> memcpy d a n m x = m x"
  by (induction n) (auto simp: Let_def)

lemma memcpy_in:
  assumes "\<And>i j. i < n \<Longrightarrow> j < n \<Longrightarrow> d + word_of_nat i \<noteq> a + word_of_nat j" "n \<le> 2 ^ 63" "i < n"
  shows "memcpy d a n m (d + word_of_nat i) = m (a + word_of_nat i)"
  using assms
proof (induction n)
  case (Suc n)
  show ?case
  proof (cases "i = n")
    case True
    have "memcpy d a n m (a + word_of_nat n) = m (a + word_of_nat n)"
      by (rule memcpy_out) (metis Suc.prems(1) less_Suc_eq)
    then show ?thesis using True by (simp add: Let_def)
  next
    case False
    then have "(word_of_nat i :: u64) \<noteq> word_of_nat n" using Suc.prems(2,3) by (simp add: word_of_nat_eq_iff take_bit_nat_eq_self)
    then show ?thesis using Suc False by (simp add: Let_def)
  qed
qed simp

text \<open>The bytes of some areas are the same in two memories.\<close>

definition kept :: "(u64 \<times> u64) set \<Rightarrow> (u64 \<Rightarrow> u8) \<Rightarrow> (u64 \<Rightarrow> u8) \<Rightarrow> bool" where
  "kept A m m' \<longleftrightarrow> (\<forall>(q, z) \<in> A. \<forall>i < unat z. m' (q + word_of_nat i) = m (q + word_of_nat i))"

lemma kept_refl [simp]: "kept A m m"
  by (auto simp: kept_def)

text \<open>Copying one allocated area into another.\<close>

lemma copy_area:
  assumes "heap_rep s V hi" "(p, z) \<in> allocated V" "(q, w) \<in> allocated V" "p \<noteq> q" "k \<le> unat z" "k \<le> unat w"
  shows "i < k \<Longrightarrow> memcpy q p k m (q + word_of_nat i) = m (p + word_of_nat i)" "kept {(a, l) \<in> allocated V. a \<noteq> q} m (memcpy q p k m)"
proof -
  have dis: "a + word_of_nat i \<noteq> q + word_of_nat j" if a: "(a, l) \<in> allocated V" "a \<noteq> q" and ij: "i < unat l" "j < unat w" for a l i j
  proof (rule disjoint_bytes [OF allocated_disjoint [OF assms(1) a(1) assms(3) a(2)] _ _ ij])
    show "unat a + unat l < 2 ^ 64" "unat q + unat w < 2 ^ 64"
      using allocated_area(4,5) [OF assms(1) a(1)] allocated_area(4,5) [OF assms(1,3)] by simp_all
  qed
  have k63: "k \<le> 2 ^ 63" using assms(5) allocated_area(4,5) [OF assms(1,2)] by linarith
  show "memcpy q p k m (q + word_of_nat i) = m (p + word_of_nat i)" if "i < k"
  proof (rule memcpy_in [OF _ k63 that])
    show "q + word_of_nat i \<noteq> p + word_of_nat j" if "i < k" "j < k" for i j
      using dis [OF assms(2,4), of j i] that assms(5,6) by (metis order_less_le_trans)
  qed
  show "kept {(a, l) \<in> allocated V. a \<noteq> q} m (memcpy q p k m)"
    unfolding kept_def
  proof clarify
    fix a l i assume a: "(a, l) \<in> allocated V" "a \<noteq> q" and i: "i < unat l"
    show "memcpy q p k m (a + word_of_nat i) = m (a + word_of_nat i)"
      by (rule memcpy_out) (use dis [OF a i] assms(6) in auto)
  qed
qed

lemma memset_eq: "memset d c n m x = (if \<exists>i < n. x = d + word_of_nat i then c else m x)"
  by (induction n) (auto simp: less_Suc_eq)

text \<open>Clearing an allocated area.\<close>

lemma clear_area:
  assumes "heap_rep s V hi" "(q, w) \<in> allocated V" "k \<le> unat w"
  shows "kept {(a, l) \<in> allocated V. a \<noteq> q} m (memset q c k m)"
  unfolding kept_def
proof clarify
  fix a l i assume a: "(a, l) \<in> allocated V" "a \<noteq> q" and i: "i < unat l"
  have "unat a + unat l < 2 ^ 64" "unat q + unat w < 2 ^ 64"
    using allocated_area(4,5) [OF assms(1) a(1)] allocated_area(4,5) [OF assms(1,2)] by simp_all
  then have "a + word_of_nat i \<noteq> q + word_of_nat j" if "j < k" for j
    using disjoint_bytes [OF allocated_disjoint [OF assms(1) a(1) assms(2) a(2)]] i that assms(3) by simp
  then show "memset q c k m (a + word_of_nat i) = m (a + word_of_nat i)" by (auto simp: memset_eq)
qed

lemma calloc_guard: "n \<noteq> 0 \<and> (- 1) div n < c \<longleftrightarrow> 2 ^ 64 \<le> unat c * unat n" for c n :: u64
proof (cases "n = 0")
  case False
  then have "unat c \<le> (2 ^ 64 - 1) div unat n \<longleftrightarrow> unat c * unat n \<le> 2 ^ 64 - 1"
    by (intro less_eq_div_iff_mult_less_eq) (simp add: unat_gt_0)
  moreover have "unat ((- 1) div n) = (2 ^ 64 - 1) div unat n"
    by (simp add: unat_div_distrib unsigned_minus_1_eq_mask mask_eq_exp_minus_1)
  moreover have "2 ^ 64 \<le> unat c * unat n \<longleftrightarrow> \<not> unat c * unat n \<le> 2 ^ 64 - 1" by auto
  ultimately show ?thesis using False by (simp only: word_less_nat_alt not_le [symmetric] simp_thms)
qed simp

end
