(* ===== verification/Libc_Alloc_Props.thy ===== *)
theory Libc_Alloc_Props
  imports Libc_Alloc_List Loader
begin

text \<open>
  \<^verbatim>\<open>malloc\<close>, \<^verbatim>\<open>calloc\<close>, \<^verbatim>\<open>free\<close> and \<^verbatim>\<open>realloc\<close> keep the list of blocks and change the set of areas
  in use as their names say. The operating system is an interface with the laws of \<^verbatim>\<open>sbrk\<close>, which
  the system call of the emulator satisfies; the last part follows a program through any
  sequence of calls.
\<close>

subsection \<open>The heap over an operating system\<close>

text \<open>
  What \<^verbatim>\<open>malloc\<close> relies on: \<^verbatim>\<open>sbrk\<close> answers every request, a granted one with an area above all
  earlier areas, and it refuses only what goes over a limit.
\<close>

locale brk_os =
  fixes sbrk :: "'k brk" and top_of :: "'k \<Rightarrow> nat" and os_ok :: "'k \<Rightarrow> bool" and limit :: nat
  assumes answers: "os_ok k \<Longrightarrow> unat n < 2 ^ 63 \<Longrightarrow> \<exists>p k'. sbrk n k = Some (p, k')"
    and granted: "os_ok k \<Longrightarrow> unat n < 2 ^ 63 \<Longrightarrow> sbrk n k = Some (p, k') \<Longrightarrow> p \<noteq> 0 \<Longrightarrow> p \<noteq> - 1 \<Longrightarrow>
      top_of k \<le> unat p \<and> unat p + unat n \<le> top_of k'"
    and refused: "os_ok k \<Longrightarrow> unat n < 2 ^ 63 \<Longrightarrow> sbrk n k = Some (p, k') \<Longrightarrow> p = 0 \<or> p = - 1 \<Longrightarrow>
      top_of k \<le> top_of k' \<and> limit < top_of k + unat n"
    and keeps: "os_ok k \<Longrightarrow> unat n < 2 ^ 63 \<Longrightarrow> sbrk n k = Some (p, k') \<Longrightarrow> os_ok k'"
    and bounded: "os_ok k \<Longrightarrow> top_of k < 2 ^ 63"
begin

definition heap_ok :: "'k heap \<Rightarrow> blk list \<Rightarrow> bool" where
  "heap_ok s V \<longleftrightarrow> os_ok (h_os s) \<and> heap_rep s V (top_of (h_os s))"

lemma heap_ok_same:
  "heap_ok s V \<Longrightarrow> same_rest s s' \<Longrightarrow> heap_rep s' V' (top_of (h_os s)) \<Longrightarrow> heap_ok s' V'"
  by (simp add: heap_ok_def same_rest_def)

lemma extend_refused:
  assumes "heap_ok s V" "16 dvd unat r" "unat r \<le> 2 ^ 63 - 65584"
    and "sbrk (((r + 32 + 65535) AND NOT 65535) + 15) (h_os s) = Some (p, k')" "p = 0 \<or> p = - 1"
  shows "\<exists>s'. extend_heap sbrk r s = Some (0, s') \<and> heap_ok s' V \<and> h_errno s' = 12 \<and> heap_bytes s' = heap_bytes s
    \<and> limit < top_of (h_os s) + unat r + 65582"
proof -
  note e = round_extent [OF assms(2,3)]
  have ok: "os_ok (h_os s)" "heap_rep s V (top_of (h_os s))" using assms(1) by (auto simp: heap_ok_def)
  have n: "unat (((r + 32 + 65535) AND NOT 65535) + 15) < 2 ^ 63" using e(2,3) by (simp only:)
  note f = refused [OF ok(1) n assms(4,5)] and k = keeps [OF ok(1) n assms(4)]
  have "heap_rep (s\<lparr>h_os := k', h_errno := 12\<rparr>) V (top_of k')"
    by (rule rep_cong [OF rep_widen [OF ok(2)]]) (use f bounded [OF k] in simp_all)
  moreover have "limit < top_of (h_os s) + unat r + 65582" using f e(2,7) by linarith
  moreover have "extend_heap sbrk r s = Some (0, s\<lparr>h_os := k', h_errno := 12\<rparr>)"
    using assms(4,5) by (auto simp: extend_heap_def Let_def out_of_memory_def)
  ultimately show ?thesis using k by (auto simp: heap_ok_def)
qed

lemma extend_granted:
  assumes "heap_ok s V" "16 dvd unat r" "unat r \<le> 2 ^ 63 - 65584"
    and "sbrk (((r + 32 + 65535) AND NOT 65535) + 15) (h_os s) = Some (p, k')" "\<not> (p = 0 \<or> p = - 1)"
  shows "\<exists>b sz s'. extend_heap sbrk r s = Some (b, s') \<and> b \<noteq> 0 \<and> heap_ok s' (V @ [(b, sz, True)]) \<and> r \<le> sz
    \<and> heap_bytes s' = heap_bytes s \<and> h_errno s' = h_errno s"
proof -
  define e where "e = (r + 32 + 65535) AND NOT 65535"
  define b where "b = (p + 15) AND NOT 15"
  note re = round_extent [OF assms(2,3), folded e_def]
  have ok: "os_ok (h_os s)" "heap_rep s V (top_of (h_os s))" using assms(1) by (auto simp: heap_ok_def)
  have n: "unat (e + 15) < 2 ^ 63" using re(2,3) by (simp only:)
  note sb = assms(4) [folded e_def]
  have g: "top_of (h_os s) \<le> unat p" "unat p + unat (e + 15) \<le> top_of k'" using granted [OF ok(1) n sb] assms(5) by auto
  have k: "os_ok k'" "top_of k' < 2 ^ 63" using keeps [OF ok(1) n sb] bounded by auto
  have "unat (p + 15) = unat p + 15" using g(2) k(2) re(2) by (simp add: unat_word_ariths)
  then have b: "unat b = (unat p + 15) div 16 * 16" unfolding b_def unat_round by (simp only:)
  then have b': "unat p \<le> unat b" "unat b \<le> unat p + 15" by linarith+
  have d: "16 dvd unat b" using b by simp
  have b0: "b \<noteq> 0" using b'(1) assms(5) by (metis le_zero_eq unat_0 unat_eq_0)
  define s0 where "s0 = s\<lparr>h_os := k'\<rparr>"
  have r0: "heap_rep s0 V (top_of (h_os s))" by (rule rep_cong [OF ok(2)]) (simp_all add: s0_def)
  note r = link_block_rep [OF r0, of b "e - 32" "top_of k'"]
  have r: "heap_rep (link_block b (e - 32) s0) (V @ [(b, e - 32, True)]) (top_of k')" "same_rest s0 (link_block b (e - 32) s0)"
    using r g b' d re k(2) by simp_all
  have x: "extend_heap sbrk r s = Some (b, link_block b (e - 32) s0)"
    unfolding extend_heap_def Let_def sb [unfolded e_def] s0_def e_def b_def using assms(5) by auto
  show ?thesis using x r b0 k re(6)
    by (intro exI [of _ b] exI [of _ "e - 32"] exI [of _ "link_block b (e - 32) s0"]) (simp add: heap_ok_def same_rest_def s0_def)
qed

lemma malloc_take:
  assumes "heap_ok s (X @ (b, sz, True) # Y)" "r \<le> sz" "16 dvd unat r" "n \<le> r"
  shows "\<exists>s' V' sz'. take_block b r s = (b + 32, s') \<and> heap_ok s' V' \<and> n \<le> sz' \<and> b + 32 \<notin> fst ` allocated (X @ (b, sz, True) # Y)
    \<and> allocated V' = insert (b + 32, sz') (allocated (X @ (b, sz, True) # Y)) \<and> heap_bytes s' = heap_bytes s
    \<and> h_errno s' = h_errno s \<and> b + 32 \<noteq> 0"
proof -
  have r: "heap_rep s (X @ (b, sz, True) # Y) (top_of (h_os s))" using assms(1) by (simp add: heap_ok_def)
  obtain s' V' z where t: "take_block b r s = (b + 32, s')" "heap_rep s' V' (top_of (h_os s))" "r \<le> z" "same_rest s s'"
    "allocated V' = insert (b + 32, z) (allocated (X @ (b, sz, True) # Y))"
    using take_block_rep [OF r assms(2,3)] by blast
  have "unat (b + 32) = unat b + 32" using unat_sum(2) [OF rep_split(11,12) [OF r]] .
  then have "b + 32 \<noteq> 0" by (metis add_is_0 unat_0 zero_neq_numeral)
  then show ?thesis
    using t assms(4) rep_fresh [OF r] heap_ok_same [OF assms(1) t(4,2)] by (auto simp: same_rest_def intro: order_trans)
qed

lemma malloc_ok:
  assumes "heap_ok s V"
  shows "\<exists>p s' V'. malloc sbrk n s = Some (p, s') \<and> heap_ok s' V' \<and> heap_bytes s' = heap_bytes s
    \<and> (if p = 0 then allocated V' = allocated V \<and> h_errno s' = 12 \<and> (too_large n \<or> limit < top_of (h_os s) + unat n + 65598)
       else \<exists>sz. n \<le> sz \<and> p \<notin> fst ` allocated V \<and> allocated V' = insert (p, sz) (allocated V) \<and> h_errno s' = h_errno s)"
proof (cases "too_large n")
  case True
  then show ?thesis using assms
    by (auto simp: malloc_def out_of_memory_def heap_ok_def intro: rep_cong intro!: exI [of _ V])
next
  case big: False
  define r where "r = ((if n = 0 then 1 else n) + 15) AND NOT 15"
  note r = round_size [OF big, folded r_def]
  have rep: "heap_rep s V (top_of (h_os s))" and os: "os_ok (h_os s)" using assms by (simp_all add: heap_ok_def)
  have m: "malloc sbrk n s = (case find_block (hdr s) r (first_block s) of None \<Rightarrow> None
      | Some b \<Rightarrow> if b \<noteq> 0 then Some (take_block b r s)
          else (case extend_heap sbrk r s of None \<Rightarrow> None
                | Some (b, s) \<Rightarrow> if b = 0 then Some (0, s) else Some (take_block b r s)))"
    unfolding malloc_def Let_def r_def using big by (simp only: if_False)
  have "first_block s = hd0 V 0" "chain (hdr s) 0 V 0" using rep by (auto simp: heap_rep_def)
  then consider "find_block (hdr s) r (first_block s) = Some 0"
    | X b sz Y where "find_block (hdr s) r (first_block s) = Some b" "V = X @ (b, sz, True) # Y" "r \<le> sz"
    using find_block_spec [OF _ rep_nonzero [OF rep]] by metis
  then show ?thesis
  proof cases
    case 2
    have "b \<noteq> 0" using rep_nonzero [OF rep] 2(2) by auto
    with malloc_take [OF assms [unfolded 2(2)] 2(3) r(1,2)] show ?thesis unfolding m 2(1) by (fastforce simp: 2(2))
  next
    case 1
    note e = round_extent [OF r(1,4)]
    obtain p k' where sb: "sbrk (((r + 32 + 65535) AND NOT 65535) + 15) (h_os s) = Some (p, k')"
      using answers [OF os] e(2,3) by metis
    show ?thesis
    proof (cases "p = 0 \<or> p = - 1")
      case True
      show ?thesis using extend_refused [OF assms r(1,4) sb True] r(3) unfolding m 1 by fastforce
    next
      case False
      obtain b sz s1 where x: "extend_heap sbrk r s = Some (b, s1)" "b \<noteq> 0" "heap_ok s1 (V @ [(b, sz, True)])" "r \<le> sz"
        "heap_bytes s1 = heap_bytes s" "h_errno s1 = h_errno s" using extend_granted [OF assms r(1,4) sb False] by blast
      show ?thesis using malloc_take [OF x(3,4) r(1,2)] x(1,2,5,6) unfolding m 1 by fastforce
    qed
  qed
qed

lemma realloc_move:
  assumes "heap_ok s V" "(p, z) \<in> allocated V" "heap_ok s1 V1" "heap_bytes s1 = heap_bytes s" "q \<notin> fst ` allocated V"
    "allocated V1 = insert (q, w) (allocated V)" "k \<le> unat z" "k \<le> unat w"
  defines "s2 \<equiv> free p (s1\<lparr>heap_bytes := memcpy q p k (heap_bytes s1)\<rparr>)"
  shows "\<exists>V2. heap_ok s2 V2 \<and> allocated V2 = insert (q, w) (allocated V - {(p, z)})" "h_errno s2 = h_errno s1"
    "kept (allocated V) (heap_bytes s) (heap_bytes s2)" "i < k \<Longrightarrow> heap_bytes s2 (q + word_of_nat i) = heap_bytes s (p + word_of_nat i)"
proof -
  let ?s = "s1\<lparr>heap_bytes := memcpy q p k (heap_bytes s1)\<rparr>"
  have r1: "heap_rep s1 V1 (top_of (h_os s1))" "os_ok (h_os s1)" using assms(3) by (simp_all add: heap_ok_def)
  have pq: "p \<noteq> q" using assms(2,5) by (metis fst_conv image_eqI)
  have mem: "(p, z) \<in> allocated V1" "(q, w) \<in> allocated V1" using assms(2,6) by auto
  have "heap_rep ?s V1 (top_of (h_os s1))" by (rule rep_cong [OF r1(1)]) simp_all
  then obtain V2 where f: "heap_rep s2 V2 (top_of (h_os s1))" "allocated V2 = allocated V1 - {(p, z)}" "same_rest ?s s2"
    using free_rep [OF _ mem(1)] unfolding s2_def by blast
  have A: "allocated V1 - {(p, z)} = insert (q, w) (allocated V - {(p, z)})" using assms(6) pq by auto
  show "\<exists>V2. heap_ok s2 V2 \<and> allocated V2 = insert (q, w) (allocated V - {(p, z)})"
    using f r1(2) A by (auto simp: heap_ok_def same_rest_def)
  have b: "heap_bytes s2 = memcpy q p k (heap_bytes s)" "h_errno s2 = h_errno s1"
    using f(3) assms(4) by (simp_all add: same_rest_def)
  then show "h_errno s2 = h_errno s1" by simp
  note c = copy_area [OF r1(1) mem pq assms(7,8)]
  show "i < k \<Longrightarrow> heap_bytes s2 (q + word_of_nat i) = heap_bytes s (p + word_of_nat i)" unfolding b by (rule c(1))
  have "allocated V \<subseteq> {(a, l) \<in> allocated V1. a \<noteq> q}" using assms(5,6) by (auto simp: image_iff)
  then show "kept (allocated V) (heap_bytes s) (heap_bytes s2)" using c(2) unfolding b kept_def by blast
qed

text \<open>The block of \<open>p\<close> after it has taken in a free block behind it.\<close>

lemma realloc_grow:
  assumes "heap_ok s V" "(p, z) \<in> allocated V"
  defines "s1 \<equiv> merge_next (p - 32) s"
  obtains X Y z1 where "heap_ok s1 (X @ (p - 32, z1, False) # Y)" "z \<le> z1" "same_rest s s1" "blk_size (hdr s1 (p - 32)) = z1"
    "allocated X \<union> allocated Y = allocated V - {(p, z)}" "p \<notin> fst ` (allocated V - {(p, z)})" "blk_size (hdr s (p - 32)) = z"
proof -
  obtain X Y where V: "V = X @ (p - 32, z, False) # Y" using allocated_split assms(2) by blast
  define b where "b = p - 32"
  have r: "heap_rep s (X @ (b, z, False) # Y) (top_of (h_os s))" using assms(1) V by (simp add: heap_ok_def b_def)
  note sp = rep_split [OF r]
  note m = merge_next_rep [OF r]
  obtain z1 Y1 where g: "merged b z False Y = (b, z1, False) # Y1" "allocated Y1 = allocated Y" "z \<le> z1"
    using merged_facts [of b z False Y] sp(7,12) by blast
  have m1: "heap_rep s1 (X @ (b, z1, False) # Y1) (top_of (h_os s))" "same_rest s s1" using m g(1) by (simp_all add: s1_def b_def)
  have R: "allocated X \<union> allocated Y = allocated V - {(p, z)}" using V rep_fresh [OF r] by (force simp: b_def)
  show thesis
  proof (rule that [of X z1 Y1])
    show "heap_ok s1 (X @ (p - 32, z1, False) # Y1)" using heap_ok_same [OF assms(1) m1(2)] m1(1) by (simp add: b_def)
    show "blk_size (hdr s1 (p - 32)) = z1" using rep_split(2) [OF m1(1)] by (simp add: b_def)
    show "blk_size (hdr s (p - 32)) = z" using sp(2) by (simp add: b_def)
    show "p \<notin> fst ` (allocated V - {(p, z)})" using rep_fresh [OF r] R by (simp add: b_def)
  qed (use m1(2) g R in auto)
qed

lemma round_up_fits:
  assumes "16 dvd unat w" "n \<le> w" "\<not> too_large n" "n \<noteq> 0"
  shows "(n + 15) AND NOT 15 \<le> (w :: u64)"
proof -
  have "unat n \<le> 2 ^ 63 - 65584" using assms(3) by (simp add: too_large_def not_less word_le_nat_alt)
  then have "unat (n + 15) = unat n + 15" by (simp add: unat_word_ariths)
  then have "unat ((n + 15) AND NOT 15) = (unat n + 15) div 16 * 16" unfolding unat_round by (simp only:)
  moreover obtain j where j: "unat w = 16 * j" using assms(1) by blast
  moreover have "(unat n + 15) div 16 \<le> j"
    using div_le_mono [of "unat n + 15" "16 * j + 15" 16] j assms(2) by (simp add: word_le_nat_alt)
  ultimately show ?thesis unfolding word_le_nat_alt by simp
qed

lemma realloc_in_place:
  assumes "heap_ok s (X @ (p - 32, z, False) # Y)" "(n + 15) AND NOT 15 \<le> z" "\<not> too_large n" "n \<noteq> 0"
  shows "\<exists>V' w. heap_ok (split_block (p - 32) ((n + 15) AND NOT 15) s) V' \<and> n \<le> w
    \<and> allocated V' = insert (p, w) (allocated X \<union> allocated Y) \<and> same_rest s (split_block (p - 32) ((n + 15) AND NOT 15) s)"
proof -
  define r where "r = (n + 15) AND NOT 15"
  have r: "16 dvd unat r" "n \<le> r" using round_size(1,2,5) [OF assms(3)] assms(4) unfolding r_def by simp_all
  have rep: "heap_rep s (X @ (p - 32, z, False) # Y) (top_of (h_os s))" using assms(1) by (simp add: heap_ok_def)
  obtain w Y' where b: "heap_rep (split_block (p - 32) r s) (X @ (p - 32, w, False) # Y') (top_of (h_os s))" "r \<le> w"
    "allocated Y' = allocated Y" "same_rest s (split_block (p - 32) r s)"
    using split_block_rep [OF rep assms(2) [folded r_def] r(1)] by blast
  show ?thesis unfolding r_def [symmetric]
    using heap_ok_same [OF assms(1) b(4,1)] b r(2) by (intro exI [of _ "X @ (p - 32, w, False) # Y'"] exI [of _ w]) auto
qed

text \<open>The call of \<^verbatim>\<open>malloc\<close> in \<^verbatim>\<open>realloc\<close> with the copy and the release that follow.\<close>

lemma realloc_replace:
  assumes "heap_ok s V" "allocated V = insert (p, z1) R" "p \<notin> fst ` R" "z \<le> z1" "\<not> (n + 15) AND NOT 15 \<le> z1" "\<not> too_large n" "n \<noteq> 0"
  shows "\<exists>q s' V'. (case malloc sbrk n s of None \<Rightarrow> None | Some (q, s) \<Rightarrow> if q = 0 then Some (0, s)
        else Some (q, free p (s\<lparr>heap_bytes := memcpy q p (unat z) (heap_bytes s)\<rparr>))) = Some (q, s')
    \<and> heap_ok s' V' \<and> kept R (heap_bytes s) (heap_bytes s')
    \<and> (if q = 0 then h_errno s' = 12 \<and> heap_bytes s' = heap_bytes s \<and> limit < top_of (h_os s) + unat n + 65598
         \<and> allocated V' = insert (p, z1) R
       else \<exists>w \<ge> n. q \<notin> fst ` R \<and> allocated V' = insert (q, w) R
         \<and> (\<forall>i < unat z. heap_bytes s' (q + word_of_nat i) = heap_bytes s (p + word_of_nat i)))"
proof -
  obtain q s2 V2 where m: "malloc sbrk n s = Some (q, s2)" "heap_ok s2 V2" "heap_bytes s2 = heap_bytes s"
    and c: "if q = 0 then allocated V2 = allocated V \<and> h_errno s2 = 12 \<and> (too_large n \<or> limit < top_of (h_os s) + unat n + 65598)
       else \<exists>sz. n \<le> sz \<and> q \<notin> fst ` allocated V \<and> allocated V2 = insert (q, sz) (allocated V) \<and> h_errno s2 = h_errno s"
    using malloc_ok [OF assms(1), of n] by blast
  show ?thesis
  proof (cases "q = 0")
    case True
    then show ?thesis using m c assms(2,6) by (intro exI [of _ 0] exI [of _ s2] exI [of _ V2]) simp
  next
    case False
    then obtain w where w: "n \<le> w" "q \<notin> fst ` allocated V" "allocated V2 = insert (q, w) (allocated V)" using c by auto
    have "(q, w) \<in> allocated V2" using w(3) by simp
    then have "16 dvd unat w" using m(2) allocated_area(3) unfolding heap_ok_def by blast
    then have fit: "unat z \<le> unat w"
      using round_up_fits [OF _ w(1) assms(6,7)] assms(4,5) by (meson linear order_trans word_le_nat_alt)
    have pz: "(p, z1) \<in> allocated V" "unat z \<le> unat z1" using assms(2,4) by (simp_all add: word_le_nat_alt)
    note mv = realloc_move [OF assms(1) pz(1) m(2,3) w(2,3) pz(2) fit]
    have R: "allocated V - {(p, z1)} = R" using assms(2,3) by force
    obtain V3 where V3: "heap_ok (free p (s2\<lparr>heap_bytes := memcpy q p (unat z) (heap_bytes s2)\<rparr>)) V3"
      "allocated V3 = insert (q, w) R" using mv(1) R by auto
    have "kept R (heap_bytes s) (heap_bytes (free p (s2\<lparr>heap_bytes := memcpy q p (unat z) (heap_bytes s2)\<rparr>)))"
      using mv(3) assms(2) unfolding kept_def by blast
    then show ?thesis using False V3 w mv(4) m(1) assms(2)
      by (intro exI [of _ q] exI [of _ "free p (s2\<lparr>heap_bytes := memcpy q p (unat z) (heap_bytes s2)\<rparr>)"] exI [of _ V3]) auto
  qed
qed

lemma realloc_ok:
  assumes "heap_ok s V" "(p, z) \<in> allocated V" "n \<noteq> 0"
  defines "R \<equiv> allocated V - {(p, z)}"
  shows "\<exists>q s' V'. realloc sbrk p n s = Some (q, s') \<and> heap_ok s' V' \<and> kept R (heap_bytes s) (heap_bytes s')
    \<and> (if q = 0 then h_errno s' = 12 \<and> heap_bytes s' = heap_bytes s \<and> (too_large n \<or> limit < top_of (h_os s) + unat n + 65598)
         \<and> (\<exists>w \<ge> z. allocated V' = insert (p, w) R)
       else \<exists>w \<ge> n. q \<notin> fst ` R \<and> allocated V' = insert (q, w) R
         \<and> (\<forall>i < min (unat n) (unat z). heap_bytes s' (q + word_of_nat i) = heap_bytes s (p + word_of_nat i)))"
    (is "\<exists>q s' V'. _ = _ \<and> ?P q s' V'")
proof -
  have rep: "heap_rep s V (top_of (h_os s))" using assms(1) by (simp add: heap_ok_def)
  have p: "p \<noteq> 0" by (rule allocated_area(1) [OF rep assms(2)])
  show ?thesis
  proof (cases "too_large n")
    case True
    have "heap_ok (s\<lparr>h_errno := 12\<rparr>) V" using assms(1) by (auto simp: heap_ok_def intro: rep_cong)
    moreover have "allocated V = insert (p, z) R" using assms(2) by (auto simp: R_def)
    ultimately show ?thesis using True p assms(3)
      by (intro exI [of _ 0] exI [of _ "s\<lparr>h_errno := 12\<rparr>"] exI [of _ V]) (auto simp: realloc_def out_of_memory_def)
  next
    case big: False
    define s1 where "s1 = merge_next (p - 32) s"
    obtain X Y z1 where g: "heap_ok s1 (X @ (p - 32, z1, False) # Y)" "z \<le> z1" "same_rest s s1" "blk_size (hdr s1 (p - 32)) = z1"
      "allocated X \<union> allocated Y = R" "p \<notin> fst ` R" "blk_size (hdr s (p - 32)) = z"
      using realloc_grow [OF assms(1,2)] unfolding s1_def R_def by metis
    define r where "r = (n + 15) AND NOT 15"
    have m: "realloc sbrk p n s = (if r \<le> z1 then Some (p, split_block (p - 32) r s1)
        else case malloc sbrk n s1 of None \<Rightarrow> None | Some (q, s) \<Rightarrow> if q = 0 then Some (0, s)
          else Some (q, free p (s\<lparr>heap_bytes := memcpy q p (unat z) (heap_bytes s)\<rparr>)))"
      unfolding realloc_def Let_def r_def using big p assms(3) g(4,7) by (simp only: s1_def if_False)
    show ?thesis
    proof (cases "r \<le> z1")
      case True
      obtain V' w where i: "heap_ok (split_block (p - 32) r s1) V'" "n \<le> w" "allocated V' = insert (p, w) R"
        "same_rest s1 (split_block (p - 32) r s1)"
        using realloc_in_place [OF g(1) True [unfolded r_def] big assms(3)] g(5) unfolding r_def by metis
      show ?thesis using i True p g(3,6)
        by (intro exI [of _ p] exI [of _ "split_block (p - 32) r s1"] exI [of _ V']) (auto simp: m same_rest_def)
    next
      case False
      have A: "allocated (X @ (p - 32, z1, False) # Y) = insert (p, z1) R" using g(5) by auto
      have e: "heap_bytes s1 = heap_bytes s" "h_os s1 = h_os s" using g(3) by (simp_all add: same_rest_def)
      obtain q s' V' where q: "realloc sbrk p n s = Some (q, s')" "heap_ok s' V'" "kept R (heap_bytes s) (heap_bytes s')"
        and c: "if q = 0 then h_errno s' = 12 \<and> heap_bytes s' = heap_bytes s \<and> limit < top_of (h_os s) + unat n + 65598
            \<and> allocated V' = insert (p, z1) R
          else \<exists>w \<ge> n. q \<notin> fst ` R \<and> allocated V' = insert (q, w) R
            \<and> (\<forall>i < unat z. heap_bytes s' (q + word_of_nat i) = heap_bytes s (p + word_of_nat i))"
        using realloc_replace [OF g(1) A g(6,2) False [unfolded r_def] big assms(3)] False unfolding m e by auto
      then show ?thesis using g(2) by (intro exI [of _ q] exI [of _ s'] exI [of _ V']) (auto split: if_splits)
    qed
  qed
qed

lemma calloc_ok:
  assumes "heap_ok s V"
  shows "\<exists>p s' V'. calloc sbrk c n s = Some (p, s') \<and> heap_ok s' V' \<and> kept (allocated V) (heap_bytes s) (heap_bytes s')
    \<and> (if p = 0 then allocated V' = allocated V \<and> h_errno s' = 12
         \<and> (2 ^ 64 \<le> unat c * unat n \<or> too_large (c * n) \<or> limit < top_of (h_os s) + unat c * unat n + 65598)
       else \<exists>sz. unat c * unat n \<le> unat sz \<and> p \<notin> fst ` allocated V \<and> allocated V' = insert (p, sz) (allocated V)
         \<and> (\<forall>i < unat c * unat n. heap_bytes s' (p + word_of_nat i) = 0))"
proof (cases "2 ^ 64 \<le> unat c * unat n")
  case True
  then have "calloc sbrk c n s = Some (0, s\<lparr>h_errno := 12\<rparr>)" unfolding calloc_def out_of_memory_def using calloc_guard by auto
  moreover have "heap_ok (s\<lparr>h_errno := 12\<rparr>) V" using assms by (auto simp: heap_ok_def intro: rep_cong)
  ultimately show ?thesis using True by (intro exI [of _ 0] exI [of _ "s\<lparr>h_errno := 12\<rparr>"] exI [of _ V]) auto
next
  case False
  then have u: "unat (c * n) = unat c * unat n" by (simp add: unat_word_ariths)
  have cal: "calloc sbrk c n s = map_option (\<lambda>(p, s). (p, if p \<noteq> 0
      then s\<lparr>heap_bytes := memset p 0 (unat (c * n)) (heap_bytes s)\<rparr> else s)) (malloc sbrk (c * n) s)"
    unfolding calloc_def Let_def using False calloc_guard [of n c] by auto
  obtain p s' V' where m: "malloc sbrk (c * n) s = Some (p, s')" "heap_ok s' V'" "heap_bytes s' = heap_bytes s"
    and r: "if p = 0 then allocated V' = allocated V \<and> h_errno s' = 12
         \<and> (too_large (c * n) \<or> limit < top_of (h_os s) + unat (c * n) + 65598)
       else \<exists>sz. c * n \<le> sz \<and> p \<notin> fst ` allocated V \<and> allocated V' = insert (p, sz) (allocated V) \<and> h_errno s' = h_errno s"
    using malloc_ok [OF assms, of "c * n"] by blast
  show ?thesis
  proof (cases "p = 0")
    case True
    then show ?thesis using m r cal u by (intro exI [of _ 0] exI [of _ s'] exI [of _ V']) auto
  next
    case False
    then obtain sz where sz: "c * n \<le> sz" "p \<notin> fst ` allocated V" "allocated V' = insert (p, sz) (allocated V)" using r by auto
    let ?s = "s'\<lparr>heap_bytes := memset p 0 (unat (c * n)) (heap_bytes s')\<rparr>"
    have rep: "heap_rep s' V' (top_of (h_os s'))" using m(2) by (simp add: heap_ok_def)
    have "heap_ok ?s V'" using m(2) by (auto simp: heap_ok_def intro: rep_cong)
    moreover have "kept (allocated V) (heap_bytes s) (heap_bytes ?s)"
    proof -
      have "kept {(a, l) \<in> allocated V'. a \<noteq> p} (heap_bytes s') (heap_bytes ?s)"
        using clear_area [OF rep, of p sz "unat (c * n)"] sz(1,3) by (simp add: word_le_nat_alt)
      moreover have "allocated V \<subseteq> {(a, l) \<in> allocated V'. a \<noteq> p}" using sz by (auto simp: image_iff)
      ultimately show ?thesis unfolding m(3) kept_def by blast
    qed
    moreover have "\<forall>i < unat c * unat n. heap_bytes ?s (p + word_of_nat i) = 0" using u by (auto simp: memset_eq)
    ultimately show ?thesis using False m(1) cal sz u
      by (intro exI [of _ p] exI [of _ ?s] exI [of _ V']) (auto simp: word_le_nat_alt)
  qed
qed

end

subsection \<open>The heap under the emulator\<close>

text \<open>A heap that represents \<open>V\<close> below the program break of the emulator.\<close>

definition emu_heap :: "'h cpu heap \<Rightarrow> blk list \<Rightarrow> bool" where
  "emu_heap s V \<longleftrightarrow> (g_brk (h_os s) \<noteq> 0 \<and> g_brk (h_os s) \<le> 0x10000000) \<and> heap_rep s V (unat (g_brk (h_os s)))"

lemma sint_small: "unat w < 2 ^ 63 \<Longrightarrow> sint w = int (unat w)" for w :: u64
  using order_trans [OF _ uint_ge_0 [of w], of "- (2 ^ 63)"]
  by (simp add: sint_uint signed_take_bit_int_eq_self_iff flip: of_nat_less_iff [where 'a = int])

lemma onyx_sbrk_spec:
  assumes "g_brk s \<le> 0x10000000" "unat n < 2 ^ 63"
  shows "\<exists>s'. if unat (g_brk s) + unat n \<le> 0x10000000
     then onyx_sbrk h n s = Some (g_brk s, s') \<and> unat (g_brk s') = unat (g_brk s) + unat n
     else onyx_sbrk h n s = Some (- 1, s') \<and> g_brk s' = g_brk s"
proof -
  define s0 where "s0 = set_reg 17 13 (set_reg 10 n s)"
  have s0: "g_brk s0 = g_brk s" "g_pages s0 = g_pages s" by (simp_all add: s0_def set_reg_def)
  have old: "unat (g_brk s) \<le> 0x10000000" using assms(1) by (simp add: word_le_nat_alt)
  have n: "n \<noteq> 0x8000000000000000" "0 \<le> sint n" using assms(2) sint_small [OF assms(2)] by auto
  have u: "unat (g_brk s + n) = unat (g_brk s) + unat n" using old assms(2) by (simp add: unat_word_ariths)
  have "do_syscall h s0 = sys_sbrk s0 n" by (simp add: do_syscall_def Let_def s0_def set_reg_def)
  then have c: "onyx_syscall1 h 13 n s = bindE (sys_sbrk s0 n) (\<lambda>(r, s). Inr (r, set_reg 10 r s))"
    by (simp add: onyx_syscall1_def s0_def)
  show ?thesis
  proof (cases "unat (g_brk s) + unat n \<le> 0x10000000")
    case True
    then obtain m' where "map_range (g_pages s) (g_brk s) (g_brk s + n) = Inr m'" using map_range_total u by fastforce
    moreover have "\<not> 0x10000000 < g_brk s + n" using True u by (simp add: word_less_nat_alt)
    moreover have "0 \<le> sint (g_brk s)" using sint_small [of "g_brk s"] old by simp
    ultimately show ?thesis using True n u by (simp add: onyx_sbrk_def c sys_sbrk_def Let_def s0 set_reg_def)
  next
    case False
    then have "0x10000000 < g_brk s + n" using u by (simp add: word_less_nat_alt)
    then show ?thesis using False n by (simp add: onyx_sbrk_def c sys_sbrk_def Let_def s0 set_reg_def)
  qed
qed

interpretation emu: brk_os "onyx_sbrk h" "\<lambda>s. unat (g_brk s)" "\<lambda>s. g_brk s \<noteq> 0 \<and> g_brk s \<le> 0x10000000" "0x10000000" for h
proof
  fix k :: "'a cpu" and n p :: u64 and k' :: "'a cpu"
  assume ok: "g_brk k \<noteq> 0 \<and> g_brk k \<le> 0x10000000"
  then show "unat (g_brk k) < 2 ^ 63" by (simp add: word_le_nat_alt)
  assume n: "unat n < 2 ^ 63"
  obtain s' where s': "if unat (g_brk k) + unat n \<le> 0x10000000
     then onyx_sbrk h n k = Some (g_brk k, s') \<and> unat (g_brk s') = unat (g_brk k) + unat n
     else onyx_sbrk h n k = Some (- 1, s') \<and> g_brk s' = g_brk k" using onyx_sbrk_spec ok n by blast
  then show "\<exists>p k'. onyx_sbrk h n k = Some (p, k')" by (auto split: if_splits)
  assume r: "onyx_sbrk h n k = Some (p, k')"
  have "\<not> (- 1 :: u64) \<le> 0x10000000" by (simp add: word_le_def unsigned_minus_1_eq_mask mask_eq_exp_minus_1)
  then have brk: "unat (g_brk k) \<noteq> 0" "unat (g_brk k) \<le> 0x10000000" "g_brk k \<noteq> - 1"
    using ok by (auto simp: word_le_nat_alt unat_eq_0)
  show "g_brk k' \<noteq> 0 \<and> g_brk k' \<le> 0x10000000"
    using s' r brk by (auto simp: word_le_nat_alt unat_eq_0 split: if_splits)
  show "unat (g_brk k) \<le> unat p \<and> unat p + unat n \<le> unat (g_brk k')" if "p \<noteq> 0" "p \<noteq> - 1"
    using s' r that by (auto split: if_splits)
  show "unat (g_brk k) \<le> unat (g_brk k') \<and> 0x10000000 < unat (g_brk k) + unat n" if "p = 0 \<or> p = - 1"
    using s' r that ok brk by (auto split: if_splits)
qed

lemma emu_heap_ok: "emu.heap_ok s V \<longleftrightarrow> emu_heap s V"
  by (simp add: emu.heap_ok_def emu_heap_def)

text \<open>
  C16. \<^verbatim>\<open>malloc\<close> on a heap whose block list is \<open>V\<close> always returns. A pointer it returns is aligned to
  16 bytes and is the only change to the set of allocated areas: an area of at least the requested
  size that overlaps no area in use. Null is returned, with \<^verbatim>\<open>errno\<close> set to ENOMEM, only for a
  request over the size limit or past the memory limit of the emulator. The block list stays
  well linked, aligned and below the program break, and no byte of the program's data changes.
\<close>

theorem malloc_correct:
  assumes "emu_heap s V"
  shows "\<exists>p s' V'. malloc (onyx_sbrk h) n s = Some (p, s') \<and> emu_heap s' V' \<and> heap_bytes s' = heap_bytes s
    \<and> (if p = 0
       then allocated V' = allocated V \<and> h_errno s' = 12
         \<and> (too_large n \<or> 0x10000000 < unat (g_brk (h_os s)) + unat n + 65598)
       else \<exists>sz \<ge> n. allocated V' = insert (p, sz) (allocated V) \<and> 16 dvd unat p \<and> h_errno s' = h_errno s
         \<and> (\<forall>(q, z) \<in> allocated V. unat p + unat sz \<le> unat q \<or> unat q + unat z \<le> unat p))"
proof -
  obtain p s' V' where m: "malloc (onyx_sbrk h) n s = Some (p, s')" "emu_heap s' V'" "heap_bytes s' = heap_bytes s"
    and c: "if p = 0 then allocated V' = allocated V \<and> h_errno s' = 12
         \<and> (too_large n \<or> 0x10000000 < unat (g_brk (h_os s)) + unat n + 65598)
       else \<exists>sz. n \<le> sz \<and> p \<notin> fst ` allocated V \<and> allocated V' = insert (p, sz) (allocated V) \<and> h_errno s' = h_errno s"
    using emu.malloc_ok [unfolded emu_heap_ok, OF assms, of h n] by blast
  show ?thesis
  proof (cases "p = 0")
    case False
    then obtain sz where sz: "n \<le> sz" "p \<notin> fst ` allocated V" "allocated V' = insert (p, sz) (allocated V)" "h_errno s' = h_errno s"
      using c by auto
    have rep: "heap_rep s' V' (unat (g_brk (h_os s')))" using m(2) by (simp add: emu_heap_def)
    have mem: "(p, sz) \<in> allocated V'" using sz(3) by simp
    have "\<forall>(q, z) \<in> allocated V. unat p + unat sz \<le> unat q \<or> unat q + unat z \<le> unat p"
      using allocated_disjoint [OF rep mem] sz(2,3) by (force simp: image_iff)
    then show ?thesis using False m sz allocated_area(2) [OF rep mem] by auto
  qed (use m c in auto)
qed

text \<open>The heap before the first call, and a heap with one block of 32 bytes in use.\<close>

definition fresh_heap :: "unit cpu heap" where
  "fresh_heap = \<lparr>hdr = (\<lambda>_. \<lparr>blk_size = 0, blk_next = 0, blk_prev = 0, available = False\<rparr>), first_block = 0, last_block = 0,
     heap_bytes = (\<lambda>_. 0), h_errno = 0, h_os = boot_cpu Map.empty 0\<rparr>"

definition used_heap :: "unit cpu heap" where
  "used_heap = fresh_heap\<lparr>hdr := (\<lambda>_. \<lparr>blk_size = 32, blk_next = 0, blk_prev = 0, available = False\<rparr>),
     first_block := 0x1000000, last_block := 0x1000000, heap_bytes := (\<lambda>a. ucast a),
     h_os := (boot_cpu Map.empty 0)\<lparr>g_brk := 0x1001000\<rparr>\<rparr>"

lemma fresh_heap_ok: "emu_heap fresh_heap []"
  by (simp add: emu_heap_def heap_rep_def fresh_heap_def boot_cpu_def)

lemma used_heap_ok: "emu_heap used_heap [(0x1000000, 32, False)]"
  by (simp add: emu_heap_def heap_rep_def used_heap_def fresh_heap_def boot_cpu_def)

theorem malloc_correct_witness:
  "\<forall>h. \<exists>p s' V'. malloc (onyx_sbrk h) 100 fresh_heap = Some (p, s') \<and> emu_heap s' V' \<and> p \<noteq> 0 \<and> 16 dvd unat p
     \<and> (\<exists>sz \<ge> 100. allocated V' = {(p, sz)})"
proof
  fix h
  show "\<exists>p s' V'. malloc (onyx_sbrk h) 100 fresh_heap = Some (p, s') \<and> emu_heap s' V' \<and> p \<noteq> 0 \<and> 16 dvd unat p
     \<and> (\<exists>sz \<ge> 100. allocated V' = {(p, sz)})"
    using malloc_correct [OF fresh_heap_ok, of h 100]
    by (auto simp: too_large_def fresh_heap_def boot_cpu_def split: if_splits)
qed

text \<open>
  \<^verbatim>\<open>free\<close> of a pointer in use takes exactly its area out of the set of allocated areas: the block
  list stays well linked whatever neighbours it is merged with, and no byte of data changes.
  \<^verbatim>\<open>free\<close> of null does nothing.
\<close>

theorem free_correct:
  assumes "emu_heap s V" "(p, sz) \<in> allocated V"
  shows "(\<exists>V'. emu_heap (free p s) V' \<and> allocated V' = allocated V - {(p, sz)}) \<and> heap_bytes (free p s) = heap_bytes s \<and> free 0 s = s"
proof -
  have "heap_rep s V (unat (g_brk (h_os s)))" using assms(1) by (simp add: emu_heap_def)
  moreover have "free 0 s = s" by (simp add: free_def)
  ultimately show ?thesis using free_rep [OF _ assms(2)] assms(1) by (fastforce simp: emu_heap_def same_rest_def)
qed

theorem free_correct_witness: "\<exists>V'. emu_heap (free 0x1000020 used_heap) V' \<and> allocated V' = {}"
  using free_correct [OF used_heap_ok, of "0x1000020" 32] by simp

text \<open>
  C17. \<^verbatim>\<open>realloc\<close> of a pointer in use to a size that is not zero always returns. A pointer it returns
  has an area of at least the new size that replaces the old one, does not overlap any other area,
  and holds the first bytes of the old contents, up to the smaller of the two sizes; the data of all
  other areas is kept. When it returns null the old area is still there, with its data.
\<close>

theorem realloc_correct:
  assumes "emu_heap s V" "(p, z) \<in> allocated V" "n \<noteq> 0"
  shows "\<exists>q s' V'. realloc (onyx_sbrk h) p n s = Some (q, s') \<and> emu_heap s' V'
    \<and> kept (allocated V - {(p, z)}) (heap_bytes s) (heap_bytes s')
    \<and> (if q = 0
       then h_errno s' = 12 \<and> heap_bytes s' = heap_bytes s \<and> (\<exists>w \<ge> z. allocated V' = insert (p, w) (allocated V - {(p, z)}))
         \<and> (too_large n \<or> 0x10000000 < unat (g_brk (h_os s)) + unat n + 65598)
       else \<exists>w \<ge> n. q \<notin> fst ` (allocated V - {(p, z)}) \<and> allocated V' = insert (q, w) (allocated V - {(p, z)})
         \<and> (\<forall>i < min (unat n) (unat z). heap_bytes s' (q + word_of_nat i) = heap_bytes s (p + word_of_nat i)))"
  using emu.realloc_ok [unfolded emu_heap_ok, OF assms, of h] by (elim exE conjE) (intro exI conjI; (assumption | (auto split: if_splits; fail)))

theorem realloc_correct_witness:
  "\<forall>h. \<exists>q s' V'. realloc (onyx_sbrk h) 0x1000020 100 used_heap = Some (q, s') \<and> emu_heap s' V' \<and> q \<noteq> 0
     \<and> (\<forall>i < 32. heap_bytes s' (q + word_of_nat i) = heap_bytes used_heap (0x1000020 + word_of_nat i))"
proof
  fix h
  show "\<exists>q s' V'. realloc (onyx_sbrk h) 0x1000020 100 used_heap = Some (q, s') \<and> emu_heap s' V' \<and> q \<noteq> 0
     \<and> (\<forall>i < 32. heap_bytes s' (q + word_of_nat i) = heap_bytes used_heap (0x1000020 + word_of_nat i))"
    using realloc_correct [OF used_heap_ok, of "0x1000020" 32 100 h]
    by (auto simp: too_large_def used_heap_def fresh_heap_def boot_cpu_def split: if_splits)
qed

text \<open>
  \<^verbatim>\<open>calloc\<close> always returns. A product of count and size that does not fit 64 bits gives null; a pointer
  it returns has an area of at least the product, all of whose requested bytes are zero, and no byte
  of the other areas in use changes.
\<close>

theorem calloc_correct:
  assumes "emu_heap s V"
  shows "\<exists>p s' V'. calloc (onyx_sbrk h) c n s = Some (p, s') \<and> emu_heap s' V' \<and> kept (allocated V) (heap_bytes s) (heap_bytes s')
    \<and> (if p = 0 then allocated V' = allocated V \<and> h_errno s' = 12
         \<and> (2 ^ 64 \<le> unat c * unat n \<or> too_large (c * n) \<or> 0x10000000 < unat (g_brk (h_os s)) + unat c * unat n + 65598)
       else \<exists>sz. unat c * unat n \<le> unat sz \<and> p \<notin> fst ` allocated V \<and> allocated V' = insert (p, sz) (allocated V)
         \<and> (\<forall>i < unat c * unat n. heap_bytes s' (p + word_of_nat i) = 0))"
  by (rule emu.calloc_ok [unfolded emu_heap_ok, OF assms])

theorem calloc_correct_witness:
  "\<forall>h. \<exists>p s' V'. calloc (onyx_sbrk h) 3 7 used_heap = Some (p, s') \<and> emu_heap s' V' \<and> p \<noteq> 0
     \<and> (\<forall>i < 21. heap_bytes s' (p + word_of_nat i) = 0)"
proof
  fix h
  show "\<exists>p s' V'. calloc (onyx_sbrk h) 3 7 used_heap = Some (p, s') \<and> emu_heap s' V' \<and> p \<noteq> 0
     \<and> (\<forall>i < 21. heap_bytes s' (p + word_of_nat i) = 0)"
    using calloc_correct [OF used_heap_ok, of h 3 7]
    by (auto simp: too_large_def used_heap_def fresh_heap_def boot_cpu_def split: if_splits)
qed

subsection \<open>Sequences of calls\<close>

text \<open>
  A program that uses the heap, with the pointers it holds and the sizes it asked for: it calls the
  four functions in any order, frees and reallocates only what it holds, and stores into memory.
\<close>

inductive heap_run :: "'h host_ops \<Rightarrow> 'h cpu heap \<Rightarrow> (u64 \<rightharpoonup> nat) \<Rightarrow> bool" for h where
  run_start: "first_block s = 0 \<Longrightarrow> last_block s = 0 \<Longrightarrow> g_brk (h_os s) \<noteq> 0 \<Longrightarrow> g_brk (h_os s) \<le> 0x10000000 \<Longrightarrow>
    heap_run h s Map.empty"
| run_malloc: "heap_run h s L \<Longrightarrow> malloc (onyx_sbrk h) n s = Some (p, s') \<Longrightarrow>
    heap_run h s' (if p = 0 then L else L(p \<mapsto> unat n))"
| run_calloc: "heap_run h s L \<Longrightarrow> calloc (onyx_sbrk h) c n s = Some (p, s') \<Longrightarrow>
    heap_run h s' (if p = 0 then L else L(p \<mapsto> unat c * unat n))"
| run_free: "heap_run h s L \<Longrightarrow> L p = Some n \<Longrightarrow> heap_run h (free p s) (L(p := None))"
| run_realloc: "heap_run h s L \<Longrightarrow> L p = Some k \<Longrightarrow> n \<noteq> 0 \<Longrightarrow> realloc (onyx_sbrk h) p n s = Some (q, s') \<Longrightarrow>
    heap_run h s' (if q = 0 then L else L(p := None, q \<mapsto> unat n))"
| run_store: "heap_run h s L \<Longrightarrow> heap_run h (s\<lparr>heap_bytes := m\<rparr>) L"

definition heap_holds :: "'h cpu heap \<Rightarrow> (u64 \<rightharpoonup> nat) \<Rightarrow> blk list \<Rightarrow> bool" where
  "heap_holds s L V \<longleftrightarrow> emu_heap s V \<and> fst ` allocated V = dom L \<and> (\<forall>p sz. (p, sz) \<in> allocated V \<longrightarrow> the (L p) \<le> unat sz)"

lemma holds_insert:
  assumes "fst ` A = dom L" "\<forall>p sz. (p, sz) \<in> A \<longrightarrow> the (L p) \<le> unat sz" "q \<notin> fst ` A" "k \<le> unat w"
    "emu_heap s V" "allocated V = insert (q, w) A"
  shows "heap_holds s (L(q \<mapsto> k)) V"
proof -
  have "(q, sz) \<notin> A" for sz using assms(3) by force
  then show ?thesis using assms by (auto simp: heap_holds_def)
qed

lemma allocated_unique:
  assumes "emu_heap s V" "(p, a) \<in> allocated V" "(p, b) \<in> allocated V"
  shows "a = b"
proof -
  have r: "heap_rep s V (unat (g_brk (h_os s)))" using assms(1) by (simp add: emu_heap_def)
  obtain X Y where V: "V = X @ (p - 32, a, False) # Y" using allocated_split assms(2) by blast
  have "(p, b) \<notin> allocated X \<union> allocated Y" using rep_fresh [OF r [unfolded V]] by force
  then show ?thesis using assms(3) V by simp
qed

lemma holds_remove:
  assumes "heap_holds s L V" "(p, z) \<in> allocated V"
  shows "fst ` (allocated V - {(p, z)}) = dom (L(p := None))"
    "\<forall>q sz. (q, sz) \<in> allocated V - {(p, z)} \<longrightarrow> the ((L(p := None)) q) \<le> unat sz"
proof -
  have e: "emu_heap s V" and d: "fst ` allocated V = dom L" and b: "\<And>q sz. (q, sz) \<in> allocated V \<Longrightarrow> the (L q) \<le> unat sz"
    using assms(1) by (auto simp: heap_holds_def)
  have p: "q \<noteq> p" if "(q, a) \<in> allocated V - {(p, z)}" for q a using that allocated_unique [OF e assms(2)] by blast
  then have "fst ` (allocated V - {(p, z)}) = fst ` allocated V - {p}" by force
  then show "fst ` (allocated V - {(p, z)}) = dom (L(p := None))" using d by simp
  show "\<forall>q sz. (q, sz) \<in> allocated V - {(p, z)} \<longrightarrow> the ((L(p := None)) q) \<le> unat sz" using p b by auto
qed

lemma holds_grown:
  assumes "heap_holds s L V" "emu_heap s' V'" "p = 0 \<Longrightarrow> allocated V' = allocated V"
    and "p \<noteq> 0 \<Longrightarrow> \<exists>w. k \<le> unat w \<and> p \<notin> fst ` allocated V \<and> allocated V' = insert (p, w) (allocated V)"
  shows "\<exists>V. heap_holds s' (if p = 0 then L else L(p \<mapsto> k)) V"
proof (cases "p = 0")
  case True
  then show ?thesis using assms by (intro exI [of _ V']) (simp add: heap_holds_def)
next
  case False
  then obtain w where w: "k \<le> unat w" "p \<notin> fst ` allocated V" "allocated V' = insert (p, w) (allocated V)" using assms(4) by blast
  have "fst ` allocated V = dom L" "\<forall>p sz. (p, sz) \<in> allocated V \<longrightarrow> the (L p) \<le> unat sz" using assms(1) by (simp_all add: heap_holds_def)
  then have "heap_holds s' (L(p \<mapsto> k)) V'" by (rule holds_insert [OF _ _ w(2,1) assms(2) w(3)])
  then show ?thesis using False by auto
qed

lemma holds_malloc:
  assumes "heap_holds s L V" "malloc (onyx_sbrk h) n s = Some (p, s')"
  shows "\<exists>V. heap_holds s' (if p = 0 then L else L(p \<mapsto> unat n)) V"
proof -
  have e: "emu_heap s V" using assms(1) by (simp add: heap_holds_def)
  obtain q s1 V' where m: "malloc (onyx_sbrk h) n s = Some (q, s1)" "emu_heap s1 V'"
    and c: "if q = 0 then allocated V' = allocated V \<and> h_errno s1 = 12
         \<and> (too_large n \<or> 0x10000000 < unat (g_brk (h_os s)) + unat n + 65598)
       else \<exists>sz. n \<le> sz \<and> q \<notin> fst ` allocated V \<and> allocated V' = insert (q, sz) (allocated V) \<and> h_errno s1 = h_errno s"
    using emu.malloc_ok [unfolded emu_heap_ok, OF e, of h n] by blast
  have q: "q = p" "s1 = s'" using m(1) assms(2) by simp_all
  show ?thesis by (rule holds_grown [OF assms(1) m(2) [unfolded q]]) (use c in \<open>auto simp: q word_le_nat_alt\<close>)
qed

lemma holds_calloc:
  assumes "heap_holds s L V" "calloc (onyx_sbrk h) c n s = Some (p, s')"
  shows "\<exists>V. heap_holds s' (if p = 0 then L else L(p \<mapsto> unat c * unat n)) V"
proof -
  have e: "emu_heap s V" using assms(1) by (simp add: heap_holds_def)
  obtain q s1 V' where m: "calloc (onyx_sbrk h) c n s = Some (q, s1)" "emu_heap s1 V'"
    and c: "if q = 0 then allocated V' = allocated V \<and> h_errno s1 = 12
         \<and> (2 ^ 64 \<le> unat c * unat n \<or> too_large (c * n) \<or> 0x10000000 < unat (g_brk (h_os s)) + unat c * unat n + 65598)
       else \<exists>sz. unat c * unat n \<le> unat sz \<and> q \<notin> fst ` allocated V \<and> allocated V' = insert (q, sz) (allocated V)
         \<and> (\<forall>i < unat c * unat n. heap_bytes s1 (q + word_of_nat i) = 0)"
    using emu.calloc_ok [unfolded emu_heap_ok, OF e, of h c n] by blast
  have q: "q = p" "s1 = s'" using m(1) assms(2) by simp_all
  show ?thesis by (rule holds_grown [OF assms(1) m(2) [unfolded q]]) (use c in \<open>auto simp: q\<close>)
qed

lemma holds_area:
  assumes "heap_holds s L V" "L p = Some k"
  obtains z where "(p, z) \<in> allocated V" "k \<le> unat z"
proof -
  have "p \<in> fst ` allocated V" using assms by (auto simp: heap_holds_def)
  then obtain z where z: "(p, z) \<in> allocated V" by force
  then have "k \<le> unat z" using assms by (metis heap_holds_def option.sel)
  with z show thesis by (rule that)
qed

lemma holds_free:
  assumes "heap_holds s L V" "L p = Some k"
  shows "\<exists>V. heap_holds (free p s) (L(p := None)) V"
proof -
  obtain z where z: "(p, z) \<in> allocated V" by (rule holds_area [OF assms])
  have e: "heap_rep s V (unat (g_brk (h_os s)))" using assms(1) by (simp add: heap_holds_def emu_heap_def)
  obtain V' where f: "heap_rep (free p s) V' (unat (g_brk (h_os s)))" "allocated V' = allocated V - {(p, z)}" "same_rest s (free p s)"
    using free_rep [OF e z] by blast
  have "emu_heap (free p s) V'" using f(1,3) assms(1) by (simp add: heap_holds_def emu_heap_def same_rest_def)
  then show ?thesis using holds_remove [OF assms(1) z] f(2) unfolding heap_holds_def by metis
qed

lemma holds_realloc:
  assumes "heap_holds s L V" "L p = Some k" "n \<noteq> 0" "realloc (onyx_sbrk h) p n s = Some (q, s')"
  shows "\<exists>V. heap_holds s' (if q = 0 then L else L(p := None, q \<mapsto> unat n)) V"
proof -
  obtain z where z: "(p, z) \<in> allocated V" "k \<le> unat z" by (rule holds_area [OF assms(1,2)])
  have e: "emu_heap s V" using assms(1) by (simp add: heap_holds_def)
  note r = holds_remove [OF assms(1) z(1)]
  let ?R = "allocated V - {(p, z)}"
  obtain q1 s1 V' where m: "realloc (onyx_sbrk h) p n s = Some (q1, s1)" "emu_heap s1 V'"
    and "if q1 = 0 then h_errno s1 = 12 \<and> heap_bytes s1 = heap_bytes s
         \<and> (too_large n \<or> 0x10000000 < unat (g_brk (h_os s)) + unat n + 65598) \<and> (\<exists>w \<ge> z. allocated V' = insert (p, w) ?R)
       else \<exists>w \<ge> n. q1 \<notin> fst ` ?R \<and> allocated V' = insert (q1, w) ?R
         \<and> (\<forall>i < min (unat n) (unat z). heap_bytes s1 (q1 + word_of_nat i) = heap_bytes s (p + word_of_nat i))"
    using emu.realloc_ok [unfolded emu_heap_ok, OF e z(1) assms(3), of h] by blast
  moreover have "q1 = q" "s1 = s'" using m(1) assms(4) by simp_all
  ultimately have V': "emu_heap s' V'" and c: "if q = 0 then \<exists>w \<ge> z. allocated V' = insert (p, w) ?R
      else \<exists>w \<ge> n. q \<notin> fst ` ?R \<and> allocated V' = insert (q, w) ?R" by (auto split: if_split_asm)
  show ?thesis
  proof (cases "q = 0")
    case True
    then obtain w where w: "z \<le> w" "allocated V' = insert (p, w) ?R" using c by auto
    have "p \<notin> fst ` ?R" using r(1) by simp
    moreover have "k \<le> unat w" using z(2) w(1) by (simp add: word_le_nat_alt)
    ultimately have "heap_holds s' ((L(p := None))(p \<mapsto> k)) V'" by (rule holds_insert [OF r _ _ V' w(2)])
    moreover have "(L(p := None))(p \<mapsto> k) = L" using assms(2) by auto
    ultimately show ?thesis using True by auto
  next
    case False
    then obtain w where w: "n \<le> w" "q \<notin> fst ` ?R" "allocated V' = insert (q, w) ?R" using c by auto
    have "unat n \<le> unat w" using w(1) by (simp add: word_le_nat_alt)
    then have "heap_holds s' ((L(p := None))(q \<mapsto> unat n)) V'" by (rule holds_insert [OF r w(2) _ V' w(3)])
    then show ?thesis unfolding if_not_P [OF False] by blast
  qed
qed

lemma heap_run_holds: "heap_run h s L \<Longrightarrow> \<exists>V. heap_holds s L V"
proof (induction rule: heap_run.induct)
  case (run_start s)
  then show ?case by (auto simp: heap_holds_def emu_heap_def heap_rep_def intro!: exI [of _ "[]"] simp: word_le_nat_alt Suc_le_eq unat_gt_0)
next
  case (run_store s L m)
  then show ?case by (simp add: heap_holds_def emu_heap_def heap_rep_def)
qed (blast intro: holds_malloc holds_calloc holds_free holds_realloc)+

text \<open>
  C15. Whatever sequence of calls a program makes, every pointer it holds is not null and aligned to 16
  bytes, the bytes it asked for lie below the program break, and the areas of two pointers it
  holds do not overlap.
\<close>

theorem heap_run_safe:
  assumes "heap_run h s L" "L p = Some k"
  shows "p \<noteq> 0 \<and> 16 dvd unat p \<and> unat p + k \<le> unat (g_brk (h_os s)) \<and> g_brk (h_os s) \<le> 0x10000000
    \<and> (\<forall>q j. L q = Some j \<and> q \<noteq> p \<longrightarrow> unat p + k \<le> unat q \<or> unat q + j \<le> unat p)"
proof -
  obtain V where V: "heap_holds s L V" using heap_run_holds [OF assms(1)] by blast
  have r: "heap_rep s V (unat (g_brk (h_os s)))" "g_brk (h_os s) \<le> 0x10000000" using V by (simp_all add: heap_holds_def emu_heap_def)
  obtain z where z: "(p, z) \<in> allocated V" "k \<le> unat z" by (rule holds_area [OF V assms(2)])
  have "unat p + k \<le> unat q \<or> unat q + j \<le> unat p" if q: "L q = Some j" "q \<noteq> p" for q j
  proof -
    obtain w where w: "(q, w) \<in> allocated V" "j \<le> unat w" by (rule holds_area [OF V q(1)])
    show ?thesis using allocated_disjoint [OF r(1) z(1) w(1) q(2) [symmetric]] z(2) w(2) by linarith
  qed
  then show ?thesis using allocated_area [OF r(1) z(1)] z(2) r(2) by auto
qed

lemma fresh_malloc: "\<exists>p s'. malloc (onyx_sbrk h) 100 fresh_heap = Some (p, s') \<and> p \<noteq> 0"
  using emu.malloc_ok [unfolded emu_heap_ok, OF fresh_heap_ok, of h 100]
  by (auto simp: too_large_def fresh_heap_def boot_cpu_def split: if_splits)

theorem heap_run_safe_witness: "\<forall>h :: unit host_ops. \<exists>s p. heap_run h s [p \<mapsto> 100] \<and> p \<noteq> 0 \<and> 16 dvd unat p"
proof
  fix h :: "unit host_ops"
  obtain p s' where m: "malloc (onyx_sbrk h) 100 fresh_heap = Some (p, s')" "p \<noteq> 0" using fresh_malloc by blast
  have "heap_run h fresh_heap Map.empty" by (rule run_start) (simp_all add: fresh_heap_def boot_cpu_def)
  from run_malloc [OF this m(1)] have r: "heap_run h s' [p \<mapsto> 100]" using m(2) by simp
  show "\<exists>s p. heap_run h s [p \<mapsto> 100] \<and> p \<noteq> 0 \<and> 16 dvd unat p" using heap_run_safe [OF r, of p 100] r by auto
qed

end
