(* ===== verification/Const_Eval.thy ===== *)
theory Const_Eval
  imports Types Lexer
begin

text \<open>
  The helpers of the parser in \<^verbatim>\<open>src/front/parse.c\<close> and the evaluator of integer constant expressions
  in \<^verbatim>\<open>src/front/constant/\<close>: array bounds, enumerators, case labels, bit-field widths.

  The state is the lexer with its current token, the symbol table, the types, the tags and the two
  options that decide how a static name is mangled; the diagnostics are counted in the lexer's state.
  The names of types are read by \<^verbatim>\<open>parse_type_spec\<close> and \<^verbatim>\<open>parse_declarator\<close>, which are an argument
  \<open>type_name\<close> of the functions here. A recursion takes fuel; the other ways not to return are a
  fatal error and a null pointer that is followed.
\<close>

datatype parse_stop = NoFuel | CcFatal | NullDeref

record parser =
  g_lx :: lexer
  p_syms :: symtab
  p_types :: types
  p_tags :: tags
  n_input_files :: nat
  current_file_idx :: nat

type_synonym 'a parsed = "parse_stop + 'a \<times> parser"

subsection \<open>The current token\<close>

definition p_cur :: "parser \<Rightarrow> token" where
  "p_cur s = lx_cur (g_lx s)"

definition p_next :: "parser \<Rightarrow> parser" where
  "p_next s = s\<lparr>g_lx := lex_next (g_lx s)\<rparr>"

definition parse_error :: "parser \<Rightarrow> parser" where
  "parse_error s = s\<lparr>g_lx := (g_lx s)\<lparr>lx_diag := cc_error_at (lx_diag (g_lx s))\<rparr>\<rparr>"

definition parse_expect :: "token_kind \<Rightarrow> parser \<Rightarrow> parser" where
  "parse_expect k s = p_next (if t_kind (p_cur s) \<noteq> k then parse_error s else s)"

definition accept :: "token_kind \<Rightarrow> parser \<Rightarrow> bool \<times> parser" where
  "accept k s = (if t_kind (p_cur s) = k then (True, p_next s) else (False, s))"

subsection \<open>Names\<close>

fun dec_image :: "nat \<Rightarrow> u8 list" where
  "dec_image n = (if n < 10 then [48 + word_of_nat n] else dec_image (n div 10) @ [48 + word_of_nat (n mod 10)])"

declare dec_image.simps [simp del]

text \<open>The buffer has \<^verbatim>\<open>CC_MAX_IDENT + 16\<close> bytes; a prefix that does not fit it is dropped.\<close>

definition mangle_static_name :: "u8 list \<Rightarrow> parser \<Rightarrow> parse_stop + u8 list" where
  "mangle_static_name name s =
     (let out_sz = CC_MAX_IDENT + 16; prefix = bytes_of ''__f'' @ dec_image (current_file_idx s) @ bytes_of ''_'';
          prefix = (if out_sz \<le> length prefix then [] else prefix)
      in if out_sz < length prefix + length name + 1 then Inl CcFatal else Inr (prefix @ name))"

definition lookup_global :: "u8 list \<Rightarrow> parser \<Rightarrow> nat option \<times> parser" where
  "lookup_global name s = (case symtab_lookup_global name (p_syms s) of (i, st) \<Rightarrow> (i, s\<lparr>p_syms := st\<rparr>))"

definition gen_lookup_global :: "u8 list \<Rightarrow> parser \<Rightarrow> nat option parsed" where
  "gen_lookup_global name s =
     (if 1 < n_input_files s
      then bindE (mangle_static_name name s)
        (\<lambda>mangled. case lookup_global mangled s of
           (Some i, s) \<Rightarrow> Inr (Some i, s)
         | (None, s) \<Rightarrow> Inr (lookup_global name s))
      else Inr (lookup_global name s))"

definition type_start_keywords :: "keyword list" where
  "type_start_keywords =
     [T_KW_VOID, T_KW_CHAR, T_KW_SHORT, T_KW_INT, T_KW_LONG, T_KW_FLOAT, T_KW_DOUBLE, T_KW_SIGNED, T_KW_UNSIGNED,
      T_KW_CONST, T_KW_VOLATILE, T_KW_STATIC, T_KW_EXTERN, T_KW_TYPEDEF, T_KW_INLINE, T_KW_REGISTER, T_KW_RESTRICT,
      T_KW_AUTO, T_KW_STRUCT, T_KW_UNION, T_KW_ENUM, T_KW_BOOL]"

definition is_type_start :: "parser \<Rightarrow> bool parsed" where
  "is_type_start s =
     (case t_kind (p_cur s) of
        T_KW k \<Rightarrow> Inr (k \<in> set type_start_keywords, s)
      | T_IDENT \<Rightarrow>
          bindE (gen_lookup_global (t_text (p_cur s)) s)
            (\<lambda>(i, s). Inr (case i of None \<Rightarrow> False | Some i \<Rightarrow> sym_kind (g_globals (p_syms s) ! i) = SYM_TYPEDEF, s))
      | _ \<Rightarrow> Inr (False, s))"

subsection \<open>Values\<close>

record const_val =
  cv_bits :: u64
  cv_type :: nat

definition const_op_prec :: "token_kind \<Rightarrow> nat" where
  "const_op_prec k =
     (if k = T_OR then 1 else if k = T_AND then 2 else if k = T_PIPE then 3 else if k = T_CARET then 4
      else if k = T_AMP then 5 else if k \<in> {T_EQ, T_NE} then 6 else if k \<in> {T_LT, T_GT, T_LE, T_GE} then 7
      else if k \<in> {T_SHL, T_SHR} then 8 else if k \<in> {T_PLUS, T_MINUS} then 9
      else if k \<in> {T_STAR, T_SLASH, T_PERCENT} then 10 else 0)"

definition const_signed :: "u64 \<Rightarrow> int" where
  "const_signed bits = (if bits \<le> 0x7fffffffffffffff then uint bits else - 1 - uint (NOT bits))"

definition p_sizeof :: "nat \<Rightarrow> parser \<Rightarrow> u64 \<times> parser" where
  "p_sizeof t s =
     (case type_sizeof (p_types s ! t) (lx_diag (g_lx s)) of (n, d) \<Rightarrow> (n, s\<lparr>g_lx := (g_lx s)\<lparr>lx_diag := d\<rparr>\<rparr>))"

definition const_value :: "u64 \<Rightarrow> nat \<Rightarrow> parser \<Rightarrow> const_val \<times> parser" where
  "const_value bits t s =
     (case p_sizeof t s of
        (sz, s) \<Rightarrow>
          let width = ucast sz * 8 :: u32; type = p_types s ! t;
              bits = (if ty_kind type = TY_BOOL then (if bits \<noteq> 0 then 1 else 0)
                      else if width \<noteq> 0 \<and> width < 64
                      then let msk = push_bit (unat width) 1 - 1; bits = bits AND msk
                           in if type_is_signed type \<and> bits AND push_bit (unat (width - 1)) 1 \<noteq> 0 then bits OR NOT msk else bits
                      else bits)
          in (\<lparr>cv_bits = bits, cv_type = t\<rparr>, s))"

text \<open>The \<^verbatim>\<open>switch\<close> on the operator: the result and whether it is a truth value.\<close>

definition const_divide :: "bool \<Rightarrow> bool \<Rightarrow> u64 \<Rightarrow> u64 \<Rightarrow> u64" where
  "const_divide is_quotient sign a b =
     (let negative_a = sign \<and> const_signed a < 0; negative_b = sign \<and> const_signed b < 0;
          magnitude_a = (if negative_a then 0 - a else a); magnitude_b = (if negative_b then 0 - b else b);
          result = (if is_quotient then magnitude_a div magnitude_b else magnitude_a mod magnitude_b)
      in if (if is_quotient then negative_a \<noteq> negative_b else negative_a) then 0 - result else result)"

definition const_shift :: "bool \<Rightarrow> bool \<Rightarrow> u64 \<Rightarrow> u64 \<Rightarrow> u64" where
  "const_shift left sign a b =
     (if left then push_bit (unat b) a
      else if b \<noteq> 0 \<and> sign \<and> const_signed a < 0 then drop_bit (unat b) a OR push_bit (unat (64 - b)) (NOT 0)
      else drop_bit (unat b) a)"

definition const_switch :: "token_kind \<Rightarrow> nat \<Rightarrow> u64 \<Rightarrow> u64 \<Rightarrow> bool \<Rightarrow> parser \<Rightarrow> (u64 \<times> bool) \<times> parser" where
  "const_switch op common a b evaluate s =
     (let sign = type_is_signed (p_types s ! common); flag = (\<lambda>c. (if c then 1 else 0 :: u64, True))
      in if op = T_PLUS then ((a + b, False), s)
         else if op = T_MINUS then ((a - b, False), s)
         else if op = T_STAR then ((a * b, False), s)
         else if op \<in> {T_SLASH, T_PERCENT}
         then (if b = 0 then ((0, False), if evaluate then parse_error s else s)
               else ((const_divide (op = T_SLASH) sign a b, False), s))
         else if op \<in> {T_SHL, T_SHR}
         then (case p_sizeof common s of
                 (n, s) \<Rightarrow>
                   if n * 8 \<le> b then ((0, False), if evaluate then parse_error s else s)
                   else ((const_shift (op = T_SHL) sign a b, False), s))
         else if op = T_AMP then ((a AND b, False), s)
         else if op = T_PIPE then ((a OR b, False), s)
         else if op = T_CARET then ((a XOR b, False), s)
         else if op = T_AND then (flag (a \<noteq> 0 \<and> b \<noteq> 0), s)
         else if op = T_OR then (flag (a \<noteq> 0 \<or> b \<noteq> 0), s)
         else if op = T_EQ then (flag (a = b), s)
         else if op = T_NE then (flag (a \<noteq> b), s)
         else if op = T_LT then (flag (if sign then const_signed a < const_signed b else a < b), s)
         else if op = T_GT then (flag (if sign then const_signed b < const_signed a else b < a), s)
         else if op = T_LE then (flag (if sign then const_signed a \<le> const_signed b else a \<le> b), s)
         else if op = T_GE then (flag (if sign then const_signed b \<le> const_signed a else b \<le> a), s)
         else ((0, False), s))"

text \<open>The rest of the loop body of \<^verbatim>\<open>const_expr_binop\<close>, from the two operands to the new left one.\<close>

definition const_combine :: "token_kind \<Rightarrow> const_val \<Rightarrow> const_val \<Rightarrow> bool \<Rightarrow> parser \<Rightarrow> const_val \<times> parser" where
  "const_combine op lhs rhs evaluate s =
     (let st = p_types s; shift = op \<in> {T_SHL, T_SHR};
          common = (if shift then type_promote (cv_type lhs) st else type_common (cv_type lhs) (cv_type rhs) st);
          (lhs, s) = const_value (cv_bits lhs) common s;
          (rhs, s) = const_value (cv_bits rhs) (if shift then type_promote (cv_type rhs) st else common) s;
          ((result, comparison), s) = const_switch op common (cv_bits lhs) (cv_bits rhs) evaluate s
      in const_value result (if comparison then ty_int else common) s)"

subsection \<open>The recursive descent\<close>

definition offsetof_field :: "nat option \<Rightarrow> parser \<Rightarrow> struct_field option" where
  "offsetof_field t s =
     (case t of
        None \<Rightarrow> None
      | Some t \<Rightarrow>
          let ty = p_types s ! t; fs = take (unat (nfields ty)) (case ty_fields ty of None \<Rightarrow> [] | Some fs \<Rightarrow> fs)
          in if t_kind (p_cur s) \<noteq> T_IDENT \<or> ty_kind ty \<notin> {TY_STRUCT, TY_UNION} then None
             else case find_first fs (\<lambda>f. field_name f = t_text (p_cur s)) of
               None \<Rightarrow> None
             | Some i \<Rightarrow> if field_bit_width (fs ! i) \<noteq> 0 then None else Some (fs ! i))"

text \<open>The operand of \<^verbatim>\<open>sizeof\<close> that is a name: a local, a global, a static of this file.\<close>

definition sizeof_name :: "parser \<Rightarrow> nat option parsed" where
  "sizeof_name s =
     (let name = t_text (p_cur s)
      in case symtab_lookup_local name (p_syms s) of
           (Some i, st) \<Rightarrow> Inr (sym_type (g_locals st ! i), p_next (s\<lparr>p_syms := st\<rparr>))
         | (None, st) \<Rightarrow>
             bindE (gen_lookup_global name (s\<lparr>p_syms := st\<rparr>))
               (\<lambda>(i, s). bindE (if i = None \<and> 1 < n_input_files s
                     then bindE (mangle_static_name name s) (\<lambda>mangled. gen_lookup_global mangled s) else Inr (i, s))
                  (\<lambda>(i, s). Inr (case i of None \<Rightarrow> None | Some i \<Rightarrow> sym_type (g_globals (p_syms s) ! i), p_next s))))"

definition literal_type :: "token_kind \<Rightarrow> nat" where
  "literal_type k = (if k = T_UINT then ty_uint else if k = T_LONG then ty_long else if k = T_ULONG then ty_ulong else ty_int)"

text \<open>The last two cases of \<^verbatim>\<open>const_expr_unary\<close>: literals and enumerators.\<close>

definition const_atom :: "parser \<Rightarrow> const_val parsed" where
  "const_atom s =
     (let t = p_cur s; k = t_kind t
      in if k \<in> {T_CHAR_LIT, T_INT, T_LONG, T_UINT, T_ULONG}
         then (case const_value (t_ival t) (literal_type k) s of (v, s) \<Rightarrow> Inr (v, p_next s))
         else if k = T_IDENT
         then bindE (gen_lookup_global (t_text t) s)
           (\<lambda>(i, s). case i of
              Some i \<Rightarrow>
                if sym_kind (g_globals (p_syms s) ! i) = SYM_ENUM_CONST
                then (case const_value (sym_enum_val (g_globals (p_syms s) ! i)) ty_int s of (v, s) \<Rightarrow> Inr (v, p_next s))
                else Inr (const_value 0 ty_int (p_next (parse_error s)))
            | None \<Rightarrow> Inr (const_value 0 ty_int (p_next (parse_error s))))
         else Inr (const_value 0 ty_int (parse_error s)))"

definition const_unop :: "token_kind \<Rightarrow> const_val \<Rightarrow> parser \<Rightarrow> const_val \<times> parser" where
  "const_unop op v s =
     (if op = T_NOT then const_value (if cv_bits v = 0 then 1 else 0) ty_int s
      else case const_value (cv_bits v) (type_promote (cv_type v) (p_types s)) s of
        (v, s) \<Rightarrow>
          const_value (if op = T_MINUS then 0 - cv_bits v else if op = T_TILDE then NOT (cv_bits v) else cv_bits v) (cv_type v) s)"

type_synonym type_parser = "parser \<Rightarrow> nat option parsed"

text \<open>
  One round of each function, with the functions it calls as arguments. The loops of the code
  are functions of their own: the operators of \<^verbatim>\<open>const_expr_binop\<close>, the members and the indices of
  \<^verbatim>\<open>parse_builtin_offsetof\<close>, whose result \<^const>\<open>None\<close> is an error that ends the designator.
\<close>

definition sizeof_body :: "type_parser \<Rightarrow> parser \<Rightarrow> const_val parsed" where
  "sizeof_body type_name s =
     (case accept T_LPAREN s of
        (grouped, s) \<Rightarrow>
          bindE (is_type_start s)
            (\<lambda>(ts, s).
               if \<not> ts \<and> t_kind (p_cur s) = T_STRING
               then let len = word_of_nat (length (t_str (p_cur s))) + 1; s = p_next s;
                        s = (if grouped then parse_expect T_RPAREN s else s)
                    in Inr (const_value len ty_ulong s)
               else bindE (if ts then type_name s else if t_kind (p_cur s) = T_IDENT then sizeof_name s
                           else Inr (None, parse_error s))
                 (\<lambda>(ty, s).
                    let s = (if grouped then parse_expect T_RPAREN s else s)
                    in case ty of
                         None \<Rightarrow> Inr (const_value 0 ty_ulong (parse_error s))
                       | Some ty \<Rightarrow> (case p_sizeof ty s of (sz, s) \<Rightarrow> Inr (const_value sz ty_ulong s)))))"

definition cast_body :: "type_parser \<Rightarrow> (parser \<Rightarrow> const_val parsed) \<Rightarrow> parser \<Rightarrow> const_val parsed" where
  "cast_body type_name unary s =
     bindE (type_name s)
       (\<lambda>(cast, s). bindE (unary (parse_expect T_RPAREN s))
          (\<lambda>(v, s). case cast of
             None \<Rightarrow> Inl NullDeref
           | Some cast \<Rightarrow>
               if \<not> type_is_integer (p_types s ! cast) \<and> ty_kind (p_types s ! cast) \<noteq> TY_PTR
               then Inr (const_value 0 ty_int (parse_error s))
               else Inr (const_value (cv_bits v) cast s)))"

definition unary_body :: "type_parser \<Rightarrow> (parser \<Rightarrow> const_val parsed) \<Rightarrow> (parser \<Rightarrow> const_val parsed) \<Rightarrow> (parser \<Rightarrow> int parsed)
    \<Rightarrow> parser \<Rightarrow> const_val parsed" where
  "unary_body type_name unary conditional offsetof s =
     (let t = p_cur s; k = t_kind t
      in if k = T_IDENT \<and> t_text t = bytes_of ''__builtin_offsetof''
         then bindE (offsetof s) (\<lambda>(v, s). Inr (const_value (word_of_int v) ty_ulong s))
         else if k = T_KW T_KW_SIZEOF then sizeof_body type_name (p_next s)
         else if k \<in> {T_PLUS, T_MINUS, T_NOT, T_TILDE}
         then bindE (unary (p_next s)) (\<lambda>(v, s). Inr (const_unop k v s))
         else if k = T_LPAREN
         then bindE (is_type_start (p_next s))
           (\<lambda>(ts, s).
              if ts then cast_body type_name unary s
              else bindE (conditional s) (\<lambda>(v, s). Inr (v, parse_expect T_RPAREN s)))
         else const_atom s)"

definition loop_body :: "(nat \<Rightarrow> bool \<Rightarrow> parser \<Rightarrow> const_val parsed) \<Rightarrow> (const_val \<Rightarrow> parser \<Rightarrow> const_val parsed)
    \<Rightarrow> nat \<Rightarrow> bool \<Rightarrow> const_val \<Rightarrow> parser \<Rightarrow> const_val parsed" where
  "loop_body binop again min_prec evaluate lhs s =
     (let op = t_kind (p_cur s); prec = const_op_prec op
      in if prec < min_prec \<or> prec = 0 then Inr (lhs, s)
         else let rhs_evaluate = (if op = T_AND \<and> cv_bits lhs = 0 \<or> op = T_OR \<and> cv_bits lhs \<noteq> 0 then False else evaluate)
              in bindE (binop (prec + 1) rhs_evaluate (p_next s))
                   (\<lambda>(rhs, s). case const_combine op lhs rhs evaluate s of (lhs, s) \<Rightarrow> again lhs s))"

definition conditional_body :: "(parser \<Rightarrow> const_val parsed) \<Rightarrow> (bool \<Rightarrow> parser \<Rightarrow> const_val parsed) \<Rightarrow> bool \<Rightarrow> parser \<Rightarrow> const_val parsed"
  where
  "conditional_body binop conditional evaluate s =
     bindE (binop s)
       (\<lambda>(condition, s). case accept T_QUESTION s of
          (False, s) \<Rightarrow> Inr (condition, s)
        | (True, s) \<Rightarrow>
            bindE (conditional (evaluate \<and> cv_bits condition \<noteq> 0) s)
              (\<lambda>(yes, s). bindE (conditional (evaluate \<and> cv_bits condition = 0) (parse_expect T_COLON s))
                 (\<lambda>(no, s). Inr (const_value (if cv_bits condition \<noteq> 0 then cv_bits yes else cv_bits no)
                    (type_common (cv_type yes) (cv_type no) (p_types s)) s))))"

definition offsetof_body :: "type_parser \<Rightarrow> (nat option \<Rightarrow> parser \<Rightarrow> u64 option parsed) \<Rightarrow> parser \<Rightarrow> int parsed" where
  "offsetof_body type_name members s =
     bindE (type_name (parse_expect T_LPAREN (p_next s)))
       (\<lambda>(ty, s). bindE (members ty (parse_expect T_COMMA s))
          (\<lambda>(off, s). case off of
             None \<Rightarrow> Inr (0, s)
           | Some off \<Rightarrow> Inr (const_signed off, parse_expect T_RPAREN s)))"

definition members_body :: "(u64 \<Rightarrow> nat option \<Rightarrow> parser \<Rightarrow> (u64 option \<times> nat option) parsed)
    \<Rightarrow> (u64 \<Rightarrow> nat option \<Rightarrow> parser \<Rightarrow> u64 option parsed) \<Rightarrow> u64 \<Rightarrow> nat option \<Rightarrow> parser \<Rightarrow> u64 option parsed" where
  "members_body indices members off ty s =
     (case offsetof_field ty s of
        None \<Rightarrow> Inr (None, parse_error s)
      | Some f \<Rightarrow>
          bindE (indices (off + field_offset f) (field_type f) (p_next s))
            (\<lambda>((off, ty), s). case off of
               None \<Rightarrow> Inr (None, s)
             | Some off \<Rightarrow>
                 (case accept T_DOT s of
                    (True, s) \<Rightarrow> members off ty s
                  | (False, s) \<Rightarrow> Inr (Some off, s))))"

definition indices_body :: "(parser \<Rightarrow> const_val parsed) \<Rightarrow> (u64 \<Rightarrow> nat option \<Rightarrow> parser \<Rightarrow> (u64 option \<times> nat option) parsed)
    \<Rightarrow> u64 \<Rightarrow> nat option \<Rightarrow> parser \<Rightarrow> (u64 option \<times> nat option) parsed" where
  "indices_body const_expr indices off ty s =
     (case accept T_LBRACKET s of
        (False, s) \<Rightarrow> Inr ((Some off, ty), s)
      | (True, s) \<Rightarrow>
          (case ty of
             None \<Rightarrow> Inl NullDeref
           | Some ty \<Rightarrow>
               if ty_kind (p_types s ! ty) \<noteq> TY_ARRAY then Inr ((None, None), parse_error s)
               else bindE (const_expr s)
                 (\<lambda>(i, s). case ty_base (p_types s ! ty) of
                    None \<Rightarrow> Inl NullDeref
                  | Some base \<Rightarrow>
                      (case p_sizeof base s of
                         (sz, s) \<Rightarrow>
                           indices (off + word_of_int (const_signed (cv_bits i)) * sz) (Some base) (parse_expect T_RBRACKET s)))))"

function const_expr_unary :: "type_parser \<Rightarrow> nat \<Rightarrow> bool \<Rightarrow> parser \<Rightarrow> const_val parsed"
  and const_expr_binop :: "type_parser \<Rightarrow> nat \<Rightarrow> nat \<Rightarrow> bool \<Rightarrow> parser \<Rightarrow> const_val parsed"
  and const_binop_loop :: "type_parser \<Rightarrow> nat \<Rightarrow> nat \<Rightarrow> bool \<Rightarrow> const_val \<Rightarrow> parser \<Rightarrow> const_val parsed"
  and const_expr_conditional :: "type_parser \<Rightarrow> nat \<Rightarrow> bool \<Rightarrow> parser \<Rightarrow> const_val parsed"
  and parse_builtin_offsetof :: "type_parser \<Rightarrow> nat \<Rightarrow> parser \<Rightarrow> int parsed"
  and offsetof_members :: "type_parser \<Rightarrow> nat \<Rightarrow> u64 \<Rightarrow> nat option \<Rightarrow> parser \<Rightarrow> u64 option parsed"
  and offsetof_indices :: "type_parser \<Rightarrow> nat \<Rightarrow> u64 \<Rightarrow> nat option \<Rightarrow> parser \<Rightarrow> (u64 option \<times> nat option) parsed" where
  "const_expr_unary tn n evaluate s =
     (case n of 0 \<Rightarrow> Inl NoFuel
      | Suc n \<Rightarrow> unary_body tn (const_expr_unary tn n evaluate) (const_expr_conditional tn n evaluate) (parse_builtin_offsetof tn n) s)"
| "const_expr_binop tn n min_prec evaluate s =
     (case n of 0 \<Rightarrow> Inl NoFuel
      | Suc n \<Rightarrow> bindE (const_expr_unary tn n evaluate s) (\<lambda>(lhs, s). const_binop_loop tn n min_prec evaluate lhs s))"
| "const_binop_loop tn n min_prec evaluate lhs s =
     (case n of 0 \<Rightarrow> Inl NoFuel
      | Suc n \<Rightarrow> loop_body (const_expr_binop tn n) (const_binop_loop tn n min_prec evaluate) min_prec evaluate lhs s)"
| "const_expr_conditional tn n evaluate s =
     (case n of 0 \<Rightarrow> Inl NoFuel
      | Suc n \<Rightarrow> conditional_body (const_expr_binop tn n 0 evaluate) (const_expr_conditional tn n) evaluate s)"
| "parse_builtin_offsetof tn n s =
     (case n of 0 \<Rightarrow> Inl NoFuel | Suc n \<Rightarrow> offsetof_body tn (offsetof_members tn n 0) s)"
| "offsetof_members tn n off ty s =
     (case n of 0 \<Rightarrow> Inl NoFuel | Suc n \<Rightarrow> members_body (offsetof_indices tn n) (offsetof_members tn n) off ty s)"
| "offsetof_indices tn n off ty s =
     (case n of 0 \<Rightarrow> Inl NoFuel
      | Suc n \<Rightarrow> indices_body (const_expr_conditional tn n True) (offsetof_indices tn n) off ty s)"

  by pat_completeness auto
termination
  by (relation "measure (case_sum (case_sum (\<lambda>(tn, n, _). n) (case_sum (\<lambda>(tn, n, _). n) (\<lambda>(tn, n, _). n)))
      (case_sum (case_sum (\<lambda>(tn, n, _). n) (\<lambda>(tn, n, _). n)) (case_sum (\<lambda>(tn, n, _). n) (\<lambda>(tn, n, _). n))))") simp_all

declare const_expr_unary.simps [simp del] const_expr_binop.simps [simp del] const_binop_loop.simps [simp del]
  const_expr_conditional.simps [simp del] parse_builtin_offsetof.simps [simp del] offsetof_members.simps [simp del]
  offsetof_indices.simps [simp del]

definition parse_const_expr :: "type_parser \<Rightarrow> nat \<Rightarrow> parser \<Rightarrow> int parsed" where
  "parse_const_expr type_name n s =
     bindE (const_expr_conditional type_name n True s) (\<lambda>(v, s). Inr (const_signed (cv_bits v), s))"

end
