(* ===== verification/Decl_Parser.thy ===== *)
theory Decl_Parser
  imports Const_Eval
begin

text \<open>
  The parser of types and declarators: \<^verbatim>\<open>parse_type_spec\<close> and \<^verbatim>\<open>parse_decl_spec\<close> of \<^verbatim>\<open>src/back/gen.c\<close>, with
  struct, union and enum bodies, and the declarators of \<^verbatim>\<open>src/front/decl.c\<close> with the splice
  algorithm. A null \<^verbatim>\<open>type_t *\<close>, the base a grouped declarator starts from, is \<^const>\<open>None\<close>. The functions are
  mutually recursive with the constant evaluator (array bounds, enumerators), so that they all
  take fuel; every round of a function is a definition with the functions it calls as arguments.
\<close>

subsection \<open>Building types\<close>

definition with_types :: "'a \<times> types \<Rightarrow> parser \<Rightarrow> 'a \<times> parser" where
  "with_types r s = (case r of (x, st) \<Rightarrow> (x, s\<lparr>p_types := st\<rparr>))"

definition upd_type :: "nat \<Rightarrow> (type_t \<Rightarrow> type_t) \<Rightarrow> parser \<Rightarrow> parser" where
  "upd_type t f s = s\<lparr>p_types := (p_types s)[t := f (p_types s ! t)]\<rparr>"

text \<open>\<^verbatim>\<open>type_make_ptr\<close> and \<^verbatim>\<open>type_make_function\<close> do not follow the pointer they get; \<^verbatim>\<open>type_make_array\<close> does.\<close>

definition make_ptr :: "nat option \<Rightarrow> parser \<Rightarrow> nat \<times> parser" where
  "make_ptr b s =
     with_types (type_alloc (zero_type\<lparr>ty_kind := TY_PTR, ty_base := b, ty_size := 8, ty_align := 8, is_complete := True\<rparr>) (p_types s)) s"

definition make_function :: "nat option \<Rightarrow> parser \<Rightarrow> nat \<times> parser" where
  "make_function r s =
     with_types (type_alloc (zero_type\<lparr>ty_kind := TY_FUNC, ty_ret := r, ty_size := 8, ty_align := 8, is_complete := True\<rparr>) (p_types s)) s"

definition make_array :: "nat option \<Rightarrow> u64 \<Rightarrow> parser \<Rightarrow> nat parsed" where
  "make_array b len s = (case b of None \<Rightarrow> Inl NullDeref | Some b \<Rightarrow> Inr (with_types (type_make_array b len (p_types s)) s))"

text \<open>The chain of a grouped declarator ends in null, which the splice replaces.\<close>

fun type_splice_base :: "nat \<Rightarrow> nat option \<Rightarrow> nat option \<Rightarrow> types \<Rightarrow> (nat option \<times> types) option" where
  "type_splice_base n None base st = Some (base, st)"
| "type_splice_base 0 (Some t) base st = None"
| "type_splice_base (Suc n) (Some t) base st =
     (if ty_kind (st ! t) \<in> {TY_PTR, TY_ARRAY}
      then map_option (\<lambda>(b, st). (Some t, st[t := (st ! t)\<lparr>ty_base := b\<rparr>])) (type_splice_base n (ty_base (st ! t)) base st)
      else if ty_kind (st ! t) = TY_FUNC
      then map_option (\<lambda>(b, st). (Some t, st[t := (st ! t)\<lparr>ty_ret := b\<rparr>])) (type_splice_base n (ty_ret (st ! t)) base st)
      else Some (Some t, st))"

subsection \<open>Specifiers\<close>

record tspec =
  sp_unsigned :: bool
  sp_short :: bool
  sp_long :: bool
  sp_longlong :: bool
  sp_const :: bool
  sp_volatile :: bool

definition no_spec :: tspec where
  "no_spec = \<lparr>sp_unsigned = False, sp_short = False, sp_long = False, sp_longlong = False, sp_const = False, sp_volatile = False\<rparr>"

text \<open>What the code makes of the modifiers when a base type was seen, and when none was.\<close>

definition modified :: "tspec \<Rightarrow> nat \<Rightarrow> nat" where
  "modified f base =
     (if sp_short f then (if sp_unsigned f then ty_ushort else ty_short)
      else if sp_longlong f then (if sp_unsigned f then ty_ullong else ty_llong)
      else if sp_long f then (if sp_unsigned f then ty_ulong else ty_long)
      else if sp_unsigned f \<and> base = ty_char then ty_uchar
      else if sp_unsigned f \<and> base = ty_int then ty_uint
      else base)"

definition implicit_int :: "tspec \<Rightarrow> nat" where
  "implicit_int f =
     (if sp_short f then (if sp_unsigned f then ty_ushort else ty_short)
      else if sp_longlong f then (if sp_unsigned f then ty_ullong else ty_llong)
      else if sp_long f then (if sp_unsigned f then ty_ulong else ty_long)
      else if sp_unsigned f then ty_uint else ty_int)"

text \<open>The keywords that only set a flag.\<close>

definition spec_flag :: "keyword \<Rightarrow> tspec \<Rightarrow> tspec option" where
  "spec_flag k f =
     (if k = T_KW_CONST then Some (f\<lparr>sp_const := True\<rparr>)
      else if k = T_KW_VOLATILE then Some (f\<lparr>sp_volatile := True\<rparr>)
      else if k \<in> {T_KW_RESTRICT, T_KW_REGISTER, T_KW_AUTO, T_KW_SIGNED} then Some f
      else if k = T_KW_UNSIGNED then Some (f\<lparr>sp_unsigned := True\<rparr>)
      else if k = T_KW_SHORT then Some (f\<lparr>sp_short := True\<rparr>)
      else if k = T_KW_LONG
      then Some (if sp_long f then f\<lparr>sp_longlong := True, sp_long := False\<rparr> else f\<lparr>sp_long := True\<rparr>)
      else None)"

definition spec_base :: "keyword \<Rightarrow> tspec \<Rightarrow> nat option" where
  "spec_base k f =
     (if k = T_KW_VOID then Some ty_void else if k = T_KW_BOOL then Some ty_bool else if k = T_KW_CHAR then Some ty_char
      else if k = T_KW_INT then Some ty_int else if k = T_KW_FLOAT then Some ty_float
      else if k = T_KW_DOUBLE then Some (if sp_long f then ty_ldouble else ty_double) else None)"

text \<open>After a base type: the modifiers, a trailing \<^verbatim>\<open>int\<close>, the end of the loop.\<close>

definition after_base :: "tspec \<Rightarrow> nat \<Rightarrow> parser \<Rightarrow> (nat option \<times> tspec) parsed" where
  "after_base f base s = Inr ((Some (modified f base), f), if t_kind (p_cur s) = T_KW T_KW_INT then p_next s else s)"

definition read_tag :: "parser \<Rightarrow> u8 list \<times> parser" where
  "read_tag s = (if t_kind (p_cur s) = T_IDENT then (take (CC_MAX_IDENT - 1) (t_text (p_cur s)), p_next s) else ([], s))"

text \<open>The type of a tag, entered when it is new.\<close>

definition tagged_type :: "u8 list \<Rightarrow> type_t \<Rightarrow> parser \<Rightarrow> nat parsed" where
  "tagged_type tag fresh s =
     (case (if tag \<noteq> [] then tags_lookup tag (p_tags s) else None) of
        Some t \<Rightarrow> Inr (t, s)
      | None \<Rightarrow>
          (case with_types (type_alloc (fresh\<lparr>ty_tag := tag\<rparr>) (p_types s)) s of
             (t, s) \<Rightarrow>
               if tag = [] then Inr (t, s)
               else (case tags_install tag t (p_tags s) of None \<Rightarrow> Inl CcFatal | Some g \<Rightarrow> Inr (t, s\<lparr>p_tags := g\<rparr>))))"

subsection \<open>Structs, unions and enums\<close>

text \<open>One member: its offset, the entry in the field table, the running offset behind it.\<close>

definition add_field :: "nat \<Rightarrow> bool \<Rightarrow> nat \<Rightarrow> u8 list \<Rightarrow> u64 \<times> u64 \<times> nat \<Rightarrow> parser \<Rightarrow> (u64 \<times> u64 \<times> nat) \<times> parser" where
  "add_field t is_union ftyp fname acc s =
     (case acc of
        (offset, max_align, n) \<Rightarrow>
          let falign = type_alignof (p_types s ! ftyp);
              max_align = (if max_align < falign then falign else max_align);
              offset = (if is_union then 0 else align_up offset falign);
              (n, s) = (if n < CC_MAX_STRUCT_FIELDS
                then (Suc n, upd_type t (\<lambda>ty. ty\<lparr>ty_fields := map_option (\<lambda>fs. fs[n := (fs ! n)\<lparr>field_name := fname,
                  field_type := Some ftyp, field_offset := offset, field_is_anon := fname = []\<rparr>]) (ty_fields ty)\<rparr>)
                  (s\<lparr>p_types := type_ensure_fields t (p_types s)\<rparr>))
                else (n, s))
          in if is_union then ((offset, max_align, n), s)
             else (case p_sizeof ftyp s of (sz, s) \<Rightarrow> ((offset + sz, max_align, n), s)))"

definition field_size :: "nat \<Rightarrow> nat \<Rightarrow> parser \<Rightarrow> (u64 \<times> parser) option" where
  "field_size t i s =
     (case ty_fields (p_types s ! t) of
        None \<Rightarrow> None
      | Some fs \<Rightarrow> (case field_type (fs ! i) of None \<Rightarrow> None | Some ft \<Rightarrow> Some (p_sizeof ft s)))"

primrec union_size :: "nat \<Rightarrow> nat \<Rightarrow> parser \<Rightarrow> u64 parsed" where
  "union_size t 0 s = Inr (0, s)"
| "union_size t (Suc n) s =
     bindE (union_size t n s)
       (\<lambda>(m, s). case field_size t n s of None \<Rightarrow> Inl NullDeref | Some (sz, s) \<Rightarrow> Inr (if m < sz then sz else m, s))"

text \<open>What the closing brace completes.\<close>

definition finish_struct :: "nat \<Rightarrow> bool \<Rightarrow> u64 \<times> u64 \<times> nat \<Rightarrow> parser \<Rightarrow> unit parsed" where
  "finish_struct t is_union acc s =
     (case acc of
        (offset, max_align, n) \<Rightarrow>
          let s = upd_type t (\<lambda>ty. ty\<lparr>nfields := word_of_nat n\<rparr>) (parse_expect T_RBRACE s)
          in bindE (if is_union then union_size t n s else Inr (align_up offset max_align, s))
               (\<lambda>(sz, s). Inr ((), upd_type t (\<lambda>ty. ty\<lparr>ty_size := sz, ty_align := max_align, is_complete := True\<rparr>) s)))"

definition fields_body :: "(parser \<Rightarrow> nat parsed) \<Rightarrow> (nat \<Rightarrow> u64 \<times> u64 \<times> nat \<Rightarrow> parser \<Rightarrow> (u64 \<times> u64 \<times> nat) parsed)
    \<Rightarrow> (u64 \<times> u64 \<times> nat \<Rightarrow> parser \<Rightarrow> (u64 \<times> u64 \<times> nat) parsed) \<Rightarrow> u64 \<times> u64 \<times> nat \<Rightarrow> parser \<Rightarrow> (u64 \<times> u64 \<times> nat) parsed" where
  "fields_body decl_spec declarators again acc s =
     (if t_kind (p_cur s) = T_RBRACE then Inr (acc, s)
      else bindE (decl_spec s)
        (\<lambda>(fbase, s).
           if t_kind (p_cur s) = T_SEMI then again acc (p_next s)
           else bindE (declarators fbase acc s) (\<lambda>(acc, s). again acc (parse_expect T_SEMI s))))"

definition members_round :: "(nat \<Rightarrow> parser \<Rightarrow> (nat option \<times> u8 list) parsed) \<Rightarrow> (u64 \<times> u64 \<times> nat \<Rightarrow> parser \<Rightarrow> (u64 \<times> u64 \<times> nat) parsed)
    \<Rightarrow> nat \<Rightarrow> bool \<Rightarrow> nat \<Rightarrow> u64 \<times> u64 \<times> nat \<Rightarrow> parser \<Rightarrow> (u64 \<times> u64 \<times> nat) parsed" where
  "members_round declarator again t is_union fbase acc s =
     bindE (declarator fbase s)
       (\<lambda>((ftyp, fname), s). case ftyp of
          None \<Rightarrow> Inl NullDeref
        | Some ftyp \<Rightarrow>
            (case add_field t is_union ftyp fname acc s of
               (acc, s) \<Rightarrow> (case accept T_COMMA s of (True, s) \<Rightarrow> again acc s | (False, s) \<Rightarrow> Inr (acc, s))))"

definition struct_type :: "bool \<Rightarrow> type_t" where
  "struct_type is_union = zero_type\<lparr>ty_kind := if is_union then TY_UNION else TY_STRUCT\<rparr>"

definition struct_body :: "(nat \<Rightarrow> bool \<Rightarrow> u64 \<times> u64 \<times> nat \<Rightarrow> parser \<Rightarrow> (u64 \<times> u64 \<times> nat) parsed) \<Rightarrow> bool \<Rightarrow> parser \<Rightarrow> nat parsed" where
  "struct_body body is_union s =
     (case read_tag s of
        (tag, s) \<Rightarrow>
          bindE (tagged_type tag (struct_type is_union) s)
            (\<lambda>(t, s).
               if t_kind (p_cur s) = T_LBRACE
               then bindE (body t is_union (0, 1, 0) (p_next s))
                 (\<lambda>(acc, s). bindE (finish_struct t is_union acc s) (\<lambda>(u, s). Inr (t, s)))
               else Inr (t, s)))"

definition enum_type :: type_t where
  "enum_type = zero_type\<lparr>ty_kind := TY_ENUM, ty_base := Some ty_int, ty_size := 4, ty_align := 4, is_complete := True\<rparr>"

text \<open>
  One enumerator. The value is an \<^verbatim>\<open>int\<close>; it is stored, as \<^verbatim>\<open>enum_val\<close>, in the last entry of the
  table of globals, whether or not the name was new.
\<close>

definition add_enumerator :: "u8 list \<Rightarrow> u32 \<Rightarrow> parser \<Rightarrow> unit parsed" where
  "add_enumerator name val s =
     (case symtab_install_global name SYM_ENUM_CONST (Some ty_int) (p_syms s) of
        None \<Rightarrow> Inl CcFatal
      | Some (i, st) \<Rightarrow>
          let g = g_globals st; k = length g - 1
          in Inr ((), s\<lparr>p_syms := st\<lparr>g_globals := g[k := (g ! k)\<lparr>sym_enum_val := scast val\<rparr>]\<rparr>\<rparr>))"

definition enum_round :: "(parser \<Rightarrow> int parsed) \<Rightarrow> (u32 \<Rightarrow> parser \<Rightarrow> unit parsed) \<Rightarrow> u32 \<Rightarrow> parser \<Rightarrow> unit parsed" where
  "enum_round const_expr again val s =
     (if t_kind (p_cur s) = T_RBRACE \<or> t_kind (p_cur s) \<noteq> T_IDENT then Inr ((), s)
      else let ename = take (CC_MAX_IDENT - 1) (t_text (p_cur s))
           in bindE (case accept T_ASSIGN (p_next s) of
                  (True, s) \<Rightarrow> bindE (const_expr s) (\<lambda>(i, s). Inr (word_of_int i, s))
                | (False, s) \<Rightarrow> Inr (val, s))
                (\<lambda>(val, s). bindE (add_enumerator ename val s)
                   (\<lambda>(u, s). case accept T_COMMA s of (True, s) \<Rightarrow> again (val + 1) s | (False, s) \<Rightarrow> Inr ((), s))))"

definition enum_body :: "(u32 \<Rightarrow> parser \<Rightarrow> unit parsed) \<Rightarrow> parser \<Rightarrow> nat parsed" where
  "enum_body enumerators s =
     (case read_tag s of
        (tag, s) \<Rightarrow>
          bindE (tagged_type tag enum_type s)
            (\<lambda>(t, s).
               if t_kind (p_cur s) = T_LBRACE
               then bindE (enumerators 0 (p_next s)) (\<lambda>(u, s). Inr (t, parse_expect T_RBRACE s))
               else Inr (t, s)))"

subsection \<open>The specifier loop\<close>

text \<open>One round of the loop. An identifier that is no type name ends the loop; a type name whose type is null only goes on.\<close>

definition spec_typedef :: "(parser \<Rightarrow> (nat option \<times> tspec) parsed) \<Rightarrow> tspec \<Rightarrow> parser \<Rightarrow> (nat option \<times> tspec) parsed" where
  "spec_typedef again f s =
     bindE (gen_lookup_global (t_text (p_cur s)) s)
       (\<lambda>(i, s). case i of
          None \<Rightarrow> Inr ((None, f), s)
        | Some i \<Rightarrow>
            (if sym_kind (g_globals (p_syms s) ! i) = SYM_TYPEDEF
             then (case sym_type (g_globals (p_syms s) ! i) of
                     None \<Rightarrow> again (p_next s)
                   | Some base \<Rightarrow> after_base f base (p_next s))
             else Inr ((None, f), s)))"

definition spec_round :: "(bool \<Rightarrow> parser \<Rightarrow> nat parsed) \<Rightarrow> (parser \<Rightarrow> nat parsed) \<Rightarrow> (tspec \<Rightarrow> parser \<Rightarrow> (nat option \<times> tspec) parsed)
    \<Rightarrow> tspec \<Rightarrow> parser \<Rightarrow> (nat option \<times> tspec) parsed" where
  "spec_round struct enum again f s =
     (case t_kind (p_cur s) of
        T_KW k \<Rightarrow>
          (case spec_flag k f of
             Some f \<Rightarrow> again f (p_next s)
           | None \<Rightarrow>
               (case spec_base k f of
                  Some base \<Rightarrow> after_base f base (p_next s)
                | None \<Rightarrow>
                    if k \<in> {T_KW_STRUCT, T_KW_UNION}
                    then bindE (struct (k = T_KW_UNION) (p_next s)) (\<lambda>(t, s). after_base f t s)
                    else if k = T_KW_ENUM then bindE (enum (p_next s)) (\<lambda>(t, s). after_base f t s)
                    else Inr ((None, f), s)))
      | T_IDENT \<Rightarrow> spec_typedef (again f) f s
      | _ \<Rightarrow> Inr ((None, f), s))"

definition finish_type_spec :: "nat option \<times> tspec \<Rightarrow> parser \<Rightarrow> nat parsed" where
  "finish_type_spec r s =
     (case r of
        (base, f) \<Rightarrow>
          let base = (case base of None \<Rightarrow> implicit_int f | Some base \<Rightarrow> base);
              s = (if sp_const f then upd_type base (\<lambda>t. t\<lparr>is_const := True\<rparr>) s else s);
              s = (if sp_volatile f then upd_type base (\<lambda>t. t\<lparr>is_volatile := True\<rparr>) s else s)
          in Inr (base, s))"

text \<open>The storage classes before the type: \<^verbatim>\<open>static\<close>, \<^verbatim>\<open>extern\<close>, \<^verbatim>\<open>typedef\<close>, \<^verbatim>\<open>inline\<close>.\<close>

record storage =
  st_static :: bool
  st_extern :: bool
  st_typedef :: bool
  st_inline :: bool

definition no_storage :: storage where
  "no_storage = \<lparr>st_static = False, st_extern = False, st_typedef = False, st_inline = False\<rparr>"

definition storage_flag :: "token_kind \<Rightarrow> storage \<Rightarrow> storage option" where
  "storage_flag k c =
     (if k = T_KW T_KW_STATIC then Some (c\<lparr>st_static := True\<rparr>) else if k = T_KW T_KW_EXTERN then Some (c\<lparr>st_extern := True\<rparr>)
      else if k = T_KW T_KW_TYPEDEF then Some (c\<lparr>st_typedef := True\<rparr>) else if k = T_KW T_KW_INLINE then Some (c\<lparr>st_inline := True\<rparr>)
      else None)"

primrec storage_loop :: "nat \<Rightarrow> storage \<Rightarrow> parser \<Rightarrow> storage parsed" where
  "storage_loop 0 c s = Inl NoFuel"
| "storage_loop (Suc n) c s =
     (case storage_flag (t_kind (p_cur s)) c of Some c \<Rightarrow> storage_loop n c (p_next s) | None \<Rightarrow> Inr (c, s))"

subsection \<open>Declarators\<close>

text \<open>The pointer stars and the qualifiers between them.\<close>

primrec stars :: "nat \<Rightarrow> nat option \<Rightarrow> parser \<Rightarrow> nat option parsed" where
  "stars 0 t s = Inl NoFuel"
| "stars (Suc n) t s =
     (case accept T_STAR s of
        (True, s) \<Rightarrow> (case make_ptr t s of (t, s) \<Rightarrow> stars n (Some t) s)
      | (False, s) \<Rightarrow>
          if t_kind (p_cur s) \<in> {T_KW T_KW_CONST, T_KW T_KW_VOLATILE, T_KW T_KW_RESTRICT} then stars n t (p_next s)
          else Inr (t, s))"

text \<open>
  One parameter: arrays and functions become pointers. The table of parameters is made for the
  first one.
\<close>

definition decay_param :: "nat \<Rightarrow> parser \<Rightarrow> nat \<times> parser" where
  "decay_param t s =
     (case (if ty_kind (p_types s ! t) = TY_ARRAY then with_types (type_decay t (p_types s)) s else (t, s)) of
        (t, s) \<Rightarrow> if ty_kind (p_types s ! t) = TY_FUNC then with_types (type_make_ptr t (p_types s)) s else (t, s))"

definition add_param :: "nat \<Rightarrow> u8 list \<Rightarrow> nat \<Rightarrow> parser \<Rightarrow> parser" where
  "add_param ft pname ptyp s =
     (let k = unat (nparams (p_types s ! ft))
      in if k < CC_MAX_FUNC_PARAMS
         then upd_type ft (\<lambda>ty. ty\<lparr>nparams := nparams ty + 1, ty_params := map_option (\<lambda>ps. ps[k := (ps ! k)\<lparr>param_name := pname,
           param_type := Some ptyp\<rparr>]) (ty_params ty)\<rparr>) (s\<lparr>p_types := type_ensure_params ft (p_types s)\<rparr>)
         else s)"

definition param_round :: "(parser \<Rightarrow> (nat \<times> storage) parsed) \<Rightarrow> (nat \<Rightarrow> parser \<Rightarrow> (nat option \<times> u8 list) parsed)
    \<Rightarrow> (parser \<Rightarrow> unit parsed) \<Rightarrow> nat \<Rightarrow> parser \<Rightarrow> unit parsed" where
  "param_round decl_spec declarator again ft s =
     (if t_kind (p_cur s) = T_ELLIPSIS then Inr ((), p_next (upd_type ft (\<lambda>t. t\<lparr>is_varargs := True\<rparr>) s))
      else bindE (decl_spec s)
        (\<lambda>((pbase, c), s). bindE (declarator pbase s)
           (\<lambda>((ptyp, pname), s). case ptyp of
              None \<Rightarrow> Inl NullDeref
            | Some ptyp \<Rightarrow>
                (case decay_param ptyp s of
                   (ptyp, s) \<Rightarrow>
                     (case accept T_COMMA (add_param ft pname ptyp s) of
                        (True, s) \<Rightarrow> again s
                      | (False, s) \<Rightarrow> Inr ((), s))))))"

definition parse_param_list :: "(nat \<Rightarrow> parser \<Rightarrow> unit parsed) \<Rightarrow> nat \<Rightarrow> parser \<Rightarrow> unit parsed" where
  "parse_param_list params ft s =
     (let s = upd_type ft (\<lambda>t. t\<lparr>nparams := 0, is_varargs := False\<rparr>) s
      in if t_kind (p_cur s) = T_RPAREN then Inr ((), s) else params ft s)"

text \<open>\<^verbatim>\<open>(void)\<close> means no parameters.\<close>

definition void_params :: "nat \<Rightarrow> parser \<Rightarrow> parser" where
  "void_params ft s =
     (let t = p_types s ! ft
      in case ty_params t of
           None \<Rightarrow> s
         | Some ps \<Rightarrow>
             if nparams t = 1 \<and> param_type (ps ! 0) = Some ty_void \<and> param_name (ps ! 0) = []
             then upd_type ft (\<lambda>t. t\<lparr>nparams := 0\<rparr>) s else s)"

definition suffix_round :: "(nat \<Rightarrow> parser \<Rightarrow> unit parsed) \<Rightarrow> (parser \<Rightarrow> int parsed) \<Rightarrow> (nat option \<Rightarrow> parser \<Rightarrow> nat option parsed)
    \<Rightarrow> nat option \<Rightarrow> parser \<Rightarrow> nat option parsed" where
  "suffix_round params const_expr suffix base s =
     (if t_kind (p_cur s) = T_LPAREN
      then (case make_function base (p_next s) of
              (ft, s) \<Rightarrow>
                bindE (parse_param_list params ft s)
                  (\<lambda>(u, s). suffix (Some ft) (void_params ft (parse_expect T_RPAREN s))))
      else if t_kind (p_cur s) = T_LBRACKET
      then let s = p_next s
           in bindE (if t_kind (p_cur s) \<noteq> T_RBRACKET then bindE (const_expr s) (\<lambda>(i, s). Inr (word_of_int i, s)) else Inr (0, s))
                (\<lambda>(len, s). bindE (suffix base (parse_expect T_RBRACKET s))
                   (\<lambda>(rest, s). bindE (make_array rest len s) (\<lambda>(t, s). Inr (Some t, s))))
      else Inr (base, s))"

text \<open>The splice follows the chain of type objects that the inner declarator has made.\<close>

definition splice :: "nat \<Rightarrow> nat option \<Rightarrow> nat option \<Rightarrow> parser \<Rightarrow> nat option parsed" where
  "splice n inner suf s =
     (case type_splice_base n inner suf (p_types s) of
        None \<Rightarrow> Inl NoFuel
      | Some (t, st) \<Rightarrow> Inr (t, s\<lparr>p_types := st\<rparr>))"

definition declarator_round :: "(nat option \<Rightarrow> parser \<Rightarrow> (nat option \<times> u8 list) parsed) \<Rightarrow> (nat option \<Rightarrow> parser \<Rightarrow> nat option parsed)
    \<Rightarrow> (nat option \<Rightarrow> nat option \<Rightarrow> parser \<Rightarrow> nat option parsed) \<Rightarrow> nat option \<Rightarrow> parser \<Rightarrow> (nat option \<times> u8 list) parsed" where
  "declarator_round declarator suffix spliced t s =
     (if t_kind (p_cur s) = T_LPAREN
      then bindE (declarator None (p_next s))
        (\<lambda>((inner, name), s). bindE (suffix t (parse_expect T_RPAREN s))
           (\<lambda>(suf, s). case inner of
              None \<Rightarrow> Inr ((suf, name), s)
            | Some i \<Rightarrow> bindE (spliced inner suf s) (\<lambda>(t, s). Inr ((t, name), s))))
      else let (name, s) = (if t_kind (p_cur s) = T_IDENT then (take (CC_MAX_IDENT - 1) (t_text (p_cur s)), p_next s) else ([], s))
           in bindE (suffix t s) (\<lambda>(t, s). Inr ((t, name), s)))"

subsection \<open>The mutual recursion\<close>

function type_spec_loop :: "nat \<Rightarrow> tspec \<Rightarrow> parser \<Rightarrow> (nat option \<times> tspec) parsed"
  and struct_fields :: "nat \<Rightarrow> nat \<Rightarrow> bool \<Rightarrow> u64 \<times> u64 \<times> nat \<Rightarrow> parser \<Rightarrow> (u64 \<times> u64 \<times> nat) parsed"
  and struct_members :: "nat \<Rightarrow> nat \<Rightarrow> bool \<Rightarrow> nat \<Rightarrow> u64 \<times> u64 \<times> nat \<Rightarrow> parser \<Rightarrow> (u64 \<times> u64 \<times> nat) parsed"
  and enumerators :: "nat \<Rightarrow> u32 \<Rightarrow> parser \<Rightarrow> unit parsed"
  and param_loop :: "nat \<Rightarrow> nat \<Rightarrow> parser \<Rightarrow> unit parsed"
  and parse_type_suffix :: "nat \<Rightarrow> nat option \<Rightarrow> parser \<Rightarrow> nat option parsed"
  and parse_declarator :: "nat \<Rightarrow> nat option \<Rightarrow> parser \<Rightarrow> (nat option \<times> u8 list) parsed" where
  "type_spec_loop n f s =
     (case n of 0 \<Rightarrow> Inl NoFuel
      | Suc n \<Rightarrow> spec_round (struct_body (struct_fields n)) (enum_body (enumerators n)) (type_spec_loop n) f s)"
| "struct_fields n t is_union acc s =
     (case n of 0 \<Rightarrow> Inl NoFuel
      | Suc n \<Rightarrow>
          fields_body (\<lambda>s. bindE (storage_loop n no_storage s) (\<lambda>(c, s). bindE (type_spec_loop n no_spec s) (\<lambda>(r, s). finish_type_spec r s)))
            (struct_members n t is_union) (struct_fields n t is_union) acc s)"
| "struct_members n t is_union fbase acc s =
     (case n of 0 \<Rightarrow> Inl NoFuel
      | Suc n \<Rightarrow> members_round (\<lambda>b. parse_declarator n (Some b)) (struct_members n t is_union fbase) t is_union fbase acc s)"
| "enumerators n val s =
     (case n of 0 \<Rightarrow> Inl NoFuel
      | Suc n \<Rightarrow>
          enum_round (parse_const_expr (\<lambda>s. bindE (type_spec_loop n no_spec s) (\<lambda>(r, s). bindE (finish_type_spec r s)
            (\<lambda>(b, s). bindE (parse_declarator n (Some b) s) (\<lambda>((t, name), s). Inr (t, s))))) n) (enumerators n) val s)"
| "param_loop n ft s =
     (case n of 0 \<Rightarrow> Inl NoFuel
      | Suc n \<Rightarrow>
          param_round (\<lambda>s. bindE (storage_loop n no_storage s) (\<lambda>(c, s). bindE (type_spec_loop n no_spec s) (\<lambda>(r, s).
            bindE (finish_type_spec r s) (\<lambda>(b, s). Inr ((b, c), s))))) (\<lambda>b. parse_declarator n (Some b)) (param_loop n ft) ft s)"
| "parse_type_suffix n base s =
     (case n of 0 \<Rightarrow> Inl NoFuel
      | Suc n \<Rightarrow>
          suffix_round (param_loop n) (parse_const_expr (\<lambda>s. bindE (type_spec_loop n no_spec s) (\<lambda>(r, s). bindE (finish_type_spec r s)
            (\<lambda>(b, s). bindE (parse_declarator n (Some b) s) (\<lambda>((t, name), s). Inr (t, s))))) n) (parse_type_suffix n) base s)"
| "parse_declarator n base s =
     (case n of 0 \<Rightarrow> Inl NoFuel
      | Suc n \<Rightarrow> bindE (stars n base s) (\<lambda>(t, s). declarator_round (parse_declarator n) (parse_type_suffix n) (splice n) t s))"
  by pat_completeness auto
termination
  by (relation "measure (case_sum (case_sum (\<lambda>(n, _). n) (case_sum (\<lambda>(n, _). n) (\<lambda>(n, _). n)))
      (case_sum (case_sum (\<lambda>(n, _). n) (\<lambda>(n, _). n)) (case_sum (\<lambda>(n, _). n) (\<lambda>(n, _). n))))") simp_all

declare type_spec_loop.simps [simp del] struct_fields.simps [simp del] struct_members.simps [simp del] enumerators.simps [simp del]
  param_loop.simps [simp del] parse_type_suffix.simps [simp del] parse_declarator.simps [simp del]

definition parse_type_spec :: "nat \<Rightarrow> parser \<Rightarrow> nat parsed" where
  "parse_type_spec n s = bindE (type_spec_loop n no_spec s) (\<lambda>(r, s). finish_type_spec r s)"

text \<open>The base is never null, so that \<^verbatim>\<open>parse_decl_spec\<close> never fails.\<close>

definition parse_decl_spec :: "nat \<Rightarrow> parser \<Rightarrow> (nat \<times> storage) parsed" where
  "parse_decl_spec n s =
     bindE (storage_loop n no_storage s)
       (\<lambda>(c, s). bindE (parse_type_spec n s) (\<lambda>(base, s). Inr ((base, c), s)))"

definition type_name :: "nat \<Rightarrow> parser \<Rightarrow> nat option parsed" where
  "type_name n s =
     bindE (parse_type_spec n s) (\<lambda>(base, s). bindE (parse_declarator n (Some base) s) (\<lambda>((t, name), s). Inr (t, s)))"

lemma bindE_Inr: "bindE m Inr = m"
  by (cases m) simp_all

lemma decl_fuel_Suc:
  "type_spec_loop (Suc n) f s = spec_round (struct_body (struct_fields n)) (enum_body (enumerators n)) (type_spec_loop n) f s"
  "struct_fields (Suc n) t u acc s = fields_body (\<lambda>s. bindE (parse_decl_spec n s) (\<lambda>((b, c), s). Inr (b, s)))
     (struct_members n t u) (struct_fields n t u) acc s"
  "struct_members (Suc n) t u fb acc s = members_round (\<lambda>b. parse_declarator n (Some b)) (struct_members n t u fb) t u fb acc s"
  "enumerators (Suc n) val s = enum_round (parse_const_expr (type_name n) n) (enumerators n) val s"
  "param_loop (Suc n) ft s = param_round (parse_decl_spec n) (\<lambda>b. parse_declarator n (Some b)) (param_loop n ft) ft s"
  "parse_type_suffix (Suc n) base s = suffix_round (param_loop n) (parse_const_expr (type_name n) n) (parse_type_suffix n) base s"
  "parse_declarator (Suc n) base s = bindE (stars n base s) (\<lambda>(t, s). declarator_round (parse_declarator n) (parse_type_suffix n) (splice n) t s)"
  by (simp_all add: type_spec_loop.simps [of "Suc n"] struct_fields.simps [of "Suc n"] struct_members.simps [of "Suc n"]
      enumerators.simps [of "Suc n"] param_loop.simps [of "Suc n"] parse_type_suffix.simps [of "Suc n"] parse_declarator.simps [of "Suc n"]
      type_name_def [abs_def] parse_decl_spec_def [abs_def] parse_type_spec_def [abs_def] bindE_assoc bindE_Inr split_def)

end
