(* ===== verification/Const_Eval_Props.thy ===== *)
theory Const_Eval_Props
  imports Const_Eval Gen_Binop
begin

text \<open>
  Constants are folded as the C standard defines it: the conversions and operators of the constant
  evaluator compute the values the operators have in C, which are the values the compiled code
  computes at run time.
\<close>

subsection \<open>Values\<close>

lemma const_signed_eq [simp]: "const_signed x = sint x"
proof -
  have "uint (NOT x) = 2 ^ 64 - 1 - uint x" 
  proof -
    have "uint (NOT x) = (- uint x - 1) mod 2 ^ 64" by (simp add: not_eq_complement uint_word_ariths mod_simps)
    also have "\<dots> = (- uint x - 1 + 2 ^ 64) mod 2 ^ 64" by (rule mod_add_self2 [symmetric])
    also have "- uint x - 1 + 2 ^ 64 = 2 ^ 64 - 1 - uint x" by simp
    also have "(2 ^ 64 - 1 - uint x) mod 2 ^ 64 = 2 ^ 64 - 1 - uint x"
    proof (rule mod_pos_pos_trivial)
      have "uint x < 2 ^ 64" using uint_lt2p [of x] by simp
      then show "0 \<le> 2 ^ 64 - 1 - uint x" "2 ^ 64 - 1 - uint x < 2 ^ 64" using uint_ge_0 [of x] by linarith+
    qed
    finally show ?thesis .
  qed
  then show ?thesis by (simp add: const_signed_def sint_cases word_le_def)
qed

lemma p_sizeof_eq: "is_complete (p_types s ! t) \<Longrightarrow> p_sizeof t s = (ty_size (p_types s ! t), s)"
  by (simp add: p_sizeof_def type_sizeof_def)

lemma narrowed:
  fixes x :: u64
  assumes "0 < n" "n < 64"
  shows "(if sg \<and> (x AND (push_bit n 1 - 1)) AND push_bit (n - 1) 1 \<noteq> 0 then x AND (push_bit n 1 - 1) OR NOT (push_bit n 1 - 1)
      else x AND (push_bit n 1 - 1)) = (if sg then signed_take_bit (n - 1) x else take_bit n x)"
proof -
  have m: "push_bit n 1 - 1 = (mask n :: u64)" by (simp add: mask_eq_exp_minus_1 push_bit_eq_mult)
  have b: "x AND mask n = take_bit n x" by (simp add: take_bit_eq_mask)
  have s: "take_bit n x AND push_bit (n - 1) 1 \<noteq> 0 \<longleftrightarrow> bit x (n - 1)"
    unfolding bit_iff_and_push_bit_not_eq_0 [symmetric] using assms by (simp add: bit_simps)
  have e: "k = n - Suc 0" if "n - Suc 0 \<le> k" "k < n" for k using that by linarith
  show ?thesis unfolding m b s using assms
    by (auto intro!: bit_word_eqI simp: bit_simps min_def split: if_splits) (metis e not_le)+
qed

lemma const_value_eq:
  assumes "int_like (p_types s ! t)"
  shows "const_value x t s = (\<lparr>cv_bits = conv (p_types s ! t) x, cv_type = t\<rparr>, s)"
proof (cases "ty_size (p_types s ! t) = 8")
  note sz = int_like_size [OF assms]
  case True
  then show ?thesis using conv_wide [OF assms True] sz(7) by (auto simp: const_value_def p_sizeof_eq [OF sz(2)] Let_def)
next
  note sz = int_like_size [OF assms]
  case False
  define n where "n = bits_of (p_types s ! t)"
  have n: "n \<in> {8, 16, 32}" using sz(1) False by (auto simp: n_def bits_of_def)
  have w: "ucast (ty_size (p_types s ! t)) * 8 = (word_of_nat n :: u32)" using sz(1) False by (auto simp: n_def bits_of_def)
  have u: "unat (word_of_nat n :: u32) = n" "unat (word_of_nat n - 1 :: u32) = n - 1" "(word_of_nat n :: u32) \<noteq> 0" "(word_of_nat n :: u32) < 64"
    using n by auto
  show ?thesis using n narrowed [of n "type_is_signed (p_types s ! t)" x]
    by (auto simp: const_value_def p_sizeof_eq [OF sz(2)] Let_def w u conv_def n_def [symmetric])
qed

subsection \<open>Operators\<close>

lemma const_divide_eq:
  assumes "b \<noteq> 0"
  shows "const_divide True (type_is_signed t) a b = word_of_int (int_of t a sdiv int_of t b)"
    "const_divide False (type_is_signed t) a b = word_of_int (int_of t a smod int_of t b)"
proof -
  define ma where "ma = (if sint a < 0 then 0 - a else a)"
  define mb where "mb = (if sint b < 0 then 0 - b else b)"
  have m: "uint ma = \<bar>sint a\<bar>" "uint mb = \<bar>sint b\<bar>" by (simp_all add: ma_def mb_def magnitude)
  have d: "ma div mb = word_of_int (\<bar>sint a\<bar> div \<bar>sint b\<bar>)" "ma mod mb = word_of_int (\<bar>sint a\<bar> mod \<bar>sint b\<bar>)"
    by (simp_all add: word_div_def word_mod_def m)
  have u: "const_divide q False a b = (if q then a div b else a mod b)"
    "const_divide q True a b = (if q then if (sint a < 0) \<noteq> (sint b < 0) then 0 - ma div mb else ma div mb
       else if sint a < 0 then 0 - ma mod mb else ma mod mb)" for q
    by (simp_all add: const_divide_def Let_def ma_def mb_def)
  have n: "sint b \<noteq> 0" using assms by (simp add: signed_eq_0_iff)
  show "const_divide True (type_is_signed t) a b = word_of_int (int_of t a sdiv int_of t b)"
  proof (cases "type_is_signed t")
    case True
    then show ?thesis using n by (auto simp: u d int_of_def signed_divide_int_def sgn_if)
  qed (simp add: u int_of_def word_div_def sdiv_nonneg)
  have s: "sint a smod sint b = (if sint a < 0 then - (\<bar>sint a\<bar> mod \<bar>sint b\<bar>) else \<bar>sint a\<bar> mod \<bar>sint b\<bar>)"
    using n by (auto simp: signed_modulo_int_def signed_divide_int_def sgn_if minus_div_mult_eq_mod [symmetric] minus_mult_div_eq_mod [symmetric])
  show "const_divide False (type_is_signed t) a b = word_of_int (int_of t a smod int_of t b)"
  proof (cases "type_is_signed t")
    case True
    then show ?thesis by (simp add: u d s int_of_def)
  qed (simp add: u int_of_def word_mod_def sdiv_nonneg)
qed

lemma const_shift_eq:
  assumes "unat b < 64"
  shows "const_shift True (type_is_signed t) a b = word_of_int (int_of t a * 2 ^ unat b)"
    "const_shift False (type_is_signed t) a b = word_of_int (int_of t a div 2 ^ unat b)"
proof -
  show "const_shift True (type_is_signed t) a b = word_of_int (int_of t a * 2 ^ unat b)"
    by (simp add: const_shift_def push_bit_eq_mult)
  have neg: "sint a < 0 \<longleftrightarrow> bit a 63" using bit_last_iff [of a] by simp
  have b: "unat (64 - b) = 64 - unat b" if "b \<noteq> 0" using assms by (simp add: unat_sub word_le_nat_alt)
  have u: "drop_bit (unat b) a = word_of_int (uint a div 2 ^ unat b)"
    by (intro bit_word_eqI) (auto simp: bit_simps simp flip: drop_bit_eq_div)
  have s: "(if b \<noteq> 0 \<and> bit a 63 then drop_bit (unat b) a OR push_bit (64 - unat b) (NOT 0) else drop_bit (unat b) a)
      = word_of_int (drop_bit (unat b) (sint a))"
  proof (rule bit_word_eqI)
    fix n assume n: "n < LENGTH(64)"
    have z: "b \<noteq> 0 \<longleftrightarrow> unat b \<noteq> 0" by (simp add: unat_eq_0)
    consider "unat b + n < 63" | "unat b + n = 63" | "63 < unat b + n" "\<not> bit a (unat b + n)"
      using bit_imp_le_length [of a "unat b + n"] by fastforce
    then show "bit (if b \<noteq> 0 \<and> bit a 63 then drop_bit (unat b) a OR push_bit (64 - unat b) (NOT 0) else drop_bit (unat b) a) n
        = bit (word_of_int (drop_bit (unat b) (sint a)) :: u64) n"
      using n assms by cases (auto simp: z bit_simps bit_sint_iff)
  qed
  show "const_shift False (type_is_signed t) a b = word_of_int (int_of t a div 2 ^ unat b)"
    using s u by (auto simp: const_shift_def neg int_of_def drop_bit_eq_div b)
qed

lemma const_switch_eq:
  assumes "op \<in> binary_ops" "int_like (p_types s ! c)" "op \<in> {T_SLASH, T_PERCENT} \<Longrightarrow> b \<noteq> 0"
    "op \<in> {T_SHL, T_SHR} \<Longrightarrow> unat b < bits_of (p_types s ! c)"
  defines "u \<equiv> \<not> type_is_signed (p_types s ! c)"
  shows "const_switch op c a b ev s = ((m_op op u u a b, is_comparison op), s)"
proof -
  let ?t = "p_types s ! c"
  consider (arith) "op \<in> {T_PLUS, T_MINUS, T_STAR, T_AMP, T_PIPE, T_CARET}" | (div) "op \<in> {T_SLASH, T_PERCENT}"
    | (shift) "op \<in> {T_SHL, T_SHR}" | (cmp) "op \<in> {T_EQ, T_NE, T_LT, T_GT, T_LE, T_GE}"
    using assms(1) by (auto simp: binary_ops_def)
  then show ?thesis
  proof cases
    case arith
    then show ?thesis
      by (elim insertE emptyE) (simp_all add: const_switch_def Let_def m_op_arith [where t = ?t] is_comparison_def
        of_int_and_eq of_int_or_eq of_int_xor_eq)
  next
    case div
    then show ?thesis using assms(3) m_op_div [of b u ?t u a]
      by (elim insertE emptyE) (simp_all add: const_switch_def Let_def const_divide_eq is_comparison_def u_def)
  next
    case shift
    have n: "unat (ty_size ?t * 8) = bits_of ?t" using int_like_size(1) [OF assms(2)] by (auto simp: bits_of_def)
    have lt: "\<not> ty_size ?t * 8 \<le> b" using assms(4) [OF shift] n by (simp add: word_le_nat_alt)
    have b: "unat b < 64" using assms(4) [OF shift] bits_of_cases [OF assms(2)] by auto
    have r: "int_of (zero_type\<lparr>ty_kind := TY_ULONG\<rparr>) b = int (unat b)" by (simp add: int_of_def type_is_signed_def)
    have b': "0 \<le> int (unat b)" "int (unat b) < 64" using b by linarith+
    note m = m_op_shift(1) [where rt = "zero_type\<lparr>ty_kind := TY_ULONG\<rparr>" and y = b and t = ?t and luns = u and uns = u and x = a, unfolded r, OF b']
      m_op_shift(2) [where rt = "zero_type\<lparr>ty_kind := TY_ULONG\<rparr>" and y = b and luns = u and uns = u and x = a, unfolded r, OF b']
    show ?thesis using shift b m
      by (elim insertE emptyE) (simp_all add: const_switch_def Let_def p_sizeof_eq [OF int_like_size(2) [OF assms(2)]] lt
        const_shift_eq is_comparison_def u_def int_of_def)
  next
    case cmp
    then show ?thesis
      by (elim insertE emptyE) (simp_all add: const_switch_def Let_def m_op_compare [where t = ?t] is_comparison_def u_def int_of_inj,
        simp_all add: int_of_def word_less_def word_le_def)
  qed
qed

subsection \<open>Combining two operands\<close>

text \<open>A value of the evaluator: an integer type and a word in the form of that type.\<close>

definition cv_ok :: "types \<Rightarrow> const_val \<Rightarrow> bool" where
  "cv_ok st v \<longleftrightarrow> cv_type v < length st \<and> type_is_integer (st ! cv_type v) \<and> canon (st ! cv_type v) (cv_bits v)"

definition cv_int :: "types \<Rightarrow> const_val \<Rightarrow> int" where
  "cv_int st v = int_of (st ! cv_type v) (cv_bits v)"

text \<open>The type of an operator's result and the operands its standard meaning depends on.\<close>

definition logical_ops :: "token_kind set" where
  "logical_ops = {T_AND, T_OR}"

definition op_type :: "token_kind \<Rightarrow> nat \<Rightarrow> nat \<Rightarrow> types \<Rightarrow> nat" where
  "op_type op lt rt st =
     (if is_comparison op \<or> op \<in> logical_ops then ty_int
      else if op \<in> {T_SHL, T_SHR} then type_promote lt st else type_common lt rt st)"

definition op_value :: "token_kind \<Rightarrow> nat \<Rightarrow> nat \<Rightarrow> types \<Rightarrow> int \<Rightarrow> int \<Rightarrow> int" where
  "op_value op lt rt st i j =
     (if op = T_AND then of_bool (i \<noteq> 0 \<and> j \<noteq> 0) else if op = T_OR then of_bool (i \<noteq> 0 \<or> j \<noteq> 0)
      else c_binop op (st ! type_common lt rt st) (st ! type_promote lt st) i j)"

definition op_defined :: "token_kind \<Rightarrow> nat \<Rightarrow> types \<Rightarrow> int \<Rightarrow> bool" where
  "op_defined op lt st j \<longleftrightarrow> c_defined op (st ! type_promote lt st) j"

lemma cv_facts:
  assumes "types_ok st" "cv_ok st v"
  shows "int_like (st ! cv_type v)" "int_like (st ! type_promote (cv_type v) st)" "ty_kind (st ! type_promote (cv_type v) st) \<noteq> TY_BOOL"
    "conv (st ! type_promote (cv_type v) st) (cv_bits v) = cv_bits v" "int_of (st ! type_promote (cv_type v) st) (cv_bits v) = cv_int st v"
    "type_is_integer (st ! type_promote (cv_type v) st)" "type_promote (cv_type v) st < length st"
proof -
  have v: "cv_type v < length st" "type_is_integer (st ! cv_type v)" "canon (st ! cv_type v) (cv_bits v)" using assms(2) by (auto simp: cv_ok_def)
  note p = promote_canon [OF assms(1) v]
  show "int_like (st ! cv_type v)" using types_okD(3) [OF assms(1) v(1)] v(2) by (simp add: int_like_def)
  show "int_like (st ! type_promote (cv_type v) st)" "ty_kind (st ! type_promote (cv_type v) st) \<noteq> TY_BOOL"
    "conv (st ! type_promote (cv_type v) st) (cv_bits v) = cv_bits v" "int_of (st ! type_promote (cv_type v) st) (cv_bits v) = cv_int st v"
    using p by (simp_all add: canon_def cv_int_def)
  show "type_promote (cv_type v) st < length st" by (rule promote_less [OF assms(1) v(1)])
  show "type_is_integer (st ! type_promote (cv_type v) st)"
    using v(2) types_okD(2) [OF assms(1), of 7] by (auto simp: type_promote_def type_is_integer_def prim_table_def)
qed

lemma ty_int_facts:
  assumes "types_ok st"
  shows "int_like (st ! 7)" "ty_kind (st ! 7) = TY_INT" "7 < length st" "type_is_integer (st ! 7)"
proof -
  show l: "7 < length st" and k: "ty_kind (st ! 7) = TY_INT"
    using types_okD [OF assms] by (auto simp: prim_table_def)
  then show "type_is_integer (st ! 7)" by (simp add: type_is_integer_def)
  then show "int_like (st ! 7)" using types_okD(3) [OF assms l] by (simp add: int_like_def)
qed

text \<open>Converting a value to a type at least as wide never makes it zero.\<close>

lemma conv_zero:
  assumes "int_like t" "int_like c" "ty_kind c \<noteq> TY_BOOL" "canon t x" "bits_of t \<le> bits_of c"
  shows "conv c x = 0 \<longleftrightarrow> x = 0"
proof
  assume z: "conv c x = 0"
  have n: "0 < bits_of t" "0 < bits_of c" using bits_of_cases [OF assms(1)] bits_of_cases [OF assms(2)] by auto
  have "take_bit (bits_of c) (conv c x) = take_bit (bits_of c) x" using assms(3) n(2) by (auto simp: conv_def take_bit_signed_take_bit)
  then have "take_bit (bits_of c) x = 0" using z by simp
  moreover have "take_bit (bits_of t) (take_bit (bits_of c) x) = take_bit (bits_of t) x" using assms(5) by (simp add: min_def)
  ultimately have tb: "take_bit (bits_of t) x = 0" by simp
  show "x = 0"
  proof (cases "ty_kind t = TY_BOOL")
    case True
    then show ?thesis using assms(4) tb n(1) by (cases "x = 0") (auto simp: canon_def conv_def)
  next
    case False
    have "signed_take_bit (bits_of t - 1) x = 0"
      using tb n(1) signed_take_bit_eq_iff_take_bit_eq [of "bits_of t - 1" x 0] by simp
    then show ?thesis using False assms(4) tb by (auto simp: canon_def conv_def split: if_splits)
  qed
qed (auto simp: conv_def)

lemma common_bits:
  assumes "types_ok st" "a < length st" "b < length st" "type_is_integer (st ! a)" "type_is_integer (st ! b)"
  shows "bits_of (st ! a) \<le> bits_of (st ! type_common a b st)" "bits_of (st ! b) \<le> bits_of (st ! type_common a b st)"
proof -
  have p: "bits_of (st ! t) \<le> bits_of (st ! type_promote t st)" if "t < length st" "type_is_integer (st ! t)" for t
    using that integer_size(1) [of "st ! t"] types_okD(3) [OF assms(1) that(1)] integer_size(1) [OF ty_int_facts(4) [OF assms(1)]]
      types_okD(3) [OF assms(1) ty_int_facts(3) [OF assms(1)]] ty_int_facts(2) [OF assms(1)]
    by (auto simp: type_promote_def bits_of_def c_size_def prim_table_def)
  have nf: "ty_kind (st ! type_promote t st) \<notin> {TY_FLOAT, TY_DOUBLE, TY_LDOUBLE}" if "type_is_integer (st ! t)" for t
    using that ty_int_facts(2) [OF assms(1)] by (auto simp: type_promote_def type_is_integer_def)
  have "bits_of (st ! type_promote a st) \<le> bits_of (st ! type_common a b st)" "bits_of (st ! type_promote b st) \<le> bits_of (st ! type_common a b st)"
    using nf [OF assms(4)] nf [OF assms(5)] by (auto simp: type_common_def Let_def bits_of_def word_less_nat_alt)
  then show "bits_of (st ! a) \<le> bits_of (st ! type_common a b st)" "bits_of (st ! b) \<le> bits_of (st ! type_common a b st)"
    using p [OF assms(2,4)] p [OF assms(3,5)] by linarith+
qed

lemma const_switch_undefined:
  assumes "int_like (p_types s ! c)" "op \<in> {T_SLASH, T_PERCENT} \<and> b = 0 \<or> op \<in> {T_SHL, T_SHR} \<and> bits_of (p_types s ! c) \<le> unat b"
  shows "const_switch op c a b False s = ((0, False), s)"
proof -
  have "unat (ty_size (p_types s ! c) * 8) = bits_of (p_types s ! c)" using int_like_size(1) [OF assms(1)] by (auto simp: bits_of_def)
  then show ?thesis using assms(2)
    by (auto simp: const_switch_def Let_def p_sizeof_eq [OF int_like_size(2) [OF assms(1)]] word_le_nat_alt)
qed

text \<open>A result word converted to its type is a value of the evaluator.\<close>

lemma const_result:
  assumes "types_ok (p_types s)" "t < length (p_types s)" "type_is_integer (p_types s ! t)"
  shows "const_value x t s = (\<lparr>cv_bits = conv (p_types s ! t) x, cv_type = t\<rparr>, s)"
    "cv_ok (p_types s) \<lparr>cv_bits = conv (p_types s ! t) x, cv_type = t\<rparr>"
proof -
  have i: "int_like (p_types s ! t)" using types_okD(3) [OF assms(1,2)] assms(3) by (simp add: int_like_def)
  show "const_value x t s = (\<lparr>cv_bits = conv (p_types s ! t) x, cv_type = t\<rparr>, s)" by (rule const_value_eq [OF i])
  show "cv_ok (p_types s) \<lparr>cv_bits = conv (p_types s ! t) x, cv_type = t\<rparr>" using assms by (simp add: cv_ok_def canon_def conv_conv [OF i])
qed

lemma cv_int_zero: "cv_int st v = 0 \<longleftrightarrow> cv_bits v = 0"
  by (simp add: cv_int_def int_of_def signed_eq_0_iff unsigned_eq_0_iff)

lemma combine_shift:
  assumes st: "types_ok (p_types s)" and l: "cv_ok (p_types s) l" and r: "cv_ok (p_types s) r" and op: "op \<in> {T_SHL, T_SHR}"
    and ev: "ev \<longrightarrow> op_defined op (cv_type l) (p_types s) (cv_int (p_types s) r)"
  defines "t \<equiv> type_promote (cv_type l) (p_types s)"
  shows "\<exists>w. const_combine op l r ev s = (\<lparr>cv_bits = conv (p_types s ! t) w, cv_type = t\<rparr>, s)
    \<and> (op_defined op (cv_type l) (p_types s) (cv_int (p_types s) r) \<longrightarrow> int_of (p_types s ! t) (conv (p_types s ! t) w)
       = op_value op (cv_type l) (cv_type r) (p_types s) (cv_int (p_types s) l) (cv_int (p_types s) r))"
proof -
  note lf = cv_facts [OF st l, folded t_def] and rf = cv_facts [OF st r]
  let ?p = "p_types s ! t" and ?j = "cv_int (p_types s) r"
  have d: "op_defined op (cv_type l) (p_types s) ?j \<longleftrightarrow> unat (cv_bits r) < bits_of ?p"
  proof -
    have b: "bits_of ?p \<le> 64" using bits_of_cases [OF lf(2)] by auto
    have "0 \<le> ?j \<and> ?j < int (bits_of ?p) \<longleftrightarrow> uint (cv_bits r) < int (bits_of ?p)"
      using b uint_ge_0 [of "cv_bits r"] uint_lt2p [of "cv_bits r"] by (auto simp: cv_int_def int_of_def sint_cases)
    then show ?thesis using op by (auto simp: op_defined_def c_defined_def t_def simp flip: of_nat_less_iff [where 'a = int])
  qed
  define w where "w = fst (fst (const_switch op t (cv_bits l) (cv_bits r) ev s))"
  have sw: "const_switch op t (cv_bits l) (cv_bits r) ev s = ((w, False), s)
      \<and> (unat (cv_bits r) < bits_of ?p \<longrightarrow> w = m_op op (\<not> type_is_signed ?p) (\<not> type_is_signed ?p) (cv_bits l) (cv_bits r))"
  proof (cases "unat (cv_bits r) < bits_of ?p")
    case True
    have "const_switch op t (cv_bits l) (cv_bits r) ev s
        = ((m_op op (\<not> type_is_signed ?p) (\<not> type_is_signed ?p) (cv_bits l) (cv_bits r), is_comparison op), s)"
      by (rule const_switch_eq) (use op lf(2) True in \<open>auto simp: binary_ops_def\<close>)
    then show ?thesis using op by (auto simp: w_def is_comparison_def)
  next
    case False
    then have "\<not> ev" using ev d by blast
    then show ?thesis using const_switch_undefined [OF lf(2), of op "cv_bits r" "cv_bits l"] op False by (auto simp: w_def)
  qed
  have c: "const_combine op l r ev s = const_value w t s"
    using op sw lf(4) rf(4) by (auto simp: const_combine_def Let_def const_value_eq [OF lf(2)] const_value_eq [OF rf(2)] simp flip: t_def)
  have v: "int_of ?p (conv ?p w) = op_value op (cv_type l) (cv_type r) (p_types s) (cv_int (p_types s) l) ?j"
    if "unat (cv_bits r) < bits_of ?p"
  proof -
    have w: "w = m_op op (\<not> type_is_signed ?p) (\<not> type_is_signed ?p) (cv_bits l) (cv_bits r)" using sw that by blast
    have "int_of (result_of op ?p ?p (p_types s ! 7)) (conv (result_of op ?p ?p (p_types s ! 7)) w)
        = c_binop op ?p ?p (int_of (p_types s ! cv_type l) (cv_bits l)) (int_of (p_types s ! cv_type r) (cv_bits r))"
      unfolding w
    proof (rule binop_value)
      show "c_defined op ?p (int_of (p_types s ! cv_type r) (cv_bits r))"
        using that d by (simp add: op_defined_def t_def cv_int_def)
    qed (use op lf ty_int_facts [OF st] in \<open>auto simp: binary_ops_def canon_def int_of_def\<close>)
    then show ?thesis using op by (auto simp: result_of_def is_comparison_def op_value_def c_binop_def cv_int_def Let_def t_def)
  qed
  show ?thesis unfolding c const_value_eq [OF lf(2)] using v d by blast
qed

lemma common_facts:
  assumes "types_ok st" "cv_ok st l" "cv_ok st r"
  defines "c \<equiv> type_common (cv_type l) (cv_type r) st"
  shows "int_like (st ! c)" "ty_kind (st ! c) \<noteq> TY_BOOL" "type_is_integer (st ! c)" "c < length st"
    "conv (st ! c) (cv_bits l) = 0 \<longleftrightarrow> cv_bits l = 0" "conv (st ! c) (cv_bits r) = 0 \<longleftrightarrow> cv_bits r = 0"
proof -
  have l: "cv_type l < length st" "type_is_integer (st ! cv_type l)" "canon (st ! cv_type l) (cv_bits l)"
    and r: "cv_type r < length st" "type_is_integer (st ! cv_type r)" "canon (st ! cv_type r) (cv_bits r)"
    using assms(2,3) by (auto simp: cv_ok_def)
  show c: "int_like (st ! c)" "ty_kind (st ! c) \<noteq> TY_BOOL" "type_is_integer (st ! c)"
    unfolding c_def by (rule common_int [OF assms(1) l(1) r(1) l(2) r(2)])+
  show "c < length st" unfolding c_def by (rule common_less [OF assms(1) l(1) r(1)])
  note b = common_bits [OF assms(1) l(1) r(1) l(2) r(2), folded c_def]
  show "conv (st ! c) (cv_bits l) = 0 \<longleftrightarrow> cv_bits l = 0" "conv (st ! c) (cv_bits r) = 0 \<longleftrightarrow> cv_bits r = 0"
    using conv_zero [OF cv_facts(1) [OF assms(1,2)] c(1,2) l(3) b(1)] conv_zero [OF cv_facts(1) [OF assms(1,3)] c(1,2) r(3) b(2)] by simp_all
qed

lemma combine_logical:
  assumes st: "types_ok (p_types s)" and l: "cv_ok (p_types s) l" and r: "cv_ok (p_types s) r" and op: "op \<in> logical_ops"
  shows "\<exists>w. const_combine op l r ev s = (\<lparr>cv_bits = conv (p_types s ! 7) w, cv_type = 7\<rparr>, s)
    \<and> int_of (p_types s ! 7) (conv (p_types s ! 7) w)
       = op_value op (cv_type l) (cv_type r) (p_types s) (cv_int (p_types s) l) (cv_int (p_types s) r)"
proof -
  note c = common_facts [OF st l r] and i = ty_int_facts [OF st]
  define w :: u64 where "w = of_bool (if op = T_AND then cv_bits l \<noteq> 0 \<and> cv_bits r \<noteq> 0 else cv_bits l \<noteq> 0 \<or> cv_bits r \<noteq> 0)"
  have sw: "const_switch op c a b ev s = ((of_bool (if op = T_AND then a \<noteq> 0 \<and> b \<noteq> 0 else a \<noteq> 0 \<or> b \<noteq> 0), True), s)" for c a b
    using op by (auto simp: logical_ops_def const_switch_def)
  have "op \<notin> {T_SHL, T_SHR}" using op by (auto simp: logical_ops_def)
  then have "const_combine op l r ev s = const_value w 7 s"
    by (simp add: const_combine_def Let_def const_value_eq [OF c(1)] sw c(5,6) w_def)
  moreover have "int_of (p_types s ! 7) (conv (p_types s ! 7) w)
      = op_value op (cv_type l) (cv_type r) (p_types s) (cv_int (p_types s) l) (cv_int (p_types s) r)"
    unfolding w_def flag_conv [OF i(1,2)] using op by (auto simp: op_value_def cv_int_zero logical_ops_def)
  ultimately show ?thesis unfolding const_value_eq [OF i(1)] by blast
qed

lemma c_binop_conv:
  assumes "int_like c" "op \<in> binary_ops" "op \<notin> {T_SHL, T_SHR}"
  shows "c_binop op c c (int_of c (conv c x)) (int_of c (conv c y)) = c_binop op c p (int_of lt x) (int_of rt y)"
proof -
  have "c_convert c (int_of c (conv c x)) = c_convert c (int_of t x)" for x t
    using int_of_conv [OF assms(1), of "conv c x" c] int_of_conv [OF assms(1), of x t] by (simp add: conv_conv [OF assms(1)])
  note e = this [of x lt] this [of y rt]
  show ?thesis unfolding c_binop_def Let_def e using assms(3) by simp
qed

lemma combine_plain:
  assumes st: "types_ok (p_types s)" and l: "cv_ok (p_types s) l" and r: "cv_ok (p_types s) r"
    and op: "op \<in> binary_ops" "op \<notin> {T_SHL, T_SHR}" and ev: "ev \<longrightarrow> op_defined op (cv_type l) (p_types s) (cv_int (p_types s) r)"
  defines "c \<equiv> type_common (cv_type l) (cv_type r) (p_types s)"
  defines "t \<equiv> if is_comparison op then 7 else c"
  shows "\<exists>w. const_combine op l r ev s = (\<lparr>cv_bits = conv (p_types s ! t) w, cv_type = t\<rparr>, s)
    \<and> (op_defined op (cv_type l) (p_types s) (cv_int (p_types s) r) \<longrightarrow> int_of (p_types s ! t) (conv (p_types s ! t) w)
       = op_value op (cv_type l) (cv_type r) (p_types s) (cv_int (p_types s) l) (cv_int (p_types s) r))"
proof -
  note cf = common_facts [OF st l r, folded c_def] and i = ty_int_facts [OF st]
  let ?c = "p_types s ! c"
  define a where "a = conv ?c (cv_bits l)"
  define b where "b = conv ?c (cv_bits r)"
  have d: "op_defined op (cv_type l) (p_types s) (cv_int (p_types s) r) \<longleftrightarrow> (op \<in> {T_SLASH, T_PERCENT} \<longrightarrow> b \<noteq> 0)"
    using op(2) cf(6) by (auto simp: op_defined_def c_defined_def b_def cv_int_zero)
  define w where "w = fst (fst (const_switch op c a b ev s))"
  have sw: "const_switch op c a b ev s = ((w, is_comparison op), s)
      \<and> ((op \<in> {T_SLASH, T_PERCENT} \<longrightarrow> b \<noteq> 0) \<longrightarrow> w = m_op op (\<not> type_is_signed ?c) (\<not> type_is_signed ?c) a b)"
  proof (cases "op \<in> {T_SLASH, T_PERCENT} \<longrightarrow> b \<noteq> 0")
    case True
    have "const_switch op c a b ev s = ((m_op op (\<not> type_is_signed ?c) (\<not> type_is_signed ?c) a b, is_comparison op), s)"
      by (rule const_switch_eq) (use op cf(1) True in auto)
    then show ?thesis by (auto simp: w_def)
  next
    case False
    then have "\<not> ev" using ev d by blast
    then show ?thesis using const_switch_undefined [OF cf(1), of op b a] False by (auto simp: w_def is_comparison_def)
  qed
  have "const_combine op l r ev s = const_value w t s"
    using op(2) sw by (auto simp: const_combine_def Let_def const_value_eq [OF cf(1)] t_def simp flip: c_def a_def b_def)
  moreover have "int_like (p_types s ! t)" using cf(1) i(1) by (simp add: t_def)
  moreover have "int_of (p_types s ! t) (conv (p_types s ! t) w)
      = op_value op (cv_type l) (cv_type r) (p_types s) (cv_int (p_types s) l) (cv_int (p_types s) r)"
    if nz: "op \<in> {T_SLASH, T_PERCENT} \<longrightarrow> b \<noteq> 0"
  proof -
    have w: "w = m_op op (\<not> type_is_signed ?c) (\<not> type_is_signed ?c) a b" using sw nz by blast
    have "int_of (result_of op ?c ?c (p_types s ! 7)) (conv (result_of op ?c ?c (p_types s ! 7)) w) = c_binop op ?c ?c (int_of ?c a) (int_of ?c b)"
      unfolding w
    proof (rule binop_value)
      show "c_defined op ?c (int_of ?c b)" using nz op(2) by (auto simp: c_defined_def int_of_def signed_eq_0_iff unsigned_eq_0_iff)
    qed (use op cf i in \<open>auto simp: a_def b_def canon_def conv_conv int_of_def\<close>)
    also have "result_of op ?c ?c (p_types s ! 7) = p_types s ! t" using op(2) by (simp add: result_of_def t_def)
    finally show ?thesis unfolding a_def b_def c_binop_conv [OF cf(1) op, where p = "p_types s ! type_promote (cv_type l) (p_types s)"
          and lt = "p_types s ! cv_type l" and rt = "p_types s ! cv_type r"]
      using op by (auto simp: op_value_def cv_int_def c_def binary_ops_def)
  qed
  ultimately show ?thesis using d const_value_eq by metis
qed

text \<open>Every operator at once.\<close>

lemma const_combine_ok:
  assumes st: "types_ok (p_types s)" and l: "cv_ok (p_types s) l" and r: "cv_ok (p_types s) r" and op: "op \<in> binary_ops \<union> logical_ops"
    and ev: "ev \<longrightarrow> op_defined op (cv_type l) (p_types s) (cv_int (p_types s) r)"
  shows "\<exists>v. const_combine op l r ev s = (v, s) \<and> cv_ok (p_types s) v \<and> cv_type v = op_type op (cv_type l) (cv_type r) (p_types s)
    \<and> (op_defined op (cv_type l) (p_types s) (cv_int (p_types s) r) \<longrightarrow>
       cv_int (p_types s) v = op_value op (cv_type l) (cv_type r) (p_types s) (cv_int (p_types s) l) (cv_int (p_types s) r))"
proof -
  define t where "t = op_type op (cv_type l) (cv_type r) (p_types s)"
  have t: "t < length (p_types s)" "type_is_integer (p_types s ! t)"
    using ty_int_facts [OF st] cv_facts(6,7) [OF st l] common_facts(3,4) [OF st l r] by (simp_all add: t_def op_type_def)
  have "\<exists>w. const_combine op l r ev s = (\<lparr>cv_bits = conv (p_types s ! t) w, cv_type = t\<rparr>, s)
    \<and> (op_defined op (cv_type l) (p_types s) (cv_int (p_types s) r) \<longrightarrow> int_of (p_types s ! t) (conv (p_types s ! t) w)
       = op_value op (cv_type l) (cv_type r) (p_types s) (cv_int (p_types s) l) (cv_int (p_types s) r))"
  proof (cases "op \<in> logical_ops")
    case True
    then have "t = 7" by (simp add: t_def op_type_def)
    then show ?thesis using combine_logical [OF st l r True, of ev] by auto
  next
    case log: False
    show ?thesis
    proof (cases "op \<in> {T_SHL, T_SHR}")
      case True
      then have "t = type_promote (cv_type l) (p_types s)" using log by (auto simp: t_def op_type_def is_comparison_def)
      then show ?thesis using combine_shift [OF st l r True ev] by simp
    next
      case False
      then have "t = (if is_comparison op then 7 else type_common (cv_type l) (cv_type r) (p_types s))"
        using log by (auto simp: t_def op_type_def)
      then show ?thesis using combine_plain [OF st l r _ False ev] op log by auto
    qed
  qed
  then show ?thesis using const_result(2) [OF st t] unfolding t_def [symmetric] by (fastforce simp: cv_int_def)
qed

end
