(* ===== verification/Const_Eval_Sem.thy ===== *)
theory Const_Eval_Sem
  imports Const_Eval_Props Lexer_Props
begin

text \<open>
  The evaluator on whole expressions: the tokens of a constant expression, written with the
  parentheses the grammar of C requires, are evaluated to the value the C standard defines.
\<close>

subsection \<open>Expressions\<close>

datatype cexpr = CLit token_kind u64 | CUn token_kind cexpr | CBin token_kind cexpr cexpr | CCond cexpr cexpr cexpr

definition literal_kinds :: "token_kind set" where
  "literal_kinds = {T_CHAR_LIT, T_INT, T_LONG, T_UINT, T_ULONG}"

definition unary_ops :: "token_kind set" where
  "unary_ops = {T_PLUS, T_MINUS, T_NOT, T_TILDE}"

fun wf_cexpr :: "cexpr \<Rightarrow> bool" where
  "wf_cexpr (CLit k v) \<longleftrightarrow> k \<in> literal_kinds"
| "wf_cexpr (CUn op e) \<longleftrightarrow> op \<in> unary_ops \<and> wf_cexpr e"
| "wf_cexpr (CBin op l r) \<longleftrightarrow> op \<in> binary_ops \<union> logical_ops \<and> wf_cexpr l \<and> wf_cexpr r"
| "wf_cexpr (CCond c a b) \<longleftrightarrow> wf_cexpr c \<and> wf_cexpr a \<and> wf_cexpr b"

text \<open>The precedences of the C grammar, from the conditional operator to the literals.\<close>

definition c_prec :: "token_kind \<Rightarrow> nat" where
  "c_prec op =
     (if op \<in> {T_STAR, T_SLASH, T_PERCENT} then 10 else if op \<in> {T_PLUS, T_MINUS} then 9 else if op \<in> {T_SHL, T_SHR} then 8
      else if op \<in> {T_LT, T_GT, T_LE, T_GE} then 7 else if op \<in> {T_EQ, T_NE} then 6 else if op = T_AMP then 5
      else if op = T_CARET then 4 else if op = T_PIPE then 3 else if op = T_AND then 2 else 1)"

fun c_level :: "cexpr \<Rightarrow> nat" where
  "c_level (CLit k v) = 12"
| "c_level (CUn op e) = 11"
| "c_level (CBin op l r) = c_prec op"
| "c_level (CCond c a b) = 0"

type_synonym ctok = "token_kind \<times> u64"

abbreviation (input) punct :: "token_kind \<Rightarrow> ctok" where "punct k \<equiv> (k, 0)"

definition parens :: "bool \<Rightarrow> ctok list \<Rightarrow> ctok list" where
  "parens p ts = (if p then punct T_LPAREN # ts @ [punct T_RPAREN] else ts)"

fun toks :: "cexpr \<Rightarrow> ctok list" where
  "toks (CLit k v) = [(k, v)]"
| "toks (CUn op e) = punct op # parens (c_level e < 11) (toks e)"
| "toks (CBin op l r) =
     parens (c_level l < c_prec op) (toks l) @ [punct op] @ parens (c_level r < c_prec op + 1) (toks r)"
| "toks (CCond c a b) = parens (c_level c < 1) (toks c) @ [punct T_QUESTION] @ toks a @ [punct T_COLON] @ toks b"

text \<open>Type and value of an expression in the C standard, and when the standard defines it.\<close>

fun ctype :: "types \<Rightarrow> cexpr \<Rightarrow> nat" where
  "ctype st (CLit k v) = literal_type k"
| "ctype st (CUn op e) = (if op = T_NOT then ty_int else type_promote (ctype st e) st)"
| "ctype st (CBin op l r) = op_type op (ctype st l) (ctype st r) st"
| "ctype st (CCond c a b) = type_common (ctype st a) (ctype st b) st"

fun cval :: "types \<Rightarrow> cexpr \<Rightarrow> int" where
  "cval st (CLit k v) = c_convert (st ! literal_type k) (uint v)"
| "cval st (CUn op e) =
     (let i = cval st e; t = st ! type_promote (ctype st e) st
      in if op = T_NOT then of_bool (i = 0) else if op = T_MINUS then c_convert t (- i)
         else if op = T_TILDE then c_convert t (- i - 1) else i)"
| "cval st (CBin op l r) = op_value op (ctype st l) (ctype st r) st (cval st l) (cval st r)"
| "cval st (CCond c a b) = c_convert (st ! type_common (ctype st a) (ctype st b) st) (if cval st c \<noteq> 0 then cval st a else cval st b)"

fun cdef :: "types \<Rightarrow> cexpr \<Rightarrow> bool" where
  "cdef st (CLit k v) \<longleftrightarrow> True"
| "cdef st (CUn op e) \<longleftrightarrow> cdef st e"
| "cdef st (CBin op l r) \<longleftrightarrow>
     cdef st l \<and> (op = T_AND \<and> cval st l = 0 \<or> op = T_OR \<and> cval st l \<noteq> 0
       \<or> cdef st r \<and> op_defined op (ctype st l) st (cval st r))"
| "cdef st (CCond c a b) \<longleftrightarrow> cdef st c \<and> (if cval st c \<noteq> 0 then cdef st a else cdef st b)"

subsection \<open>The tokens ahead\<close>

fun toks_at :: "parser \<Rightarrow> ctok list \<Rightarrow> bool" where
  "toks_at s [] \<longleftrightarrow> True"
| "toks_at s ((k, v) # ts) \<longleftrightarrow> t_kind (p_cur s) = k \<and> (k \<in> literal_kinds \<longrightarrow> t_ival (p_cur s) = v) \<and> toks_at (p_next s) ts"

definition skip :: "nat \<Rightarrow> parser \<Rightarrow> parser" where
  "skip n s = (p_next ^^ n) s"

abbreviation (input) next_kind :: "nat \<Rightarrow> parser \<Rightarrow> token_kind" where
  "next_kind n s \<equiv> t_kind (p_cur (skip n s))"

lemma skip_simps [simp]: "skip 0 s = s" "skip (Suc n) s = skip n (p_next s)" "skip n (skip m s) = skip (m + n) s"
  by (simp_all add: skip_def funpow_swap1 funpow_add add.commute [of m n])

lemma p_types_skip [simp]: "p_types (p_next s) = p_types s" "p_types (skip n s) = p_types s"
proof -
  show p: "p_types (p_next s) = p_types s" for s by (simp add: p_next_def)
  show "p_types (skip n s) = p_types s" by (induction n arbitrary: s) (simp_all add: p)
qed

lemma toks_at_append [simp]: "toks_at s (ts @ us) \<longleftrightarrow> toks_at s ts \<and> toks_at (skip (length ts) s) us"
  by (induction s ts rule: toks_at.induct) auto

text \<open>The result of a function for all large enough amounts of fuel.\<close>

definition evs :: "(nat \<Rightarrow> 'e + 'r) \<Rightarrow> 'r \<Rightarrow> bool" where
  "evs f r \<longleftrightarrow> (\<exists>n. \<forall>m \<ge> n. f m = Inr r)"

lemma evs_Suc:
  assumes "\<And>n. f (Suc n) = g n" "evs g r"
  shows "evs f r"
proof -
  obtain n where "\<forall>m \<ge> n. g m = Inr r" using assms(2) by (auto simp: evs_def)
  then have "f m = Inr r" if "Suc n \<le> m" for m using assms(1) that by (cases m) auto
  then show ?thesis unfolding evs_def by blast
qed

lemma evs_bind:
  assumes "evs f (v, s)" "evs (\<lambda>n. g n (v, s)) r"
  shows "evs (\<lambda>n. bindE (f n) (g n)) r"
proof -
  obtain a b where "\<forall>m \<ge> a. f m = Inr (v, s)" "\<forall>m \<ge> b. g m (v, s) = Inr r" using assms by (auto simp: evs_def)
  then show ?thesis unfolding evs_def by (intro exI [of _ "max a b"]) simp
qed

lemma evs_const: "evs (\<lambda>n. Inr r) r"
  by (simp add: evs_def)

lemma fuel_Suc:
  "const_expr_unary tn (Suc n) ev s = unary_body tn (const_expr_unary tn n ev) (const_expr_conditional tn n ev) (parse_builtin_offsetof tn n) s"
  "const_expr_binop tn (Suc n) m ev s = bindE (const_expr_unary tn n ev s) (\<lambda>(lhs, s). const_binop_loop tn n m ev lhs s)"
  "const_binop_loop tn (Suc n) m ev v s = loop_body (const_expr_binop tn n) (const_binop_loop tn n m ev) m ev v s"
  "const_expr_conditional tn (Suc n) ev s = conditional_body (const_expr_binop tn n 0 ev) (const_expr_conditional tn n) ev s"
  by (simp_all add: const_expr_unary.simps [of _ "Suc n"] const_expr_binop.simps [of _ "Suc n"] const_binop_loop.simps [of _ "Suc n"]
      const_expr_conditional.simps [of _ "Suc n"])

lemma evs_steps:
  "evs (\<lambda>n. unary_body tn (const_expr_unary tn n ev) (const_expr_conditional tn n ev) (parse_builtin_offsetof tn n) s) r \<Longrightarrow>
     evs (\<lambda>n. const_expr_unary tn n ev s) r"
  "evs (\<lambda>n. loop_body (const_expr_binop tn n) (const_binop_loop tn n m ev) m ev v s) r \<Longrightarrow> evs (\<lambda>n. const_binop_loop tn n m ev v s) r"
  "evs (\<lambda>n. conditional_body (const_expr_binop tn n 0 ev) (const_expr_conditional tn n) ev s) r \<Longrightarrow>
     evs (\<lambda>n. const_expr_conditional tn n ev s) r"
  by (rule evs_Suc; simp add: fuel_Suc; fail)+

lemma evs_binop:
  assumes "evs (\<lambda>n. const_expr_unary tn n ev s) (v, s')" "evs (\<lambda>n. const_binop_loop tn n m ev v s') r"
  shows "evs (\<lambda>n. const_expr_binop tn n m ev s) r"
  by (rule evs_Suc [where g = "\<lambda>n. bindE (const_expr_unary tn n ev s) (\<lambda>(lhs, s). const_binop_loop tn n m ev lhs s)"])
    (use assms in \<open>auto simp: fuel_Suc intro: evs_bind\<close>)

subsection \<open>Reading an expression\<close>

text \<open>
  The value \<open>v\<close> belongs to \<open>e\<close>: it has the type of \<open>e\<close>, and the value of \<open>e\<close> where it is evaluated. An operand
  that is not evaluated, like the right one of \<^verbatim>\<open>0 && 1/0\<close>, need not have a defined value.
\<close>

definition value_of :: "types \<Rightarrow> bool \<Rightarrow> cexpr \<Rightarrow> const_val \<Rightarrow> bool" where
  "value_of st ev e v \<longleftrightarrow> cv_ok st v \<and> cv_type v = ctype st e \<and> (ev \<longrightarrow> cv_int st v = cval st e)"

definition reads_unary :: "type_parser \<Rightarrow> types \<Rightarrow> cexpr \<Rightarrow> ctok list \<Rightarrow> bool" where
  "reads_unary tn st e ts \<longleftrightarrow>
     (\<forall>s ev. toks_at s ts \<and> p_types s = st \<and> (ev \<longrightarrow> cdef st e) \<longrightarrow>
        (\<exists>v. value_of st ev e v \<and> evs (\<lambda>n. const_expr_unary tn n ev s) (v, skip (length ts) s)))"

definition reads_binop :: "type_parser \<Rightarrow> types \<Rightarrow> cexpr \<Rightarrow> nat \<Rightarrow> ctok list \<Rightarrow> bool" where
  "reads_binop tn st e p ts \<longleftrightarrow>
     (\<forall>s ev. toks_at s ts \<and> p_types s = st \<and> (ev \<longrightarrow> cdef st e) \<and> const_op_prec (next_kind (length ts) s) \<le> p \<longrightarrow>
        (\<exists>v. value_of st ev e v \<and> (\<forall>m res. m \<le> p \<and> evs (\<lambda>n. const_binop_loop tn n m ev v (skip (length ts) s)) res \<longrightarrow>
           evs (\<lambda>n. const_expr_binop tn n m ev s) res)))"

definition reads_cond :: "type_parser \<Rightarrow> types \<Rightarrow> cexpr \<Rightarrow> ctok list \<Rightarrow> bool" where
  "reads_cond tn st e ts \<longleftrightarrow>
     (\<forall>s ev. toks_at s ts \<and> p_types s = st \<and> (ev \<longrightarrow> cdef st e) \<and> const_op_prec (next_kind (length ts) s) = 0
        \<and> next_kind (length ts) s \<noteq> T_QUESTION \<longrightarrow>
        (\<exists>v. value_of st ev e v \<and> evs (\<lambda>n. const_expr_conditional tn n ev s) (v, skip (length ts) s)))"

lemma reads_unaryD:
  "reads_unary tn st e ts \<Longrightarrow> toks_at s ts \<Longrightarrow> p_types s = st \<Longrightarrow> (ev \<Longrightarrow> cdef st e) \<Longrightarrow>
     \<exists>v. value_of st ev e v \<and> evs (\<lambda>n. const_expr_unary tn n ev s) (v, skip (length ts) s)"
  by (simp add: reads_unary_def)

lemma reads_binopD:
  "reads_binop tn st e p ts \<Longrightarrow> toks_at s ts \<Longrightarrow> p_types s = st \<Longrightarrow> (ev \<Longrightarrow> cdef st e) \<Longrightarrow>
     const_op_prec (next_kind (length ts) s) \<le> p \<Longrightarrow>
     \<exists>v. value_of st ev e v \<and> (\<forall>m res. m \<le> p \<and> evs (\<lambda>n. const_binop_loop tn n m ev v (skip (length ts) s)) res \<longrightarrow>
       evs (\<lambda>n. const_expr_binop tn n m ev s) res)"
  by (simp add: reads_binop_def)

lemma reads_condD:
  "reads_cond tn st e ts \<Longrightarrow> toks_at s ts \<Longrightarrow> p_types s = st \<Longrightarrow> (ev \<Longrightarrow> cdef st e) \<Longrightarrow>
     const_op_prec (next_kind (length ts) s) = 0 \<Longrightarrow> next_kind (length ts) s \<noteq> T_QUESTION \<Longrightarrow>
     \<exists>v. value_of st ev e v \<and> evs (\<lambda>n. const_expr_conditional tn n ev s) (v, skip (length ts) s)"
  by (simp add: reads_cond_def)

lemma loop_stop:
  assumes "const_op_prec (t_kind (p_cur s)) < m \<or> const_op_prec (t_kind (p_cur s)) = 0"
  shows "evs (\<lambda>n. const_binop_loop tn n m ev v s) (v, s)"
  by (rule evs_steps(2)) (use assms evs_const in \<open>simp add: loop_body_def Let_def\<close>)

lemma unary_binop: "reads_unary tn st e ts \<Longrightarrow> reads_binop tn st e p ts"
  unfolding reads_unary_def reads_binop_def using evs_binop by metis

text \<open>An expression read as a sequence of operators is read as a conditional expression.\<close>

lemma binop_cond:
  assumes "reads_binop tn st e p ts"
  shows "reads_cond tn st e ts"
  unfolding reads_cond_def
proof (intro allI impI)
  fix s ev
  assume a: "toks_at s ts \<and> p_types s = st \<and> (ev \<longrightarrow> cdef st e) \<and> const_op_prec (next_kind (length ts) s) = 0
    \<and> next_kind (length ts) s \<noteq> T_QUESTION"
  then obtain v where v: "value_of st ev e v"
    and b: "\<And>m res. m \<le> p \<Longrightarrow> evs (\<lambda>n. const_binop_loop tn n m ev v (skip (length ts) s)) res \<Longrightarrow> evs (\<lambda>n. const_expr_binop tn n m ev s) res"
    using reads_binopD [OF assms, of s ev] by auto
  have "evs (\<lambda>n. const_expr_binop tn n 0 ev s) (v, skip (length ts) s)"
    by (rule b [OF le0 loop_stop]) (use a in simp)
  then have "evs (\<lambda>n. conditional_body (const_expr_binop tn n 0 ev) (const_expr_conditional tn n) ev s) (v, skip (length ts) s)"
    unfolding conditional_body_def by (rule evs_bind) (use a evs_const in \<open>simp add: accept_def\<close>)
  then show "\<exists>v. value_of st ev e v \<and> evs (\<lambda>n. const_expr_conditional tn n ev s) (v, skip (length ts) s)"
    using v evs_steps(3) by blast
qed

lemma toks_head: "wf_cexpr e \<Longrightarrow> \<exists>k v ts. toks e = (k, v) # ts \<and> k \<in> literal_kinds \<union> unary_ops \<union> {T_LPAREN}"
  by (induction e) (fastforce simp: parens_def)+

lemma not_type_start:
  assumes "toks_at s (toks e)" "wf_cexpr e"
  shows "is_type_start s = Inr (False, s)"
proof -
  obtain k v ts where "toks e = (k, v) # ts" "k \<in> literal_kinds \<union> unary_ops \<union> {T_LPAREN}" using toks_head [OF assms(2)] by blast
  then have "t_kind (p_cur s) \<in> literal_kinds \<union> unary_ops \<union> {T_LPAREN}" using assms(1) by simp
  then show ?thesis by (auto simp: is_type_start_def literal_kinds_def unary_ops_def)
qed

lemma const_paren_unary:
  assumes "reads_cond tn st e (toks e)" "wf_cexpr e"
  shows "reads_unary tn st e (parens True (toks e))"
  unfolding reads_unary_def
proof (intro allI impI)
  fix s ev
  assume a: "toks_at s (parens True (toks e)) \<and> p_types s = st \<and> (ev \<longrightarrow> cdef st e)"
  then have at: "t_kind (p_cur s) = T_LPAREN" "toks_at (p_next s) (toks e)" "next_kind (length (toks e)) (p_next s) = T_RPAREN"
    by (auto simp: parens_def)
  obtain v where v: "value_of st ev e v" "evs (\<lambda>n. const_expr_conditional tn n ev (p_next s)) (v, skip (length (toks e)) (p_next s))"
    using reads_condD [OF assms(1) at(2), of ev] a at(3) by (auto simp: const_op_prec_def)
  have "evs (\<lambda>n. bindE (const_expr_conditional tn n ev (p_next s)) (\<lambda>(v, s). Inr (v, parse_expect T_RPAREN s)))
      (v, p_next (skip (length (toks e)) (p_next s)))"
    by (rule evs_bind [OF v(2)]) (use at(3) evs_const in \<open>simp add: parse_expect_def\<close>)
  moreover have "p_next (skip (length (toks e)) (p_next s)) = skip (length (parens True (toks e))) s"
    by (simp add: parens_def skip_def funpow_swap1)
  ultimately have "evs (\<lambda>n. unary_body tn (const_expr_unary tn n ev) (const_expr_conditional tn n ev) (parse_builtin_offsetof tn n) s)
      (v, skip (length (parens True (toks e))) s)"
    using at not_type_start [OF at(2) assms(2)] by (simp add: unary_body_def Let_def)
  then show "\<exists>v. value_of st ev e v \<and> evs (\<lambda>n. const_expr_unary tn n ev s) (v, skip (length (parens True (toks e))) s)"
    using v(1) evs_steps(1) by blast
qed

subsection \<open>Literals and unary operators\<close>

lemma literal_facts:
  assumes "types_ok st" "k \<in> literal_kinds"
  shows "literal_type k < length st" "type_is_integer (st ! literal_type k)" "int_like (st ! literal_type k)"
    "ty_kind (st ! literal_type k) \<noteq> TY_BOOL"
proof -
  have l: "literal_type k \<in> {7, 8, 9, 10}" using assms(2) by (auto simp: literal_kinds_def literal_type_def)
  then show n: "literal_type k < length st" using types_okD(1) [OF assms(1)] by auto
  have "ty_kind (st ! literal_type k) \<in> {TY_INT, TY_UINT, TY_LONG, TY_ULONG}"
    using l types_okD(2) [OF assms(1), of "literal_type k"] by (auto simp: prim_table_def)
  then show "type_is_integer (st ! literal_type k)" "ty_kind (st ! literal_type k) \<noteq> TY_BOOL" by (auto simp: type_is_integer_def)
  then show "int_like (st ! literal_type k)" using types_okD(3) [OF assms(1) n] by (simp add: int_like_def)
qed

lemma reads_literal:
  assumes "types_ok st" "k \<in> literal_kinds"
  shows "reads_unary tn st (CLit k x) (toks (CLit k x))"
  unfolding reads_unary_def
proof (intro allI impI)
  fix s ev
  assume a: "toks_at s (toks (CLit k x)) \<and> p_types s = st \<and> (ev \<longrightarrow> cdef st (CLit k x))"
  then have k: "t_kind (p_cur s) = k" "t_ival (p_cur s) = x" and st: "p_types s = st" using assms(2) by auto
  note f = literal_facts [OF assms]
  let ?v = "\<lparr>cv_bits = conv (st ! literal_type k) x, cv_type = literal_type k\<rparr>"
  have v: "const_value x (literal_type k) s = (?v, s)" "cv_ok st ?v" using const_result [of s "literal_type k"] assms f st by auto
  have "int_of (st ! literal_type k) (conv (st ! literal_type k) (word_of_int (uint x))) = c_convert (st ! literal_type k) (uint x)"
    by (rule int_of_conv_word [OF f(3,4)])
  then have "value_of st ev (CLit k x) ?v" using v(2) by (simp add: value_of_def cv_int_def)
  moreover have "evs (\<lambda>n. unary_body tn (const_expr_unary tn n ev) (const_expr_conditional tn n ev) (parse_builtin_offsetof tn n) s) (?v, skip 1 s)"
    using k assms(2) v(1) evs_const by (auto simp: unary_body_def const_atom_def literal_kinds_def Let_def)
  ultimately show "\<exists>v. value_of st ev (CLit k x) v \<and> evs (\<lambda>n. const_expr_unary tn n ev s) (v, skip (length (toks (CLit k x))) s)"
    using evs_steps(1) by fastforce
qed

lemma const_unop_ok:
  assumes st: "types_ok (p_types s)" and v: "cv_ok (p_types s) v" and op: "op \<in> unary_ops"
  shows "\<exists>w. const_unop op v s = (w, s) \<and> cv_ok (p_types s) w \<and> cv_type w = (if op = T_NOT then 7 else type_promote (cv_type v) (p_types s))
    \<and> cv_int (p_types s) w = (let i = cv_int (p_types s) v; t = p_types s ! type_promote (cv_type v) (p_types s)
        in if op = T_NOT then of_bool (i = 0) else if op = T_MINUS then c_convert t (- i)
           else if op = T_TILDE then c_convert t (- i - 1) else i)"
proof (cases "op = T_NOT")
  case True
  note i = ty_int_facts [OF st] and c = const_result [OF st ty_int_facts(3,4) [OF st]]
  have "int_of (p_types s ! 7) (conv (p_types s ! 7) (of_bool (cv_bits v = 0))) = of_bool (cv_int (p_types s) v = 0)"
    unfolding flag_conv [OF i(1,2)] cv_int_zero ..
  then show ?thesis using True c by (auto simp: const_unop_def cv_int_def Let_def)
next
  case False
  note f = cv_facts [OF st v]
  define t where "t = type_promote (cv_type v) (p_types s)"
  define w where "w = (if op = T_MINUS then 0 - cv_bits v else if op = T_TILDE then NOT (cv_bits v) else cv_bits v)"
  define j where "j = (if op = T_MINUS then - cv_int (p_types s) v else if op = T_TILDE then - cv_int (p_types s) v - 1 else cv_int (p_types s) v)"
  note c = const_result [OF st f(7,6), folded t_def]
  have u: "const_unop op v s = const_value w t s" using False f(4) c(1) by (simp add: const_unop_def w_def t_def)
  have wj: "w = word_of_int j" using f(5) word_of_int_of [of "p_types s ! t" "cv_bits v"]
    by (auto simp: w_def j_def t_def not_eq_complement)
  have val: "int_of (p_types s ! t) (conv (p_types s ! t) w) = c_convert (p_types s ! t) j"
    unfolding wj t_def by (rule int_of_conv_word [OF f(2,3)])
  have id: "c_convert (p_types s ! t) (cv_int (p_types s) v) = cv_int (p_types s) v"
    using int_of_conv [OF f(2), of "cv_bits v" "p_types s ! t"] f(4,5) by (simp add: t_def)
  show ?thesis
    using u c False val id by (intro exI [of _ "\<lparr>cv_bits = conv (p_types s ! t) w, cv_type = t\<rparr>"])
      (auto simp: t_def [symmetric] cv_int_def j_def Let_def)
qed

lemma reads_unop:
  assumes "types_ok st" "op \<in> unary_ops" "reads_unary tn st e ts"
  shows "reads_unary tn st (CUn op e) (punct op # ts)"
  unfolding reads_unary_def
proof (intro allI impI)
  fix s ev
  assume a: "toks_at s (punct op # ts) \<and> p_types s = st \<and> (ev \<longrightarrow> cdef st (CUn op e))"
  then have k: "t_kind (p_cur s) = op" and ts: "toks_at (p_next s) ts" and st: "p_types (p_next s) = st" by auto
  obtain v where v: "value_of st ev e v" "evs (\<lambda>n. const_expr_unary tn n ev (p_next s)) (v, skip (length ts) (p_next s))"
    using reads_unaryD [OF assms(3) ts st, of ev] a by auto
  have tp: "p_types (skip (length ts) (p_next s)) = st" using st by simp
  obtain w where w: "const_unop op v (skip (length ts) (p_next s)) = (w, skip (length ts) (p_next s))" "cv_ok st w"
    "cv_type w = (if op = T_NOT then 7 else type_promote (cv_type v) st)"
    "cv_int st w = (let i = cv_int st v; t = st ! type_promote (cv_type v) st
        in if op = T_NOT then of_bool (i = 0) else if op = T_MINUS then c_convert t (- i)
           else if op = T_TILDE then c_convert t (- i - 1) else i)"
    using const_unop_ok [of "skip (length ts) (p_next s)" v op] assms(1,2) v(1) unfolding tp value_of_def by blast
  have "value_of st ev (CUn op e) w" using w v(1) by (simp add: value_of_def Let_def)
  moreover have "evs (\<lambda>n. bindE (const_expr_unary tn n ev (p_next s)) (\<lambda>(v, s). Inr (const_unop op v s))) (w, skip (length ts) (p_next s))"
    by (rule evs_bind [OF v(2)]) (use w(1) evs_const in simp)
  then have "evs (\<lambda>n. unary_body tn (const_expr_unary tn n ev) (const_expr_conditional tn n ev) (parse_builtin_offsetof tn n) s)
      (w, skip (length (punct op # ts)) s)"
    using k assms(2) by (auto simp: unary_body_def unary_ops_def Let_def)
  ultimately show "\<exists>v. value_of st ev (CUn op e) v \<and> evs (\<lambda>n. const_expr_unary tn n ev s) (v, skip (length (punct op # ts)) s)"
    using evs_steps(1) by blast
qed

subsection \<open>Binary and conditional operators\<close>

lemma prec_facts:
  assumes "op \<in> binary_ops \<union> logical_ops"
  shows "const_op_prec op = c_prec op" "1 \<le> c_prec op" "c_prec op \<le> 10"
  using assms by (auto simp: binary_ops_def logical_ops_def const_op_prec_def c_prec_def)

lemma value_truth: "value_of st True e v \<Longrightarrow> cv_bits v = 0 \<longleftrightarrow> cval st e = 0"
  using cv_int_zero [of st v] by (simp add: value_of_def)

text \<open>One round of the operator loop.\<close>

lemma loop_step:
  assumes "t_kind (p_cur s) = op" "op \<in> binary_ops \<union> logical_ops" "m \<le> c_prec op"
    and "evs (\<lambda>n. const_expr_binop tn n (c_prec op + 1) (if op = T_AND \<and> cv_bits l = 0 \<or> op = T_OR \<and> cv_bits l \<noteq> 0 then False else ev) (p_next s)) (r, s')"
    and "const_combine op l r ev s' = (v, s')" "evs (\<lambda>n. const_binop_loop tn n m ev v s') res"
  shows "evs (\<lambda>n. const_binop_loop tn n m ev l s) res"
proof (rule evs_steps(2))
  note p = prec_facts [OF assms(2)]
  have "evs (\<lambda>n. bindE (const_expr_binop tn n (c_prec op + 1) (if op = T_AND \<and> cv_bits l = 0 \<or> op = T_OR \<and> cv_bits l \<noteq> 0 then False else ev) (p_next s))
      (\<lambda>(rhs, s). case const_combine op l rhs ev s of (lhs, s) \<Rightarrow> const_binop_loop tn n m ev lhs s)) res"
    by (rule evs_bind [OF assms(4)]) (use assms(5,6) in simp)
  then show "evs (\<lambda>n. loop_body (const_expr_binop tn n) (const_binop_loop tn n m ev) m ev l s) res"
    using assms(1,3) p by (simp add: loop_body_def Let_def)
qed

lemma combine_value:
  assumes st: "types_ok st" "p_types s = st" and op: "op \<in> binary_ops \<union> logical_ops"
    and d: "ev \<longrightarrow> cdef st (CBin op l r)" and vl: "value_of st ev l x"
    and vr: "value_of st (if op = T_AND \<and> cv_bits x = 0 \<or> op = T_OR \<and> cv_bits x \<noteq> 0 then False else ev) r y"
  shows "\<exists>v. const_combine op x y ev s = (v, s) \<and> value_of st ev (CBin op l r) v"
proof -
  have ok: "cv_ok st x" "cv_ok st y" "cv_type x = ctype st l" "cv_type y = ctype st r" using vl vr by (auto simp: value_of_def)
  have log: "op_defined op t st j" if "op \<in> logical_ops" for t j using that by (auto simp: op_defined_def c_defined_def logical_ops_def)
  have short: "(op = T_AND \<and> cv_bits x = 0 \<or> op = T_OR \<and> cv_bits x \<noteq> 0) = (op = T_AND \<and> cval st l = 0 \<or> op = T_OR \<and> cval st l \<noteq> 0)"
    if ev using value_truth [of st l x] vl that by auto
  have def: "op_defined op (cv_type x) st (cv_int st y)" if e: ev
  proof (cases "op \<in> logical_ops")
    case False
    then show ?thesis using d vr e ok by (auto simp: value_of_def logical_ops_def split: if_splits)
  qed (use log in blast)
  obtain v where v: "const_combine op x y ev s = (v, s)" "cv_ok st v" "cv_type v = op_type op (cv_type x) (cv_type y) st"
    "op_defined op (cv_type x) st (cv_int st y) \<longrightarrow> cv_int st v = op_value op (cv_type x) (cv_type y) st (cv_int st x) (cv_int st y)"
    using const_combine_ok [of s x y op ev] st op ok def by auto
  have "cv_int st v = cval st (CBin op l r)" if e: ev
  proof (cases "op = T_AND \<and> cval st l = 0 \<or> op = T_OR \<and> cval st l \<noteq> 0")
    case True
    then show ?thesis using v(4) def [OF e] vl e by (auto simp: op_value_def value_of_def)
  next
    case False
    then have "cv_int st y = cval st r" using vr short [OF e] e unfolding value_of_def by argo
    then show ?thesis using v(4) def [OF e] vl e ok by (simp add: value_of_def)
  qed
  then show ?thesis using v ok by (auto simp: value_of_def)
qed

lemma const_reads_bin:
  assumes st: "types_ok st" and op: "op \<in> binary_ops \<union> logical_ops" and p: "p \<le> c_prec op"
    and l: "reads_binop tn st l (c_prec op) ts" and r: "reads_binop tn st r (c_prec op + 1) us"
  shows "reads_binop tn st (CBin op l r) p (ts @ [punct op] @ us)"
  unfolding reads_binop_def
proof (intro allI impI)
  fix s ev
  let ?all = "ts @ [punct op] @ us"
  assume a: "toks_at s ?all \<and> p_types s = st \<and> (ev \<longrightarrow> cdef st (CBin op l r)) \<and> const_op_prec (next_kind (length ?all) s) \<le> p"
  define s1 where "s1 = skip (length ts) s"
  define s2 where "s2 = skip (length us) (p_next s1)"
  note pf = prec_facts [OF op]
  have k: "t_kind (p_cur s1) = op" "toks_at s ts" "toks_at (p_next s1) us" using a by (simp_all add: s1_def)
  have fin: "skip (length ?all) s = s2" by (simp add: s1_def s2_def flip: skip_simps(2))
  have tp: "p_types s = st" "p_types (p_next s1) = st" "p_types s2 = st" using a by (simp_all add: s1_def s2_def)
  obtain x where x: "value_of st ev l x"
    and bl: "\<And>m res. m \<le> c_prec op \<Longrightarrow> evs (\<lambda>n. const_binop_loop tn n m ev x s1) res \<Longrightarrow> evs (\<lambda>n. const_expr_binop tn n m ev s) res"
    using reads_binopD [OF l k(2) tp(1), of ev] a k(1) pf(1) by (auto simp: s1_def)
  define rev where "rev = (if op = T_AND \<and> cv_bits x = 0 \<or> op = T_OR \<and> cv_bits x \<noteq> 0 then False else ev)"
  have rd: "cdef st r" if rev using that a value_truth [of st l x] x by (auto simp: rev_def split: if_splits)
  have np: "const_op_prec (next_kind (length us) (p_next s1)) \<le> p" using a fin by (simp add: s2_def)
  obtain y where y: "value_of st rev r y"
    and br: "\<And>m res. m \<le> c_prec op + 1 \<Longrightarrow> evs (\<lambda>n. const_binop_loop tn n m rev y s2) res \<Longrightarrow> evs (\<lambda>n. const_expr_binop tn n m rev (p_next s1)) res"
    using reads_binopD [OF r k(3) tp(2), of rev, OF rd] np p by (auto simp: s2_def)
  have rr: "evs (\<lambda>n. const_expr_binop tn n (c_prec op + 1) rev (p_next s1)) (y, s2)"
    by (rule br [OF order_refl loop_stop]) (use np p in \<open>simp add: s2_def\<close>)
  obtain v where v: "const_combine op x y ev s2 = (v, s2)" "value_of st ev (CBin op l r) v"
    using combine_value [OF st tp(3) op _ x y [unfolded rev_def]] a by blast
  have "evs (\<lambda>n. const_expr_binop tn n m ev s) res" if m: "m \<le> p" and c: "evs (\<lambda>n. const_binop_loop tn n m ev v s2) res" for m res
    by (rule bl [OF _ loop_step [OF k(1) op _ rr [unfolded rev_def] v(1) c]]) (use m p in simp_all)
  then show "\<exists>v. value_of st ev (CBin op l r) v \<and> (\<forall>m res. m \<le> p \<and> evs (\<lambda>n. const_binop_loop tn n m ev v (skip (length ?all) s)) res \<longrightarrow>
      evs (\<lambda>n. const_expr_binop tn n m ev s) res)"
    unfolding fin using v(2) by blast
qed

lemma cond_round:
  assumes "evs (\<lambda>n. const_expr_binop tn n 0 ev s) (x, s1)" "t_kind (p_cur s1) = T_QUESTION"
    "evs (\<lambda>n. const_expr_conditional tn n (ev \<and> cv_bits x \<noteq> 0) (p_next s1)) (y, s2)" "t_kind (p_cur s2) = T_COLON"
    "evs (\<lambda>n. const_expr_conditional tn n (ev \<and> cv_bits x = 0) (p_next s2)) (z, s3)"
  shows "evs (\<lambda>n. conditional_body (const_expr_binop tn n 0 ev) (const_expr_conditional tn n) ev s)
    (const_value (if cv_bits x \<noteq> 0 then cv_bits y else cv_bits z) (type_common (cv_type y) (cv_type z) (p_types s3)) s3)"
proof -
  let ?r = "const_value (if cv_bits x \<noteq> 0 then cv_bits y else cv_bits z) (type_common (cv_type y) (cv_type z) (p_types s3)) s3"
  have "evs (\<lambda>n. bindE (const_expr_conditional tn n (ev \<and> cv_bits x = 0) (p_next s2))
      (\<lambda>(no, s). Inr (const_value (if cv_bits x \<noteq> 0 then cv_bits y else cv_bits no) (type_common (cv_type y) (cv_type no) (p_types s)) s))) ?r"
    by (rule evs_bind [OF assms(5)]) (simp add: evs_const)
  then have "evs (\<lambda>n. bindE (const_expr_conditional tn n (ev \<and> cv_bits x \<noteq> 0) (p_next s1))
      (\<lambda>(yes, s). bindE (const_expr_conditional tn n (ev \<and> cv_bits x = 0) (parse_expect T_COLON s))
         (\<lambda>(no, s). Inr (const_value (if cv_bits x \<noteq> 0 then cv_bits yes else cv_bits no) (type_common (cv_type yes) (cv_type no) (p_types s)) s)))) ?r"
    by (intro evs_bind [OF assms(3)]) (simp add: parse_expect_def assms(4))
  then show ?thesis unfolding conditional_body_def
    by (intro evs_bind [OF assms(1)]) (simp add: accept_def assms(2))
qed

lemma reads_ccond:
  assumes st: "types_ok st" and c: "reads_binop tn st c 0 ts" and a: "reads_cond tn st a (toks a)" and b: "reads_cond tn st b (toks b)"
  shows "reads_cond tn st (CCond c a b) (ts @ [punct T_QUESTION] @ toks a @ [punct T_COLON] @ toks b)"
  unfolding reads_cond_def
proof (intro allI impI)
  fix s ev
  let ?all = "ts @ [punct T_QUESTION] @ toks a @ [punct T_COLON] @ toks b"
  assume h: "toks_at s ?all \<and> p_types s = st \<and> (ev \<longrightarrow> cdef st (CCond c a b)) \<and> const_op_prec (next_kind (length ?all) s) = 0
    \<and> next_kind (length ?all) s \<noteq> T_QUESTION"
  define s1 where "s1 = skip (length ts) s"
  define s2 where "s2 = skip (length (toks a)) (p_next s1)"
  define s3 where "s3 = skip (length (toks b)) (p_next s2)"
  have k: "toks_at s ts" "t_kind (p_cur s1) = T_QUESTION" "toks_at (p_next s1) (toks a)" "t_kind (p_cur s2) = T_COLON" "toks_at (p_next s2) (toks b)"
    using h by (simp_all add: s1_def s2_def flip: skip_simps(2))
  have fin: "skip (length ?all) s = s3" by (simp add: s1_def s2_def s3_def add.assoc flip: skip_simps(2))
  have tp: "p_types s = st" "p_types (p_next s1) = st" "p_types (p_next s2) = st" "p_types s3 = st" using h by (simp_all add: s1_def s2_def s3_def)
  have q0: "const_op_prec T_QUESTION = 0" "const_op_prec T_COLON = 0" by (simp_all add: const_op_prec_def)
  obtain x where x: "value_of st ev c x" and xl: "evs (\<lambda>n. const_binop_loop tn n 0 ev x s1) (x, s1) \<Longrightarrow> evs (\<lambda>n. const_expr_binop tn n 0 ev s) (x, s1)"
    using reads_binopD [OF c k(1) tp(1), of ev] h k(2) q0 by (auto simp: s1_def)
  have xr: "evs (\<lambda>n. const_expr_binop tn n 0 ev s) (x, s1)" by (rule xl, rule loop_stop) (use k(2) q0 in simp)
  have da: "cdef st a" if "ev \<and> cv_bits x \<noteq> 0" using that h value_truth [of st c x] x by auto
  obtain y where y: "value_of st (ev \<and> cv_bits x \<noteq> 0) a y" "evs (\<lambda>n. const_expr_conditional tn n (ev \<and> cv_bits x \<noteq> 0) (p_next s1)) (y, s2)"
    using reads_condD [OF a k(3) tp(2), of "ev \<and> cv_bits x \<noteq> 0", OF da] k(4) q0 unfolding s2_def by auto
  have db: "cdef st b" if "ev \<and> cv_bits x = 0" using that h value_truth [of st c x] x by auto
  obtain z where z: "value_of st (ev \<and> cv_bits x = 0) b z" "evs (\<lambda>n. const_expr_conditional tn n (ev \<and> cv_bits x = 0) (p_next s2)) (z, s3)"
    using reads_condD [OF b k(5) tp(3), of "ev \<and> cv_bits x = 0", OF db] h fin unfolding s3_def by auto
  define t where "t = type_common (ctype st a) (ctype st b) st"
  define u where "u = (if cv_bits x \<noteq> 0 then cv_bits y else cv_bits z)"
  let ?v = "\<lparr>cv_bits = conv (st ! t) u, cv_type = t\<rparr>"
  have ok: "cv_ok st y" "cv_ok st z" "cv_type y = ctype st a" "cv_type z = ctype st b" using y(1) z(1) by (auto simp: value_of_def)
  note cf = common_facts [OF st ok(1,2), unfolded ok(3,4), folded t_def]
  have v: "const_value u t s3 = (?v, s3)" "cv_ok st ?v" using const_result [of s3 t] st cf(3,4) tp(4) by simp_all
  have "cv_int st ?v = cval st (CCond c a b)" if e: ev
  proof -
    have "cv_int st ?v = c_convert (st ! t) (int_of (st ! (if cv_bits x \<noteq> 0 then cv_type y else cv_type z)) u)"
      by (simp add: cv_int_def int_of_conv [OF cf(1)])
    also have "\<dots> = c_convert (st ! t) (if cval st c \<noteq> 0 then cval st a else cval st b)"
      using value_truth [of st c x] x y(1) z(1) e by (auto simp: u_def value_of_def cv_int_def)
    finally show ?thesis by (simp add: t_def)
  qed
  then have vo: "value_of st ev (CCond c a b) ?v" using v(2) by (simp add: value_of_def t_def)
  show "\<exists>v. value_of st ev (CCond c a b) v \<and> evs (\<lambda>n. const_expr_conditional tn n ev s) (v, skip (length ?all) s)"
    unfolding fin using vo evs_steps(3) [OF cond_round [OF xr k(2) y(2) k(4) z(2)]] v(1) ok(3,4) tp(4) by (auto simp: u_def t_def)
qed

subsection \<open>Whole expressions\<close>

definition reads_plain :: "type_parser \<Rightarrow> types \<Rightarrow> cexpr \<Rightarrow> bool" where
  "reads_plain tn st e \<longleftrightarrow>
     (11 \<le> c_level e \<longrightarrow> reads_unary tn st e (toks e)) \<and> (1 \<le> c_level e \<longrightarrow> (\<forall>p \<le> c_level e. reads_binop tn st e p (toks e)))
     \<and> reads_cond tn st e (toks e)"

text \<open>What can be read on its own can be read, with its parentheses, at every level.\<close>

lemma reads_at:
  assumes "reads_plain tn st e" "wf_cexpr e"
  shows "reads_unary tn st e (parens (c_level e < 11) (toks e))" "reads_binop tn st e p (parens (c_level e < p) (toks e)) \<or> p = 0"
proof -
  have pu: "reads_unary tn st e (parens True (toks e))"
    by (rule const_paren_unary) (use assms in \<open>simp_all add: reads_plain_def\<close>)
  then show "reads_unary tn st e (parens (c_level e < 11) (toks e))"
    using assms(1) by (cases "c_level e < 11") (simp_all add: reads_plain_def parens_def)
  show "reads_binop tn st e p (parens (c_level e < p) (toks e)) \<or> p = 0"
  proof (cases "c_level e < p")
    case True
    then show ?thesis using unary_binop [OF pu] by simp
  next
    case False
    then show ?thesis using assms(1) by (cases "p = 0") (simp_all add: reads_plain_def parens_def)
  qed
qed

lemma const_reads_mono:
  assumes "reads_binop tn st e p ts" "q \<le> p"
  shows "reads_binop tn st e q ts"
  unfolding reads_binop_def
proof (intro allI impI, elim conjE)
  fix s ev
  assume "toks_at s ts" "p_types s = st" "ev \<longrightarrow> cdef st e" "const_op_prec (next_kind (length ts) s) \<le> q"
  then obtain v where v: "value_of st ev e v"
    and b: "\<And>m res. m \<le> p \<Longrightarrow> evs (\<lambda>n. const_binop_loop tn n m ev v (skip (length ts) s)) res \<Longrightarrow> evs (\<lambda>n. const_expr_binop tn n m ev s) res"
    using reads_binopD [OF assms(1), of s ev] assms(2) by auto
  have "evs (\<lambda>n. const_expr_binop tn n m ev s) res"
    if "m \<le> q" "evs (\<lambda>n. const_binop_loop tn n m ev v (skip (length ts) s)) res" for m res
    by (rule b [OF _ that(2)]) (use that(1) assms(2) in simp)
  with v show "\<exists>v. value_of st ev e v \<and> (\<forall>m res. m \<le> q \<and> evs (\<lambda>n. const_binop_loop tn n m ev v (skip (length ts) s)) res \<longrightarrow>
      evs (\<lambda>n. const_expr_binop tn n m ev s) res)" by blast
qed

lemma const_reads_all: "types_ok st \<Longrightarrow> wf_cexpr e \<Longrightarrow> reads_plain tn st e"
proof (induction e)
  case (CLit k v)
  then have "reads_unary tn st (CLit k v) (toks (CLit k v))" by (intro reads_literal) simp_all
  then show ?case using unary_binop binop_cond unfolding reads_plain_def by blast
next
  case (CUn op e)
  then have "reads_unary tn st (CUn op e) (toks (CUn op e))"
    using reads_unop [OF CUn.prems(1) _ reads_at(1) [of tn st e]] by simp
  then show ?case using unary_binop binop_cond unfolding reads_plain_def by blast
next
  case (CBin op l r)
  have op: "op \<in> binary_ops \<union> logical_ops" using CBin.prems(2) by simp
  note pf = prec_facts [OF op]
  have "reads_binop tn st l (c_prec op) (parens (c_level l < c_prec op) (toks l))"
    "reads_binop tn st r (c_prec op + 1) (parens (c_level r < c_prec op + 1) (toks r))"
    using reads_at(2) [of tn st l "c_prec op"] reads_at(2) [of tn st r "c_prec op + 1"] CBin.IH CBin.prems pf(2) by simp_all
  then have b: "reads_binop tn st (CBin op l r) p (toks (CBin op l r))" if "p \<le> c_prec op" for p
    using const_reads_bin [OF CBin.prems(1) op that] by simp
  then show ?case using binop_cond [OF b [OF le0]] pf(3) by (simp add: reads_plain_def)
next
  case (CCond c a b)
  have "reads_binop tn st c 1 (parens (c_level c < 1) (toks c))" using reads_at(2) [of tn st c 1] CCond.IH(1) CCond.prems by simp
  then have "reads_binop tn st c 0 (parens (c_level c < 1) (toks c))" by (rule const_reads_mono) simp
  moreover have "reads_cond tn st a (toks a)" "reads_cond tn st b (toks b)" using CCond by (simp_all add: reads_plain_def)
  ultimately have "reads_cond tn st (CCond c a b) (toks (CCond c a b))" using reads_ccond [OF CCond.prems(1)] by simp
  then show ?case by (simp add: reads_plain_def)
qed

text \<open>
  C8. The constant evaluator computes the C standard: whatever integer constant expression of literals,
  unary, binary and conditional operators the tokens ahead are, written with the parentheses C
  requires, \<^verbatim>\<open>parse_const_expr\<close> returns (enough fuel gives a result) with the value the standard defines,
  converted to \<^verbatim>\<open>long long\<close>, stops behind the expression and reports nothing; an operand that is not
  evaluated may be undefined.
\<close>

theorem const_expr_correct:
  assumes "types_ok (p_types s)" "wf_cexpr e" "cdef (p_types s) e" "toks_at s (toks e)"
    and "const_op_prec (t_kind (p_cur (skip (length (toks e)) s))) = 0" "t_kind (p_cur (skip (length (toks e)) s)) \<noteq> T_QUESTION"
  shows "\<exists>n. \<forall>m \<ge> n. parse_const_expr type_name m s
    = Inr (signed_take_bit 63 (cval (p_types s) e), skip (length (toks e)) s)"
proof -
  have "reads_cond type_name (p_types s) e (toks e)" using const_reads_all [OF assms(1,2)] by (simp add: reads_plain_def)
  then obtain v where v: "value_of (p_types s) True e v" "evs (\<lambda>n. const_expr_conditional type_name n True s) (v, skip (length (toks e)) s)"
    using reads_condD [OF _ assms(4) refl, of type_name e True] assms(3,5,6) by auto
  have "sint (cv_bits v) = signed_take_bit 63 (int_of (p_types s ! cv_type v) (cv_bits v))"
    by (simp add: int_of_def sint_uint)
  also have "\<dots> = signed_take_bit 63 (cval (p_types s) e)" using v(1) unfolding value_of_def cv_int_def by metis
  finally have r: "const_signed (cv_bits v) = signed_take_bit 63 (cval (p_types s) e)" by simp
  obtain n where "\<forall>m \<ge> n. const_expr_conditional type_name m True s = Inr (v, skip (length (toks e)) s)"
    using v(2) by (auto simp: evs_def)
  then have "\<forall>m \<ge> n. parse_const_expr type_name m s = Inr (signed_take_bit 63 (cval (p_types s) e), skip (length (toks e)) s)"
    using r by (simp add: parse_const_expr_def)
  then show ?thesis by blast
qed

text \<open>The tokens of \<^verbatim>\<open>8/3\<close>, the last of them still in the text.\<close>

definition demo_parser :: parser where
  "demo_parser = \<lparr>g_lx = (start_lexer (dec_text 3))\<lparr>lx_cur := blank_token\<lparr>t_kind := T_INT, t_ival := 8\<rparr>,
       lx_next := blank_token\<lparr>t_kind := T_SLASH\<rparr>, has_next := True\<rparr>,
     p_syms = \<lparr>g_globals = [], g_locals = [], g_cur_scope = 0, scope_stack = [], sym_diag = \<lparr>n_errors = 0, n_warnings = 0\<rparr>\<rparr>,
     p_types = types0, p_tags = [], n_input_files = 1, current_file_idx = 0\<rparr>"

definition demo_expr :: cexpr where
  "demo_expr = CBin T_SLASH (CLit T_INT 8) (CLit T_INT 3)"

lemma lex_one_end:
  assumes "rest lx = []"
  shows "\<exists>t. lex_one lx = (t, lx) \<and> t_kind t = T_EOF"
proof -
  have c: "cur_ch lx = - 1" using assms by (simp add: cur_ch_rest)
  then have "skip_ws lx = lx" by (subst skip_ws.simps) (simp add: Let_def is_space_def)
  then show ?thesis using c by (simp add: lex_one_def Let_def)
qed

lemma demo_tokens: "toks_at demo_parser (toks demo_expr)" "t_kind (p_cur (skip 3 demo_parser)) = T_EOF"
proof -
  define lx where "lx = (start_lexer (dec_text 3))\<lparr>lx_cur := blank_token\<lparr>t_kind := T_SLASH\<rparr>, lx_next := blank_token\<lparr>t_kind := T_SLASH\<rparr>\<rparr>"
  have "rest lx = dec_text 3 @ []" by (simp add: lx_def start_lexer_def rest_def)
  then obtain t lx' where t: "lex_one lx = (t, lx')" "t_ival t = 3" "t_kind t = T_INT" "rest lx' = []"
    using lex_one_decimal [of lx 3 "[]"] by (auto simp: ends_number_def)
  define lx2 where "lx2 = lx'\<lparr>lx_next := t, lx_cur := t, has_next := False\<rparr>"
  have "rest lx2 = []" using t(4) by (simp add: lx2_def rest_def)
  then obtain e where e: "lex_one lx2 = (e, lx2)" "t_kind e = T_EOF" using lex_one_end by blast
  have n1: "g_lx (p_next demo_parser) = lx'\<lparr>lx_next := t, has_next := True\<rparr>"
    using t(1) by (simp add: p_next_def demo_parser_def lex_next_def lex_peek_def lx_def start_lexer_def)
  then have n2: "g_lx (p_next (p_next demo_parser)) = lx2\<lparr>lx_next := e, has_next := True\<rparr>"
    using e(1) by (simp add: p_next_def [of "p_next demo_parser"] lex_next_def lex_peek_def lx2_def)
  have n3: "t_kind (lx_cur (g_lx (p_next (p_next (p_next demo_parser))))) = T_EOF"
  proof -
    have "rest (lx2\<lparr>lx_next := e, lx_cur := e, has_next := False\<rparr>) = []" using t(4) by (simp add: lx2_def rest_def)
    then obtain f where "lex_one (lx2\<lparr>lx_next := e, lx_cur := e, has_next := False\<rparr>) = (f, lx2\<lparr>lx_next := e, lx_cur := e, has_next := False\<rparr>)"
      using lex_one_end by blast
    then show ?thesis using n2 e(2) by (simp add: p_next_def [of "p_next (p_next demo_parser)"] lex_next_def lex_peek_def)
  qed
  have "lx_cur lx' = lx_cur lx" using scans_fields [OF lex_one_scans [OF t(1)]] by blast
  then have "t_kind (lx_cur lx') = T_SLASH" by (simp add: lx_def)
  then show "toks_at demo_parser (toks demo_expr)"
    using t(2,3) by (simp add: demo_expr_def parens_def c_prec_def p_cur_def n1 n2 literal_kinds_def lx2_def) (simp add: demo_parser_def)
  show "t_kind (p_cur (skip 3 demo_parser)) = T_EOF" using n3 by (simp add: p_cur_def numeral_3_eq_3)
qed

theorem const_expr_correct_witness:
  "\<forall>type_name. \<exists>n. \<forall>m \<ge> n. parse_const_expr type_name m demo_parser = Inr (2, skip 3 demo_parser)"
proof
  fix type_name
  have t: "p_types demo_parser = types0" "length (toks demo_expr) = 3" by (simp_all add: demo_parser_def demo_expr_def parens_def c_prec_def)
  have v: "cval types0 demo_expr = 2" "cdef types0 demo_expr" by code_simp+
  have w: "wf_cexpr demo_expr" by (simp add: demo_expr_def binary_ops_def literal_kinds_def)
  show "\<exists>n. \<forall>m \<ge> n. parse_const_expr type_name m demo_parser = Inr (2, skip 3 demo_parser)"
    using const_expr_correct [of demo_parser demo_expr type_name] demo_tokens w v types_ok_types0 by (simp add: t const_op_prec_def)
qed

end
