(* ===== verification/Decl_Sem.thy ===== *)
theory Decl_Sem
  imports Decl_Parser Const_Eval_Sem
begin

text \<open>
  The declarator parser against the grammar of C: the tokens of a declarator of pointers,
  groups, arrays and functions with their parameters are read as the type the C standard gives
  it. The splice algorithm is the heart of it: the chain of type objects of a group is built on a
  null base and closed afterwards.
\<close>

subsection \<open>Declarators and what they mean\<close>

text \<open>
  A derived type is a list of layers, the outermost first, over a base type; the parameters of a
  function have a name and a type each.
\<close>

datatype layer = LPtr | LArr u64 | LFun "(u8 list \<times> layer list \<times> nat) list" bool

datatype dcl = Dcl "token_kind list" core "suffix list"
  and core = Abstract | Named "u8 list" | Group dcl
  and suffix = SArr u64 | SFun "(keyword list \<times> dcl) list" bool

text \<open>The spellings of the arithmetic types in the C standard that end in their base keyword.\<close>

definition c_specifiers :: "(keyword list \<times> nat) list" where
  "c_specifiers =
     [([T_KW_VOID], ty_void), ([T_KW_BOOL], ty_bool), ([T_KW_CHAR], ty_char), ([T_KW_UNSIGNED, T_KW_CHAR], ty_uchar),
      ([T_KW_SHORT, T_KW_INT], ty_short), ([T_KW_SIGNED, T_KW_SHORT, T_KW_INT], ty_short), ([T_KW_SHORT, T_KW_SIGNED, T_KW_INT], ty_short),
      ([T_KW_UNSIGNED, T_KW_SHORT, T_KW_INT], ty_ushort), ([T_KW_SHORT, T_KW_UNSIGNED, T_KW_INT], ty_ushort),
      ([T_KW_INT], ty_int), ([T_KW_SIGNED, T_KW_INT], ty_int), ([T_KW_UNSIGNED, T_KW_INT], ty_uint),
      ([T_KW_LONG, T_KW_INT], ty_long), ([T_KW_SIGNED, T_KW_LONG, T_KW_INT], ty_long), ([T_KW_LONG, T_KW_SIGNED, T_KW_INT], ty_long),
      ([T_KW_UNSIGNED, T_KW_LONG, T_KW_INT], ty_ulong), ([T_KW_LONG, T_KW_UNSIGNED, T_KW_INT], ty_ulong),
      ([T_KW_LONG, T_KW_LONG, T_KW_INT], ty_llong), ([T_KW_SIGNED, T_KW_LONG, T_KW_LONG, T_KW_INT], ty_llong),
      ([T_KW_LONG, T_KW_SIGNED, T_KW_LONG, T_KW_INT], ty_llong), ([T_KW_LONG, T_KW_LONG, T_KW_SIGNED, T_KW_INT], ty_llong),
      ([T_KW_UNSIGNED, T_KW_LONG, T_KW_LONG, T_KW_INT], ty_ullong), ([T_KW_LONG, T_KW_UNSIGNED, T_KW_LONG, T_KW_INT], ty_ullong),
      ([T_KW_LONG, T_KW_LONG, T_KW_UNSIGNED, T_KW_INT], ty_ullong), ([T_KW_FLOAT], ty_float), ([T_KW_DOUBLE], ty_double)]"

definition spec_type :: "keyword list \<Rightarrow> nat" where
  "spec_type ks = (case map_of c_specifiers ks of None \<Rightarrow> ty_int | Some t \<Rightarrow> t)"

text \<open>Parameters of array and function type are pointers, and \<^verbatim>\<open>(void)\<close> declares no parameters.\<close>

fun adjust :: "layer list \<Rightarrow> layer list" where
  "adjust (LArr n # ls) = LPtr # ls"
| "adjust (LFun ps va # ls) = LPtr # LFun ps va # ls"
| "adjust ls = ls"

definition no_void :: "(u8 list \<times> layer list \<times> nat) list \<Rightarrow> (u8 list \<times> layer list \<times> nat) list" where
  "no_void ps = (if ps = [([], [], ty_void)] then [] else ps)"

fun dname :: "dcl \<Rightarrow> u8 list" and cname :: "core \<Rightarrow> u8 list" where
  "dname (Dcl ps c sfs) = cname c"
| "cname Abstract = []"
| "cname (Named x) = take (CC_MAX_IDENT - 1) x"
| "cname (Group d) = dname d"

fun layers :: "dcl \<Rightarrow> layer list" and clayers :: "core \<Rightarrow> layer list" and slayer :: "suffix \<Rightarrow> layer" where
  "layers (Dcl ps c sfs) = clayers c @ map slayer sfs @ replicate (count_list ps T_STAR) LPtr"
| "clayers Abstract = []"
| "clayers (Named x) = []"
| "clayers (Group d) = layers d"
| "slayer (SArr n) = LArr n"
| "slayer (SFun ps va) = LFun (no_void (map (\<lambda>(ks, d). (dname d, adjust (layers d), spec_type ks)) ps)) va"

text \<open>The tokens of a declarator.\<close>

datatype dtok = P token_kind | Num u64 | Id "u8 list"

fun commas :: "dtok list list \<Rightarrow> dtok list" where
  "commas [] = []"
| "commas [x] = x"
| "commas (x # y # xs) = x @ [P T_COMMA] @ commas (y # xs)"

fun dtoks :: "dcl \<Rightarrow> dtok list" and ctoks :: "core \<Rightarrow> dtok list" and stoks :: "suffix \<Rightarrow> dtok list" where
  "dtoks (Dcl ps c sfs) = map P ps @ ctoks c @ concat (map stoks sfs)"
| "ctoks Abstract = []"
| "ctoks (Named x) = [Id x]"
| "ctoks (Group d) = P T_LPAREN # dtoks d @ [P T_RPAREN]"
| "stoks (SArr n) = [P T_LBRACKET, Num n, P T_RBRACKET]"
| "stoks (SFun ps va) =
     P T_LPAREN # commas (map (\<lambda>(ks, d). map (\<lambda>k. P (T_KW k)) ks @ dtoks d) ps @ (if va then [[P T_ELLIPSIS]] else [])) @ [P T_RPAREN]"

definition pointer_tokens :: "token_kind list" where
  "pointer_tokens = [T_STAR, T_KW T_KW_CONST, T_KW T_KW_VOLATILE, T_KW T_KW_RESTRICT]"

fun is_fun :: "suffix \<Rightarrow> bool" where
  "is_fun (SFun ps va) = True"
| "is_fun (SArr n) = False"

text \<open>
  The declarators of C: a function returns no array and no function, an abstract one starts with
  no parameter list, and array bounds are literals of type \<^verbatim>\<open>int\<close>. The flag says that the
  declarator stands in a group, where an array must not be the first thing that is built: \<^verbatim>\<open>int (a[3])\<close> is a declarator of C, but the code
  builds the array on the null base of the group and reads its size.
\<close>

fun wf_dcl :: "bool \<Rightarrow> dcl \<Rightarrow> bool" and wf_core :: "core \<Rightarrow> bool" and wf_suffix :: "suffix \<Rightarrow> bool" where
  "wf_dcl null (Dcl ps c sfs) \<longleftrightarrow>
     set ps \<subseteq> set pointer_tokens \<and> wf_core c \<and> list_all wf_suffix sfs \<and> list_all (\<lambda>x. \<not> is_fun x) (butlast sfs)
     \<and> (null \<and> T_STAR \<notin> set ps \<longrightarrow> list_all is_fun sfs) \<and> (c = Abstract \<and> sfs \<noteq> [] \<longrightarrow> \<not> is_fun (hd sfs))"
| "wf_core Abstract \<longleftrightarrow> True"
| "wf_core (Named x) \<longleftrightarrow> True"
| "wf_core (Group d) \<longleftrightarrow> wf_dcl True d"
| "wf_suffix (SArr n) \<longleftrightarrow> n < 2 ^ 31"
| "wf_suffix (SFun ps va) \<longleftrightarrow>
     length ps \<le> CC_MAX_FUNC_PARAMS \<and> list_all (\<lambda>(ks, d). ks \<in> fst ` set c_specifiers \<and> wf_dcl False d) ps"

subsection \<open>Chains of type objects\<close>

text \<open>
  Following the objects from \<open>i\<close> gives the layers and ends at \<open>j\<close>; all objects on the way lie in the region \<open>R\<close>,
  those of the parameters behind the object of their function.
\<close>

lemma param_size: "(x, ls, b) \<in> set ps \<Longrightarrow>
    size_list size ls < Suc (size_list (size_prod (\<lambda>x. 0) (size_prod (size_list size) (\<lambda>x. 0))) ps)"
  by (induction ps) auto

lemma zip_param_size: "(q, x, ls, b) \<in> set (zip tbl ps) \<Longrightarrow>
    size_list size ls < Suc (size_list (size_prod (\<lambda>x. 0) (size_prod (size_list size) (\<lambda>x. 0))) ps)"
  by (drule set_zip_rightD, rule param_size)

definition word_sized :: "type_t \<Rightarrow> bool" where
  "word_sized t \<longleftrightarrow> ty_size t = 8 \<and> ty_align t = 8 \<and> is_complete t"

function chain :: "nat set \<Rightarrow> types \<Rightarrow> nat option \<Rightarrow> layer list \<Rightarrow> nat option \<Rightarrow> bool" where
  "chain R st i [] j \<longleftrightarrow> i = j"
| "chain R st None (l # ls) j \<longleftrightarrow> False"
| "chain R st (Some i) (LPtr # ls) j \<longleftrightarrow>
     i \<in> R \<and> i < length st \<and> ty_kind (st ! i) = TY_PTR \<and> word_sized (st ! i) \<and> chain R st (ty_base (st ! i)) ls j"
| "chain R st (Some i) (LArr n # ls) j \<longleftrightarrow>
     i \<in> R \<and> i < length st \<and> ty_kind (st ! i) = TY_ARRAY \<and> ty_length (st ! i) = n \<and> is_complete (st ! i) = (0 < n)
     \<and> (case ty_base (st ! i) of None \<Rightarrow> False
        | Some b \<Rightarrow> ty_size (st ! i) = ty_size (st ! b) * n \<and> ty_align (st ! i) = ty_align (st ! b))
     \<and> chain R st (ty_base (st ! i)) ls j"
| "chain R st (Some i) (LFun ps va # ls) j \<longleftrightarrow>
     i \<in> R \<and> i < length st \<and> ty_kind (st ! i) = TY_FUNC \<and> word_sized (st ! i) \<and> is_varargs (st ! i) = va \<and> nparams (st ! i) = word_of_nat (length ps)
     \<and> (case ty_params (st ! i) of None \<Rightarrow> ps = []
        | Some tbl \<Rightarrow> length ps \<le> length tbl
            \<and> list_all (\<lambda>(q, x, ls, b). param_name q = x \<and> b < 16 \<and> chain {k \<in> R. i < k} st (param_type q) ls (Some b)) (zip tbl ps))
     \<and> chain R st (ty_ret (st ! i)) ls j"
  by pat_completeness auto
termination
  by (relation "measure (\<lambda>(R, st, i, ls, j). size_list size ls)") (auto dest!: zip_param_size)

text \<open>A chain only depends on its region, and on the sizes of the type it ends in.\<close>

definition same_on :: "nat set \<Rightarrow> types \<Rightarrow> types \<Rightarrow> bool" where
  "same_on R st st' \<longleftrightarrow> length st \<le> length st' \<and> (\<forall>k \<in> R. k < length st \<longrightarrow> st' ! k = st ! k)"

lemma chain_frame:
  "chain R st i ls j \<Longrightarrow> same_on R st st' \<Longrightarrow> R \<subseteq> R' \<Longrightarrow>
     (\<And>b. b \<in> set_option j \<union> {..<16} \<Longrightarrow> ty_size (st' ! b) = ty_size (st ! b) \<and> ty_align (st' ! b) = ty_align (st ! b)) \<Longrightarrow>
     chain R' st' i ls j"
proof (induction R st i ls j arbitrary: R' rule: chain.induct)
  case (4 R st i n ls j)
  then have i: "st' ! i = st ! i" "i \<in> R'" "i < length st'" by (auto simp: same_on_def)
  obtain b where b: "ty_base (st ! i) = Some b" using 4(2) by (auto split: option.splits)
  have "ty_size (st' ! b) = ty_size (st ! b) \<and> ty_align (st' ! b) = ty_align (st ! b)"
  proof (cases ls)
    case Nil
    then show ?thesis using 4(2,5) b by auto
  next
    case (Cons l ls')
    then have "b \<in> R" "b < length st" using 4(2) b by (cases l; auto)+
    then show ?thesis using 4(3) by (simp add: same_on_def)
  qed
  moreover have "chain R' st' (ty_base (st ! i)) ls j" by (rule 4(1)) (use 4 in auto)
  ultimately show ?case using 4(2) i b by simp
next
  case (5 R st i ps va ls j)
  then have i: "st' ! i = st ! i" "i \<in> R'" "i < length st'" by (auto simp: same_on_def)
  have s: "same_on {k \<in> R. i < k} st st'" using 5(4) by (simp add: same_on_def)
  have "chain R' st' (ty_ret (st ! i)) ls j" by (rule 5(2)) (use 5 in auto)
  moreover have "param_name q = x \<and> b < 16 \<and> chain {k \<in> R'. i < k} st' (param_type q) ls (Some b)"
    if "ty_params (st ! i) = Some tbl" "(q, x, ls, b) \<in> set (zip tbl ps)" for tbl q x ls b
  proof -
    have a: "param_name q = x \<and> b < 16 \<and> chain {k \<in> R. i < k} st (param_type q) ls (Some b)" using 5(3) that by (auto simp: list_all_iff)
    have "chain {k \<in> R'. i < k} st' (param_type q) ls (Some b)"
      by (rule 5(1) [OF that(1) that(2) refl refl refl]) (use a s 5(5,6) in auto)
    with a show ?thesis by blast
  qed
  ultimately show ?case using 5(3) i by (auto simp: list_all_iff split: option.splits)
qed (auto simp: same_on_def)

lemma layers_append: "chain R st i ls j \<Longrightarrow> chain R st j ms k \<Longrightarrow> chain R st i (ls @ ms) k"
proof (induction R st i ls j rule: chain.induct)
  case (4 R st i n ls j)
  then show ?case by (auto split: option.splits)
qed (auto simp: list_all_iff split: option.splits)

text \<open>Closing a chain: the object at its end, a pointer or a function, gets the base it lacks.\<close>

definition is_open :: "type_t \<Rightarrow> bool" where
  "is_open t \<longleftrightarrow> ty_kind t = TY_PTR \<and> ty_base t = None \<or> ty_kind t = TY_FUNC \<and> ty_ret t = None"

definition close_type :: "nat option \<Rightarrow> type_t \<Rightarrow> type_t" where
  "close_type suf t = (if ty_kind t = TY_FUNC then t\<lparr>ty_ret := suf\<rparr> else t\<lparr>ty_base := suf\<rparr>)"

lemma close_type_simps [simp]:
  "ty_kind (close_type suf t) = ty_kind t" "ty_size (close_type suf t) = ty_size t" "ty_align (close_type suf t) = ty_align t"
  "ty_params (close_type suf t) = ty_params t" "nparams (close_type suf t) = nparams t" "is_varargs (close_type suf t) = is_varargs t"
  "ty_length (close_type suf t) = ty_length t" "is_complete (close_type suf t) = is_complete t" "word_sized (close_type suf t) = word_sized t"
  by (simp_all add: close_type_def word_sized_def)

lemma nth_close: "ty_size (st[x := close_type suf (st ! x)] ! k) = ty_size (st ! k)" "ty_align (st[x := close_type suf (st ! x)] ! k) = ty_align (st ! k)"
proof -
  have "ty_size (st[x := close_type suf (st ! x)] ! k) = ty_size (st ! k) \<and> ty_align (st[x := close_type suf (st ! x)] ! k) = ty_align (st ! k)"
    by (cases "x < length st") (auto simp: nth_list_update list_update_beyond not_less)
  then show "ty_size (st[x := close_type suf (st ! x)] ! k) = ty_size (st ! k)" "ty_align (st[x := close_type suf (st ! x)] ! k) = ty_align (st ! k)"
    by blast+
qed

lemma word_sized_simps [simp]:
  "word_sized (t\<lparr>ty_base := b\<rparr>) = word_sized t" "word_sized (t\<lparr>ty_ret := b\<rparr>) = word_sized t" "word_sized (t\<lparr>nparams := n\<rparr>) = word_sized t"
  by (simp_all add: word_sized_def)

text \<open>A closed chain does not pass an open object.\<close>

lemma chain_not_null: "chain R st i ls (Some b) \<Longrightarrow> i \<noteq> None"
  by (cases ls; cases i) auto

lemma closed_chain_update:
  "chain R st i ls j \<Longrightarrow> j = Some b \<Longrightarrow> is_open (st ! x) \<Longrightarrow> chain R (st[x := close_type suf (st ! x)]) i ls j"
proof (induction R st i ls j arbitrary: b rule: chain.induct)
  case (3 R st i ls j)
  then have "i \<noteq> x" using chain_not_null [of R st "ty_base (st ! i)" ls b] by (auto simp: is_open_def)
  then show ?case using 3 by simp
next
  case (4 R st i n ls j)
  then have i: "i \<noteq> x" by (auto simp: is_open_def)
  have "chain R (st[x := close_type suf (st ! x)]) (ty_base (st ! i)) ls j" using 4(1) [OF _ 4(3,4)] 4(2) by simp
  then show ?case using 4(2) i by (cases "ty_base (st ! i)") (simp_all add: nth_close)
next
  case (5 R st i ps va ls j)
  then have "i \<noteq> x" using chain_not_null [of R st "ty_ret (st ! i)" ls b] by (auto simp: is_open_def)
  then have i: "st[x := close_type suf (st ! x)] ! i = st ! i" by simp
  have "chain R (st[x := close_type suf (st ! x)]) (ty_ret (st ! i)) ls j" using 5(2) [OF _ 5(4,5)] 5(3) by simp
  moreover have "list_all (\<lambda>(q, x', ls, b). param_name q = x' \<and> b < 16 \<and> chain {k \<in> R. i < k} (st[x := close_type suf (st ! x)]) (param_type q) ls (Some b)) (zip tbl ps)"
    if t: "ty_params (st ! i) = Some tbl" for tbl
  proof -
    have "chain {k \<in> R. i < k} (st[x := close_type suf (st ! x)]) (param_type q) ls (Some b)"
      if "(q, x', ls, b) \<in> set (zip tbl ps)" "chain {k \<in> R. i < k} st (param_type q) ls (Some b)" for q x' ls b
      by (rule 5(1) [OF t that(1) refl refl refl that(2) refl 5(5)])
    then show ?thesis using 5(3) t by (fastforce simp: list_all_iff)
  qed
  ultimately show ?case using 5(3) unfolding chain.simps i length_list_update by (cases "ty_params (st ! i)") simp_all
qed simp_all

lemma update_unchanged: "i \<noteq> x \<Longrightarrow> xs[x := v, i := xs ! i] = xs[x := v]"
  by (metis list_update_id list_update_swap)

lemma splice_chain:
  "chain R st i ls j \<Longrightarrow> j = None \<Longrightarrow> ls \<noteq> [] \<Longrightarrow>
     \<exists>x. x \<in> R \<and> x < length st \<and> is_open (st ! x) \<and> chain R (st[x := close_type suf (st ! x)]) i ls suf
       \<and> (\<forall>n \<ge> length ls. type_splice_base n i suf st = Some (i, st[x := close_type suf (st ! x)]))"
proof (induction R st i ls j rule: chain.induct)
  case (3 R st i ls j)
  show ?case
  proof (cases ls)
    case Nil
    have "type_splice_base n (Some i) suf st = Some (Some i, st[i := close_type suf (st ! i)])" if "1 \<le> n" for n
      using 3(2,3) Nil that by (cases n) (simp_all add: close_type_def)
    then show ?thesis using 3 Nil by (intro exI [of _ i]) (auto simp: is_open_def close_type_def)
  next
    case (Cons l ls')
    then obtain x where x: "x \<in> R" "x < length st" "is_open (st ! x)" "chain R (st[x := close_type suf (st ! x)]) (ty_base (st ! i)) ls suf"
      "\<forall>n \<ge> length ls. type_splice_base n (ty_base (st ! i)) suf st = Some (ty_base (st ! i), st[x := close_type suf (st ! x)])"
      using 3(1) [OF _ 3(3)] 3(2) by auto
    have i: "i \<noteq> x" using 3(2) x(3) Cons by (cases "ty_base (st ! i)") (auto simp: is_open_def)
    have "type_splice_base n (Some i) suf st = Some (Some i, st[x := close_type suf (st ! x)])" if "length (LPtr # ls) \<le> n" for n
      using that i x 3(2) by (cases n) (simp_all add: update_unchanged)
    moreover have "chain R (st[x := close_type suf (st ! x)]) (Some i) (LPtr # ls) suf" using x 3(2) i by simp
    ultimately show ?thesis using x by blast
  qed
next
  case (4 R st i n' ls j)
  then have "ls \<noteq> []" by (auto split: option.splits)
  then obtain x where x: "x \<in> R" "x < length st" "is_open (st ! x)" "chain R (st[x := close_type suf (st ! x)]) (ty_base (st ! i)) ls suf"
    "\<forall>n \<ge> length ls. type_splice_base n (ty_base (st ! i)) suf st = Some (ty_base (st ! i), st[x := close_type suf (st ! x)])"
    using 4(1) [OF _ 4(3)] 4(2) by auto
  have i: "i \<noteq> x" using 4(2) x(3) by (auto simp: is_open_def)
  have "type_splice_base n (Some i) suf st = Some (Some i, st[x := close_type suf (st ! x)])" if "length (LArr n' # ls) \<le> n" for n
    using that i x(2,5) 4(2) by (cases n) (simp_all add: update_unchanged)
  moreover have "chain R (st[x := close_type suf (st ! x)]) (Some i) (LArr n' # ls) suf"
    using 4(2) i x(4) by (cases "ty_base (st ! i)") (simp_all add: nth_close)
  ultimately show ?case using x by blast
next
  case (5 R st i ps va ls j)
  have pars: "list_all (\<lambda>(q, x', ls, b). param_name q = x' \<and> b < 16 \<and> chain {k \<in> R. i < k} (st[x := close_type suf (st ! x)]) (param_type q) ls (Some b)) (zip tbl ps)"
    if "ty_params (st ! i) = Some tbl" "is_open (st ! x)" for tbl x
    using 5(3) that(1) closed_chain_update [OF _ refl that(2)] by (fastforce simp: list_all_iff)
  show ?case
  proof (cases ls)
    case Nil
    then have o: "is_open (st ! i)" using 5(3,4) by (simp add: is_open_def)
    have "chain R (st[i := close_type suf (st ! i)]) (Some i) [LFun ps va] suf"
      using 5(3) pars [OF _ o] by (cases "ty_params (st ! i)") (simp_all add: close_type_def)
    moreover have "type_splice_base n (Some i) suf st = Some (Some i, st[i := close_type suf (st ! i)])" if "1 \<le> n" for n
      using 5(3,4) Nil that by (cases n) (simp_all add: close_type_def)
    ultimately show ?thesis using 5(3) Nil o by fastforce
  next
    case (Cons l ls')
    then obtain x where x: "x \<in> R" "x < length st" "is_open (st ! x)" "chain R (st[x := close_type suf (st ! x)]) (ty_ret (st ! i)) ls suf"
      "\<forall>n \<ge> length ls. type_splice_base n (ty_ret (st ! i)) suf st = Some (ty_ret (st ! i), st[x := close_type suf (st ! x)])"
      using 5(2) [OF _ 5(4)] 5(3) by auto
    have i: "i \<noteq> x" using 5(3) x(3) Cons by (cases "ty_ret (st ! i)") (auto simp: is_open_def)
    then have "chain R (st[x := close_type suf (st ! x)]) (Some i) (LFun ps va # ls) suf"
      using 5(3) x(4) pars [OF _ x(3)] by (cases "ty_params (st ! i)") simp_all
    moreover have "type_splice_base n (Some i) suf st = Some (Some i, st[x := close_type suf (st ! x)])" if "length (LFun ps va # ls) \<le> n" for n
      using that i x(2,5) 5(3) by (cases n) (simp_all add: update_unchanged)
    ultimately show ?thesis using x by blast
  qed
qed auto

subsection \<open>Reading the tokens\<close>

fun tok_is :: "token \<Rightarrow> dtok \<Rightarrow> bool" where
  "tok_is t (P k) \<longleftrightarrow> t_kind t = k"
| "tok_is t (Num v) \<longleftrightarrow> t_kind t = T_INT \<and> t_ival t = v"
| "tok_is t (Id x) \<longleftrightarrow> t_kind t = T_IDENT \<and> t_text t = x"

fun dtoks_at :: "parser \<Rightarrow> dtok list \<Rightarrow> bool" where
  "dtoks_at s [] \<longleftrightarrow> True"
| "dtoks_at s (t # ts) \<longleftrightarrow> tok_is (p_cur s) t \<and> dtoks_at (p_next s) ts"

lemma dtoks_at_append [simp]: "dtoks_at s (ts @ us) \<longleftrightarrow> dtoks_at s ts \<and> dtoks_at (skip (length ts) s) us"
  by (induction s ts rule: dtoks_at.induct) auto

text \<open>The parser behind \<open>k\<close> tokens, with new types.\<close>

definition built :: "nat \<Rightarrow> types \<Rightarrow> parser \<Rightarrow> parser" where
  "built k st s = (skip k s)\<lparr>p_types := st\<rparr>"

lemma set_types_simps [simp]:
  "p_cur (s\<lparr>p_types := st\<rparr>) = p_cur s" "p_next (s\<lparr>p_types := st\<rparr>) = (p_next s)\<lparr>p_types := st\<rparr>"
  "skip k (s\<lparr>p_types := st\<rparr>) = (skip k s)\<lparr>p_types := st\<rparr>"
proof -
  show "p_cur (s\<lparr>p_types := st\<rparr>) = p_cur s" by (simp add: p_cur_def)
  show n: "p_next (s\<lparr>p_types := st\<rparr>) = (p_next s)\<lparr>p_types := st\<rparr>" for s by (simp add: p_next_def)
  show "skip k (s\<lparr>p_types := st\<rparr>) = (skip k s)\<lparr>p_types := st\<rparr>" by (induction k arbitrary: s) (simp_all add: n)
qed

lemma dtoks_at_set_types [simp]: "dtoks_at (s\<lparr>p_types := st\<rparr>) ts = dtoks_at s ts"
  by (induction s ts rule: dtoks_at.induct) simp_all

lemma p_next_skip [simp]: "p_next (skip k s) = skip k (p_next s)"
  by (simp add: skip_def funpow_swap1)

lemma built_simps [simp]:
  "p_types (built k st s) = st" "p_cur (built k st s) = p_cur (skip k s)" "p_next (built k st s) = built (Suc k) st s"
  "built m st' (built k st s) = built (k + m) st' s" "(built k st s)\<lparr>p_types := st'\<rparr> = built k st' s" "dtoks_at (built k st s) ts = dtoks_at (skip k s) ts"
  "skip m (built k st s) = built (k + m) st s"
  by (simp_all add: built_def)

lemma built_id: "skip k s = built k (p_types s) s"
proof -
  have "(skip k s)\<lparr>p_types := p_types (skip k s)\<rparr> = skip k s" by (cases "skip k s") simp
  then show ?thesis by (simp add: built_def)
qed

lemma built_0: "built 0 (p_types s) s = s"
  using built_id [of 0 s] by simp

lemma types_kept [simp]: "p_types (parse_expect k s) = p_types s"
  by (simp add: parse_expect_def p_next_def parse_error_def)

definition prims_ok :: "types \<Rightarrow> bool" where
  "prims_ok st \<longleftrightarrow> 16 \<le> length st \<and> (\<forall>i < 16. (ty_kind (st ! i), ty_size (st ! i), ty_align (st ! i)) = prim_table ! i \<and> is_complete (st ! i))"

lemma prims_ok_types_ok: "types_ok st \<Longrightarrow> prims_ok st"
proof -
  assume ok: "types_ok st"
  have "(ty_kind (st ! i), ty_size (st ! i), ty_align (st ! i)) = prim_table ! i \<and> is_complete (st ! i)" if i: "i < 16" for i
  proof -
    have k: "ty_kind (st ! i) = fst (prim_table ! i)" "kind_ok (st ! i)" "i < length prim_table"
      using types_okD [OF ok] i by (auto simp: prim_table_def)
    then have "(ty_kind (st ! i), ty_size (st ! i), ty_align (st ! i)) \<in> set prim_table" "is_complete (st ! i)" by (auto simp: kind_ok_def)
    moreover have "x = prim_table ! i" if "x \<in> set prim_table" "fst x = fst (prim_table ! i)" for x
    proof -
      have "distinct (map fst prim_table)" by (simp add: prim_table_def)
      then show ?thesis using that k(3) by (metis eq_key_imp_eq_value nth_mem prod.collapse)
    qed
    ultimately show ?thesis using k(1) by simp
  qed
  then show ?thesis using types_okD(1) [OF ok] by (simp add: prims_ok_def)
qed

definition extended :: "types \<Rightarrow> types \<Rightarrow> bool" where
  "extended st st' \<longleftrightarrow> same_on {..<length st} st st'"

lemma extended_refl [simp]: "extended st st"
  by (simp add: extended_def same_on_def)

lemma extended_trans: "extended st st' \<Longrightarrow> extended st' st'' \<Longrightarrow> extended st st''"
  by (simp add: extended_def same_on_def)

lemma extended_length: "extended st st' \<Longrightarrow> length st \<le> length st'"
  by (simp add: extended_def same_on_def)

lemma extended_nth: "extended st st' \<Longrightarrow> k < length st \<Longrightarrow> st' ! k = st ! k"
  by (simp add: extended_def same_on_def)

lemma extended_append [simp]: "extended st (st @ ts)"
  by (simp add: extended_def same_on_def nth_append)

lemma prims_ok_extended: "prims_ok st \<Longrightarrow> extended st st' \<Longrightarrow> prims_ok st'"
  by (simp add: prims_ok_def extended_def same_on_def)

text \<open>A chain survives an extension of the types.\<close>

lemma chain_extended:
  assumes "chain R st i ls j" "extended st st'" "prims_ok st" "R \<subseteq> R'" "\<And>b. j = Some b \<Longrightarrow> b < length st"
  shows "chain R' st' i ls j"
proof (rule chain_frame [OF assms(1) _ assms(4)])
  show "same_on R st st'" using assms(2) by (auto simp: extended_def same_on_def)
  fix b assume "b \<in> set_option j \<union> {..<16}"
  then have "b < length st" using assms(3,5) by (auto simp: prims_ok_def)
  then show "ty_size (st' ! b) = ty_size (st ! b) \<and> ty_align (st' ! b) = ty_align (st ! b)" using extended_nth [OF assms(2)] by simp
qed

subsection \<open>Specifiers and array bounds\<close>

lemma evs_type_spec_Suc:
  "evs (\<lambda>n. spec_round (struct_body (struct_fields n)) (enum_body (enumerators n)) (type_spec_loop n) f s) r \<Longrightarrow> evs (\<lambda>n. type_spec_loop n f s) r"
  by (rule evs_Suc) (simp_all add: decl_fuel_Suc)

lemma spec_flags:
  "dtoks_at s (map (\<lambda>k. P (T_KW k)) ks) \<Longrightarrow> foldr (\<lambda>k g f. case spec_flag k f of None \<Rightarrow> None | Some f \<Rightarrow> g f) ks Some f = Some f' \<Longrightarrow>
     evs (\<lambda>n. type_spec_loop n f' (skip (length ks) s)) r \<Longrightarrow> evs (\<lambda>n. type_spec_loop n f s) r"
proof (induction ks arbitrary: s f)
  case (Cons k ks)
  then obtain g where g: "spec_flag k f = Some g" by (auto split: option.splits)
  have "evs (\<lambda>n. type_spec_loop n g (p_next s)) r" using Cons g by auto
  then show ?case using Cons.prems(1) g by (intro evs_type_spec_Suc) (simp add: spec_round_def)
qed simp

lemma spec_last:
  assumes "t_kind (p_cur s) = T_KW k" "spec_flag k f = None" "spec_base k f = Some b" "t_kind (p_cur (p_next s)) \<noteq> T_KW T_KW_INT"
  shows "evs (\<lambda>n. type_spec_loop n f s) ((Some (modified f b), f), p_next s)"
  by (rule evs_type_spec_Suc) (use assms in \<open>simp add: spec_round_def after_base_def evs_const\<close>)

lemma specifiers_split:
  "(ks, t) \<in> set c_specifiers \<Longrightarrow>
     \<exists>f b. foldr (\<lambda>k g f. case spec_flag k f of None \<Rightarrow> None | Some f \<Rightarrow> g f) (butlast ks) Some no_spec = Some f
       \<and> ks \<noteq> [] \<and> spec_flag (last ks) f = None \<and> spec_base (last ks) f = Some b \<and> modified f b = t \<and> \<not> sp_const f \<and> \<not> sp_volatile f \<and> t < 16
       \<and> spec_type ks = t \<and> T_KW (hd ks) \<notin> {T_KW T_KW_STATIC, T_KW T_KW_EXTERN, T_KW T_KW_TYPEDEF, T_KW T_KW_INLINE}"
  unfolding c_specifiers_def spec_type_def
  by (simp, elim disjE) (simp_all add: spec_flag_def spec_base_def no_spec_def modified_def)

lemma reads_type_spec:
  assumes "(ks, t) \<in> set c_specifiers" "dtoks_at s (map (\<lambda>k. P (T_KW k)) ks)" "t_kind (p_cur (skip (length ks) s)) \<noteq> T_KW T_KW_INT"
  shows "evs (\<lambda>n. parse_type_spec n s) (t, skip (length ks) s)"
proof -
  obtain f b where f: "foldr (\<lambda>k g f. case spec_flag k f of None \<Rightarrow> None | Some f \<Rightarrow> g f) (butlast ks) Some no_spec = Some f"
    "ks \<noteq> []" "spec_flag (last ks) f = None" "spec_base (last ks) f = Some b" "modified f b = t" "\<not> sp_const f" "\<not> sp_volatile f"
    using specifiers_split [OF assms(1)] by blast
  obtain fl k where ks: "ks = fl @ [k]" using f(2) by (cases ks rule: rev_cases) auto
  have at: "dtoks_at s (map (\<lambda>k. P (T_KW k)) fl)" "t_kind (p_cur (skip (length fl) s)) = T_KW k" using assms(2) by (auto simp: ks)
  have "evs (\<lambda>n. type_spec_loop n f (skip (length fl) s)) ((Some (modified f b), f), p_next (skip (length fl) s))"
    by (rule spec_last) (use at f assms(3) in \<open>simp_all add: ks\<close>)
  then have "evs (\<lambda>n. type_spec_loop n no_spec s) ((Some t, f), skip (length ks) s)"
    using f(1,5) by (intro spec_flags [OF at(1)]) (simp_all add: ks)
  then show ?thesis unfolding parse_type_spec_def
    by (rule evs_bind) (use f(6,7) in \<open>simp add: finish_type_spec_def evs_const\<close>)
qed

lemma reads_decl_spec:
  assumes "(ks, t) \<in> set c_specifiers" "dtoks_at s (map (\<lambda>k. P (T_KW k)) ks)" "t_kind (p_cur (skip (length ks) s)) \<noteq> T_KW T_KW_INT"
  shows "evs (\<lambda>n. parse_decl_spec n s) ((t, no_storage), skip (length ks) s)"
proof -
  obtain k ks' where ks: "ks = k # ks'" "T_KW k \<notin> {T_KW T_KW_STATIC, T_KW T_KW_EXTERN, T_KW T_KW_TYPEDEF, T_KW T_KW_INLINE}"
    using specifiers_split [OF assms(1)] by (cases ks) auto
  have "evs (\<lambda>n. storage_loop n no_storage s) (no_storage, s)"
    by (rule evs_Suc [where g = "\<lambda>n. Inr (no_storage, s)"]) (use ks assms(2) in \<open>auto simp: storage_flag_def evs_const\<close>)
  then show ?thesis unfolding parse_decl_spec_def
    by (rule evs_bind) (use evs_bind [OF reads_type_spec [OF assms], where g = "\<lambda>n (base, s). Inr ((base, no_storage), s)"] in \<open>simp add: evs_const\<close>)
qed

text \<open>The bound of an array.\<close>

lemma reads_bound:
  assumes "prims_ok (p_types s)" "tok_is (p_cur s) (Num v)" "v < 2 ^ 31" "t_kind (p_cur (p_next s)) = T_RBRACKET"
  shows "parse_const_expr tn (Suc (Suc (Suc (Suc n)))) s = Inr (uint v, p_next s)"
proof -
  let ?t = "p_types s ! 7"
  have t: "ty_kind ?t = TY_INT" "ty_size ?t = 4" "ty_align ?t = 4" "is_complete ?t"
    using assms(1) by (auto simp: prims_ok_def prim_table_def dest!: spec [of _ 7])
  then have il: "int_like ?t" by (simp add: int_like_def kind_ok_def prim_table_def type_is_integer_def)
  have "uint v < 2 ^ 31" using assms(3) by (simp add: word_less_def)
  then have "signed_take_bit 31 (uint v) = uint v" by (intro signed_take_bit_int_eq_self order.trans [OF _ uint_ge_0]) simp_all
  then have "c_convert ?t (uint v) = uint v" using t by (simp add: c_convert_def type_is_signed_def bits_of_def)
  then have "sint (conv ?t v) = uint v"
    using int_of_conv_word [OF il, of "uint v"] t by (simp add: int_of_def type_is_signed_def)
  then show ?thesis
    using assms(2,4) const_value_eq [OF il, of v]
    by (simp add: parse_const_expr_def fuel_Suc conditional_body_def unary_body_def const_atom_def literal_type_def
        loop_body_def const_op_prec_def accept_def Let_def)
qed

subsection \<open>Pointers and suffixes\<close>

text \<open>What a function of the parser builds on a base: new objects, with the layers from the result to the base.\<close>

definition builds :: "types \<Rightarrow> types \<Rightarrow> nat option \<Rightarrow> layer list \<Rightarrow> nat option \<Rightarrow> bool" where
  "builds st st' i ls base \<longleftrightarrow> extended st st' \<and> chain {length st..<length st'} st' i ls base"

definition valid_base :: "types \<Rightarrow> nat option \<Rightarrow> bool" where
  "valid_base st base \<longleftrightarrow> (\<forall>b \<in> set_option base. b < length st)"

lemma builds_refl: "builds st st base [] base"
  by (simp add: builds_def)

lemma builds_extended: "builds st st' i ls base \<Longrightarrow> extended st st'"
  by (simp add: builds_def)

lemma builds_valid:
  assumes "builds st st' i ls base" "valid_base st base"
  shows "valid_base st' i"
proof (cases ls)
  case Nil
  then show ?thesis using assms extended_length [of st st'] by (auto simp: builds_def valid_base_def)
next
  case (Cons l ls')
  then show ?thesis using assms(1) by (cases i; cases l) (auto simp: builds_def valid_base_def)
qed

lemma builds_not_null: "builds st st' i ls (Some b) \<Longrightarrow> \<exists>k. i = Some k"
  using chain_not_null by (fastforce simp: builds_def)

lemma builds_trans:
  assumes "builds st st1 i ls base" "builds st1 st2 j ms i" "prims_ok st" "valid_base st base"
  shows "builds st st2 j (ms @ ls) base"
proof -
  note e = assms(1,2) [unfolded builds_def, THEN conjunct1]
  note l = e [THEN extended_length]
  have "chain {length st..<length st2} st2 i ls base"
    by (rule chain_extended [OF assms(1) [unfolded builds_def, THEN conjunct2] e(2)])
      (use l assms(3,4) prims_ok_extended [OF assms(3) e(1)] in \<open>auto simp: valid_base_def\<close>)
  moreover have "chain {length st..<length st2} st2 j ms i"
    by (rule chain_frame [OF assms(2) [unfolded builds_def, THEN conjunct2]]) (use l in \<open>auto simp: same_on_def\<close>)
  ultimately show ?thesis using layers_append extended_trans [OF e] by (auto simp: builds_def)
qed

lemma builds_ptr: "\<exists>i st'. make_ptr base s = (i, s\<lparr>p_types := st'\<rparr>) \<and> builds (p_types s) st' (Some i) [LPtr] base"
  by (auto simp: make_ptr_def with_types_def type_alloc_def builds_def zero_type_def word_sized_def)

lemma builds_array:
  assumes "valid_base (p_types s) (Some b)"
  shows "\<exists>i st'. make_array (Some b) n s = Inr (i, s\<lparr>p_types := st'\<rparr>) \<and> builds (p_types s) st' (Some i) [LArr n] (Some b)"
  using assms by (auto simp: make_array_def with_types_def type_make_array_def type_alloc_def builds_def zero_type_def nth_append valid_base_def)

lemma reads_stars:
  "set ps \<subseteq> set pointer_tokens \<Longrightarrow> dtoks_at s (map P ps) \<Longrightarrow> next_kind (length ps) s \<notin> set pointer_tokens \<Longrightarrow>
   prims_ok (p_types s) \<Longrightarrow> valid_base (p_types s) base \<Longrightarrow>
   \<exists>i st'. evs (\<lambda>n. stars n base s) (i, built (length ps) st' s) \<and> builds (p_types s) st' i (replicate (count_list ps T_STAR) LPtr) base"
proof (induction ps arbitrary: s base)
  case Nil
  have "evs (\<lambda>n. stars n base s) (base, s)"
    by (rule evs_Suc [where g = "\<lambda>n. Inr (base, s)"]) (use Nil(3) in \<open>auto simp: accept_def pointer_tokens_def evs_const\<close>)
  then show ?case by (intro exI [of _ base] exI [of _ "p_types s"]) (simp add: builds_refl built_0)
next
  case (Cons k ps)
  show ?case
  proof (cases "k = T_STAR")
    case True
    obtain j st1 where m: "make_ptr base (p_next s) = (j, built 1 st1 s)" and b: "builds (p_types s) st1 (Some j) [LPtr] base"
      using builds_ptr [of base "p_next s"] by (auto simp: built_def)
    have "\<exists>i st'. evs (\<lambda>n. stars n (Some j) (built 1 st1 s)) (i, built (length ps) st' (built 1 st1 s))
        \<and> builds (p_types (built 1 st1 s)) st' i (replicate (count_list ps T_STAR) LPtr) (Some j)"
      by (rule Cons.IH) (use Cons.prems b builds_valid [OF b] prims_ok_extended builds_extended in auto)
    then obtain i st' where i: "evs (\<lambda>n. stars n (Some j) (built 1 st1 s)) (i, built (length (k # ps)) st' s)"
      "builds st1 st' i (replicate (count_list ps T_STAR) LPtr) (Some j)" by auto
    have "evs (\<lambda>n. stars n base s) (i, built (length (k # ps)) st' s)"
      by (rule evs_Suc [OF _ i(1)]) (use True Cons.prems(2) m in \<open>simp add: accept_def\<close>)
    moreover have "builds (p_types s) st' i (replicate (count_list ps T_STAR) LPtr @ [LPtr]) base"
      by (rule builds_trans [OF b i(2)]) (use Cons.prems in simp_all)
    ultimately show ?thesis using True by (auto simp: replicate_append_same)
  next
    case False
    have q: "k \<in> {T_KW T_KW_CONST, T_KW T_KW_VOLATILE, T_KW T_KW_RESTRICT}" using False Cons.prems(1) by (auto simp: pointer_tokens_def)
    obtain i st' where i: "evs (\<lambda>n. stars n base (p_next s)) (i, built (length ps) st' (p_next s))"
      "builds (p_types s) st' i (replicate (count_list ps T_STAR) LPtr) base" using Cons.IH [of "p_next s" base] Cons.prems by auto
    have "evs (\<lambda>n. stars n base s) (i, built (length ps) st' (p_next s))"
      by (rule evs_Suc [OF _ i(1)]) (use False q Cons.prems(2) in \<open>auto simp: accept_def\<close>)
    moreover have "built (length ps) st' (p_next s) = built (length (k # ps)) st' s" by (simp add: built_def)
    ultimately show ?thesis using False i(2) by auto
  qed
qed

subsection \<open>Parameters\<close>

definition declarator_end :: "token_kind set" where
  "declarator_end = {T_COMMA, T_SEMI, T_ASSIGN, T_RPAREN, T_LBRACE, T_COLON}"

definition reads_dcl :: "dcl \<Rightarrow> bool" where
  "reads_dcl d \<longleftrightarrow>
     (\<forall>s base. wf_dcl (base = None) d \<and> prims_ok (p_types s) \<and> valid_base (p_types s) base \<and> dtoks_at s (dtoks d)
        \<and> next_kind (length (dtoks d)) s \<in> declarator_end \<longrightarrow>
        (\<exists>i st'. evs (\<lambda>n. parse_declarator n base s) ((i, dname d), built (length (dtoks d)) st' s) \<and> builds (p_types s) st' i (layers d) base))"

lemma reads_dclD:
  assumes "reads_dcl d" "wf_dcl (base = None) d" "prims_ok (p_types s)" "valid_base (p_types s) base" "dtoks_at s (dtoks d)"
    and "next_kind (length (dtoks d)) s \<in> declarator_end"
  obtains i st' where "evs (\<lambda>n. parse_declarator n base s) ((i, dname d), built (length (dtoks d)) st' s)" "builds (p_types s) st' i (layers d) base"
  using assms unfolding reads_dcl_def by blast

lemma decay_param_builds:
  assumes "builds st (p_types s) (Some i) ls (Some b)" "prims_ok st" "b < 16"
  shows "\<exists>j st'. decay_param i s = (j, s\<lparr>p_types := st'\<rparr>) \<and> builds st st' (Some j) (adjust ls) (Some b) \<and> extended (p_types s) st'"
proof (cases ls rule: adjust.cases)
  case (1 n ls')
  let ?st = "p_types s"
  have k: "ty_kind (?st ! i) = TY_ARRAY" "length st \<le> i" "i < length ?st" "chain {length st..<length ?st} ?st (ty_base (?st ! i)) ls' (Some b)"
    using assms(1) 1 by (auto simp: builds_def)
  obtain q where q: "ty_base (?st ! i) = Some q" using chain_not_null [OF k(4)] by blast
  define st' where "st' = ?st @ [zero_type\<lparr>ty_kind := TY_PTR, ty_base := Some q, ty_size := 8, ty_align := 8, is_complete := True\<rparr>]"
  have "builds st ?st (Some q) ls' (Some b)" using k(4) q assms(1) by (simp add: builds_def)
  moreover have "builds ?st st' (Some (length ?st)) [LPtr] (Some q)" by (simp add: builds_def st'_def zero_type_def word_sized_def)
  ultimately have "builds st st' (Some (length ?st)) ([LPtr] @ ls') (Some b)"
    by (rule builds_trans) (use assms(2,3) in \<open>auto simp: prims_ok_def valid_base_def\<close>)
  moreover have "decay_param i s = (length ?st, s\<lparr>p_types := st'\<rparr>)"
    using k q by (simp add: decay_param_def type_decay_def type_make_ptr_def type_alloc_def with_types_def st'_def zero_type_def)
  ultimately show ?thesis using 1 by (auto simp: st'_def)
next
  case (2 ps va ls')
  let ?st = "p_types s"
  have k: "ty_kind (?st ! i) = TY_FUNC" using assms(1) 2 by (auto simp: builds_def)
  define st' where "st' = ?st @ [zero_type\<lparr>ty_kind := TY_PTR, ty_base := Some i, ty_size := 8, ty_align := 8, is_complete := True\<rparr>]"
  have "builds ?st st' (Some (length ?st)) [LPtr] (Some i)" by (simp add: builds_def st'_def zero_type_def word_sized_def)
  then have "builds st st' (Some (length ?st)) ([LPtr] @ ls) (Some b)"
    by (rule builds_trans [OF assms(1)]) (use assms(2,3) in \<open>auto simp: prims_ok_def valid_base_def\<close>)
  moreover have "decay_param i s = (length ?st, s\<lparr>p_types := st'\<rparr>)"
    using k by (simp add: decay_param_def type_make_ptr_def type_alloc_def with_types_def st'_def)
  ultimately show ?thesis using 2 by (auto simp: st'_def)
next
  case "3_1"
  then have i: "i = b" "adjust ls = []" "ls = []" using assms(1) by (auto simp: builds_def)
  have "ty_kind (p_types s ! b) \<notin> {TY_ARRAY, TY_FUNC}"
  proof -
    have "prims_ok (p_types s)" using assms(1,2) prims_ok_extended by (auto simp: builds_def)
    then have "ty_kind (p_types s ! b) = fst (prim_table ! b)" using assms(3) by (metis fst_conv prims_ok_def)
    moreover have "prim_table ! b \<in> set prim_table" using assms(3) by (intro nth_mem) (simp add: prim_table_def)
    ultimately show ?thesis by (auto simp: prim_table_def)
  qed
  then have "decay_param i s = (i, s\<lparr>p_types := p_types s\<rparr>)" using i by (simp add: decay_param_def)
  then show ?thesis using assms(1) i by (metis extended_refl)
next
  case "3_2"
  have "ty_kind (p_types s ! i) = TY_PTR" using assms(1) "3_2" by (auto simp: builds_def)
  then have "decay_param i s = (i, s\<lparr>p_types := p_types s\<rparr>)" by (simp add: decay_param_def)
  then show ?thesis using assms(1) "3_2" by (metis adjust.simps(4) extended_refl)
qed

definition param_toks :: "keyword list \<times> dcl \<Rightarrow> dtok list" where
  "param_toks = (\<lambda>(ks, d). map (\<lambda>k. P (T_KW k)) ks @ dtoks d)"

definition param_list :: "(keyword list \<times> dcl) list \<Rightarrow> bool \<Rightarrow> dtok list" where
  "param_list ps va = commas (map param_toks ps @ (if va then [[P T_ELLIPSIS]] else []))"

definition param_sem :: "keyword list \<times> dcl \<Rightarrow> u8 list \<times> layer list \<times> nat" where
  "param_sem = (\<lambda>(ks, d). (dname d, adjust (layers d), spec_type ks))"

definition reads_param :: "keyword list \<times> dcl \<Rightarrow> bool" where
  "reads_param = (\<lambda>(ks, d). reads_dcl d \<and> ks \<in> fst ` set c_specifiers \<and> wf_dcl False d)"

lemma evs_param_loop:
  "evs (\<lambda>n. param_round (parse_decl_spec n) (\<lambda>b. parse_declarator n (Some b)) (param_loop n ft) ft s) r \<Longrightarrow> evs (\<lambda>n. param_loop n ft s) r"
  by (rule evs_Suc) (simp_all add: decl_fuel_Suc)

text \<open>A token of a declarator, or the one behind it, never continues the specifiers before it.\<close>

lemma suffix_head: "\<exists>t ts. stoks x = t # ts \<and> t \<in> {P T_LPAREN, P T_LBRACKET}"
  by (cases x) auto

lemma declarator_head:
  assumes "dtoks_at s (dtoks d)" "next_kind (length (dtoks d)) s \<in> declarator_end" "wf_dcl null d"
  shows "t_kind (p_cur s) \<noteq> T_KW T_KW_INT" "t_kind (p_cur s) \<noteq> T_ELLIPSIS"
proof -
  obtain ps c sfs where d: "d = Dcl ps c sfs" by (cases d)
  have "t_kind (p_cur s) \<in> set pointer_tokens \<union> {T_IDENT, T_LPAREN, T_LBRACKET} \<union> declarator_end"
  proof (cases ps)
    case (Cons k ps')
    then show ?thesis using assms d by auto
  next
    case Nil
    show ?thesis
    proof (cases c)
      case Abstract
      then show ?thesis using assms d Nil suffix_head [of "hd sfs"] by (cases sfs) auto
    qed (use assms d Nil in auto)
  qed
  then show "t_kind (p_cur s) \<noteq> T_KW T_KW_INT" "t_kind (p_cur s) \<noteq> T_ELLIPSIS" by (auto simp: pointer_tokens_def declarator_end_def)
qed

lemma one_param:
  assumes p: "reads_param (ks, d)" and at: "dtoks_at s (param_toks (ks, d))" "next_kind (length (param_toks (ks, d))) s \<in> declarator_end"
    and ok: "prims_ok (p_types s)"
  obtains j st' where "builds (p_types s) st' (Some j) (adjust (layers d)) (Some (spec_type ks))"
    and "\<And>r. evs (\<lambda>n. case accept T_COMMA (add_param ft (dname d) j (built (length (param_toks (ks, d))) st' s)) of
         (True, s) \<Rightarrow> param_loop n ft s | (False, s) \<Rightarrow> Inr ((), s)) r \<Longrightarrow> evs (\<lambda>n. param_loop n ft s) r"
proof -
  obtain t where t: "(ks, t) \<in> set c_specifiers" using p by (auto simp: reads_param_def)
  note sp = specifiers_split [OF t]
  then have t': "spec_type ks = t" "t < 16" "ks \<noteq> []" by auto
  let ?s = "skip (length ks) s"
  have d: "dtoks_at ?s (dtoks d)" "next_kind (length (dtoks d)) ?s \<in> declarator_end" "dtoks_at s (map (\<lambda>k. P (T_KW k)) ks)"
    using at by (simp_all add: param_toks_def)
  have wd: "wf_dcl (Some t = None) d" "reads_dcl d" using p by (auto simp: reads_param_def)
  note head = declarator_head [OF d(1,2) wd(1)]
  have v: "valid_base (p_types ?s) (Some t)" using ok t' by (simp add: valid_base_def prims_ok_def)
  obtain i st1 where i: "evs (\<lambda>n. parse_declarator n (Some t) ?s) ((i, dname d), built (length (dtoks d)) st1 ?s)"
    "builds (p_types s) st1 i (layers d) (Some t)" using reads_dclD [OF wd(2,1) _ v d(1,2)] ok by auto
  obtain i' where i': "i = Some i'" using builds_not_null [OF i(2)] by blast
  obtain j st2 where j: "decay_param i' (built (length (dtoks d)) st1 ?s) = (j, built (length (dtoks d)) st2 ?s)"
    "builds (p_types s) st2 (Some j) (adjust (layers d)) (Some t)"
    using decay_param_builds [of "p_types s" "built (length (dtoks d)) st1 ?s" i' "layers d" t] i(2) i' ok t'(2) by auto
  have e: "built (length (dtoks d)) st2 ?s = built (length (param_toks (ks, d))) st2 s" by (simp add: built_def param_toks_def)
  have "evs (\<lambda>n. param_loop n ft s) r"
    if r: "evs (\<lambda>n. case accept T_COMMA (add_param ft (dname d) j (built (length (param_toks (ks, d))) st2 s)) of
         (True, s) \<Rightarrow> param_loop n ft s | (False, s) \<Rightarrow> Inr ((), s)) r" for r
  proof (rule evs_param_loop)
    have "t_kind (p_cur s) \<noteq> T_ELLIPSIS" using d(3) t'(3) by (cases ks) auto
    then show "evs (\<lambda>n. param_round (parse_decl_spec n) (\<lambda>b. parse_declarator n (Some b)) (param_loop n ft) ft s) r"
      unfolding param_round_def using r i' j(1) e
      by (auto intro!: evs_bind [OF reads_decl_spec [OF t d(3) head(1)]] evs_bind [OF i(1)])
  qed
  then show thesis using that j(2) t'(1) by blast
qed

text \<open>The table of the parameters: null before the first one, then of fixed length.\<close>

definition param_table :: "type_t \<Rightarrow> func_param list" where
  "param_table t = (case ty_params t of None \<Rightarrow> replicate CC_MAX_FUNC_PARAMS zero_param | Some tbl \<Rightarrow> tbl)"

definition param_chain :: "nat set \<Rightarrow> types \<Rightarrow> func_param \<times> u8 list \<times> layer list \<times> nat \<Rightarrow> bool" where
  "param_chain R st = (\<lambda>(q, x, ls, b). param_name q = x \<and> b < 16 \<and> chain R st (param_type q) ls (Some b))"

lemma add_param_eq:
  assumes "nparams (p_types s ! ft) = word_of_nat k" "k < CC_MAX_FUNC_PARAMS" "ft < length (p_types s)"
  shows "add_param ft x t s = s\<lparr>p_types := (p_types s)[ft := (p_types s ! ft)\<lparr>nparams := word_of_nat (Suc k),
     ty_params := Some ((param_table (p_types s ! ft))[k := (param_table (p_types s ! ft) ! k)\<lparr>param_name := x, param_type := Some t\<rparr>])\<rparr>]\<rparr>"
proof -
  have "unat (word_of_nat k :: u32) = k" using assms(2) by (simp add: unat_of_nat CC_MAX_FUNC_PARAMS_def)
  moreover have "word_of_nat (Suc k) = (word_of_nat k + 1 :: u32)" by simp
  ultimately show ?thesis using assms
    by (cases "ty_params (p_types s ! ft)") (simp_all add: add_param_def upd_type_def type_ensure_params_def param_table_def add.commute)
qed

lemma param_chain_frame:
  assumes "param_chain R st p" "same_on R st st'" "same_on {..<16} st st'" "16 \<le> length st" "R \<subseteq> R'"
  shows "param_chain R' st' p"
proof -
  obtain q x ls b where p: "p = (q, x, ls, b)" by (cases p)
  have "chain R' st' (param_type q) ls (Some b)"
    by (rule chain_frame [of R st _ _ _ st']) (use assms p in \<open>auto simp: param_chain_def same_on_def\<close>)
  then show ?thesis using assms(1) p by (simp add: param_chain_def)
qed

definition params_done :: "nat \<Rightarrow> nat \<Rightarrow> (keyword list \<times> dcl) list \<Rightarrow> bool \<Rightarrow> types \<Rightarrow> types \<Rightarrow> bool" where
  "params_done ft k ps va st st' \<longleftrightarrow>
     same_on (- {ft}) st st'
     \<and> st' ! ft = (st ! ft)\<lparr>nparams := word_of_nat (k + length ps), is_varargs := va, ty_params := ty_params (st' ! ft)\<rparr>
     \<and> (ty_params (st' ! ft) = None \<longrightarrow> ps = [] \<and> ty_params (st ! ft) = None) \<and> length (param_table (st' ! ft)) = CC_MAX_FUNC_PARAMS
     \<and> take k (param_table (st' ! ft)) = take k (param_table (st ! ft))
     \<and> list_all (param_chain {length st..<length st'} st') (zip (drop k (param_table (st' ! ft))) (map param_sem ps))"

text \<open>One parameter more in the table.\<close>

definition next_param :: "nat \<Rightarrow> nat \<Rightarrow> u8 list \<Rightarrow> nat \<Rightarrow> types \<Rightarrow> types" where
  "next_param ft k x j st = st[ft := (st ! ft)\<lparr>nparams := word_of_nat (Suc k),
     ty_params := Some ((param_table (st ! ft))[k := (param_table (st ! ft) ! k)\<lparr>param_name := x, param_type := Some j\<rparr>])\<rparr>]"

lemma drop_update: "k < length xs \<Longrightarrow> drop k (xs[k := v]) = v # drop (Suc k) xs"
  using Cons_nth_drop_Suc [of k "xs[k := v]"] by simp

lemma next_param_done:
  assumes b: "builds st st1 (Some j) (adjust (layers d)) (Some (spec_type ks))" and ok: "prims_ok st" "ks \<in> fst ` set c_specifiers"
    and ft: "ft < length st" "16 \<le> ft" "length (param_table (st ! ft)) = CC_MAX_FUNC_PARAMS" "k < CC_MAX_FUNC_PARAMS" "\<not> is_varargs (st ! ft)"
    and st2: "st2 = next_param ft k (dname d) j st1"
  shows "params_done ft k [(ks, d)] False st st2"
proof -
  have e: "st1 ! ft = st ! ft" "length st \<le> length st1" using extended_nth [OF builds_extended [OF b] ft(1)] extended_length [OF builds_extended [OF b]] by simp_all
  have f: "st2 ! ft = (st ! ft)\<lparr>nparams := word_of_nat (Suc k), ty_params := Some ((param_table (st ! ft))[k := (param_table (st ! ft) ! k)\<lparr>param_name := dname d, param_type := Some j\<rparr>])\<rparr>"
    using e ft(1) by (simp add: st2 next_param_def)
  have s: "same_on (- {ft}) st st2" using builds_extended [OF b] by (auto simp: st2 next_param_def same_on_def extended_def)
  have "spec_type ks < 16" using ok(2) specifiers_split by fastforce
  moreover have "chain {length st..<length st2} st2 (Some j) (adjust (layers d)) (Some (spec_type ks))"
  proof (rule chain_frame [OF b [unfolded builds_def, THEN conjunct2]])
    show "same_on {length st..<length st1} st1 st2" using ft(1) by (auto simp: same_on_def st2 next_param_def)
    show "{length st..<length st1} \<subseteq> {length st..<length st2}" by (simp add: st2 next_param_def)
    show "ty_size (st2 ! b) = ty_size (st1 ! b) \<and> ty_align (st2 ! b) = ty_align (st1 ! b)"
      if "b \<in> set_option (Some (spec_type ks)) \<union> {..<16}" for b using that calculation ft(2) by (auto simp: st2 next_param_def)
  qed
  ultimately have c: "param_chain {length st..<length st2} st2 ((param_table (st ! ft) ! k)\<lparr>param_name := dname d, param_type := Some j\<rparr>, param_sem (ks, d))"
    by (simp add: param_chain_def param_sem_def)
  have "drop k (param_table (st2 ! ft)) = ((param_table (st ! ft) ! k)\<lparr>param_name := dname d, param_type := Some j\<rparr>) # drop (Suc k) (param_table (st ! ft))"
    using drop_update [of k "param_table (st ! ft)"] ft(3,4) by (simp add: f param_table_def)
  then show ?thesis unfolding params_done_def using s f c ft(3,4,5) by (auto simp: param_table_def)
qed

lemma params_done_append:
  assumes a: "params_done ft k [p] False st st1" and b: "params_done ft (Suc k) ps va st1 st2"
    and ok: "prims_ok st" "16 \<le> ft" "ft < length st" "Suc k + length ps \<le> CC_MAX_FUNC_PARAMS"
  shows "params_done ft k (p # ps) va st st2"
proof -
  let ?T = "param_table (st2 ! ft)" and ?T1 = "param_table (st1 ! ft)"
  note a = a [unfolded params_done_def] and b = b [unfolded params_done_def]
  have l: "length st \<le> length st1" "length st1 \<le> length st2" "length ?T = CC_MAX_FUNC_PARAMS" "length ?T1 = CC_MAX_FUNC_PARAMS" using a b by (auto simp: same_on_def)
  have s: "same_on (- {ft}) st st2" using a b l ok(3) unfolding same_on_def by auto
  have t1: "take (Suc k) ?T = take (Suc k) ?T1" using b by blast
  then have t: "take k ?T = take k (param_table (st ! ft))" using a by (metis (no_types, lifting) take_take min.absorb2 le_SucI order_refl min.commute)
  have "?T ! k = ?T1 ! k" using t1 l(3,4) ok(4) by (metis lessI nth_take)
  moreover have "drop k ?T = ?T ! k # drop (Suc k) ?T" "drop k ?T1 = ?T1 ! k # drop (Suc k) ?T1"
    using l(3,4) ok(4) by (simp_all add: Cons_nth_drop_Suc)
  ultimately have d: "drop k ?T = ?T1 ! k # drop (Suc k) ?T" and p: "param_chain {length st..<length st1} st1 (?T1 ! k, param_sem p)" using a by simp_all
  have "same_on {length st..<length st1} st1 st2" "same_on {..<16} st1 st2" "16 \<le> length st1"
    using b l ok unfolding same_on_def prims_ok_def by auto
  then have "param_chain {length st..<length st2} st2 (?T1 ! k, param_sem p)" by (rule param_chain_frame [OF p]) (use l in auto)
  moreover have "list_all (param_chain {length st..<length st2} st2) (zip (drop (Suc k) ?T) (map param_sem ps))"
  proof -
    have "param_chain {length st1..<length st2} st2 q \<Longrightarrow> param_chain {length st..<length st2} st2 q" for q
      by (rule param_chain_frame) (use l ok in \<open>auto simp: same_on_def prims_ok_def\<close>)
    then show ?thesis using b by (simp add: list_all_iff)
  qed
  moreover have "ty_params (st2 ! ft) \<noteq> None" using a b by auto
  ultimately show ?thesis unfolding params_done_def using s d t l(3) a b by auto
qed

lemma commas_Cons: "xs \<noteq> [] \<Longrightarrow> commas (x # xs) = x @ [P T_COMMA] @ commas xs"
  by (cases xs) simp_all

lemma param_list_simps:
  "param_list [] True = [P T_ELLIPSIS]" "param_list [p] False = param_toks p"
  "ps \<noteq> [] \<or> va \<Longrightarrow> param_list (p # ps) va = param_toks p @ [P T_COMMA] @ param_list ps va"
  by (simp_all add: param_list_def commas_Cons)

lemma reads_params:
  "list_all reads_param ps \<Longrightarrow> dtoks_at s (param_list ps va) \<Longrightarrow> ps \<noteq> [] \<or> va \<Longrightarrow> next_kind (length (param_list ps va)) s = T_RPAREN \<Longrightarrow>
   prims_ok (p_types s) \<Longrightarrow> 16 \<le> ft \<Longrightarrow> ft < length (p_types s) \<Longrightarrow> \<not> is_varargs (p_types s ! ft) \<Longrightarrow> nparams (p_types s ! ft) = word_of_nat k \<Longrightarrow>
   k + length ps \<le> CC_MAX_FUNC_PARAMS \<Longrightarrow> length (param_table (p_types s ! ft)) = CC_MAX_FUNC_PARAMS \<Longrightarrow>
   \<exists>st'. evs (\<lambda>n. param_loop n ft s) ((), built (length (param_list ps va)) st' s) \<and> params_done ft k ps va (p_types s) st'"
proof (induction ps arbitrary: s k)
  case Nil
  let ?st = "(p_types s)[ft := (p_types s ! ft)\<lparr>is_varargs := True\<rparr>]"
  have "evs (\<lambda>n. param_loop n ft s) ((), built 1 ?st s)"
    by (rule evs_param_loop) (use Nil in \<open>simp add: param_list_simps param_round_def upd_type_def built_def evs_const\<close>)
  moreover have "params_done ft k [] True (p_types s) ?st" using Nil by (auto simp: params_done_def same_on_def param_table_def)
  ultimately show ?case using Nil(3) by (auto simp: param_list_simps)
next
  case (Cons p ps)
  obtain ks d where p: "p = (ks, d)" by (cases p)
  let ?n = "length (param_toks (ks, d))"
  have rp: "reads_param (ks, d)" "ks \<in> fst ` set c_specifiers" using Cons.prems(1) p by (auto simp: reads_param_def)
  have at: "dtoks_at s (param_toks (ks, d))" "next_kind ?n s \<in> declarator_end"
    using Cons.prems(2,4) p by (cases "ps \<noteq> [] \<or> va"; auto simp: param_list_simps declarator_end_def)+
  obtain j st1 where b: "builds (p_types s) st1 (Some j) (adjust (layers d)) (Some (spec_type ks))"
    and go: "\<And>r. evs (\<lambda>n. case accept T_COMMA (add_param ft (dname d) j (built ?n st1 s)) of
         (True, s) \<Rightarrow> param_loop n ft s | (False, s) \<Rightarrow> Inr ((), s)) r \<Longrightarrow> evs (\<lambda>n. param_loop n ft s) r"
    using one_param [OF rp(1) at Cons.prems(5), of ft thesis] by blast
  note e = extended_nth [OF builds_extended [OF b] Cons.prems(7)] extended_length [OF builds_extended [OF b]]
  define st2 where "st2 = next_param ft k (dname d) j st1"
  have k: "k < CC_MAX_FUNC_PARAMS" using Cons.prems(10) by simp
  have ap: "add_param ft (dname d) j (built ?n st1 s) = built ?n st2 s"
    using add_param_eq [of "built ?n st1 s" ft k "dname d" j] Cons.prems(7,9) k e by (simp add: st2_def next_param_def built_def)
  have done1: "params_done ft k [(ks, d)] False (p_types s) st2"
    by (rule next_param_done [OF b Cons.prems(5) rp(2) _ _ _ k _ st2_def]) (use Cons.prems in simp_all)
  show ?case
  proof (cases "ps \<noteq> [] \<or> va")
    case False
    then have "t_kind (p_cur (skip ?n s)) = T_RPAREN" using Cons.prems(4) p by (simp add: param_list_simps)
    then have "evs (\<lambda>n. param_loop n ft s) ((), built ?n st2 s)" by (intro go) (simp add: ap accept_def evs_const)
    then show ?thesis using False done1 p by (auto simp: param_list_simps)
  next
    case True
    let ?s = "built (Suc ?n) st2 s"
    have tk: "t_kind (p_cur (skip ?n s)) = T_COMMA" "dtoks_at ?s (param_list ps va)" "next_kind (length (param_list ps va)) ?s = T_RPAREN"
      using Cons.prems(2,4) p True by (simp_all add: param_list_simps)
    have f: "nparams (st2 ! ft) = word_of_nat (Suc k)" "\<not> is_varargs (st2 ! ft)" "length (param_table (st2 ! ft)) = CC_MAX_FUNC_PARAMS" "prims_ok st2" "ft < length st2"
    proof -
      show "nparams (st2 ! ft) = word_of_nat (Suc k)" "\<not> is_varargs (st2 ! ft)"
        using Cons.prems(7,8) e by (simp_all add: st2_def next_param_def)
      show "length (param_table (st2 ! ft)) = CC_MAX_FUNC_PARAMS" using done1 by (simp add: params_done_def)
      show "ft < length st2" using Cons.prems(7) e by (simp add: st2_def next_param_def)
      show "prims_ok st2" using prims_ok_extended [OF Cons.prems(5) builds_extended [OF b]] Cons.prems(6) by (simp add: st2_def next_param_def prims_ok_def)
    qed
    have "\<exists>st'. evs (\<lambda>n. param_loop n ft ?s) ((), built (length (param_list ps va)) st' ?s) \<and> params_done ft (Suc k) ps va (p_types ?s) st'"
      by (rule Cons.IH) (use Cons.prems tk f True in \<open>simp_all\<close>)
    then obtain st' where st': "evs (\<lambda>n. param_loop n ft ?s) ((), built (length (param_list (p # ps) va)) st' s)" "params_done ft (Suc k) ps va st2 st'"
      using p True by (auto simp: param_list_simps)
    have "evs (\<lambda>n. param_loop n ft s) ((), built (length (param_list (p # ps) va)) st' s)"
      by (rule go) (use st'(1) tk(1) in \<open>simp add: ap accept_def\<close>)
    moreover have "params_done ft k ((ks, d) # ps) va (p_types s) st'"
      by (rule params_done_append [OF done1 st'(2)]) (use Cons.prems in simp_all)
    ultimately show ?thesis using p by blast
  qed
qed

subsection \<open>Suffixes\<close>

lemma stoks_fun: "stoks (SFun ps va) = P T_LPAREN # param_list ps va @ [P T_RPAREN]"
  by (simp add: param_list_def param_toks_def)

lemma slayer_fun: "slayer (SFun ps va) = LFun (no_void (map param_sem ps)) va"
  by (simp add: param_sem_def)

lemma evs_suffix:
  "evs (\<lambda>n. suffix_round (param_loop n) (parse_const_expr (type_name n) n) (parse_type_suffix n) base s) r \<Longrightarrow> evs (\<lambda>n. parse_type_suffix n base s) r"
  by (rule evs_Suc) (simp_all add: decl_fuel_Suc)

definition fun_object :: "nat option \<Rightarrow> type_t" where
  "fun_object base = zero_type\<lparr>ty_kind := TY_FUNC, ty_ret := base, ty_size := 8, ty_align := 8, is_complete := True\<rparr>"

text \<open>A parameter list up to the closing parenthesis.\<close>

lemma reads_param_list:
  assumes "list_all reads_param ps" "length ps \<le> CC_MAX_FUNC_PARAMS" "dtoks_at s (param_list ps va)" "next_kind (length (param_list ps va)) s = T_RPAREN"
    and "prims_ok (p_types s)" "16 \<le> ft" "ft < length (p_types s)" "p_types s ! ft = fun_object base"
  shows "\<exists>st'. evs (\<lambda>n. parse_param_list (param_loop n) ft s) ((), built (length (param_list ps va)) st' s) \<and> params_done ft 0 ps va (p_types s) st'"
proof -
  have u: "upd_type ft (\<lambda>t. t\<lparr>nparams := 0, is_varargs := False\<rparr>) s = s"
  proof -
    have "(p_types s ! ft)\<lparr>nparams := 0, is_varargs := False\<rparr> = p_types s ! ft" by (simp add: assms(8) fun_object_def zero_type_def)
    then show ?thesis by (simp add: upd_type_def)
  qed
  have f: "\<not> is_varargs (p_types s ! ft)" "nparams (p_types s ! ft) = word_of_nat 0" "ty_params (p_types s ! ft) = None" "length (param_table (p_types s ! ft)) = CC_MAX_FUNC_PARAMS"
    using assms(8) by (simp_all add: fun_object_def zero_type_def param_table_def)
  show ?thesis
  proof (cases "ps \<noteq> [] \<or> va")
    case True
    have "t_kind (p_cur s) \<noteq> T_RPAREN"
    proof (cases ps)
      case Nil
      then show ?thesis using True assms(3) by (auto simp: param_list_simps)
    next
      case (Cons p ps')
      obtain ks d where p: "p = (ks, d)" by (cases p)
      have "ks \<noteq> []" using assms(1) Cons p specifiers_split by (fastforce simp: reads_param_def)
      then obtain k ks' where "ks = k # ks'" by (cases ks) auto
      then show ?thesis using assms(3) Cons p by (cases "ps' \<noteq> [] \<or> va") (auto simp: param_list_simps param_toks_def)
    qed
    then show ?thesis using reads_params [OF assms(1,3) True assms(4,5,6,7) f(1,2)] assms(2) f(4) by (simp add: parse_param_list_def u)
  next
    case False
    have "params_done ft 0 ps va (p_types s) (p_types s)"
      using False f by (auto simp: params_done_def same_on_def param_table_def intro!: type_t.equality)
    moreover have "evs (\<lambda>n. parse_param_list (param_loop n) ft s) ((), built 0 (p_types s) s)"
      using assms(4) False by (simp add: parse_param_list_def u built_0 param_list_def evs_const)
    ultimately show ?thesis using False by (intro exI [of _ "p_types s"]) (simp add: param_list_def)
  qed
qed

lemma params_done_object:
  assumes "params_done ft k ps va st st'"
  shows "nparams (st' ! ft) = word_of_nat (k + length ps)" "is_varargs (st' ! ft) = va" "ty_kind (st' ! ft) = ty_kind (st ! ft)"
    "ty_ret (st' ! ft) = ty_ret (st ! ft)" "length st \<le> length st'" "word_sized (st' ! ft) = word_sized (st ! ft)"
proof -
  have e: "st' ! ft = (st ! ft)\<lparr>nparams := word_of_nat (k + length ps), is_varargs := va, ty_params := ty_params (st' ! ft)\<rparr>"
    using assms by (simp add: params_done_def)
  show "nparams (st' ! ft) = word_of_nat (k + length ps)" "is_varargs (st' ! ft) = va" "ty_kind (st' ! ft) = ty_kind (st ! ft)" "ty_ret (st' ! ft) = ty_ret (st ! ft)"
    using arg_cong [OF e, of nparams] arg_cong [OF e, of is_varargs] arg_cong [OF e, of ty_kind] arg_cong [OF e, of ty_ret] by simp_all
  show "length st \<le> length st'" using assms by (simp add: params_done_def same_on_def)
  show "word_sized (st' ! ft) = word_sized (st ! ft)" using arg_cong [OF e, of word_sized] by (simp add: word_sized_def)
qed

text \<open>The parameter list is \<^verbatim>\<open>(void)\<close> exactly when the test of the code says so.\<close>

lemma void_test:
  assumes "param_chain R st (q, p)" "\<And>k. k \<in> R \<Longrightarrow> 16 \<le> k"
  shows "param_type q = Some ty_void \<and> param_name q = [] \<longleftrightarrow> p = ([], [], ty_void)"
proof -
  obtain x ls b where p: "p = (x, ls, b)" by (cases p)
  then have c: "param_name q = x" "chain R st (param_type q) ls (Some b)" using assms(1) by (simp_all add: param_chain_def)
  show ?thesis
  proof (cases ls)
    case Nil
    then show ?thesis using c p by auto
  next
    case (Cons l ls')
    then have "\<exists>i \<in> R. param_type q = Some i" using c(2) by (cases "param_type q"; cases l) auto
    then show ?thesis using assms(2) p Cons by fastforce
  qed
qed

lemma void_params_eq:
  assumes pd: "params_done ft 0 ps va st st'" and ft: "length ps \<le> CC_MAX_FUNC_PARAMS" "prims_ok st"
    and st2: "st2 = st'[ft := (st' ! ft)\<lparr>nparams := word_of_nat (length (no_void (map param_sem ps)))\<rparr>]"
  shows "void_params ft (s\<lparr>p_types := st'\<rparr>) = s\<lparr>p_types := st2\<rparr>"
proof -
  note o = params_done_object(1) [OF pd, unfolded add_0] and pd = pd [unfolded params_done_def]
  have one: "nparams (st' ! ft) = 1 \<longleftrightarrow> length ps = 1"
  proof
    assume "nparams (st' ! ft) = 1"
    then have "unat (word_of_nat (length ps) :: u32) = 1" using o by simp
    then show "length ps = 1" using ft(1) by (simp add: unat_of_nat CC_MAX_FUNC_PARAMS_def)
  qed (simp add: o)
  have same: "st'[ft := (st' ! ft)\<lparr>nparams := word_of_nat (length ps)\<rparr>] = st'"
  proof -
    have "(st' ! ft)\<lparr>nparams := word_of_nat (length ps)\<rparr> = st' ! ft" using o by (intro type_t.equality) simp_all
    then show ?thesis by simp
  qed
  show ?thesis
  proof (cases "length ps = 1")
    case True
    then obtain p where p: "ps = [p]" by (cases ps) auto
    then obtain tbl where t: "ty_params (st' ! ft) = Some tbl" using pd by fastforce
    then obtain q tbl' where q: "tbl = q # tbl'" using pd by (cases tbl) (auto simp: param_table_def CC_MAX_FUNC_PARAMS_def)
    then have "param_chain {length st..<length st'} st' (q, param_sem p)" using pd p t by (simp add: param_table_def)
    then have "param_type q = Some ty_void \<and> param_name q = [] \<longleftrightarrow> param_sem p = ([], [], ty_void)"
      by (rule void_test) (use ft(2) in \<open>auto simp: prims_ok_def\<close>)
    then show ?thesis using one True p t q same by (auto simp: void_params_def st2 no_void_def upd_type_def)
  next
    case False
    then have "no_void (map param_sem ps) = map param_sem ps" by (auto simp: no_void_def)
    then show ?thesis using one False same by (simp add: void_params_def st2 Let_def split: option.split)
  qed
qed

lemma builds_fun:
  assumes pd: "params_done (length st) 0 ps va (st @ [fun_object base]) st'" and ok: "length ps \<le> CC_MAX_FUNC_PARAMS" "prims_ok st" "valid_base st base"
    and st2: "st2 = st'[length st := (st' ! length st)\<lparr>nparams := word_of_nat (length (no_void (map param_sem ps)))\<rparr>]"
  shows "builds st st2 (Some (length st)) [slayer (SFun ps va)] base"
proof -
  note o = params_done_object [OF pd] and pd = pd [unfolded params_done_def]
  have l: "length st < length st'" using o(5) by simp
  have f: "st2 ! length st = (st' ! length st)\<lparr>nparams := word_of_nat (length (no_void (map param_sem ps)))\<rparr>" using l by (simp add: st2)
  have p16: "16 \<le> length st" using ok(2) by (simp add: prims_ok_def)
  have "extended st st2" using pd l by (auto simp: extended_def same_on_def st2 nth_append)
  moreover have pc: "param_chain {k \<in> {length st..<length st2}. length st < k} st2 qp"
    if "qp \<in> set (zip (param_table (st' ! length st)) (map param_sem ps))" for qp
  proof -
    have "param_chain {length (st @ [fun_object base])..<length st'} st' qp" using pd that by (simp add: list_all_iff)
    then show ?thesis by (rule param_chain_frame) (use l p16 in \<open>auto simp: same_on_def st2\<close>)
  qed
  moreover have "chain {length st..<length st2} st2 (Some (length st)) [LFun (no_void (map param_sem ps)) va] base"
  proof (cases "ty_params (st' ! length st)")
    case None
    then have "ps = []" using pd by blast
    then show ?thesis using None o l by (simp add: f st2 fun_object_def no_void_def word_sized_def)
  next
    case (Some tbl)
    then have t: "length tbl = CC_MAX_FUNC_PARAMS" using pd by (simp add: param_table_def)
    have "length (no_void (map param_sem ps)) \<le> length tbl" using ok(1) t by (simp add: no_void_def)
    moreover have "list_all (param_chain {k \<in> {length st..<length st2}. length st < k} st2) (zip tbl (no_void (map param_sem ps)))"
      using pc Some by (auto simp: list_all_iff param_table_def no_void_def)
    ultimately show ?thesis using Some o l by (simp add: f st2 fun_object_def param_chain_def word_sized_def)
  qed
  ultimately show ?thesis by (simp only: slayer_fun builds_def)
qed

lemma reads_fun:
  assumes "list_all reads_param ps" "length ps \<le> CC_MAX_FUNC_PARAMS" "dtoks_at s (stoks (SFun ps va))" "prims_ok (p_types s)" "valid_base (p_types s) base"
  obtains ft st' where "builds (p_types s) st' (Some ft) [slayer (SFun ps va)] base"
    and "\<And>r. evs (\<lambda>n. parse_type_suffix n (Some ft) (built (length (stoks (SFun ps va))) st' s)) r \<Longrightarrow> evs (\<lambda>n. parse_type_suffix n base s) r"
proof -
  define st where "st = p_types s"
  let ?s = "built (Suc 0) (st @ [fun_object base]) s" and ?ft = "length st" and ?l = "length (param_list ps va)"
  have at: "t_kind (p_cur s) = T_LPAREN" "dtoks_at ?s (param_list ps va)" "next_kind ?l ?s = T_RPAREN"
    using assms(3) unfolding stoks_fun by simp_all
  have mf: "make_function base (p_next s) = (?ft, ?s)"
    by (simp add: make_function_def with_types_def type_alloc_def built_def fun_object_def st_def)
  obtain st1 where pl: "evs (\<lambda>n. parse_param_list (param_loop n) ?ft ?s) ((), built (Suc ?l) st1 s)" and pd: "params_done ?ft 0 ps va (st @ [fun_object base]) st1"
    using reads_param_list [OF assms(1,2) at(2,3), of ?ft base] assms(4) by (auto simp: prims_ok_def nth_append st_def)
  define st2 where "st2 = st1[?ft := (st1 ! ?ft)\<lparr>nparams := word_of_nat (length (no_void (map param_sem ps)))\<rparr>]"
  have ok: "prims_ok (st @ [fun_object base])" using assms(4) prims_ok_extended by (auto simp: st_def)
  have "parse_expect T_RPAREN (built (Suc ?l) st1 s) = built (Suc (Suc ?l)) st1 s" using at(3) by (simp add: parse_expect_def)
  then have vp: "void_params ?ft (parse_expect T_RPAREN (built (Suc ?l) st1 s)) = built (length (stoks (SFun ps va))) st2 s"
    using void_params_eq [OF pd assms(2) ok st2_def] unfolding stoks_fun by (simp add: built_def)
  have "evs (\<lambda>n. parse_type_suffix n base s) r"
    if r: "evs (\<lambda>n. parse_type_suffix n (Some ?ft) (built (length (stoks (SFun ps va))) st2 s)) r" for r
    by (rule evs_suffix) (use at(1) mf r vp in \<open>auto simp: suffix_round_def intro!: evs_bind [OF pl]\<close>)
  moreover have "builds st st2 (Some ?ft) [slayer (SFun ps va)] base"
    by (rule builds_fun [OF pd assms(2) _ _ st2_def]) (use assms(4,5) in \<open>simp_all add: st_def\<close>)
  ultimately show thesis using that unfolding st_def by blast
qed

lemma suffix_stop:
  assumes "t_kind (p_cur s) \<notin> {T_LPAREN, T_LBRACKET}"
  shows "evs (\<lambda>n. parse_type_suffix n base s) (base, s)"
  by (rule evs_suffix) (use assms in \<open>simp add: suffix_round_def evs_const\<close>)

definition reads_suffix :: "suffix \<Rightarrow> bool" where
  "reads_suffix x \<longleftrightarrow> wf_suffix x \<and> (case x of SFun ps va \<Rightarrow> list_all reads_param ps | SArr n \<Rightarrow> True)"

lemma evs_bound:
  assumes "prims_ok (p_types s)" "tok_is (p_cur s) (Num v)" "v < 2 ^ 31" "t_kind (p_cur (p_next s)) = T_RBRACKET"
  shows "evs (\<lambda>n. parse_const_expr (tn n) n s) (uint v, p_next s)"
proof -
  have "parse_const_expr (tn m) m s = Inr (uint v, p_next s)" if "4 \<le> m" for m
  proof -
    have "m = Suc (Suc (Suc (Suc (m - 4))))" using that by simp
    then show ?thesis using reads_bound [OF assms, of "tn m" "m - 4"] by metis
  qed
  then show ?thesis unfolding evs_def by blast
qed

text \<open>The suffixes behind a name or a group.\<close>

lemma reads_suffixes:
  "list_all reads_suffix sfs \<Longrightarrow> list_all (\<lambda>x. \<not> is_fun x) (butlast sfs) \<Longrightarrow> base = None \<longrightarrow> list_all is_fun sfs \<Longrightarrow>
   dtoks_at s (concat (map stoks sfs)) \<Longrightarrow> next_kind (length (concat (map stoks sfs))) s \<in> declarator_end \<Longrightarrow>
   prims_ok (p_types s) \<Longrightarrow> valid_base (p_types s) base \<Longrightarrow>
   \<exists>i st'. evs (\<lambda>n. parse_type_suffix n base s) (i, built (length (concat (map stoks sfs))) st' s) \<and> builds (p_types s) st' i (map slayer sfs) base"
proof (induction sfs arbitrary: s)
  case Nil
  then have "evs (\<lambda>n. parse_type_suffix n base s) (base, built 0 (p_types s) s)"
    using suffix_stop [of s base] by (auto simp: built_0 declarator_end_def)
  then show ?case by (intro exI [of _ base] exI [of _ "p_types s"]) (simp add: builds_refl)
next
  case (Cons x sfs)
  show ?case
  proof (cases x)
    case (SArr n)
    obtain b where b: "base = Some b" using Cons.prems(3) SArr by (cases base) auto
    let ?s = "skip 3 s" and ?l = "length (concat (map stoks sfs))"
    have at: "t_kind (p_cur s) = T_LBRACKET" "tok_is (p_cur (p_next s)) (Num n)" "t_kind (p_cur (p_next (p_next s))) = T_RBRACKET"
      "dtoks_at ?s (concat (map stoks sfs))" "next_kind ?l ?s \<in> declarator_end"
      using Cons.prems(4,5) SArr by (simp_all add: numeral_3_eq_3)
    have "\<exists>i st'. evs (\<lambda>n. parse_type_suffix n base ?s) (i, built ?l st' ?s) \<and> builds (p_types ?s) st' i (map slayer sfs) base"
      by (rule Cons.IH) (use Cons.prems at b in \<open>auto simp: list_all_iff split: if_splits\<close>)
    then obtain i st1 where i: "evs (\<lambda>n. parse_type_suffix n base ?s) (i, built ?l st1 ?s)" "builds (p_types s) st1 i (map slayer sfs) base" by auto
    obtain q where q: "i = Some q" using builds_not_null [of "p_types s" st1 i] i(2) b by blast
    have ok: "prims_ok st1" "valid_base st1 (Some q)" using prims_ok_extended [OF Cons.prems(6) builds_extended [OF i(2)]] builds_valid [OF i(2) Cons.prems(7)] q by auto
    obtain j st2 where j: "make_array (Some q) n (built ?l st1 ?s) = Inr (j, built ?l st2 ?s)" "builds st1 st2 (Some j) [LArr n] (Some q)"
      using builds_array [of "built ?l st1 ?s" q n] ok(2) by auto
    have e: "built ?l st2 ?s = built (length (concat (map stoks (x # sfs)))) st2 s" using SArr by (simp add: built_def numeral_3_eq_3)
    have bd: "evs (\<lambda>m. parse_const_expr (type_name m) m (p_next s)) (uint n, p_next (p_next s))"
      by (rule evs_bound) (use Cons.prems(1,6) SArr at in \<open>simp_all add: reads_suffix_def\<close>)
    have "evs (\<lambda>m. parse_type_suffix m base s) (Some j, built ?l st2 ?s)"
    proof (rule evs_suffix)
      have "evs (\<lambda>m. bindE (parse_type_suffix m base ?s) (\<lambda>(rest, s). bindE (make_array rest n s) (\<lambda>(t, s). Inr (Some t, s)))) (Some j, built ?l st2 ?s)"
        by (rule evs_bind [OF i(1)]) (use j(1) q in \<open>simp add: evs_const\<close>)
      then have "evs (\<lambda>m. bindE (bindE (parse_const_expr (type_name m) m (p_next s)) (\<lambda>(i, s). Inr (word_of_int i, s)))
          (\<lambda>(len, s). bindE (parse_type_suffix m base (parse_expect T_RBRACKET s)) (\<lambda>(rest, s). bindE (make_array rest len s) (\<lambda>(t, s). Inr (Some t, s)))))
          (Some j, built ?l st2 ?s)"
        unfolding bindE_assoc by (intro evs_bind [OF bd]) (use at in \<open>simp add: parse_expect_def numeral_3_eq_3\<close>)
      then show "evs (\<lambda>m. suffix_round (param_loop m) (parse_const_expr (type_name m) m) (parse_type_suffix m) base s) (Some j, built ?l st2 ?s)"
        using at by (simp add: suffix_round_def Let_def)
    qed
    moreover have "builds (p_types s) st2 (Some j) ([LArr n] @ map slayer sfs) base"
      by (rule builds_trans [OF i(2)]) (use j(2) q Cons.prems in simp_all)
    ultimately show ?thesis using e SArr by auto
  next
    case (SFun ps va)
    then have nil: "sfs = []" using Cons.prems(2) by (cases sfs) auto
    obtain ft st' where f: "builds (p_types s) st' (Some ft) [slayer x] base"
      and go: "\<And>r. evs (\<lambda>n. parse_type_suffix n (Some ft) (built (length (stoks x)) st' s)) r \<Longrightarrow> evs (\<lambda>n. parse_type_suffix n base s) r"
      using reads_fun [of ps s va base thesis] Cons.prems SFun nil by (simp del: stoks.simps slayer.simps add: reads_suffix_def)
    have "evs (\<lambda>n. parse_type_suffix n (Some ft) (built (length (stoks x)) st' s)) (Some ft, built (length (stoks x)) st' s)"
      by (rule suffix_stop) (use Cons.prems(5) nil in \<open>auto simp: declarator_end_def\<close>)
    from go [OF this] show ?thesis using f nil by auto
  qed
qed

subsection \<open>Declarators\<close>

lemma evs_declarator:
  "evs (\<lambda>n. bindE (stars n base s) (\<lambda>(t, s). declarator_round (parse_declarator n) (parse_type_suffix n) (splice n) t s)) r \<Longrightarrow>
   evs (\<lambda>n. parse_declarator n base s) r"
  by (rule evs_Suc) (simp_all add: decl_fuel_Suc)

lemma core_head:
  assumes "dtoks_at s (ctoks c @ concat (map stoks sfs))" "next_kind (length (ctoks c @ concat (map stoks sfs))) s \<in> declarator_end"
    and "c = Abstract \<and> sfs \<noteq> [] \<longrightarrow> \<not> is_fun (hd sfs)"
  shows "t_kind (p_cur s) \<notin> set pointer_tokens" "c = Abstract \<Longrightarrow> t_kind (p_cur s) \<notin> {T_LPAREN, T_IDENT}"
proof -
  have a: "t_kind (p_cur s) \<in> {T_LBRACKET} \<union> declarator_end" if "c = Abstract"
  proof (cases sfs)
    case (Cons x sfs')
    then have "\<not> is_fun x" using assms(3) that by simp
    then show ?thesis using assms(1) that Cons by (cases x) simp_all
  qed (use assms that in simp)
  then show "c = Abstract \<Longrightarrow> t_kind (p_cur s) \<notin> {T_LPAREN, T_IDENT}" by (auto simp: declarator_end_def)
  show "t_kind (p_cur s) \<notin> set pointer_tokens"
    by (cases c) (use a assms(1) in \<open>auto simp: declarator_end_def pointer_tokens_def\<close>)
qed

text \<open>Closing the chain of a group with what the suffixes behind it have built.\<close>

lemma builds_group:
  assumes t: "builds st st1 t ts base" and i: "builds st1 st2 (Some i) ls None" and s: "builds st2 st3 suf ss t"
    and ok: "prims_ok st" "valid_base st base"
  shows "\<exists>st4. evs (\<lambda>n. splice n (Some i) suf (built k st3 s)) (Some i, built k st4 s) \<and> builds st st4 (Some i) (ls @ ss @ ts) base"
proof -
  note e = builds_extended [OF t] builds_extended [OF i] builds_extended [OF s]
  note l = e [THEN extended_length]
  have ok1: "prims_ok st1" "prims_ok st2" using prims_ok_extended e ok(1) by blast+
  let ?R = "{length st1..<length st2}"
  have c: "chain ?R st3 (Some i) ls None"
    by (rule chain_extended [OF i [unfolded builds_def, THEN conjunct2] e(3) ok1(2)]) simp_all
  then have "ls \<noteq> []" by auto
  then obtain x where x: "x \<in> ?R" "chain ?R (st3[x := close_type suf (st3 ! x)]) (Some i) ls suf"
    and sp: "\<And>n. length ls \<le> n \<Longrightarrow> type_splice_base n (Some i) suf st3 = Some (Some i, st3[x := close_type suf (st3 ! x)])"
    using splice_chain [OF c] by blast
  define st4 where "st4 = st3[x := close_type suf (st3 ! x)]"
  have "evs (\<lambda>n. splice n (Some i) suf (built k st3 s)) (Some i, built k st4 s)"
    unfolding evs_def by (intro exI [of _ "length ls"]) (simp add: splice_def sp st4_def)
  moreover have "builds st st4 (Some i) (ls @ ss @ ts) base"
  proof -
    let ?A = "{length st..<length st4}"
    have len: "length st4 = length st3" by (simp add: st4_def)
    have sz: "ty_size (st4 ! b) = ty_size (st3 ! b) \<and> ty_align (st4 ! b) = ty_align (st3 ! b)" for b by (simp add: st4_def nth_close)
    have "chain {length st2..<length st3} st3 suf ss t" using s by (simp add: builds_def)
    then have a: "chain ?A st4 suf ss t" by (rule chain_frame) (use x(1) l sz len in \<open>auto simp: same_on_def st4_def\<close>)
    have "chain {length st..<length st1} st3 t ts base"
      by (rule chain_extended [OF t [unfolded builds_def, THEN conjunct2] extended_trans [OF e(2,3)] ok1(1)]) (use ok(2) l in \<open>auto simp: valid_base_def\<close>)
    then have b: "chain ?A st4 t ts base" by (rule chain_frame) (use x(1) l sz len in \<open>auto simp: same_on_def st4_def\<close>)
    have d: "chain ?A st4 (Some i) ls suf" using x(2) unfolding st4_def [symmetric] by (rule chain_frame) (use l len in \<open>auto simp: same_on_def\<close>)
    have "extended st st4" using extended_trans [OF e(1) extended_trans [OF e(2,3)]] x(1) l by (auto simp: extended_def same_on_def st4_def)
    then show ?thesis using layers_append [OF d layers_append [OF a b]] by (simp add: builds_def)
  qed
  ultimately show ?thesis by blast
qed

lemma reads_group:
  assumes d: "reads_dcl d" "wf_dcl True d" and sf: "list_all reads_suffix sfs" "list_all (\<lambda>x. \<not> is_fun x) (butlast sfs)" "t = None \<longrightarrow> list_all is_fun sfs"
    and t: "builds (p_types s) st1 t ts base" and ok: "prims_ok (p_types s)" "valid_base (p_types s) base"
    and at: "dtoks_at (skip k s) (P T_LPAREN # dtoks d @ P T_RPAREN # concat (map stoks sfs))"
      "next_kind (length (P T_LPAREN # dtoks d @ P T_RPAREN # concat (map stoks sfs))) (skip k s) \<in> declarator_end"
  shows "\<exists>i st'. evs (\<lambda>n. declarator_round (parse_declarator n) (parse_type_suffix n) (splice n) t (built k st1 s))
      ((i, dname d), built (k + length (P T_LPAREN # dtoks d @ P T_RPAREN # concat (map stoks sfs))) st' s)
    \<and> builds (p_types s) st' i (layers d @ map slayer sfs @ ts) base"
proof -
  let ?s1 = "built (Suc k) st1 s" and ?n = "length (dtoks d)" and ?m = "length (concat (map stoks sfs))"
  have h: "t_kind (p_cur (skip k s)) = T_LPAREN" "dtoks_at ?s1 (dtoks d)" "next_kind ?n ?s1 = T_RPAREN"
    using at by simp_all
  have ok1: "prims_ok st1" "valid_base st1 t" using prims_ok_extended [OF ok(1) builds_extended [OF t]] builds_valid [OF t ok(2)] by simp_all
  obtain i st2 where i: "evs (\<lambda>n. parse_declarator n None ?s1) ((i, dname d), built (Suc k + ?n) st2 s)" "builds st1 st2 i (layers d) None"
    using reads_dclD [OF d(1), of None ?s1] d(2) h ok1(1) by (auto simp: valid_base_def declarator_end_def)
  let ?s2 = "built (Suc (Suc k + ?n)) st2 s"
  have e2: "extended st1 st2" using i(2) by (rule builds_extended)
  have ok2: "prims_ok st2" "valid_base st2 t" using prims_ok_extended [OF ok1(1) e2] ok1(2) extended_length [OF e2] by (auto simp: valid_base_def)
  have a2: "dtoks_at ?s2 (concat (map stoks sfs))" "next_kind ?m ?s2 \<in> declarator_end"
    using at by (simp_all add: add.assoc add.commute add.left_commute)
  obtain suf st3 where sx: "evs (\<lambda>n. parse_type_suffix n t ?s2) (suf, built ?m st3 ?s2)" "builds st2 st3 suf (map slayer sfs) t"
    using reads_suffixes [OF sf a2] ok2 by auto
  let ?k = "k + length (P T_LPAREN # dtoks d @ P T_RPAREN # concat (map stoks sfs))"
  have b3: "built ?m st3 ?s2 = built ?k st3 s" by (simp add: add.assoc add.commute add.left_commute)
  have pe: "parse_expect T_RPAREN (built (Suc k + ?n) st2 s) = ?s2" using h(3) by (simp add: parse_expect_def)
  have go: "evs (\<lambda>n. declarator_round (parse_declarator n) (parse_type_suffix n) (splice n) t (built k st1 s)) r"
    if r: "evs (\<lambda>n. case i of None \<Rightarrow> Inr ((suf, dname d), built ?k st3 s) | Some q \<Rightarrow> bindE (splice n i suf (built ?k st3 s)) (\<lambda>(t, s). Inr ((t, dname d), s))) r" for r
  proof -
    have "evs (\<lambda>n. bindE (parse_type_suffix n t ?s2) (\<lambda>(suf, s). case i of None \<Rightarrow> Inr ((suf, dname d), s)
        | Some q \<Rightarrow> bindE (splice n i suf s) (\<lambda>(t, s). Inr ((t, dname d), s)))) r"
      by (rule evs_bind [OF sx(1)]) (use r in \<open>simp only: prod.case b3\<close>)
    then have "evs (\<lambda>n. bindE (parse_declarator n None ?s1) (\<lambda>((inner, name), s). bindE (parse_type_suffix n t (parse_expect T_RPAREN s))
        (\<lambda>(suf, s). case inner of None \<Rightarrow> Inr ((suf, name), s) | Some q \<Rightarrow> bindE (splice n inner suf s) (\<lambda>(t, s). Inr ((t, name), s))))) r"
      by (intro evs_bind [OF i(1)]) (simp only: prod.case pe)
    then show ?thesis using h(1) by (simp add: declarator_round_def)
  qed
  show ?thesis
  proof (cases i)
    case None
    then have nil: "layers d = []" using i(2) by (cases "layers d") (auto simp: builds_def)
    have "builds (p_types s) st2 t ts base" using builds_trans [OF t _ ok, of st2 t "[]"] e2 by (simp add: builds_def)
    then have "builds (p_types s) st3 suf (map slayer sfs @ ts) base" by (rule builds_trans [OF _ sx(2) ok])
    then show ?thesis using go [of "((suf, dname d), built ?k st3 s)"] None nil by (auto simp: evs_const)
  next
    case (Some q)
    obtain st4 where st4: "evs (\<lambda>n. splice n (Some q) suf (built ?k st3 s)) (Some q, built ?k st4 s)" "builds (p_types s) st4 (Some q) (layers d @ map slayer sfs @ ts) base"
      using builds_group [OF t i(2) [unfolded Some] sx(2) ok] by blast
    have "evs (\<lambda>n. bindE (splice n (Some q) suf (built ?k st3 s)) (\<lambda>(t, s). Inr ((t, dname d), s))) ((Some q, dname d), built ?k st4 s)"
      by (rule evs_bind [OF st4(1)]) (simp add: evs_const)
    then show ?thesis using go [of "((Some q, dname d), built ?k st4 s)"] Some st4(2) by auto
  qed
qed

lemma reads_plain_core:
  assumes c: "c = Abstract \<or> c = Named x" and sf: "list_all reads_suffix sfs" "list_all (\<lambda>x. \<not> is_fun x) (butlast sfs)" "t = None \<longrightarrow> list_all is_fun sfs"
    and t: "builds (p_types s) st1 t ts base" and ok: "prims_ok (p_types s)" "valid_base (p_types s) base"
    and at: "dtoks_at (skip k s) (ctoks c @ concat (map stoks sfs))" "next_kind (length (ctoks c @ concat (map stoks sfs))) (skip k s) \<in> declarator_end"
      "c = Abstract \<and> sfs \<noteq> [] \<longrightarrow> \<not> is_fun (hd sfs)"
  shows "\<exists>i st'. evs (\<lambda>n. declarator_round (parse_declarator n) (parse_type_suffix n) (splice n) t (built k st1 s))
      ((i, cname c), built (k + length (ctoks c @ concat (map stoks sfs))) st' s)
    \<and> builds (p_types s) st' i (map slayer sfs @ ts) base"
proof -
  let ?s2 = "built (k + length (ctoks c)) st1 s" and ?m = "length (concat (map stoks sfs))"
  have ok1: "prims_ok st1" "valid_base st1 t" using prims_ok_extended [OF ok(1) builds_extended [OF t]] builds_valid [OF t ok(2)] by simp_all
  obtain i st2 where i: "evs (\<lambda>n. parse_type_suffix n t ?s2) (i, built ?m st2 ?s2)" "builds st1 st2 i (map slayer sfs) t"
    using reads_suffixes [OF sf, of ?s2] at ok1 by (auto simp: add.assoc)
  have "declarator_round (parse_declarator n) (parse_type_suffix n) (splice n) t (built k st1 s) = bindE (parse_type_suffix n t ?s2) (\<lambda>(t, s). Inr ((t, cname c), s))" for n
    using c at core_head(2) [OF at] by (auto simp: declarator_round_def)
  moreover have "evs (\<lambda>n. bindE (parse_type_suffix n t ?s2) (\<lambda>(t, s). Inr ((t, cname c), s))) ((i, cname c), built ?m st2 ?s2)"
    by (rule evs_bind [OF i(1)]) (simp add: evs_const)
  ultimately show ?thesis using builds_trans [OF t i(2) ok] by (auto simp: add.assoc)
qed

lemma reads_declarator:
  assumes "list_all (\<lambda>x. wf_suffix x \<longrightarrow> reads_suffix x) sfs" "\<And>d. c = Group d \<Longrightarrow> reads_dcl d"
  shows "reads_dcl (Dcl ps c sfs)"
  unfolding reads_dcl_def
proof (intro allI impI, elim conjE)
  fix s base
  let ?d = "Dcl ps c sfs" and ?ts = "replicate (count_list ps T_STAR) LPtr"
  assume w: "wf_dcl (base = None) ?d" and ok: "prims_ok (p_types s)" "valid_base (p_types s) base"
    and at: "dtoks_at s (dtoks ?d)" "next_kind (length (dtoks ?d)) s \<in> declarator_end"
  let ?s = "skip (length ps) s" and ?c = "ctoks c @ concat (map stoks sfs)"
  have a: "dtoks_at s (map P ps)" "dtoks_at ?s ?c" "next_kind (length ?c) ?s \<in> declarator_end" "c = Abstract \<and> sfs \<noteq> [] \<longrightarrow> \<not> is_fun (hd sfs)"
    using at w by simp_all
  obtain t st1 where t: "evs (\<lambda>n. stars n base s) (t, built (length ps) st1 s)" "builds (p_types s) st1 t ?ts base"
    using reads_stars [OF _ a(1) core_head(1) [OF a(2-4)] ok] w by auto
  have n: "t = None \<longrightarrow> list_all is_fun sfs"
  proof
    assume "t = None"
    then have "count_list ps T_STAR = 0 \<and> base = None" using t(2) by (cases "count_list ps T_STAR") (auto simp: builds_def)
    then show "list_all is_fun sfs" using w by (auto simp: count_list_0_iff)
  qed
  have sf: "list_all reads_suffix sfs" "list_all (\<lambda>x. \<not> is_fun x) (butlast sfs)" using assms(1) w by (auto simp: list_all_iff)
  have "\<exists>i st'. evs (\<lambda>n. declarator_round (parse_declarator n) (parse_type_suffix n) (splice n) t (built (length ps) st1 s))
      ((i, cname c), built (length ps + length ?c) st' s) \<and> builds (p_types s) st' i (clayers c @ map slayer sfs @ ?ts) base"
  proof (cases c)
    case (Group d)
    then have d: "reads_dcl d" "wf_dcl True d" using assms(2) w by auto
    show ?thesis using reads_group [OF d sf n t(2) ok, of "length ps"] a(2,3) Group by simp
  next
    case Abstract
    then show ?thesis using reads_plain_core [OF _ sf n t(2) ok a(2-4)] by simp
  next
    case (Named x)
    then show ?thesis using reads_plain_core [OF _ sf n t(2) ok a(2-4)] by simp
  qed
  then obtain i st' where i: "evs (\<lambda>n. declarator_round (parse_declarator n) (parse_type_suffix n) (splice n) t (built (length ps) st1 s)) ((i, cname c), built (length (dtoks ?d)) st' s)"
    "builds (p_types s) st' i (layers ?d) base" by auto
  have "evs (\<lambda>n. parse_declarator n base s) ((i, dname ?d), built (length (dtoks ?d)) st' s)"
    by (rule evs_declarator, rule evs_bind [OF t(1)]) (use i(1) in simp)
  then show "\<exists>i st'. evs (\<lambda>n. parse_declarator n base s) ((i, dname ?d), built (length (dtoks ?d)) st' s) \<and> builds (p_types s) st' i (layers ?d) base"
    using i(2) by blast
qed

lemma reads_all_declarators:
  "reads_dcl d" "\<forall>d. c = Group d \<longrightarrow> reads_dcl d" "wf_suffix x \<longrightarrow> reads_suffix x"
proof (induction d and c and x)
  case (Dcl ps c sfs)
  then show ?case by (intro reads_declarator) (auto simp: list_all_iff)
next
  case (SFun ps va)
  then show ?case by (fastforce simp: reads_suffix_def reads_param_def list_all_iff)
qed (simp_all add: reads_suffix_def)

text \<open>
  C9. Declarators are read as C defines them: for the tokens of a declarator built from pointers with qualifiers, groups, arrays whose
  bounds are literals of type \<^verbatim>\<open>int\<close>, and functions of up to 32 named or abstract parameters, with or without an ellipsis, whose specifiers are
  keywords of \<^verbatim>\<open>void\<close> and the arithmetic types (\<^verbatim>\<open>c_specifiers\<close>), nested to any depth,
  \<^verbatim>\<open>parse_declarator\<close> returns (enough fuel gives a result) the declared name and a type whose chain of
  type objects is the one the grammar of C gives over the base type; parameters of array and
  function type have become pointers, \<^verbatim>\<open>(void)\<close> is the empty list, arrays have their size. Only new type
  objects were written, the parser stands behind the declarator and nothing was reported. Left out is a group without a pointer in
  which an array is built, as \<^verbatim>\<open>int (a[3])\<close>: there the code follows a null base. Tag and typedef names in parameters, qualified
  parameters and other bounds are not covered.
\<close>

theorem parse_declarator_correct:
  assumes "wf_dcl False d" "types_ok (p_types s)" "b < length (p_types s)" "dtoks_at s (dtoks d)"
    and "t_kind (p_cur (skip (length (dtoks d)) s)) \<in> declarator_end"
  shows "\<exists>i st' n. (\<forall>m \<ge> n. parse_declarator m (Some b) s = Inr ((Some i, dname d), (skip (length (dtoks d)) s)\<lparr>p_types := st'\<rparr>))
    \<and> take (length (p_types s)) st' = p_types s \<and> chain {length (p_types s)..<length st'} st' (Some i) (layers d) (Some b)"
proof -
  obtain q st' where q: "evs (\<lambda>n. parse_declarator n (Some b) s) ((q, dname d), built (length (dtoks d)) st' s)" "builds (p_types s) st' q (layers d) (Some b)"
    using reads_dclD [OF reads_all_declarators(1), of "Some b" d s] assms prims_ok_types_ok [OF assms(2)] by (auto simp: valid_base_def)
  obtain i where i: "q = Some i" using builds_not_null [OF q(2)] by blast
  have "take (length (p_types s)) st' = p_types s"
    using builds_extended [OF q(2)] by (intro nth_equalityI) (auto simp: extended_def same_on_def)
  then show ?thesis using q i by (auto simp: evs_def built_def builds_def)
qed

text \<open>The declarator of \<^verbatim>\<open>*(*f[3])(char, unsigned int *)\<close>: an array of three pointers to functions.\<close>

definition demo_dcl :: dcl where
  "demo_dcl = Dcl [T_STAR] (Group (Dcl [T_STAR] (Named (bytes_of ''f'')) [SArr 3]))
     [SFun [([T_KW_CHAR], Dcl [] Abstract []), ([T_KW_UNSIGNED, T_KW_INT], Dcl [T_STAR] Abstract [])] False]"

definition demo_decl_parser :: parser where
  "demo_decl_parser = demo_parser\<lparr>g_lx := lex_next (start_lexer (bytes_of ''*(*f[3])(char, unsigned int *);''))\<rparr>"

fun lexer_at :: "lexer \<Rightarrow> dtok list \<Rightarrow> bool" where
  "lexer_at lx [] \<longleftrightarrow> t_kind (lx_cur lx) \<in> declarator_end"
| "lexer_at lx (t # ts) \<longleftrightarrow> tok_is (lx_cur lx) t \<and> lexer_at (lex_next lx) ts"

lemma lexer_at_parser: "lexer_at (g_lx s) ts \<Longrightarrow> dtoks_at s ts \<and> t_kind (p_cur (skip (length ts) s)) \<in> declarator_end"
proof (induction ts arbitrary: s)
  case (Cons t ts)
  then show ?case using Cons.IH [of "p_next s"] by (simp add: p_cur_def p_next_def)
qed (simp add: p_cur_def)

lemma demo_decl_tokens: "dtoks_at demo_decl_parser (dtoks demo_dcl)" "t_kind (p_cur (skip (length (dtoks demo_dcl)) demo_decl_parser)) \<in> declarator_end"
proof -
  have "lexer_at (lex_next (start_lexer (bytes_of ''*(*f[3])(char, unsigned int *);''))) (dtoks demo_dcl)" by code_simp
  then show "dtoks_at demo_decl_parser (dtoks demo_dcl)" "t_kind (p_cur (skip (length (dtoks demo_dcl)) demo_decl_parser)) \<in> declarator_end"
    using lexer_at_parser [of demo_decl_parser "dtoks demo_dcl"] by (simp_all add: demo_decl_parser_def)
qed

theorem parse_declarator_correct_witness:
  "\<exists>i st' n. (\<forall>m \<ge> n. parse_declarator m (Some ty_int) demo_decl_parser
       = Inr ((Some i, bytes_of ''f''), (skip 15 demo_decl_parser)\<lparr>p_types := st'\<rparr>))
     \<and> chain {16..<length st'} st' (Some i) [LArr 3, LPtr, LFun [([], [], ty_char), ([], [LPtr], ty_uint)] False, LPtr] (Some ty_int)"
proof -
  have t: "p_types demo_decl_parser = types0" by (simp add: demo_decl_parser_def demo_parser_def)
  have l: "length types0 = 16" using types_ok_types0 by code_simp
  have d: "wf_dcl False demo_dcl" "dname demo_dcl = bytes_of ''f''" "length (dtoks demo_dcl) = 15"
    "layers demo_dcl = [LArr 3, LPtr, LFun [([], [], ty_char), ([], [LPtr], ty_uint)] False, LPtr]" by code_simp+
  show ?thesis
    using parse_declarator_correct [OF d(1) _ _ demo_decl_tokens, of ty_int] types_ok_types0 unfolding t d l by auto
qed

end
