(* ===== verification/Decl_Struct.thy ===== *)
theory Decl_Struct
  imports Decl_Sem
begin

text \<open>
  The bodies of structs and unions: the members are the declared ones in order, and their layout
  is the one the ABI asks for: aligned, without overlap, inside the object, whose size is a
  multiple of its alignment. The layout the parser computes with 64-bit words is first given as
  a function on the sizes and alignments of the members.
\<close>

subsection \<open>Sizes\<close>

fun csize :: "layer list \<Rightarrow> nat \<Rightarrow> u64" where
  "csize [] b = fst (snd (prim_table ! b))"
| "csize (LArr n # ls) b = csize ls b * n"
| "csize (l # ls) b = 8"

fun calign :: "layer list \<Rightarrow> nat \<Rightarrow> u64" where
  "calign [] b = snd (snd (prim_table ! b))"
| "calign (LArr n # ls) b = calign ls b"
| "calign (l # ls) b = 8"

fun sized :: "layer list \<Rightarrow> bool" where
  "sized (LArr n # ls) \<longleftrightarrow> 0 < n"
| "sized ls \<longleftrightarrow> True"

lemma chain_size:
  "chain R st i ls j \<Longrightarrow> i = Some q \<Longrightarrow> j = Some b \<Longrightarrow> prims_ok st \<Longrightarrow> b < 16 \<Longrightarrow>
     ty_size (st ! q) = csize ls b \<and> ty_align (st ! q) = calign ls b \<and> (sized ls \<longrightarrow> is_complete (st ! q))"
proof (induction R st i ls j arbitrary: q rule: chain.induct)
  case (1 R st i j)
  then have "(ty_kind (st ! b), ty_size (st ! b), ty_align (st ! b)) = prim_table ! b \<and> is_complete (st ! b)" unfolding prims_ok_def by blast
  then have "ty_size (st ! b) = fst (snd (prim_table ! b))" "ty_align (st ! b) = snd (snd (prim_table ! b))" "is_complete (st ! b)"
    by (metis fst_conv snd_conv)+
  then show ?case using 1 by simp
next
  case (4 R st i n ls j)
  then show ?case by (cases "ty_base (st ! i)") auto
qed (auto simp: word_sized_def)

lemma calign_power: "b < 16 \<Longrightarrow> \<exists>k \<le> 4. calign ls b = 2 ^ k"
proof (induction ls b rule: calign.induct)
  case (1 b)
  have "\<forall>p \<in> set prim_table. \<exists>k \<le> 4. snd (snd p) = 2 ^ k"
    by (simp add: prim_table_def) (intro conjI; (rule exI [of _ 0], simp; fail | rule exI [of _ 1], simp; fail | rule exI [of _ 2], simp; fail | rule exI [of _ 3], simp; fail | rule exI [of _ 4], simp; fail))
  moreover have "prim_table ! b \<in> set prim_table" using 1 by (intro nth_mem) (simp add: prim_table_def)
  ultimately show ?case by auto
qed (auto intro: exI [of _ 3])

subsection \<open>The layout\<close>

text \<open>One member more: the running offset, the largest alignment and the number of members.\<close>

fun place :: "bool \<Rightarrow> u64 \<times> u64 \<times> nat \<Rightarrow> u64 \<times> u64 \<Rightarrow> u64 \<times> (u64 \<times> u64 \<times> nat)" where
  "place u (off, m, n) (sz, al) =
     (let p = (if u then 0 else align_up off al) in (p, if u then p else p + sz, if m < al then al else m, Suc n))"

primrec offsets :: "bool \<Rightarrow> u64 \<times> u64 \<times> nat \<Rightarrow> (u64 \<times> u64) list \<Rightarrow> u64 list" where
  "offsets u acc [] = []"
| "offsets u acc (z # zs) = (case place u acc z of (p, acc) \<Rightarrow> p # offsets u acc zs)"

primrec acc_end :: "bool \<Rightarrow> u64 \<times> u64 \<times> nat \<Rightarrow> (u64 \<times> u64) list \<Rightarrow> u64 \<times> u64 \<times> nat" where
  "acc_end u acc [] = acc"
| "acc_end u acc (z # zs) = acc_end u (snd (place u acc z)) zs"

lemma offsets_append: "offsets u acc (xs @ ys) = offsets u acc xs @ offsets u (acc_end u acc xs) ys"
  by (induction xs arbitrary: acc) (simp_all add: split_def)

lemma acc_end_append: "acc_end u acc (xs @ ys) = acc_end u (acc_end u acc xs) ys"
  by (induction xs arbitrary: acc) simp_all

lemma length_offsets [simp]: "length (offsets u acc zs) = length zs"
  by (induction zs arbitrary: acc) (simp_all add: split_def)

lemma acc_end_count: "snd (snd (acc_end u acc zs)) = snd (snd acc) + length zs"
proof (induction zs arbitrary: acc)
  case (Cons z zs)
  then show ?case by (cases acc; cases z) (simp add: Let_def)
qed simp

definition room :: "(u64 \<times> u64) list \<Rightarrow> nat" where
  "room zs = sum_list (map (\<lambda>(sz, al). unat sz + unat al) zs)"

definition pow2_align :: "u64 \<Rightarrow> bool" where
  "pow2_align a \<longleftrightarrow> (\<exists>k \<le> 4. a = 2 ^ k)"

lemma pow2_align_unat: "pow2_align a \<Longrightarrow> \<exists>k \<le> 4. a = 2 ^ k \<and> unat a = 2 ^ k"
proof -
  assume "pow2_align a"
  then obtain k where k: "k \<le> 4" "a = 2 ^ k" by (auto simp: pow2_align_def)
  then have "k \<in> {0, 1, 2, 3, 4}" by auto
  then have "unat a = 2 ^ k" using k(2) by auto
  then show ?thesis using k by blast
qed

lemma align_up_ok:
  assumes "pow2_align a" "unat x + unat a < 2 ^ 64"
  shows "unat a dvd unat (align_up x a)" "unat x \<le> unat (align_up x a)" "unat (align_up x a) < unat x + unat a"
proof -
  obtain k where k: "k \<le> 4" "a = 2 ^ k" "unat a = 2 ^ k" using pow2_align_unat [OF assms(1)] by blast
  note b = align_up_bounds [of k x, folded k(2,3)]
  show "unat a dvd unat (align_up x a)" "unat x \<le> unat (align_up x a)" "unat (align_up x a) < unat x + unat a"
    using b k assms(2) by (simp_all add: k)
qed

text \<open>The members of a struct are aligned, in order, and end before the running offset.\<close>

lemma layout_ok:
  "list_all (\<lambda>(sz, al). pow2_align al) zs \<Longrightarrow> unat (fst acc) + room zs < 2 ^ 64 \<Longrightarrow>
   unat (fst acc) \<le> unat (fst (acc_end False acc zs))
   \<and> (\<forall>k < length zs. unat (snd (zs ! k)) dvd unat (offsets False acc zs ! k) \<and> unat (fst acc) \<le> unat (offsets False acc zs ! k)
      \<and> unat (offsets False acc zs ! k) + unat (fst (zs ! k)) \<le> unat (fst (acc_end False acc zs))
      \<and> (\<forall>j < k. unat (offsets False acc zs ! j) + unat (fst (zs ! j)) \<le> unat (offsets False acc zs ! k)))
   \<and> unat (fst (acc_end False acc zs)) \<le> unat (fst acc) + room zs"
proof (induction zs arbitrary: acc)
  case Nil
  then show ?case by (simp add: room_def)
next
  case (Cons z zs)
  obtain off m n sz al where a: "acc = (off, m, n)" "z = (sz, al)" by (cases acc; cases z)
  have r: "room (z # zs) = unat sz + unat al + room zs" by (simp add: room_def a)
  let ?p = "align_up off al" and ?m = "if m < al then al else m"
  let ?acc = "(?p + sz, ?m, Suc n)"
  note up = align_up_ok [of al off]
  have p: "unat al dvd unat ?p" "unat off \<le> unat ?p" "unat ?p < unat off + unat al" using up Cons.prems a r by auto
  have s: "unat (?p + sz) = unat ?p + unat sz" using p(3) Cons.prems(2) a r by (simp add: unat_word_ariths)
  have pl: "place False acc z = (?p, ?acc)" by (simp add: a Let_def)
  have ih: "unat (?p + sz) \<le> unat (fst (acc_end False ?acc zs))"
    "\<And>k. k < length zs \<Longrightarrow> unat (snd (zs ! k)) dvd unat (offsets False ?acc zs ! k) \<and> unat (?p + sz) \<le> unat (offsets False ?acc zs ! k)
      \<and> unat (offsets False ?acc zs ! k) + unat (fst (zs ! k)) \<le> unat (fst (acc_end False ?acc zs))
      \<and> (\<forall>j < k. unat (offsets False ?acc zs ! j) + unat (fst (zs ! j)) \<le> unat (offsets False ?acc zs ! k))"
    "unat (fst (acc_end False ?acc zs)) \<le> unat (?p + sz) + room zs"
    using Cons.IH [of ?acc] Cons.prems a r s p(3) by auto
  have step: "unat (snd ((z # zs) ! k)) dvd unat (offsets False acc (z # zs) ! k) \<and> unat (fst acc) \<le> unat (offsets False acc (z # zs) ! k)
      \<and> unat (offsets False acc (z # zs) ! k) + unat (fst ((z # zs) ! k)) \<le> unat (fst (acc_end False acc (z # zs)))
      \<and> (\<forall>j < k. unat (offsets False acc (z # zs) ! j) + unat (fst ((z # zs) ! j)) \<le> unat (offsets False acc (z # zs) ! k))"
    if "k < length (z # zs)" for k
  proof (cases k)
    case 0
    then show ?thesis using pl p ih(1) a s by simp
  next
    case (Suc i)
    then have i: "i < length zs" using that by simp
    show ?thesis using ih(2) [OF i] p(2) s a unfolding Suc pl acc_end.simps offsets.simps by (auto simp: less_Suc_eq_0_disj)
  qed
  show ?case using step ih(1,3) p s a r pl by (simp add: a)
qed

subsection \<open>The table of the fields\<close>

type_synonym field_sem = "u8 list \<times> layer list \<times> nat \<times> u64"

definition field_table :: "type_t \<Rightarrow> struct_field list" where
  "field_table t = (case ty_fields t of None \<Rightarrow> replicate CC_MAX_STRUCT_FIELDS zero_field | Some tbl \<Rightarrow> tbl)"

lemma field_table_Some: "field_table (t\<lparr>ty_fields := Some tbl\<rparr>) = tbl"
  by (simp add: field_table_def)

definition field_chain :: "nat set \<Rightarrow> types \<Rightarrow> struct_field \<times> field_sem \<Rightarrow> bool" where
  "field_chain R st = (\<lambda>(f, x, ls, b, off).
     field_name f = x \<and> field_offset f = off \<and> field_is_anon f = (x = []) \<and> b < 16 \<and> chain R st (field_type f) ls (Some b))"

definition fields_inv :: "nat \<Rightarrow> field_sem list \<Rightarrow> types \<Rightarrow> bool" where
  "fields_inv t fs st \<longleftrightarrow>
     16 \<le> t \<and> t < length st \<and> prims_ok st \<and> length (field_table (st ! t)) = CC_MAX_STRUCT_FIELDS \<and> (ty_fields (st ! t) = None \<longrightarrow> fs = [])
     \<and> list_all (field_chain {Suc t..<length st} st) (zip (field_table (st ! t)) fs)"

lemma field_chain_frame:
  assumes "field_chain R st p" "same_on R st st'" "same_on {..<16} st st'" "16 \<le> length st" "R \<subseteq> R'"
  shows "field_chain R' st' p"
proof -
  obtain f x ls b off where p: "p = (f, x, ls, b, off)" by (cases p)
  have "chain R' st' (field_type f) ls (Some b)"
    by (rule chain_frame [of R st _ _ _ st']) (use assms p in \<open>auto simp: field_chain_def same_on_def\<close>)
  then show ?thesis using assms(1) p by (simp add: field_chain_def)
qed

text \<open>The table survives new objects, and changes of the object that keep its table.\<close>

lemma fields_inv_same:
  assumes "fields_inv t fs st" "same_on (- {t}) st st'" "ty_fields (st' ! t) = ty_fields (st ! t)"
  shows "fields_inv t fs st'"
proof -
  note i = assms(1) [unfolded fields_inv_def] and s = assms(2) [unfolded same_on_def]
  have p: "prims_ok st'" using i s by (auto simp: prims_ok_def)
  have e: "field_table (st' ! t) = field_table (st ! t)" by (simp add: field_table_def assms(3))
  have "same_on {Suc t..<length st} st st'" "same_on {..<16} st st'" "16 \<le> length st" using i s by (auto simp: same_on_def prims_ok_def)
  then have "field_chain {Suc t..<length st'} st' q" if "field_chain {Suc t..<length st} st q" for q
    by (rule field_chain_frame [OF that]) (use s in auto)
  then show ?thesis unfolding fields_inv_def using i s p e assms(3) by (auto simp: list_all_iff)
qed

definition next_field :: "nat \<Rightarrow> nat \<Rightarrow> u8 list \<Rightarrow> nat \<Rightarrow> u64 \<Rightarrow> types \<Rightarrow> types" where
  "next_field t n x i off st = st[t := (st ! t)\<lparr>ty_fields := Some ((field_table (st ! t))[n := (field_table (st ! t) ! n)\<lparr>field_name := x,
     field_type := Some i, field_offset := off, field_is_anon := x = []\<rparr>])\<rparr>]"

lemma same_next_field: "same_on (- {t}) st (next_field t n x i off st)"
  by (auto simp: same_on_def next_field_def)

lemma zip_snoc: "length ys < length xs \<Longrightarrow> zip (xs[length ys := v]) (ys @ [y]) = zip xs ys @ [(v, y)]"
proof (induction ys arbitrary: xs)
  case (Cons z ys)
  then show ?case by (cases xs) simp_all
qed (auto simp: neq_Nil_conv length_greater_0_conv [symmetric] simp del: length_greater_0_conv)

lemma fields_inv_next:
  assumes b: "builds st st1 (Some i) ls (Some b)" "b < 16" and inv: "fields_inv t fs st" "length fs < CC_MAX_STRUCT_FIELDS"
    and st2: "st2 = next_field t (length fs) x i off st1"
  shows "fields_inv t (fs @ [(x, ls, b, off)]) st2" "st2 ! i = st1 ! i" "fields_inv t fs st1"
proof -
  have e: "extended st st1" using b(1) by (rule builds_extended)
  have t: "16 \<le> t" "t < length st" using inv(1) by (simp_all add: fields_inv_def)
  have k: "st1 ! t = st ! t" "length st \<le> length st1" using extended_nth [OF e t(2)] extended_length [OF e] by simp_all
  have s1: "same_on (- {t}) st st1" using e k(2) t by (auto simp: same_on_def extended_def)
  show inv1: "fields_inv t fs st1" by (rule fields_inv_same [OF inv(1) s1]) (simp add: k)
  have it: "i \<noteq> t"
  proof (cases ls)
    case Nil
    then show ?thesis using b t by (auto simp: builds_def)
  next
    case (Cons l ls')
    then show ?thesis using b(1) t by (cases l) (auto simp: builds_def)
  qed
  then show "st2 ! i = st1 ! i" by (simp add: st2 next_field_def)
  note i1 = inv1 [unfolded fields_inv_def]
  let ?T = "field_table (st1 ! t)"
  let ?v = "(?T ! length fs)\<lparr>field_name := x, field_type := Some i, field_offset := off, field_is_anon := x = []\<rparr>"
  have o: "st2 ! t = (st1 ! t)\<lparr>ty_fields := Some (?T[length fs := ?v])\<rparr>" "length st2 = length st1" using i1 by (simp_all add: st2 next_field_def)
  have T: "field_table (st2 ! t) = ?T[length fs := ?v]" by (simp add: o field_table_Some)
  note s2 = same_next_field [of t st1 "length fs" x i off, folded st2]
  have c: "chain {Suc t..<length st2} st2 (Some i) ls (Some b)"
    by (rule chain_frame [OF b(1) [unfolded builds_def, THEN conjunct2]]) (use s2 t b(2) i1 o(2) in \<open>auto simp: same_on_def prims_ok_def\<close>)
  have old: "field_chain {Suc t..<length st2} st2 q" if "field_chain {Suc t..<length st1} st1 q" for q
    by (rule field_chain_frame [OF that]) (use s2 t i1 o(2) in \<open>auto simp: same_on_def prims_ok_def\<close>)
  have z: "zip (field_table (st2 ! t)) (fs @ [(x, ls, b, off)]) = zip ?T fs @ [(?v, x, ls, b, off)]"
    unfolding T by (rule zip_snoc) (use i1 inv(2) in simp)
  have p2: "prims_ok st2" using i1 s2 o(2) t by (auto simp: prims_ok_def same_on_def)
  show "fields_inv t (fs @ [(x, ls, b, off)]) st2"
    unfolding fields_inv_def z using i1 t old c b(2) p2 by (auto simp: o field_table_Some list_all_iff field_chain_def)
qed

text \<open>What the parser does with one member.\<close>

lemma add_field_ok:
  assumes b: "builds st (p_types s) (Some i) ls (Some b)" "b < 16" "sized ls" and inv: "fields_inv t fs st" "length fs < CC_MAX_STRUCT_FIELDS"
    and pl: "place u (off, m, length fs) (csize ls b, calign ls b) = (p, acc)"
  shows "add_field t u i x (off, m, length fs) s = (acc, s\<lparr>p_types := next_field t (length fs) x i p (p_types s)\<rparr>)"
    "fields_inv t (fs @ [(x, ls, b, p)]) (next_field t (length fs) x i p (p_types s))"
proof -
  define st2 where "st2 = next_field t (length fs) x i p (p_types s)"
  note n = fields_inv_next [OF b(1,2) inv st2_def]
  show "fields_inv t (fs @ [(x, ls, b, p)]) (next_field t (length fs) x i p (p_types s))" using n(1) by (simp add: st2_def)
  have ok: "prims_ok (p_types s)" "t < length (p_types s)" using n(3) by (simp_all add: fields_inv_def)
  have sz: "ty_size (p_types s ! i) = csize ls b" "ty_align (p_types s ! i) = calign ls b" "is_complete (p_types s ! i)"
    using chain_size [OF b(1) [unfolded builds_def, THEN conjunct2] refl refl ok(1) b(2)] b(3) by auto
  have u: "upd_type t (\<lambda>ty. ty\<lparr>ty_fields := map_option (\<lambda>fs'. fs'[length fs := (fs' ! length fs)\<lparr>field_name := x,
      field_type := Some i, field_offset := p, field_is_anon := x = []\<rparr>]) (ty_fields ty)\<rparr>) (s\<lparr>p_types := type_ensure_fields t (p_types s)\<rparr>) = s\<lparr>p_types := st2\<rparr>"
    using ok(2) by (cases "ty_fields (p_types s ! t)") (simp_all add: upd_type_def type_ensure_fields_def st2_def next_field_def field_table_def)
  have ps: "p_sizeof i (s\<lparr>p_types := st2\<rparr>) = (csize ls b, s\<lparr>p_types := st2\<rparr>)" using p_sizeof_eq [of "s\<lparr>p_types := st2\<rparr>" i] n(2) sz by simp
  have "p = (if u then 0 else align_up off (calign ls b))" "acc = (if u then p else p + csize ls b, if m < calign ls b then calign ls b else m, Suc (length fs))"
    using pl by (auto simp: Let_def)
  then show "add_field t u i x (off, m, length fs) s = (acc, s\<lparr>p_types := next_field t (length fs) x i p (p_types s)\<rparr>)"
    using inv(2) u ps sz(2) by (simp add: add_field_def type_alignof_def Let_def) (simp add: st2_def)
qed

subsection \<open>The members of a declaration\<close>

lemma evs_struct_Suc:
  "evs (\<lambda>n. members_round (\<lambda>b. parse_declarator n (Some b)) (struct_members n t u fb) t u fb acc s) r \<Longrightarrow> evs (\<lambda>n. struct_members n t u fb acc s) r"
  "evs (\<lambda>n. fields_body (\<lambda>s. bindE (parse_decl_spec n s) (\<lambda>((b, c), s). Inr (b, s))) (struct_members n t u) (struct_fields n t u) acc s') r' \<Longrightarrow>
     evs (\<lambda>n. struct_fields n t u acc s') r'"
  by (rule evs_Suc; simp add: decl_fuel_Suc; fail)+

text \<open>A member with its name, its layers and its base type.\<close>

definition msem :: "keyword list \<Rightarrow> dcl \<Rightarrow> u8 list \<times> layer list \<times> nat" where
  "msem ks d = (dname d, layers d, spec_type ks)"

definition msize :: "u8 list \<times> layer list \<times> nat \<Rightarrow> u64 \<times> u64" where
  "msize = (\<lambda>(x, ls, b). (csize ls b, calign ls b))"

definition with_offsets :: "(u8 list \<times> layer list \<times> nat) list \<Rightarrow> u64 list \<Rightarrow> field_sem list" where
  "with_offsets ms os = map2 (\<lambda>(x, ls, b) off. (x, ls, b, off)) ms os"

lemma length_with_offsets: "length (with_offsets ms (offsets u acc (map msize ms))) = length ms"
  by (simp add: with_offsets_def)

definition wf_member :: "dcl \<Rightarrow> bool" where
  "wf_member d \<longleftrightarrow> wf_dcl False d \<and> sized (layers d) \<and> dname d \<noteq> []"

text \<open>What reading members adds to a struct whose fields are \<open>fs\<close>: their entries, with the computed offsets.\<close>

definition adds_fields :: "bool \<Rightarrow> nat \<Rightarrow> (u8 list \<times> layer list \<times> nat) list \<Rightarrow> u64 \<times> u64 \<times> nat \<Rightarrow> u64 \<times> u64 \<times> nat
    \<Rightarrow> field_sem list \<Rightarrow> types \<Rightarrow> types \<Rightarrow> bool" where
  "adds_fields u t ms acc acc' fs st st' \<longleftrightarrow>
     acc' = acc_end u acc (map msize ms) \<and> fields_inv t (fs @ with_offsets ms (offsets u acc (map msize ms))) st'
     \<and> same_on (- {t}) st st' \<and> st' ! t = (st ! t)\<lparr>ty_fields := ty_fields (st' ! t)\<rparr>"

lemma adds_fields_trans:
  assumes "adds_fields u t ms acc acc1 fs st st1"
    and "adds_fields u t ms' acc1 acc2 (fs @ with_offsets ms (offsets u acc (map msize ms))) st1 st2"
  shows "adds_fields u t (ms @ ms') acc acc2 fs st st2"
proof -
  note a = assms(1) [unfolded adds_fields_def] and b = assms(2) [unfolded adds_fields_def]
  have w: "with_offsets (ms @ ms') (offsets u acc (map msize (ms @ ms')))
      = with_offsets ms (offsets u acc (map msize ms)) @ with_offsets ms' (offsets u acc1 (map msize ms'))"
    using a by (simp add: with_offsets_def offsets_append)
  have e: "st2 ! t = (st ! t)\<lparr>ty_fields := ty_fields (st2 ! t)\<rparr>"
  proof -
    have "st2 ! t = (st1 ! t)\<lparr>ty_fields := ty_fields (st2 ! t)\<rparr>" using b by blast
    also have "st1 ! t = (st ! t)\<lparr>ty_fields := ty_fields (st1 ! t)\<rparr>" using a by blast
    finally show ?thesis by simp
  qed
  have "same_on (- {t}) st st2" using a b by (auto simp: same_on_def)
  then show ?thesis unfolding adds_fields_def using a b w e by (simp add: acc_end_append)
qed

lemma one_member:
  assumes d: "wf_member d" "dtoks_at s (dtoks d)" "next_kind (length (dtoks d)) s \<in> declarator_end" and b: "spec_type ks < 16"
    and inv: "fields_inv t fs (p_types s)" "length fs < CC_MAX_STRUCT_FIELDS" "snd (snd acc) = length fs"
  obtains acc' st' where "adds_fields u t [msem ks d] acc acc' fs (p_types s) st'"
    and "\<And>r. evs (\<lambda>n. case accept T_COMMA (built (length (dtoks d)) st' s) of (True, s) \<Rightarrow> struct_members n t u (spec_type ks) acc' s
         | (False, s) \<Rightarrow> Inr (acc', s)) r \<Longrightarrow> evs (\<lambda>n. struct_members n t u (spec_type ks) acc s) r"
proof -
  let ?b = "spec_type ks"
  have ok: "prims_ok (p_types s)" "16 \<le> t" "t < length (p_types s)" using inv(1) by (simp_all add: fields_inv_def)
  have w: "wf_dcl (Some ?b = None) d" "sized (layers d)" using d(1) by (simp_all add: wf_member_def)
  have v: "valid_base (p_types s) (Some ?b)" using b ok by (simp add: valid_base_def prims_ok_def)
  obtain q st1 where q: "evs (\<lambda>n. parse_declarator n (Some ?b) s) ((q, dname d), built (length (dtoks d)) st1 s)" "builds (p_types s) st1 q (layers d) (Some ?b)"
    using reads_dclD [OF reads_all_declarators(1) w(1) ok(1) v d(2,3)] by blast
  obtain i where i: "q = Some i" using builds_not_null [OF q(2)] by blast
  obtain off m where a: "acc = (off, m, length fs)" using inv(3) by (cases acc) auto
  obtain p acc' where pl: "place u acc (csize (layers d) ?b, calign (layers d) ?b) = (p, acc')" by (rule prod.exhaust)
  define st2 where "st2 = next_field t (length fs) (dname d) i p st1"
  have f: "add_field t u i (dname d) acc (built (length (dtoks d)) st1 s) = (acc', built (length (dtoks d)) st2 s)"
    "fields_inv t (fs @ [(dname d, layers d, ?b, p)]) st2"
    using add_field_ok [of "p_types s" "built (length (dtoks d)) st1 s" i "layers d" ?b t fs u off m p acc' "dname d"] q(2) i b w(2) inv(1,2) pl a
    by (simp_all add: st2_def built_def)
  have e: "st1 ! t = p_types s ! t" "length (p_types s) \<le> length st1" "same_on (- {t}) (p_types s) st1"
    using extended_nth [OF builds_extended [OF q(2)] ok(3)] builds_extended [OF q(2)] by (auto simp: extended_def same_on_def)
  have "same_on (- {t}) (p_types s) st2" using e(3) by (auto simp: st2_def same_on_def next_field_def)
  moreover have "st2 ! t = (p_types s ! t)\<lparr>ty_fields := ty_fields (st2 ! t)\<rparr>" using e ok(3) by (simp add: st2_def next_field_def)
  moreover have "offsets u acc [msize (msem ks d)] = [p]" "acc_end u acc [msize (msem ks d)] = acc'" using pl by (simp_all add: msem_def msize_def)
  ultimately have "adds_fields u t [msem ks d] acc acc' fs (p_types s) st2"
    using f(2) by (simp add: adds_fields_def with_offsets_def) (simp add: msem_def)
  moreover have "evs (\<lambda>n. struct_members n t u ?b acc s) r"
    if "evs (\<lambda>n. case accept T_COMMA (built (length (dtoks d)) st2 s) of (True, s) \<Rightarrow> struct_members n t u ?b acc' s | (False, s) \<Rightarrow> Inr (acc', s)) r" for r
    by (rule evs_struct_Suc(1), unfold members_round_def, rule evs_bind [OF q(1)]) (use that f(1) i in simp)
  ultimately show thesis using that by blast
qed

lemma reads_members:
  "ds \<noteq> [] \<Longrightarrow> list_all wf_member ds \<Longrightarrow> dtoks_at s (commas (map dtoks ds)) \<Longrightarrow> next_kind (length (commas (map dtoks ds))) s = T_SEMI \<Longrightarrow>
   spec_type ks < 16 \<Longrightarrow> fields_inv t fs (p_types s) \<Longrightarrow> length fs + length ds \<le> CC_MAX_STRUCT_FIELDS \<Longrightarrow> snd (snd acc) = length fs \<Longrightarrow>
   \<exists>acc' st'. evs (\<lambda>n. struct_members n t u (spec_type ks) acc s) (acc', built (length (commas (map dtoks ds))) st' s)
     \<and> adds_fields u t (map (msem ks) ds) acc acc' fs (p_types s) st'"
proof (induction ds arbitrary: s fs acc)
  case (Cons d ds)
  let ?n = "length (dtoks d)"
  have at: "wf_member d" "dtoks_at s (dtoks d)" "next_kind ?n s = (if ds = [] then T_SEMI else T_COMMA)"
    using Cons.prems(2-4) by (cases ds; simp)+
  then have nk: "next_kind ?n s \<in> declarator_end" by (simp add: declarator_end_def)
  obtain acc1 st1 where a: "adds_fields u t [msem ks d] acc acc1 fs (p_types s) st1"
    and go: "\<And>r. evs (\<lambda>n. case accept T_COMMA (built ?n st1 s) of (True, s) \<Rightarrow> struct_members n t u (spec_type ks) acc1 s
         | (False, s) \<Rightarrow> Inr (acc1, s)) r \<Longrightarrow> evs (\<lambda>n. struct_members n t u (spec_type ks) acc s) r"
    using one_member [OF at(1,2) nk Cons.prems(5,6) _ Cons.prems(8), of u thesis] Cons.prems(7) by auto
  let ?fs = "fs @ with_offsets [msem ks d] (offsets u acc (map msize [msem ks d]))"
  show ?case
  proof (cases "ds = []")
    case True
    then have "evs (\<lambda>n. struct_members n t u (spec_type ks) acc s) (acc1, built ?n st1 s)" by (intro go) (use at(3) in \<open>simp add: accept_def evs_const\<close>)
    then show ?thesis using True a by (intro exI [of _ acc1] exI [of _ st1]) simp
  next
    case False
    let ?s = "built (Suc ?n) st1 s"
    have c: "commas (map dtoks (d # ds)) = dtoks d @ P T_COMMA # commas (map dtoks ds)" using False by (simp add: commas_Cons)
    have len: "length ?fs = Suc (length fs)" using length_with_offsets [of "[msem ks d]" u acc] by simp
    have f: "fields_inv t ?fs (p_types ?s)" "snd (snd acc1) = length ?fs"
      using a len Cons.prems(8) acc_end_count [of u acc "map msize [msem ks d]"] by (simp_all add: adds_fields_def)
    have "\<exists>acc' st'. evs (\<lambda>n. struct_members n t u (spec_type ks) acc1 ?s) (acc', built (length (commas (map dtoks ds))) st' ?s)
        \<and> adds_fields u t (map (msem ks) ds) acc1 acc' ?fs (p_types ?s) st'"
      by (rule Cons.IH [OF False _ _ _ Cons.prems(5) f(1) _ f(2)]) (use Cons.prems c len in simp_all)
    then obtain acc' st' where i: "evs (\<lambda>n. struct_members n t u (spec_type ks) acc1 ?s) (acc', built (length (commas (map dtoks (d # ds)))) st' s)"
      "adds_fields u t (map (msem ks) ds) acc1 acc' ?fs st1 st'" unfolding c by auto
    have "evs (\<lambda>n. struct_members n t u (spec_type ks) acc s) (acc', built (length (commas (map dtoks (d # ds)))) st' s)"
      by (rule go) (use i(1) at(3) False in \<open>simp add: accept_def\<close>)
    then show ?thesis using adds_fields_trans [OF a i(2)] by (intro exI [of _ acc'] exI [of _ st']) simp
  qed
qed simp

subsection \<open>Whole bodies\<close>

type_synonym member_decl = "keyword list \<times> dcl list"

definition member_toks :: "member_decl \<Rightarrow> dtok list" where
  "member_toks = (\<lambda>(ks, ds). map (\<lambda>k. P (T_KW k)) ks @ commas (map dtoks ds) @ [P T_SEMI])"

definition members_of :: "member_decl list \<Rightarrow> (u8 list \<times> layer list \<times> nat) list" where
  "members_of ms = concat (map (\<lambda>(ks, ds). map (msem ks) ds) ms)"

definition wf_decl :: "member_decl \<Rightarrow> bool" where
  "wf_decl = (\<lambda>(ks, ds). ks \<in> fst ` set c_specifiers \<and> ds \<noteq> [] \<and> list_all wf_member ds)"

text \<open>The token behind the specifiers of a member is no semicolon, so that the member is not dropped.\<close>

lemma member_head:
  assumes "wf_member d" "dtoks_at s (dtoks d)"
  shows "t_kind (p_cur s) \<notin> {T_SEMI, T_KW T_KW_INT}"
proof -
  obtain ps c sfs where d: "d = Dcl ps c sfs" by (cases d)
  show ?thesis
  proof (cases ps)
    case Nil
    then show ?thesis using assms d by (cases c) (auto simp: wf_member_def)
  next
    case (Cons k ps')
    then show ?thesis using assms d by (auto simp: wf_member_def pointer_tokens_def)
  qed
qed

lemma one_declaration:
  assumes m: "wf_decl (ks, ds)" and at: "dtoks_at s (member_toks (ks, ds))"
    and inv: "fields_inv t fs (p_types s)" "length fs + length ds \<le> CC_MAX_STRUCT_FIELDS" "snd (snd acc) = length fs"
  obtains acc' st' where "adds_fields u t (map (msem ks) ds) acc acc' fs (p_types s) st'"
    and "\<And>r. evs (\<lambda>n. struct_fields n t u acc' (built (length (member_toks (ks, ds))) st' s)) r \<Longrightarrow> evs (\<lambda>n. struct_fields n t u acc s) r"
proof -
  let ?n = "length ks" and ?m = "length (commas (map dtoks ds))"
  have w: "ks \<in> fst ` set c_specifiers" "ds \<noteq> []" "list_all wf_member ds" using m by (auto simp: wf_decl_def)
  then obtain b where b: "(ks, b) \<in> set c_specifiers" by auto
  then have sb: "spec_type ks = b" "b < 16" "ks \<noteq> []" using specifiers_split [OF b] by auto
  have a: "dtoks_at s (map (\<lambda>k. P (T_KW k)) ks)" "dtoks_at (skip ?n s) (commas (map dtoks ds))" "next_kind ?m (skip ?n s) = T_SEMI"
    using at by (simp_all add: member_toks_def)
  obtain d ds' where ds: "ds = d # ds'" using w(2) by (cases ds) auto
  have "dtoks_at (skip ?n s) (dtoks d)" using a(2) ds by (cases ds') simp_all
  then have hd: "t_kind (p_cur (skip ?n s)) \<notin> {T_SEMI, T_KW T_KW_INT}" using member_head [of d "skip ?n s"] w(3) ds by simp
  have sp: "evs (\<lambda>n. parse_decl_spec n s) ((b, no_storage), skip ?n s)" by (rule reads_decl_spec [OF b a(1)]) (use hd in simp)
  obtain acc' st' where r: "evs (\<lambda>n. struct_members n t u b acc (skip ?n s)) (acc', built ?m st' (skip ?n s))"
    "adds_fields u t (map (msem ks) ds) acc acc' fs (p_types s) st'"
    using reads_members [OF w(2,3) a(2,3), of ks t fs acc u] inv sb by auto
  have nb: "t_kind (p_cur s) \<noteq> T_RBRACE" using a(1) sb(3) by (cases ks) auto
  have sm: "parse_expect T_SEMI (built ?m st' (skip ?n s)) = built (length (member_toks (ks, ds))) st' s"
    using a(3) by (simp add: parse_expect_def member_toks_def built_def)
  have "evs (\<lambda>n. struct_fields n t u acc s) q"
    if q: "evs (\<lambda>n. struct_fields n t u acc' (built (length (member_toks (ks, ds))) st' s)) q" for q
  proof (rule evs_struct_Suc(2))
    have "evs (\<lambda>n. bindE (struct_members n t u b acc (skip ?n s)) (\<lambda>(acc, s). struct_fields n t u acc (parse_expect T_SEMI s))) q"
      by (rule evs_bind [OF r(1)]) (use q sm in simp)
    then have "evs (\<lambda>n. bindE (bindE (parse_decl_spec n s) (\<lambda>((b, c), s). Inr (b, s))) (\<lambda>(fbase, s). if t_kind (p_cur s) = T_SEMI then struct_fields n t u acc (p_next s)
        else bindE (struct_members n t u fbase acc s) (\<lambda>(acc, s). struct_fields n t u acc (parse_expect T_SEMI s)))) q"
      unfolding bindE_assoc by (intro evs_bind [OF sp]) (use hd in simp)
    then show "evs (\<lambda>n. fields_body (\<lambda>s. bindE (parse_decl_spec n s) (\<lambda>((b, c), s). Inr (b, s))) (struct_members n t u) (struct_fields n t u) acc s) q"
      using nb by (simp add: fields_body_def)
  qed
  then show thesis using that r(2) by blast
qed

lemma reads_fields:
  "list_all wf_decl ms \<Longrightarrow> dtoks_at s (concat (map member_toks ms)) \<Longrightarrow> next_kind (length (concat (map member_toks ms))) s = T_RBRACE \<Longrightarrow>
   fields_inv t fs (p_types s) \<Longrightarrow> length fs + length (members_of ms) \<le> CC_MAX_STRUCT_FIELDS \<Longrightarrow> snd (snd acc) = length fs \<Longrightarrow>
   \<exists>acc' st'. evs (\<lambda>n. struct_fields n t u acc s) (acc', built (length (concat (map member_toks ms))) st' s)
     \<and> adds_fields u t (members_of ms) acc acc' fs (p_types s) st'"
proof (induction ms arbitrary: s fs acc)
  case Nil
  have "evs (\<lambda>n. struct_fields n t u acc s) (acc, s)"
    by (rule evs_struct_Suc(2)) (use Nil in \<open>simp add: fields_body_def evs_const\<close>)
  then show ?case using Nil(4)
    by (intro exI [of _ acc] exI [of _ "p_types s"]) (simp add: built_0 adds_fields_def members_of_def with_offsets_def same_on_def)
next
  case (Cons m ms)
  obtain ks ds where m: "m = (ks, ds)" by (cases m)
  let ?l = "length (member_toks (ks, ds))"
  have mo: "members_of (m # ms) = map (msem ks) ds @ members_of ms" by (simp add: members_of_def m)
  obtain acc1 st1 where a: "adds_fields u t (map (msem ks) ds) acc acc1 fs (p_types s) st1"
    and go: "\<And>r. evs (\<lambda>n. struct_fields n t u acc1 (built ?l st1 s)) r \<Longrightarrow> evs (\<lambda>n. struct_fields n t u acc s) r"
    using one_declaration [of ks ds s t fs acc u thesis] Cons.prems m mo by auto
  let ?fs = "fs @ with_offsets (map (msem ks) ds) (offsets u acc (map msize (map (msem ks) ds)))" and ?s = "built ?l st1 s"
  have len: "length ?fs = length fs + length ds" using length_with_offsets [of "map (msem ks) ds" u acc] by simp
  have f: "fields_inv t ?fs (p_types ?s)" "snd (snd acc1) = length ?fs"
    using a len Cons.prems(6) acc_end_count [of u acc "map msize (map (msem ks) ds)"] by (simp_all add: adds_fields_def)
  have "\<exists>acc' st'. evs (\<lambda>n. struct_fields n t u acc1 ?s) (acc', built (length (concat (map member_toks ms))) st' ?s)
      \<and> adds_fields u t (members_of ms) acc1 acc' ?fs (p_types ?s) st'"
    by (rule Cons.IH [OF _ _ _ f(1) _ f(2)]) (use Cons.prems m mo len in simp_all)
  then obtain acc' st' where i: "evs (\<lambda>n. struct_fields n t u acc1 ?s) (acc', built (length (concat (map member_toks (m # ms)))) st' s)"
    "adds_fields u t (members_of ms) acc1 acc' ?fs st1 st'" by (auto simp: m)
  show ?case using go [OF i(1)] adds_fields_trans [OF a i(2)] by (intro exI [of _ acc'] exI [of _ st']) (simp add: mo)
qed

lemma max_align_ok:
  "list_all (\<lambda>(sz, al). pow2_align al) zs \<Longrightarrow> pow2_align (fst (snd acc)) \<Longrightarrow>
   pow2_align (fst (snd (acc_end u acc zs))) \<and> fst (snd acc) \<le> fst (snd (acc_end u acc zs))
   \<and> (\<forall>z \<in> set zs. snd z \<le> fst (snd (acc_end u acc zs)))"
proof (induction zs arbitrary: acc)
  case (Cons z zs)
  obtain off m n sz al where a: "acc = (off, m, n)" "z = (sz, al)" by (cases acc; cases z)
  let ?acc = "snd (place u acc z)"
  have p: "fst (snd ?acc) = (if m < al then al else m)" by (simp add: a Let_def)
  then have "pow2_align (fst (snd ?acc))" using Cons.prems a by simp
  then have "pow2_align (fst (snd (acc_end u ?acc zs))) \<and> fst (snd ?acc) \<le> fst (snd (acc_end u ?acc zs)) \<and> (\<forall>z \<in> set zs. snd z \<le> fst (snd (acc_end u ?acc zs)))"
    using Cons by simp
  moreover have "m \<le> fst (snd ?acc)" "al \<le> fst (snd ?acc)" by (auto simp: p)
  ultimately show ?case using a by auto
qed simp

text \<open>
  A struct object with the members \<open>ms\<close>: every field has its name and type, starts at a multiple of its
  alignment, behind the fields before it, and ends inside the struct; the size of the struct is
  a multiple of its alignment, which is at least that of every field.
\<close>

definition laid_out :: "types \<Rightarrow> nat \<Rightarrow> (u8 list \<times> layer list \<times> nat) list \<Rightarrow> bool" where
  "laid_out st t ms \<longleftrightarrow>
     ty_kind (st ! t) = TY_STRUCT \<and> is_complete (st ! t) \<and> unat (nfields (st ! t)) = length ms
     \<and> pow2_align (ty_align (st ! t)) \<and> unat (ty_align (st ! t)) dvd unat (ty_size (st ! t))
     \<and> (\<forall>k < length ms. case (field_table (st ! t) ! k, ms ! k) of
          (f, x, ls, b) \<Rightarrow>
            field_name f = x \<and> chain {Suc t..<length st} st (field_type f) ls (Some b)
            \<and> calign ls b \<le> ty_align (st ! t) \<and> unat (calign ls b) dvd unat (field_offset f)
            \<and> unat (field_offset f) + unat (csize ls b) \<le> unat (ty_size (st ! t))
            \<and> (\<forall>j < k. unat (field_offset (field_table (st ! t) ! j)) + unat (fst (msize (ms ! j))) \<le> unat (field_offset f)))"

lemma laid_out_struct:
  assumes inv: "fields_inv t (with_offsets ms (offsets False (0, 1, 0) (map msize ms))) st" and acc: "acc_end False (0, 1, 0) (map msize ms) = (off, m, n)"
    and room: "room (map msize ms) + 16 < 2 ^ 64" "length ms \<le> CC_MAX_STRUCT_FIELDS"
    and ob: "ty_kind (st ! t) = TY_STRUCT" "is_complete (st ! t)" "nfields (st ! t) = word_of_nat n" "ty_size (st ! t) = align_up off m" "ty_align (st ! t) = m"
  shows "laid_out st t ms"
proof -
  let ?zs = "map msize ms" and ?T = "field_table (st ! t)"
  let ?os = "offsets False (0, 1, 0) ?zs"
  note i = inv [unfolded fields_inv_def]
  have n: "n = length ms" using acc_end_count [of False "(0, 1, 0)" ?zs] acc by simp
  have nf: "unat (nfields (st ! t)) = length ms" using ob(3) n room(2) by (simp add: unat_u32 CC_MAX_STRUCT_FIELDS_def)
  have T: "length ms \<le> length ?T" using i room(2) by simp
  have f: "field_name (?T ! k) = x \<and> field_offset (?T ! k) = ?os ! k \<and> b < 16 \<and> chain {Suc t..<length st} st (field_type (?T ! k)) ls (Some b)"
    if "k < length ms" "ms ! k = (x, ls, b)" for k x ls b
  proof -
    have "(?T ! k, with_offsets ms ?os ! k) \<in> set (zip ?T (with_offsets ms ?os))"
      using that(1) T by (auto simp: set_zip length_with_offsets)
    moreover have "with_offsets ms ?os ! k = (x, ls, b, ?os ! k)" using that by (simp add: with_offsets_def)
    ultimately show ?thesis using i by (auto simp: list_all_iff field_chain_def)
  qed
  have al: "list_all (\<lambda>(sz, al). pow2_align al) ?zs"
  proof -
    have "pow2_align (snd (msize (ms ! k)))" if "k < length ms" for k
      using f [OF that] calign_power by (cases "ms ! k") (auto simp: msize_def pow2_align_def)
    then show ?thesis by (auto simp: list_all_length split_def)
  qed
  have one: "pow2_align 1" unfolding pow2_align_def by (intro exI [of _ 0]) simp
  note mx = max_align_ok [OF al, of "(0, 1, 0)" False, unfolded acc fst_conv snd_conv, OF one]
  note lay = layout_ok [OF al, of "(0, 1, 0)", unfolded acc fst_conv snd_conv]
  have off: "unat off \<le> room ?zs" using lay room by simp
  have m16: "unat m \<le> 16"
  proof -
    obtain k where k: "k \<le> 4" "unat m = 2 ^ k" using pow2_align_unat mx by blast
    have "(2 :: nat) ^ k \<le> 2 ^ 4" by (rule power_increasing [OF k(1)]) simp
    then show ?thesis using k by simp
  qed
  have "unat off + unat m < 2 ^ 64" using off m16 room by simp
  note up = align_up_ok [OF mx [THEN conjunct1] this]
  have fields: "case (?T ! k, ms ! k) of (f, x, ls, b) \<Rightarrow> field_name f = x \<and> chain {Suc t..<length st} st (field_type f) ls (Some b)
      \<and> calign ls b \<le> m \<and> unat (calign ls b) dvd unat (field_offset f) \<and> unat (field_offset f) + unat (csize ls b) \<le> unat (align_up off m)
      \<and> (\<forall>j < k. unat (field_offset (?T ! j)) + unat (fst (msize (ms ! j))) \<le> unat (field_offset f))" if k: "k < length ms" for k
  proof -
    obtain x ls b where mk: "ms ! k = (x, ls, b)" by (cases "ms ! k")
    have z: "?zs ! k = (csize ls b, calign ls b)" using k mk by (simp add: msize_def)
    have o: "field_offset (?T ! j) = ?os ! j" if "j < length ms" for j using f [OF that] by (cases "ms ! j") auto
    have "(csize ls b, calign ls b) \<in> set ?zs" using z k by (metis length_map nth_mem)
    then have "snd (csize ls b, calign ls b) \<le> m" using mx by blast
    then have "calign ls b \<le> m" by simp
    then show ?thesis using f [OF k mk] mk z o k lay room up(2) by (auto dest!: spec [of _ k])
  qed
  show ?thesis unfolding laid_out_def using ob nf mx up(1) fields by simp
qed

subsection \<open>The struct specifier\<close>

lemma set_tags_simps [simp]:
  "p_cur (s\<lparr>p_tags := g\<rparr>) = p_cur s" "p_next (s\<lparr>p_tags := g\<rparr>) = (p_next s)\<lparr>p_tags := g\<rparr>" "skip k (s\<lparr>p_tags := g\<rparr>) = (skip k s)\<lparr>p_tags := g\<rparr>"
proof -
  show "p_cur (s\<lparr>p_tags := g\<rparr>) = p_cur s" by (simp add: p_cur_def)
  show n: "p_next (s\<lparr>p_tags := g\<rparr>) = (p_next s)\<lparr>p_tags := g\<rparr>" for s by (simp add: p_next_def)
  show "skip k (s\<lparr>p_tags := g\<rparr>) = (skip k s)\<lparr>p_tags := g\<rparr>" by (induction k arbitrary: s) (simp_all add: n)
qed

lemma tags_types_swap: "s\<lparr>p_tags := g, p_types := st\<rparr> = s\<lparr>p_types := st, p_tags := g\<rparr>"
  by simp

lemma dtoks_at_set_tags [simp]: "dtoks_at (s\<lparr>p_tags := g\<rparr>) ts = dtoks_at s ts"
  by (induction s ts rule: dtoks_at.induct) simp_all

lemma p_tags_skip [simp]: "p_tags (p_next s) = p_tags s" "p_tags (skip k s) = p_tags s"
proof -
  show n: "p_tags (p_next s) = p_tags s" for s by (simp add: p_next_def)
  show "p_tags (skip k s) = p_tags s" by (induction k arbitrary: s) (simp_all add: n)
qed

definition struct_toks :: "u8 list \<Rightarrow> member_decl list \<Rightarrow> dtok list" where
  "struct_toks tag ms = (if tag = [] then [] else [Id tag]) @ P T_LBRACE # concat (map member_toks ms) @ [P T_RBRACE]"

definition new_tag :: "u8 list \<Rightarrow> tags \<Rightarrow> bool" where
  "new_tag tag g \<longleftrightarrow> tag = [] \<or> length tag < CC_MAX_IDENT \<and> tags_lookup tag g = None \<and> length g < CC_MAX_TAGS"

definition enter_tag :: "u8 list \<Rightarrow> nat \<Rightarrow> tags \<Rightarrow> tags" where
  "enter_tag tag t g = (if tag = [] then g else g @ [\<lparr>tag_name = tag, tag_type = t\<rparr>])"

lemma tagged_type_new:
  assumes "new_tag tag (p_tags s)"
  shows "tagged_type tag fresh s = Inr (length (p_types s), s\<lparr>p_types := p_types s @ [fresh\<lparr>ty_tag := tag\<rparr>],
     p_tags := enter_tag tag (length (p_types s)) (p_tags s)\<rparr>)"
proof (cases "tag = []")
  case False
  then have t: "take (CC_MAX_IDENT - Suc 0) tag = tag" using assms by (auto simp: new_tag_def)
  show ?thesis using assms False t by (auto simp: tagged_type_def new_tag_def with_types_def type_alloc_def tags_install_def enter_tag_def)
qed (simp add: tagged_type_def with_types_def type_alloc_def enter_tag_def)

text \<open>The body of a new struct or union, up to its closing brace.\<close>

lemma reads_body:
  assumes ms: "list_all wf_decl ms" "length (members_of ms) \<le> CC_MAX_STRUCT_FIELDS" and at: "dtoks_at s (struct_toks tag ms)"
    and g: "new_tag tag (p_tags s)" "prims_ok (p_types s)"
    and t: "t = length (p_types s)"
  obtains acc st' where "adds_fields u t (members_of ms) (0, 1, 0) acc [] (p_types s @ [(struct_type u)\<lparr>ty_tag := tag\<rparr>]) st'"
    and "\<And>r. evs (\<lambda>n. bindE (finish_struct t u acc ((skip (length (struct_toks tag ms) - 1) s)\<lparr>p_types := st', p_tags := enter_tag tag t (p_tags s)\<rparr>)) (\<lambda>(u, s). Inr (t, s))) r \<Longrightarrow>
         evs (\<lambda>n. struct_body (struct_fields n) u s) r"
proof -
  let ?k = "if tag = [] then 0 else 1 :: nat" and ?l = "length (concat (map member_toks ms))"
  let ?st = "p_types s @ [(struct_type u)\<lparr>ty_tag := tag\<rparr>]" and ?g = "enter_tag tag t (p_tags s)"
  let ?s = "(skip (Suc ?k) s)\<lparr>p_types := ?st, p_tags := ?g\<rparr>"
  have a: "t_kind (p_cur (skip ?k s)) = T_LBRACE" "dtoks_at ?s (concat (map member_toks ms))" "next_kind ?l ?s = T_RBRACE"
    using at by (auto simp: struct_toks_def split: if_splits)
  have rt: "read_tag s = (tag, skip ?k s)"
    using at a(1) g(1) by (auto simp: struct_toks_def read_tag_def new_tag_def split: if_splits)
  have tt: "tagged_type tag (struct_type u) (skip ?k s) = Inr (t, (skip ?k s)\<lparr>p_types := ?st, p_tags := ?g\<rparr>)"
    using tagged_type_new [of tag "skip ?k s"] g(1) t by simp
  have inv: "fields_inv t [] (p_types ?s)"
    using g(2) t prims_ok_extended [OF g(2) extended_append] by (simp add: fields_inv_def field_table_def struct_type_def zero_type_def prims_ok_def)
  obtain acc st' where r: "evs (\<lambda>n. struct_fields n t u (0, 1, 0) ?s) (acc, built ?l st' ?s)" "adds_fields u t (members_of ms) (0, 1, 0) acc [] ?st st'"
    using reads_fields [OF ms(1) a(2,3) inv, of "(0, 1, 0)" u] ms(2) by auto
  have e: "built ?l st' ?s = (skip (length (struct_toks tag ms) - 1) s)\<lparr>p_types := st', p_tags := ?g\<rparr>"
    by (simp add: built_def struct_toks_def)
  have "evs (\<lambda>n. struct_body (struct_fields n) u s) q"
    if "evs (\<lambda>n. bindE (finish_struct t u acc ((skip (length (struct_toks tag ms) - 1) s)\<lparr>p_types := st', p_tags := ?g\<rparr>)) (\<lambda>(u, s). Inr (t, s))) q" for q
  proof -
    have "evs (\<lambda>n. bindE (struct_fields n t u (0, 1, 0) ?s) (\<lambda>(acc, s). bindE (finish_struct t u acc s) (\<lambda>(u, s). Inr (t, s)))) q"
      by (rule evs_bind [OF r(1)]) (use that e in simp)
    then show ?thesis using a(1) by (simp add: struct_body_def rt tt)
  qed
  then show thesis using that r(2) by blast
qed

lemma specifier_struct:
  assumes "t_kind (p_cur s) = T_KW T_KW_STRUCT" "evs (\<lambda>n. struct_body (struct_fields n) False (p_next s)) (t, s')"
    and "16 \<le> t" "t_kind (p_cur s') \<noteq> T_KW T_KW_INT"
  shows "evs (\<lambda>n. parse_type_spec n s) (t, s')"
proof -
  have m: "modified no_spec t = t" using assms(3) by (simp add: modified_def no_spec_def)
  have "evs (\<lambda>n. bindE (struct_body (struct_fields n) False (p_next s)) (\<lambda>(t, s). after_base no_spec t s)) ((Some t, no_spec), s')"
    by (rule evs_bind [OF assms(2)]) (use assms(4) m in \<open>simp add: after_base_def evs_const\<close>)
  then have "evs (\<lambda>n. type_spec_loop n no_spec s) ((Some t, no_spec), s')"
    using assms(1) by (intro evs_type_spec_Suc) (simp add: spec_round_def spec_flag_def spec_base_def)
  then show ?thesis unfolding parse_type_spec_def
    by (rule evs_bind) (simp add: finish_type_spec_def no_spec_def evs_const)
qed

lemma finish_struct_eq:
  assumes "t_kind (p_cur s) = T_RBRACE" "t < length (p_types s)"
  shows "finish_struct t False (off, m, n) s = Inr ((), (p_next s)\<lparr>p_types := (p_types s)[t := (p_types s ! t)\<lparr>nfields := word_of_nat n,
     ty_size := align_up off m, ty_align := m, is_complete := True\<rparr>]\<rparr>)"
  using assms by (simp add: finish_struct_def upd_type_def parse_expect_def Let_def)

text \<open>
  C10. The members of a struct are laid out correctly: reading the specifier of a new struct of at most 64 named members, declared with the keywords
  of the arithmetic types and \<^verbatim>\<open>void\<close> (\<^verbatim>\<open>c_specifiers\<close>) and declarators as in \<^verbatim>\<open>Decl_Sem\<close> (pointers, groups, non-empty arrays, functions), whose sizes add up to less than \<open>2 ^ 64\<close>,
  \<^verbatim>\<open>parse_type_spec\<close> returns (enough fuel gives a result) a
  complete struct type, entered under its tag, whose fields have the declared names and types in
  order, start at multiples of their alignment, do not overlap and end inside the struct, whose size is
  a multiple of its alignment; no older type is changed and nothing is reported. Members of struct, union, enum and typedef types,
  qualified members, bit-fields and anonymous members are not covered.
\<close>

theorem struct_layout_correct:
  assumes "types_ok (p_types s)" "list_all wf_decl ms" "length (members_of ms) \<le> CC_MAX_STRUCT_FIELDS" "room (map msize (members_of ms)) + 16 < 2 ^ 64"
    and "dtoks_at s (P (T_KW T_KW_STRUCT) # struct_toks tag ms)" "new_tag tag (p_tags s)"
    and "t_kind (p_cur (skip (Suc (length (struct_toks tag ms))) s)) \<noteq> T_KW T_KW_INT"
  shows "\<exists>t st' n. (\<forall>m \<ge> n. parse_type_spec m s
      = Inr (t, (skip (Suc (length (struct_toks tag ms))) s)\<lparr>p_types := st', p_tags := enter_tag tag t (p_tags s)\<rparr>))
    \<and> take (length (p_types s)) st' = p_types s \<and> laid_out st' t (members_of ms)"
proof -
  define t where "t = length (p_types s)"
  let ?l = "length (struct_toks tag ms)" and ?g = "enter_tag tag t (p_tags s)" and ?ob = "(struct_type False)\<lparr>ty_tag := tag\<rparr>"
  have ok: "prims_ok (p_types s)" using prims_ok_types_ok [OF assms(1)] .
  obtain acc st1 where a: "adds_fields False t (members_of ms) (0, 1, 0) acc [] (p_types s @ [?ob]) st1"
    and go: "\<And>r. evs (\<lambda>n. bindE (finish_struct t False acc ((skip (?l - 1) (p_next s))\<lparr>p_types := st1, p_tags := ?g\<rparr>)) (\<lambda>(u, s). Inr (t, s))) r \<Longrightarrow>
         evs (\<lambda>n. struct_body (struct_fields n) False (p_next s)) r"
    using reads_body [of ms "p_next s" tag t False thesis] assms ok by (auto simp: t_def)
  obtain off m n where acc: "acc = (off, m, n)" by (cases acc)
  define st2 where "st2 = st1[t := (st1 ! t)\<lparr>nfields := word_of_nat n, ty_size := align_up off m, ty_align := m, is_complete := True\<rparr>]"
  note a' = a [unfolded adds_fields_def]
  have t1: "t < length st1" "st1 ! t = ?ob\<lparr>ty_fields := ty_fields (st1 ! t)\<rparr>" using a' by (auto simp: t_def fields_inv_def)
  have rb: "t_kind (p_cur (skip (?l - 1) (p_next s))) = T_RBRACE" using assms(5) by (simp add: struct_toks_def split: if_splits)
  have nx: "p_next (skip (?l - 1) (p_next s)) = skip (Suc ?l) s" by (simp add: struct_toks_def)
  have "evs (\<lambda>n. struct_body (struct_fields n) False (p_next s)) (t, (skip (Suc ?l) s)\<lparr>p_types := st2, p_tags := ?g\<rparr>)"
    by (rule go) (use rb t1(1) nx in \<open>simp add: acc finish_struct_eq st2_def evs_const tags_types_swap\<close>)
  then have "evs (\<lambda>n. parse_type_spec n s) (t, (skip (Suc ?l) s)\<lparr>p_types := st2, p_tags := ?g\<rparr>)"
    by (rule specifier_struct [rotated]) (use assms(5,7) ok in \<open>simp_all add: t_def prims_ok_def\<close>)
  moreover have "take (length (p_types s)) st2 = p_types s"
    using a' t1(1) by (intro nth_equalityI) (auto simp: t_def st2_def same_on_def nth_append)
  moreover have "laid_out st2 t (members_of ms)"
  proof (rule laid_out_struct [OF _ _ assms(4,3)])
    have "same_on (- {t}) st1 st2" by (auto simp: st2_def same_on_def)
    then show "fields_inv t (with_offsets (members_of ms) (offsets False (0, 1, 0) (map msize (members_of ms)))) st2"
      by (rule fields_inv_same [rotated]) (use a' t1(1) in \<open>simp_all add: st2_def\<close>)
    show "acc_end False (0, 1, 0) (map msize (members_of ms)) = (off, m, n)" using a' acc by simp
    have "ty_kind (st1 ! t) = TY_STRUCT" using arg_cong [OF t1(2), of ty_kind] by (simp add: struct_type_def zero_type_def)
    then show "ty_kind (st2 ! t) = TY_STRUCT" using t1(1) by (simp add: st2_def)
  qed (use t1(1) in \<open>simp_all add: st2_def\<close>)
  ultimately show ?thesis unfolding evs_def by blast
qed

text \<open>The struct of \<^verbatim>\<open>struct p { char c; int *q[2], n; short int h; };\<close>.\<close>

definition demo_members :: "member_decl list" where
  "demo_members = [([T_KW_CHAR], [Dcl [] (Named (bytes_of ''c'')) []]),
     ([T_KW_INT], [Dcl [T_STAR] (Named (bytes_of ''q'')) [SArr 2], Dcl [] (Named (bytes_of ''n'')) []]),
     ([T_KW_SHORT, T_KW_INT], [Dcl [] (Named (bytes_of ''h'')) []])]"

definition demo_struct_parser :: parser where
  "demo_struct_parser = demo_parser\<lparr>g_lx := lex_next (start_lexer (bytes_of ''struct p { char c; int *q[2], n; short int h; };''))\<rparr>"

lemma demo_struct_tokens:
  "dtoks_at demo_struct_parser (P (T_KW T_KW_STRUCT) # struct_toks (bytes_of ''p'') demo_members)"
  "t_kind (p_cur (skip (Suc (length (struct_toks (bytes_of ''p'') demo_members))) demo_struct_parser)) \<in> declarator_end"
proof -
  let ?ts = "P (T_KW T_KW_STRUCT) # struct_toks (bytes_of ''p'') demo_members"
  have "lexer_at (lex_next (start_lexer (bytes_of ''struct p { char c; int *q[2], n; short int h; };''))) ?ts" by code_simp
  then show "dtoks_at demo_struct_parser ?ts" "t_kind (p_cur (skip (Suc (length (struct_toks (bytes_of ''p'') demo_members))) demo_struct_parser)) \<in> declarator_end"
    using lexer_at_parser [of demo_struct_parser ?ts] by (simp_all add: demo_struct_parser_def)
qed

lemma demo_members_of:
  "members_of demo_members = [(bytes_of ''c'', [], ty_char), (bytes_of ''q'', [LArr 2, LPtr], ty_int), (bytes_of ''n'', [], ty_int), (bytes_of ''h'', [], ty_short)]"
  by code_simp

lemma demo_members_room: "room (map msize (members_of demo_members)) = 38"
  by (simp add: demo_members_of room_def msize_def prim_table_def)

lemma demo_members_ok: "list_all wf_decl demo_members" "length (members_of demo_members) \<le> CC_MAX_STRUCT_FIELDS" "new_tag (bytes_of ''p'') []"
  by code_simp+

theorem struct_layout_correct_witness:
  "\<exists>t st' n. (\<forall>m \<ge> n. \<exists>s'. parse_type_spec m demo_struct_parser = Inr (t, s') \<and> p_types s' = st' \<and> p_tags s' = [\<lparr>tag_name = bytes_of ''p'', tag_type = t\<rparr>])
     \<and> laid_out st' t [(bytes_of ''c'', [], ty_char), (bytes_of ''q'', [LArr 2, LPtr], ty_int), (bytes_of ''n'', [], ty_int), (bytes_of ''h'', [], ty_short)]"
proof -
  have t: "p_types demo_struct_parser = types0" "p_tags demo_struct_parser = []" by (simp_all add: demo_struct_parser_def demo_parser_def)
  have k: "t_kind (p_cur (skip (Suc (length (struct_toks (bytes_of ''p'') demo_members))) demo_struct_parser)) \<noteq> T_KW T_KW_INT"
    using demo_struct_tokens(2) by (auto simp: declarator_end_def)
  obtain t st' n where "\<forall>m \<ge> n. parse_type_spec m demo_struct_parser
      = Inr (t, (skip (Suc (length (struct_toks (bytes_of ''p'') demo_members))) demo_struct_parser)\<lparr>p_types := st', p_tags := enter_tag (bytes_of ''p'') t []\<rparr>)"
    "laid_out st' t (members_of demo_members)"
    using struct_layout_correct [OF _ demo_members_ok(1,2) _ demo_struct_tokens(1) _ k] types_ok_types0 demo_members_ok(3) unfolding t
    by (auto simp: demo_members_room)
  moreover have "enter_tag (bytes_of ''p'') t [] = [\<lparr>tag_name = bytes_of ''p'', tag_type = t\<rparr>]" by (simp add: enter_tag_def bytes_of_def)
  ultimately show ?thesis unfolding demo_members_of by (intro exI [of _ t] exI [of _ st'] exI [of _ n]) simp
qed

end
