(* ===== verification/Decl_Errors.thy ===== *)
theory Decl_Errors
  imports Decl_Struct
begin

text \<open>
  Where the parser of types and declarators departs from C: inputs on which it does not return, follows
  a null pointer, or builds another type than the one declared.
\<close>

subsection \<open>The end of the input\<close>

definition lexer_end :: "lexer \<Rightarrow> bool" where
  "lexer_end lx \<longleftrightarrow> t_kind (lx_cur lx) = T_EOF \<and> rest lx = [] \<and> (has_next lx \<longrightarrow> t_kind (lx_next lx) = T_EOF)"

definition at_end :: "parser \<Rightarrow> bool" where
  "at_end s \<longleftrightarrow> lexer_end (g_lx s)"

lemma lexer_end_next: "lexer_end lx \<Longrightarrow> lexer_end (lex_next lx)"
proof -
  assume e: "lexer_end lx"
  show ?thesis
  proof (cases "has_next lx")
    case True
    let ?lx = "lx\<lparr>lx_cur := lx_next lx, has_next := False\<rparr>"
    have "rest ?lx = []" using e by (simp add: lexer_end_def rest_def)
    then obtain t where "lex_one ?lx = (t, ?lx)" "t_kind t = T_EOF" using lex_one_end by blast
    then show ?thesis using e True by (simp add: lex_next_def lex_peek_def lexer_end_def rest_def)
  next
    case False
    obtain t where "lex_one lx = (t, lx)" "t_kind t = T_EOF" using e lex_one_end by (auto simp: lexer_end_def)
    then show ?thesis using e False by (simp add: lex_next_def lexer_end_def rest_def)
  qed
qed

lemma at_end_simps [simp]:
  "at_end s \<Longrightarrow> at_end (p_next s)" "at_end (parse_error s) = at_end s" "at_end (s\<lparr>p_types := st\<rparr>) = at_end s"
  "at_end (s\<lparr>g_lx := (g_lx s)\<lparr>lx_diag := d\<rparr>\<rparr>) = at_end s"
proof -
  show "at_end s \<Longrightarrow> at_end (p_next s)" by (simp add: at_end_def p_next_def lexer_end_next)
qed (simp_all add: at_end_def parse_error_def lexer_end_def rest_def)

lemma at_end_expect [simp]: "at_end s \<Longrightarrow> at_end (parse_expect k s)"
  by (simp add: parse_expect_def)

lemma at_end_cur: "at_end s \<Longrightarrow> t_kind (p_cur s) = T_EOF"
  by (simp add: at_end_def lexer_end_def p_cur_def)

text \<open>At the end of the input every part of a declaration is empty.\<close>

definition empty_at :: "'a parsed \<Rightarrow> 'a \<times> parser \<Rightarrow> bool" where
  "empty_at r e \<longleftrightarrow> r = Inl NoFuel \<or> r = Inr e"

lemma decl_spec_end:
  assumes "at_end s"
  shows "empty_at (parse_decl_spec n s) ((ty_int, no_storage), s)"
proof -
  note k = at_end_cur [OF assms]
  have a: "empty_at (storage_loop n no_storage s) (no_storage, s)" by (cases n) (simp_all add: empty_at_def storage_flag_def k)
  have "empty_at (type_spec_loop n no_spec s) ((None, no_spec), s)"
    by (cases n) (simp_all add: empty_at_def type_spec_loop.simps [of 0] decl_fuel_Suc spec_round_def k)
  then have "empty_at (parse_type_spec n s) (ty_int, s)"
    by (auto simp: empty_at_def parse_type_spec_def finish_type_spec_def no_spec_def implicit_int_def)
  then show ?thesis using a by (auto simp: empty_at_def parse_decl_spec_def)
qed

lemma declarator_end_of_input:
  assumes "at_end s"
  shows "empty_at (parse_declarator n (Some b) s) ((Some b, []), s)"
proof -
  note k = at_end_cur [OF assms]
  have a: "empty_at (stars m (Some b) s) (Some b, s)" for m by (cases m) (simp_all add: empty_at_def accept_def k)
  have sx: "empty_at (parse_type_suffix m (Some b) s) (Some b, s)" for m
    by (cases m) (simp_all add: empty_at_def parse_type_suffix.simps [of 0] decl_fuel_Suc suffix_round_def k)
  have dr: "empty_at (declarator_round (parse_declarator m) (parse_type_suffix m) (splice m) (Some b) s) ((Some b, []), s)" for m
    using k sx [of m] by (auto simp: empty_at_def declarator_round_def)
  have "empty_at (parse_declarator (Suc m) (Some b) s) ((Some b, []), s)" for m
    using a [of m] dr [of m] unfolding decl_fuel_Suc by (auto simp: empty_at_def)
  then show ?thesis by (cases n) (auto simp: empty_at_def parse_declarator.simps [of 0])
qed

lemma add_field_end:
  assumes "add_field t u i x acc s = (acc', s')" "at_end s"
  shows "at_end s'"
proof -
  have z: "p_sizeof q r = (sz, r') \<Longrightarrow> at_end r' = at_end r" for q r sz r' by (auto simp: p_sizeof_def split: prod.splits)
  obtain off m n where a: "acc = (off, m, n)" by (cases acc)
  show ?thesis using assms unfolding a
    by (cases u; cases "n < CC_MAX_STRUCT_FIELDS") (auto simp: add_field_def upd_type_def Let_def dest: z split: prod.splits)
qed

lemma members_end:
  assumes "at_end s"
  shows "struct_members n t u b acc s = Inl NoFuel \<or> (\<exists>acc' s'. struct_members n t u b acc s = Inr (acc', s') \<and> at_end s')"
proof (cases n)
  case (Suc m)
  consider "parse_declarator m (Some b) s = Inl NoFuel" | "parse_declarator m (Some b) s = Inr ((Some b, []), s)"
    using declarator_end_of_input [OF assms, of m b] by (auto simp: empty_at_def)
  then show ?thesis
  proof cases
    case 2
    obtain acc' s' where f: "add_field t u b [] acc s = (acc', s')" by (rule prod.exhaust)
    have "at_end s'" by (rule add_field_end [OF f assms])
    then have "struct_members n t u b acc s = Inr (acc', s')" using 2 Suc f at_end_cur by (simp add: decl_fuel_Suc members_round_def accept_def)
    then show ?thesis using \<open>at_end s'\<close> by blast
  qed (simp add: Suc decl_fuel_Suc members_round_def)
qed (simp add: struct_members.simps [of 0])

lemma fields_never_end: "at_end s \<Longrightarrow> struct_fields n t u acc s = Inl NoFuel"
proof (induction n arbitrary: acc s)
  case (Suc n)
  note k = at_end_cur [OF Suc.prems]
  consider "parse_decl_spec n s = Inl NoFuel" | "parse_decl_spec n s = Inr ((ty_int, no_storage), s)"
    using decl_spec_end [OF Suc.prems, of n] by (auto simp: empty_at_def)
  then show ?case
  proof cases
    case 2
    then show ?thesis using members_end [OF Suc.prems, of n t u ty_int acc] k
      by (auto simp: decl_fuel_Suc fields_body_def Suc.IH)
  qed (simp add: decl_fuel_Suc fields_body_def k)
qed (simp add: struct_fields.simps [of 0])

text \<open>
  C36. An unterminated struct or union hangs the compiler: when the input ends behind the opening brace of
  an untagged struct or union, \<^verbatim>\<open>parse_type_spec\<close> never returns, whatever fuel it gets: the loop over the members
  reads an empty member, reports the missing semicolon and goes on at the end of the input.
\<close>

theorem unterminated_struct_hangs:
  assumes "t_kind (p_cur s) \<in> {T_KW T_KW_STRUCT, T_KW T_KW_UNION}" "t_kind (p_cur (p_next s)) = T_LBRACE" "at_end (p_next (p_next s))"
  shows "parse_type_spec n s = Inl NoFuel"
proof (cases n)
  case (Suc m)
  have "struct_body (struct_fields m) u (p_next s) = Inl NoFuel" for u
    using assms(2) fields_never_end [of "(p_next (p_next s))\<lparr>p_types := st\<rparr>" for st] assms(3)
    by (simp add: struct_body_def read_tag_def tagged_type_def with_types_def type_alloc_def)
  then show ?thesis using assms(1) Suc
    by (auto simp: parse_type_spec_def decl_fuel_Suc spec_round_def spec_flag_def spec_base_def)
qed (simp add: parse_type_spec_def type_spec_loop.simps [of 0])

theorem unterminated_struct_hangs_witness:
  "\<forall>n. parse_type_spec n (demo_parser\<lparr>g_lx := lex_next (start_lexer (bytes_of ''struct {''))\<rparr>) = Inl NoFuel"
proof
  fix n
  let ?lx = "lex_next (start_lexer (bytes_of ''struct {''))"
  have k: "t_kind (lx_cur ?lx) = T_KW T_KW_STRUCT" "t_kind (lx_cur (lex_next ?lx)) = T_LBRACE" "lexer_end (lex_next (lex_next ?lx))" by code_simp+
  show "parse_type_spec n (demo_parser\<lparr>g_lx := ?lx\<rparr>) = Inl NoFuel"
    by (rule unterminated_struct_hangs) (use k in \<open>simp_all add: p_cur_def p_next_def at_end_def\<close>)
qed

subsection \<open>Other departures\<close>

text \<open>\<^verbatim>\<open>long double\<close> is read as \<^verbatim>\<open>long\<close>: the modifiers are applied to the base type that has already used them.\<close>

theorem long_double_is_long:
  assumes "dtoks_at s [P (T_KW T_KW_LONG), P (T_KW T_KW_DOUBLE)]" "t_kind (p_cur (skip 2 s)) \<noteq> T_KW T_KW_INT"
  shows "\<exists>n. \<forall>m \<ge> n. parse_type_spec m s = Inr (ty_long, skip 2 s)"
proof -
  let ?f = "no_spec\<lparr>sp_long := True\<rparr>"
  have k: "dtoks_at s (map (\<lambda>k. P (T_KW k)) [T_KW_LONG])" "t_kind (p_cur (skip (length [T_KW_LONG]) s)) = T_KW T_KW_DOUBLE" using assms(1) by simp_all
  have "evs (\<lambda>n. type_spec_loop n ?f (skip (length [T_KW_LONG]) s)) ((Some (modified ?f ty_ldouble), ?f), skip 2 s)"
    using spec_last [OF k(2), of ?f ty_ldouble] assms(2) by (simp add: spec_flag_def spec_base_def numeral_2_eq_2)
  then have "evs (\<lambda>n. type_spec_loop n no_spec s) ((Some ty_long, ?f), skip 2 s)"
    by (intro spec_flags [OF k(1), of no_spec ?f]) (simp_all add: spec_flag_def modified_def no_spec_def)
  then have "evs (\<lambda>n. parse_type_spec n s) (ty_long, skip 2 s)" unfolding parse_type_spec_def
    by (rule evs_bind) (simp add: finish_type_spec_def no_spec_def evs_const)
  then show ?thesis unfolding evs_def .
qed

text \<open>
  An array in a group without a pointer, as in \<^verbatim>\<open>int (a[3])\<close>, is built on the null base of the group:
  \<^verbatim>\<open>type_make_array\<close> follows the null pointer.
\<close>

lemma array_on_null:
  assumes "dtoks_at s (Id x # stoks (SArr k))" "k < 2 ^ 31" "prims_ok (p_types s)" "t_kind (p_cur (skip 4 s)) = T_RPAREN"
  shows "\<exists>n. \<forall>m \<ge> n. parse_declarator m None s = Inl NullDeref"
proof -
  let ?s1 = "p_next s" and ?s4 = "skip 4 s"
  have at: "t_kind (p_cur s) = T_IDENT" "t_kind (p_cur ?s1) = T_LBRACKET" "tok_is (p_cur (p_next ?s1)) (Num k)" "t_kind (p_cur (p_next (p_next ?s1))) = T_RBRACKET"
    "p_next (p_next (p_next ?s1)) = ?s4" using assms(1) by (simp_all add: numeral_eq_Suc)
  obtain a where a: "\<forall>m \<ge> a. parse_const_expr (type_name m) m (p_next ?s1) = Inr (uint k, p_next (p_next ?s1))"
    using evs_bound [of "p_next ?s1" k type_name] assms(2,3) at by (auto simp: evs_def)
  obtain b where b: "\<forall>m \<ge> b. parse_type_suffix m None ?s4 = Inr (None, ?s4)" using suffix_stop [of ?s4 None] assms(4) by (auto simp: evs_def)
  have sf: "parse_type_suffix (Suc m) None ?s1 = Inl NullDeref" if "max a b \<le> m" for m
    using at a b that by (simp add: decl_fuel_Suc suffix_round_def Let_def parse_expect_def make_array_def)
  have "parse_declarator m None s = Inl NullDeref" if m: "Suc (Suc (max a b)) \<le> m" for m
  proof -
    obtain i where i: "m = Suc (Suc i)" "max a b \<le> i" using m by (cases m rule: nat.exhaust; cases "m - 1") auto
    have st: "stars (Suc i) None s = Inr (None, s)" using at(1) by (simp add: accept_def)
    show ?thesis using sf [OF i(2)] at(1,2) st unfolding i(1) by (simp only: decl_fuel_Suc bindE_simps prod.case declarator_round_def) simp
  qed
  then show ?thesis by blast
qed

end
