(* ===== verification/Pp_Macro.thy ===== *)
theory Pp_Macro
  imports Pp_Expr Symtab
begin

text \<open>
  Macro expansion in the preprocessor, \<^verbatim>\<open>src/back/pp.c\<close>: the table of macros, reading the arguments of an
  invocation, substituting them in a body with the operators \<^verbatim>\<open>#\<close> and \<^verbatim>\<open>##\<close>, and expanding a line in
  repeated passes. A line is a list of bytes, what a character array holds before its NUL; a
  position in it is the list of the bytes from there on. The fixed buffers of the code are bounds
  on the lengths of the lists. A copy whose computed length wraps below zero leaves its buffer: this
  is the stop \<open>PpOverflow\<close>. The depth of nested argument expansion, which the code counts up to 32, is
  counted down.
\<close>

datatype pp_stop = PpFatal | PpOverflow | PpNoFuel

record macro_t =
  m_name :: "u8 list"
  is_function_like :: bool
  m_is_varargs :: bool
  m_params :: "u8 list list"
  m_body :: "u8 list"
  m_active :: bool

definition CC_MAX_MACRO_ARGS :: nat where "CC_MAX_MACRO_ARGS = 16"

definition max_args :: nat where "max_args = CC_MAX_MACRO_ARGS + 8"

definition MAX_MACROS :: nat where "MAX_MACROS = 4096"

abbreviation (input) qc :: "char \<Rightarrow> u8" where "qc c \<equiv> of_char c"

definition cstr :: "u8 list \<Rightarrow> u8 list" where
  "cstr bs = takeWhile (\<lambda>b. b \<noteq> 0) bs"

definition ident_start :: "u8 \<Rightarrow> bool" where
  "ident_start b \<longleftrightarrow> is_alpha (uint b) \<or> b = qc CHR ''_''"

definition blank :: "u8 \<Rightarrow> bool" where
  "blank b \<longleftrightarrow> b = qc CHR '' '' \<or> b = 9"

definition space :: "u8 \<Rightarrow> bool" where
  "space b \<longleftrightarrow> is_space (uint b)"

text \<open>A name as it is copied to a buffer of \<^verbatim>\<open>CC_MAX_IDENT\<close> bytes, and what is left behind it.\<close>

definition take_name :: "u8 list \<Rightarrow> u8 list" where
  "take_name s = take (CC_MAX_IDENT - 1) (takeWhile ident_char s)"

definition after_name :: "u8 list \<Rightarrow> u8 list" where
  "after_name s = drop (length (take_name s)) s"

definition find_macro :: "macro_t list \<Rightarrow> u8 list \<Rightarrow> nat option" where
  "find_macro ms name = find_first ms (\<lambda>m. m_active m \<and> m_name m = name)"

text \<open>\<^verbatim>\<open>define_macro\<close>, for the macros of the command line and the predefined ones.\<close>

definition define_macro :: "u8 list \<Rightarrow> macro_t list \<Rightarrow> pp_stop + macro_t list" where
  "define_macro spec ms =
     (let name = takeWhile (\<lambda>b. b \<noteq> qc CHR ''='') spec; body = drop (length name + 1) spec;
          name = take (CC_MAX_IDENT - 1) name; body = take 1023 body
      in case find_macro ms name of
           Some i \<Rightarrow> Inr (ms[i := (ms ! i)\<lparr>m_body := body, is_function_like := False\<rparr>])
         | None \<Rightarrow>
             if MAX_MACROS \<le> length ms then Inl PpFatal
             else Inr (ms @ [\<lparr>m_name = name, is_function_like = False, m_is_varargs = False, m_params = [], m_body = body, m_active = True\<rparr>]))"

subsection \<open>Arguments\<close>

text \<open>
  The state of the scan: the finished arguments, their number, the bytes of the current one, the
  depth of the brackets, the quote character of the literal it is in.
\<close>

record arg_scan =
  sc_args :: "u8 list list"
  sc_n :: nat
  sc_cur :: "u8 list"
  sc_depth :: nat
  sc_quote :: "u8 option"
  sc_any :: bool

definition trim_blanks :: "u8 list \<Rightarrow> u8 list" where
  "trim_blanks bs = rev (dropWhile blank (rev bs))"

definition arg_push :: "nat \<Rightarrow> u8 list \<Rightarrow> arg_scan \<Rightarrow> arg_scan" where
  "arg_push room bs a = (if sc_n a < max_args \<and> length (sc_cur a) < room then a\<lparr>sc_cur := sc_cur a @ bs\<rparr> else a)"

definition arg_finish :: "arg_scan \<Rightarrow> arg_scan" where
  "arg_finish a = (if sc_n a < max_args then a\<lparr>sc_args := sc_args a @ [cstr (trim_blanks (sc_cur a))]\<rparr> else a)"

definition arg_next :: "arg_scan \<Rightarrow> arg_scan" where
  "arg_next a = (arg_finish a)\<lparr>sc_n := sc_n a + 1, sc_cur := [], sc_any := False\<rparr>"

definition arg_end :: "arg_scan \<Rightarrow> u8 list list \<times> nat" where
  "arg_end a =
     (if (sc_any a \<or> 0 < sc_n a) \<and> sc_n a < max_args then (sc_args (arg_finish a), sc_n a + 1) else (sc_args a, sc_n a))"

definition arg_plain :: "u8 \<Rightarrow> arg_scan \<Rightarrow> arg_scan" where
  "arg_plain c a =
     (let c' = (if space c then qc CHR '' '' else c); a = (if space c then a else a\<lparr>sc_any := True\<rparr>)
      in if c' \<noteq> qc CHR '' '' \<or> sc_cur a \<noteq> [] \<and> sc_n a < max_args \<and> last (sc_cur a) \<noteq> qc CHR '' ''
         then arg_push 511 [c'] a else a)"

definition close_quote :: "u8 \<Rightarrow> u8 \<Rightarrow> arg_scan \<Rightarrow> arg_scan" where
  "close_quote c q a = (if c = q then a\<lparr>sc_quote := None\<rparr> else a)"

text \<open>\<^verbatim>\<open>read_macro_args\<close> behind its opening parenthesis: the arguments, their number, the text behind; \<^const>\<open>None\<close> without an end.\<close>

fun args_loop :: "arg_scan \<Rightarrow> u8 list \<Rightarrow> (u8 list list \<times> nat \<times> u8 list) option" where
  "args_loop a [] = None"
| "args_loop a (c # cs) =
     (case sc_quote a of
        Some q \<Rightarrow>
          (let a = a\<lparr>sc_any := True\<rparr>
           in case cs of
                e # es \<Rightarrow>
                  if c = 92 then args_loop (arg_push 510 [c, e] a) es
                  else args_loop (arg_push 511 [c] (close_quote c q a)) cs
              | [] \<Rightarrow> args_loop (arg_push 511 [c] (close_quote c q a)) cs)
      | None \<Rightarrow>
          if c = 34 \<or> c = 39 then args_loop (arg_push 511 [c] (a\<lparr>sc_quote := Some c, sc_any := True\<rparr>)) cs
          else if c \<in> {qc CHR ''('', qc CHR ''['', qc CHR ''{''}
          then args_loop (arg_push 511 [c] (a\<lparr>sc_depth := sc_depth a + 1, sc_any := True\<rparr>)) cs
          else if c \<in> {qc CHR '')'', qc CHR '']'', qc CHR ''}''}
          then (if sc_depth a = 1 then (case arg_end a of (args, n) \<Rightarrow> Some (args, n, cs))
                else args_loop (arg_push 511 [c] (a\<lparr>sc_depth := sc_depth a - 1, sc_any := True\<rparr>)) cs)
          else if c = qc CHR '','' \<and> sc_depth a = 1 then args_loop (arg_next a) cs
          else args_loop (arg_plain c a) cs)"

definition read_macro_args :: "u8 list \<Rightarrow> (u8 list list \<times> nat \<times> u8 list) option" where
  "read_macro_args s =
     (case s of
        [] \<Rightarrow> None
      | c # cs \<Rightarrow>
          if c \<noteq> qc CHR ''('' then None
          else args_loop \<lparr>sc_args = [], sc_n = 0, sc_cur = [], sc_depth = 1, sc_quote = None, sc_any = False\<rparr> cs)"

subsection \<open>Substitution\<close>

text \<open>
  The state of a substitution: the output, the arguments that were expanded before (\<^verbatim>\<open>ready\<close>), the expanded
  variable arguments and the diagnostics. Copies are clipped to the capacity of the output.
\<close>

record subst =
  su_out :: "u8 list"
  su_ready :: "nat \<Rightarrow> u8 list option"
  su_va :: "u8 list option"
  su_diag :: diag

type_synonym expander = "u8 list \<Rightarrow> diag \<Rightarrow> pp_stop + u8 list \<times> diag"

definition prescan_argument :: "expander \<Rightarrow> u8 list list \<Rightarrow> nat \<Rightarrow> subst \<Rightarrow> pp_stop + u8 list \<times> subst" where
  "prescan_argument ex args i s =
     (case su_ready s i of
        Some v \<Rightarrow> Inr (v, s)
      | None \<Rightarrow> bindE (ex (args ! i) (su_diag s)) (\<lambda>(v, d). Inr (cstr v, s\<lparr>su_ready := (su_ready s)(i := Some (cstr v)), su_diag := d\<rparr>)))"

fun join_args :: "u8 list \<Rightarrow> u8 list list \<Rightarrow> u8 list" where
  "join_args acc [] = acc"
| "join_args acc (a # as) =
     (let acc = (if 0 < length acc \<and> length acc + 2 < 2048 then acc @ bytes_of '', '' else acc);
          n = (if 2048 \<le> length acc + length a then 2047 - length acc else length a)
      in join_args (acc @ take n a) as)"

fun join_expanded :: "expander \<Rightarrow> u8 list list \<Rightarrow> bool \<Rightarrow> u8 list \<Rightarrow> nat list \<Rightarrow> subst \<Rightarrow> pp_stop + u8 list \<times> subst" where
  "join_expanded ex args first acc [] s = Inr (acc, s)"
| "join_expanded ex args first acc (i # is) s =
     bindE (prescan_argument ex args i s)
       (\<lambda>(v, s).
          let acc = (if \<not> first \<and> length acc + 2 < 2048 then acc @ bytes_of '', '' else acc);
              n = (if 2048 \<le> length acc + length v then 2047 - length acc else length v)
          in join_expanded ex args False (acc @ take n v) is s)"

definition append_clip :: "nat \<Rightarrow> u8 list \<Rightarrow> subst \<Rightarrow> pp_stop + subst" where
  "append_clip cap v s =
     (let n = length (su_out s)
      in if n + length v < cap then Inr (s\<lparr>su_out := su_out s @ v\<rparr>)
         else if cap \<le> n then Inl PpOverflow
         else Inr (s\<lparr>su_out := su_out s @ take (cap - 1 - n) v\<rparr>))"

text \<open>The bytes of a \<^verbatim>\<open>#\<close> operand, with quotes and backslashes escaped; the flag says that the output was full.\<close>

fun stringize :: "nat \<Rightarrow> u8 list \<Rightarrow> u8 list \<Rightarrow> u8 list \<times> bool" where
  "stringize cap out [] = (out @ [34], False)"
| "stringize cap out (q # qs) =
     (let esc = q = 34 \<or> q = 92
      in if esc \<and> cap \<le> length out + 3 then (out, True)
         else let out = (if esc then out @ [92] else out)
              in if cap \<le> length out + 2 then (out, True) else stringize cap (out @ [q]) qs)"

definition va_name :: "u8 list" where "va_name = bytes_of ''__VA_ARGS__''"

definition param_index :: "macro_t \<Rightarrow> u8 list \<Rightarrow> nat option" where
  "param_index m name = find_first (m_params m) (\<lambda>p. p = name)"

text \<open>Whether the bytes before a position end in \<^verbatim>\<open>##\<close> and blanks, and whether those behind it start so.\<close>

definition pasted_before :: "u8 list \<Rightarrow> bool" where
  "pasted_before pre = (take 2 (dropWhile space pre) = [qc CHR ''#'', qc CHR ''#''])"

definition pasted_after :: "u8 list \<Rightarrow> bool" where
  "pasted_after s = (take 2 (dropWhile space s) = [qc CHR ''#'', qc CHR ''#''])"

definition hash_value :: "macro_t \<Rightarrow> u8 list list \<Rightarrow> nat \<Rightarrow> u8 list \<Rightarrow> u8 list \<Rightarrow> u8 list option" where
  "hash_value m args nargs va name =
     (if name = va_name \<and> m_is_varargs m then Some va
      else map_option (\<lambda>i. if i < nargs then args ! i else []) (param_index m name))"

text \<open>The value of an identifier of the body.\<close>

definition ident_value :: "expander \<Rightarrow> macro_t \<Rightarrow> u8 list list \<Rightarrow> nat \<Rightarrow> u8 list \<Rightarrow> bool \<Rightarrow> u8 list \<Rightarrow> subst \<Rightarrow> pp_stop + u8 list option \<times> subst" where
  "ident_value ex m args nargs va pasted name s =
     (if m_is_varargs m \<and> name = va_name
      then (if pasted then Inr (Some va, s)
            else case su_va s of
              Some v \<Rightarrow> Inr (Some v, s)
            | None \<Rightarrow>
                bindE (join_expanded ex args True [] [length (m_params m)..<nargs] s)
                  (\<lambda>(v, s). Inr (Some v, s\<lparr>su_va := Some v\<rparr>)))
      else (case param_index m name of
              None \<Rightarrow> Inr (None, s)
            | Some i \<Rightarrow>
                if nargs \<le> i then Inr (Some [], s)
                else if pasted then Inr (Some (args ! i), s)
                else bindE (prescan_argument ex args i s) (\<lambda>(v, s). Inr (Some v, s))))"

text \<open>
  The four cases of the loop of \<^verbatim>\<open>subst_macro_body\<close>, on the reversed bytes before the position and those from it on.
  The result is the text that is left; \<^const>\<open>None\<close> is the early return with a full output.
\<close>

definition subst_hash :: "macro_t \<Rightarrow> u8 list list \<Rightarrow> nat \<Rightarrow> u8 list \<Rightarrow> nat \<Rightarrow> u8 list \<Rightarrow> subst \<Rightarrow> u8 list option \<times> subst" where
  "subst_hash m args nargs va cap r s =
     (let name = take_name r; out = su_out s
      in case hash_value m args nargs va name of
           Some v \<Rightarrow>
             if cap \<le> length out + 2 then (None, s)
             else (case stringize cap (out @ [34]) v of (out, full) \<Rightarrow> (if full then None else Some (after_name r), s\<lparr>su_out := out\<rparr>))
         | None \<Rightarrow>
             (Some (after_name r), if length out + 1 + length name < cap then s\<lparr>su_out := out @ qc CHR ''#'' # name\<rparr> else s))"

definition subst_paste :: "macro_t \<Rightarrow> u8 list \<Rightarrow> nat \<Rightarrow> u8 list \<Rightarrow> subst \<Rightarrow> pp_stop + u8 list \<times> subst" where
  "subst_paste m va cap r s =
     (let r = dropWhile blank r; out = su_out s
      in if m_is_varargs m \<and> take 11 r = va_name
         then (let kept = trim_blanks out;
                   s = (if kept \<noteq> [] \<and> last kept = qc CHR '','' \<and> va = [] then s\<lparr>su_out := butlast kept\<rparr> else s)
               in bindE (if va \<noteq> [] then append_clip cap va s else Inr s) (\<lambda>s. Inr (drop 11 r, s)))
         else Inr (r, s\<lparr>su_out := rev (dropWhile space (rev out))\<rparr>))"

definition subst_ident :: "expander \<Rightarrow> macro_t \<Rightarrow> u8 list list \<Rightarrow> nat \<Rightarrow> u8 list \<Rightarrow> nat \<Rightarrow> u8 list \<Rightarrow> u8 list \<Rightarrow> subst \<Rightarrow> pp_stop + subst" where
  "subst_ident ex m args nargs va cap pre r s =
     (let name = take_name r; pasted = pasted_before pre \<or> pasted_after (after_name r)
      in bindE (ident_value ex m args nargs va pasted name s)
           (\<lambda>(v, s). case v of
              Some v \<Rightarrow> append_clip cap v s
            | None \<Rightarrow> Inr (if length (su_out s) + length name < cap then s\<lparr>su_out := su_out s @ name\<rparr> else s)))"

definition subst_char :: "nat \<Rightarrow> u8 \<Rightarrow> subst \<Rightarrow> subst" where
  "subst_char cap c s = (if length (su_out s) + 1 < cap then s\<lparr>su_out := su_out s @ [c]\<rparr> else s)"

definition consumed :: "u8 list \<Rightarrow> u8 list \<Rightarrow> u8 list" where
  "consumed r r' = rev (take (length r - length r') r)"

lemma after_name_less: "ident_char c \<Longrightarrow> length (after_name (c # r)) < length (c # r)"
  by (simp add: after_name_def take_name_def CC_MAX_IDENT_def)

lemma after_name_le: "length (after_name r) \<le> length r"
  by (simp add: after_name_def)

lemma ident_start_char: "ident_start c \<Longrightarrow> ident_char c"
  by (auto simp: ident_start_def ident_char_def is_alnum_def)

lemma dropWhile_le: "length (dropWhile P xs) \<le> length xs"
  by (rule length_dropWhile_le)

lemma subst_hash_shorter: "subst_hash m args nargs va cap r s = (Some r', s') \<Longrightarrow> length r' \<le> length r"
  using after_name_le [of r] by (auto simp: subst_hash_def Let_def split: option.splits if_splits prod.splits)

lemma subst_paste_shorter: "subst_paste m va cap r s = Inr (r', s') \<Longrightarrow> length r' \<le> length r"
  using dropWhile_le [of blank r] by (auto simp: subst_paste_def Let_def bindE_eq_Inr split: if_splits)

function subst_loop :: "expander \<Rightarrow> macro_t \<Rightarrow> u8 list list \<Rightarrow> nat \<Rightarrow> u8 list \<Rightarrow> nat \<Rightarrow> u8 list \<Rightarrow> u8 list \<Rightarrow> subst \<Rightarrow> pp_stop + subst" where
  "subst_loop ex m args nargs va cap pre [] s = Inr s"
| "subst_loop ex m args nargs va cap pre (c # r) s =
     (if c = qc CHR ''#'' \<and> r \<noteq> [] \<and> ident_start (hd r)
      then (case subst_hash m args nargs va cap r s of
              (None, s) \<Rightarrow> Inr s
            | (Some r', s) \<Rightarrow> subst_loop ex m args nargs va cap (consumed (c # r) r' @ pre) r' s)
      else if c = qc CHR ''#'' \<and> r \<noteq> [] \<and> hd r = qc CHR ''#''
      then (case subst_paste m va cap (tl r) s of
              Inl e \<Rightarrow> Inl e
            | Inr (r', s) \<Rightarrow> subst_loop ex m args nargs va cap (consumed (c # r) r' @ pre) r' s)
      else if ident_start c
      then (case subst_ident ex m args nargs va cap pre (c # r) s of
              Inl e \<Rightarrow> Inl e
            | Inr s \<Rightarrow> subst_loop ex m args nargs va cap (consumed (c # r) (after_name (c # r)) @ pre) (after_name (c # r)) s)
      else subst_loop ex m args nargs va cap (c # pre) r (subst_char cap c s))"
  by pat_completeness auto
termination
proof (relation "measure (\<lambda>(ex, m, args, nargs, va, cap, pre, r, s). length r)", goal_cases)
  case (2 ex m args nargs va cap pre c r s x s' r')
  then show ?case using subst_hash_shorter [of m args nargs va cap r s r' s'] by simp
next
  case (3 ex m args nargs va cap pre c r s x r' s')
  then show ?case using subst_paste_shorter [of m va cap "tl r" s r' s'] by (cases r) auto
next
  case (4 ex m args nargs va cap pre c r s s')
  then show ?case using after_name_less [OF ident_start_char] by simp
qed simp_all

declare subst_loop.simps [simp del]

definition subst_macro_body :: "expander \<Rightarrow> macro_t \<Rightarrow> u8 list list \<Rightarrow> nat \<Rightarrow> nat \<Rightarrow> u8 list \<Rightarrow> diag \<Rightarrow> pp_stop + u8 list \<times> diag" where
  "subst_macro_body ex m args nargs cap out d =
     (let va = (if m_is_varargs m then join_args [] (drop (length (m_params m)) (take nargs args)) else [])
      in bindE (subst_loop ex m args nargs va cap [] (m_body m) \<lparr>su_out = out, su_ready = (\<lambda>i. None), su_va = None, su_diag = d\<rparr>)
           (\<lambda>s. Inr (su_out s, su_diag s)))"

subsection \<open>Expansion\<close>

text \<open>
  \<^verbatim>\<open>expand_one\<close>: the output, the text behind and whether the name was handled; an output that is
  too full for the replacement leaves the name to the caller.
\<close>

definition copy_name :: "nat \<Rightarrow> u8 list \<Rightarrow> u8 list \<Rightarrow> u8 list \<Rightarrow> diag \<Rightarrow> (bool \<times> u8 list \<times> u8 list) \<times> diag" where
  "copy_name cap v p out d =
     (if cap \<le> length out + length v then ((False, p, out), d) else ((True, after_name p, out @ v), d))"

definition copy_newlines :: "nat \<Rightarrow> u8 list \<Rightarrow> u8 list \<Rightarrow> u8 list" where
  "copy_newlines cap text out = out @ replicate (min (length (filter (\<lambda>b. b = 10) text)) (cap - 1 - length out)) 10"

definition expand_call :: "expander \<Rightarrow> macro_t \<Rightarrow> nat \<Rightarrow> u8 list \<Rightarrow> u8 list \<times> u8 list list \<times> nat \<times> u8 list \<Rightarrow> diag
    \<Rightarrow> pp_stop + (bool \<times> u8 list \<times> u8 list) \<times> diag" where
  "expand_call ex m cap p c d =
     (case c of
        (out, args, nargs, q) \<Rightarrow>
          let d = (if max_args < nargs then cc_error_at d else d); nargs = (if max_args < nargs then max_args else nargs);
              pad = \<not> m_is_varargs m \<and> nargs < length (m_params m);
              args = (if pad then args @ replicate (length (m_params m) - nargs) [] else args);
              nargs = (if pad then length (m_params m) else nargs)
          in bindE (subst_macro_body ex m args nargs cap out d)
               (\<lambda>(out, d). Inr ((True, q, copy_newlines cap (take (length p - length q) p) out), d)))"

definition expand_one :: "expander \<Rightarrow> macro_t list \<Rightarrow> nat \<Rightarrow> u8 list \<Rightarrow> u8 list \<Rightarrow> diag \<Rightarrow> pp_stop + (bool \<times> u8 list \<times> u8 list) \<times> diag" where
  "expand_one ex ms cap p out d =
     (let name = take_name p
      in case find_macro ms name of
           None \<Rightarrow> Inr (copy_name cap name p out d)
         | Some i \<Rightarrow>
             let m = ms ! i
             in if \<not> is_function_like m then Inr (copy_name cap (m_body m) p out d)
                else let q = dropWhile space (after_name p)
                     in if q = [] \<or> hd q \<noteq> qc CHR ''('' then Inr (copy_name cap name p out d)
                        else (case read_macro_args q of
                                None \<Rightarrow> Inr (copy_name cap name p out d)
                              | Some (args, nargs, q) \<Rightarrow> expand_call ex m cap p (out, args, nargs, q) d))"

text \<open>A literal is copied behind its opening quote; the closing quote is left to the caller when the output is full.\<close>

definition push_out :: "nat \<Rightarrow> u8 \<Rightarrow> u8 list \<Rightarrow> u8 list" where
  "push_out cap c out = (if length out < cap then out @ [c] else out)"

fun copy_literal :: "nat \<Rightarrow> u8 \<Rightarrow> u8 list \<Rightarrow> u8 list \<Rightarrow> u8 list \<times> u8 list" where
  "copy_literal cap q [] out = ([], out)"
| "copy_literal cap q (c # cs) out =
     (if c = q then (if length out < cap then (cs, out @ [c]) else (c # cs, out))
      else case cs of
        e # es \<Rightarrow>
          if c = 92 then copy_literal cap q es (push_out cap e (push_out cap c out))
          else copy_literal cap q cs (push_out cap c out)
      | [] \<Rightarrow> ([], push_out cap c out))"

definition skip_ident :: "nat \<Rightarrow> u8 list \<Rightarrow> u8 list \<Rightarrow> u8 list \<times> u8 list" where
  "skip_ident cap p out =
     (let name = takeWhile ident_char p
      in (dropWhile ident_char p, if length out + length name < cap then out @ name else out))"

definition pass_ident :: "expander \<Rightarrow> macro_t list \<Rightarrow> nat \<Rightarrow> u8 list \<Rightarrow> u8 list \<Rightarrow> diag \<Rightarrow> pp_stop + (u8 list \<times> u8 list) \<times> diag" where
  "pass_ident ex ms cap p out d =
     bindE (expand_one ex ms cap p out d)
       (\<lambda>((handled, p', out'), d). Inr (if handled then (p', out') else skip_ident cap p' out', d))"

declare copy_literal.simps(2) [simp del] args_loop.simps(2) [simp del]

lemma copy_literal_shorter: "length (fst (copy_literal cap q p out)) \<le> length p"
proof (induction "length p" arbitrary: p out rule: less_induct)
  case less
  have ih: "length (fst (copy_literal cap q r o')) \<le> length r" if "length r < length p" for r o'
    by (rule less.hyps [OF that])
  show ?case
  proof (cases p)
    case (Cons c cs)
    have "length (fst (copy_literal cap q es o')) \<le> Suc (length cs)" if "cs = e # es" for e es o'
      using ih [of es o'] that Cons by simp
    moreover have "length (fst (copy_literal cap q cs o')) \<le> Suc (length cs)" for o'
      using ih [of cs o'] Cons by simp
    ultimately show ?thesis unfolding Cons copy_literal.simps(2) by (cases cs) auto
  qed simp
qed

lemma args_loop_shorter: "args_loop a s = Some (args, n, r) \<Longrightarrow> length r < length s"
proof (induction "length s" arbitrary: a s rule: less_induct)
  case less
  show ?case
  proof (cases s)
    case (Cons c cs)
    have ih: "length r < length cs" if "args_loop b cs = Some (args, n, r)" for b
      using less.hyps [of cs b] that Cons by simp
    have ih': "length r < length cs" if "args_loop b es = Some (args, n, r)" "cs = e # es" for b e es
      using less.hyps [of es b] that Cons by simp
    have "r = cs \<or> length r < length cs"
    proof (cases "sc_quote a")
      case (Some q)
      show ?thesis
      proof (cases cs)
        case Nil
        with less.prems Cons Some show ?thesis by (simp add: args_loop.simps(2))
      next
        case (Cons e es)
        with less.prems [unfolded \<open>s = c # cs\<close> args_loop.simps(2) Some option.case] ih ih' show ?thesis
          by (simp add: Let_def split: if_split_asm)
      qed
    next
      case None
      from less.prems [unfolded Cons args_loop.simps(2) None option.case] ih show ?thesis
        by (simp split: if_split_asm prod.split_asm)
    qed
    then show ?thesis using Cons by auto
  qed (use less.prems in simp)
qed

lemma read_macro_args_shorter: "read_macro_args s = Some (args, n, r) \<Longrightarrow> length r < length s"
  using args_loop_shorter by (fastforce simp: read_macro_args_def split: list.splits if_splits)

lemma skip_ident_shorter: "ident_char c \<Longrightarrow> length (fst (skip_ident cap (c # p) out)) \<le> length p"
  by (simp add: skip_ident_def Let_def length_dropWhile_le)

lemma copy_name_shorter:
  assumes "copy_name cap v (c # p) out d = ((handled, p', out'), d')" "ident_char c"
  shows "if handled then length p' \<le> length p else p' = c # p"
  using assms after_name_less [of c p] by (auto simp: copy_name_def split: if_splits)

lemma expand_call_result:
  assumes "expand_call ex m cap p (out, args, n, q) d = Inr ((handled, p', out'), d')"
  shows "handled \<and> p' = q"
  using assms by (auto simp: expand_call_def Let_def bindE_eq_Inr)

lemma expand_one_shorter:
  assumes "expand_one ex ms cap (c # p) out d = Inr ((handled, p', out'), d')" "ident_char c"
  shows "if handled then length p' \<le> length p else p' = c # p"
proof -
  let ?q = "dropWhile space (after_name (c # p))"
  have q: "length ?q \<le> length p"
    using length_dropWhile_le [of space "after_name (c # p)"] after_name_less [OF assms(2), of p] by simp
  from assms show ?thesis
  proof (cases "read_macro_args ?q")
    case None
    with assms show ?thesis
      by (auto simp: expand_one_def Let_def split: option.splits if_splits dest!: copy_name_shorter)
  next
    case (Some a)
    obtain args n r where a: "a = (args, n, r)" by (cases a)
    have "length r < length ?q" by (rule read_macro_args_shorter) (use Some a in simp)
    with q have r: "length r \<le> length p" by simp
    from assms Some a r show ?thesis
      by (auto simp: expand_one_def Let_def split: option.splits if_splits dest!: copy_name_shorter expand_call_result)
  qed
qed

lemma pass_ident_shorter:
  assumes "pass_ident ex ms cap (c # p) out d = Inr ((p', out'), d')" "ident_start c"
  shows "length p' \<le> length p"
proof -
  from assms(1) obtain handled q o' where e: "expand_one ex ms cap (c # p) out d = Inr ((handled, q, o'), d')"
    and p': "(p', out') = (if handled then (q, o') else skip_ident cap q o')"
    by (auto simp: pass_ident_def bindE_eq_Inr)
  note expand_one_shorter [OF e ident_start_char [OF assms(2)]]
  with p' skip_ident_shorter [OF ident_start_char [OF assms(2)], of cap p o'] show ?thesis
    by (cases handled) (auto dest: arg_cong [where f = fst])
qed

function expand_macros_one_pass :: "expander \<Rightarrow> macro_t list \<Rightarrow> nat \<Rightarrow> u8 list \<Rightarrow> u8 list \<Rightarrow> diag \<Rightarrow> pp_stop + u8 list \<times> diag" where
  "expand_macros_one_pass ex ms cap [] out d = Inr (out, d)"
| "expand_macros_one_pass ex ms cap (c # p) out d =
     (if ident_start c
      then (case pass_ident ex ms cap (c # p) out d of
              Inl e \<Rightarrow> Inl e
            | Inr ((p', out'), d') \<Rightarrow> expand_macros_one_pass ex ms cap p' out' d')
      else if c = 34 \<or> c = 39
      then (case copy_literal cap c p (push_out cap c out) of
              (p', out') \<Rightarrow> expand_macros_one_pass ex ms cap p' out' d)
      else expand_macros_one_pass ex ms cap p (push_out cap c out) d)"
  by pat_completeness auto
termination
proof (relation "measure (\<lambda>(ex, ms, cap, p, out, d). length p)", goal_cases)
  case (2 ex ms cap c p out d x y d' p' out')
  then show ?case using pass_ident_shorter [of ex ms cap c p out d p' out' d'] by simp
next
  case (3 ex ms cap c p out d p' out')
  then show ?case using copy_literal_shorter [of cap c p "push_out cap c out"] by (cases "copy_literal cap c p (push_out cap c out)") simp
qed simp_all

declare expand_macros_one_pass.simps [simp del]

text \<open>
  \<^verbatim>\<open>expand_macros\<close>: passes until nothing changes, at most 16, in buffers of 8192 bytes. The first argument is the
  nesting that is still allowed.
\<close>

primrec passes :: "expander \<Rightarrow> macro_t list \<Rightarrow> nat \<Rightarrow> u8 list \<Rightarrow> diag \<Rightarrow> pp_stop + u8 list \<times> diag" where
  "passes ex ms 0 cur d = Inr (cur, d)"
| "passes ex ms (Suc k) cur d =
     bindE (expand_macros_one_pass ex ms 8191 cur [] d)
       (\<lambda>(out, d). if out = cur then Inr (cur, d) else if 8191 \<le> length out then Inr (out, d) else passes ex ms k out d)"

primrec expand_macros :: "nat \<Rightarrow> macro_t list \<Rightarrow> nat \<Rightarrow> u8 list \<Rightarrow> diag \<Rightarrow> pp_stop + u8 list \<times> diag" where
  "expand_macros 0 ms cap line d = Inr (line, cc_error_at d)"
| "expand_macros (Suc k) ms cap line d =
     bindE (passes (expand_macros k ms 512) ms 16 line d)
       (\<lambda>(cur, d). Inr (take (cap - 1) cur, d))"

end
