(* ===== verification/Pp_Lines.thy ===== *)
theory Pp_Lines
  imports Pp_Macro
begin

text \<open>
  How the preprocessor, \<^verbatim>\<open>src/back/pp.c\<close>, divides a source in lines: comments are removed, lines that end in a backslash
  are joined, and the lines a macro invocation spans are gathered. The rest of a source behind the
  end of a line is a list, and there is none (\<^const>\<open>None\<close>) when the line ends with the source.
\<close>

subsection \<open>Comments\<close>

text \<open>\<^verbatim>\<open>strip_comments\<close>: inside a comment, the quote of the literal it is in, the output so far.\<close>

definition comment_gap :: "u8 list \<Rightarrow> u8 list" where
  "comment_gap out = (if out \<noteq> [] \<and> \<not> blank (last out) then out @ [32] else out)"

fun strip_loop :: "bool \<Rightarrow> u8 option \<Rightarrow> u8 list \<Rightarrow> u8 list \<Rightarrow> u8 list \<times> bool" where
  "strip_loop in_comment quote out [] = (out, in_comment)"
| "strip_loop True quote out (c # cs) =
     (if c = qc CHR ''*'' \<and> cs \<noteq> [] \<and> hd cs = qc CHR ''/''
      then strip_loop False quote (comment_gap out) (tl cs)
      else strip_loop True quote out cs)"
| "strip_loop False (Some q) out (c # cs) =
     (if c = 92 \<and> cs \<noteq> [] then strip_loop False (Some q) (out @ [c, hd cs]) (tl cs)
      else strip_loop False (if c = q then None else Some q) (out @ [c]) cs)"
| "strip_loop False None out (c # cs) =
     (if c = 34 \<or> c = 39 then strip_loop False (Some c) (out @ [c]) cs
      else if c = qc CHR ''/'' \<and> cs \<noteq> [] \<and> hd cs = qc CHR ''*'' then strip_loop True None out (tl cs)
      else if c = qc CHR ''/'' \<and> cs \<noteq> [] \<and> hd cs = qc CHR ''/'' then (out, False)
      else strip_loop False None (out @ [c]) cs)"

definition strip_comments :: "u8 list \<Rightarrow> bool \<Rightarrow> u8 list \<times> bool" where
  "strip_comments line in_comment = strip_loop in_comment None [] line"

subsection \<open>Unfinished invocations\<close>

fun skip_literal :: "u8 \<Rightarrow> u8 list \<Rightarrow> u8 list" where
  "skip_literal q [] = []"
| "skip_literal q (c # cs) =
     (if c = q then cs
      else if c = 92 \<and> cs \<noteq> [] then skip_literal q (tl cs)
      else skip_literal q cs)"

text \<open>A macro whose body is a single name stands for the macro of that name, at most 16 times.\<close>

primrec resolve_alias :: "macro_t list \<Rightarrow> nat \<Rightarrow> macro_t option \<Rightarrow> macro_t option" where
  "resolve_alias ms 0 mo = mo"
| "resolve_alias ms (Suc k) mo =
     (case mo of
        None \<Rightarrow> None
      | Some m \<Rightarrow>
          if is_function_like m then mo
          else let body = dropWhile space (m_body m); name = take_name body
               in resolve_alias ms k
                    (if name \<noteq> [] \<and> dropWhile space (after_name body) = []
                     then map_option (\<lambda>i. ms ! i) (find_macro ms name) else None))"

lemma skip_literal_le: "length (skip_literal q p) \<le> length p"
proof (induction "length p" arbitrary: p rule: less_induct)
  case less
  show ?case
  proof (cases p)
    case (Cons c cs)
    then have "length (skip_literal q cs) \<le> length cs" "length (skip_literal q (tl cs)) \<le> length (tl cs)"
      using less.hyps [of cs] less.hyps [of "tl cs"] by simp_all
    with Cons show ?thesis by auto
  qed simp
qed

function pending_invocation :: "macro_t list \<Rightarrow> u8 list \<Rightarrow> nat" where
  "pending_invocation ms [] = 0"
| "pending_invocation ms (c # cs) =
     (if c = 34 \<or> c = 39 then pending_invocation ms (skip_literal c cs)
      else if ident_start c
      then (let p = dropWhile ident_char (c # cs);
                m = resolve_alias ms 16 (map_option (\<lambda>i. ms ! i) (find_macro ms (take_name (c # cs))));
                nx = dropWhile space p
            in if m = None \<or> \<not> is_function_like (the m) then pending_invocation ms p
               else if nx = [] then 1
               else if hd nx = qc CHR ''('' \<and> read_macro_args nx = None then 2
               else pending_invocation ms p)
      else pending_invocation ms cs)"
  by pat_completeness auto
termination
proof (relation "measure (\<lambda>(ms, p). length p)", goal_cases)
  case (2 ms c cs)
  then show ?case using skip_literal_le [of c cs] by simp
next
  case (3 ms c cs p m nx)
  then show ?case using ident_start_char [of c] by (simp add: less_Suc_eq_le length_dropWhile_le)
next
  case (4 ms c cs p m nx)
  then show ?case using ident_start_char [of c] by (simp add: less_Suc_eq_le length_dropWhile_le)
qed simp_all

declare pending_invocation.simps [simp del]

subsection \<open>Lines\<close>

definition split_line :: "u8 list \<Rightarrow> u8 list \<times> u8 list option" where
  "split_line p =
     (case dropWhile (\<lambda>b. b \<noteq> 10) p of
        [] \<Rightarrow> (p, None)
      | _ # r \<Rightarrow> (takeWhile (\<lambda>b. b \<noteq> 10) p, Some r))"

definition strip_cr :: "u8 list \<Rightarrow> u8 list" where
  "strip_cr l = rev (dropWhile (\<lambda>b. b = 13) (rev l))"

definition rest_len :: "u8 list option \<Rightarrow> nat" where
  "rest_len r = (case r of None \<Rightarrow> 0 | Some p \<Rightarrow> Suc (length p))"

definition continued :: "u8 list \<Rightarrow> bool" where
  "continued buf \<longleftrightarrow> buf \<noteq> [] \<and> last buf = 92"

text \<open>The lines joined by backslashes in the buffer of 8192 bytes, at most 64 of them.\<close>

fun join_lines :: "nat \<Rightarrow> u8 list \<Rightarrow> u8 list option \<Rightarrow> nat \<Rightarrow> u8 list \<times> u8 list option \<times> nat" where
  "join_lines 0 buf r joined = (buf, r, joined)"
| "join_lines (Suc k) buf None joined = (buf, None, joined)"
| "join_lines (Suc k) buf (Some p) joined =
     (if continued buf
      then (case split_line p of
              (l, r) \<Rightarrow> join_lines k (take 8191 (butlast buf @ strip_cr l)) r (joined + 1))
      else (buf, Some p, joined))"

definition logical_line :: "u8 list \<Rightarrow> u8 list \<times> u8 list option \<times> nat" where
  "logical_line p = (case split_line p of (l, r) \<Rightarrow> join_lines 64 (take 8191 (strip_cr l)) r 0)"

lemma split_line_less: "split_line p = (l, r) \<Longrightarrow> rest_len r \<le> length p"
  using length_dropWhile_le [of "\<lambda>b. b \<noteq> 10" p] by (auto simp: split_line_def rest_len_def split: list.splits)

lemma join_lines_le: "join_lines k buf r j = (b', r', j') \<Longrightarrow> rest_len r' \<le> rest_len r"
proof (induction k buf r j arbitrary: b' r' j' rule: join_lines.induct)
  case (3 k buf p joined)
  obtain l r where s: "split_line p = (l, r)" by (cases "split_line p")
  show ?case
    using 3 split_line_less [OF s] by (fastforce simp: s rest_len_def split: if_splits)
qed auto

lemma logical_line_le: "logical_line p = (b, r, j) \<Longrightarrow> rest_len r \<le> length p"
  unfolding logical_line_def by (auto split: prod.splits dest!: join_lines_le split_line_less)

text \<open>A line of a gathered invocation, with its continuations.\<close>

function gather_line :: "u8 list \<Rightarrow> u8 list option \<Rightarrow> nat \<Rightarrow> diag \<Rightarrow> u8 list \<times> u8 list option \<times> nat \<times> diag" where
  "gather_line buf r extra d =
     (case r of
        None \<Rightarrow> (buf, r, extra, d)
      | Some p \<Rightarrow>
          if continued buf
          then (case split_line p of
                  (l, r) \<Rightarrow>
                    let l = strip_cr l; long = 8192 \<le> length (butlast buf) + length l
                    in gather_line (take 8191 (butlast buf @ l)) r (extra + 1) (if long then cc_error_at d else d))
          else (buf, r, extra, d))"
  by pat_completeness auto
termination
proof (relation "measure (\<lambda>(buf, r, extra, d). rest_len r)", goal_cases)
  case (2 buf r extra d p l r' l' long)
  then show ?case using split_line_less [of p l r'] by (simp add: rest_len_def)
qed simp

declare gather_line.simps [simp del]

lemma gather_line_le: "gather_line buf r extra d = (b', r', e', d') \<Longrightarrow> rest_len r' \<le> rest_len r"
proof (induction buf r extra d arbitrary: b' r' e' d' rule: gather_line.induct)
  case (1 buf r extra d)
  show ?case
  proof (cases r)
    case None
    with 1 show ?thesis by (simp add: gather_line.simps)
  next
    case (Some p)
    obtain l r1 where s: "split_line p = (l, r1)" by (cases "split_line p")
    show ?thesis
      using 1 Some split_line_less [OF s]
      by (subst (asm) (2) gather_line.simps) (fastforce simp: s rest_len_def Let_def split: if_splits)
  qed
qed

definition starts_hash :: "(u8 \<Rightarrow> bool) \<Rightarrow> u8 list \<Rightarrow> bool" where
  "starts_hash ws l = (case dropWhile ws l of [] \<Rightarrow> False | c # _ \<Rightarrow> c = qc CHR ''#'')"

text \<open>
  The lines an invocation spans: the gathered text, the rest of the source, the number of joined lines, the
  comment state and the diagnostics.
\<close>

function gather :: "macro_t list \<Rightarrow> u8 list \<Rightarrow> u8 list option \<Rightarrow> nat \<Rightarrow> bool \<Rightarrow> diag \<Rightarrow> u8 list \<times> u8 list option \<times> nat \<times> bool \<times> diag" where
  "gather ms cbuf r joined in_comment d =
     (let pending = pending_invocation ms cbuf
      in case r of
           None \<Rightarrow> (cbuf, r, joined, in_comment, d)
         | Some p \<Rightarrow>
             if pending = 0 then (cbuf, r, joined, in_comment, d)
             else case split_line p of
               (l, r1) \<Rightarrow>
                 if 8192 \<le> length l then (cbuf, r, joined, in_comment, cc_error_at d)
                 else case gather_line (strip_cr l) r1 0 d of
                   (cont, r2, extra, d) \<Rightarrow>
                     (case strip_comments cont in_comment of
                        (cont, next_comment) \<Rightarrow>
                          if starts_hash space cont
                          then (cbuf, r, joined, in_comment, if pending = 2 then cc_error_at d else d)
                          else if 8192 \<le> length cbuf + length cont + 1 then (cbuf, r, joined, in_comment, cc_error_at d)
                          else gather ms (cbuf @ 10 # cont) r2 (joined + 1 + extra) next_comment d))"
  by pat_completeness auto
termination
proof (relation "measure (\<lambda>(ms, cbuf, r, joined, in_comment, d). rest_len r)", goal_cases)
  case (2 ms cbuf r joined in_comment d pending p l r1 cont y r2 z extra d')
  then show ?case using split_line_less [of p l r1] gather_line_le [of "strip_cr l" r1 0 d cont r2 extra d'] by (simp add: rest_len_def)
qed simp

declare gather.simps [simp del]


lemma gather_le: "gather ms cbuf r joined ic d = (b', r', j', ic', d') \<Longrightarrow> rest_len r' \<le> rest_len r"
proof (induction "rest_len r" arbitrary: cbuf r joined ic d rule: less_induct)
  case less
  show ?case
  proof (cases r)
    case None
    with less.prems show ?thesis by (simp add: gather.simps Let_def)
  next
    case (Some p)
    obtain l r1 where l: "split_line p = (l, r1)" by (cases "split_line p")
    obtain cont r2 extra d1 where g: "gather_line (strip_cr l) r1 0 d = (cont, r2, extra, d1)"
      by (cases "gather_line (strip_cr l) r1 0 d")
    have r2: "rest_len r2 < rest_len r"
      using split_line_less [OF l] gather_line_le [OF g] Some by (simp add: rest_len_def)
    have ih: "rest_len r' \<le> rest_len r" if "gather ms cb r2 j c e = (b', r', j', ic', d')" for cb j c e
      using less.hyps [OF r2 that] r2 by simp
    show ?thesis
      using less.prems [unfolded gather.simps [of ms cbuf r]]
      by (auto simp: Let_def l g Some split: if_split_asm prod.split_asm dest: ih [unfolded Some])
  qed
qed

end
