(* ===== verification/Pp_Source.thy ===== *)
theory Pp_Source
  imports Pp_Lines "HOL-Library.Sublist"
begin

text \<open>
  The driver of the preprocessor, \<^verbatim>\<open>src/back/pp.c\<close>: conditional groups, directives, included files and
  \<^verbatim>\<open>pp_preprocess_file\<close>. Files are read through a parameter: which paths open, and what \<^verbatim>\<open>pp_read_file\<close> reads from
  them. The depth of included files, which the code does not bound, is fuel. Line numbers occur in
  messages only and are left out, as the messages are.
\<close>

record file_system =
  fs_opens :: "u8 list \<Rightarrow> bool"
  fs_read :: "u8 list \<Rightarrow> u8 list option"

record cond_frame =
  if_stack :: bool
  if_parent :: bool
  if_taken :: bool

record pp_state =
  g_macros :: "macro_t list"
  g_ifs :: "cond_frame list"
  g_seen_files :: "u8 list list"
  g_cur_file :: "u8 list"
  g_out :: "u8 list"
  g_diag :: diag

definition MAX_INCLUDES :: nat where "MAX_INCLUDES = 16"
definition MAX_IF_DEPTH :: nat where "MAX_IF_DEPTH = 64"
definition CC_MAX_PATH :: nat where "CC_MAX_PATH = 256"

definition out_emit :: "u8 list \<Rightarrow> pp_state \<Rightarrow> pp_state" where
  "out_emit bs s = s\<lparr>g_out := g_out s @ bs\<rparr>"

definition pp_error :: "pp_state \<Rightarrow> pp_state" where
  "pp_error s = s\<lparr>g_diag := cc_error_at (g_diag s)\<rparr>"

definition skipping :: "pp_state \<Rightarrow> bool" where
  "skipping s = (case g_ifs s of [] \<Rightarrow> False | f # _ \<Rightarrow> \<not> if_stack f)"

definition macro_defined :: "pp_state \<Rightarrow> u8 list \<Rightarrow> bool" where
  "macro_defined s name \<longleftrightarrow> find_macro (g_macros s) name \<noteq> None"

subsection \<open>Conditions\<close>

text \<open>The character constant of an expression, copied to the buffer of 8192 bytes.\<close>

fun copy_char_constant :: "u8 list \<Rightarrow> u8 list \<Rightarrow> u8 list \<times> u8 list" where
  "copy_char_constant [] buf = ([], buf)"
| "copy_char_constant (c # cs) buf =
     (if 8192 \<le> length buf + 2 then (c # cs, buf)
      else if c = 92 \<and> cs \<noteq> [] then copy_char_constant (tl cs) (buf @ [c, hd cs])
      else if c = 39 then (cs, buf @ [c])
      else copy_char_constant cs (buf @ [c]))"

text \<open>The operand behind \<^verbatim>\<open>defined\<close>: the name and the text behind; \<^const>\<open>None\<close> is an error.\<close>

definition defined_operand :: "u8 list \<Rightarrow> (u8 list \<times> u8 list) option" where
  "defined_operand p =
     (let p = dropWhile blank p; paren = p \<noteq> [] \<and> hd p = qc CHR ''(''; p = dropWhile blank (if paren then tl p else p)
      in if p = [] \<or> \<not> ident_start (hd p) then None
         else let name = take_name p; p = dropWhile blank (dropWhile ident_char p)
              in if paren then (if p \<noteq> [] \<and> hd p = qc CHR '')'' then Some (name, tl p) else None) else Some (name, p))"

lemma copy_char_constant_le: "length (fst (copy_char_constant p buf)) \<le> length p"
proof (induction "length p" arbitrary: p buf rule: less_induct)
  case less
  show ?case
  proof (cases p)
    case (Cons c cs)
    then have "length (fst (copy_char_constant cs b)) \<le> length cs" "length (fst (copy_char_constant (tl cs) b)) \<le> length (tl cs)" for b
      using less.hyps [of cs b] less.hyps [of "tl cs" b] by simp_all
    then have "length (fst (copy_char_constant cs b)) \<le> Suc (length cs)" "length (fst (copy_char_constant (tl cs) b)) \<le> Suc (length cs)" for b
      by (metis le_SucI, metis le_SucI diff_le_self le_trans length_tl)
    with Cons show ?thesis by auto
  qed simp
qed

lemma length_dropWhile_trans: "length xs \<le> n \<Longrightarrow> length (dropWhile P xs) \<le> n"
  using length_dropWhile_le [of P xs] by simp

lemma defined_operand_le: "defined_operand p = Some (name, r) \<Longrightarrow> length r \<le> length p"
  unfolding defined_operand_def Let_def
  by (auto split: if_splits intro!: length_dropWhile_trans intro: le_trans [OF diff_le_self] simp: le_diff_conv)

text \<open>The loop of \<^verbatim>\<open>eval_const_expr\<close>; \<^const>\<open>None\<close> is its early return after an error.\<close>

function resolve_defined :: "macro_t list \<Rightarrow> u8 list \<Rightarrow> u8 list \<Rightarrow> pp_stop + u8 list option" where
  "resolve_defined ms [] buf = Inr (Some buf)"
| "resolve_defined ms (c # cs) buf =
     (if 8192 \<le> length buf + 1 then Inl PpFatal
      else if c = 39
      then (case copy_char_constant cs (buf @ [c]) of (p, buf) \<Rightarrow> resolve_defined ms p buf)
      else if ident_start c
      then (let name = takeWhile ident_char (c # cs); p = dropWhile ident_char (c # cs)
            in if name \<noteq> bytes_of ''defined''
               then (if 8192 \<le> length buf + length name then Inl PpFatal else resolve_defined ms p (buf @ name))
               else (case defined_operand p of
                       None \<Rightarrow> Inr None
                     | Some (name, p) \<Rightarrow> resolve_defined ms p (buf @ bytes_of (if find_macro ms name \<noteq> None then ''1'' else ''0''))))
      else resolve_defined ms cs (buf @ [c]))"
  by pat_completeness auto
termination
proof (relation "measure (\<lambda>(ms, p, buf). length p)", goal_cases)
  case (2 ms c cs buf p b)
  then show ?case using copy_char_constant_le [of cs "buf @ [c]"] by (cases "copy_char_constant cs (buf @ [c])") simp
next
  case (3 ms c cs buf name p)
  then show ?case using ident_start_char [of c] by (simp add: less_Suc_eq_le length_dropWhile_le)
next
  case (4 ms c cs buf name p x name' p')
  then show ?case using ident_start_char [of c] defined_operand_le [of p name' p'] length_dropWhile_le [of ident_char cs] by simp
qed simp_all

declare resolve_defined.simps [simp del]

definition eval_const_expr :: "u8 list \<Rightarrow> pp_state \<Rightarrow> pp_stop + u64 \<times> pp_state" where
  "eval_const_expr expr s =
     bindE (resolve_defined (g_macros s) expr [])
       (\<lambda>b. case b of
          None \<Rightarrow> Inr (0, pp_error s)
        | Some buf \<Rightarrow>
            bindE (expand_macros 32 (g_macros s) 8192 buf (g_diag s))
              (\<lambda>(buf, d). case pp_eval_integer (cstr buf) d of
                 None \<Rightarrow> Inl PpNoFuel
               | Some (v, d) \<Rightarrow> Inr (v, s\<lparr>g_diag := d\<rparr>)))"

subsection \<open>Included files\<close>

definition dir_prefix :: "u8 list \<Rightarrow> u8 list" where
  "dir_prefix path = rev (dropWhile (\<lambda>b. b \<noteq> qc CHR ''/'') (rev path))"

definition local_include :: "u8 list \<Rightarrow> u8 list \<Rightarrow> u8 list option" where
  "local_include cur name =
     (let dir = dir_prefix cur
      in if dir \<noteq> [] \<and> length dir + length name < 2 * CC_MAX_PATH then Some (dir @ name) else None)"

definition find_include :: "file_system \<Rightarrow> u8 list list \<Rightarrow> u8 list \<Rightarrow> u8 list \<Rightarrow> bool \<Rightarrow> u8 list option" where
  "find_include fs paths cur name is_system =
     find (fs_opens fs)
       ((case local_include cur name of Some p \<Rightarrow> if is_system then [] else [p] | None \<Rightarrow> []) @
        filter (\<lambda>p. length p < 2 * CC_MAX_PATH) (map (\<lambda>d. d @ qc CHR ''/'' # name) paths))"

definition is_pragma_once :: "u8 list \<Rightarrow> bool" where
  "is_pragma_once line =
     (let line = dropWhile blank line
      in line \<noteq> [] \<and> hd line = qc CHR ''#'' \<and>
         (let line = dropWhile blank (tl line)
          in take 6 line = bytes_of ''pragma'' \<and> 6 < length line \<and> blank (line ! 6) \<and>
             sublist (bytes_of ''once'') (cstr (drop 7 line))))"

definition remember_file :: "u8 list \<Rightarrow> pp_state \<Rightarrow> pp_state" where
  "remember_file path s =
     (if MAX_INCLUDES \<le> length (g_seen_files s) then s
      else s\<lparr>g_seen_files := g_seen_files s @ [take (CC_MAX_PATH - 1) path]\<rparr>)"


subsection \<open>Directives\<close>

text \<open>
  The parameters of a function-like macro behind its opening parenthesis: the array has room for 16, and
  the code does not check that.
\<close>

lemma param_progress:
  assumes "dropWhile P q \<noteq> []" "\<not> stop (hd (dropWhile P q))"
  shows "length (dropWhile (\<lambda>b. \<not> stop b) (drop n (dropWhile P q))) < length q"
proof -
  from assms(1) obtain x xs where d: "dropWhile P q = x # xs" by (cases "dropWhile P q") auto
  then have "Suc (length xs) \<le> length q" using length_dropWhile_le [of P q] by simp
  moreover have "length (dropWhile (\<lambda>b. \<not> stop b) (drop n (x # xs))) \<le> length xs"
    using assms(2) d by (cases n) (auto intro: length_dropWhile_trans)
  ultimately show ?thesis by (simp add: d)
qed

function macro_params :: "u8 list list \<Rightarrow> bool \<Rightarrow> u8 list \<Rightarrow> pp_stop + u8 list list \<times> bool \<times> u8 list" where
  "macro_params ps va q =
     (let q1 = dropWhile (\<lambda>b. blank b \<or> b = qc CHR '','') q; stop = (\<lambda>b. b = qc CHR '')'' \<or> b = qc CHR '','')
      in if q = [] \<or> hd q = qc CHR '')'' then Inr (ps, va, q)
         else if q1 = [] \<or> hd q1 = qc CHR '')'' then Inr (ps, va, q1)
         else if hd q1 = qc CHR ''.'' then macro_params ps True (dropWhile (\<lambda>b. \<not> stop b) q1)
         else if CC_MAX_MACRO_ARGS \<le> length ps then Inl PpOverflow
         else let p = take_name q1
              in macro_params (if p \<noteq> [] then ps @ [p] else ps) va (dropWhile (\<lambda>b. \<not> stop b) (drop (length p) q1)))"
  by pat_completeness auto
termination
proof (relation "measure (\<lambda>(ps, va, q). length q)", goal_cases)
  case (2 ps va q q1 stop)
  then have "q1 \<noteq> []" "\<not> stop (hd q1)" by simp_all
  with 2(1) show ?case using param_progress [of "\<lambda>b. blank b \<or> b = qc CHR '',''" q stop 0] by simp
next
  case (3 ps va q q1 stop p)
  then have "q1 \<noteq> []" by simp
  moreover from this 3(1) have "hd q1 \<noteq> qc CHR '',''"
    using hd_dropWhile [of "\<lambda>b. blank b \<or> b = qc CHR '',''" q] by simp
  ultimately have "\<not> stop (hd q1)" using 3 by simp
  with \<open>q1 \<noteq> []\<close> 3(1) show ?case using param_progress [of "\<lambda>b. blank b \<or> b = qc CHR '',''" q stop "length p"] by simp
qed simp

declare macro_params.simps [simp del]

definition set_macro :: "macro_t \<Rightarrow> pp_state \<Rightarrow> pp_stop + pp_state" where
  "set_macro m s =
     (case find_macro (g_macros s) (m_name m) of
        Some i \<Rightarrow> Inr (s\<lparr>g_macros := (g_macros s)[i := m]\<rparr>)
      | None \<Rightarrow>
          if MAX_MACROS \<le> length (g_macros s) then Inl PpFatal else Inr (s\<lparr>g_macros := g_macros s @ [m]\<rparr>))"

definition macro_body :: "u8 list \<Rightarrow> u8 list" where
  "macro_body b = cstr (take 1023 b)"

definition do_define :: "u8 list \<Rightarrow> pp_state \<Rightarrow> pp_stop + pp_state" where
  "do_define r s =
     (let name = take_name r; body = after_name r
      in if name = [] then Inr s
         else if body \<noteq> [] \<and> hd body = qc CHR ''(''
         then bindE (macro_params [] False (tl body))
                (\<lambda>(ps, va, q).
                   let q = dropWhile blank (if q \<noteq> [] then tl q else q)
                   in set_macro \<lparr>m_name = name, is_function_like = True, m_is_varargs = va, m_params = ps, m_body = macro_body q, m_active = True\<rparr> s)
         else set_macro \<lparr>m_name = name, is_function_like = False, m_is_varargs = False, m_params = [],
                m_body = macro_body (dropWhile blank body), m_active = True\<rparr> s)"

definition do_undef :: "u8 list \<Rightarrow> pp_state \<Rightarrow> pp_state" where
  "do_undef r s =
     (case find_macro (g_macros s) (take_name r) of
        None \<Rightarrow> s
      | Some i \<Rightarrow> s\<lparr>g_macros := (g_macros s)[i := (g_macros s ! i)\<lparr>m_active := False\<rparr>]\<rparr>)"

definition push_cond :: "bool \<Rightarrow> pp_state \<Rightarrow> pp_stop + pp_state" where
  "push_cond taken s =
     (if MAX_IF_DEPTH \<le> length (g_ifs s) then Inl PpFatal
      else Inr (s\<lparr>g_ifs := \<lparr>if_stack = (\<not> skipping s \<and> taken), if_parent = skipping s, if_taken = taken\<rparr> # g_ifs s\<rparr>))"

definition do_if :: "u8 list \<Rightarrow> pp_state \<Rightarrow> pp_stop + pp_state" where
  "do_if r s =
     bindE (if skipping s then Inr (0, s) else eval_const_expr (cstr (take 1023 r)) s) (\<lambda>(v, s). push_cond (v \<noteq> 0) s)"

definition set_cond :: "bool \<Rightarrow> pp_state \<Rightarrow> pp_state" where
  "set_cond on s =
     (case g_ifs s of
        [] \<Rightarrow> s
      | f # fs \<Rightarrow> s\<lparr>g_ifs := (if on then f\<lparr>if_stack := True, if_taken := True\<rparr> else f\<lparr>if_stack := False\<rparr>) # fs\<rparr>)"

definition do_elif :: "u8 list \<Rightarrow> pp_state \<Rightarrow> pp_stop + pp_state" where
  "do_elif r s =
     (case g_ifs s of
        [] \<Rightarrow> Inr s
      | f # _ \<Rightarrow>
          if if_parent f \<or> if_taken f then Inr (set_cond False s)
          else bindE (eval_const_expr (cstr (take 1023 r)) s) (\<lambda>(v, s). Inr (set_cond (v \<noteq> 0) s)))"

definition do_else :: "pp_state \<Rightarrow> pp_state" where
  "do_else s = (case g_ifs s of [] \<Rightarrow> s | f # _ \<Rightarrow> set_cond (\<not> (if_parent f \<or> if_taken f)) s)"

definition do_endif :: "pp_state \<Rightarrow> pp_state" where
  "do_endif s = s\<lparr>g_ifs := tl (g_ifs s)\<rparr>"

text \<open>\<^verbatim>\<open>#include\<close>; the first argument processes a source under its file name.\<close>

type_synonym includer = "u8 list \<Rightarrow> u8 list \<Rightarrow> pp_state \<Rightarrow> pp_stop + pp_state"

definition include_name :: "u8 list \<Rightarrow> (u8 list \<times> bool) option" where
  "include_name r =
     (if length r < 2 \<or> hd r \<noteq> 34 \<and> hd r \<noteq> qc CHR ''<'' then None
      else let is_system = hd r = qc CHR ''<''; close = (if is_system then qc CHR ''>'' else 34); name = takeWhile (\<lambda>b. b \<noteq> close) (tl r)
           in if length name = length (tl r) \<or> CC_MAX_PATH \<le> length name then None else Some (cstr name, is_system))"

definition do_include :: "includer \<Rightarrow> file_system \<Rightarrow> u8 list list \<Rightarrow> u8 list \<Rightarrow> pp_state \<Rightarrow> pp_stop + pp_state" where
  "do_include proc fs paths r s =
     (case include_name r of
        None \<Rightarrow> Inr s
      | Some (name, is_system) \<Rightarrow>
          (case find_include fs paths (g_cur_file s) name is_system of
             None \<Rightarrow> Inr (pp_error s)
           | Some full \<Rightarrow>
               if full \<in> set (g_seen_files s) then Inr s
               else (case fs_read fs full of
                       None \<Rightarrow> Inr s
                     | Some src \<Rightarrow>
                         bindE (proc src full (s\<lparr>g_cur_file := full\<rparr>)) (\<lambda>s'. Inr (s'\<lparr>g_cur_file := g_cur_file s\<rparr>)))))"

definition run_directive :: "includer \<Rightarrow> file_system \<Rightarrow> u8 list list \<Rightarrow> u8 list \<Rightarrow> u8 list \<Rightarrow> bool \<Rightarrow> pp_state \<Rightarrow> pp_stop + pp_state" where
  "run_directive proc fs paths d r once s =
     (if d = bytes_of ''include'' then (if skipping s then Inr s else do_include proc fs paths r s)
      else if d = bytes_of ''define'' then (if skipping s then Inr s else do_define r s)
      else if d = bytes_of ''undef'' then Inr (if skipping s then s else do_undef r s)
      else if d = bytes_of ''ifdef'' then push_cond (macro_defined s (take_name r)) s
      else if d = bytes_of ''ifndef'' then push_cond (\<not> macro_defined s (take_name r)) s
      else if d = bytes_of ''if'' then do_if r s
      else if d = bytes_of ''elif'' then do_elif r s
      else if d = bytes_of ''else'' then Inr (do_else s)
      else if d = bytes_of ''endif'' then Inr (do_endif s)
      else if d = bytes_of ''pragma'' then Inr (if \<not> skipping s \<and> once then remember_file (g_cur_file s) s else s)
      else if d = bytes_of ''error'' then Inr (if skipping s then s else pp_error s)
      else Inr s)"

text \<open>
  The line behind its \<^verbatim>\<open>#\<close>. \<^verbatim>\<open>is_pragma_once\<close> is given the byte before the name of the directive, which is the \<^verbatim>\<open>#\<close> only
  when no blank stands between them.
\<close>

definition handle_directive :: "includer \<Rightarrow> file_system \<Rightarrow> u8 list list \<Rightarrow> u8 list \<Rightarrow> pp_state \<Rightarrow> pp_stop + pp_state" where
  "handle_directive proc fs paths line0 s =
     (let line = dropWhile blank line0; d = take 15 (takeWhile ident_char line); r = dropWhile blank (drop (length d) line)
      in run_directive proc fs paths d r (is_pragma_once ((if line = line0 then qc CHR ''#'' else 32) # line)) s)"

subsection \<open>Sources\<close>

definition onyx_file :: "u8 list" where "onyx_file = bytes_of ''__ONYX_FILE__''"

definition file_quoted :: "u8 list \<Rightarrow> u8 list" where
  "file_quoted filename = 34 # take (CC_MAX_PATH - 3) filename @ [34]"

text \<open>The file name in place of \<^verbatim>\<open>__ONYX_FILE__\<close> outside literals, in a buffer of 16384 bytes; \<^const>\<open>None\<close> is an overflow.\<close>

fun file_loop :: "u8 list \<Rightarrow> u8 option \<Rightarrow> u8 list \<Rightarrow> u8 list \<Rightarrow> u8 list option" where
  "file_loop fq quote out [] = Some out"
| "file_loop fq (Some q) out (c # cs) =
     (if c = 92 \<and> cs \<noteq> []
      then (if 16384 \<le> length out + 2 then None else file_loop fq (Some q) (out @ [c, hd cs]) (tl cs))
      else if 16384 \<le> length out + 1 then None
      else file_loop fq (if c = q then None else Some q) (out @ [c]) cs)"
| "file_loop fq None out (c # cs) =
     (if take 13 (c # cs) = onyx_file
      then (if 16384 \<le> length out + length fq then None else file_loop fq None (out @ fq) (drop 12 cs))
      else if 16384 \<le> length out + 1 then None
      else file_loop fq (if c = 34 \<or> c = 39 then Some c else None) (out @ [c]) cs)"

definition subst_file :: "u8 list \<Rightarrow> u8 list \<Rightarrow> u8 list" where
  "subst_file filename line =
     (if sublist onyx_file (cstr line)
      then (case file_loop (file_quoted filename) None [] (cstr line) of
              Some sub \<Rightarrow> if length sub < 8192 then sub else line
            | None \<Rightarrow> line)
      else line)"

definition emit_line :: "u8 list \<Rightarrow> u8 list \<Rightarrow> nat \<Rightarrow> pp_state \<Rightarrow> pp_stop + pp_state" where
  "emit_line filename cbuf joined s =
     (if length cbuf < 8192
      then bindE (expand_macros 32 (g_macros s) 8192 cbuf (g_diag s))
             (\<lambda>(line, d).
                let line = subst_file filename line; newlines = length (filter (\<lambda>b. b = 10) line)
                in Inr (out_emit (line @ replicate (joined - newlines) 10 @ [10]) (s\<lparr>g_diag := d\<rparr>)))
      else Inr (out_emit (cbuf @ [10]) s))"

definition process_line :: "includer \<Rightarrow> file_system \<Rightarrow> u8 list list \<Rightarrow> u8 list \<Rightarrow> u8 list \<times> nat \<Rightarrow> pp_state \<Rightarrow> pp_stop + pp_state" where
  "process_line proc fs paths filename l s =
     (case l of
        (cbuf, joined) \<Rightarrow>
          let q = dropWhile blank cbuf
          in if q \<noteq> [] \<and> hd q = qc CHR ''#'' then handle_directive proc fs paths (tl q) s
             else if \<not> skipping s then emit_line filename cbuf joined s
             else Inr (out_emit [10] s))"

text \<open>The next line of the loop of \<^verbatim>\<open>process_source\<close>, without comments and with the lines of its invocations.\<close>

definition next_line :: "pp_state \<Rightarrow> u8 list \<Rightarrow> bool \<Rightarrow> u8 list \<times> u8 list option \<times> nat \<times> bool \<times> diag" where
  "next_line s p in_comment =
     (case logical_line p of
        (buf, r, joined) \<Rightarrow>
          (case strip_comments buf in_comment of
             (cbuf, ic) \<Rightarrow>
               if \<not> starts_hash space cbuf \<and> \<not> skipping s then gather (g_macros s) cbuf r joined ic (g_diag s)
               else (cbuf, r, joined, ic, g_diag s)))"

lemma next_line_le: "next_line s p ic = (cbuf, r, joined, ic', d) \<Longrightarrow> rest_len r \<le> length p"
  unfolding next_line_def by (auto split: prod.splits if_splits dest!: gather_le logical_line_le)

function lines_loop :: "includer \<Rightarrow> file_system \<Rightarrow> u8 list list \<Rightarrow> u8 list \<Rightarrow> u8 list \<Rightarrow> bool \<Rightarrow> pp_state \<Rightarrow> pp_stop + pp_state" where
  "lines_loop proc fs paths filename p in_comment s =
     (if p = [] then Inr s
      else case next_line s p in_comment of
        (cbuf, r, joined, ic, d) \<Rightarrow>
          (case process_line proc fs paths filename (cbuf, joined) (s\<lparr>g_diag := d\<rparr>) of
             Inl e \<Rightarrow> Inl e
           | Inr s \<Rightarrow> lines_loop proc fs paths filename (case r of None \<Rightarrow> [] | Some p \<Rightarrow> p) ic s))"
  by pat_completeness auto
termination
proof (relation "measure (\<lambda>(proc, fs, paths, filename, p, ic, s). length p)", goal_cases)
  case (2 proc fs paths filename p in_comment s cbuf x r y joined z ic d s')
  then show ?case using next_line_le [of s p in_comment cbuf r joined ic d] by (auto simp: rest_len_def split: option.splits)
qed simp

declare lines_loop.simps [simp del]

primrec process_source :: "file_system \<Rightarrow> u8 list list \<Rightarrow> nat \<Rightarrow> includer" where
  "process_source fs paths 0 = (\<lambda>src filename s. Inl PpNoFuel)"
| "process_source fs paths (Suc k) = (\<lambda>src filename s. lines_loop (process_source fs paths k) fs paths filename src False s)"

definition std_predefines :: "string list" where
  "std_predefines =
     [''__onyx__=1'', ''__onyxos__=1'', ''__riscv=1'', ''__riscv_xlen=64'', ''__riscv64__=1'', ''__LP64__=1'',
      ''__SIZEOF_POINTER__=8'', ''__SIZEOF_LONG__=8'', ''__SIZEOF_LONG_LONG__=8'', ''__SIZEOF_INT__=4'',
      ''__SIZEOF_SHORT__=2'', ''__SIZEOF_CHAR__=1'', ''__SIZEOF_SIZE_T__=8'', ''__STDC__=1'',
      ''__STDC_VERSION__=199901L'', ''__STDC_HOSTED__=0'']"

primrec define_all :: "u8 list list \<Rightarrow> macro_t list \<Rightarrow> pp_stop + macro_t list" where
  "define_all [] ms = Inr ms"
| "define_all (d # ds) ms = bindE (define_macro d ms) (define_all ds)"

definition pp_preprocess_file :: "nat \<Rightarrow> file_system \<Rightarrow> u8 list list \<Rightarrow> u8 list list \<Rightarrow> u8 list \<Rightarrow> diag \<Rightarrow> pp_stop + u8 list \<times> diag" where
  "pp_preprocess_file fuel fs paths defines path d =
     bindE (define_all (map bytes_of ([''__FILE__=__ONYX_FILE__'', ''__LINE__=0''] @ std_predefines) @ defines) [])
       (\<lambda>ms.
          if 16 < length paths then Inl PpOverflow
          else case fs_read fs path of
            None \<Rightarrow> Inl PpFatal
          | Some src \<Rightarrow>
              bindE (process_source fs paths fuel src path
                       \<lparr>g_macros = ms, g_ifs = [], g_seen_files = [], g_cur_file = path, g_out = [], g_diag = d\<rparr>)
                (\<lambda>s. Inr (g_out s, g_diag s)))"

end
