(* ===== verification/Pp_Cond.thy ===== *)
theory Pp_Cond
  imports Pp_Source
begin

text \<open>
  Conditional groups of the preprocessor, \<^verbatim>\<open>src/back/pp.c\<close>. The code keeps a stack of flags and looks at one line at a time.
  The reference reads the structure of the lines as a tree and executes exactly the group that C selects: the
  first one whose condition holds, the conditions before it being evaluated in order and those
  behind it not at all. Of every text line that is not selected an empty line is left.
\<close>

type_synonym pp_line = "u8 list \<times> nat"

datatype group = GEnd | GLine pp_line group | GIf pp_line group arms group
and arms = AEndif pp_line | AElif pp_line group arms | AElse pp_line group pp_line

subsection \<open>The lines of a group\<close>

text \<open>The name of a directive and the text behind it.\<close>

definition directive_of :: "pp_line \<Rightarrow> (u8 list \<times> u8 list) option" where
  "directive_of l =
     (let q = dropWhile blank (fst l)
      in if q \<noteq> [] \<and> hd q = qc CHR ''#''
         then Some (let line = dropWhile blank (tl q); d = take 15 (takeWhile ident_char line) in (d, dropWhile blank (drop (length d) line)))
         else None)"

definition is_directive :: "string list \<Rightarrow> pp_line \<Rightarrow> bool" where
  "is_directive names l = (case directive_of l of None \<Rightarrow> False | Some (d, r) \<Rightarrow> d \<in> bytes_of ` set names)"

definition plain_line :: "pp_line \<Rightarrow> bool" where
  "plain_line l \<longleftrightarrow> \<not> is_directive [''include'', ''if'', ''ifdef'', ''ifndef'', ''elif'', ''else'', ''endif''] l"

fun flat :: "group \<Rightarrow> pp_line list"
and flat_arms :: "arms \<Rightarrow> pp_line list" where
  "flat GEnd = []"
| "flat (GLine l g) = l # flat g"
| "flat (GIf l b as g) = l # flat b @ flat_arms as @ flat g"
| "flat_arms (AEndif e) = [e]"
| "flat_arms (AElif l b as) = l # flat b @ flat_arms as"
| "flat_arms (AElse l b e) = l # flat b @ [e]"

fun well_nested :: "group \<Rightarrow> bool"
and well_nested_arms :: "arms \<Rightarrow> bool" where
  "well_nested GEnd \<longleftrightarrow> True"
| "well_nested (GLine l g) \<longleftrightarrow> plain_line l \<and> well_nested g"
| "well_nested (GIf l b as g) \<longleftrightarrow>
     is_directive [''if'', ''ifdef'', ''ifndef''] l \<and> well_nested b \<and> well_nested_arms as \<and> well_nested g"
| "well_nested_arms (AEndif e) \<longleftrightarrow> is_directive [''endif''] e"
| "well_nested_arms (AElif l b as) \<longleftrightarrow> is_directive [''elif''] l \<and> well_nested b \<and> well_nested_arms as"
| "well_nested_arms (AElse l b e) \<longleftrightarrow> is_directive [''else''] l \<and> well_nested b \<and> is_directive [''endif''] e"

fun depth :: "group \<Rightarrow> nat"
and depth_arms :: "arms \<Rightarrow> nat" where
  "depth GEnd = 0"
| "depth (GLine l g) = depth g"
| "depth (GIf l b as g) = max (Suc (max (depth b) (depth_arms as))) (depth g)"
| "depth_arms (AEndif e) = 0"
| "depth_arms (AElif l b as) = max (depth b) (depth_arms as)"
| "depth_arms (AElse l b e) = depth b"

fun blanks :: "group \<Rightarrow> nat"
and blanks_arms :: "arms \<Rightarrow> nat" where
  "blanks GEnd = 0"
| "blanks (GLine l g) = (if directive_of l = None then 1 else 0) + blanks g"
| "blanks (GIf l b as g) = blanks b + blanks_arms as + blanks g"
| "blanks_arms (AEndif e) = 0"
| "blanks_arms (AElif l b as) = blanks b + blanks_arms as"
| "blanks_arms (AElse l b e) = blanks b"

subsection \<open>The reference\<close>

definition holds_cond :: "pp_line \<Rightarrow> pp_state \<Rightarrow> pp_stop + bool \<times> pp_state" where
  "holds_cond l s =
     (case directive_of l of
        None \<Rightarrow> Inr (False, s)
      | Some (d, r) \<Rightarrow>
          if d = bytes_of ''ifdef'' then Inr (macro_defined s (take_name r), s)
          else if d = bytes_of ''ifndef'' then Inr (\<not> macro_defined s (take_name r), s)
          else bindE (eval_const_expr (cstr (take 1023 r)) s) (\<lambda>(v, s). Inr (v \<noteq> 0, s)))"

definition leave_blank :: "nat \<Rightarrow> pp_state \<Rightarrow> pp_state" where
  "leave_blank n s = out_emit (replicate n 10) s"

text \<open>The step of a selected line is an argument; the flags of the code have no part in what is selected.\<close>

fun exec :: "(pp_line \<Rightarrow> pp_state \<Rightarrow> pp_stop + pp_state) \<Rightarrow> group \<Rightarrow> pp_state \<Rightarrow> pp_stop + pp_state"
and exec_arms :: "(pp_line \<Rightarrow> pp_state \<Rightarrow> pp_stop + pp_state) \<Rightarrow> arms \<Rightarrow> pp_state \<Rightarrow> pp_stop + pp_state" where
  "exec step GEnd s = Inr s"
| "exec step (GLine l g) s = bindE (step l s) (exec step g)"
| "exec step (GIf l b as g) s =
     bindE (holds_cond l s)
       (\<lambda>(v, s). bindE (if v then bindE (exec step b s) (\<lambda>s. Inr (leave_blank (blanks_arms as) s))
                        else exec_arms step as (leave_blank (blanks b) s)) (exec step g))"
| "exec_arms step (AEndif e) s = Inr s"
| "exec_arms step (AElif l b as) s =
     bindE (holds_cond l s)
       (\<lambda>(v, s). if v then bindE (exec step b s) (\<lambda>s. Inr (leave_blank (blanks_arms as) s))
                 else exec_arms step as (leave_blank (blanks b) s))"
| "exec_arms step (AElse l b e) s = exec step b s"

primrec run_lines :: "(pp_line \<Rightarrow> pp_state \<Rightarrow> pp_stop + pp_state) \<Rightarrow> pp_line list \<Rightarrow> pp_state \<Rightarrow> pp_stop + pp_state" where
  "run_lines step [] s = Inr s"
| "run_lines step (l # ls) s = bindE (step l s) (run_lines step ls)"

lemma run_lines_append: "run_lines step (xs @ ys) s = bindE (run_lines step xs s) (run_lines step ys)"
  by (induction xs arbitrary: s) (auto simp: bindE_def split: sum.splits)

subsection \<open>Lines in and out of a group\<close>

text \<open>A result under another stack of conditions.\<close>

definition under :: "cond_frame list \<Rightarrow> pp_stop + pp_state \<Rightarrow> pp_stop + pp_state" where
  "under X r = map_sum id (\<lambda>s. s\<lparr>g_ifs := X\<rparr>) r"

definition active :: "cond_frame list \<Rightarrow> bool" where
  "active X \<longleftrightarrow> X = [] \<or> if_stack (hd X)"

lemma skipping_under [simp]: "skipping (s\<lparr>g_ifs := X\<rparr>) \<longleftrightarrow> \<not> active X"
  by (cases X) (auto simp: skipping_def active_def)

lemma under_simps [simp]:
  "under X (Inr s) = Inr (s\<lparr>g_ifs := X\<rparr>)" "under X (Inl e) = Inl e"
  by (simp_all add: under_def)

lemma under_bindE: "under X (bindE r f) = bindE r (\<lambda>x. under X (f x))"
  by (cases r) (auto simp: under_def bindE_def)


lemma eval_under:
  "eval_const_expr e (s\<lparr>g_ifs := X\<rparr>) = map_sum id (\<lambda>(v, s). (v, s\<lparr>g_ifs := X\<rparr>)) (eval_const_expr e s)"
  by (auto simp: eval_const_expr_def bindE_def pp_error_def split: sum.splits option.splits)

lemma eval_ifs: "eval_const_expr e s = Inr (v, s') \<Longrightarrow> g_ifs s' = g_ifs s"
  by (auto simp: eval_const_expr_def bindE_def pp_error_def split: sum.splits option.splits)

lemma holds_cond_ifs: "holds_cond l s = Inr (v, s') \<Longrightarrow> g_ifs s' = g_ifs s"
  by (auto simp: holds_cond_def bindE_eq_Inr dest: eval_ifs split: option.splits if_splits prod.splits)

lemma set_macro_under: "set_macro m (s\<lparr>g_ifs := X\<rparr>) = under X (set_macro m s)"
  by (simp add: set_macro_def split: option.split)

lemma define_under: "do_define r (s\<lparr>g_ifs := X\<rparr>) = under X (do_define r s)"
  by (auto simp: do_define_def Let_def set_macro_under bindE_def split: sum.splits)

lemma undef_under: "do_undef r (s\<lparr>g_ifs := X\<rparr>) = (do_undef r s)\<lparr>g_ifs := X\<rparr>"
  by (auto simp: do_undef_def split: option.splits)

lemma remember_under: "remember_file f (s\<lparr>g_ifs := X\<rparr>) = (remember_file f s)\<lparr>g_ifs := X\<rparr>"
  by (simp add: remember_file_def)

lemma emit_under: "emit_line f c j (s\<lparr>g_ifs := X\<rparr>) = under X (emit_line f c j s)"
  by (auto simp: emit_line_def Let_def out_emit_def bindE_def split: sum.splits)

lemma leave_blank_under: "leave_blank n (s\<lparr>g_ifs := X\<rparr>) = (leave_blank n s)\<lparr>g_ifs := X\<rparr>"
  by (simp add: leave_blank_def out_emit_def)

lemma leave_blank_ifs [simp]: "g_ifs (leave_blank n s) = g_ifs s"
  by (simp add: leave_blank_def out_emit_def)

lemma leave_blank_add: "leave_blank m (leave_blank n s) = leave_blank (n + m) s"
  by (simp add: leave_blank_def out_emit_def replicate_add)

lemma leave_blank_0 [simp]: "leave_blank 0 s = s"
  by (simp add: leave_blank_def out_emit_def)

lemma skipping_cong: "g_ifs s' = g_ifs s \<Longrightarrow> skipping s' = skipping s"
  by (simp add: skipping_def)

text \<open>The directive names differ from each other.\<close>

lemma bytes_of_eq: "bytes_of xs = bytes_of ys \<longleftrightarrow> xs = ys"
proof -
  have "x = y" if "of_char x = (of_char y :: u8)" for x y
  proof -
    have "(of_nat (of_char x) :: u8) = of_nat (of_char y)" using that by (simp add: of_nat_of_char)
    from arg_cong [OF this, of unat] have "(of_char x :: nat) mod 256 = of_char y mod 256"
      by (simp add: unat_of_nat)
    then show ?thesis by simp
  qed
  then show ?thesis unfolding bytes_of_def by (intro inj_map_eq_map injI)
qed

lemma directive_line:
  assumes "directive_of l = Some (d, r)"
  shows "\<exists>once. \<forall>s. process_line proc fs paths f l s = run_directive proc fs paths d r once s"
  using assms
  by (cases l) (auto simp: directive_of_def process_line_def handle_directive_def Let_def simp del: length_take split: if_splits)

lemma directive_runs:
  assumes "is_directive names l"
  obtains d r once where "directive_of l = Some (d, r)" "d \<in> bytes_of ` set names"
    "\<And>t. process_line proc fs paths f l t = run_directive proc fs paths d r once t"
proof -
  obtain d r where dr: "directive_of l = Some (d, r)" "d \<in> bytes_of ` set names"
    using assms by (auto simp: is_directive_def split: option.splits)
  then obtain once where "\<And>t. process_line proc fs paths f l t = run_directive proc fs paths d r once t"
    using directive_line [of l d r proc fs paths f] by blast
  with dr show thesis by (rule that)
qed

lemma text_line:
  "directive_of l = None \<Longrightarrow>
   process_line proc fs paths f l s = (if skipping s then Inr (out_emit [10] s) else emit_line f (fst l) (snd l) s)"
  by (auto simp: directive_of_def process_line_def Let_def split: if_splits prod.splits)

lemma plain_names:
  assumes "plain_line l" "directive_of l = Some (d, r)"
  shows "d \<noteq> bytes_of ''include''" "d \<noteq> bytes_of ''if''" "d \<noteq> bytes_of ''ifdef''" "d \<noteq> bytes_of ''ifndef''"
    "d \<noteq> bytes_of ''elif''" "d \<noteq> bytes_of ''else''" "d \<noteq> bytes_of ''endif''"
  using assms by (simp_all add: plain_line_def is_directive_def)

lemma plain_line_under:
  assumes "plain_line l" "active X" "\<not> skipping s"
  shows "process_line proc fs paths f l (s\<lparr>g_ifs := X\<rparr>) = under X (process_line proc fs paths f l s)"
proof (cases "directive_of l")
  case None
  then show ?thesis using assms by (simp add: text_line emit_under)
next
  case (Some dr)
  obtain d r where dr: "directive_of l = Some (d, r)" using Some by (cases dr) simp
  then obtain once where l: "\<And>t. process_line proc fs paths f l t = run_directive proc fs paths d r once t"
    using directive_line [of l d r proc fs paths f] by blast
  show ?thesis
    unfolding l run_directive_def using plain_names [OF assms(1) dr] assms(2, 3)
    by (simp add: define_under undef_under remember_under pp_error_def)
qed

lemma plain_line_skipped:
  assumes "plain_line l" "\<not> active X"
  shows "process_line proc fs paths f l (s\<lparr>g_ifs := X\<rparr>) = Inr (leave_blank (if directive_of l = None then 1 else 0) (s\<lparr>g_ifs := X\<rparr>))"
proof (cases "directive_of l")
  case None
  then show ?thesis using assms by (simp add: text_line leave_blank_def)
next
  case (Some dr)
  obtain d r where dr: "directive_of l = Some (d, r)" using Some by (cases dr) simp
  then obtain once where l: "\<And>t. process_line proc fs paths f l t = run_directive proc fs paths d r once t"
    using directive_line [of l d r proc fs paths f] by blast
  show ?thesis
    unfolding l run_directive_def using plain_names [OF assms(1) dr] assms(2) Some by simp
qed

lemma plain_line_ifs:
  assumes "plain_line l" "\<not> skipping s" "process_line proc fs paths f l s = Inr s'"
  shows "g_ifs s' = g_ifs s"
proof -
  have "active (g_ifs s)" using assms(2) skipping_under [of "g_ifs s" s] by simp
  from plain_line_under [OF assms(1) this assms(2), of proc fs paths f] assms(3) show ?thesis
    by (simp add: under_def) (metis pp_state.select_convs(2) pp_state.surjective pp_state.update_convs(2))
qed

subsection \<open>Conditions\<close>

definition frame :: "bool \<Rightarrow> bool \<Rightarrow> bool \<Rightarrow> cond_frame" where
  "frame on parent taken = \<lparr>if_stack = on, if_parent = parent, if_taken = taken\<rparr>"

lemma open_under:
  assumes "is_directive [''if'', ''ifdef'', ''ifndef''] l" "active X" "\<not> skipping s" "length X < MAX_IF_DEPTH"
  shows "process_line proc fs paths f l (s\<lparr>g_ifs := X\<rparr>) =
         bindE (holds_cond l s) (\<lambda>(v, s). Inr (s\<lparr>g_ifs := frame v False v # X\<rparr>))"
proof -
  obtain d r once where dr: "directive_of l = Some (d, r)" and d: "d \<in> bytes_of ` set [''if'', ''ifdef'', ''ifndef'']"
    and l: "\<And>t. process_line proc fs paths f l t = run_directive proc fs paths d r once t"
    using directive_runs [OF assms(1), of proc fs paths f] by blast
  show ?thesis
    unfolding l run_directive_def holds_cond_def dr using d assms(2, 3, 4)
    by (auto simp: bytes_of_eq push_cond_def do_if_def eval_under frame_def macro_defined_def bindE_def split: sum.splits)
qed

lemma open_skipped:
  assumes "is_directive [''if'', ''ifdef'', ''ifndef''] l" "\<not> active X" "length X < MAX_IF_DEPTH"
  shows "\<exists>taken. process_line proc fs paths f l (s\<lparr>g_ifs := X\<rparr>) = Inr (s\<lparr>g_ifs := frame False True taken # X\<rparr>)"
proof -
  obtain d r once where dr: "directive_of l = Some (d, r)" and d: "d \<in> bytes_of ` set [''if'', ''ifdef'', ''ifndef'']"
    and l: "\<And>t. process_line proc fs paths f l t = run_directive proc fs paths d r once t"
    using directive_runs [OF assms(1), of proc fs paths f] by blast
  show ?thesis
    unfolding l run_directive_def using d assms(2, 3)
    by (auto simp: bytes_of_eq push_cond_def do_if_def frame_def)
qed


lemma elif_under:
  assumes "is_directive [''elif''] l"
  shows "process_line proc fs paths f l (s\<lparr>g_ifs := frame on False False # X\<rparr>) =
         bindE (holds_cond l s) (\<lambda>(v, s). Inr (s\<lparr>g_ifs := frame v False v # X\<rparr>))"
proof -
  obtain d r once where dr: "directive_of l = Some (d, r)" and d: "d \<in> bytes_of ` set [''elif'']"
    and l: "\<And>t. process_line proc fs paths f l t = run_directive proc fs paths d r once t"
    using directive_runs [OF assms(1), of proc fs paths f] by blast
  show ?thesis
    unfolding l run_directive_def holds_cond_def dr using d
    by (auto simp: bytes_of_eq do_elif_def set_cond_def eval_under frame_def bindE_def split: sum.splits)
qed

lemma else_line:
  assumes "is_directive [''else''] l"
  shows "process_line proc fs paths f l s = Inr (do_else s)"
proof -
  obtain d r once where dr: "directive_of l = Some (d, r)" and d: "d \<in> bytes_of ` set [''else'']"
    and l: "\<And>t. process_line proc fs paths f l t = run_directive proc fs paths d r once t"
    using directive_runs [OF assms(1), of proc fs paths f] by blast
  show ?thesis unfolding l run_directive_def using d by (simp add: bytes_of_eq)
qed

lemma elif_skipped:
  assumes "is_directive [''elif''] l" "parent \<or> taken"
  shows "process_line proc fs paths f l (s\<lparr>g_ifs := frame on parent taken # X\<rparr>) =
         Inr (s\<lparr>g_ifs := frame False parent taken # X\<rparr>)"
proof -
  obtain d r once where dr: "directive_of l = Some (d, r)" and d: "d \<in> bytes_of ` set [''elif'']"
    and l: "\<And>t. process_line proc fs paths f l t = run_directive proc fs paths d r once t"
    using directive_runs [OF assms(1), of proc fs paths f] by blast
  show ?thesis
    unfolding l run_directive_def using d assms(2) by (auto simp: bytes_of_eq do_elif_def set_cond_def frame_def)
qed

lemma endif_line:
  assumes "is_directive [''endif''] l"
  shows "process_line proc fs paths f l (s\<lparr>g_ifs := fr # X\<rparr>) = Inr (s\<lparr>g_ifs := X\<rparr>)"
proof -
  obtain d r once where dr: "directive_of l = Some (d, r)" and d: "d \<in> bytes_of ` set [''endif'']"
    and l: "\<And>t. process_line proc fs paths f l t = run_directive proc fs paths d r once t"
    using directive_runs [OF assms(1), of proc fs paths f] by blast
  show ?thesis unfolding l run_directive_def using d by (simp add: bytes_of_eq do_endif_def)
qed

lemma do_else_frame:
  "do_else (s\<lparr>g_ifs := frame on parent taken # X\<rparr>) =
   (if parent \<or> taken then s\<lparr>g_ifs := frame False parent taken # X\<rparr> else s\<lparr>g_ifs := frame True False True # X\<rparr>)"
  by (simp add: do_else_def set_cond_def frame_def)

lemma active_frame [simp]: "active (frame on parent taken # X) \<longleftrightarrow> on"
  by (simp add: active_def frame_def)

subsection \<open>Groups\<close>

lemma exec_ifs:
  "well_nested g \<Longrightarrow> \<not> skipping s \<Longrightarrow> exec (process_line proc fs paths f) g s = Inr s' \<Longrightarrow> g_ifs s' = g_ifs s"
  "well_nested_arms as \<Longrightarrow> \<not> skipping s \<Longrightarrow> exec_arms (process_line proc fs paths f) as s = Inr s' \<Longrightarrow> g_ifs s' = g_ifs s"
proof (induction g and as arbitrary: s s' and s s')
  case (GLine l g)
  from GLine.prems(3) obtain t where t: "process_line proc fs paths f l s = Inr t" "exec (process_line proc fs paths f) g t = Inr s'"
    by (auto simp: bindE_eq_Inr)
  have "g_ifs t = g_ifs s" using plain_line_ifs [OF _ GLine.prems(2) t(1)] GLine.prems(1) by simp
  with GLine t(2) show ?case by (metis skipping_cong well_nested.simps(2))
next
  case (GIf l b as g)
  from GIf.prems(3) obtain v t u where t: "holds_cond l s = Inr (v, t)"
    and u: "(if v then bindE (exec (process_line proc fs paths f) b t) (\<lambda>s. Inr (leave_blank (blanks_arms as) s))
             else exec_arms (process_line proc fs paths f) as (leave_blank (blanks b) t)) = Inr u"
    and s': "exec (process_line proc fs paths f) g u = Inr s'"
    by (auto simp: bindE_eq_Inr)
  have ts: "g_ifs t = g_ifs s" by (rule holds_cond_ifs [OF t])
  then have nt: "\<not> skipping t" "\<not> skipping (leave_blank (blanks b) t)"
    using GIf.prems(2) by (simp_all add: skipping_def)
  have us: "g_ifs u = g_ifs s"
  proof (cases v)
    case True
    with u obtain w where w: "exec (process_line proc fs paths f) b t = Inr w" "u = leave_blank (blanks_arms as) w"
      by (auto simp: bindE_eq_Inr)
    with GIf.IH(1) [OF _ nt(1) w(1)] GIf.prems(1) ts show ?thesis by simp
  next
    case False
    with u GIf.IH(2) [OF _ nt(2), of u] GIf.prems(1) ts show ?thesis by simp
  qed
  with GIf.IH(3) [OF _ _ s'] GIf.prems(1, 2) skipping_cong [OF us] show ?case by simp
next
  case (AElif l b as)
  from AElif.prems(3) obtain v t where t: "holds_cond l s = Inr (v, t)"
    and u: "(if v then bindE (exec (process_line proc fs paths f) b t) (\<lambda>s. Inr (leave_blank (blanks_arms as) s))
             else exec_arms (process_line proc fs paths f) as (leave_blank (blanks b) t)) = Inr s'"
    by (auto simp: bindE_eq_Inr)
  have ts: "g_ifs t = g_ifs s" by (rule holds_cond_ifs [OF t])
  then have nt: "\<not> skipping t" "\<not> skipping (leave_blank (blanks b) t)"
    using AElif.prems(2) by (simp_all add: skipping_def)
  show ?case
  proof (cases v)
    case True
    with u obtain w where w: "exec (process_line proc fs paths f) b t = Inr w" "s' = leave_blank (blanks_arms as) w"
      by (auto simp: bindE_eq_Inr)
    with AElif.IH(1) [OF _ nt(1) w(1)] AElif.prems(1) ts show ?thesis by simp
  next
    case False
    with u AElif.IH(2) [OF _ nt(2), of s'] AElif.prems(1) ts show ?thesis by simp
  qed
qed auto


text \<open>A group none of whose lines is selected.\<close>

lemma skipped_group:
  "well_nested g \<Longrightarrow> \<not> active X \<Longrightarrow> length X + depth g \<le> MAX_IF_DEPTH \<Longrightarrow>
   run_lines (process_line proc fs paths f) (flat g) (s\<lparr>g_ifs := X\<rparr>) = Inr ((leave_blank (blanks g) s)\<lparr>g_ifs := X\<rparr>)"
  "well_nested_arms as \<Longrightarrow> parent \<or> taken \<Longrightarrow> Suc (length X) + depth_arms as \<le> MAX_IF_DEPTH \<Longrightarrow>
   run_lines (process_line proc fs paths f) (flat_arms as) (s\<lparr>g_ifs := frame on parent taken # X\<rparr>) =
   Inr ((leave_blank (blanks_arms as) s)\<lparr>g_ifs := X\<rparr>)"
proof (induction g and as arbitrary: X s and X s on parent taken)
  case (GLine l g)
  from GLine.prems have l: "plain_line l" by simp
  show ?case
    using GLine.IH [of X "leave_blank (if directive_of l = None then 1 else 0) s"] GLine.prems
    by (simp add: plain_line_skipped [OF l] leave_blank_under leave_blank_add)
next
  case (GIf l b as g)
  then have l: "is_directive [''if'', ''ifdef'', ''ifndef''] l" and X: "length X < MAX_IF_DEPTH" by auto
  obtain taken where o: "process_line proc fs paths f l (s\<lparr>g_ifs := X\<rparr>) = Inr (s\<lparr>g_ifs := frame False True taken # X\<rparr>)"
    using open_skipped [OF l GIf.prems(2) X, of proc fs paths f s] by blast
  show ?case
    using GIf.prems GIf.IH(1) [of "frame False True taken # X" s] GIf.IH(2) [of True taken X False "leave_blank (blanks b) s"]
      GIf.IH(3) [of X "leave_blank (blanks b + blanks_arms as) s"]
    by (simp add: o run_lines_append leave_blank_add)
next
  case (AEndif e)
  then show ?case by (simp add: endif_line)
next
  case (AElif l b as)
  then have l: "is_directive [''elif''] l" by simp
  show ?case
    using AElif.prems AElif.IH(1) [of "frame False parent taken # X" s] AElif.IH(2) [of parent taken X False "leave_blank (blanks b) s"]
    by (simp add: elif_skipped [OF l AElif.prems(2)] run_lines_append leave_blank_add)
next
  case (AElse l b e)
  then show ?case
    using AElse.IH [of "frame False parent taken # X" s]
    by (simp add: else_line do_else_frame run_lines_append endif_line)
qed simp

lemma selected_group:
  "well_nested g \<Longrightarrow> active X \<Longrightarrow> \<not> skipping s \<Longrightarrow> length X + depth g \<le> MAX_IF_DEPTH \<Longrightarrow>
   run_lines (process_line proc fs paths f) (flat g) (s\<lparr>g_ifs := X\<rparr>) = under X (exec (process_line proc fs paths f) g s)"
  "well_nested_arms as \<Longrightarrow> active X \<Longrightarrow> \<not> skipping s \<Longrightarrow> Suc (length X) + depth_arms as \<le> MAX_IF_DEPTH \<Longrightarrow>
   run_lines (process_line proc fs paths f) (flat_arms as) (s\<lparr>g_ifs := frame False False False # X\<rparr>) =
   under X (exec_arms (process_line proc fs paths f) as s)"
proof (induction g and as arbitrary: X s and X s)
  case (GLine l g)
  from GLine.prems have l: "plain_line l" by simp
  show ?case
  proof (cases "process_line proc fs paths f l s")
    case (Inr t)
    then have "\<not> skipping t" using plain_line_ifs [OF l GLine.prems(3) Inr] GLine.prems(3) skipping_cong by metis
    with GLine.IH [of X t] GLine.prems Inr show ?thesis by (simp add: plain_line_under [OF l])
  qed (use GLine.prems in \<open>simp add: plain_line_under [OF l]\<close>)
next
  case (GIf l b as g)
  then have l: "is_directive [''if'', ''ifdef'', ''ifndef''] l" and X: "length X < MAX_IF_DEPTH" by auto
  note o = open_under [OF l GIf.prems(2, 3) X, of proc fs paths f]
  show ?case
  proof (cases "holds_cond l s")
    case (Inr vt)
    obtain v t where vt: "vt = (v, t)" by (cases vt)
    have nt: "\<not> skipping t" "\<not> skipping (leave_blank n t)" for n
      using holds_cond_ifs [of l s v t] Inr vt GIf.prems(3) by (simp_all add: skipping_def)
    let ?step = "process_line proc fs paths f"
    have arms: "run_lines ?step (flat b @ flat_arms as) (t\<lparr>g_ifs := frame v False v # X\<rparr>) =
      under X (if v then bindE (exec ?step b t) (\<lambda>s. Inr (leave_blank (blanks_arms as) s))
               else exec_arms ?step as (leave_blank (blanks b) t))" (is "_ = under X ?r")
    proof (cases v)
      case True
      then show ?thesis
        using GIf.IH(1) [of "frame True False True # X" t] GIf.prems nt(1)
          skipped_group(2) [of as False True X proc fs paths f True]
        by (cases "exec ?step b t") (simp_all add: run_lines_append)
    next
      case False
      then show ?thesis
        using GIf.IH(2) [of X "leave_blank (blanks b) t"] GIf.prems nt(2)
          skipped_group(1) [of b "frame False False False # X" proc fs paths f t]
        by (simp add: run_lines_append)
    qed
    show ?thesis
    proof (cases ?r)
      case r: (Inr u)
      have "g_ifs u = g_ifs t"
        using r exec_ifs(1) [of b t proc fs paths f] exec_ifs(2) [of as "leave_blank (blanks b) t" proc fs paths f u] nt GIf.prems(1)
        by (auto simp: bindE_eq_Inr split: if_splits)
      then have "\<not> skipping u" using nt(1) skipping_cong by blast
      with GIf.IH(3) [of X u] GIf.prems Inr vt arms r show ?thesis
        by (simp add: o run_lines_append [of _ "flat b @ flat_arms as" "flat g", simplified])
    qed (use GIf.prems Inr vt arms in \<open>simp add: o run_lines_append [of _ "flat b @ flat_arms as" "flat g", simplified]\<close>)
  qed (simp add: o)
next
  case (AEndif e)
  then show ?case by (simp add: endif_line)
next
  case (AElif l b as)
  then have l: "is_directive [''elif''] l" by simp
  note o = elif_under [OF l, of proc fs paths f]
  show ?case
  proof (cases "holds_cond l s")
    case (Inr vt)
    obtain v t where vt: "vt = (v, t)" by (cases vt)
    have nt: "\<not> skipping t" "\<not> skipping (leave_blank n t)" for n
      using holds_cond_ifs [of l s v t] Inr vt AElif.prems(3) by (simp_all add: skipping_def)
    let ?step = "process_line proc fs paths f"
    show ?thesis
    proof (cases v)
      case True
      then show ?thesis
        using AElif.IH(1) [of "frame True False True # X" t] AElif.prems nt(1) Inr vt
          skipped_group(2) [of as False True X proc fs paths f True]
        by (cases "exec ?step b t") (simp_all add: o run_lines_append)
    next
      case False
      then show ?thesis
        using AElif.IH(2) [of X "leave_blank (blanks b) t"] AElif.prems nt(2) Inr vt
          skipped_group(1) [of b "frame False False False # X" proc fs paths f t]
        by (simp add: o run_lines_append)
    qed
  qed (simp add: o)
next
  case (AElse l b e)
  then show ?case
    using AElse.IH [of "frame True False True # X" s]
    by (cases "exec (process_line proc fs paths f) b s") (simp_all add: else_line do_else_frame run_lines_append endif_line)
qed simp


text \<open>
  C7. Conditional inclusion selects what C selects: processing the lines of well nested groups one by one, as the code
  does with its stack of flags, gives the state, or the error, of executing exactly the selected
  groups of the tree. A condition is evaluated only if its group can be selected, an empty line stands for each
  text line left out, and the stack is as before. The nesting has to fit the 64 entries of the stack.
\<close>

theorem conditional_groups:
  assumes "well_nested g" "\<not> skipping s" "length (g_ifs s) + depth g \<le> MAX_IF_DEPTH"
  shows "run_lines (process_line proc fs paths f) (flat g) s = exec (process_line proc fs paths f) g s"
proof -
  have a: "active (g_ifs s)" using assms(2) skipping_under [of "g_ifs s" s] by simp
  have "under (g_ifs s) (exec (process_line proc fs paths f) g s) = exec (process_line proc fs paths f) g s"
  proof (cases "exec (process_line proc fs paths f) g s")
    case (Inr s')
    from exec_ifs(1) [OF assms(1, 2) Inr] have "s'\<lparr>g_ifs := g_ifs s\<rparr> = s'" by simp
    with Inr show ?thesis by simp
  qed simp
  with selected_group(1) [OF assms(1) a assms(2, 3), of proc fs paths f] show ?thesis by simp
qed

definition sample_group :: group where
  "sample_group =
     GIf (bytes_of ''#ifdef Y'', 0) (GLine (bytes_of ''a'', 0) GEnd)
       (AElse (bytes_of ''#else'', 0) (GLine (bytes_of ''2'', 0) GEnd) (bytes_of ''#endif'', 0)) GEnd"

definition sample_state :: pp_state where
  "sample_state =
     \<lparr>g_macros = [], g_ifs = [], g_seen_files = [], g_cur_file = [], g_out = [], g_diag = \<lparr>n_errors = 0, n_warnings = 0\<rparr>\<rparr>"

definition no_files :: file_system where
  "no_files = \<lparr>fs_opens = (\<lambda>p. False), fs_read = (\<lambda>p. None)\<rparr>"

theorem conditional_groups_witness:
  "map_sum id g_out (run_lines (process_line (\<lambda>src f s. Inr s) no_files [] []) (flat sample_group) sample_state) =
   Inr [10, 50, 10]"
proof -
  have "well_nested sample_group" "\<not> skipping sample_state" "length (g_ifs sample_state) + depth sample_group \<le> MAX_IF_DEPTH"
    by code_simp+
  then have eq: "run_lines (process_line (\<lambda>src f s. Inr s) no_files [] []) (flat sample_group) sample_state =
    exec (process_line (\<lambda>src f s. Inr s) no_files [] []) sample_group sample_state"
    by (rule conditional_groups)
  show ?thesis unfolding eq by code_simp
qed

end
