(* ===== verification/Pp_Props.thy ===== *)
theory Pp_Props
  imports Pp_Cond Pp_Expr_Props
begin

text \<open>
  The preprocessor as a whole, \<^verbatim>\<open>src/back/pp.c\<close>: replacing a name keeps within an output that is not full, text without macro names
  is unchanged by it, and preprocessing ends whenever the files include each other without a cycle;
  with a cycle it does not.
\<close>

subsection \<open>Bounds\<close>

text \<open>A result that is not the copy past the end of the output, and leaves room for the terminating NUL.\<close>

definition in_room :: "nat \<Rightarrow> ('s \<Rightarrow> u8 list) \<Rightarrow> pp_stop + 's \<Rightarrow> bool" where
  "in_room cap out_of r \<longleftrightarrow> (case r of Inl e \<Rightarrow> e \<noteq> PpOverflow | Inr s \<Rightarrow> length (out_of s) < cap)"

lemma in_room_simps [simp]:
  "in_room cap out_of (Inl e) \<longleftrightarrow> e \<noteq> PpOverflow" "in_room cap out_of (Inr s) \<longleftrightarrow> length (out_of s) < cap"
  by (simp_all add: in_room_def)

lemma in_room_bind: "in_room cap f r \<Longrightarrow> (\<And>x. r = Inr x \<Longrightarrow> length (f x) < cap \<Longrightarrow> in_room cap g (k x)) \<Longrightarrow> in_room cap g (bindE r k)"
  by (cases r) simp_all

lemma append_clip_room: "length (su_out s) < cap \<Longrightarrow> in_room cap su_out (append_clip cap v s)"
  by (auto simp: append_clip_def Let_def)

lemma stringize_room: "stringize cap out v = (out', full) \<Longrightarrow> length out + 1 < cap \<Longrightarrow> length out' < cap"
  by (induction cap out v rule: stringize.induct) (auto simp: Let_def split: if_splits)

lemma subst_hash_room:
  "subst_hash m args nargs va cap r s = (r', s') \<Longrightarrow> length (su_out s) < cap \<Longrightarrow> length (su_out s') < cap"
  by (auto simp: subst_hash_def Let_def split: option.splits if_splits prod.splits dest!: stringize_room)

lemma subst_paste_room:
  assumes "length (su_out s) < cap"
  shows "in_room cap (su_out \<circ> snd) (subst_paste m va cap r s)"
proof -
  have b: "length (trim_blanks out) \<le> length out" "length (rev (dropWhile space (rev out))) \<le> length out" for out
    using length_dropWhile_le [of _ "rev out"] by (auto simp: trim_blanks_def)
  define s1 where "s1 = (if trim_blanks (su_out s) \<noteq> [] \<and> last (trim_blanks (su_out s)) = qc CHR '','' \<and> va = []
    then s\<lparr>su_out := butlast (trim_blanks (su_out s))\<rparr> else s)"
  have "length (su_out s1) < cap" using assms b(1) [of "su_out s"] by (auto simp: s1_def)
  then have "in_room cap su_out (if va \<noteq> [] then append_clip cap va s1 else Inr s1)" by (simp add: append_clip_room)
  then have "in_room cap (su_out \<circ> snd) (bindE (if va \<noteq> [] then append_clip cap va s1 else Inr s1) (\<lambda>s. Inr (r', s)))" for r' :: "u8 list"
    by (rule in_room_bind) simp
  then show ?thesis
    using assms b(2) [of "su_out s"] unfolding subst_paste_def Let_def s1_def [symmetric] by simp
qed

text \<open>Expanding an argument before it is substituted has no effect on the output; it stops only when its own expansion does.\<close>

locale safe_expander =
  fixes ex :: expander
  assumes no_overflow: "ex l d \<noteq> Inl PpOverflow"
begin

lemma prescan_room: "length (su_out s) < cap \<Longrightarrow> in_room cap (su_out \<circ> snd) (prescan_argument ex args i s)"
  using no_overflow [of "args ! i" "su_diag s"]
  by (cases "ex (args ! i) (su_diag s)") (auto simp: prescan_argument_def split: option.splits)

lemma join_room: "length (su_out s) < cap \<Longrightarrow> in_room cap (su_out \<circ> snd) (join_expanded ex args first acc is s)"
proof (induction "is" arbitrary: first acc s)
  case (Cons i "is")
  then show ?case using prescan_room [OF Cons.prems, of args i] by (auto intro: in_room_bind simp: Let_def)
qed simp

lemma ident_value_room:
  "length (su_out s) < cap \<Longrightarrow> in_room cap (su_out \<circ> snd) (ident_value ex m args nargs va pasted name s)"
  using join_room [of s cap args True "[]" "[length (m_params m)..<nargs]"] prescan_room [of s cap args]
  by (auto simp: ident_value_def split: option.splits intro!: in_room_bind)

lemma subst_ident_room: "length (su_out s) < cap \<Longrightarrow> in_room cap su_out (subst_ident ex m args nargs va cap pre r s)"
  unfolding subst_ident_def Let_def
  by (rule in_room_bind [OF ident_value_room]) (auto simp: append_clip_room split: option.splits)

lemma subst_loop_room: "length (su_out s) < cap \<Longrightarrow> in_room cap su_out (subst_loop ex m args nargs va cap pre r s)"
proof (induction "length r" arbitrary: pre r s rule: less_induct)
  case less
  show ?case
  proof (cases r)
    case (Cons c q)
    consider (hash) "c = qc CHR ''#''" "q \<noteq> []" "ident_start (hd q)" | (paste) "c = qc CHR ''#''" "q \<noteq> []" "\<not> ident_start (hd q)" "hd q = qc CHR ''#''"
      | (ident) "\<not> (c = qc CHR ''#'' \<and> q \<noteq> [] \<and> ident_start (hd q))" "\<not> (c = qc CHR ''#'' \<and> q \<noteq> [] \<and> hd q = qc CHR ''#'')" "ident_start c"
      | (other) "\<not> (c = qc CHR ''#'' \<and> q \<noteq> [] \<and> ident_start (hd q))" "\<not> (c = qc CHR ''#'' \<and> q \<noteq> [] \<and> hd q = qc CHR ''#'')" "\<not> ident_start c"
      by blast
    then show ?thesis
    proof cases
      case hash
      obtain r' t where h: "subst_hash m args nargs va cap q s = (r', t)" by (cases "subst_hash m args nargs va cap q s")
      note room = subst_hash_room [OF h less.prems]
      have "length q' < length r" if "r' = Some q'" for q' using subst_hash_shorter [of m args nargs va cap q s q' t] h that Cons by simp
      with hash h room less.hyps show ?thesis unfolding Cons subst_loop.simps(2) by (cases r') simp_all
    next
      case paste
      have "length q' < length r" if "subst_paste m va cap (tl q) s = Inr (q', t)" for q' t
        using subst_paste_shorter [OF that] Cons by simp
      with paste subst_paste_room [OF less.prems, of m va "tl q"] less.hyps show ?thesis
        unfolding Cons subst_loop.simps(2) by (cases "subst_paste m va cap (tl q) s") auto
    next
      case ident
      have "length (after_name r) < length r" using ident(3) after_name_less [OF ident_start_char] Cons by simp
      with ident subst_ident_room [OF less.prems, of m args nargs va pre r] less.hyps show ?thesis
        unfolding Cons subst_loop.simps(2) by (cases "subst_ident ex m args nargs va cap pre (c # q) s") auto
    next
      case other
      have "length (su_out (subst_char cap c s)) < cap" using less.prems by (simp add: subst_char_def)
      with less.hyps [of q] Cons show ?thesis
        unfolding Cons subst_loop.simps(2) if_not_P [OF other(1)] if_not_P [OF other(2)] if_not_P [OF other(3)] by simp
    qed
  qed (use less.prems in \<open>simp add: subst_loop.simps\<close>)
qed

lemma subst_macro_body_room: "length out < cap \<Longrightarrow> in_room cap fst (subst_macro_body ex m args nargs cap out d)"
  unfolding subst_macro_body_def Let_def by (rule in_room_bind [OF subst_loop_room]) simp_all

lemma expand_call_room:
  "length out < cap \<Longrightarrow> in_room cap (snd \<circ> snd \<circ> fst) (expand_call ex m cap p (out, args, nargs, q) d)"
  unfolding expand_call_def Let_def prod.case
  by (rule in_room_bind [OF subst_macro_body_room]) (auto simp: copy_newlines_def)

lemma copy_name_room: "length out < cap \<Longrightarrow> in_room cap (snd \<circ> snd \<circ> fst) (Inr (copy_name cap v p out d))"
  by (simp add: copy_name_def)

lemma expand_one_room: "length out < cap \<Longrightarrow> in_room cap (snd \<circ> snd \<circ> fst) (expand_one ex ms cap p out d)"
  by (auto simp: expand_one_def Let_def copy_name_room expand_call_room simp del: in_room_simps split: option.split)

lemma pass_ident_room: "length out < cap \<Longrightarrow> in_room cap (snd \<circ> fst) (pass_ident ex ms cap p out d)"
  unfolding pass_ident_def by (rule in_room_bind [OF expand_one_room]) (auto simp: skip_ident_def Let_def split: prod.splits)

end

text \<open>At the deepest level of nesting an argument is not expanded any more.\<close>

interpretation innermost: safe_expander "expand_macros 0 ms cap" for ms cap
  by unfold_locales simp




text \<open>
  A full output is not handled: the pass fills it up to its capacity, and the first parameter that is substituted then is copied with a
  length that has wrapped below zero. For every capacity such a line exists.
\<close>

definition forwarder :: macro_t where
  "forwarder = \<lparr>m_name = [70], is_function_like = True, m_is_varargs = False, m_params = [[120]], m_body = [120], m_active = True\<rparr>"

lemma pass_blanks:
  "length out + k \<le> cap \<Longrightarrow> expand_macros_one_pass ex ms cap (replicate k 32 @ p) out d = expand_macros_one_pass ex ms cap p (out @ replicate k 32) d"
proof (induction k arbitrary: out)
  case (Suc k)
  have "expand_macros_one_pass ex ms cap (replicate (Suc k) 32 @ p) out d = expand_macros_one_pass ex ms cap (replicate k 32 @ p) (out @ [32]) d"
    using Suc.prems by (simp add: expand_macros_one_pass.simps(2) ident_start_def is_alpha_def push_out_def)
  with Suc.IH [of "out @ [32]"] Suc.prems show ?case by (simp add: replicate_append_same [symmetric])
qed simp

theorem full_output_overflows:
  "expand_macros_one_pass (\<lambda>l d. Inr (l, d)) [forwarder] cap (replicate cap 32 @ [70, 40, 49, 41]) [] d = Inl PpOverflow"
proof -
  have r: "read_macro_args [40, 49, 41] = Some ([[49]], 1, [])" "find_macro [forwarder] [70] = Some 0" "take_name [70, 40, 49, 41] = [70]"
    "after_name [70, 40, 49, 41] = [40, 49, 41]" "\<not> space 40" "param_index forwarder [120] = Some 0"
    "take_name [120] = [120]" "after_name [120] = []" "ident_start 120" "\<not> pasted_before []" "\<not> pasted_after []" "cstr [49] = [49]" "ident_start 70"
    by code_simp+
  have m: "is_function_like forwarder" "\<not> m_is_varargs forwarder" "m_params forwarder = [[120]]" "m_body forwarder = [120]"
    by (simp_all add: forwarder_def)
  have v: "ident_value (\<lambda>l d. Inr (l, d)) forwarder [[49]] (Suc 0) [] False [120] s = Inr (Some [49], s\<lparr>su_ready := [0 \<mapsto> [49]]\<rparr>)"
    if "su_ready s = (\<lambda>i. None)" for s
    using that r m by (simp add: ident_value_def prescan_argument_def)
  have "subst_macro_body (\<lambda>l d. Inr (l, d)) forwarder [[49]] 1 cap (replicate cap 32) d = Inl PpOverflow"
    using r m by (simp add: subst_macro_body_def subst_loop.simps(2) subst_ident_def v append_clip_def Let_def)
  then have "pass_ident (\<lambda>l d. Inr (l, d)) [forwarder] cap [70, 40, 49, 41] (replicate cap 32) d = Inl PpOverflow"
    using r m by (simp add: pass_ident_def expand_one_def expand_call_def max_args_def CC_MAX_MACRO_ARGS_def Let_def)
  then show ?thesis using r by (simp add: pass_blanks expand_macros_one_pass.simps(2))
qed

subsection \<open>Text without macros\<close>

text \<open>The names a pass looks up, outside literals.\<close>

function idents :: "u8 list \<Rightarrow> u8 list list" where
  "idents [] = []"
| "idents (c # p) =
     (if ident_start c then take_name (c # p) # idents (after_name (c # p))
      else if c = 34 \<or> c = 39 then idents (skip_literal c p)
      else idents p)"
  by pat_completeness auto
termination
proof (relation "measure length", goal_cases)
  case (2 c p)
  then show ?case using after_name_less [OF ident_start_char] by simp
next
  case (3 c p)
  then show ?case using skip_literal_le [of c p] by simp
qed simp_all

declare idents.simps(2) [simp del]

lemma copy_literal_room:
  "length out + length p < cap \<Longrightarrow> copy_literal cap q p out = (p', out') \<Longrightarrow> p' = skip_literal q p \<and> out' @ p' = out @ p"
proof (induction "length p" arbitrary: p out rule: less_induct)
  case less
  show ?case
  proof (cases p)
    case (Cons c cs)
    have room: "push_out cap c out = out @ [c]" "cs = e # es \<Longrightarrow> push_out cap e (out @ [c]) = out @ [c, e]" for e es
      using less.prems(1) Cons by (auto simp: push_out_def)
    show ?thesis
    proof (cases cs)
      case Nil
      with less.prems Cons room show ?thesis by (auto simp: copy_literal.simps(2) split: if_splits)
    next
      case c': (Cons e es)
      from less.prems(2) consider "c = q" "p' = cs" "out' = out @ [c]"
        | "c \<noteq> q" "c = 92" "copy_literal cap q es (out @ [c, e]) = (p', out')"
        | "c \<noteq> q" "c \<noteq> 92" "copy_literal cap q cs (out @ [c]) = (p', out')"
        using less.prems(1) Cons c' room by (auto simp: copy_literal.simps(2) [of cap q c] split: if_splits)
      then show ?thesis
        using less.hyps [of es "out @ [c, e]"] less.hyps [of cs "out @ [c]"] less.prems(1) Cons c' by cases auto
    qed
  qed (use less.prems in simp)
qed

lemma name_split: "take_name p @ after_name p = p"
proof -
  have "take_name p = take (length (take_name p)) p"
    unfolding take_name_def by (subst takeWhile_eq_take) (simp add: min.commute)
  then show ?thesis unfolding after_name_def by (metis append_take_drop_id)
qed

lemma pass_unchanged:
  "\<forall>n\<in>set (idents p). find_macro ms n = None \<Longrightarrow> length out + length p < cap \<Longrightarrow>
   expand_macros_one_pass ex ms cap p out d = Inr (out @ p, d)"
proof (induction p arbitrary: out rule: idents.induct)
  case (2 c p)
  consider (name) "ident_start c" | (literal) "\<not> ident_start c" "c = 34 \<or> c = 39" | (other) "\<not> ident_start c" "\<not> (c = 34 \<or> c = 39)"
    by blast
  then show ?case
  proof cases
    case name
    have n: "length (take_name (c # p)) + length (after_name (c # p)) = Suc (length p)"
      using name_split [of "c # p"] by (metis length_Cons length_append)
    have "expand_one ex ms cap (c # p) out d = Inr ((True, after_name (c # p), out @ take_name (c # p)), d)"
      using 2 name n by (simp add: expand_one_def Let_def copy_name_def idents.simps(2))
    then have "pass_ident ex ms cap (c # p) out d = Inr ((after_name (c # p), out @ take_name (c # p)), d)"
      by (simp add: pass_ident_def)
    with 2 name n show ?thesis
      by (simp add: expand_macros_one_pass.simps(2) idents.simps(2) name_split)
  next
    case literal
    obtain p' out' where l: "copy_literal cap c p (push_out cap c out) = (p', out')"
      by (cases "copy_literal cap c p (push_out cap c out)")
    have r: "push_out cap c out = out @ [c]" using 2(5) by (simp add: push_out_def)
    have l': "p' = skip_literal c p" "out' @ p' = out @ c # p"
      using copy_literal_room [of "out @ [c]" p cap c p' out'] 2(5) l r by auto
    moreover have "length out' + length p' < cap" using 2(5) l'(2) by (metis length_append)
    ultimately show ?thesis
      using 2 literal l by (simp add: expand_macros_one_pass.simps(2) idents.simps(2))
  next
    case other
    have r: "push_out cap c out = out @ [c]" using 2(5) by (simp add: push_out_def)
    with 2 other show ?thesis by (simp add: expand_macros_one_pass.simps(2) idents.simps(2))
  qed
qed (simp add: expand_macros_one_pass.simps)

text \<open>Macro expansion leaves a line unchanged, without a diagnostic, in which no name outside literals is that of a macro.
\<close>

theorem text_unchanged:
  assumes "\<forall>n\<in>set (idents line). find_macro ms n = None" "length line < 8191" "length line < cap"
  shows "expand_macros (Suc k) ms cap line d = Inr (line, d)"
proof -
  have "passes (expand_macros k ms 512) ms (Suc 15) line d = Inr (line, d)"
    using pass_unchanged [OF assms(1), of "[]" 8191 "expand_macros k ms 512" d] assms(2) unfolding passes.simps by simp
  with assms(3) show ?thesis by simp
qed

theorem text_unchanged_witness:
  "expand_macros 32 [\<lparr>m_name = [65], is_function_like = False, m_is_varargs = False, m_params = [], m_body = [66], m_active = True\<rparr>]
     512 [66, 32, 34, 65, 34] \<lparr>n_errors = 0, n_warnings = 0\<rparr> = Inr ([66, 32, 34, 65, 34], \<lparr>n_errors = 0, n_warnings = 0\<rparr>)"
proof -
  let ?ms = "[\<lparr>m_name = [65], is_function_like = False, m_is_varargs = False, m_params = [], m_body = [66], m_active = True\<rparr>]"
  have "list_all (\<lambda>n. find_macro ?ms n = None) (idents [66, 32, 34, 65, 34])" by code_simp
  then have "\<forall>n\<in>set (idents [66, 32, 34, 65, 34]). find_macro ?ms n = None" by (simp add: list_all_iff)
  from text_unchanged [OF this, of 512 31] show ?thesis by simp
qed

subsection \<open>Termination\<close>

definition ends :: "pp_stop + 'a \<Rightarrow> bool" where
  "ends r \<longleftrightarrow> r \<noteq> Inl PpNoFuel"

lemma ends_simps [simp]: "ends (Inr x)" "ends (Inl e) \<longleftrightarrow> e \<noteq> PpNoFuel"
  by (simp_all add: ends_def)

lemma ends_bind: "ends r \<Longrightarrow> (\<And>x. r = Inr x \<Longrightarrow> ends (f x)) \<Longrightarrow> ends (bindE r f)"
  by (cases r) (auto simp: ends_def)

lemma ends_if: "(b \<Longrightarrow> ends x) \<Longrightarrow> (\<not> b \<Longrightarrow> ends y) \<Longrightarrow> ends (if b then x else y)"
  by simp

text \<open>What expansion relies on in the expansion of arguments: that it ends.\<close>

locale ending_expander =
  fixes ex :: expander
  assumes ex_ends: "ends (ex l d)"
begin

lemma prescan_ends: "ends (prescan_argument ex args i s)"
  by (auto simp: prescan_argument_def split: option.split intro!: ends_bind ex_ends)

lemma join_ends: "ends (join_expanded ex args first acc is s)"
proof (induction "is" arbitrary: first acc s)
  case (Cons i "is")
  then show ?case by (auto simp: Let_def intro!: ends_bind prescan_ends)
qed simp

lemma ident_ends: "ends (subst_ident ex m args nargs va cap pre r s)"
  by (auto simp: subst_ident_def ident_value_def append_clip_def Let_def split: option.split
      intro!: ends_bind join_ends prescan_ends)

lemma paste_ends: "ends (subst_paste m va cap r s)"
  by (auto simp: subst_paste_def append_clip_def Let_def intro!: ends_bind)

lemma subst_ends: "ends (subst_loop ex m args nargs va cap pre r s)"
proof (induction "length r" arbitrary: pre r s rule: less_induct)
  case less
  show ?case
  proof (cases r)
    case (Cons c cs)
    have ih: "ends (subst_loop ex m args nargs va cap p r' t)" if "length r' \<le> length cs" for p r' t
      using less.hyps [of r' p t] that Cons by simp
    have hash: "ends (subst_loop ex m args nargs va cap p r' t)" if "subst_hash m args nargs va cap cs s = (Some r', t)" for r' t p
      by (rule ih) (rule subst_hash_shorter [OF that])
    have paste: "ends (subst_loop ex m args nargs va cap p r' t)" if "subst_paste m va cap (tl cs) s = Inr (r', t)" for r' t p
      by (rule ih) (use subst_paste_shorter [OF that] in simp)
    have name: "ends (subst_loop ex m args nargs va cap p (after_name (c # cs)) t)" if "ident_start c" for p t
      by (rule ih) (use after_name_less [OF ident_start_char [OF that], of cs] in simp)
    have no: "subst_paste m va cap (tl cs) s \<noteq> Inl PpNoFuel" "subst_ident ex m args nargs va cap pre (c # cs) s \<noteq> Inl PpNoFuel"
      using paste_ends ident_ends by (simp_all add: ends_def)
    show ?thesis
      unfolding Cons subst_loop.simps(2)
    proof (intro ends_if)
      show "ends (case subst_hash m args nargs va cap cs s of (None, s) \<Rightarrow> Inr s
        | (Some r', s) \<Rightarrow> subst_loop ex m args nargs va cap (consumed (c # cs) r' @ pre) r' s)"
        by (simp add: hash split: prod.split option.split)
      show "ends (case subst_paste m va cap (tl cs) s of Inl e \<Rightarrow> Inl e
        | Inr (r', s) \<Rightarrow> subst_loop ex m args nargs va cap (consumed (c # cs) r' @ pre) r' s)"
        using no(1) by (auto simp: paste split: sum.split prod.split)
      show "ends (case subst_ident ex m args nargs va cap pre (c # cs) s of Inl e \<Rightarrow> Inl e
        | Inr s \<Rightarrow> subst_loop ex m args nargs va cap (consumed (c # cs) (after_name (c # cs)) @ pre) (after_name (c # cs)) s)"
        if "ident_start c" using no(2) that by (auto simp: name split: sum.split)
      show "ends (subst_loop ex m args nargs va cap (c # pre) cs (subst_char cap c s))" by (rule ih) simp
    qed
  qed (simp add: subst_loop.simps)
qed

lemma body_ends: "ends (subst_macro_body ex m args nargs cap out d)"
  by (auto simp: subst_macro_body_def Let_def intro!: ends_bind subst_ends)

lemma ident_pass_ends: "ends (pass_ident ex ms cap p out d)"
proof -
  have "ends (expand_call ex m cap p c d)" for m c
    by (cases c) (auto simp: expand_call_def Let_def intro!: ends_bind body_ends)
  then have "ends (expand_one ex ms cap p out d)"
    by (simp add: expand_one_def Let_def split: option.split)
  then show ?thesis unfolding pass_ident_def by (rule ends_bind) (simp add: split_def)
qed

lemma pass_ends: "ends (expand_macros_one_pass ex ms cap p out d)"
proof (induction "length p" arbitrary: p out d rule: less_induct)
  case less
  show ?case
  proof (cases p)
    case (Cons c cs)
    have ih: "ends (expand_macros_one_pass ex ms cap q o' d')" if "length q \<le> length cs" for q o' d'
      using less.hyps [of q o' d'] that Cons by simp
    have name: "ends (expand_macros_one_pass ex ms cap q o' d')"
      if "pass_ident ex ms cap (c # cs) out d = Inr ((q, o'), d')" "ident_start c" for q o' d'
      by (rule ih) (rule pass_ident_shorter [OF that])
    have literal: "ends (expand_macros_one_pass ex ms cap q o' d)" if "copy_literal cap c cs (push_out cap c out) = (q, o')" for q o'
      by (rule ih) (use copy_literal_shorter [of cap c cs "push_out cap c out"] that in simp)
    have "pass_ident ex ms cap (c # cs) out d \<noteq> Inl PpNoFuel" using ident_pass_ends by (simp add: ends_def)
    then show ?thesis
      unfolding Cons expand_macros_one_pass.simps(2)
      by (auto split: prod.split sum.split intro: name literal ih)
  qed (simp add: expand_macros_one_pass.simps)
qed

lemma passes_end: "ends (passes ex ms k cur d)"
  by (induction k arbitrary: cur d) (auto intro!: ends_bind pass_ends)

end

lemma expand_macros_ends: "ends (expand_macros k ms cap line d)"
proof (induction k arbitrary: cap line d)
  case (Suc k)
  have "ending_expander (expand_macros k ms 512)" by (rule ending_expander.intro) (rule Suc)
  then show ?case by (auto intro!: ends_bind ending_expander.passes_end)
qed simp

interpretation em: ending_expander "expand_macros k ms 512" for k ms
  by unfold_locales (rule expand_macros_ends)

text \<open>An operation that ends and leaves the current file as it is.\<close>

definition stays :: "pp_state \<Rightarrow> pp_stop + pp_state \<Rightarrow> bool" where
  "stays s r \<longleftrightarrow> ends r \<and> (\<forall>s'. r = Inr s' \<longrightarrow> g_cur_file s' = g_cur_file s)"

lemma stays_simps [simp]:
  "stays s (Inr s') \<longleftrightarrow> g_cur_file s' = g_cur_file s" "stays s (Inl e) \<longleftrightarrow> e \<noteq> PpNoFuel"
  by (auto simp: stays_def)

lemma stays_bind: "ends r \<Longrightarrow> (\<And>x. r = Inr x \<Longrightarrow> stays s (f x)) \<Longrightarrow> stays s (bindE r f)"
  by (cases r) (auto simp: ends_def)

lemma resolve_defined_ends: "ends (resolve_defined ms p buf)"
proof (induction ms p buf rule: resolve_defined.induct)
  case (2 ms c cs buf)
  then show ?case
    unfolding resolve_defined.simps(2)
    by (intro ends_if) (auto simp: Let_def split: prod.split option.split)
qed (simp add: resolve_defined.simps)

lemma eval_ends: "ends (eval_const_expr e s)"
proof -
  have "pp_eval_integer t d \<noteq> None" for t d using pp_eval_ends [of t d] by auto
  then show ?thesis
    unfolding eval_const_expr_def
    by (auto intro!: ends_bind resolve_defined_ends expand_macros_ends split: option.split)
qed

lemma eval_file: "eval_const_expr e s = Inr (v, s') \<Longrightarrow> g_cur_file s' = g_cur_file s"
  by (auto simp: eval_const_expr_def bindE_def pp_error_def split: sum.splits option.splits)

lemma macro_params_ends: "ends (macro_params ps va q)"
proof (induction ps va q rule: macro_params.induct)
  case (1 ps va q)
  note ih = 1(1) [OF refl refl] 1(2) [OF refl refl _ _ _ _ refl]
  show ?case
    by (subst macro_params.simps, unfold Let_def, intro ends_if) (use ih in \<open>simp_all split del: if_split\<close>)
qed

lemma set_macro_stays: "stays s (set_macro m s)"
  by (simp add: set_macro_def split: option.split)

lemma do_define_stays: "stays s (do_define r s)"
  by (auto simp: do_define_def Let_def set_macro_stays intro!: stays_bind macro_params_ends)

lemma push_cond_stays: "g_cur_file t = g_cur_file s \<Longrightarrow> stays s (push_cond b t)"
  by (simp add: push_cond_def)

lemma set_cond_file [simp]: "g_cur_file (set_cond b s) = g_cur_file s"
  by (simp add: set_cond_def split: list.split)

lemma do_if_stays: "stays s (do_if r s)"
  unfolding do_if_def by (rule stays_bind) (auto simp: eval_ends intro!: push_cond_stays dest: eval_file split: if_splits)

lemma do_elif_stays: "stays s (do_elif r s)"
  unfolding do_elif_def by (auto simp: eval_ends intro!: stays_bind dest: eval_file split: list.split)

lemma emit_line_stays: "stays s (emit_line f c j s)"
  by (auto simp: emit_line_def Let_def out_emit_def expand_macros_ends intro!: stays_bind)

text \<open>
  The lines of a source that can be directives, wherever they start, and the files they include. Gathering the
  lines of an invocation never makes a directive.
\<close>

definition included :: "u8 list \<Rightarrow> (u8 list \<times> bool) set" where
  "included src =
     {n. \<exists>p ic r. suffix p src \<and> directive_of (fst (strip_comments (fst (logical_line p)) ic), 0) = Some (bytes_of ''include'', r) \<and>
                  include_name r = Some n}"

definition rest_suffix :: "u8 list option \<Rightarrow> u8 list \<Rightarrow> bool" where
  "rest_suffix r p = (case r of None \<Rightarrow> True | Some q \<Rightarrow> suffix q p)"

lemma rest_suffix_trans: "rest_suffix r p \<Longrightarrow> suffix p q \<Longrightarrow> rest_suffix r q"
  by (auto simp: rest_suffix_def split: option.splits)

lemma split_line_suffix: "split_line p = (l, r) \<Longrightarrow> rest_suffix r p"
  using suffix_dropWhile [of "\<lambda>b. b \<noteq> 10" p]
  by (auto simp: split_line_def rest_suffix_def split: list.splits dest: suffix_ConsD)

lemma split_rest_suffix: "split_line p = (l, r) \<Longrightarrow> rest_suffix (Some p) q \<Longrightarrow> rest_suffix r q"
  using split_line_suffix rest_suffix_trans by (fastforce simp: rest_suffix_def)

lemma join_lines_suffix: "join_lines k buf r j = (b', r', j') \<Longrightarrow> rest_suffix r q \<Longrightarrow> rest_suffix r' q"
proof (induction k buf r j arbitrary: b' r' j' rule: join_lines.induct)
  case (3 k buf p joined)
  obtain l r where s: "split_line p = (l, r)" by (cases "split_line p")
  from 3 split_rest_suffix [OF s] show ?case by (auto simp: s split: if_splits)
qed auto

lemma logical_line_suffix: "logical_line p = (b, r, j) \<Longrightarrow> rest_suffix r p"
  unfolding logical_line_def by (auto split: prod.splits dest!: split_line_suffix join_lines_suffix)

lemma gather_line_suffix: "gather_line buf r e d = (b', r', e', d') \<Longrightarrow> rest_suffix r q \<Longrightarrow> rest_suffix r' q"
proof (induction buf r e d arbitrary: b' r' e' d' rule: gather_line.induct)
  case (1 buf r extra d)
  show ?case
  proof (cases "\<exists>p. r = Some p \<and> continued buf")
    case True
    then obtain p where p: "r = Some p" "continued buf" by blast
    obtain l r1 where s: "split_line p = (l, r1)" by (cases "split_line p")
    from 1(2) p s have "gather_line (take 8191 (butlast buf @ strip_cr l)) r1 (extra + 1)
      (if 8192 \<le> length (butlast buf) + length (strip_cr l) then cc_error_at d else d) = (b', r', e', d')"
      by (subst (asm) gather_line.simps) (simp add: Let_def)
    then show ?thesis using 1(1) [OF p s [symmetric] refl refl] split_rest_suffix [OF s] 1(3) p(1) by blast
  qed (use 1(2, 3) in \<open>subst (asm) gather_line.simps, auto split: option.splits\<close>)
qed

lemma pending_nonspace: "pending_invocation ms c \<noteq> 0 \<Longrightarrow> \<exists>x\<in>set c. \<not> space x"
proof (induction c)
  case (Cons x c)
  show ?case
  proof (cases "space x")
    case True
    then have "\<not> ident_start x" "x \<noteq> 34" "x \<noteq> 39"
      by (auto simp: space_def is_space_def ident_start_def is_alpha_def)
    with Cons True show ?thesis by (auto simp: pending_invocation.simps)
  qed simp
qed (simp add: pending_invocation.simps)

lemma gather_keeps:
  "gather ms c r j ic d = (c', r', j', ic', d') \<Longrightarrow> rest_suffix r q \<Longrightarrow> rest_suffix r' q \<and> (starts_hash space c' \<longleftrightarrow> starts_hash space c)"
proof (induction "rest_len r" arbitrary: c r j ic d rule: less_induct)
  case less
  show ?case
  proof (cases r)
    case None
    with less.prems show ?thesis by (simp add: gather.simps Let_def)
  next
    case (Some p)
    obtain l r1 where l: "split_line p = (l, r1)" by (cases "split_line p")
    obtain cont r2 extra d1 where g: "gather_line (strip_cr l) r1 0 d = (cont, r2, extra, d1)"
      by (cases "gather_line (strip_cr l) r1 0 d")
    have r2: "rest_len r2 < rest_len r" "rest_suffix r2 q"
      using split_line_less [OF l] gather_line_le [OF g] Some split_rest_suffix [OF l] gather_line_suffix [OF g] less.prems(2)
      by (simp_all add: rest_len_def)
    have ih: "rest_suffix r' q \<and> (starts_hash space c' \<longleftrightarrow> starts_hash space cb)" if "gather ms cb r2 j0 ic0 e = (c', r', j', ic', d')" for cb j0 ic0 e
      using less.hyps [OF r2(1) that r2(2)] .
    have app: "starts_hash space (c @ x) \<longleftrightarrow> starts_hash space c" if "pending_invocation ms c \<noteq> 0" for x
      using pending_nonspace [OF that] by (auto simp: starts_hash_def dropWhile_append1 split: list.split)
    show ?thesis
      using less.prems [unfolded gather.simps [of ms c r]]
      by (auto simp: Let_def l g Some app split: if_split_asm prod.split_asm dest!: ih)
  qed
qed

lemma hash_not_space: "starts_hash blank c \<Longrightarrow> starts_hash space c"
proof (induction c)
  case (Cons x c)
  show ?case
  proof (cases "blank x")
    case True
    then have "space x" by (auto simp: blank_def space_def is_space_def)
    with Cons True show ?thesis by (simp add: starts_hash_def)
  next
    case False
    with Cons.prems show ?thesis by (auto simp: starts_hash_def space_def is_space_def)
  qed
qed (simp add: starts_hash_def)

lemma directive_starts: "directive_of (c, j) = Some x \<Longrightarrow> starts_hash blank c"
  by (auto simp: directive_of_def Let_def starts_hash_def split: if_splits list.split)

lemma next_line_keeps:
  assumes "next_line s p ic = (cbuf, r, joined, ic', d)"
  shows "rest_suffix r p" "directive_of (cbuf, joined) = Some x \<Longrightarrow> cbuf = fst (strip_comments (fst (logical_line p)) ic)"
proof -
  obtain buf r0 j0 where l: "logical_line p = (buf, r0, j0)" by (cases "logical_line p")
  obtain c ic0 where c: "strip_comments buf ic = (c, ic0)" by (cases "strip_comments buf ic")
  note suf = logical_line_suffix [OF l]
  show "rest_suffix r p"
    using assms suf gather_keeps [of "g_macros s" c r0 j0 ic0 "g_diag s" cbuf r joined ic' d p]
    by (auto simp: next_line_def l c split: if_splits)
  show "cbuf = fst (strip_comments (fst (logical_line p)) ic)" if "directive_of (cbuf, joined) = Some x"
    using assms suf gather_keeps [of "g_macros s" c r0 j0 ic0 "g_diag s" cbuf r joined ic' d p] hash_not_space [OF directive_starts [OF that]]
    by (auto simp: next_line_def l c split: if_splits)
qed

lemma do_include_stays:
  assumes "\<And>name sys full src. include_name r = Some (name, sys) \<Longrightarrow> find_include fs paths (g_cur_file s) name sys = Some full \<Longrightarrow>
     fs_read fs full = Some src \<Longrightarrow> ends (proc src full (s\<lparr>g_cur_file := full\<rparr>))"
  shows "stays s (do_include proc fs paths r s)"
  using assms by (auto simp: do_include_def pp_error_def split: option.split intro!: stays_bind)

lemma process_line_stays:
  assumes "\<And>r. directive_of l = Some (bytes_of ''include'', r) \<Longrightarrow> stays s (do_include proc fs paths r s)"
  shows "stays s (process_line proc fs paths f l s)"
proof (cases "directive_of l")
  case None
  then show ?thesis by (simp add: text_line emit_line_stays out_emit_def)
next
  case (Some dr)
  obtain d r where dr: "directive_of l = Some (d, r)" using Some by (cases dr) simp
  then obtain once where l: "process_line proc fs paths f l s = run_directive proc fs paths d r once s"
    using directive_line [of l d r proc fs paths f] by blast
  show ?thesis
    unfolding l run_directive_def using assms [of r] dr
    by (simp add: do_define_stays do_if_stays do_elif_stays push_cond_stays do_undef_def do_else_def do_endif_def
        remember_file_def pp_error_def split: option.split list.split)
qed

text \<open>The files a source includes have a smaller rank than the file it is read from.\<close>

definition ranked :: "file_system \<Rightarrow> u8 list list \<Rightarrow> (u8 list \<Rightarrow> nat) \<Rightarrow> bool" where
  "ranked fs paths rank \<longleftrightarrow>
     (\<forall>cur src name sys full. fs_read fs cur = Some src \<and> (name, sys) \<in> included src \<and>
        find_include fs paths cur name sys = Some full \<and> fs_read fs full \<noteq> None \<longrightarrow> rank full < rank cur)"

lemma lines_loop_stays:
  assumes "ranked fs paths rank" "fs_read fs cur = Some src"
    and proc: "\<And>src full t. rank full < rank cur \<Longrightarrow> fs_read fs full = Some src \<Longrightarrow> g_cur_file t = full \<Longrightarrow> ends (proc src full t)"
  shows "g_cur_file s = cur \<Longrightarrow> suffix p src \<Longrightarrow> stays s (lines_loop proc fs paths f p ic s)"
proof (induction "length p" arbitrary: p ic s rule: less_induct)
  case less
  show ?case
  proof (cases "p = []")
    case False
    obtain cbuf r joined ic' d where l: "next_line s p ic = (cbuf, r, joined, ic', d)" by (cases "next_line s p ic")
    let ?p = "case r of None \<Rightarrow> [] | Some p \<Rightarrow> p"
    have shorter: "length ?p < length p"
      using next_line_le [OF l] False by (auto simp: rest_len_def split: option.splits)
    have suf: "suffix ?p src"
      using next_line_keeps(1) [OF l] less.prems(2) by (auto simp: rest_suffix_def split: option.splits)
    have "stays (s\<lparr>g_diag := d\<rparr>) (process_line proc fs paths f (cbuf, joined) (s\<lparr>g_diag := d\<rparr>))"
    proof (intro process_line_stays do_include_stays)
      fix r name sys full src'
      assume r: "directive_of (cbuf, joined) = Some (bytes_of ''include'', r)" and n: "include_name r = Some (name, sys)"
        and full: "find_include fs paths (g_cur_file (s\<lparr>g_diag := d\<rparr>)) name sys = Some full" "fs_read fs full = Some src'"
      have "directive_of (fst (strip_comments (fst (logical_line p)) ic), 0) = Some (bytes_of ''include'', r)"
        using r next_line_keeps(2) [OF l r] by (simp add: directive_of_def)
      then have "(name, sys) \<in> included src" using n less.prems(2) by (auto simp: included_def)
      then have "rank full < rank cur" using assms(1, 2) full less.prems(1) by (auto simp: ranked_def)
      then show "ends (proc src' full (s\<lparr>g_diag := d, g_cur_file := full\<rparr>))" using full(2) by (rule proc) simp
    qed
    then have st: "stays s (process_line proc fs paths f (cbuf, joined) (s\<lparr>g_diag := d\<rparr>))" by (simp add: stays_def)
    show ?thesis
    proof (cases "process_line proc fs paths f (cbuf, joined) (s\<lparr>g_diag := d\<rparr>)")
      case (Inr t)
      with st less.prems have t: "g_cur_file t = cur" by simp
      from less.hyps [OF shorter t suf, of ic'] Inr False l less.prems t show ?thesis
        by (subst lines_loop.simps) (simp add: stays_def)
    qed (use st False l in \<open>subst lines_loop.simps, simp\<close>)
  qed (simp add: lines_loop.simps)
qed

lemma process_source_ends:
  assumes "ranked fs paths rank"
  shows "rank f < k \<Longrightarrow> fs_read fs f = Some src \<Longrightarrow> g_cur_file s = f \<Longrightarrow> ends (process_source fs paths k src f s)"
proof (induction k arbitrary: src f s)
  case (Suc k)
  have "stays s (lines_loop (process_source fs paths k) fs paths f src False s)"
  proof (rule lines_loop_stays [OF assms Suc.prems(2) _ Suc.prems(3)])
    show "ends (process_source fs paths k src' full t)"
      if "rank full < rank f" "fs_read fs full = Some src'" "g_cur_file t = full" for src' full t
      using Suc.IH [of full src' t] Suc.prems(1) that by simp
  qed simp
  then show ?case by (simp add: stays_def)
qed simp

lemma define_all_ends: "ends (define_all ds ms)"
  by (induction ds arbitrary: ms) (auto simp: define_macro_def Let_def intro!: ends_bind split: option.split)

text \<open>
  C26. Preprocessing ends when the files include each other without a cycle: if the files that the \<^verbatim>\<open>#include\<close> lines of a file find
  have a smaller rank than the file, then nesting as deep as the rank of the first file is enough.
  Expansion, conditions, gathered lines and joined lines end by themselves.
\<close>

theorem preprocess_ends:
  assumes "ranked fs paths rank" "rank path < fuel"
  shows "pp_preprocess_file fuel fs paths defines path d \<noteq> Inl PpNoFuel"
proof -
  have "ends (process_source fs paths fuel src path s)" if "g_cur_file s = path" "fs_read fs path = Some src" for src s
    using process_source_ends [OF assms that(2, 1)] .
  then have "ends (pp_preprocess_file fuel fs paths defines path d)"
    unfolding pp_preprocess_file_def
    by (intro ends_bind [OF define_all_ends] ends_if) (auto split: option.split intro!: ends_bind)
  then show ?thesis by (simp add: ends_def)
qed

definition sample_files :: file_system where
  "sample_files = \<lparr>fs_opens = (\<lambda>p. p = bytes_of ''i/h''),
     fs_read = (\<lambda>p. if p = bytes_of ''m'' then Some (bytes_of ''#include <h>'') else if p = bytes_of ''i/h'' then Some (bytes_of ''x'') else None)\<rparr>"

theorem preprocess_ends_witness:
  "pp_preprocess_file 2 sample_files [bytes_of ''i''] [] (bytes_of ''m'') \<lparr>n_errors = 0, n_warnings = 0\<rparr> \<noteq> Inl PpNoFuel"
proof (rule preprocess_ends [where rank = "\<lambda>p. if p = bytes_of ''m'' then 1 else 0"])
  let ?no = "\<lambda>p ic. directive_of (fst (strip_comments (fst (logical_line p)) ic), 0) = None"
  have no: "list_all (\<lambda>p. ?no p True \<and> ?no p False) (suffixes (bytes_of ''x''))" by code_simp
  have "?no p ic" if "suffix p (bytes_of ''x'')" for p ic
  proof -
    have "p \<in> set (suffixes (bytes_of ''x''))" using that by (simp only: in_set_suffixes)
    with no have "?no p True \<and> ?no p False" unfolding list_all_iff by (rule bspec)
    then show ?thesis by (cases ic) simp_all
  qed
  then have "included (bytes_of ''x'') = {}" by (auto simp: included_def)
  then show "ranked sample_files [bytes_of ''i''] (\<lambda>p. if p = bytes_of ''m'' then 1 else 0)"
    by (auto simp: ranked_def sample_files_def find_include_def find_Some_iff bytes_of_eq split: if_splits)
qed simp

subsection \<open>Files that include themselves\<close>

lemma define_all_fits: "length ms + length ds \<le> MAX_MACROS \<Longrightarrow> \<exists>ms'. define_all ds ms = Inr ms'"
proof (induction ds arbitrary: ms)
  case (Cons x ds)
  have "\<exists>ms1. define_macro x ms = Inr ms1 \<and> length ms1 \<le> Suc (length ms)"
    using Cons.prems by (simp add: define_macro_def Let_def split: option.split)
  then obtain ms1 where "define_macro x ms = Inr ms1" "length ms1 \<le> Suc (length ms)" by blast
  with Cons.IH [of ms1] Cons.prems show ?case by simp
qed simp

definition self_file :: file_system where
  "self_file = \<lparr>fs_opens = (\<lambda>p. p = bytes_of ''d/a''), fs_read = (\<lambda>p. if p = bytes_of ''d/a'' then Some (bytes_of ''#include \"a\"'') else None)\<rparr>"

lemma self_include_source:
  "g_ifs s = [] \<Longrightarrow> g_seen_files s = [] \<Longrightarrow> g_cur_file s = bytes_of ''d/a'' \<Longrightarrow>
   process_source self_file [] k (bytes_of ''#include \"a\"'') (bytes_of ''d/a'') s = Inl PpNoFuel"
proof (induction k arbitrary: s)
  case (Suc k)
  let ?src = "bytes_of ''#include \"a\"''"
  have l: "logical_line ?src = (?src, None, 0)" "strip_comments ?src False = (?src, False)" "starts_hash space ?src" by code_simp+
  have n: "next_line s ?src False = (?src, None, 0, False, g_diag s)" by (simp add: next_line_def l)
  have d: "directive_of (?src, 0) = Some (bytes_of ''include'', bytes_of ''\"a\"'')" "include_name (bytes_of ''\"a\"'') = Some (bytes_of ''a'', False)"
    by code_simp+
  have f: "find_include self_file [] (bytes_of ''d/a'') (bytes_of ''a'') False = Some (bytes_of ''d/a'')" by code_simp
  obtain once where o: "\<And>t. process_line (process_source self_file [] k) self_file [] (bytes_of ''d/a'') (?src, 0) t =
    run_directive (process_source self_file [] k) self_file [] (bytes_of ''include'') (bytes_of ''\"a\"'') once t"
    using directive_line [OF d(1), of "process_source self_file [] k" self_file "[]" "bytes_of ''d/a''"] by blast
  have "process_source self_file [] k ?src (bytes_of ''d/a'') (s\<lparr>g_cur_file := bytes_of ''d/a''\<rparr>) = Inl PpNoFuel"
    using Suc.prems by (intro Suc.IH) simp_all
  then have "run_directive (process_source self_file [] k) self_file [] (bytes_of ''include'') (bytes_of ''\"a\"'') once s = Inl PpNoFuel"
    using Suc.prems d(2) f by (simp add: run_directive_def do_include_def skipping_def self_file_def)
  moreover have "?src \<noteq> []" by (simp add: bytes_of_def)
  ultimately show ?case
    by (simp add: lines_loop.simps [of _ _ _ _ ?src] n o)
qed simp

text \<open>
  C35. Nothing bounds the nesting of included files: the file \<^verbatim>\<open>d/a\<close>, which includes itself without a guard, is preprocessed forever, whatever depth is
  allowed; the limit on the files remembered for \<^verbatim>\<open>#pragma once\<close> is no limit on their nesting.
\<close>

theorem self_include_never_ends:
  "pp_preprocess_file fuel self_file [] [] (bytes_of ''d/a'') d = Inl PpNoFuel"
proof -
  obtain ms where "define_all (map bytes_of ([''__FILE__=__ONYX_FILE__'', ''__LINE__=0''] @ std_predefines) @ []) [] = Inr ms"
    using define_all_fits [of "[]" "map bytes_of ([''__FILE__=__ONYX_FILE__'', ''__LINE__=0''] @ std_predefines) @ []"]
    by (auto simp: std_predefines_def MAX_MACROS_def simp del: define_all.simps)
  then show ?thesis
    unfolding pp_preprocess_file_def by (simp add: self_include_source self_file_def [THEN arg_cong, of fs_read] del: define_all.simps)
qed

end
