(* ===== verification/Libc_Stream.thy ===== *)
theory Libc_Stream
  imports Onyx_Prelude
begin

text \<open>
  The buffered streams of the C library, \<^verbatim>\<open>libonyxc/src/io/stdio.c\<close>. A stream is a record; the bits of its
  \<^verbatim>\<open>flags\<close> are fields, its buffer is the list of all the bytes of the array, whose length is \<^verbatim>\<open>buf_size\<close>. The system calls
  are a parameter with its state: a result is a number, negative for an error. Pointers to streams
  and to the bytes of the caller are not null, and those bytes are an argument. The loop of \<^verbatim>\<open>fwrite\<close> does not end for a
  buffer of no bytes; a result \<^const>\<open>None\<close> means this.
\<close>

subsection \<open>State\<close>

record stream =
  fd :: int
  io_read :: bool
  io_write :: bool
  io_rdwr :: bool
  io_eof :: bool
  io_err :: bool
  io_dirty :: bool
  io_unread :: bool
  io_line_buf :: bool
  io_unbuf :: bool
  io_pushback :: bool
  io_append :: bool
  f_pos :: int
  f_buf :: "u8 list"
  buf_start :: nat
  buf_end :: nat
  pushback :: u8

record 'k sys_ops =
  onyx_write :: "int \<Rightarrow> u8 list \<Rightarrow> 'k \<Rightarrow> int \<times> 'k"
  onyx_read :: "int \<Rightarrow> nat \<Rightarrow> 'k \<Rightarrow> int \<times> u8 list \<times> 'k"
  onyx_lseek :: "int \<Rightarrow> int \<Rightarrow> int \<Rightarrow> 'k \<Rightarrow> int \<times> 'k"
  onyx_open :: "u8 list \<Rightarrow> int \<Rightarrow> 'k \<Rightarrow> int \<times> 'k"
  onyx_close :: "int \<Rightarrow> 'k \<Rightarrow> int \<times> 'k"

record 'k io =
  fp :: stream
  io_errno :: int
  io_os :: 'k

definition EIO :: int where "EIO = 5"
definition EBADF :: int where "EBADF = 9"
definition EINVAL :: int where "EINVAL = 22"
definition EMFILE :: int where "EMFILE = 24"
definition FILE_BUF_SIZE :: nat where "FILE_BUF_SIZE = 4096"
definition FILE_MAX :: nat where "FILE_MAX = 16"

definition buf_size :: "stream \<Rightarrow> nat" where
  "buf_size f = length (f_buf f)"

definition on_fp :: "(stream \<Rightarrow> stream) \<Rightarrow> 'k io \<Rightarrow> 'k io" where
  "on_fp f s = s\<lparr>fp := f (fp s)\<rparr>"

definition io_fail :: "int \<Rightarrow> 'k io \<Rightarrow> 'k io" where
  "io_fail e s = s\<lparr>fp := (fp s)\<lparr>io_err := True\<rparr>, io_errno := e\<rparr>"

subsection \<open>Flushing and filling\<close>

text \<open>The loop of \<^verbatim>\<open>file_flush_locked\<close> from the byte number \<open>sent\<close> of the buffer on; the flag is success.\<close>

function flush_loop :: "'k sys_ops \<Rightarrow> nat \<Rightarrow> 'k io \<Rightarrow> bool \<times> 'k io" where
  "flush_loop os sent s =
     (let f = fp s
      in if buf_end f \<le> sent then (True, on_fp (\<lambda>f. f\<lparr>buf_end := 0, io_dirty := False\<rparr>) s)
         else case onyx_write os (fd f) (drop sent (take (buf_end f) (f_buf f))) (io_os s) of
           (n, k) \<Rightarrow>
             if n \<le> 0
             then (False, io_fail (if n < 0 then - n else EIO)
                    (s\<lparr>io_os := k, fp := f\<lparr>f_buf := drop sent (take (buf_end f) (f_buf f)) @ drop (buf_end f - sent) (f_buf f),
                                            buf_end := buf_end f - sent\<rparr>\<rparr>))
             else flush_loop os (sent + nat n) (s\<lparr>io_os := k, fp := f\<lparr>f_pos := f_pos f + n\<rparr>\<rparr>))"
  by pat_completeness auto
termination
  by (relation "measure (\<lambda>(os, sent, s). buf_end (fp s) - sent)") auto

declare flush_loop.simps [simp del]

definition file_flush_locked :: "'k sys_ops \<Rightarrow> 'k io \<Rightarrow> bool \<times> 'k io" where
  "file_flush_locked os s = (if \<not> io_dirty (fp s) then (True, s) else flush_loop os 0 s)"

text \<open>The result is the number of bytes read, 0 at the end of the file.\<close>

definition file_fill_locked :: "'k sys_ops \<Rightarrow> 'k io \<Rightarrow> int \<times> 'k io" where
  "file_fill_locked os s =
     (let f = fp s
      in if io_eof f then (0, s)
         else case onyx_read os (fd f) (if io_unbuf f then 1 else buf_size f) (io_os s) of
           (n, bs, k) \<Rightarrow>
             if n < 0 then (- 1, io_fail (- n) (s\<lparr>io_os := k\<rparr>))
             else if n = 0 then (0, s\<lparr>io_os := k, fp := f\<lparr>io_eof := True\<rparr>\<rparr>)
             else (n, s\<lparr>io_os := k, fp := f\<lparr>f_buf := take (nat n) bs @ drop (nat n) (f_buf f), buf_start := 0, buf_end := nat n, f_pos := f_pos f + n\<rparr>\<rparr>))"

definition prepare_read :: "'k sys_ops \<Rightarrow> 'k io \<Rightarrow> bool \<times> 'k io" where
  "prepare_read os s =
     (if \<not> (io_read (fp s) \<or> io_rdwr (fp s)) then (False, io_fail EBADF s)
      else case file_flush_locked os s of
        (ok, s) \<Rightarrow> if ok then (True, on_fp (\<lambda>f. f\<lparr>io_unread := True\<rparr>) s) else (False, s))"

definition unread_bytes :: "stream \<Rightarrow> int" where
  "unread_bytes f = int (buf_end f) - int (buf_start f) + (if io_pushback f then 1 else 0)"

definition discard_input :: "'k sys_ops \<Rightarrow> 'k io \<Rightarrow> bool \<times> 'k io" where
  "discard_input os s =
     (let f = fp s; off = (\<lambda>f. f\<lparr>buf_start := 0, buf_end := 0, io_unread := False, io_pushback := False\<rparr>)
      in if \<not> io_unread f then (True, s)
         else if unread_bytes f = 0 then (True, on_fp off s)
         else case onyx_lseek os (fd f) (- unread_bytes f) 1 (io_os s) of
           (r, k) \<Rightarrow>
             if r < 0 then (False, io_fail (- r) (s\<lparr>io_os := k\<rparr>))
             else (True, s\<lparr>io_os := k, fp := off (f\<lparr>f_pos := r\<rparr>)\<rparr>))"

definition prepare_write :: "'k sys_ops \<Rightarrow> 'k io \<Rightarrow> bool \<times> 'k io" where
  "prepare_write os s =
     (if \<not> (io_write (fp s) \<or> io_rdwr (fp s)) then (False, io_fail EBADF s) else discard_input os s)"

subsection \<open>Writing\<close>

definition put_chunk :: "u8 list \<Rightarrow> 'k io \<Rightarrow> 'k io" where
  "put_chunk bs s =
     on_fp (\<lambda>f. f\<lparr>f_buf := take (buf_end f) (f_buf f) @ bs @ drop (buf_end f + length bs) (f_buf f),
                  buf_end := buf_end f + length bs, io_dirty := True\<rparr>) s"

text \<open>
  One round of the loop: the chunk that fits goes to the buffer, which is flushed if the stream is unbuffered or the chunk
  has a newline in a line-buffered one. The flag is success, the number that of the bytes taken.
\<close>

definition write_round :: "'k sys_ops \<Rightarrow> u8 list \<Rightarrow> 'k io \<Rightarrow> bool \<times> nat \<times> 'k io" where
  "write_round os rest_bytes s =
     (case (if buf_size (fp s) \<le> buf_end (fp s) then file_flush_locked os s else (True, s)) of
        (ok, s) \<Rightarrow>
          if \<not> ok then (False, 0, s)
          else let bs = take (buf_size (fp s) - buf_end (fp s)) rest_bytes; s = put_chunk bs s
               in case (if io_unbuf (fp s) then file_flush_locked os s else (True, s)) of
                    (ok, s) \<Rightarrow>
                      if \<not> ok then (False, 0, s)
                      else if io_line_buf (fp s) \<and> 10 \<in> set bs
                      then (case file_flush_locked os s of (ok, s) \<Rightarrow> (ok, if ok then length bs else 0, s))
                      else (True, length bs, s))"

partial_function (option) fwrite_loop :: "'k sys_ops \<Rightarrow> nat \<Rightarrow> u8 list \<Rightarrow> 'k io \<Rightarrow> (nat \<times> 'k io) option" where
  "fwrite_loop os put bs s =
     (if bs = [] then Some (put, s)
      else case write_round os bs s of
        (ok, n, s) \<Rightarrow> if ok then fwrite_loop os (put + n) (drop n bs) s else Some (put, s))"

declare fwrite_loop.simps [code]

text \<open>\<^verbatim>\<open>fwrite\<close> of \<open>count\<close> elements of \<open>sz\<close> bytes; the result is the number of elements.\<close>

definition fwrite :: "'k sys_ops \<Rightarrow> u8 list \<Rightarrow> u64 \<Rightarrow> u64 \<Rightarrow> 'k io \<Rightarrow> (nat \<times> 'k io) option" where
  "fwrite os bs sz count s =
     (if sz = 0 \<or> count = 0 then Some (0, s)
      else case prepare_write os s of
        (ok, s) \<Rightarrow>
          if \<not> ok then Some (0, s)
          else if (- 1) div sz < count then Some (0, io_fail EINVAL s)
          else map_option (\<lambda>(put, s). (put div unat sz, s)) (fwrite_loop os 0 (take (unat (sz * count)) bs) s))"

definition fputc :: "'k sys_ops \<Rightarrow> u8 \<Rightarrow> 'k io \<Rightarrow> (bool \<times> 'k io) option" where
  "fputc os c s = map_option (\<lambda>(n, s). (n = 1, s)) (fwrite os [c] 1 1 s)"

definition fputs :: "'k sys_ops \<Rightarrow> u8 list \<Rightarrow> 'k io \<Rightarrow> (bool \<times> 'k io) option" where
  "fputs os str s = map_option (\<lambda>(n, s). (n = length str, s)) (fwrite os str 1 (word_of_nat (length str)) s)"

definition puts :: "'k sys_ops \<Rightarrow> u8 list \<Rightarrow> 'k io \<Rightarrow> (bool \<times> 'k io) option" where
  "puts os str s =
     (case fputs os str s of
        None \<Rightarrow> None
      | Some (ok, s) \<Rightarrow> if ok then fputc os 10 s else Some (False, s))"

definition fflush :: "'k sys_ops \<Rightarrow> 'k io \<Rightarrow> bool \<times> 'k io" where
  "fflush os s =
     (if fd (fp s) < 0 then (False, s\<lparr>io_errno := EBADF\<rparr>)
      else case file_flush_locked os s of (ok, s) \<Rightarrow> if ok then discard_input os s else (False, s))"

subsection \<open>Reading\<close>

lemma fill_fills: "file_fill_locked os s = (n, s') \<Longrightarrow> 0 < n \<Longrightarrow> buf_start (fp s') < buf_end (fp s')"
  by (auto simp: file_fill_locked_def Let_def io_fail_def split: if_splits prod.splits)

text \<open>The loop of \<^verbatim>\<open>fread\<close>: the bytes still wanted, those read.\<close>

function fread_loop :: "'k sys_ops \<Rightarrow> nat \<Rightarrow> u8 list \<Rightarrow> 'k io \<Rightarrow> u8 list \<times> 'k io" where
  "fread_loop os need got s =
     (if need = 0 then (got, s)
      else if io_pushback (fp s)
      then fread_loop os (need - 1) (got @ [pushback (fp s)]) (on_fp (\<lambda>f. f\<lparr>io_pushback := False\<rparr>) s)
      else case (if buf_end (fp s) \<le> buf_start (fp s) then file_fill_locked os s else (1, s)) of
        (n, s) \<Rightarrow>
          if n \<le> 0 then (got, s)
          else let f = fp s; n = min (buf_end f - buf_start f) need
               in fread_loop os (need - n) (got @ take n (drop (buf_start f) (f_buf f))) (on_fp (\<lambda>f. f\<lparr>buf_start := buf_start f + n\<rparr>) s))"
  by pat_completeness auto
termination
proof (relation "measure (\<lambda>(os, need, got, s). need)", goal_cases)
  case (3 os need got s n' s' f n)
  have "buf_start (fp s') < buf_end (fp s')"
  proof (cases "buf_end (fp s) \<le> buf_start (fp s)")
    case True
    with 3(3) have "file_fill_locked os s = (n', s')" by simp
    then show ?thesis by (rule fill_fills) (use 3(4) in simp)
  qed (use 3(3) in simp)
  with 3(1, 5, 6) show ?case by simp
qed simp_all

declare fread_loop.simps [simp del]

definition fread :: "'k sys_ops \<Rightarrow> u64 \<Rightarrow> u64 \<Rightarrow> 'k io \<Rightarrow> nat \<times> u8 list \<times> 'k io" where
  "fread os sz count s =
     (if sz = 0 \<or> count = 0 then (0, [], s)
      else if (- 1) div sz < count then (0, [], io_fail EINVAL s)
      else case prepare_read os s of
        (ok, s) \<Rightarrow>
          if \<not> ok then (0, [], s)
          else case fread_loop os (unat (sz * count)) [] s of (got, s) \<Rightarrow> (length got div unat sz, got, s))"

definition fgetc :: "'k sys_ops \<Rightarrow> 'k io \<Rightarrow> u8 option \<times> 'k io" where
  "fgetc os s =
     (case prepare_read os s of
        (ok, s) \<Rightarrow>
          if \<not> ok then (None, s)
          else if io_pushback (fp s) then (Some (pushback (fp s)), on_fp (\<lambda>f. f\<lparr>io_pushback := False\<rparr>) s)
          else case (if buf_end (fp s) \<le> buf_start (fp s) then file_fill_locked os s else (1, s)) of
            (n, s) \<Rightarrow>
              if n \<le> 0 then (None, s)
              else (Some (f_buf (fp s) ! buf_start (fp s)), on_fp (\<lambda>f. f\<lparr>buf_start := buf_start f + 1\<rparr>) s))"

definition ungetc :: "'k sys_ops \<Rightarrow> u8 \<Rightarrow> 'k io \<Rightarrow> bool \<times> 'k io" where
  "ungetc os c s =
     (case prepare_read os s of
        (ok, s) \<Rightarrow>
          if \<not> ok \<or> io_pushback (fp s) then (False, s)
          else (True, on_fp (\<lambda>f. f\<lparr>pushback := c, io_pushback := True, io_eof := False\<rparr>) s))"

text \<open>\<^verbatim>\<open>fgets\<close> with room for \<open>n\<close> bytes before the NUL: the line without it.\<close>

primrec fgets_loop :: "'k sys_ops \<Rightarrow> nat \<Rightarrow> u8 list \<Rightarrow> 'k io \<Rightarrow> u8 list option \<times> 'k io" where
  "fgets_loop os 0 line s = (Some line, s)"
| "fgets_loop os (Suc n) line s =
     (case fgetc os s of
        (None, s) \<Rightarrow> (if line = [] then None else Some line, s)
      | (Some c, s) \<Rightarrow> if c = 10 then (Some (line @ [c]), s) else fgets_loop os n (line @ [c]) s)"

definition fgets :: "'k sys_ops \<Rightarrow> int \<Rightarrow> 'k io \<Rightarrow> u8 list option \<times> 'k io" where
  "fgets os n s = (if n \<le> 0 then (None, s) else fgets_loop os (nat (n - 1)) [] s)"

subsection \<open>Position and state\<close>

definition LONG_MIN :: int where "LONG_MIN = - (2 ^ 63)"

definition fseek :: "'k sys_ops \<Rightarrow> int \<Rightarrow> int \<Rightarrow> 'k io \<Rightarrow> bool \<times> 'k io" where
  "fseek os offset whence s =
     (if fd (fp s) < 0 then (False, s\<lparr>io_errno := EBADF\<rparr>)
      else case file_flush_locked os s of
        (ok, s) \<Rightarrow>
          if \<not> ok then (False, s)
          else let relative = whence = 1 \<and> io_unread (fp s)
               in if relative \<and> offset < LONG_MIN + unread_bytes (fp s) then (False, s\<lparr>io_errno := EINVAL\<rparr>)
                  else case onyx_lseek os (fd (fp s)) (if relative then offset - unread_bytes (fp s) else offset) whence (io_os s) of
                    (r, k) \<Rightarrow>
                      if r < 0 then (False, s\<lparr>io_os := k, io_errno := - r\<rparr>)
                      else (True, s\<lparr>io_os := k, fp := (fp s)\<lparr>f_pos := r, buf_start := 0, buf_end := 0, io_eof := False, io_unread := False, io_pushback := False\<rparr>\<rparr>))"

definition ftell :: "'k sys_ops \<Rightarrow> 'k io \<Rightarrow> int \<times> 'k io" where
  "ftell os s =
     (if fd (fp s) < 0 then (- 1, s\<lparr>io_errno := EBADF\<rparr>)
      else case onyx_lseek os (fd (fp s)) 0 (if io_append (fp s) \<and> io_dirty (fp s) then 2 else 1) (io_os s) of
        (r, k) \<Rightarrow>
          if r < 0 then (- 1, s\<lparr>io_os := k, io_errno := - r\<rparr>)
          else let s = s\<lparr>io_os := k, fp := (fp s)\<lparr>f_pos := r\<rparr>\<rparr>
               in (if io_unread (fp s) then r - unread_bytes (fp s)
                   else if io_dirty (fp s) then r + int (buf_end (fp s)) else r, s))"

definition clearerr :: "stream \<Rightarrow> stream" where
  "clearerr f = f\<lparr>io_eof := False, io_err := False\<rparr>"

definition rewind :: "'k sys_ops \<Rightarrow> 'k io \<Rightarrow> 'k io" where
  "rewind os s = on_fp (\<lambda>f. f\<lparr>io_err := False\<rparr>) (snd (fseek os 0 0 s))"

subsection \<open>Opening and closing\<close>

text \<open>The letters behind the first of a mode: a plus sign and a \<^verbatim>\<open>b\<close>, each at most once.\<close>

fun mode_letters :: "bool \<Rightarrow> bool \<Rightarrow> u8 list \<Rightarrow> bool option" where
  "mode_letters upd binary [] = Some upd"
| "mode_letters upd binary (c # cs) =
     (if c = of_char CHR ''+'' \<and> \<not> upd then mode_letters True binary cs
      else if c = of_char CHR ''b'' \<and> \<not> binary then mode_letters upd True cs
      else None)"

definition open_mode :: "u8 list \<Rightarrow> ((stream \<Rightarrow> stream) \<times> int) option" where
  "open_mode mode =
     (case mode of
        [] \<Rightarrow> None
      | c # cs \<Rightarrow>
          (case mode_letters False False cs of
             None \<Rightarrow> None
           | Some upd \<Rightarrow>
               if c = of_char CHR ''r''
               then Some (\<lambda>f. f\<lparr>io_rdwr := upd, io_read := \<not> upd\<rparr>, if upd then 2 else 0)
               else if c = of_char CHR ''w'' \<or> c = of_char CHR ''a''
               then Some (\<lambda>f. f\<lparr>io_rdwr := upd, io_write := \<not> upd, io_append := c = of_char CHR ''a''\<rparr>,
                          (if upd then 2 else 1) + 0x40 + (if c = of_char CHR ''w'' then 0x200 else 0x400))
               else None))"

text \<open>\<^verbatim>\<open>flags = 0\<close> with a new buffer and nothing in it.\<close>

definition reset_stream :: "u8 list \<Rightarrow> stream \<Rightarrow> stream" where
  "reset_stream buf f =
     f\<lparr>io_read := False, io_write := False, io_rdwr := False, io_eof := False, io_err := False, io_dirty := False, io_unread := False,
       io_line_buf := False, io_unbuf := False, io_pushback := False, io_append := False, f_buf := buf, buf_start := 0, buf_end := 0\<rparr>"

text \<open>The table of streams and their arrays; what an array holds before it is filled is never read.\<close>

record 'k files =
  g_streams :: "stream list"
  g_stream_bufs :: "u8 list list"
  fs_errno :: int
  fs_os :: 'k

definition fopen :: "'k sys_ops \<Rightarrow> u8 list \<Rightarrow> u8 list \<Rightarrow> 'k files \<Rightarrow> nat option \<times> 'k files" where
  "fopen os path mode s =
     (case open_mode mode of
        None \<Rightarrow> (None, s\<lparr>fs_errno := EINVAL\<rparr>)
      | Some (flags, open_flags) \<Rightarrow>
          let i = length (takeWhile (\<lambda>f. fd f \<noteq> - 1) (g_streams s))
          in if length (g_streams s) \<le> i then (None, s\<lparr>fs_errno := EMFILE\<rparr>)
             else case onyx_open os path open_flags (fs_os s) of
               (r, k) \<Rightarrow>
                 if r < 0 then (None, s\<lparr>fs_os := k, fs_errno := - r\<rparr>)
                 else (Some i, s\<lparr>fs_os := k, g_streams := (g_streams s)[i := flags (reset_stream (g_stream_bufs s ! i) (g_streams s ! i))\<lparr>fd := r, f_pos := 0\<rparr>]\<rparr>))"

definition fclose :: "'k sys_ops \<Rightarrow> 'k io \<Rightarrow> bool \<times> 'k io" where
  "fclose os s =
     (if fd (fp s) < 0 then (False, s\<lparr>io_errno := EBADF\<rparr>)
      else case file_flush_locked os s of
        (ok, s) \<Rightarrow>
          (case onyx_close os (fd (fp s)) (io_os s) of
             (r, k) \<Rightarrow>
               let s = (if r < 0 then s\<lparr>io_os := k, io_errno := - r\<rparr> else s\<lparr>io_os := k\<rparr>)
               in (ok \<and> 0 \<le> r, s\<lparr>fp := (reset_stream [] (fp s))\<lparr>fd := - 1\<rparr>\<rparr>)))"

end
