(* ===== verification/Libc_Printf.thy ===== *)
theory Libc_Printf
  imports Libc_Stream
begin

text \<open>
  The format engine of \<^verbatim>\<open>printf\<close>, \<^verbatim>\<open>libonyxc/src/io/stdio.c\<close>. The functions are those of the code, over a context with a sink that takes one
  byte: the array of \<^verbatim>\<open>vsnprintf\<close> or the stream of \<^verbatim>\<open>vfprintf\<close>. The arguments are a list of values of the kinds a conversion reads; an
  argument that is missing or of another kind is undefined behaviour in C and the stop \<open>FmtArgument\<close>, a write behind a
  local array is \<open>FmtOverflow\<close>, reading behind the NUL of the format \<open>FmtOverread\<close>. The text of a floating-point value,
  \<^verbatim>\<open>format/float.c\<close>, is an argument.
\<close>

datatype fmt_stop = FmtArgument | FmtOverflow | FmtOverread

datatype 'd fmt_arg = AInt u64 | AStr "u8 list option" | ACount bool | ADouble 'd

record 'x fmt_ctx =
  c_total :: int
  c_err :: bool
  c_counts :: "int list"
  c_sink :: 'x

record fmt_spec =
  width :: int
  precision :: int
  is_long :: nat
  is_short :: nat
  is_size_t :: bool
  is_ptrdiff :: bool
  is_intmax :: bool
  flag_minus :: bool
  flag_plus :: bool
  flag_space :: bool
  flag_hash :: bool
  flag_zero :: bool

type_synonym 'x sink = "u8 \<Rightarrow> 'x \<Rightarrow> bool \<times> 'x"

definition INT_MAX :: int where "INT_MAX = 2 ^ 31 - 1"

definition INT_MIN :: int where "INT_MIN = - (2 ^ 31)"

definition to_int :: "nat \<Rightarrow> int" where
  "to_int n = sint (word_of_nat n :: 32 word)"

subsection \<open>Output\<close>

definition fmt_emit :: "'x sink \<Rightarrow> u8 \<Rightarrow> 'x fmt_ctx \<Rightarrow> 'x fmt_ctx" where
  "fmt_emit put ch c =
     (if c_err c then c
      else if c_total c = INT_MAX then c\<lparr>c_err := True\<rparr>
      else case put ch (c_sink c) of
        (ok, x) \<Rightarrow> if ok then c\<lparr>c_sink := x, c_total := c_total c + 1\<rparr> else c\<lparr>c_sink := x, c_err := True\<rparr>)"

definition fmt_emit_str :: "'x sink \<Rightarrow> u8 list \<Rightarrow> 'x fmt_ctx \<Rightarrow> 'x fmt_ctx" where
  "fmt_emit_str put bs c = fold (fmt_emit put) bs c"

text \<open>The digits of a number, the lowest first, as the arrays of 32 bytes hold them.\<close>

definition digit_char :: "bool \<Rightarrow> nat \<Rightarrow> u8" where
  "digit_char upper d = of_char ((if upper then ''0123456789ABCDEF'' else ''0123456789abcdef'') ! d)"

primrec digits_low :: "nat \<Rightarrow> nat \<Rightarrow> bool \<Rightarrow> nat \<Rightarrow> u8 list" where
  "digits_low 0 base upper u = []"
| "digits_low (Suc k) base upper u = (if u = 0 then [] else digit_char upper (u mod base) # digits_low k base upper (u div base))"

definition fmt_emit_padded :: "'x sink \<Rightarrow> u8 list \<Rightarrow> fmt_spec \<Rightarrow> bool \<Rightarrow> u8 option \<Rightarrow> 'x fmt_ctx \<Rightarrow> 'x fmt_ctx" where
  "fmt_emit_padded put s sp numeric sign c =
     (let content = to_int (length s) + (if sign \<noteq> None then 1 else 0);
          pad = (if content < width sp then nat (width sp - content) else 0);
          pad_char = (if numeric \<and> flag_zero sp \<and> \<not> flag_minus sp then 48 else 32);
          c = (case sign of None \<Rightarrow> c | Some ch \<Rightarrow> fmt_emit put ch c)
      in if flag_minus sp then fmt_emit_str put (s @ replicate pad 32) c
         else fmt_emit_str put (replicate pad pad_char @ s) c)"

definition format_str :: "'x sink \<Rightarrow> fmt_spec \<Rightarrow> u8 list option \<Rightarrow> 'x fmt_ctx \<Rightarrow> 'x fmt_ctx" where
  "format_str put sp str c =
     (let s = (case str of None \<Rightarrow> bytes_of ''(null)'' | Some s \<Rightarrow> s);
          s = (if 0 \<le> precision sp \<and> precision sp < to_int (length s) then take (nat (precision sp)) s else s)
      in fmt_emit_padded put s sp False None c)"

subsection \<open>Integers\<close>

text \<open>The digits with the zeros of the precision, in the order in which they are printed.\<close>

definition int_digits :: "fmt_spec \<Rightarrow> u64 \<Rightarrow> nat \<Rightarrow> bool \<Rightarrow> fmt_stop + u8 list" where
  "int_digits sp u base upper =
     (let buf = (if u = 0 then [48] else digits_low 32 base upper (unat u)); n = int (length buf)
      in if 0 < precision sp \<and> n < precision sp
         then (if 32 < precision sp then Inl FmtOverflow else Inr (rev (replicate (nat (precision sp - n)) 48 @ buf)))
         else Inr (rev buf))"

definition int_sign :: "fmt_spec \<Rightarrow> bool \<Rightarrow> nat \<Rightarrow> u8 option" where
  "int_sign sp neg base =
     (if base \<noteq> 10 then None
      else if neg then Some (of_char CHR ''-'')
      else if flag_plus sp then Some (of_char CHR ''+'')
      else if flag_space sp then Some 32 else None)"

definition int_prefix :: "fmt_spec \<Rightarrow> u64 \<Rightarrow> nat \<Rightarrow> bool \<Rightarrow> u8 list \<Rightarrow> u8 list" where
  "int_prefix sp v base upper digits =
     (if \<not> flag_hash sp then []
      else if base = 16 \<and> v \<noteq> 0 then [48, of_char (if upper then CHR ''X'' else CHR ''x'')]
      else if base = 8 \<and> v \<noteq> 0 \<and> digits ! 0 \<noteq> 48 then [48] else [])"

definition format_int :: "'x sink \<Rightarrow> fmt_spec \<Rightarrow> u64 \<Rightarrow> nat \<Rightarrow> bool \<Rightarrow> 'x fmt_ctx \<Rightarrow> fmt_stop + 'x fmt_ctx" where
  "format_int put sp v base upper c =
     (let neg = sint v < 0 \<and> base = 10; u = (if neg then - v else v)
      in bindE (int_digits sp u base upper)
           (\<lambda>digits.
              let sign = int_sign sp neg base; prefix = int_prefix sp v base upper digits; full = prefix @ digits
              in Inr (if flag_zero sp \<and> \<not> flag_minus sp
                      then (let c = (case sign of None \<Rightarrow> c | Some ch \<Rightarrow> fmt_emit put ch c);
                                pad = nat (width sp - int (length full) - (if sign \<noteq> None then 1 else 0))
                            in fmt_emit_str put (prefix @ replicate pad 48 @ digits) c)
                      else fmt_emit_padded put full sp True sign c)))"

text \<open>
  The code negates the value as a \<^verbatim>\<open>long long\<close>; for the smallest value this is undefined in C, and the model wraps around as the
  negation of the target does.
\<close>

text \<open>\<^verbatim>\<open>%p\<close>.\<close>

definition format_ptr :: "'x sink \<Rightarrow> u64 \<Rightarrow> 'x fmt_ctx \<Rightarrow> 'x fmt_ctx" where
  "format_ptr put v c =
     fmt_emit_str put (bytes_of ''0x'' @ rev (if v = 0 then [48] else digits_low 16 16 False (unat v))) c"

subsection \<open>The format\<close>

fun fmt_flags :: "fmt_spec \<Rightarrow> u8 list \<Rightarrow> fmt_spec \<times> u8 list" where
  "fmt_flags sp [] = (sp, [])"
| "fmt_flags sp (ch # fmt) =
     (if ch = of_char CHR ''-'' then fmt_flags (sp\<lparr>flag_minus := True\<rparr>) fmt
      else if ch = of_char CHR ''+'' then fmt_flags (sp\<lparr>flag_plus := True\<rparr>) fmt
      else if ch = 32 then fmt_flags (sp\<lparr>flag_space := True\<rparr>) fmt
      else if ch = of_char CHR ''#'' then fmt_flags (sp\<lparr>flag_hash := True\<rparr>) fmt
      else if ch = 48 then fmt_flags (sp\<lparr>flag_zero := True\<rparr>) fmt
      else (sp, ch # fmt))"

definition is_dec :: "u8 \<Rightarrow> bool" where
  "is_dec ch \<longleftrightarrow> 48 \<le> uint ch \<and> uint ch \<le> 57"

text \<open>A number of the format; \<^const>\<open>None\<close> is one that does not fit an \<^verbatim>\<open>int\<close>.\<close>

fun fmt_number :: "int \<Rightarrow> u8 list \<Rightarrow> int option \<times> u8 list" where
  "fmt_number w [] = (Some w, [])"
| "fmt_number w (ch # fmt) =
     (if \<not> is_dec ch then (Some w, ch # fmt)
      else let d = uint ch - 48
           in if (INT_MAX - d) div 10 < w then (None, ch # fmt) else fmt_number (w * 10 + d) fmt)"

fun fmt_length :: "fmt_spec \<Rightarrow> u8 list \<Rightarrow> fmt_spec \<times> u8 list" where
  "fmt_length sp [] = (sp, [])"
| "fmt_length sp (ch # fmt) =
     (if ch = of_char CHR ''l'' then fmt_length (sp\<lparr>is_long := (if is_long sp \<noteq> 0 then 2 else 1)\<rparr>) fmt
      else if ch = of_char CHR ''h'' then fmt_length (sp\<lparr>is_short := (if is_short sp \<noteq> 0 then 2 else 1)\<rparr>) fmt
      else if ch = of_char CHR ''z'' then fmt_length (sp\<lparr>is_size_t := True\<rparr>) fmt
      else if ch = of_char CHR ''j'' then fmt_length (sp\<lparr>is_intmax := True\<rparr>) fmt
      else if ch = of_char CHR ''t'' then fmt_length (sp\<lparr>is_ptrdiff := True\<rparr>) fmt
      else if ch = of_char CHR ''L'' then fmt_length sp fmt
      else (sp, ch # fmt))"

text \<open>\<^verbatim>\<open>va_arg\<close> for the integer kinds, as the 64-bit value it is converted to.\<close>

definition va_int :: "'d fmt_arg list \<Rightarrow> fmt_stop + int \<times> 'd fmt_arg list" where
  "va_int args = (case args of AInt v # args \<Rightarrow> Inr (sint (ucast v :: 32 word), args) | _ \<Rightarrow> Inl FmtArgument)"

definition va_signed :: "fmt_spec \<Rightarrow> 'd fmt_arg list \<Rightarrow> fmt_stop + u64 \<times> 'd fmt_arg list" where
  "va_signed sp args =
     (case args of
        AInt v # args \<Rightarrow>
          Inr (if is_long sp = 2 \<or> is_intmax sp \<or> is_long sp = 1 \<or> is_size_t sp \<or> is_ptrdiff sp then v else scast (ucast v :: 32 word), args)
      | _ \<Rightarrow> Inl FmtArgument)"

definition va_unsigned :: "fmt_spec \<Rightarrow> 'd fmt_arg list \<Rightarrow> fmt_stop + u64 \<times> 'd fmt_arg list" where
  "va_unsigned sp args =
     (case args of
        AInt v # args \<Rightarrow>
          Inr (if is_long sp = 2 \<or> is_intmax sp \<or> is_long sp = 1 \<or> is_size_t sp \<or> is_ptrdiff sp then v else ucast (ucast v :: 32 word), args)
      | _ \<Rightarrow> Inl FmtArgument)"


definition fmt_width :: "fmt_spec \<Rightarrow> u8 list \<Rightarrow> 'd fmt_arg list \<Rightarrow> fmt_stop + (fmt_spec \<times> u8 list \<times> 'd fmt_arg list) option" where
  "fmt_width sp fmt args =
     (if fmt \<noteq> [] \<and> hd fmt = of_char CHR ''*''
      then bindE (va_int args)
             (\<lambda>(w, args).
                if w = INT_MIN then Inr None
                else Inr (Some (if w < 0 then sp\<lparr>flag_minus := True, width := - w\<rparr> else sp\<lparr>width := w\<rparr>, tl fmt, args)))
      else case fmt_number 0 fmt of
        (None, fmt) \<Rightarrow> Inr None
      | (Some w, fmt) \<Rightarrow> Inr (Some (if 0 < w then sp\<lparr>width := w\<rparr> else sp, fmt, args)))"

definition fmt_precision :: "fmt_spec \<Rightarrow> u8 list \<Rightarrow> 'd fmt_arg list \<Rightarrow> fmt_stop + (fmt_spec \<times> u8 list \<times> 'd fmt_arg list) option" where
  "fmt_precision sp fmt args =
     (if fmt = [] \<or> hd fmt \<noteq> of_char CHR ''.'' then Inr (Some (sp, fmt, args))
      else let fmt = tl fmt
           in if fmt \<noteq> [] \<and> hd fmt = of_char CHR ''*''
              then bindE (va_int args) (\<lambda>(p, args). Inr (Some (sp\<lparr>precision := if p < 0 then - 1 else p\<rparr>, tl fmt, args)))
              else case fmt_number 0 fmt of
                (None, fmt) \<Rightarrow> Inr None
              | (Some p, fmt) \<Rightarrow> Inr (Some (sp\<lparr>precision := p\<rparr>, fmt, args)))"

definition no_fmt :: fmt_spec where
  "no_fmt = \<lparr>width = - 1, precision = - 1, is_long = 0, is_short = 0, is_size_t = False, is_ptrdiff = False, is_intmax = False,
     flag_minus = False, flag_plus = False, flag_space = False, flag_hash = False, flag_zero = False\<rparr>"

text \<open>A conversion behind its percent sign; \<^const>\<open>None\<close> is the early return with an error.\<close>

definition parse_spec :: "u8 list \<Rightarrow> 'd fmt_arg list \<Rightarrow> fmt_stop + (fmt_spec \<times> u8 \<times> u8 list \<times> 'd fmt_arg list) option" where
  "parse_spec fmt args =
     (case fmt_flags no_fmt fmt of
        (sp, fmt) \<Rightarrow>
          bindE (fmt_width sp fmt args)
            (\<lambda>w. case w of
               None \<Rightarrow> Inr None
             | Some (sp, fmt, args) \<Rightarrow>
                 bindE (fmt_precision sp fmt args)
                   (\<lambda>p. case p of
                      None \<Rightarrow> Inr None
                    | Some (sp, fmt, args) \<Rightarrow>
                        (case fmt_length sp fmt of
                           (sp, []) \<Rightarrow> Inl FmtOverread
                         | (sp, spec # fmt) \<Rightarrow> Inr (Some (sp, spec, fmt, args))))))"

type_synonym 'd float_text = "'d \<Rightarrow> u8 \<Rightarrow> fmt_spec \<Rightarrow> u8 list \<times> bool"

definition convert_arg :: "'x sink \<Rightarrow> 'd float_text \<Rightarrow> fmt_spec \<Rightarrow> u8 \<Rightarrow> 'd fmt_arg list \<Rightarrow> 'x fmt_ctx \<Rightarrow> fmt_stop + 'd fmt_arg list \<times> 'x fmt_ctx" where
  "convert_arg put fl sp spec args c =
     (if spec = of_char CHR ''d'' \<or> spec = of_char CHR ''i''
      then bindE (va_signed sp args) (\<lambda>(v, args). bindE (format_int put sp v 10 False c) (\<lambda>c. Inr (args, c)))
      else if spec = of_char CHR ''u''
      then bindE (va_unsigned sp args) (\<lambda>(v, args). bindE (format_int put sp v 10 False c) (\<lambda>c. Inr (args, c)))
      else if spec = of_char CHR ''x''
      then bindE (va_unsigned sp args) (\<lambda>(v, args). bindE (format_int put sp v 16 False c) (\<lambda>c. Inr (args, c)))
      else if spec = of_char CHR ''X''
      then bindE (va_unsigned sp args) (\<lambda>(v, args). bindE (format_int put sp v 16 True c) (\<lambda>c. Inr (args, c)))
      else if spec = of_char CHR ''o''
      then bindE (va_unsigned sp args) (\<lambda>(v, args). bindE (format_int put sp v 8 False c) (\<lambda>c. Inr (args, c)))
      else if spec = of_char CHR ''c''
      then (case args of AInt v # args \<Rightarrow> Inr (args, fmt_emit_padded put [ucast v] sp False None c) | _ \<Rightarrow> Inl FmtArgument)
      else if spec = of_char CHR ''s''
      then (case args of AStr str # args \<Rightarrow> Inr (args, format_str put sp str c) | _ \<Rightarrow> Inl FmtArgument)
      else if spec = of_char CHR ''p''
      then (case args of AInt v # args \<Rightarrow> Inr (args, format_ptr put v c) | _ \<Rightarrow> Inl FmtArgument)
      else if spec = of_char CHR ''n''
      then (case args of
              ACount stored # args \<Rightarrow> Inr (args, if stored then c\<lparr>c_counts := c_counts c @ [c_total c]\<rparr> else c)
            | _ \<Rightarrow> Inl FmtArgument)
      else if spec = of_char CHR ''%'' then Inr (args, fmt_emit put spec c)
      else if spec \<in> {of_char CHR ''f'', of_char CHR ''F'', of_char CHR ''g'', of_char CHR ''G'', of_char CHR ''e'', of_char CHR ''E''}
      then (case args of
              ADouble x # args \<Rightarrow>
                (case fl x spec sp of
                   (bs, ok) \<Rightarrow> let c = fmt_emit_str put bs c in Inr (args, if ok \<and> \<not> c_err c then c else c\<lparr>c_err := True\<rparr>))
            | _ \<Rightarrow> Inl FmtArgument)
      else Inr (args, fmt_emit put spec (fmt_emit put (of_char CHR ''%'') c)))"

lemma fmt_flags_le: "fmt_flags sp fmt = (sp', fmt') \<Longrightarrow> length fmt' \<le> length fmt"
  by (induction sp fmt arbitrary: sp' rule: fmt_flags.induct) (auto split: if_splits dest: le_SucI)

lemma fmt_length_le: "fmt_length sp fmt = (sp', fmt') \<Longrightarrow> length fmt' \<le> length fmt"
  by (induction sp fmt arbitrary: sp' rule: fmt_length.induct) (auto split: if_splits dest: le_SucI)

lemma fmt_number_le: "fmt_number w fmt = (w', fmt') \<Longrightarrow> length fmt' \<le> length fmt"
  by (induction w fmt rule: fmt_number.induct) (auto simp: Let_def split: if_splits dest: le_SucI)

lemma fmt_width_le: "fmt_width sp fmt args = Inr (Some (sp', fmt', args')) \<Longrightarrow> length fmt' \<le> length fmt"
  by (auto simp: fmt_width_def bindE_eq_Inr split: if_splits prod.splits option.splits dest!: fmt_number_le)

lemma fmt_precision_le: "fmt_precision sp fmt args = Inr (Some (sp', fmt', args')) \<Longrightarrow> length fmt' \<le> length fmt"
  by (auto simp: fmt_precision_def bindE_eq_Inr Let_def split: if_splits prod.splits option.splits dest!: fmt_number_le)

lemma parse_spec_less:
  assumes "parse_spec fmt args = Inr (Some (sp, spec, fmt', args'))"
  shows "length fmt' < length fmt"
proof -
  obtain sp1 f1 where 1: "fmt_flags no_fmt fmt = (sp1, f1)" by (cases "fmt_flags no_fmt fmt")
  obtain sp2 f2 a2 where 2: "fmt_width sp1 f1 args = Inr (Some (sp2, f2, a2))"
    using assms 1 by (cases "fmt_width sp1 f1 args") (auto simp: parse_spec_def split: option.splits)
  obtain sp3 f3 a3 where 3: "fmt_precision sp2 f2 a2 = Inr (Some (sp3, f3, a3))"
    using assms 1 2 by (cases "fmt_precision sp2 f2 a2") (auto simp: parse_spec_def split: option.splits)
  obtain sp4 f4 where 4: "fmt_length sp3 f3 = (sp4, f4)" by (cases "fmt_length sp3 f3")
  have "f4 = spec # fmt'" using assms 1 2 3 4 by (cases f4) (auto simp: parse_spec_def)
  with fmt_flags_le [OF 1] fmt_width_le [OF 2] fmt_precision_le [OF 3] fmt_length_le [OF 4] show ?thesis by simp
qed

function vformat_run :: "'x sink \<Rightarrow> 'd float_text \<Rightarrow> u8 list \<Rightarrow> 'd fmt_arg list \<Rightarrow> 'x fmt_ctx \<Rightarrow> fmt_stop + 'x fmt_ctx" where
  "vformat_run put fl [] args c = Inr c"
| "vformat_run put fl (ch # fmt) args c =
     (if ch \<noteq> of_char CHR ''%'' then vformat_run put fl fmt args (fmt_emit put ch c)
      else case parse_spec fmt args of
        Inl e \<Rightarrow> Inl e
      | Inr None \<Rightarrow> Inr (c\<lparr>c_err := True\<rparr>)
      | Inr (Some (sp, spec, fmt', args')) \<Rightarrow>
          (case convert_arg put fl sp spec args' c of
             Inl e \<Rightarrow> Inl e
           | Inr (args'', c) \<Rightarrow> vformat_run put fl fmt' args'' c))"
  by pat_completeness auto
termination
proof (relation "measure (\<lambda>(put, fl, fmt, args, c). length fmt)", goal_cases)
  case (3 put fl ch fmt args c)
  then show ?case by (auto dest: parse_spec_less)
qed simp_all

declare vformat_run.simps(2) [simp del]

subsection \<open>Entry points\<close>

definition buf_put :: "nat \<Rightarrow> u8 list sink" where
  "buf_put cap ch bs = (True, if length bs < cap then bs @ [ch] else bs)"

text \<open>
  \<^verbatim>\<open>vsnprintf\<close>: the return value and the bytes stored in the buffer of \<open>cap\<close> bytes, the NUL among them. It replaces the
  last byte of a full buffer.
\<close>

definition vsnprintf :: "'d float_text \<Rightarrow> nat \<Rightarrow> u8 list \<Rightarrow> 'd fmt_arg list \<Rightarrow> fmt_stop + int \<times> u8 list" where
  "vsnprintf fl cap fmt args =
     bindE (vformat_run (buf_put cap) fl fmt args \<lparr>c_total = 0, c_err = False, c_counts = [], c_sink = []\<rparr>)
       (\<lambda>c. let bs = c_sink c
            in Inr (if c_err c then - 1 else c_total c,
                    if cap = 0 then [] else if length bs < cap then bs @ [0] else take (cap - 1) bs @ [0]))"

definition stream_put :: "'k sys_ops \<Rightarrow> ('k io) option sink" where
  "stream_put os ch s =
     (case s of
        None \<Rightarrow> (False, None)
      | Some s \<Rightarrow> (case fputc os ch s of None \<Rightarrow> (False, None) | Some (ok, s) \<Rightarrow> (ok, Some s)))"

definition vfprintf :: "'k sys_ops \<Rightarrow> 'd float_text \<Rightarrow> u8 list \<Rightarrow> 'd fmt_arg list \<Rightarrow> 'k io \<Rightarrow> fmt_stop + int \<times> ('k io) option" where
  "vfprintf os fl fmt args s =
     bindE (vformat_run (stream_put os) fl fmt args \<lparr>c_total = 0, c_err = False, c_counts = [], c_sink = Some s\<rparr>)
       (\<lambda>c. Inr (if c_err c then - 1 else c_total c, c_sink c))"

end
