(* ===== verification/Libc_Stream_Props.thy ===== *)
theory Libc_Stream_Props
  imports Libc_Stream
begin

text \<open>
  Buffering is transparent, for the streams of \<^verbatim>\<open>libonyxc/src/io/stdio.c\<close>: what a program writes reaches the file in order, once and
  completely, and what it reads are the bytes of the file in order, whatever the size of the
  buffer and however little a system call transfers.
\<close>

subsection \<open>What is relied on\<close>

text \<open>
  The behaviour of the system calls, as POSIX documents it: \<open>out\<close> is what a file has received, \<open>inp\<close> what is still to be
  read. A call may transfer less than asked for.
\<close>

definition write_ok :: "'k sys_ops \<Rightarrow> (int \<Rightarrow> 'k \<Rightarrow> u8 list) \<Rightarrow> bool" where
  "write_ok os out \<longleftrightarrow>
     (\<forall>d bs k n k'. onyx_write os d bs k = (n, k') \<longrightarrow>
        (if 0 < n then n \<le> int (length bs) \<and> out d k' = out d k @ take (nat n) bs else out d k' = out d k))"

definition read_ok :: "'k sys_ops \<Rightarrow> (int \<Rightarrow> 'k \<Rightarrow> u8 list) \<Rightarrow> bool" where
  "read_ok os inp \<longleftrightarrow>
     (\<forall>d m k n bs k'. 0 < m \<and> onyx_read os d m k = (n, bs, k') \<longrightarrow>
        (if 0 < n then n \<le> int m \<and> nat n \<le> length bs \<and> inp d k = take (nat n) bs @ inp d k'
         else inp d k' = inp d k \<and> (n = 0 \<longrightarrow> inp d k = [])))"

subsection \<open>Writing\<close>

definition wr_ok :: "stream \<Rightarrow> bool" where
  "wr_ok f \<longleftrightarrow> 0 < buf_size f \<and> buf_end f \<le> buf_size f \<and> (\<not> io_dirty f \<longrightarrow> buf_end f = 0) \<and> \<not> io_unread f \<and> (io_write f \<or> io_rdwr f) \<and> 0 \<le> fd f"

definition pending :: "stream \<Rightarrow> u8 list" where
  "pending f = take (buf_end f) (f_buf f)"

text \<open>Everything written so far: what the file has received and what waits in the buffer.\<close>

definition all_written :: "(int \<Rightarrow> 'k \<Rightarrow> u8 list) \<Rightarrow> 'k io \<Rightarrow> u8 list" where
  "all_written out s = out (fd (fp s)) (io_os s) @ pending (fp s)"

definition keeps :: "(int \<Rightarrow> 'k \<Rightarrow> u8 list) \<Rightarrow> 'k io \<Rightarrow> 'k io \<Rightarrow> bool" where
  "keeps out s s' \<longleftrightarrow> wr_ok (fp s') \<and> all_written out s' = all_written out s \<and> buf_size (fp s') = buf_size (fp s)"

lemma pending_upd: "pending (f\<lparr>f_buf := b, buf_end := e, io_err := x\<rparr>) = take e b"
  by (simp add: pending_def)

lemma flush_loop_correct:
  assumes w: "write_ok os out"
  shows "flush_loop os sent s = (ok, s') \<Longrightarrow> sent \<le> buf_end (fp s) \<Longrightarrow> wr_ok (fp s) \<Longrightarrow> io_dirty (fp s) \<Longrightarrow>
    wr_ok (fp s') \<and> buf_size (fp s') = buf_size (fp s) \<and> (ok \<longrightarrow> buf_end (fp s') = 0) \<and>
    all_written out s' = out (fd (fp s)) (io_os s) @ drop sent (pending (fp s))"
proof (induction "buf_end (fp s) - sent" arbitrary: sent s rule: less_induct)
  case less
  show ?case
  proof (cases "buf_end (fp s) \<le> sent")
    case True
    with less.prems show ?thesis
      by (subst (asm) flush_loop.simps) (auto simp: Let_def on_fp_def wr_ok_def buf_size_def all_written_def pending_def)
  next
    case False
    let ?f = "fp s" and ?bs = "drop sent (pending (fp s))"
    obtain n k where nk: "onyx_write os (fd ?f) ?bs (io_os s) = (n, k)" by (cases "onyx_write os (fd ?f) ?bs (io_os s)")
    have len: "length ?bs = buf_end ?f - sent" using less.prems(3) by (simp add: pending_def wr_ok_def buf_size_def)
    show ?thesis
    proof (cases "0 < n")
      case True
      have "if 0 < n then n \<le> int (length ?bs) \<and> out (fd ?f) k = out (fd ?f) (io_os s) @ take (nat n) ?bs else out (fd ?f) k = out (fd ?f) (io_os s)"
        using w nk unfolding write_ok_def by blast
      then have le: "n \<le> int (length ?bs)" and out: "out (fd ?f) k = out (fd ?f) (io_os s) @ take (nat n) ?bs"
        using True by (simp_all split: if_splits)
      from le have n: "sent + nat n \<le> buf_end ?f" using True False unfolding len by linarith
      let ?s = "s\<lparr>io_os := k, fp := ?f\<lparr>f_pos := f_pos ?f + n\<rparr>\<rparr>"
      have r: "flush_loop os (sent + nat n) ?s = (ok, s')"
        using less.prems(1) False True nk by (subst (asm) flush_loop.simps) (simp add: Let_def pending_def)
      have shorter: "buf_end (fp ?s) - (sent + nat n) < buf_end ?f - sent" using True False by simp
      have prems: "sent + nat n \<le> buf_end (fp ?s)" "wr_ok (fp ?s)" "io_dirty (fp ?s)"
        using n less.prems by (simp_all add: wr_ok_def buf_size_def)
      have "take (nat n) ?bs @ drop (sent + nat n) (pending (fp ?s)) = ?bs"
        using append_take_drop_id [of "nat n" ?bs] by (simp add: pending_def add.commute)
      with less.hyps [OF shorter r prems] out show ?thesis by (simp add: buf_size_def)
    next
      case neg: False
      then have out: "out (fd ?f) k = out (fd ?f) (io_os s)" using w nk by (auto simp: write_ok_def)
      have r: "(ok, s') = (False, io_fail (if n < 0 then - n else EIO)
        (s\<lparr>io_os := k, fp := ?f\<lparr>f_buf := ?bs @ drop (buf_end ?f - sent) (f_buf ?f), buf_end := buf_end ?f - sent\<rparr>\<rparr>))"
        using less.prems(1) False neg nk by (subst (asm) flush_loop.simps) (simp add: Let_def pending_def)
      have "length (f_buf ?f) = length ?bs + length (drop (buf_end ?f - sent) (f_buf ?f))"
        using len less.prems(3) unfolding wr_ok_def buf_size_def length_drop by linarith
      then have size: "length (?bs @ drop (buf_end ?f - sent) (f_buf ?f)) = length (f_buf ?f)" by simp
      have t: "take (buf_end ?f - sent) (?bs @ drop (buf_end ?f - sent) (f_buf ?f)) = ?bs" using len by simp
      from r have ok: "\<not> ok" and s': "s' = io_fail (if n < 0 then - n else EIO)
        (s\<lparr>io_os := k, fp := ?f\<lparr>f_buf := ?bs @ drop (buf_end ?f - sent) (f_buf ?f), buf_end := buf_end ?f - sent\<rparr>\<rparr>)" by simp_all
      have "wr_ok (fp s') \<and> buf_size (fp s') = buf_size ?f"
        using less.prems(3, 4) size unfolding s' wr_ok_def buf_size_def io_fail_def
        by (simp del: length_append) (meson diff_le_self le_trans)
      moreover have "all_written out s' = out (fd ?f) (io_os s) @ ?bs"
        using out unfolding s' all_written_def by (simp add: io_fail_def pending_upd t del: take_append)
      ultimately show ?thesis using ok by simp
    qed
  qed
qed

lemma flush_correct:
  assumes "write_ok os out" "wr_ok (fp s)" "file_flush_locked os s = (ok, s')"
  shows "keeps out s s'" "ok \<Longrightarrow> buf_end (fp s') = 0"
proof -
  have "keeps out s s' \<and> (ok \<longrightarrow> buf_end (fp s') = 0)"
  proof (cases "io_dirty (fp s)")
    case True
    then have "flush_loop os 0 s = (ok, s')" using assms(3) by (simp add: file_flush_locked_def)
    from flush_loop_correct [OF assms(1) this] True assms(2) show ?thesis by (simp add: keeps_def all_written_def)
  next
    case False
    with assms(2, 3) show ?thesis by (auto simp: file_flush_locked_def keeps_def wr_ok_def)
  qed
  then show "keeps out s s'" "ok \<Longrightarrow> buf_end (fp s') = 0" by simp_all
qed

lemma put_chunk_correct:
  assumes "wr_ok (fp s)" "length bs \<le> buf_size (fp s) - buf_end (fp s)"
  shows "wr_ok (fp (put_chunk bs s))" "all_written out (put_chunk bs s) = all_written out s @ bs" "buf_size (fp (put_chunk bs s)) = buf_size (fp s)"
  using assms by (auto simp: put_chunk_def on_fp_def wr_ok_def buf_size_def all_written_def pending_def)

lemma write_round_correct:
  assumes w: "write_ok os out" and s: "wr_ok (fp s)" and r: "write_round os bs s = (ok, n, s')" and "bs \<noteq> []"
  shows "wr_ok (fp s')" "\<exists>m \<le> length bs. n \<le> m \<and> all_written out s' = all_written out s @ take m bs" "ok \<Longrightarrow> 0 < n \<and> n \<le> length bs \<and> all_written out s' = all_written out s @ take n bs"
proof -
  obtain ok1 s1 where 1: "(if buf_size (fp s) \<le> buf_end (fp s) then file_flush_locked os s else (True, s)) = (ok1, s1)"
    by (cases "if buf_size (fp s) \<le> buf_end (fp s) then file_flush_locked os s else (True, s)")
  have k1: "keeps out s s1" and e1: "ok1 \<Longrightarrow> buf_end (fp s1) < buf_size (fp s1)"
    using 1 s flush_correct [OF w s, of ok1 s1] by (auto simp: keeps_def wr_ok_def split: if_splits)
  let ?c = "take (buf_size (fp s1) - buf_end (fp s1)) bs" and ?s2 = "put_chunk (take (buf_size (fp s1) - buf_end (fp s1)) bs) s1"
  have "wr_ok (fp s') \<and> (\<exists>m \<le> length bs. n \<le> m \<and> all_written out s' = all_written out s @ take m bs) \<and>
    (ok \<longrightarrow> 0 < n \<and> n \<le> length bs \<and> all_written out s' = all_written out s @ take n bs)"
  proof (cases ok1)
    case False
    with 1 r k1 show ?thesis by (auto simp: write_round_def keeps_def intro: exI [of _ 0])
  next
    case True
    have c: "length ?c \<le> buf_size (fp s1) - buf_end (fp s1)" "0 < length ?c" using e1 [OF True] assms(4) by auto
    have wr1: "wr_ok (fp s1)" using k1 by (simp add: keeps_def)
    have s2: "wr_ok (fp ?s2)" "all_written out ?s2 = all_written out s @ ?c"
      using put_chunk_correct(1) [OF wr1 c(1)] put_chunk_correct(2) [OF wr1 c(1), of out] k1 by (simp_all add: keeps_def)
    obtain ok3 s3 where 3: "(if io_unbuf (fp ?s2) then file_flush_locked os ?s2 else (True, ?s2)) = (ok3, s3)"
      by (cases "if io_unbuf (fp ?s2) then file_flush_locked os ?s2 else (True, ?s2)")
    have s3: "wr_ok (fp s3)" "all_written out s3 = all_written out s @ ?c"
      using 3 s2 flush_correct(1) [OF w s2(1), of ok3 s3] by (auto simp: keeps_def split: if_splits)
    obtain ok4 s4 where 4: "file_flush_locked os s3 = (ok4, s4)" by (cases "file_flush_locked os s3")
    have s4: "wr_ok (fp s4)" "all_written out s4 = all_written out s @ ?c"
      using flush_correct(1) [OF w s3(1) 4] s3(2) by (simp_all add: keeps_def)
    from r True 1 3 4 have "(ok, n, s') \<in> {(False, 0, s3), (ok4, if ok4 then length ?c else 0, s4), (True, length ?c, s3)}"
      by (auto simp: write_round_def Let_def split: if_splits)
    then have "(s' = s3 \<or> s' = s4) \<and> n \<le> length ?c \<and> (ok \<longrightarrow> n = length ?c)" by auto
    then have "wr_ok (fp s') \<and> all_written out s' = all_written out s @ ?c" "n \<le> length ?c" "ok \<longrightarrow> n = length ?c" using s3 s4 by auto
    moreover have "?c = take (length ?c) bs" "length ?c \<le> length bs" by (simp_all add: min_def)
    ultimately show ?thesis using c(2) by metis
  qed
  then show "wr_ok (fp s')" "\<exists>m \<le> length bs. n \<le> m \<and> all_written out s' = all_written out s @ take m bs"
    "ok \<Longrightarrow> 0 < n \<and> n \<le> length bs \<and> all_written out s' = all_written out s @ take n bs" by simp_all
qed

lemma fwrite_loop_correct:
  assumes w: "write_ok os out"
  shows "wr_ok (fp s) \<Longrightarrow> \<exists>put' m s'. fwrite_loop os put bs s = Some (put', s') \<and> wr_ok (fp s') \<and> put \<le> put' \<and> put' \<le> put + m \<and> m \<le> length bs \<and>
    all_written out s' = all_written out s @ take m bs"
proof (induction "length bs" arbitrary: bs put s rule: less_induct)
  case less
  show ?case
  proof (cases "bs = []")
    case True
    with less.prems show ?thesis by (subst fwrite_loop.simps) simp
  next
    case False
    obtain ok n s1 where r: "write_round os bs s = (ok, n, s1)" by (cases "write_round os bs s")
    note wr = write_round_correct [OF w less.prems r False]
    show ?thesis
    proof (cases ok)
      case True
      then have n: "0 < n" "n \<le> length bs" "all_written out s1 = all_written out s @ take n bs" using wr(3) by simp_all
      then have "length (drop n bs) < length bs" by simp
      from less.hyps [OF this wr(1), of "put + n"] obtain put' m s' where
        *: "fwrite_loop os (put + n) (drop n bs) s1 = Some (put', s')" "wr_ok (fp s')" "put + n \<le> put'" "put' \<le> put + n + m"
          "m \<le> length (drop n bs)" "all_written out s' = all_written out s1 @ take m (drop n bs)" by blast
      have "all_written out s' = all_written out s @ take (n + m) bs" using *(6) n(3) by (simp add: take_add)
      moreover have "fwrite_loop os put bs s = Some (put', s')" using *(1) r True False by (subst fwrite_loop.simps) simp
      moreover have "put \<le> put'" "put' \<le> put + (n + m)" "n + m \<le> length bs" using * n by auto
      ultimately show ?thesis using *(2) by blast
    next
      case nok: False
      then have "fwrite_loop os put bs s = Some (put, s1)" using r False by (subst fwrite_loop.simps) simp
      with wr(1, 2) show ?thesis by (metis le_add1 order_refl)
    qed
  qed
qed

text \<open>The test for an overflow of the product of the sizes.\<close>

lemma size_fits:
  fixes sz count :: u64
  assumes "unat sz * unat count < 2 ^ 64" "sz \<noteq> 0"
  shows "\<not> (- 1) div sz < count"
proof -
  have "unat count \<le> (2 ^ 64 - 1) div unat sz"
    using assms by (simp add: less_eq_div_iff_mult_less_eq unat_gt_0 mult.commute)
  then have "unat count \<le> unat ((- 1) div sz)" by (simp add: unat_div unsigned_minus_1_eq_mask mask_eq_exp_minus_1)
  then show ?thesis by (simp add: word_less_nat_alt)
qed

text \<open>
  \<^verbatim>\<open>fwrite\<close> always returns; what it reports as written was written, and nothing but a beginning of its bytes ever is.
\<close>

lemma fwrite_correct:
  assumes "write_ok os out" "wr_ok (fp s)" "unat sz * unat count = length bs" "length bs < 2 ^ 64"
  shows "\<exists>n m s'. fwrite os bs sz count s = Some (n, s') \<and> wr_ok (fp s') \<and> n * unat sz \<le> m \<and> m \<le> length bs \<and> all_written out s' = all_written out s @ take m bs"
proof (cases "sz = 0 \<or> count = 0")
  case True
  with assms(2) show ?thesis by (auto simp: fwrite_def intro: exI [of _ 0])
next
  case False
  have p: "prepare_write os s = (True, s)" using assms(2) by (auto simp: prepare_write_def discard_input_def wr_ok_def Let_def)
  have want: "unat (sz * count) = length bs" using assms(3, 4) by (simp add: unat_word_ariths)
  have fits: "\<not> (- 1) div sz < count" by (rule size_fits) (use assms(3, 4) False in simp_all)
  from fwrite_loop_correct [OF assms(1, 2), of 0 bs] obtain put m s' where
    l: "fwrite_loop os 0 bs s = Some (put, s')" "wr_ok (fp s')" "put \<le> m" "m \<le> length bs" "all_written out s' = all_written out s @ take m bs" by auto
  have "fwrite os bs sz count s = Some (put div unat sz, s')"
    using False p fits want l(1) by (simp add: fwrite_def)
  moreover have "put div unat sz * unat sz \<le> m" using l(3) by (meson div_times_less_eq_dividend order_trans)
  ultimately show ?thesis using l(2, 4, 5) by blast
qed

subsection \<open>Sequences of output operations\<close>

datatype out_op = Write u64 u64 "u8 list" | Putc u8 | Puts "u8 list" | Flush

fun op_bytes :: "out_op \<Rightarrow> u8 list" where
  "op_bytes (Write sz count bs) = bs"
| "op_bytes (Putc c) = [c]"
| "op_bytes (Puts str) = str"
| "op_bytes Flush = []"

fun op_fits :: "out_op \<Rightarrow> bool" where
  "op_fits (Write sz count bs) \<longleftrightarrow> unat sz * unat count = length bs \<and> length bs < 2 ^ 64"
| "op_fits (Puts str) \<longleftrightarrow> length str < 2 ^ 64"
| "op_fits op \<longleftrightarrow> True"

text \<open>An operation and whether it reports success.\<close>

fun out_step :: "'k sys_ops \<Rightarrow> out_op \<Rightarrow> 'k io \<Rightarrow> (bool \<times> 'k io) option" where
  "out_step os (Write sz count bs) s = map_option (\<lambda>(n, s). (n = unat count, s)) (fwrite os bs sz count s)"
| "out_step os (Putc c) s = fputc os c s"
| "out_step os (Puts str) s = fputs os str s"
| "out_step os Flush s = Some (fflush os s)"

fun out_run :: "'k sys_ops \<Rightarrow> out_op list \<Rightarrow> 'k io \<Rightarrow> (bool \<times> 'k io) option" where
  "out_run os [] s = Some (True, s)"
| "out_run os (op # ops) s =
     (case out_step os op s of
        None \<Rightarrow> None
      | Some (ok, s) \<Rightarrow> map_option (\<lambda>(ok', s). (ok \<and> ok', s)) (out_run os ops s))"

lemma fwrite_all:
  assumes "write_ok os out" "wr_ok (fp s)" "unat sz * unat count = length bs" "length bs < 2 ^ 64"
  shows "\<exists>n s'. fwrite os bs sz count s = Some (n, s') \<and> wr_ok (fp s') \<and> (n = unat count \<longrightarrow> all_written out s' = all_written out s @ bs)"
proof -
  obtain n m s' where *: "fwrite os bs sz count s = Some (n, s')" "wr_ok (fp s')" "n * unat sz \<le> m" "m \<le> length bs"
    "all_written out s' = all_written out s @ take m bs"
    using fwrite_correct [OF assms] by blast
  have "m = length bs" if "n = unat count" using *(3, 4) assms(3) that by (simp add: mult.commute)
  with * show ?thesis by auto
qed

lemma fflush_correct:
  assumes "write_ok os out" "wr_ok (fp s)"
  shows "\<exists>ok s'. fflush os s = (ok, s') \<and> wr_ok (fp s') \<and> (ok \<longrightarrow> all_written out s' = all_written out s \<and> pending (fp s') = [])"
proof -
  obtain ok s' where f: "file_flush_locked os s = (ok, s')" by (cases "file_flush_locked os s")
  note k = flush_correct [OF assms f]
  have "fd (fp s) \<ge> 0" "\<not> io_unread (fp s')" using assms(2) k(1) by (simp_all add: wr_ok_def keeps_def)
  with f k show ?thesis by (auto simp: fflush_def discard_input_def keeps_def pending_def Let_def)
qed

lemma out_step_correct:
  assumes "write_ok os out" "wr_ok (fp s)" "op_fits op"
  shows "\<exists>ok s'. out_step os op s = Some (ok, s') \<and> wr_ok (fp s') \<and> (ok \<longrightarrow> all_written out s' = all_written out s @ op_bytes op)"
proof (cases op)
  case (Write sz count bs)
  then show ?thesis using fwrite_all [OF assms(1, 2), of sz count bs] assms(3) by auto
next
  case (Putc c)
  then show ?thesis using fwrite_all [OF assms(1, 2), of 1 1 "[c]"] by (auto simp: fputc_def)
next
  case (Puts str)
  then show ?thesis
    using fwrite_all [OF assms(1, 2), of 1 "word_of_nat (length str)" str] assms(3) by (auto simp: fputs_def unat_of_nat)
next
  case Flush
  then show ?thesis using fflush_correct [OF assms(1, 2)] by auto
qed

lemma out_run_correct:
  assumes "write_ok os out"
  shows "wr_ok (fp s) \<Longrightarrow> list_all op_fits ops \<Longrightarrow>
    \<exists>ok s'. out_run os ops s = Some (ok, s') \<and> wr_ok (fp s') \<and> (ok \<longrightarrow> all_written out s' = all_written out s @ concat (map op_bytes ops))"
proof (induction ops arbitrary: s)
  case (Cons op ops)
  obtain ok s1 where 1: "out_step os op s = Some (ok, s1)" "wr_ok (fp s1)" "ok \<longrightarrow> all_written out s1 = all_written out s @ op_bytes op"
    using out_step_correct [OF assms Cons.prems(1), of op] Cons.prems(2) by auto
  obtain ok' s2 where 2: "out_run os ops s1 = Some (ok', s2)" "wr_ok (fp s2)" "ok' \<longrightarrow> all_written out s2 = all_written out s1 @ concat (map op_bytes ops)"
    using Cons.IH [OF 1(2)] Cons.prems(2) by auto
  from 1 2 show ?case by auto
qed (auto intro: exI [of _ True])

lemma out_run_append:
  "out_run os (xs @ ys) s =
   (case out_run os xs s of None \<Rightarrow> None | Some (ok, s) \<Rightarrow> map_option (\<lambda>(ok', s). (ok \<and> ok', s)) (out_run os ys s))"
  by (induction xs arbitrary: s) (auto simp: option.map_comp comp_def case_prod_beta' option.map_ident split: option.split)

text \<open>
  C20. Output streams lose, repeat and reorder nothing: whatever sequence of \<^verbatim>\<open>fwrite\<close>, \<^verbatim>\<open>fputc\<close> and \<^verbatim>\<open>fputs\<close> a program makes on a stream, with any
  buffer and buffering mode and however little each system call takes, the calls return, and if all of them and a
  final \<^verbatim>\<open>fflush\<close> report success, the file has received exactly the bytes of the sequence in order.
\<close>

theorem output_in_order:
  assumes "write_ok os out" "wr_ok (fp s)" "pending (fp s) = []" "list_all op_fits ops"
  shows "\<exists>ok s'. out_run os (ops @ [Flush]) s = Some (ok, s') \<and>
    (ok \<longrightarrow> out (fd (fp s')) (io_os s') = out (fd (fp s)) (io_os s) @ concat (map op_bytes ops))"
proof -
  obtain ok s1 where 1: "out_run os ops s = Some (ok, s1)" "wr_ok (fp s1)" "ok \<longrightarrow> all_written out s1 = all_written out s @ concat (map op_bytes ops)"
    using out_run_correct [OF assms(1, 2, 4)] by blast
  obtain ok' s2 where 2: "fflush os s1 = (ok', s2)" "ok' \<longrightarrow> all_written out s2 = all_written out s1 \<and> pending (fp s2) = []"
    using fflush_correct [OF assms(1) 1(2)] by blast
  show ?thesis using 1 2 assms(3) by (auto simp: out_run_append all_written_def)
qed

text \<open>A system that takes and gives at most three bytes at a time, with the file as its state.\<close>

definition slow_os :: "u8 list sys_ops" where
  "slow_os =
     \<lparr>onyx_write = (\<lambda>d bs k. (int (min 3 (length bs)), k @ take 3 bs)), onyx_read = (\<lambda>d n k. (int (length (take (min 3 n) k)), take (min 3 n) k, drop (min 3 n) k)),
      onyx_lseek = (\<lambda>d off wh k. (0, k)), onyx_open = (\<lambda>p fl k. (3, k)), onyx_close = (\<lambda>d k. (0, k))\<rparr>"

definition small_stream :: stream where
  "small_stream =
     \<lparr>fd = 3, io_read = False, io_write = False, io_rdwr = True, io_eof = False, io_err = False, io_dirty = False, io_unread = False,
      io_line_buf = False, io_unbuf = False, io_pushback = False, io_append = False, f_pos = 0, f_buf = [0, 0, 0, 0], buf_start = 0,
      buf_end = 0, pushback = 0\<rparr>"

lemma slow_os_ok: "write_ok slow_os (\<lambda>d k. k)" "read_ok slow_os (\<lambda>d k. k)"
  by (auto simp: write_ok_def read_ok_def slow_os_def min_def split: if_splits)

theorem output_in_order_witness:
  "\<exists>ok s'. out_run slow_os ([Write 2 3 [1, 2, 3, 4, 5, 6], Putc 10, Puts [7, 8]] @ [Flush]) \<lparr>fp = small_stream, io_errno = 0, io_os = [9]\<rparr> = Some (ok, s') \<and>
     (ok \<longrightarrow> io_os s' = [9, 1, 2, 3, 4, 5, 6, 10, 7, 8])"
  using output_in_order [OF slow_os_ok(1), of "\<lparr>fp = small_stream, io_errno = 0, io_os = [9]\<rparr>" "[Write 2 3 [1, 2, 3, 4, 5, 6], Putc 10, Puts [7, 8]]"]
  by (simp add: small_stream_def wr_ok_def buf_size_def pending_def)

subsection \<open>Reading\<close>

definition rd_ok :: "(int \<Rightarrow> 'k \<Rightarrow> u8 list) \<Rightarrow> 'k io \<Rightarrow> bool" where
  "rd_ok inp s \<longleftrightarrow>
     (let f = fp s
      in 0 < buf_size f \<and> buf_start f \<le> buf_end f \<and> buf_end f \<le> buf_size f \<and> \<not> io_dirty f \<and> (io_read f \<or> io_rdwr f) \<and>
         (io_eof f \<longrightarrow> inp (fd f) (io_os s) = []))"

text \<open>What is still to be read: a byte pushed back, the rest of the buffer, the rest of the file.\<close>

definition to_read :: "(int \<Rightarrow> 'k \<Rightarrow> u8 list) \<Rightarrow> 'k io \<Rightarrow> u8 list" where
  "to_read inp s =
     (let f = fp s in (if io_pushback f then [pushback f] else []) @ drop (buf_start f) (take (buf_end f) (f_buf f)) @ inp (fd f) (io_os s))"

lemma fill_correct:
  assumes r: "read_ok os inp" and s: "rd_ok inp s" "buf_end (fp s) \<le> buf_start (fp s)" and f: "file_fill_locked os s = (n, s')"
  shows "rd_ok inp s'" "to_read inp s' = to_read inp s" "n = 0 \<Longrightarrow> inp (fd (fp s')) (io_os s') = []" "n < 0 \<Longrightarrow> io_err (fp s')"
    "io_pushback (fp s') = io_pushback (fp s)" "n \<le> 0 \<Longrightarrow> buf_end (fp s') \<le> buf_start (fp s')"
proof -
  let ?f = "fp s" and ?m = "if io_unbuf (fp s) then 1 else buf_size (fp s)"
  obtain n' bs k where nk: "onyx_read os (fd ?f) ?m (io_os s) = (n', bs, k)" by (cases "onyx_read os (fd ?f) ?m (io_os s)")
  have m: "0 < ?m" "?m \<le> buf_size ?f" using s(1) by (auto simp: rd_ok_def Let_def)
  have ok: "if 0 < n' then n' \<le> int ?m \<and> nat n' \<le> length bs \<and> inp (fd ?f) (io_os s) = take (nat n') bs @ inp (fd ?f) k
    else inp (fd ?f) k = inp (fd ?f) (io_os s) \<and> (n' = 0 \<longrightarrow> inp (fd ?f) (io_os s) = [])"
    using r m(1) nk unfolding read_ok_def by blast
  have "rd_ok inp s' \<and> to_read inp s' = to_read inp s \<and> (n = 0 \<longrightarrow> inp (fd (fp s')) (io_os s') = []) \<and> (n < 0 \<longrightarrow> io_err (fp s')) \<and>
    io_pushback (fp s') = io_pushback (fp s) \<and> (n \<le> 0 \<longrightarrow> buf_end (fp s') \<le> buf_start (fp s'))"
  proof (cases "io_eof ?f")
    case True
    with f have "s' = s" "n = 0" by (simp_all add: file_fill_locked_def)
    with True s show ?thesis by (simp add: rd_ok_def Let_def)
  next
    case False
    consider "n' < 0" | "n' = 0" | "0 < n'" by linarith
    then show ?thesis
    proof cases
      case 1
      with f False nk have s': "s' = io_fail (- n') (s\<lparr>io_os := k\<rparr>)" "n = - 1" by (auto simp: file_fill_locked_def Let_def)
      show ?thesis
        using s ok 1 unfolding s' io_fail_def rd_ok_def to_read_def Let_def buf_size_def by simp
    next
      case 2
      with f False nk have s': "s' = s\<lparr>io_os := k, fp := ?f\<lparr>io_eof := True\<rparr>\<rparr>" "n = 0" by (auto simp: file_fill_locked_def Let_def)
      show ?thesis
        using s ok 2 unfolding s' rd_ok_def to_read_def Let_def buf_size_def by simp
    next
      case 3
      with f False nk have s': "s' = s\<lparr>io_os := k, fp := ?f\<lparr>f_buf := take (nat n') bs @ drop (nat n') (f_buf ?f), buf_start := 0, buf_end := nat n', f_pos := f_pos ?f + n'\<rparr>\<rparr>" "n = n'"
        by (auto simp: file_fill_locked_def Let_def)
      from ok 3 have le: "n' \<le> int ?m" "nat n' \<le> length bs" and i: "inp (fd ?f) (io_os s) = take (nat n') bs @ inp (fd ?f) k" by simp_all
      have l: "nat n' \<le> length (f_buf ?f)" using le(1) m(2) unfolding buf_size_def by linarith
      with le(2) have l': "length (take (nat n') bs @ drop (nat n') (f_buf ?f)) = length (f_buf ?f)" by simp
      have "rd_ok inp s'" using s(1) l l' False unfolding s' rd_ok_def buf_size_def Let_def by simp
      moreover have "to_read inp s' = to_read inp s" using s(2) i le(2) unfolding s' to_read_def Let_def by simp
      ultimately show ?thesis using 3 s'(2) unfolding s'(1) by simp
    qed
  qed
  then show "rd_ok inp s'" "to_read inp s' = to_read inp s" "n = 0 \<Longrightarrow> inp (fd (fp s')) (io_os s') = []" "n < 0 \<Longrightarrow> io_err (fp s')"
    "io_pushback (fp s') = io_pushback (fp s)" "n \<le> 0 \<Longrightarrow> buf_end (fp s') \<le> buf_start (fp s')" by simp_all
qed

lemma take_drop_split: "take n (drop i xs) @ drop (i + n) xs = drop i xs"
  using append_take_drop_id [of n "drop i xs"] by (simp add: add.commute)

lemma fread_loop_correct:
  assumes r: "read_ok os inp"
  shows "rd_ok inp s \<Longrightarrow> fread_loop os need got s = (got', s') \<Longrightarrow>
    \<exists>g. got' = got @ g \<and> length g \<le> need \<and> g @ to_read inp s' = to_read inp s \<and> rd_ok inp s' \<and> (length g < need \<longrightarrow> to_read inp s' = [] \<or> io_err (fp s'))"
proof (induction need arbitrary: got s rule: less_induct)
  case (less need)
  show ?case
  proof (cases "need = 0")
    case True
    with less.prems show ?thesis by (simp add: fread_loop.simps)
  next
    case False
    show ?thesis
    proof (cases "io_pushback (fp s)")
      case True
      let ?s = "on_fp (\<lambda>f. f\<lparr>io_pushback := False\<rparr>) s"
      have l: "fread_loop os (need - 1) (got @ [pushback (fp s)]) ?s = (got', s')"
        using less.prems(2) True False by (subst (asm) fread_loop.simps) simp
      have s: "rd_ok inp ?s" "to_read inp s = pushback (fp s) # to_read inp ?s"
        using less.prems(1) True by (auto simp: rd_ok_def to_read_def on_fp_def Let_def buf_size_def)
      have "need - 1 < need" using False by simp
      from less.IH [OF this s(1) l] obtain g where g: "got' = (got @ [pushback (fp s)]) @ g" "length g \<le> need - 1" "g @ to_read inp s' = to_read inp ?s"
        "rd_ok inp s'" "length g < need - 1 \<longrightarrow> to_read inp s' = [] \<or> io_err (fp s')" by blast
      then have "got' = got @ (pushback (fp s) # g)" "length (pushback (fp s) # g) \<le> need" "(pushback (fp s) # g) @ to_read inp s' = to_read inp s"
        "length (pushback (fp s) # g) < need \<Longrightarrow> length g < need - 1"
        using False s(2) by simp_all
      with g(4, 5) show ?thesis by blast
    next
      case np: False
      obtain n s1 where n: "(if buf_end (fp s) \<le> buf_start (fp s) then file_fill_locked os s else (1, s)) = (n, s1)"
        by (cases "if buf_end (fp s) \<le> buf_start (fp s) then file_fill_locked os s else (1, s)")
      have s1: "rd_ok inp s1" "to_read inp s1 = to_read inp s" "\<not> io_pushback (fp s1)"
        using n less.prems(1) np fill_correct [OF r less.prems(1), of n s1] by (auto split: if_splits)
      show ?thesis
      proof (cases "n \<le> 0")
        case True
        then have fill: "buf_end (fp s) \<le> buf_start (fp s)" "file_fill_locked os s = (n, s1)" using n by (auto split: if_splits)
        have "to_read inp s1 = [] \<or> io_err (fp s1)"
        proof (cases "n = 0")
          case True
          then show ?thesis using fill_correct(3, 6) [OF r less.prems(1) fill] s1(3) by (simp add: to_read_def)
        next
          case False
          then show ?thesis using fill_correct(4) [OF r less.prems(1) fill] True by simp
        qed
        moreover have "got' = got" "s' = s1" using less.prems(2) False np n True by (auto simp: fread_loop.simps [of os need])
        ultimately show ?thesis using s1 by auto
      next
        case pos: False
        let ?f = "fp s1" let ?m = "min (buf_end ?f - buf_start ?f) need" let ?s = "on_fp (\<lambda>f. f\<lparr>buf_start := buf_start f + ?m\<rparr>) s1"
        have l: "fread_loop os (need - ?m) (got @ take ?m (drop (buf_start ?f) (f_buf ?f))) ?s = (got', s')"
          using less.prems(2) False np n pos by (subst (asm) fread_loop.simps) (simp add: Let_def)
        have lt: "buf_start ?f < buf_end ?f"
          using n pos fill_fills [of os s n s1] by (auto split: if_splits)
        have ok: "rd_ok inp ?s" using s1(1) lt by (auto simp: rd_ok_def on_fp_def Let_def buf_size_def)
        let ?g = "take ?m (drop (buf_start ?f) (f_buf ?f))"
        have g: "?g = take ?m (drop (buf_start ?f) (take (buf_end ?f) (f_buf ?f)))" by (simp add: drop_take min_def)
        have len: "length ?g = ?m" using s1(1) by (auto simp: rd_ok_def Let_def buf_size_def)
        have "?g @ to_read inp ?s = to_read inp s1"
          unfolding g using s1(3) take_drop_split [of ?m "buf_start ?f" "take (buf_end ?f) (f_buf ?f)"]
          by (simp add: to_read_def on_fp_def Let_def flip: append_assoc)
        then have eq: "?g @ to_read inp ?s = to_read inp s" using s1(2) by simp
        have "need - ?m < need" using lt False by simp
        from less.IH [OF this ok l] obtain g where g': "got' = (got @ ?g) @ g" "length g \<le> need - ?m" "g @ to_read inp s' = to_read inp ?s"
          "rd_ok inp s'" "length g < need - ?m \<longrightarrow> to_read inp s' = [] \<or> io_err (fp s')" by blast
        have "got' = got @ (?g @ g)" using g'(1) by (simp only: append_assoc)
        moreover have "length (?g @ g) \<le> need" "length (?g @ g) < need \<Longrightarrow> length g < need - ?m" using g'(2) len unfolding length_append by linarith+
        moreover have "(?g @ g) @ to_read inp s' = to_read inp s" using eq g'(3) by (simp only: append_assoc)
        ultimately show ?thesis using g'(4, 5) by blast
      qed
    qed
  qed
qed

text \<open>
  C21. Input streams deliver the file: \<^verbatim>\<open>fread\<close> returns the next bytes of what is still to be read, a byte pushed back first, and
  leaves exactly the bytes behind them; it returns fewer than asked for only at the end of the file or with
  the error flag set, however little each system call delivers.
\<close>

theorem fread_in_order:
  assumes "read_ok os inp" "rd_ok inp s" "unat sz * unat count < 2 ^ 64" "fread os sz count s = (n, got, s')"
  shows "got @ to_read inp s' = to_read inp s \<and> rd_ok inp s' \<and> n = length got div unat sz \<and> length got \<le> unat sz * unat count \<and>
    (length got < unat sz * unat count \<longrightarrow> to_read inp s' = [] \<or> io_err (fp s'))"
proof (cases "sz = 0 \<or> count = 0")
  case True
  with assms(2, 4) show ?thesis by (auto simp: fread_def)
next
  case False
  have want: "unat (sz * count) = unat sz * unat count" using assms(3) by (simp add: unat_word_ariths)
  have fits: "\<not> (- 1) div sz < count" by (rule size_fits) (use assms(3) False in simp_all)
  let ?s = "on_fp (\<lambda>f. f\<lparr>io_unread := True\<rparr>) s"
  have p: "prepare_read os s = (True, ?s)"
    using assms(2) by (auto simp: prepare_read_def rd_ok_def Let_def file_flush_locked_def)
  have ok: "rd_ok inp ?s" "to_read inp ?s = to_read inp s"
    using assms(2) by (auto simp: rd_ok_def to_read_def on_fp_def Let_def buf_size_def)
  obtain got1 s1 where l: "fread_loop os (unat sz * unat count) [] ?s = (got1, s1)" by (cases "fread_loop os (unat sz * unat count) [] ?s")
  have "n = length got div unat sz" "got = got1" "s' = s1"
    using assms(4) False fits p want l by (auto simp: fread_def)
  with fread_loop_correct [OF assms(1) ok(1) l] ok(2) show ?thesis by auto
qed

theorem fread_in_order_witness:
  "case fread slow_os 2 3 \<lparr>fp = small_stream, io_errno = 0, io_os = [1, 2, 3, 4, 5, 6, 7, 8]\<rparr> of
     (n, got, s') \<Rightarrow> got @ to_read (\<lambda>d k. k) s' = [1, 2, 3, 4, 5, 6, 7, 8] \<and> n = length got div 2"
proof -
  let ?s = "\<lparr>fp = small_stream, io_errno = 0, io_os = [1, 2, 3, 4, 5, 6, 7, 8]\<rparr> :: u8 list io"
  obtain n got s' where r: "fread slow_os 2 3 ?s = (n, got, s')" by (cases "fread slow_os 2 3 ?s")
  have "rd_ok (\<lambda>d k. k) ?s" "to_read (\<lambda>d k. k) ?s = [1, 2, 3, 4, 5, 6, 7, 8]"
    by (simp_all add: rd_ok_def to_read_def small_stream_def buf_size_def)
  with fread_in_order [OF slow_os_ok(2) _ _ r] r show ?thesis by simp
qed

end
