(* ===== verification/Libc_Printf_Props.thy ===== *)
theory Libc_Printf_Props
  imports Libc_Printf Libc_Stream_Props
begin

text \<open>
  The format engine of \<^verbatim>\<open>libonyxc/src/io/stdio.c\<close>: a buffer that is too small cuts the text and nothing else, the decimal conversion prints
  the value, and with a width or a precision it prints something else than C says.
\<close>

subsection \<open>Two sinks\<close>

text \<open>
  The engine depends on its sink only through \<^verbatim>\<open>fmt_emit\<close>: contexts that emitting one byte keeps related stay related through
  every conversion and the whole format.
\<close>

locale sinks =
  fixes put1 :: "'x sink" and put2 :: "'y sink" and R :: "'x fmt_ctx \<Rightarrow> 'y fmt_ctx \<Rightarrow> bool"
  assumes emit: "R c d \<Longrightarrow> R (fmt_emit put1 ch c) (fmt_emit put2 ch d)"
    and fail: "R c d \<Longrightarrow> R (c\<lparr>c_err := True\<rparr>) (d\<lparr>c_err := True\<rparr>)"
    and count: "R c d \<Longrightarrow> R (c\<lparr>c_counts := c_counts c @ [c_total c]\<rparr>) (d\<lparr>c_counts := c_counts d @ [c_total d]\<rparr>)"
begin

lemma emit_str: "R c d \<Longrightarrow> R (fmt_emit_str put1 bs c) (fmt_emit_str put2 bs d)"
  unfolding fmt_emit_str_def by (induction bs arbitrary: c d) (simp_all add: emit)

lemma padded: "R c d \<Longrightarrow> R (fmt_emit_padded put1 s sp nu sign c) (fmt_emit_padded put2 s sp nu sign d)"
  by (simp add: fmt_emit_padded_def Let_def emit_str emit split: option.split)

lemma formatted_int: "R c d \<Longrightarrow> rel_sum (=) R (format_int put1 sp v base upper c) (format_int put2 sp v base upper d)"
  by (cases "int_digits sp (if sint v < 0 \<and> base = 10 then - v else v) base upper")
     (simp_all add: format_int_def Let_def emit_str emit padded split: option.split)

lemma converted:
  assumes "R c d"
  shows "rel_sum (=) (rel_prod (=) R) (convert_arg put1 fl sp spec args c) (convert_arg put2 fl sp spec args d)"
proof -
  have int: "rel_sum (=) (rel_prod (=) R) (bindE r (\<lambda>(v, args). bindE (format_int put1 sp v base upper c) (\<lambda>c. Inr (args, c))))
    (bindE r (\<lambda>(v, args). bindE (format_int put2 sp v base upper d) (\<lambda>c. Inr (args, c))))" for r :: "fmt_stop + u64 \<times> 'a fmt_arg list" and base upper
  proof (cases r)
    case (Inr va)
    then show ?thesis using formatted_int [OF assms, of sp "fst va" base upper]
      by (cases va) (auto simp: bindE_def rel_sum.simps)
  qed simp
  have float: "(if ok \<and> \<not> c_err k then k else k\<lparr>c_err := True\<rparr>) = (if ok then k else k\<lparr>c_err := True\<rparr>)" for ok and k :: "'z fmt_ctx"
    by simp
  show ?thesis
    unfolding convert_arg_def
    by (simp add: int assms padded emit emit_str fail count float format_str_def format_ptr_def Let_def split: list.split fmt_arg.split prod.split)
qed

lemma run: "R c d \<Longrightarrow> rel_sum (=) R (vformat_run put1 fl fmt args c) (vformat_run put2 fl fmt args d)"
proof (induction "length fmt" arbitrary: fmt args c d rule: less_induct)
  case less
  show ?case
  proof (cases fmt)
    case (Cons ch f)
    show ?thesis
    proof (cases "ch = of_char CHR ''%'' \<and> (\<exists>x. parse_spec f args = Inr (Some x))")
      case False
      then show ?thesis
        using less.hyps [of f "fmt_emit put1 ch c" "fmt_emit put2 ch d" args] less.prems Cons
        by (auto simp: vformat_run.simps(2) emit fail split: sum.split option.split)
    next
      case True
      then obtain sp spec f' a' where p: "ch = of_char CHR ''%''" "parse_spec f args = Inr (Some (sp, spec, f', a'))" by auto
      have ih: "R c1 d1 \<Longrightarrow> rel_sum (=) R (vformat_run put1 fl f' a c1) (vformat_run put2 fl f' a d1)" for a c1 d1
        using less.hyps [of f' c1 d1 a] parse_spec_less [OF p(2)] Cons by simp
      from converted [OF less.prems, of fl sp spec a'] consider e where "convert_arg put1 fl sp spec a' c = Inl e" "convert_arg put2 fl sp spec a' d = Inl e"
        | a c1 d1 where "convert_arg put1 fl sp spec a' c = Inr (a, c1)" "convert_arg put2 fl sp spec a' d = Inr (a, d1)" "R c1 d1"
        by (auto simp: rel_sum.simps)
      then show ?thesis
        unfolding Cons vformat_run.simps(2) using p by cases (simp_all add: ih)
    qed
  qed (use less.prems in simp)
qed

end

subsection \<open>Truncation\<close>

text \<open>The text without a limit.\<close>

definition all_put :: "u8 list sink" where
  "all_put ch bs = (True, bs @ [ch])"

definition formatted :: "'d float_text \<Rightarrow> u8 list \<Rightarrow> 'd fmt_arg list \<Rightarrow> fmt_stop + u8 list fmt_ctx" where
  "formatted fl fmt args = vformat_run all_put fl fmt args \<lparr>c_total = 0, c_err = False, c_counts = [], c_sink = []\<rparr>"

text \<open>A context with a limit beside one without, and the number of the bytes.\<close>

definition cut :: "nat \<Rightarrow> u8 list fmt_ctx \<Rightarrow> u8 list fmt_ctx" where
  "cut cap c = c\<lparr>c_sink := take cap (c_sink c)\<rparr>"

definition counted :: "u8 list fmt_ctx \<Rightarrow> bool" where
  "counted c \<longleftrightarrow> c_total c = int (length (c_sink c))"

interpretation cutting: sinks all_put "buf_put cap" "\<lambda>c d. d = cut cap c \<and> counted c" for cap
  by unfold_locales (auto simp: fmt_emit_def cut_def counted_def buf_put_def all_put_def)

text \<open>
  C22. \<^verbatim>\<open>vsnprintf\<close> behaves as C99 says for every format, argument list and capacity: it returns the length of the whole text, whether or
  not it fits, and stores the text, or as much of it as fits with the NUL behind it; with no capacity it stores
  nothing.
\<close>

theorem vsnprintf_truncates:
  "vsnprintf fl cap fmt args =
   bindE (formatted fl fmt args)
     (\<lambda>c. Inr (if c_err c then - 1 else int (length (c_sink c)), if cap = 0 then [] else take (cap - 1) (c_sink c) @ [0]))"
proof -
  let ?c = "\<lparr>c_total = 0, c_err = False, c_counts = [], c_sink = []\<rparr> :: u8 list fmt_ctx"
  have start: "?c = cut cap ?c \<and> counted ?c" by (simp add: cut_def counted_def)
  have r: "rel_sum (=) (\<lambda>c d. d = cut cap c \<and> counted c) (formatted fl fmt args) (vformat_run (buf_put cap) fl fmt args ?c)"
    unfolding formatted_def by (rule cutting.run [OF start])
  show ?thesis
  proof (cases "formatted fl fmt args")
    case (Inr c)
    with r have c: "vformat_run (buf_put cap) fl fmt args ?c = Inr (cut cap c)" "counted c" by (auto simp: rel_sum.simps)
    have "(if length (take cap xs) < cap then take cap xs @ [0] else take (cap - 1) (take cap xs) @ [0]) = take (cap - 1) xs @ [0]"
      if "cap \<noteq> 0" for xs :: "u8 list"
      using that by (auto simp: min_def)
    then show ?thesis using Inr c by (simp add: vsnprintf_def Let_def counted_def cut_def)
  next
    case (Inl e)
    with r have "vformat_run (buf_put cap) fl fmt args ?c = Inl e" by (auto simp: rel_sum.simps)
    with Inl show ?thesis by (simp add: vsnprintf_def)
  qed
qed

subsection \<open>Decimal numbers\<close>

definition dec_value :: "u8 list \<Rightarrow> int" where
  "dec_value ds = foldl (\<lambda>a d. 10 * a + (uint d - 48)) 0 ds"

definition text_value :: "u8 list \<Rightarrow> int" where
  "text_value t = (if t \<noteq> [] \<and> hd t = of_char CHR ''-'' then - dec_value (tl t) else dec_value t)"

text \<open>A decimal number without leading zeros.\<close>

definition dec_text :: "u8 list \<Rightarrow> bool" where
  "dec_text t \<longleftrightarrow> (let ds = (if t \<noteq> [] \<and> hd t = of_char CHR ''-'' then tl t else t) in ds \<noteq> [] \<and> list_all is_dec ds \<and> (hd ds = 48 \<longrightarrow> ds = [48]))"

lemma digit_dec: "d < 10 \<Longrightarrow> is_dec (digit_char up d) \<and> uint (digit_char up d) = 48 + int d"
proof -
  assume "d < 10"
  then have "d \<in> {0, 1, 2, 3, 4, 5, 6, 7, 8, 9}" by auto
  then show ?thesis by (cases up) (auto simp: digit_char_def is_dec_def)
qed

lemma digits_value: "u < 10 ^ k \<Longrightarrow> dec_value (rev (digits_low k 10 up u)) = int u"
proof (induction k arbitrary: u)
  case (Suc k)
  have "u div 10 < 10 ^ k" using Suc.prems by (simp add: less_mult_imp_div_less mult.commute)
  with Suc.IH [of "u div 10"] have "dec_value (rev (digits_low k 10 up (u div 10))) = int (u div 10)" .
  moreover have "10 * int (u div 10) + int (u mod 10) = int u" by presburger
  ultimately show ?case using digit_dec [of "u mod 10" up] by (auto simp: dec_value_def)
qed (simp add: dec_value_def)

lemma digits_are_dec: "list_all is_dec (digits_low k 10 up u)"
  by (induction k arbitrary: u) (simp_all add: digit_dec)

lemma digits_length: "u < 10 ^ n \<Longrightarrow> length (digits_low k 10 up u) \<le> n"
proof (induction k arbitrary: u n)
  case (Suc k)
  show ?case
  proof (cases "u = 0")
    case False
    then obtain m where n: "n = Suc m" using Suc.prems by (cases n) auto
    then have "u div 10 < 10 ^ m" using Suc.prems by (simp add: less_mult_imp_div_less mult.commute)
    with Suc.IH [of "u div 10" m] n False show ?thesis by simp
  qed simp
qed simp

lemma digits_lead: "0 < u \<Longrightarrow> u < 10 ^ k \<Longrightarrow> digits_low k 10 up u \<noteq> [] \<and> last (digits_low k 10 up u) \<noteq> 48"
proof (induction k arbitrary: u)
  case (Suc k)
  have d: "u div 10 < 10 ^ k" using Suc.prems by (simp add: less_mult_imp_div_less mult.commute)
  show ?case
  proof (cases "u div 10 = 0")
    case True
    then have "digits_low k 10 up (u div 10) = []" by (cases k) simp_all
    moreover from True have "u < 10" by (simp add: div_eq_0_iff)
    then have "digit_char up (u mod 10) \<noteq> 48" using digit_dec [of u up] Suc.prems(1) by auto
    ultimately show ?thesis using Suc.prems by simp
  next
    case False
    with Suc.IH [of "u div 10"] d Suc.prems show ?thesis by simp
  qed
qed simp

lemma emit_str_plain:
  "\<not> c_err c \<Longrightarrow> 0 \<le> c_total c \<Longrightarrow> c_total c + int (length bs) < INT_MAX \<Longrightarrow>
   fmt_emit_str all_put bs c = c\<lparr>c_total := c_total c + int (length bs), c_sink := c_sink c @ bs\<rparr>"
  unfolding fmt_emit_str_def
proof (induction bs arbitrary: c)
  case (Cons b bs)
  have "fmt_emit all_put b c = c\<lparr>c_total := c_total c + 1, c_sink := c_sink c @ [b]\<rparr>"
    using Cons.prems by (simp add: fmt_emit_def all_put_def)
  with Cons show ?case by simp
qed simp

definition dec_digits :: "u64 \<Rightarrow> u8 list" where
  "dec_digits u = rev (if u = 0 then [48] else digits_low 32 10 False (unat u))"

lemma dec_digits:
  assumes "unat u < 10 ^ n" "0 < n"
  shows "dec_value (dec_digits u) = int (unat u)" "dec_digits u \<noteq> []" "list_all is_dec (dec_digits u)"
    "hd (dec_digits u) = 48 \<longrightarrow> dec_digits u = [48]" "length (dec_digits u) \<le> n"
proof -
  let ?ds = "digits_low 32 10 False (unat u)"
  have "unat u < 2 ^ LENGTH(64)" by (rule unsigned_less)
  then have b: "unat u < 10 ^ 32" by simp
  have lead: "?ds \<noteq> [] \<and> last ?ds \<noteq> 48" if "u \<noteq> 0"
    by (rule digits_lead [OF _ b]) (use that in \<open>simp add: unat_gt_0\<close>)
  note val = digits_value [OF b, of False] and ds_dec = digits_are_dec [of 32 False "unat u"] and len = digits_length [OF assms(1), of 32 False]
  show "dec_value (dec_digits u) = int (unat u)"
    using val by (cases "u = 0") (simp_all add: dec_digits_def dec_value_def)
  show "dec_digits u \<noteq> []" "hd (dec_digits u) = 48 \<longrightarrow> dec_digits u = [48]"
    using lead by (cases "u = 0"; simp add: dec_digits_def hd_rev)+
  show "list_all is_dec (dec_digits u)"
    using ds_dec by (cases "u = 0") (simp_all add: dec_digits_def is_dec_def)
  show "length (dec_digits u) \<le> n"
    using len assms(2) by (cases "u = 0") (simp_all add: dec_digits_def)
qed

lemma dec_sign: "list_all is_dec ds \<Longrightarrow> ds \<noteq> [] \<Longrightarrow> hd ds \<noteq> of_char CHR ''-''"
  by (cases ds) (auto simp: is_dec_def)

lemma to_int_small: "n < 2 ^ 31 \<Longrightarrow> to_int n = int n"
  unfolding to_int_def by (simp add: signed_of_nat signed_take_bit_int_eq_self)

text \<open>
  What the decimal conversions print, for every width and precision: a sign, the blanks that fill the field, the digits, and behind
  them the zeros of the precision.
\<close>

abbreviation (input) dec_spec :: "int \<Rightarrow> int \<Rightarrow> fmt_spec" where
  "dec_spec w p \<equiv> no_fmt\<lparr>width := w, precision := p, is_long := Suc 0\<rparr>"

definition printed :: "int \<Rightarrow> int \<Rightarrow> bool \<Rightarrow> u8 list \<Rightarrow> u8 list" where
  "printed w p neg ds =
     (let sign = (if neg then [of_char CHR ''-''] else []); digits = ds @ replicate (nat p - length ds) 48
      in sign @ replicate (nat w - (length sign + length digits)) 32 @ digits)"

lemma padded_dec:
  assumes "length s \<le> 32"
  shows "fmt_emit_padded put s (dec_spec w p) True sign c =
    fmt_emit_str put (replicate (nat w - ((if sign = None then 0 else 1) + length s)) 32 @ s) (case sign of None \<Rightarrow> c | Some ch \<Rightarrow> fmt_emit put ch c)"
proof -
  have n: "to_int (length s) = int (length s)" using assms by (intro to_int_small) simp
  have d: "nat (w - int k) = nat w - k" "\<not> int k < w \<Longrightarrow> nat w - k = 0" for k by auto
  show ?thesis
    using d(1) [of "length s"] d(2) [of "length s"] d(1) [of "Suc (length s)"] d(2) [of "Suc (length s)"]
    by (cases sign) (simp_all add: fmt_emit_padded_def n no_fmt_def Let_def add.commute)
qed

lemma format_dec:
  assumes "length (dec_digits (if sint v < 0 then - v else v)) \<le> 19" "w < 2 ^ 30" "p \<le> 32"
  shows "format_int all_put (dec_spec w p) v 10 False \<lparr>c_total = 0, c_err = False, c_counts = [], c_sink = []\<rparr> =
    (let t = printed w p (sint v < 0) (dec_digits (if sint v < 0 then - v else v))
     in Inr \<lparr>c_total = int (length t), c_err = False, c_counts = [], c_sink = t\<rparr>)"
proof -
  define neg ds full where "neg \<longleftrightarrow> sint v < 0" and "ds = dec_digits (if sint v < 0 then - v else v)"
    and "full = ds @ replicate (nat p - length ds) 48"
  let ?c = "\<lparr>c_total = 0, c_err = False, c_counts = [], c_sink = []\<rparr> :: u8 list fmt_ctx"
  let ?pad = "nat w - ((if neg then 1 else 0) + length full)"
  have d: "int_digits (dec_spec w p) (if sint v < 0 then - v else v) 10 False = Inr full"
    unfolding full_def ds_def using assms(3) by (auto simp: int_digits_def no_fmt_def dec_digits_def Let_def nat_diff_distrib')
  have len: "length full \<le> 32" using assms(1,3) by (simp add: full_def ds_def)
  have sign: "int_sign (dec_spec w p) neg 10 = (if neg then Some (of_char CHR ''-'') else None)"
    "int_prefix (dec_spec w p) v 10 False full = []" "\<not> flag_zero (dec_spec w p)"
    by (simp_all add: int_sign_def int_prefix_def no_fmt_def)
  have "format_int all_put (dec_spec w p) v 10 False ?c = Inr (fmt_emit_padded all_put full (dec_spec w p) True (if neg then Some (of_char CHR ''-'') else None) ?c)"
    using sign d by (simp add: format_int_def Let_def neg_def)
  then have "format_int all_put (dec_spec w p) v 10 False ?c =
    Inr (fmt_emit_str all_put (replicate ?pad 32 @ full) (if neg then fmt_emit all_put (of_char CHR ''-'') ?c else ?c))"
    by (simp add: padded_dec [OF len])
  moreover have "fmt_emit all_put (of_char CHR ''-'') ?c = \<lparr>c_total = 1, c_err = False, c_counts = [], c_sink = [of_char CHR ''-'']\<rparr>"
    by (simp add: fmt_emit_def all_put_def INT_MAX_def)
  moreover have "fmt_emit_str all_put (replicate ?pad 32 @ full) c
      = c\<lparr>c_total := c_total c + int (length (replicate ?pad 32 @ full)), c_sink := c_sink c @ replicate ?pad 32 @ full\<rparr>"
    if "\<not> c_err c" "0 \<le> c_total c" "c_total c \<le> 1" for c
    using that len assms(2) by (intro emit_str_plain) (simp_all add: INT_MAX_def)
  ultimately show ?thesis unfolding ds_def [symmetric] unfolding neg_def [symmetric]
    by (cases neg) (simp_all add: Let_def printed_def full_def)
qed

lemma dec_magnitude:
  fixes v :: u64
  shows "int (unat (if sint v < 0 then - v else v)) = \<bar>sint v\<bar>" "unat (if sint v < 0 then - v else v) < 10 ^ 19"
proof -
  show u: "int (unat (if sint v < 0 then - v else v)) = \<bar>sint v\<bar>" using magnitude [of v] by (auto split: if_splits)
  have "\<bar>sint v\<bar> < 10 ^ 19" using sint_cases [of v] uint_lt2p [of v] uint_ge_0 [of v] by (simp split: if_splits)
  then show "unat (if sint v < 0 then - v else v) < 10 ^ 19" using u by (metis of_nat_less_iff of_nat_numeral of_nat_power)
qed

lemma parse_ld: "parse_spec [108, 100] args = Inr (Some (no_fmt\<lparr>is_long := Suc 0\<rparr>, 100, [], args))"
  by (simp add: parse_spec_def fmt_width_def fmt_precision_def bytes_of_def is_dec_def no_fmt_def)

text \<open>
  C24. Printing a \<^verbatim>\<open>long\<close> with \<^verbatim>\<open>%ld\<close> gives its decimal representation for every value, the smallest included: digits without leading
  zeros behind a minus sign for negative values, which denote the value again.
\<close>

theorem printf_decimal:
  "\<exists>t. formatted fl (bytes_of ''%ld'') [AInt v] = Inr \<lparr>c_total = int (length t), c_err = False, c_counts = [], c_sink = t\<rparr> \<and>
     text_value t = sint v \<and> dec_text t \<and> length t \<le> 20"
proof -
  let ?u = "if sint v < 0 then - v else v" let ?ds = "dec_digits ?u"
  let ?t = "(if sint v < 0 then [of_char CHR ''-''] else []) @ ?ds"
  have n: "(0 :: nat) < 19" by simp
  note u = dec_magnitude(1) [of v] and ds = dec_digits [OF dec_magnitude(2) n, of v]
  have sp: "no_fmt\<lparr>is_long := Suc 0\<rparr> = dec_spec (- 1) (- 1)" by (simp add: no_fmt_def)
  have "formatted fl (bytes_of ''%ld'') [AInt v] = bindE (format_int all_put (dec_spec (- 1) (- 1)) v 10 False \<lparr>c_total = 0, c_err = False, c_counts = [], c_sink = []\<rparr>) Inr"
    unfolding sp [symmetric]
    by (auto simp: parse_ld formatted_def bytes_of_def vformat_run.simps(2) convert_arg_def va_signed_def bindE_def split: sum.split)
  then have "formatted fl (bytes_of ''%ld'') [AInt v] = Inr \<lparr>c_total = int (length ?t), c_err = False, c_counts = [], c_sink = ?t\<rparr>"
    using format_dec [of v "- 1" "- 1"] ds(5) by (simp add: Let_def printed_def)
  moreover have "text_value ?t = sint v"
    using ds(1) dec_sign [OF ds(3) ds(2)] u by (auto simp: text_value_def)
  moreover have "dec_text ?t"
    using ds(2, 3, 4) dec_sign [OF ds(3) ds(2)] by (auto simp: dec_text_def Let_def)
  moreover have "length ?t \<le> 20" using ds(5) by (cases "sint v < 0") simp_all
  ultimately show ?thesis by blast
qed

subsection \<open>Misprints\<close>

definition no_float :: "unit float_text" where
  "no_float x spec sp = ([], True)"

lemma int_arg: "n < 2 ^ 31 \<Longrightarrow> sint (ucast (word_of_nat n :: u64) :: 32 word) = int n"
proof -
  assume n: "n < 2 ^ 31"
  then have "take_bit 64 n = n" by (simp add: take_bit_nat_eq_self)
  moreover have "signed_take_bit 31 (int n) = int n" using n by (simp add: signed_take_bit_int_eq_self)
  ultimately show ?thesis by (simp add: unsigned_of_nat signed_of_nat)
qed

lemma parse_star:
  assumes "w < 2 ^ 30" "p \<le> 32" "ch \<in> {100, 117}"
  shows "parse_spec [42, 46, 42, 108, ch] [AInt (word_of_nat w), AInt (word_of_nat p), x] = Inr (Some (dec_spec (int w) (int p), ch, [], [x]))"
  using assms int_arg [of w] int_arg [of p]
  by (auto simp: parse_spec_def fmt_width_def fmt_precision_def va_int_def INT_MIN_def no_fmt_def)

lemma formatted_star:
  assumes "w < 2 ^ 30" "p \<le> 32" "ch \<in> {100, 117}"
  shows "formatted fl [37, 42, 46, 42, 108, ch] [AInt (word_of_nat w), AInt (word_of_nat p), AInt v]
      = format_int all_put (dec_spec (int w) (int p)) v 10 False \<lparr>c_total = 0, c_err = False, c_counts = [], c_sink = []\<rparr>"
proof -
  have l: "is_long (dec_spec (int w) (int p)) = 1" by simp
  have r: "(case bindE r (\<lambda>c. Inr ([], c)) of Inl e \<Rightarrow> Inl e | Inr (args, c) \<Rightarrow> vformat_run all_put fl [] args c) = r" for r :: "fmt_stop + u8 list fmt_ctx"
    by (cases r) simp_all
  show ?thesis
    using assms(3) unfolding formatted_def vformat_run.simps(2) parse_star [OF assms]
    by (elim insertE emptyE) (simp_all add: convert_arg_def va_signed_def va_unsigned_def l r)
qed

text \<open>
  C38. What \<^verbatim>\<open>%*.*ld\<close> and \<^verbatim>\<open>%*.*lu\<close> print, for every value, every width below \<open>2 ^ 30\<close> and every precision up to 32, and where this is not
  what C99 says: with the digits of the magnitude of the value taken as a signed number, the text is the sign, then the blanks that fill the
  field, then the digits, then the zeros of the precision. So a sign comes before the blanks and not before the digits (\<^verbatim>\<open>%5d\<close> prints -42 as
  \<^verbatim>\<open>-  42\<close>), the zeros are behind the digits and not before them (\<^verbatim>\<open>%.5d\<close> prints 42 as \<^verbatim>\<open>42000\<close>), and an unsigned value from
  \<open>2 ^ 63\<close> on is printed as a negative number; the value zero with precision zero is printed as \<^verbatim>\<open>0\<close> and not as nothing.
\<close>

theorem printf_misprints:
  assumes "w < 2 ^ 30" and "p \<le> 32" and "ch \<in> {of_char CHR ''d'', of_char CHR ''u''}"
  shows "\<exists>ds. list_all is_dec ds \<and> ds \<noteq> [] \<and> (hd ds = 48 \<longrightarrow> ds = [48]) \<and> dec_value ds = \<bar>sint v\<bar> \<and>
    map_sum id c_sink (formatted fl (bytes_of ''%*.*l'' @ [ch]) [AInt (word_of_nat w), AInt (word_of_nat p), AInt v]) =
      Inr ((if sint v < 0 then [of_char CHR ''-''] else []) @ replicate (w - (max (length ds) p + (if sint v < 0 then 1 else 0))) (of_char CHR '' '')
        @ ds @ replicate (p - length ds) (of_char CHR ''0''))"
proof -
  let ?u = "if sint v < 0 then - v else v" let ?ds = "dec_digits ?u"
  have n: "(0 :: nat) < 19" by simp
  note ds = dec_digits [OF dec_magnitude(2) n, of v]
  have b: "int w < 2 ^ 30" "int p \<le> 32" using assms(1,2) by simp_all
  have ch: "ch \<in> {100, 117}" using assms(3) by simp
  have "formatted fl (bytes_of ''%*.*l'' @ [ch]) [AInt (word_of_nat w), AInt (word_of_nat p), AInt v]
      = format_int all_put (dec_spec (int w) (int p)) v 10 False \<lparr>c_total = 0, c_err = False, c_counts = [], c_sink = []\<rparr>"
    using formatted_star [OF assms(1,2) ch] by (simp add: bytes_of_def)
  moreover have "printed (int w) (int p) (sint v < 0) ?ds = (if sint v < 0 then [of_char CHR ''-''] else [])
      @ replicate (w - (max (length ?ds) p + (if sint v < 0 then 1 else 0))) (of_char CHR '' '') @ ?ds @ replicate (p - length ?ds) (of_char CHR ''0'')"
    by (simp add: printed_def Let_def max_def)
  ultimately have "map_sum id c_sink (formatted fl (bytes_of ''%*.*l'' @ [ch]) [AInt (word_of_nat w), AInt (word_of_nat p), AInt v]) =
      Inr ((if sint v < 0 then [of_char CHR ''-''] else []) @ replicate (w - (max (length ?ds) p + (if sint v < 0 then 1 else 0))) (of_char CHR '' '')
        @ ?ds @ replicate (p - length ?ds) (of_char CHR ''0''))"
    unfolding format_dec [OF ds(5) b] Let_def by (simp only: map_sum.simps fmt_ctx.simps)
  moreover have "dec_value ?ds = \<bar>sint v\<bar>" unfolding ds(1) by (rule dec_magnitude(1))
  ultimately show ?thesis using ds(2-4) by blast
qed

theorem printf_misprints_witness:
  "\<exists>ds. dec_value ds = 42 \<and> map_sum id c_sink (formatted no_float (bytes_of ''%*.*l'' @ [of_char CHR ''d'']) [AInt (word_of_nat 9), AInt (word_of_nat 5), AInt (- 42)]) =
     Inr (of_char CHR ''-'' # replicate (8 - max (length ds) 5) (of_char CHR '' '') @ ds @ replicate (5 - length ds) (of_char CHR ''0''))"
proof -
  have "sint (- 42 :: u64) = - 42" by simp
  then show ?thesis using printf_misprints [of 9 5 "of_char CHR ''d''" "- 42" no_float] by auto
qed

subsection \<open>Formatted output to a stream\<close>

text \<open>A context over a stream beside one that keeps the whole text, as long as the stream reports no error.\<close>

definition streamed :: "(int \<Rightarrow> 'k \<Rightarrow> u8 list) \<Rightarrow> 'k io \<Rightarrow> u8 list fmt_ctx \<Rightarrow> ('k io) option fmt_ctx \<Rightarrow> bool" where
  "streamed out s c d \<longleftrightarrow>
     (\<exists>s'. c_sink d = Some s' \<and> wr_ok (fp s') \<and>
       (\<not> c_err d \<longrightarrow> \<not> c_err c \<and> counted c \<and> c_total d = c_total c \<and> all_written out s' = all_written out s @ c_sink c))"

lemma stream_sinks:
  assumes w: "write_ok os out"
  shows "sinks all_put (stream_put os) (streamed out s)"
proof
  fix c and d :: "('a io) option fmt_ctx" and ch
  assume "streamed out s c d"
  then obtain s1 where s1: "c_sink d = Some s1" "wr_ok (fp s1)" and
    R: "\<not> c_err d \<longrightarrow> \<not> c_err c \<and> counted c \<and> c_total d = c_total c \<and> all_written out s1 = all_written out s @ c_sink c"
    by (auto simp: streamed_def)
  show "streamed out s (c\<lparr>c_err := True\<rparr>) (d\<lparr>c_err := True\<rparr>)"
    "streamed out s (c\<lparr>c_counts := c_counts c @ [c_total c]\<rparr>) (d\<lparr>c_counts := c_counts d @ [c_total d]\<rparr>)"
    using s1 R by (auto simp: streamed_def counted_def)
  obtain ok s2 where f: "fputc os ch s1 = Some (ok, s2)" "wr_ok (fp s2)" "ok \<longrightarrow> all_written out s2 = all_written out s1 @ [ch]"
    using out_step_correct [OF w s1(2), of "Putc ch"] by auto
  show "streamed out s (fmt_emit all_put ch c) (fmt_emit (stream_put os) ch d)"
  proof (cases "c_err d \<or> c_total d = INT_MAX")
    case True
    then show ?thesis using s1 by (auto simp: streamed_def fmt_emit_def)
  next
    case False
    with R s1 f show ?thesis by (auto simp: streamed_def fmt_emit_def stream_put_def all_put_def counted_def)
  qed
qed

text \<open>
  C23. \<^verbatim>\<open>fprintf\<close> writes the formatted text: for every format and argument list, on a stream with any buffering and a system that may
  transfer less than asked for, if the call returns no error, it returns the length of the text, and
  exactly the bytes of the text have been appended to what was written before.
\<close>

theorem fprintf_writes:
  assumes "write_ok os out" "wr_ok (fp s)" "vfprintf os fl fmt args s = Inr (r, s')" "0 \<le> r"
  shows "\<exists>c s''. formatted fl fmt args = Inr c \<and> s' = Some s'' \<and> wr_ok (fp s'') \<and> r = int (length (c_sink c)) \<and>
    all_written out s'' = all_written out s @ c_sink c"
proof -
  let ?c = "\<lparr>c_total = 0, c_err = False, c_counts = [], c_sink = []\<rparr> :: u8 list fmt_ctx"
  let ?d = "\<lparr>c_total = 0, c_err = False, c_counts = [], c_sink = Some s\<rparr>"
  have "streamed out s ?c ?d" using assms(2) by (simp add: streamed_def counted_def)
  then have "rel_sum (=) (streamed out s) (formatted fl fmt args) (vformat_run (stream_put os) fl fmt args ?d)"
    unfolding formatted_def by (rule sinks.run [OF stream_sinks [OF assms(1)]])
  moreover obtain d where d: "vformat_run (stream_put os) fl fmt args ?d = Inr d" "r = (if c_err d then - 1 else c_total d)" "s' = c_sink d"
    using assms(3) by (auto simp: vfprintf_def bindE_eq_Inr)
  ultimately obtain c where c: "formatted fl fmt args = Inr c" "streamed out s c d" by (auto simp: rel_sum.simps)
  have "\<not> c_err d" using d(2) assms(4) by auto
  with c d show ?thesis by (auto simp: streamed_def counted_def)
qed

theorem fprintf_writes_witness:
  "\<exists>r s'. vfprintf slow_os no_float (bytes_of ''a%%b'') [] \<lparr>fp = small_stream, io_errno = 0, io_os = []\<rparr> = Inr (r, s') \<and> r = 3 \<and>
     map_option (all_written (\<lambda>d k. k)) s' = Some (bytes_of ''a%b'')"
proof -
  let ?s = "\<lparr>fp = small_stream, io_errno = 0, io_os = []\<rparr> :: u8 list io"
  have f: "formatted no_float (bytes_of ''a%%b'') [] = Inr \<lparr>c_total = 3, c_err = False, c_counts = [], c_sink = bytes_of ''a%b''\<rparr>" by code_simp
  have w: "wr_ok (fp ?s)" "all_written (\<lambda>d k. k) ?s = []" by (simp_all add: small_stream_def wr_ok_def buf_size_def all_written_def pending_def)
  have "case vfprintf slow_os no_float (bytes_of ''a%%b'') [] ?s of Inr (r, _) \<Rightarrow> 0 \<le> r | Inl _ \<Rightarrow> False" by code_simp
  then obtain r s' where r: "vfprintf slow_os no_float (bytes_of ''a%%b'') [] ?s = Inr (r, s')" "0 \<le> r"
    by (auto split: sum.splits)
  from fprintf_writes [OF slow_os_ok(1) w(1) r] f w(2) r(1) show ?thesis by (auto simp: bytes_of_def)
qed

end
