(* ===== verification/Gen_Expr.thy ===== *)
theory Gen_Expr
  imports Gen_Values Decl_Parser Fixups
begin

text \<open>
  The expression parser of \<^verbatim>\<open>src/back/gen.c\<close>, which reads an expression and emits its code in one pass:
  calls, postfix and unary operators, primary expressions with the builtins, binary operators with
  the short-circuiting ones, the conditional operator, assignments and the comma operator; and the code of
  \<^verbatim>\<open>setjmp\<close> and \<^verbatim>\<open>longjmp\<close> of \<^verbatim>\<open>src/arch/context.c\<close>.

  The state is that of the parser and that of the generator, which share the types, the symbols and the
  diagnostics. A function takes a record of the functions it calls recursively; \<open>exprs\<close> ties the
  recursion with fuel. An end of the compiler in the value layer, a fatal error or a null type, is \<^const>\<open>CcFatal\<close>.
  The value of a floating literal, \<^verbatim>\<open>strtod\<close> of its text, is a function of the record.
\<close>

subsection \<open>State\<close>

record cg =
  cg_p :: parser
  cg_gen :: gen
  g_variadic :: bool
  va_save_off :: u32
  va_fsave_off :: u32
  named_gp :: u32
  named_fp :: u32
  named_stack :: u32
  max_call_args :: nat
  g_cur_func_name :: "u8 list"

type_synonym 'a cgen = "parse_stop + 'a \<times> cg"

text \<open>The generator with the types, symbols and diagnostics of the parser, and back.\<close>

definition gen_of :: "cg \<Rightarrow> gen" where
  "gen_of s = (cg_gen s)\<lparr>g_types := p_types (cg_p s), g_syms := p_syms (cg_p s), g_diag := lx_diag (g_lx (cg_p s))\<rparr>"

definition with_gen :: "gen \<Rightarrow> cg \<Rightarrow> cg" where
  "with_gen g s =
     s\<lparr>cg_gen := g, cg_p := (cg_p s)\<lparr>p_types := g_types g, p_syms := g_syms g, g_lx := (g_lx (cg_p s))\<lparr>lx_diag := g_diag g\<rparr>\<rparr>\<rparr>"

definition on_gen :: "(gen \<Rightarrow> gen) \<Rightarrow> cg \<Rightarrow> cg" where
  "on_gen f s = with_gen (f (gen_of s)) s"

definition code :: "emitter \<Rightarrow> cg \<Rightarrow> cg" where
  "code f = on_gen (emit f)"

definition val_gen :: "(gen \<Rightarrow> (val_t \<times> gen) option) \<Rightarrow> cg \<Rightarrow> val_t cgen" where
  "val_gen f s = (case f (gen_of s) of None \<Rightarrow> Inl CcFatal | Some (v, g) \<Rightarrow> Inr (v, with_gen g s))"

definition with_val :: "(gen \<Rightarrow> 'a \<times> gen) \<Rightarrow> cg \<Rightarrow> 'a \<times> cg" where
  "with_val f s = (case f (gen_of s) of (v, g) \<Rightarrow> (v, with_gen g s))"

definition on_parser :: "(parser \<Rightarrow> parser) \<Rightarrow> cg \<Rightarrow> cg" where
  "on_parser f s = s\<lparr>cg_p := f (cg_p s)\<rparr>"

definition run_parser :: "(parser \<Rightarrow> 'a parsed) \<Rightarrow> cg \<Rightarrow> 'a cgen" where
  "run_parser f s = bindE (f (cg_p s)) (\<lambda>(x, p). Inr (x, s\<lparr>cg_p := p\<rparr>))"

definition new_type :: "(types \<Rightarrow> nat \<times> types) \<Rightarrow> cg \<Rightarrow> nat \<times> cg" where
  "new_type f s = (case f (p_types (cg_p s)) of (t, st) \<Rightarrow> (t, on_parser (\<lambda>p. p\<lparr>p_types := st\<rparr>) s))"

definition c_make_ptr :: "nat option \<Rightarrow> cg \<Rightarrow> nat \<times> cg" where
  "c_make_ptr b s = (case make_ptr b (cg_p s) of (t, p) \<Rightarrow> (t, s\<lparr>cg_p := p\<rparr>))"

definition c_cur :: "cg \<Rightarrow> token" where
  "c_cur s = p_cur (cg_p s)"

abbreviation cur_kind :: "cg \<Rightarrow> token_kind" where
  "cur_kind s \<equiv> t_kind (c_cur s)"

definition c_next :: "cg \<Rightarrow> cg" where
  "c_next = on_parser p_next"

definition c_error :: "cg \<Rightarrow> cg" where
  "c_error = on_parser parse_error"

definition c_expect :: "token_kind \<Rightarrow> cg \<Rightarrow> cg" where
  "c_expect k = on_parser (parse_expect k)"

definition c_accept :: "token_kind \<Rightarrow> cg \<Rightarrow> bool \<times> cg" where
  "c_accept k s = (if cur_kind s = k then (True, c_next s) else (False, s))"

definition c_warn :: "cg \<Rightarrow> cg" where
  "c_warn = on_gen (\<lambda>g. g\<lparr>g_diag := (g_diag g)\<lparr>n_warnings := Suc (n_warnings (g_diag g))\<rparr>\<rparr>)"

definition c_type :: "cg \<Rightarrow> nat \<Rightarrow> type_t" where
  "c_type s t = p_types (cg_p s) ! t"

definition c_sizeof :: "nat \<Rightarrow> cg \<Rightarrow> u64 \<times> cg" where
  "c_sizeof t s = with_val (sizeof (c_type s t)) s"

text \<open>Following a pointer that may be null.\<close>

definition nonnull :: "'a option \<Rightarrow> ('a \<Rightarrow> 'b cgen) \<Rightarrow> 'b cgen" where
  "nonnull x f = (case x of None \<Rightarrow> Inl NullDeref | Some x \<Rightarrow> f x)"

definition c_text_off :: "cg \<Rightarrow> u32" where
  "c_text_off s = text_off (gen_of s)"

definition zero_val :: val_t where
  "zero_val = \<lparr>v_kind = VAL_REG, v_type = None, v_reg = 0, v_imm = 0, v_fval = 0, v_sym_idx = 0, v_offset = 0\<rparr>"

definition reg_val :: "u32 \<Rightarrow> nat option \<Rightarrow> val_t" where
  "reg_val r t = zero_val\<lparr>v_reg := r, v_type := t\<rparr>"

definition sym_val :: "int \<Rightarrow> nat option \<Rightarrow> val_t" where
  "sym_val i t = zero_val\<lparr>v_kind := VAL_SYM, v_sym_idx := i, v_type := t\<rparr>"

text \<open>Room for \<open>n\<close> bytes in the frame, at an offset aligned to \<open>al\<close>.\<close>

definition frame_alloc :: "u32 \<Rightarrow> u32 \<Rightarrow> gen \<Rightarrow> u64 \<times> gen" where
  "frame_alloc n al g =
     (let c = (cur_offset g + n + (al - 1)) AND NOT (al - 1)
      in (- scast c, g\<lparr>cur_offset := c, frame_size := if sint (frame_size g) < sint c then c else frame_size g\<rparr>))"

subsection \<open>Patching branches\<close>

definition patch_text :: "(u32 \<Rightarrow> u32 \<Rightarrow> u32) \<Rightarrow> u32 \<Rightarrow> u32 \<Rightarrow> gen \<Rightarrow> gen" where
  "patch_text patch off delta g =
     (let d = buf_data (g_text g); n = unat off
      in g\<lparr>g_text := (g_text g)\<lparr>buf_data := put_word d n (patch (word_at d n) delta)\<rparr>\<rparr>)"

text \<open>\<^verbatim>\<open>patch_branch\<close> and \<^verbatim>\<open>patch_jal\<close> at an offset, to jump to the end of the text.\<close>

definition gen_patch_branch :: "u32 \<Rightarrow> cg \<Rightarrow> cg" where
  "gen_patch_branch off s = on_gen (patch_text patch_branch off (c_text_off s - off)) s"

definition gen_patch_jal :: "u32 \<Rightarrow> cg \<Rightarrow> cg" where
  "gen_patch_jal off s = on_gen (patch_text patch_jump off (c_text_off s - off)) s"

text \<open>The patches written out for the short-circuiting operators.\<close>

definition or_branch :: "u32 \<Rightarrow> u32 \<Rightarrow> u32" where
  "or_branch insn delta =
     insn OR (push_bit 19 (delta AND 0x1000) OR push_bit 20 (delta AND 0x7E0)
       OR push_bit 7 (delta AND 0x1E) OR drop_bit 4 (delta AND 0x800))"

definition set_jump :: "u32 \<Rightarrow> u32 \<Rightarrow> u32" where
  "set_jump insn delta =
     (insn AND 0xFFF) OR (push_bit 31 (signed_drop_bit 20 delta AND 1) OR push_bit 21 (signed_drop_bit 1 delta AND 0x3FF)
       OR push_bit 20 (signed_drop_bit 11 delta AND 1) OR push_bit 12 (signed_drop_bit 12 delta AND 0xFF))"

subsection \<open>Context switches\<close>

definition saved_register :: "nat \<Rightarrow> u32" where
  "saved_register i = (if i < 2 then RV_S0 + word_of_nat i else RV_S2 + word_of_nat i - 2)"

definition emits_all :: "emitter list \<Rightarrow> emitter" where
  "emits_all fs b = fold (\<lambda>f. f) fs b"

definition rv_setjmp :: "u32 \<Rightarrow> emitter" where
  "rv_setjmp env_reg =
     (let base = RV_T6
      in emits_all
        ([rv_mv base env_reg, rv_sd RV_SP base 0]
         @ concat (map (\<lambda>i. let r = saved_register i; k = word_of_nat (8 * i) in [rv_sd r base (8 + k), rv_fsd r base (104 + k)]) [0..<12])
         @ [emit32 (push_bit 20 3 OR push_bit 12 2 OR push_bit 7 RV_T5 OR 0x73), rv_sd RV_T5 base 200,
            rv_auipc RV_T5 0, rv_addi RV_T5 RV_T5 16, rv_sd RV_T5 base 208, rv_addi RV_A0 RV_ZERO 0, rv_mv RV_T0 RV_A0]))"

definition rv_longjmp :: "u32 \<Rightarrow> u32 \<Rightarrow> emitter" where
  "rv_longjmp env_reg value_reg =
     (let base = (if value_reg = RV_T6 then RV_T4 else RV_T6)
      in emits_all
        ([rv_mv base env_reg, rv_mv RV_A0 value_reg, rv_seqz RV_T0 RV_A0, rv_add RV_A0 RV_A0 RV_T0, rv_ld RV_T5 base 200,
          emit32 (push_bit 20 3 OR push_bit 15 RV_T5 OR push_bit 12 1 OR 0x73), rv_ld RV_T5 base 208]
         @ concat (map (\<lambda>i. let r = saved_register i; k = word_of_nat (8 * i) in [rv_ld r base (8 + k), rv_fld r base (104 + k)]) [0..<12])
         @ [rv_ld RV_SP base 0, rv_jalr RV_ZERO RV_T5 0]))"

subsection \<open>The functions called recursively\<close>

record calls =
  r_fpu :: fpu
  r_strtod :: "u8 list \<Rightarrow> u64"
  r_expr :: "cg \<Rightarrow> val_t cgen"
  r_assign :: "cg \<Rightarrow> val_t cgen"
  r_ternary :: "cg \<Rightarrow> val_t cgen"
  r_unary :: "cg \<Rightarrow> val_t cgen"
  r_binop_rhs :: "nat \<Rightarrow> val_t \<Rightarrow> cg \<Rightarrow> val_t cgen"
  r_postfix :: "val_t \<Rightarrow> cg \<Rightarrow> val_t cgen"
  r_commas :: "val_t \<Rightarrow> cg \<Rightarrow> val_t cgen"
  r_args :: "nat option \<Rightarrow> (u64 \<times> bool) list \<Rightarrow> cg \<Rightarrow> (u64 \<times> bool) list cgen"
  r_ecall_args :: "nat \<Rightarrow> u64 list \<Rightarrow> cg \<Rightarrow> (nat \<times> u64 list) cgen"
  r_items :: "nat \<Rightarrow> nat \<Rightarrow> cg \<Rightarrow> unit cgen"
  r_strings :: "u8 list \<Rightarrow> cg \<Rightarrow> u8 list cgen"
  r_type_name :: "parser \<Rightarrow> nat option parsed"
  r_offsetof :: "parser \<Rightarrow> int parsed"

subsection \<open>Calls\<close>

text \<open>An argument is evaluated, converted, and saved in a stack slot; the result is the slot.\<close>

definition convert_arg_type :: "fpu \<Rightarrow> nat option \<Rightarrow> nat \<Rightarrow> val_t \<Rightarrow> cg \<Rightarrow> val_t cgen" where
  "convert_arg_type u ft n a s =
     (case ft of
        Some f \<Rightarrow>
          if int n < sint (nparams (c_type s f))
          then nonnull (ty_params (c_type s f)) (\<lambda>ps. nonnull (param_type (ps ! n)) (\<lambda>t. val_gen (convert_scalar u a t) s))
          else nonnull (v_type a) (\<lambda>t. if ty_kind (c_type s t) = TY_FLOAT then val_gen (convert_scalar u a ty_double) s else Inr (a, s))
      | None \<Rightarrow>
          nonnull (v_type a) (\<lambda>t. if ty_kind (c_type s t) = TY_FLOAT then val_gen (convert_scalar u a ty_double) s else Inr (a, s)))"

definition copy_bytes :: "nat \<Rightarrow> u64 \<Rightarrow> cg \<Rightarrow> cg" where
  "copy_bytes n slot s =
     fold (\<lambda>k s. code (rv_sb RV_T1 RV_FP (ucast slot + word_of_nat k)) (code (rv_lbu RV_T1 RV_T0 (word_of_nat k)) s)) [0..<n] s"

definition save_arg :: "fpu \<Rightarrow> val_t \<Rightarrow> cg \<Rightarrow> (u64 \<times> bool) cgen" where
  "save_arg u a s =
     nonnull (v_type a) (\<lambda>t.
       let fp = is_float_kind (ty_kind (c_type s t)); (slot, s) = with_val (frame_alloc 8 16) s
       in if fp
          then bindE (val_gen (load_float_value u a RV_FT0) s) (\<lambda>(_, s). Inr ((slot, fp), code (rv_fsd RV_FT0 RV_FP (ucast slot)) s))
          else if ty_kind (c_type s t) \<in> {TY_STRUCT, TY_UNION}
          then let (ssz, s) = c_sizeof t s; (sslot, s) = with_val (frame_alloc (ucast ssz) 16) s
               in bindE (val_gen (materialize a RV_T0) s)
                 (\<lambda>(_, s). Inr ((slot, fp), code (rv_sd RV_T0 RV_FP (ucast slot))
                    (code (rv_addi_imm RV_T0 RV_FP (scast (ucast sslot :: u32))) (copy_bytes (unat ssz) sslot s))))
          else bindE (val_gen (load_value a RV_T0) s) (\<lambda>(_, s). Inr ((slot, fp), code (rv_sd RV_T0 RV_FP (ucast slot)) s)))"

definition call_args :: "calls \<Rightarrow> nat option \<Rightarrow> (u64 \<times> bool) list \<Rightarrow> cg \<Rightarrow> (u64 \<times> bool) list cgen" where
  "call_args r ft args s =
     bindE (r_assign r s)
       (\<lambda>(a, s). bindE (convert_arg_type (r_fpu r) ft (length args) a s)
          (\<lambda>(a, s). bindE (if length args < CC_MAX_FUNC_PARAMS
                           then bindE (save_arg (r_fpu r) a s) (\<lambda>(x, s). Inr (args @ [x], s)) else Inr (args, c_error s))
             (\<lambda>(args, s). case c_accept T_COMMA s of (True, s) \<Rightarrow> r_args r ft args s | (False, s) \<Rightarrow> Inr (args, s))))"

text \<open>The places of the arguments: registers \<open>a0\<close> to \<open>a7\<close> from 0 on, \<open>fa0\<close> to \<open>fa7\<close> from 32 on, stack words below zero.\<close>

fun locations :: "int \<Rightarrow> int \<Rightarrow> int \<Rightarrow> bool list \<Rightarrow> int list \<times> int" where
  "locations gp_idx fp_idx stack_count [] = ([], stack_count)"
| "locations gp_idx fp_idx stack_count (fp # fs) =
     (let (l, gp_idx, fp_idx, stack_count) =
            (if fp \<and> fp_idx < 8 then (32 + fp_idx, gp_idx, fp_idx + 1, stack_count)
             else if \<not> fp \<and> gp_idx < 8 then (gp_idx, gp_idx + 1, fp_idx, stack_count)
             else (- (stack_count + 1), gp_idx, fp_idx, stack_count + 1))
      in case locations gp_idx fp_idx stack_count fs of (ls, n) \<Rightarrow> (l # ls, n))"

definition load_arg :: "int \<Rightarrow> u64 \<Rightarrow> cg \<Rightarrow> cg" where
  "load_arg l slot s =
     (if l < 0 then code (rv_sd RV_T0 RV_SP (word_of_int ((- l - 1) * 8))) (code (rv_ld RV_T0 RV_FP (ucast slot)) s)
      else if 32 \<le> l then code (rv_fld (10 + word_of_int (l - 32)) RV_FP (ucast slot)) s
      else code (rv_ld (RV_A0 + word_of_int l) RV_FP (ucast slot)) s)"

definition jump_to :: "nat option \<Rightarrow> val_t option \<Rightarrow> cg \<Rightarrow> unit cgen" where
  "jump_to fn_sym_idx callee s =
     (case callee of
        Some c \<Rightarrow>
          if v_kind c \<in> {VAL_REG, VAL_LVAL, VAL_SYM, VAL_SPILL, VAL_SPILL_I}
          then bindE (val_gen (load_value c RV_T5) s) (\<lambda>(_, s). Inr ((), code (rv_jalr RV_RA RV_T5 0) s))
          else (case fn_sym_idx of
                  Some i \<Rightarrow> bindE (val_gen (\<lambda>g. map_option (\<lambda>g. (c, g)) (emit_load_global_addr RV_T0 (int i) 0 g)) s)
                      (\<lambda>(_, s). Inr ((), code (rv_jalr RV_RA RV_T0 0) s))
                | None \<Rightarrow> Inr ((), c_error s))
      | None \<Rightarrow>
          (case fn_sym_idx of
             Some i \<Rightarrow> bindE (val_gen (\<lambda>g. map_option (\<lambda>g. (zero_val, g)) (emit_load_global_addr RV_T0 (int i) 0 g)) s)
                 (\<lambda>(_, s). Inr ((), code (rv_jalr RV_RA RV_T0 0) s))
           | None \<Rightarrow> Inr ((), c_error s)))"

definition finish_call :: "nat option \<Rightarrow> nat option \<Rightarrow> val_t option \<Rightarrow> u64 option \<Rightarrow> (u64 \<times> bool) list \<Rightarrow> cg \<Rightarrow> val_t cgen" where
  "finish_call fn_sym_idx ft callee result_slot args s =
     (let s = s\<lparr>max_call_args := max (length args) (max_call_args s)\<rparr>;
          (locs, stack_count) = locations (if result_slot \<noteq> None then 1 else 0) 0 0 (map snd args);
          stack_bytes = (word_of_int (stack_count * 8 + 15) :: u32) AND NOT 15;
          s = (if stack_bytes \<noteq> 0 then code (rv_addi_imm RV_SP RV_SP (- scast stack_bytes)) s else s);
          s = (case result_slot of None \<Rightarrow> s | Some slot \<Rightarrow> code (rv_addi_imm RV_A0 RV_FP slot) s);
          s = fold (\<lambda>(l, slot, fp). load_arg l slot) (zip locs args) s
      in bindE (jump_to fn_sym_idx callee s)
           (\<lambda>(_, s).
              let s = (if stack_bytes \<noteq> 0 then code (rv_addi_imm RV_SP RV_SP (scast stack_bytes)) s else s);
                  t = (case ft of Some f \<Rightarrow> ty_ret (c_type s f) | None \<Rightarrow> Some ty_int)
              in Inr (case result_slot of
                   None \<Rightarrow> (reg_val RV_A0 t, s)
                 | Some slot \<Rightarrow> (reg_val RV_T0 t, code (rv_addi_imm RV_T0 RV_FP slot) s))))"

definition gen_call :: "calls \<Rightarrow> nat option \<Rightarrow> nat option \<Rightarrow> val_t option \<Rightarrow> cg \<Rightarrow> val_t cgen" where
  "gen_call r fn_sym_idx ft callee s =
     (let s = c_expect T_LPAREN s
      in bindE (case ft of
                  None \<Rightarrow> Inr (None, s)
                | Some f \<Rightarrow>
                    nonnull (ty_ret (c_type s f)) (\<lambda>ret.
                      if ty_kind (c_type s ret) \<in> {TY_STRUCT, TY_UNION}
                      then let (sz, s) = c_sizeof ret s; (slot, s) = with_val (frame_alloc (ucast sz) 16) s in Inr (Some slot, s)
                      else Inr (None, s)))
           (\<lambda>(result_slot, s). bindE (if cur_kind s = T_RPAREN then Inr ([], s) else r_args r ft [] s)
              (\<lambda>(args, s). finish_call fn_sym_idx ft callee result_slot args (c_expect T_RPAREN s))))"

subsection \<open>Postfix operators\<close>

definition protect :: "val_t \<Rightarrow> cg \<Rightarrow> val_t \<times> cg" where
  "protect v s = (case with_val (spill_lval v) s of (v, s) \<Rightarrow> with_val (spill_ireg v) s)"

definition scale_index :: "nat \<Rightarrow> cg \<Rightarrow> cg" where
  "scale_index t s =
     (case c_sizeof t s of (sz, s) \<Rightarrow>
        if sz \<noteq> 1 then code (rv_mul RV_T1 RV_T1 RV_T2) (code (rv_addi_imm RV_T2 RV_ZERO sz) s) else s)"

definition postfix_index :: "calls \<Rightarrow> val_t \<Rightarrow> cg \<Rightarrow> val_t cgen" where
  "postfix_index r v s =
     (case protect v s of (v, s) \<Rightarrow>
        bindE (r_expr r (c_next s))
          (\<lambda>(idx, s). bindE (val_gen (load_value idx RV_T1) (c_expect T_RBRACKET s))
             (\<lambda>(_, s). bindE (val_gen (if v_kind v = VAL_SPILL_I then load_value v RV_T0 else materialize v RV_T0) s)
                (\<lambda>(v, s). nonnull (v_type v) (\<lambda>t.
                   let k = ty_kind (c_type s t);
                       s = (if v_kind v = VAL_LVAL \<and> k \<notin> {TY_ARRAY, TY_FUNC} then code (rv_ld RV_T0 RV_T0 (ucast (v_offset v))) s else s);
                       elem = ty_base (c_type s t)
                   in bindE (if k \<in> {TY_ARRAY, TY_PTR} then nonnull elem (\<lambda>b. Inr (Some b, scale_index b s)) else Inr (None, s))
                        (\<lambda>(e, s). Inr (v\<lparr>v_kind := VAL_LVAL, v_type := e, v_reg := RV_T0, v_offset := 0\<rparr>,
                           code (rv_add RV_T0 RV_T0 RV_T1) s)))))))"

definition struct_fields_of :: "type_t \<Rightarrow> struct_field list" where
  "struct_fields_of ty = take (unat (nfields ty)) (case ty_fields ty of None \<Rightarrow> [] | Some fs \<Rightarrow> fs)"

text \<open>The flag of a round says whether the loop goes on.\<close>

definition postfix_member :: "val_t \<Rightarrow> cg \<Rightarrow> (bool \<times> val_t) cgen" where
  "postfix_member v s =
     (let is_arrow = cur_kind s = T_ARROW; s = c_next s
      in if cur_kind s \<noteq> T_IDENT then Inr ((False, v), c_error s)
         else let mname = take (CC_MAX_IDENT - 1) (t_text (c_cur s)); s = c_next s
              in bindE (if is_arrow then nonnull (v_type v) (\<lambda>t. Inr (ty_base (c_type s t), s)) else Inr (v_type v, s))
                   (\<lambda>(st, s).
                      case st of
                        None \<Rightarrow> Inr ((False, v), c_error s)
                      | Some st \<Rightarrow>
                          if ty_kind (c_type s st) \<notin> {TY_STRUCT, TY_UNION} then Inr ((False, v), c_error s)
                          else case List.find (\<lambda>f. field_name f = mname) (struct_fields_of (c_type s st)) of
                            None \<Rightarrow> Inr ((False, v), c_error s)
                          | Some f \<Rightarrow>
                              if is_arrow
                              then bindE (val_gen (load_value v RV_T0) s)
                                (\<lambda>(v, s). Inr ((True, v\<lparr>v_kind := VAL_LVAL, v_reg := RV_T0, v_offset := field_offset f, v_type := field_type f\<rparr>), s))
                              else bindE (if v_kind v = VAL_SYM then val_gen (materialize v RV_T0) s else Inr (v, s))
                                (\<lambda>(v, s). Inr ((True, v\<lparr>v_kind := VAL_LVAL, v_offset := v_offset v + field_offset f, v_type := field_type f\<rparr>), s))))"

definition func_type :: "nat option \<Rightarrow> cg \<Rightarrow> nat option" where
  "func_type t s =
     (case t of
        None \<Rightarrow> None
      | Some t \<Rightarrow>
          if ty_kind (c_type s t) = TY_PTR
          then (case ty_base (c_type s t) of None \<Rightarrow> None | Some b \<Rightarrow> if ty_kind (c_type s b) = TY_FUNC then Some b else None)
          else None)"

definition postfix_call :: "calls \<Rightarrow> val_t \<Rightarrow> cg \<Rightarrow> (bool \<times> val_t) cgen" where
  "postfix_call r v s =
     nonnull (v_type v) (\<lambda>t.
       case (if func_type (Some t) s \<noteq> None then func_type (Some t) s else if ty_kind (c_type s t) = TY_FUNC then Some t else None) of
         None \<Rightarrow> Inr ((False, v), c_error s)
       | Some ft \<Rightarrow>
           (case protect v s of (v, s) \<Rightarrow> bindE (gen_call r None (Some ft) (Some v) s) (\<lambda>(v, s). Inr ((True, v), s))))"

text \<open>
  The common part of \<^verbatim>\<open>++\<close> and \<^verbatim>\<open>--\<close>, before and behind the operand: the old value in \<^verbatim>\<open>t0\<close>, the new one in \<^verbatim>\<open>t1\<close> and
  in the object. An object of another size is not written.
\<close>

definition inc_dec :: "token_kind \<Rightarrow> val_t \<Rightarrow> cg \<Rightarrow> val_t cgen" where
  "inc_dec op v s =
     (case with_val (spill_lval v) s of (v, s) \<Rightarrow>
        bindE (val_gen (load_value v RV_T0) s)
          (\<lambda>(_, s). nonnull (v_type v) (\<lambda>t.
             bindE (if type_is_pointer (c_type s t) then nonnull (ty_base (c_type s t)) (\<lambda>b. Inr (c_sizeof b s)) else Inr (1, s))
               (\<lambda>(sz, s). bindE (val_gen (lhs_addr v RV_T2) (code (rv_addi_imm RV_T1 RV_T0 (if op = T_INC then sz else - sz)) s))
                  (\<lambda>(v, s).
                     case c_sizeof t s of (st, s) \<Rightarrow>
                       Inr (v\<lparr>v_kind := VAL_REG, v_reg := RV_T0, v_offset := 0\<rparr>,
                            if st \<in> {1, 2, 4, 8} then code (store_sized st RV_T1 RV_T2 0) s else s))))))"

definition is_lval :: "val_t \<Rightarrow> bool" where
  "is_lval v \<longleftrightarrow> v_kind v \<in> {VAL_SYM, VAL_LVAL, VAL_SPILL}"

definition postfix_round :: "calls \<Rightarrow> val_t \<Rightarrow> cg \<Rightarrow> (bool \<times> val_t) cgen" where
  "postfix_round r v s =
     (let k = cur_kind s
      in if k = T_LBRACKET then bindE (postfix_index r v s) (\<lambda>(v, s). Inr ((True, v), s))
         else if k \<in> {T_DOT, T_ARROW} then postfix_member v s
         else if k = T_LPAREN then postfix_call r v s
         else if k \<in> {T_INC, T_DEC}
         then (if is_lval v then bindE (inc_dec k v (c_next s)) (\<lambda>(v, s). Inr ((True, v), s)) else Inr ((False, v), c_error (c_next s)))
         else Inr ((False, v), s))"

definition parse_postfix :: "calls \<Rightarrow> val_t \<Rightarrow> cg \<Rightarrow> val_t cgen" where
  "parse_postfix r v s = bindE (postfix_round r v s) (\<lambda>((go, v), s). if go then r_postfix r v s else Inr (v, s))"


subsection \<open>Primary expressions\<close>

definition parse_concat_string :: "calls \<Rightarrow> u8 list \<Rightarrow> cg \<Rightarrow> u8 list cgen" where
  "parse_concat_string r buf s =
     (if cur_kind s = T_STRING then r_strings r (buf @ t_str (c_cur s)) (c_next s) else Inr (buf, s))"

text \<open>The address of a string in the read-only data, into \<^verbatim>\<open>t0\<close>.\<close>

definition string_addr :: "u8 list \<Rightarrow> cg \<Rightarrow> unit cgen" where
  "string_addr str s =
     (let g = gen_of s; (ro, off) = cc_strpool_add (g_rodata g) str; g = g\<lparr>g_rodata := ro\<rparr>;
          lui_off = text_off g; g = emit (rv_lui RV_T0 0) g; addi_off = text_off g; g = emit (rv_addi RV_T0 RV_T0 0) g
      in if CC_MAX_REFS \<le> length (g_rodata_fixups g) then Inl CcFatal
         else Inr ((), with_gen (g\<lparr>g_rodata_fixups := g_rodata_fixups g @
                [\<lparr>rf_rodata_off = off, rf_patch_lui = lui_off, rf_patch_addi = addi_off\<rparr>]\<rparr>) s))"

definition primary_string :: "calls \<Rightarrow> cg \<Rightarrow> val_t cgen" where
  "primary_string r s =
     bindE (parse_concat_string r [] s)
       (\<lambda>(str, s). bindE (string_addr str s)
          (\<lambda>(_, s). case new_type (type_make_array ty_char (word_of_nat (length str) + 1)) s of
             (t, s) \<Rightarrow> parse_postfix r (reg_val RV_T0 (Some t)) s))"

text \<open>The elements of a compound literal of type \<open>t\<close>, from number \<open>i\<close> on.\<close>

definition item_offset :: "type_t \<Rightarrow> nat \<Rightarrow> cg \<Rightarrow> u64 cgen" where
  "item_offset ty i s =
     (if ty_kind ty \<in> {TY_STRUCT, TY_UNION}
      then Inr (if i < length (struct_fields_of ty) then field_offset (struct_fields_of ty ! i) else 0, s)
      else if ty_kind ty = TY_ARRAY
      then nonnull (ty_base ty) (\<lambda>b. case c_sizeof b s of (sz, s) \<Rightarrow> Inr (word_of_nat i * sz, s))
      else Inr (0, s))"

definition compound_items :: "calls \<Rightarrow> nat \<Rightarrow> nat \<Rightarrow> cg \<Rightarrow> unit cgen" where
  "compound_items r t i s =
     (if cur_kind s \<in> {T_RBRACE, T_EOF} then Inr ((), s)
      else bindE (r_assign r s)
        (\<lambda>(elem, s). bindE (item_offset (c_type s t) i s)
           (\<lambda>(off, s). bindE (val_gen (load_value elem RV_T1) s)
              (\<lambda>(elem, s). nonnull (v_type elem) (\<lambda>et.
                 case c_sizeof et (code (rv_addi_imm RV_T2 RV_T0 off) s) of
                   (sz, s) \<Rightarrow>
                     (case c_accept T_COMMA (code (store_sized sz RV_T1 RV_T2 0) s) of
                        (True, s) \<Rightarrow> r_items r t (Suc i) s
                      | (False, s) \<Rightarrow> Inr ((), s)))))))"

definition compound_literal :: "calls \<Rightarrow> nat \<Rightarrow> cg \<Rightarrow> val_t cgen" where
  "compound_literal r t s =
     (case c_sizeof t s of (sz, s) \<Rightarrow>
        case with_val (frame_alloc (ucast sz) (ucast (type_alignof (c_type s t)))) s of (off, s) \<Rightarrow>
          bindE (r_items r t 0 (c_next (code (rv_addi_imm RV_T0 RV_FP off) s)))
            (\<lambda>(_, s). Inr (zero_val\<lparr>v_kind := VAL_LVAL, v_reg := RV_T0, v_type := Some t\<rparr>, c_expect T_RBRACE s)))"

definition primary_paren :: "calls \<Rightarrow> cg \<Rightarrow> val_t cgen" where
  "primary_paren r s =
     bindE (run_parser is_type_start (c_next s))
       (\<lambda>(ty, s).
          if ty
          then bindE (run_parser (r_type_name r) s)
            (\<lambda>(t, s).
               let s = c_expect T_RPAREN s
               in if cur_kind s = T_LBRACE then nonnull t (\<lambda>t. compound_literal r t s)
                  else bindE (r_unary r s) (\<lambda>(e, s). nonnull t (\<lambda>t. val_gen (convert_scalar (r_fpu r) e t) s)))
          else bindE (r_expr r s) (\<lambda>(e, s). parse_postfix r e (c_expect T_RPAREN s)))"

definition primary_sizeof :: "calls \<Rightarrow> cg \<Rightarrow> val_t cgen" where
  "primary_sizeof r s =
     (let size_val = (\<lambda>t s. nonnull t (\<lambda>t. case c_sizeof t (c_expect T_RPAREN s) of
            (sz, s) \<Rightarrow> Inr (zero_val\<lparr>v_kind := VAL_IMM, v_imm := sz, v_type := Some ty_ulong\<rparr>, s)))
      in bindE (run_parser is_type_start (c_expect T_LPAREN (c_next s)))
           (\<lambda>(ty, s).
              if ty then bindE (run_parser (r_type_name r) s) (\<lambda>(t, s). size_val t s)
              else bindE (r_expr r s) (\<lambda>(e, s). size_val (v_type e) s)))"

subsection \<open>Builtins\<close>

definition builtin_setjmp :: "calls \<Rightarrow> cg \<Rightarrow> val_t cgen" where
  "builtin_setjmp r s =
     bindE (r_assign r (c_expect T_LPAREN s))
       (\<lambda>(environment, s). bindE (val_gen (load_value environment RV_T2) (c_expect T_RPAREN s))
          (\<lambda>(_, s). Inr (reg_val RV_T0 (Some ty_int), code (rv_setjmp RV_T2) s)))"

definition builtin_longjmp :: "calls \<Rightarrow> cg \<Rightarrow> val_t cgen" where
  "builtin_longjmp r s =
     bindE (r_assign r (c_expect T_LPAREN s))
       (\<lambda>(environment, s). bindE (val_gen (load_value environment RV_T0) s)
          (\<lambda>(_, s). case with_val (frame_alloc 8 16) s of (slot, s) \<Rightarrow>
             bindE (r_assign r (c_expect T_COMMA (code (rv_sd RV_T0 RV_FP (ucast slot)) s)))
               (\<lambda>(result, s). bindE (val_gen (load_value result RV_A0) (c_expect T_RPAREN s))
                  (\<lambda>(_, s). Inr (reg_val RV_T0 (Some ty_void),
                     code (rv_longjmp RV_T2 RV_A0) (code (rv_ld RV_T2 RV_FP (ucast slot))
                       (code (rv_srai RV_A0 RV_A0 32) (code (rv_slli RV_A0 RV_A0 32) s))))))))"

text \<open>The values of a system call: their number and the slots of the first seven.\<close>

definition ecall_args :: "calls \<Rightarrow> nat \<Rightarrow> u64 list \<Rightarrow> cg \<Rightarrow> (nat \<times> u64 list) cgen" where
  "ecall_args r got slots s =
     bindE (r_assign r s)
       (\<lambda>(a, s). bindE (if got < 7
                        then bindE (val_gen (load_value a RV_T0) s)
                          (\<lambda>(_, s). case with_val (frame_alloc 8 16) s of
                             (slot, s) \<Rightarrow> Inr (slots @ [slot], code (rv_sd RV_T0 RV_FP (ucast slot)) s))
                        else Inr (slots, s))
          (\<lambda>(slots, s). case c_accept T_COMMA s of
             (True, s) \<Rightarrow> r_ecall_args r (Suc got) slots s
           | (False, s) \<Rightarrow> Inr ((Suc got, slots), s)))"

definition builtin_ecall :: "calls \<Rightarrow> nat \<Rightarrow> cg \<Rightarrow> val_t cgen" where
  "builtin_ecall r nargs s =
     (let s = c_expect T_LPAREN s
      in bindE (if cur_kind s = T_RPAREN then Inr ((0, []), s) else r_ecall_args r 0 [] s)
           (\<lambda>((got, slots), s).
              let s = c_expect T_RPAREN s;
                  s = (if got \<noteq> nargs then c_warn s else s);
                  s = (if 7 < got then c_error s else s);
                  s = fold (\<lambda>(reg, slot). code (rv_ld reg RV_FP (ucast slot))) (zip [17, 10, 11, 12, 13, 14, 15] slots) s
              in Inr (reg_val RV_A0 (Some ty_long), code rv_ecall s)))"

definition builtin_va_start :: "calls \<Rightarrow> cg \<Rightarrow> val_t cgen" where
  "builtin_va_start r s =
     bindE (r_assign r (c_expect T_LPAREN s))
       (\<lambda>(ap, s). bindE (if cur_kind s = T_COMMA then bindE (r_assign r (c_next s)) (\<lambda>(_, s). Inr ((), s)) else Inr ((), s))
          (\<lambda>(_, s). bindE (val_gen (materialize ap RV_T0) (c_expect T_RPAREN s))
             (\<lambda>(_, s).
                let s = (if \<not> g_variadic s then c_error s else s);
                    (pair, s) = with_val (frame_alloc 40 16) s;
                    save = (\<lambda>off k s. code (rv_sd RV_T1 RV_FP (ucast pair + k)) (code (rv_addi_imm RV_T1 RV_FP (scast off)) s));
                    s = save (va_save_off s + named_gp s * 8) 0 s;
                    s = save (va_fsave_off s + named_fp s * 8) 8 s;
                    s = save (va_save_off s + 64) 16 s;
                    s = save (va_fsave_off s + 64) 24 s;
                    s = save (named_stack s) 32 s
                in Inr (zero_val, code (rv_sd RV_T1 RV_T0 0) (code (rv_addi_imm RV_T1 RV_FP pair) s)))))"

text \<open>
  The next argument: from the registers saved for its class while there are any, from the stack behind them. The
  object is behind the address in \<^verbatim>\<open>t1\<close>.
\<close>

definition va_arg_addr :: "u32 \<Rightarrow> cg \<Rightarrow> cg" where
  "va_arg_addr cursor s =
     (let s = code (rv_ld RV_T2 RV_T0 (cursor + 16)) (code (rv_ld RV_T1 RV_T0 cursor) s);
          register_branch = c_text_off s; s = code (rv_bltu RV_T1 RV_T2 0) s;
          s = code (rv_sd RV_T3 RV_T0 32) (code (rv_addi RV_T3 RV_T1 8) (code (rv_ld RV_T1 RV_T0 32) s));
          common_jump = c_text_off s; s = code (rv_jal RV_ZERO 0) s;
          s = gen_patch_branch register_branch s;
          s = code (rv_sd RV_T3 RV_T0 cursor) (code (rv_addi RV_T3 RV_T1 8) s)
      in gen_patch_jal common_jump s)"

definition builtin_va_arg :: "calls \<Rightarrow> cg \<Rightarrow> val_t cgen" where
  "builtin_va_arg r s =
     bindE (r_assign r (c_expect T_LPAREN s))
       (\<lambda>(ap, s). bindE (run_parser (r_type_name r) (c_expect T_COMMA s))
          (\<lambda>(arg_type, s). bindE (val_gen (load_value ap RV_T0) (c_expect T_RPAREN s))
             (\<lambda>(_, s). nonnull arg_type (\<lambda>t.
                let ty = c_type s t; s = va_arg_addr (if is_float_kind (ty_kind ty) then 8 else 0) s
                in if is_float_kind (ty_kind ty) then Inr (reg_val RV_FT0 (Some t), code (rv_fld RV_FT0 RV_T1 0) s)
                   else case c_sizeof t s of (sz, s) \<Rightarrow>
                     parse_postfix r (reg_val RV_T2 (Some t))
                       (code (load_sized (type_is_unsigned ty) (if ty_kind ty \<in> {TY_STRUCT, TY_UNION} then 8 else sz) RV_T2 RV_T1 0) s)))))"

definition builtin_va_copy :: "calls \<Rightarrow> cg \<Rightarrow> val_t cgen" where
  "builtin_va_copy r s =
     bindE (r_assign r (c_expect T_LPAREN s))
       (\<lambda>(destination, s). case with_val (spill_lval destination) s of (destination, s) \<Rightarrow>
          bindE (r_assign r (c_expect T_COMMA s))
            (\<lambda>(source, s). bindE (val_gen (load_value source RV_T1) (c_expect T_RPAREN s))
               (\<lambda>(_, s). case with_val (frame_alloc 40 16) s of (copy, s) \<Rightarrow>
                  let s = fold (\<lambda>k s. code (rv_sd RV_T2 RV_FP (ucast copy + k)) (code (rv_ld RV_T2 RV_T1 k) s)) [0, 8, 16, 24, 32] s
                  in bindE (val_gen (materialize destination RV_T0) s)
                       (\<lambda>(_, s). Inr (zero_val\<lparr>v_kind := VAL_IMM, v_type := Some ty_void\<rparr>,
                          code (rv_sd RV_T1 RV_T0 0) (code (rv_addi_imm RV_T1 RV_FP copy) s))))))"

definition builtin_va_end :: "calls \<Rightarrow> cg \<Rightarrow> val_t cgen" where
  "builtin_va_end r s = bindE (r_assign r (c_expect T_LPAREN s)) (\<lambda>(_, s). Inr (zero_val, c_expect T_RPAREN s))"

definition ecall_count :: "u8 list \<Rightarrow> nat option" where
  "ecall_count name =
     (let d = name ! 7
      in if length name = 8 \<and> take 7 name = bytes_of ''__ecall'' \<and> 48 \<le> uint d \<and> uint d \<le> 55 then Some (unat d - 48) else None)"

definition builtin :: "calls \<Rightarrow> u8 list \<Rightarrow> (cg \<Rightarrow> val_t cgen) option" where
  "builtin r name =
     (if name = bytes_of ''__builtin_onyx_setjmp'' then Some (builtin_setjmp r)
      else if name = bytes_of ''__builtin_onyx_longjmp'' then Some (builtin_longjmp r)
      else case ecall_count name of
        Some n \<Rightarrow> Some (builtin_ecall r n)
      | None \<Rightarrow>
          if name \<in> {bytes_of ''va_start'', bytes_of ''__builtin_va_start''} then Some (builtin_va_start r)
          else if name \<in> {bytes_of ''va_arg'', bytes_of ''__builtin_va_arg''} then Some (builtin_va_arg r)
          else if name \<in> {bytes_of ''va_copy'', bytes_of ''__builtin_va_copy''} then Some (builtin_va_copy r)
          else if name \<in> {bytes_of ''va_end'', bytes_of ''__builtin_va_end''} then Some (builtin_va_end r)
          else None)"

subsection \<open>Names\<close>

definition lookup_local :: "u8 list \<Rightarrow> cg \<Rightarrow> nat option \<times> cg" where
  "lookup_local name s =
     (case symtab_lookup_local name (p_syms (cg_p s)) of (i, st) \<Rightarrow> (i, on_parser (\<lambda>p. p\<lparr>p_syms := st\<rparr>) s))"

definition c_local :: "cg \<Rightarrow> nat \<Rightarrow> sym_t" where
  "c_local s i = g_locals (p_syms (cg_p s)) ! i"

definition c_global :: "cg \<Rightarrow> nat \<Rightarrow> sym_t" where
  "c_global s i = g_globals (p_syms (cg_p s)) ! i"

text \<open>A global by its name, and by its mangled name when several files are compiled.\<close>

definition find_global :: "u8 list \<Rightarrow> cg \<Rightarrow> nat option cgen" where
  "find_global name s =
     bindE (run_parser (gen_lookup_global name) s)
       (\<lambda>(i, s). if i = None \<and> 1 < n_input_files (cg_p s)
          then bindE (mangle_static_name name (cg_p s)) (\<lambda>mangled. run_parser (gen_lookup_global mangled) s)
          else Inr (i, s))"

definition call_then :: "calls \<Rightarrow> nat option \<Rightarrow> nat option \<Rightarrow> val_t option \<Rightarrow> cg \<Rightarrow> val_t cgen" where
  "call_then r i ft callee s = bindE (gen_call r i ft callee s) (\<lambda>(v, s). parse_postfix r v s)"

text \<open>A call of a name that is not a local function pointer; an unknown name is declared as \<^verbatim>\<open>int()\<close>.\<close>

definition call_global :: "calls \<Rightarrow> u8 list \<Rightarrow> cg \<Rightarrow> val_t cgen" where
  "call_global r name s =
     bindE (find_global name s)
       (\<lambda>(idx, s). case idx of
          Some i \<Rightarrow>
            if sym_kind (c_global s i) = SYM_GLOBAL_VAR
            then nonnull (sym_type (c_global s i)) (\<lambda>t.
              case func_type (Some t) s of
                Some ft \<Rightarrow> call_then r None (Some ft) (Some (sym_val (int i) (Some t))) s
              | None \<Rightarrow> call_then r (Some i) (Some t) None s)
            else call_then r (Some i) (sym_type (c_global s i)) None s
        | None \<Rightarrow>
            (case new_type (type_make_function ty_int) s of (ft, s) \<Rightarrow>
               (case symtab_install_global name SYM_FUNCTION (Some ft) (p_syms (cg_p s)) of
                  None \<Rightarrow> Inl CcFatal
                | Some (i, st) \<Rightarrow>
                    let st = st\<lparr>g_globals := (g_globals st)[i := (g_globals st ! i)\<lparr>sym_is_defined := False\<rparr>]\<rparr>;
                        s = on_parser (\<lambda>p. p\<lparr>p_syms := st\<rparr>) s
                    in call_then r (Some i) (sym_type (c_global s i)) None s)))"

definition call_name :: "calls \<Rightarrow> u8 list \<Rightarrow> cg \<Rightarrow> val_t cgen" where
  "call_name r name s =
     (case lookup_local name s of
        (None, s) \<Rightarrow> call_global r name s
      | (Some l, s) \<Rightarrow>
          if 0 \<le> sym_alias_global (c_local s l)
          then let i = nat (sym_alias_global (c_local s l))
               in nonnull (sym_type (c_global s i)) (\<lambda>t.
                    case func_type (Some t) s of
                      Some ft \<Rightarrow> call_then r None (Some ft) (Some (sym_val (int i) (Some t))) s
                    | None \<Rightarrow> call_global r name s)
          else nonnull (sym_type (c_local s l)) (\<lambda>t.
                 case func_type (Some t) s of
                   Some ft \<Rightarrow> call_then r None (Some ft) (Some (sym_val (n_globals (gen_of s) + int l) (Some t))) s
                 | None \<Rightarrow> call_global r name s))"

definition variable :: "u8 list \<Rightarrow> cg \<Rightarrow> val_t cgen" where
  "variable name s =
     (case lookup_local name s of
        (Some l, s) \<Rightarrow>
          let sym = c_local s l
          in Inr (sym_val (if 0 \<le> sym_alias_global sym then sym_alias_global sym else n_globals (gen_of s) + int l) (sym_type sym), s)
      | (None, s) \<Rightarrow>
          bindE (find_global name s)
            (\<lambda>(i, s). case i of
               Some i \<Rightarrow>
                 if sym_kind (c_global s i) = SYM_ENUM_CONST
                 then Inr (zero_val\<lparr>v_kind := VAL_IMM, v_imm := sym_enum_val (c_global s i), v_type := Some ty_int\<rparr>, s)
                 else Inr (sym_val (int i) (sym_type (c_global s i)), s)
             | None \<Rightarrow> Inr (zero_val\<lparr>v_kind := VAL_IMM, v_type := Some ty_int\<rparr>, c_error s)))"

definition primary_ident :: "calls \<Rightarrow> cg \<Rightarrow> val_t cgen" where
  "primary_ident r s =
     (if t_text (c_cur s) = bytes_of ''__builtin_offsetof''
      then bindE (run_parser (r_offsetof r) s)
        (\<lambda>(off, s). parse_postfix r (zero_val\<lparr>v_kind := VAL_IMM, v_imm := word_of_int off, v_type := Some ty_ulong\<rparr>) s)
      else let name = take (CC_MAX_IDENT - 1) (t_text (c_cur s)); s = c_next s
           in if cur_kind s = T_LPAREN
              then (case builtin r name of Some f \<Rightarrow> f s | None \<Rightarrow> call_name r name s)
              else if name = bytes_of ''__func__''
              then let fname = (if g_cur_func_name s = [] then bytes_of ''?'' else g_cur_func_name s)
                   in bindE (string_addr fname s)
                     (\<lambda>(_, s). case new_type (type_make_ptr ty_char) s of (t, s) \<Rightarrow> Inr (reg_val RV_T0 (Some t), s))
              else bindE (variable name s) (\<lambda>(v, s). parse_postfix r v s))"

definition parse_primary :: "calls \<Rightarrow> cg \<Rightarrow> val_t cgen" where
  "parse_primary r s =
     (let k = cur_kind s
      in if k \<in> {T_INT, T_LONG, T_UINT, T_ULONG, T_CHAR_LIT}
         then Inr (zero_val\<lparr>v_kind := VAL_IMM, v_imm := t_ival (c_cur s), v_type := Some (literal_type k)\<rparr>, c_next s)
         else if k \<in> {T_FLOAT, T_DOUBLE}
         then Inr (zero_val\<lparr>v_kind := VAL_IMM, v_fval := r_strtod r (t_fval (c_cur s)),
                v_type := Some (if k = T_FLOAT then ty_float else ty_double)\<rparr>, c_next s)
         else if k = T_STRING then primary_string r s
         else if k = T_LPAREN then primary_paren r s
         else if k = T_IDENT then primary_ident r s
         else if k = T_KW T_KW_SIZEOF then primary_sizeof r s
         else Inr (zero_val\<lparr>v_kind := VAL_IMM, v_type := Some ty_int\<rparr>, c_error s))"

subsection \<open>Unary operators\<close>

definition unary_minus :: "fpu \<Rightarrow> val_t \<Rightarrow> cg \<Rightarrow> val_t cgen" where
  "unary_minus u e s =
     nonnull (v_type e) (\<lambda>t.
       if is_float_kind (ty_kind (c_type s t))
       then bindE (val_gen (load_float_value u e RV_FT0) s)
         (\<lambda>(e, s). Inr (e\<lparr>v_reg := RV_FT0\<rparr>,
            code ((if is_double_type (ty_of e (gen_of s)) then rv_fneg_d else rv_fneg_s) RV_FT0 RV_FT0) s))
       else let promoted = type_promote t (p_types (cg_p s))
            in bindE (val_gen (convert_scalar u e promoted) s)
                 (\<lambda>(e, s). val_gen (convert_scalar u e promoted) (code (rv_neg RV_T0 RV_T0) s)))"

definition unary_plus :: "fpu \<Rightarrow> val_t \<Rightarrow> cg \<Rightarrow> val_t cgen" where
  "unary_plus u e s =
     nonnull (v_type e) (\<lambda>t.
       if is_float_kind (ty_kind (c_type s t)) then Inr (e, s)
       else val_gen (convert_scalar u e (type_promote t (p_types (cg_p s)))) s)"

definition unary_not :: "fpu \<Rightarrow> val_t \<Rightarrow> cg \<Rightarrow> val_t cgen" where
  "unary_not u e s =
     bindE (val_gen (convert_scalar u e ty_bool) s)
       (\<lambda>(e, s). Inr (e\<lparr>v_reg := RV_T0, v_type := Some ty_int\<rparr>, code (rv_seqz RV_T0 RV_T0) s))"

definition unary_tilde :: "fpu \<Rightarrow> val_t \<Rightarrow> cg \<Rightarrow> val_t cgen" where
  "unary_tilde u e s =
     nonnull (v_type e) (\<lambda>t.
       let promoted = type_promote t (p_types (cg_p s))
       in bindE (val_gen (convert_scalar u e promoted) s)
            (\<lambda>(e, s). val_gen (convert_scalar u e promoted) (code (rv_not RV_T0 RV_T0) s)))"

definition unary_star :: "val_t \<Rightarrow> cg \<Rightarrow> val_t cgen" where
  "unary_star e s =
     bindE (val_gen (load_value e RV_T0) s)
       (\<lambda>(e, s). nonnull (v_type e) (\<lambda>t. Inr (zero_val\<lparr>v_kind := VAL_LVAL, v_reg := RV_T0, v_type := ty_base (c_type s t)\<rparr>, s)))"

definition unary_amp :: "val_t \<Rightarrow> cg \<Rightarrow> val_t cgen" where
  "unary_amp e s =
     (if v_kind e \<in> {VAL_SYM, VAL_LVAL, VAL_SPILL}
      then bindE (val_gen (materialize e RV_T0) s)
        (\<lambda>(e, s). case c_make_ptr (v_type e) s of
           (t, s) \<Rightarrow> Inr (e\<lparr>v_kind := VAL_REG, v_reg := RV_T0, v_offset := 0, v_type := Some t\<rparr>, s))
      else if v_kind e = VAL_REG
      then nonnull (v_type e) (\<lambda>t.
        if ty_kind (c_type s t) = TY_FUNC
        then (case new_type (type_make_ptr t) s of (p, s) \<Rightarrow> Inr (e\<lparr>v_type := Some p\<rparr>, s))
        else Inr (e, c_error s))
      else Inr (e, c_error s))"

definition unary_inc_dec :: "token_kind \<Rightarrow> val_t \<Rightarrow> cg \<Rightarrow> val_t cgen" where
  "unary_inc_dec op e s =
     (if is_lval e then bindE (inc_dec op e s) (\<lambda>(e, s). Inr (e, code (rv_mv RV_T0 RV_T1) s)) else Inr (e, c_error s))"

definition parse_unary :: "calls \<Rightarrow> cg \<Rightarrow> val_t cgen" where
  "parse_unary r s =
     (let k = cur_kind s; u = r_fpu r; operand = (\<lambda>f. bindE (r_unary r (c_next s)) (\<lambda>(e, s). f e s))
      in if k = T_MINUS then operand (unary_minus u)
         else if k = T_PLUS then operand (unary_plus u)
         else if k = T_NOT then operand (unary_not u)
         else if k = T_TILDE then operand (unary_tilde u)
         else if k = T_STAR then operand unary_star
         else if k = T_AMP then operand unary_amp
         else if k \<in> {T_INC, T_DEC} then operand (unary_inc_dec k)
         else parse_primary r s)"

subsection \<open>Binary operators\<close>

text \<open>The right operand: a unary expression and the operators that bind stronger.\<close>

definition right_operand :: "calls \<Rightarrow> nat \<Rightarrow> cg \<Rightarrow> val_t cgen" where
  "right_operand r prec s =
     bindE (parse_unary r s)
       (\<lambda>(rhs, s). if prec < op_prec (cur_kind s) then r_binop_rhs r (prec + 1) rhs s else Inr (rhs, s))"

definition short_circuit :: "calls \<Rightarrow> token_kind \<Rightarrow> nat \<Rightarrow> val_t \<Rightarrow> cg \<Rightarrow> val_t cgen" where
  "short_circuit r op prec lhs s =
     bindE (val_gen (load_value lhs RV_T0) s)
       (\<lambda>(lhs, s).
          let s = code (if op = T_AND then rv_beq RV_T0 RV_ZERO 0 else rv_bne RV_T0 RV_ZERO 0) s; br = c_text_off s - 4
          in bindE (right_operand r prec s)
               (\<lambda>(rhs, s). bindE (val_gen (load_value rhs RV_T0) s)
                  (\<lambda>(_, s).
                     let s = code (rv_jal RV_ZERO 0) (code (rv_snez RV_T0 RV_T0) s); jmp_end = c_text_off s - 4;
                         label = c_text_off s; s = code (rv_addi RV_T0 RV_ZERO (if op = T_AND then 0 else 1)) s; end_label = c_text_off s;
                         s = on_gen (patch_text or_branch br (label - br)) s;
                         s = on_gen (patch_text set_jump jmp_end (end_label - jmp_end)) s
                     in Inr (lhs\<lparr>v_kind := VAL_REG, v_reg := RV_T0, v_type := Some ty_int\<rparr>, s))))"

definition parse_binop_rhs :: "calls \<Rightarrow> nat \<Rightarrow> val_t \<Rightarrow> cg \<Rightarrow> val_t cgen" where
  "parse_binop_rhs r min_prec lhs s =
     (let op = cur_kind s; prec = op_prec op
      in if prec < min_prec \<or> prec = 0 then Inr (lhs, s)
         else bindE (val_gen (decay_operand lhs) s)
           (\<lambda>(lhs, s).
              let s = c_next s
              in bindE (if op \<in> {T_AND, T_OR} then short_circuit r op prec lhs s
                        else (case with_val (binop_lhs lhs) s of
                                (lhs, s) \<Rightarrow> bindE (right_operand r prec s) (\<lambda>(rhs, s). val_gen (binop_rhs (r_fpu r) op lhs rhs) s)))
                   (\<lambda>(lhs, s). r_binop_rhs r min_prec lhs s)))"

definition parse_binop :: "calls \<Rightarrow> cg \<Rightarrow> val_t cgen" where
  "parse_binop r s = bindE (parse_unary r s) (\<lambda>(lhs, s). r_binop_rhs r 0 lhs s)"

subsection \<open>Conditional, assignment, comma\<close>

definition is_aggregate :: "type_t \<Rightarrow> bool" where
  "is_aggregate t \<longleftrightarrow> ty_kind t \<in> {TY_STRUCT, TY_UNION}"

text \<open>The first arm is saved in a slot, as a value or, for a struct, as an address.\<close>

definition save_then :: "fpu \<Rightarrow> val_t \<Rightarrow> nat \<Rightarrow> cg \<Rightarrow> val_t cgen" where
  "save_then u v t s =
     (if is_float_kind (ty_kind (c_type s t))
      then bindE (val_gen (load_float_value u v RV_FT0) s) (\<lambda>(v, s). Inr (with_val (spill_freg v) s))
      else if is_aggregate (c_type s t)
      then bindE (val_gen (materialize v RV_T0) s)
        (\<lambda>(v, s). case new_type (type_make_ptr t) s of (p, s) \<Rightarrow>
           (case with_val (spill_ireg (v\<lparr>v_kind := VAL_REG, v_reg := RV_T0, v_type := Some p\<rparr>)) s of
              (v, s) \<Rightarrow> Inr (v\<lparr>v_type := Some t\<rparr>, s)))
      else bindE (val_gen (load_value v RV_T0) s) (\<lambda>(v, s). Inr (with_val (spill_ireg (v\<lparr>v_kind := VAL_REG, v_reg := RV_T0\<rparr>)) s)))"

definition arms_type :: "nat \<Rightarrow> nat option \<Rightarrow> cg \<Rightarrow> nat cgen" where
  "arms_type a b s =
     (let ta = c_type s a
      in if is_aggregate ta \<or> ty_kind ta = TY_VOID then Inr (a, s)
         else if ty_kind ta = TY_ARRAY then Inr (c_make_ptr (ty_base ta) s)
         else nonnull b (\<lambda>b.
           let tb = c_type s b
           in if ty_kind tb = TY_ARRAY then Inr (c_make_ptr (ty_base tb) s)
              else if type_is_pointer ta then Inr (a, s)
              else if type_is_pointer tb then Inr (b, s)
              else Inr (type_common a b (p_types (cg_p s)), s)))"

definition parse_ternary :: "calls \<Rightarrow> cg \<Rightarrow> val_t cgen" where
  "parse_ternary r s =
     bindE (parse_binop r s)
       (\<lambda>(cond, s). if cur_kind s \<noteq> T_QUESTION then Inr (cond, s)
          else bindE (val_gen (convert_scalar (r_fpu r) cond ty_bool) (c_next s))
            (\<lambda>(_, s).
               let s = code (rv_jal RV_ZERO 0) (code (rv_bne RV_T0 RV_ZERO 8) s); false_jump = c_text_off s - 4
               in bindE (r_expr r s)
                    (\<lambda>(then_v, s). nonnull (v_type then_v) (\<lambda>a.
                       bindE (save_then (r_fpu r) then_v a s)
                         (\<lambda>(then_v, s).
                            let s = code (rv_jal RV_ZERO 0) s; true_jump = c_text_off s - 4; s = gen_patch_jal false_jump s
                            in bindE (r_ternary r (c_expect T_COLON s))
                                 (\<lambda>(else_v, s).
                                    bindE (arms_type a (v_type else_v) s)
                                      (\<lambda>(common, s).
                                         bindE (if is_aggregate (c_type s a) then val_gen (materialize else_v RV_T0) s
                                                else val_gen (convert_scalar (r_fpu r) else_v common) s)
                                           (\<lambda>(_, s).
                                              let s = code (rv_jal RV_ZERO 0) s; end_jump = c_text_off s - 4; s = gen_patch_jal true_jump s
                                              in bindE (if is_aggregate (c_type s a)
                                                        then Inr (then_v, code (rv_ld RV_T0 RV_FP (ucast (v_offset then_v))) s)
                                                        else val_gen (convert_scalar (r_fpu r) then_v common) s)
                                                   (\<lambda>(then_v, s).
                                                      Inr (then_v\<lparr>v_kind := VAL_REG, v_type := Some common,
                                                             v_reg := if is_float_kind (ty_kind (c_type s common)) then RV_FT0 else RV_T0,
                                                             v_offset := 0\<rparr>, gen_patch_jal end_jump s))))))))))"

definition assign_ops :: "token_kind set" where
  "assign_ops = {T_ASSIGN, T_PLUS_ASSIGN, T_MINUS_ASSIGN, T_STAR_ASSIGN, T_SLASH_ASSIGN, T_PERCENT_ASSIGN, T_AND_ASSIGN, T_OR_ASSIGN,
     T_XOR_ASSIGN, T_SHL_ASSIGN, T_SHR_ASSIGN}"

definition parse_assign :: "calls \<Rightarrow> cg \<Rightarrow> val_t cgen" where
  "parse_assign r s =
     bindE (parse_ternary r s)
       (\<lambda>(lhs, s). let k = cur_kind s
          in if k \<notin> assign_ops then Inr (lhs, s)
             else case with_val (spill_lval lhs) (c_next s) of
               (lhs, s) \<Rightarrow>
                 bindE (r_assign r s)
                   (\<lambda>(rhs, s). bindE (val_gen (gen_store (r_fpu r) lhs rhs k) s)
                      (\<lambda>(lhs, s). Inr (lhs\<lparr>v_kind := VAL_REG, v_reg := RV_T0, v_offset := 0\<rparr>, s))))"

definition comma_loop :: "calls \<Rightarrow> val_t \<Rightarrow> cg \<Rightarrow> val_t cgen" where
  "comma_loop r v s = (case c_accept T_COMMA s of (True, s) \<Rightarrow> bindE (parse_assign r s) (\<lambda>(v, s). r_commas r v s) | (False, s) \<Rightarrow> Inr (v, s))"

definition parse_expr :: "calls \<Rightarrow> cg \<Rightarrow> val_t cgen" where
  "parse_expr r s = bindE (parse_assign r s) (\<lambda>(v, s). r_commas r v s)"

subsection \<open>The recursion\<close>

definition no_calls :: "fpu \<Rightarrow> (u8 list \<Rightarrow> u64) \<Rightarrow> calls" where
  "no_calls u fv = \<lparr>r_fpu = u, r_strtod = fv, r_expr = (\<lambda>s. Inl NoFuel), r_assign = (\<lambda>s. Inl NoFuel), r_ternary = (\<lambda>s. Inl NoFuel),
     r_unary = (\<lambda>s. Inl NoFuel), r_binop_rhs = (\<lambda>m v s. Inl NoFuel), r_postfix = (\<lambda>v s. Inl NoFuel), r_commas = (\<lambda>v s. Inl NoFuel),
     r_args = (\<lambda>ft a s. Inl NoFuel), r_ecall_args = (\<lambda>n a s. Inl NoFuel), r_items = (\<lambda>t i s. Inl NoFuel), r_strings = (\<lambda>b s. Inl NoFuel),
     r_type_name = (\<lambda>p. Inl NoFuel), r_offsetof = (\<lambda>p. Inl NoFuel)\<rparr>"

primrec exprs :: "fpu \<Rightarrow> (u8 list \<Rightarrow> u64) \<Rightarrow> nat \<Rightarrow> calls" where
  "exprs u fv 0 = no_calls u fv"
| "exprs u fv (Suc n) = (let r = exprs u fv n in
     \<lparr>r_fpu = u, r_strtod = fv, r_expr = parse_expr r, r_assign = parse_assign r, r_ternary = parse_ternary r,
      r_unary = parse_unary r, r_binop_rhs = parse_binop_rhs r, r_postfix = parse_postfix r, r_commas = comma_loop r,
      r_args = call_args r, r_ecall_args = ecall_args r, r_items = compound_items r, r_strings = parse_concat_string r,
      r_type_name = type_name n, r_offsetof = parse_builtin_offsetof (type_name n) n\<rparr>)"

end
