(* ===== verification/Spec2Isabelle.thy ===== *)
theory Spec2Isabelle
  imports Encoder_Exec Encoder_Mem Encoder_Alu Emulator_Inv Lexer_Props Fixups Loader Linker_Layout Linker_Symbols
    Symtab Libc_Time Libc_Sort Types Gen_Store Pp_Expr_Sem Libc_Alloc_Props Decl_Errors Pp_Props Libc_Printf_Props Gen_Expr
begin

text \<open>
  A verification of OnyxCC, a C compiler for RISC-V64 written in C, with its linker, its emulator and
  the C library the compiled programs use. Paths are those of the repository.

  \<^bold>\<open>The program.\<close> \<^verbatim>\<open>src/core/main.c\<close> runs the compiler: the preprocessor (\<^verbatim>\<open>src/back/pp.c\<close>, \<^verbatim>\<open>src/back/pp_expr.c\<close>)
  turns a file and what it includes into one text, the lexer (\<^verbatim>\<open>src/front/lexer.c\<close>) into tokens, and a one-pass
  parser (\<^verbatim>\<open>src/front/parse.c\<close>, \<^verbatim>\<open>src/front/decl.c\<close>, \<^verbatim>\<open>src/front/constant/\<close>, \<^verbatim>\<open>src/back/gen.c\<close>) emits machine code while it
  reads, with the types of \<^verbatim>\<open>src/core/types.c\<close>, the symbols of \<^verbatim>\<open>src/front/ast.c\<close> and the encoders of
  \<^verbatim>\<open>src/arch/riscv64.c\<close>. \<^verbatim>\<open>src/back/emit.c\<close> writes the segments as an executable; \<^verbatim>\<open>src/tools/onyx-ld.c\<close> links object
  files to one. \<^verbatim>\<open>tools/onx-run.c\<close> loads an executable and interprets it. \<^verbatim>\<open>libonyxc/\<close> is the C library.

  \<^bold>\<open>Conventions of the model.\<close> Machine words are words of their width, so that sums wrap; a length or an index
  that cannot wrap is a natural number. A failing operation returns a sum (\<^verbatim>\<open>Inl\<close> the way to stop) or an option. The
  globals of a component are a record that its operations return updated. Types are indices into the list of type
  objects, pointers between them are such indices, null is \<^const>\<open>None\<close>. A buffer is the list of its bytes. What is not C code
  of the repository is an argument: the host's system calls and floating-point unit of the emulator, the files the
  preprocessor and the linker read, the system calls under the streams of the library, the text of a printed
  floating-point number, \<^verbatim>\<open>strtod\<close> of a floating literal, the comparison function of \<^verbatim>\<open>qsort\<close>.

  \<^bold>\<open>Theories and sources.\<close>
    \<^item> \<^verbatim>\<open>Onyx_Prelude\<close>: word names, the error monad, little-endian bytes, lemmas on bit fields. \<^verbatim>\<open>Buffers\<close>: the counters of
      diagnostics, growable buffers and the string pool of \<^verbatim>\<open>src/core/util.c\<close>. \<^verbatim>\<open>Name_Tables\<close>: the interface of every table
      searched by name, a locale interpreted on the tables of the linker, the compiler and the tags.
    \<^item> \<^verbatim>\<open>Pp_Macro\<close>, \<^verbatim>\<open>Pp_Lines\<close>, \<^verbatim>\<open>Pp_Source\<close> model \<^verbatim>\<open>pp.c\<close>: macro table, arguments, substitution with \<^verbatim>\<open>#\<close> and \<^verbatim>\<open>##\<close>, passes of
      expansion; comments, continuation lines, gathered invocations; directives, conditions, included files. \<^verbatim>\<open>Pp_Cond\<close>
      compares the stack of conditions with nested groups; \<^verbatim>\<open>Pp_Props\<close> shows that replacing a name stays in an output that is not full, that a full one overflows, that
      preprocessing ends when no file includes itself, and that it never ends when one does. \<^verbatim>\<open>Pp_Expr\<close>, \<^verbatim>\<open>Pp_Expr_Props\<close>
      and \<^verbatim>\<open>Pp_Expr_Sem\<close> model \<^verbatim>\<open>pp_expr.c\<close> and compare it with the C standard.
    \<^item> \<^verbatim>\<open>Tokens\<close>, \<^verbatim>\<open>Lexer\<close>, \<^verbatim>\<open>Lexer_Props\<close>: the lexer with its lookahead; it ends, and string literals are read as C99 defines them.
    \<^item> \<^verbatim>\<open>Types\<close>, \<^verbatim>\<open>Symtab\<close>: types with their conversions, well-formedness kept by every operation; the symbol table refines a
      stack of scopes.
    \<^item> \<^verbatim>\<open>Const_Eval\<close>, \<^verbatim>\<open>Const_Eval_Props\<close>, \<^verbatim>\<open>Const_Eval_Sem\<close>: integer constant expressions of \<^verbatim>\<open>src/front/constant/\<close>, compared with
      the values the C standard defines.
    \<^item> \<^verbatim>\<open>Decl_Parser\<close>, \<^verbatim>\<open>Decl_Sem\<close>, \<^verbatim>\<open>Decl_Struct\<close>, \<^verbatim>\<open>Decl_Errors\<close>: type specifiers, struct bodies and declarators of \<^verbatim>\<open>gen.c\<close> and
      \<^verbatim>\<open>decl.c\<close>; declarators of pointers, groups, arrays and functions are read as the type the grammar gives them, structs of
      such members are laid out as the ABI asks, and the inputs on which the parser departs from C.
    \<^item> \<^verbatim>\<open>Encoder\<close>, \<^verbatim>\<open>Encoder_Fields\<close>, \<^verbatim>\<open>Encoder_Exec\<close>, \<^verbatim>\<open>Encoder_Mem\<close>, \<^verbatim>\<open>Encoder_Alu\<close>, \<^verbatim>\<open>Fixups\<close>: the encoders of \<^verbatim>\<open>riscv64.c\<close> and what
      the interpreter does with the words they emit; patches of branches and jumps.
    \<^item> \<^verbatim>\<open>Gen_Values\<close>: value descriptors, loads, conversions, spills, stores and binary operators of \<^verbatim>\<open>gen.c\<close>. \<^verbatim>\<open>Gen_Exec\<close>,
      \<^verbatim>\<open>Gen_Convert\<close>, \<^verbatim>\<open>Gen_Binop\<close>, \<^verbatim>\<open>Gen_Store\<close>: the code they emit, run by the interpreter, computes what C defines.
      \<^verbatim>\<open>Gen_Expr\<close>: the expression parser of \<^verbatim>\<open>gen.c\<close> with calls and builtins, and \<^verbatim>\<open>src/arch/context.c\<close>.
    \<^item> \<^verbatim>\<open>Onx_Format\<close>, \<^verbatim>\<open>Memory\<close>, \<^verbatim>\<open>Loader\<close>: the writer \<^verbatim>\<open>emit.c\<close>, the paged memory (a locale of byte memories) and the start of
      a program in \<^verbatim>\<open>onx-run.c\<close>; an executable written by the compiler is loaded as it was meant. \<^verbatim>\<open>Syscalls\<close>, \<^verbatim>\<open>Emulator\<close>,
      \<^verbatim>\<open>Emulator_Inv\<close>: system calls, every instruction, and what every reachable state satisfies.
    \<^item> \<^verbatim>\<open>Linker_Input\<close>, \<^verbatim>\<open>Linker\<close>, \<^verbatim>\<open>Linker_Layout\<close>, \<^verbatim>\<open>Linker_Symbols\<close>, \<^verbatim>\<open>Linker_Reloc\<close>: the linker from its input bytes to the
      executable.
    \<^item> \<^verbatim>\<open>Libc_Alloc\<close>, \<^verbatim>\<open>Libc_Alloc_List\<close>, \<^verbatim>\<open>Libc_Alloc_Props\<close>: the heap, a refinement of a list of blocks. \<^verbatim>\<open>Libc_Stream\<close>,
      \<^verbatim>\<open>Libc_Stream_Props\<close>: buffered streams; nothing is lost or reordered however little a system call transfers.
      \<^verbatim>\<open>Libc_Printf\<close>, \<^verbatim>\<open>Libc_Printf_Props\<close>: the format engine over its two sinks (a locale relates a sink to the list of bytes),
      what the decimal conversions print, and where this is not what C99 says.
      \<^verbatim>\<open>Libc_Sort\<close>, \<^verbatim>\<open>Libc_Time\<close>: \<^verbatim>\<open>qsort\<close>, \<^verbatim>\<open>bsearch\<close>, calendar arithmetic.

  \<^bold>\<open>Loops and fuel.\<close> A loop with a measure is a total function. The recursive descents take fuel, and what is shown
  about them is that all large enough amounts give the result: \<^verbatim>\<open>Pp_Expr\<close> gives itself five times the length of the text
  and five more, which is shown to be enough; \<^verbatim>\<open>Const_Eval\<close> and \<^verbatim>\<open>Decl_Parser\<close> take it as an argument (\<^verbatim>\<open>evs\<close> states a result
  for all large fuel); \<^verbatim>\<open>Gen_Expr\<close> ties the recursion of its functions by a record of the functions one level below.
  The fuel of \<^verbatim>\<open>Pp_Source\<close> is the nesting of included files; the rank of the first file is enough. The search of the
  allocator and the write loop of the streams are option-valued: that they return is part of the theorems.

  \<^bold>\<open>Not modelled.\<close> The statements, initialisers and inline assembly of \<^verbatim>\<open>gen.c\<close>, its function prologues, labels and the
  final layout; the rest of \<^verbatim>\<open>parse.c\<close>; the drivers \<^verbatim>\<open>main.c\<close> and \<^verbatim>\<open>shim.c\<close>, which are command lines, files and other
  programs; the arena of \<^verbatim>\<open>util.c\<close>, which is storage only. Of the library: the \<^verbatim>\<open>scanf\<close> family, \<^verbatim>\<open>freopen\<close>, \<^verbatim>\<open>setvbuf\<close>,
  \<^verbatim>\<open>getline\<close>, the text of floating-point numbers and \<^verbatim>\<open>strtod\<close>, strings, character classes, mathematics, clocks, terminals,
  locales, the start of the process and the bare system calls. Texts of messages are not modelled, their number is.
\<close>

end
